(* ===== verification/Rust_Prelude.thy ===== *)
theory Rust_Prelude
  imports Complex_Main "HOL-Library.Word" "HOL-Library.AList"
begin

text \<open>
  Shared vocabulary of the development: machine integers of the Rust source, fallible
  computations over an explicit state, association lists standing for the hash maps of the
  source, and the small list functions of the Rust standard library that several components
  use.

  Conventions.
  \<^item> \<^verbatim>\<open>i64\<close> values are \<open>int\<close>, \<^verbatim>\<open>u32\<close>/\<^verbatim>\<open>u64\<close>/\<^verbatim>\<open>usize\<close> values are \<open>nat\<close>;
    an arithmetic operation that can overflow is written with \<open>wrap_i64\<close>, \<open>add_u64\<close>, ...:
    the release profile of the workspace has overflow checks off, so Rust wraps.
  \<^item> bytes are \<open>8 word\<close>; bit tricks (shifts, xor) are done on words of their width.
  \<^item> a function that returns \<^verbatim>\<open>Result\<close> returns a sum, \<open>Inl\<close> being the error; an effectful
    one is an \<open>io\<close>: a function of the state that returns the result and the next state.
\<close>

section \<open>Collections of proof rules\<close>

named_theorems io_simps \<open>equations that run an effectful computation\<close>
named_theorems wire_simps \<open>equations that run the wire readers on encoded fields\<close>
named_theorems range_simps \<open>facts about machine integer ranges\<close>

section \<open>Machine integers\<close>

type_synonym byte = "8 word"

definition i64_min :: int where "i64_min = - (2 ^ 63)"
definition i64_max :: int where "i64_max = 2 ^ 63 - 1"

definition in_i64 :: "int \<Rightarrow> bool" where
  "in_i64 x \<longleftrightarrow> i64_min \<le> x \<and> x \<le> i64_max"

definition wrap_i64 :: "int \<Rightarrow> int" where
  "wrap_i64 x = (x + 2 ^ 63) mod 2 ^ 64 - 2 ^ 63"

definition clamp_i64 :: "int \<Rightarrow> int" where
  "clamp_i64 x = max i64_min (min i64_max x)"

text \<open>\<^verbatim>\<open>i64::saturating_sub\<close> and \<^verbatim>\<open>i64::saturating_add\<close>.\<close>

definition sat_sub_i64 :: "int \<Rightarrow> int \<Rightarrow> int" where
  "sat_sub_i64 a b = clamp_i64 (a - b)"

definition sat_add_i64 :: "int \<Rightarrow> int \<Rightarrow> int" where
  "sat_add_i64 a b = clamp_i64 (a + b)"

definition u32_max :: nat where "u32_max = 2 ^ 32 - 1"

definition add_u64 :: "nat \<Rightarrow> nat \<Rightarrow> nat" where
  "add_u64 a b = (a + b) mod 2 ^ 64"

text \<open>
  Rust's \<^verbatim>\<open>/\<close> and \<^verbatim>\<open>%\<close> on signed integers round towards zero.
  The callers divide by positive constants or by values they have tested to be positive.
\<close>

definition quot :: "int \<Rightarrow> int \<Rightarrow> int" where
  "quot a b = sgn a * sgn b * (\<bar>a\<bar> div \<bar>b\<bar>)"

definition rmd :: "int \<Rightarrow> int \<Rightarrow> int" where
  "rmd a b = a - b * quot a b"

lemma i64_bounds [range_simps]:
  "in_i64 x \<longleftrightarrow> -9223372036854775808 \<le> x \<and> x \<le> 9223372036854775807"
  by (simp add: in_i64_def i64_min_def i64_max_def)

lemma wrap_i64_id [range_simps]: "in_i64 x \<Longrightarrow> wrap_i64 x = x"
  by (simp add: wrap_i64_def i64_bounds)

lemma wrap_i64_in [intro, simp]: "in_i64 (wrap_i64 x)"
proof -
  have "0 \<le> (x + 2 ^ 63) mod 2 ^ 64" and "(x + 2 ^ 63) mod 2 ^ 64 < (2 ^ 64 :: int)"
    by simp_all
  then show ?thesis by (simp add: wrap_i64_def i64_bounds)
qed

lemma clamp_i64_in [intro, simp]: "in_i64 (clamp_i64 x)"
  by (auto simp: clamp_i64_def in_i64_def i64_min_def i64_max_def)

lemma clamp_i64_id [range_simps]: "in_i64 x \<Longrightarrow> clamp_i64 x = x"
  by (auto simp: clamp_i64_def in_i64_def)

lemma clamp_i64_mono: "x \<le> y \<Longrightarrow> clamp_i64 x \<le> clamp_i64 y"
  by (auto simp: clamp_i64_def)

lemma sat_sub_le: "in_i64 a \<Longrightarrow> 0 \<le> b \<Longrightarrow> sat_sub_i64 a b \<le> a"
  by (auto simp: sat_sub_i64_def clamp_i64_def in_i64_def)

lemma sat_add_ge: "in_i64 a \<Longrightarrow> 0 \<le> b \<Longrightarrow> a \<le> sat_add_i64 a b"
  by (auto simp: sat_add_i64_def clamp_i64_def in_i64_def)

lemma add_u64_id [range_simps]: "a + b < 2 ^ 64 \<Longrightarrow> add_u64 a b = a + b"
  by (simp add: add_u64_def)

lemma quot_nonneg: "0 \<le> a \<Longrightarrow> 0 < b \<Longrightarrow> quot a b = a div b"
  by (cases "a = 0") (simp_all add: quot_def)

lemma quot_neg: "a \<le> 0 \<Longrightarrow> 0 < b \<Longrightarrow> quot a b = - ((- a) div b)"
  by (cases "a = 0") (simp_all add: quot_def)

lemma rmd_nonneg: "0 \<le> a \<Longrightarrow> 0 < b \<Longrightarrow> rmd a b = a mod b"
  by (simp add: rmd_def quot_nonneg minus_mult_div_eq_mod)

lemma rmd_neg: "a \<le> 0 \<Longrightarrow> 0 < b \<Longrightarrow> rmd a b = - ((- a) mod b)"
  by (simp add: rmd_def quot_neg minus_mult_div_eq_mod[symmetric])

lemma quot_rmd: "b * quot a b + rmd a b = a"
  by (simp add: rmd_def)

lemma quot_minus: "quot (- a) b = - quot a b"
  by (simp add: quot_def sgn_minus)

lemma rmd_minus: "rmd (- a) b = - rmd a b"
  by (simp add: rmd_def quot_minus)

section \<open>Effectful computations\<close>

type_synonym ('s, 'e, 'a) io = "'s \<Rightarrow> ('e + 'a) \<times> 's"

definition io_ret :: "'a \<Rightarrow> ('s, 'e, 'a) io" where
  "io_ret a = (\<lambda>s. (Inr a, s))"

definition io_fail :: "'e \<Rightarrow> ('s, 'e, 'a) io" where
  "io_fail e = (\<lambda>s. (Inl e, s))"

text \<open>The \<^verbatim>\<open>?\<close> operator: run \<open>m\<close>, return early on an error, go on with its value.\<close>

definition io_bind :: "('s, 'e, 'a) io \<Rightarrow> ('a \<Rightarrow> ('s, 'e, 'b) io) \<Rightarrow> ('s, 'e, 'b) io" where
  "io_bind m f = (\<lambda>s. case m s of (Inl e, t) \<Rightarrow> (Inl e, t) | (Inr a, t) \<Rightarrow> f a t)"

definition io_then :: "('s, 'e, unit) io \<Rightarrow> ('s, 'e, 'b) io \<Rightarrow> ('s, 'e, 'b) io" where
  "io_then m n = io_bind m (\<lambda>_. n)"

definition io_get :: "('s \<Rightarrow> 'a) \<Rightarrow> ('s, 'e, 'a) io" where
  "io_get f = (\<lambda>s. (Inr (f s), s))"

definition io_mod :: "('s \<Rightarrow> 's) \<Rightarrow> ('s, 'e, unit) io" where
  "io_mod f = (\<lambda>s. (Inr (), f s))"

definition io_ensure :: "bool \<Rightarrow> 'e \<Rightarrow> ('s, 'e, unit) io" where
  "io_ensure b e = (if b then io_ret () else io_fail e)"

text \<open>\<^verbatim>\<open>match m.await { Ok(a) => f a, Err(e) => g e }\<close>: the error is handled, not propagated.\<close>

definition io_match ::
  "('s, 'e, 'a) io \<Rightarrow> ('a \<Rightarrow> ('s, 'd, 'b) io) \<Rightarrow> ('e \<Rightarrow> ('s, 'd, 'b) io) \<Rightarrow> ('s, 'd, 'b) io" where
  "io_match m f g = (\<lambda>s. case m s of (Inl e, t) \<Rightarrow> g e t | (Inr a, t) \<Rightarrow> f a t)"

text \<open>\<^verbatim>\<open>let _ = m.await\<close>: the result is ignored.\<close>

definition io_ignore :: "('s, 'd, 'a) io \<Rightarrow> ('s, 'e, unit) io" where
  "io_ignore m = io_match m (\<lambda>_. io_ret ()) (\<lambda>_. io_ret ())"

fun io_for :: "'a list \<Rightarrow> ('a \<Rightarrow> ('s, 'e, unit) io) \<Rightarrow> ('s, 'e, unit) io" where
  "io_for [] f = io_ret ()"
| "io_for (x # xs) f = io_then (f x) (io_for xs f)"

lemma io_run [io_simps]:
  "io_ret a s = (Inr a, s)"
  "io_fail e s = (Inl e, s)"
  "io_get g s = (Inr (g s), s)"
  "io_mod h s = (Inr (), h s)"
  by (simp_all add: io_ret_def io_fail_def io_get_def io_mod_def)

lemma io_bind_run [io_simps]:
  "m s = (Inr a, t) \<Longrightarrow> io_bind m f s = f a t"
  "m s = (Inl e, t) \<Longrightarrow> io_bind m f s = (Inl e, t)"
  by (simp_all add: io_bind_def)

lemma io_bind_ret [io_simps]: "io_bind (io_ret a) f = f a"
  by (simp add: io_bind_def io_ret_def)

lemma io_bind_fail [io_simps]: "io_bind (io_fail e) f = io_fail e"
  by (simp add: io_bind_def io_fail_def)

lemma io_then_run [io_simps]:
  "m s = (Inr (), t) \<Longrightarrow> io_then m n s = n t"
  "m s = (Inl e, t) \<Longrightarrow> io_then m n s = (Inl e, t)"
  by (simp_all add: io_then_def io_bind_def)

lemma io_match_run [io_simps]:
  "m s = (Inr a, t) \<Longrightarrow> io_match m f g s = f a t"
  "m s = (Inl e, t) \<Longrightarrow> io_match m f g s = g e t"
  by (simp_all add: io_match_def)

lemma io_ensure_run [io_simps]:
  "b \<Longrightarrow> io_ensure b e s = (Inr (), s)"
  "\<not> b \<Longrightarrow> io_ensure b e s = (Inl e, s)"
  by (simp_all add: io_ensure_def io_run)

lemma io_bind_Inr:
  "io_bind m f s = (Inr b, u) \<longleftrightarrow> (\<exists>a t. m s = (Inr a, t) \<and> f a t = (Inr b, u))"
  by (auto simp: io_bind_def split: prod.splits sum.splits)

lemma io_bind_Inl:
  "io_bind m f s = (Inl e, u) \<longleftrightarrow>
     m s = (Inl e, u) \<or> (\<exists>a t. m s = (Inr a, t) \<and> f a t = (Inl e, u))"
  by (auto simp: io_bind_def split: prod.splits sum.splits)

text \<open>
  A predicate on the state that a computation keeps, whatever its result. The components
  state their invariants this way, so that a handler's proof is one rule application per call.
\<close>

definition io_keeps :: "('s \<Rightarrow> bool) \<Rightarrow> ('s, 'e, 'a) io \<Rightarrow> bool" where
  "io_keeps P m \<longleftrightarrow> (\<forall>s. P s \<longrightarrow> P (snd (m s)))"

lemma io_keepsI: "(\<And>s. P s \<Longrightarrow> P (snd (m s))) \<Longrightarrow> io_keeps P m"
  by (simp add: io_keeps_def)

lemma io_keepsD: "io_keeps P m \<Longrightarrow> P s \<Longrightarrow> P (snd (m s))"
  by (simp add: io_keeps_def)

lemma io_keeps_ret [intro]: "io_keeps P (io_ret a)"
  by (simp add: io_keeps_def io_run)

lemma io_keeps_fail [intro]: "io_keeps P (io_fail e)"
  by (simp add: io_keeps_def io_run)

lemma io_keeps_get [intro]: "io_keeps P (io_get f)"
  by (simp add: io_keeps_def io_run)

lemma io_keeps_mod: "(\<And>s. P s \<Longrightarrow> P (f s)) \<Longrightarrow> io_keeps P (io_mod f)"
  by (simp add: io_keeps_def io_run)

lemma io_keeps_bind [intro]:
  "io_keeps P m \<Longrightarrow> (\<And>a. io_keeps P (f a)) \<Longrightarrow> io_keeps P (io_bind m f)"
  by (fastforce simp: io_keeps_def io_bind_def split: prod.splits sum.splits)

lemma io_keeps_then [intro]:
  "io_keeps P m \<Longrightarrow> io_keeps P n \<Longrightarrow> io_keeps P (io_then m n)"
  unfolding io_then_def by blast

lemma io_keeps_match [intro]:
  "io_keeps P m \<Longrightarrow> (\<And>a. io_keeps P (f a)) \<Longrightarrow> (\<And>e. io_keeps P (g e)) \<Longrightarrow>
     io_keeps P (io_match m f g)"
  by (fastforce simp: io_keeps_def io_match_def split: prod.splits sum.splits)

lemma io_keeps_ignore [intro]: "io_keeps P m \<Longrightarrow> io_keeps P (io_ignore m)"
  unfolding io_ignore_def by blast

lemma io_keeps_ensure [intro]: "io_keeps P (io_ensure b e)"
  by (simp add: io_ensure_def io_keeps_def io_run)

lemma io_keeps_for [intro]: "(\<And>x. io_keeps P (f x)) \<Longrightarrow> io_keeps P (io_for xs f)"
  by (induction xs) auto

section \<open>Hash maps as association lists\<close>

text \<open>
  A \<^verbatim>\<open>HashMap\<close> is an association list with distinct keys; the list order stands for the
  iteration order, which Rust leaves unspecified, so a theorem about every such list covers
  every iteration order. \<open>AList.update\<close> and \<open>AList.delete\<close> are \<^verbatim>\<open>insert\<close> and \<^verbatim>\<open>remove\<close>.
\<close>

definition keys_ok :: "('k \<times> 'v) list \<Rightarrow> bool" where
  "keys_ok m \<longleftrightarrow> distinct (map fst m)"

lemma keys_ok_update [intro, simp]: "keys_ok m \<Longrightarrow> keys_ok (AList.update k v m)"
  by (simp add: keys_ok_def distinct_update)

lemma keys_ok_delete [intro, simp]: "keys_ok m \<Longrightarrow> keys_ok (AList.delete k m)"
  by (simp add: keys_ok_def distinct_delete)

lemma keys_ok_Nil [simp]: "keys_ok []"
  by (simp add: keys_ok_def)

lemma keys_ok_filter [intro, simp]: "keys_ok m \<Longrightarrow> keys_ok (filter P m)"
  unfolding keys_ok_def by (induction m) auto

text \<open>Sums over an association list follow insertion and removal of a key.\<close>

definition sum_alist :: "('v \<Rightarrow> nat) \<Rightarrow> ('k \<times> 'v) list \<Rightarrow> nat" where
  "sum_alist f m = (\<Sum>(k, v)\<leftarrow>m. f v)"

lemma sum_alist_simps [simp]:
  "sum_alist f [] = 0"
  "sum_alist f ((k, v) # m) = f v + sum_alist f m"
  by (simp_all add: sum_alist_def)

lemma delete_idle: "k \<notin> fst ` set m \<Longrightarrow> AList.delete k m = m"
  by (induction m) (auto simp: AList.delete_eq)

lemma sum_alist_delete:
  "keys_ok m \<Longrightarrow>
     sum_alist f m = (case map_of m k of None \<Rightarrow> 0 | Some v \<Rightarrow> f v) + sum_alist f (AList.delete k m)"
proof (induction m)
  case Nil
  then show ?case by simp
next
  case (Cons a m)
  obtain k' v where a: "a = (k', v)" by force
  from Cons.prems a have ok: "keys_ok m" and notin: "k' \<notin> fst ` set m"
    by (auto simp: keys_ok_def)
  show ?case
  proof (cases "k' = k")
    case True
    with a notin show ?thesis by (simp add: delete_idle)
  next
    case False
    with a Cons.IH [OF ok] show ?thesis by simp
  qed
qed

lemma sum_alist_update_new:
  "k \<notin> fst ` set m \<Longrightarrow> sum_alist f (AList.update k v m) = f v + sum_alist f m"
  by (induction m) auto

lemma sum_alist_filter_le: "sum_alist f (filter P m) \<le> sum_alist f m"
  by (induction m) auto

lemma sum_alist_update_le:
  "sum_alist f (AList.update k v m) \<le> f v + sum_alist f m"
  by (induction m) auto

lemma sum_alist_delete_le: "sum_alist f (AList.delete k m) \<le> sum_alist f m"
  by (simp add: AList.delete_eq sum_alist_filter_le)

lemma map_of_delete_eq: "map_of (AList.delete k m) = (map_of m)(k := None)"
  by (simp add: delete_conv fun_eq_iff)

lemma map_of_update_eq: "map_of (AList.update k v m) = (map_of m)(k \<mapsto> v)"
  by (rule update_conv')

lemma not_in_image_filter: "k \<in> B \<Longrightarrow> k \<notin> f ` {x \<in> A. f x \<notin> B}"
  by auto

section \<open>List functions of the Rust library\<close>

text \<open>
  \<^verbatim>\<open>Iterator::min_by_key\<close> returns the first element with the least key,
  \<^verbatim>\<open>Iterator::max_by_key\<close> the last one with the greatest.
\<close>

fun min_by_key :: "('a \<Rightarrow> 'k::linorder) \<Rightarrow> 'a list \<Rightarrow> 'a option" where
  "min_by_key f [] = None"
| "min_by_key f (x # xs) =
     (case min_by_key f xs of None \<Rightarrow> Some x | Some y \<Rightarrow> if f x \<le> f y then Some x else Some y)"

fun max_by_key :: "('a \<Rightarrow> 'k::linorder) \<Rightarrow> 'a list \<Rightarrow> 'a option" where
  "max_by_key f [] = None"
| "max_by_key f (x # xs) =
     (case max_by_key f xs of None \<Rightarrow> Some x | Some y \<Rightarrow> if f x \<le> f y then Some y else Some x)"

lemma min_by_key_None [simp]: "min_by_key f xs = None \<longleftrightarrow> xs = []"
  by (cases xs) (auto split: option.splits)

lemma min_by_key_mem: "min_by_key f xs = Some x \<Longrightarrow> x \<in> set xs"
  by (induction xs arbitrary: x) (auto split: option.splits if_splits)

lemma min_by_key_least: "min_by_key f xs = Some x \<Longrightarrow> y \<in> set xs \<Longrightarrow> f x \<le> f y"
proof (induction xs arbitrary: x)
  case Nil
  then show ?case by simp
next
  case (Cons z zs)
  show ?case
  proof (cases "min_by_key f zs")
    case None
    with Cons.prems show ?thesis by simp
  next
    case (Some w)
    with Cons show ?thesis by (auto split: if_splits)
  qed
qed

lemma max_by_key_None [simp]: "max_by_key f xs = None \<longleftrightarrow> xs = []"
  by (cases xs) (auto split: option.splits)

lemma max_by_key_mem: "max_by_key f xs = Some x \<Longrightarrow> x \<in> set xs"
  by (induction xs arbitrary: x) (auto split: option.splits if_splits)

lemma max_by_key_greatest: "max_by_key f xs = Some x \<Longrightarrow> y \<in> set xs \<Longrightarrow> f y \<le> f x"
proof (induction xs arbitrary: x)
  case Nil
  then show ?case by simp
next
  case (Cons z zs)
  show ?case
  proof (cases "max_by_key f zs")
    case None
    with Cons.prems show ?thesis by simp
  next
    case (Some w)
    with Cons show ?thesis by (auto split: if_splits)
  qed
qed

text \<open>\<^verbatim>\<open>slice::chunks(n)\<close> for \<open>n > 0\<close>; the source always passes a positive size.\<close>

function chunks :: "nat \<Rightarrow> 'a list \<Rightarrow> 'a list list" where
  "chunks n xs = (if xs = [] \<or> n = 0 then [] else take n xs # chunks n (drop n xs))"
  by pat_completeness auto
termination
  by (relation "measure (\<lambda>(n, xs). length xs)") auto

declare chunks.simps [simp del]

lemma concat_chunks: "0 < n \<Longrightarrow> concat (chunks n xs) = xs"
  by (induction n xs rule: chunks.induct) (simp add: chunks.simps)

lemma chunks_bounds: "c \<in> set (chunks n xs) \<Longrightarrow> c \<noteq> [] \<and> length c \<le> n"
proof (induction n xs rule: chunks.induct)
  case (1 n xs)
  then show ?case
    by (cases "xs = [] \<or> n = 0") (auto simp: chunks.simps [of n xs])
qed

text \<open>
  \<^verbatim>\<open>slice::partition_point\<close>: the binary search of the standard library. On a slice that is not
  partitioned by the predicate it still returns some index.
\<close>

function halve :: "('a \<Rightarrow> bool) \<Rightarrow> 'a list \<Rightarrow> nat \<Rightarrow> nat \<Rightarrow> nat" where
  "halve P xs base n =
     (if n \<le> 1 then base
      else halve P xs (if P (xs ! (base + n div 2)) then base + n div 2 else base) (n - n div 2))"
  by pat_completeness auto
termination
  by (relation "measure (\<lambda>(P, xs, base, n). n)") auto

declare halve.simps [simp del]

definition partition_point :: "('a \<Rightarrow> bool) \<Rightarrow> 'a list \<Rightarrow> nat" where
  "partition_point P xs =
     (if xs = [] then 0
      else (let base = halve P xs 0 (length xs) in if P (xs ! base) then base + 1 else base))"

lemma halve_bounds:
  assumes P: "\<And>i. i < length xs \<Longrightarrow> P (xs ! i) \<longleftrightarrow> i < k"
  shows "0 < n \<Longrightarrow> base + n \<le> length xs \<Longrightarrow> base = 0 \<or> base < k \<Longrightarrow> k \<le> base + n \<Longrightarrow>
    (halve P xs base n = 0 \<or> halve P xs base n < k) \<and> k \<le> halve P xs base n + 1 \<and> halve P xs base n < length xs"
proof (induction n arbitrary: base rule: less_induct)
  case (less n)
  show ?case
  proof (cases "n \<le> 1")
    case True
    with less.prems show ?thesis by (simp add: halve.simps [of P xs base n])
  next
    case False
    let ?m = "base + n div 2" and ?n = "n - n div 2"
    have m: "?m < length xs" "?n < n" "0 < ?n" "?m \<le> base + ?n"
      using False less.prems(2) by linarith+
    show ?thesis
    proof (cases "P (xs ! ?m)")
      case True
      then have "?m < k" using P [OF m(1)] by simp
      then show ?thesis
        using less.IH [OF m(2,3), of ?m] less.prems True False by (simp add: halve.simps [of P xs base n])
    next
      case False
      then have "k \<le> ?m" using P [OF m(1)] by simp
      then show ?thesis
        using less.IH [OF m(2,3), of base] less.prems m(4) False \<open>\<not> n \<le> 1\<close>
        by (simp add: halve.simps [of P xs base n])
    qed
  qed
qed

lemma partition_point_take:
  assumes "\<And>i j. i < j \<Longrightarrow> j < length xs \<Longrightarrow> P (xs ! j) \<Longrightarrow> P (xs ! i)"
  shows "partition_point P xs = length (takeWhile P xs)"
proof (cases "xs = []")
  case True
  then show ?thesis by (simp add: partition_point_def)
next
  case False
  let ?k = "length (takeWhile P xs)" let ?b = "halve P xs 0 (length xs)"
  have k: "?k \<le> length xs" by (rule length_takeWhile_le)
  have part: "P (xs ! i) \<longleftrightarrow> i < ?k" if "i < length xs" for i
  proof
    assume Pi: "P (xs ! i)"
    show "i < ?k"
    proof (rule ccontr)
      assume "\<not> i < ?k"
      then have "?k < length xs" "P (xs ! ?k)"
        using that Pi assms [of ?k i] by (cases "?k = i"; simp)+
      then show False using nth_length_takeWhile [of P xs] by simp
    qed
  next
    assume "i < ?k"
    then have "takeWhile P xs ! i \<in> set (takeWhile P xs)" by (rule nth_mem)
    with \<open>i < ?k\<close> show "P (xs ! i)" using set_takeWhileD takeWhile_nth by metis
  qed
  have "(?b = 0 \<or> ?b < ?k) \<and> ?k \<le> ?b + 1 \<and> ?b < length xs"
    using halve_bounds [of xs P ?k "length xs" 0] part False k by simp
  then show ?thesis using part [of ?b] False by (auto simp: partition_point_def Let_def)
qed

text \<open>\<^verbatim>\<open>slice::get\<close>.\<close>

definition slice_get :: "'a list \<Rightarrow> nat \<Rightarrow> 'a option" where
  "slice_get xs i = (if i < length xs then Some (xs ! i) else None)"

lemma slice_get_mem: "slice_get xs i = Some x \<Longrightarrow> x \<in> set xs"
  by (auto simp: slice_get_def split: if_splits)

end
