(* ===== verification/Rust_Text.thy ===== *)
theory Rust_Text
  imports Rust_Prelude
begin

text \<open>
  Strings of the Rust source as lists of bytes (\<open>char\<close>), and the formatting and parsing
  functions the components use: \<^verbatim>\<open>format!\<close> of integers with zero padding, \<^verbatim>\<open>str::parse\<close>,
  \<^verbatim>\<open>split_once\<close>, \<^verbatim>\<open>rsplit_once\<close>, \<^verbatim>\<open>strip_prefix\<close>, \<^verbatim>\<open>strip_suffix\<close>,
  \<^verbatim>\<open>split_whitespace\<close> and \<^verbatim>\<open>lines\<close>.
  White space is the ASCII white space: the texts parsed here are written by the program itself.
\<close>

section \<open>Decimal numbers\<close>

definition is_digit :: "char \<Rightarrow> bool" where
  "is_digit c \<longleftrightarrow> 48 \<le> (of_char c :: nat) \<and> (of_char c :: nat) \<le> 57"

definition digit_val :: "char \<Rightarrow> nat" where
  "digit_val c = of_char c - 48"

definition digit_char :: "nat \<Rightarrow> char" where
  "digit_char n = char_of (48 + n)"

fun show_nat :: "nat \<Rightarrow> string" where
  "show_nat n = (if n < 10 then [digit_char n] else show_nat (n div 10) @ [digit_char (n mod 10)])"

declare show_nat.simps [simp del]

text \<open>\<^verbatim>\<open>{i:0w}\<close>: the sign counts towards the width and stays in front of the zeros.\<close>

definition show_pad :: "nat \<Rightarrow> int \<Rightarrow> string" where
  "show_pad w i =
     (let sg = (if i < 0 then ''-'' else []); d = show_nat (nat \<bar>i\<bar>)
      in sg @ replicate (w - length sg - length d) CHR ''0'' @ d)"

definition show_int :: "int \<Rightarrow> string" where
  "show_int i = show_pad 0 i"

definition digits_val :: "nat \<Rightarrow> string \<Rightarrow> nat" where
  "digits_val = foldl (\<lambda>acc c. 10 * acc + digit_val c)"

definition parse_digits :: "string \<Rightarrow> nat option" where
  "parse_digits s = (if s = [] \<or> \<not> list_all is_digit s then None else Some (digits_val 0 s))"

text \<open>\<^verbatim>\<open>str::parse::<u32>()\<close> and \<^verbatim>\<open><u64>\<close>: an optional \<^verbatim>\<open>+\<close>, digits, a range check.\<close>

definition parse_unsigned :: "nat \<Rightarrow> string \<Rightarrow> nat option" where
  "parse_unsigned bits s =
     (case parse_digits (if s \<noteq> [] \<and> hd s = CHR ''+'' then tl s else s) of
        None \<Rightarrow> None
      | Some v \<Rightarrow> if v < 2 ^ bits then Some v else None)"

definition parse_i64 :: "string \<Rightarrow> int option" where
  "parse_i64 s =
     (case s of
        [] \<Rightarrow> None
      | c # t \<Rightarrow>
          (case parse_digits (if c = CHR ''-'' \<or> c = CHR ''+'' then t else s) of
             None \<Rightarrow> None
           | Some v \<Rightarrow>
               (let i = (if c = CHR ''-'' then - int v else int v)
                in if in_i64 i then Some i else None)))"

lemma of_char_digit: "n < 10 \<Longrightarrow> of_char (digit_char n) = (48 + n :: nat)"
  unfolding digit_char_def of_char_of by simp

lemma digit_char_is_digit [simp]: "n < 10 \<Longrightarrow> is_digit (digit_char n)"
  by (simp add: is_digit_def of_char_digit)

lemma digit_val_char [simp]: "n < 10 \<Longrightarrow> digit_val (digit_char n) = n"
  by (simp add: digit_val_def of_char_digit)

lemma zero_digit [simp]: "is_digit CHR ''0''" "digit_val CHR ''0'' = 0"
  by (simp_all add: is_digit_def digit_val_def)

lemma show_nat_digits: "list_all is_digit (show_nat n)"
proof (induction n rule: show_nat.induct)
  case (1 n)
  then show ?case by (cases "n < 10") (simp_all add: show_nat.simps [of n])
qed

lemma show_nat_nonempty [simp]: "show_nat n \<noteq> []"
  by (simp add: show_nat.simps [of n])

lemma digits_val_snoc: "digits_val a (s @ [c]) = 10 * digits_val a s + digit_val c"
  by (simp add: digits_val_def)

lemma digits_val_show: "digits_val 0 (show_nat n) = n"
proof (induction n rule: show_nat.induct)
  case (1 n)
  show ?case
  proof (cases "n < 10")
    case True
    then show ?thesis by (simp add: show_nat.simps [of n] digits_val_def)
  next
    case False
    with "1.IH" show ?thesis by (simp add: show_nat.simps [of n] digits_val_snoc)
  qed
qed

lemma digits_val_zeros: "digits_val 0 (replicate k CHR ''0'' @ s) = digits_val 0 s"
  by (induction k) (simp_all add: digits_val_def)

lemma parse_digits_show [simp]:
  "parse_digits (replicate k CHR ''0'' @ show_nat n) = Some n"
  using show_nat_digits [of n]
  by (auto simp: parse_digits_def digits_val_zeros digits_val_show list_all_iff)

lemma digit_not_sign: "is_digit c \<Longrightarrow> c \<noteq> CHR ''-'' \<and> c \<noteq> CHR ''+''"
  by (auto simp: is_digit_def)

lemma pad_hd_digit:
  "is_digit (hd (replicate k CHR ''0'' @ show_nat n))"
  using show_nat_digits [of n] by (cases k; cases "show_nat n") auto

lemma parse_i64_show_pad [simp]:
  assumes "in_i64 i"
  shows "parse_i64 (show_pad w i) = Some i"
proof -
  define body where "body k = replicate k CHR ''0'' @ show_nat (nat \<bar>i\<bar>)" for k
  have val: "parse_digits (body k) = Some (nat \<bar>i\<bar>)" for k
    by (simp add: body_def)
  show ?thesis
  proof (cases "i < 0")
    case True
    then have "show_pad w i = CHR ''-'' # body (w - 1 - length (show_nat (nat \<bar>i\<bar>)))"
      by (simp add: show_pad_def body_def Let_def)
    with True val assms show ?thesis by (simp add: parse_i64_def Let_def)
  next
    case False
    define b where "b = body (w - length (show_nat (nat \<bar>i\<bar>)))"
    have "b \<noteq> []" and "is_digit (hd b)"
      unfolding b_def body_def by (simp, rule pad_hd_digit)
    then obtain c t where b: "b = c # t" and c: "is_digit c"
      by (cases b) auto
    from False have "show_pad w i = b"
      by (simp add: show_pad_def b_def body_def Let_def)
    with b digit_not_sign [OF c] have "parse_i64 (show_pad w i) =
        (case parse_digits b of None \<Rightarrow> None
         | Some v \<Rightarrow> if in_i64 (int v) then Some (int v) else None)"
      by (auto simp: parse_i64_def Let_def split: option.splits)
    with val False assms show ?thesis by (simp add: b_def)
  qed
qed

lemma parse_unsigned_show [simp]:
  "n < 2 ^ bits \<Longrightarrow> parse_unsigned bits (show_nat n) = Some n"
  using parse_digits_show [of 0 n] pad_hd_digit [of 0 n] digit_not_sign [of "hd (show_nat n)"]
  by (simp add: parse_unsigned_def)

definition pad_char :: "char \<Rightarrow> bool" where
  "pad_char c \<longleftrightarrow> is_digit c \<or> c = CHR ''-''"

lemma show_nat_chars: "c \<in> set (show_nat n) \<Longrightarrow> is_digit c"
  using show_nat_digits [of n] by (auto simp: list_all_iff)

lemma show_pad_chars: "c \<in> set (show_pad w i) \<Longrightarrow> pad_char c"
  by (auto simp: show_pad_def pad_char_def Let_def dest: show_nat_chars split: if_splits)

lemma show_pad_nonempty [simp]: "show_pad w i \<noteq> []"
  by (simp add: show_pad_def Let_def)

section \<open>Splitting\<close>

definition split_once :: "char \<Rightarrow> string \<Rightarrow> (string \<times> string) option" where
  "split_once c s =
     (if c \<in> set s then Some (takeWhile (\<lambda>x. x \<noteq> c) s, tl (dropWhile (\<lambda>x. x \<noteq> c) s)) else None)"

definition rsplit_once :: "char \<Rightarrow> string \<Rightarrow> (string \<times> string) option" where
  "rsplit_once c s =
     (case split_once c (rev s) of None \<Rightarrow> None | Some (b, a) \<Rightarrow> Some (rev a, rev b))"

definition strip_prefix :: "string \<Rightarrow> string \<Rightarrow> string option" where
  "strip_prefix p s = (if take (length p) s = p then Some (drop (length p) s) else None)"

definition strip_suffix :: "string \<Rightarrow> string \<Rightarrow> string option" where
  "strip_suffix p s =
     (case strip_prefix (rev p) (rev s) of None \<Rightarrow> None | Some t \<Rightarrow> Some (rev t))"

definition ends_with :: "string \<Rightarrow> string \<Rightarrow> bool" where
  "ends_with p s \<longleftrightarrow> strip_suffix p s \<noteq> None"

lemma split_once_app [simp]: "c \<notin> set a \<Longrightarrow> split_once c (a @ c # b) = Some (a, b)"
proof -
  assume c: "c \<notin> set a"
  then have "takeWhile (\<lambda>x. x \<noteq> c) (a @ c # b) = a"
    and "dropWhile (\<lambda>x. x \<noteq> c) (a @ c # b) = c # b"
    by (simp_all add: takeWhile_append dropWhile_append)
  then show ?thesis by (simp add: split_once_def)
qed

lemma rsplit_once_app [simp]: "c \<notin> set b \<Longrightarrow> rsplit_once c (a @ c # b) = Some (a, b)"
  using split_once_app [of c "rev b" "rev a"] by (simp add: rsplit_once_def)

lemma strip_prefix_app [simp]: "strip_prefix p (p @ s) = Some s"
  by (simp add: strip_prefix_def)

lemma strip_suffix_app [simp]: "strip_suffix p (s @ p) = Some s"
  by (simp add: strip_suffix_def)

definition is_ws :: "char \<Rightarrow> bool" where
  "is_ws c \<longleftrightarrow> (of_char c :: nat) \<in> {9, 10, 11, 12, 13, 32}"

function split_whitespace :: "string \<Rightarrow> string list" where
  "split_whitespace s =
     (let t = dropWhile is_ws s
      in if t = [] then []
         else takeWhile (\<lambda>c. \<not> is_ws c) t # split_whitespace (dropWhile (\<lambda>c. \<not> is_ws c) t))"
  by pat_completeness auto
termination
proof (relation "measure length", simp)
  fix s t :: string
  assume t: "t = dropWhile is_ws s" and ne: "t \<noteq> []"
  then have "\<not> is_ws (hd t)" by (metis hd_dropWhile)
  with ne have "length (dropWhile (\<lambda>c. \<not> is_ws c) t) < length t"
    by (cases t) (auto simp: less_Suc_eq_le length_dropWhile_le)
  moreover have "length t \<le> length s" by (simp add: t length_dropWhile_le)
  ultimately show "(dropWhile (\<lambda>c. \<not> is_ws c) t, s) \<in> measure length" by simp
qed

declare split_whitespace.simps [simp del]

text \<open>
  \<^verbatim>\<open>str::lines\<close>: the pieces between line feeds, without a trailing carriage return; a final
  line feed does not start another line.
\<close>

definition strip_cr :: "string \<Rightarrow> string" where
  "strip_cr l = (if l \<noteq> [] \<and> last l = CHR 0x0D then butlast l else l)"

function str_lines :: "string \<Rightarrow> string list" where
  "str_lines s =
     (if s = [] then []
      else case split_once CHR 0x0A s of
             None \<Rightarrow> [s]
           | Some (l, rest) \<Rightarrow> strip_cr l # str_lines rest)"
  by pat_completeness auto
termination
proof (relation "measure length", simp)
  fix s :: string and p l rest
  assume "s \<noteq> []" and "split_once CHR 0x0A s = Some p" and "(l, rest) = p"
  then have "rest = tl (dropWhile (\<lambda>x. x \<noteq> CHR 0x0A) s)"
    by (auto simp: split_once_def split: if_splits)
  moreover have "length (dropWhile (\<lambda>x. x \<noteq> CHR 0x0A) s) \<le> length s"
    by (rule length_dropWhile_le)
  ultimately have "length rest < length s"
    using \<open>s \<noteq> []\<close> by (cases s) auto
  then show "(rest, s) \<in> measure length" by simp
qed

declare str_lines.simps [simp del]

definition no_ws :: "string \<Rightarrow> bool" where
  "no_ws s \<longleftrightarrow> s \<noteq> [] \<and> list_all (\<lambda>c. \<not> is_ws c) s"

lemma pad_char_no_ws: "pad_char c \<Longrightarrow> \<not> is_ws c"
  by (auto simp: pad_char_def is_digit_def is_ws_def)

lemma no_ws_show_pad [simp]: "no_ws (show_pad w i)"
  by (auto simp: no_ws_def list_all_iff dest: show_pad_chars pad_char_no_ws)

lemma no_ws_show_nat [simp]: "no_ws (show_nat n)"
  by (auto simp: no_ws_def list_all_iff is_digit_def is_ws_def dest!: show_nat_chars)

lemma dropWhile_hd: "s \<noteq> [] \<Longrightarrow> \<not> P (hd s) \<Longrightarrow> dropWhile P s = s"
  by (cases s) auto

lemma split_ws_single: "no_ws w \<Longrightarrow> split_whitespace w = [w]"
proof -
  assume w: "no_ws w"
  then have "dropWhile is_ws w = w"
    by (intro dropWhile_hd) (auto simp: no_ws_def list_all_iff)
  moreover from w have "takeWhile (\<lambda>c. \<not> is_ws c) w = w" and "dropWhile (\<lambda>c. \<not> is_ws c) w = []"
    by (auto simp: no_ws_def list_all_iff takeWhile_eq_all_conv dropWhile_eq_Nil_conv)
  moreover have "split_whitespace [] = []"
    by (simp add: split_whitespace.simps)
  ultimately show ?thesis using w
    unfolding split_whitespace.simps [of w] Let_def by (simp only: no_ws_def if_False)
qed

lemma split_ws_space: "split_whitespace (CHR '' '' # r) = split_whitespace r"
  by (simp add: split_whitespace.simps [of "CHR '' '' # r"] split_whitespace.simps [of r] is_ws_def)

lemma split_ws_cons: "no_ws w \<Longrightarrow> split_whitespace (w @ CHR '' '' # r) = w # split_whitespace r"
proof -
  assume w: "no_ws w"
  let ?s = "w @ CHR '' '' # r"
  from w have "dropWhile is_ws ?s = ?s"
    by (intro dropWhile_hd) (auto simp: no_ws_def list_all_iff)
  moreover from w have "takeWhile (\<lambda>c. \<not> is_ws c) ?s = w"
    and "dropWhile (\<lambda>c. \<not> is_ws c) ?s = CHR '' '' # r"
    by (auto simp: no_ws_def list_all_iff takeWhile_append dropWhile_append is_ws_def)
  ultimately show ?thesis
    by (simp add: split_whitespace.simps [of ?s] split_ws_space)
qed

definition line_ok :: "string \<Rightarrow> bool" where
  "line_ok l \<longleftrightarrow> CHR 0x0A \<notin> set l \<and> (l = [] \<or> last l \<noteq> CHR 0x0D)"

lemma str_lines_Nil [simp]: "str_lines [] = []"
  by (simp add: str_lines.simps)

lemma str_lines_cons: "line_ok l \<Longrightarrow> str_lines (l @ CHR 0x0A # rest) = l # str_lines rest"
proof -
  assume l: "line_ok l"
  then have "strip_cr l = l" by (auto simp: strip_cr_def line_ok_def)
  moreover from l have "split_once CHR 0x0A (l @ CHR 0x0A # rest) = Some (l, rest)"
    by (simp add: line_ok_def)
  ultimately show ?thesis unfolding str_lines.simps [of "l @ CHR 0x0A # rest"] by simp
qed

lemma str_lines_concat:
  "list_all line_ok ls \<Longrightarrow> str_lines (concat (map (\<lambda>l. l @ [CHR 0x0A]) ls)) = ls"
  by (induction ls) (simp_all add: str_lines_cons)

end
