(* ===== verification/Frame_Times.thy ===== *)
theory Frame_Times
  imports Rust_Text
begin

text \<open>
  Frame numbers and frame file names: \<^verbatim>\<open>crates/jfs-common/src/fps_utils.rs\<close>, the
  time helpers of \<^verbatim>\<open>disk_cache.rs\<close> and the name of a cached frame file.
  The lemmas show that the frame number is the nearest one, that it recovers the frame a
  rounded time stamp came from, and that a file name is read back as it was written.
\<close>

section \<open>Frame numbers\<close>

text \<open>
  \<^verbatim>\<open>i64\<close> products and sums wrap; the divisor wraps to 0 for some huge \<open>fps_den\<close>, where Rust
  panics. A panic is \<open>None\<close>.
\<close>

definition compute_frame_idx :: "int \<Rightarrow> int \<Rightarrow> int \<Rightarrow> int option" where
  "compute_frame_idx actual_pts_ms fps_num fps_den =
     (if fps_num \<le> 0 \<or> fps_den \<le> 0 then Some (-1)
      else
        (let n = wrap_i64 (wrap_i64 (actual_pts_ms * fps_num) + wrap_i64 (fps_den * 500));
             d = wrap_i64 (fps_den * 1000)
         in if d = 0 then None else Some (quot n d)))"

text \<open>\<^verbatim>\<open>DecodeResult\<close> of \<^verbatim>\<open>decoder.rs\<close>: the encoded frame with its time and the stream's rate.\<close>

record decode_result =
  dr_webp :: "byte list"
  dr_webp_orig :: "byte list"
  dr_pts_ms :: int
  dr_fps_num :: int
  dr_fps_den :: int

lemma abs_mult_bound:
  fixes x y :: int
  assumes "\<bar>x\<bar> \<le> a" and "\<bar>y\<bar> \<le> b"
  shows "\<bar>x * y\<bar> \<le> a * b"
  using mult_mono [of "\<bar>x\<bar>" a "\<bar>y\<bar>" b] assms by (simp add: abs_mult)

text \<open>
  FFmpeg's rationals have 32-bit components; with those, and a time below 35 years, nothing
  wraps.
\<close>

definition rate_ok :: "int \<Rightarrow> int \<Rightarrow> bool" where
  "rate_ok fps_num fps_den \<longleftrightarrow> 0 < fps_num \<and> fps_num < 2 ^ 31 \<and> 0 < fps_den \<and> fps_den < 2 ^ 31"

definition ms_ok :: "int \<Rightarrow> bool" where
  "ms_ok ms \<longleftrightarrow> \<bar>ms\<bar> \<le> 2 ^ 40 \<and> 0 \<le> ms"

definition pts_small :: "int \<Rightarrow> bool" where
  "pts_small ms \<longleftrightarrow> 0 \<le> ms \<and> ms < 2 ^ 31"

lemma compute_frame_idx_exact:
  assumes "rate_ok num den" and "pts_small ms"
  shows "compute_frame_idx ms num den = Some ((ms * num + den * 500) div (den * 1000))"
proof -
  from assms have "\<bar>ms * num\<bar> \<le> 2 ^ 31 * 2 ^ 31"
    by (intro abs_mult_bound) (auto simp: rate_ok_def pts_small_def)
  moreover from assms have n: "0 \<le> ms * num"
    by (simp add: rate_ok_def pts_small_def)
  moreover from assms have "0 < den" "den < 2 ^ 31" by (simp_all add: rate_ok_def)
  ultimately have "in_i64 (ms * num)" "in_i64 (den * 500)" "in_i64 (den * 1000)"
    "in_i64 (ms * num + den * 500)" "0 \<le> ms * num + den * 500" "0 < den * 1000"
    by (simp_all add: i64_bounds)
  with assms show ?thesis
    by (simp add: compute_frame_idx_def Let_def wrap_i64_id quot_nonneg rate_ok_def)
qed

lemma near_div:
  fixes x :: int
  assumes "0 < d" and "\<bar>2 * x - 2 * k * d\<bar> < d"
  shows "(2 * x + d) div (2 * d) = k"
proof (rule int_div_pos_eq [where r = "2 * x + d - 2 * k * d"])
  show "2 * x + d = 2 * d * k + (2 * x + d - 2 * k * d)" by (simp add: algebra_simps)
qed (use assms in auto)

lemma compute_frame_idx_near:
  assumes "rate_ok num den" and "pts_small ms"
    and "2 * \<bar>ms * num - k * (den * 1000)\<bar> < den * 1000"
  shows "compute_frame_idx ms num den = Some k"
proof -
  have "2 * (ms * num) + den * 1000 = 2 * (ms * num + den * 500)" by simp
  moreover have "(2 * (ms * num) + den * 1000) div (2 * (den * 1000)) = k"
    by (rule near_div) (use assms in \<open>auto simp: rate_ok_def\<close>)
  ultimately have "2 * (ms * num + den * 500) div (2 * (den * 1000)) = k" by (simp only:)
  then have "(ms * num + den * 500) div (den * 1000) = k"
    using div_mult_mult1 [of 2 "ms * num + den * 500" "den * 1000"] by simp
  then show ?thesis
    using compute_frame_idx_exact [OF assms(1,2)] by simp
qed

section \<open>Times in file names\<close>

definition format_pos_ms :: "int \<Rightarrow> string" where
  "format_pos_ms ms =
     (let h = quot ms 3600000;
          m = quot (rmd ms 3600000) 60000;
          s = quot (rmd ms 60000) 1000;
          ms = rmd ms 1000
      in show_pad 2 h @ ''h'' @ show_pad 2 m @ ''m'' @ show_pad 2 s @ ''s'' @ show_pad 3 ms @ ''ms'')"

definition parse_pos_ms :: "string \<Rightarrow> int option" where
  "parse_pos_ms s =
     (let s = (case strip_suffix ''ms'' s of None \<Rightarrow> s | Some t \<Rightarrow> t) in
      case split_once CHR ''h'' s of None \<Rightarrow> None | Some (h_str, rest) \<Rightarrow>
      case split_once CHR ''m'' rest of None \<Rightarrow> None | Some (m_str, rest) \<Rightarrow>
      case split_once CHR ''s'' rest of None \<Rightarrow> None | Some (s_str, ms_str) \<Rightarrow>
      case parse_i64 h_str of None \<Rightarrow> None | Some h \<Rightarrow>
      case parse_i64 m_str of None \<Rightarrow> None | Some m \<Rightarrow>
      case parse_i64 s_str of None \<Rightarrow> None | Some sec \<Rightarrow>
      case parse_i64 ms_str of None \<Rightarrow> None | Some ms \<Rightarrow>
        Some (wrap_i64 (h * 3600000 + m * 60000 + sec * 1000 + ms)))"

lemma show_pad_no: "c \<in> {CHR ''h'', CHR ''m'', CHR ''s'', CHR ''_'', CHR ''.'', CHR '' ''} \<Longrightarrow> c \<notin> set (show_pad w i)"
  by (auto simp: pad_char_def is_digit_def dest: show_pad_chars)

lemma hms_split:
  "ms = quot ms 3600000 * 3600000 + quot (rmd ms 3600000) 60000 * 60000
        + quot (rmd ms 60000) 1000 * 1000 + rmd ms 1000"
proof -
  have pos: "x = x div 3600000 * 3600000 + (x mod 3600000) div 60000 * 60000
        + (x mod 60000) div 1000 * 1000 + x mod 1000" if "0 \<le> x" for x :: int
  proof -
    have "x mod 3600000 mod 60000 = x mod 60000" by (simp add: mod_mod_cancel)
    moreover have "x mod 60000 mod 1000 = x mod 1000" by (simp add: mod_mod_cancel)
    ultimately show ?thesis
      using div_mult_mod_eq [of x 3600000] div_mult_mod_eq [of "x mod 3600000" 60000]
        div_mult_mod_eq [of "x mod 60000" 1000] by linarith
  qed
  show ?thesis
  proof (cases "0 \<le> ms")
    case True
    then show ?thesis using pos [of ms] by (simp add: quot_nonneg rmd_nonneg)
  next
    case False
    then show ?thesis using pos [of "- ms"] by (simp add: quot_neg rmd_neg)
  qed
qed

lemma div_le_self: "0 \<le> x \<Longrightarrow> 0 < b \<Longrightarrow> x div b \<le> (x :: int)"
  using zdiv_mono2 [of x 1 b] by simp

lemma quot_abs: "0 < b \<Longrightarrow> \<bar>quot a b\<bar> = \<bar>a\<bar> div b"
  by (cases "0 \<le> a") (auto simp: quot_nonneg quot_neg pos_imp_zdiv_nonneg_iff)

lemma quot_abs_le: "0 < b \<Longrightarrow> \<bar>quot a b\<bar> \<le> \<bar>a\<bar>"
  by (simp add: quot_abs div_le_self)

lemma rmd_abs_less: "0 < b \<Longrightarrow> \<bar>rmd a b\<bar> < b"
  by (cases "0 \<le> a") (simp_all add: rmd_nonneg rmd_neg)

lemma quot_in_i64: "in_i64 a \<Longrightarrow> 2 \<le> b \<Longrightarrow> in_i64 (quot a b)"
  using quot_abs [of b a] zdiv_mono2 [of "\<bar>a\<bar>" 2 b] by (auto simp: i64_bounds)

lemma parse_format_pos_ms [simp]:
  assumes "in_i64 ms"
  shows "parse_pos_ms (format_pos_ms ms) = Some ms"
proof -
  let ?h = "quot ms 3600000" and ?m = "quot (rmd ms 3600000) 60000"
    and ?s = "quot (rmd ms 60000) 1000" and ?r = "rmd ms 1000"
  have small: "in_i64 x" if "\<bar>x\<bar> < 3600000" for x
    using that by (auto simp: i64_bounds)
  have "in_i64 ?h"
    using assms quot_in_i64 by simp
  moreover have "in_i64 ?m" "in_i64 ?s" "in_i64 ?r"
    using quot_abs_le [of 60000 "rmd ms 3600000"] rmd_abs_less [of 3600000 ms]
      quot_abs_le [of 1000 "rmd ms 60000"] rmd_abs_less [of 60000 ms] rmd_abs_less [of 1000 ms]
    by (auto intro!: small)
  moreover have "strip_suffix ''ms'' (format_pos_ms ms) =
      Some (show_pad 2 ?h @ ''h'' @ show_pad 2 ?m @ ''m'' @ show_pad 2 ?s @ ''s'' @ show_pad 3 ?r)"
    using strip_suffix_app [of "''ms''" "show_pad 2 ?h @ ''h'' @ show_pad 2 ?m @ ''m'' @ show_pad 2 ?s @ ''s'' @ show_pad 3 ?r"]
    by (simp add: format_pos_ms_def Let_def)
  ultimately show ?thesis
    using hms_split [of ms] assms
    by (simp add: parse_pos_ms_def show_pad_no wrap_i64_id)
qed

lemma format_pos_ms_no: "CHR ''_'' \<notin> set (format_pos_ms ms)"
  by (simp add: format_pos_ms_def Let_def show_pad_no)

section \<open>Names of cached frames\<close>

text \<open>The last component of \<^verbatim>\<open>DiskCache::frame_path\<close>; the directory is the item id.\<close>

definition frame_name :: "int \<Rightarrow> int \<Rightarrow> nat \<Rightarrow> string" where
  "frame_name frame_idx pos_ms width =
     show_int frame_idx @ ''_'' @ format_pos_ms pos_ms @ ''_'' @ show_nat width @ ''.webp''"

text \<open>The part of \<^verbatim>\<open>rebuild_index\<close> that reads a file name back.\<close>

definition parse_frame_name :: "string \<Rightarrow> (int \<times> int \<times> nat) option" where
  "parse_frame_name name =
     (case strip_suffix ''.webp'' name of None \<Rightarrow> None | Some stem \<Rightarrow>
      case rsplit_once CHR ''_'' stem of None \<Rightarrow> None | Some (rest, width_str) \<Rightarrow>
      case split_once CHR ''_'' rest of None \<Rightarrow> None | Some (frame_idx_str, pos_ms_str) \<Rightarrow>
      case parse_i64 frame_idx_str of None \<Rightarrow> None | Some frame_idx \<Rightarrow>
      case parse_pos_ms pos_ms_str of None \<Rightarrow> None | Some pos_ms \<Rightarrow>
      case parse_unsigned 32 width_str of None \<Rightarrow> None | Some width \<Rightarrow>
        Some (frame_idx, pos_ms, width))"

lemma show_nat_no: "\<not> is_digit c \<Longrightarrow> c \<notin> set (show_nat n)"
  by (auto dest: show_nat_chars)

lemma parse_frame_name_frame_name [simp]:
  assumes "in_i64 fi" and "in_i64 pos" and "w < 2 ^ 32"
  shows "parse_frame_name (frame_name fi pos w) = Some (fi, pos, w)"
proof -
  define a b c where "a = show_int fi" and "b = format_pos_ms pos" and "c = show_nat w"
  have no: "CHR ''_'' \<notin> set a" "CHR ''_'' \<notin> set c"
    by (simp_all add: a_def c_def show_int_def show_pad_no show_nat_no is_digit_def)
  have "frame_name fi pos w = (a @ CHR ''_'' # b @ CHR ''_'' # c) @ ''.webp''"
    by (simp add: frame_name_def a_def b_def c_def)
  then have 1: "strip_suffix ''.webp'' (frame_name fi pos w) = Some (a @ CHR ''_'' # b @ CHR ''_'' # c)"
    by (simp only: strip_suffix_app)
  have 2: "rsplit_once CHR ''_'' (a @ CHR ''_'' # b @ CHR ''_'' # c) = Some (a @ CHR ''_'' # b, c)"
    using rsplit_once_app [OF no(2), of "a @ CHR ''_'' # b"] by simp
  have 3: "parse_i64 a = Some fi" "parse_pos_ms b = Some pos" "parse_unsigned 32 c = Some w"
    using assms by (simp_all add: a_def b_def c_def show_int_def)
  show ?thesis
    unfolding parse_frame_name_def 1 option.case 2 prod.case split_once_app [OF no(1)] 3 by simp
qed

lemma frame_name_inj:
  assumes "in_i64 fi" "in_i64 pos" "w < 2 ^ 32" "in_i64 fi'" "in_i64 pos'" "w' < 2 ^ 32"
    and "frame_name fi pos w = frame_name fi' pos' w'"
  shows "fi = fi' \<and> pos = pos' \<and> w = w'"
proof -
  have "Some (fi, pos, w) = Some (fi', pos', w')"
    using parse_frame_name_frame_name [OF assms(1-3)] parse_frame_name_frame_name [OF assms(4-6)]
    unfolding assms(7) by (rule subst)
  then show ?thesis by simp
qed

end
