(* ===== verification/Frame_Store.thy ===== *)
theory Frame_Store
  imports Rust_Prelude
begin

text \<open>
  The interface through which the two servers use the disk cache: a keyed store with \<^verbatim>\<open>read\<close> and
  \<^verbatim>\<open>exists\<close>. A hit changes nothing, \<^verbatim>\<open>exists\<close> predicts \<^verbatim>\<open>read\<close>, and a miss stays a miss.
  \<open>Disk_Cache\<close> interprets it on the model of \<^verbatim>\<open>DiskCache\<close>.
\<close>

locale frame_store =
  fixes rd :: "'k \<Rightarrow> 's \<Rightarrow> 'v option \<times> 's"
    and ex :: "'k \<Rightarrow> 's \<Rightarrow> bool"
  assumes ex_rd: "ex k s \<longleftrightarrow> fst (rd k s) \<noteq> None"
    and hit_pure: "fst (rd k s) \<noteq> None \<Longrightarrow> snd (rd k s) = s"
    and miss_stays: "fst (rd k s) = None \<Longrightarrow> fst (rd k (snd (rd k s))) = None"
begin

lemma rd_repeat: "fst (rd k (snd (rd k s))) = fst (rd k s)"
  by (cases "fst (rd k s)") (simp_all add: miss_stays hit_pure)

lemma ex_after_rd: "ex k (snd (rd k s)) = ex k s"
  by (simp add: ex_rd rd_repeat)

lemma rd_settles: "snd (rd k (snd (rd k s))) = snd (rd k s) \<or> fst (rd k s) = None"
  using hit_pure rd_repeat by fastforce

end

text \<open>A store into which frames can be written: what \<^verbatim>\<open>write\<close> promises within a capacity.\<close>

locale writable_frame_store = frame_store rd ex
  for rd :: "'k \<Rightarrow> 's \<Rightarrow> 'v option \<times> 's" and ex :: "'k \<Rightarrow> 's \<Rightarrow> bool" +
  fixes wr :: "'k \<Rightarrow> 'i \<Rightarrow> 'v \<Rightarrow> 's \<Rightarrow> bool \<times> 's"
    and fits :: "'k \<Rightarrow> 'i \<Rightarrow> 'v \<Rightarrow> 's \<Rightarrow> bool"
  assumes wr_hit: "fits k i v s \<Longrightarrow> fst (wr k i v s) \<Longrightarrow> ex k s \<Longrightarrow> snd (wr k i v s) = s"
    and wr_miss: "fits k i v s \<Longrightarrow> fst (wr k i v s) \<Longrightarrow> \<not> ex k s \<Longrightarrow> fst (rd k (snd (wr k i v s))) = Some v"
begin

lemma wr_ex: "fits k i v s \<Longrightarrow> fst (wr k i v s) \<Longrightarrow> ex k (snd (wr k i v s))"
  by (cases "ex k s") (simp_all add: wr_hit wr_miss ex_rd)

text \<open>Reading a frame, and writing it when it is missing, leaves a frame that every later read returns.\<close>

lemma read_or_write:
  assumes "fits k i v (snd (rd k s))" and "fst (wr k i v (snd (rd k s)))"
  shows "fst (rd k (case fst (rd k s) of Some _ \<Rightarrow> snd (rd k s) | None \<Rightarrow> snd (wr k i v (snd (rd k s))))) =
    Some (case fst (rd k s) of Some d \<Rightarrow> d | None \<Rightarrow> v)"
proof (cases "fst (rd k s)")
  case None
  then have "\<not> ex k (snd (rd k s))" by (simp add: ex_rd rd_repeat)
  with assms None show ?thesis by (simp add: wr_miss)
next
  case (Some d)
  then show ?thesis by (simp add: rd_repeat)
qed

end

end
