(* ===== verification/Disk_Cache.thy ===== *)
theory Disk_Cache
  imports Frame_Times Frame_Store
begin

text \<open>
  The on-disk frame cache shared by the two daemons: \<^verbatim>\<open>crates/jfs-common/src/disk_cache.rs\<close>.

  The state \<open>cache\<close> holds the \<^verbatim>\<open>Index\<close> behind the mutex (\<open>entries\<close>, \<open>total_bytes\<close>) and the part of
  the file system the cache lives in: the frame files below \<^verbatim>\<open>cache_dir\<close> by directory (the
  item id) and name, the directories, the text of \<^verbatim>\<open>index.txt\<close>, the paths the operating
  system refuses to create or remove, the modification time of every video (0 when it cannot
  be read) and the clock. Item ids are one path component, as the plugin sends them.
  The operations are defined here as one call sees them that no other task disturbs.
  \<^verbatim>\<open>read\<close> and \<^verbatim>\<open>write\<close> give the mutex back around their file accesses, so calls of several
  tasks interleave there: theory \<open>Disk_Tasks\<close> takes them apart into the stretches under and
  between the locks and states what holds of the interleaved ones.
\<close>

section \<open>State\<close>

record entry =
  e_frame_idx :: int
  e_size :: nat
  e_written_at :: nat
  e_video_mtime :: nat

type_synonym key = "string \<times> int \<times> nat"

record index =
  entries :: "(key \<times> entry) list"
  total_bytes :: nat

record cfile =
  f_data :: "byte list"
  f_mtime :: nat

type_synonym path = "string \<times> string"

record cache = index +
  files :: "(path \<times> cfile) list"
  subdirs :: "string list"
  root_ok :: bool
  index_txt :: "string option"
  index_deny :: bool
  deny :: "path \<Rightarrow> bool"
  deny_dir :: "string \<Rightarrow> bool"
  vid_mtime :: "string \<Rightarrow> nat"
  now :: nat

definition cap_bytes :: nat where "cap_bytes = 512 * 1024 * 1024"

text \<open>\<^verbatim>\<open>(CAP_BYTES as f64 * TRIM_RATIO) as u64\<close>: both factors and the product are exact in \<^verbatim>\<open>f64\<close>.\<close>

definition trim_target :: nat where "trim_target = cap_bytes * 3 div 4"

definition frame_path :: "string \<Rightarrow> int \<Rightarrow> int \<Rightarrow> nat \<Rightarrow> path" where
  "frame_path item_id frame_idx pos_ms width = (item_id, frame_name frame_idx pos_ms width)"

definition key_path :: "key \<Rightarrow> int \<Rightarrow> path" where
  "key_path k fi = (case k of (item_id, pos_ms, width) \<Rightarrow> frame_path item_id fi pos_ms width)"

definition path_exists :: "path \<Rightarrow> cache \<Rightarrow> bool" where
  "path_exists p s \<longleftrightarrow> map_of (files s) p \<noteq> None"

text \<open>\<^verbatim>\<open>std::fs::remove_file\<close>, \<^verbatim>\<open>create_dir_all\<close> and \<^verbatim>\<open>write\<close> on the model's file system.\<close>

definition remove_file :: "path \<Rightarrow> cache \<Rightarrow> bool \<times> cache" where
  "remove_file p s =
     (if path_exists p s \<and> \<not> deny s p then (True, s\<lparr>files := AList.delete p (files s)\<rparr>)
      else (False, s))"

definition create_dir :: "string \<Rightarrow> cache \<Rightarrow> cache" where
  "create_dir d s = (if deny_dir s d then s else s\<lparr>subdirs := List.insert d (subdirs s)\<rparr>)"

definition write_file :: "path \<Rightarrow> byte list \<Rightarrow> cache \<Rightarrow> bool \<times> cache" where
  "write_file p data s =
     (if fst p \<in> set (subdirs s) \<and> \<not> deny s p
      then (True, s\<lparr>files := AList.update p \<lparr>f_data = data, f_mtime = now s\<rparr> (files s)\<rparr>)
      else (False, s))"

definition remove_entry :: "key \<Rightarrow> nat \<Rightarrow> cache \<Rightarrow> cache" where
  "remove_entry k sz s =
     s\<lparr>entries := AList.delete k (entries s), total_bytes := total_bytes s - sz\<rparr>"

section \<open>The index file\<close>

definition nl :: string where "nl = [CHR 0x0A]"

definition entry_line :: "key \<times> entry \<Rightarrow> string" where
  "entry_line ke =
     (case ke of ((item_id, pos_ms, width), e) \<Rightarrow>
        item_id @ '' '' @ show_int (e_frame_idx e) @ '' '' @ show_int pos_ms @ '' '' @ show_nat width
          @ '' '' @ show_nat (e_size e) @ '' '' @ show_nat (e_written_at e)
          @ '' '' @ show_nat (e_video_mtime e))"

definition index_text :: "(key \<times> entry) list \<Rightarrow> nat \<Rightarrow> string" where
  "index_text es tot =
     ''v2'' @ nl @ (''total_bytes '' @ show_nat tot) @ nl
       @ concat (map (\<lambda>ke. entry_line ke @ nl) es)"

definition write_index :: "cache \<Rightarrow> cache" where
  "write_index s =
     (if index_deny s then s else s\<lparr>index_txt := Some (index_text (entries s) (total_bytes s))\<rparr>)"

datatype index_error = Unreadable | Empty_Index | Unknown_Version | Missing_Total | Bad_Header | Bad_Number

datatype line_result = Skip_Line | Bad_Line | Entry_Line key entry

definition parse_line :: "string \<Rightarrow> line_result" where
  "parse_line line =
     (let parts = split_whitespace line
      in if length parts < 6 then Skip_Line
         else case parse_i64 (parts ! 1) of None \<Rightarrow> Bad_Line | Some frame_idx \<Rightarrow>
              case parse_i64 (parts ! 2) of None \<Rightarrow> Bad_Line | Some pos_ms \<Rightarrow>
              case parse_unsigned 32 (parts ! 3) of None \<Rightarrow> Bad_Line | Some width \<Rightarrow>
              case parse_unsigned 64 (parts ! 4) of None \<Rightarrow> Bad_Line | Some sz \<Rightarrow>
              case parse_unsigned 64 (parts ! 5) of None \<Rightarrow> Bad_Line | Some ts \<Rightarrow>
                (let vmtime = (case slice_get parts 6 of None \<Rightarrow> 0
                               | Some t \<Rightarrow> (case parse_unsigned 64 t of None \<Rightarrow> 0 | Some v \<Rightarrow> v))
                 in Entry_Line (parts ! 0, pos_ms, width)
                      \<lparr>e_frame_idx = frame_idx, e_size = sz, e_written_at = ts, e_video_mtime = vmtime\<rparr>))"

fun load_lines :: "(path \<Rightarrow> bool) \<Rightarrow> string list \<Rightarrow> (key \<times> entry) list \<Rightarrow> index_error + (key \<times> entry) list" where
  "load_lines ex [] es = Inr es"
| "load_lines ex (line # ls) es =
     (case parse_line line of
        Skip_Line \<Rightarrow> load_lines ex ls es
      | Bad_Line \<Rightarrow> Inl Bad_Number
      | Entry_Line k e \<Rightarrow>
          load_lines ex ls (if ex (key_path k (e_frame_idx e)) then AList.update k e es else es))"

definition load_index :: "cache \<Rightarrow> index_error + index" where
  "load_index s =
     (case index_txt s of
        None \<Rightarrow> Inl Unreadable
      | Some text \<Rightarrow>
          (case str_lines text of
             [] \<Rightarrow> Inl Empty_Index
           | version # ls \<Rightarrow>
               if version \<noteq> ''v2'' then Inl Unknown_Version
               else (case ls of
                       [] \<Rightarrow> Inl Missing_Total
                     | total_line # rest \<Rightarrow>
                         (case strip_prefix ''total_bytes '' total_line of
                            None \<Rightarrow> Inl Bad_Header
                          | Some n \<Rightarrow>
                              (case parse_unsigned 64 n of
                                 None \<Rightarrow> Inl Bad_Number
                               | Some tot \<Rightarrow>
                                   (case load_lines (\<lambda>p. path_exists p s) rest [] of
                                      Inl err \<Rightarrow> Inl err
                                    | Inr es \<Rightarrow> Inr \<lparr>entries = es, total_bytes = tot\<rparr>))))))"

text \<open>\<^verbatim>\<open>rebuild_index\<close>: one step per directory entry of one sub-directory, then per sub-directory.\<close>

definition rebuild_file :: "string \<Rightarrow> path \<times> cfile \<Rightarrow> (key \<times> entry) list \<times> nat \<Rightarrow> (key \<times> entry) list \<times> nat" where
  "rebuild_file item_id pf acc =
     (case parse_frame_name (snd (fst pf)) of
        None \<Rightarrow> acc
      | Some (frame_idx, pos_ms, width) \<Rightarrow>
          (let sz = length (f_data (snd pf)) in
           (AList.update (item_id, pos_ms, width)
              \<lparr>e_frame_idx = frame_idx, e_size = sz, e_written_at = f_mtime (snd pf), e_video_mtime = 0\<rparr>
              (fst acc),
            add_u64 (snd acc) sz)))"

definition dir_files :: "string \<Rightarrow> cache \<Rightarrow> (path \<times> cfile) list" where
  "dir_files d s = filter (\<lambda>pf. fst (fst pf) = d) (files s)"

definition rebuild_index :: "cache \<Rightarrow> index" where
  "rebuild_index s =
     (if \<not> root_ok s then \<lparr>entries = [], total_bytes = 0\<rparr>
      else
        (let acc = fold (\<lambda>d acc. if d = ''index.txt'' then acc
                                 else fold (rebuild_file d) (dir_files d s) acc)
                     (subdirs s) ([], 0)
         in \<lparr>entries = fst acc, total_bytes = snd acc\<rparr>))"

section \<open>Start-up\<close>

definition is_hexdigit :: "char \<Rightarrow> bool" where
  "is_hexdigit c \<longleftrightarrow>
     (let n = (of_char c :: nat) in 48 \<le> n \<and> n \<le> 57 \<or> 65 \<le> n \<and> n \<le> 70 \<or> 97 \<le> n \<and> n \<le> 102)"

definition is_legacy_dir :: "string \<Rightarrow> bool" where
  "is_legacy_dir d \<longleftrightarrow> length d = 16 \<and> list_all is_hexdigit d"

definition remove_dir_all :: "string \<Rightarrow> cache \<Rightarrow> cache" where
  "remove_dir_all d s =
     (if deny_dir s d then s
      else s\<lparr>files := filter (\<lambda>pf. fst (fst pf) \<noteq> d) (files s), subdirs := removeAll d (subdirs s)\<rparr>)"

definition sweep_legacy_dirs :: "cache \<Rightarrow> cache" where
  "sweep_legacy_dirs s =
     (if \<not> root_ok s then s
      else
        (let legacy = filter is_legacy_dir (subdirs s);
             s = fold remove_dir_all legacy s
         in if legacy \<noteq> [] \<and> \<not> index_deny s then s\<lparr>index_txt := None\<rparr> else s))"

definition sweep_legacy_jpgs :: "cache \<Rightarrow> cache" where
  "sweep_legacy_jpgs s =
     (if \<not> root_ok s then s
      else
        fold (\<lambda>d s. fold (\<lambda>pf s. if ends_with ''.jpg'' (snd (fst pf)) then snd (remove_file (fst pf) s) else s)
                      (dir_files d s) s)
          (subdirs s) s)"

text \<open>
  \<^verbatim>\<open>DiskCache::new\<close>, on the file system as it is found at start-up; the index of the
  argument is ignored.
\<close>

definition dc_new :: "cache \<Rightarrow> cache" where
  "dc_new s =
     (let s = sweep_legacy_jpgs (sweep_legacy_dirs s);
          i = (case load_index s of Inl _ \<Rightarrow> rebuild_index s | Inr i \<Rightarrow> i)
      in s\<lparr>entries := entries i, total_bytes := total_bytes i\<rparr>)"

section \<open>Operations\<close>

fun drop_stale :: "(key \<times> int \<times> nat) list \<Rightarrow> cache \<Rightarrow> cache" where
  "drop_stale [] s = s"
| "drop_stale ((k, fi, sz) # ks) s =
     drop_stale ks (snd (remove_file (key_path k fi) (remove_entry k sz s)))"

definition stale_entries :: "string \<Rightarrow> nat \<Rightarrow> cache \<Rightarrow> (key \<times> int \<times> nat) list" where
  "stale_entries item_id mtime s =
     map (\<lambda>(k, e). (k, e_frame_idx e, e_size e))
       (filter (\<lambda>(k, e). fst k = item_id \<and> e_video_mtime e \<noteq> mtime) (entries s))"

definition dc_read :: "string \<Rightarrow> string \<Rightarrow> int \<Rightarrow> nat \<Rightarrow> cache \<Rightarrow> byte list option \<times> cache" where
  "dc_read item_id video_path pos_ms width s =
     (let current_mtime = vid_mtime s video_path; key = (item_id, pos_ms, width)
      in case map_of (entries s) key of
           None \<Rightarrow> (None, s)
         | Some e \<Rightarrow>
             if e_video_mtime e \<noteq> current_mtime
             then (None, drop_stale (stale_entries item_id current_mtime s) s)
             else case map_of (files s) (frame_path item_id (e_frame_idx e) pos_ms width) of
                    Some f \<Rightarrow> (Some (f_data f), s)
                  | None \<Rightarrow> (None, remove_entry key (e_size e) s))"

definition dc_exists :: "string \<Rightarrow> string \<Rightarrow> int \<Rightarrow> nat \<Rightarrow> cache \<Rightarrow> bool" where
  "dc_exists item_id video_path pos_ms width s =
     (case map_of (entries s) (item_id, pos_ms, width) of
        None \<Rightarrow> False
      | Some e \<Rightarrow>
          e_video_mtime e = vid_mtime s video_path \<and>
          path_exists (frame_path item_id (e_frame_idx e) pos_ms width) s)"

definition dc_list_cached :: "string \<Rightarrow> nat \<Rightarrow> cache \<Rightarrow> (int \<times> int) list" where
  "dc_list_cached item_id width s =
     map (\<lambda>((_, pos_ms, _), e). (pos_ms, e_frame_idx e))
       (filter (\<lambda>((i, _, w), e). i = item_id \<and> w = width) (entries s))"

text \<open>
  The eviction loop of \<^verbatim>\<open>cleanup\<close>. The source sorts with \<^verbatim>\<open>sort_unstable_by_key\<close>; since the list
  order of \<open>entries\<close> is arbitrary, a stable sort covers every order it can produce.
\<close>

fun evict :: "key list \<Rightarrow> cache \<Rightarrow> cache" where
  "evict [] s = s"
| "evict (k # ks) s =
     (if total_bytes s \<le> trim_target then s
      else case map_of (entries s) k of
             None \<Rightarrow> evict ks s
           | Some e \<Rightarrow>
               (let (removed, t) = remove_file (key_path k (e_frame_idx e)) s
                in evict ks (if removed then remove_entry k (e_size e) t else t)))"

definition written_at :: "cache \<Rightarrow> key \<Rightarrow> nat" where
  "written_at s k = (case map_of (entries s) k of None \<Rightarrow> 0 | Some e \<Rightarrow> e_written_at e)"

definition remove_empty_dirs :: "cache \<Rightarrow> cache" where
  "remove_empty_dirs s =
     (if \<not> root_ok s then s
      else s\<lparr>subdirs := filter (\<lambda>d. dir_files d s \<noteq> [] \<or> deny_dir s d) (subdirs s)\<rparr>)"

definition dc_cleanup :: "cache \<Rightarrow> cache" where
  "dc_cleanup s =
     (if total_bytes s \<le> trim_target then s
      else write_index (remove_empty_dirs
             (evict (sort_key (written_at s) (map fst (entries s))) s)))"

definition dc_flush :: "cache \<Rightarrow> cache" where
  "dc_flush s = write_index s"

definition dc_write ::
  "string \<Rightarrow> string \<Rightarrow> int \<Rightarrow> int \<Rightarrow> nat \<Rightarrow> byte list \<Rightarrow> cache \<Rightarrow> bool \<times> cache" where
  "dc_write item_id video_path frame_idx pos_ms width data s =
     (let p = frame_path item_id frame_idx pos_ms width;
          key = (item_id, pos_ms, width);
          old = map_of (entries s) key;
          hit = (case old of None \<Rightarrow> False
                 | Some e \<Rightarrow> e_video_mtime e = vid_mtime s video_path \<and> path_exists p s)
      in if hit then (True, s)
         else
           (let s = (case old of None \<Rightarrow> s | Some e \<Rightarrow> remove_entry key (e_size e) s);
                (ok, s) = write_file p data (create_dir item_id s)
            in if \<not> ok then (False, s)
               else
                 (let e = \<lparr>e_frame_idx = frame_idx, e_size = length data, e_written_at = now s,
                           e_video_mtime = vid_mtime s video_path\<rparr>;
                      s = s\<lparr>entries := AList.update key e (entries s),
                            total_bytes := add_u64 (total_bytes s) (length data)\<rparr>;
                      over_cap = (cap_bytes < total_bytes s);
                      s = dc_flush s
                  in (True, if over_cap then dc_cleanup s else s))))"

section \<open>Accounting\<close>

declare split_paired_All [simp del] split_paired_Ex [simp del]

text \<open>
  The keys are those of a map and the recorded total covers the entries. \<open>phantom\<close> is what
  the total counts beyond them; no undisturbed operation changes it.
\<close>

definition accounted :: "cache \<Rightarrow> bool" where
  "accounted s \<longleftrightarrow> keys_ok (entries s) \<and> sum_alist e_size (entries s) \<le> total_bytes s"

definition phantom :: "cache \<Rightarrow> nat" where
  "phantom s = total_bytes s - sum_alist e_size (entries s)"

definition same_account :: "cache \<Rightarrow> cache \<Rightarrow> bool" where
  "same_account s t \<longleftrightarrow> accounted t \<and> phantom t = phantom s"

lemma same_account_refl: "accounted s \<Longrightarrow> same_account s s"
  by (simp add: same_account_def)

lemma same_account_trans: "same_account s t \<Longrightarrow> same_account t u \<Longrightarrow> same_account s u"
  by (simp add: same_account_def)

lemma fs_ops_index [simp]:
  "entries (snd (remove_file p s)) = entries s" "total_bytes (snd (remove_file p s)) = total_bytes s"
  "entries (create_dir d s) = entries s" "total_bytes (create_dir d s) = total_bytes s"
  "entries (snd (write_file p data s)) = entries s"
  "total_bytes (snd (write_file p data s)) = total_bytes s"
  "entries (write_index s) = entries s" "total_bytes (write_index s) = total_bytes s"
  "entries (remove_empty_dirs s) = entries s" "total_bytes (remove_empty_dirs s) = total_bytes s"
  by (simp_all add: remove_file_def create_dir_def write_file_def write_index_def
      remove_empty_dirs_def)

lemma same_account_cong:
  "entries t = entries t' \<Longrightarrow> total_bytes t = total_bytes t' \<Longrightarrow> same_account s t = same_account s t'"
  by (simp add: same_account_def accounted_def phantom_def)

lemma remove_entry_sel [simp]:
  "entries (remove_entry k n s) = AList.delete k (entries s)"
  "total_bytes (remove_entry k n s) = total_bytes s - n"
  "files (remove_entry k n s) = files s" "deny (remove_entry k n s) = deny s"
  "vid_mtime (remove_entry k n s) = vid_mtime s" "subdirs (remove_entry k n s) = subdirs s"
  "deny_dir (remove_entry k n s) = deny_dir s" "now (remove_entry k n s) = now s"
  "index_txt (remove_entry k n s) = index_txt s" "index_deny (remove_entry k n s) = index_deny s"
  "root_ok (remove_entry k n s) = root_ok s"
  by (simp_all add: remove_entry_def)

lemma remove_entry_account:
  assumes "accounted s" and "map_of (entries s) k = Some e"
  shows "same_account s (remove_entry k (e_size e) s)"
  using assms sum_alist_delete [of "entries s" e_size k]
  by (auto simp: same_account_def accounted_def phantom_def)

definition live_keys :: "(key \<times> int \<times> nat) list \<Rightarrow> cache \<Rightarrow> bool" where
  "live_keys ks s \<longleftrightarrow> distinct (map fst ks) \<and>
     (\<forall>(k, fi, sz) \<in> set ks. \<exists>e. map_of (entries s) k = Some e \<and> e_size e = sz \<and> e_frame_idx e = fi)"

lemma map_of_filter_some:
  "keys_ok m \<Longrightarrow> (k, v) \<in> set (filter P m) \<Longrightarrow> map_of m k = Some v"
  by (auto simp: keys_ok_def)

lemma live_keys_stale:
  assumes "keys_ok (entries s)"
  shows "live_keys (stale_entries item_id m s) s"
proof -
  let ?P = "\<lambda>(k, e). fst k = item_id \<and> e_video_mtime e \<noteq> m"
  have "map fst (stale_entries item_id m s) = map fst (filter ?P (entries s))"
    by (simp add: stale_entries_def case_prod_beta)
  moreover have "keys_ok (filter ?P (entries s))" using assms by (rule keys_ok_filter)
  ultimately have 1: "distinct (map fst (stale_entries item_id m s))"
    by (simp add: keys_ok_def)
  have 2: "\<exists>e. map_of (entries s) k = Some e \<and> e_size e = sz \<and> e_frame_idx e = fi"
    if "(k, fi, sz) \<in> set (stale_entries item_id m s)" for k fi sz
  proof -
    from that obtain e where "(k, e) \<in> set (filter ?P (entries s))"
      and "fi = e_frame_idx e" "sz = e_size e"
      by (auto simp: stale_entries_def)
    then show ?thesis using map_of_filter_some [OF assms] by blast
  qed
  show ?thesis using 1 2 unfolding live_keys_def by blast
qed

lemma live_keys_step:
  assumes "live_keys ks s" and "k \<notin> fst ` set ks"
  shows "live_keys ks (snd (remove_file p (remove_entry k sz s)))"
proof -
  have "map_of (AList.delete k (entries s)) k' = map_of (entries s) k'" if "(k', x) \<in> set ks" for k' x
    using that assms(2) by (force simp: map_of_delete_eq)
  with assms(1) show ?thesis by (auto simp: live_keys_def)
qed

lemma drop_stale_account:
  "accounted s \<Longrightarrow> live_keys ks s \<Longrightarrow> same_account s (drop_stale ks s)"
proof (induction ks arbitrary: s)
  case Nil
  then show ?case by (simp add: same_account_refl)
next
  case (Cons a ks)
  obtain k fi sz where a: "a = (k, fi, sz)" by (cases a)
  from Cons.prems a obtain e where e: "map_of (entries s) k = Some e" "e_size e = sz"
    and live: "live_keys ks s" and k: "k \<notin> fst ` set ks"
    by (auto simp: live_keys_def)
  let ?t = "snd (remove_file (key_path k fi) (remove_entry k sz s))"
  have "same_account s ?t"
    using remove_entry_account [OF Cons.prems(1) e(1)] e(2) by (simp add: same_account_cong [of ?t "remove_entry k sz s"])
  moreover from live k have "live_keys ks ?t"
    by (rule live_keys_step)
  ultimately show ?case
    using Cons.IH [of ?t] a same_account_trans [of s ?t]
    by (simp add: same_account_def)
qed

lemma drop_stale_entries:
  "entries (drop_stale ks s) = filter (\<lambda>ke. fst ke \<notin> fst ` set ks) (entries s)"
proof (induction ks arbitrary: s)
  case Nil
  then show ?case by simp
next
  case (Cons a ks)
  then show ?case by (cases a) (auto simp: AList.delete_eq case_prod_beta intro!: filter_cong)
qed

lemma evict_account: "accounted s \<Longrightarrow> same_account s (evict ks s)"
proof (induction ks s rule: evict.induct)
  case (1 s)
  then show ?case by (simp add: same_account_refl)
next
  case (2 k ks s)
  show ?case
  proof (cases "total_bytes s \<le> trim_target")
    case True
    with "2.prems" show ?thesis by (simp add: same_account_refl)
  next
    case over: False
    show ?thesis
    proof (cases "map_of (entries s) k")
      case None
      with over "2" show ?thesis by simp
    next
      case (Some e)
      obtain r t where rt: "remove_file (key_path k (e_frame_idx e)) s = (r, t)" by force
      then have t: "entries t = entries s" "total_bytes t = total_bytes s"
        using fs_ops_index(1,2) [of "key_path k (e_frame_idx e)" s] by simp_all
      let ?u = "if r then remove_entry k (e_size e) t else t"
      have acc: "same_account s t" "accounted t"
        using "2.prems" t by (simp_all add: same_account_def accounted_def phantom_def)
      have u: "same_account s ?u"
        using acc remove_entry_account [OF acc(2), of k e] Some t same_account_trans by auto
      with "2.IH"(2) [OF over Some rt [symmetric] refl] have "same_account ?u (evict ks ?u)"
        by (simp add: same_account_def)
      with u over Some rt show ?thesis by (auto intro: same_account_trans)
    qed
  qed
qed

lemma cleanup_account: "accounted s \<Longrightarrow> same_account s (dc_cleanup s)"
  by (simp add: dc_cleanup_def same_account_refl evict_account
      same_account_cong [of "write_index (remove_empty_dirs t)" t for t])

text \<open>The parts of \<^verbatim>\<open>write\<close>, for the proofs.\<close>

definition write_hit :: "string \<Rightarrow> string \<Rightarrow> int \<Rightarrow> int \<Rightarrow> nat \<Rightarrow> cache \<Rightarrow> bool" where
  "write_hit item_id v fi pos w s =
     (case map_of (entries s) (item_id, pos, w) of None \<Rightarrow> False
      | Some e \<Rightarrow> e_video_mtime e = vid_mtime s v \<and> path_exists (frame_path item_id fi pos w) s)"

definition forget :: "key \<Rightarrow> cache \<Rightarrow> cache" where
  "forget k s = (case map_of (entries s) k of None \<Rightarrow> s | Some e \<Rightarrow> remove_entry k (e_size e) s)"

definition record_frame :: "string \<Rightarrow> key \<Rightarrow> int \<Rightarrow> nat \<Rightarrow> cache \<Rightarrow> cache" where
  "record_frame v k fi n s =
     s\<lparr>entries := AList.update k \<lparr>e_frame_idx = fi, e_size = n, e_written_at = now s,
                              e_video_mtime = vid_mtime s v\<rparr> (entries s),
       total_bytes := add_u64 (total_bytes s) n\<rparr>"

lemma dc_write_hit: "write_hit i v fi pos w s \<Longrightarrow> dc_write i v fi pos w data s = (True, s)"
  by (simp add: dc_write_def write_hit_def Let_def)

lemma dc_write_miss:
  "\<not> write_hit i v fi pos w s \<Longrightarrow>
     write_file (frame_path i fi pos w) data (create_dir i (forget (i, pos, w) s)) = (ok, t) \<Longrightarrow>
     dc_write i v fi pos w data s =
       (if ok then (True, let u = record_frame v (i, pos, w) fi (length data) t
                          in if cap_bytes < total_bytes u then dc_cleanup (dc_flush u) else dc_flush u)
        else (False, t))"
  by (simp add: dc_write_def write_hit_def forget_def record_frame_def Let_def)

lemma forget_account: "accounted s \<Longrightarrow> same_account s (forget k s)"
  by (auto simp: forget_def same_account_refl remove_entry_account split: option.split)

lemma forget_none: "map_of (entries (forget k s)) k = None"
  by (auto simp: forget_def map_of_delete_eq split: option.split)

lemma forget_le: "total_bytes (forget k s) \<le> total_bytes s"
  by (auto simp: forget_def split: option.split)

lemma record_frame_account:
  assumes "accounted s" and "map_of (entries s) k = None" and "total_bytes s + n < 2 ^ 64"
  shows "same_account s (record_frame v k fi n s)"
proof -
  from assms(2) have "k \<notin> fst ` set (entries s)" by (simp add: map_of_eq_None_iff)
  with assms show ?thesis
    by (simp add: same_account_def accounted_def phantom_def record_frame_def
        sum_alist_update_new add_u64_id)
qed

lemma same_account_step:
  "same_account s t \<Longrightarrow> (accounted t \<Longrightarrow> same_account t u) \<Longrightarrow> same_account s u"
  by (auto simp: same_account_def)

lemma flush_account: "accounted s \<Longrightarrow> same_account s (dc_flush s)"
  by (simp add: dc_flush_def same_account_refl same_account_cong [of "write_index s" s])

lemma write_file_account:
  "accounted s \<Longrightarrow> same_account s (snd (write_file p data (create_dir d s)))"
  by (simp add: same_account_refl same_account_cong [of "snd (write_file p data (create_dir d s))" s])

lemma dc_write_account:
  assumes "accounted s" and "total_bytes s + length data < 2 ^ 64"
  shows "same_account s (snd (dc_write i v fi pos w data s))"
proof (cases "write_hit i v fi pos w s")
  case True
  then show ?thesis using assms by (simp add: dc_write_hit same_account_refl)
next
  case False
  define f where "f = forget (i, pos, w) s"
  obtain ok t where w: "write_file (frame_path i fi pos w) data (create_dir i f) = (ok, t)" by force
  then have t: "t = snd (write_file (frame_path i fi pos w) data (create_dir i f))" by simp
  have st: "same_account s t"
    unfolding t by (rule same_account_step [OF forget_account [OF assms(1), of "(i, pos, w)", folded f_def] write_file_account])
  define u where "u = record_frame v (i, pos, w) fi (length data) t"
  have "total_bytes t + length data < 2 ^ 64" "map_of (entries t) (i, pos, w) = None"
    using assms(2) forget_le [of "(i, pos, w)" s] forget_none [of "(i, pos, w)" s]
    by (simp_all add: t f_def)
  then have "same_account s u"
    unfolding u_def by (intro same_account_step [OF st] record_frame_account)
  then have "same_account s (dc_flush u)"
    by (rule same_account_step) (rule flush_account)
  then have "same_account s (dc_flush u)" "same_account s (dc_cleanup (dc_flush u))"
    by (auto intro: same_account_step cleanup_account)
  with st show ?thesis
    by (simp add: dc_write_miss [OF False w [unfolded f_def]] u_def [symmetric])
qed

lemma dc_read_account: "accounted s \<Longrightarrow> same_account s (snd (dc_read i v pos w s))"
  by (auto simp: dc_read_def Let_def same_account_refl remove_entry_account
      intro!: drop_stale_account live_keys_stale split: option.split)
    (simp_all add: accounted_def)

section \<open>Eviction\<close>

definition removable :: "cache \<Rightarrow> key \<Rightarrow> bool" where
  "removable s k =
     (case map_of (entries s) k of None \<Rightarrow> False
      | Some e \<Rightarrow> path_exists (key_path k (e_frame_idx e)) s \<and> \<not> deny s (key_path k (e_frame_idx e)))"

lemma remove_file_fs [simp]:
  "deny (snd (remove_file p s)) = deny s"
  "map_of (files (snd (remove_file p s))) q =
     (if q = p \<and> \<not> deny s p then None else map_of (files s) q)"
  by (auto simp: remove_file_def path_exists_def map_of_delete_eq)

definition evict_one :: "key \<Rightarrow> entry \<Rightarrow> cache \<Rightarrow> cache" where
  "evict_one k e s =
     (if path_exists (key_path k (e_frame_idx e)) s \<and> \<not> deny s (key_path k (e_frame_idx e))
      then remove_entry k (e_size e) (snd (remove_file (key_path k (e_frame_idx e)) s)) else s)"

lemma evict_Cons:
  "trim_target < total_bytes s \<Longrightarrow> map_of (entries s) k = Some e \<Longrightarrow>
     evict (k # ks) s = evict ks (evict_one k e s)"
  by (simp add: evict_one_def remove_file_def)

lemma evict_Cons_none:
  "trim_target < total_bytes s \<Longrightarrow> map_of (entries s) k = None \<Longrightarrow> evict (k # ks) s = evict ks s"
  by simp

lemma evict_done: "total_bytes s \<le> trim_target \<Longrightarrow> evict ks s = s"
  by (cases ks) simp_all

declare evict.simps [simp del]

lemma evict_induct [consumes 0, case_names stop none some]:
  assumes "\<And>ks s. ks = [] \<or> total_bytes s \<le> trim_target \<Longrightarrow> P ks s"
    and "\<And>k ks s. trim_target < total_bytes s \<Longrightarrow> map_of (entries s) k = None \<Longrightarrow> P ks s \<Longrightarrow> P (k # ks) s"
    and "\<And>k ks s e. trim_target < total_bytes s \<Longrightarrow> map_of (entries s) k = Some e \<Longrightarrow>
            P ks (evict_one k e s) \<Longrightarrow> P (k # ks) s"
  shows "P ks s"
proof (induction ks arbitrary: s)
  case Nil
  then show ?case using assms(1) by blast
next
  case (Cons k ks)
  then show ?case using assms by (metis linorder_not_less not_Some_eq)
qed

lemma evict_nil [simp]: "evict [] s = s"
  by (simp add: evict.simps)

lemma evict_one_sel:
  "deny (evict_one k e s) = deny s"
  "map_of (files (evict_one k e s)) q \<noteq> None \<Longrightarrow> map_of (files s) q \<noteq> None"
  "map_of (entries (evict_one k e s)) k' = Some e' \<Longrightarrow> map_of (entries s) k' = Some e'"
  by (auto simp: evict_one_def map_of_delete_eq split: if_splits)

definition sub_cache :: "cache \<Rightarrow> cache \<Rightarrow> bool" where
  "sub_cache t s \<longleftrightarrow> deny t = deny s \<and>
     (\<forall>q. path_exists q t \<longrightarrow> path_exists q s) \<and>
     (\<forall>k e. map_of (entries t) k = Some e \<longrightarrow> map_of (entries s) k = Some e)"

lemma sub_cache_refl: "sub_cache s s"
  by (simp add: sub_cache_def)

lemma sub_cache_trans: "sub_cache u t \<Longrightarrow> sub_cache t s \<Longrightarrow> sub_cache u s"
  by (simp add: sub_cache_def)

lemma sub_cache_evict_one: "sub_cache (evict_one k e s) s"
  using evict_one_sel [of k e s] unfolding sub_cache_def path_exists_def by blast

lemma sub_cache_evict: "sub_cache (evict ks s) s"
proof (induction ks s rule: evict_induct)
  case (stop ks s)
  then show ?case by (auto simp: evict_done sub_cache_refl)
next
  case (none k ks s)
  then show ?case by (simp add: evict_Cons_none)
next
  case (some k ks s e)
  then show ?case by (simp add: evict_Cons sub_cache_trans [OF _ sub_cache_evict_one])
qed

lemma removable_mono: "sub_cache t s \<Longrightarrow> removable t k \<Longrightarrow> removable s k"
  unfolding removable_def sub_cache_def by (fastforce split: option.splits)

lemma evict_one_not_removable: "map_of (entries s) k = Some e \<Longrightarrow> \<not> removable (evict_one k e s) k"
  by (auto simp: removable_def evict_one_def map_of_delete_eq)

lemma evict_post:
  "total_bytes (evict ks s) \<le> trim_target \<or> (\<forall>k \<in> set ks. \<not> removable (evict ks s) k)"
proof (induction ks s rule: evict_induct)
  case (stop ks s)
  then show ?case by (auto simp: evict_done)
next
  case (none k ks s)
  then have "\<not> removable s k" by (simp add: removable_def)
  then have "\<not> removable (evict ks s) k"
    using removable_mono [OF sub_cache_evict] by blast
  with none show ?case by (simp add: evict_Cons_none)
next
  case (some k ks s e)
  then have "\<not> removable (evict ks (evict_one k e s)) k"
    using evict_one_not_removable removable_mono [OF sub_cache_evict] by blast
  with some show ?case by (simp add: evict_Cons)
qed

lemma evict_order:
  "sorted_wrt R ks \<Longrightarrow> k' \<in> set ks \<Longrightarrow> removable (evict ks s) k' \<Longrightarrow>
     map_of (entries s) k \<noteq> None \<Longrightarrow> map_of (entries (evict ks s)) k = None \<Longrightarrow> R k k'"
proof (induction ks s rule: evict_induct)
  case (stop ks s)
  then show ?case by (auto simp: evict_done)
next
  case (none j ks s)
  from none.prems none.hyps have "removable s k'"
    using removable_mono [OF sub_cache_evict, of ks s] by (simp add: evict_Cons_none)
  with none.hyps have "k' \<noteq> j" by (auto simp: removable_def)
  with none show ?case by (simp add: evict_Cons_none)
next
  case (some j ks s e)
  let ?t = "evict_one j e s"
  from some.prems some.hyps have r: "removable (evict ks ?t) k'" by (simp add: evict_Cons)
  then have "removable ?t k'" by (rule removable_mono [OF sub_cache_evict])
  with some.hyps evict_one_not_removable have "k' \<noteq> j" by blast
  with some.prems have k': "k' \<in> set ks" by simp
  show ?case
  proof (cases "k = j")
    case True
    with some.prems(1) k' show ?thesis by simp
  next
    case False
    with some.prems(4) have "map_of (entries ?t) k \<noteq> None"
      by (auto simp: evict_one_def map_of_delete_eq)
    with some r k' show ?thesis by (simp add: evict_Cons)
  qed
qed

lemma removable_mem: "removable s k \<Longrightarrow> k \<in> fst ` set (entries s)"
  by (force simp: removable_def dest: map_of_SomeD split: option.splits)

lemma removable_evict_mem: "removable (evict ks s) k \<Longrightarrow> k \<in> fst ` set (entries s)"
  by (rule removable_mem, rule removable_mono [OF sub_cache_evict])

lemma removable_cong:
  "entries t = entries s \<Longrightarrow> files t = files s \<Longrightarrow> deny t = deny s \<Longrightarrow> removable t k = removable s k"
  by (simp add: removable_def path_exists_def split: option.split)

lemma write_index_fs [simp]:
  "files (write_index s) = files s" "deny (write_index s) = deny s"
  "vid_mtime (write_index s) = vid_mtime s" "now (write_index s) = now s"
  by (simp_all add: write_index_def)

lemma remove_empty_dirs_fs [simp]:
  "files (remove_empty_dirs s) = files s" "deny (remove_empty_dirs s) = deny s"
  by (simp_all add: remove_empty_dirs_def)

lemma cleanup_keys:
  assumes "trim_target < total_bytes s"
  shows "\<exists>ks. set ks = fst ` set (entries s) \<and>
       sorted_wrt (\<lambda>k k'. written_at s k \<le> written_at s k') ks \<and>
       entries (dc_cleanup s) = entries (evict ks s) \<and>
       total_bytes (dc_cleanup s) = total_bytes (evict ks s) \<and>
       (\<forall>k. removable (dc_cleanup s) k = removable (evict ks s) k)"
proof -
  define ks where "ks = sort_key (written_at s) (map fst (entries s))"
  have eq: "dc_cleanup s = write_index (remove_empty_dirs (evict ks s))"
    using assms by (simp add: dc_cleanup_def ks_def)
  have "removable (dc_cleanup s) k = removable (evict ks s) k" for k
    unfolding eq by (rule removable_cong) simp_all
  moreover have "sorted (map (written_at s) ks)" "set ks = fst ` set (entries s)"
    by (simp_all add: ks_def)
  ultimately show ?thesis unfolding eq by (auto simp: sorted_map)
qed

lemma cleanup_bound:
  "total_bytes (dc_cleanup s) \<le> trim_target \<or> (\<forall>k. \<not> removable (dc_cleanup s) k)"
proof (cases "total_bytes s \<le> trim_target")
  case True
  then show ?thesis by (simp add: dc_cleanup_def)
next
  case False
  then obtain ks where ks: "set ks = fst ` set (entries s)"
    "total_bytes (dc_cleanup s) = total_bytes (evict ks s)"
    "\<forall>k. removable (dc_cleanup s) k = removable (evict ks s) k"
    using cleanup_keys [of s] by auto
  from evict_post [of ks s] show ?thesis
    using ks removable_evict_mem [of ks s] by metis
qed

text \<open>
  Cleanup reaches its target or runs out of files: afterwards the recorded total is at most
  three quarters of the cap, or no entry is left whose file exists and may be removed.
\<close>

theorem cleanup_reaches_target:
  "total_bytes (dc_cleanup s) \<le> trim_target \<or> (\<forall>k. \<not> removable (dc_cleanup s) k)"
  by (rule cleanup_bound)

text \<open>
  Cleanup evicts the oldest frames first: an entry it dropped was written no later than any
  entry that is left and whose file could still be removed.
\<close>

theorem cleanup_oldest_first:
  assumes "map_of (entries s) k \<noteq> None" and "map_of (entries (dc_cleanup s)) k = None"
    and "removable (dc_cleanup s) k'"
  shows "written_at s k \<le> written_at s k'"
proof (cases "total_bytes s \<le> trim_target")
  case True
  with assms show ?thesis by (simp add: dc_cleanup_def)
next
  case False
  then obtain ks where ks: "set ks = fst ` set (entries s)"
    "sorted_wrt (\<lambda>k k'. written_at s k \<le> written_at s k') ks"
    "entries (dc_cleanup s) = entries (evict ks s)"
    "\<forall>k. removable (dc_cleanup s) k = removable (evict ks s) k"
    using cleanup_keys [of s] by auto
  with assms(3) have r: "removable (evict ks s) k'" by simp
  then have "k' \<in> set ks" using removable_evict_mem ks(1) by blast
  with r ks assms show ?thesis by (intro evict_order [OF ks(2)]) simp_all
qed

lemma trim_target_cap: "trim_target \<le> cap_bytes"
  by (simp add: trim_target_def cap_bytes_def)

lemma write_parts:
  assumes "\<not> write_hit i v fi pos w s"
  obtains ok t u where
    "write_file (frame_path i fi pos w) data (create_dir i (forget (i, pos, w) s)) = (ok, t)"
    and "u = record_frame v (i, pos, w) fi (length data) t"
    and "dc_write i v fi pos w data s =
      (if ok then (True, if cap_bytes < total_bytes u then dc_cleanup (dc_flush u) else dc_flush u)
       else (False, t))"
    and "total_bytes t = total_bytes (forget (i, pos, w) s)"
proof -
  obtain ok t where w: "write_file (frame_path i fi pos w) data (create_dir i (forget (i, pos, w) s)) = (ok, t)"
    by force
  moreover from w have "total_bytes t = total_bytes (forget (i, pos, w) s)"
    using fs_ops_index(6) [of "frame_path i fi pos w" data "create_dir i (forget (i, pos, w) s)"] by simp
  ultimately show ?thesis
    using that dc_write_miss [OF assms w] by (simp add: Let_def)
qed

text \<open>
  The cap holds. If the recorded total is within 512 MiB before a \<^verbatim>\<open>write\<close>, it is within it
  afterwards, unless no entry is left whose file could be removed.
\<close>

theorem write_within_cap:
  assumes "total_bytes s \<le> cap_bytes"
  shows "total_bytes (snd (dc_write i v fi pos w data s)) \<le> cap_bytes \<or>
    (\<forall>k. \<not> removable (snd (dc_write i v fi pos w data s)) k)"
proof (cases "write_hit i v fi pos w s")
  case True
  with assms show ?thesis by (simp add: dc_write_hit)
next
  case False
  then show ?thesis
  proof (rule write_parts [of i v fi pos w s data])
    fix ok t u
    assume eq: "dc_write i v fi pos w data s =
        (if ok then (True, if cap_bytes < total_bytes u then dc_cleanup (dc_flush u) else dc_flush u)
         else (False, t))"
      and t: "total_bytes t = total_bytes (forget (i, pos, w) s)"
    have "total_bytes t \<le> cap_bytes" using assms t forget_le [of "(i, pos, w)" s] by simp
    moreover have "total_bytes (dc_cleanup (dc_flush u)) \<le> cap_bytes \<or> (\<forall>k. \<not> removable (dc_cleanup (dc_flush u)) k)"
      using cleanup_bound trim_target_cap by (meson order_trans)
    ultimately show ?thesis unfolding eq by (auto simp: dc_flush_def)
  qed
qed

section \<open>Freshness\<close>

lemma read_exists: "dc_exists i v pos w s \<longleftrightarrow> fst (dc_read i v pos w s) \<noteq> None"
  by (auto simp: dc_read_def dc_exists_def path_exists_def Let_def split: option.splits)

text \<open>
  What \<^verbatim>\<open>read\<close> returns. It returns bytes exactly when the index has an entry for the frame
  that was recorded for the video's present modification time and whose file exists, and then
  the bytes of that file; \<^verbatim>\<open>exists\<close> answers whether \<^verbatim>\<open>read\<close> would return something, and a
  successful \<^verbatim>\<open>read\<close> changes nothing.
\<close>

theorem read_fresh:
  "(fst (dc_read i v pos w s) = Some d \<longleftrightarrow>
     (\<exists>e f. map_of (entries s) (i, pos, w) = Some e \<and> e_video_mtime e = vid_mtime s v \<and>
            map_of (files s) (frame_path i (e_frame_idx e) pos w) = Some f \<and> f_data f = d)) \<and>
   (dc_exists i v pos w s \<longleftrightarrow> fst (dc_read i v pos w s) \<noteq> None) \<and>
   (fst (dc_read i v pos w s) = None \<or> snd (dc_read i v pos w s) = s)"
  by (auto simp: dc_read_def dc_exists_def path_exists_def Let_def split: option.splits)

lemma drop_stale_fs:
  "deny (drop_stale ks s) = deny s \<and> vid_mtime (drop_stale ks s) = vid_mtime s \<and>
   map_of (files (drop_stale ks s)) q =
     (if (\<exists>(k, fi, sz) \<in> set ks. q = key_path k fi) \<and> \<not> deny s q then None else map_of (files s) q)"
proof (induction ks arbitrary: s)
  case Nil
  then show ?case by simp
next
  case (Cons a ks)
  have "vid_mtime (snd (remove_file p t)) = vid_mtime t" for p t
    by (simp add: remove_file_def)
  with Cons show ?case by (cases a) auto
qed

lemma stale_entries_mem:
  assumes "keys_ok (entries s)" and "(k, e) \<in> set (entries s)"
  shows "k \<in> fst ` set (stale_entries item_id m s) \<longleftrightarrow> fst k = item_id \<and> e_video_mtime e \<noteq> m"
proof
  assume "k \<in> fst ` set (stale_entries item_id m s)"
  then obtain e' where "(k, e') \<in> set (entries s)" "fst k = item_id" "e_video_mtime e' \<noteq> m"
    unfolding stale_entries_def by auto
  moreover from this(1) assms have "e' = e"
    unfolding keys_ok_def by (metis map_of_eq_Some_iff option.inject)
  ultimately show "fst k = item_id \<and> e_video_mtime e \<noteq> m" by simp
next
  assume "fst k = item_id \<and> e_video_mtime e \<noteq> m"
  with assms(2) show "k \<in> fst ` set (stale_entries item_id m s)"
    unfolding stale_entries_def by force
qed

text \<open>
  A changed video loses its frames, and only those. When \<^verbatim>\<open>read\<close> finds an entry recorded for
  another modification time, it returns nothing, drops exactly the entries of that item that
  carry another time than the present one, and their files are gone unless the system refused.
\<close>

theorem read_drops_stale:
  assumes "keys_ok (entries s)" and "map_of (entries s) (i, pos, w) = Some e"
    and "e_video_mtime e \<noteq> vid_mtime s v"
  shows "fst (dc_read i v pos w s) = None \<and>
    entries (snd (dc_read i v pos w s)) =
      filter (\<lambda>(k, e). \<not> (fst k = i \<and> e_video_mtime e \<noteq> vid_mtime s v)) (entries s) \<and>
    (\<forall>q. map_of (files (snd (dc_read i v pos w s))) q =
      (if (\<exists>(k, e) \<in> set (entries s). fst k = i \<and> e_video_mtime e \<noteq> vid_mtime s v \<and>
              q = key_path k (e_frame_idx e)) \<and> \<not> deny s q
       then None else map_of (files s) q))"
proof -
  let ?st = "stale_entries i (vid_mtime s v) s"
  have r: "dc_read i v pos w s = (None, drop_stale ?st s)"
    using assms by (simp add: dc_read_def)
  have "(\<exists>(k, fi, sz) \<in> set ?st. q = key_path k fi) \<longleftrightarrow>
      (\<exists>(k, e) \<in> set (entries s). fst k = i \<and> e_video_mtime e \<noteq> vid_mtime s v \<and> q = key_path k (e_frame_idx e))" for q
    unfolding stale_entries_def by (simp add: case_prod_beta) blast
  moreover have "entries (drop_stale ?st s) =
      filter (\<lambda>(k, e). \<not> (fst k = i \<and> e_video_mtime e \<noteq> vid_mtime s v)) (entries s)"
    unfolding drop_stale_entries
  proof (rule filter_cong [OF refl])
    fix x assume "x \<in> set (entries s)"
    then show "(fst x \<notin> fst ` set ?st) = (case x of (k, e) \<Rightarrow> \<not> (fst k = i \<and> e_video_mtime e \<noteq> vid_mtime s v))"
      using stale_entries_mem [OF assms(1), of "fst x" "snd x" i "vid_mtime s v"]
      by (simp add: case_prod_beta)
  qed
  ultimately show ?thesis unfolding r by (simp add: drop_stale_fs)
qed

lemma write_readable:
  assumes "fst (dc_write i v fi pos w data s)" and "total_bytes s + length data \<le> cap_bytes"
    and "\<And>e. map_of (entries s) (i, pos, w) = Some e \<Longrightarrow> e_frame_idx e = fi"
  shows "dc_exists i v pos w (snd (dc_write i v fi pos w data s)) \<and>
    (dc_exists i v pos w s \<and> snd (dc_write i v fi pos w data s) = s \<or>
     \<not> dc_exists i v pos w s \<and> fst (dc_read i v pos w (snd (dc_write i v fi pos w data s))) = Some data)"
proof (cases "write_hit i v fi pos w s")
  case True
  with assms(3) have "dc_exists i v pos w s"
    by (auto simp: write_hit_def dc_exists_def split: option.splits)
  with True show ?thesis by (simp add: dc_write_hit)
next
  case miss: False
  with assms(3) have none: "\<not> dc_exists i v pos w s"
    by (auto simp: write_hit_def dc_exists_def split: option.splits)
  from miss show ?thesis
  proof (rule write_parts [of i v fi pos w s data])
    fix ok t u
    assume w: "write_file (frame_path i fi pos w) data (create_dir i (forget (i, pos, w) s)) = (ok, t)"
      and u: "u = record_frame v (i, pos, w) fi (length data) t"
      and eq: "dc_write i v fi pos w data s =
        (if ok then (True, if cap_bytes < total_bytes u then dc_cleanup (dc_flush u) else dc_flush u)
         else (False, t))"
      and t: "total_bytes t = total_bytes (forget (i, pos, w) s)"
    from eq assms(1) have ok by (auto split: if_splits)
    with w have f: "map_of (files t) (frame_path i fi pos w) = Some \<lparr>f_data = data, f_mtime = now (create_dir i (forget (i, pos, w) s))\<rparr>"
      by (auto simp: write_file_def map_of_update_eq split: if_splits)
    have le: "total_bytes t + length data \<le> cap_bytes"
      using assms(2) t forget_le [of "(i, pos, w)" s] by simp
    then have "total_bytes u \<le> cap_bytes"
      by (simp add: u record_frame_def add_u64_id cap_bytes_def)
    with eq \<open>ok\<close> have "snd (dc_write i v fi pos w data s) = dc_flush u" by simp
    moreover have "fst (dc_read i v pos w (dc_flush u)) = Some data"
      using f by (simp add: dc_read_def dc_flush_def u record_frame_def map_of_update_eq)
    ultimately show ?thesis using none read_exists by simp
  qed
qed

text \<open>
  C2: Read after write. A \<^verbatim>\<open>write\<close> that returns \<^verbatim>\<open>true\<close> within the cap makes the frame readable:
  either the frame was already cached for this video and nothing changed, or \<^verbatim>\<open>read\<close> now returns
  the bytes written. The index must not hold the position under another frame number.
\<close>

theorem write_then_read:
  assumes "fst (dc_write i v fi pos w data s)" and "total_bytes s + length data \<le> cap_bytes"
    and "\<And>e. map_of (entries s) (i, pos, w) = Some e \<Longrightarrow> e_frame_idx e = fi"
  shows "dc_exists i v pos w (snd (dc_write i v fi pos w data s)) \<and>
    (dc_exists i v pos w s \<and> snd (dc_write i v fi pos w data s) = s \<or>
     \<not> dc_exists i v pos w s \<and> fst (dc_read i v pos w (snd (dc_write i v fi pos w data s))) = Some data)"
  using write_readable assms by blast

section \<open>The interface of the servers\<close>

text \<open>The store of \<open>Frame_Store\<close>, keyed by item, video, position and width.\<close>

type_synonym frame_key = "string \<times> string \<times> int \<times> nat"

definition fk_read :: "frame_key \<Rightarrow> cache \<Rightarrow> byte list option \<times> cache" where
  "fk_read k s = (case k of (i, v, pos, w) \<Rightarrow> dc_read i v pos w s)"

definition fk_exists :: "frame_key \<Rightarrow> cache \<Rightarrow> bool" where
  "fk_exists k s = (case k of (i, v, pos, w) \<Rightarrow> dc_exists i v pos w s)"

definition fk_write :: "frame_key \<Rightarrow> int \<Rightarrow> byte list \<Rightarrow> cache \<Rightarrow> bool \<times> cache" where
  "fk_write k fi data s = (case k of (i, v, pos, w) \<Rightarrow> dc_write i v fi pos w data s)"

definition fk_fits :: "frame_key \<Rightarrow> int \<Rightarrow> byte list \<Rightarrow> cache \<Rightarrow> bool" where
  "fk_fits k fi data s \<longleftrightarrow>
     (case k of (i, v, pos, w) \<Rightarrow>
        total_bytes s + length data \<le> cap_bytes \<and>
        (\<forall>e. map_of (entries s) (i, pos, w) = Some e \<longrightarrow> e_frame_idx e = fi))"

lemma drop_stale_gone:
  assumes "map_of (entries s) (i, pos, w) = Some e" and "e_video_mtime e \<noteq> m"
  shows "map_of (entries (drop_stale (stale_entries i m s) s)) (i, pos, w) = None"
proof -
  have "(i, pos, w) \<in> fst ` set (stale_entries i m s)"
    using map_of_SomeD [OF assms(1)] assms(2) unfolding stale_entries_def by force
  then show ?thesis
    unfolding drop_stale_entries map_of_eq_None_iff set_filter by (rule not_in_image_filter)
qed

lemma read_miss_stays:
  "fst (dc_read i v pos w s) = None \<Longrightarrow> fst (dc_read i v pos w (snd (dc_read i v pos w s))) = None"
  using drop_stale_gone [of s i pos w]
  by (auto simp: dc_read_def Let_def map_of_delete_eq split: option.splits)

interpretation disk: writable_frame_store fk_read fk_exists fk_write fk_fits
proof unfold_locales
  fix k s
  show "fk_exists k s \<longleftrightarrow> fst (fk_read k s) \<noteq> None"
    by (simp add: fk_exists_def fk_read_def read_exists split: prod.split)
  show "snd (fk_read k s) = s" if "fst (fk_read k s) \<noteq> None"
    using that by (cases k) (auto simp: fk_read_def dc_read_def Let_def split: option.splits)
  show "fst (fk_read k (snd (fk_read k s))) = None" if "fst (fk_read k s) = None"
    using that by (cases k) (simp add: fk_read_def read_miss_stays)
  fix fi data
  obtain i v pos w where k: "k = (i, v, pos, w)" by (cases k)
  have r: "dc_exists i v pos w s \<and> snd (dc_write i v fi pos w data s) = s \<or>
      \<not> dc_exists i v pos w s \<and> fst (dc_read i v pos w (snd (dc_write i v fi pos w data s))) = Some data"
    if "fk_fits k fi data s" "fst (fk_write k fi data s)"
    using that write_readable [of i v fi pos w data s] by (simp add: k fk_fits_def fk_write_def)
  show "snd (fk_write k fi data s) = s"
    if "fk_fits k fi data s" "fst (fk_write k fi data s)" "fk_exists k s"
    using r [OF that(1,2)] that(3) by (simp add: k fk_write_def fk_exists_def)
  show "fst (fk_read k (snd (fk_write k fi data s))) = Some data"
    if "fk_fits k fi data s" "fst (fk_write k fi data s)" "\<not> fk_exists k s"
    using r [OF that(1,2)] that(3) by (simp add: k fk_write_def fk_exists_def fk_read_def)
qed

section \<open>A concrete cache\<close>

definition demo_key :: "nat \<Rightarrow> key" where
  "demo_key n = (''movie'', int n * 1000, 320)"

definition demo_entry :: "nat \<Rightarrow> nat \<Rightarrow> entry" where
  "demo_entry n ts = \<lparr>e_frame_idx = int n * 24, e_size = 2, e_written_at = ts, e_video_mtime = 7\<rparr>"

definition demo :: "nat \<Rightarrow> cache" where
  "demo tot =
     \<lparr>entries = [(demo_key 1, demo_entry 1 5), (demo_key 2, demo_entry 2 9)], total_bytes = tot,
      files = [(key_path (demo_key 1) 24, \<lparr>f_data = [1, 2], f_mtime = 5\<rparr>),
               (key_path (demo_key 2) 48, \<lparr>f_data = [3, 4], f_mtime = 9\<rparr>)],
      subdirs = [''movie''], root_ok = True, index_txt = None, index_deny = False,
      deny = (\<lambda>p. False), deny_dir = (\<lambda>d. False),
      vid_mtime = (\<lambda>v. if v = ''m.mkv'' then 7 else 8), now = 11\<rparr>"

lemma demo_accounted: "accounted (demo 4)"
  by (simp add: accounted_def demo_def keys_ok_def demo_key_def demo_entry_def)

lemma demo_paths: "frame_name 48 2000 320 \<noteq> frame_name 24 1000 320"
  using frame_name_inj [of 48 2000 320 24 1000 320] by (auto simp: i64_bounds)

lemma demo_cleanup:
  "map_of (entries (demo 402653185)) (demo_key 1) \<noteq> None \<and>
   map_of (entries (dc_cleanup (demo 402653185))) (demo_key 1) = None \<and>
   removable (dc_cleanup (demo 402653185)) (demo_key 2)"
proof -
  let ?s = "demo 402653185"
  have ks: "sort_key (written_at ?s) (map fst (entries ?s)) = [demo_key 1, demo_key 2]"
    by (simp add: demo_def written_at_def demo_key_def demo_entry_def)
  have over: "trim_target < total_bytes ?s" by (simp add: demo_def trim_target_def cap_bytes_def)
  define t where "t = evict_one (demo_key 1) (demo_entry 1 5) ?s"
  have t: "entries t = [(demo_key 2, demo_entry 2 9)]" "total_bytes t = 402653183"
    "path_exists (key_path (demo_key 2) 48) t" "deny t = (\<lambda>p. False)"
    by (simp_all add: t_def evict_one_def demo_def demo_key_def demo_entry_def path_exists_def
        key_path_def frame_path_def remove_file_def demo_paths)
  have "map_of (entries ?s) (demo_key 1) = Some (demo_entry 1 5)" by (simp add: demo_def)
  then have "evict [demo_key 1, demo_key 2] ?s = evict [demo_key 2] t"
    unfolding t_def by (rule evict_Cons [OF over])
  also have "\<dots> = t"
    by (rule evict_done) (simp add: t trim_target_def cap_bytes_def)
  finally have "dc_cleanup ?s = write_index (remove_empty_dirs t)"
    using over by (simp add: dc_cleanup_def ks)
  then show ?thesis
    using t by (simp add: demo_def demo_key_def demo_entry_def removable_def path_exists_def)
qed

theorem cleanup_oldest_first_witness:
  "written_at (demo 402653185) (demo_key 1) \<le> written_at (demo 402653185) (demo_key 2)"
  using demo_cleanup cleanup_oldest_first [of "demo 402653185" "demo_key 1" "demo_key 2"] by blast

theorem write_within_cap_witness:
  "total_bytes (snd (dc_write ''movie'' ''m.mkv'' 72 3000 320 [9] (demo 4))) \<le> cap_bytes \<or>
    (\<forall>k. \<not> removable (snd (dc_write ''movie'' ''m.mkv'' 72 3000 320 [9] (demo 4))) k)"
  by (rule write_within_cap) (simp add: demo_def cap_bytes_def)

theorem read_drops_stale_witness:
  "fst (dc_read ''movie'' ''changed.mkv'' 1000 320 (demo 4)) = None \<and>
   entries (snd (dc_read ''movie'' ''changed.mkv'' 1000 320 (demo 4))) = []"
proof -
  have "keys_ok (entries (demo 4))"
    using demo_accounted by (simp add: accounted_def)
  moreover have "map_of (entries (demo 4)) (''movie'', 1000, 320) = Some (demo_entry 1 5)"
    by (simp add: demo_def demo_key_def)
  moreover have "e_video_mtime (demo_entry 1 5) \<noteq> vid_mtime (demo 4) ''changed.mkv''"
    by (simp add: demo_def demo_entry_def)
  ultimately show ?thesis
    using read_drops_stale [of "demo 4" "''movie''" 1000 320 "demo_entry 1 5" "''changed.mkv''"]
    by (simp add: demo_def demo_key_def demo_entry_def)
qed

theorem write_then_read_witness:
  "fst (dc_read ''movie'' ''m.mkv'' 3000 320 (snd (dc_write ''movie'' ''m.mkv'' 72 3000 320 [9] (demo 4)))) = Some [9]"
proof -
  have 1: "fst (dc_write ''movie'' ''m.mkv'' 72 3000 320 [9] (demo 4))"
    by (simp add: dc_write_def demo_def demo_key_def write_file_def create_dir_def frame_path_def Let_def)
  have 2: "\<not> dc_exists ''movie'' ''m.mkv'' 3000 320 (demo 4)"
    by (simp add: dc_exists_def demo_def demo_key_def)
  have 3: "e_frame_idx e = 72" if "map_of (entries (demo 4)) (''movie'', 3000, 320) = Some e" for e
    using that by (simp add: demo_def demo_key_def)
  have 4: "total_bytes (demo 4) + length [9 :: byte] \<le> cap_bytes"
    by (simp add: demo_def cap_bytes_def)
  show ?thesis using write_then_read [OF 1 4 3] 2 by blast
qed

end
