(* ===== verification/Disk_Tasks.thy ===== *)
theory Disk_Tasks
  imports Disk_Cache
begin

text \<open>
  The disk cache under concurrent use. \<^verbatim>\<open>DiskCache\<close> is shared by the tasks of a daemon behind an
  \<^verbatim>\<open>Arc\<close>, and its operations hold the mutex of the index only for parts of their work:
  \<^verbatim>\<open>write\<close> takes it to test and forget the old entry, gives it back while the file is
  written, takes it again to insert the new entry, and once more in \<^verbatim>\<open>flush\<close> and in \<^verbatim>\<open>cleanup\<close>;
  \<^verbatim>\<open>read\<close> gives it back before it reads the file and takes it again when that fails.

  Here every stretch between two such points is a step of its own. A \<open>dc_task\<close> is the point one
  call has reached, with the values its Rust frame holds there; \<open>cache_step\<close> lets any task
  take its next step, starts new calls, and lets the rest of the machine change everything the
  mutex does not guard. \<open>dc_write_phases\<close> and \<open>dc_read_phases\<close> tie the steps to \<open>dc_write\<close>
  and \<open>dc_read\<close> of \<open>Disk_Cache\<close>, which are the calls that run undisturbed.

  A task reads the clock and the modification time of its video outside the mutex, so the
  values a step uses are arbitrary. The file removals of \<^verbatim>\<open>cleanup\<close> and of the stale loop
  happen under the mutex; a file another task creates meanwhile counts as one that was there.
\<close>

section \<open>The stretches under and between the locks\<close>

text \<open>\<^verbatim>\<open>write\<close>: the first critical section, for the modification time read before it.\<close>

definition write_check :: "nat \<Rightarrow> path \<Rightarrow> key \<Rightarrow> cache \<Rightarrow> bool \<times> cache" where
  "write_check current_mtime p k s =
     (case map_of (entries s) k of
        None \<Rightarrow> (False, s)
      | Some e \<Rightarrow>
          if e_video_mtime e = current_mtime \<and> path_exists p s then (True, s)
          else (False, remove_entry k (e_size e) s))"

text \<open>\<^verbatim>\<open>write\<close>: the directory and the file, without the lock.\<close>

definition write_data :: "path \<Rightarrow> byte list \<Rightarrow> cache \<Rightarrow> bool \<times> cache" where
  "write_data p data s = write_file p data (create_dir (fst p) s)"

text \<open>\<^verbatim>\<open>write\<close>: the second critical section; the result says whether the cap is exceeded.\<close>

definition insert_entry :: "key \<Rightarrow> entry \<Rightarrow> cache \<Rightarrow> bool \<times> cache" where
  "insert_entry k e s =
     (let s = s\<lparr>entries := AList.update k e (entries s), total_bytes := add_u64 (total_bytes s) (e_size e)\<rparr>
      in (cap_bytes < total_bytes s, s))"

text \<open>\<^verbatim>\<open>read\<close>: the first critical section, the file, and the second critical section.\<close>

definition read_check :: "nat \<Rightarrow> key \<Rightarrow> cache \<Rightarrow> path option \<times> cache" where
  "read_check current_mtime k s =
     (case map_of (entries s) k of
        None \<Rightarrow> (None, s)
      | Some e \<Rightarrow>
          if e_video_mtime e \<noteq> current_mtime
          then (None, drop_stale (stale_entries (fst k) current_mtime s) s)
          else (Some (key_path k (e_frame_idx e)), s))"

definition read_data :: "path \<Rightarrow> cache \<Rightarrow> byte list option" where
  "read_data p s = map_option f_data (map_of (files s) p)"

lemma dc_write_phases:
  "dc_write i v fi pos w data s =
     (let (hit, s) = write_check (vid_mtime s v) (frame_path i fi pos w) (i, pos, w) s
      in if hit then (True, s)
         else let (written, s) = write_data (frame_path i fi pos w) data s
              in if \<not> written then (False, s)
                 else let (over_cap, s) =
                            insert_entry (i, pos, w)
                              \<lparr>e_frame_idx = fi, e_size = length data, e_written_at = now s,
                               e_video_mtime = vid_mtime s v\<rparr> s;
                          s = dc_flush s
                      in (True, if over_cap then dc_cleanup s else s))"
  by (simp add: dc_write_def write_check_def write_data_def insert_entry_def frame_path_def Let_def
      split: option.split prod.split)

lemma dc_read_phases:
  "dc_read i v pos w s =
     (let (found, s) = read_check (vid_mtime s v) (i, pos, w) s
      in case found of
           None \<Rightarrow> (None, s)
         | Some p \<Rightarrow> (case read_data p s of
                        Some bytes \<Rightarrow> (Some bytes, s)
                      | None \<Rightarrow> (None, forget (i, pos, w) s)))"
  by (simp add: dc_read_def read_check_def read_data_def forget_def key_path_def Let_def
      split: option.split)

section \<open>Tasks\<close>

text \<open>
  \<open>Write_Begin\<close> and \<open>Read_Begin\<close> are calls that have not taken the lock yet; \<open>Write_File\<close> has
  left the first critical section, \<open>Write_Stat\<close> has written the file, \<open>Write_Insert\<close> has built
  the new entry, \<open>Write_Flush\<close> has inserted it; \<open>Read_File\<close> holds the path, \<open>Read_Failed\<close> has
  failed to read it.
\<close>

datatype dc_task =
    Write_Begin key int "byte list"
  | Write_File key int "byte list"
  | Write_Stat key int nat
  | Write_Insert key entry
  | Write_Flush bool
  | Write_Cleanup
  | Read_Begin key
  | Read_File key path
  | Read_Failed key

text \<open>
  One step of a task: the first argument is the second the clock shows, the second one the
  modification time of the task's video. The result is what is left of the call.
\<close>

fun task_step :: "nat \<Rightarrow> nat \<Rightarrow> dc_task \<Rightarrow> cache \<Rightarrow> dc_task option \<times> cache" where
  "task_step ts mt (Write_Begin k fi data) s =
     (let (hit, s) = write_check mt (key_path k fi) k s
      in (if hit then None else Some (Write_File k fi data), s))"
| "task_step ts mt (Write_File k fi data) s =
     (let (written, s) = write_data (key_path k fi) data s
      in (if written then Some (Write_Stat k fi (length data)) else None, s))"
| "task_step ts mt (Write_Stat k fi n) s =
     (Some (Write_Insert k \<lparr>e_frame_idx = fi, e_size = n, e_written_at = ts, e_video_mtime = mt\<rparr>), s)"
| "task_step ts mt (Write_Insert k e) s =
     (let (over_cap, s) = insert_entry k e s in (Some (Write_Flush over_cap), s))"
| "task_step ts mt (Write_Flush over_cap) s =
     (if over_cap then Some Write_Cleanup else None, dc_flush s)"
| "task_step ts mt Write_Cleanup s = (None, dc_cleanup s)"
| "task_step ts mt (Read_Begin k) s =
     (let (found, s) = read_check mt k s in (map_option (Read_File k) found, s))"
| "task_step ts mt (Read_File k p) s =
     (case read_data p s of Some _ \<Rightarrow> None | None \<Rightarrow> Some (Read_Failed k), s)"
| "task_step ts mt (Read_Failed k) s = (None, forget k s)"

fun pending_key :: "dc_task \<Rightarrow> key option" where
  "pending_key (Write_Begin k fi data) = Some k"
| "pending_key (Write_File k fi data) = Some k"
| "pending_key (Write_Stat k fi n) = Some k"
| "pending_key (Write_Insert k e) = Some k"
| "pending_key task = None"

definition pending :: "dc_task list \<Rightarrow> key list" where
  "pending tasks = List.map_filter pending_key tasks"

record cache_sys =
  cs_cache :: cache
  cs_tasks :: "dc_task list"

text \<open>
  The steps of the whole. \<open>one_writer\<close> restricts the callers: a \<^verbatim>\<open>write\<close> of a key only starts
  when no other one of that key is on its way to the index.
\<close>

definition may_start :: "bool \<Rightarrow> dc_task \<Rightarrow> dc_task list \<Rightarrow> bool" where
  "may_start one_writer task tasks \<longleftrightarrow>
     (case task of
        Write_Begin k fi data \<Rightarrow> one_writer \<longrightarrow> k \<notin> set (pending tasks)
      | Read_Begin k \<Rightarrow> True
      | _ \<Rightarrow> False)"

inductive cache_step :: "bool \<Rightarrow> cache_sys \<Rightarrow> cache_sys \<Rightarrow> bool" for one_writer where
  start: "may_start one_writer task (cs_tasks s) \<Longrightarrow>
     cache_step one_writer s (s\<lparr>cs_tasks := cs_tasks s @ [task]\<rparr>)"
| run: "cs_tasks s = pre @ task # post \<Longrightarrow> task_step ts mt task (cs_cache s) = (rest, c) \<Longrightarrow>
     cache_step one_writer s \<lparr>cs_cache = c, cs_tasks = pre @ (case rest of None \<Rightarrow> [] | Some t \<Rightarrow> [t]) @ post\<rparr>"
| world: "entries c = entries (cs_cache s) \<Longrightarrow> total_bytes c = total_bytes (cs_cache s) \<Longrightarrow>
     cache_step one_writer s (s\<lparr>cs_cache := c\<rparr>)"

text \<open>No insertion that is due overflows the 64-bit total.\<close>

definition no_overflow :: "cache_sys \<Rightarrow> bool" where
  "no_overflow s \<longleftrightarrow>
     (\<forall>k e. Write_Insert k e \<in> set (cs_tasks s) \<longrightarrow> total_bytes (cs_cache s) + e_size e < 2 ^ 64)"

definition cache_run :: "bool \<Rightarrow> cache_sys \<Rightarrow> cache_sys \<Rightarrow> bool" where
  "cache_run one_writer = (\<lambda>s t. cache_step one_writer s t \<and> no_overflow s)\<^sup>*\<^sup>*"

definition at_rest :: "cache \<Rightarrow> cache_sys" where
  "at_rest c = \<lparr>cs_cache = c, cs_tasks = []\<rparr>"

section \<open>Accounting under concurrency\<close>

definition still_covers :: "cache \<Rightarrow> cache \<Rightarrow> bool" where
  "still_covers s t \<longleftrightarrow> accounted t \<and> phantom s \<le> phantom t"

lemma same_covers: "same_account s t \<Longrightarrow> still_covers s t"
  by (simp add: same_account_def still_covers_def)

lemma covers_trans: "still_covers s t \<Longrightarrow> still_covers t u \<Longrightarrow> still_covers s u"
  by (auto simp: still_covers_def)

lemma sum_alist_update:
  assumes "keys_ok m"
  shows "sum_alist f (AList.update k v m) + (case map_of m k of None \<Rightarrow> 0 | Some u \<Rightarrow> f u) = f v + sum_alist f m"
  using assms
proof (induction m)
  case Nil
  then show ?case by simp
next
  case (Cons a m)
  obtain k' u where a: "a = (k', u)" by force
  from Cons.prems have "keys_ok m" by (simp add: keys_ok_def)
  with Cons.IH a show ?case by (cases "k' = k") auto
qed

lemma insert_covers:
  assumes "accounted s" and "total_bytes s + e_size e < 2 ^ 64"
  shows "still_covers s (snd (insert_entry k e s)) \<and>
    phantom (snd (insert_entry k e s)) =
      phantom s + (case map_of (entries s) k of None \<Rightarrow> 0 | Some d \<Rightarrow> e_size d)"
proof -
  from assms have "keys_ok (entries s)" and le: "sum_alist e_size (entries s) \<le> total_bytes s"
    by (simp_all add: accounted_def)
  with assms(2) sum_alist_update [of "entries s" e_size k e] show ?thesis
    by (auto simp: insert_entry_def still_covers_def accounted_def phantom_def add_u64_id Let_def)
qed

lemma read_check_account: "accounted s \<Longrightarrow> same_account s (snd (read_check mt k s))"
  by (auto simp: read_check_def same_account_refl accounted_def
      intro!: drop_stale_account live_keys_stale split: option.split)

lemma write_check_account: "accounted s \<Longrightarrow> same_account s (snd (write_check mt p k s))"
  by (auto simp: write_check_def same_account_refl remove_entry_account split: option.split)

lemmas stretch_accounts =
  read_check_account write_check_account flush_account cleanup_account forget_account
  same_account_refl

text \<open>Every stretch but the insertion leaves the account as it is.\<close>

lemma task_step_account:
  assumes "task_step ts mt task s = (rest, t)" and "accounted s" and "\<And>k e. task \<noteq> Write_Insert k e"
  shows "same_account s t"
proof (cases task)
  case (Write_File k fi data)
  with assms(1) have "t = snd (write_data (key_path k fi) data s)" by (auto split: prod.splits)
  then show ?thesis
    using write_file_account [OF assms(2)] by (simp add: write_data_def)
next
  case (Write_Begin k fi data)
  with assms(1) have "t = snd (write_check mt (key_path k fi) k s)" by (auto split: prod.splits)
  with assms(2) show ?thesis by (simp add: stretch_accounts)
next
  case (Read_Begin k)
  with assms(1) have "t = snd (read_check mt k s)" by (auto split: prod.splits)
  with assms(2) show ?thesis by (simp add: stretch_accounts)
qed (use assms in \<open>auto simp: stretch_accounts\<close>)

lemma task_step_covers:
  assumes "task_step ts mt task s = (rest, t)" and "accounted s"
    and "\<And>k e. task = Write_Insert k e \<Longrightarrow> total_bytes s + e_size e < 2 ^ 64"
  shows "still_covers s t"
proof (cases "\<exists>k e. task = Write_Insert k e")
  case True
  then obtain k e where "task = Write_Insert k e" by blast
  with assms insert_covers [of s e k] show ?thesis by (auto split: prod.splits)
next
  case False
  with assms task_step_account show ?thesis by (blast intro: same_covers)
qed

lemma account_cong:
  "entries t = entries s \<Longrightarrow> total_bytes t = total_bytes s \<Longrightarrow>
     accounted t = accounted s \<and> phantom t = phantom s"
  by (simp add: accounted_def phantom_def)

lemma step_covers:
  assumes "cache_step one_writer s t" and "no_overflow s" and "accounted (cs_cache s)"
  shows "still_covers (cs_cache s) (cs_cache t)"
  using assms
proof (cases rule: cache_step.cases)
  case (run pre task post ts mt rest c)
  then have "total_bytes (cs_cache s) + e_size e < 2 ^ 64" if "task = Write_Insert k e" for k e
    using assms(2) that by (auto simp: no_overflow_def)
  with run assms(3) show ?thesis by (auto intro: task_step_covers)
next
  case (start task)
  with assms(3) show ?thesis by (simp add: still_covers_def)
next
  case (world c)
  with assms(3) account_cong [of c "cs_cache s"] show ?thesis by (simp add: still_covers_def)
qed

section \<open>One writer of a key\<close>

text \<open>
  With one writer of a key at a time, a key past the first critical section of its writer is
  not in the index.
\<close>

fun passed_key :: "dc_task \<Rightarrow> key option" where
  "passed_key (Write_Begin k fi data) = None"
| "passed_key task = pending_key task"

definition open_keys :: "cache_sys \<Rightarrow> bool" where
  "open_keys s \<longleftrightarrow> distinct (pending (cs_tasks s)) \<and>
     (\<forall>task k. task \<in> set (cs_tasks s) \<and> passed_key task = Some k \<longrightarrow> map_of (entries (cs_cache s)) k = None)"

lemma pending_simps [simp]:
  "pending [] = []"
  "pending (task # tasks) = (case pending_key task of None \<Rightarrow> [] | Some k \<Rightarrow> [k]) @ pending tasks"
  "pending (tasks @ tasks') = pending tasks @ pending tasks'"
  by (simp_all add: pending_def List.map_filter_def split: option.split)

lemma pending_mem: "k \<in> set (pending tasks) \<longleftrightarrow> (\<exists>task \<in> set tasks. pending_key task = Some k)"
  by (force simp: pending_def List.map_filter_def)

lemma passed_pending: "passed_key task = Some k \<Longrightarrow> pending_key task = Some k"
  by (cases task) simp_all

definition no_new_keys :: "cache \<Rightarrow> cache \<Rightarrow> bool" where
  "no_new_keys s t \<longleftrightarrow> (\<forall>k. map_of (entries s) k = None \<longrightarrow> map_of (entries t) k = None)"

lemma filter_no_new: "map_of m k = None \<Longrightarrow> map_of (filter P m) k = None"
  by (auto simp: map_of_eq_None_iff)

lemma no_new_keysI: "entries t = filter P (entries s) \<Longrightarrow> no_new_keys s t"
  by (simp add: no_new_keys_def filter_no_new)

lemma cleanup_no_new: "no_new_keys s (dc_cleanup s)"
proof -
  have "no_new_keys s (evict ks s)" for ks
    using sub_cache_evict [of ks s] unfolding sub_cache_def no_new_keys_def
    by (metis not_None_eq)
  then show ?thesis by (simp add: dc_cleanup_def no_new_keys_def)
qed

lemma stretches_no_new:
  "no_new_keys s (snd (write_check mt p k s))" "no_new_keys s (snd (read_check mt k s))"
  "no_new_keys s (forget k s)" "no_new_keys s (dc_flush s)" "no_new_keys s (snd (write_data p data s))"
  by (auto simp: no_new_keys_def write_check_def read_check_def forget_def dc_flush_def write_data_def
      map_of_delete_eq drop_stale_entries filter_no_new split: option.split)

lemma task_step_keys:
  assumes "task_step ts mt task s = (rest, t)" and "map_of (entries s) k = None"
    and "\<And>e. task \<noteq> Write_Insert k e"
  shows "map_of (entries t) k = None"
proof (cases task)
  case (Write_Insert k' e)
  moreover from this assms(3) have "k' \<noteq> k" by blast
  ultimately show ?thesis using assms(1,2) by (auto simp: insert_entry_def map_of_update_eq Let_def)
next
  case (Write_Begin k' fi data)
  with assms(1) have "t = snd (write_check mt (key_path k' fi) k' s)" by (auto split: prod.splits)
  then show ?thesis using assms(2) stretches_no_new(1) by (simp add: no_new_keys_def)
next
  case (Read_Begin k')
  with assms(1) have "t = snd (read_check mt k' s)" by (auto split: prod.splits)
  then show ?thesis using assms(2) stretches_no_new(2) by (simp add: no_new_keys_def)
next
  case (Write_File k' fi data)
  with assms(1) have "t = snd (write_data (key_path k' fi) data s)" by (auto split: prod.splits)
  then show ?thesis using assms(2) stretches_no_new(5) by (simp add: no_new_keys_def)
qed (use assms stretches_no_new(3,4) cleanup_no_new in \<open>auto simp: no_new_keys_def\<close>)

text \<open>What is left of a call holds the key only if the call held it, and is past the check only
  if the key is not in the index.\<close>

lemma task_step_rest:
  assumes "task_step ts mt task s = (Some t', t)"
  shows "pending_key t' = Some k \<Longrightarrow> pending_key task = Some k"
    and "passed_key t' = Some k \<Longrightarrow> passed_key task = Some k \<or> map_of (entries t) k = None"
  using assms
  by (cases task; force simp: write_check_def map_of_delete_eq split: option.splits prod.splits if_splits)+

lemma step_open_keys:
  assumes "cache_step True s t" and "open_keys s"
  shows "open_keys t"
  using assms
proof (cases rule: cache_step.cases)
  case (start task)
  then have "pending_key task = None \<or> (\<exists>k. pending_key task = Some k \<and> k \<notin> set (pending (cs_tasks s)))"
    and "passed_key task = None"
    by (auto simp: may_start_def split: dc_task.splits)
  with assms(2) start show ?thesis by (auto simp: open_keys_def)
next
  case (world c)
  with assms(2) show ?thesis by (simp add: open_keys_def)
next
  case (run pre task post ts mt rest c)
  let ?r = "case rest of None \<Rightarrow> [] | Some t' \<Rightarrow> [t']"
  from assms(2) run have d: "distinct (pending (pre @ task # post))"
    and none: "\<And>task' k. task' \<in> set (pre @ task # post) \<Longrightarrow> passed_key task' = Some k \<Longrightarrow>
      map_of (entries (cs_cache s)) k = None"
    by (auto simp: open_keys_def)
  have sub: "set (pending ?r) \<subseteq> set (pending [task]) \<and> distinct (pending ?r)"
  proof (cases rest)
    case (Some t')
    with task_step_rest(1) [of ts mt task "cs_cache s" t' c] run(3) show ?thesis
      by (auto split: option.splits)
  qed simp
  have 1: "distinct (pending (pre @ ?r @ post))" using d sub by auto
  have 2: "map_of (entries c) k = None" if "task' \<in> set (pre @ post)" "passed_key task' = Some k" for task' k
  proof (rule task_step_keys [OF run(3)])
    show "map_of (entries (cs_cache s)) k = None" by (rule none) (use that in auto)
    have "k \<in> set (pending (pre @ post))" using that passed_pending by (metis pending_mem)
    with d show "task \<noteq> Write_Insert k e" for e by auto
  qed
  have 3: "map_of (entries c) k = None" if "rest = Some t'" "passed_key t' = Some k" for t' k
  proof -
    have n: "task \<noteq> Write_Insert k e" for e using run(3) that by (auto split: prod.splits)
    from task_step_rest(2) [OF run(3) [unfolded that(1)] that(2)] show ?thesis
    proof
      assume "passed_key task = Some k"
      with none [of task k] have "map_of (entries (cs_cache s)) k = None" by simp
      then show ?thesis using n by (rule task_step_keys [OF run(3)])
    qed
  qed
  from 1 2 3 run show ?thesis by (auto simp: open_keys_def split: option.splits)
qed

lemma step_same:
  assumes "cache_step True s t" and "no_overflow s" and "accounted (cs_cache s)" and "open_keys s"
  shows "same_account (cs_cache s) (cs_cache t)"
  using assms(1)
proof (cases rule: cache_step.cases)
  case (start task)
  with assms(3) show ?thesis by (simp add: same_account_refl)
next
  case (world c)
  with assms(3) account_cong [of c "cs_cache s"] show ?thesis by (simp add: same_account_def)
next
  case (run pre task post ts mt rest c)
  show ?thesis
  proof (cases "\<exists>k e. task = Write_Insert k e")
    case True
    then obtain k e where t: "task = Write_Insert k e" by blast
    have "total_bytes (cs_cache s) + e_size e < 2 ^ 64" "map_of (entries (cs_cache s)) k = None"
      using assms(2,4) run t by (force simp: no_overflow_def open_keys_def)+
    moreover have "c = snd (insert_entry k e (cs_cache s))" using run t by (auto split: prod.splits)
    ultimately show ?thesis
      using insert_covers [OF assms(3), of e k] run by (simp add: same_account_def still_covers_def)
  next
    case False
    with run assms(3) show ?thesis by (auto intro: task_step_account)
  qed
qed

lemma run_covers:
  assumes "cache_run one_writer s t" and "accounted (cs_cache s)"
  shows "still_covers (cs_cache s) (cs_cache t)"
  using assms(1) unfolding cache_run_def
proof (induction rule: rtranclp_induct)
  case base
  with assms(2) show ?case by (simp add: still_covers_def)
next
  case (step t u)
  then show ?case using step_covers [of one_writer t u] covers_trans by (auto simp: still_covers_def)
qed

lemma run_same:
  assumes "cache_run True s t" and "accounted (cs_cache s)" and "open_keys s"
  shows "same_account (cs_cache s) (cs_cache t) \<and> open_keys t"
  using assms(1) unfolding cache_run_def
proof (induction rule: rtranclp_induct)
  case base
  with assms(2,3) show ?case by (simp add: same_account_refl)
next
  case (step t u)
  then show ?case
    using step_same [of t u] step_open_keys [of t u] same_account_trans by (auto simp: same_account_def)
qed

text \<open>
  C1: Byte accounting under concurrent calls. Start from an index whose keys are distinct and whose
  recorded total covers its entries. However many calls of \<^verbatim>\<open>read\<close> and \<^verbatim>\<open>write\<close>, with the
  flushes and cleanups they run, are interleaved at the points where they do not hold the lock,
  and whatever else happens to the files meanwhile, after every step the index is still such an
  index and what the total counts beyond its entries has not shrunk. If no key is written by two
  calls at once, that excess is unchanged, so an exact index stays exact. The 64-bit total must
  not overflow.
\<close>

theorem cache_accounting:
  assumes "accounted c" and "cache_run one_writer (at_rest c) t"
  shows "accounted (cs_cache t) \<and> phantom c \<le> phantom (cs_cache t) \<and>
    (one_writer \<longrightarrow> phantom (cs_cache t) = phantom c)"
proof -
  have "open_keys (at_rest c)" by (simp add: open_keys_def at_rest_def)
  then show ?thesis
    using run_covers [OF assms(2)] run_same [of "at_rest c" t] assms
    by (auto simp: at_rest_def still_covers_def same_account_def)
qed

section \<open>Two writers of a key\<close>

lemma cache_run_refl: "cache_run one_writer s s"
  by (simp add: cache_run_def)

lemma cache_run_trans [trans]: "cache_run one_writer s t \<Longrightarrow> cache_run one_writer t u \<Longrightarrow> cache_run one_writer s u"
  unfolding cache_run_def by (rule rtranclp_trans)

lemma cache_run_step: "cache_step one_writer s t \<Longrightarrow> no_overflow s \<Longrightarrow> cache_run one_writer s t"
  unfolding cache_run_def by blast

definition both :: "cache \<Rightarrow> dc_task \<Rightarrow> cache_sys" where
  "both c task = \<lparr>cs_cache = c, cs_tasks = [task, task]\<rparr>"

lemma both_run:
  assumes "task_step ts mt task c = (rest, c')" and "task_step ts mt task c' = (rest, c'')"
    and "\<And>k e. task = Write_Insert k e \<Longrightarrow>
      total_bytes c + e_size e < 2 ^ 64 \<and> total_bytes c' + e_size e < 2 ^ 64 \<and> (\<forall>j d. rest \<noteq> Some (Write_Insert j d))"
    and "\<And>k e. rest = Some (Write_Insert k e) \<Longrightarrow> total_bytes c' + e_size e < 2 ^ 64"
  shows "cache_run one_writer (both c task)
    \<lparr>cs_cache = c'', cs_tasks = (case rest of None \<Rightarrow> [] | Some r \<Rightarrow> [r, r])\<rparr>"
proof (rule cache_run_trans)
  let ?r = "case rest of None \<Rightarrow> [] | Some r \<Rightarrow> [r]"
  let ?m = "\<lparr>cs_cache = c', cs_tasks = ?r @ [task]\<rparr>"
  have "cache_step one_writer (both c task) \<lparr>cs_cache = c', cs_tasks = [] @ ?r @ [task]\<rparr>"
    by (rule cache_step.run) (use assms(1) in \<open>auto simp: both_def\<close>)
  moreover have "no_overflow (both c task)"
    using assms(3) by (auto simp: no_overflow_def both_def)
  ultimately show "cache_run one_writer (both c task) ?m"
    by (auto intro: cache_run_step)
  have "cache_step one_writer ?m \<lparr>cs_cache = c'', cs_tasks = ?r @ ?r @ []\<rparr>"
    by (rule cache_step.run [where task = task]) (use assms(2) in auto)
  moreover have "no_overflow ?m"
    using assms(3,4) by (auto simp: no_overflow_def split: option.splits)
  ultimately show "cache_run one_writer ?m
      \<lparr>cs_cache = c'', cs_tasks = (case rest of None \<Rightarrow> [] | Some r \<Rightarrow> [r, r])\<rparr>"
    by (auto intro: cache_run_step split: option.splits)
qed

lemma both_start:
  "cache_run False (at_rest c) (both c (Write_Begin k fi data))"
proof (rule cache_run_trans)
  let ?m = "\<lparr>cs_cache = c, cs_tasks = [Write_Begin k fi data]\<rparr>"
  have *: "cache_step False \<lparr>cs_cache = c, cs_tasks = ts\<rparr>
      \<lparr>cs_cache = c, cs_tasks = ts @ [Write_Begin k fi data]\<rparr>" for ts
    using cache_step.start [of False "Write_Begin k fi data" "\<lparr>cs_cache = c, cs_tasks = ts\<rparr>"]
    by (simp add: may_start_def)
  show "cache_run False (at_rest c) ?m"
    using * [of "[]"] by (intro cache_run_step) (simp_all add: at_rest_def no_overflow_def)
  show "cache_run False ?m (both c (Write_Begin k fi data))"
    using * [of "[Write_Begin k fi data]"] by (intro cache_run_step) (simp_all add: both_def no_overflow_def)
qed

lemma write_data_ok:
  assumes "\<not> deny_dir s (fst p)" and "\<not> deny s p"
  shows "\<exists>t. write_data p data s = (True, t) \<and> entries t = entries s \<and> total_bytes t = total_bytes s \<and>
    deny t = deny s \<and> deny_dir t = deny_dir s \<and> path_exists p t"
  using assms by (auto simp: write_data_def write_file_def create_dir_def path_exists_def map_of_update_eq)

lemma insert_entry_sel:
  assumes "total_bytes s + e_size e \<le> cap_bytes"
  shows "\<exists>t. insert_entry k e s = (False, t) \<and> entries t = AList.update k e (entries s) \<and>
    total_bytes t = total_bytes s + e_size e \<and> files t = files s"
  using assms by (auto simp: insert_entry_def add_u64_id cap_bytes_def Let_def)

lemma two_writers:
  fixes data :: "byte list"
  assumes "accounted c" and "map_of (entries c) k = None"
    and "\<not> deny_dir c (fst (key_path k fi))" and "\<not> deny c (key_path k fi)"
    and "total_bytes c + 2 * length data \<le> cap_bytes"
  shows "\<exists>t. cache_run False (at_rest c) t \<and> cs_tasks t = [] \<and> path_exists (key_path k fi) (cs_cache t) \<and>
    total_bytes (cs_cache t) = total_bytes c + 2 * length data \<and>
    (\<exists>e. e_size e = length data \<and> e_frame_idx e = fi \<and> entries (cs_cache t) = AList.update k e (entries c))"
proof -
  let ?e = "\<lparr>e_frame_idx = fi, e_size = length data, e_written_at = 0, e_video_mtime = 0\<rparr>"
  obtain c1 where w1: "write_data (key_path k fi) data c = (True, c1)" "entries c1 = entries c"
    "total_bytes c1 = total_bytes c" "deny c1 = deny c" "deny_dir c1 = deny_dir c"
    using write_data_ok assms(3,4) by blast
  obtain c2 where w2: "write_data (key_path k fi) data c1 = (True, c2)" "entries c2 = entries c"
    "total_bytes c2 = total_bytes c" "path_exists (key_path k fi) c2"
    using write_data_ok [of c1 "key_path k fi" data] w1 assms(3,4) by auto
  obtain c3 where i1: "insert_entry k ?e c2 = (False, c3)" "entries c3 = AList.update k ?e (entries c)"
    "total_bytes c3 = total_bytes c + length data" "files c3 = files c2"
    using insert_entry_sel [of c2 ?e k] w2 assms(5) by auto
  obtain c4 where i2: "insert_entry k ?e c3 = (False, c4)" "entries c4 = AList.update k ?e (entries c3)"
    "total_bytes c4 = total_bytes c + 2 * length data" "files c4 = files c3"
    using insert_entry_sel [of c3 ?e k] i1 assms(5) by auto
  have big: "total_bytes c + 2 * length data < 2 ^ 64"
    using assms(5) by (simp add: cap_bytes_def)
  have "cache_run False (at_rest c) (both c (Write_Begin k fi data))" by (rule both_start)
  also have "cache_run False (both c (Write_Begin k fi data)) (both c (Write_File k fi data))"
    using both_run [of 0 0 "Write_Begin k fi data" c "Some (Write_File k fi data)" c c] assms(2)
    by (simp add: both_def write_check_def)
  also have "cache_run False (both c (Write_File k fi data)) (both c2 (Write_Stat k fi (length data)))"
    using both_run [of 0 0 "Write_File k fi data" c "Some (Write_Stat k fi (length data))" c1 c2] w1 w2
    by (simp add: both_def)
  also have "cache_run False (both c2 (Write_Stat k fi (length data))) (both c2 (Write_Insert k ?e))"
    using both_run [of 0 0 "Write_Stat k fi (length data)" c2 "Some (Write_Insert k ?e)" c2 c2] big w2
    by (simp add: both_def)
  also have "cache_run False (both c2 (Write_Insert k ?e)) (both c4 (Write_Flush False))"
    using both_run [of 0 0 "Write_Insert k ?e" c2 "Some (Write_Flush False)" c3 c4] big w2 i1 i2
    by (simp add: both_def)
  also have "cache_run False (both c4 (Write_Flush False)) (at_rest (dc_flush (dc_flush c4)))"
    using both_run [of 0 0 "Write_Flush False" c4 None "dc_flush c4" "dc_flush (dc_flush c4)"]
    by (simp add: both_def at_rest_def)
  finally have "cache_run False (at_rest c) (at_rest (dc_flush (dc_flush c4)))" .
  moreover have "entries c4 = AList.update k ?e (entries c)"
    using i1 i2 by (simp add: update_triv update_last)
  ultimately show ?thesis
    using i1 i2 w2
    by - (rule exI [of _ "at_rest (dc_flush (dc_flush c4))"],
        simp add: at_rest_def dc_flush_def path_exists_def, rule exI [of _ ?e], simp)
qed

text \<open>
  C33: Two writers of a new frame leave the index wrong for good. When a frame is not in the index and
  two calls of \<^verbatim>\<open>write\<close> store it at the same time, both can find it missing before either
  inserts it. Both then add its size: the index ends with one entry for the frame and a total that
  is too large by its size, and no later call, alone or interleaved with others, takes this off
  again. The frame must fit below the cap twice and the system must let the file be written.
\<close>

theorem concurrent_writers_drift:
  fixes data :: "byte list"
  assumes "accounted c" and "map_of (entries c) k = None"
    and "\<not> deny_dir c (fst (key_path k fi))" and "\<not> deny c (key_path k fi)"
    and "total_bytes c + 2 * length data \<le> cap_bytes"
  shows "\<exists>t. cache_run False (at_rest c) t \<and> cs_tasks t = [] \<and>
    map_of (entries (cs_cache t)) k \<noteq> None \<and> path_exists (key_path k fi) (cs_cache t) \<and>
    phantom (cs_cache t) = phantom c + length data \<and>
    (\<forall>u. cache_run False t u \<longrightarrow> phantom c + length data \<le> phantom (cs_cache u))"
proof -
  obtain t e where t: "cache_run False (at_rest c) t" "cs_tasks t = []"
    "path_exists (key_path k fi) (cs_cache t)" "total_bytes (cs_cache t) = total_bytes c + 2 * length data"
    "e_size e = length data" "entries (cs_cache t) = AList.update k e (entries c)"
    using two_writers [OF assms] by blast
  from assms(1,2) t have p: "phantom (cs_cache t) = phantom c + length data"
    by (simp add: phantom_def accounted_def sum_alist_update_new map_of_eq_None_iff)
  have "accounted (cs_cache t)"
    using run_covers [OF t(1)] assms(1) by (simp add: still_covers_def at_rest_def)
  then have "phantom c + length data \<le> phantom (cs_cache u)" if "cache_run False t u" for u
    using run_covers [OF that] p by (simp add: still_covers_def)
  with t p show ?thesis
    by - (rule exI [of _ t], simp add: map_of_update_eq)
qed

section \<open>The properties on a concrete cache\<close>

lemma demo_two_writers:
  "\<exists>t. cache_run False (at_rest (demo 4)) t \<and> total_bytes (cs_cache t) = 6"
  using two_writers [of "demo 4" "demo_key 3" 72 "[9]"] demo_accounted
  by (auto simp: demo_def demo_key_def cap_bytes_def)

theorem cache_accounting_witness:
  "\<exists>t. cache_run False (at_rest (demo 4)) t \<and> total_bytes (cs_cache t) = 6 \<and>
    accounted (cs_cache t) \<and> phantom (demo 4) \<le> phantom (cs_cache t)"
  using demo_two_writers cache_accounting [of "demo 4" False] demo_accounted by blast

theorem concurrent_writers_drift_witness:
  "\<exists>t. cache_run False (at_rest (demo 4)) t \<and> cs_tasks t = [] \<and> phantom (cs_cache t) = 1"
proof -
  have "phantom (demo 4) = 0" by (simp add: phantom_def demo_def demo_entry_def)
  moreover have "accounted (demo 4)" by (rule demo_accounted)
  ultimately show ?thesis
    using concurrent_writers_drift [of "demo 4" "demo_key 3" 72 "[9]"]
    by (auto simp: demo_def demo_key_def cap_bytes_def)
qed

end
