(* ===== verification/Wire.thy ===== *)
theory Wire
  imports Rust_Text
begin

text \<open>
  Byte streams and little-endian fields: what the two daemons use of \<^verbatim>\<open>tokio::io\<close>.

  A connection is the bytes the peer will send before it closes, the bytes sent to it so far and
  the number of bytes it still accepts; a write beyond that fails, after the part that fits.
  States of components that talk over a connection extend the record \<open>conn\<close>.
\<close>

section \<open>Connections\<close>

record conn =
  c_in :: "byte list"
  c_out :: "byte list"
  c_room :: nat

datatype wire_error =
    Eof
  | Bad_Utf8
  | Too_Long nat
  | Refused
  | Bad_Format nat
  | Failed string
  | Panicked
  | Aborted

type_synonym ('z, 'a) wire = "('z conn_scheme, wire_error, 'a) io"

definition read_exact :: "nat \<Rightarrow> ('z, byte list) wire" where
  "read_exact n s =
     (if n \<le> length (c_in s) then (Inr (take n (c_in s)), s\<lparr>c_in := drop n (c_in s)\<rparr>)
      else (Inl Eof, s\<lparr>c_in := []\<rparr>))"

definition write_all :: "byte list \<Rightarrow> ('z, unit) wire" where
  "write_all bs s =
     (if length bs \<le> c_room s
      then (Inr (), s\<lparr>c_out := c_out s @ bs, c_room := c_room s - length bs\<rparr>)
      else (Inl Refused, s\<lparr>c_out := c_out s @ take (c_room s) bs, c_room := 0\<rparr>))"

section \<open>Little-endian numbers\<close>

fun le_bytes :: "nat \<Rightarrow> nat \<Rightarrow> byte list" where
  "le_bytes 0 v = []"
| "le_bytes (Suc n) v = word_of_nat v # le_bytes n (v div 256)"

fun le_val :: "byte list \<Rightarrow> nat" where
  "le_val [] = 0"
| "le_val (b # bs) = unat b + 256 * le_val bs"

text \<open>Two's complement of \<^verbatim>\<open>i64\<close>, \<^verbatim>\<open>i32\<close>.\<close>

definition unsigned_of :: "nat \<Rightarrow> int \<Rightarrow> nat" where
  "unsigned_of bits i = nat (i mod 2 ^ bits)"

definition signed_of :: "nat \<Rightarrow> nat \<Rightarrow> int" where
  "signed_of bits n = (if n < 2 ^ (bits - 1) then int n else int n - 2 ^ bits)"

lemma length_le_bytes [simp]: "length (le_bytes n v) = n"
  by (induction n arbitrary: v) simp_all

lemma unat_byte: "unat (word_of_nat v :: byte) = v mod 256"
  by (simp add: unat_of_nat)

lemma unat_byte_less: "unat (b :: byte) < 256"
  using unsigned_less [of b] by simp

lemma le_val_bytes [simp]: "le_val (le_bytes n v) = v mod 256 ^ n"
proof (induction n arbitrary: v)
  case 0
  then show ?case by simp
next
  case (Suc n)
  then show ?case by (simp add: unat_byte mod_mult2_eq)
qed

lemma le_val_less: "le_val bs < 256 ^ length bs"
proof (induction bs)
  case Nil
  then show ?case by simp
next
  case (Cons b bs)
  have "unat b < 256" by (rule unat_byte_less)
  with Cons show ?case by simp
qed

lemma le_bytes_val: "le_bytes (length bs) (le_val bs) = bs"
proof (induction bs)
  case Nil
  then show ?case by simp
next
  case (Cons b bs)
  have lt: "unat b < 256" by (rule unat_byte_less)
  then have "word_of_nat (unat b + 256 * le_val bs) = b"
    unfolding word_unat_eq_iff unat_byte by simp
  with Cons lt show ?case by simp
qed

lemma signed_unsigned_i64 [simp]: "in_i64 i \<Longrightarrow> signed_of 64 (unsigned_of 64 i) = i"
proof -
  assume i: "in_i64 i"
  show ?thesis
  proof (cases "0 \<le> i")
    case True
    with i show ?thesis by (simp add: signed_of_def unsigned_of_def i64_bounds)
  next
    case False
    with i have "i mod 2 ^ 64 = i + 2 ^ 64"
      using mod_pos_pos_trivial [of "i + 2 ^ 64" "2 ^ 64 :: int"] by (simp add: i64_bounds)
    with False i show ?thesis
      by (simp add: signed_of_def unsigned_of_def i64_bounds nat_less_iff)
  qed
qed

lemma unsigned_of_less: "unsigned_of bits i < 2 ^ bits"
  by (simp add: unsigned_of_def nat_less_iff)

lemma signed_of_i64 [simp]: "n < 2 ^ 64 \<Longrightarrow> in_i64 (signed_of 64 n)"
  by (auto simp: signed_of_def i64_bounds)

section \<open>Text\<close>

text \<open>
  \<^verbatim>\<open>String::from_utf8\<close>: the encoding rules of UTF-8, without overlong forms, surrogates and
  values above \<^verbatim>\<open>10FFFF\<close>. Texts are kept as their bytes.
\<close>

definition cont :: "byte \<Rightarrow> bool" where
  "cont b \<longleftrightarrow> 0x80 \<le> unat b \<and> unat b \<le> 0xBF"

fun utf8_ok :: "byte list \<Rightarrow> bool" where
  "utf8_ok [] = True"
| "utf8_ok (a # r) =
     (if unat a \<le> 0x7F then utf8_ok r
      else if 0xC2 \<le> unat a \<and> unat a \<le> 0xDF then
        (case r of b # r1 \<Rightarrow> cont b \<and> utf8_ok r1 | _ \<Rightarrow> False)
      else if 0xE0 \<le> unat a \<and> unat a \<le> 0xEF then
        (case r of b # c # r2 \<Rightarrow>
           cont b \<and> cont c \<and> (unat a = 0xE0 \<longrightarrow> 0xA0 \<le> unat b) \<and> (unat a = 0xED \<longrightarrow> unat b \<le> 0x9F) \<and> utf8_ok r2
         | _ \<Rightarrow> False)
      else if 0xF0 \<le> unat a \<and> unat a \<le> 0xF4 then
        (case r of b # c # d # r3 \<Rightarrow>
           cont b \<and> cont c \<and> cont d \<and> (unat a = 0xF0 \<longrightarrow> 0x90 \<le> unat b) \<and> (unat a = 0xF4 \<longrightarrow> unat b \<le> 0x8F) \<and> utf8_ok r3
         | _ \<Rightarrow> False)
      else False)"

definition text_of :: "byte list \<Rightarrow> string" where
  "text_of bs = map (\<lambda>b. char_of (unat b)) bs"

definition bytes_of :: "string \<Rightarrow> byte list" where
  "bytes_of s = map (\<lambda>c. word_of_nat (of_char c)) s"

definition from_utf8 :: "byte list \<Rightarrow> string option" where
  "from_utf8 bs = (if utf8_ok bs then Some (text_of bs) else None)"

definition valid_text :: "string \<Rightarrow> bool" where
  "valid_text s \<longleftrightarrow> utf8_ok (bytes_of s)"

lemma text_of_bytes_of [simp]: "text_of (bytes_of s) = s"
proof -
  have "char_of (unat (word_of_nat (of_char c) :: byte)) = c" for c
    by (simp add: unat_byte)
  then show ?thesis by (simp add: text_of_def bytes_of_def comp_def)
qed

lemma from_utf8_bytes_of [simp]: "valid_text s \<Longrightarrow> from_utf8 (bytes_of s) = Some s"
  by (simp add: from_utf8_def valid_text_def)

lemma length_bytes_of [simp]: "length (bytes_of s) = length s"
  by (simp add: bytes_of_def)

lemma valid_text_ascii: "(\<And>c. c \<in> set s \<Longrightarrow> (of_char c :: nat) \<le> 127) \<Longrightarrow> valid_text s"
  unfolding valid_text_def bytes_of_def
  by (induction s) (auto simp: unat_byte)

section \<open>Field readers\<close>

definition read_u8 :: "('z, nat) wire" where
  "read_u8 = io_bind (read_exact 1) (\<lambda>b. io_ret (le_val b))"

definition read_u32_le :: "('z, nat) wire" where
  "read_u32_le = io_bind (read_exact 4) (\<lambda>b. io_ret (le_val b))"

definition read_u64_le :: "('z, nat) wire" where
  "read_u64_le = io_bind (read_exact 8) (\<lambda>b. io_ret (le_val b))"

definition read_i64_le :: "('z, int) wire" where
  "read_i64_le = io_bind (read_exact 8) (\<lambda>b. io_ret (signed_of 64 (le_val b)))"

definition read_text :: "nat \<Rightarrow> ('z, string) wire" where
  "read_text n =
     io_bind (read_exact n) (\<lambda>b.
       case from_utf8 b of None \<Rightarrow> io_fail Bad_Utf8 | Some t \<Rightarrow> io_ret t)"

fun read_list :: "nat \<Rightarrow> ('z, 'a) wire \<Rightarrow> ('z, 'a list) wire" where
  "read_list 0 m = io_ret []"
| "read_list (Suc n) m = io_bind m (\<lambda>x. io_bind (read_list n m) (\<lambda>xs. io_ret (x # xs)))"

definition i64_bytes :: "int \<Rightarrow> byte list" where
  "i64_bytes i = le_bytes 8 (unsigned_of 64 i)"

lemma length_i64_bytes [simp]: "length (i64_bytes i) = 8"
  by (simp add: i64_bytes_def)

lemma read_exact_run [wire_simps]:
  "length bs = n \<Longrightarrow> read_exact n (s\<lparr>c_in := bs @ r\<rparr>) = (Inr bs, s\<lparr>c_in := r\<rparr>)"
  by (simp add: read_exact_def)

lemma read_u8_run [wire_simps]:
  "v < 256 \<Longrightarrow> read_u8 (s\<lparr>c_in := word_of_nat v # r\<rparr>) = (Inr v, s\<lparr>c_in := r\<rparr>)"
  by (simp add: read_u8_def io_bind_def read_exact_def io_run unat_byte)

lemma read_u32_run [wire_simps]:
  "v < 2 ^ 32 \<Longrightarrow> read_u32_le (s\<lparr>c_in := le_bytes 4 v @ r\<rparr>) = (Inr v, s\<lparr>c_in := r\<rparr>)"
  by (simp add: read_u32_le_def io_bind_def read_exact_run io_run)

lemma read_u64_run [wire_simps]:
  "v < 2 ^ 64 \<Longrightarrow> read_u64_le (s\<lparr>c_in := le_bytes 8 v @ r\<rparr>) = (Inr v, s\<lparr>c_in := r\<rparr>)"
  by (simp add: read_u64_le_def io_bind_def read_exact_run io_run)

lemma read_i64_run [wire_simps]:
  "in_i64 i \<Longrightarrow> read_i64_le (s\<lparr>c_in := i64_bytes i @ r\<rparr>) = (Inr i, s\<lparr>c_in := r\<rparr>)"
  using unsigned_of_less [of 64 i]
  by (simp add: read_i64_le_def io_bind_def read_exact_run io_run i64_bytes_def)

lemma read_text_run [wire_simps]:
  "valid_text t \<Longrightarrow> length t = n \<Longrightarrow>
     read_text n (s\<lparr>c_in := bytes_of t @ r\<rparr>) = (Inr t, s\<lparr>c_in := r\<rparr>)"
  by (simp add: read_text_def io_bind_def read_exact_run io_run)

lemma read_list_run:
  assumes "\<And>x s r. x \<in> set xs \<Longrightarrow> m (s\<lparr>c_in := enc x @ r\<rparr>) = (Inr x, s\<lparr>c_in := r\<rparr>)"
    and "n = length xs"
  shows "read_list n m (s\<lparr>c_in := concat (map enc xs) @ r\<rparr>) = (Inr xs, s\<lparr>c_in := r\<rparr>)"
  using assms by (induction xs arbitrary: s n) (simp_all add: io_bind_def io_run)

text \<open>What every reader does to the connection: it only consumes input.\<close>

definition reads_only :: "('z, 'a) wire \<Rightarrow> bool" where
  "reads_only m \<longleftrightarrow>
     (\<forall>s. \<exists>n. snd (m s) = s\<lparr>c_in := drop n (c_in s)\<rparr>)"

lemma reads_onlyE:
  assumes "reads_only m" and "m s = (x, t)"
  obtains n where "t = s\<lparr>c_in := drop n (c_in s)\<rparr>"
  using assms unfolding reads_only_def by (metis snd_conv)

lemma reads_only_ret [intro, simp]: "reads_only (io_ret a)"
  unfolding reads_only_def by (auto simp: io_run intro: exI [of _ 0])

lemma reads_only_fail [intro, simp]: "reads_only (io_fail e)"
  unfolding reads_only_def by (auto simp: io_run intro: exI [of _ 0])

lemma reads_only_exact [intro, simp]: "reads_only (read_exact n)"
  unfolding reads_only_def read_exact_def
  by (auto intro: exI [of _ n] exI [of _ "length (c_in s)" for s])

lemma reads_only_bind [intro]:
  assumes "reads_only m" and "\<And>a. reads_only (f a)"
  shows "reads_only (io_bind m f)"
  unfolding reads_only_def
proof
  fix s :: "'a conn_scheme"
  obtain x t where m: "m s = (x, t)" by force
  then obtain n where t: "t = s\<lparr>c_in := drop n (c_in s)\<rparr>" by (rule reads_onlyE [OF assms(1)])
  show "\<exists>k. snd (io_bind m f s) = s\<lparr>c_in := drop k (c_in s)\<rparr>"
  proof (cases x)
    case (Inl e)
    with m t show ?thesis by (auto simp: io_bind_def)
  next
    case (Inr a)
    obtain k where "snd (f a t) = t\<lparr>c_in := drop k (c_in t)\<rparr>"
      using assms(2) unfolding reads_only_def by blast
    with m t Inr show ?thesis by (auto simp: io_bind_def)
  qed
qed

lemma reads_only_ensure [intro, simp]: "reads_only (io_ensure b e)"
  by (simp add: io_ensure_def)

lemma reads_only_fields [intro, simp]:
  "reads_only read_u8" "reads_only read_u32_le" "reads_only read_u64_le" "reads_only read_i64_le"
  "reads_only (read_text n)"
  unfolding read_u8_def read_u32_le_def read_u64_le_def read_i64_le_def read_text_def
  by (auto split: option.split)

lemma reads_only_list [intro]: "reads_only m \<Longrightarrow> reads_only (read_list n m)"
  by (induction n) auto

text \<open>A computation that never gives input back, whatever it writes.\<close>

definition consumes :: "('z, 'a) wire \<Rightarrow> bool" where
  "consumes m \<longleftrightarrow> (\<forall>s. length (c_in (snd (m s))) \<le> length (c_in s))"

lemma consumesD: "consumes m \<Longrightarrow> m s = (x, t) \<Longrightarrow> length (c_in t) \<le> length (c_in s)"
  unfolding consumes_def by (metis snd_conv)

lemma consumes_reads_only [intro]:
  assumes "reads_only m"
  shows "consumes m"
  unfolding consumes_def
proof
  fix s :: "'a conn_scheme"
  obtain n where "snd (m s) = s\<lparr>c_in := drop n (c_in s)\<rparr>"
    using assms unfolding reads_only_def by blast
  then show "length (c_in (snd (m s))) \<le> length (c_in s)" by simp
qed

lemma consumes_write_all [intro, simp]: "consumes (write_all bs)"
  by (simp add: consumes_def write_all_def)

lemma consumes_bind [intro]:
  assumes "consumes m" and "\<And>a. consumes (f a)"
  shows "consumes (io_bind m f)"
  unfolding consumes_def
proof
  fix s :: "'a conn_scheme"
  obtain x t where m: "m s = (x, t)" by force
  with assms(1) have le: "length (c_in t) \<le> length (c_in s)" by (rule consumesD)
  moreover have "length (c_in (snd (f a t))) \<le> length (c_in t)" for a
    using assms(2) by (simp add: consumes_def)
  ultimately have "length (c_in (snd (f a t))) \<le> length (c_in s)" for a
    by (meson le_trans)
  with m le show "length (c_in (snd (io_bind m f s))) \<le> length (c_in s)"
    by (cases x) (simp_all add: io_bind_def)
qed

lemma consumes_then [intro]: "consumes m \<Longrightarrow> consumes n \<Longrightarrow> consumes (io_then m n)"
  unfolding io_then_def by blast

lemma consumes_get [intro, simp]: "consumes (io_get f)"
  by (simp add: consumes_def io_run)

lemma consumes_ret [intro, simp]: "consumes (io_ret a)" "consumes (io_fail e)"
  by (simp_all add: consumes_def io_run)

text \<open>A predicate that does not look at the connection is kept by readers and writers.\<close>

lemma io_keeps_reads_only:
  assumes "reads_only m" and "\<And>s x. P s \<Longrightarrow> P (s\<lparr>c_in := x\<rparr>)"
  shows "io_keeps P m"
proof (rule io_keepsI)
  fix s assume "P s"
  obtain n where "snd (m s) = s\<lparr>c_in := drop n (c_in s)\<rparr>"
    using assms(1) unfolding reads_only_def by blast
  with assms(2) [OF \<open>P s\<close>] show "P (snd (m s))" by simp
qed

lemma io_keeps_write_all:
  assumes "\<And>s x y. P s \<Longrightarrow> P (s\<lparr>c_out := x, c_room := y\<rparr>)"
  shows "io_keeps P (write_all bs)"
  using assms by (auto intro!: io_keepsI simp: write_all_def)

end
