(* ===== verification/Disk_Index.thy ===== *)
theory Disk_Index
  imports Disk_Cache
begin

text \<open>
  Restarting the disk cache: the index file read back after it was written, the rebuild from the
  directory listing when it cannot be read, and the removal of the layouts of earlier versions
  (\<^verbatim>\<open>load_index\<close>, \<^verbatim>\<open>write_index\<close>, \<^verbatim>\<open>rebuild_index\<close>, \<^verbatim>\<open>sweep_legacy_dirs\<close>,
  \<^verbatim>\<open>sweep_legacy_jpgs\<close> of \<^verbatim>\<open>disk_cache.rs\<close>).
\<close>

section \<open>The index file is read back\<close>

definition entry_ok :: "key \<times> entry \<Rightarrow> bool" where
  "entry_ok ke \<longleftrightarrow>
     (case ke of ((item_id, pos_ms, width), e) \<Rightarrow>
        no_ws item_id \<and> in_i64 pos_ms \<and> width < 2 ^ 32 \<and> in_i64 (e_frame_idx e) \<and>
        e_size e < 2 ^ 64 \<and> e_written_at e < 2 ^ 64 \<and> e_video_mtime e < 2 ^ 64)"

lemma split_entry_line:
  assumes "no_ws a"
  shows "split_whitespace (a @ '' '' @ show_int b @ '' '' @ show_int c @ '' '' @ show_nat d
           @ '' '' @ show_nat e @ '' '' @ show_nat f @ '' '' @ show_nat g) =
    [a, show_int b, show_int c, show_nat d, show_nat e, show_nat f, show_nat g]"
  using assms by (simp add: split_ws_cons split_ws_single show_int_def)

lemma parse_entry_line:
  assumes "entry_ok (k, e)"
  shows "parse_line (entry_line (k, e)) = Entry_Line k e"
proof -
  obtain a p w where k: "k = (a, p, w)" by (cases k)
  with assms have ok: "no_ws a" "in_i64 p" "w < 2 ^ 32" "in_i64 (e_frame_idx e)"
    "e_size e < 2 ^ 64" "e_written_at e < 2 ^ 64" "e_video_mtime e < 2 ^ 64"
    by (simp_all add: entry_ok_def)
  have nums: "parse_i64 (show_int p) = Some p" "parse_i64 (show_int (e_frame_idx e)) = Some (e_frame_idx e)"
    "parse_unsigned 32 (show_nat w) = Some w" "parse_unsigned 64 (show_nat (e_size e)) = Some (e_size e)"
    "parse_unsigned 64 (show_nat (e_written_at e)) = Some (e_written_at e)"
    "parse_unsigned 64 (show_nat (e_video_mtime e)) = Some (e_video_mtime e)"
    using ok by (simp_all add: show_int_def)
  have "split_whitespace (entry_line (k, e)) =
      [a, show_int (e_frame_idx e), show_int p, show_nat w, show_nat (e_size e),
       show_nat (e_written_at e), show_nat (e_video_mtime e)]"
    using split_entry_line [OF ok(1)] by (simp add: entry_line_def k)
  then show ?thesis
    by (simp add: parse_line_def Let_def nums slice_get_def k)
qed

lemma no_ws_chars: "no_ws a \<Longrightarrow> c \<in> set a \<Longrightarrow> \<not> is_ws c"
  by (simp add: no_ws_def list_all_iff)

lemma show_nat_last: "is_digit (last (show_nat n))"
  by (rule show_nat_chars [of "last (show_nat n)" n]) simp

lemma entry_line_ok: "entry_ok ke \<Longrightarrow> line_ok (entry_line ke)"
proof -
  assume ok: "entry_ok ke"
  obtain a p w e where ke: "ke = ((a, p, w), e)" by (cases ke) auto
  from ok have "CHR 0x0A \<notin> set a"
    using no_ws_chars [of a "CHR 0x0A"] by (auto simp: ke entry_ok_def is_ws_def)
  moreover have "CHR 0x0A \<notin> set (show_pad n i)" for n i
    by (auto dest!: show_pad_chars simp: pad_char_def is_digit_def)
  moreover have "CHR 0x0A \<notin> set (show_nat n)" for n
    by (rule show_nat_no) (simp add: is_digit_def)
  ultimately have "CHR 0x0A \<notin> set (entry_line ke)"
    by (simp add: ke entry_line_def show_int_def)
  moreover have "last (entry_line ke) = last (show_nat (e_video_mtime e))"
    by (simp add: ke entry_line_def)
  moreover have "\<not> is_digit CHR 0x0D" by (simp add: is_digit_def)
  ultimately show ?thesis using show_nat_last [of "e_video_mtime e"] by (auto simp: line_ok_def)
qed

lemma load_lines_entries:
  "list_all entry_ok es \<Longrightarrow> distinct (map fst (acc @ es)) \<Longrightarrow>
     load_lines ex (map entry_line es) acc =
       Inr (acc @ filter (\<lambda>(k, e). ex (key_path k (e_frame_idx e))) es)"
proof (induction es arbitrary: acc)
  case Nil
  then show ?case by simp
next
  case (Cons a es)
  obtain k e where a: "a = (k, e)" by (cases a)
  from Cons.prems a have "k \<notin> fst ` set acc" by auto
  then have "AList.update k e acc = acc @ [(k, e)]" by (induction acc) auto
  with Cons a show ?case by (simp add: parse_entry_line)
qed

lemma str_lines_index_text:
  assumes "list_all entry_ok es"
  shows "str_lines (index_text es n) = ''v2'' # (''total_bytes '' @ show_nat n) # map entry_line es"
proof -
  let ?ls = "''v2'' # (''total_bytes '' @ show_nat n) # map entry_line es"
  have "CHR 0x0A \<notin> set (show_nat n)" by (rule show_nat_no) (simp add: is_digit_def)
  moreover have "last (show_nat n) \<noteq> CHR 0x0D"
    using show_nat_last [of n] by (auto simp: is_digit_def)
  ultimately have "list_all line_ok ?ls"
    using assms by (auto simp: line_ok_def list_all_iff dest!: entry_line_ok [unfolded line_ok_def])
  moreover have "index_text es n = concat (map (\<lambda>l. l @ [CHR 0x0A]) ?ls)"
    by (simp add: index_text_def nl_def comp_def)
  ultimately show ?thesis by (simp only: str_lines_concat)
qed

lemma load_index_text:
  assumes "index_txt s = Some (index_text es n)" and "list_all entry_ok es" and "keys_ok es"
    and "n < 2 ^ 64"
  shows "load_index s =
    Inr \<lparr>entries = filter (\<lambda>(k, e). path_exists (key_path k (e_frame_idx e)) s) es, total_bytes = n\<rparr>"
proof -
  have "strip_prefix ''total_bytes '' (''total_bytes '' @ show_nat n) = Some (show_nat n)"
    by (rule strip_prefix_app)
  then show ?thesis
    using assms load_lines_entries [of es "[]" "\<lambda>p. path_exists p s"]
    by (simp add: load_index_def str_lines_index_text keys_ok_def del: append_Cons)
qed

text \<open>
  C3: The index survives a restart. Loading what \<^verbatim>\<open>write_index\<close> wrote gives back every entry
  whose file still exists, unchanged and in order, and the recorded total.
\<close>

theorem load_written_index:
  assumes "list_all entry_ok (entries s)" and "keys_ok (entries s)" and "total_bytes s < 2 ^ 64"
    and "\<not> index_deny s"
  shows "load_index (write_index s) =
    Inr \<lparr>entries = filter (\<lambda>(k, e). path_exists (key_path k (e_frame_idx e)) s) (entries s),
         total_bytes = total_bytes s\<rparr>"
  using load_index_text [of "write_index s" "entries s" "total_bytes s"] assms
  by (simp add: write_index_def path_exists_def)

section \<open>Rebuilding the index\<close>

definition listing :: "cache \<Rightarrow> (string \<times> path \<times> cfile) list" where
  "listing s = concat (map (\<lambda>d. map (Pair d) (dir_files d s)) (filter (\<lambda>d. d \<noteq> ''index.txt'') (subdirs s)))"

abbreviation rebuild_step :: "string \<times> path \<times> cfile \<Rightarrow> (key \<times> entry) list \<times> nat \<Rightarrow> (key \<times> entry) list \<times> nat" where
  "rebuild_step dpf acc \<equiv> rebuild_file (fst dpf) (snd dpf) acc"

lemma rebuild_fold:
  "fold (\<lambda>d acc. if d = ''index.txt'' then acc else fold (rebuild_file d) (dir_files d s) acc) ds acc =
   fold rebuild_step (concat (map (\<lambda>d. map (Pair d) (dir_files d s)) (filter (\<lambda>d. d \<noteq> ''index.txt'') ds))) acc"
  by (induction ds arbitrary: acc) (simp_all add: fold_map comp_def)

lemma rebuild_index_listing:
  "root_ok s \<Longrightarrow> rebuild_index s =
     \<lparr>entries = fst (fold rebuild_step (listing s) ([], 0)), total_bytes = snd (fold rebuild_step (listing s) ([], 0))\<rparr>"
  by (simp add: rebuild_index_def rebuild_fold listing_def Let_def)

lemma listing_mem:
  "(d, p, f) \<in> set (listing s) \<longleftrightarrow> (p, f) \<in> set (files s) \<and> fst p = d \<and> d \<in> set (subdirs s) \<and> d \<noteq> ''index.txt''"
  by (auto simp: listing_def dir_files_def)

definition describes :: "key \<times> entry \<Rightarrow> string \<times> path \<times> cfile \<Rightarrow> bool" where
  "describes ke dpf =
     (case (ke, dpf) of (((item_id, pos_ms, width), e), (d, (_, name), f)) \<Rightarrow>
        item_id = d \<and> parse_frame_name name = Some (e_frame_idx e, pos_ms, width) \<and>
        e_size e = length (f_data f) \<and> e_written_at e = f_mtime f \<and> e_video_mtime e = 0)"

lemma set_update_subset: "set (AList.update k v m) \<subseteq> insert (k, v) (set m)"
  by (induction m) auto

lemma rebuild_sound:
  "x \<in> set (fst (fold rebuild_step l acc)) \<Longrightarrow> x \<in> set (fst acc) \<or> (\<exists>dpf \<in> set l. describes x dpf)"
proof (induction l arbitrary: acc)
  case Nil
  then show ?case by simp
next
  case (Cons a l)
  obtain d p n f where a: "a = (d, (p, n), f)" by (metis prod.collapse)
  from Cons have "x \<in> set (fst (rebuild_step a acc)) \<or> (\<exists>dpf \<in> set l. describes x dpf)" by simp
  moreover have "x \<in> set (fst acc) \<or> describes x a" if "x \<in> set (fst (rebuild_step a acc))"
    using that set_update_subset
    by (fastforce simp: a rebuild_file_def describes_def Let_def split: option.splits)
  ultimately show ?case by auto
qed

lemma rebuild_keys_ok: "keys_ok (fst acc) \<Longrightarrow> keys_ok (fst (fold rebuild_step l acc))"
  by (induction l arbitrary: acc) (auto simp: rebuild_file_def Let_def split: option.splits)

lemma rebuild_keeps_key:
  "map_of (fst acc) k \<noteq> None \<Longrightarrow> map_of (fst (fold rebuild_step l acc)) k \<noteq> None"
proof (induction l arbitrary: acc)
  case Nil
  then show ?case by simp
next
  case (Cons a l)
  then have "map_of (fst (rebuild_step a acc)) k \<noteq> None"
    by (simp add: rebuild_file_def Let_def map_of_update_eq split: option.splits prod.splits)
  with Cons show ?case by simp
qed

lemma rebuild_complete:
  "(d, (p, n), f) \<in> set l \<Longrightarrow> parse_frame_name n = Some (fi, pos, w) \<Longrightarrow>
     map_of (fst (fold rebuild_step l acc)) (d, pos, w) \<noteq> None"
proof (induction l arbitrary: acc)
  case Nil
  then show ?case by simp
next
  case (Cons a l)
  show ?case
  proof (cases "a = (d, (p, n), f)")
    case True
    with Cons.prems(2) have "map_of (fst (rebuild_step a acc)) (d, pos, w) \<noteq> None"
      by (simp add: rebuild_file_def Let_def map_of_update_eq)
    then show ?thesis using rebuild_keeps_key by simp
  next
    case False
    with Cons show ?thesis by simp
  qed
qed

text \<open>
  C4: The rebuilt index matches the directory listing: its keys are distinct, every entry
  describes a frame file that is there (frame number, position, width and size read from it, video
  time unknown), and every file with a well-formed name has an entry.
\<close>

theorem rebuild_matches_files:
  assumes "root_ok s"
  shows "keys_ok (entries (rebuild_index s)) \<and>
    (\<forall>i pos w e. ((i, pos, w), e) \<in> set (entries (rebuild_index s)) \<longrightarrow>
       (\<exists>name f. ((i, name), f) \<in> set (files s) \<and> i \<in> set (subdirs s) \<and>
          parse_frame_name name = Some (e_frame_idx e, pos, w) \<and> e_size e = length (f_data f) \<and>
          e_video_mtime e = 0)) \<and>
    (\<forall>d fi pos w f. ((d, frame_name fi pos w), f) \<in> set (files s) \<and> d \<in> set (subdirs s) \<and>
       d \<noteq> ''index.txt'' \<and> in_i64 fi \<and> in_i64 pos \<and> w < 2 ^ 32 \<longrightarrow>
       map_of (entries (rebuild_index s)) (d, pos, w) \<noteq> None)"
proof (intro conjI allI impI)
  show "keys_ok (entries (rebuild_index s))"
    by (simp add: rebuild_index_listing [OF assms] rebuild_keys_ok)
next
  fix i pos w e
  assume "((i, pos, w), e) \<in> set (entries (rebuild_index s))"
  then obtain d p n f where "(d, (p, n), f) \<in> set (listing s)" "describes ((i, pos, w), e) (d, (p, n), f)"
    using rebuild_sound [of "((i, pos, w), e)" "listing s" "([], 0)"]
    by (auto simp: rebuild_index_listing [OF assms])
  then show "\<exists>name f. ((i, name), f) \<in> set (files s) \<and> i \<in> set (subdirs s) \<and>
      parse_frame_name name = Some (e_frame_idx e, pos, w) \<and> e_size e = length (f_data f) \<and> e_video_mtime e = 0"
    by (auto simp: listing_mem describes_def)
next
  fix d fi pos w f
  assume "((d, frame_name fi pos w), f) \<in> set (files s) \<and> d \<in> set (subdirs s) \<and>
       d \<noteq> ''index.txt'' \<and> in_i64 fi \<and> in_i64 pos \<and> w < 2 ^ 32"
  then have "(d, (d, frame_name fi pos w), f) \<in> set (listing s)"
    and "parse_frame_name (frame_name fi pos w) = Some (fi, pos, w)"
    by (simp_all add: listing_mem)
  then show "map_of (entries (rebuild_index s)) (d, pos, w) \<noteq> None"
    using rebuild_complete by (simp add: rebuild_index_listing [OF assms])
qed

section \<open>Start-up\<close>

lemma remove_dir_all_sel [simp]:
  "vid_mtime (remove_dir_all d s) = vid_mtime s" "deny (remove_dir_all d s) = deny s"
  "deny_dir (remove_dir_all d s) = deny_dir s" "root_ok (remove_dir_all d s) = root_ok s"
  "index_txt (remove_dir_all d s) = index_txt s" "index_deny (remove_dir_all d s) = index_deny s"
  by (simp_all add: remove_dir_all_def)

lemma fold_remove_dir:
  "vid_mtime (fold remove_dir_all ds s) = vid_mtime s \<and> deny (fold remove_dir_all ds s) = deny s \<and>
   deny_dir (fold remove_dir_all ds s) = deny_dir s \<and> root_ok (fold remove_dir_all ds s) = root_ok s \<and>
   index_txt (fold remove_dir_all ds s) = index_txt s \<and> index_deny (fold remove_dir_all ds s) = index_deny s \<and>
   files (fold remove_dir_all ds s) = filter (\<lambda>pf. \<not> (fst (fst pf) \<in> set ds \<and> \<not> deny_dir s (fst (fst pf)))) (files s) \<and>
   subdirs (fold remove_dir_all ds s) = filter (\<lambda>d. \<not> (d \<in> set ds \<and> \<not> deny_dir s d)) (subdirs s)"
  by (induction ds arbitrary: s)
    (auto simp: remove_dir_all_def removeAll_filter_not_eq intro!: filter_cong)

lemma remove_file_sel [simp]:
  "vid_mtime (snd (remove_file p s)) = vid_mtime s" "subdirs (snd (remove_file p s)) = subdirs s"
  "index_txt (snd (remove_file p s)) = index_txt s" "root_ok (snd (remove_file p s)) = root_ok s"
  by (simp_all add: remove_file_def)

abbreviation jpg_step :: "path \<times> cfile \<Rightarrow> cache \<Rightarrow> cache" where
  "jpg_step pf s \<equiv> (if ends_with ''.jpg'' (snd (fst pf)) then snd (remove_file (fst pf) s) else s)"

lemma fold_jpg:
  "vid_mtime (fold jpg_step l s) = vid_mtime s \<and> deny (fold jpg_step l s) = deny s \<and>
   index_txt (fold jpg_step l s) = index_txt s \<and> subdirs (fold jpg_step l s) = subdirs s \<and>
   map_of (files (fold jpg_step l s)) q =
     (if q \<in> fst ` set l \<and> ends_with ''.jpg'' (snd q) \<and> \<not> deny s q then None else map_of (files s) q)"
  by (induction l arbitrary: s) auto

lemma dir_files_dom: "map_of (files s) q \<noteq> None \<Longrightarrow> q \<in> fst ` set (dir_files d s) \<longleftrightarrow> fst q = d"
  by (force simp: dir_files_def dest: map_of_SomeD)

lemma fold_jpg_dirs:
  "vid_mtime (fold (\<lambda>d s. fold jpg_step (dir_files d s) s) ds s) = vid_mtime s \<and>
   deny (fold (\<lambda>d s. fold jpg_step (dir_files d s) s) ds s) = deny s \<and>
   index_txt (fold (\<lambda>d s. fold jpg_step (dir_files d s) s) ds s) = index_txt s \<and>
   map_of (files (fold (\<lambda>d s. fold jpg_step (dir_files d s) s) ds s)) q =
     (if fst q \<in> set ds \<and> ends_with ''.jpg'' (snd q) \<and> \<not> deny s q then None else map_of (files s) q)"
proof (induction ds arbitrary: s)
  case Nil
  then show ?case by simp
next
  case (Cons d ds)
  have "map_of (files (fold jpg_step (dir_files d s) s)) q =
      (if fst q = d \<and> ends_with ''.jpg'' (snd q) \<and> \<not> deny s q then None else map_of (files s) q)"
  proof (cases "map_of (files s) q")
    case None
    then show ?thesis by (simp add: fold_jpg)
  next
    case (Some f)
    then show ?thesis using dir_files_dom [of s q d] by (simp add: fold_jpg)
  qed
  then show ?case
    using Cons [of "fold jpg_step (dir_files d s) s"] by (auto simp: fold_jpg split: if_splits)
qed

lemma map_of_filter_key:
  "map_of (filter (\<lambda>pf. P (fst pf)) m) q = (if P q then map_of m q else None)"
  by (induction m) auto

definition swept :: "cache \<Rightarrow> cache" where
  "swept s = sweep_legacy_jpgs (sweep_legacy_dirs s)"

lemma dc_new_swept:
  "dc_new s = (let i = (case load_index (swept s) of Inl _ \<Rightarrow> rebuild_index (swept s) | Inr i \<Rightarrow> i)
     in (swept s)\<lparr>entries := entries i, total_bytes := total_bytes i\<rparr>)"
  unfolding dc_new_def swept_def Let_def by (rule refl)

lemma sweep_dirs_sel:
  assumes "root_ok s"
  shows "vid_mtime (sweep_legacy_dirs s) = vid_mtime s \<and> deny (sweep_legacy_dirs s) = deny s \<and>
    root_ok (sweep_legacy_dirs s) \<and>
    subdirs (sweep_legacy_dirs s) = filter (\<lambda>d. \<not> (is_legacy_dir d \<and> \<not> deny_dir s d)) (subdirs s) \<and>
    map_of (files (sweep_legacy_dirs s)) q =
      (if is_legacy_dir (fst q) \<and> fst q \<in> set (subdirs s) \<and> \<not> deny_dir s (fst q) then None
       else map_of (files s) q) \<and>
    index_txt (sweep_legacy_dirs s) =
      (if list_ex is_legacy_dir (subdirs s) \<and> \<not> index_deny s then None else index_txt s)"
proof -
  let ?l = "filter is_legacy_dir (subdirs s)"
  have m: "map_of (filter (\<lambda>pf. \<not> (fst (fst pf) \<in> set ?l \<and> \<not> deny_dir s (fst (fst pf)))) (files s)) q =
      (if is_legacy_dir (fst q) \<and> fst q \<in> set (subdirs s) \<and> \<not> deny_dir s (fst q) then None
       else map_of (files s) q)"
    using map_of_filter_key [of "\<lambda>p. \<not> (fst p \<in> set ?l \<and> \<not> deny_dir s (fst p))" "files s" q]
    by auto
  have f: "filter (\<lambda>d. \<not> (d \<in> set ?l \<and> \<not> deny_dir s d)) (subdirs s) =
      filter (\<lambda>d. \<not> (is_legacy_dir d \<and> \<not> deny_dir s d)) (subdirs s)"
    by (rule filter_cong) auto
  have n: "?l \<noteq> [] \<longleftrightarrow> list_ex is_legacy_dir (subdirs s)"
    by (auto simp: filter_empty_conv list_ex_iff)
  show ?thesis
    using assms m f n by (auto simp: sweep_legacy_dirs_def Let_def fold_remove_dir)
qed

lemma swept_sel:
  assumes "root_ok s"
  shows "vid_mtime (swept s) = vid_mtime s \<and> deny (swept s) = deny s \<and>
    index_txt (swept s) = (if list_ex is_legacy_dir (subdirs s) \<and> \<not> index_deny s then None else index_txt s) \<and>
    map_of (files (swept s)) q =
      (if fst q \<in> set (subdirs s) \<and>
          (is_legacy_dir (fst q) \<and> \<not> deny_dir s (fst q) \<or> ends_with ''.jpg'' (snd q) \<and> \<not> deny s q)
       then None else map_of (files s) q)"
  using sweep_dirs_sel [OF assms, of q] fold_jpg_dirs [of "subdirs (sweep_legacy_dirs s)" "sweep_legacy_dirs s" q]
  unfolding swept_def sweep_legacy_jpgs_def by auto

lemma frame_name_not_jpg: "\<not> ends_with ''.jpg'' (frame_name fi pos w)"
  by (simp add: ends_with_def strip_suffix_def strip_prefix_def frame_name_def)

text \<open>
  Start-up keeps the present layout. A cached frame, whose directory is not a 16-digit hex name
  of the old scheme, is still there after \<^verbatim>\<open>new\<close>; a directory of the old scheme has lost its files and
  a \<^verbatim>\<open>.jpg\<close> file of any directory is gone, unless the system refused the removal.
\<close>

theorem startup_sweeps:
  assumes "root_ok s"
  shows "(\<not> is_legacy_dir d \<longrightarrow>
      map_of (files (dc_new s)) (d, frame_name fi pos w) = map_of (files s) (d, frame_name fi pos w)) \<and>
    (is_legacy_dir d \<and> d \<in> set (subdirs s) \<and> \<not> deny_dir s d \<longrightarrow> map_of (files (dc_new s)) (d, n) = None) \<and>
    (d \<in> set (subdirs s) \<and> ends_with ''.jpg'' n \<and> \<not> deny s (d, n) \<longrightarrow> map_of (files (dc_new s)) (d, n) = None)"
  using swept_sel [OF assms, of "(d, n)"] swept_sel [OF assms, of "(d, frame_name fi pos w)"]
  by (auto simp: dc_new_swept Let_def frame_name_not_jpg)

text \<open>
  A rebuilt index serves nothing for a video whose modification time is known: when the index
  file is unusable, \<^verbatim>\<open>rebuild_index\<close> records the unknown time 0 for every frame, and \<^verbatim>\<open>read\<close> after
  \<^verbatim>\<open>new\<close> returns nothing for any such video.
\<close>

theorem rebuilt_index_serves_nothing:
  assumes "root_ok s" and "load_index (swept s) = Inl err" and "vid_mtime s v \<noteq> 0"
  shows "fst (dc_read i v pos w (dc_new s)) = None"
proof -
  have r: "entries (dc_new s) = entries (rebuild_index (swept s))"
    using assms(2) by (simp add: dc_new_swept Let_def)
  have v: "vid_mtime (dc_new s) = vid_mtime s"
    using swept_sel [OF assms(1)] by (simp add: dc_new_swept Let_def)
  have "e_video_mtime e = 0" if "map_of (entries (dc_new s)) (i, pos, w) = Some e" for e
  proof (cases "root_ok (swept s)")
    case True
    from that have "((i, pos, w), e) \<in> set (fst (fold rebuild_step (listing (swept s)) ([], 0)))"
      unfolding r rebuild_index_listing [OF True] by (auto dest: map_of_SomeD)
    then show ?thesis
      using rebuild_sound [of "((i, pos, w), e)" "listing (swept s)" "([], 0)"]
      by (auto simp: describes_def)
  next
    case False
    with that show ?thesis unfolding r by (simp add: rebuild_index_def)
  qed
  then show ?thesis
    using assms(3) by (auto simp: dc_read_def v Let_def split: option.split)
qed

section \<open>Witnesses\<close>

theorem load_written_index_witness:
  "load_index (write_index (demo 4)) = Inr \<lparr>entries = entries (demo 4), total_bytes = 4\<rparr>"
proof -
  have "list_all entry_ok (entries (demo 4))"
    by (simp add: demo_def demo_key_def demo_entry_def entry_ok_def i64_bounds no_ws_def is_ws_def)
  moreover have "filter (\<lambda>(k, e). path_exists (key_path k (e_frame_idx e)) (demo 4)) (entries (demo 4)) = entries (demo 4)"
    by (simp add: demo_def demo_key_def demo_entry_def path_exists_def)
  ultimately show ?thesis
    using load_written_index [of "demo 4"] demo_accounted
    by (simp add: accounted_def) (simp add: demo_def)
qed

theorem rebuild_matches_files_witness:
  "map_of (entries (rebuild_index (demo 4))) (demo_key 2) \<noteq> None"
proof -
  have "root_ok (demo 4)" by (simp add: demo_def)
  moreover have "((''movie'', frame_name 48 2000 320), \<lparr>f_data = [3, 4], f_mtime = 9\<rparr>) \<in> set (files (demo 4)) \<and>
      ''movie'' \<in> set (subdirs (demo 4)) \<and> ''movie'' \<noteq> ''index.txt'' \<and> in_i64 48 \<and> in_i64 2000 \<and> (320 :: nat) < 2 ^ 32"
    by (simp add: demo_def demo_key_def key_path_def frame_path_def i64_bounds)
  moreover have "demo_key 2 = (''movie'', 2000, 320)" by (simp add: demo_key_def)
  ultimately show ?thesis using rebuild_matches_files [of "demo 4"] by metis
qed

theorem startup_sweeps_witness:
  "map_of (files (dc_new (demo 4))) (''movie'', frame_name 24 1000 320) \<noteq> None"
  using startup_sweeps [of "demo 4" "''movie''" 24 1000 320]
  by (simp add: demo_def is_legacy_dir_def demo_key_def key_path_def frame_path_def)

theorem rebuilt_index_serves_nothing_witness:
  "fst (dc_read ''movie'' ''m.mkv'' 1000 320 (dc_new (demo 4))) = None"
proof -
  have "index_txt (swept (demo 4)) = None"
    using swept_sel [of "demo 4"] by (simp add: demo_def)
  then have "load_index (swept (demo 4)) = Inl Unreadable"
    by (simp add: load_index_def)
  then show ?thesis
    by (rule rebuilt_index_serves_nothing [rotated]) (simp_all add: demo_def)
qed

end
