(* ===== verification/Lru.thy ===== *)
theory Lru
  imports Rust_Prelude "HOL-Library.AList"
begin

text \<open>
  The \<^verbatim>\<open>lru\<close> crate, which both daemons keep their memory caches in. Its operations are a parameter
  (\<open>lru_ops\<close>) of the models that use them; \<open>lru_laws\<close> is the documented behaviour they rely on. A bounded
  association list in recency order satisfies it.
\<close>

record ('k, 'v, 'c) lru_ops =
  lru_get :: "'k \<Rightarrow> 'c \<Rightarrow> 'v option \<times> 'c"
  lru_put :: "'k \<Rightarrow> 'v \<Rightarrow> 'c \<Rightarrow> 'c"
  lru_clear :: "'c \<Rightarrow> 'c"
  lru_peek :: "'k \<Rightarrow> 'c \<Rightarrow> 'v option"

text \<open>
  \<^verbatim>\<open>get\<close> returns the entry and changes only the recency order, \<^verbatim>\<open>put\<close> makes its key present and may drop
  other keys but never changes them, \<^verbatim>\<open>clear\<close> empties.
\<close>

definition lru_laws :: "('k, 'v, 'c) lru_ops \<Rightarrow> bool" where
  "lru_laws ops \<longleftrightarrow>
     (\<forall>k c. fst (lru_get ops k c) = lru_peek ops k c) \<and>
     (\<forall>k k' c. lru_peek ops k' (snd (lru_get ops k c)) = lru_peek ops k' c) \<and>
     (\<forall>k e c. lru_peek ops k (lru_put ops k e c) = Some e) \<and>
     (\<forall>k k' e c. k' \<noteq> k \<longrightarrow> lru_peek ops k' (lru_put ops k e c) \<in> {None, lru_peek ops k' c}) \<and>
     (\<forall>k c. lru_peek ops k (lru_clear ops c) = None)"

lemma lru_put_same: "lru_laws ops \<Longrightarrow> lru_peek ops k (lru_put ops k e c) = Some e"
  unfolding lru_laws_def by blast

lemma lru_put_peek: "lru_laws ops \<Longrightarrow> lru_peek ops k (lru_put ops j e c) \<noteq> None \<Longrightarrow> k = j \<or> lru_peek ops k c \<noteq> None"
  unfolding lru_laws_def by (metis empty_iff insert_iff)

lemma lru_put_value: "lru_laws ops \<Longrightarrow> lru_peek ops k (lru_put ops j e c) = Some v \<Longrightarrow> (k = j \<and> v = e) \<or> lru_peek ops k c = Some v"
  unfolding lru_laws_def by (metis empty_iff insert_iff option.distinct(1) option.inject)

lemma lru_get_fst: "lru_laws ops \<Longrightarrow> fst (lru_get ops k c) = lru_peek ops k c"
  unfolding lru_laws_def by blast

lemma lru_get_peek: "lru_laws ops \<Longrightarrow> lru_get ops j c = (x, c') \<Longrightarrow> lru_peek ops k c' = lru_peek ops k c"
  unfolding lru_laws_def by (metis snd_conv)

lemma lru_clear_peek: "lru_laws ops \<Longrightarrow> lru_peek ops k (lru_clear ops c) = None"
  unfolding lru_laws_def by blast

definition list_lru :: "nat \<Rightarrow> ('k, 'v, ('k \<times> 'v) list) lru_ops" where
  "list_lru cap =
     \<lparr>lru_get = (\<lambda>k c. (map_of c k, case map_of c k of None \<Rightarrow> c | Some e \<Rightarrow> (k, e) # AList.delete k c)),
      lru_put = (\<lambda>k e c. take cap ((k, e) # AList.delete k c)),
      lru_clear = (\<lambda>c. []),
      lru_peek = (\<lambda>k c. map_of c k)\<rparr>"

lemma map_of_take: "map_of (take n m) k \<in> {None, map_of m k}"
  by (induction m arbitrary: n) (auto simp: take_Cons split: nat.split)

lemma list_lru_laws: "0 < cap \<Longrightarrow> lru_laws (list_lru cap)"
proof -
  assume cap: "0 < cap"
  then obtain n where n: "cap = Suc n" by (cases cap) auto
  have get: "map_of (case map_of c k of None \<Rightarrow> c | Some e \<Rightarrow> (k, e) # AList.delete k c) k' = map_of c k'"
    for c :: "('a \<times> 'b) list" and k k'
    by (simp add: map_of_delete_eq split: option.split)
  have put: "map_of (take n (AList.delete k c)) k' \<in> {None, map_of c k'}" if "k' \<noteq> k"
    for c :: "('a \<times> 'b) list" and k k'
    using map_of_take [of n "AList.delete k c" k'] that by (simp add: map_of_delete_eq)
  show ?thesis
    unfolding lru_laws_def list_lru_def n using get put by simp
qed

end
