(* ===== verification/Seek_Preview.thy ===== *)
theory Seek_Preview
  imports Wire Disk_Index Lru
begin

text \<open>
  The seek-preview daemon: \<^verbatim>\<open>crates/seek-preview/src/protocol.rs\<close> and \<^verbatim>\<open>server.rs\<close>.

  A connection serves its requests one after the other: each is answered from the in-memory LRU
  cache, from the disk cache, or by decoding the frame. The LRU cache is the \<^verbatim>\<open>lru\<close> crate (theory \<open>Lru\<close>), whose operations are a parameter;
  so is \<^verbatim>\<open>decode_and_encode\<close>, which calls FFmpeg.
  The state is the connection, extended with what the daemon shares between connections; what
  several connections do to the shared part at once is the subject of theory \<open>Seek_Tasks\<close>.
\<close>

section \<open>State\<close>

type_synonym cache_key = "string \<times> int \<times> nat"

record frame_meta =
  actual_pts_ms :: int
  fps_num :: int
  fps_den :: int

record cache_entry =
  webp :: "byte list"
  meta :: frame_meta

type_synonym 'c mem_ops = "(cache_key, cache_entry, 'c) lru_ops"

type_synonym decoder = "string \<Rightarrow> int \<Rightarrow> nat \<Rightarrow> decode_result option"

record 'c sp_state = conn +
  sp_cache :: 'c
  sp_disk :: cache
  active_item_id :: "string option"

record request =
  priority :: nat
  request_id :: nat
  pos_ms :: int
  req_width :: nat
  req_path :: string
  item_id :: string

section \<open>Protocol\<close>

definition read_priority :: "('z, nat) wire" where
  "read_priority = read_u8"

definition read_req_body :: "nat \<Rightarrow> ('z, request) wire" where
  "read_req_body prio =
     io_bind read_u32_le (\<lambda>rid.
     io_bind read_i64_le (\<lambda>pos.
     io_bind read_u32_le (\<lambda>w.
     io_bind read_u32_le (\<lambda>path_len.
     io_bind (read_text path_len) (\<lambda>path.
     io_bind (read_text 32) (\<lambda>item.
       io_ret \<lparr>priority = prio, request_id = rid, pos_ms = pos, req_width = w,
               req_path = path, item_id = item\<rparr>))))))"

definition write_response :: "nat \<Rightarrow> byte list \<Rightarrow> ('z, unit) wire" where
  "write_response rid data =
     io_then (write_all (le_bytes 4 rid))
    (io_then (write_all (le_bytes 4 (length data)))
             (if data \<noteq> [] then write_all data else io_ret ()))"

definition write_ack :: "nat \<Rightarrow> ('z, unit) wire" where
  "write_ack rid = io_then (write_all (le_bytes 4 rid)) (write_all (le_bytes 4 0))"

section \<open>Server\<close>

definition priority_fetch :: nat where "priority_fetch = 1"
definition priority_prefetch :: nat where "priority_prefetch = 2"
definition priority_list :: nat where "priority_list = 3"

definition evict_on_switch :: "'c mem_ops \<Rightarrow> string \<Rightarrow> 'c sp_state \<Rightarrow> 'c sp_state" where
  "evict_on_switch ops item s =
     (if active_item_id s \<noteq> Some item
      then s\<lparr>sp_cache := (if active_item_id s \<noteq> None then lru_clear ops (sp_cache s) else sp_cache s),
             active_item_id := Some item\<rparr>
      else s)"

text \<open>\<^verbatim>\<open>let _ = write_...\<close>: a failed write is not noticed.\<close>

definition respond :: "nat \<Rightarrow> byte list \<Rightarrow> 'c sp_state \<Rightarrow> 'c sp_state" where
  "respond rid data s = snd (write_response rid data s)"

definition ack :: "nat \<Rightarrow> 'c sp_state \<Rightarrow> 'c sp_state" where
  "ack rid s = snd (write_ack rid s)"

text \<open>
  The decode task and what follows it. \<^verbatim>\<open>compute_frame_idx\<close> may panic, which the join reports
  like a decode error.
\<close>

definition decode_and_reply ::
  "'c mem_ops \<Rightarrow> decoder \<Rightarrow> bool \<Rightarrow> request \<Rightarrow> 'c sp_state \<Rightarrow> 'c sp_state" where
  "decode_and_reply ops dec is_fetch req s =
     (case dec (req_path req) (pos_ms req) (req_width req) of
        None \<Rightarrow> ack (request_id req) s
      | Some r \<Rightarrow>
          (case compute_frame_idx (dr_pts_ms r) (dr_fps_num r) (dr_fps_den r) of
             None \<Rightarrow> ack (request_id req) s
           | Some frame_idx \<Rightarrow>
               (let d = snd (dc_write (item_id req) (req_path req) frame_idx (pos_ms req) (req_width req)
                               (dr_webp r) (sp_disk s));
                    e = \<lparr>webp = dr_webp r,
                         meta = \<lparr>actual_pts_ms = dr_pts_ms r, fps_num = dr_fps_num r, fps_den = dr_fps_den r\<rparr>\<rparr>;
                    s = s\<lparr>sp_disk := d,
                          sp_cache := lru_put ops (item_id req, pos_ms req, req_width req) e (sp_cache s)\<rparr>
                in if is_fetch then respond (request_id req) (dr_webp r) s else ack (request_id req) s)))"

definition serve :: "'c mem_ops \<Rightarrow> decoder \<Rightarrow> bool \<Rightarrow> request \<Rightarrow> 'c sp_state \<Rightarrow> 'c sp_state" where
  "serve ops dec is_fetch req s =
     (let key = (item_id req, pos_ms req, req_width req);
          (cached, c) = lru_get ops key (sp_cache s);
          s = s\<lparr>sp_cache := c\<rparr>
      in case cached of
           Some entry \<Rightarrow>
             if is_fetch then respond (request_id req) (webp entry) s else ack (request_id req) s
         | None \<Rightarrow>
             if is_fetch then
               (case dc_read (item_id req) (req_path req) (pos_ms req) (req_width req) (sp_disk s) of
                  (Some data, d) \<Rightarrow>
                    (let e = \<lparr>webp = data, meta = \<lparr>actual_pts_ms = -1, fps_num = 0, fps_den = 1\<rparr>\<rparr>
                     in respond (request_id req) data
                          (s\<lparr>sp_disk := d, sp_cache := lru_put ops key e (sp_cache s)\<rparr>))
                | (None, d) \<Rightarrow> decode_and_reply ops dec is_fetch req (s\<lparr>sp_disk := d\<rparr>))
             else if dc_exists (item_id req) (req_path req) (pos_ms req) (req_width req) (sp_disk s)
             then ack (request_id req) s
             else decode_and_reply ops dec is_fetch req s)"

definition list_reply :: "nat \<Rightarrow> (int \<times> int) list \<Rightarrow> byte list" where
  "list_reply rid es =
     le_bytes 4 rid @ le_bytes 4 (length es)
       @ concat (map (\<lambda>(pos, frame_idx). i64_bytes frame_idx @ i64_bytes pos) es)"

definition handle_list_cached :: "('c sp_state, wire_error, unit) io" where
  "handle_list_cached =
     io_bind read_u32_le (\<lambda>rid.
     io_bind (read_exact 32) (\<lambda>id_bytes.
     io_bind read_u32_le (\<lambda>w.
       (let item = (case from_utf8 id_bytes of None \<Rightarrow> [] | Some t \<Rightarrow> t)
        in io_bind (io_get (\<lambda>s. dc_list_cached item w (sp_disk s))) (\<lambda>es.
           write_all (list_reply rid es))))))"

text \<open>One turn of the loop of \<^verbatim>\<open>handle_conn\<close>; the flag says whether the loop goes on.\<close>

definition conn_step :: "'c mem_ops \<Rightarrow> decoder \<Rightarrow> 'c sp_state \<Rightarrow> bool \<times> 'c sp_state" where
  "conn_step ops dec s =
     (case read_priority s of
        (Inl _, s) \<Rightarrow> (False, s)
      | (Inr prio, s) \<Rightarrow>
          if prio = priority_fetch \<or> prio = priority_prefetch then
            (case read_req_body prio s of
               (Inl _, s) \<Rightarrow> (False, s)
             | (Inr req, s) \<Rightarrow>
                 (True, serve ops dec (prio = priority_fetch) req (evict_on_switch ops (item_id req) s)))
          else if prio = priority_list then
            (case handle_list_cached s of (Inl _, s) \<Rightarrow> (False, s) | (Inr _, s) \<Rightarrow> (True, s))
          else (False, s))"

text \<open>Every turn that goes on has consumed input, so the loop ends.\<close>

lemma write_all_sel [simp]:
  "c_in (snd (write_all bs s)) = c_in s"
  "sp_cache (snd (write_all bs t)) = sp_cache t" "sp_disk (snd (write_all bs t)) = sp_disk t"
  "active_item_id (snd (write_all bs t)) = active_item_id t"
  by (simp_all add: write_all_def)

lemma io_then_proj:
  assumes "\<And>s. P (snd (m s)) = P s" and "\<And>s. P (snd (n s)) = P s"
  shows "P (snd (io_then m n s)) = P s"
proof (cases "m s")
  case (Pair x t)
  with assms(1) [of s] have "P t = P s" by simp
  with Pair assms(2) [of t] show ?thesis by (cases x) (simp_all add: io_then_def io_bind_def)
qed

lemma reply_proj:
  assumes w: "\<And>bs s. P (snd (write_all bs s)) = P s"
  shows "P (respond rid data s) = P s" and "P (ack rid s) = P s"
proof -
  have r: "P (snd ((if data \<noteq> [] then write_all data else io_ret ()) s)) = P s" for s
    by (simp add: w io_run)
  show "P (respond rid data s) = P s"
    unfolding respond_def write_response_def 
    by (intro io_then_proj [where P = P] w) (rule r)
  show "P (ack rid s) = P s"
    unfolding ack_def write_ack_def 
    by (intro io_then_proj [where P = P] w)
qed

lemma reply_sel [simp]:
  "c_in (respond rid data s) = c_in s" "sp_cache (respond rid data s) = sp_cache s"
  "sp_disk (respond rid data s) = sp_disk s" "active_item_id (respond rid data s) = active_item_id s"
  "c_in (ack rid s) = c_in s" "sp_cache (ack rid s) = sp_cache s"
  "sp_disk (ack rid s) = sp_disk s" "active_item_id (ack rid s) = active_item_id s"
  using reply_proj(1) [where P = "\<lambda>s. (c_in s, sp_cache s, sp_disk s, active_item_id s)" and data = data and rid = rid and s = s]
    reply_proj(2) [where P = "\<lambda>s. (c_in s, sp_cache s, sp_disk s, active_item_id s)" and rid = rid and s = s]
  by simp_all

lemma decode_and_reply_in [simp]: "c_in (decode_and_reply ops dec f req s) = c_in s"
  by (simp add: decode_and_reply_def Let_def split: option.split)

lemma serve_in [simp]: "c_in (serve ops dec f req s) = c_in s"
  by (simp add: serve_def Let_def split: option.split prod.split)

lemma evict_on_switch_in [simp]: "c_in (evict_on_switch ops i s) = c_in s"
  by (simp add: evict_on_switch_def)

lemma reads_only_req_body [intro, simp]: "reads_only (read_req_body prio)"
  unfolding read_req_body_def by blast

lemma read_priority_consumes:
  "read_priority s = (Inr p, t) \<Longrightarrow> length (c_in t) < length (c_in s)"
  by (auto simp: read_priority_def read_u8_def io_bind_def read_exact_def io_run split: if_splits)

lemma handle_list_cached_consumes: "consumes handle_list_cached"
  unfolding handle_list_cached_def Let_def
  by (intro consumes_bind consumes_reads_only consumes_write_all consumes_get reads_only_fields reads_only_exact)

lemma conn_step_consumes:
  "conn_step ops dec s = (True, t) \<Longrightarrow> length (c_in t) < length (c_in s)"
proof -
  assume st: "conn_step ops dec s = (True, t)"
  obtain x u where p: "read_priority s = (x, u)" by force
  from st p obtain prio where x: "x = Inr prio" by (cases x) (auto simp: conn_step_def)
  have u: "length (c_in u) < length (c_in s)" using read_priority_consumes p x by blast
  have "length (c_in t) \<le> length (c_in u)"
    using st p x consumesD [OF consumes_reads_only [OF reads_only_req_body], of prio u]
      consumesD [OF handle_list_cached_consumes, of u]
    by (auto simp: conn_step_def split: if_splits prod.splits sum.splits)
  with u show ?thesis by simp
qed

function handle_conn :: "'c mem_ops \<Rightarrow> decoder \<Rightarrow> 'c sp_state \<Rightarrow> 'c sp_state" where
  "handle_conn ops dec s =
     (let (go_on, t) = conn_step ops dec s in if go_on then handle_conn ops dec t else t)"
  by pat_completeness auto
termination
  by (relation "measure (\<lambda>(ops, dec, s). length (c_in s))") (auto dest!: conn_step_consumes [OF sym])

declare handle_conn.simps [simp del]

lemma handle_conn_step:
  "conn_step ops dec s = (True, t) \<Longrightarrow> handle_conn ops dec s = handle_conn ops dec t"
  "conn_step ops dec s = (False, t) \<Longrightarrow> handle_conn ops dec s = t"
  by (simp_all add: handle_conn.simps [of ops dec s])

section \<open>Encoded requests\<close>

definition enc_request :: "request \<Rightarrow> byte list" where
  "enc_request req =
     word_of_nat (priority req) # le_bytes 4 (request_id req) @ i64_bytes (pos_ms req)
       @ le_bytes 4 (req_width req) @ le_bytes 4 (length (req_path req)) @ bytes_of (req_path req)
       @ bytes_of (item_id req)"

definition valid_request :: "request \<Rightarrow> bool" where
  "valid_request req \<longleftrightarrow>
     priority req \<in> {priority_fetch, priority_prefetch} \<and> request_id req < 2 ^ 32 \<and> in_i64 (pos_ms req) \<and>
     req_width req < 2 ^ 32 \<and> length (req_path req) < 2 ^ 32 \<and> valid_text (req_path req) \<and>
     length (item_id req) = 32 \<and> valid_text (item_id req)"

definition reply :: "nat \<Rightarrow> byte list \<Rightarrow> byte list" where
  "reply rid data = le_bytes 4 rid @ le_bytes 4 (length data) @ data"

lemma read_req_body_run [wire_simps]:
  assumes "valid_request req"
  shows "read_req_body (priority req) (s\<lparr>c_in := tl (enc_request req) @ r\<rparr>) = (Inr req, s\<lparr>c_in := r\<rparr>)"
  using assms
  by (simp add: valid_request_def read_req_body_def enc_request_def io_bind_run wire_simps io_run)

lemma read_priority_run:
  assumes "valid_request req"
  shows "read_priority (s\<lparr>c_in := enc_request req @ r\<rparr>) = (Inr (priority req), s\<lparr>c_in := tl (enc_request req) @ r\<rparr>)"
proof -
  from assms have "priority req < 256"
    by (auto simp: valid_request_def priority_fetch_def priority_prefetch_def)
  then show ?thesis
    using read_u8_run [where v = "priority req" and s = s and r = "tl (enc_request req) @ r"]
    by (simp add: read_priority_def enc_request_def)
qed

lemma write_all_run:
  "length bs \<le> c_room s \<Longrightarrow>
     write_all bs s = (Inr (), s\<lparr>c_out := c_out s @ bs, c_room := c_room s - length bs\<rparr>)"
  by (simp add: write_all_def)

lemma respond_out:
  "8 + length data \<le> c_room s \<Longrightarrow>
     respond rid data s = s\<lparr>c_out := c_out s @ reply rid data, c_room := c_room s - (8 + length data)\<rparr>"
  by (simp add: respond_def write_response_def io_then_run write_all_run reply_def io_run)

lemma ack_out:
  "8 \<le> c_room s \<Longrightarrow> ack rid s = s\<lparr>c_out := c_out s @ reply rid [], c_room := c_room s - 8\<rparr>"
  by (simp add: ack_def write_ack_def io_then_run write_all_run reply_def)

section \<open>What a request is answered\<close>

definition frame_key_of :: "request \<Rightarrow> cache_key" where
  "frame_key_of req = (item_id req, pos_ms req, req_width req)"

text \<open>The bytes a request is due: memory, then disk, then the decoder; nothing for a prefetch.\<close>

definition due :: "'c mem_ops \<Rightarrow> decoder \<Rightarrow> request \<Rightarrow> 'c sp_state \<Rightarrow> byte list" where
  "due ops dec req s =
     (if priority req \<noteq> priority_fetch then []
      else case lru_peek ops (frame_key_of req) (sp_cache s) of
             Some e \<Rightarrow> webp e
           | None \<Rightarrow>
               (case fst (fk_read (item_id req, req_path req, pos_ms req, req_width req) (sp_disk s)) of
                  Some d \<Rightarrow> d
                | None \<Rightarrow>
                    (case dec (req_path req) (pos_ms req) (req_width req) of
                       None \<Rightarrow> []
                     | Some r \<Rightarrow>
                         if compute_frame_idx (dr_pts_ms r) (dr_fps_num r) (dr_fps_den r) = None then []
                         else dr_webp r)))"

lemma decode_and_reply_out:
  assumes "8 + length (due ops dec req s) \<le> c_room s"
    and "lru_peek ops (frame_key_of req) (sp_cache s) = None"
    and "fst (fk_read (item_id req, req_path req, pos_ms req, req_width req) (sp_disk s)) = None \<or> priority req \<noteq> priority_fetch"
  shows "c_out (decode_and_reply ops dec (priority req = priority_fetch) req s) =
      c_out s @ reply (request_id req) (due ops dec req s) \<and>
    c_room (decode_and_reply ops dec (priority req = priority_fetch) req s) =
      c_room s - (8 + length (due ops dec req s))"
  using assms
  by (cases "priority req = priority_fetch")
    (auto simp: decode_and_reply_def due_def Let_def ack_out respond_out split: option.splits)

lemma serve_out:
  assumes laws: "lru_laws ops" and room: "8 + length (due ops dec req s) \<le> c_room s"
  shows "c_out (serve ops dec (priority req = priority_fetch) req s) =
      c_out s @ reply (request_id req) (due ops dec req s) \<and>
    c_room (serve ops dec (priority req = priority_fetch) req s) =
      c_room s - (8 + length (due ops dec req s))"
proof -
  obtain x c where g: "lru_get ops (frame_key_of req) (sp_cache s) = (x, c)" by (cases "lru_get ops (frame_key_of req) (sp_cache s)")
  with laws have x: "x = lru_peek ops (frame_key_of req) (sp_cache s)"
    and c: "lru_peek ops (frame_key_of req) c = lru_peek ops (frame_key_of req) (sp_cache s)"
    unfolding lru_laws_def by (metis fst_conv, metis snd_conv)
  show ?thesis
  proof (cases x)
    case (Some e)
    with g room show ?thesis
      by (cases "priority req = priority_fetch")
        (simp_all add: serve_def due_def frame_key_of_def respond_out ack_out Let_def x [symmetric, unfolded frame_key_of_def])
  next
    case None
    let ?k = "(item_id req, req_path req, pos_ms req, req_width req)"
    have n: "lru_peek ops (frame_key_of req) c = None" using c x None by simp
    obtain y d where r: "fk_read ?k (sp_disk s) = (y, d)" by (cases "fk_read ?k (sp_disk s)")
    have d: "fst (fk_read ?k d) = y"
      using disk.rd_repeat [of ?k "sp_disk s"] r by simp
    let ?s = "s\<lparr>sp_cache := c\<rparr>" and ?t = "s\<lparr>sp_cache := c, sp_disk := d\<rparr>"
    have due: "due ops dec req ?s = due ops dec req s" "due ops dec req ?t = due ops dec req s"
      using n None x d r by (simp_all add: due_def)
    show ?thesis
    proof (cases "priority req = priority_fetch")
      case True
      show ?thesis
      proof (cases y)
        case (Some data)
        with True None g r room x show ?thesis
          by (simp add: serve_def due_def frame_key_of_def fk_read_def respond_out Let_def)
      next
        case None
        have "serve ops dec True req s = decode_and_reply ops dec True req ?t"
          using g r None \<open>x = None\<close> by (simp add: serve_def frame_key_of_def fk_read_def Let_def)
        then show ?thesis
          using decode_and_reply_out [of ops dec req ?t] room due n d None True by simp
      qed
    next
      case False
      have "serve ops dec False req s = (if fk_exists ?k (sp_disk s) then ack (request_id req) ?s
          else decode_and_reply ops dec False req ?s)"
        using g None by (simp add: serve_def frame_key_of_def fk_exists_def Let_def)
      moreover have "due ops dec req s = []" using False by (simp add: due_def)
      ultimately show ?thesis
        using decode_and_reply_out [of ops dec req ?s] room due n False by (simp add: ack_out)
    qed
  qed
qed

text \<open>
  C5: Every well-formed frame request is consumed exactly and answered exactly once, under its own
  request id, with the bytes it is due: the frame in memory, else on disk, else decoded (nothing when
  the decoder fails), and an empty answer for a prefetch.
\<close>

theorem request_answered:
  assumes "lru_laws ops" and "valid_request req"
    and "8 + length (due ops dec req (evict_on_switch ops (item_id req) (s\<lparr>c_in := r\<rparr>))) \<le> c_room s"
  shows "\<exists>t. conn_step ops dec (s\<lparr>c_in := enc_request req @ r\<rparr>) = (True, t) \<and> c_in t = r \<and>
    c_out t = c_out s @ reply (request_id req) (due ops dec req (evict_on_switch ops (item_id req) (s\<lparr>c_in := r\<rparr>)))"
proof -
  let ?e = "evict_on_switch ops (item_id req) (s\<lparr>c_in := r\<rparr>)"
  let ?t = "serve ops dec (priority req = priority_fetch) req ?e"
  have p: "priority req = priority_fetch \<or> priority req = priority_prefetch"
    using assms(2) by (auto simp: valid_request_def)
  have "conn_step ops dec (s\<lparr>c_in := enc_request req @ r\<rparr>) = (True, ?t)"
    using p by (simp add: conn_step_def read_priority_run [OF assms(2)] read_req_body_run [OF assms(2)])
  moreover have "c_room ?e = c_room s" "c_out ?e = c_out s"
    by (simp_all add: evict_on_switch_def)
  ultimately show ?thesis using serve_out [OF assms(1), of dec req ?e] assms(3) by simp
qed

section \<open>One item at a time\<close>

text \<open>Every frame in memory belongs to the active item.\<close>

definition owned :: "'c mem_ops \<Rightarrow> 'c sp_state \<Rightarrow> bool" where
  "owned ops s \<longleftrightarrow> (\<forall>k. lru_peek ops k (sp_cache s) \<noteq> None \<longrightarrow> active_item_id s = Some (fst k))"

lemma owned_evict:
  assumes "lru_laws ops" and "owned ops s"
  shows "owned ops (evict_on_switch ops i s)"
proof (cases "active_item_id s = Some i")
  case True
  with assms show ?thesis by (simp add: evict_on_switch_def)
next
  case False
  have "lru_peek ops k (sp_cache (evict_on_switch ops i s)) = None" for k
  proof (cases "active_item_id s")
    case None
    with False assms(2) show ?thesis unfolding owned_def by (fastforce simp: evict_on_switch_def)
  next
    case (Some j)
    with False show ?thesis by (simp add: evict_on_switch_def lru_clear_peek [OF assms(1)])
  qed
  then show ?thesis by (simp add: owned_def)
qed

lemma evict_active: "active_item_id (evict_on_switch ops i s) = Some i"
  by (simp add: evict_on_switch_def)

lemma owned_put:
  assumes "lru_laws ops" and "owned ops s" and "active_item_id s = Some (fst k)"
  shows "owned ops (s\<lparr>sp_disk := d, sp_cache := lru_put ops k e (sp_cache s)\<rparr>)"
proof -
  have "active_item_id s = Some (fst j)" if "lru_peek ops j (lru_put ops k e (sp_cache s)) \<noteq> None" for j
    using lru_put_peek [OF assms(1) that] assms(2,3) unfolding owned_def by blast
  then show ?thesis unfolding owned_def by simp
qed

lemma owned_cong:
  "sp_cache t = sp_cache s \<Longrightarrow> active_item_id t = active_item_id s \<Longrightarrow> owned ops t = owned ops s"
  by (simp add: owned_def)

lemma owned_decode:
  assumes "lru_laws ops" and "owned ops s" and "active_item_id s = Some (item_id req)"
  shows "owned ops (decode_and_reply ops dec f req s) \<and>
    active_item_id (decode_and_reply ops dec f req s) = active_item_id s"
  using assms owned_put [OF assms(1,2), of "(item_id req, pos_ms req, req_width req)"]
  by (auto simp: decode_and_reply_def Let_def owned_cong [of "ack r u" u for r u]
      owned_cong [of "respond r b u" u for r b u] split: option.split)

lemma owned_serve:
  assumes laws: "lru_laws ops" and own: "owned ops s" and act: "active_item_id s = Some (item_id req)"
  shows "owned ops (serve ops dec f req s)"
proof -
  let ?key = "(item_id req, pos_ms req, req_width req)"
  obtain x c where g: "lru_get ops ?key (sp_cache s) = (x, c)" by (cases "lru_get ops ?key (sp_cache s)")
  let ?s = "s\<lparr>sp_cache := c\<rparr>"
  have own': "owned ops ?s" using own lru_get_peek [OF laws g] by (simp add: owned_def)
  have act': "active_item_id ?s = Some (item_id req)" using act by simp
  have own_d: "owned ops (decode_and_reply ops dec True req (?s\<lparr>sp_disk := d\<rparr>))" for d
  proof -
    have "owned ops (?s\<lparr>sp_disk := d\<rparr>)"
      by (subst owned_cong [of _ ?s]) (simp_all add: own')
    then show ?thesis using owned_decode [OF laws, of "?s\<lparr>sp_disk := d\<rparr>" req dec True] act' by simp
  qed
  show ?thesis
    using g owned_decode [OF laws own' act'] own_d act'
      owned_put [OF laws own', of ?key] own'
    by (auto simp: serve_def Let_def owned_cong [of "ack r u" u for r u]
        owned_cong [of "respond r b u" u for r b u] split: option.split prod.split)
qed

lemma owned_conn [simp]:
  "owned ops (s\<lparr>c_in := x\<rparr>) = owned ops s"
  "owned ops (s\<lparr>c_out := y, c_room := z\<rparr>) = owned ops s"
  by (simp_all add: owned_def)

lemma owned_reads: "reads_only m \<Longrightarrow> owned ops s \<Longrightarrow> m s = (x, t) \<Longrightarrow> owned ops t"
  by (metis reads_onlyE owned_conn(1))

lemma owned_list: "io_keeps (owned ops) handle_list_cached"
  unfolding handle_list_cached_def Let_def
  by (intro io_keeps_bind io_keeps_reads_only io_keeps_write_all io_keeps_get
      reads_only_fields reads_only_exact) simp_all

lemma owned_step:
  assumes "lru_laws ops" and "owned ops s"
  shows "owned ops (snd (conn_step ops dec s))"
proof -
  obtain x t where p: "read_priority s = (x, t)" by (cases "read_priority s")
  have r: "reads_only read_priority" by (simp add: read_priority_def)
  have t: "owned ops t" using owned_reads [OF r assms(2) p] .
  have body: "owned ops u" if "read_req_body prio t = (y, u)" for prio y u
    using owned_reads [OF reads_only_req_body t that] .
  have serve: "owned ops (serve ops dec f req (evict_on_switch ops (item_id req) u))"
    if "owned ops u" for f req u
    by (intro owned_serve assms(1) owned_evict that) (rule evict_active)
  have list: "owned ops (snd (handle_list_cached t))"
    using io_keepsD [OF owned_list t] .
  show ?thesis
  proof (cases x)
    case (Inl e)
    with p t show ?thesis by (simp add: conn_step_def)
  next
    case (Inr prio)
    obtain y u where b: "read_req_body prio t = (y, u)" by (cases "read_req_body prio t")
    obtain z v where l: "handle_list_cached t = (z, v)" by (cases "handle_list_cached t")
    have "owned ops v" using list l by simp
    with p Inr t b l body [OF b] serve [OF body [OF b]] show ?thesis
      by (cases y; cases z) (simp_all add: conn_step_def)
  qed
qed

text \<open>
  One item in memory at a time. A connection that no other one runs beside, whatever its input,
  keeps this: every frame in the memory cache belongs to the item last requested. Theory
  \<open>Seek_Tasks\<close> says what is left of this when connections share the memory.
\<close>

theorem connection_holds_active_item:
  assumes "lru_laws ops" and "owned ops s"
  shows "owned ops (handle_conn ops dec s)"
  using assms(2)
proof (induction "length (c_in s)" arbitrary: s rule: less_induct)
  case less
  obtain b t where st: "conn_step ops dec s = (b, t)" by (cases "conn_step ops dec s")
  have t: "owned ops t" using owned_step [OF assms(1) less.prems, of dec] st by simp
  show ?case
  proof (cases b)
    case True
    with st less.hyps [of t] t conn_step_consumes [of ops dec s t] show ?thesis
      by (simp add: handle_conn_step(1))
  next
    case False
    with st t show ?thesis by (simp add: handle_conn_step(2))
  qed
qed

section \<open>Repeated and pipelined requests\<close>

definition available :: "'c mem_ops \<Rightarrow> decoder \<Rightarrow> request \<Rightarrow> 'c sp_state \<Rightarrow> bool" where
  "available ops dec req s \<longleftrightarrow>
     lru_peek ops (frame_key_of req) (sp_cache s) \<noteq> None \<or>
     fst (fk_read (item_id req, req_path req, pos_ms req, req_width req) (sp_disk s)) \<noteq> None \<or>
     (\<exists>r. dec (req_path req) (pos_ms req) (req_width req) = Some r \<and>
        compute_frame_idx (dr_pts_ms r) (dr_fps_num r) (dr_fps_den r) \<noteq> None)"

lemma serve_remembers:
  assumes laws: "lru_laws ops" and "available ops dec req s" and fetch: "priority req = priority_fetch"
  shows "\<exists>e. lru_peek ops (frame_key_of req) (sp_cache (serve ops dec True req s)) = Some e \<and>
    webp e = due ops dec req s"
proof -
  have put: "lru_peek ops k (lru_put ops k e c) = Some e" for k e c
    using laws unfolding lru_laws_def by blast
  obtain x c where g: "lru_get ops (frame_key_of req) (sp_cache s) = (x, c)"
    by (cases "lru_get ops (frame_key_of req) (sp_cache s)")
  with laws have x: "x = lru_peek ops (frame_key_of req) (sp_cache s)"
    unfolding lru_laws_def by (metis fst_conv)
  note c = lru_get_peek [OF laws g]
  let ?k = "(item_id req, req_path req, pos_ms req, req_width req)"
  obtain y d where r: "fk_read ?k (sp_disk s) = (y, d)" by (cases "fk_read ?k (sp_disk s)")
  show ?thesis
  proof (cases x)
    case (Some e)
    with x have p: "lru_peek ops (frame_key_of req) (sp_cache s) = Some e" by simp
    from g Some have "serve ops dec True req s = respond (request_id req) (webp e) (s\<lparr>sp_cache := c\<rparr>)"
      by (simp add: serve_def frame_key_of_def)
    with c [of "frame_key_of req"] p fetch show ?thesis by (simp add: due_def)
  next
    case None
    show ?thesis
    proof (cases y)
      case (Some data)
      then show ?thesis
        using g r None x put fetch by (simp add: serve_def due_def frame_key_of_def fk_read_def Let_def)
    next
      case none: None
      obtain q fi where q: "dec (req_path req) (pos_ms req) (req_width req) = Some q"
        "compute_frame_idx (dr_pts_ms q) (dr_fps_num q) (dr_fps_den q) = Some fi"
        using assms(2) none None x r by (auto simp: available_def)
      then show ?thesis
        using g r none None x put fetch
        by (simp add: serve_def due_def decode_and_reply_def frame_key_of_def fk_read_def Let_def)
    qed
  qed
qed

lemma evict_same: "active_item_id s = Some i \<Longrightarrow> evict_on_switch ops i s = s"
  by (simp add: evict_on_switch_def)

lemma decode_active: "active_item_id (decode_and_reply ops dec f req s) = active_item_id s"
  by (simp add: decode_and_reply_def Let_def split: option.split)

lemma serve_active: "active_item_id (serve ops dec f req s) = active_item_id s"
  by (simp add: serve_def Let_def decode_active split: option.split prod.split)

text \<open>
  A frame fetched twice is the same frame. When the first fetch of a frame could be served, a
  second fetch is answered from memory with the same bytes, whatever the decoder would now return.
\<close>

theorem fetch_twice_same:
  assumes "lru_laws ops" and "valid_request req" and "priority req = priority_fetch"
    and "available ops dec req (evict_on_switch ops (item_id req) (s\<lparr>c_in := enc_request req @ r\<rparr>))"
    and "conn_step ops dec (s\<lparr>c_in := enc_request req @ enc_request req @ r\<rparr>) = (True, t)"
  shows "due ops dec' req (evict_on_switch ops (item_id req) t) =
    due ops dec req (evict_on_switch ops (item_id req) (s\<lparr>c_in := enc_request req @ r\<rparr>))"
proof -
  let ?e = "evict_on_switch ops (item_id req) (s\<lparr>c_in := enc_request req @ r\<rparr>)"
  have "conn_step ops dec (s\<lparr>c_in := enc_request req @ enc_request req @ r\<rparr>) = (True, serve ops dec True req ?e)"
    using assms(3) read_priority_run [OF assms(2), where s = s and r = "enc_request req @ r"]
      read_req_body_run [OF assms(2), where s = s and r = "enc_request req @ r"]
    by (simp add: conn_step_def)
  with assms(5) have t: "t = serve ops dec True req ?e" by simp
  have "evict_on_switch ops (item_id req) t = t"
    by (rule evict_same) (simp add: t serve_active evict_active)
  moreover obtain e where "lru_peek ops (frame_key_of req) (sp_cache t) = Some e" "webp e = due ops dec req ?e"
    using serve_remembers [OF assms(1,4,3)] t by blast
  ultimately show ?thesis using assms(3) by (simp add: due_def)
qed

lemma due_prefetch: "priority req = priority_prefetch \<Longrightarrow> due ops dec req s = []"
  by (simp add: due_def priority_fetch_def priority_prefetch_def)

text \<open>
  Pipelined prefetches. A connection on which the client queued any number of well-formed
  prefetch requests, then closed, ends after acknowledging each exactly once, in order.
\<close>

theorem prefetch_batch_acknowledged:
  assumes "lru_laws ops"
    and "\<And>req. req \<in> set reqs \<Longrightarrow> valid_request req \<and> priority req = priority_prefetch"
    and "8 * length reqs \<le> c_room s"
  shows "c_out (handle_conn ops dec (s\<lparr>c_in := concat (map enc_request reqs)\<rparr>)) =
    c_out s @ concat (map (\<lambda>req. reply (request_id req) []) reqs)"
  using assms(2,3)
proof (induction reqs arbitrary: s)
  case Nil
  have "conn_step ops dec (s\<lparr>c_in := []\<rparr>) = (False, s\<lparr>c_in := []\<rparr>)"
    by (simp add: conn_step_def read_priority_def read_u8_def io_bind_def read_exact_def)
  then show ?case by (simp add: handle_conn_step(2))
next
  case (Cons req reqs)
  let ?r = "concat (map enc_request reqs)"
  let ?e = "evict_on_switch ops (item_id req) (s\<lparr>c_in := ?r\<rparr>)"
  let ?t = "serve ops dec False req ?e"
  have v: "valid_request req" "priority req = priority_prefetch" using Cons.prems by auto
  have p: "priority_prefetch \<noteq> priority_fetch" by (simp add: priority_prefetch_def priority_fetch_def)
  have st: "conn_step ops dec (s\<lparr>c_in := enc_request req @ ?r\<rparr>) = (True, ?t)"
    using read_priority_run [OF v(1), where s = s and r = ?r] read_req_body_run [OF v(1), where s = s and r = ?r] v p
    by (simp add: conn_step_def)
  have e: "c_room ?e = c_room s" "c_out ?e = c_out s" by (simp_all add: evict_on_switch_def)
  have "c_out ?t = c_out s @ reply (request_id req) []"
    using serve_out [OF assms(1), of dec req ?e] v p e Cons.prems(2) by (simp add: due_prefetch)
  moreover have eq: "?t\<lparr>c_in := ?r\<rparr> = ?t"
    using serve_in [of ops dec False req ?e] by (metis conn.surjective conn.update_convs(1) conn.select_convs(1) evict_on_switch_in)
  moreover have "8 * length reqs \<le> c_room ?t"
    using serve_out [OF assms(1), of dec req ?e] v p e Cons.prems(2) by (simp add: due_prefetch)
  ultimately show ?case
    using handle_conn_step(1) [OF st] Cons.IH [of ?t, unfolded eq] Cons.prems by simp
qed

section \<open>An instance of the parameters\<close>

definition demo_req :: "nat \<Rightarrow> request" where
  "demo_req prio = \<lparr>priority = prio, request_id = 7, pos_ms = 1000, req_width = 320, req_path = ''m.mkv'',
     item_id = replicate 32 CHR ''a''\<rparr>"

definition demo_dec :: decoder where
  "demo_dec path pos w = Some \<lparr>dr_webp = [1, 2, 3], dr_webp_orig = [], dr_pts_ms = pos, dr_fps_num = 24, dr_fps_den = 1\<rparr>"

definition demo_conn :: "byte list \<Rightarrow> (cache_key \<times> cache_entry) list sp_state" where
  "demo_conn bs = \<lparr>c_in = bs, c_out = [], c_room = 100, sp_cache = [], sp_disk = demo 4, active_item_id = None\<rparr>"

lemma demo_laws: "lru_laws (list_lru 20)"
  by (rule list_lru_laws) simp

lemma demo_req_valid: "prio \<in> {1, 2} \<Longrightarrow> valid_request (demo_req prio)"
  by (auto simp: valid_request_def demo_req_def i64_bounds priority_fetch_def priority_prefetch_def
      intro!: valid_text_ascii split: if_splits)

lemma demo_due: "due (list_lru 20) demo_dec (demo_req 1) (evict_on_switch (list_lru 20) (item_id (demo_req 1)) (demo_conn bs)) = [1, 2, 3]"
  by (simp add: due_def demo_req_def priority_fetch_def evict_on_switch_def demo_conn_def list_lru_def frame_key_of_def
      fk_read_def dc_read_def demo_def demo_key_def demo_dec_def compute_frame_idx_def wrap_i64_def quot_def numeral_eq_Suc)

theorem request_answered_witness:
  "\<exists>t. conn_step (list_lru 20) demo_dec (demo_conn (enc_request (demo_req 1))) = (True, t) \<and>
     c_out t = reply 7 [1, 2, 3]"
  using request_answered [OF demo_laws demo_req_valid [of 1], where s = "demo_conn []" and r = "[]" and dec = demo_dec] demo_due [of "[]"]
  by (auto simp: demo_conn_def demo_req_def)

theorem connection_holds_active_item_witness:
  "owned (list_lru 20) (handle_conn (list_lru 20) demo_dec (demo_conn (enc_request (demo_req 1))))"
  by (rule connection_holds_active_item [OF demo_laws]) (simp add: owned_def demo_conn_def list_lru_def)

theorem prefetch_batch_acknowledged_witness:
  "c_out (handle_conn (list_lru 20) demo_dec (demo_conn (enc_request (demo_req 2) @ enc_request (demo_req 2)))) =
     reply 7 [] @ reply 7 []"
  using prefetch_batch_acknowledged [OF demo_laws, where reqs = "[demo_req 2, demo_req 2]" and s = "demo_conn []" and dec = demo_dec]
    demo_req_valid [of 2]
  by (simp add: demo_conn_def demo_req_def priority_prefetch_def)

theorem fetch_twice_same_witness:
  "\<exists>t. conn_step (list_lru 20) demo_dec (demo_conn (enc_request (demo_req 1) @ enc_request (demo_req 1))) = (True, t) \<and>
     due (list_lru 20) (\<lambda>_ _ _. None) (demo_req 1) (evict_on_switch (list_lru 20) (item_id (demo_req 1)) t) = [1, 2, 3]"
proof -
  let ?r = "enc_request (demo_req 1)"
  have v: "valid_request (demo_req 1)" by (rule demo_req_valid) simp
  have d: "due (list_lru 20) demo_dec (demo_req 1) (evict_on_switch (list_lru 20) (item_id (demo_req 1)) (demo_conn bs)) = [1, 2, 3]" for bs
    by (rule demo_due)
  have c: "(demo_conn [])\<lparr>c_in := bs\<rparr> = demo_conn bs" for bs by (simp add: demo_conn_def)
  obtain t where t: "conn_step (list_lru 20) demo_dec (demo_conn (?r @ ?r)) = (True, t)"
    using request_answered [OF demo_laws v, where s = "demo_conn []" and r = ?r and dec = demo_dec] d [of ?r] unfolding c
    by (auto simp: demo_conn_def)
  have a: "available (list_lru 20) demo_dec (demo_req 1) (evict_on_switch (list_lru 20) (item_id (demo_req 1)) (demo_conn ?r))"
    by (simp add: available_def demo_dec_def compute_frame_idx_def demo_req_def wrap_i64_def)
  have "due (list_lru 20) (\<lambda>_ _ _. None) (demo_req 1) (evict_on_switch (list_lru 20) (item_id (demo_req 1)) t) = [1, 2, 3]"
    using fetch_twice_same [OF demo_laws v, where dec = demo_dec and s = "demo_conn []" and r = "[]" and t = t and dec' = "\<lambda>_ _ _. None"] t a d [of ?r]
    by (simp add: c demo_req_def priority_fetch_def)
  with t show ?thesis by blast
qed

end
