(* ===== verification/Seek_Tasks.thy ===== *)
theory Seek_Tasks
  imports Seek_Preview
begin

text \<open>
  The memory cache of the seek-preview daemon under concurrent connections:
  \<^verbatim>\<open>crates/seek-preview/src/server.rs\<close>. Each accepted connection runs \<^verbatim>\<open>handle_conn\<close> in a task of
  its own, on one shared \<^verbatim>\<open>State\<close>. A task takes the mutex of the memory cache for one
  operation at a time, and that of the active item for the whole of \<^verbatim>\<open>evict_on_switch\<close>; between
  these points the others run.

  An \<open>sp_task\<close> is the point one frame request has reached, from the call of \<^verbatim>\<open>evict_on_switch\<close> to
  its last access to the memory. \<open>memory_step\<close> lets any of them go on and any request arrive,
  so it covers every number of connections. What the disk cache and the decoder come up with
  for a request is arbitrary here: they do not touch the memory. \<open>request_alone\<close> ties the
  steps to \<open>serve\<close> of \<open>Seek_Preview\<close>, which is a request that runs undisturbed.
\<close>

section \<open>The shared memory\<close>

record 'c sp_shared =
  sh_cache :: 'c
  sh_active :: "string option"
  sh_switching :: bool

text \<open>
  \<open>Arrived\<close>: the request is read. \<open>Switching\<close>: the memory is cleared, the new item not yet noted,
  the mutex of the active item held. \<open>Looking\<close>: \<^verbatim>\<open>evict_on_switch\<close> has returned. \<open>Missed\<close>: the
  frame is not in memory, the disk is asked or the frame is decoded. \<open>Fetched\<close>: the frame is
  there and about to be put into the memory.
\<close>

datatype sp_task =
    Arrived request
  | Switching request
  | Looking request
  | Missed request
  | Fetched request cache_entry

text \<open>
  One step of a task; \<open>found\<close> is what the disk cache or the decoder yields. The result is None
  while the task waits for the mutex of the active item; a task that is left with nothing has
  replied without touching the memory again.
\<close>

fun sp_task_step ::
  "'c mem_ops \<Rightarrow> cache_entry option \<Rightarrow> sp_task \<Rightarrow> 'c sp_shared \<Rightarrow> (sp_task option \<times> 'c sp_shared) option" where
  "sp_task_step ops found (Arrived req) s =
     (if sh_switching s then None
      else if sh_active s = Some (item_id req) then Some (Some (Looking req), s)
      else if sh_active s \<noteq> None
      then Some (Some (Switching req), s\<lparr>sh_cache := lru_clear ops (sh_cache s), sh_switching := True\<rparr>)
      else Some (Some (Looking req), s\<lparr>sh_active := Some (item_id req)\<rparr>))"
| "sp_task_step ops found (Switching req) s =
     Some (Some (Looking req), s\<lparr>sh_active := Some (item_id req), sh_switching := False\<rparr>)"
| "sp_task_step ops found (Looking req) s =
     (let (cached, c) = lru_get ops (frame_key_of req) (sh_cache s)
      in Some (case cached of None \<Rightarrow> Some (Missed req) | Some _ \<Rightarrow> None, s\<lparr>sh_cache := c\<rparr>))"
| "sp_task_step ops found (Missed req) s = Some (map_option (Fetched req) found, s)"
| "sp_task_step ops found (Fetched req e) s =
     Some (None, s\<lparr>sh_cache := lru_put ops (frame_key_of req) e (sh_cache s)\<rparr>)"

text \<open>The requests that \<^verbatim>\<open>evict_on_switch\<close> has let through, by their items.\<close>

fun in_service :: "sp_task \<Rightarrow> string option" where
  "in_service (Looking req) = Some (item_id req)"
| "in_service (Missed req) = Some (item_id req)"
| "in_service (Fetched req e) = Some (item_id req)"
| "in_service task = None"

definition served_items :: "sp_task list \<Rightarrow> string set" where
  "served_items tasks = {i. Some i \<in> in_service ` set tasks}"

text \<open>
  \<open>sy_late\<close> is kept for the statement only: the items of the requests in service when the memory
  was cleared last.
\<close>

record 'c memory_sys =
  sy_shared :: "'c sp_shared"
  sy_requests :: "sp_task list"
  sy_late :: "string set"

inductive memory_step :: "'c mem_ops \<Rightarrow> 'c memory_sys \<Rightarrow> 'c memory_sys \<Rightarrow> bool" for ops where
  arrive: "memory_step ops s (s\<lparr>sy_requests := sy_requests s @ [Arrived req]\<rparr>)"
| go_on: "sy_requests s = pre @ task # post \<Longrightarrow>
     sp_task_step ops found task (sy_shared s) = Some (rest, sh) \<Longrightarrow>
     memory_step ops s
       \<lparr>sy_shared = sh, sy_requests = pre @ (case rest of None \<Rightarrow> [] | Some t \<Rightarrow> [t]) @ post,
        sy_late = (if sh_switching sh \<and> \<not> sh_switching (sy_shared s)
                   then served_items (sy_requests s) else sy_late s)\<rparr>"

definition fresh_memory :: "'c mem_ops \<Rightarrow> 'c memory_sys \<Rightarrow> bool" where
  "fresh_memory ops s \<longleftrightarrow>
     (\<forall>k. lru_peek ops k (sh_cache (sy_shared s)) = None) \<and> sh_active (sy_shared s) = None \<and>
     \<not> sh_switching (sy_shared s) \<and> sy_requests s = [] \<and> sy_late s = {}"

section \<open>A request alone\<close>

definition shared_part :: "'c sp_state \<Rightarrow> 'c sp_shared" where
  "shared_part s = \<lparr>sh_cache = sp_cache s, sh_active = active_item_id s, sh_switching = False\<rparr>"

fun run_alone ::
  "'c mem_ops \<Rightarrow> cache_entry option \<Rightarrow> nat \<Rightarrow> sp_task option \<Rightarrow> 'c sp_shared \<Rightarrow> sp_task option \<times> 'c sp_shared" where
  "run_alone ops found (Suc n) (Some task) s =
     (case sp_task_step ops found task s of
        None \<Rightarrow> (Some task, s)
      | Some (rest, t) \<Rightarrow> run_alone ops found n rest t)"
| "run_alone ops found n rest s = (rest, s)"

lemma shared_part_cong:
  "sp_cache s = sp_cache t \<Longrightarrow> active_item_id s = active_item_id t \<Longrightarrow> shared_part s = shared_part t"
  by (simp add: shared_part_def)

lemma run_alone_looking:
  assumes "fst (lru_get ops (frame_key_of req) (sp_cache s)) = None"
  shows "run_alone ops found (Suc (Suc (Suc n))) (Some (Looking req)) (shared_part s) =
    (None, (shared_part s)\<lparr>sh_cache :=
       (let c = snd (lru_get ops (frame_key_of req) (sp_cache s))
        in case found of None \<Rightarrow> c | Some e \<Rightarrow> lru_put ops (frame_key_of req) e c)\<rparr>)"
proof -
  obtain c where "lru_get ops (frame_key_of req) (sp_cache s) = (None, c)"
    using assms by (cases "lru_get ops (frame_key_of req) (sp_cache s)") simp
  then show ?thesis by (cases found; cases n) (simp_all add: shared_part_def)
qed

text \<open>
  What the decoder or the disk adds to the memory on behalf of \<open>serve\<close>, if anything.
\<close>

lemma decode_shared:
  "\<exists>found. shared_part (decode_and_reply ops dec f req s) =
     (shared_part s)\<lparr>sh_cache := (case found of None \<Rightarrow> sp_cache s
        | Some e \<Rightarrow> lru_put ops (frame_key_of req) e (sp_cache s))\<rparr>"
proof -
  have n: "shared_part s = (shared_part s)\<lparr>sh_cache := (case None of None \<Rightarrow> sp_cache s
        | Some e \<Rightarrow> lru_put ops (frame_key_of req) e (sp_cache s))\<rparr>"
    by (simp add: shared_part_def)
  show ?thesis
  proof (cases "dec (req_path req) (pos_ms req) (req_width req)")
    case None
    then have "shared_part (decode_and_reply ops dec f req s) = shared_part s"
      by (simp add: decode_and_reply_def shared_part_def)
    with n show ?thesis by metis
  next
    case (Some r)
    show ?thesis
    proof (cases "compute_frame_idx (dr_pts_ms r) (dr_fps_num r) (dr_fps_den r)")
      case None
      with Some have "shared_part (decode_and_reply ops dec f req s) = shared_part s"
        by (simp add: decode_and_reply_def shared_part_def)
      with n show ?thesis by metis
    next
      case (Some fi)
      let ?e = "\<lparr>webp = dr_webp r,
        meta = \<lparr>actual_pts_ms = dr_pts_ms r, fps_num = dr_fps_num r, fps_den = dr_fps_den r\<rparr>\<rparr>"
      from Some \<open>dec _ _ _ = Some r\<close> show ?thesis
        by - (rule exI [of _ "Some ?e"],
            simp add: decode_and_reply_def shared_part_def frame_key_of_def Let_def)
    qed
  qed
qed

lemma serve_shared:
  "\<exists>found. \<forall>n. run_alone ops found (Suc (Suc (Suc n))) (Some (Looking req)) (shared_part s) =
     (None, shared_part (serve ops dec f req s))"
proof (cases "fst (lru_get ops (frame_key_of req) (sp_cache s))")
  case (Some e)
  then show ?thesis
    by (auto simp: serve_def frame_key_of_def shared_part_def Let_def split: prod.split)
next
  case None
  let ?c = "snd (lru_get ops (frame_key_of req) (sp_cache s))"
  have "\<exists>found. shared_part (serve ops dec f req s) =
      (shared_part s)\<lparr>sh_cache := (case found of None \<Rightarrow> ?c | Some e \<Rightarrow> lru_put ops (frame_key_of req) e ?c)\<rparr>"
  proof -
    let ?key = "(item_id req, pos_ms req, req_width req)"
    obtain c where g: "lru_get ops ?key (sp_cache s) = (None, c)"
      using None by (cases "lru_get ops ?key (sp_cache s)") (simp add: frame_key_of_def)
    have d: "\<exists>found. shared_part (decode_and_reply ops dec f req t) =
        (shared_part s)\<lparr>sh_cache := (case found of None \<Rightarrow> ?c | Some e \<Rightarrow> lru_put ops (frame_key_of req) e ?c)\<rparr>"
      if "sp_cache t = ?c" "active_item_id t = active_item_id s" for t
      using decode_shared [of ops dec f req t] that by (simp add: shared_part_def) metis
    obtain x d' where r: "dc_read (item_id req) (req_path req) (pos_ms req) (req_width req) (sp_disk s) = (x, d')"
      by force
    show ?thesis
    proof (cases "f \<and> x \<noteq> None")
      case True
      then obtain bytes where "f" "x = Some bytes" by auto
      then show ?thesis using g r
        by - (rule exI [of _ "Some \<lparr>webp = bytes, meta = \<lparr>actual_pts_ms = -1, fps_num = 0, fps_den = 1\<rparr>\<rparr>"],
            simp add: serve_def shared_part_def frame_key_of_def)
    next
      case False
      show ?thesis
      proof (cases "\<not> f \<and> dc_exists (item_id req) (req_path req) (pos_ms req) (req_width req) (sp_disk s)")
        case True
        then show ?thesis using g
          by - (rule exI [of _ None], simp add: serve_def shared_part_def frame_key_of_def)
      next
        case no: False
        have "serve ops dec f req s =
            decode_and_reply ops dec f req (if f then s\<lparr>sp_cache := c, sp_disk := d'\<rparr> else s\<lparr>sp_cache := c\<rparr>)"
          using g r False no by (auto simp: serve_def Let_def)
        then show ?thesis using d g by (simp add: frame_key_of_def)
      qed
    qed
  qed
  then show ?thesis
    using run_alone_looking [OF None] by (auto simp: Let_def)
qed

lemma arrive_alone:
  "\<exists>m. run_alone ops found (Suc (Suc n)) (Some (Arrived req)) (shared_part s) =
     run_alone ops found m (Some (Looking req)) (shared_part (evict_on_switch ops (item_id req) s)) \<and>
     m \<in> {n, Suc n}"
proof -
  let ?t = "evict_on_switch ops (item_id req) s"
  show ?thesis
  proof (cases "active_item_id s = None \<or> active_item_id s = Some (item_id req)")
    case True
    then have "sp_task_step ops found (Arrived req) (shared_part s) = Some (Some (Looking req), shared_part ?t)"
      by (auto simp: shared_part_def evict_on_switch_def)
    then show ?thesis by - (rule exI [of _ "Suc n"], simp del: sp_task_step.simps)
  next
    case False
    let ?m = "(shared_part s)\<lparr>sh_cache := lru_clear ops (sp_cache s), sh_switching := True\<rparr>"
    from False have "sp_task_step ops found (Arrived req) (shared_part s) = Some (Some (Switching req), ?m)"
      "sp_task_step ops found (Switching req) ?m = Some (Some (Looking req), shared_part ?t)"
      by (auto simp: shared_part_def evict_on_switch_def)
    then show ?thesis by - (rule exI [of _ n], simp del: sp_task_step.simps)
  qed
qed

text \<open>A request that runs undisturbed does to the memory what \<open>serve\<close> does.\<close>

lemma request_alone:
  "\<exists>found n. run_alone ops found n (Some (Arrived req)) (shared_part s) =
     (None, shared_part (serve ops dec f req (evict_on_switch ops (item_id req) s)))"
proof -
  obtain found where "run_alone ops found (Suc (Suc (Suc n))) (Some (Looking req))
      (shared_part (evict_on_switch ops (item_id req) s)) =
      (None, shared_part (serve ops dec f req (evict_on_switch ops (item_id req) s)))" for n
    using serve_shared by blast
  from this [of 0] this [of 1] arrive_alone [of ops found "Suc (Suc (Suc 0))" req s]
  show ?thesis by - (rule exI [of _ found], rule exI [of _ 5], auto simp: numeral_eq_Suc)
qed

section \<open>What the memory holds\<close>

text \<open>
  While the memory is not being switched, the frames it holds and those the requests in service
  may still put belong to the active item or to a late one; during a switch to late ones alone.
  One request at most is switching.
\<close>

definition memory_items :: "'c mem_ops \<Rightarrow> 'c sp_shared \<Rightarrow> string set" where
  "memory_items ops sh = {i. \<exists>pos w. lru_peek ops (i, pos, w) (sh_cache sh) \<noteq> None}"

definition good_items :: "'c memory_sys \<Rightarrow> string set" where
  "good_items s = sy_late s \<union>
     (if sh_switching (sy_shared s) then {} else {i. sh_active (sy_shared s) = Some i})"

fun is_switching :: "sp_task \<Rightarrow> bool" where
  "is_switching (Switching req) = True"
| "is_switching task = False"

definition memory_inv :: "'c mem_ops \<Rightarrow> 'c memory_sys \<Rightarrow> bool" where
  "memory_inv ops s \<longleftrightarrow>
     memory_items ops (sy_shared s) \<subseteq> good_items s \<and> served_items (sy_requests s) \<subseteq> good_items s \<and>
     length (filter is_switching (sy_requests s)) = (if sh_switching (sy_shared s) then 1 else 0)"

lemma served_items_simps [simp]:
  "served_items [] = {}"
  "served_items (task # tasks) = (case in_service task of None \<Rightarrow> {} | Some i \<Rightarrow> {i}) \<union> served_items tasks"
  "served_items (tasks @ tasks') = served_items tasks \<union> served_items tasks'"
  by (auto simp: served_items_def split: option.splits)

lemma memory_items_ops:
  assumes "lru_laws ops"
  shows "memory_items ops (sh\<lparr>sh_cache := lru_clear ops c, sh_switching := b\<rparr>) = {}"
    and "memory_items ops (sh\<lparr>sh_active := a\<rparr>) = memory_items ops sh"
    and "memory_items ops (sh\<lparr>sh_active := a, sh_switching := b\<rparr>) = memory_items ops sh"
    and "lru_get ops k (sh_cache sh) = (x, c') \<Longrightarrow> memory_items ops (sh\<lparr>sh_cache := c'\<rparr>) = memory_items ops sh"
  using lru_clear_peek [OF assms] lru_get_peek [OF assms] by (simp_all add: memory_items_def)

lemma memory_items_put:
  assumes "lru_laws ops"
  shows "memory_items ops (sh\<lparr>sh_cache := lru_put ops k e (sh_cache sh)\<rparr>) \<subseteq> insert (fst k) (memory_items ops sh)"
proof
  fix i assume "i \<in> memory_items ops (sh\<lparr>sh_cache := lru_put ops k e (sh_cache sh)\<rparr>)"
  then obtain pos w where "lru_peek ops (i, pos, w) (lru_put ops k e (sh_cache sh)) \<noteq> None"
    by (auto simp: memory_items_def)
  from lru_put_peek [OF assms this] show "i \<in> insert (fst k) (memory_items ops sh)"
    by (auto simp: memory_items_def)
qed

lemma memory_step_inv:
  assumes "lru_laws ops" and "memory_step ops s t" and "memory_inv ops s"
  shows "memory_inv ops t"
  using assms(2)
proof (cases rule: memory_step.cases)
  case (arrive req)
  with assms(3) show ?thesis by (cases "sh_switching (sy_shared s)") (simp_all add: memory_inv_def good_items_def)
next
  case (go_on pre task post found rest sh)
  note items = memory_items_ops [OF assms(1)]
  have inv: "memory_items ops (sy_shared s) \<subseteq> good_items s" "served_items (pre @ task # post) \<subseteq> good_items s"
    "length (filter is_switching (pre @ task # post)) = (if sh_switching (sy_shared s) then 1 else 0)"
    using assms(3) go_on(2) by (simp_all add: memory_inv_def)
  show ?thesis
  proof (cases task)
    case (Arrived req)
    with go_on inv show ?thesis
      by (auto simp: memory_inv_def good_items_def items split: if_splits)
  next
    case (Switching req)
    with go_on inv have "sh_switching (sy_shared s)" by (auto split: if_splits)
    with Switching go_on inv show ?thesis
      by (auto simp: memory_inv_def good_items_def items)
  next
    case (Looking req)
    obtain x c where g: "lru_get ops (frame_key_of req) (sh_cache (sy_shared s)) = (x, c)" by force
    with Looking go_on inv show ?thesis
      by (auto simp: memory_inv_def good_items_def items(4) [OF g] split: option.splits)
  next
    case (Missed req)
    with go_on inv show ?thesis
      by (auto simp: memory_inv_def good_items_def split: option.splits)
  next
    case (Fetched req e)
    with go_on have sh: "sh = (sy_shared s)\<lparr>sh_cache := lru_put ops (frame_key_of req) e (sh_cache (sy_shared s))\<rparr>"
      and r: "rest = None" by simp_all
    have "memory_items ops sh \<subseteq> good_items s"
      unfolding sh using memory_items_put [OF assms(1), where sh = "sy_shared s" and k = "frame_key_of req" and e = e]
        inv(1,2) Fetched by (auto simp: frame_key_of_def)
    moreover have "good_items t = good_items s"
      using go_on(1) sh by (simp add: good_items_def)
    ultimately show ?thesis
      using go_on(1) inv(2,3) Fetched r sh by (auto simp: memory_inv_def)
  qed
qed

lemma memory_run_inv:
  assumes "lru_laws ops" and "fresh_memory ops s" and "(memory_step ops)\<^sup>*\<^sup>* s t"
  shows "memory_inv ops t"
  using assms(3)
proof (induction rule: rtranclp_induct)
  case base
  with assms(2) show ?case by (simp add: fresh_memory_def memory_inv_def memory_items_def)
next
  case (step t u)
  then show ?case using memory_step_inv [OF assms(1)] by blast
qed

text \<open>
  C6: What the shared memory holds. Whatever requests arrive on any number of connections and
  however they interleave, every frame in the memory cache belongs to the active item, unless the
  memory is just being switched, or to an item of which a request was in service when the memory
  was last cleared: such a request puts its frame after the switch. If none was in service then,
  the memory holds the active item only.
\<close>

theorem memory_holds_active_item:
  assumes "lru_laws ops" and "fresh_memory ops s" and "(memory_step ops)\<^sup>*\<^sup>* s t"
    and "lru_peek ops k (sh_cache (sy_shared t)) \<noteq> None"
  shows "fst k \<in> sy_late t \<or> \<not> sh_switching (sy_shared t) \<and> sh_active (sy_shared t) = Some (fst k)"
proof -
  have "fst k \<in> memory_items ops (sy_shared t)"
    using assms(4) by (cases k) (auto simp: memory_items_def)
  then show ?thesis
    using memory_run_inv [OF assms(1-3)] by (auto simp: memory_inv_def good_items_def split: if_splits)
qed

section \<open>The property on a concrete run\<close>

definition demo_memory :: "(cache_key \<times> cache_entry) list memory_sys" where
  "demo_memory = \<lparr>sy_shared = \<lparr>sh_cache = [], sh_active = None, sh_switching = False\<rparr>, sy_requests = [], sy_late = {}\<rparr>"

definition demo_other :: request where
  "demo_other = (demo_req 1)\<lparr>item_id := replicate 32 CHR ''b''\<rparr>"

definition demo_late_frame :: cache_entry where
  "demo_late_frame = \<lparr>webp = [1], meta = \<lparr>actual_pts_ms = 0, fps_num = 24, fps_den = 1\<rparr>\<rparr>"

lemma memory_run_arrive:
  "(memory_step ops)\<^sup>*\<^sup>* s \<lparr>sy_shared = sh, sy_requests = ts, sy_late = l\<rparr> \<Longrightarrow>
     (memory_step ops)\<^sup>*\<^sup>* s \<lparr>sy_shared = sh, sy_requests = ts @ [Arrived req], sy_late = l\<rparr>"
  using memory_step.arrive [of ops "\<lparr>sy_shared = sh, sy_requests = ts, sy_late = l\<rparr>" req]
  by (auto intro: rtranclp.rtrancl_into_rtrancl)

lemma memory_run_go_on:
  assumes "(memory_step ops)\<^sup>*\<^sup>* s \<lparr>sy_shared = sh, sy_requests = us, sy_late = l\<rparr>"
    and "us = pre @ task # post" and "sp_task_step ops found task sh = Some (rest, sh')"
    and "l' = (if sh_switching sh' \<and> \<not> sh_switching sh then served_items us else l)"
    and "ts = pre @ (case rest of None \<Rightarrow> [] | Some t \<Rightarrow> [t]) @ post"
  shows "(memory_step ops)\<^sup>*\<^sup>* s \<lparr>sy_shared = sh', sy_requests = ts, sy_late = l'\<rparr>"
proof -
  have "memory_step ops \<lparr>sy_shared = sh, sy_requests = us, sy_late = l\<rparr>
      \<lparr>sy_shared = sh', sy_requests = ts, sy_late = l'\<rparr>"
    using memory_step.go_on [of "\<lparr>sy_shared = sh, sy_requests = us, sy_late = l\<rparr>" pre task post ops found rest sh']
      assms(2-5) by (cases "sh_switching sh' \<and> \<not> sh_switching sh") auto
  with assms(1) show ?thesis by (rule rtranclp.rtrancl_into_rtrancl)
qed

text \<open>
  A run in which the frame of the item before is put into the memory after the switch, so that
  the late items are needed.
\<close>

definition demo_late :: "(cache_key \<times> cache_entry) list memory_sys" where
  "demo_late =
     \<lparr>sy_shared = \<lparr>sh_cache = [(frame_key_of (demo_req 1), demo_late_frame)], sh_active = Some (item_id demo_other),
                   sh_switching = False\<rparr>,
      sy_requests = [Looking demo_other], sy_late = {item_id (demo_req 1)}\<rparr>"

lemma demo_late_run: "(memory_step (list_lru 20))\<^sup>*\<^sup>* demo_memory demo_late"
proof -
  let ?ops = "list_lru 20 :: (cache_key, cache_entry, (cache_key \<times> cache_entry) list) lru_ops"
  let ?r = "demo_req 1" and ?a = "Some (item_id (demo_req 1))" and ?b = "Some (item_id demo_other)"
  have ne: "item_id ?r \<noteq> item_id demo_other" by (simp add: demo_req_def demo_other_def)
  have "(memory_step ?ops)\<^sup>*\<^sup>* demo_memory
      \<lparr>sy_shared = \<lparr>sh_cache = [], sh_active = None, sh_switching = False\<rparr>, sy_requests = [Arrived ?r], sy_late = {}\<rparr>"
    using memory_run_arrive [of ?ops demo_memory _ "[]" _ ?r] by (simp add: demo_memory_def)
  then have "(memory_step ?ops)\<^sup>*\<^sup>* demo_memory
      \<lparr>sy_shared = \<lparr>sh_cache = [], sh_active = ?a, sh_switching = False\<rparr>, sy_requests = [Looking ?r], sy_late = {}\<rparr>"
    by (rule memory_run_go_on [where pre = "[]" and post = "[]" and found = None and task = "Arrived ?r"]) auto
  then have "(memory_step ?ops)\<^sup>*\<^sup>* demo_memory
      \<lparr>sy_shared = \<lparr>sh_cache = [], sh_active = ?a, sh_switching = False\<rparr>, sy_requests = [Missed ?r], sy_late = {}\<rparr>"
    by (rule memory_run_go_on [where pre = "[]" and post = "[]" and found = None and task = "Looking ?r"])
      (auto simp: list_lru_def)
  then have "(memory_step ?ops)\<^sup>*\<^sup>* demo_memory
      \<lparr>sy_shared = \<lparr>sh_cache = [], sh_active = ?a, sh_switching = False\<rparr>, sy_requests = [Fetched ?r demo_late_frame], sy_late = {}\<rparr>"
    by (rule memory_run_go_on [where pre = "[]" and post = "[]" and found = "Some demo_late_frame" and task = "Missed ?r"]) auto
  then have "(memory_step ?ops)\<^sup>*\<^sup>* demo_memory
      \<lparr>sy_shared = \<lparr>sh_cache = [], sh_active = ?a, sh_switching = False\<rparr>,
       sy_requests = [Fetched ?r demo_late_frame, Arrived demo_other], sy_late = {}\<rparr>"
    using memory_run_arrive [of ?ops demo_memory _ "[Fetched ?r demo_late_frame]" _ demo_other] by simp
  then have "(memory_step ?ops)\<^sup>*\<^sup>* demo_memory
      \<lparr>sy_shared = \<lparr>sh_cache = [], sh_active = ?a, sh_switching = True\<rparr>,
       sy_requests = [Fetched ?r demo_late_frame, Switching demo_other], sy_late = {item_id ?r}\<rparr>"
    by (rule memory_run_go_on [where pre = "[Fetched ?r demo_late_frame]" and post = "[]" and found = None and task = "Arrived demo_other"])
      (use ne in \<open>auto simp: list_lru_def\<close>)
  then have "(memory_step ?ops)\<^sup>*\<^sup>* demo_memory
      \<lparr>sy_shared = \<lparr>sh_cache = [], sh_active = ?b, sh_switching = False\<rparr>,
       sy_requests = [Fetched ?r demo_late_frame, Looking demo_other], sy_late = {item_id ?r}\<rparr>"
    by (rule memory_run_go_on [where pre = "[Fetched ?r demo_late_frame]" and post = "[]" and found = None and task = "Switching demo_other"]) auto
  then show ?thesis unfolding demo_late_def
    by (rule memory_run_go_on [where pre = "[]" and post = "[Looking demo_other]" and found = None and task = "Fetched ?r demo_late_frame"])
      (auto simp: list_lru_def)
qed

theorem memory_holds_active_item_witness:
  "\<exists>t. (memory_step (list_lru 20))\<^sup>*\<^sup>* demo_memory t \<and>
     lru_peek (list_lru 20) (frame_key_of (demo_req 1)) (sh_cache (sy_shared t)) \<noteq> None \<and>
     (item_id (demo_req 1) \<in> sy_late t \<or> sh_active (sy_shared t) = Some (item_id (demo_req 1)))"
proof -
  have m: "lru_peek (list_lru 20) (frame_key_of (demo_req 1)) (sh_cache (sy_shared demo_late)) \<noteq> None"
    by (simp add: demo_late_def list_lru_def)
  have "fresh_memory (list_lru 20) demo_memory"
    by (simp add: fresh_memory_def demo_memory_def list_lru_def)
  from memory_holds_active_item [OF demo_laws this demo_late_run m] m demo_late_run show ?thesis
    by - (rule exI [of _ demo_late], auto simp: frame_key_of_def)
qed

end
