(* ===== verification/Float_Model.thy ===== *)
theory Float_Model
  imports Rust_Prelude
begin

text \<open>
  Floating-point arithmetic of the Rust source: \<^verbatim>\<open>f64\<close> (and \<^verbatim>\<open>f32\<close>) values as rationals with
  infinities and NaN, every operation rounded to nearest, ties to even, on the grid of the format,
  and the saturating \<^verbatim>\<open>as\<close> casts to integers. The sign of zero is not kept: the source never divides
  by a zero it has not excluded nor looks at the sign of one.
\<close>

section \<open>Values and rounding\<close>

datatype fl = Fin rat | PInf | NInf | NaN

fun bitlen :: "nat \<Rightarrow> nat" where
  "bitlen n = (if n = 0 then 0 else Suc (bitlen (n div 2)))"

declare bitlen.simps [simp del]

text \<open>The exponent of a non-zero value: \<open>2 powi expo x \<le> \<bar>x\<bar> < 2 powi (expo x + 1)\<close>.\<close>

definition expo :: "rat \<Rightarrow> int" where
  "expo x =
     (let (p, q) = quotient_of \<bar>x\<bar>; e = int (bitlen (nat p)) - int (bitlen (nat q))
      in if 2 powi e \<le> \<bar>x\<bar> then e else e - 1)"

text \<open>Round half to even.\<close>

definition rne :: "rat \<Rightarrow> int" where
  "rne x =
     (let f = \<lfloor>x\<rfloor>; d = x - of_int f
      in if d < 1 / 2 then f else if 1 / 2 < d then f + 1 else if even f then f else f + 1)"

text \<open>A format: precision, least exponent and greatest exponent.\<close>

definition grid :: "nat \<Rightarrow> int \<Rightarrow> rat \<Rightarrow> rat" where
  "grid prec emin x = 2 powi (max (expo x) emin - int (prec - 1))"

definition round_val :: "nat \<Rightarrow> int \<Rightarrow> rat \<Rightarrow> rat" where
  "round_val prec emin x =
     (if x = 0 then 0 else of_int (rne (x / grid prec emin x)) * grid prec emin x)"

definition round_fl :: "nat \<Rightarrow> int \<Rightarrow> nat \<Rightarrow> rat \<Rightarrow> fl" where
  "round_fl prec emin emax x =
     (let y = round_val prec emin x
      in if 2 ^ emax \<le> y then PInf else if y \<le> - (2 ^ emax) then NInf else Fin y)"

definition round64 :: "rat \<Rightarrow> fl" where
  "round64 = round_fl 53 (-1022) 1024"

definition round32 :: "rat \<Rightarrow> fl" where
  "round32 = round_fl 24 (-126) 128"

section \<open>Operations\<close>

definition f_of_int :: "int \<Rightarrow> fl" where
  "f_of_int i = round64 (of_int i)"

definition fl_sign :: "rat \<Rightarrow> fl" where
  "fl_sign x = (if 0 < x then PInf else if x < 0 then NInf else NaN)"

fun f_mul :: "fl \<Rightarrow> fl \<Rightarrow> fl" where
  "f_mul (Fin a) (Fin b) = round64 (a * b)"
| "f_mul NaN _ = NaN"
| "f_mul _ NaN = NaN"
| "f_mul PInf (Fin b) = fl_sign b"
| "f_mul NInf (Fin b) = fl_sign (- b)"
| "f_mul (Fin a) PInf = fl_sign a"
| "f_mul (Fin a) NInf = fl_sign (- a)"
| "f_mul PInf PInf = PInf"
| "f_mul NInf NInf = PInf"
| "f_mul PInf NInf = NInf"
| "f_mul NInf PInf = NInf"

text \<open>Division by a finite value; a zero divisor is taken as positive zero.\<close>

fun f_div :: "fl \<Rightarrow> fl \<Rightarrow> fl" where
  "f_div (Fin a) (Fin b) = (if b = 0 then fl_sign a else round64 (a / b))"
| "f_div (Fin a) PInf = Fin 0"
| "f_div (Fin a) NInf = Fin 0"
| "f_div PInf (Fin b) = (if b < 0 then NInf else PInf)"
| "f_div NInf (Fin b) = (if b < 0 then PInf else NInf)"
| "f_div _ _ = NaN"

text \<open>\<^verbatim>\<open>as i64\<close>, \<^verbatim>\<open>as u32\<close>: towards zero, saturating, NaN to 0.\<close>

definition trunc :: "rat \<Rightarrow> int" where
  "trunc x = (if 0 \<le> x then \<lfloor>x\<rfloor> else \<lceil>x\<rceil>)"

fun f_to_i64 :: "fl \<Rightarrow> int" where
  "f_to_i64 (Fin x) = clamp_i64 (trunc x)"
| "f_to_i64 PInf = i64_max"
| "f_to_i64 NInf = i64_min"
| "f_to_i64 NaN = 0"

text \<open>\<^verbatim>\<open>f64::from_bits\<close> and \<^verbatim>\<open>f64::round\<close> (half away from zero; the result is always representable).\<close>

definition f64_of_bits :: "nat \<Rightarrow> fl" where
  "f64_of_bits b =
     (let neg = (b div 2 ^ 63) mod 2 = 1; e = (b div 2 ^ 52) mod 2 ^ 11; m = b mod 2 ^ 52;
          v = (if e = 0 then of_nat m * 2 powi (- 1074) else of_nat (2 ^ 52 + m) * 2 powi (int e - 1075))
      in if e = 2047 then (if m \<noteq> 0 then NaN else if neg then NInf else PInf)
         else Fin (if neg then - v else v))"

fun f_round :: "fl \<Rightarrow> fl" where
  "f_round (Fin x) = Fin (if 0 \<le> x then of_int \<lfloor>x + 1 / 2\<rfloor> else - of_int \<lfloor>- x + 1 / 2\<rfloor>)"
| "f_round y = y"

fun f_to_u32 :: "fl \<Rightarrow> nat" where
  "f_to_u32 (Fin x) = nat (max 0 (min (int u32_max) (trunc x)))"
| "f_to_u32 PInf = u32_max"
| "f_to_u32 NInf = 0"
| "f_to_u32 NaN = 0"

section \<open>The exponent\<close>

lemma bitlen_bounds: "0 < n \<Longrightarrow> 2 ^ (bitlen n - 1) \<le> n \<and> n < 2 ^ bitlen n \<and> 0 < bitlen n"
proof (induction n rule: bitlen.induct)
  case (1 n)
  show ?case
  proof (cases "n = 1")
    case True
    then show ?thesis by (simp add: bitlen.simps)
  next
    case False
    with "1.prems" have h: "0 < n div 2" and n: "bitlen n = Suc (bitlen (n div 2))"
      by (auto simp: bitlen.simps [of n])
    from "1.IH" h "1.prems" have b: "2 ^ (bitlen (n div 2) - 1) \<le> n div 2" "n div 2 < 2 ^ bitlen (n div 2)" "0 < bitlen (n div 2)"
      by auto
    have "2 ^ bitlen (n div 2) = 2 * (2 :: nat) ^ (bitlen (n div 2) - 1)"
      using b(3) by (simp flip: power_Suc)
    with b n show ?thesis by (auto; linarith)
  qed
qed

lemma powi_pos [simp]: "0 < (2 :: rat) powi e"
  by simp

lemma powi_step: "(2 :: rat) powi (e + 1) = 2 * 2 powi e"
  by (simp add: power_int_add)

lemma powi_mono: "a \<le> b \<Longrightarrow> (2 :: rat) powi a \<le> 2 powi b"
  by (rule power_int_increasing) auto

lemma powi_mono_strict: "a < b \<Longrightarrow> (2 :: rat) powi a < 2 powi b"
  by (rule power_int_strict_increasing) auto

lemma expo_bounds:
  assumes "x \<noteq> 0"
  shows "2 powi expo x \<le> \<bar>x\<bar> \<and> \<bar>x\<bar> < 2 powi (expo x + 1)"
proof -
  obtain p q where pq: "quotient_of \<bar>x\<bar> = (p, q)" by force
  have q: "0 < q" using quotient_of_denom_pos [OF pq] .
  have x: "\<bar>x\<bar> = of_int p / of_int q" using quotient_of_div [OF pq] .
  have p: "0 < p"
  proof -
    from assms x q have "0 < (of_int p :: rat) / of_int q" by simp
    with q show ?thesis by (simp add: zero_less_divide_iff)
  qed
  define a b where "a = bitlen (nat p)" and "b = bitlen (nat q)"
  have A: "2 ^ (a - 1) \<le> nat p" "nat p < 2 ^ a" "0 < a"
    and B: "2 ^ (b - 1) \<le> nat q" "nat q < 2 ^ b" "0 < b"
    using bitlen_bounds [of "nat p"] bitlen_bounds [of "nat q"] p q by (simp_all add: a_def b_def)
  have rat_le: "(2 :: rat) ^ k \<le> of_int z" if "2 ^ k \<le> nat z" "0 < z" for k z
  proof -
    from that have "(2 :: int) ^ k \<le> z" by (simp add: nat_le_iff le_nat_iff flip: of_nat_power)
    then show ?thesis by (metis of_int_le_iff of_int_power of_int_numeral)
  qed
  have rat_lt: "of_int z < (2 :: rat) ^ k" if "nat z < 2 ^ k" "0 < z" for k z
  proof -
    from that have "z < (2 :: int) ^ k" by (simp add: nat_less_iff flip: of_nat_power)
    then show ?thesis by (metis of_int_less_iff of_int_power of_int_numeral)
  qed
  have P: "(2 :: rat) ^ (a - 1) \<le> of_int p" "of_int p < (2 :: rat) ^ a"
    and Q: "(2 :: rat) ^ (b - 1) \<le> of_int q" "of_int q < (2 :: rat) ^ b"
    using rat_le [OF A(1) p] rat_lt [OF A(2) p] rat_le [OF B(1) q] rat_lt [OF B(2) q] by auto
  have up: "\<bar>x\<bar> < 2 powi (int a - int b + 1)"
  proof -
    have "\<bar>x\<bar> < 2 ^ a / 2 ^ (b - 1)"
      unfolding x using P Q p by (intro frac_less) auto
    also have "2 ^ a / 2 ^ (b - 1) = (2 :: rat) powi (int a - int b + 1)"
      using B(3) by (simp add: power_int_diff power_int_add of_nat_diff flip: power_int_of_nat)
    finally show ?thesis .
  qed
  have low: "2 powi (int a - int b - 1) < \<bar>x\<bar>"
  proof -
    have "2 powi (int a - int b - 1) = (2 :: rat) ^ (a - 1) / 2 ^ b"
      using A(3) by (simp add: power_int_diff of_nat_diff flip: power_int_of_nat)
    also have "\<dots> < \<bar>x\<bar>"
      unfolding x using P Q q by (intro frac_less2) auto
    finally show ?thesis .
  qed
  have e: "expo x = (if 2 powi (int a - int b) \<le> \<bar>x\<bar> then int a - int b else int a - int b - 1)"
    by (simp add: expo_def pq a_def b_def Let_def)
  show ?thesis using up low unfolding e by auto
qed

lemma expo_unique: "2 powi e \<le> \<bar>x\<bar> \<Longrightarrow> \<bar>x\<bar> < 2 powi (e + 1) \<Longrightarrow> expo x = e"
proof -
  assume b: "2 powi e \<le> \<bar>x\<bar>" "\<bar>x\<bar> < 2 powi (e + 1)"
  have "0 < \<bar>x\<bar>" by (rule less_le_trans [OF powi_pos b(1)])
  then have "x \<noteq> 0" by simp
  then have c: "2 powi expo x \<le> \<bar>x\<bar>" "\<bar>x\<bar> < 2 powi (expo x + 1)" using expo_bounds by auto
  have "e < expo x + 1" "expo x < e + 1"
    using b c powi_mono [of "expo x + 1" e] powi_mono [of "e + 1" "expo x"] by force+
  then show ?thesis by simp
qed

lemma expo_mono: "0 < x \<Longrightarrow> x \<le> y \<Longrightarrow> expo x \<le> expo y"
proof -
  assume "0 < x" "x \<le> y"
  then have "2 powi expo x \<le> x" "y < 2 powi (expo y + 1)"
    using expo_bounds [of x] expo_bounds [of y] by auto
  with \<open>x \<le> y\<close> have "(2 :: rat) powi expo x < 2 powi (expo y + 1)" by simp
  then have "\<not> expo y + 1 \<le> expo x" using powi_mono [of "expo y + 1" "expo x"] by auto
  then show ?thesis by simp
qed

section \<open>Rounding\<close>

lemma rne_bounds: "\<bar>of_int (rne x) - x\<bar> \<le> 1 / 2"
proof -
  have "of_int \<lfloor>x\<rfloor> \<le> x" "x < of_int \<lfloor>x\<rfloor> + 1" using floor_correct [of x] by auto
  then show ?thesis by (simp add: rne_def Let_def abs_le_iff; linarith)
qed

lemma rne_int [simp]: "rne (of_int n) = n"
  by (simp add: rne_def)

lemma rne_floor: "rne x = \<lfloor>x\<rfloor> \<or> rne x = \<lfloor>x\<rfloor> + 1"
  by (simp add: rne_def Let_def)

lemma rne_mono: "x \<le> y \<Longrightarrow> rne x \<le> rne y"
proof (cases "\<lfloor>x\<rfloor> = \<lfloor>y\<rfloor>")
  case True
  assume "x \<le> y"
  with True show ?thesis by (auto simp: rne_def Let_def)
next
  case False
  assume "x \<le> y"
  with False have "\<lfloor>x\<rfloor> + 1 \<le> \<lfloor>y\<rfloor>" using floor_mono [of x y] by linarith
  then show ?thesis using rne_floor [of x] rne_floor [of y] by linarith
qed

lemma rne_zero [simp]: "rne 0 = 0"
  using rne_int [of 0] by simp

lemma grid_pos: "0 < grid prec emin x"
  by (simp add: grid_def)

lemma round_val_zero [simp]: "round_val prec emin 0 = 0"
  by (simp add: round_val_def)

lemma rne_minus: "rne (- x) = - rne x"
proof (cases "x = of_int \<lfloor>x\<rfloor>")
  case True
  then show ?thesis by (metis of_int_minus rne_int)
next
  case False
  then have "\<lfloor>- x\<rfloor> = - \<lfloor>x\<rfloor> - 1"
    by (metis ceiling_altdef ceiling_def diff_minus_eq_add minus_add_distrib minus_diff_eq minus_minus uminus_add_conv_diff)
  then show ?thesis by (auto simp: rne_def Let_def)
qed

lemma expo_minus [simp]: "expo (- x) = expo x"
  by (simp add: expo_def)

lemma round_val_minus: "round_val prec emin (- x) = - round_val prec emin x"
  by (simp add: round_val_def grid_def rne_minus)

text \<open>Within a binade rounding is monotone; a power of two above the value bounds its rounding.\<close>

lemma round_val_power_le:
  assumes "0 < prec" and "emin \<le> e" and "0 < x" and "x \<le> 2 powi e"
  shows "round_val prec emin x \<le> 2 powi e"
proof -
  let ?g = "grid prec emin x"
  define k where "k = nat (e - (max (expo x) emin - int (prec - 1)))"
  have "expo x \<le> e"
    using expo_mono [OF assms(3,4)] expo_unique [of e "2 powi e"] by (simp add: powi_step)
  then have "max (expo x) emin \<le> e" using assms(2) by simp
  then have "e = (max (expo x) emin - int (prec - 1)) + int k"
    unfolding k_def by linarith
  then have "2 powi e = ?g * 2 powi int k" by (metis grid_def power_int_add zero_neq_numeral)
  then have p: "2 powi e = of_int (2 ^ k) * ?g" by simp
  have "x / ?g \<le> of_int (2 ^ k)"
    using assms(4) p grid_pos by (simp add: pos_divide_le_eq)
  then have "rne (x / ?g) \<le> 2 ^ k" using rne_mono rne_int by metis
  then have "of_int (rne (x / ?g)) \<le> (of_int (2 ^ k) :: rat)" by (simp only: of_int_le_iff)
  then have "of_int (rne (x / ?g)) * ?g \<le> of_int (2 ^ k) * ?g"
    using grid_pos [of prec emin x] by (intro mult_right_mono) auto
  then show ?thesis using p assms(3) by (simp add: round_val_def)
qed

lemma round_val_power_ge:
  assumes "0 < prec" and "emin \<le> e" and "2 powi e \<le> x"
  shows "2 powi e \<le> round_val prec emin x"
proof -
  let ?g = "grid prec emin x"
  have x: "0 < x" by (rule less_le_trans [OF powi_pos assms(3)])
  have ex: "e \<le> expo x"
    using expo_mono [OF powi_pos assms(3)] expo_unique [of e "2 powi e"] by (simp add: powi_step)
  have le: "2 powi expo x \<le> x" using expo_bounds [of x] x by simp
  define k where "k = nat (expo x - (max (expo x) emin - int (prec - 1)))"
  have "max (expo x) emin \<le> expo x" using assms(2) ex by simp
  then have "expo x = (max (expo x) emin - int (prec - 1)) + int k"
    unfolding k_def by linarith
  then have "2 powi expo x = ?g * 2 powi int k" by (metis grid_def power_int_add zero_neq_numeral)
  then have p: "2 powi expo x = of_int (2 ^ k) * ?g" by simp
  have "of_int (2 ^ k) \<le> x / ?g"
    using le p grid_pos by (simp add: pos_le_divide_eq)
  then have "2 ^ k \<le> rne (x / ?g)" using rne_mono rne_int by metis
  then have "(of_int (2 ^ k) :: rat) \<le> of_int (rne (x / ?g))" by (simp only: of_int_le_iff)
  then have "of_int (2 ^ k) * ?g \<le> of_int (rne (x / ?g)) * ?g"
    using grid_pos [of prec emin x] by (intro mult_right_mono) auto
  then have "2 powi expo x \<le> round_val prec emin x" using p x by (simp add: round_val_def)
  with powi_mono [OF ex] show ?thesis by simp
qed

lemma round_val_nonneg: "0 \<le> x \<Longrightarrow> 0 \<le> round_val prec emin x"
  using rne_mono [of 0 "x / grid prec emin x"] grid_pos [of prec emin x]
  by (simp add: round_val_def)

lemma round_val_mono_pos:
  assumes "0 < prec" and "0 < x" and "x \<le> y"
  shows "round_val prec emin x \<le> round_val prec emin y"
proof (cases "max (expo x) emin = max (expo y) emin")
  case True
  then have g: "grid prec emin x = grid prec emin y" by (simp add: grid_def)
  have "rne (x / grid prec emin y) \<le> rne (y / grid prec emin y)"
    using assms(3) grid_pos [of prec emin y] by (intro rne_mono divide_right_mono) auto
  then show ?thesis
    using assms grid_pos [of prec emin y] by (simp add: round_val_def g mult_right_mono)
next
  case False
  have "expo x \<le> expo y" by (rule expo_mono [OF assms(2,3)])
  with False have e: "emin \<le> expo y" "max (expo x) emin < expo y" by auto
  have "x \<le> 2 powi (expo x + 1)" using expo_bounds [of x] assms(2) by simp
  also have "\<dots> \<le> 2 powi expo y" using e by (intro powi_mono) simp
  finally have "round_val prec emin x \<le> 2 powi expo y"
    by (rule round_val_power_le [OF assms(1) e(1) assms(2)])
  also have "\<dots> \<le> round_val prec emin y"
    using expo_bounds [of y] assms by (intro round_val_power_ge [OF assms(1) e(1)]) auto
  finally show ?thesis .
qed

lemma round_val_mono:
  assumes "0 < prec" and "x \<le> y"
  shows "round_val prec emin x \<le> round_val prec emin y"
proof -
  consider "0 < x" | "x \<le> 0" "0 \<le> y" | "y < 0" by linarith
  then show ?thesis
  proof cases
    case 1
    then show ?thesis using round_val_mono_pos assms by blast
  next
    case 2
    then have "round_val prec emin x \<le> 0"
      using round_val_nonneg [of "- x" prec emin] by (simp add: round_val_minus)
    with round_val_nonneg [OF 2(2), of prec emin] show ?thesis by linarith
  next
    case 3
    then have "round_val prec emin (- y) \<le> round_val prec emin (- x)"
      using assms by (intro round_val_mono_pos) auto
    then show ?thesis by (simp add: round_val_minus)
  qed
qed

text \<open>An integer below \<open>2 ^ prec\<close> is represented exactly.\<close>

lemma round_val_int:
  assumes "0 < prec" and "emin \<le> 0" and "\<bar>n\<bar> < 2 ^ prec"
  shows "round_val prec emin (of_int n) = of_int n"
proof (cases "n = 0")
  case True
  then show ?thesis by simp
next
  case False
  let ?x = "of_int n :: rat"
  have x: "?x \<noteq> 0" using False by simp
  have "\<bar>?x\<bar> < 2 powi int prec"
    using assms(3) by (metis of_int_abs of_int_less_iff of_int_numeral of_int_power power_int_of_nat)
  then have "(2 :: rat) powi expo ?x < 2 powi int prec" using expo_bounds [OF x] by linarith
  then have ub: "expo ?x \<le> int (prec - 1)"
    using powi_mono [of "int prec" "expo ?x"] assms(1) by (cases "int prec \<le> expo ?x") auto
  have "1 \<le> \<bar>?x\<bar>" using False by (metis of_int_1 of_int_abs of_int_le_iff zero_less_abs_iff zless_imp_add1_zle add_0)
  then have "(2 :: rat) powi 0 < 2 powi (expo ?x + 1)" using expo_bounds [OF x] by simp
  then have lb: "0 \<le> expo ?x"
    using powi_mono [of "expo ?x + 1" 0] by (cases "0 \<le> expo ?x") auto
  define k where "k = nat (int (prec - 1) - expo ?x)"
  have "max (expo ?x) emin - int (prec - 1) = - int k" using assms(2) ub lb by (simp add: k_def)
  then have g: "grid prec emin ?x = 1 / 2 ^ k" by (simp add: grid_def power_int_minus divide_inverse)
  then have "?x / grid prec emin ?x = of_int (n * 2 ^ k)" by simp
  then have "rne (?x / grid prec emin ?x) = n * 2 ^ k" by (simp only: rne_int)
  then show ?thesis using x by (simp add: round_val_def g)
qed

end
