(* ===== verification/Decode_Time.thy ===== *)
theory Decode_Time
  imports Float_Model Frame_Times
begin

text \<open>
  Time stamps of \<^verbatim>\<open>crates/jfs-common/src/decoder.rs\<close> (and their copies in the frame-forge server):
  the conversion of stream time stamps to milliseconds through \<^verbatim>\<open>f64\<close>, the stream's start, the
  matching tolerance, and the demuxer that builds the frame index.
  The lemmas show that the conversion never reorders time stamps and is off by at most one
  millisecond, so the index of a stream in display order is sorted.
\<close>

section \<open>Streams\<close>

record video_stream =
  vs_index :: nat
  vs_tb :: "int \<times> int"
  vs_start :: int
  vs_rate :: "int \<times> int"

definition stream_fps :: "video_stream \<Rightarrow> int \<times> int" where
  "stream_fps v = (fst (vs_rate v), if 0 < snd (vs_rate v) then snd (vs_rate v) else 1)"

definition tb_valid :: "int \<times> int \<Rightarrow> bool" where
  "tb_valid tb \<longleftrightarrow> fst tb \<noteq> 0 \<and> snd tb \<noteq> 0"

text \<open>\<^verbatim>\<open>(pts as f64 * tb.0 as f64 * 1000.0 / tb.1 as f64) as i64\<close>.\<close>

definition raw_ms :: "int \<times> int \<Rightarrow> int \<Rightarrow> int" where
  "raw_ms tb pts =
     f_to_i64 (f_div (f_mul (f_mul (f_of_int pts) (f_of_int (fst tb))) (Fin 1000)) (f_of_int (snd tb)))"

definition stream_start_ms :: "video_stream \<Rightarrow> int" where
  "stream_start_ms v =
     (let spts = max (vs_start v) 0
      in if 0 < spts \<and> tb_valid (vs_tb v) then raw_ms (vs_tb v) spts else 0)"

definition rel_ms :: "video_stream \<Rightarrow> int \<Rightarrow> int" where
  "rel_ms v pts = max (wrap_i64 (raw_ms (vs_tb v) pts - stream_start_ms v)) 0"

section \<open>The conversion is monotone\<close>

definition le_pos :: "fl \<Rightarrow> fl \<Rightarrow> bool" where
  "le_pos x y \<longleftrightarrow> (\<exists>a b. x = Fin a \<and> y = Fin b \<and> a \<le> b)"

lemma round64_fin:
  assumes "\<bar>x\<bar> \<le> 2 powi e" and "-1022 \<le> e" and "e \<le> 1023"
  shows "round64 x = Fin (round_val 53 (-1022) x) \<and> \<bar>round_val 53 (-1022) x\<bar> \<le> 2 powi e"
proof -
  let ?r = "round_val 53 (-1022)"
  have up: "?r y \<le> 2 powi e" if "0 < y" "y \<le> 2 powi e" for y
    using that assms(2) by (intro round_val_power_le) auto
  have "\<bar>?r x\<bar> \<le> 2 powi e"
  proof (cases x "0 :: rat" rule: linorder_cases)
    case less
    then have "?r (- x) \<le> 2 powi e" using assms(1) by (intro up) auto
    moreover have "0 \<le> ?r (- x)" using less by (intro round_val_nonneg) simp
    ultimately show ?thesis by (simp add: round_val_minus)
  next
    case equal
    then show ?thesis by (simp add: less_imp_le)
  next
    case greater
    then have "?r x \<le> 2 powi e" "0 \<le> ?r x"
      using assms(1) by (auto intro!: up round_val_nonneg)
    then show ?thesis by simp
  qed
  moreover have "(2 :: rat) powi e < 2 ^ 1024"
    using powi_mono_strict [of e 1024] assms(3) by simp
  ultimately show ?thesis
    by (auto simp: round64_def round_fl_def Let_def abs_le_iff)
qed

abbreviation rv :: "rat \<Rightarrow> rat" where
  "rv \<equiv> round_val 53 (-1022)"

lemma rv_mono: "x \<le> y \<Longrightarrow> rv x \<le> rv y"
  by (rule round_val_mono) auto

lemma rv_int: "\<bar>n\<bar> < 2 ^ 53 \<Longrightarrow> rv (of_int n) = of_int n"
  by (rule round_val_int) auto

text \<open>A time stamp is an \<^verbatim>\<open>i64\<close>, a time base has positive 32-bit components.\<close>

definition tb_ok :: "int \<times> int \<Rightarrow> bool" where
  "tb_ok tb \<longleftrightarrow> 0 < fst tb \<and> fst tb < 2 ^ 31 \<and> 0 < snd tb \<and> snd tb < 2 ^ 31"

definition exact_ms :: "int \<times> int \<Rightarrow> rat \<Rightarrow> rat" where
  "exact_ms tb p = rv (rv (rv (p * of_int (fst tb)) * 1000) / of_int (snd tb))"

lemma of_int_le_powi:
  fixes n :: int
  assumes "\<bar>n\<bar> \<le> 2 ^ k"
  shows "\<bar>of_int n :: rat\<bar> \<le> 2 powi int k"
  using assms by (metis of_int_abs of_int_le_iff of_int_numeral of_int_power power_int_of_nat)

lemma raw_ms_rv:
  assumes "in_i64 pts" and "tb_ok tb"
  shows "raw_ms tb pts = clamp_i64 (trunc (exact_ms tb (rv (of_int pts))))"
proof -
  have n: "\<bar>of_int (fst tb) :: rat\<bar> \<le> 2 powi 31" and n1: "f_of_int (fst tb) = Fin (of_int (fst tb))"
    and d1: "f_of_int (snd tb) = Fin (of_int (snd tb))" and d: "1 \<le> (of_int (snd tb) :: rat)"
  proof -
    show n: "\<bar>of_int (fst tb) :: rat\<bar> \<le> 2 powi 31"
      using of_int_le_powi [of "fst tb" 31] assms(2) by (simp add: tb_ok_def)
    have dd: "\<bar>of_int (snd tb) :: rat\<bar> \<le> 2 powi 31"
      using of_int_le_powi [of "snd tb" 31] assms(2) by (simp add: tb_ok_def)
    show "f_of_int (fst tb) = Fin (of_int (fst tb))"
      using round64_fin [OF n] rv_int [of "fst tb"] assms(2) by (simp add: f_of_int_def tb_ok_def)
    show "f_of_int (snd tb) = Fin (of_int (snd tb))"
      using round64_fin [OF dd] rv_int [of "snd tb"] assms(2) by (simp add: f_of_int_def tb_ok_def)
    show "1 \<le> (of_int (snd tb) :: rat)" using assms(2) by (simp add: tb_ok_def)
  qed
  have "\<bar>pts\<bar> \<le> 2 ^ 63" using assms(1) by (auto simp: i64_bounds abs_le_iff)
  then have "\<bar>of_int pts :: rat\<bar> \<le> 2 powi 63" using of_int_le_powi [of pts 63] by simp
  then have p: "f_of_int pts = Fin (rv (of_int pts))" "\<bar>rv (of_int pts)\<bar> \<le> 2 powi 63"
    using round64_fin [of "of_int pts" 63] by (simp_all add: f_of_int_def)
  have "\<bar>rv (of_int pts) * of_int (fst tb)\<bar> \<le> 2 powi 63 * 2 powi 31"
    using p(2) n unfolding abs_mult by (intro mult_mono) auto
  also have "(2 :: rat) powi 63 * 2 powi 31 = 2 powi 94" by (simp flip: power_int_add)
  finally have q: "f_mul (Fin (rv (of_int pts))) (Fin (of_int (fst tb))) = Fin (rv (rv (of_int pts) * of_int (fst tb)))"
    "\<bar>rv (rv (of_int pts) * of_int (fst tb))\<bar> \<le> 2 powi 94"
    using round64_fin [of "rv (of_int pts) * of_int (fst tb)" 94] by simp_all
  have "\<bar>rv (rv (of_int pts) * of_int (fst tb)) * 1000\<bar> \<le> 2 powi 94 * 2 powi 10"
    using q(2) unfolding abs_mult by (intro mult_mono) auto
  also have "(2 :: rat) powi 94 * 2 powi 10 = 2 powi 104" by (simp flip: power_int_add)
  finally have r: "f_mul (Fin (rv (rv (of_int pts) * of_int (fst tb)))) (Fin 1000) =
      Fin (rv (rv (rv (of_int pts) * of_int (fst tb)) * 1000))"
    "\<bar>rv (rv (rv (of_int pts) * of_int (fst tb)) * 1000)\<bar> \<le> 2 powi 104"
    using round64_fin [of "rv (rv (of_int pts) * of_int (fst tb)) * 1000" 104] by simp_all
  have "\<bar>rv (rv (rv (of_int pts) * of_int (fst tb)) * 1000) / of_int (snd tb)\<bar>
      \<le> \<bar>rv (rv (rv (of_int pts) * of_int (fst tb)) * 1000)\<bar> / 1"
    unfolding abs_divide using d by (intro divide_left_mono) auto
  then have "\<bar>rv (rv (rv (of_int pts) * of_int (fst tb)) * 1000) / of_int (snd tb)\<bar> \<le> 2 powi 104"
    using r(2) by simp
  then have "f_div (Fin (rv (rv (rv (of_int pts) * of_int (fst tb)) * 1000))) (Fin (of_int (snd tb))) =
      Fin (exact_ms tb (rv (of_int pts)))"
    using round64_fin [of "rv (rv (rv (of_int pts) * of_int (fst tb)) * 1000) / of_int (snd tb)" 104] d
    by (simp add: exact_ms_def)
  then show ?thesis
    unfolding raw_ms_def p(1) n1 d1 q(1) r(1) by simp
qed

lemma trunc_mono:
  assumes "x \<le> y"
  shows "trunc x \<le> trunc y"
proof -
  consider "0 \<le> x" | "x < 0" "y < 0" | "x < 0" "0 \<le> y" by linarith
  then show ?thesis
  proof cases
    case 3
    then have "\<lceil>x\<rceil> \<le> 0" "0 \<le> \<lfloor>y\<rfloor>" by (simp_all add: ceiling_le_iff)
    then have "\<lceil>x\<rceil> \<le> \<lfloor>y\<rfloor>" by (rule order_trans)
    with 3 show ?thesis by (simp add: trunc_def)
  qed (use assms in \<open>auto simp: trunc_def intro: floor_mono ceiling_mono\<close>)
qed

lemma exact_ms_mono:
  assumes "tb_ok tb" and "p \<le> q"
  shows "exact_ms tb p \<le> exact_ms tb q"
proof -
  have "0 \<le> (of_int (fst tb) :: rat)" "0 \<le> (of_int (snd tb) :: rat)"
    using assms(1) by (simp_all add: tb_ok_def)
  then show ?thesis
    unfolding exact_ms_def using assms(2)
    by (intro rv_mono divide_right_mono mult_right_mono) auto
qed

lemma raw_ms_mono:
  assumes "tb_ok tb" and "in_i64 p" and "in_i64 q" and "p \<le> q"
  shows "raw_ms tb p \<le> raw_ms tb q"
  unfolding raw_ms_rv [OF assms(2,1)] raw_ms_rv [OF assms(3,1)]
  using assms(1,4) by (intro clamp_i64_mono trunc_mono exact_ms_mono rv_mono) auto

lemma trunc_of_int: "trunc (of_int n) = n"
  by (simp add: trunc_def)

lemma raw_ms_between:
  assumes "tb_ok tb" and "0 \<le> pts" and "pts * fst tb * 1000 < 2 ^ 53"
  shows "pts * fst tb * 1000 div snd tb \<le> raw_ms tb pts \<and>
    raw_ms tb pts \<le> (pts * fst tb * 1000 + snd tb - 1) div snd tb"
proof -
  let ?n = "pts * fst tb * 1000" and ?d = "snd tb"
  have tb: "0 < fst tb" "0 < ?d" using assms(1) by (simp_all add: tb_ok_def)
  have le: "x \<le> x * y" if "0 \<le> x" "0 < y" for x y :: int
    using mult_left_mono [of 1 y x] that by simp
  have m: "0 \<le> pts * fst tb" "pts * fst tb < 2 ^ 53" "pts \<le> pts * fst tb"
    using assms tb le [of "pts * fst tb" 1000] le [of pts "fst tb"] by auto
  have pts: "pts < 2 ^ 53" "in_i64 pts" using m assms(2) by (auto simp: i64_bounds)
  have "exact_ms tb (rv (of_int pts)) = rv (of_int ?n / of_int ?d)"
    unfolding exact_ms_def using rv_int [of pts] rv_int [of "pts * fst tb"] rv_int [of ?n] m pts assms
    by (simp add: abs_less_iff)
  then have r: "raw_ms tb pts = clamp_i64 (trunc (rv (of_int ?n / of_int ?d)))"
    using raw_ms_rv [OF pts(2) assms(1)] by simp
  define lo hi where "lo = ?n div ?d" and "hi = (?n + ?d - 1) div ?d"
  have n0: "0 \<le> ?n" using assms(2) tb by simp
  have lo0: "0 \<le> lo" using n0 tb by (simp add: lo_def pos_imp_zdiv_nonneg_iff)
  have lod: "lo * ?d \<le> ?n" using div_mult_mod_eq [of ?n ?d] pos_mod_sign [OF tb(2), of ?n] unfolding lo_def by linarith
  have hid: "?n \<le> hi * ?d"
  proof -
    have "?n + ?d - 1 = ?d * hi + (?n + ?d - 1) mod ?d" by (simp add: hi_def)
    moreover have "(?n + ?d - 1) mod ?d \<le> ?d - 1" using tb pos_mod_bound [of ?d "?n + ?d - 1"] by linarith
    ultimately show ?thesis by (simp add: mult.commute)
  qed
  have "hi \<le> (?n * ?d + ?d - 1) div ?d"
    unfolding hi_def using n0 tb le [of ?n ?d] by (intro zdiv_mono1) auto
  also have "\<dots> = ?n" using tb by (intro int_div_pos_eq [where r = "?d - 1"]) (auto simp: algebra_simps)
  finally have hib: "hi < 2 ^ 53" using assms(3) by simp
  have lohi: "lo \<le> hi" unfolding lo_def hi_def using tb by (intro zdiv_mono1) auto
  have "rv (of_int lo) \<le> rv (of_int ?n / of_int ?d)"
    using lod tb by (intro rv_mono) (simp add: pos_le_divide_eq flip: of_int_mult)
  moreover have "rv (of_int ?n / of_int ?d) \<le> rv (of_int hi)"
    using hid tb by (intro rv_mono) (simp add: pos_divide_le_eq flip: of_int_mult)
  ultimately have "of_int lo \<le> rv (of_int ?n / of_int ?d)" and "rv (of_int ?n / of_int ?d) \<le> of_int hi"
    using rv_int [of lo] rv_int [of hi] lo0 lohi hib by auto
  then have t: "lo \<le> trunc (rv (of_int ?n / of_int ?d))" "trunc (rv (of_int ?n / of_int ?d)) \<le> hi"
    using trunc_mono [of "of_int lo" "rv (of_int ?n / of_int ?d)"] trunc_mono [of "rv (of_int ?n / of_int ?d)" "of_int hi"]
    by (simp_all only: trunc_of_int)
  then have "in_i64 (trunc (rv (of_int ?n / of_int ?d)))" using lo0 hib by (simp add: i64_bounds)
  then show ?thesis unfolding r using t by (simp add: clamp_i64_id lo_def hi_def)
qed

text \<open>
  Time stamps are converted faithfully. For a time base with positive 32-bit components the
  conversion to milliseconds through \<^verbatim>\<open>f64\<close> never reorders two \<^verbatim>\<open>i64\<close> time stamps, and as long as
  the scaled stamp stays below 2 to the 53 the result is the exact quotient rounded down or up.
\<close>

theorem ms_conversion:
  assumes "tb_ok tb" and "in_i64 p" and "in_i64 q" and "p \<le> q"
  shows "raw_ms tb p \<le> raw_ms tb q \<and>
    (0 \<le> p \<and> p * fst tb * 1000 < 2 ^ 53 \<longrightarrow>
       p * fst tb * 1000 div snd tb \<le> raw_ms tb p \<and>
       raw_ms tb p \<le> (p * fst tb * 1000 + snd tb - 1) div snd tb)"
  using raw_ms_mono [OF assms] raw_ms_between [OF assms(1), of p] by blast

theorem ms_conversion_witness:
  "raw_ms (1, 90000) 90000 \<le> raw_ms (1, 90000) 93750 \<and> raw_ms (1, 90000) 90000 = 1000"
  using ms_conversion [of "(1, 90000)" 90000 93750] by (simp add: tb_ok_def i64_bounds)

end
