(* ===== verification/Demux.thy ===== *)
theory Demux
  imports Decode_Time
begin

text \<open>
  The frame index: \<^verbatim>\<open>demux_frames\<close> and \<^verbatim>\<open>index_frames\<close> of \<^verbatim>\<open>crates/jfs-common/src/decoder.rs\<close>.

  The packets FFmpeg's demuxer returns and the codec parser (\<^verbatim>\<open>av_parser_parse2\<close>) are parameters: the parser
  takes a packet and its own state and returns the size of its output and the time stamp it corrected to.
\<close>

section \<open>Packets\<close>

record packet =
  pk_stream :: nat
  pk_pts :: "int option"
  pk_dts :: "int option"
  pk_key :: bool
  pk_data :: "byte list"

definition pkt_ts :: "packet \<Rightarrow> int" where
  "pkt_ts p = (case pk_pts p of Some t \<Rightarrow> t | None \<Rightarrow> (case pk_dts p of Some t \<Rightarrow> t | None \<Rightarrow> 0))"

type_synonym 'p parser = "packet \<Rightarrow> 'p \<Rightarrow> (nat \<times> int option) \<times> 'p"

section \<open>Demuxing\<close>

text \<open>The time of the frame number \<open>n\<close> stamped \<open>t\<close>, before the stream start is subtracted.\<close>

definition stamp_ms :: "video_stream \<Rightarrow> nat \<Rightarrow> int \<Rightarrow> int" where
  "stamp_ms v n t =
     (let (fps_num, fps_den) = stream_fps v
      in if tb_valid (vs_tb v) then raw_ms (vs_tb v) t
         else if 0 < fps_num then quot (wrap_i64 (int n * fps_den * 1000)) fps_num
         else wrap_i64 (int n * 42))"

definition parsed_ms :: "video_stream \<Rightarrow> nat \<Rightarrow> int \<Rightarrow> int" where
  "parsed_ms v n t = max (wrap_i64 (stamp_ms v n t - stream_start_ms v)) 0"

definition packet_ms :: "video_stream \<Rightarrow> nat \<Rightarrow> int \<Rightarrow> int" where
  "packet_ms v n t = (if tb_valid (vs_tb v) then rel_ms v t else stamp_ms v n t)"

text \<open>
  The loop, with the frames reported so far; \<open>None\<close> as the parser stands for a codec without one.
\<close>

fun demux_loop ::
  "video_stream \<Rightarrow> 'p parser option \<Rightarrow> packet list \<Rightarrow> 'p \<Rightarrow> (int \<times> bool) list \<Rightarrow> (int \<times> bool) list" where
  "demux_loop v pa [] st frames = frames"
| "demux_loop v pa (p # ps) st frames =
     (if pk_stream p \<noteq> vs_index v then demux_loop v pa ps st frames
      else case pa of
             None \<Rightarrow> demux_loop v pa ps st (frames @ [(packet_ms v (length frames) (pkt_ts p), pk_key p)])
           | Some parse \<Rightarrow>
               (let ((out_size, corrected), st) = parse p st
                in if out_size = 0 then demux_loop v pa ps st frames
                   else
                     (let t = (case corrected of Some c \<Rightarrow> c | None \<Rightarrow> pkt_ts p)
                      in demux_loop v pa ps st (frames @ [(parsed_ms v (length frames) t, pk_key p)]))))"

datatype demux_error = Cannot_Open | No_Video_Stream | No_Frames

definition demux_frames ::
  "video_stream option option \<Rightarrow> 'p parser option \<Rightarrow> 'p \<Rightarrow> packet list \<Rightarrow> demux_error + ((int \<times> bool) list \<times> int \<times> int)" where
  "demux_frames input pa st ps =
     (case input of
        None \<Rightarrow> Inl Cannot_Open
      | Some None \<Rightarrow> Inl No_Video_Stream
      | Some (Some v) \<Rightarrow>
          (let frames = demux_loop v pa ps st []
           in if frames = [] then Inl No_Frames else Inr (frames, stream_fps v)))"

text \<open>\<^verbatim>\<open>index_frames\<close> collects what \<^verbatim>\<open>demux_frames\<close> reports, in order.\<close>

definition index_frames ::
  "video_stream option option \<Rightarrow> 'p parser option \<Rightarrow> 'p \<Rightarrow> packet list \<Rightarrow> demux_error + ((int \<times> bool) list \<times> int \<times> int)" where
  "index_frames input pa st ps = demux_frames input pa st ps"

section \<open>The index of a stream in display order is sorted\<close>

text \<open>The time stamps the loop uses, in order.\<close>

fun used_stamps :: "video_stream \<Rightarrow> 'p parser option \<Rightarrow> packet list \<Rightarrow> 'p \<Rightarrow> int list" where
  "used_stamps v pa [] st = []"
| "used_stamps v pa (p # ps) st =
     (if pk_stream p \<noteq> vs_index v then used_stamps v pa ps st
      else case pa of
             None \<Rightarrow> pkt_ts p # used_stamps v pa ps st
           | Some parse \<Rightarrow>
               (let ((out_size, corrected), st) = parse p st
                in if out_size = 0 then used_stamps v pa ps st
                   else (case corrected of Some c \<Rightarrow> c | None \<Rightarrow> pkt_ts p) # used_stamps v pa ps st))"

lemma frame_ms_rel: "tb_valid (vs_tb v) \<Longrightarrow> parsed_ms v n t = rel_ms v t \<and> packet_ms v n t = rel_ms v t"
  by (simp add: parsed_ms_def packet_ms_def stamp_ms_def rel_ms_def split: prod.split)

lemma demux_loop_stamps:
  assumes "tb_valid (vs_tb v)"
  shows "map fst (demux_loop v pa ps st frames) = map fst frames @ map (rel_ms v) (used_stamps v pa ps st)"
proof (induction ps arbitrary: st frames)
  case Nil
  then show ?case by simp
next
  case (Cons p ps)
  then show ?case
    by (cases "pk_stream p = vs_index v"; cases pa)
      (simp_all add: frame_ms_rel [OF assms] Let_def split: prod.split)
qed

lemma rel_ms_mono:
  assumes "tb_ok (vs_tb v)" and "0 \<le> p" and "p \<le> q" and "in_i64 q" and "in_i64 (vs_start v)"
  shows "rel_ms v p \<le> rel_ms v q"
proof -
  have p: "in_i64 p" using assms by (simp add: i64_bounds)
  have le: "raw_ms (vs_tb v) p \<le> raw_ms (vs_tb v) q"
    using raw_ms_mono [OF assms(1) p assms(4,3)] .
  have in64: "in_i64 (raw_ms (vs_tb v) t)" if "in_i64 t" for t
    using raw_ms_rv [OF that assms(1)] by simp
  have nonneg: "0 \<le> raw_ms (vs_tb v) t" if "in_i64 t" "0 \<le> t" for t
  proof -
    have "raw_ms (vs_tb v) 0 \<le> raw_ms (vs_tb v) t"
      using raw_ms_mono [OF assms(1) _ that] by (simp add: i64_bounds)
    moreover have "raw_ms (vs_tb v) 0 = 0"
      using raw_ms_between [OF assms(1), of 0] assms(1) by (simp add: tb_ok_def)
    ultimately show ?thesis by simp
  qed
  have "in_i64 (max (vs_start v) 0)" using assms(5) by (auto simp: i64_bounds)
  then have s: "0 \<le> stream_start_ms v" "in_i64 (stream_start_ms v)"
    using nonneg [of "max (vs_start v) 0"] in64 [of "max (vs_start v) 0"]
    by (auto simp: stream_start_ms_def Let_def i64_bounds)
  have "in_i64 (raw_ms (vs_tb v) t - stream_start_ms v)" if "in_i64 t" "0 \<le> t" for t
    using s nonneg [OF that] in64 [OF that(1)] by (simp add: i64_bounds)
  with le p assms show ?thesis by (simp add: rel_ms_def wrap_i64_id)
qed

lemma sorted_map_mono_on:
  "sorted xs \<Longrightarrow> (\<And>x y. x \<in> set xs \<Longrightarrow> y \<in> set xs \<Longrightarrow> x \<le> y \<Longrightarrow> f x \<le> f y) \<Longrightarrow> sorted (map f xs)"
  by (induction xs) auto

text \<open>
  The frame index. When demuxing succeeds there is at least one frame and one entry per displayed
  packet, all times are non-negative, and if the time stamps used come in display order (non-negative,
  in a time base with positive 32-bit components) the index is sorted by time.
\<close>

theorem frame_index_sorted:
  assumes "index_frames (Some (Some v)) pa st ps = Inr (frames, num, den)"
    and "tb_ok (vs_tb v)" and "in_i64 (vs_start v)"
    and "sorted (used_stamps v pa ps st)"
    and "\<And>t. t \<in> set (used_stamps v pa ps st) \<Longrightarrow> 0 \<le> t \<and> in_i64 t"
  shows "frames \<noteq> [] \<and> length frames = length (used_stamps v pa ps st) \<and>
    list_all (\<lambda>(ms, key). 0 \<le> ms) frames \<and> sorted (map fst frames) \<and> 0 < den"
proof -
  have tb: "tb_valid (vs_tb v)" using assms(2) by (simp add: tb_ok_def tb_valid_def)
  from assms(1) have fr: "frames = demux_loop v pa ps st []" "frames \<noteq> []" "(num, den) = stream_fps v"
    by (simp_all add: index_frames_def demux_frames_def Let_def split: if_splits)
  then have m: "map fst frames = map (rel_ms v) (used_stamps v pa ps st)"
    using demux_loop_stamps [OF tb, of pa ps st "[]"] by simp
  have "length frames = length (used_stamps v pa ps st)"
    using arg_cong [OF m, of length] by simp
  moreover have "sorted (map fst frames)"
    unfolding m using assms by (intro sorted_map_mono_on rel_ms_mono) auto
  moreover have "list_all (\<lambda>ms. 0 \<le> ms) (map fst frames)"
    unfolding m by (simp add: list_all_iff rel_ms_def)
  then have "list_all (\<lambda>(ms, key). 0 \<le> ms) frames"
    by (auto simp: list_all_iff)
  moreover have "0 < den" using fr(3) by (simp add: stream_fps_def)
  ultimately show ?thesis using fr by simp
qed

definition demo_stream :: video_stream where
  "demo_stream = \<lparr>vs_index = 0, vs_tb = (1, 1000), vs_start = 40, vs_rate = (25, 1)\<rparr>"

definition demo_packets :: "packet list" where
  "demo_packets = [\<lparr>pk_stream = 0, pk_pts = Some 40, pk_dts = Some 0, pk_key = True, pk_data = []\<rparr>,
     \<lparr>pk_stream = 1, pk_pts = Some 3, pk_dts = None, pk_key = True, pk_data = []\<rparr>,
     \<lparr>pk_stream = 0, pk_pts = None, pk_dts = Some 80, pk_key = False, pk_data = []\<rparr>]"

theorem frame_index_sorted_witness:
  "\<exists>frames num den. index_frames (Some (Some demo_stream)) None () demo_packets = Inr (frames, num, den) \<and>
     length frames = 2 \<and> sorted (map fst frames)"
proof -
  obtain frames num den where r: "index_frames (Some (Some demo_stream)) (None :: unit parser option) () demo_packets = Inr (frames, num, den)"
    by (simp add: index_frames_def demux_frames_def demo_packets_def demo_stream_def stream_fps_def)
  have "used_stamps demo_stream (None :: unit parser option) demo_packets () = [40, 80]"
    by (simp add: demo_packets_def demo_stream_def pkt_ts_def)
  moreover have "tb_ok (vs_tb demo_stream)" "in_i64 (vs_start demo_stream)"
    by (simp_all add: demo_stream_def tb_ok_def i64_bounds)
  moreover have "0 \<le> t \<and> in_i64 t" if "t \<in> {40, 80}" for t :: int
    using that by (auto simp: i64_bounds)
  ultimately have "length frames = 2 \<and> sorted (map fst frames)"
    using frame_index_sorted [OF r] by simp
  with r show ?thesis by blast
qed

end
