(* ===== verification/Frame_Protocol.thy ===== *)
theory Frame_Protocol
  imports Wire
begin

text \<open>
  The binary protocol of the frame-forge daemon: \<^verbatim>\<open>crates/frame-forge/src/protocol.rs\<close>.
  Each request has its record and its reader, field by field in wire order with the same checks.
  \<^verbatim>\<open>f32\<close> and \<^verbatim>\<open>f64\<close> fields are kept as their bit patterns (\<open>nat\<close>).
  The encoders stand for the peer that writes the requests; the lemmas show that every reader
  reads back what was encoded, and that whatever arrives, no reader accepts a field beyond the caps.
\<close>

section \<open>Bounds and enumerations\<close>

definition max_str_field_len :: nat where "max_str_field_len = 2 ^ 20"
definition max_frame_count :: nat where "max_frame_count = 4096"

datatype device_strategy = Performance | Idle_Resource

definition strategy_of_u8 :: "nat \<Rightarrow> device_strategy" where
  "strategy_of_u8 v = (if v = 1 then Idle_Resource else Performance)"

record hw_flags =
  hw_decode_enabled :: bool
  device_strategy :: device_strategy

datatype anim_format = Gif | WebP | Mp4

definition format_of_u16 :: "nat \<Rightarrow> anim_format" where
  "format_of_u16 v = (if v = 2 then WebP else if v = 3 then Mp4 else Gif)"

definition is_webp :: "anim_format \<Rightarrow> bool" where
  "is_webp f \<longleftrightarrow> f = WebP"

datatype resize_mode = By_Width | By_Height

definition resize_of_u16 :: "nat \<Rightarrow> resize_mode" where
  "resize_of_u16 v = (if v = 2 then By_Height else By_Width)"

datatype resolution_preset = Original | P1080 | P720 | P480 | P360

definition preset_of_str :: "string \<Rightarrow> resolution_preset" where
  "preset_of_str s =
     (if s = ''1080p'' then P1080 else if s = ''720p'' then P720
      else if s = ''480p'' then P480 else if s = ''360p'' then P360 else Original)"

fun preset_px :: "resolution_preset \<Rightarrow> nat" where
  "preset_px P1080 = 1080"
| "preset_px P720 = 720"
| "preset_px P480 = 480"
| "preset_px P360 = 360"
| "preset_px Original = 0"

text \<open>\<^verbatim>\<open>x > 0.0\<close> on the bit pattern of an \<^verbatim>\<open>f32\<close>: sign clear, not zero, not a NaN.\<close>

definition f32_positive :: "nat \<Rightarrow> bool" where
  "f32_positive b \<longleftrightarrow> 0 < b \<and> b \<le> 0x7F800000"

section \<open>Field readers\<close>

definition read_u16_le :: "('z, nat) wire" where
  "read_u16_le = io_bind (read_exact 2) (\<lambda>b. io_ret (le_val b))"

definition read_flag :: "('z, bool) wire" where
  "read_flag = io_bind read_u8 (\<lambda>b. io_ret (b \<noteq> 0))"

text \<open>\<^verbatim>\<open>String::from_utf8(..).unwrap_or_default()\<close>.\<close>

definition text_or_default :: "byte list \<Rightarrow> string" where
  "text_or_default b = (case from_utf8 b of None \<Rightarrow> [] | Some t \<Rightarrow> t)"

definition read_item_id :: "('z, string) wire" where
  "read_item_id = io_bind (read_exact 32) (\<lambda>b. io_ret (text_or_default b))"

definition read_sized_text :: "('z, string) wire" where
  "read_sized_text =
     io_bind read_u32_le (\<lambda>n.
     io_then (io_ensure (n \<le> max_str_field_len) (Too_Long n))
             (read_text n))"

definition read_len_prefixed_string :: "('z, string) wire" where
  "read_len_prefixed_string =
     io_bind read_u32_le (\<lambda>n.
       if n = 0 then io_ret []
       else io_then (io_ensure (n \<le> max_str_field_len) (Too_Long n)) (read_text n))"

definition read_hw_decode_flags :: "('z, hw_flags) wire" where
  "read_hw_decode_flags =
     io_bind (read_exact 2) (\<lambda>b.
       io_ret \<lparr>hw_decode_enabled = (b ! 0 \<noteq> 0), device_strategy = strategy_of_u8 (unat (b ! 1))\<rparr>)"

definition read_msg_type :: "('z, nat) wire" where
  "read_msg_type = io_bind (read_exact 1) (\<lambda>b. io_ret (le_val b))"

section \<open>Requests\<close>

record single_frame_req =
  sf_request_id :: nat
  sf_frame_idx :: int
  sf_width :: nat
  sf_path :: string
  sf_item_id :: string
  sf_hw :: hw_flags

definition read_single_frame_req :: "('z, single_frame_req) wire" where
  "read_single_frame_req =
     io_bind read_u32_le (\<lambda>rid.
     io_bind read_i64_le (\<lambda>fi.
     io_bind read_u32_le (\<lambda>w.
     io_bind read_sized_text (\<lambda>path.
     io_bind read_item_id (\<lambda>item.
     io_bind read_hw_decode_flags (\<lambda>hw.
       io_ret \<lparr>sf_request_id = rid, sf_frame_idx = fi, sf_width = w, sf_path = path,
               sf_item_id = item, sf_hw = hw\<rparr>))))))"

record animate_req =
  an_item_id :: string
  an_task_id :: string
  an_paths :: "(string \<times> int) list"
  an_format :: anim_format
  an_resize :: resize_mode
  an_target_px :: nat
  an_speed :: nat
  an_loop_count :: nat
  an_crop :: "(nat \<times> nat \<times> nat \<times> nat) option"
  an_quality :: nat
  an_preset :: resolution_preset
  an_hw :: hw_flags

definition read_frame_path :: "('z, string \<times> int) wire" where
  "read_frame_path =
     io_bind read_i64_le (\<lambda>fi.
     io_bind read_sized_text (\<lambda>path. io_ret (path, fi)))"

definition read_preset :: "('z, resolution_preset) wire" where
  "read_preset =
     io_bind read_u32_le (\<lambda>n.
     io_then (io_ensure (n \<le> max_str_field_len) (Too_Long n))
    (io_bind (read_exact n) (\<lambda>b. io_ret (preset_of_str (text_or_default b)))))"

definition read_animate_req :: "('z, animate_req) wire" where
  "read_animate_req =
     io_bind read_item_id (\<lambda>item.
     io_bind read_sized_text (\<lambda>task.
     io_bind read_u32_le (\<lambda>fc.
     io_then (io_ensure (fc \<le> max_frame_count) (Too_Long fc))
    (io_bind (read_list fc read_frame_path) (\<lambda>paths.
     io_bind read_u16_le (\<lambda>fmt.
     io_bind read_u16_le (\<lambda>rm.
     io_bind read_u32_le (\<lambda>tp.
     io_bind read_u32_le (\<lambda>spd.
     io_bind read_u16_le (\<lambda>lc.
     io_bind read_u32_le (\<lambda>cx.
     io_bind read_u32_le (\<lambda>cy.
     io_bind read_u32_le (\<lambda>cw.
     io_bind read_u32_le (\<lambda>ch.
     io_bind read_u32_le (\<lambda>q.
     io_bind read_preset (\<lambda>preset.
     io_bind read_hw_decode_flags (\<lambda>hw.
       io_ret \<lparr>an_item_id = item, an_task_id = task, an_paths = paths, an_format = format_of_u16 fmt,
               an_resize = resize_of_u16 rm, an_target_px = tp, an_speed = spd, an_loop_count = lc,
               an_crop = (if f32_positive cw then Some (cx, cy, cw, ch) else None),
               an_quality = q, an_preset = preset, an_hw = hw\<rparr>)))))))))))))))))"

record stitch_req =
  st_item_id :: string
  st_task_id :: string
  st_paths :: "(string \<times> int) list"
  st_format :: anim_format
  st_quality :: nat
  st_device_id :: string
  st_log_path :: string
  st_model_disabled :: bool
  st_model_family :: string
  st_model_version :: string
  st_model_path :: string
  st_hw :: hw_flags

definition read_stitch_req :: "('z, stitch_req) wire" where
  "read_stitch_req =
     io_bind read_animate_req (\<lambda>base.
     io_bind read_len_prefixed_string (\<lambda>device.
     io_bind read_len_prefixed_string (\<lambda>log.
     io_bind read_flag (\<lambda>disabled.
     io_bind read_len_prefixed_string (\<lambda>family.
     io_bind read_len_prefixed_string (\<lambda>version.
     io_bind read_len_prefixed_string (\<lambda>mpath.
       io_ret \<lparr>st_item_id = an_item_id base, st_task_id = an_task_id base, st_paths = an_paths base,
               st_format = an_format base, st_quality = an_quality base, st_device_id = device,
               st_log_path = log, st_model_disabled = disabled, st_model_family = family,
               st_model_version = version, st_model_path = mpath, st_hw = an_hw base\<rparr>)))))))"

record prefetch_range_req =
  pr_item_id :: string
  pr_path :: string
  pr_start_idx :: int
  pr_before_seconds :: nat
  pr_after_seconds :: nat
  pr_include_start :: bool
  pr_width :: nat
  pr_hw :: hw_flags

definition read_prefetch_range_req :: "('z, prefetch_range_req) wire" where
  "read_prefetch_range_req =
     io_bind read_item_id (\<lambda>item.
     io_bind read_sized_text (\<lambda>path.
     io_bind read_i64_le (\<lambda>si.
     io_bind read_u64_le (\<lambda>bs.
     io_bind read_u64_le (\<lambda>as.
     io_bind read_flag (\<lambda>incl.
     io_bind read_u32_le (\<lambda>w.
     io_bind read_hw_decode_flags (\<lambda>hw.
       io_ret \<lparr>pr_item_id = item, pr_path = path, pr_start_idx = si, pr_before_seconds = bs,
               pr_after_seconds = as, pr_include_start = incl, pr_width = w, pr_hw = hw\<rparr>))))))))"

record range_stream_req =
  rs_item_id :: string
  rs_path :: string
  rs_current_time_ms :: int
  rs_current_frame_idx :: int
  rs_before_ms :: int
  rs_after_ms :: int
  rs_include_current :: bool
  rs_width :: nat
  rs_session_id :: string
  rs_hw :: hw_flags

definition read_session_id :: "('z, string) wire" where
  "read_session_id =
     io_bind read_u32_le (\<lambda>n.
     io_then (io_ensure (n \<le> max_str_field_len) (Too_Long n))
    (if 0 < n then io_bind (read_exact n) (\<lambda>b. io_ret (text_or_default b)) else io_ret []))"

definition read_prefetch_range_stream_req :: "('z, range_stream_req) wire" where
  "read_prefetch_range_stream_req =
     io_bind read_item_id (\<lambda>item.
     io_bind read_sized_text (\<lambda>path.
     io_bind read_i64_le (\<lambda>ct.
     io_bind read_i64_le (\<lambda>fi.
     io_bind read_i64_le (\<lambda>bm.
     io_bind read_i64_le (\<lambda>am.
     io_bind read_flag (\<lambda>incl.
     io_bind read_u32_le (\<lambda>w.
     io_bind read_session_id (\<lambda>sid.
     io_bind read_hw_decode_flags (\<lambda>hw.
       io_ret \<lparr>rs_item_id = item, rs_path = path, rs_current_time_ms = ct, rs_current_frame_idx = fi,
               rs_before_ms = bm, rs_after_ms = am, rs_include_current = incl, rs_width = w,
               rs_session_id = sid, rs_hw = hw\<rparr>))))))))))"

record index_stream_req =
  is_request_id :: nat
  is_item_id :: string
  is_path :: string
  is_current_time_ms :: int

definition read_index_frames_stream_req :: "('z, index_stream_req) wire" where
  "read_index_frames_stream_req =
     io_bind read_u32_le (\<lambda>rid.
     io_bind read_item_id (\<lambda>item.
     io_bind read_sized_text (\<lambda>path.
     io_bind read_i64_le (\<lambda>ct.
       io_ret \<lparr>is_request_id = rid, is_item_id = item, is_path = path, is_current_time_ms = ct\<rparr>))))"

record upscale_req =
  up_item_id :: string
  up_input_path :: string
  up_output_path :: string
  up_model_path :: string
  up_device_id :: string
  up_is_animation :: bool
  up_face_model_path :: string
  up_log_path :: string
  up_downscale :: nat
  up_job_id :: string

definition read_upscale_req :: "('z, upscale_req) wire" where
  "read_upscale_req =
     io_bind read_item_id (\<lambda>item.
     io_bind read_len_prefixed_string (\<lambda>inp.
     io_bind read_len_prefixed_string (\<lambda>outp.
     io_bind read_len_prefixed_string (\<lambda>model.
     io_bind read_len_prefixed_string (\<lambda>device.
     io_bind read_flag (\<lambda>anim.
     io_bind read_len_prefixed_string (\<lambda>face.
     io_bind read_len_prefixed_string (\<lambda>log.
     io_bind read_u32_le (\<lambda>ds.
     io_bind read_len_prefixed_string (\<lambda>job.
       io_ret \<lparr>up_item_id = item, up_input_path = inp, up_output_path = outp, up_model_path = model,
               up_device_id = device, up_is_animation = anim, up_face_model_path = face,
               up_log_path = log, up_downscale = ds, up_job_id = job\<rparr>))))))))))"

definition read_cancel_upscale_req :: "('z, string) wire" where
  "read_cancel_upscale_req = read_len_prefixed_string"

section \<open>Responses\<close>

definition jpeg_response :: "nat \<Rightarrow> byte list \<Rightarrow> nat \<Rightarrow> int \<Rightarrow> byte list" where
  "jpeg_response rid data flags pts =
     le_bytes 4 rid @ le_bytes 4 (length data) @ data @ le_bytes 2 flags @ i64_bytes pts"

definition write_jpeg_response :: "nat \<Rightarrow> byte list \<Rightarrow> nat \<Rightarrow> int \<Rightarrow> ('z, unit) wire" where
  "write_jpeg_response rid data flags pts = write_all (jpeg_response rid data flags pts)"

definition ff_write_ack :: "nat \<Rightarrow> ('z, unit) wire" where
  "ff_write_ack rid = write_all (le_bytes 4 rid @ le_bytes 4 0)"

definition frame_index_bytes :: "(int \<times> bool) list \<Rightarrow> int \<Rightarrow> int \<Rightarrow> byte list" where
  "frame_index_bytes frames fps_num fps_den =
     le_bytes 4 (length frames) @ i64_bytes fps_num @ i64_bytes fps_den
       @ concat (map (\<lambda>(pts, key). i64_bytes pts @ [if key then 1 else 0]) frames)"

definition write_frame_index :: "(int \<times> bool) list \<Rightarrow> int \<Rightarrow> int \<Rightarrow> ('z, unit) wire" where
  "write_frame_index frames fps_num fps_den = write_all (frame_index_bytes frames fps_num fps_den)"

definition write_list_cached :: "nat \<Rightarrow> int list \<Rightarrow> ('z, unit) wire" where
  "write_list_cached rid positions =
     write_all (le_bytes 4 rid @ le_bytes 4 (length positions) @ concat (map i64_bytes positions))"

section \<open>The peer's encoding\<close>

definition text_ok :: "string \<Rightarrow> bool" where
  "text_ok t \<longleftrightarrow> valid_text t \<and> length t \<le> max_str_field_len"

definition item_ok :: "string \<Rightarrow> bool" where
  "item_ok t \<longleftrightarrow> valid_text t \<and> length t = 32"

definition enc_text :: "string \<Rightarrow> byte list" where
  "enc_text t = le_bytes 4 (length t) @ bytes_of t"

definition enc_flag :: "bool \<Rightarrow> byte list" where
  "enc_flag b = [if b then 1 else 0]"

definition enc_hw :: "hw_flags \<Rightarrow> byte list" where
  "enc_hw h = [if hw_decode_enabled h then 1 else 0, if device_strategy h = Idle_Resource then 1 else 0]"

definition enc_format :: "anim_format \<Rightarrow> byte list" where
  "enc_format f = le_bytes 2 (case f of Gif \<Rightarrow> 1 | WebP \<Rightarrow> 2 | Mp4 \<Rightarrow> 3)"

definition enc_resize :: "resize_mode \<Rightarrow> byte list" where
  "enc_resize r = le_bytes 2 (case r of By_Width \<Rightarrow> 1 | By_Height \<Rightarrow> 2)"

definition preset_str :: "resolution_preset \<Rightarrow> string" where
  "preset_str p = (case p of P1080 \<Rightarrow> ''1080p'' | P720 \<Rightarrow> ''720p'' | P480 \<Rightarrow> ''480p'' | P360 \<Rightarrow> ''360p''
                   | Original \<Rightarrow> ''original'')"

definition enc_crop :: "(nat \<times> nat \<times> nat \<times> nat) option \<Rightarrow> byte list" where
  "enc_crop c = (case c of None \<Rightarrow> le_bytes 4 0 @ le_bytes 4 0 @ le_bytes 4 0 @ le_bytes 4 0
                 | Some (x, y, w, h) \<Rightarrow> le_bytes 4 x @ le_bytes 4 y @ le_bytes 4 w @ le_bytes 4 h)"

definition enc_frame_path :: "string \<times> int \<Rightarrow> byte list" where
  "enc_frame_path pf = i64_bytes (snd pf) @ enc_text (fst pf)"

lemma read_u16_run [wire_simps]:
  "v < 2 ^ 16 \<Longrightarrow> read_u16_le (s\<lparr>c_in := le_bytes 2 v @ r\<rparr>) = (Inr v, s\<lparr>c_in := r\<rparr>)"
  by (simp add: read_u16_le_def io_bind_def read_exact_run io_run)

lemma read_flag_run [wire_simps]:
  "read_flag (s\<lparr>c_in := enc_flag b @ r\<rparr>) = (Inr b, s\<lparr>c_in := r\<rparr>)"
  by (simp add: read_flag_def enc_flag_def read_u8_def io_bind_def read_exact_def io_run)

lemma read_hw_run [wire_simps]:
  "read_hw_decode_flags (s\<lparr>c_in := enc_hw h @ r\<rparr>) = (Inr h, s\<lparr>c_in := r\<rparr>)"
  by (cases h; cases "device_strategy h")
    (auto simp: read_hw_decode_flags_def enc_hw_def io_bind_def read_exact_def io_run strategy_of_u8_def)

lemma read_item_id_run [wire_simps]:
  "item_ok i \<Longrightarrow> read_item_id (s\<lparr>c_in := bytes_of i @ r\<rparr>) = (Inr i, s\<lparr>c_in := r\<rparr>)"
  by (simp add: read_item_id_def item_ok_def io_bind_def read_exact_run io_run text_or_default_def)

lemma text_len_u32: "text_ok t \<Longrightarrow> length t < 2 ^ 32"
  by (simp add: text_ok_def max_str_field_len_def)

lemma read_sized_text_run [wire_simps]:
  "text_ok t \<Longrightarrow> read_sized_text (s\<lparr>c_in := enc_text t @ r\<rparr>) = (Inr t, s\<lparr>c_in := r\<rparr>)"
  using text_len_u32 [of t]
  by (simp add: read_sized_text_def enc_text_def text_ok_def io_bind_run io_then_run io_ensure_run wire_simps)

lemma read_lp_string_run [wire_simps]:
  "text_ok t \<Longrightarrow> read_len_prefixed_string (s\<lparr>c_in := enc_text t @ r\<rparr>) = (Inr t, s\<lparr>c_in := r\<rparr>)"
  using text_len_u32 [of t]
  by (cases t) (simp_all add: read_len_prefixed_string_def enc_text_def text_ok_def io_bind_run io_then_run
      io_ensure_run io_run wire_simps, simp add: bytes_of_def)

lemma read_session_id_run [wire_simps]:
  "text_ok t \<Longrightarrow> read_session_id (s\<lparr>c_in := enc_text t @ r\<rparr>) = (Inr t, s\<lparr>c_in := r\<rparr>)"
  using text_len_u32 [of t]
  by (cases "t = []") (simp_all add: read_session_id_def enc_text_def text_ok_def io_bind_run io_then_run
      io_ensure_run io_run wire_simps text_or_default_def, simp add: bytes_of_def)

lemma read_frame_path_run [wire_simps]:
  "text_ok (fst pf) \<Longrightarrow> in_i64 (snd pf) \<Longrightarrow>
     read_frame_path (s\<lparr>c_in := enc_frame_path pf @ r\<rparr>) = (Inr pf, s\<lparr>c_in := r\<rparr>)"
  by (simp add: read_frame_path_def enc_frame_path_def io_bind_run io_run wire_simps)

lemma read_frame_paths_run [wire_simps]:
  "(\<forall>pf \<in> set pfs. text_ok (fst pf) \<and> in_i64 (snd pf)) \<Longrightarrow> n = length pfs \<Longrightarrow>
     read_list n read_frame_path (s\<lparr>c_in := concat (map enc_frame_path pfs) @ r\<rparr>) = (Inr pfs, s\<lparr>c_in := r\<rparr>)"
  by (rule read_list_run) (auto simp: read_frame_path_run)

lemma preset_of_preset_str: "preset_of_str (preset_str p) = p"
  by (cases p) (simp_all add: preset_of_str_def preset_str_def)

lemma preset_str_ok: "text_ok (preset_str p)"
  by (cases p) (auto simp: text_ok_def preset_str_def max_str_field_len_def intro!: valid_text_ascii)

lemma read_preset_run [wire_simps]:
  "read_preset (s\<lparr>c_in := enc_text (preset_str p) @ r\<rparr>) = (Inr p, s\<lparr>c_in := r\<rparr>)"
  using preset_str_ok [of p] text_len_u32 [OF preset_str_ok]
  by (simp add: read_preset_def enc_text_def text_ok_def io_bind_run io_then_run io_ensure_run io_run
      wire_simps text_or_default_def preset_of_preset_str)

definition enc_single_frame :: "single_frame_req \<Rightarrow> byte list" where
  "enc_single_frame q =
     le_bytes 4 (sf_request_id q) @ i64_bytes (sf_frame_idx q) @ le_bytes 4 (sf_width q)
       @ enc_text (sf_path q) @ bytes_of (sf_item_id q) @ enc_hw (sf_hw q)"

definition single_frame_ok :: "single_frame_req \<Rightarrow> bool" where
  "single_frame_ok q \<longleftrightarrow> sf_request_id q < 2 ^ 32 \<and> in_i64 (sf_frame_idx q) \<and> sf_width q < 2 ^ 32 \<and>
     text_ok (sf_path q) \<and> item_ok (sf_item_id q)"

definition enc_animate :: "animate_req \<Rightarrow> byte list" where
  "enc_animate q =
     bytes_of (an_item_id q) @ enc_text (an_task_id q) @ le_bytes 4 (length (an_paths q))
       @ concat (map enc_frame_path (an_paths q)) @ enc_format (an_format q) @ enc_resize (an_resize q)
       @ le_bytes 4 (an_target_px q) @ le_bytes 4 (an_speed q) @ le_bytes 2 (an_loop_count q)
       @ enc_crop (an_crop q) @ le_bytes 4 (an_quality q) @ enc_text (preset_str (an_preset q))
       @ enc_hw (an_hw q)"

definition animate_ok :: "animate_req \<Rightarrow> bool" where
  "animate_ok q \<longleftrightarrow> item_ok (an_item_id q) \<and> text_ok (an_task_id q) \<and>
     length (an_paths q) \<le> max_frame_count \<and> (\<forall>pf \<in> set (an_paths q). text_ok (fst pf) \<and> in_i64 (snd pf)) \<and>
     an_target_px q < 2 ^ 32 \<and> an_speed q < 2 ^ 32 \<and> an_loop_count q < 2 ^ 16 \<and> an_quality q < 2 ^ 32 \<and>
     (case an_crop q of None \<Rightarrow> True
      | Some (x, y, w, h) \<Rightarrow> x < 2 ^ 32 \<and> y < 2 ^ 32 \<and> f32_positive w \<and> h < 2 ^ 32)"

lemma read_format_run [wire_simps]:
  "read_u16_le (s\<lparr>c_in := enc_format f @ r\<rparr>) = (Inr (case f of Gif \<Rightarrow> 1 | WebP \<Rightarrow> 2 | Mp4 \<Rightarrow> 3), s\<lparr>c_in := r\<rparr>)"
  unfolding enc_format_def by (rule read_u16_run) (cases f, simp_all)

lemma read_resize_run [wire_simps]:
  "read_u16_le (s\<lparr>c_in := enc_resize m @ r\<rparr>) = (Inr (case m of By_Width \<Rightarrow> 1 | By_Height \<Rightarrow> 2), s\<lparr>c_in := r\<rparr>)"
  unfolding enc_resize_def by (rule read_u16_run) (cases m, simp_all)

lemma format_u16: "format_of_u16 (case f of Gif \<Rightarrow> 1 | WebP \<Rightarrow> 2 | Mp4 \<Rightarrow> 3) = f"
  by (cases f) (simp_all add: format_of_u16_def)

lemma resize_u16: "resize_of_u16 (case r of By_Width \<Rightarrow> 1 | By_Height \<Rightarrow> 2) = r"
  by (cases r) (simp_all add: resize_of_u16_def)

lemma read_animate_run [wire_simps]:
  assumes "animate_ok q"
  shows "read_animate_req (s\<lparr>c_in := enc_animate q @ r\<rparr>) = (Inr q, s\<lparr>c_in := r\<rparr>)"
proof -
  obtain x y w h where crop: "enc_crop (an_crop q) = le_bytes 4 x @ le_bytes 4 y @ le_bytes 4 w @ le_bytes 4 h"
    and lt: "x < 2 ^ 32" "y < 2 ^ 32" "w < 2 ^ 32" "h < 2 ^ 32"
    and val: "(if f32_positive w then Some (x, y, w, h) else None) = an_crop q"
  proof (cases "an_crop q")
    case None
    show ?thesis by (rule that [of 0 0 0 0]) (simp_all add: None enc_crop_def f32_positive_def)
  next
    case (Some c)
    obtain x y w h where c: "c = (x, y, w, h)" by (cases c)
    show ?thesis
      using assms by (intro that [of x y w h]) (auto simp: Some c enc_crop_def f32_positive_def animate_ok_def)
  qed
  have n: "length (an_paths q) < 2 ^ 32" using assms by (simp add: animate_ok_def max_frame_count_def)
  show ?thesis
    using assms lt val n unfolding animate_ok_def
    by (simp add: read_animate_req_def enc_animate_def crop io_bind_run
        io_then_run io_ensure_run io_run wire_simps format_u16 resize_u16)
qed

definition enc_stitch_tail :: "stitch_req \<Rightarrow> byte list" where
  "enc_stitch_tail q =
     enc_text (st_device_id q) @ enc_text (st_log_path q) @ enc_flag (st_model_disabled q)
       @ enc_text (st_model_family q) @ enc_text (st_model_version q) @ enc_text (st_model_path q)"

definition stitch_of :: "animate_req \<Rightarrow> stitch_req \<Rightarrow> stitch_req" where
  "stitch_of b q = q\<lparr>st_item_id := an_item_id b, st_task_id := an_task_id b, st_paths := an_paths b,
     st_format := an_format b, st_quality := an_quality b, st_hw := an_hw b\<rparr>"

definition stitch_tail_ok :: "stitch_req \<Rightarrow> bool" where
  "stitch_tail_ok q \<longleftrightarrow> text_ok (st_device_id q) \<and> text_ok (st_log_path q) \<and> text_ok (st_model_family q) \<and>
     text_ok (st_model_version q) \<and> text_ok (st_model_path q)"

definition enc_prefetch_range :: "prefetch_range_req \<Rightarrow> byte list" where
  "enc_prefetch_range q =
     bytes_of (pr_item_id q) @ enc_text (pr_path q) @ i64_bytes (pr_start_idx q)
       @ le_bytes 8 (pr_before_seconds q) @ le_bytes 8 (pr_after_seconds q) @ enc_flag (pr_include_start q)
       @ le_bytes 4 (pr_width q) @ enc_hw (pr_hw q)"

definition prefetch_range_ok :: "prefetch_range_req \<Rightarrow> bool" where
  "prefetch_range_ok q \<longleftrightarrow> item_ok (pr_item_id q) \<and> text_ok (pr_path q) \<and> in_i64 (pr_start_idx q) \<and>
     pr_before_seconds q < 2 ^ 64 \<and> pr_after_seconds q < 2 ^ 64 \<and> pr_width q < 2 ^ 32"

definition enc_range_stream :: "range_stream_req \<Rightarrow> byte list" where
  "enc_range_stream q =
     bytes_of (rs_item_id q) @ enc_text (rs_path q) @ i64_bytes (rs_current_time_ms q)
       @ i64_bytes (rs_current_frame_idx q) @ i64_bytes (rs_before_ms q) @ i64_bytes (rs_after_ms q)
       @ enc_flag (rs_include_current q) @ le_bytes 4 (rs_width q) @ enc_text (rs_session_id q)
       @ enc_hw (rs_hw q)"

definition range_stream_ok :: "range_stream_req \<Rightarrow> bool" where
  "range_stream_ok q \<longleftrightarrow> item_ok (rs_item_id q) \<and> text_ok (rs_path q) \<and> in_i64 (rs_current_time_ms q) \<and>
     in_i64 (rs_current_frame_idx q) \<and> in_i64 (rs_before_ms q) \<and> in_i64 (rs_after_ms q) \<and>
     rs_width q < 2 ^ 32 \<and> text_ok (rs_session_id q)"

definition enc_index_stream :: "index_stream_req \<Rightarrow> byte list" where
  "enc_index_stream q =
     le_bytes 4 (is_request_id q) @ bytes_of (is_item_id q) @ enc_text (is_path q)
       @ i64_bytes (is_current_time_ms q)"

definition index_stream_ok :: "index_stream_req \<Rightarrow> bool" where
  "index_stream_ok q \<longleftrightarrow> is_request_id q < 2 ^ 32 \<and> item_ok (is_item_id q) \<and> text_ok (is_path q) \<and>
     in_i64 (is_current_time_ms q)"

definition enc_upscale :: "upscale_req \<Rightarrow> byte list" where
  "enc_upscale q =
     bytes_of (up_item_id q) @ enc_text (up_input_path q) @ enc_text (up_output_path q)
       @ enc_text (up_model_path q) @ enc_text (up_device_id q) @ enc_flag (up_is_animation q)
       @ enc_text (up_face_model_path q) @ enc_text (up_log_path q) @ le_bytes 4 (up_downscale q)
       @ enc_text (up_job_id q)"

definition upscale_ok :: "upscale_req \<Rightarrow> bool" where
  "upscale_ok q \<longleftrightarrow> item_ok (up_item_id q) \<and> text_ok (up_input_path q) \<and> text_ok (up_output_path q) \<and>
     text_ok (up_model_path q) \<and> text_ok (up_device_id q) \<and> text_ok (up_face_model_path q) \<and>
     text_ok (up_log_path q) \<and> up_downscale q < 2 ^ 32 \<and> text_ok (up_job_id q)"

lemma read_single_frame_run [wire_simps]:
  "single_frame_ok q \<Longrightarrow>
     read_single_frame_req (s\<lparr>c_in := enc_single_frame q @ r\<rparr>) = (Inr q, s\<lparr>c_in := r\<rparr>)"
  by (simp add: single_frame_ok_def read_single_frame_req_def enc_single_frame_def io_bind_run io_run wire_simps)

lemma read_stitch_run [wire_simps]:
  "animate_ok b \<Longrightarrow> stitch_tail_ok q \<Longrightarrow>
     read_stitch_req (s\<lparr>c_in := enc_animate b @ enc_stitch_tail q @ r\<rparr>) = (Inr (stitch_of b q), s\<lparr>c_in := r\<rparr>)"
  by (simp add: stitch_tail_ok_def read_stitch_req_def enc_stitch_tail_def io_bind_run io_run wire_simps
      stitch_of_def)

lemma read_prefetch_range_run [wire_simps]:
  "prefetch_range_ok q \<Longrightarrow>
     read_prefetch_range_req (s\<lparr>c_in := enc_prefetch_range q @ r\<rparr>) = (Inr q, s\<lparr>c_in := r\<rparr>)"
  by (simp add: prefetch_range_ok_def read_prefetch_range_req_def enc_prefetch_range_def io_bind_run io_run wire_simps)

lemma read_range_stream_run [wire_simps]:
  "range_stream_ok q \<Longrightarrow>
     read_prefetch_range_stream_req (s\<lparr>c_in := enc_range_stream q @ r\<rparr>) = (Inr q, s\<lparr>c_in := r\<rparr>)"
  by (simp add: range_stream_ok_def read_prefetch_range_stream_req_def enc_range_stream_def io_bind_run io_run wire_simps)

lemma read_index_stream_run [wire_simps]:
  "index_stream_ok q \<Longrightarrow>
     read_index_frames_stream_req (s\<lparr>c_in := enc_index_stream q @ r\<rparr>) = (Inr q, s\<lparr>c_in := r\<rparr>)"
  by (simp add: index_stream_ok_def read_index_frames_stream_req_def enc_index_stream_def io_bind_run io_run wire_simps)

lemma read_upscale_run [wire_simps]:
  "upscale_ok q \<Longrightarrow> read_upscale_req (s\<lparr>c_in := enc_upscale q @ r\<rparr>) = (Inr q, s\<lparr>c_in := r\<rparr>)"
  by (simp add: upscale_ok_def read_upscale_req_def enc_upscale_def io_bind_run io_run wire_simps)

text \<open>
  C9: The peer's requests are understood. Every reader, given the encoding of a request whose texts are
  UTF-8 of at most 1 MiB (at most 4096 frames), returns that request and leaves exactly the bytes after it.
\<close>

theorem requests_round_trip:
  "(single_frame_ok sf \<longrightarrow> read_single_frame_req (s\<lparr>c_in := enc_single_frame sf @ r\<rparr>) = (Inr sf, s\<lparr>c_in := r\<rparr>)) \<and>
   (animate_ok an \<longrightarrow> read_animate_req (s\<lparr>c_in := enc_animate an @ r\<rparr>) = (Inr an, s\<lparr>c_in := r\<rparr>)) \<and>
   (animate_ok an \<and> stitch_tail_ok st \<longrightarrow>
      read_stitch_req (s\<lparr>c_in := enc_animate an @ enc_stitch_tail st @ r\<rparr>) = (Inr (stitch_of an st), s\<lparr>c_in := r\<rparr>)) \<and>
   (prefetch_range_ok pr \<longrightarrow> read_prefetch_range_req (s\<lparr>c_in := enc_prefetch_range pr @ r\<rparr>) = (Inr pr, s\<lparr>c_in := r\<rparr>)) \<and>
   (range_stream_ok rs \<longrightarrow>
      read_prefetch_range_stream_req (s\<lparr>c_in := enc_range_stream rs @ r\<rparr>) = (Inr rs, s\<lparr>c_in := r\<rparr>)) \<and>
   (index_stream_ok ix \<longrightarrow> read_index_frames_stream_req (s\<lparr>c_in := enc_index_stream ix @ r\<rparr>) = (Inr ix, s\<lparr>c_in := r\<rparr>)) \<and>
   (upscale_ok up \<longrightarrow> read_upscale_req (s\<lparr>c_in := enc_upscale up @ r\<rparr>) = (Inr up, s\<lparr>c_in := r\<rparr>)) \<and>
   (text_ok job \<longrightarrow> read_cancel_upscale_req (s\<lparr>c_in := enc_text job @ r\<rparr>) = (Inr job, s\<lparr>c_in := r\<rparr>))"
  by (simp add: wire_simps read_cancel_upscale_req_def)

section \<open>Whatever arrives\<close>

lemma read_exact_len: "read_exact n s = (Inr b, t) \<Longrightarrow> length b = n"
  by (auto simp: read_exact_def split: if_splits)

lemma text_or_default_len: "length (text_or_default b) \<le> length b"
  by (simp add: text_or_default_def from_utf8_def text_of_def split: option.split)

lemma read_text_len: "read_text n s = (Inr t, u) \<Longrightarrow> length t = n"
  by (auto simp: read_text_def io_bind_Inr io_run from_utf8_def text_of_def dest!: read_exact_len split: option.splits if_splits)

lemma io_ensure_Inr: "io_ensure b e s = (Inr x, t) \<longleftrightarrow> b \<and> t = s"
  by (auto simp: io_ensure_def io_run)

lemma io_then_Inr: "io_then m n s = (Inr x, u) \<longleftrightarrow> (\<exists>t. m s = (Inr (), t) \<and> n t = (Inr x, u))"
  by (simp add: io_then_def io_bind_Inr)

lemma sized_text_len: "read_sized_text s = (Inr t, u) \<Longrightarrow> length t \<le> max_str_field_len"
  by (auto simp: read_sized_text_def io_bind_Inr io_then_Inr io_ensure_Inr dest: read_text_len)

lemma lp_string_len: "read_len_prefixed_string s = (Inr t, u) \<Longrightarrow> length t \<le> max_str_field_len"
  by (auto simp: read_len_prefixed_string_def io_bind_Inr io_then_Inr io_ensure_Inr io_run
      dest: read_text_len split: if_splits)

lemma session_id_len: "read_session_id s = (Inr t, u) \<Longrightarrow> length t \<le> max_str_field_len"
  by (auto simp: read_session_id_def io_bind_Inr io_then_Inr io_ensure_Inr io_run
      dest!: read_exact_len intro: order_trans [OF text_or_default_len] split: if_splits)

lemma item_id_len: "read_item_id s = (Inr t, u) \<Longrightarrow> length t \<le> 32"
  by (auto simp: read_item_id_def io_bind_Inr io_run dest!: read_exact_len
      intro: order_trans [OF text_or_default_len])

lemma read_list_Inr:
  assumes "\<And>s x t. m s = (Inr x, t) \<Longrightarrow> P x"
  shows "read_list n m s = (Inr xs, t) \<Longrightarrow> length xs = n \<and> (\<forall>x \<in> set xs. P x)"
  using assms by (induction n arbitrary: s xs) (auto simp: io_bind_Inr io_run)

lemma frame_paths_len:
  "read_list n read_frame_path s = (Inr pfs, t) \<Longrightarrow>
     length pfs = n \<and> (\<forall>pf \<in> set pfs. length (fst pf) \<le> max_str_field_len)"
  by (rule read_list_Inr [where P = "\<lambda>pf. length (fst pf) \<le> max_str_field_len"])
    (auto simp: read_frame_path_def io_bind_Inr io_run dest: sized_text_len)

lemma frame_paths_count: "read_list n read_frame_path s = (Inr pfs, t) \<Longrightarrow> length pfs = n"
  by (simp add: frame_paths_len)

lemma frame_paths_each:
  "read_list n read_frame_path s = (Inr pfs, t) \<Longrightarrow> (p, fi) \<in> set pfs \<Longrightarrow> length p \<le> max_str_field_len"
  using frame_paths_len by fastforce

definition animate_bounded :: "animate_req \<Rightarrow> bool" where
  "animate_bounded q \<longleftrightarrow> length (an_item_id q) \<le> 32 \<and> length (an_task_id q) \<le> max_str_field_len \<and>
     length (an_paths q) \<le> max_frame_count \<and> (\<forall>pf \<in> set (an_paths q). length (fst pf) \<le> max_str_field_len)"

lemma read_animate_bounded: "read_animate_req s = (Inr q, t) \<Longrightarrow> animate_bounded q"
  unfolding read_animate_req_def
  by (auto simp: io_bind_Inr io_then_Inr io_ensure_Inr io_run animate_bounded_def
      dest: item_id_len sized_text_len frame_paths_count frame_paths_each)

lemma fst_Inr: "fst p = Inr x \<longleftrightarrow> (\<exists>t. p = (Inr x, t))"
  by (cases p) auto

lemma read_single_frame_bounded:
  "read_single_frame_req s = (Inr q, t) \<Longrightarrow> length (sf_path q) \<le> max_str_field_len \<and> length (sf_item_id q) \<le> 32"
  by (auto simp: read_single_frame_req_def io_bind_Inr io_run dest: item_id_len sized_text_len)

lemma read_stitch_bounded:
  assumes "read_stitch_req s = (Inr q, t)"
  shows "length (st_paths q) \<le> max_frame_count \<and> (\<forall>pf \<in> set (st_paths q). length (fst pf) \<le> max_str_field_len) \<and>
    length (st_log_path q) \<le> max_str_field_len \<and> length (st_model_path q) \<le> max_str_field_len"
proof -
  have b: "\<exists>b u. read_animate_req s = (Inr b, u) \<and> st_paths q = an_paths b"
    and "length (st_log_path q) \<le> max_str_field_len" "length (st_model_path q) \<le> max_str_field_len"
    using assms by (auto simp: read_stitch_req_def io_bind_Inr io_run dest: lp_string_len)
  moreover from b have "length (st_paths q) \<le> max_frame_count \<and>
      (\<forall>pf \<in> set (st_paths q). length (fst pf) \<le> max_str_field_len)"
    using read_animate_bounded [of s] unfolding animate_bounded_def by metis
  ultimately show ?thesis by simp
qed

lemma read_prefetch_range_bounded:
  "read_prefetch_range_req s = (Inr q, t) \<Longrightarrow> length (pr_path q) \<le> max_str_field_len"
  by (auto simp: read_prefetch_range_req_def io_bind_Inr io_run dest: sized_text_len)

lemma read_range_stream_bounded:
  "read_prefetch_range_stream_req s = (Inr q, t) \<Longrightarrow>
     length (rs_path q) \<le> max_str_field_len \<and> length (rs_session_id q) \<le> max_str_field_len"
  by (auto simp: read_prefetch_range_stream_req_def io_bind_Inr io_run dest: sized_text_len session_id_len)

lemma read_index_stream_bounded:
  "read_index_frames_stream_req s = (Inr q, t) \<Longrightarrow> length (is_path q) \<le> max_str_field_len"
  by (auto simp: read_index_frames_stream_req_def io_bind_Inr io_run dest: sized_text_len)

lemma read_upscale_bounded:
  "read_upscale_req s = (Inr q, t) \<Longrightarrow> length (up_input_path q) \<le> max_str_field_len \<and>
     length (up_output_path q) \<le> max_str_field_len \<and> length (up_job_id q) \<le> max_str_field_len"
  by (auto simp: read_upscale_req_def io_bind_Inr io_run dest: lp_string_len)

text \<open>
  No desynchronised or hostile input makes the daemon allocate without bound. Whatever bytes arrive, a request
  that is accepted has texts of at most 1 MiB, item ids of at most 32 bytes and at most 4096 frames.
\<close>

theorem accepted_requests_bounded:
  "(fst (read_single_frame_req s) = Inr sf \<longrightarrow>
      length (sf_path sf) \<le> max_str_field_len \<and> length (sf_item_id sf) \<le> 32) \<and>
   (fst (read_animate_req s) = Inr an \<longrightarrow> animate_bounded an) \<and>
   (fst (read_stitch_req s) = Inr st \<longrightarrow>
      length (st_paths st) \<le> max_frame_count \<and> (\<forall>pf \<in> set (st_paths st). length (fst pf) \<le> max_str_field_len) \<and>
      length (st_log_path st) \<le> max_str_field_len \<and> length (st_model_path st) \<le> max_str_field_len) \<and>
   (fst (read_prefetch_range_req s) = Inr pr \<longrightarrow> length (pr_path pr) \<le> max_str_field_len) \<and>
   (fst (read_prefetch_range_stream_req s) = Inr rs \<longrightarrow>
      length (rs_path rs) \<le> max_str_field_len \<and> length (rs_session_id rs) \<le> max_str_field_len) \<and>
   (fst (read_index_frames_stream_req s) = Inr ix \<longrightarrow> length (is_path ix) \<le> max_str_field_len) \<and>
   (fst (read_upscale_req s) = Inr up \<longrightarrow>
      length (up_input_path up) \<le> max_str_field_len \<and> length (up_output_path up) \<le> max_str_field_len \<and>
      length (up_job_id up) \<le> max_str_field_len)"
  unfolding fst_Inr
  using read_single_frame_bounded [of s sf] read_animate_bounded [of s an] read_stitch_bounded [of s st]
    read_prefetch_range_bounded [of s pr] read_range_stream_bounded [of s rs]
    read_index_stream_bounded [of s ix] read_upscale_bounded [of s up]
  by metis

section \<open>Witnesses\<close>

definition demo_item :: string where "demo_item = replicate 32 CHR ''b''"
definition demo_hw :: hw_flags where "demo_hw = \<lparr>hw_decode_enabled = True, device_strategy = Idle_Resource\<rparr>"
definition demo_wire :: "byte list \<Rightarrow> conn" where "demo_wire bs = \<lparr>c_in = bs, c_out = [], c_room = 0\<rparr>"

definition demo_sf :: single_frame_req where
  "demo_sf = \<lparr>sf_request_id = 9, sf_frame_idx = -1, sf_width = 320, sf_path = ''/v.mkv'', sf_item_id = demo_item, sf_hw = demo_hw\<rparr>"

definition demo_an :: animate_req where
  "demo_an = \<lparr>an_item_id = demo_item, an_task_id = ''t'', an_paths = [(''/v.mkv'', 24), (''/v.mkv'', 48)],
     an_format = Mp4, an_resize = By_Height, an_target_px = 480, an_speed = 0x3F800000, an_loop_count = 2,
     an_crop = Some (0, 0, 0x3F000000, 0x3F000000), an_quality = 0, an_preset = P720, an_hw = demo_hw\<rparr>"

definition demo_st :: stitch_req where
  "demo_st = \<lparr>st_item_id = demo_item, st_task_id = ''t'', st_paths = [], st_format = WebP, st_quality = 0,
     st_device_id = ''cuda:0'', st_log_path = [], st_model_disabled = True, st_model_family = [],
     st_model_version = [], st_model_path = ''/m.onnx'', st_hw = demo_hw\<rparr>"

definition demo_rs :: range_stream_req where
  "demo_rs = \<lparr>rs_item_id = demo_item, rs_path = ''/v.mkv'', rs_current_time_ms = 5, rs_current_frame_idx = -1,
     rs_before_ms = 1, rs_after_ms = 2, rs_include_current = True, rs_width = 320, rs_session_id = [], rs_hw = demo_hw\<rparr>"

lemma demo_item_ok: "item_ok demo_item"
  by (auto simp: item_ok_def demo_item_def intro!: valid_text_ascii)

lemma ascii_text_ok: "list_all (\<lambda>c. (of_char c :: nat) \<le> 127) t \<Longrightarrow> length t \<le> 1000 \<Longrightarrow> text_ok t"
  by (auto simp: text_ok_def max_str_field_len_def list_all_iff intro!: valid_text_ascii)

lemma demo_reqs_ok: "single_frame_ok demo_sf" "animate_ok demo_an" "stitch_tail_ok demo_st" "range_stream_ok demo_rs"
  by (auto simp: single_frame_ok_def demo_sf_def animate_ok_def demo_an_def stitch_tail_ok_def demo_st_def
      range_stream_ok_def demo_rs_def demo_item_ok i64_bounds max_frame_count_def f32_positive_def intro!: ascii_text_ok)

theorem requests_round_trip_witness:
  "read_single_frame_req (demo_wire (enc_single_frame demo_sf)) = (Inr demo_sf, demo_wire []) \<and>
   read_animate_req (demo_wire (enc_animate demo_an)) = (Inr demo_an, demo_wire []) \<and>
   read_stitch_req (demo_wire (enc_animate demo_an @ enc_stitch_tail demo_st)) = (Inr (stitch_of demo_an demo_st), demo_wire []) \<and>
   read_prefetch_range_stream_req (demo_wire (enc_range_stream demo_rs)) = (Inr demo_rs, demo_wire [])"
  using requests_round_trip [where sf = demo_sf and an = demo_an and st = demo_st and rs = demo_rs
      and s = "demo_wire []" and r = "[]"] demo_reqs_ok
  by (simp add: demo_wire_def)

theorem accepted_requests_bounded_witness:
  "length (sf_path demo_sf) \<le> max_str_field_len \<and> animate_bounded demo_an"
proof -
  have "fst (read_single_frame_req (demo_wire (enc_single_frame demo_sf))) = Inr demo_sf"
    "fst (read_animate_req (demo_wire (enc_animate demo_an))) = Inr demo_an"
    using read_single_frame_run [OF demo_reqs_ok(1), where s = "demo_wire []" and r = "[]"]
      read_animate_run [OF demo_reqs_ok(2), where s = "demo_wire []" and r = "[]"] by (simp_all add: demo_wire_def)
  then show ?thesis
    using accepted_requests_bounded [where s = "demo_wire (enc_single_frame demo_sf)" and sf = demo_sf]
      accepted_requests_bounded [where s = "demo_wire (enc_animate demo_an)" and an = demo_an] by blast
qed

end
