(* ===== verification/Hw_Decode.thy ===== *)
theory Hw_Decode
  imports Frame_Protocol
begin

text \<open>
  Hardware decoding: \<^verbatim>\<open>crates/jfs-common/src/hwaccel.rs\<close> (devices, their shared contexts and
  the pixel format callback) and the device policy of \<^verbatim>\<open>crates/frame-forge/src/server.rs\<close>.

  What FFmpeg and the system answer is a parameter: \<open>probe\<close> says whether a device context can be
  created (the error text otherwise), \<open>gpu_sys\<close> holds the files and the command output that are read.
  The context cache is a state machine: \<^verbatim>\<open>create\<close> releases the lock while FFmpeg opens the device,
  so it is two steps that other threads' steps may come between.
\<close>

section \<open>Vendors\<close>

datatype hw_vendor = Vaapi | Cuda
datatype decode_vendor = Nvidia | Amd | Intel

datatype pix_fmt = Fmt_Vaapi | Fmt_Cuda | Fmt_None | Fmt_Other nat

fun hw_pix_fmt :: "hw_vendor \<Rightarrow> pix_fmt" where
  "hw_pix_fmt Vaapi = Fmt_Vaapi"
| "hw_pix_fmt Cuda = Fmt_Cuda"

record vendor_capability =
  vc_vendor :: decode_vendor
  vc_supported :: bool
  vc_reason :: string

record hw_caps =
  hc_supported :: bool
  hc_vendors :: "vendor_capability list"

type_synonym prober = "hw_vendor \<Rightarrow> string option \<Rightarrow> string option"

text \<open>
  What the code reads of the system: \<^verbatim>\<open>/sys/class/drm\<close> with the text of \<^verbatim>\<open>device/vendor\<close>
  of each entry, the busy percentage of a render node, the output of \<^verbatim>\<open>nvidia-smi\<close>.
\<close>

record gpu_sys =
  drm_dir :: "(string \<times> string option) list option"
  busy_percent :: "string \<Rightarrow> string option"
  nvidia_smi :: "string option"

definition trim_text :: "string \<Rightarrow> string" where
  "trim_text s = rev (dropWhile is_ws (rev (dropWhile is_ws s)))"

definition pci_vendor :: "string \<Rightarrow> decode_vendor option" where
  "pci_vendor raw =
     (if trim_text raw = ''0x8086'' then Some Intel
      else if trim_text raw = ''0x1002'' then Some Amd else None)"

definition enumerate_vaapi_render_nodes :: "gpu_sys \<Rightarrow> (decode_vendor \<times> string) list" where
  "enumerate_vaapi_render_nodes g =
     (case drm_dir g of
        None \<Rightarrow> []
      | Some es \<Rightarrow>
          concat (map (\<lambda>(name, vendor).
            if strip_prefix ''renderD'' name = None then []
            else case vendor of None \<Rightarrow> []
                 | Some raw \<Rightarrow> (case pci_vendor raw of None \<Rightarrow> [] | Some v \<Rightarrow> [(v, ''/dev/dri/'' @ name)])) es))"

definition first_render_node_for :: "gpu_sys \<Rightarrow> decode_vendor \<Rightarrow> string option" where
  "first_render_node_for g v = map_option snd (find (\<lambda>(u, _). u = v) (enumerate_vaapi_render_nodes g))"

fun vendor_name :: "decode_vendor \<Rightarrow> string" where
  "vendor_name Nvidia = ''Nvidia''"
| "vendor_name Amd = ''Amd''"
| "vendor_name Intel = ''Intel''"

text \<open>Trying the candidates of a vendor in turn; the error of the last failure is kept.\<close>

fun probe_nodes :: "prober \<Rightarrow> string list \<Rightarrow> string \<Rightarrow> bool \<times> string" where
  "probe_nodes pr [] last_err = (False, last_err)"
| "probe_nodes pr (path # ps) last_err =
     (case pr Vaapi (Some path) of None \<Rightarrow> (True, last_err) | Some e \<Rightarrow> probe_nodes pr ps e)"

definition vaapi_capability :: "prober \<Rightarrow> (decode_vendor \<times> string) list \<Rightarrow> decode_vendor \<Rightarrow> vendor_capability" where
  "vaapi_capability pr nodes v =
     (let candidates = map snd (filter (\<lambda>(u, _). u = v) nodes)
      in if candidates = []
         then \<lparr>vc_vendor = v, vc_supported = False,
               vc_reason = ''no '' @ vendor_name v @ '' GPU render node detected under /sys/class/drm''\<rparr>
         else (let (ok, err) = probe_nodes pr candidates []
               in \<lparr>vc_vendor = v, vc_supported = ok, vc_reason = (if ok then [] else err)\<rparr>))"

definition detect_capabilities :: "prober \<Rightarrow> gpu_sys \<Rightarrow> hw_caps" where
  "detect_capabilities pr g =
     (let nv = (case pr Cuda None of
                  None \<Rightarrow> \<lparr>vc_vendor = Nvidia, vc_supported = True, vc_reason = []\<rparr>
                | Some e \<Rightarrow> \<lparr>vc_vendor = Nvidia, vc_supported = False, vc_reason = e\<rparr>);
          nodes = enumerate_vaapi_render_nodes g;
          vendors = [nv, vaapi_capability pr nodes Amd, vaapi_capability pr nodes Intel]
      in \<lparr>hc_supported = list_ex vc_supported vendors, hc_vendors = vendors\<rparr>)"

definition query_load_percent :: "gpu_sys \<Rightarrow> decode_vendor \<Rightarrow> nat option" where
  "query_load_percent g v =
     (case v of
        Nvidia \<Rightarrow>
          (case nvidia_smi g of None \<Rightarrow> None
           | Some out \<Rightarrow> (case str_lines out of [] \<Rightarrow> None | l # _ \<Rightarrow> parse_unsigned 32 (trim_text l)))
      | Amd \<Rightarrow>
          (case first_render_node_for g Amd of None \<Rightarrow> None
           | Some path \<Rightarrow>
               (let name = (case rsplit_once CHR ''/'' path of None \<Rightarrow> path | Some (_, b) \<Rightarrow> b)
                in case busy_percent g name of None \<Rightarrow> None
                   | Some t \<Rightarrow> parse_unsigned 32 (trim_text t)))
      | Intel \<Rightarrow> None)"

section \<open>Device policy\<close>

definition vendor_order :: "decode_vendor list" where
  "vendor_order = [Nvidia, Amd, Intel]"

definition has_vendor :: "vendor_capability list \<Rightarrow> decode_vendor \<Rightarrow> bool" where
  "has_vendor supported v \<longleftrightarrow> list_ex (\<lambda>c. vc_vendor c = v) supported"

definition pick_performance_vendor :: "vendor_capability list \<Rightarrow> decode_vendor option" where
  "pick_performance_vendor supported = find (has_vendor supported) vendor_order"

definition vendor_loads :: "gpu_sys \<Rightarrow> vendor_capability list \<Rightarrow> (decode_vendor \<times> nat) list" where
  "vendor_loads g supported =
     List.map_filter (\<lambda>v. map_option (Pair v) (query_load_percent g v)) (filter (has_vendor supported) vendor_order)"

definition pick_idle_resource_vendor :: "gpu_sys \<Rightarrow> vendor_capability list \<Rightarrow> decode_vendor option" where
  "pick_idle_resource_vendor g supported = map_option fst (min_by_key snd (vendor_loads g supported))"

fun decode_vendor_to_hw_vendor :: "decode_vendor \<Rightarrow> hw_vendor" where
  "decode_vendor_to_hw_vendor Nvidia = Cuda"
| "decode_vendor_to_hw_vendor Amd = Vaapi"
| "decode_vendor_to_hw_vendor Intel = Vaapi"

type_synonym hw_request = "hw_vendor \<times> string option"

definition resolve_hw_decode_request :: "gpu_sys \<Rightarrow> hw_caps \<Rightarrow> hw_flags \<Rightarrow> hw_request option" where
  "resolve_hw_decode_request g caps hw =
     (if \<not> hw_decode_enabled hw \<or> \<not> hc_supported caps then None
      else
        (let supported = filter vc_supported (hc_vendors caps)
         in if supported = [] then None
            else
              (let vendor = (case device_strategy hw of
                               Performance \<Rightarrow> pick_performance_vendor supported
                             | Idle_Resource \<Rightarrow>
                                 (case pick_idle_resource_vendor g supported of
                                    Some v \<Rightarrow> Some v | None \<Rightarrow> pick_performance_vendor supported))
               in case vendor of None \<Rightarrow> None
                  | Some v \<Rightarrow>
                      Some (decode_vendor_to_hw_vendor v,
                            if v = Nvidia then None else first_render_node_for g v))))"

definition hw_vendor_to_wire :: "decode_vendor \<Rightarrow> byte" where
  "hw_vendor_to_wire v = (case v of Nvidia \<Rightarrow> 0 | Amd \<Rightarrow> 1 | Intel \<Rightarrow> 2)"

definition write_hw_decode_caps :: "hw_caps \<Rightarrow> ('z, unit) wire" where
  "write_hw_decode_caps caps =
     write_all ((if hc_supported caps then 1 else 0) # word_of_nat (length (hc_vendors caps))
       # concat (map (\<lambda>v. hw_vendor_to_wire (vc_vendor v) # (if vc_supported v then 1 else 0)
                        # enc_text (vc_reason v)) (hc_vendors caps)))"

lemma find_some: "find P xs = Some x \<Longrightarrow> x \<in> set xs \<and> P x"
  by (auto simp: find_Some_iff)

lemma has_vendor_mem: "has_vendor supported v \<longleftrightarrow> v \<in> vc_vendor ` set supported"
  by (auto simp: has_vendor_def list_ex_iff)

lemma pick_performance_None: "pick_performance_vendor supported = None \<longleftrightarrow> supported = []"
proof -
  have "v \<in> set vendor_order" for v by (cases v) (simp_all add: vendor_order_def)
  then show ?thesis
    by (auto simp: pick_performance_vendor_def find_None_iff has_vendor_mem)
qed

lemma pick_performance_supported: "pick_performance_vendor supported = Some v \<Longrightarrow> has_vendor supported v"
  by (simp add: pick_performance_vendor_def find_some)

lemma vendor_loads_mem:
  "(v, l) \<in> set (vendor_loads g supported) \<longleftrightarrow> has_vendor supported v \<and> query_load_percent g v = Some l"
proof -
  have "v \<in> set vendor_order" by (cases v) (simp_all add: vendor_order_def)
  then show ?thesis by (force simp: vendor_loads_def map_filter_def)
qed

lemma pick_idle_least:
  assumes "pick_idle_resource_vendor g supported = Some v"
  shows "has_vendor supported v \<and>
    (\<exists>l. query_load_percent g v = Some l \<and>
       (\<forall>u m. has_vendor supported u \<and> query_load_percent g u = Some m \<longrightarrow> l \<le> m))"
proof -
  obtain l where m: "min_by_key snd (vendor_loads g supported) = Some (v, l)"
    using assms by (auto simp: pick_idle_resource_vendor_def)
  then have "(v, l) \<in> set (vendor_loads g supported)" by (rule min_by_key_mem)
  moreover have "l \<le> n" if "has_vendor supported u" "query_load_percent g u = Some n" for u n
    using min_by_key_least [OF m, of "(u, n)"] that by (simp add: vendor_loads_mem)
  ultimately show ?thesis by (auto simp: vendor_loads_mem)
qed

lemma pick_idle_None:
  "pick_idle_resource_vendor g supported = None \<longleftrightarrow>
     (\<forall>v. has_vendor supported v \<longrightarrow> query_load_percent g v = None)"
proof -
  have "vendor_loads g supported = [] \<longleftrightarrow> (\<forall>v l. (v, l) \<notin> set (vendor_loads g supported))"
    by (cases "vendor_loads g supported") auto
  then show ?thesis by (auto simp: pick_idle_resource_vendor_def vendor_loads_mem)
qed

definition chosen_vendor :: "gpu_sys \<Rightarrow> hw_caps \<Rightarrow> hw_flags \<Rightarrow> decode_vendor option" where
  "chosen_vendor g caps hw =
     (let supported = filter vc_supported (hc_vendors caps)
      in if device_strategy hw = Idle_Resource \<and> pick_idle_resource_vendor g supported \<noteq> None
         then pick_idle_resource_vendor g supported else pick_performance_vendor supported)"

lemma resolve_chosen:
  assumes "hw_decode_enabled hw" and "hc_supported caps"
  shows "resolve_hw_decode_request g caps hw =
    (case chosen_vendor g caps hw of None \<Rightarrow> None
     | Some v \<Rightarrow> Some (decode_vendor_to_hw_vendor v, if v = Nvidia then None else first_render_node_for g v))"
proof (cases "filter vc_supported (hc_vendors caps) = []")
  case True
  have "pick_idle_resource_vendor g [] = None" "pick_performance_vendor [] = None"
    by (simp_all add: pick_idle_None pick_performance_None has_vendor_def)
  with True assms show ?thesis by (simp add: resolve_hw_decode_request_def chosen_vendor_def)
next
  case False
  with assms show ?thesis
    by (cases "device_strategy hw")
      (auto simp: resolve_hw_decode_request_def chosen_vendor_def Let_def split: option.splits)
qed

text \<open>
  The device policy. Hardware decoding is requested exactly when it is enabled and the start-up
  probe found a usable vendor; the vendor requested was found usable; under the performance
  strategy no usable vendor precedes it in the order NVIDIA, AMD, Intel; under the idle strategy no
  usable vendor with a known load has a lower one.
\<close>

theorem hw_request_policy:
  assumes "hc_supported caps = list_ex vc_supported (hc_vendors caps)"
  shows "(resolve_hw_decode_request g caps hw \<noteq> None \<longleftrightarrow> hw_decode_enabled hw \<and> hc_supported caps) \<and>
    (\<forall>h d. resolve_hw_decode_request g caps hw = Some (h, d) \<longrightarrow>
      (\<exists>v. h = decode_vendor_to_hw_vendor v \<and> d = (if v = Nvidia then None else first_render_node_for g v) \<and>
         has_vendor (filter vc_supported (hc_vendors caps)) v \<and>
         (device_strategy hw = Performance \<longrightarrow> pick_performance_vendor (filter vc_supported (hc_vendors caps)) = Some v) \<and>
         (device_strategy hw = Idle_Resource \<longrightarrow>
            (\<forall>u m. has_vendor (filter vc_supported (hc_vendors caps)) u \<and> query_load_percent g u = Some m \<longrightarrow>
               (\<exists>l. query_load_percent g v = Some l \<and> l \<le> m)))))"
proof (cases "hw_decode_enabled hw \<and> hc_supported caps")
  case False
  then have "resolve_hw_decode_request g caps hw = None" by (auto simp: resolve_hw_decode_request_def)
  with False show ?thesis by simp
next
  case True
  let ?sup = "filter vc_supported (hc_vendors caps)"
  note r = resolve_chosen [OF conjunct1 [OF True] conjunct2 [OF True], of g]
  have "?sup \<noteq> []" using True assms by (auto simp: list_ex_iff filter_empty_conv)
  then obtain p where p: "pick_performance_vendor ?sup = Some p"
    using pick_performance_None by (cases "pick_performance_vendor ?sup") auto
  then have "chosen_vendor g caps hw \<noteq> None" by (simp add: chosen_vendor_def Let_def)
  then obtain v where v: "chosen_vendor g caps hw = Some v" by blast
  have perf: "device_strategy hw = Performance \<Longrightarrow> v = p"
    using v p by (simp add: chosen_vendor_def)
  have idle: "\<exists>l. query_load_percent g v = Some l \<and> l \<le> m"
    if "device_strategy hw = Idle_Resource" "has_vendor ?sup u" "query_load_percent g u = Some m" for u m
  proof -
    have "pick_idle_resource_vendor g ?sup = Some v"
      using v that pick_idle_None [of g ?sup] by (auto simp: chosen_vendor_def Let_def split: if_splits)
    from pick_idle_least [OF this] that(2,3) show ?thesis by blast
  qed
  have "has_vendor ?sup v"
  proof (cases "v = p")
    case True
    then show ?thesis using pick_performance_supported [OF p] by simp
  next
    case False
    with v p have "pick_idle_resource_vendor g ?sup = Some v"
      by (auto simp: chosen_vendor_def Let_def split: if_splits)
    then show ?thesis using pick_idle_least by blast
  qed
  with r v True p perf idle show ?thesis by auto
qed

section \<open>Capabilities\<close>

lemma probe_nodes_ok: "fst (probe_nodes pr ps e) \<longleftrightarrow> (\<exists>p \<in> set ps. pr Vaapi (Some p) = None)"
  by (induction ps arbitrary: e) (auto split: option.split)

lemma vaapi_capability_sel:
  "vc_vendor (vaapi_capability pr nodes v) = v"
  "vc_supported (vaapi_capability pr nodes v) \<longleftrightarrow> (\<exists>p. (v, p) \<in> set nodes \<and> pr Vaapi (Some p) = None)"
proof -
  let ?c = "map snd (filter (\<lambda>(u, _). u = v) nodes)"
  have mem: "p \<in> set ?c \<longleftrightarrow> (v, p) \<in> set nodes" for p by force
  show "vc_vendor (vaapi_capability pr nodes v) = v"
    by (simp add: vaapi_capability_def Let_def split: prod.split)
  show "vc_supported (vaapi_capability pr nodes v) \<longleftrightarrow> (\<exists>p. (v, p) \<in> set nodes \<and> pr Vaapi (Some p) = None)"
  proof (cases "?c = []")
    case True
    then have "\<And>p. (v, p) \<notin> set nodes" using mem by (metis list.set_cases neq_Nil_conv)
    with True show ?thesis by (simp add: vaapi_capability_def)
  next
    case False
    then have "vc_supported (vaapi_capability pr nodes v) \<longleftrightarrow> fst (probe_nodes pr ?c [])"
      by (simp add: vaapi_capability_def Let_def split: prod.split)
    also have "\<dots> \<longleftrightarrow> (\<exists>p. (v, p) \<in> set nodes \<and> pr Vaapi (Some p) = None)"
      unfolding probe_nodes_ok using mem by blast
    finally show ?thesis .
  qed
qed

text \<open>
  What the start-up probe reports: the three vendors in order; NVIDIA exactly when a CUDA
  context can be created, AMD and Intel exactly when one of their own render nodes can be opened;
  and the overall flag is set exactly when some vendor is usable.
\<close>

theorem capabilities_exact:
  "map vc_vendor (hc_vendors (detect_capabilities pr g)) = [Nvidia, Amd, Intel] \<and>
   (\<forall>c \<in> set (hc_vendors (detect_capabilities pr g)).
      vc_supported c \<longleftrightarrow>
        (if vc_vendor c = Nvidia then pr Cuda None = None
         else \<exists>p. (vc_vendor c, p) \<in> set (enumerate_vaapi_render_nodes g) \<and> pr Vaapi (Some p) = None)) \<and>
   (hc_supported (detect_capabilities pr g) \<longleftrightarrow> (\<exists>c \<in> set (hc_vendors (detect_capabilities pr g)). vc_supported c))"
  by (simp add: detect_capabilities_def Let_def vaapi_capability_sel split: option.split)

section \<open>Shared device contexts\<close>

text \<open>
  \<^verbatim>\<open>HwDeviceContext::create\<close>. Device contexts are numbered as FFmpeg creates them; \<open>refs\<close> is the
  reference count of each. \<open>in_flight\<close> holds the contexts opened by threads that have not retaken
  the lock, \<open>held\<close> the contexts handed out and not yet dropped.
\<close>

type_synonym ctx_key = "hw_vendor \<times> string option"

record ctx_state =
  ctx_cache :: "(ctx_key \<times> nat) list"
  refs :: "nat \<Rightarrow> nat"
  next_ctx :: nat
  in_flight :: "(ctx_key \<times> nat) list"
  held :: "nat list"

definition ctx_init :: ctx_state where
  "ctx_init = \<lparr>ctx_cache = [], refs = (\<lambda>_. 0), next_ctx = 0, in_flight = [], held = []\<rparr>"

definition bump :: "nat \<Rightarrow> ctx_state \<Rightarrow> ctx_state" where
  "bump d s = s\<lparr>refs := (refs s)(d := Suc (refs s d))\<rparr>"

definition unref :: "nat \<Rightarrow> ctx_state \<Rightarrow> ctx_state" where
  "unref d s = s\<lparr>refs := (refs s)(d := refs s d - 1)\<rparr>"

datatype ctx_result = Ready nat | Opened | Open_Failed

text \<open>The first half, under the lock: a cached context is shared, otherwise FFmpeg opens one (\<open>opens\<close>).\<close>

definition create_begin :: "ctx_key \<Rightarrow> bool \<Rightarrow> ctx_state \<Rightarrow> ctx_result \<times> ctx_state" where
  "create_begin k opens s =
     (case map_of (ctx_cache s) k of
        Some d \<Rightarrow> (Ready d, (bump d s)\<lparr>held := d # held s\<rparr>)
      | None \<Rightarrow>
          if \<not> opens then (Open_Failed, s)
          else (Opened, s\<lparr>next_ctx := Suc (next_ctx s), refs := (refs s)(next_ctx s := 1),
                          in_flight := (k, next_ctx s) # in_flight s\<rparr>))"

text \<open>The second half, under the lock again: whoever came first is kept.\<close>

definition create_end :: "ctx_key \<Rightarrow> nat \<Rightarrow> ctx_state \<Rightarrow> nat \<times> ctx_state" where
  "create_end k raw s =
     (let s = s\<lparr>in_flight := remove1 (k, raw) (in_flight s)\<rparr>
      in case map_of (ctx_cache s) k of
           Some d \<Rightarrow> (d, (unref raw (bump d s))\<lparr>held := d # held s\<rparr>)
         | None \<Rightarrow> (raw, (bump raw s)\<lparr>ctx_cache := (k, raw) # ctx_cache s, held := raw # held s\<rparr>))"

text \<open>\<^verbatim>\<open>Drop\<close> of a context handed out, or the free of the codec context that took it over.\<close>

definition drop_ctx :: "nat \<Rightarrow> ctx_state \<Rightarrow> ctx_state" where
  "drop_ctx d s = (unref d s)\<lparr>held := remove1 d (held s)\<rparr>"

inductive ctx_step :: "ctx_state \<Rightarrow> ctx_state \<Rightarrow> bool" where
  st_begin: "create_begin k opens s = (r, t) \<Longrightarrow> ctx_step s t"
| st_finish: "(k, raw) \<in> set (in_flight s) \<Longrightarrow> create_end k raw s = (d, t) \<Longrightarrow> ctx_step s t"
| st_drop: "d \<in> set (held s) \<Longrightarrow> ctx_step s (drop_ctx d s)"

inductive ctx_reach :: "ctx_state \<Rightarrow> bool" where
  init: "ctx_reach ctx_init"
| step: "ctx_reach s \<Longrightarrow> ctx_step s t \<Longrightarrow> ctx_reach t"

definition owners :: "nat \<Rightarrow> ctx_state \<Rightarrow> nat" where
  "owners d s =
     count_list (held s) d + count_list (map snd (in_flight s)) d + count_list (map snd (ctx_cache s)) d"

definition ctx_ok :: "ctx_state \<Rightarrow> bool" where
  "ctx_ok s \<longleftrightarrow> (\<forall>d. refs s d = owners d s) \<and> keys_ok (ctx_cache s) \<and>
     (\<forall>d. next_ctx s \<le> d \<longrightarrow> owners d s = 0)"

lemma count_remove1: "count_list (remove1 x xs) y = count_list xs y - (if x = y then 1 else 0)"
  by (induction xs) auto

lemma count_pos: "x \<in> set xs \<Longrightarrow> 0 < count_list xs x"
  by (induction xs) auto

lemma count_map_remove1:
  "x \<in> set xs \<Longrightarrow> count_list (map f (remove1 x xs)) y = count_list (map f xs) y - (if f x = y then 1 else 0)"
proof (induction xs)
  case Nil
  then show ?case by simp
next
  case (Cons a xs)
  have "0 < count_list (map f xs) (f x)" if "x \<in> set xs"
    using that by (intro count_pos) simp
  with Cons show ?case by auto
qed

lemma owners_cached: "map_of (ctx_cache s) k = Some d \<Longrightarrow> 0 < owners d s"
  using count_pos [of d "map snd (ctx_cache s)"] by (force simp: owners_def dest: map_of_SomeD)

lemma ctx_ok_begin:
  assumes "ctx_ok s" and "create_begin k opens s = (r, t)"
  shows "ctx_ok t"
proof (cases "map_of (ctx_cache s) k")
  case (Some d)
  have "d < next_ctx s"
    using owners_cached [OF Some] assms(1) unfolding ctx_ok_def by (metis less_irrefl not_le)
  with Some assms show ?thesis by (auto simp: create_begin_def ctx_ok_def owners_def bump_def)
next
  case None
  have "owners (next_ctx s) s = 0" using assms(1) by (simp add: ctx_ok_def)
  with None assms show ?thesis
    by (auto simp: create_begin_def ctx_ok_def owners_def split: if_splits)
qed

lemma ctx_ok_finish:
  assumes ok: "ctx_ok s" and fl: "(k, raw) \<in> set (in_flight s)" and st: "create_end k raw s = (d, t)"
  shows "ctx_ok t"
proof -
  have c: "count_list (map snd (remove1 (k, raw) (in_flight s))) y =
      count_list (map snd (in_flight s)) y - (if raw = y then 1 else 0)" for y
    using count_map_remove1 [OF fl, of snd y] by simp
  have raw: "0 < count_list (map snd (in_flight s)) raw"
    by (rule count_pos) (use fl in force)
  then have "0 < owners raw s" by (simp add: owners_def)
  then have lt: "raw < next_ctx s" using ok unfolding ctx_ok_def by (metis less_irrefl not_le)
  show ?thesis
  proof (cases "map_of (ctx_cache s) k")
    case (Some e)
    have "e < next_ctx s"
      using owners_cached [OF Some] ok unfolding ctx_ok_def by (metis less_irrefl not_le)
    with Some ok st raw lt c show ?thesis
      by (auto simp: create_end_def Let_def ctx_ok_def owners_def bump_def unref_def)
  next
    case None
    then have "k \<notin> fst ` set (ctx_cache s)" by (simp add: map_of_eq_None_iff)
    with None ok st raw lt c show ?thesis
      by (auto simp: create_end_def Let_def ctx_ok_def owners_def bump_def keys_ok_def)
  qed
qed

lemma ctx_ok_drop:
  assumes "ctx_ok s" and "d \<in> set (held s)"
  shows "ctx_ok (drop_ctx d s)"
  using assms count_pos [OF assms(2)]
  by (auto simp: drop_ctx_def unref_def ctx_ok_def owners_def count_remove1)

lemma ctx_reach_ok: "ctx_reach s \<Longrightarrow> ctx_ok s"
proof (induction rule: ctx_reach.induct)
  case init
  then show ?case by (simp add: ctx_ok_def ctx_init_def owners_def)
next
  case (step s t)
  from step.hyps(2) step.IH show ?case
    by (cases rule: ctx_step.cases) (auto intro: ctx_ok_begin ctx_ok_finish ctx_ok_drop)
qed

text \<open>
  Device contexts are shared and freed exactly right. In every state that any interleaving of
  threads creating and dropping contexts reaches: a context's reference count is the number of its
  owners (handed out, being opened, cached), the cache has one context per vendor and device and
  keeps it alive, and a context without owners has count 0.
\<close>

theorem device_contexts_counted:
  assumes "ctx_reach s"
  shows "refs s d = count_list (held s) d + count_list (map snd (in_flight s)) d + count_list (map snd (ctx_cache s)) d \<and>
    distinct (map fst (ctx_cache s)) \<and>
    (map_of (ctx_cache s) k = Some d \<longrightarrow> 0 < refs s d)"
  using ctx_reach_ok [OF assms] owners_cached [of s k d]
  by (auto simp: ctx_ok_def owners_def keys_ok_def)

section \<open>The pixel format callback\<close>

text \<open>
  \<^verbatim>\<open>get_format\<close> on the offered formats before the terminator; \<open>target\<close> is \<open>None\<close> without \<^verbatim>\<open>opaque\<close>.
\<close>

definition get_format :: "pix_fmt option \<Rightarrow> pix_fmt list \<Rightarrow> pix_fmt" where
  "get_format target fmts =
     (let t = (case target of None \<Rightarrow> Fmt_None | Some t \<Rightarrow> t)
      in case find (\<lambda>f. f = t) fmts of Some f \<Rightarrow> f | None \<Rightarrow> (case fmts of [] \<Rightarrow> Fmt_None | f # _ \<Rightarrow> f))"

text \<open>\<^verbatim>\<open>GetFormatCtx::disable\<close> and the target that \<^verbatim>\<open>attach_hw_device\<close> sets.\<close>

definition attach_target :: "hw_vendor \<Rightarrow> pix_fmt" where
  "attach_target v = hw_pix_fmt v"

definition disabled_target :: pix_fmt where
  "disabled_target = Fmt_None"

lemma get_format_cases:
  "get_format (Some t) fmts = (if t \<in> set fmts then t else case fmts of [] \<Rightarrow> Fmt_None | f # _ \<Rightarrow> f)"
  by (auto simp: get_format_def find_None_iff find_Some_iff split: option.split)

section \<open>Witnesses\<close>

definition demo_gpu :: gpu_sys where
  "demo_gpu = \<lparr>drm_dir = Some [(''card0'', None), (''renderD128'', Some (''0x1002'' @ [CHR 0x0A]))],
     busy_percent = (\<lambda>n. if n = ''renderD128'' then Some (''7'' @ [CHR 0x0A]) else None),
     nvidia_smi = Some (''30'' @ [CHR 0x0A])\<rparr>"

definition demo_caps :: hw_caps where
  "demo_caps = detect_capabilities (\<lambda>_ _. None) demo_gpu"

theorem hw_request_policy_witness:
  "resolve_hw_decode_request demo_gpu demo_caps demo_hw \<noteq> None"
proof -
  have "hc_supported demo_caps" "hc_supported demo_caps = list_ex vc_supported (hc_vendors demo_caps)"
    by (simp_all add: demo_caps_def detect_capabilities_def Let_def)
  then show ?thesis
    using hw_request_policy [of demo_caps demo_gpu demo_hw] by (simp add: demo_hw_def)
qed

theorem capabilities_exact_witness:
  "\<exists>c \<in> set (hc_vendors demo_caps). vc_vendor c = Nvidia \<and> vc_supported c"
  using capabilities_exact [of "\<lambda>_ _. None" demo_gpu] unfolding demo_caps_def by auto

theorem device_contexts_counted_witness:
  "refs (snd (create_begin (Cuda, None) True ctx_init)) 0 = 1"
proof -
  have "ctx_reach (snd (create_begin (Cuda, None) True ctx_init))"
    by (rule ctx_reach.step [OF ctx_reach.init ctx_step.st_begin]) (rule prod.collapse [symmetric])
  from device_contexts_counted [OF this, of 0] show ?thesis
    by (simp add: create_begin_def ctx_init_def)
qed

end
