(* ===== verification/Decoder.thy ===== *)
theory Decoder
  imports Demux Hw_Decode
begin

text \<open>
  Decoding: \<^verbatim>\<open>decode_range_hw\<close> with its producer, \<^verbatim>\<open>decode_and_encode_hw\<close> and the helpers of
  \<^verbatim>\<open>crates/jfs-common/src/decoder.rs\<close>.

  FFmpeg, libswscale and the WebP encoder are the parameter record \<open>ffmpeg\<close>. A decoder takes a packet
  and makes frames ready, which \<^verbatim>\<open>receive_frame\<close> returns in order; at the end of the stream it makes the
  frames it held back ready. The cancel flag is polled at numbered points (\<open>nat \<Rightarrow> bool\<close>), and the
  channel to the consumer accepts items until the consumer is gone.
\<close>

section \<open>Frames and FFmpeg\<close>

record video_frame =
  vf_best :: "int option"
  vf_pts :: "int option"
  vf_fmt :: pix_fmt
  vf_width :: nat
  vf_height :: nat
  vf_pix :: "byte list"

record frame_rgba =
  fr_rgba :: "byte list"
  fr_w :: nat
  fr_h :: nat

record 'd ffmpeg =
  ff_opens :: bool
  ff_video :: "video_stream option"
  ff_packets :: "int \<Rightarrow> packet list"
  ff_context :: "bool \<Rightarrow> bool"
  ff_open_decoder :: "bool \<Rightarrow> 'd option"
  ff_decode :: "pix_fmt option \<Rightarrow> packet \<Rightarrow> 'd \<Rightarrow> (video_frame list \<times> 'd) option"
  ff_drain :: "pix_fmt option \<Rightarrow> 'd \<Rightarrow> video_frame list"
  ff_attach :: "hw_request \<Rightarrow> string option"
  ff_transfer :: "video_frame \<Rightarrow> string + video_frame"
  ff_scale :: "video_frame \<Rightarrow> nat \<Rightarrow> nat \<Rightarrow> byte list option"
  ff_lossy :: "frame_rgba \<Rightarrow> byte list option"
  ff_lossless :: "frame_rgba \<Rightarrow> byte list option"

text \<open>The output size of \<^verbatim>\<open>frame_to_rgba\<close>: rounded up to even, at least two rows.\<close>

definition even_up :: "nat \<Rightarrow> nat" where
  "even_up n = 2 * (((n + 1) mod 2 ^ 32) div 2)"

definition target_dims :: "video_frame \<Rightarrow> nat \<Rightarrow> nat \<times> nat" where
  "target_dims f width =
     (if width = 0 then (vf_width f, vf_height f)
      else
        (let aspect = f_div (f_of_int (int (vf_width f))) (f_of_int (int (vf_height f)))
         in (even_up width, even_up (max 2 (f_to_u32 (f_div (f_of_int (int width)) aspect))))))"

definition frame_to_rgba :: "'d ffmpeg \<Rightarrow> video_frame \<Rightarrow> nat \<Rightarrow> frame_rgba option" where
  "frame_to_rgba ff f width =
     (let (w, h) = target_dims f width
      in case ff_scale ff f w h of None \<Rightarrow> None
         | Some px \<Rightarrow> Some \<lparr>fr_rgba = px, fr_w = w, fr_h = h\<rparr>)"

section \<open>Hardware surfaces\<close>

type_synonym hw_active = "(hw_vendor \<times> pix_fmt) option"

datatype fallback = Init_Failed string | Runtime_Fallback string

text \<open>\<^verbatim>\<open>try_attach_hw\<close>: the active vendor with the format its \<^verbatim>\<open>get_format\<close> asks for.\<close>

definition try_attach_hw :: "'d ffmpeg \<Rightarrow> hw_request \<Rightarrow> hw_active \<times> fallback list" where
  "try_attach_hw ff req =
     (case ff_attach ff req of
        None \<Rightarrow> (Some (fst req, attach_target (fst req)), [])
      | Some e \<Rightarrow> (None, [Init_Failed e]))"

definition is_hw_frame :: "video_frame \<Rightarrow> hw_vendor \<Rightarrow> bool" where
  "is_hw_frame f v \<longleftrightarrow> vf_fmt f = hw_pix_fmt v"

definition resolve_decoded_frame ::
  "'d ffmpeg \<Rightarrow> video_frame \<Rightarrow> hw_active \<Rightarrow> video_frame option \<times> hw_active \<times> fallback list" where
  "resolve_decoded_frame ff f hw =
     (case hw of
        None \<Rightarrow> (Some f, hw, [])
      | Some (v, target) \<Rightarrow>
          if \<not> is_hw_frame f v then (Some f, hw, [])
          else (case ff_transfer ff f of
                  Inr sw \<Rightarrow> (Some sw, hw, [])
                | Inl e \<Rightarrow> (None, Some (v, disabled_target), [Runtime_Fallback e])))"

section \<open>The producer of a range\<close>

datatype item = Frame_Item int int frame_rgba "frame_rgba option" | Fallback_Item fallback

datatype flow = Go | Stop | Fail

record 'd range_state =
  left_map :: "(int \<times> int) list"
  dec :: 'd
  hw_now :: hw_active
  out :: "item list"
  polls :: nat

text \<open>\<^verbatim>\<open>BTreeMap\<close>: an association list with ascending keys.\<close>

fun btree_insert :: "int \<Rightarrow> int \<Rightarrow> (int \<times> int) list \<Rightarrow> (int \<times> int) list" where
  "btree_insert k v [] = [(k, v)]"
| "btree_insert k v ((j, w) # m) =
     (if k < j then (k, v) # (j, w) # m else if k = j then (k, v) # m else (j, w) # btree_insert k v m)"

definition btree_of :: "(int \<times> int) list \<Rightarrow> (int \<times> int) list" where
  "btree_of targets = fold (\<lambda>(fi, ms). btree_insert ms fi) targets []"

definition two_frame_ms :: "video_stream \<Rightarrow> int" where
  "two_frame_ms v =
     (let (fps_num, fps_den) = stream_fps v
      in 2 * (if 0 < fps_num \<and> 0 < fps_den then quot (fps_den * 1000) fps_num + 1 else 33))"

text \<open>Everything a run of the producer is given: FFmpeg, the stream, the window, the width, the cancel flag, the channel.\<close>

record 'd range_env =
  re_ff :: "'d ffmpeg"
  re_stream :: video_stream
  re_first :: int
  re_last :: int
  re_width :: nat
  re_cancel :: "nat \<Rightarrow> bool"
  re_accepts :: "nat \<Rightarrow> bool"

definition poll_cancel :: "'d range_env \<Rightarrow> 'd range_state \<Rightarrow> bool \<times> 'd range_state" where
  "poll_cancel env s = (re_cancel env (polls s), s\<lparr>polls := Suc (polls s)\<rparr>)"

definition send_item :: "'d range_env \<Rightarrow> item \<Rightarrow> 'd range_state \<Rightarrow> bool \<times> 'd range_state" where
  "send_item env it s =
     (if re_accepts env (length (out s)) then (True, s\<lparr>out := out s @ [it]\<rparr>) else (False, s))"

definition send_fallbacks :: "'d range_env \<Rightarrow> fallback list \<Rightarrow> 'd range_state \<Rightarrow> 'd range_state" where
  "send_fallbacks env evs s = fold (\<lambda>e s. snd (send_item env (Fallback_Item e) s)) evs s"

definition make_item :: "'d ffmpeg \<Rightarrow> nat \<Rightarrow> int \<Rightarrow> int \<Rightarrow> video_frame \<Rightarrow> item option" where
  "make_item ff width fi pos f =
     (if width = 0 then
        (case frame_to_rgba ff f 0 of None \<Rightarrow> None | Some r \<Rightarrow> Some (Frame_Item fi pos r None))
      else
        (case frame_to_rgba ff f width of None \<Rightarrow> None
         | Some th \<Rightarrow>
             (case frame_to_rgba ff f 0 of None \<Rightarrow> None
              | Some orig \<Rightarrow> Some (Frame_Item fi pos th (Some orig)))))"

definition emit :: "'d range_env \<Rightarrow> int \<Rightarrow> int \<Rightarrow> video_frame \<Rightarrow> 'd range_state \<Rightarrow> flow \<times> 'd range_state" where
  "emit env fi pos f s =
     (case make_item (re_ff env) (re_width env) fi pos f of
        None \<Rightarrow> (Fail, s)
      | Some it \<Rightarrow> (let (sent, s) = send_item env it s in (if sent then Go else Stop, s)))"

text \<open>What follows a matched frame: stop when cancelled or when no target is left.\<close>

definition after_match :: "'d range_env \<Rightarrow> 'd range_state \<Rightarrow> flow \<times> 'd range_state" where
  "after_match env s =
     (let (c, s) = poll_cancel env s
      in (if c then Stop else if left_map s = [] then Stop else Go, s))"

text \<open>
  The target within two frames of a decoded frame. The upper bound wraps in a release build; for a frame less than two
  frames below \<^verbatim>\<open>i64::MAX\<close> milliseconds it then lies below the lower one, where \<^verbatim>\<open>BTreeMap::range\<close> panics and
  the model finds nothing. No frame gets there: such times are three hundred million years.
\<close>

definition match_target :: "'d range_env \<Rightarrow> int \<Rightarrow> (int \<times> int) list \<Rightarrow> (int \<times> int) option" where
  "match_target env pts_ms m =
     (let two = two_frame_ms (re_stream env);
          lo = sat_sub_i64 pts_ms two;
          hi = wrap_i64 (pts_ms + two)
      in min_by_key (\<lambda>(t, _). \<bar>t - pts_ms\<bar>) (filter (\<lambda>(t, _). lo \<le> t \<and> t \<le> hi) m))"

definition take_frame :: "'d range_env \<Rightarrow> int \<Rightarrow> video_frame \<Rightarrow> 'd range_state \<Rightarrow> flow \<times> 'd range_state" where
  "take_frame env pts_ms f s =
     (case match_target env pts_ms (left_map s) of
        None \<Rightarrow> (Go, s)
      | Some (t, fi) \<Rightarrow>
          (let s = s\<lparr>left_map := filter (\<lambda>(u, _). u \<noteq> t) (left_map s)\<rparr>;
               (r, hw, evs) = resolve_decoded_frame (re_ff env) f (hw_now s);
               s = send_fallbacks env evs (s\<lparr>hw_now := hw\<rparr>)
           in case r of
                None \<Rightarrow> after_match env s
              | Some g \<Rightarrow>
                  (let (fl, s) = emit env fi t g s
                   in if fl = Go then after_match env s else (fl, s))))"

definition frame_ms :: "video_stream \<Rightarrow> int \<Rightarrow> video_frame \<Rightarrow> int" where
  "frame_ms v fallback_pts f =
     (let fpts = (case vf_best f of Some b \<Rightarrow> b | None \<Rightarrow> (case vf_pts f of Some p \<Rightarrow> p | None \<Rightarrow> fallback_pts))
      in if tb_valid (vs_tb v) then rel_ms v fpts else 0)"

text \<open>One frame of the main loop, and one of the flush after the end of the stream.\<close>

definition main_frame :: "'d range_env \<Rightarrow> int \<Rightarrow> video_frame \<Rightarrow> 'd range_state \<Rightarrow> flow \<times> 'd range_state" where
  "main_frame env pkt_pts f s =
     (let ms = frame_ms (re_stream env) pkt_pts f
      in if ms < re_first env then (Go, s)
         else if wrap_i64 (re_last env + 500) < ms then (Stop, s)
         else take_frame env ms f s)"

definition flush_frame :: "'d range_env \<Rightarrow> video_frame \<Rightarrow> 'd range_state \<Rightarrow> flow \<times> 'd range_state" where
  "flush_frame env f s =
     (let ms = frame_ms (re_stream env) 0 f
      in if ms < re_first env \<or> wrap_i64 (re_last env + 500) < ms then (Go, s)
         else take_frame env ms f s)"

text \<open>Receiving the ready frames; what is not received stays ready.\<close>

fun recv_loop ::
  "(video_frame \<Rightarrow> 'd range_state \<Rightarrow> flow \<times> 'd range_state) \<Rightarrow> video_frame list \<Rightarrow> 'd range_state \<Rightarrow>
     flow \<times> video_frame list \<times> 'd range_state" where
  "recv_loop step [] s = (Go, [], s)"
| "recv_loop step (f # fs) s =
     (let (fl, s) = step f s in if fl = Go then recv_loop step fs s else (fl, fs, s))"

fun packet_loop :: "'d range_env \<Rightarrow> packet list \<Rightarrow> 'd range_state \<Rightarrow> flow \<times> video_frame list \<times> 'd range_state" where
  "packet_loop env [] s = (Stop, [], s)"
| "packet_loop env (p # ps) s =
     (if pk_stream p \<noteq> vs_index (re_stream env) then packet_loop env ps s
      else
        (let (c, s) = poll_cancel env s; v = re_stream env
         in if c then (Stop, [], s)
            else if tb_valid (vs_tb v) \<and>
                 wrap_i64 (re_last env + 1000) < wrap_i64 (raw_ms (vs_tb v) (pkt_ts p) - stream_start_ms v)
            then (Stop, [], s)
            else
              (case ff_decode (re_ff env) (map_option snd (hw_now s)) p (dec s) of
                 None \<Rightarrow> packet_loop env ps s
               | Some (fs, d) \<Rightarrow>
                   (let (fl, rest, s) = recv_loop (main_frame env (pkt_ts p)) fs (s\<lparr>dec := d\<rparr>)
                    in if fl = Go then packet_loop env ps s else (fl, rest, s)))))"

datatype range_error = Open_Error | No_Video | Decoder_Error | Scale_Error

definition flush_phase :: "'d range_env \<Rightarrow> video_frame list \<Rightarrow> 'd range_state \<Rightarrow> flow \<times> 'd range_state" where
  "flush_phase env ready s =
     (if left_map s = [] then (Stop, s)
      else
        (let (c, s) = poll_cancel env s
         in if c then (Stop, s)
            else
              (let (fl, _, s) = recv_loop (flush_frame env)
                     (ready @ ff_drain (re_ff env) (map_option snd (hw_now s)) (dec s)) s
               in (fl, s))))"

definition run_range :: "'d range_env \<Rightarrow> 'd range_state \<Rightarrow> (range_error + unit) \<times> item list" where
  "run_range env s =
     (let (fl, ready, s) = packet_loop env (ff_packets (re_ff env) (wrap_i64 (sat_sub_i64 (re_first env) 100 * 1000))) s
      in if fl = Fail then (Inl Scale_Error, out s)
         else
           (let (fl, s) = flush_phase env ready s
            in (if fl = Fail then Inl Scale_Error else Inr (), out s)))"

definition decode_range_producer ::
  "'d ffmpeg \<Rightarrow> (int \<times> int) list \<Rightarrow> nat \<Rightarrow> (nat \<Rightarrow> bool) \<Rightarrow> hw_request option \<Rightarrow> (nat \<Rightarrow> bool) \<Rightarrow>
     (range_error + unit) \<times> item list" where
  "decode_range_producer ff targets width cancel hw accepts =
     (if \<not> ff_opens ff then (Inl Open_Error, [])
      else case ff_video ff of
        None \<Rightarrow> (Inl No_Video, [])
      | Some v \<Rightarrow>
          if \<not> ff_context ff (hw \<noteq> None) then (Inl Decoder_Error, [])
          else
          (let (active, evs) = (case hw of None \<Rightarrow> (None, []) | Some req \<Rightarrow> try_attach_hw ff req);
               env = \<lparr>re_ff = ff, re_stream = v, re_first = snd (hd targets), re_last = snd (last targets),
                      re_width = width, re_cancel = cancel, re_accepts = accepts\<rparr>
           in case ff_open_decoder ff (hw \<noteq> None) of
                None \<Rightarrow> (Inl Decoder_Error, if evs \<noteq> [] \<and> accepts 0 then map Fallback_Item evs else [])
              | Some d \<Rightarrow>
                  run_range env
                    (send_fallbacks env evs
                      \<lparr>left_map = btree_of targets, dec = d, hw_now = active, out = [], polls = 0\<rparr>)))"

section \<open>The consumer of a range\<close>

text \<open>
  \<^verbatim>\<open>decode_range_hw\<close>: items are encoded and handed to the caller's callbacks, which have a state of
  their own; the first error ends the call, cancellation ends it after the frame in hand.
\<close>

type_synonym 's frame_sink = "int \<Rightarrow> int \<Rightarrow> byte list \<Rightarrow> byte list \<Rightarrow> 's \<Rightarrow> bool \<times> 's"

datatype range_result = Range_Ok | Range_Error range_error | Encode_Error | Sink_Error

definition encode_item :: "'d ffmpeg \<Rightarrow> frame_rgba \<Rightarrow> frame_rgba option \<Rightarrow> (byte list \<times> byte list) option" where
  "encode_item ff thumb orig =
     (case orig of
        None \<Rightarrow> (case ff_lossless ff thumb of None \<Rightarrow> None | Some t \<Rightarrow> Some (t, []))
      | Some r \<Rightarrow>
          (case ff_lossy ff thumb of None \<Rightarrow> None
           | Some t \<Rightarrow> (case ff_lossless ff r of None \<Rightarrow> None | Some b \<Rightarrow> Some (t, b))))"

fun consume ::
  "'d ffmpeg \<Rightarrow> (fallback \<Rightarrow> 's \<Rightarrow> 's) \<Rightarrow> 's frame_sink \<Rightarrow> (nat \<Rightarrow> bool) \<Rightarrow> nat \<Rightarrow> item list \<Rightarrow> 's \<Rightarrow>
     range_result \<times> 's" where
  "consume ff on_fb sink cancel n [] s = (Range_Ok, s)"
| "consume ff on_fb sink cancel n (Fallback_Item e # its) s = consume ff on_fb sink cancel n its (on_fb e s)"
| "consume ff on_fb sink cancel n (Frame_Item fi pos th orig # its) s =
     (case encode_item ff th orig of
        None \<Rightarrow> (Encode_Error, s)
      | Some (t, b) \<Rightarrow>
          (let (ok, s) = sink fi pos t b s
           in if \<not> ok then (Sink_Error, s)
              else if cancel n then (Range_Ok, s)
              else consume ff on_fb sink cancel (Suc n) its s))"

definition decode_range_hw ::
  "'d ffmpeg \<Rightarrow> (int \<times> int) list \<Rightarrow> nat \<Rightarrow> (nat \<Rightarrow> bool) \<Rightarrow> (nat \<Rightarrow> bool) \<Rightarrow> (nat \<Rightarrow> bool) \<Rightarrow> hw_request option \<Rightarrow>
     (fallback \<Rightarrow> 's \<Rightarrow> 's) \<Rightarrow> 's frame_sink \<Rightarrow> 's \<Rightarrow> range_result \<times> 's" where
  "decode_range_hw ff targets width cancel_p cancel_c accepts hw on_fb sink s =
     (if targets = [] then (Range_Ok, s)
      else
        (let (res, items) = decode_range_producer ff targets width cancel_p hw accepts;
             (r, s) = consume ff on_fb sink cancel_c 0 items s
         in (if r \<noteq> Range_Ok then r else case res of Inl e \<Rightarrow> Range_Error e | Inr _ \<Rightarrow> Range_Ok, s)))"

section \<open>One frame\<close>

fun single_loop ::
  "'d ffmpeg \<Rightarrow> video_stream \<Rightarrow> int \<Rightarrow> pix_fmt option \<Rightarrow> packet list \<Rightarrow> 'd \<Rightarrow> (video_frame \<times> int) option \<Rightarrow>
     (video_frame \<times> int) option \<times> 'd" where
  "single_loop ff v target_pts fmt [] d best = (best, d)"
| "single_loop ff v target_pts fmt (p # ps) d best =
     (if pk_stream p \<noteq> vs_index v then single_loop ff v target_pts fmt ps d best
      else if target_pts < pkt_ts p \<and> best \<noteq> None then (best, d)
      else case ff_decode ff fmt p d of
             None \<Rightarrow> single_loop ff v target_pts fmt ps d best
           | Some (fs, d) \<Rightarrow>
               (let best = (if fs = [] then best else Some (last fs, pkt_ts p))
                in if target_pts \<le> pkt_ts p then (best, d)
                   else single_loop ff v target_pts fmt ps d best))"

definition target_pts_of :: "int \<times> int \<Rightarrow> int \<Rightarrow> int" where
  "target_pts_of tb pos =
     (if tb_valid tb
      then f_to_i64 (f_div (f_mul (f_of_int pos) (f_of_int (snd tb))) (f_mul (f_of_int (fst tb)) (Fin 1000)))
      else 0)"

datatype single_error = S_Open | S_No_Video | S_Decoder | S_No_Frame | S_Encode

datatype single_pass = Done "single_error + decode_result" | Retry_Software

definition encode_single :: "'d ffmpeg \<Rightarrow> video_frame \<Rightarrow> nat \<Rightarrow> (byte list \<times> byte list) option" where
  "encode_single ff f width =
     (if width = 0 then
        (case frame_to_rgba ff f 0 of None \<Rightarrow> None
         | Some r \<Rightarrow> (case ff_lossless ff r of None \<Rightarrow> None | Some w \<Rightarrow> Some (w, [])))
      else
        (case frame_to_rgba ff f width of None \<Rightarrow> None
         | Some r \<Rightarrow>
             (case ff_lossy ff r of None \<Rightarrow> None
              | Some th \<Rightarrow>
                  (case frame_to_rgba ff f 0 of None \<Rightarrow> None
                   | Some o' \<Rightarrow> (case ff_lossless ff o' of None \<Rightarrow> None | Some b \<Rightarrow> Some (th, b))))))"

definition decode_single_pass ::
  "'d ffmpeg \<Rightarrow> int \<Rightarrow> nat \<Rightarrow> hw_request option \<Rightarrow> single_pass \<times> fallback list" where
  "decode_single_pass ff pos_ms width hw =
     (if \<not> ff_opens ff then (Done (Inl S_Open), [])
      else case ff_video ff of
        None \<Rightarrow> (Done (Inl S_No_Video), [])
      | Some v \<Rightarrow>
          if \<not> ff_context ff (hw \<noteq> None) then (Done (Inl S_Decoder), [])
          else
          (let (active, evs) = (case hw of None \<Rightarrow> (None, []) | Some req \<Rightarrow> try_attach_hw ff req)
           in case ff_open_decoder ff (hw \<noteq> None) of
                None \<Rightarrow> (Done (Inl S_Decoder), evs)
              | Some d \<Rightarrow>
                  (let fmt = map_option snd active;
                       (best, d) = single_loop ff v (target_pts_of (vs_tb v) pos_ms) fmt
                                     (ff_packets ff (wrap_i64 (pos_ms * 1000))) d None;
                       best = (if best = None \<and> ff_drain ff fmt d \<noteq> []
                               then Some (last (ff_drain ff fmt d), 0) else best)
                   in case best of
                        None \<Rightarrow> (Done (Inl S_No_Frame), evs)
                      | Some (f, best_pts) \<Rightarrow>
                          (let (r, _, evs') = resolve_decoded_frame ff f active
                           in case r of
                                None \<Rightarrow> (Retry_Software, evs @ evs')
                              | Some g \<Rightarrow>
                                  (let ms = (if tb_valid (vs_tb v) then rel_ms v best_pts else pos_ms)
                                   in case encode_single ff g width of
                                        None \<Rightarrow> (Done (Inl S_Encode), evs @ evs')
                                      | Some (w, b) \<Rightarrow>
                                          (Done (Inr \<lparr>dr_webp = w, dr_webp_orig = b, dr_pts_ms = ms,
                                                      dr_fps_num = fst (stream_fps v), dr_fps_den = snd (stream_fps v)\<rparr>),
                                           evs @ evs'))))))"

text \<open>
  \<^verbatim>\<open>decode_and_encode_hw\<close>: a failed transfer restarts once in software. In software no frame is a
  hardware surface to be transferred, so the restart cannot ask for another.
\<close>

definition decode_and_encode :: "'d ffmpeg \<Rightarrow> int \<Rightarrow> nat \<Rightarrow> single_error + decode_result" where
  "decode_and_encode ff pos_ms width =
     (case fst (decode_single_pass ff pos_ms width None) of
        Done r \<Rightarrow> r | Retry_Software \<Rightarrow> Inl S_Decoder)"

definition decode_and_encode_hw ::
  "'d ffmpeg \<Rightarrow> int \<Rightarrow> nat \<Rightarrow> hw_request option \<Rightarrow> (single_error + decode_result) \<times> fallback list" where
  "decode_and_encode_hw ff pos_ms width hw =
     (case decode_single_pass ff pos_ms width hw of
        (Done r, evs) \<Rightarrow> (r, evs)
      | (Retry_Software, evs) \<Rightarrow> (decode_and_encode ff pos_ms width, evs))"

text \<open>\<^verbatim>\<open>decode_all_frames_rgba\<close>: every frame in order, or an error when one cannot be converted.\<close>

fun all_frames :: "'d ffmpeg \<Rightarrow> video_stream \<Rightarrow> packet list \<Rightarrow> 'd \<Rightarrow> video_frame list" where
  "all_frames ff v [] d = ff_drain ff None d"
| "all_frames ff v (p # ps) d =
     (if pk_stream p \<noteq> vs_index v then all_frames ff v ps d
      else case ff_decode ff None p d of
             None \<Rightarrow> all_frames ff v ps d
           | Some (fs, d) \<Rightarrow> fs @ all_frames ff v ps d)"

definition decode_all_frames_rgba :: "'d ffmpeg \<Rightarrow> packet list \<Rightarrow> single_error + (frame_rgba list \<times> fl)" where
  "decode_all_frames_rgba ff ps =
     (if \<not> ff_opens ff then Inl S_Open
      else case ff_video ff of
        None \<Rightarrow> Inl S_No_Video
      | Some v \<Rightarrow>
          (case (if ff_context ff False then ff_open_decoder ff False else None) of
             None \<Rightarrow> Inl S_Decoder
           | Some d \<Rightarrow>
               (let rs = map (\<lambda>f. frame_to_rgba ff f 0) (all_frames ff v ps d);
                    fps = (if 0 < snd (vs_rate v) then f_div (f_of_int (fst (vs_rate v))) (f_of_int (snd (vs_rate v)))
                           else Fin 24)
                in if None \<in> set rs then Inl S_Encode
                   else if rs = [] then Inl S_No_Frame
                   else Inr (map the rs, fps))))"

section \<open>Hardware decoding off\<close>

lemma resolve_software [simp]: "resolve_decoded_frame ff f None = (Some f, None, [])"
  by (simp add: resolve_decoded_frame_def)

lemma single_software: "decode_single_pass ff pos w None \<noteq> (Retry_Software, evs) \<and> snd (decode_single_pass ff pos w None) = []"
  by (simp add: decode_single_pass_def Let_def split: option.split prod.split)

lemma resolve_None:
  "resolve_decoded_frame ff f hw = (None, hw', evs) \<Longrightarrow> hw \<noteq> None \<and> (\<exists>e. evs = [Runtime_Fallback e])"
  by (auto simp: resolve_decoded_frame_def split: option.splits prod.splits if_splits sum.splits)

lemma attach_evs: "try_attach_hw ff req = (Some a, evs) \<Longrightarrow> evs = []"
  by (auto simp: try_attach_hw_def split: option.splits)

lemma single_retry:
  assumes "decode_single_pass ff pos w hw = (Retry_Software, evs)"
  shows "\<exists>e. evs = [Runtime_Fallback e]"
proof (cases hw)
  case None
  with assms single_software [of ff pos w evs] show ?thesis by simp
next
  case (Some req)
  obtain active evs0 where at: "try_attach_hw ff req = (active, evs0)" by (cases "try_attach_hw ff req")
  from assms Some at obtain f hw' evs1 where r: "resolve_decoded_frame ff f active = (None, hw', evs1)"
    and e: "evs = evs0 @ evs1"
    by (auto simp: decode_single_pass_def Let_def split: option.splits prod.splits if_splits)
  obtain a where "active = Some a" using resolve_None [OF r] by blast
  with at have "evs0 = []" using attach_evs by simp
  with e resolve_None [OF r] show ?thesis by simp
qed

text \<open>
  A frame decode that falls back gives the software result. When the transfer of the hardware frame fails
  the caller gets exactly what \<^verbatim>\<open>decode_and_encode\<close> returns, and the failure is reported once; with
  hardware decoding off nothing is reported and the result is the software one.
\<close>

theorem fallback_is_software:
  "(decode_single_pass ff pos w hw = (Retry_Software, evs) \<longrightarrow>
      decode_and_encode_hw ff pos w hw = (decode_and_encode ff pos w, evs) \<and>
      (\<exists>e. evs = [Runtime_Fallback e])) \<and>
   decode_and_encode_hw ff pos w None = (decode_and_encode ff pos w, [])"
proof -
  obtain r evs0 where n: "decode_single_pass ff pos w None = (r, evs0)"
    by (cases "decode_single_pass ff pos w None")
  with single_software [of ff pos w] have "r \<noteq> Retry_Software" "evs0 = []" by auto
  then have "decode_and_encode_hw ff pos w None = (decode_and_encode ff pos w, [])"
    using n by (cases r) (simp_all add: decode_and_encode_hw_def decode_and_encode_def)
  moreover have "decode_and_encode_hw ff pos w hw = (decode_and_encode ff pos w, evs)"
    if "decode_single_pass ff pos w hw = (Retry_Software, evs)"
    using that by (simp add: decode_and_encode_hw_def)
  ultimately show ?thesis using single_retry by blast
qed

section \<open>An example\<close>

definition demo_frame :: "int \<Rightarrow> byte \<Rightarrow> video_frame" where
  "demo_frame t b = \<lparr>vf_best = Some t, vf_pts = None, vf_fmt = Fmt_Other 0, vf_width = 1, vf_height = 1, vf_pix = [b]\<rparr>"

definition demo_packet :: "int \<Rightarrow> byte \<Rightarrow> packet" where
  "demo_packet t b = \<lparr>pk_stream = 0, pk_pts = Some t, pk_dts = None, pk_key = True, pk_data = [b]\<rparr>"

text \<open>A decoder that delivers each frame one packet later; the stream starts at 40 ms.\<close>

definition demo_ff :: "video_frame list ffmpeg" where
  "demo_ff = \<lparr>ff_opens = True, ff_video = Some demo_stream,
     ff_packets = (\<lambda>_. [demo_packet 40 1, demo_packet 80 2, demo_packet 120 3]),
     ff_context = (\<lambda>_. True), ff_open_decoder = (\<lambda>_. Some []),
     ff_decode = (\<lambda>_ p d. Some (d, [demo_frame (pkt_ts p) (hd (pk_data p))])), ff_drain = (\<lambda>_ d. d),
     ff_attach = (\<lambda>_. Some ''none''), ff_transfer = (\<lambda>_. Inl ''none''), ff_scale = (\<lambda>f _ _. Some (vf_pix f)),
     ff_lossy = (\<lambda>_. None), ff_lossless = (\<lambda>r. Some (fr_rgba r))\<rparr>"

lemma demo_ff_sel [simp]:
  "ff_opens demo_ff" "ff_video demo_ff = Some demo_stream" "ff_context demo_ff b"
  "ff_packets demo_ff n = [demo_packet 40 1, demo_packet 80 2, demo_packet 120 3]"
  "ff_open_decoder demo_ff b = Some []" "ff_drain demo_ff x d = d"
  "ff_decode demo_ff x p d = Some (d, [demo_frame (pkt_ts p) (hd (pk_data p))])"
  "ff_attach demo_ff r = Some ''none''" "ff_scale demo_ff f w h = Some (vf_pix f)"
  by (simp_all add: demo_ff_def)

lemma demo_packet_sel [simp]:
  "pkt_ts (demo_packet t b) = t" "pk_stream (demo_packet t b) = 0" "pk_data (demo_packet t b) = [b]"
  by (simp_all add: demo_packet_def pkt_ts_def)

lemma demo_frame_sel [simp]:
  "vf_best (demo_frame t b) = Some t" "vf_width (demo_frame t b) = 1" "vf_height (demo_frame t b) = 1"
  "vf_pix (demo_frame t b) = [b]"
  by (simp_all add: demo_frame_def)

lemma demo_stream_sel [simp]:
  "vs_index demo_stream = 0" "vs_tb demo_stream = (1, 1000)" "vs_rate demo_stream = (25, 1)" "vs_start demo_stream = 40"
  by (simp_all add: demo_stream_def)

lemma raw_ms_milli: "0 \<le> p \<Longrightarrow> p < 2 ^ 43 \<Longrightarrow> raw_ms (1, 1000) p = p"
  using raw_ms_between [of "(1, 1000)" p] by (simp add: tb_ok_def)

lemma demo_tb [simp]: "tb_valid (1, 1000)" by (simp add: tb_valid_def)

lemma demo_start [simp]: "stream_start_ms demo_stream = 40"
  by (simp add: stream_start_ms_def raw_ms_milli)

lemma demo_two [simp]: "two_frame_ms demo_stream = 82"
  by (simp add: two_frame_ms_def stream_fps_def quot_nonneg)

lemma demo_time: "40 \<le> t \<Longrightarrow> t < 1000000 \<Longrightarrow> frame_ms demo_stream pp (demo_frame t b) = t - 40"
  by (simp add: frame_ms_def rel_ms_def raw_ms_milli wrap_i64_id in_i64_def i64_min_def i64_max_def)

definition demo_out :: "int \<Rightarrow> int \<Rightarrow> byte \<Rightarrow> item" where
  "demo_out fi pos b = Frame_Item fi pos \<lparr>fr_rgba = [b], fr_w = 1, fr_h = 1\<rparr> None"

lemma demo_make: "make_item demo_ff 0 fi pos (demo_frame t b) = Some (demo_out fi pos b)"
  by (simp add: make_item_def frame_to_rgba_def target_dims_def demo_out_def)

text \<open>A card whose frames cannot be brought back to memory.\<close>

definition demo_card :: "video_frame list ffmpeg" where
  "demo_card = demo_ff\<lparr>ff_attach := \<lambda>_. None,
     ff_decode := \<lambda>x p d. Some (d, [(demo_frame (pkt_ts p) 1)\<lparr>vf_fmt := if x = None then Fmt_Other 0 else Fmt_Cuda\<rparr>])\<rparr>"

theorem fallback_is_software_witness:
  "decode_and_encode_hw demo_card 0 0 (Some (Cuda, None)) =
     (decode_and_encode demo_card 0 0, [Runtime_Fallback ''none''])"
proof -
  have "decode_single_pass demo_card 0 0 (Some (Cuda, None)) = (Retry_Software, [Runtime_Fallback ''none''])"
    by (simp add: decode_single_pass_def demo_card_def demo_ff_def demo_frame_def try_attach_hw_def attach_target_def Let_def
      resolve_decoded_frame_def is_hw_frame_def)
  then show ?thesis using fallback_is_software by blast
qed

end
