(* ===== verification/Range_Decode.thy ===== *)
theory Range_Decode
  imports Decoder
begin

text \<open>
  What a range decode emits. \<open>range_ok\<close> is kept by every step of the producer, whatever the decoder, the
  cancel flag and the consumer do; \<open>range_exact\<close> says what an uncancelled software decode of a contiguous
  window gives, frame by frame.
\<close>

section \<open>What a range emits\<close>

lemma btree_insert_set: "set (btree_insert k v m) \<subseteq> insert (k, v) (set m)"
  by (induction m) (auto split: if_splits)

lemma btree_insert_keys: "fst ` set (btree_insert k v m) = insert k (fst ` set m)"
  by (induction k v m rule: btree_insert.induct) (simp_all add: insert_commute)

lemma btree_insert_sorted:
  "sorted_wrt (<) (map fst m) \<Longrightarrow> sorted_wrt (<) (map fst (btree_insert k v m))"
proof (induction m)
  case Nil
  then show ?case by simp
next
  case (Cons a m)
  obtain j w where a: "a = (j, w)" by force
  have ks: "set (map fst (btree_insert k v m)) = insert k (set (map fst m))"
    using btree_insert_keys [of k v m] by simp
  from Cons a ks show ?case by auto
qed

lemma btree_of_props:
  "set (btree_of targets) \<subseteq> (\<lambda>(fi, ms). (ms, fi)) ` set targets \<and> sorted_wrt (<) (map fst (btree_of targets))"
proof -
  have "set (fold (\<lambda>(fi, ms). btree_insert ms fi) ts m) \<subseteq> (\<lambda>(fi, ms). (ms, fi)) ` set ts \<union> set m \<and>
      (sorted_wrt (<) (map fst m) \<longrightarrow> sorted_wrt (<) (map fst (fold (\<lambda>(fi, ms). btree_insert ms fi) ts m)))" for ts m
  proof (induction ts arbitrary: m)
    case Nil
    then show ?case by simp
  next
    case (Cons t ts)
    obtain fi ms where t: "t = (fi, ms)" by force
    from Cons [of "btree_insert ms fi m"] btree_insert_set [of ms fi m] btree_insert_sorted [of m ms fi]
    show ?case by (auto simp: t)
  qed
  from this [of targets "[]"] show ?thesis by (simp add: btree_of_def)
qed

lemma wrap_i64_le: "i64_min \<le> x \<Longrightarrow> wrap_i64 x \<le> x"
proof -
  assume "i64_min \<le> x"
  then have "0 \<le> x + 2 ^ 63" by (simp add: i64_min_def)
  then have "(x + 2 ^ 63) mod 2 ^ 64 \<le> x + 2 ^ 63" by (rule zmod_le_nonneg_dividend)
  then show ?thesis by (simp add: wrap_i64_def)
qed

lemma frame_ms_i64: "in_i64 (frame_ms v pp f) \<and> 0 \<le> frame_ms v pp f"
proof -
  have "in_i64 (rel_ms v t) \<and> 0 \<le> rel_ms v t" for v t
    using wrap_i64_in [of "raw_ms (vs_tb v) t - stream_start_ms v"]
    by (auto simp: rel_ms_def i64_bounds)
  then show ?thesis by (simp add: frame_ms_def i64_bounds Let_def)
qed

lemma two_frame_nonneg: "0 \<le> two_frame_ms v"
proof -
  have "0 \<le> quot (d * 1000) n" if "0 < n" "0 < d" for n d
    using that by (simp add: quot_nonneg pos_imp_zdiv_nonneg_iff)
  then show ?thesis by (force simp: two_frame_ms_def split: prod.split)
qed

lemma match_target_near:
  assumes "match_target env ms m = Some (t, fi)" and "in_i64 ms" and "0 \<le> ms"
  shows "(t, fi) \<in> set m \<and> \<bar>t - ms\<bar> \<le> two_frame_ms (re_stream env)"
proof -
  let ?two = "two_frame_ms (re_stream env)"
  have mem: "(t, fi) \<in> set m" "sat_sub_i64 ms ?two \<le> t" "t \<le> wrap_i64 (ms + ?two)"
    using min_by_key_mem [OF assms(1) [unfolded match_target_def Let_def]] by auto
  have "ms - ?two \<le> sat_sub_i64 ms ?two"
    using assms(2) two_frame_nonneg [of "re_stream env"]
    by (auto simp: sat_sub_i64_def clamp_i64_def i64_min_def i64_max_def in_i64_def)
  moreover have "wrap_i64 (ms + ?two) \<le> ms + ?two"
    using assms(3) two_frame_nonneg [of "re_stream env"] by (intro wrap_i64_le) (simp add: i64_min_def)
  ultimately show ?thesis using mem by auto
qed

text \<open>Where a frame item comes from: a received frame, or its transfer, near the target it was matched to.\<close>

definition emitted_from :: "'d ffmpeg \<Rightarrow> video_stream \<Rightarrow> nat \<Rightarrow> int \<Rightarrow> item \<Rightarrow> bool" where
  "emitted_from ff v width pos it \<longleftrightarrow>
     (\<exists>f g pp fi. make_item ff width fi pos g = Some it \<and> (g = f \<or> ff_transfer ff f = Inr g) \<and>
        \<bar>pos - frame_ms v pp f\<bar> \<le> two_frame_ms v)"

fun frame_pos :: "item \<Rightarrow> int list" where
  "frame_pos (Frame_Item fi pos th o') = [pos]"
| "frame_pos (Fallback_Item e) = []"

fun range_item_ok :: "(int \<times> int) list \<Rightarrow> 'd range_env \<Rightarrow> bool \<Rightarrow> (int \<times> int) list \<Rightarrow> item \<Rightarrow> bool" where
  "range_item_ok T env sw m (Frame_Item fi pos th o') =
     ((pos, fi) \<in> set T \<and> pos \<notin> fst ` set m \<and>
      emitted_from (re_ff env) (re_stream env) (re_width env) pos (Frame_Item fi pos th o'))"
| "range_item_ok T env sw m (Fallback_Item e) = (\<not> sw)"

definition range_ok :: "(int \<times> int) list \<Rightarrow> 'd range_env \<Rightarrow> bool \<Rightarrow> 'd range_state \<Rightarrow> bool" where
  "range_ok T env sw s \<longleftrightarrow>
     set (left_map s) \<subseteq> set T \<and> distinct (concat (map frame_pos (out s))) \<and>
     (\<forall>it\<in>set (out s). range_item_ok T env sw (left_map s) it) \<and> (sw \<longrightarrow> hw_now s = None)"

lemma range_item_ok_mono: "range_item_ok T env sw m it \<Longrightarrow> set m' \<subseteq> set m \<Longrightarrow> range_item_ok T env sw m' it"
  by (cases it) auto

lemma range_ok_frame:
  "range_ok T env sw s \<Longrightarrow> Frame_Item fi pos th o' \<in> set (out s) \<Longrightarrow>
     (pos, fi) \<in> set T \<and> pos \<notin> fst ` set (left_map s) \<and>
     emitted_from (re_ff env) (re_stream env) (re_width env) pos (Frame_Item fi pos th o')"
  unfolding range_ok_def by (metis range_item_ok.simps(1))

lemma range_ok_no_fallback: "range_ok T env True s \<Longrightarrow> Fallback_Item e \<notin> set (out s)"
  unfolding range_ok_def by (metis range_item_ok.simps(2))

lemma range_ok_cong:
  "left_map t = left_map s \<Longrightarrow> out t = out s \<Longrightarrow> hw_now t = hw_now s \<Longrightarrow> range_ok T env sw t = range_ok T env sw s"
  by (simp add: range_ok_def)

lemma range_ok_poll: "range_ok T env sw s \<Longrightarrow> range_ok T env sw (snd (poll_cancel env s))"
  by (simp add: range_ok_def poll_cancel_def)

lemma send_item_sel [simp]:
  "left_map (snd (send_item env it s)) = left_map s" "hw_now (snd (send_item env it s)) = hw_now s"
  by (simp_all add: send_item_def)

lemma send_fallbacks_sel [simp]:
  "left_map (send_fallbacks env evs s) = left_map s" "hw_now (send_fallbacks env evs s) = hw_now s"
  unfolding send_fallbacks_def by (induction evs arbitrary: s) simp_all

lemma send_fallbacks_nil [simp]: "send_fallbacks env [] s = s"
  by (simp add: send_fallbacks_def)

lemma range_ok_fallback:
  "range_ok T env sw s \<Longrightarrow> \<not> sw \<Longrightarrow> range_ok T env sw (snd (send_item env (Fallback_Item e) s))"
  by (auto simp: range_ok_def send_item_def)

lemma range_ok_fallbacks:
  "range_ok T env sw s \<Longrightarrow> \<not> sw \<or> evs = [] \<Longrightarrow> range_ok T env sw (send_fallbacks env evs s)"
  unfolding send_fallbacks_def
  by (induction evs arbitrary: s) (auto simp: range_ok_fallback)

lemma range_ok_after: "range_ok T env sw s \<Longrightarrow> range_ok T env sw (snd (after_match env s))"
  by (simp add: after_match_def poll_cancel_def range_ok_def)

lemma resolve_props:
  assumes "resolve_decoded_frame ff f hw = (r, hw', evs)"
  shows "(hw' = None \<longleftrightarrow> hw = None) \<and> (hw' = None \<longrightarrow> evs = []) \<and>
    (\<forall>g. r = Some g \<longrightarrow> g = f \<or> ff_transfer ff f = Inr g)"
  using assms by (auto simp: resolve_decoded_frame_def split: option.splits prod.splits if_splits sum.splits)

lemma concat_frame_pos: "pos \<in> set (concat (map frame_pos its)) \<longleftrightarrow> (\<exists>fi th o'. Frame_Item fi pos th o' \<in> set its)"
proof (induction its)
  case Nil
  then show ?case by simp
next
  case (Cons it its)
  then show ?case by (cases it) auto
qed

lemma make_item_shape: "make_item (re_ff env) (re_width env) fi pos g = Some it \<Longrightarrow> \<exists>th o'. it = Frame_Item fi pos th o'"
  by (auto simp: make_item_def split: if_splits option.splits)

lemma range_ok_emit:
  assumes "range_ok T env sw s" and "(pos, fi) \<in> set T" and "pos \<notin> fst ` set (left_map s)"
    and new: "\<And>fi th o'. Frame_Item fi pos th o' \<notin> set (out s)"
    and "\<And>it. make_item (re_ff env) (re_width env) fi pos g = Some it \<Longrightarrow> emitted_from (re_ff env) (re_stream env) (re_width env) pos it"
  shows "range_ok T env sw (snd (emit env fi pos g s))"
proof (cases "make_item (re_ff env) (re_width env) fi pos g")
  case None
  with assms(1) show ?thesis by (simp add: emit_def)
next
  case (Some it)
  then obtain th o' where it: "it = Frame_Item fi pos th o'" using make_item_shape by blast
  have fresh: "pos \<notin> set (concat (map frame_pos (out s)))" using new unfolding concat_frame_pos by blast
  have from_g: "emitted_from (re_ff env) (re_stream env) (re_width env) pos it" using assms(5) Some by blast
  show ?thesis
  proof (cases "re_accepts env (length (out s))")
    case False
    with assms(1) Some show ?thesis by (simp add: emit_def send_item_def)
  next
    case True
    then have e: "snd (emit env fi pos g s) = s\<lparr>out := out s @ [it]\<rparr>"
      using Some by (simp add: emit_def send_item_def)
    have "range_item_ok T env sw (left_map s) it" using assms(2,3) from_g by (simp add: it)
    moreover have "distinct (concat (map frame_pos (out s @ [it])))"
      using assms(1) fresh by (simp add: it range_ok_def del: set_concat)
    ultimately show ?thesis unfolding e using assms(1) unfolding range_ok_def by simp
  qed
qed

lemma range_ok_remove:
  assumes "range_ok T env sw s"
  shows "range_ok T env sw (s\<lparr>left_map := filter P (left_map s)\<rparr>)"
proof -
  have sub: "set (filter P (left_map s)) \<subseteq> set (left_map s)" by simp
  have "range_item_ok T env sw (filter P (left_map s)) it" if "it \<in> set (out s)" for it
    using assms that range_item_ok_mono [OF _ sub] unfolding range_ok_def by blast
  moreover have "set (filter P (left_map s)) \<subseteq> set T"
    using assms sub unfolding range_ok_def by (metis (no_types, lifting) subset_trans)
  ultimately show ?thesis using assms by (simp add: range_ok_def)
qed

lemma send_fallbacks_out: "set (out (send_fallbacks env evs u)) \<subseteq> set (out u) \<union> range Fallback_Item"
  unfolding send_fallbacks_def
proof (induction evs arbitrary: u)
  case Nil
  then show ?case by simp
next
  case (Cons e evs)
  have "set (out (snd (send_item env (Fallback_Item e) u))) \<subseteq> set (out u) \<union> range Fallback_Item"
    by (auto simp: send_item_def)
  with Cons [of "snd (send_item env (Fallback_Item e) u)"] show ?case by auto
qed

lemma range_ok_take:
  assumes ok: "range_ok T env sw s" and ms: "ms = frame_ms (re_stream env) pp f"
  shows "range_ok T env sw (snd (take_frame env ms f s))"
proof (cases "match_target env ms (left_map s)")
  case None
  with ok show ?thesis by (simp add: take_frame_def)
next
  case (Some p)
  obtain t fi where p: "p = (t, fi)" by force
  have near: "(t, fi) \<in> set (left_map s)" "\<bar>t - ms\<bar> \<le> two_frame_ms (re_stream env)"
    using match_target_near [OF Some [unfolded p]] frame_ms_i64 [of "re_stream env" pp f] ms by auto
  then have tT: "(t, fi) \<in> set T" "t \<in> fst ` set (left_map s)" using ok by (force simp: range_ok_def)+
  define s1 where "s1 = s\<lparr>left_map := filter (\<lambda>(u, _). u \<noteq> t) (left_map s)\<rparr>"
  have s1: "range_ok T env sw s1" "t \<notin> fst ` set (left_map s1)"
    using range_ok_remove [OF ok] by (auto simp: s1_def)
  have new: "Frame_Item fj t th o' \<notin> set (out s1)" for fj th o'
    using range_ok_frame [OF ok, of fj t th o'] tT(2) by (auto simp: s1_def)
  obtain r hw evs where r: "resolve_decoded_frame (re_ff env) f (hw_now s1) = (r, hw, evs)"
    by (cases "resolve_decoded_frame (re_ff env) f (hw_now s1)")
  note rp = resolve_props [OF r]
  define s2 where "s2 = send_fallbacks env evs (s1\<lparr>hw_now := hw\<rparr>)"
  have hw: "range_ok T env sw (s1\<lparr>hw_now := hw\<rparr>)"
    using s1(1) rp by (auto simp: range_ok_def)
  have "\<not> sw \<or> evs = []" using s1(1) rp by (auto simp: range_ok_def)
  then have s2: "range_ok T env sw s2" unfolding s2_def by (rule range_ok_fallbacks [OF hw])
  have left2: "t \<notin> fst ` set (left_map s2)" using s1(2) by (simp add: s2_def)
  have new2: "Frame_Item fj t th o' \<notin> set (out s2)" for fj th o'
    using send_fallbacks_out [of env evs "s1\<lparr>hw_now := hw\<rparr>"] new [of fj th o'] by (auto simp: s2_def)
  have tk: "take_frame env ms f s = (case r of None \<Rightarrow> after_match env s2
      | Some g \<Rightarrow> (let (fl, u) = emit env fi t g s2 in if fl = Go then after_match env u else (fl, u)))"
    unfolding s2_def s1_def using Some r by (simp add: take_frame_def p s1_def Let_def)
  show ?thesis
  proof (cases r)
    case None
    then show ?thesis using range_ok_after [OF s2] by (simp add: tk)
  next
    case g: (Some g)
    have "emitted_from (re_ff env) (re_stream env) (re_width env) t it" if "make_item (re_ff env) (re_width env) fi t g = Some it" for it
      unfolding emitted_from_def using that rp g near(2) ms by blast
    then have "range_ok T env sw (snd (emit env fi t g s2))"
      by (intro range_ok_emit s2 tT(1) left2 new2)
    with g range_ok_after show ?thesis by (auto simp: tk split: prod.split)
  qed
qed

lemma recv_loop_keeps:
  assumes "\<And>f s. P s \<Longrightarrow> P (snd (step f s))"
  shows "P s \<Longrightarrow> P (snd (snd (recv_loop step fs s)))"
proof (induction fs arbitrary: s)
  case Nil
  then show ?case by simp
next
  case (Cons f fs)
  from assms [OF Cons.prems, of f] Cons.IH show ?case by (auto split: prod.split)
qed

lemma range_ok_main: "range_ok T env sw s \<Longrightarrow> range_ok T env sw (snd (main_frame env pp f s))"
  by (simp add: main_frame_def range_ok_take [of T env sw s _ pp] Let_def)

lemma range_ok_flush: "range_ok T env sw s \<Longrightarrow> range_ok T env sw (snd (flush_frame env f s))"
  by (simp add: flush_frame_def range_ok_take [of T env sw s _ 0] Let_def)

lemma range_ok_packets: "range_ok T env sw s \<Longrightarrow> range_ok T env sw (snd (snd (packet_loop env ps s)))"
proof (induction ps arbitrary: s)
  case Nil
  then show ?case by simp
next
  case (Cons p ps)
  obtain c u where c: "poll_cancel env s = (c, u)" by force
  have u: "range_ok T env sw u" using range_ok_poll [OF Cons.prems] c by simp
  have r: "range_ok T env sw (snd (snd (recv_loop (main_frame env (pkt_ts p)) fs (u\<lparr>dec := d\<rparr>))))" for fs d
    by (rule recv_loop_keeps [where P = "range_ok T env sw"], rule range_ok_main, assumption)
      (use u in \<open>simp add: range_ok_cong [of "u\<lparr>dec := d\<rparr>" u]\<close>)
  have step: "range_ok T env sw (snd (snd (let (fl, rest, s) = recv_loop (main_frame env (pkt_ts p)) fs (u\<lparr>dec := d\<rparr>)
      in if fl = Go then packet_loop env ps s else (fl, rest, s))))" for fs d
    using r [of fs d] Cons.IH
    by (cases "recv_loop (main_frame env (pkt_ts p)) fs (u\<lparr>dec := d\<rparr>)") simp
  show ?case
    using Cons.prems Cons.IH [of s] Cons.IH [of u] u step c
    by (simp add: Let_def split: option.split prod.split)
qed

lemma range_ok_run:
  assumes "range_ok T env sw s" and "run_range env s = (res, items)"
  shows "\<exists>t. range_ok T env sw t \<and> out t = items"
proof -
  obtain fl ready u where pl: "packet_loop env (ff_packets (re_ff env) (wrap_i64 (sat_sub_i64 (re_first env) 100 * 1000))) s = (fl, ready, u)"
    by (metis prod_cases3)
  have u: "range_ok T env sw u" using range_ok_packets [OF assms(1)] pl by (metis snd_conv)
  obtain c w where c: "poll_cancel env u = (c, w)" by (cases "poll_cancel env u")
  have w: "range_ok T env sw w" using range_ok_poll [OF u] c by (metis snd_conv)
  have fl: "range_ok T env sw (snd (snd (recv_loop (flush_frame env) fs w)))" for fs
    by (rule recv_loop_keeps [where P = "range_ok T env sw"], erule range_ok_flush, rule w)
  have f: "range_ok T env sw (snd (flush_phase env ready u))"
    using u w fl [of "ready @ ff_drain (re_ff env) (map_option snd (hw_now w)) (dec w)"]
    by (cases "recv_loop (flush_frame env) (ready @ ff_drain (re_ff env) (map_option snd (hw_now w)) (dec w)) w")
      (simp add: flush_phase_def c)
  from assms(2) pl show ?thesis
    using u f by (cases "flush_phase env ready u") (auto simp: run_range_def split: if_splits)
qed

text \<open>
  C8: The items of a range. However the decoder, the cancel flag and the consumer behave, each position of the
  window is emitted at most once, with the frame index the caller paired it with; its picture is that of a
  decoded frame (or of its transfer from the card) whose time is within two frames of the position; and with
  hardware decoding off no fallback is reported.
\<close>

theorem range_items:
  assumes "decode_range_producer ff targets width cancel hw accepts = (res, items)"
  shows "distinct (concat (map frame_pos items)) \<and>
    (\<forall>fi pos th o'. Frame_Item fi pos th o' \<in> set items \<longrightarrow>
       (fi, pos) \<in> set targets \<and>
       (\<exists>v. ff_video ff = Some v \<and> emitted_from ff v width pos (Frame_Item fi pos th o'))) \<and>
    (hw = None \<longrightarrow> (\<forall>e. Fallback_Item e \<notin> set items))"
proof (cases "\<exists>v d. ff_opens ff \<and> ff_video ff = Some v \<and> ff_context ff (hw \<noteq> None) \<and>
    ff_open_decoder ff (hw \<noteq> None) = Some d")
  case False
  then have fb: "\<forall>it\<in>set items. \<exists>e. it = Fallback_Item e \<and> hw \<noteq> None"
    using assms by (auto simp: decode_range_producer_def Let_def split: if_splits option.splits prod.splits)
  then have "distinct (concat (map frame_pos items))" by (induction items) auto
  moreover have "Frame_Item fi pos th o' \<notin> set items" for fi pos th o' using fb by blast
  moreover have "hw = None \<Longrightarrow> Fallback_Item e \<notin> set items" for e using fb by blast
  ultimately show ?thesis by simp
next
  case True
  then obtain v d where v: "ff_opens ff" "ff_video ff = Some v" "ff_context ff (hw \<noteq> None)"
    "ff_open_decoder ff (hw \<noteq> None) = Some d" by blast
  obtain active evs where at: "(case hw of None \<Rightarrow> (None, []) | Some req \<Rightarrow> try_attach_hw ff req) = (active, evs)"
    by (cases "case hw of None \<Rightarrow> (None, []) | Some req \<Rightarrow> try_attach_hw ff req")
  define env where "env = \<lparr>re_ff = ff, re_stream = v, re_first = snd (hd targets), re_last = snd (last targets),
     re_width = width, re_cancel = cancel, re_accepts = accepts\<rparr>"
  define s where "s = \<lparr>left_map = btree_of targets, dec = d, hw_now = active, out = [], polls = 0\<rparr>"
  let ?T = "map (\<lambda>(fi, ms). (ms, fi)) targets"
  have run: "run_range env (send_fallbacks env evs s) = (res, items)"
    using assms v at by (simp add: decode_range_producer_def Let_def env_def s_def)
  have soft: "hw = None \<Longrightarrow> active = None \<and> evs = []" using at by simp
  have "range_ok ?T env (hw = None) s"
    using btree_of_props [of targets] soft by (auto simp: range_ok_def s_def)
  then have "range_ok ?T env (hw = None) (send_fallbacks env evs s)"
    using soft by (intro range_ok_fallbacks) blast+
  from range_ok_run [OF this run] obtain t where t: "range_ok ?T env (hw = None) t" "out t = items" by blast
  have e: "re_ff env = ff" "re_stream env = v" "re_width env = width" by (simp_all add: env_def)
  have "distinct (concat (map frame_pos items))" using t unfolding range_ok_def by blast
  moreover have "(fi, pos) \<in> set targets \<and> emitted_from ff v width pos (Frame_Item fi pos th o')"
    if "Frame_Item fi pos th o' \<in> set items" for fi pos th o'
    using range_ok_frame [OF t(1), of fi pos th o'] that t(2) by (auto simp: e)
  moreover have "hw = None \<Longrightarrow> Fallback_Item fb \<notin> set items" for fb
    using t range_ok_no_fallback by auto
  ultimately show ?thesis using v(2) by blast
qed

section \<open>A contiguous window\<close>

text \<open>
  The software decode of a window whose positions are the times of the frames from the first position on:
  \<open>tgt\<close> pairs each decoded frame with the frame index the caller gave its time.
\<close>

definition time_of :: "video_stream \<Rightarrow> video_frame \<Rightarrow> int" where
  "time_of v f = frame_ms v 0 f"

definition own_targets :: "video_stream \<Rightarrow> (video_frame \<times> int) list \<Rightarrow> (int \<times> int) list" where
  "own_targets v tgt = map (\<lambda>x. (snd x, time_of v (fst x))) tgt"

definition own_items :: "'d ffmpeg \<Rightarrow> nat \<Rightarrow> video_stream \<Rightarrow> (video_frame \<times> int) list \<Rightarrow> item list" where
  "own_items ff width v tgt = map (\<lambda>x. the (make_item ff width (snd x) (time_of v (fst x)) (fst x))) tgt"

definition own_left :: "video_stream \<Rightarrow> (video_frame \<times> int) list \<Rightarrow> (int \<times> int) list" where
  "own_left v tgt = map (\<lambda>x. (time_of v (fst x), snd x)) tgt"

text \<open>The packets the producer sends: up to the first one beyond the window by more than a second.\<close>

definition past_window :: "video_stream \<Rightarrow> int \<Rightarrow> packet \<Rightarrow> bool" where
  "past_window v last_ms p \<longleftrightarrow> pk_stream p = vs_index v \<and> tb_valid (vs_tb v) \<and>
     wrap_i64 (last_ms + 1000) < wrap_i64 (raw_ms (vs_tb v) (pkt_ts p) - stream_start_ms v)"

definition window_frames :: "'d ffmpeg \<Rightarrow> video_stream \<Rightarrow> int \<Rightarrow> int \<Rightarrow> 'd \<Rightarrow> video_frame list" where
  "window_frames ff v first_ms last_ms d =
     all_frames ff v
       (takeWhile (\<lambda>p. \<not> past_window v last_ms p) (ff_packets ff (wrap_i64 (sat_sub_i64 first_ms 100 * 1000)))) d"

lemma btree_insert_last:
  "\<forall>j\<in>fst ` set m. j < k \<Longrightarrow> btree_insert k v m = m @ [(k, v)]"
  by (induction k v m rule: btree_insert.induct) auto

lemma btree_of_sorted:
  "sorted_wrt (<) (map snd ts) \<Longrightarrow> btree_of ts = map (\<lambda>(fi, ms). (ms, fi)) ts"
proof (induction ts rule: rev_induct)
  case Nil
  then show ?case by (simp add: btree_of_def)
next
  case (snoc t ts)
  obtain fi ms where t: "t = (fi, ms)" by force
  from snoc have "btree_of ts = map (\<lambda>(fi, ms). (ms, fi)) ts" by (simp add: sorted_wrt_append)
  moreover have "\<forall>j\<in>fst ` set (map (\<lambda>(fi, ms). (ms, fi)) ts). j < ms"
    using snoc.prems by (auto simp: t sorted_wrt_append)
  ultimately show ?case
    using btree_insert_last [of "map (\<lambda>(fi, ms). (ms, fi)) ts" ms fi] by (simp add: btree_of_def t)
qed

lemma min_by_key_unique:
  assumes "x \<in> set xs" and "\<And>y. y \<in> set xs \<Longrightarrow> y \<noteq> x \<Longrightarrow> f x < f y"
  shows "min_by_key f xs = Some x"
proof (cases "min_by_key f xs")
  case None
  with assms(1) show ?thesis by simp
next
  case (Some y)
  with min_by_key_mem min_by_key_least [OF Some assms(1)] assms(2) show ?thesis by force
qed

lemma match_own:
  assumes "(ms, fi) \<in> set m" and "distinct (map fst m)" and "in_i64 ms" and "0 \<le> ms" and "in_i64 (ms + two_frame_ms (re_stream env))"
  shows "match_target env ms m = Some (ms, fi)"
proof -
  let ?two = "two_frame_ms (re_stream env)"
  have "sat_sub_i64 ms ?two \<le> ms"
    using assms(3) two_frame_nonneg [of "re_stream env"]
    by (auto simp: sat_sub_i64_def clamp_i64_def i64_min_def i64_max_def in_i64_def)
  then have mem: "(ms, fi) \<in> set (filter (\<lambda>(t, _). sat_sub_i64 ms ?two \<le> t \<and> t \<le> wrap_i64 (ms + ?two)) m)"
    using assms(1,5) two_frame_nonneg [of "re_stream env"] by (simp add: wrap_i64_id)
  have key: "(case (ms, fi) of (t, _) \<Rightarrow> \<bar>t - ms\<bar>) < (case y of (t, _) \<Rightarrow> \<bar>t - ms\<bar>)"
    if "y \<in> set m" "y \<noteq> (ms, fi)" for y
  proof -
    have "fst y \<noteq> ms" using that assms(1) eq_key_imp_eq_value [OF assms(2), of ms fi "snd y"] by (metis prod.collapse)
    then show ?thesis by (cases y) simp
  qed
  show ?thesis
    unfolding match_target_def Let_def
    by (rule min_by_key_unique [OF mem], rule key) auto
qed

text \<open>A state in which hardware decoding is off, with the targets that are left.\<close>

definition soft_env :: "'d range_env \<Rightarrow> bool" where
  "soft_env env \<longleftrightarrow> (\<forall>n. \<not> re_cancel env n) \<and> (\<forall>n. re_accepts env n) \<and>
     in_i64 (re_last env + two_frame_ms (re_stream env) + 500)"

definition left_ok :: "'d range_env \<Rightarrow> (video_frame \<times> int) list \<Rightarrow> 'd range_state \<Rightarrow> bool" where
  "left_ok env tgt s \<longleftrightarrow> hw_now s = None \<and> left_map s = own_left (re_stream env) tgt"

definition tgt_ok :: "'d range_env \<Rightarrow> (video_frame \<times> int) list \<Rightarrow> bool" where
  "tgt_ok env tgt \<longleftrightarrow> sorted_wrt (<) (map (\<lambda>x. time_of (re_stream env) (fst x)) tgt) \<and>
     (\<forall>x\<in>set tgt. time_of (re_stream env) (fst x) \<le> re_last env \<and>
        make_item (re_ff env) (re_width env) (snd x) (time_of (re_stream env) (fst x)) (fst x) \<noteq> None)"

lemma frame_ms_best: "vf_best f \<noteq> None \<Longrightarrow> frame_ms v pp f = time_of v f"
  by (auto simp: frame_ms_def time_of_def)

text \<open>Taking the first frame of the window emits its own picture and removes its own target.\<close>

lemma take_own:
  assumes env: "soft_env env" and tgt: "tgt_ok env ((f, fi) # tgt)" and ok: "left_ok env ((f, fi) # tgt) s"
  shows "\<exists>s'. take_frame env (time_of (re_stream env) f) f s = (if tgt = [] then Stop else Go, s') \<and>
    left_ok env tgt s' \<and> out s' = out s @ own_items (re_ff env) (re_width env) (re_stream env) [(f, fi)] \<and> dec s' = dec s"
proof -
  let ?v = "re_stream env" let ?t = "time_of (re_stream env) f"
  have t: "in_i64 ?t" "0 \<le> ?t" using frame_ms_i64 by (simp_all add: time_of_def)
  have last: "?t \<le> re_last env" using tgt by (simp add: tgt_ok_def)
  have fit: "in_i64 (?t + two_frame_ms ?v)"
    using env last t two_frame_nonneg [of ?v] by (simp add: soft_env_def in_i64_def i64_min_def)
  have srt: "sorted_wrt (<) (map fst (left_map s))"
    using tgt ok by (simp add: tgt_ok_def left_ok_def own_left_def comp_def case_prod_beta)
  have m: "match_target env ?t (left_map s) = Some (?t, fi)"
  proof (rule match_own [OF _ _ t fit])
    show "(?t, fi) \<in> set (left_map s)" using ok by (simp add: left_ok_def own_left_def)
    show "distinct (map fst (left_map s))" using srt strict_sorted_iff by blast
  qed
  obtain it where it: "make_item (re_ff env) (re_width env) fi ?t f = Some it"
    using tgt by (auto simp: tgt_ok_def)
  have rest: "filter (\<lambda>(u, _). u \<noteq> ?t) (left_map s) = own_left ?v tgt"
  proof -
    have "filter (\<lambda>(u, _). u \<noteq> ?t) (own_left ?v tgt) = own_left ?v tgt"
      using tgt by (auto simp: own_left_def tgt_ok_def filter_id_conv)
    then show ?thesis using ok by (simp add: left_ok_def own_left_def)
  qed
  have nc: "\<not> re_cancel env n" "re_accepts env n" for n using env by (simp_all add: soft_env_def)
  define u where "u = s\<lparr>left_map := own_left ?v tgt, hw_now := None, out := out s @ [it]\<rparr>"
  have hw: "hw_now s = None" using ok by (simp add: left_ok_def)
  have "take_frame env ?t f s = after_match env u"
    unfolding take_frame_def m option.case prod.case Let_def rest
    using hw by (simp add: emit_def send_item_def it nc u_def Let_def)
  moreover have "after_match env u = (if tgt = [] then Stop else Go, u\<lparr>polls := Suc (polls u)\<rparr>)"
    by (simp add: after_match_def poll_cancel_def nc u_def own_left_def)
  moreover have "own_items (re_ff env) (re_width env) ?v [(f, fi)] = [it]" by (simp add: own_items_def it)
  ultimately show ?thesis using hw by (simp add: left_ok_def u_def)
qed

definition in_window :: "'d range_env \<Rightarrow> video_frame \<Rightarrow> bool" where
  "in_window env f \<longleftrightarrow> re_first env \<le> time_of (re_stream env) f"

lemma own_items_append: "own_items ff w v (a @ b) = own_items ff w v a @ own_items ff w v b"
  by (simp add: own_items_def)

lemma tgt_ok_Cons: "tgt_ok env (x # tgt) \<Longrightarrow> tgt_ok env tgt"
  by (auto simp: tgt_ok_def)

text \<open>
  One batch of frames: either targets are left and the batch had the first ones, or all were emitted.
\<close>

definition batch_done ::
  "'d range_env \<Rightarrow> (video_frame \<times> int) list \<Rightarrow> video_frame list \<Rightarrow> 'd range_state \<Rightarrow> flow \<times> 'd range_state \<Rightarrow> bool" where
  "batch_done env tgt fs s r \<longleftrightarrow>
     (let items = own_items (re_ff env) (re_width env) (re_stream env); (fl, s') = r
      in dec s' = dec s \<and>
        ((fl = Go \<and> (\<exists>a b. tgt = a @ b \<and> b \<noteq> [] \<and> filter (in_window env) fs = map fst a \<and> left_ok env b s' \<and>
             tgt_ok env b \<and> out s' = out s @ items a)) \<or>
         (fl = Stop \<and> left_ok env [] s' \<and> out s' = out s @ items tgt)))"

lemma batch_done_Cons:
  assumes "batch_done env tgt' fs s' r" and "in_window env f"
    and "out s' = out s @ own_items (re_ff env) (re_width env) (re_stream env) [(f, fi)]" and "dec s' = dec s"
  shows "batch_done env ((f, fi) # tgt') (f # fs) s r"
proof -
  let ?items = "own_items (re_ff env) (re_width env) (re_stream env)"
  obtain fl u where r: "r = (fl, u)" by (cases r)
  have app: "?items ((f, fi) # a) = ?items [(f, fi)] @ ?items a" for a by (simp add: own_items_def)
  from assms(1) consider
    "fl = Go" "\<exists>a b. tgt' = a @ b \<and> b \<noteq> [] \<and> filter (in_window env) fs = map fst a \<and> left_ok env b u \<and>
      tgt_ok env b \<and> out u = out s' @ ?items a" "dec u = dec s'"
    | "fl = Stop" "left_ok env [] u" "out u = out s' @ ?items tgt'" "dec u = dec s'"
    unfolding batch_done_def r Let_def prod.case by blast
  then show ?thesis
  proof cases
    case 1
    then obtain a b where ab: "tgt' = a @ b" "b \<noteq> []" "filter (in_window env) fs = map fst a" "left_ok env b u"
      "tgt_ok env b" "out u = out s' @ ?items a" by blast
    then have "(f, fi) # tgt' = ((f, fi) # a) @ b \<and> b \<noteq> [] \<and> filter (in_window env) (f # fs) = map fst ((f, fi) # a) \<and>
        left_ok env b u \<and> tgt_ok env b \<and> out u = out s @ ?items ((f, fi) # a)"
      using assms(2,3) by (simp add: app [of a])
    with 1(1,3) assms(4) show ?thesis
      unfolding batch_done_def r Let_def prod.case by (intro conjI disjI1) (simp, simp, rule exI, rule exI, assumption)
  next
    case 2
    with assms(3,4) app [of tgt'] show ?thesis unfolding batch_done_def r Let_def by simp
  qed
qed

lemma recv_batch:
  assumes env: "soft_env env"
    and step: "\<And>f s. vf_best f \<noteq> None \<Longrightarrow> step f s =
       (if \<not> in_window env f then (Go, s) else if time_of (re_stream env) f \<le> re_last env
        then take_frame env (time_of (re_stream env) f) f s else other f s)"
  shows "tgt \<noteq> [] \<Longrightarrow> tgt_ok env tgt \<Longrightarrow> left_ok env tgt s \<Longrightarrow> \<forall>f\<in>set fs. vf_best f \<noteq> None \<Longrightarrow>
    filter (in_window env) fs @ R = map fst tgt @ rest \<Longrightarrow>
    batch_done env tgt fs s (fst (recv_loop step fs s), snd (snd (recv_loop step fs s)))"
proof (induction fs arbitrary: tgt s)
  case Nil
  then have "tgt = [] @ tgt \<and> tgt \<noteq> [] \<and> filter (in_window env) [] = map fst [] \<and> left_ok env tgt s \<and> tgt_ok env tgt \<and>
      out s = out s @ own_items (re_ff env) (re_width env) (re_stream env) []"
    by (simp add: own_items_def)
  then show ?case unfolding batch_done_def Let_def by (simp del: append_Nil) blast
next
  case (Cons f fs)
  have best: "vf_best f \<noteq> None" using Cons.prems(4) by simp
  show ?case
  proof (cases "in_window env f")
    case False
    with Cons.prems Cons.IH [of tgt s] step [OF best, of s] show ?thesis
      by (simp add: batch_done_def)
  next
    case True
    then obtain fi tgt' where tgt: "tgt = (f, fi) # tgt'"
      using Cons.prems(1,5) by (cases tgt) auto
    have le: "time_of (re_stream env) f \<le> re_last env" using Cons.prems(2) by (simp add: tgt tgt_ok_def)
    from take_own [OF env Cons.prems(2,3) [unfolded tgt]] obtain s' where
      t: "step f s = (if tgt' = [] then Stop else Go, s')" and
      s': "left_ok env tgt' s'" "out s' = out s @ own_items (re_ff env) (re_width env) (re_stream env) [(f, fi)]" "dec s' = dec s"
      using step [OF best, of s] True le by auto
    show ?thesis
    proof (cases "tgt' = []")
      case True
      with t s' show ?thesis by (simp add: batch_done_def tgt)
    next
      case False
      have "batch_done env tgt' fs s' (fst (recv_loop step fs s'), snd (snd (recv_loop step fs s')))"
        using Cons.prems Cons.IH [OF False _ s'(1)] True tgt_ok_Cons by (auto simp: tgt)
      then show ?thesis
        using batch_done_Cons [OF _ True s'(2,3)] t False by (simp add: tgt)
    qed
  qed
qed


lemma main_frame_own:
  "soft_env env \<Longrightarrow> vf_best f \<noteq> None \<Longrightarrow> main_frame env pp f s =
    (if \<not> in_window env f then (Go, s) else if time_of (re_stream env) f \<le> re_last env
     then take_frame env (time_of (re_stream env) f) f s else main_frame env pp f s)"
  using two_frame_nonneg [of "re_stream env"] frame_ms_i64 [of "re_stream env" 0 f]
  by (auto simp: main_frame_def frame_ms_best in_window_def soft_env_def wrap_i64_id in_i64_def i64_min_def
      time_of_def [symmetric] Let_def)

lemma flush_frame_own:
  "soft_env env \<Longrightarrow> vf_best f \<noteq> None \<Longrightarrow> flush_frame env f s =
    (if \<not> in_window env f then (Go, s) else if time_of (re_stream env) f \<le> re_last env
     then take_frame env (time_of (re_stream env) f) f s else flush_frame env f s)"
  using two_frame_nonneg [of "re_stream env"] frame_ms_i64 [of "re_stream env" 0 f]
  by (auto simp: flush_frame_def frame_ms_best in_window_def soft_env_def wrap_i64_id in_i64_def i64_min_def
      time_of_def [symmetric] Let_def)

lemma recv_loop_Go_nil: "recv_loop step fs s = (Go, r, t) \<Longrightarrow> r = []"
  by (induction fs arbitrary: s) (auto split: prod.splits if_splits)

definition sent :: "'d range_env \<Rightarrow> packet list \<Rightarrow> packet list" where
  "sent env ps = takeWhile (\<lambda>p. \<not> past_window (re_stream env) (re_last env) p) ps"


text \<open>Where the loop over the packets ends: everything is emitted, or the drained frames hold the rest.\<close>

definition loop_end ::
  "'d range_env \<Rightarrow> (video_frame \<times> int) list \<Rightarrow> video_frame list \<Rightarrow> item list \<Rightarrow> video_frame list \<Rightarrow> 'd range_state \<Rightarrow> bool" where
  "loop_end env tgt rest base r t \<longleftrightarrow>
     (let items = own_items (re_ff env) (re_width env) (re_stream env); fs = ff_drain (re_ff env) None (dec t)
      in (left_ok env [] t \<and> out t = base @ items tgt) \<or>
         (r = [] \<and> (\<exists>a b. tgt = a @ b \<and> b \<noteq> [] \<and> left_ok env b t \<and> tgt_ok env b \<and> out t = base @ items a \<and>
            (\<forall>f\<in>set fs. vf_best f \<noteq> None) \<and> filter (in_window env) fs = map fst b @ rest)))"

lemma loop_end_now:
  assumes "tgt \<noteq> []" "tgt_ok env tgt" "left_ok env tgt t" "out t = base"
    and "\<forall>f\<in>set (ff_drain (re_ff env) None (dec t)). vf_best f \<noteq> None"
    and "filter (in_window env) (ff_drain (re_ff env) None (dec t)) = map fst tgt @ rest"
  shows "loop_end env tgt rest base [] t"
  unfolding loop_end_def Let_def using assms
  by (intro disjI2 conjI exI [of _ "[]"] exI [of _ tgt]) (simp_all add: own_items_def)

lemma loop_end_step:
  assumes "loop_end env b rest (base @ own_items (re_ff env) (re_width env) (re_stream env) a) r t"
  shows "loop_end env (a @ b) rest base r t"
proof -
  let ?items = "own_items (re_ff env) (re_width env) (re_stream env)"
  from assms consider "left_ok env [] t \<and> out t = base @ ?items (a @ b)"
    | c d where "r = []" "b = c @ d" "d \<noteq> []" "left_ok env d t" "tgt_ok env d" "out t = base @ ?items (a @ c)"
      "\<forall>f\<in>set (ff_drain (re_ff env) None (dec t)). vf_best f \<noteq> None"
      "filter (in_window env) (ff_drain (re_ff env) None (dec t)) = map fst d @ rest"
    unfolding loop_end_def Let_def own_items_append append.assoc by blast
  then show ?thesis
  proof cases
    case 1
    then show ?thesis by (simp add: loop_end_def Let_def)
  next
    case 2
    then show ?thesis unfolding loop_end_def Let_def
      by (intro disjI2 conjI exI [of _ "a @ c"] exI [of _ d]) simp_all
  qed
qed

lemma packet_window:
  "soft_env env \<Longrightarrow> tgt \<noteq> [] \<Longrightarrow> tgt_ok env tgt \<Longrightarrow> left_ok env tgt s \<Longrightarrow>
    \<forall>f\<in>set (all_frames (re_ff env) (re_stream env) (sent env ps) (dec s)). vf_best f \<noteq> None \<Longrightarrow>
    filter (in_window env) (all_frames (re_ff env) (re_stream env) (sent env ps) (dec s)) = map fst tgt @ rest \<Longrightarrow>
    \<exists>r t. packet_loop env ps s = (Stop, r, t) \<and> loop_end env tgt rest (out s) r t"
proof (induction ps arbitrary: s tgt)
  case Nil
  then show ?case using loop_end_now [of tgt env s] by (simp add: sent_def)
next
  case (Cons p ps)
  let ?v = "re_stream env" let ?ff = "re_ff env"
  define u where "u = s\<lparr>polls := Suc (polls s)\<rparr>"
  have u: "left_ok env tgt u" "out u = out s" "dec u = dec s" "hw_now u = None" using Cons.prems(4) by (simp_all add: u_def left_ok_def)
  have poll: "poll_cancel env s = (False, u)" using Cons.prems(1) by (simp add: poll_cancel_def soft_env_def u_def)
  show ?case
  proof (cases "pk_stream p \<noteq> vs_index ?v")
    case True
    then have "sent env (p # ps) = p # sent env ps" by (simp add: sent_def past_window_def)
    with True Cons show ?thesis by simp
  next
    case here: False
    show ?thesis
    proof (cases "past_window ?v (re_last env) p")
      case True
      then have "packet_loop env (p # ps) s = (Stop, [], u)" using here poll by (simp add: past_window_def)
      moreover have "loop_end env tgt rest (out s) [] u"
        using Cons.prems True u by (intro loop_end_now) (simp_all add: sent_def)
      ultimately show ?thesis by blast
    next
      case False
      then have sent: "sent env (p # ps) = p # sent env ps" by (simp add: sent_def)
      have pk: "packet_loop env (p # ps) s = (case ff_decode ?ff None p (dec u) of
          None \<Rightarrow> packet_loop env ps u
        | Some (fs, d) \<Rightarrow> (let (fl, rest, s) = recv_loop (main_frame env (pkt_ts p)) fs (u\<lparr>dec := d\<rparr>)
                    in if fl = Go then packet_loop env ps s else (fl, rest, s)))"
        using here False poll u(4) by (auto simp: past_window_def Let_def)
      show ?thesis
      proof (cases "ff_decode ?ff None p (dec u)")
        case None
        with Cons.prems Cons.IH [of tgt u] u here show ?thesis
          by (simp add: pk sent del: packet_loop.simps(2))
      next
        case (Some fd)
        obtain fs d where fd: "ff_decode ?ff None p (dec u) = Some (fs, d)" using Some by (cases fd) simp
        let ?u = "u\<lparr>dec := d\<rparr>" let ?more = "all_frames ?ff ?v (sent env ps) d"
        have all: "all_frames ?ff ?v (sent env (p # ps)) (dec s) = fs @ ?more"
          using fd u(3) here by (simp add: sent)
        obtain fl r t where rl: "recv_loop (main_frame env (pkt_ts p)) fs ?u = (fl, r, t)" by (metis prod_cases3)
        have "batch_done env tgt fs ?u (fl, t)"
          using recv_batch [OF Cons.prems(1) main_frame_own [OF Cons.prems(1), where pp = "pkt_ts p"] Cons.prems(2,3), of ?u fs "filter (in_window env) ?more" rest]
            Cons.prems u rl by (simp add: all left_ok_def)
        then consider "fl = Go" "\<exists>a b. tgt = a @ b \<and> b \<noteq> [] \<and> filter (in_window env) fs = map fst a \<and> left_ok env b t \<and>
            tgt_ok env b \<and> out t = out s @ own_items ?ff (re_width env) ?v a" "dec t = d"
          | "fl = Stop" "left_ok env [] t" "out t = out s @ own_items ?ff (re_width env) ?v tgt"
          unfolding batch_done_def Let_def prod.case using u(2) by auto
        then show ?thesis
        proof cases
          case 1
          then obtain a b where ab: "tgt = a @ b" "b \<noteq> []" "filter (in_window env) fs = map fst a" "left_ok env b t"
            "tgt_ok env b" "out t = out s @ own_items ?ff (re_width env) ?v a" by blast
          have "filter (in_window env) ?more = map fst b @ rest" using Cons.prems(6) ab(1,3) by (simp add: all)
          with Cons.IH [OF Cons.prems(1) ab(2,5,4)] Cons.prems(5) 1(3) ab(6) obtain r' t' where
            "packet_loop env ps t = (Stop, r', t')" "loop_end env b rest (out t) r' t'" by (auto simp: all)
          with 1(1) rl fd ab(1,6) loop_end_step [of env b rest "out s" a r' t'] show ?thesis
            by (simp add: pk del: packet_loop.simps(2))
        next
          case 2
          with rl fd show ?thesis
            by (simp add: pk loop_end_def del: packet_loop.simps(2))
        qed
      qed
    qed
  qed
qed

lemma run_window:
  assumes env: "soft_env env" and tgt: "tgt \<noteq> []" "tgt_ok env tgt" "left_ok env tgt s"
    and fs: "fs = all_frames (re_ff env) (re_stream env)
      (sent env (ff_packets (re_ff env) (wrap_i64 (sat_sub_i64 (re_first env) 100 * 1000)))) (dec s)"
    and best: "\<forall>f\<in>set fs. vf_best f \<noteq> None" and win: "filter (in_window env) fs = map fst tgt @ rest"
  shows "run_range env s = (Inr (), out s @ own_items (re_ff env) (re_width env) (re_stream env) tgt)"
proof -
  let ?ps = "ff_packets (re_ff env) (wrap_i64 (sat_sub_i64 (re_first env) 100 * 1000))"
  let ?items = "own_items (re_ff env) (re_width env) (re_stream env)"
  obtain r t where pl: "packet_loop env ?ps s = (Stop, r, t)" and le: "loop_end env tgt rest (out s) r t"
    using packet_window [OF env tgt best [unfolded fs] win [unfolded fs]] by blast
  from le consider "left_ok env [] t" "out t = out s @ ?items tgt"
    | a b where "r = []" "tgt = a @ b" "b \<noteq> []" "left_ok env b t" "tgt_ok env b" "out t = out s @ ?items a"
      "\<forall>f\<in>set (ff_drain (re_ff env) None (dec t)). vf_best f \<noteq> None"
      "filter (in_window env) (ff_drain (re_ff env) None (dec t)) = map fst b @ rest"
    unfolding loop_end_def Let_def by blast
  then show ?thesis
  proof cases
    case 1
    then show ?thesis by (simp add: run_range_def pl flush_phase_def left_ok_def own_left_def)
  next
    case 2
    define u where "u = t\<lparr>polls := Suc (polls t)\<rparr>"
    have u: "left_ok env b u" "left_map t \<noteq> []" "hw_now u = None" "dec u = dec t" "out u = out t"
      using 2 by (auto simp: u_def left_ok_def own_left_def)
    have poll: "poll_cancel env t = (False, u)" using env by (simp add: poll_cancel_def soft_env_def u_def)
    let ?dr = "ff_drain (re_ff env) None (dec t)"
    obtain fl r' t' where rl: "recv_loop (flush_frame env) ?dr u = (fl, r', t')" by (metis prod_cases3)
    have "batch_done env b ?dr u (fl, t')"
      using recv_batch [OF env flush_frame_own [OF env] 2(3,5) u(1) 2(7), of "[]" rest] 2(8) rl by simp
    then have "fl \<noteq> Fail \<and> out t' = out t @ ?items b"
      unfolding batch_done_def Let_def prod.case using 2(8) u(5) by auto
    then show ?thesis using rl poll u 2 by (simp add: run_range_def pl flush_phase_def own_items_append)
  qed
qed


text \<open>
  C7: A contiguous window decoded in software is exact. When the positions asked for are the times of the first
  frames at or after the start of the window (as they are when they come from the frame index), and the decoder
  delivers those frames in order (from its packets or held back until the drain), the producer emits every
  position exactly once, in order, each with its own frame's picture, whatever surplus frames precede or follow,
  and ends without error.
\<close>

theorem range_exact:
  assumes "ff_opens ff" and "ff_video ff = Some v" and "ff_context ff False" and "ff_open_decoder ff False = Some d"
    and "tgt \<noteq> []" and "sorted_wrt (<) (map (\<lambda>x. time_of v (fst x)) tgt)"
    and "\<forall>x\<in>set tgt. make_item ff width (snd x) (time_of v (fst x)) (fst x) \<noteq> None"
    and "\<forall>f\<in>set (window_frames ff v first_ms last_ms d). vf_best f \<noteq> None"
    and "filter (\<lambda>f. first_ms \<le> time_of v f) (window_frames ff v first_ms last_ms d) = map fst tgt @ rest"
    and "first_ms = time_of v (fst (hd tgt))" and "last_ms = time_of v (fst (last tgt))"
    and "in_i64 (last_ms + two_frame_ms v + 500)"
  shows "decode_range_producer ff (own_targets v tgt) width (\<lambda>n. False) None (\<lambda>n. True) =
    (Inr (), own_items ff width v tgt)"
proof -
  let ?T = "own_targets v tgt"
  define env where "env = \<lparr>re_ff = ff, re_stream = v, re_first = snd (hd ?T), re_last = snd (last ?T),
     re_width = width, re_cancel = \<lambda>n. False, re_accepts = \<lambda>n. True\<rparr>"
  define s where "s = \<lparr>left_map = btree_of ?T, dec = d, hw_now = None, out = [], polls = 0\<rparr>"
  have ends: "snd (hd ?T) = first_ms" "snd (last ?T) = last_ms"
    using assms(5,10,11) by (simp_all add: own_targets_def hd_map last_map)
  have e: "re_ff env = ff" "re_stream env = v" "re_width env = width" "re_first env = first_ms" "re_last env = last_ms"
    by (simp_all add: env_def ends)
  have env: "soft_env env" using assms(12) by (simp add: soft_env_def env_def ends)
  have le: "time_of v (fst x) \<le> last_ms" if "x \<in> set tgt" for x
  proof -
    have tl: "tgt = butlast tgt @ [last tgt]" using assms(5) by simp
    then have "x = last tgt \<or> x \<in> set (butlast tgt)" using that by (metis Un_iff set_append set_ConsD empty_iff list.set(1))
    moreover have "\<forall>y\<in>set (butlast tgt). time_of v (fst y) < time_of v (fst (last tgt))"
      using assms(6) by (subst (asm) tl) (simp add: sorted_wrt_append)
    ultimately show ?thesis using assms(11) by auto
  qed
  have tgt: "tgt_ok env tgt" using assms(6,7) le by (simp add: tgt_ok_def e)
  have "btree_of ?T = own_left v tgt"
    using btree_of_sorted [of ?T] assms(6) by (simp add: own_targets_def own_left_def comp_def)
  then have left: "left_ok env tgt s" by (simp add: left_ok_def s_def e)
  have win: "in_window env = (\<lambda>f. first_ms \<le> time_of v f)" by (simp add: fun_eq_iff in_window_def e)
  have fs: "window_frames ff v first_ms last_ms d = all_frames (re_ff env) (re_stream env)
      (sent env (ff_packets (re_ff env) (wrap_i64 (sat_sub_i64 (re_first env) 100 * 1000)))) (dec s)"
    by (simp add: window_frames_def sent_def e s_def)
  have "run_range env s = (Inr (), out s @ own_items (re_ff env) (re_width env) (re_stream env) tgt)"
    by (rule run_window [OF env assms(5) tgt left fs assms(8)]) (simp add: win assms(9))
  moreover have "decode_range_producer ff ?T width (\<lambda>n. False) None (\<lambda>n. True) = run_range env s"
    using assms(1-4) by (simp add: decode_range_producer_def env_def s_def Let_def)
  ultimately show ?thesis by (simp add: s_def e)
qed


section \<open>An example\<close>

lemma demo_window: "window_frames demo_ff demo_stream 0 40 [] = [demo_frame 40 1, demo_frame 80 2, demo_frame 120 3]"
  by (simp add: window_frames_def past_window_def raw_ms_milli wrap_i64_id in_i64_def i64_min_def i64_max_def)

theorem range_exact_witness:
  "decode_range_producer demo_ff [(0, 0), (1, 40)] 0 (\<lambda>n. False) None (\<lambda>n. True) =
     (Inr (), [demo_out 0 0 1, demo_out 1 40 2])"
proof -
  let ?tgt = "[(demo_frame 40 1, 0), (demo_frame 80 2, 1)]"
  have "decode_range_producer demo_ff (own_targets demo_stream ?tgt) 0 (\<lambda>n. False) None (\<lambda>n. True) =
      (Inr (), own_items demo_ff 0 demo_stream ?tgt)"
    by (rule range_exact [where d = "[]" and first_ms = 0 and last_ms = 40 and rest = "[demo_frame 120 3]"])
      (simp_all add: demo_window demo_make time_of_def demo_time in_i64_def i64_min_def i64_max_def)
  then show ?thesis
    by (simp add: own_targets_def own_items_def demo_make time_of_def demo_time)
qed

text \<open>
  A window with a gap is not exact. Positions 0 and 80 are asked for and the frames at 0, 40 and 80 ms are
  decoded; position 80 gets the picture of the frame at 40 ms, since the matching tolerance of two frames takes
  the first frame near enough.
\<close>

theorem range_gap_steals:
  "decode_range_producer demo_ff [(0, 0), (2, 80)] 0 (\<lambda>n. False) None (\<lambda>n. True) =
     (Inr (), [demo_out 0 0 1, demo_out 2 80 2])"
  by (simp add: decode_range_producer_def btree_of_def run_range_def poll_cancel_def main_frame_def flush_frame_def
      flush_phase_def demo_time raw_ms_milli wrap_i64_id in_i64_def i64_min_def i64_max_def take_frame_def
      match_target_def sat_sub_i64_def clamp_i64_def emit_def send_item_def after_match_def demo_make Let_def)

theorem range_items_witness:
  "distinct (concat (map frame_pos [demo_out 0 0 1, demo_out 2 80 2])) \<and> (2, 80) \<in> set [(0, 0), (2, 80 :: int)]"
  using range_items [OF range_gap_steals] by (simp add: demo_out_def)

end
