(* ===== verification/Frame_Index.thy ===== *)
theory Frame_Index
  imports Demux Lru Wire
begin

text \<open>
  The frame index of the frame-forge daemon: \<^verbatim>\<open>FrameIndexManager\<close>, \<^verbatim>\<open>IndexProgress\<close>, the full demux of
  \<^verbatim>\<open>queue_b_demux\<close> and the answer of \<^verbatim>\<open>handle_index_frames_stream\<close> from a cached index
  (\<^verbatim>\<open>crates/frame-forge/src/server.rs\<close>).

  An \<^verbatim>\<open>IndexProgress\<close> is shared by reference, so progresses are numbered and the map from paths holds
  their numbers. The frame-index cache is an \<^verbatim>\<open>lru\<close> cache.
\<close>

type_synonym index_data = "(int \<times> bool) list \<times> int \<times> int"

section \<open>State\<close>

record 'c index_mgr =
  im_index :: 'c
  im_progress :: "(string \<times> nat) list"
  im_batches :: "nat \<Rightarrow> (byte list \<times> int) list"
  im_done :: "nat \<Rightarrow> bool"
  im_next :: nat

type_synonym 'c index_ops = "(string, index_data, 'c) lru_ops"

definition fi_get :: "'c index_ops \<Rightarrow> string \<Rightarrow> 'c index_mgr \<Rightarrow> index_data option" where
  "fi_get ops path m = lru_peek ops path (im_index m)"

definition put_if_absent :: "'c index_ops \<Rightarrow> string \<Rightarrow> index_data \<Rightarrow> 'c index_mgr \<Rightarrow> 'c index_mgr" where
  "put_if_absent ops path idx m =
     (if lru_peek ops path (im_index m) = None then m\<lparr>im_index := lru_put ops path idx (im_index m)\<rparr> else m)"

text \<open>\<^verbatim>\<open>get_or_build\<close>; \<open>demux\<close> is \<^verbatim>\<open>index_frames\<close> on the file of that path.\<close>

definition get_or_build ::
  "'c index_ops \<Rightarrow> (string \<Rightarrow> index_data option) \<Rightarrow> string \<Rightarrow> 'c index_mgr \<Rightarrow> index_data option \<times> 'c index_mgr" where
  "get_or_build ops demux path m =
     (case fi_get ops path m of
        Some idx \<Rightarrow> (Some idx, m)
      | None \<Rightarrow>
          (case demux path of
             None \<Rightarrow> (None, m)
           | Some idx \<Rightarrow>
               (let m = put_if_absent ops path idx m
                in (Some (case fi_get ops path m of Some i \<Rightarrow> i | None \<Rightarrow> idx), m))))"

datatype subscription = Cached index_data | Existing nat | New nat

text \<open>The lookup under the lock of the progress map, after the index had no entry.\<close>

definition subscribe_progress :: "string \<Rightarrow> 'c index_mgr \<Rightarrow> subscription \<times> 'c index_mgr" where
  "subscribe_progress path m =
     (case map_of (im_progress m) path of
        Some p \<Rightarrow> (Existing p, m)
      | None \<Rightarrow>
          (New (im_next m),
           m\<lparr>im_progress := (path, im_next m) # im_progress m, im_batches := (im_batches m)(im_next m := []),
             im_done := (im_done m)(im_next m := False), im_next := Suc (im_next m)\<rparr>))"

definition get_or_subscribe :: "'c index_ops \<Rightarrow> string \<Rightarrow> 'c index_mgr \<Rightarrow> subscription \<times> 'c index_mgr" where
  "get_or_subscribe ops path m =
     (case fi_get ops path m of Some idx \<Rightarrow> (Cached idx, m) | None \<Rightarrow> subscribe_progress path m)"

definition remove_progress :: "string \<Rightarrow> 'c index_mgr \<Rightarrow> 'c index_mgr" where
  "remove_progress path m = m\<lparr>im_progress := AList.delete path (im_progress m)\<rparr>"

definition push :: "nat \<Rightarrow> byte list \<Rightarrow> int \<Rightarrow> 'c index_mgr \<Rightarrow> 'c index_mgr" where
  "push p bs max_ms m = m\<lparr>im_batches := (im_batches m)(p := im_batches m p @ [(bs, max_ms)])\<rparr>"

definition set_done :: "nat \<Rightarrow> 'c index_mgr \<Rightarrow> 'c index_mgr" where
  "set_done p m = m\<lparr>im_done := (im_done m)(p := True)\<rparr>"

section \<open>Messages\<close>

definition show_bool :: "bool \<Rightarrow> string" where
  "show_bool b = (if b then ''true'' else ''false'')"

definition newline :: string where "newline = [CHR 0x0A]"

text \<open>\<^verbatim>\<open>serde_json\<close> writes a struct in the order of its fields and a \<^verbatim>\<open>json!\<close> object in the order of its keys.\<close>

definition entry_json :: "nat \<times> int \<times> bool \<Rightarrow> string" where
  "entry_json e =
     (case e of (fi, ms, key) \<Rightarrow>
        ''{\"frameIndex\":'' @ show_nat fi @ '',\"ms\":'' @ show_int ms @ '',\"isKey\":'' @ show_bool key @ ''}'')"

fun comma_join :: "string list \<Rightarrow> string" where
  "comma_join [] = []"
| "comma_join [x] = x"
| "comma_join (x # y # zs) = x @ '','' @ comma_join (y # zs)"

definition sse :: "string \<Rightarrow> byte list" where
  "sse json = bytes_of (''data: '' @ json @ newline @ newline)"

definition make_batch :: "(nat \<times> int \<times> bool) list \<Rightarrow> byte list" where
  "make_batch es = sse (''['' @ comma_join (map entry_json es) @ '']'')"

definition fps_message :: "int \<Rightarrow> int \<Rightarrow> byte list" where
  "fps_message num den = sse (''{\"fps\":{\"den\":'' @ show_int den @ '',\"num\":'' @ show_int num @ ''}}'')"

definition done_message :: "byte list" where
  "done_message = sse ''{\"done\":true}''"

definition batch_size :: nat where "batch_size = 5000"

section \<open>The full demux\<close>

text \<open>
  The loop of \<^verbatim>\<open>queue_b_demux\<close>: \<open>fs\<close> are the frames so far, \<open>batch\<close> the frames not yet pushed. The
  result is all frames with the batches pushed. Packets carry their own time stamps, no parser is involved.
\<close>

definition queue_ms :: "video_stream \<Rightarrow> packet \<Rightarrow> int" where
  "queue_ms v p = rel_ms v (pkt_ts p)"

fun queue_b_loop ::
  "video_stream \<Rightarrow> packet list \<Rightarrow> (int \<times> bool) list \<Rightarrow> (nat \<times> int \<times> bool) list \<Rightarrow> int \<Rightarrow>
     (int \<times> bool) list \<times> (byte list \<times> int) list" where
  "queue_b_loop v [] fs batch max_ms = (fs, if batch \<noteq> [] then [(make_batch batch, max_ms)] else [])"
| "queue_b_loop v (p # ps) fs batch max_ms =
     (if pk_stream p \<noteq> vs_index v then queue_b_loop v ps fs batch max_ms
      else
        (let ms = queue_ms v p;
             batch = batch @ [(length fs, ms, pk_key p)];
             fs = fs @ [(ms, pk_key p)];
             max_ms = max max_ms ms
         in if batch_size \<le> length batch
            then (let (all, bs) = queue_b_loop v ps fs [] 0 in (all, (make_batch batch, max_ms) # bs))
            else queue_b_loop v ps fs batch max_ms))"

definition push_all :: "nat \<Rightarrow> (byte list \<times> int) list \<Rightarrow> 'c index_mgr \<Rightarrow> 'c index_mgr" where
  "push_all p bs m = fold (\<lambda>(b, ms). push p b ms) bs m"

text \<open>
  The blocking task of \<^verbatim>\<open>queue_b_demux\<close>: it pushes the frame rate and the batches and returns the
  index of the file.
\<close>

definition queue_b_push ::
  "video_stream \<Rightarrow> packet list \<Rightarrow> nat \<Rightarrow> 'c index_mgr \<Rightarrow> index_data \<times> 'c index_mgr" where
  "queue_b_push v ps p m =
     (let (num, den) = stream_fps v;
          (fs, bs) = queue_b_loop v ps [] [] 0
      in ((fs, num, den), push_all p bs (push p (fps_message num den) (- 1) m)))"

text \<open>
  \<^verbatim>\<open>queue_b_demux\<close>. \<open>input\<close> is the opened file with its best video stream, as for \<open>index_frames\<close>.
  It takes each lock for one operation only, so the other tasks of the daemon run in between:
  \<open>others\<close> is what they do to the manager until the index is stored, \<open>others'\<close> what they do from
  there to the end marker. On an error it returns before \<^verbatim>\<open>finish\<close> and \<^verbatim>\<open>remove_progress\<close>.
\<close>

definition queue_b_demux ::
  "'c index_ops \<Rightarrow> ('c index_mgr \<Rightarrow> 'c index_mgr) \<Rightarrow> ('c index_mgr \<Rightarrow> 'c index_mgr) \<Rightarrow>
     video_stream option option \<Rightarrow> packet list \<Rightarrow> string \<Rightarrow> nat \<Rightarrow> 'c index_mgr \<Rightarrow> bool \<times> 'c index_mgr" where
  "queue_b_demux ops others others' input ps path p m =
     (case input of
        Some (Some v) \<Rightarrow>
          (let (idx, m) = queue_b_push v ps p m;
               m = put_if_absent ops path idx (others m);
               m = set_done p (push p done_message i64_max (others' m))
           in (True, remove_progress path m))
      | _ \<Rightarrow> (False, others m))"

section \<open>The answer from a cached index\<close>

definition index_entries :: "(int \<times> bool) list \<Rightarrow> (nat \<times> int \<times> bool) list" where
  "index_entries fs = enumerate 0 fs"

definition cached_chunks :: "index_data \<Rightarrow> byte list list" where
  "cached_chunks idx =
     (case idx of (fs, num, den) \<Rightarrow>
        [fps_message num den] @ map make_batch (chunks batch_size (index_entries fs)) @ [done_message])"

definition write_chunk :: "byte list \<Rightarrow> ('z, unit) wire" where
  "write_chunk bs = io_then (write_all (le_bytes 4 (length bs))) (write_all bs)"

definition send_cached :: "index_data \<Rightarrow> ('z, unit) wire" where
  "send_cached idx = io_then (io_for (cached_chunks idx) write_chunk) (write_all (le_bytes 4 0))"


section \<open>What the full demux pushes\<close>

definition queue_frames :: "video_stream \<Rightarrow> packet list \<Rightarrow> (int \<times> bool) list" where
  "queue_frames v ps = map (\<lambda>p. (queue_ms v p, pk_key p)) (filter (\<lambda>p. pk_stream p = vs_index v) ps)"

lemma queue_frames_Cons:
  "queue_frames v (p # ps) = (if pk_stream p = vs_index v then [(queue_ms v p, pk_key p)] else []) @ queue_frames v ps"
  by (simp add: queue_frames_def)

lemma chunks_full: "length a = n \<Longrightarrow> 0 < n \<Longrightarrow> chunks n (a @ b) = a # chunks n b"
  by (subst chunks.simps) auto

lemma chunks_short: "length a < n \<Longrightarrow> chunks n a = (if a = [] then [] else [a])"
  by (subst chunks.simps) (simp add: chunks.simps [of n "[]"])

lemma queue_b_loop_pushes:
  "length batch < batch_size \<Longrightarrow>
     fst (queue_b_loop v ps fs batch mx) = fs @ queue_frames v ps \<and>
     map fst (snd (queue_b_loop v ps fs batch mx)) =
       map make_batch (chunks batch_size (batch @ enumerate (length fs) (queue_frames v ps)))"
proof (induction v ps fs batch mx rule: queue_b_loop.induct)
  case (1 v fs batch mx)
  then show ?case by (simp add: queue_frames_def chunks_short)
next
  case (2 v p ps fs batch mx)
  show ?case
  proof (cases "pk_stream p = vs_index v")
    case False
    with 2 show ?thesis by (simp add: queue_frames_Cons)
  next
    case True
    let ?x = "(queue_ms v p, pk_key p)" and ?e = "(length fs, queue_ms v p, pk_key p)"
    show ?thesis
    proof (cases "batch_size \<le> length (batch @ [?e])")
      case full: True
      then have len: "length (batch @ [?e]) = batch_size" using "2.prems" by simp
      have "chunks batch_size ((batch @ [?e]) @ r) = (batch @ [?e]) # chunks batch_size r" for r
        using len by (rule chunks_full) (simp add: batch_size_def)
      moreover have "0 < batch_size" by (simp add: batch_size_def)
      ultimately show ?thesis
        using "2.IH"(2) True full
        by (cases "queue_b_loop v ps (fs @ [?x]) [] 0") (simp add: queue_frames_Cons Let_def)
    next
      case part: False
      then show ?thesis
        using "2.IH"(3) True by (simp add: queue_frames_Cons Let_def)
    qed
  qed
qed


lemma push_all_sel [simp]:
  "im_index (push_all p bs m) = im_index m" "im_progress (push_all p bs m) = im_progress m"
  "im_done (push_all p bs m) = im_done m" "im_next (push_all p bs m) = im_next m"
  "im_batches (push_all p bs m) p = im_batches m p @ bs"
proof -
  have "im_index (push_all p bs m) = im_index m \<and> im_progress (push_all p bs m) = im_progress m \<and>
      im_done (push_all p bs m) = im_done m \<and> im_next (push_all p bs m) = im_next m \<and>
      im_batches (push_all p bs m) p = im_batches m p @ bs"
    unfolding push_all_def by (induction bs arbitrary: m) (auto simp: push_def)
  then show "im_index (push_all p bs m) = im_index m" "im_progress (push_all p bs m) = im_progress m"
    "im_done (push_all p bs m) = im_done m" "im_next (push_all p bs m) = im_next m"
    "im_batches (push_all p bs m) p = im_batches m p @ bs" by blast+
qed

lemma put_if_absent_sel [simp]:
  "im_progress (put_if_absent ops path idx m) = im_progress m" "im_done (put_if_absent ops path idx m) = im_done m"
  "im_batches (put_if_absent ops path idx m) = im_batches m" "im_next (put_if_absent ops path idx m) = im_next m"
  by (simp_all add: put_if_absent_def)

lemma put_if_absent_get:
  "lru_laws ops \<Longrightarrow> fi_get ops path (put_if_absent ops path idx m) =
    Some (case fi_get ops path m of Some i \<Rightarrow> i | None \<Rightarrow> idx)"
  by (auto simp: put_if_absent_def fi_get_def lru_put_same split: option.split)

lemma queue_b_pushes:
  "map fst (snd (queue_b_loop v ps [] [] 0)) = map make_batch (chunks batch_size (index_entries (queue_frames v ps)))"
  "fst (queue_b_loop v ps [] [] 0) = queue_frames v ps"
  using queue_b_loop_pushes [of "[]" v ps "[]" 0] by (simp_all add: batch_size_def index_entries_def)

lemma demux_loop_packets:
  "tb_valid (vs_tb v) \<Longrightarrow> demux_loop v None ps st fs = fs @ queue_frames v ps"
  by (induction ps arbitrary: fs) (simp_all add: queue_frames_def queue_ms_def packet_ms_def)

text \<open>
  The two demuxers agree without a parser. For a stream with a valid time base whose codec has no bitstream
  parser, the index that \<^verbatim>\<open>queue_b_demux\<close> stores is the index that \<^verbatim>\<open>index_frames\<close> builds, frame for frame.
\<close>

lemma queue_b_index:
  assumes "tb_valid (vs_tb v)" and "index_frames (Some (Some v)) None st ps = Inr (fs, num, den)"
  shows "fst (queue_b_loop v ps [] [] 0) = fs \<and> stream_fps v = (num, den)"
  using assms(2) unfolding queue_b_pushes
  by (simp add: index_frames_def demux_frames_def demux_loop_packets [OF assms(1)] Let_def split: if_splits)

lemma queue_b_push_index:
  assumes "tb_valid (vs_tb v)" and "index_frames (Some (Some v)) None st ps = Inr idx"
  shows "fst (queue_b_push v ps p m) = idx"
proof -
  obtain fs num den where i: "idx = (fs, num, den)" by (cases idx)
  from queue_b_index [OF assms [unfolded i]] show ?thesis
    by (simp add: queue_b_push_def i case_prod_beta)
qed

lemma queue_b_push_sel:
  assumes "queue_b_push v ps p m = (idx, m1)" and "im_batches m p = []"
  shows "fst idx = queue_frames v ps" and "map fst (im_batches m1 p) @ [done_message] = cached_chunks idx"
proof -
  obtain num den where fps: "stream_fps v = (num, den)" by (cases "stream_fps v")
  obtain fs bs where q: "queue_b_loop v ps [] [] 0 = (fs, bs)" by (cases "queue_b_loop v ps [] [] 0")
  have b: "fs = queue_frames v ps" "map fst bs = map make_batch (chunks batch_size (index_entries fs))"
    using queue_b_pushes [of v ps] q by simp_all
  have r: "idx = (fs, num, den)" "m1 = push_all p bs (push p (fps_message num den) (- 1) m)"
    using assms(1) by (simp_all add: queue_b_push_def fps q)
  show "fst idx = queue_frames v ps" using r b by simp
  show "map fst (im_batches m1 p) @ [done_message] = cached_chunks idx"
    using r b assms(2) by (simp add: cached_chunks_def push_def)
qed



section \<open>Examples\<close>

definition demo_mgr :: "(string \<times> index_data) list index_mgr" where
  "demo_mgr = \<lparr>im_index = [], im_progress = [(''m.mkv'', 0)], im_batches = (\<lambda>_. []), im_done = (\<lambda>_. False), im_next = 1\<rparr>"

definition rival_index :: index_data where "rival_index = ([(0, True)], 25, 1)"


text \<open>A codec parser that reports no picture for the second packet, as for a hidden AV1 reference frame.\<close>

definition hiding_parser :: "nat parser" where
  "hiding_parser p n = ((if n = 1 then 0 else 1, None), Suc n)"

lemma queue_b_counts_hidden:
  "\<exists>fs. index_frames (Some (Some demo_stream)) (Some hiding_parser) 0 demo_packets = Inr (fs, 25, 1) \<and>
     length fs = 1 \<and> length (fst (queue_b_loop demo_stream demo_packets [] [] 0)) = 2"
  unfolding queue_b_pushes
  by (simp add: index_frames_def demux_frames_def demo_packets_def demo_stream_def stream_fps_def hiding_parser_def
      queue_frames_def Let_def)

lemma queue_b_index_example:
  "\<exists>fs. index_frames (Some (Some demo_stream)) None () demo_packets = Inr (fs, 25, 1) \<and>
     fst (queue_b_loop demo_stream demo_packets [] [] 0) = fs"
proof -
  obtain fs where fs: "index_frames (Some (Some demo_stream)) (None :: unit parser option) () demo_packets = Inr (fs, 25, 1)"
    by (simp add: index_frames_def demux_frames_def demo_packets_def demo_stream_def stream_fps_def)
  have "tb_valid (vs_tb demo_stream)" by (simp add: demo_stream_def tb_valid_def)
  from queue_b_index [OF this fs] fs show ?thesis by blast
qed

end
