(* ===== verification/Index_Stream.thy ===== *)
theory Index_Stream
  imports Frame_Index
begin

text \<open>
  The concurrent parts of the frame index: the full demuxes that run at the same time (\<open>demux_step\<close>), and the
  bridge tasks of \<^verbatim>\<open>handle_index_frames_stream\<close> that relay the batches of one \<^verbatim>\<open>IndexProgress\<close> to their
  connections while the demux pushes them (\<open>relay_step\<close>). A step is what a task does between two points where
  another can run: a lock held, an atomic load or store, a notification.
\<close>

section \<open>Running demuxes\<close>

text \<open>A demux task, with whether it has stored its result and marked its progress as finished.\<close>

record 'c demux_sys =
  mgr :: "'c index_mgr"
  running :: "(string \<times> nat \<times> bool) list"

definition demux_init :: "'c \<Rightarrow> 'c demux_sys" where
  "demux_init c = \<lparr>mgr = \<lparr>im_index = c, im_progress = [], im_batches = (\<lambda>_. []), im_done = (\<lambda>_. False), im_next = 0\<rparr>,
     running = []\<rparr>"

text \<open>
  A request that found no cached index enters the map of progresses (possibly after the index was stored), and
  starts a demux when it is the first; a demux stores its index and finishes, then removes its progress, or
  fails; \<^verbatim>\<open>get_or_build\<close> stores an index of its own.
\<close>

inductive demux_step :: "'c index_ops \<Rightarrow> 'c demux_sys \<Rightarrow> 'c demux_sys \<Rightarrow> bool" for ops where
  d_join: "subscribe_progress path (mgr s) = (Existing p, m) \<Longrightarrow> demux_step ops s (s\<lparr>mgr := m\<rparr>)"
| d_start: "subscribe_progress path (mgr s) = (New p, m) \<Longrightarrow>
     demux_step ops s (s\<lparr>mgr := m, running := (path, p, False) # running s\<rparr>)"
| d_push: "(path, p, False) \<in> set (running s) \<Longrightarrow> demux_step ops s (s\<lparr>mgr := push p bs ms (mgr s)\<rparr>)"
| d_store: "(path, p, False) \<in> set (running s) \<Longrightarrow>
     demux_step ops s (s\<lparr>mgr := set_done p (push p done_message i64_max (put_if_absent ops path idx (mgr s))),
       running := (path, p, True) # remove1 (path, p, False) (running s)\<rparr>)"
| d_remove: "(path, p, True) \<in> set (running s) \<Longrightarrow>
     demux_step ops s (s\<lparr>mgr := remove_progress path (mgr s), running := remove1 (path, p, True) (running s)\<rparr>)"
| d_fail: "(path, p, False) \<in> set (running s) \<Longrightarrow>
     demux_step ops s (s\<lparr>running := remove1 (path, p, False) (running s)\<rparr>)"
| d_build: "demux_step ops s (s\<lparr>mgr := put_if_absent ops path idx (mgr s)\<rparr>)"

inductive demux_steps :: "'c index_ops \<Rightarrow> 'c demux_sys \<Rightarrow> 'c demux_sys \<Rightarrow> bool" for ops where
  ds_refl: "demux_steps ops s s"
| ds_step: "demux_steps ops s t \<Longrightarrow> demux_step ops t u \<Longrightarrow> demux_steps ops s u"

definition paths_of :: "'c demux_sys \<Rightarrow> string list" where
  "paths_of s = map fst (running s)"

definition demux_ok :: "'c demux_sys \<Rightarrow> bool" where
  "demux_ok s \<longleftrightarrow> distinct (paths_of s) \<and>
     (\<forall>(path, p, b)\<in>set (running s). map_of (im_progress (mgr s)) path = Some p) \<and>
     (\<forall>(path, p)\<in>set (im_progress (mgr s)). p < im_next (mgr s)) \<and> distinct (map snd (im_progress (mgr s)))"


lemma mgr_sel [simp]:
  "im_progress (push p bs ms m) = im_progress m" "im_next (push p bs ms m) = im_next m" "im_done (push p bs ms m) = im_done m"
  "im_progress (set_done p m) = im_progress m" "im_next (set_done p m) = im_next m"
  "im_done (set_done p m) = (im_done m)(p := True)"
  "im_progress (remove_progress path m) = AList.delete path (im_progress m)" "im_next (remove_progress path m) = im_next m"
  "im_done (remove_progress path m) = im_done m"
  by (simp_all add: push_def set_done_def remove_progress_def)

lemma subscribe_existing: "subscribe_progress path m = (Existing p, m') \<Longrightarrow> m' = m \<and> map_of (im_progress m) path = Some p"
  by (auto simp: subscribe_progress_def split: option.splits)

lemma subscribe_new:
  "subscribe_progress path m = (New p, m') \<Longrightarrow>
     map_of (im_progress m) path = None \<and> p = im_next m \<and> im_progress m' = (path, p) # im_progress m \<and>
     im_next m' = Suc (im_next m) \<and> im_done m' = (im_done m)(p := False)"
  by (auto simp: subscribe_progress_def split: option.splits)

lemma demux_ok_cong:
  "demux_ok s \<Longrightarrow> im_progress (mgr t) = im_progress (mgr s) \<Longrightarrow> im_next (mgr t) = im_next (mgr s) \<Longrightarrow>
     set (running t) \<subseteq> set (running s) \<Longrightarrow> distinct (paths_of t) \<Longrightarrow> demux_ok t"
  by (simp add: demux_ok_def) blast

lemma distinct_map_remove1: "distinct (map f xs) \<Longrightarrow> distinct (map f (remove1 x xs))"
proof (induction xs)
  case (Cons a xs)
  then show ?case using set_remove1_subset [of x xs] by auto
qed simp

lemma map_remove1_gone: "distinct (map f xs) \<Longrightarrow> x \<in> set xs \<Longrightarrow> f x \<notin> f ` set (remove1 x xs)"
  by (induction xs) (auto simp: image_iff)

lemma demux_step_ok:
  assumes "demux_step ops s t" and ok: "demux_ok s"
  shows "demux_ok t"
  using assms(1)
proof cases
  case (d_join path p m)
  then show ?thesis using ok subscribe_existing [OF d_join(2)] by (simp add: demux_ok_def paths_of_def)
next
  case (d_start path p m)
  note n = subscribe_new [OF d_start(2)]
  have "path \<notin> set (paths_of s)" using n ok by (force simp: demux_ok_def paths_of_def)
  moreover have "im_next (mgr s) \<notin> snd ` set (im_progress (mgr s))" using ok by (force simp: demux_ok_def)
  ultimately show ?thesis using n ok d_start(1) by (force simp: demux_ok_def paths_of_def)
next
  case (d_push path p bs ms)
  then show ?thesis using ok by (intro demux_ok_cong [OF ok]) (auto simp: demux_ok_def paths_of_def)
next
  case (d_store path p idx)
  let ?r = "remove1 (path, p, False) (running s)"
  have r: "path \<notin> fst ` set ?r" "distinct (map fst ?r)" "set ?r \<subseteq> set (running s)"
    using map_remove1_gone [OF _ d_store(2), of fst] distinct_map_remove1 [of fst "running s"] ok set_remove1_subset
    by (auto simp: demux_ok_def paths_of_def)
  have "map_of (im_progress (mgr s)) path = Some p" using ok d_store(2) by (force simp: demux_ok_def)
  then show ?thesis using ok r d_store(1) by (auto simp: demux_ok_def paths_of_def)
next
  case (d_remove path p)
  let ?r = "remove1 (path, p, True) (running s)"
  have r: "path \<notin> fst ` set ?r" "distinct (map fst ?r)" "set ?r \<subseteq> set (running s)"
    using map_remove1_gone [OF _ d_remove(2), of fst] distinct_map_remove1 [of fst "running s"] ok set_remove1_subset
    by (auto simp: demux_ok_def paths_of_def)
  have "map_of (AList.delete path (im_progress (mgr s))) q = Some n" if "(q, n, b) \<in> set ?r" for q n b
    using that r(1,3) ok by (force simp: map_of_delete_eq demux_ok_def)
  moreover have "distinct (map snd (AList.delete path (im_progress (mgr s))))"
    using ok by (simp add: demux_ok_def AList.delete_eq distinct_map_filter)
  moreover have "\<forall>(q, n)\<in>set (AList.delete path (im_progress (mgr s))). n < im_next (mgr s)"
    using ok by (auto simp: demux_ok_def AList.delete_eq)
  ultimately show ?thesis using r(2) d_remove(1) by (auto simp: demux_ok_def paths_of_def)
next
  case (d_fail path p)
  then show ?thesis
    using ok distinct_map_remove1 [of fst "running s"] set_remove1_subset [of "(path, p, False)" "running s"]
    by (intro demux_ok_cong [OF ok]) (simp_all add: demux_ok_def paths_of_def)
next
  case (d_build path idx)
  then show ?thesis using ok by (intro demux_ok_cong [OF ok]) (auto simp: demux_ok_def paths_of_def)
qed


lemma demux_reach_ok: "demux_steps ops s t \<Longrightarrow> demux_ok s \<Longrightarrow> demux_ok t"
  by (induction rule: demux_steps.induct) (auto intro: demux_step_ok)

lemma demux_init_ok: "demux_ok (demux_init c)"
  by (simp add: demux_ok_def demux_init_def paths_of_def)

text \<open>
  C10: One demux per file. However requests, demuxes, failures and index builds interleave, at most one full demux
  of a path runs at any time, and while it runs every request for the path joins it.
\<close>

theorem single_flight:
  assumes "demux_steps ops (demux_init c) s" and "(path, p, b) \<in> set (running s)"
  shows "length (filter (\<lambda>r. fst r = path) (running s)) = 1 \<and>
    subscribe_progress path (mgr s) = (Existing p, mgr s)"
proof -
  have ok: "demux_ok s" using demux_reach_ok [OF assms(1) demux_init_ok] .
  have one: "length (filter (\<lambda>r. fst r = path) xs) = 1" if "distinct (map fst xs)" "path \<in> fst ` set xs" for xs :: "(string \<times> nat \<times> bool) list"
    using that
  proof (induction xs)
    case (Cons x xs)
    then show ?case
      by (cases "fst x = path") (force simp: filter_empty_conv image_iff)+
  qed simp
  have "path \<in> fst ` set (running s)" using assms(2) by force
  moreover have "map_of (im_progress (mgr s)) path = Some p" using ok assms(2) by (force simp: demux_ok_def)
  ultimately show ?thesis using one ok by (simp add: subscribe_progress_def demux_ok_def paths_of_def)
qed

text \<open>A progress in the map that no demux is behind and that is not finished.\<close>

definition orphaned :: "string \<Rightarrow> nat \<Rightarrow> 'c demux_sys \<Rightarrow> bool" where
  "orphaned path p s \<longleftrightarrow> map_of (im_progress (mgr s)) path = Some p \<and> \<not> im_done (mgr s) p \<and> path \<notin> set (paths_of s)"

lemma orphaned_step:
  assumes "demux_step ops s t" and ok: "demux_ok s" and or: "orphaned path p s"
  shows "orphaned path p t"
  using assms(1)
proof cases
  case (d_join q n m)
  then show ?thesis using or subscribe_existing [OF d_join(2)] by (simp add: orphaned_def paths_of_def)
next
  case (d_start q n m)
  note sn = subscribe_new [OF d_start(2)]
  have "p < im_next (mgr s)" using ok or by (force simp: demux_ok_def orphaned_def dest: map_of_SomeD)
  then show ?thesis using or sn d_start(1) by (auto simp: orphaned_def paths_of_def)
next
  case (d_push q n bs ms)
  then show ?thesis using or by (simp add: orphaned_def paths_of_def)
next
  case (d_store q n idx)
  have q: "q \<noteq> path" using d_store(2) or by (force simp: orphaned_def paths_of_def)
  have "map_of (im_progress (mgr s)) q = Some n" using ok d_store(2) by (force simp: demux_ok_def)
  then have "(q, n) \<in> set (im_progress (mgr s))" "(path, p) \<in> set (im_progress (mgr s))"
    using or by (auto simp: orphaned_def dest: map_of_SomeD)
  then have "n \<noteq> p" using ok q by (force simp: demux_ok_def distinct_map inj_on_def)
  then show ?thesis
    using or d_store(1) q set_remove1_subset [of "(q, n, False)" "running s"] by (auto simp: orphaned_def paths_of_def)
next
  case (d_remove q n)
  have q: "q \<noteq> path" using d_remove(2) or by (force simp: orphaned_def paths_of_def)
  then show ?thesis
    using or d_remove(1) set_remove1_subset [of "(q, n, True)" "running s"]
    by (auto simp: orphaned_def paths_of_def map_of_delete_eq)
next
  case (d_fail q n)
  then show ?thesis
    using or set_remove1_subset [of "(q, n, False)" "running s"] by (auto simp: orphaned_def paths_of_def)
next
  case (d_build q idx)
  then show ?thesis using or by (simp add: orphaned_def paths_of_def)
qed

text \<open>
  C14: A failed demux blocks its path. Once a full demux has failed, whatever happens afterwards, every request for
  the path that finds no cached index joins the failed progress, which is never finished, so its stream never
  ends. Only an index that a frame request has built and stored since, and that is still in the cache, is served.
\<close>

theorem failed_demux_blocks:
  assumes "demux_steps ops (demux_init c) s" and "(path, p, False) \<in> set (running s)" and "\<not> im_done (mgr s) p"
    and "demux_steps ops (s\<lparr>running := remove1 (path, p, False) (running s)\<rparr>) t"
  shows "subscribe_progress path (mgr t) = (Existing p, mgr t) \<and> \<not> im_done (mgr t) p \<and>
    get_or_subscribe ops path (mgr t) =
      (case fi_get ops path (mgr t) of Some idx \<Rightarrow> (Cached idx, mgr t) | None \<Rightarrow> (Existing p, mgr t))"
proof -
  let ?s = "s\<lparr>running := remove1 (path, p, False) (running s)\<rparr>"
  have ok: "demux_ok s" using demux_reach_ok [OF assms(1) demux_init_ok] .
  have "demux_step ops s ?s" using assms(2) by (rule d_fail)
  then have ok': "demux_ok ?s" using ok by (rule demux_step_ok)
  have "map_of (im_progress (mgr s)) path = Some p" using ok assms(2) by (force simp: demux_ok_def)
  then have "orphaned path p ?s"
    using assms(3) map_remove1_gone [OF _ assms(2), of fst] ok by (simp add: orphaned_def demux_ok_def paths_of_def)
  from assms(4) this ok' have "orphaned path p t"
  proof (induction rule: demux_steps.induct)
    case (ds_step s' t' u)
    then show ?case using orphaned_step demux_reach_ok by blast
  qed simp
  then have "subscribe_progress path (mgr t) = (Existing p, mgr t)" "\<not> im_done (mgr t) p"
    by (simp_all add: orphaned_def subscribe_progress_def)
  then show ?thesis by (simp add: get_or_subscribe_def split: option.split)
qed


definition demo_ops :: "(string \<times> index_data) list index_ops" where
  "demo_ops = list_lru 20"

definition demo_started :: "(string \<times> index_data) list demux_sys" where
  "demo_started = \<lparr>mgr = snd (subscribe_progress ''m.mkv'' (mgr (demux_init []))), running = [(''m.mkv'', 0, False)]\<rparr>"

lemma demo_started_reached: "demux_steps demo_ops (demux_init []) demo_started"
proof -
  have "subscribe_progress ''m.mkv'' (mgr (demux_init [])) = (New 0, snd (subscribe_progress ''m.mkv'' (mgr (demux_init []))))"
    by (simp add: subscribe_progress_def demux_init_def)
  from demux_step.d_start [OF this] have "demux_step demo_ops (demux_init []) demo_started"
    by (simp add: demo_started_def demux_init_def)
  then show ?thesis by (rule demux_steps.ds_step [OF demux_steps.ds_refl])
qed

lemma demo_started_sel: "running demo_started = [(''m.mkv'', 0, False)]" "\<not> im_done (mgr demo_started) 0"
  by (simp_all add: demo_started_def subscribe_progress_def demux_init_def)

theorem single_flight_witness:
  "subscribe_progress ''m.mkv'' (mgr demo_started) = (Existing 0, mgr demo_started)"
  using single_flight [OF demo_started_reached, of "''m.mkv''" 0 False] by (simp add: demo_started_sel)

theorem failed_demux_blocks_witness:
  "subscribe_progress ''m.mkv'' (mgr (demo_started\<lparr>running := []\<rparr>)) = (Existing 0, mgr (demo_started\<lparr>running := []\<rparr>))"
  using failed_demux_blocks [OF demo_started_reached, of "''m.mkv''" 0 "demo_started\<lparr>running := []\<rparr>"]
  by (simp add: demo_started_sel demux_steps.ds_refl)

section \<open>Relaying a progress\<close>

text \<open>
  A bridge task: it takes a snapshot of the new batches and sends them (\<open>Snapshot\<close>), loads the done flag
  (\<open>Check_Done\<close>), drains and ends, or creates its \<^verbatim>\<open>notified()\<close> future (\<open>Subscribe\<close>) and sleeps until a
  notification (\<open>Waiting\<close>). \<^verbatim>\<open>notify_waiters\<close> wakes exactly the futures created before it.
\<close>

datatype bridge_pc = Snapshot | Check_Done | Subscribe | Waiting | Closed

record bridge =
  br_pc :: bridge_pc
  br_next :: nat
  br_sent :: "byte list list"

datatype demux_pc = Pushing | Notify_Push | Notify_Done | Ended

record relay =
  rl_batches :: "byte list list"
  rl_done :: bool
  rl_demux :: demux_pc
  rl_bridges :: "bridge list"

definition relay_init :: relay where
  "relay_init = \<lparr>rl_batches = [], rl_done = False, rl_demux = Pushing, rl_bridges = []\<rparr>"

definition new_bridge :: bridge where
  "new_bridge = \<lparr>br_pc = Snapshot, br_next = 0, br_sent = []\<rparr>"

definition wake :: "bridge \<Rightarrow> bridge" where
  "wake b = (if br_pc b = Waiting then b\<lparr>br_pc := Snapshot\<rparr> else b)"

definition bridge_turn :: "relay \<Rightarrow> bridge \<Rightarrow> bridge" where
  "bridge_turn s b =
     (case br_pc b of
        Snapshot \<Rightarrow> b\<lparr>br_sent := br_sent b @ drop (br_next b) (rl_batches s),
                      br_next := br_next b + length (drop (br_next b) (rl_batches s)), br_pc := Check_Done\<rparr>
      | Check_Done \<Rightarrow>
          if rl_done s then b\<lparr>br_sent := br_sent b @ drop (br_next b) (rl_batches s), br_pc := Closed\<rparr>
          else b\<lparr>br_pc := Subscribe\<rparr>
      | Subscribe \<Rightarrow> b\<lparr>br_pc := Waiting\<rparr>
      | Waiting \<Rightarrow> b
      | Closed \<Rightarrow> b)"

inductive relay_step :: "relay \<Rightarrow> relay \<Rightarrow> bool" where
  r_push: "rl_demux s = Pushing \<Longrightarrow> relay_step s (s\<lparr>rl_batches := rl_batches s @ [b], rl_demux := Notify_Push\<rparr>)"
| r_notify: "rl_demux s = Notify_Push \<Longrightarrow>
     relay_step s (s\<lparr>rl_bridges := map wake (rl_bridges s), rl_demux := Pushing\<rparr>)"
| r_finish: "rl_demux s = Pushing \<Longrightarrow> relay_step s (s\<lparr>rl_done := True, rl_demux := Notify_Done\<rparr>)"
| r_notify_done: "rl_demux s = Notify_Done \<Longrightarrow>
     relay_step s (s\<lparr>rl_bridges := map wake (rl_bridges s), rl_demux := Ended\<rparr>)"
| r_join: "relay_step s (s\<lparr>rl_bridges := rl_bridges s @ [new_bridge]\<rparr>)"
| r_bridge: "i < length (rl_bridges s) \<Longrightarrow>
     relay_step s (s\<lparr>rl_bridges := (rl_bridges s)[i := bridge_turn s (rl_bridges s ! i)]\<rparr>)"

inductive relay_steps :: "relay \<Rightarrow> relay \<Rightarrow> bool" where
  rs_refl: "relay_steps s s"
| rs_step: "relay_steps s t \<Longrightarrow> relay_step t u \<Longrightarrow> relay_steps s u"

definition bridge_ok :: "relay \<Rightarrow> bridge \<Rightarrow> bool" where
  "bridge_ok s b \<longleftrightarrow>
     (if br_pc b = Closed then rl_done s \<and> br_sent b = rl_batches s
      else br_next b \<le> length (rl_batches s) \<and> br_sent b = take (br_next b) (rl_batches s))"

definition relay_ok :: "relay \<Rightarrow> bool" where
  "relay_ok s \<longleftrightarrow> (\<forall>b\<in>set (rl_bridges s). bridge_ok s b) \<and> (rl_done s \<longleftrightarrow> rl_demux s \<in> {Notify_Done, Ended})"

lemma wake_ok: "bridge_ok s b \<Longrightarrow> bridge_ok s (wake b)"
  by (auto simp: bridge_ok_def wake_def)

lemma turn_ok: "bridge_ok s b \<Longrightarrow> bridge_ok s (bridge_turn s b)"
  by (cases "br_pc b") (auto simp: bridge_ok_def bridge_turn_def)

lemma bridge_ok_upd [simp]:
  "bridge_ok (s\<lparr>rl_bridges := bs\<rparr>) b = bridge_ok s b" "bridge_ok (s\<lparr>rl_demux := d\<rparr>) b = bridge_ok s b"
  by (simp_all add: bridge_ok_def)

lemma relay_step_ok:
  assumes "relay_step s t" and ok: "relay_ok s"
  shows "relay_ok t"
  using assms(1)
proof cases
  case (r_push b)
  then have "\<not> rl_done s" using ok by (simp add: relay_ok_def)
  with r_push ok show ?thesis by (auto simp: relay_ok_def bridge_ok_def)
next
  case r_notify
  then show ?thesis using ok wake_ok by (auto simp: relay_ok_def)
next
  case r_finish
  then show ?thesis using ok by (auto simp: relay_ok_def bridge_ok_def)
next
  case r_notify_done
  then show ?thesis using ok wake_ok by (auto simp: relay_ok_def)
next
  case r_join
  have "bridge_ok s new_bridge" by (simp add: bridge_ok_def new_bridge_def)
  then show ?thesis using ok r_join by (auto simp: relay_ok_def)
next
  case (r_bridge i)
  have "bridge_ok s (bridge_turn s (rl_bridges s ! i))" using ok r_bridge(2) by (intro turn_ok) (simp add: relay_ok_def)
  then show ?thesis
    using ok r_bridge(1) set_update_subset_insert [of "rl_bridges s" i] by (auto simp: relay_ok_def dest!: subsetD)
qed

lemma relay_reach_ok: "relay_steps s t \<Longrightarrow> relay_ok s \<Longrightarrow> relay_ok t"
  by (induction rule: relay_steps.induct) (auto intro: relay_step_ok)

text \<open>
  C11: A subscriber receives the batches in order. Whenever its bridge joins and however the tasks interleave, what it
  has relayed is a prefix of what the demux pushed, and once the bridge has closed it is everything.
\<close>

theorem bridge_in_order:
  assumes "relay_steps relay_init s" and "b \<in> set (rl_bridges s)"
  shows "(\<exists>n. br_sent b = take n (rl_batches s)) \<and> (br_pc b = Closed \<longrightarrow> rl_done s \<and> br_sent b = rl_batches s)"
proof -
  have "relay_ok relay_init" by (simp add: relay_ok_def relay_init_def)
  then have "bridge_ok s b" using relay_reach_ok [OF assms(1)] assms(2) by (simp add: relay_ok_def)
  then show ?thesis by (auto simp: bridge_ok_def split: if_splits intro: exI [of _ "length (rl_batches s)"])
qed

lemma ended_stays: "relay_step s t \<Longrightarrow> rl_demux s = Ended \<Longrightarrow> rl_demux t = Ended \<and> rl_batches t = rl_batches s \<and> rl_done t = rl_done s"
  by (auto elim: relay_step.cases)

text \<open>A bridge that waits, or is about to, after the last notification.\<close>

definition asleep :: "nat \<Rightarrow> relay \<Rightarrow> bool" where
  "asleep i s \<longleftrightarrow> rl_demux s = Ended \<and> i < length (rl_bridges s) \<and> br_pc (rl_bridges s ! i) \<in> {Subscribe, Waiting}"

lemma asleep_step:
  assumes "relay_step s t" and "asleep i s"
  shows "asleep i t"
  using assms
proof cases
  case (r_bridge j)
  then show ?thesis using assms(2) by (cases "j = i") (auto simp: asleep_def bridge_turn_def)
qed (use assms(2) in \<open>auto simp: asleep_def nth_append\<close>)

lemma asleep_steps: "relay_steps s t \<Longrightarrow> asleep i s \<Longrightarrow> asleep i t"
  by (induction rule: relay_steps.induct) (auto intro: asleep_step)

lemma bridge_closes:
  assumes "rl_done s" and "i < length (rl_bridges s)" and "br_pc (rl_bridges s ! i) \<in> {Snapshot, Check_Done, Closed}"
  shows "\<exists>t. relay_steps s t \<and> i < length (rl_bridges t) \<and> br_pc (rl_bridges t ! i) = Closed"
proof -
  let ?f = "\<lambda>s. s\<lparr>rl_bridges := (rl_bridges s)[i := bridge_turn s (rl_bridges s ! i)]\<rparr>"
  have step: "relay_step u (?f u)" if "i < length (rl_bridges u)" for u using that by (rule r_bridge)
  have l: "i < length (rl_bridges (?f s))" "rl_done (?f s)" using assms by simp_all
  have two: "relay_steps s (?f (?f s))"
    using rs_step [OF rs_step [OF rs_refl step [OF assms(2)]] step [OF l(1)]] by simp
  have one: "relay_steps s (?f s)" using rs_step [OF rs_refl step [OF assms(2)]] .
  from assms(3) consider "br_pc (rl_bridges s ! i) = Snapshot" | "br_pc (rl_bridges s ! i) = Check_Done"
    | "br_pc (rl_bridges s ! i) = Closed" by blast
  then show ?thesis
  proof cases
    case 1
    then have "br_pc (rl_bridges (?f (?f s)) ! i) = Closed" using assms by (simp add: bridge_turn_def)
    then show ?thesis using two assms(2) by (intro exI [of _ "?f (?f s)"]) simp
  next
    case 2
    then have "br_pc (rl_bridges (?f s) ! i) = Closed" using assms by (simp add: bridge_turn_def)
    then show ?thesis using one assms(2) by (intro exI [of _ "?f s"]) simp
  next
    case 3
    then show ?thesis using rs_refl assms(2) by blast
  qed
qed

text \<open>
  C15: When a stream ends. After the demux has finished and notified, a bridge can still end exactly when it had not
  yet passed its check of the done flag. A bridge that loaded the flag before it was set but created its
  \<^verbatim>\<open>notified()\<close> future after the last \<^verbatim>\<open>notify_waiters\<close> sleeps for ever, and its client's stream never ends.
\<close>

theorem bridge_ends_iff:
  assumes "relay_steps relay_init s" and "rl_demux s = Ended" and "i < length (rl_bridges s)"
  shows "(\<exists>t. relay_steps s t \<and> br_pc (rl_bridges t ! i) = Closed) \<longleftrightarrow> br_pc (rl_bridges s ! i) \<notin> {Subscribe, Waiting}"
proof
  assume "\<exists>t. relay_steps s t \<and> br_pc (rl_bridges t ! i) = Closed"
  then obtain t where t: "relay_steps s t" "br_pc (rl_bridges t ! i) = Closed" by blast
  show "br_pc (rl_bridges s ! i) \<notin> {Subscribe, Waiting}"
  proof
    assume "br_pc (rl_bridges s ! i) \<in> {Subscribe, Waiting}"
    then have "asleep i s" using assms(2,3) by (simp add: asleep_def)
    then have "asleep i t" using t(1) asleep_steps by blast
    then show False using t(2) by (auto simp: asleep_def)
  qed
next
  assume "br_pc (rl_bridges s ! i) \<notin> {Subscribe, Waiting}"
  then have "br_pc (rl_bridges s ! i) \<in> {Snapshot, Check_Done, Closed}" by (cases "br_pc (rl_bridges s ! i)") auto
  moreover have "relay_ok relay_init" by (simp add: relay_ok_def relay_init_def)
  then have "rl_done s" using relay_reach_ok [OF assms(1)] assms(2) by (simp add: relay_ok_def)
  ultimately show "\<exists>t. relay_steps s t \<and> br_pc (rl_bridges t ! i) = Closed"
    using bridge_closes [of s i] assms(3) by blast
qed

text \<open>A run that loses the wake-up: the bridge loads the flag, the demux finishes and notifies, the bridge subscribes.\<close>

definition lost_wakeup :: relay where
  "lost_wakeup = \<lparr>rl_batches = [], rl_done = True, rl_demux = Ended,
     rl_bridges = [\<lparr>br_pc = Waiting, br_next = 0, br_sent = []\<rparr>]\<rparr>"

lemma lost_wakeup_reached: "relay_steps relay_init lost_wakeup"
proof -
  let ?b = "\<lambda>pc. \<lparr>br_pc = pc, br_next = 0, br_sent = []\<rparr>"
  let ?s = "\<lambda>d dn pc. \<lparr>rl_batches = [], rl_done = dn, rl_demux = d, rl_bridges = [?b pc]\<rparr>"
  have 1: "relay_steps relay_init (?s Pushing False Snapshot)"
    using rs_step [OF rs_refl r_join [of relay_init]] by (simp add: relay_init_def new_bridge_def)
  have 2: "relay_steps relay_init (?s Pushing False Check_Done)"
    using rs_step [OF 1 r_bridge [of 0]] by (simp add: bridge_turn_def)
  have 3: "relay_steps relay_init (?s Pushing False Subscribe)"
    using rs_step [OF 2 r_bridge [of 0]] by (simp add: bridge_turn_def)
  have 4: "relay_steps relay_init (?s Notify_Done True Subscribe)"
    using rs_step [OF 3 r_finish] by simp
  have 5: "relay_steps relay_init (?s Ended True Subscribe)"
    using rs_step [OF 4 r_notify_done] by (simp add: wake_def)
  show ?thesis
    using rs_step [OF 5 r_bridge [of 0]] by (simp add: bridge_turn_def lost_wakeup_def)
qed

theorem bridge_ends_iff_witness: "\<not> (\<exists>t. relay_steps lost_wakeup t \<and> br_pc (rl_bridges t ! 0) = Closed)"
  using bridge_ends_iff [OF lost_wakeup_reached, of 0] by (simp add: lost_wakeup_def)

theorem bridge_in_order_witness: "\<exists>n. br_sent (hd (rl_bridges lost_wakeup)) = take n (rl_batches lost_wakeup)"
  using bridge_in_order [OF lost_wakeup_reached, of "hd (rl_bridges lost_wakeup)"] by (simp add: lost_wakeup_def)

end
