(* ===== verification/Frame_Windows.thy ===== *)
theory Frame_Windows
  imports Frame_Index
begin

text \<open>
  The time windows of the frame-forge daemon: the one-second window around the current position that
  \<^verbatim>\<open>handle_index_frames_stream\<close> sends first (queue A), and the window of \<^verbatim>\<open>handle_prefetch_range_stream\<close>. Both
  are cut out of a cached index when there is one, and estimated from the frame rate otherwise
  (\<^verbatim>\<open>crates/frame-forge/src/server.rs\<close>).
\<close>

section \<open>From the index\<close>

text \<open>The loop of \<^verbatim>\<open>send_window_from_cache\<close>: the messages sent and the number of frames in them.\<close>

fun window_loop :: "int \<Rightarrow> (nat \<times> int \<times> bool) list \<Rightarrow> (nat \<times> int \<times> bool) list \<Rightarrow> nat \<Rightarrow> byte list list \<times> nat" where
  "window_loop p_end [] batch sent =
     (if batch \<noteq> [] then ([make_batch batch], sent + length batch) else ([], sent))"
| "window_loop p_end ((i, ms, key) # es) batch sent =
     (if p_end < ms then window_loop p_end [] batch sent
      else
        (let batch = batch @ [(i, ms, key)]
         in if batch_size \<le> length batch
            then (let (out, n) = window_loop p_end es [] (sent + length batch) in (make_batch batch # out, n))
            else window_loop p_end es batch sent))"

definition send_window_from_cache :: "index_data \<Rightarrow> int \<Rightarrow> int \<Rightarrow> byte list list \<times> nat" where
  "send_window_from_cache idx p_start p_end =
     (case idx of (frames, _, _) \<Rightarrow>
        window_loop p_end
          (drop (partition_point (\<lambda>(ms, _). ms < p_start) frames) (index_entries frames)) [] 0)"

fun prefetch_loop :: "int \<Rightarrow> int \<Rightarrow> bool \<Rightarrow> (nat \<times> int \<times> bool) list \<Rightarrow> (int \<times> int) list" where
  "prefetch_loop range_end anchor include_current [] = []"
| "prefetch_loop range_end anchor include_current ((i, ms, _) # es) =
     (if range_end < ms then []
      else if \<not> include_current \<and> ms = anchor then prefetch_loop range_end anchor include_current es
      else (int i, ms) # prefetch_loop range_end anchor include_current es)"

definition whole_fps :: "int \<Rightarrow> int \<Rightarrow> int" where
  "whole_fps num den = (if 0 < num \<and> 0 < den then quot num den else 24)"

definition build_prefetch_window_from_cache ::
  "index_data \<Rightarrow> int \<Rightarrow> int \<Rightarrow> int \<Rightarrow> int \<Rightarrow> bool \<Rightarrow> (int \<times> int) list \<times> int \<times> int" where
  "build_prefetch_window_from_cache idx current_frame_idx current_time_ms before_ms after_ms include_current =
     (case idx of (frames, num, den) \<Rightarrow>
        (let anchor = (if 0 \<le> current_frame_idx then
                         (case slice_get frames (min (nat current_frame_idx) (length frames - 1)) of
                            Some (ms, _) \<Rightarrow> ms | None \<Rightarrow> current_time_ms)
                       else current_time_ms);
             range_start = sat_sub_i64 anchor before_ms;
             range_end = sat_add_i64 anchor after_ms;
             start = partition_point (\<lambda>(ms, _). ms < range_start) frames
         in (prefetch_loop range_end anchor include_current (drop start (index_entries frames)),
             whole_fps num den, anchor)))"

section \<open>Estimated\<close>

definition first_video_pkt_ms :: "video_stream \<Rightarrow> packet list \<Rightarrow> int" where
  "first_video_pkt_ms v ps =
     (case filter (\<lambda>p. pk_stream p = vs_index v) ps of [] \<Rightarrow> 0 | p # _ \<Rightarrow> queue_ms v p)"

text \<open>
  The slow path of \<^verbatim>\<open>queue_a_demux\<close> over the packets from the seek on. A panic of the arithmetic (\<open>None\<close>) is
  the error of the blocking task; frame numbers are cast to \<^verbatim>\<open>usize\<close>.
\<close>

definition usize_of :: "int \<Rightarrow> nat" where
  "usize_of i = nat (i mod 2 ^ 64)"

fun queue_a_loop ::
  "video_stream \<Rightarrow> int \<Rightarrow> int \<Rightarrow> int \<Rightarrow> packet list \<Rightarrow> (nat \<times> int \<times> bool) list \<Rightarrow> byte list list option" where
  "queue_a_loop v first p_start p_end [] batch = Some (if batch \<noteq> [] then [make_batch batch] else [])"
| "queue_a_loop v first p_start p_end (p # ps) batch =
     (if pk_stream p \<noteq> vs_index v then queue_a_loop v first p_start p_end ps batch
      else if queue_ms v p < p_start then queue_a_loop v first p_start p_end ps batch
      else if p_end < queue_ms v p then Some (if batch \<noteq> [] then [make_batch batch] else [])
      else
        (case compute_frame_idx (wrap_i64 (queue_ms v p - first)) (fst (stream_fps v)) (snd (stream_fps v)) of
           None \<Rightarrow> None
         | Some fi \<Rightarrow>
             (let batch = batch @ [(usize_of fi, queue_ms v p, pk_key p)]
              in if batch_size \<le> length batch
                 then map_option (Cons (make_batch batch)) (queue_a_loop v first p_start p_end ps [])
                 else queue_a_loop v first p_start p_end ps batch)))"

text \<open>The quick demux of \<^verbatim>\<open>handle_prefetch_range_stream\<close>; \<open>pkts\<close> gives the packets from a seek on.\<close>

fun quick_loop ::
  "video_stream \<Rightarrow> int \<Rightarrow> int \<Rightarrow> int \<Rightarrow> int \<Rightarrow> bool \<Rightarrow> packet list \<Rightarrow> (int \<times> int) list \<Rightarrow> (int \<times> int) list option" where
  "quick_loop v first range_start range_end anchor include_current [] res = Some res"
| "quick_loop v first range_start range_end anchor include_current (p # ps) res =
     (let ms = queue_ms v p; (num, den) = stream_fps v
      in if pk_stream p \<noteq> vs_index v then quick_loop v first range_start range_end anchor include_current ps res
         else if ms < range_start then quick_loop v first range_start range_end anchor include_current ps res
         else if range_end < ms then Some res
         else if \<not> include_current \<and> ms = anchor
         then quick_loop v first range_start range_end anchor include_current ps res
         else if 0 < num \<and> 0 < den then
           (case compute_frame_idx (wrap_i64 (ms - first)) num den of
              None \<Rightarrow> None
            | Some fi \<Rightarrow> quick_loop v first range_start range_end anchor include_current ps (res @ [(fi, ms)]))
         else quick_loop v first range_start range_end anchor include_current ps (res @ [(int (length res), ms)]))"

definition quick_demux ::
  "video_stream \<Rightarrow> (int \<Rightarrow> packet list) \<Rightarrow> int \<Rightarrow> int \<Rightarrow> int \<Rightarrow> int \<Rightarrow> bool \<Rightarrow> ((int \<times> int) list \<times> int \<times> int) option" where
  "quick_demux v pkts cf_idx current_time_ms before_ms after_ms include_current =
     (let (num, den) = stream_fps v;
          first = first_video_pkt_ms v (pkts 0);
          anchor = (if 0 \<le> cf_idx \<and> 0 < num \<and> 0 < den
                    then wrap_i64 (first + quot (wrap_i64 (wrap_i64 (cf_idx * den) * 1000)) num)
                    else current_time_ms);
          range_start = sat_sub_i64 anchor before_ms;
          range_end = sat_add_i64 anchor after_ms
      in map_option (\<lambda>res. (res, whole_fps num den, anchor))
           (quick_loop v first range_start range_end anchor include_current (pkts (wrap_i64 (range_start * 1000))) []))"

section \<open>Windows of a sorted index\<close>

definition in_span :: "int \<Rightarrow> int \<Rightarrow> (nat \<times> int \<times> bool) \<Rightarrow> bool" where
  "in_span lo hi e \<longleftrightarrow> lo \<le> fst (snd e) \<and> fst (snd e) \<le> hi"

lemma drop_enumerate: "drop k (enumerate n xs) = enumerate (n + k) (drop k xs)"
proof (induction xs arbitrary: k n)
  case (Cons x xs)
  then show ?case by (cases k) simp_all
qed simp

lemma window_start:
  assumes "sorted (map fst frames)"
  shows "drop (partition_point (\<lambda>(ms, _). ms < lo) frames) (index_entries frames) =
    filter (\<lambda>e. lo \<le> fst (snd e)) (index_entries frames)"
proof -
  let ?P = "\<lambda>(ms :: int, _ :: bool). ms < lo"
  have "?P (frames ! i)" if "i < j" "j < length frames" "?P (frames ! j)" for i j
    using that sorted_nth_mono [OF assms, of i j] by (simp add: case_prod_beta)
  then have "partition_point ?P frames = length (takeWhile ?P frames)" by (rule partition_point_take)
  moreover have "drop (length (takeWhile (\<lambda>(ms, _). ms < lo) fs)) (enumerate n fs) =
      filter (\<lambda>e. lo \<le> fst (snd e)) (enumerate n fs)" if "sorted (map fst fs)" for n and fs :: "(int \<times> bool) list"
    using that
  proof (induction fs arbitrary: n)
    case (Cons x fs)
    show ?case
    proof (cases "fst x < lo")
      case True
      with Cons show ?thesis by (simp add: case_prod_beta)
    next
      case False
      with Cons.prems have "\<forall>y\<in>set fs. lo \<le> fst y" by auto
      moreover have "snd e \<in> set fs" if "e \<in> set (enumerate (Suc n) fs)" for e
        using that map_snd_enumerate [of "Suc n" fs] by (metis image_eqI list.set_map)
      ultimately have "filter (\<lambda>e. lo \<le> fst (snd e)) (enumerate (Suc n) fs) = enumerate (Suc n) fs"
        by (simp add: filter_id_conv)
      with False show ?thesis by (simp add: case_prod_beta)
    qed
  qed simp
  ultimately show ?thesis using assms by (simp add: index_entries_def)
qed


lemma takeWhile_sorted:
  "sorted (map (\<lambda>e. fst (snd e)) es) \<Longrightarrow> takeWhile (\<lambda>e. fst (snd e) \<le> hi) es = filter (\<lambda>e. fst (snd e) \<le> hi) es"
proof (induction es)
  case (Cons e es)
  show ?case
  proof (cases "fst (snd e) \<le> hi")
    case True
    with Cons show ?thesis by simp
  next
    case False
    with Cons.prems have "filter (\<lambda>e. fst (snd e) \<le> hi) es = []" by (force simp: filter_empty_conv)
    with False show ?thesis by simp
  qed
qed simp

lemma sorted_entries: "sorted (map fst frames) \<Longrightarrow> sorted (map (\<lambda>e. fst (snd e)) (filter P (index_entries frames)))"
proof -
  assume s: "sorted (map fst frames)"
  have "map (\<lambda>e. fst (snd e)) (index_entries frames) = map fst (map snd (index_entries frames))" by simp
  then have "sorted (map (\<lambda>e. fst (snd e)) (index_entries frames))" using s by (simp add: index_entries_def map_snd_enumerate del: map_map)
  then show ?thesis by (rule sorted_filter)
qed

lemma window_loop_take:
  "length batch < batch_size \<Longrightarrow>
     window_loop hi es batch sent =
       (map make_batch (chunks batch_size (batch @ takeWhile (\<lambda>e. fst (snd e) \<le> hi) es)),
        sent + length batch + length (takeWhile (\<lambda>e. fst (snd e) \<le> hi) es))"
proof (induction hi es batch sent rule: window_loop.induct)
  case (1 hi batch sent)
  then show ?case by (simp add: chunks_short)
next
  case (2 hi i ms key es batch sent)
  let ?e = "(i, ms, key)"
  show ?case
  proof (cases "hi < ms")
    case True
    with 2 show ?thesis by (simp add: chunks_short)
  next
    case False
    show ?thesis
    proof (cases "batch_size \<le> length (batch @ [?e])")
      case full: True
      then have len: "length (batch @ [?e]) = batch_size" using "2.prems" by simp
      have b0: "0 < batch_size" by (simp add: batch_size_def)
      have "chunks batch_size (batch @ ?e # r) = (batch @ [?e]) # chunks batch_size r" for r
        using chunks_full [OF len b0, of r] by simp
      then show ?thesis using "2.IH"(2) [OF False refl full] False full b0 by simp
    next
      case part: False
      with "2.IH"(3) [OF False refl part] False show ?thesis by simp
    qed
  qed
qed

lemma prefetch_loop_take:
  "prefetch_loop hi anchor inc es =
     map (\<lambda>e. (int (fst e), fst (snd e)))
       (filter (\<lambda>e. inc \<or> fst (snd e) \<noteq> anchor) (takeWhile (\<lambda>e. fst (snd e) \<le> hi) es))"
  by (induction hi anchor inc es rule: prefetch_loop.induct) auto

lemma span_of_index:
  assumes "sorted (map fst frames)"
  shows "takeWhile (\<lambda>e. fst (snd e) \<le> hi) (drop (partition_point (\<lambda>(ms, _). ms < lo) frames) (index_entries frames)) =
    filter (in_span lo hi) (index_entries frames)"
  unfolding window_start [OF assms] takeWhile_sorted [OF sorted_entries [OF assms]]
  by (simp add: in_span_def [abs_def] conj_commute)

text \<open>
  C13: Windows cut from the index are exact. On an index in time order the binary search and the scan select exactly
  the frames of the closed time window, each under its own frame number: queue A sends them in batches of at most
  5000, and the prefetch window has them all, less those at the anchor when the current frame is not included. The
  anchor is the time of the current frame (the last frame when the number is beyond the index).
\<close>

theorem windows_exact:
  assumes "sorted (map fst frames)"
  shows "send_window_from_cache (frames, num, den) p_start p_end =
      (map make_batch (chunks batch_size (filter (in_span p_start p_end) (index_entries frames))),
       length (filter (in_span p_start p_end) (index_entries frames)))
    \<and> (\<exists>anchor fps. build_prefetch_window_from_cache (frames, num, den) cur now before after inc =
         (map (\<lambda>e. (int (fst e), fst (snd e)))
            (filter (\<lambda>e. inc \<or> fst (snd e) \<noteq> anchor)
               (filter (in_span (sat_sub_i64 anchor before) (sat_add_i64 anchor after)) (index_entries frames))),
          fps, anchor) \<and>
       anchor = (if 0 \<le> cur \<and> frames \<noteq> [] then fst (frames ! min (nat cur) (length frames - 1)) else now))"
proof -
  have "min (nat cur) (length frames - 1) < length frames" if "frames \<noteq> []" using that by (cases frames) auto
  then show ?thesis
    by (auto simp: send_window_from_cache_def window_loop_take batch_size_def span_of_index [OF assms]
        build_prefetch_window_from_cache_def prefetch_loop_take Let_def slice_get_def case_prod_beta)
qed


text \<open>
  The numbers estimated without an index, against the sequence numbers: on a stream of constant rate (frame \<open>k\<close>
  lies within half a frame of \<open>k\<close> frame times after the first packet) they are the same.
\<close>

definition on_grid :: "video_stream \<Rightarrow> int \<Rightarrow> int \<Rightarrow> int \<Rightarrow> bool" where
  "on_grid v first k ms \<longleftrightarrow>
     pts_small (ms - first) \<and>
     2 * \<bar>(ms - first) * fst (stream_fps v) - k * (snd (stream_fps v) * 1000)\<bar> < snd (stream_fps v) * 1000"

lemma estimate_on_grid:
  assumes "rate_ok (fst (stream_fps v)) (snd (stream_fps v))" and "on_grid v first k ms"
  shows "compute_frame_idx (wrap_i64 (ms - first)) (fst (stream_fps v)) (snd (stream_fps v)) = Some k"
proof -
  have "in_i64 (ms - first)" using assms(2) by (simp add: on_grid_def pts_small_def i64_bounds)
  then show ?thesis using assms compute_frame_idx_near by (simp add: on_grid_def wrap_i64_id)
qed

definition numbered :: "video_stream \<Rightarrow> int \<Rightarrow> packet list \<Rightarrow> int list \<Rightarrow> bool" where
  "numbered v first ps ks \<longleftrightarrow>
     list_all2 (\<lambda>p k. on_grid v first k (queue_ms v p)) (filter (\<lambda>p. pk_stream p = vs_index v) ps) ks"

lemma numbered_skip: "pk_stream p \<noteq> vs_index v \<Longrightarrow> numbered v first (p # ps) ks = numbered v first ps ks"
  by (simp add: numbered_def)

lemma numbered_Cons:
  "pk_stream p = vs_index v \<Longrightarrow> numbered v first (p # ps) ks \<longleftrightarrow>
     (\<exists>k r. ks = k # r \<and> on_grid v first k (queue_ms v p) \<and> numbered v first ps r)"
  by (auto simp: numbered_def list_all2_Cons1)

text \<open>The frames of the stream with their sequence numbers, and those of a window in stream order.\<close>

definition true_entries :: "video_stream \<Rightarrow> packet list \<Rightarrow> int list \<Rightarrow> (int \<times> int \<times> bool) list" where
  "true_entries v ps ks = zip ks (map (\<lambda>p. (queue_ms v p, pk_key p)) (filter (\<lambda>p. pk_stream p = vs_index v) ps))"

definition spanned :: "int \<Rightarrow> int \<Rightarrow> (int \<times> int \<times> bool) list \<Rightarrow> (int \<times> int \<times> bool) list" where
  "spanned lo hi es = takeWhile (\<lambda>e. fst (snd e) \<le> hi) (filter (\<lambda>e. lo \<le> fst (snd e)) es)"

lemma true_entries_Cons:
  "pk_stream p = vs_index v \<Longrightarrow> true_entries v (p # ps) (k # ks) = (k, queue_ms v p, pk_key p) # true_entries v ps ks"
  "pk_stream p \<noteq> vs_index v \<Longrightarrow> true_entries v (p # ps) ks = true_entries v ps ks"
  by (simp_all add: true_entries_def)

lemma true_entries_Nil [simp]: "true_entries v [] ks = []"
  by (simp add: true_entries_def)

lemma quick_loop_grid:
  assumes rate: "rate_ok (fst (stream_fps v)) (snd (stream_fps v))"
  shows "numbered v first ps ks \<Longrightarrow>
    quick_loop v first lo hi anchor inc ps res =
      Some (res @ map (\<lambda>e. (fst e, fst (snd e)))
        (filter (\<lambda>e. inc \<or> fst (snd e) \<noteq> anchor) (spanned lo hi (true_entries v ps ks))))"
proof (induction ps arbitrary: ks res)
  case Nil
  then show ?case by (simp add: spanned_def)
next
  case (Cons p ps)
  have pos: "0 < fst (stream_fps v) \<and> 0 < snd (stream_fps v)" using rate by (simp add: rate_ok_def)
  show ?case
  proof (cases "pk_stream p = vs_index v")
    case False
    with Cons show ?thesis by (simp add: numbered_skip true_entries_Cons Let_def case_prod_beta)
  next
    case True
    then obtain k r where k: "ks = k # r" "on_grid v first k (queue_ms v p)" "numbered v first ps r"
      using Cons.prems numbered_Cons by blast
    then show ?thesis
      using True pos estimate_on_grid [OF rate k(2)] Cons.IH [OF k(3)]
      by (cases inc) (simp_all add: true_entries_Cons Let_def case_prod_beta spanned_def)
  qed
qed

lemma queue_a_loop_grid:
  assumes rate: "rate_ok (fst (stream_fps v)) (snd (stream_fps v))"
  shows "numbered v first ps ks \<Longrightarrow> length batch < batch_size \<Longrightarrow>
    queue_a_loop v first lo hi ps batch =
      Some (map make_batch (chunks batch_size
        (batch @ map (\<lambda>e. (usize_of (fst e), snd e)) (spanned lo hi (true_entries v ps ks)))))"
proof (induction ps arbitrary: ks batch)
  case Nil
  then show ?case by (simp add: spanned_def chunks_short)
next
  case (Cons p ps)
  show ?case
  proof (cases "pk_stream p = vs_index v")
    case False
    with Cons show ?thesis by (simp add: numbered_skip true_entries_Cons)
  next
    case True
    then obtain k r where k: "ks = k # r" "on_grid v first k (queue_ms v p)" "numbered v first ps r"
      using Cons.prems(1) numbered_Cons by blast
    let ?e = "(usize_of k, queue_ms v p, pk_key p)"
    have b0: "0 < batch_size" by (simp add: batch_size_def)
    show ?thesis
    proof (cases "batch_size \<le> length (batch @ [?e])")
      case full: True
      then have len: "length (batch @ [?e]) = batch_size" using Cons.prems(2) by simp
      have "chunks batch_size (batch @ ?e # x) = (batch @ [?e]) # chunks batch_size x" for x
        using chunks_full [OF len b0, of x] by simp
      then show ?thesis
        using True k full estimate_on_grid [OF rate k(2)] Cons.IH [OF k(3), of "[]"] Cons.IH [OF k(3) Cons.prems(2)] b0 Cons.prems(2)
        by (simp add: true_entries_Cons spanned_def chunks_short)
    next
      case part: False
      then have len: "length (batch @ [?e]) < batch_size" by simp
      show ?thesis
        using True k part estimate_on_grid [OF rate k(2)] Cons.IH [OF k(3) len] Cons.IH [OF k(3) Cons.prems(2)] Cons.prems(2)
        by (simp add: true_entries_Cons spanned_def chunks_short)
    qed
  qed
qed

text \<open>
  Estimated frame numbers are the true ones on a stream of constant rate, wherever it starts. Before the index is
  ready the quick demux of a prefetch and the slow path of queue A number the frames of their window from the frame
  rate and the first packet; when every frame lies within half a frame of its place, these are the sequence numbers
  that the index will have.
\<close>

theorem estimates_agree:
  assumes "rate_ok (fst (stream_fps v)) (snd (stream_fps v))"
    and "quick_demux v pkts cf now before after inc = Some (tp, fps, anchor)"
    and "numbered v (first_video_pkt_ms v (pkts 0)) (pkts (wrap_i64 (sat_sub_i64 anchor before * 1000))) ks"
    and "numbered v first ps js"
  shows "tp = map (\<lambda>e. (fst e, fst (snd e))) (filter (\<lambda>e. inc \<or> fst (snd e) \<noteq> anchor)
       (spanned (sat_sub_i64 anchor before) (sat_add_i64 anchor after)
          (true_entries v (pkts (wrap_i64 (sat_sub_i64 anchor before * 1000))) ks))) \<and>
    queue_a_loop v first lo hi ps [] = Some (map make_batch (chunks batch_size
       (map (\<lambda>e. (usize_of (fst e), snd e)) (spanned lo hi (true_entries v ps js)))))"
proof -
  have "0 < batch_size" by (simp add: batch_size_def)
  with queue_a_loop_grid [OF assms(1,4), of "[]"] show ?thesis
    using assms(2) quick_loop_grid [OF assms(1,3)]
    by (auto simp: quick_demux_def Let_def case_prod_beta)
qed


section \<open>Examples\<close>

definition demo_frames :: "(int \<times> bool) list" where
  "demo_frames = [(0, True), (40, False), (80, False), (120, False)]"

theorem windows_exact_witness:
  "\<exists>fps. build_prefetch_window_from_cache (demo_frames, 25, 1) 1 0 40 40 False = ([(0, 0), (2, 80)], fps, 40)"
proof -
  have srt: "sorted (map fst demo_frames)" by (simp add: demo_frames_def)
  have anchor: "fst (demo_frames ! min (nat 1) (length demo_frames - 1)) = 40" "demo_frames \<noteq> []"
    by (simp_all add: demo_frames_def)
  have span: "sat_sub_i64 40 40 = 0" "sat_add_i64 40 40 = 80"
    by (simp_all add: sat_sub_i64_def sat_add_i64_def clamp_i64_def i64_min_def i64_max_def)
  have es: "index_entries demo_frames = [(0, 0, True), (1, 40, False), (2, 80, False), (3, 120, False)]"
    by (simp add: index_entries_def demo_frames_def)
  have "filter (\<lambda>e. False \<or> fst (snd e) \<noteq> 40) (filter (in_span 0 80) (index_entries demo_frames)) = [(0, 0, True), (2, 80, False)]"
    unfolding es by (simp add: in_span_def)
  with windows_exact [OF srt, of 25 1 0 0 1 0 40 40 False] show ?thesis
    using anchor span by auto
qed

text \<open>Four frames at 25 Hz, the first at 40 ms.\<close>

definition demo_rate_stream :: video_stream where
  "demo_rate_stream = \<lparr>vs_index = 0, vs_tb = (1, 1000), vs_start = 0, vs_rate = (25, 1)\<rparr>"

definition demo_pkts :: "int \<Rightarrow> packet list" where
  "demo_pkts _ = map (\<lambda>t. \<lparr>pk_stream = 0, pk_pts = Some t, pk_dts = None, pk_key = False, pk_data = []\<rparr>) [40, 80, 120, 160]"

lemma demo_rate_ms: "0 \<le> t \<Longrightarrow> t < 1000000 \<Longrightarrow> queue_ms demo_rate_stream \<lparr>pk_stream = i, pk_pts = Some t, pk_dts = d, pk_key = k, pk_data = b\<rparr> = t"
proof -
  assume t: "0 \<le> t" "t < 1000000"
  have "raw_ms (1, 1000) t = t" using raw_ms_between [of "(1, 1000)" t] t by (simp add: tb_ok_def)
  then show ?thesis
    using t by (simp add: queue_ms_def pkt_ts_def rel_ms_def demo_rate_stream_def stream_start_ms_def wrap_i64_id i64_bounds)
qed

lemma demo_numbered: "numbered demo_rate_stream (first_video_pkt_ms demo_rate_stream (demo_pkts 0)) (demo_pkts n) [0, 1, 2, 3]"
proof -
  have f: "first_video_pkt_ms demo_rate_stream (demo_pkts 0) = 40"
    using demo_rate_ms [of 40] by (simp add: first_video_pkt_ms_def demo_pkts_def demo_rate_stream_def)
  have fps: "stream_fps demo_rate_stream = (25, 1)" "vs_index demo_rate_stream = 0"
    by (simp_all add: stream_fps_def demo_rate_stream_def)
  show ?thesis
    unfolding numbered_def f by (simp add: demo_pkts_def fps demo_rate_ms on_grid_def pts_small_def)
qed

theorem estimates_agree_witness:
  "\<exists>tp fps. quick_demux demo_rate_stream demo_pkts 1 0 0 40 True = Some (tp, fps, 80) \<and> tp = [(1, 80), (2, 120)]"
proof -
  have rate: "rate_ok (fst (stream_fps demo_rate_stream)) (snd (stream_fps demo_rate_stream))"
    by (simp add: rate_ok_def stream_fps_def demo_rate_stream_def)
  have f: "first_video_pkt_ms demo_rate_stream (demo_pkts 0) = 40"
    using demo_rate_ms [of 40] by (simp add: first_video_pkt_ms_def demo_pkts_def demo_rate_stream_def)
  have fps: "stream_fps demo_rate_stream = (25, 1)" "vs_index demo_rate_stream = 0"
    by (simp_all add: stream_fps_def demo_rate_stream_def)
  have q: "quot 1000 25 = 40" by (simp add: quot_nonneg)
  obtain tp fp where r: "quick_demux demo_rate_stream demo_pkts 1 0 0 40 True = Some (tp, fp, 80)"
    using quick_loop_grid [OF rate demo_numbered] by (simp add: quick_demux_def fps f q wrap_i64_id i64_bounds Let_def)
  have sp: "sat_sub_i64 80 0 = 80" "sat_add_i64 80 40 = 120"
    by (simp_all add: sat_sub_i64_def sat_add_i64_def clamp_i64_def i64_min_def i64_max_def)
  have "true_entries demo_rate_stream (demo_pkts n) [0, 1, 2, 3] =
      [(0, 40, False), (1, 80, False), (2, 120, False), (3, 160, False)]" for n
    by (simp add: true_entries_def demo_pkts_def fps demo_rate_ms)
  then have "tp = [(1, 80), (2, 120)]"
    using estimates_agree [OF rate r demo_numbered demo_numbered] by (simp add: sp spanned_def)
  with r show ?thesis by blast
qed

end
