(* ===== verification/Forge_Frames.thy ===== *)
theory Forge_Frames
  imports Frame_Windows Disk_Index Frame_Protocol Hw_Decode Decoder
begin

text \<open>
  The state of the frame-forge daemon and the handlers that serve single frames: \<^verbatim>\<open>State\<close>,
  \<^verbatim>\<open>handle_single_frame\<close>, \<^verbatim>\<open>handle_prefetch_frame\<close>, \<^verbatim>\<open>prefetch_worker\<close>, \<^verbatim>\<open>handle_list_cached\<close>,
  \<^verbatim>\<open>handle_index_frames\<close>, \<^verbatim>\<open>handle_prefetch_range\<close>, \<^verbatim>\<open>handle_prefetch_stream\<close>, \<^verbatim>\<open>handle_debug_dump\<close>
  (\<^verbatim>\<open>crates/frame-forge/src/server.rs\<close>).
  A handler is a computation on its connection and the shared state. The \<^verbatim>\<open>lru\<close> crate, FFmpeg on the file of
  a path, the index of a file and the quality flags of an encoded image (\<open>None\<close> when it cannot be decoded)
  are the environment \<open>forge_env\<close>. Semaphores only delay; logging is left out.
\<close>

section \<open>State\<close>

type_synonym ram_key = "string \<times> int \<times> nat"

record ('d, 'c, 'i) forge_env =
  fe_ram :: "(ram_key, byte list, 'c) lru_ops"
  fe_idx :: "'i index_ops"
  fe_ff :: "string \<Rightarrow> 'd ffmpeg"
  fe_demux :: "string \<Rightarrow> index_data option"
  fe_quality :: "byte list \<Rightarrow> nat option"
  fe_gpu :: gpu_sys
  fe_caps :: hw_caps
  fe_ram_len :: "'c \<Rightarrow> nat"
  fe_idx_paths :: "'i \<Rightarrow> string list"

record prefetch_job =
  pj_item_id :: string
  pj_path :: string
  pj_pos_ms :: int
  pj_width :: nat
  pj_hw :: hw_flags

type_synonym progress_key = "string \<times> int \<times> nat"

record ('c, 'i) forge = conn +
  fg_ram :: 'c
  fg_disk :: cache
  fg_index :: "'i index_mgr"
  fg_in_progress :: "progress_key set"
  fg_queue :: "prefetch_job list"

type_synonym ('c, 'i, 'a) forge_io = "(('c, 'i) forge, wire_error, 'a) io"

definition ram_cache_cap :: nat where "ram_cache_cap = 100"
definition frame_index_cap :: nat where "frame_index_cap = 20"
definition prefetch_queue_cap :: nat where "prefetch_queue_cap = 128"

definition job_key :: "prefetch_job \<Rightarrow> progress_key" where
  "job_key j = (pj_item_id j, pj_pos_ms j, pj_width j)"

section \<open>Shared steps\<close>

definition resolve_frame_idx ::
  "('d, 'c, 'i) forge_env \<Rightarrow> string \<Rightarrow> int \<Rightarrow> 'i index_mgr \<Rightarrow> int option \<times> 'i index_mgr" where
  "resolve_frame_idx env path frame_idx m =
     (if frame_idx < 0 then (None, m)
      else
        (case get_or_build (fe_idx env) (fe_demux env) path m of
           (None, m) \<Rightarrow> (None, m)
         | (Some (frames, _, _), m) \<Rightarrow> (map_option fst (slice_get frames (nat frame_idx)), m)))"

definition resolve_io :: "('d, 'c, 'i) forge_env \<Rightarrow> string \<Rightarrow> int \<Rightarrow> ('c, 'i, int option) forge_io" where
  "resolve_io env path frame_idx s =
     (case resolve_frame_idx env path frame_idx (fg_index s) of (r, m) \<Rightarrow> (Inr r, s\<lparr>fg_index := m\<rparr>))"

definition decode_frame ::
  "('d, 'c, 'i) forge_env \<Rightarrow> string \<Rightarrow> int \<Rightarrow> nat \<Rightarrow> hw_request option \<Rightarrow> decode_result option" where
  "decode_frame env path pos_ms width hw =
     (case fst (decode_and_encode_hw (fe_ff env path) pos_ms width hw) of Inl _ \<Rightarrow> None | Inr r \<Rightarrow> Some r)"

definition hw_for :: "('d, 'c, 'i) forge_env \<Rightarrow> hw_flags \<Rightarrow> hw_request option" where
  "hw_for env hw = resolve_hw_decode_request (fe_gpu env) (fe_caps env) hw"

text \<open>Original first when there is one, then the thumbnail.\<close>

definition store_disk ::
  "string \<Rightarrow> string \<Rightarrow> int \<Rightarrow> int \<Rightarrow> nat \<Rightarrow> decode_result \<Rightarrow> cache \<Rightarrow> cache" where
  "store_disk item path frame_idx pos_ms width r d =
     (let d = (if dr_webp_orig r \<noteq> [] then snd (dc_write item path frame_idx pos_ms 0 (dr_webp_orig r) d) else d)
      in snd (dc_write item path frame_idx pos_ms width (dr_webp r) d))"

definition store_ram ::
  "(ram_key, byte list, 'c) lru_ops \<Rightarrow> string \<Rightarrow> int \<Rightarrow> nat \<Rightarrow> decode_result \<Rightarrow> 'c \<Rightarrow> 'c" where
  "store_ram ram path pos_ms width r c =
     lru_put ram (path, pos_ms, width) (dr_webp r)
       (if dr_webp_orig r \<noteq> [] then lru_put ram (path, pos_ms, 0) (dr_webp_orig r) c else c)"

section \<open>Single frames\<close>

definition send_cached_frame :: "('d, 'c, 'i) forge_env \<Rightarrow> nat \<Rightarrow> byte list \<Rightarrow> ('c, 'i, unit) forge_io" where
  "send_cached_frame env rid webp =
     (case fe_quality env webp of
        None \<Rightarrow> io_fail (Failed ''image'')
      | Some flags \<Rightarrow> write_jpeg_response rid webp flags (- 1))"

definition decode_and_answer ::
  "('d, 'c, 'i) forge_env \<Rightarrow> single_frame_req \<Rightarrow> int \<Rightarrow> ('c, 'i, unit) forge_io" where
  "decode_and_answer env req pos_ms s =
     (case decode_frame env (sf_path req) pos_ms (sf_width req) (hw_for env (sf_hw req)) of
        None \<Rightarrow> ff_write_ack (sf_request_id req) s
      | Some r \<Rightarrow>
          (case compute_frame_idx (dr_pts_ms r) (dr_fps_num r) (dr_fps_den r) of
             None \<Rightarrow> (Inl Panicked, s)
           | Some frame_idx \<Rightarrow>
               (let s = s\<lparr>fg_disk := store_disk (sf_item_id req) (sf_path req) frame_idx pos_ms (sf_width req) r (fg_disk s),
                          fg_ram := lru_put (fe_ram env) (sf_path req, pos_ms, sf_width req) (dr_webp r) (fg_ram s)\<rparr>
                in case fe_quality env (dr_webp r) of
                     None \<Rightarrow> ff_write_ack (sf_request_id req) s
                   | Some flags \<Rightarrow> write_jpeg_response (sf_request_id req) (dr_webp r) flags (dr_pts_ms r) s)))"

definition serve_frame :: "('d, 'c, 'i) forge_env \<Rightarrow> single_frame_req \<Rightarrow> int \<Rightarrow> ('c, 'i, unit) forge_io" where
  "serve_frame env req pos_ms s =
     (let key = (sf_path req, pos_ms, sf_width req);
          (cached, c) = lru_get (fe_ram env) key (fg_ram s);
          s = s\<lparr>fg_ram := c\<rparr>
      in case cached of
           Some webp \<Rightarrow> send_cached_frame env (sf_request_id req) webp s
         | None \<Rightarrow>
             (case dc_read (sf_item_id req) (sf_path req) pos_ms (sf_width req) (fg_disk s) of
                (Some webp, d) \<Rightarrow>
                  send_cached_frame env (sf_request_id req) webp
                    (s\<lparr>fg_disk := d, fg_ram := lru_put (fe_ram env) key webp (fg_ram s)\<rparr>)
              | (None, d) \<Rightarrow> decode_and_answer env req pos_ms (s\<lparr>fg_disk := d\<rparr>)))"

text \<open>\<^verbatim>\<open>resolve_frame_idx(..).unwrap_or(req.frame_idx.max(0))\<close>.\<close>

definition position_of :: "int \<Rightarrow> int option \<Rightarrow> int" where
  "position_of frame_idx r = (case r of Some pos \<Rightarrow> pos | None \<Rightarrow> max frame_idx 0)"

definition handle_single_frame :: "('d, 'c, 'i) forge_env \<Rightarrow> ('c, 'i, unit) forge_io" where
  "handle_single_frame env =
     io_bind read_single_frame_req (\<lambda>req.
     io_bind (resolve_io env (sf_path req) (sf_frame_idx req)) (\<lambda>r.
       serve_frame env req (position_of (sf_frame_idx req) r)))"

section \<open>The prefetch queue\<close>

text \<open>\<^verbatim>\<open>try_send\<close> on the bounded channel.\<close>

definition try_send :: "prefetch_job \<Rightarrow> ('c, 'i) forge \<Rightarrow> bool \<times> ('c, 'i) forge" where
  "try_send j s =
     (if length (fg_queue s) < prefetch_queue_cap then (True, s\<lparr>fg_queue := fg_queue s @ [j]\<rparr>) else (False, s))"

definition single_job :: "single_frame_req \<Rightarrow> int \<Rightarrow> prefetch_job" where
  "single_job req pos_ms =
     \<lparr>pj_item_id = sf_item_id req, pj_path = sf_path req, pj_pos_ms = pos_ms, pj_width = sf_width req,
      pj_hw = sf_hw req\<rparr>"

text \<open>After the acknowledgement. The result of \<^verbatim>\<open>try_send\<close> is ignored.\<close>

definition enqueue_frame :: "single_frame_req \<Rightarrow> int \<Rightarrow> ('c, 'i) forge \<Rightarrow> ('c, 'i) forge" where
  "enqueue_frame req pos_ms s =
     (let key = (sf_item_id req, pos_ms, sf_width req)
      in if dc_exists (sf_item_id req) (sf_path req) pos_ms (sf_width req) (fg_disk s) then s
         else if key \<in> fg_in_progress s then s
         else snd (try_send (single_job req pos_ms) (s\<lparr>fg_in_progress := insert key (fg_in_progress s)\<rparr>)))"

definition handle_prefetch_frame :: "('d, 'c, 'i) forge_env \<Rightarrow> ('c, 'i, unit) forge_io" where
  "handle_prefetch_frame env =
     io_bind read_single_frame_req (\<lambda>req.
     io_then (ff_write_ack (sf_request_id req))
    (io_bind (resolve_io env (sf_path req) (sf_frame_idx req)) (\<lambda>r.
       io_mod (enqueue_frame req (position_of (sf_frame_idx req) r)))))"

text \<open>
  \<^verbatim>\<open>prefetch_worker\<close>, one job. The flag says whether the worker lives on: a panic of
  \<^verbatim>\<open>compute_frame_idx\<close> ends its task.
\<close>

definition release :: "prefetch_job \<Rightarrow> ('c, 'i) forge \<Rightarrow> ('c, 'i) forge" where
  "release j s = s\<lparr>fg_in_progress := fg_in_progress s - {job_key j}\<rparr>"

definition run_job :: "('d, 'c, 'i) forge_env \<Rightarrow> prefetch_job \<Rightarrow> ('c, 'i) forge \<Rightarrow> bool \<times> ('c, 'i) forge" where
  "run_job env j s =
     (if lru_peek (fe_ram env) (pj_path j, pj_pos_ms j, pj_width j) (fg_ram s) \<noteq> None then (True, release j s)
      else if dc_exists (pj_item_id j) (pj_path j) (pj_pos_ms j) (pj_width j) (fg_disk s) then (True, release j s)
      else
        (case decode_frame env (pj_path j) (pj_pos_ms j) (pj_width j) (hw_for env (pj_hw j)) of
           None \<Rightarrow> (True, release j s)
         | Some r \<Rightarrow>
             (case compute_frame_idx (dr_pts_ms r) (dr_fps_num r) (dr_fps_den r) of
                None \<Rightarrow> (False, s)
              | Some frame_idx \<Rightarrow>
                  (True, release j
                     (s\<lparr>fg_disk := store_disk (pj_item_id j) (pj_path j) frame_idx (pj_pos_ms j) (pj_width j) r (fg_disk s),
                        fg_ram := store_ram (fe_ram env) (pj_path j) (pj_pos_ms j) (pj_width j) r (fg_ram s)\<rparr>)))))"

section \<open>Lists and indexes\<close>

definition forge_list_reply :: "nat \<Rightarrow> (int \<times> int) list \<Rightarrow> byte list" where
  "forge_list_reply rid es =
     le_bytes 4 rid @ le_bytes 4 (length es)
       @ concat (map (\<lambda>(pos_ms, frame_idx). i64_bytes frame_idx @ i64_bytes pos_ms) es)"

definition ff_list_cached :: "('c, 'i, unit) forge_io" where
  "ff_list_cached =
     io_bind read_u32_le (\<lambda>rid.
     io_bind read_item_id (\<lambda>item.
     io_bind read_u32_le (\<lambda>w.
     io_bind (io_get (\<lambda>s. dc_list_cached item w (fg_disk s))) (\<lambda>es.
       write_all (forge_list_reply rid es)))))"

definition get_or_build_io :: "('d, 'c, 'i) forge_env \<Rightarrow> string \<Rightarrow> ('c, 'i, index_data) forge_io" where
  "get_or_build_io env path s =
     (case get_or_build (fe_idx env) (fe_demux env) path (fg_index s) of
        (None, m) \<Rightarrow> (Inl (Failed ''index''), s\<lparr>fg_index := m\<rparr>)
      | (Some idx, m) \<Rightarrow> (Inr idx, s\<lparr>fg_index := m\<rparr>))"

text \<open>\<^verbatim>\<open>path_len\<close> is not capped here.\<close>

definition handle_index_frames :: "('d, 'c, 'i) forge_env \<Rightarrow> ('c, 'i, unit) forge_io" where
  "handle_index_frames env =
     io_bind read_u32_le (\<lambda>n.
     io_bind (read_text n) (\<lambda>path.
     io_bind (get_or_build_io env path) (\<lambda>(frames, num, den).
       write_frame_index frames num den)))"

section \<open>What a single-frame request is answered\<close>

text \<open>The bytes at hand: from memory, else from disk.\<close>

definition bytes_at_hand :: "('d, 'c, 'i) forge_env \<Rightarrow> single_frame_req \<Rightarrow> int \<Rightarrow> ('c, 'i) forge \<Rightarrow> byte list option" where
  "bytes_at_hand env req pos s =
     (case lru_peek (fe_ram env) (sf_path req, pos, sf_width req) (fg_ram s) of
        Some b \<Rightarrow> Some b
      | None \<Rightarrow> fst (dc_read (sf_item_id req) (sf_path req) pos (sf_width req) (fg_disk s)))"

definition decoded_at :: "('d, 'c, 'i) forge_env \<Rightarrow> single_frame_req \<Rightarrow> int \<Rightarrow> decode_result option" where
  "decoded_at env req pos = decode_frame env (sf_path req) pos (sf_width req) (hw_for env (sf_hw req))"

definition ack_bytes :: "nat \<Rightarrow> byte list" where
  "ack_bytes rid = le_bytes 4 rid @ le_bytes 4 0"

definition single_reply :: "('d, 'c, 'i) forge_env \<Rightarrow> single_frame_req \<Rightarrow> int \<Rightarrow> ('c, 'i) forge \<Rightarrow> byte list" where
  "single_reply env req pos s =
     (case bytes_at_hand env req pos s of
        Some b \<Rightarrow> (case fe_quality env b of None \<Rightarrow> [] | Some fl \<Rightarrow> jpeg_response (sf_request_id req) b fl (- 1))
      | None \<Rightarrow>
          (case decoded_at env req pos of
             None \<Rightarrow> ack_bytes (sf_request_id req)
           | Some r \<Rightarrow>
               if compute_frame_idx (dr_pts_ms r) (dr_fps_num r) (dr_fps_den r) = None then []
               else (case fe_quality env (dr_webp r) of
                       None \<Rightarrow> ack_bytes (sf_request_id req)
                     | Some fl \<Rightarrow> jpeg_response (sf_request_id req) (dr_webp r) fl (dr_pts_ms r))))"

lemma reply_nonempty [simp]: "jpeg_response rid b fl pts \<noteq> []" "ack_bytes rid \<noteq> []"
proof -
  have "le_bytes 4 rid \<noteq> []" by (metis length_le_bytes length_0_conv zero_neq_numeral)
  then show "jpeg_response rid b fl pts \<noteq> []" "ack_bytes rid \<noteq> []"
    by (simp_all add: jpeg_response_def ack_bytes_def)
qed

lemma write_ack_bytes: "ff_write_ack rid = write_all (ack_bytes rid)"
  by (simp add: ff_write_ack_def ack_bytes_def)

lemma send_cached_reply:
  "length (case fe_quality env b of None \<Rightarrow> [] | Some fl \<Rightarrow> jpeg_response rid b fl (- 1)) \<le> c_room s \<Longrightarrow>
   send_cached_frame env rid b s = (res, t) \<Longrightarrow>
     c_out t = c_out s @ (case fe_quality env b of None \<Rightarrow> [] | Some fl \<Rightarrow> jpeg_response rid b fl (- 1)) \<and>
     c_in t = c_in s \<and> fg_ram t = fg_ram s \<and> (isl res \<longleftrightarrow> fe_quality env b = None)"
  by (auto simp: send_cached_frame_def write_jpeg_response_def write_all_def io_run split: option.splits)

text \<open>What is in memory under the key afterwards.\<close>

definition kept_bytes :: "('d, 'c, 'i) forge_env \<Rightarrow> single_frame_req \<Rightarrow> int \<Rightarrow> ('c, 'i) forge \<Rightarrow> byte list option" where
  "kept_bytes env req pos s =
     (case bytes_at_hand env req pos s of
        Some b \<Rightarrow> Some b
      | None \<Rightarrow>
          (case decoded_at env req pos of
             None \<Rightarrow> None
           | Some r \<Rightarrow>
               if compute_frame_idx (dr_pts_ms r) (dr_fps_num r) (dr_fps_den r) = None then None else Some (dr_webp r)))"

lemma decode_and_answer_reply:
  assumes "lru_laws (fe_ram env)" and "length (single_reply env req pos s) \<le> c_room u"
    and "bytes_at_hand env req pos s = None" and "lru_peek (fe_ram env) (sf_path req, pos, sf_width req) (fg_ram u) = None"
    and "decode_and_answer env req pos u = (res, t)"
  shows "c_out t = c_out u @ single_reply env req pos s \<and> c_in t = c_in u \<and>
    (isl res \<longleftrightarrow> single_reply env req pos s = []) \<and>
    lru_peek (fe_ram env) (sf_path req, pos, sf_width req) (fg_ram t) = kept_bytes env req pos s"
proof (cases "decoded_at env req pos")
  case None
  then show ?thesis using assms
    by (auto simp: decode_and_answer_def decoded_at_def single_reply_def kept_bytes_def write_ack_bytes write_all_def)
next
  case (Some r)
  show ?thesis
  proof (cases "compute_frame_idx (dr_pts_ms r) (dr_fps_num r) (dr_fps_den r)")
    case None
    then show ?thesis using assms Some
      by (auto simp: decode_and_answer_def decoded_at_def single_reply_def kept_bytes_def)
  next
    case (Some fi)
    then show ?thesis using assms \<open>decoded_at env req pos = Some r\<close>
      by (auto simp: decode_and_answer_def decoded_at_def single_reply_def kept_bytes_def write_ack_bytes
          write_jpeg_response_def write_all_def Let_def lru_put_same split: option.splits)
  qed
qed

lemma serve_frame_reply:
  assumes "lru_laws (fe_ram env)" and "length (single_reply env req pos s) \<le> c_room s"
    and "serve_frame env req pos s = (res, t)"
  shows "c_out t = c_out s @ single_reply env req pos s \<and> c_in t = c_in s \<and>
    (isl res \<longleftrightarrow> single_reply env req pos s = []) \<and>
    lru_peek (fe_ram env) (sf_path req, pos, sf_width req) (fg_ram t) = kept_bytes env req pos s"
proof -
  let ?k = "(sf_path req, pos, sf_width req)"
  obtain x c where g: "lru_get (fe_ram env) ?k (fg_ram s) = (x, c)" by (cases "lru_get (fe_ram env) ?k (fg_ram s)")
  have x: "x = lru_peek (fe_ram env) ?k (fg_ram s)" and c: "lru_peek (fe_ram env) ?k c = lru_peek (fe_ram env) ?k (fg_ram s)"
    using lru_get_fst [OF assms(1), of ?k "fg_ram s"] lru_get_peek [OF assms(1) g] g by simp_all
  show ?thesis
  proof (cases x)
    case (Some b)
    then have hand: "bytes_at_hand env req pos s = Some b" using x by (simp add: bytes_at_hand_def)
    have peek: "lru_peek (fe_ram env) ?k c = Some b" using x c Some by simp
    have rep: "single_reply env req pos s =
        (case fe_quality env b of None \<Rightarrow> [] | Some fl \<Rightarrow> jpeg_response (sf_request_id req) b fl (- 1))"
      "kept_bytes env req pos s = Some b"
      using hand by (simp_all add: single_reply_def kept_bytes_def)
    have "send_cached_frame env (sf_request_id req) b (s\<lparr>fg_ram := c\<rparr>) = (res, t)"
      using assms(3) g Some by (simp add: serve_frame_def)
    from send_cached_reply [OF _ this] assms(2) show ?thesis
      unfolding rep by (auto simp: peek split: option.splits)
  next
    case None
    obtain y d where r: "dc_read (sf_item_id req) (sf_path req) pos (sf_width req) (fg_disk s) = (y, d)"
      by (cases "dc_read (sf_item_id req) (sf_path req) pos (sf_width req) (fg_disk s)")
    have hand: "bytes_at_hand env req pos s = y" using x None r by (simp add: bytes_at_hand_def)
    show ?thesis
    proof (cases y)
      case (Some b)
      have rep: "single_reply env req pos s =
          (case fe_quality env b of None \<Rightarrow> [] | Some fl \<Rightarrow> jpeg_response (sf_request_id req) b fl (- 1))"
        "kept_bytes env req pos s = Some b"
        using hand Some by (simp_all add: single_reply_def kept_bytes_def)
      have "send_cached_frame env (sf_request_id req) b
          (s\<lparr>fg_disk := d, fg_ram := lru_put (fe_ram env) ?k b c\<rparr>) = (res, t)"
        using assms(3) g None r Some by (simp add: serve_frame_def)
      from send_cached_reply [OF _ this] assms(2) show ?thesis
        unfolding rep by (auto simp: lru_put_same [OF assms(1)] split: option.splits)
    next
      case miss: None
      have "decode_and_answer env req pos (s\<lparr>fg_ram := c, fg_disk := d\<rparr>) = (res, t)"
        using assms(3) g None r miss by (simp add: serve_frame_def)
      from decode_and_answer_reply [OF assms(1) _ _ _ this, of s] show ?thesis
        using assms(2) hand miss x c None by simp
    qed
  qed
qed

text \<open>
  What a single-frame request is answered. A well-formed request gets one message: the bytes at hand (memory,
  then disk) or freshly decoded, with their quality flags, or an acknowledgement when decoding fails; exactly its bytes
  are consumed and the bytes sent are in memory afterwards. It gets no answer at all exactly when the cached bytes are
  not an image (or the frame number cannot be computed); they stay in memory, so the same request stays unanswered.
\<close>

theorem single_frame_reply:
  assumes "lru_laws (fe_ram env)" and "single_frame_ok req"
    and "resolve_frame_idx env (sf_path req) (sf_frame_idx req) (fg_index s) = (r, m)"
    and "pos = position_of (sf_frame_idx req) r"
    and "length (single_reply env req pos s) \<le> c_room s"
    and "handle_single_frame env (s\<lparr>c_in := enc_single_frame req @ rest\<rparr>) = (res, t)"
  shows "c_out t = c_out s @ single_reply env req pos s \<and> c_in t = rest \<and>
    (isl res \<longleftrightarrow> single_reply env req pos s = []) \<and>
    lru_peek (fe_ram env) (sf_path req, pos, sf_width req) (fg_ram t) = kept_bytes env req pos s"
proof -
  let ?s = "s\<lparr>c_in := rest, fg_index := m\<rparr>"
  have "serve_frame env req pos ?s = (res, t)"
    using assms(3,4,6) read_single_frame_run [OF assms(2), where s = s and r = rest]
    by (simp add: handle_single_frame_def io_bind_run resolve_io_def)
  moreover have "single_reply env req pos ?s = single_reply env req pos s" "kept_bytes env req pos ?s = kept_bytes env req pos s"
    by (simp_all add: single_reply_def kept_bytes_def bytes_at_hand_def split: option.split)
  ultimately show ?thesis using serve_frame_reply [OF assms(1), of req pos ?s] assms(5) by simp
qed

section \<open>An example\<close>

definition demo_env :: "(video_frame list, (ram_key \<times> byte list) list, (string \<times> index_data) list) forge_env" where
  "demo_env = \<lparr>fe_ram = list_lru ram_cache_cap, fe_idx = list_lru frame_index_cap, fe_ff = (\<lambda>_. demo_ff),
     fe_demux = (\<lambda>_. Some ([(0, True), (40, False)], 25, 1)), fe_quality = (\<lambda>b. if b = [9] then None else Some 0),
     fe_gpu = demo_gpu, fe_caps = demo_caps, fe_ram_len = length, fe_idx_paths = map fst\<rparr>"

definition demo_forge :: "((ram_key \<times> byte list) list, (string \<times> index_data) list) forge" where
  "demo_forge = \<lparr>c_in = [], c_out = [], c_room = 1000, fg_ram = [], fg_disk = demo 4, fg_index = demo_mgr,
     fg_in_progress = {}, fg_queue = []\<rparr>"

definition demo_single :: single_frame_req where
  "demo_single = \<lparr>sf_request_id = 7, sf_frame_idx = 1, sf_width = 0, sf_path = ''m.mkv'',
     sf_item_id = replicate 32 (CHR ''a''), sf_hw = \<lparr>hw_decode_enabled = False, device_strategy = Performance\<rparr>\<rparr>"

lemma demo_single_ok: "single_frame_ok demo_single"
  by (auto simp: single_frame_ok_def demo_single_def in_i64_def i64_min_def i64_max_def text_ok_def item_ok_def
      max_str_field_len_def intro!: valid_text_ascii)

lemma demo_env_laws: "lru_laws (fe_ram demo_env)"
  by (simp add: demo_env_def list_lru_laws ram_cache_cap_def)

text \<open>A cached frame that is not an image: the request is never answered.\<close>

theorem single_frame_reply_witness:
  "let s = demo_forge\<lparr>fg_ram := [((''m.mkv'', 40, 0), [9])]\<rparr>;
       (res, t) = handle_single_frame demo_env (s\<lparr>c_in := enc_single_frame demo_single @ [1]\<rparr>)
   in c_out t = [] \<and> c_in t = [1] \<and> isl res \<and> lru_peek (fe_ram demo_env) (''m.mkv'', 40, 0) (fg_ram t) = Some [9]"
proof -
  let ?s = "demo_forge\<lparr>fg_ram := [((''m.mkv'', 40, 0), [9])]\<rparr>"
  obtain res t where h: "handle_single_frame demo_env (?s\<lparr>c_in := enc_single_frame demo_single @ [1]\<rparr>) = (res, t)"
    by force
  obtain m where r: "resolve_frame_idx demo_env (sf_path demo_single) (sf_frame_idx demo_single) (fg_index ?s) = (Some 40, m)"
    by (simp add: resolve_frame_idx_def get_or_build_def fi_get_def demo_single_def demo_env_def demo_forge_def demo_mgr_def
        list_lru_def put_if_absent_def frame_index_cap_def Let_def slice_get_def)
  have hand: "bytes_at_hand demo_env demo_single 40 ?s = Some [9]"
    by (simp add: bytes_at_hand_def demo_env_def demo_single_def list_lru_def)
  have rep: "single_reply demo_env demo_single 40 ?s = []" "kept_bytes demo_env demo_single 40 ?s = Some [9]"
    by (simp_all add: single_reply_def kept_bytes_def hand) (simp add: demo_env_def)
  have "c_out t = c_out ?s @ single_reply demo_env demo_single 40 ?s \<and> c_in t = [1] \<and>
      (isl res \<longleftrightarrow> single_reply demo_env demo_single 40 ?s = []) \<and>
      lru_peek (fe_ram demo_env) (sf_path demo_single, 40, sf_width demo_single) (fg_ram t) = kept_bytes demo_env demo_single 40 ?s"
    by (rule single_frame_reply [OF demo_env_laws demo_single_ok r _ _ h])
      (simp_all add: position_of_def rep)
  then show ?thesis using h rep by (simp add: demo_single_def demo_forge_def)
qed

end
