(* ===== verification/Forge_Prefetch.thy ===== *)
theory Forge_Prefetch
  imports Forge_Frames Float_Model
begin

text \<open>
  Prefetching in the frame-forge daemon: the ranges of \<^verbatim>\<open>handle_prefetch_range\<close>, the direct
  \<^verbatim>\<open>handle_prefetch_stream\<close>, and the prefetch queue with its workers as concurrent tasks
  (\<^verbatim>\<open>crates/frame-forge/src/server.rs\<close>). At the end \<^verbatim>\<open>handle_debug_dump\<close>, which shows the state.
\<close>

section \<open>A range of an index\<close>

text \<open>
  The two loops of \<^verbatim>\<open>handle_prefetch_range\<close> over the times of the index: backward from the start frame and
  forward from it. The start frame is only skipped, it does not end a loop.
\<close>

fun backward :: "int list \<Rightarrow> bool \<Rightarrow> nat \<Rightarrow> int \<Rightarrow> nat \<Rightarrow> int list" where
  "backward ts incl si lower 0 =
     (if \<not> incl \<and> 0 = si then [] else if ts ! 0 < lower then [] else [ts ! 0])"
| "backward ts incl si lower (Suc i) =
     (if \<not> incl \<and> Suc i = si then backward ts incl si lower i
      else if ts ! Suc i < lower then [] else ts ! Suc i # backward ts incl si lower i)"

function forward :: "int list \<Rightarrow> bool \<Rightarrow> nat \<Rightarrow> int \<Rightarrow> nat \<Rightarrow> int list" where
  "forward ts incl si upper i =
     (if \<not> incl \<and> i = si then (if length ts \<le> Suc i then [] else forward ts incl si upper (Suc i))
      else if upper < ts ! i then []
      else ts ! i # (if length ts \<le> Suc i then [] else forward ts incl si upper (Suc i)))"
  by pat_completeness auto
termination by (relation "measure (\<lambda>(ts, _, _, _, i). length ts - i)") auto

declare forward.simps [simp del]

text \<open>Seconds arrive as the bits of an \<^verbatim>\<open>f64\<close>.\<close>

definition seconds_ms :: "nat \<Rightarrow> int" where
  "seconds_ms bits = f_to_i64 (f_round (f_mul (f64_of_bits bits) (Fin 1000)))"

definition range_positions :: "prefetch_range_req \<Rightarrow> int list \<Rightarrow> nat \<Rightarrow> int list" where
  "range_positions req ts si =
     (let center = ts ! si; before = seconds_ms (pr_before_seconds req); after = seconds_ms (pr_after_seconds req)
      in (if 0 < before then backward ts (pr_include_start req) si (wrap_i64 (center - before)) si else [])
       @ (if 0 < after then forward ts (pr_include_start req) si (wrap_i64 (center + after)) si else [])
       @ (if pr_include_start req \<and> before = 0 \<and> after = 0 then [center] else []))"

definition range_job :: "prefetch_range_req \<Rightarrow> int \<Rightarrow> prefetch_job" where
  "range_job req pos_ms =
     \<lparr>pj_item_id = pr_item_id req, pj_path = pr_path req, pj_pos_ms = pos_ms, pj_width = pr_width req,
      pj_hw = pr_hw req\<rparr>"

definition enqueue_job :: "prefetch_job \<Rightarrow> ('c, 'i) forge \<Rightarrow> ('c, 'i) forge" where
  "enqueue_job j s =
     (let (ok, s) = try_send j (s\<lparr>fg_in_progress := insert (job_key j) (fg_in_progress s)\<rparr>)
      in if ok then s else release j s)"

definition handle_prefetch_range :: "('d, 'c, 'i) forge_env \<Rightarrow> ('c, 'i, unit) forge_io" where
  "handle_prefetch_range env =
     io_bind read_prefetch_range_req (\<lambda>req.
     io_bind (get_or_build_io env (pr_path req)) (\<lambda>(frames, _, _).
       (let si = nat (max (pr_start_idx req) 0)
        in if length frames \<le> si then ff_write_ack 0
           else io_then
                  (io_mod (fold (\<lambda>pos. enqueue_job (range_job req pos)) (range_positions req (map fst frames) si)))
                  (ff_write_ack 0))))"

section \<open>Frames by number\<close>

definition ready_line :: "int \<Rightarrow> byte list" where
  "ready_line fi = sse (''{\"frameReady\":'' @ show_int fi @ ''}'')"

text \<open>One frame of \<^verbatim>\<open>handle_prefetch_stream\<close>; a number without a frame stands for position 0.\<close>

definition stream_frame ::
  "('d, 'c, 'i) forge_env \<Rightarrow> string \<Rightarrow> string \<Rightarrow> nat \<Rightarrow> hw_flags \<Rightarrow> int \<Rightarrow> ('c, 'i, unit) forge_io" where
  "stream_frame env path item width hw fi =
     (if fi < 0 then io_ret ()
      else
        io_bind (resolve_io env path fi) (\<lambda>r s.
          (let pos = (case r of Some p \<Rightarrow> p | None \<Rightarrow> 0)
           in if lru_peek (fe_ram env) (path, pos, width) (fg_ram s) \<noteq> None then write_all (ready_line fi) s
              else if dc_exists item path pos width (fg_disk s) then write_all (ready_line fi) s
              else
                (case decode_frame env path pos width (hw_for env hw) of
                   None \<Rightarrow> (Inr (), s)
                 | Some d \<Rightarrow>
                     write_all (ready_line fi)
                       (s\<lparr>fg_disk := store_disk item path fi pos width d (fg_disk s),
                          fg_ram := store_ram (fe_ram env) path pos width d (fg_ram s)\<rparr>)))))"

definition handle_prefetch_stream :: "('d, 'c, 'i) forge_env \<Rightarrow> ('c, 'i, unit) forge_io" where
  "handle_prefetch_stream env =
     io_bind read_u32_le (\<lambda>n.
     io_bind (read_text n) (\<lambda>path.
     io_bind read_item_id (\<lambda>item.
     io_bind read_u32_le (\<lambda>width.
     io_bind read_hw_decode_flags (\<lambda>hw.
     io_bind read_u32_le (\<lambda>count.
     io_bind (read_list count read_i64_le) (\<lambda>fis.
       io_for fis (stream_frame env path item width hw))))))))"

section \<open>The state as JSON\<close>

text \<open>\<^verbatim>\<open>serde_json\<close> writes the two-character escapes it knows and four hexadecimal digits for other control codes.\<close>

definition hex_digit :: "nat \<Rightarrow> char" where
  "hex_digit n = char_of (if n < 10 then 48 + n else 87 + n)"

definition json_char :: "char \<Rightarrow> string" where
  "json_char c =
     (let n = (of_char c :: nat); bs = CHR 0x5C
      in if n = 0x22 then [bs, CHR 0x22] else if n = 0x5C then [bs, bs]
         else if n = 8 then [bs, CHR ''b''] else if n = 12 then [bs, CHR ''f'']
         else if n = 10 then [bs, CHR ''n''] else if n = 13 then [bs, CHR ''r''] else if n = 9 then [bs, CHR ''t'']
         else if n < 32 then [bs, CHR ''u'', CHR ''0'', CHR ''0'', hex_digit (n div 16), hex_digit (n mod 16)]
         else [c])"

definition json_string :: "string \<Rightarrow> string" where
  "json_string s = [CHR 0x22] @ concat (map json_char s) @ [CHR 0x22]"

definition json_strings :: "string list \<Rightarrow> string" where
  "json_strings ss = ''['' @ comma_join (map json_string ss) @ '']''"

definition dump_json :: "('d, 'c, 'i) forge_env \<Rightarrow> ('c, 'i) forge \<Rightarrow> string" where
  "dump_json env s =
     ''{\"fiCached\":'' @ json_strings (fe_idx_paths env (im_index (fg_index s)))
       @ '',\"fiCap\":'' @ show_nat frame_index_cap
       @ '',\"fiInProgress\":'' @ json_strings (map fst (im_progress (fg_index s)))
       @ '',\"prefetchQueued\":'' @ show_nat (card (fg_in_progress s))
       @ '',\"ramCap\":'' @ show_nat ram_cache_cap
       @ '',\"ramEntries\":'' @ show_nat (fe_ram_len env (fg_ram s)) @ ''}''"

definition handle_debug_dump :: "('d, 'c, 'i) forge_env \<Rightarrow> ('c, 'i, unit) forge_io" where
  "handle_debug_dump env =
     io_bind (io_get (\<lambda>s. bytes_of (dump_json env s))) (\<lambda>b.
       io_then (write_all (le_bytes 4 (length b))) (write_all b))"

end
