(* ===== verification/Prefetch_Queue.thy ===== *)
theory Prefetch_Queue
  imports Forge_Prefetch "HOL-Library.Multiset"
begin

text \<open>
  What a range request queues, and the prefetch queue shared by the connections and the workers: a step
  relation in which any request handler may add jobs and any worker may take or finish one, in any order.
\<close>

section \<open>The window of a range request\<close>

lemma backward_sorted:
  assumes "sorted ts" and "i < length ts"
  shows "backward ts incl si lower i =
    map ((!) ts) (rev (filter (\<lambda>k. lower \<le> ts ! k \<and> (incl \<or> k \<noteq> si)) [0..<Suc i]))"
  using assms(2)
proof (induction i)
  case 0
  then show ?case by auto
next
  case (Suc i)
  have below: "ts ! k \<le> ts ! Suc i" if "k \<le> Suc i" for k
    using sorted_nth_mono [OF assms(1) that] Suc.prems by simp
  have none: "filter (\<lambda>k. lower \<le> ts ! k \<and> (incl \<or> k \<noteq> si)) [0..<Suc (Suc i)] = []" if "ts ! Suc i < lower"
    using order.strict_trans1 [OF below that] by (intro filter_False) (simp add: less_Suc_eq_le not_le)
  have up: "[0..<Suc (Suc i)] = [0..<Suc i] @ [Suc i]" by simp
  have IH: "backward ts incl si lower i =
      map ((!) ts) (rev (filter (\<lambda>k. lower \<le> ts ! k \<and> (incl \<or> k \<noteq> si)) [0..<Suc i]))"
    using Suc by simp
  show ?case
  proof (cases "ts ! Suc i < lower \<and> (incl \<or> Suc i \<noteq> si)")
    case True
    with none show ?thesis by (simp only: backward.simps) auto
  next
    case False
    then show ?thesis unfolding up by (simp only: backward.simps IH filter_append) auto
  qed
qed

lemma forward_sorted:
  assumes "sorted ts"
  shows "i < length ts \<Longrightarrow> forward ts incl si upper i =
    map ((!) ts) (filter (\<lambda>k. ts ! k \<le> upper \<and> (incl \<or> k \<noteq> si)) [i..<length ts])"
proof (induction "length ts - i" arbitrary: i)
  case 0
  then show ?case by simp
next
  case (Suc n)
  have up: "[i..<length ts] = i # [Suc i..<length ts]" using Suc.prems by (simp add: upt_conv_Cons)
  have rest: "\<not> length ts \<le> Suc i \<Longrightarrow> forward ts incl si upper (Suc i) =
      map ((!) ts) (filter (\<lambda>k. ts ! k \<le> upper \<and> (incl \<or> k \<noteq> si)) [Suc i..<length ts])"
    using Suc by simp
  have above: "filter (\<lambda>k. ts ! k \<le> upper \<and> (incl \<or> k \<noteq> si)) [i..<length ts] = []" if "upper < ts ! i"
    using order.strict_trans2 [OF that sorted_nth_mono [OF assms]] by (intro filter_False) (simp add: not_le)
  show ?case
  proof (cases "upper < ts ! i \<and> (incl \<or> i \<noteq> si)")
    case True
    with above show ?thesis by (subst forward.simps) auto
  next
    case False
    then show ?thesis using rest unfolding up by (subst forward.simps) auto
  qed
qed

text \<open>
  A range request queues its window. On an index in time order the two loops queue exactly the frames
  from the start frame back to \<open>before\<close> milliseconds earlier, and on to \<open>after\<close> milliseconds later, nearest first;
  the start frame is in neither part unless it is asked for, and then it is in both.
\<close>

theorem prefetch_range_window:
  fixes req :: prefetch_range_req
  assumes "sorted ts" and "si < length ts"
    and "0 < seconds_ms (pr_before_seconds req)" and "0 < seconds_ms (pr_after_seconds req)"
    and "in_i64 (ts ! si - seconds_ms (pr_before_seconds req))" and "in_i64 (ts ! si + seconds_ms (pr_after_seconds req))"
  shows "range_positions req ts si =
    map ((!) ts)
      (rev (filter (\<lambda>k. ts ! si - seconds_ms (pr_before_seconds req) \<le> ts ! k \<and> (pr_include_start req \<or> k \<noteq> si)) [0..<Suc si])
       @ filter (\<lambda>k. ts ! k \<le> ts ! si + seconds_ms (pr_after_seconds req) \<and> (pr_include_start req \<or> k \<noteq> si)) [si..<length ts])"
  using assms by (simp add: range_positions_def Let_def backward_sorted forward_sorted wrap_i64_id)

section \<open>The queue and its workers\<close>

text \<open>
  A worker is idle or has taken a job; a worker that panicked is gone. \<open>K\<close> are the keys that range requests
  may ask for.
\<close>

record ('c, 'i) prefetch_sys =
  ps_state :: "('c, 'i) forge"
  ps_workers :: "prefetch_job option list"

definition taken :: "prefetch_job option list \<Rightarrow> prefetch_job list" where
  "taken ws = List.map_filter id ws"

definition all_jobs :: "('c, 'i) prefetch_sys \<Rightarrow> prefetch_job list" where
  "all_jobs s = fg_queue (ps_state s) @ taken (ps_workers s)"

definition remove_worker :: "nat \<Rightarrow> 'a list \<Rightarrow> 'a list" where
  "remove_worker i ws = take i ws @ drop (Suc i) ws"

inductive prefetch_step ::
  "('d, 'c, 'i) forge_env \<Rightarrow> progress_key set \<Rightarrow> ('c, 'i) prefetch_sys \<Rightarrow> ('c, 'i) prefetch_sys \<Rightarrow> bool"
  for env and K where
  ps_frame: "prefetch_step env K s (s\<lparr>ps_state := enqueue_frame req pos (ps_state s)\<rparr>)"
| ps_range: "(pr_item_id req, pos, pr_width req) \<in> K \<Longrightarrow>
     prefetch_step env K s (s\<lparr>ps_state := enqueue_job (range_job req pos) (ps_state s)\<rparr>)"
| ps_take: "i < length (ps_workers s) \<Longrightarrow> ps_workers s ! i = None \<Longrightarrow> fg_queue (ps_state s) = j # q \<Longrightarrow>
     prefetch_step env K s (s\<lparr>ps_state := (ps_state s)\<lparr>fg_queue := q\<rparr>, ps_workers := (ps_workers s)[i := Some j]\<rparr>)"
| ps_run: "i < length (ps_workers s) \<Longrightarrow> ps_workers s ! i = Some j \<Longrightarrow> run_job env j (ps_state s) = (True, t) \<Longrightarrow>
     prefetch_step env K s (s\<lparr>ps_state := t, ps_workers := (ps_workers s)[i := None]\<rparr>)"
| ps_panic: "i < length (ps_workers s) \<Longrightarrow> ps_workers s ! i = Some j \<Longrightarrow> run_job env j (ps_state s) = (False, t) \<Longrightarrow>
     prefetch_step env K s (s\<lparr>ps_state := t, ps_workers := remove_worker i (ps_workers s)\<rparr>)"

inductive prefetch_steps ::
  "('d, 'c, 'i) forge_env \<Rightarrow> progress_key set \<Rightarrow> ('c, 'i) prefetch_sys \<Rightarrow> ('c, 'i) prefetch_sys \<Rightarrow> bool"
  for env and K where
  pss_refl: "prefetch_steps env K s s"
| pss_step: "prefetch_steps env K s t \<Longrightarrow> prefetch_step env K t u \<Longrightarrow> prefetch_steps env K s u"

lemma taken_Nil [simp]: "taken [] = []" "taken (None # ws) = taken ws" "taken (Some j # ws) = j # taken ws"
  by (simp_all add: taken_def List.map_filter_def)

lemma taken_append [simp]: "taken (a @ b) = taken a @ taken b"
  by (simp add: taken_def List.map_filter_def)

lemma split_worker:
  assumes "i < length ws"
  obtains a b where "ws = a @ ws ! i # b" and "length a = i"
  using id_take_nth_drop [OF assms] that [of "take i ws" "drop (Suc i) ws"] assms by simp

lemma run_job_sel:
  "run_job env j s = (True, t) \<Longrightarrow> fg_queue t = fg_queue s \<and> fg_in_progress t = fg_in_progress s - {job_key j}"
  "run_job env j s = (False, t) \<Longrightarrow> fg_queue t = fg_queue s \<and> fg_in_progress t = fg_in_progress s"
  by (auto simp: run_job_def release_def split: if_splits option.splits)

text \<open>What a step does to the jobs and the keys in progress.\<close>

lemma take_jobs:
  assumes "i < length ws" and "ws ! i = None"
  shows "mset (taken (ws[i := Some j])) = add_mset j (mset (taken ws))"
proof -
  obtain a b where "ws = a @ ws ! i # b" "length a = i" by (rule split_worker [OF assms(1)])
  with assms(2) have "ws = a @ None # b" "ws[i := Some j] = a @ Some j # b"
    using \<open>length a = i\<close> by (simp_all add: list_update_append)
  then show ?thesis by simp
qed

lemma drop_jobs:
  assumes "i < length ws" and "ws ! i = Some j"
  shows "mset (taken ws) = add_mset j (mset (taken (ws[i := None])))"
    and "mset (taken ws) = add_mset j (mset (taken (remove_worker i ws)))"
proof -
  obtain a b where w: "ws = a @ ws ! i # b" "length a = i" by (rule split_worker [OF assms(1)])
  with assms(2) have e: "ws = a @ Some j # b" by simp
  then have "ws[i := None] = a @ None # b" "remove_worker i ws = a @ b"
    using w(2) by (simp_all add: remove_worker_def list_update_append)
  with e show "mset (taken ws) = add_mset j (mset (taken (ws[i := None])))"
    "mset (taken ws) = add_mset j (mset (taken (remove_worker i ws)))" by simp_all
qed

text \<open>The effect of each step on the keys of the jobs (a multiset) and on the keys in progress.\<close>

definition job_keys :: "('c, 'i) prefetch_sys \<Rightarrow> progress_key multiset" where
  "job_keys s = image_mset job_key (mset (all_jobs s))"

definition held :: "('c, 'i) prefetch_sys \<Rightarrow> progress_key set" where
  "held s = fg_in_progress (ps_state s)"

lemma enqueue_frame_effect:
  fixes s :: "('c, 'i) prefetch_sys"
  defines "k req pos \<equiv> (sf_item_id req, pos, sf_width req)"
  shows "(let t = s\<lparr>ps_state := enqueue_frame req pos (ps_state s)\<rparr>
    in (job_keys t = job_keys s \<and> held t = held s) \<or>
       (k req pos \<notin> held s \<and> held t = insert (k req pos) (held s) \<and>
         (job_keys t = job_keys s \<or> job_keys t = add_mset (k req pos) (job_keys s))))"
  by (auto simp: enqueue_frame_def try_send_def job_keys_def held_def all_jobs_def job_key_def single_job_def
      k_def Let_def)

lemma enqueue_job_effect:
  "(let t = s\<lparr>ps_state := enqueue_job j (ps_state s)\<rparr>
    in held t - {job_key j} = held s - {job_key j} \<and>
       (job_keys t = job_keys s \<or> job_keys t = add_mset (job_key j) (job_keys s)))"
  by (auto simp: enqueue_job_def try_send_def job_keys_def held_def all_jobs_def release_def Let_def)

lemma take_effect:
  assumes "i < length (ps_workers s)" and "ps_workers s ! i = None" and "fg_queue (ps_state s) = j # q"
    and "t = s\<lparr>ps_state := (ps_state s)\<lparr>fg_queue := q\<rparr>, ps_workers := (ps_workers s)[i := Some j]\<rparr>"
  shows "job_keys t = job_keys s \<and> held t = held s"
  using take_jobs [OF assms(1,2)] assms(3) by (simp add: assms(4) job_keys_def held_def all_jobs_def)

lemma run_effect:
  assumes "i < length (ps_workers s)" and "ps_workers s ! i = Some j" and "run_job env j (ps_state s) = (True, t)"
    and "u = s\<lparr>ps_state := t, ps_workers := (ps_workers s)[i := None]\<rparr>"
  shows "job_keys s = add_mset (job_key j) (job_keys u) \<and> held u = held s - {job_key j}"
  using drop_jobs(1) [OF assms(1,2)] run_job_sel(1) [OF assms(3)]
  by (simp add: assms(4) job_keys_def held_def all_jobs_def)

lemma panic_effect:
  assumes "i < length (ps_workers s)" and "ps_workers s ! i = Some j" and "run_job env j (ps_state s) = (False, t)"
    and "u = s\<lparr>ps_state := t, ps_workers := remove_worker i (ps_workers s)\<rparr>"
  shows "job_keys s = add_mset (job_key j) (job_keys u) \<and> held u = held s"
  using drop_jobs(2) [OF assms(1,2)] run_job_sel(2) [OF assms(3)]
  by (simp add: assms(4) job_keys_def held_def all_jobs_def)

section \<open>No frame is queued twice\<close>

declare split_paired_All [simp del] split_paired_Ex [simp del]

definition covered :: "'k multiset \<Rightarrow> 'k set \<Rightarrow> bool" where
  "covered M H \<longleftrightarrow> (\<forall>k. count M k \<le> (if k \<in> H then 1 else 0))"

lemma covered_insert:
  assumes "covered M H" and "x \<notin> H"
  shows "covered (add_mset x M) (insert x H)" and "covered M (insert x H)"
proof -
  have "count M k \<le> (if k \<in> H then 1 else 0)" for k using assms(1) by (simp add: covered_def)
  then have "count (add_mset x M) k \<le> (if k \<in> insert x H then 1 else 0)"
    "count M k \<le> (if k \<in> insert x H then 1 else 0)" for k
    using assms(2) by (cases "k = x"; fastforce split: if_splits)+
  then show "covered (add_mset x M) (insert x H)" "covered M (insert x H)" by (simp_all add: covered_def)
qed

lemma covered_remove:
  assumes "covered (add_mset x M) H"
  shows "covered M (H - {x})" and "covered M H"
proof -
  have c: "count (add_mset x M) k \<le> (if k \<in> H then 1 else 0)" for k using assms by (simp add: covered_def)
  have "count M k \<le> (if k \<in> H - {x} then 1 else 0)" "count M k \<le> (if k \<in> H then 1 else 0)" for k
    using c [of k] by (cases "k = x"; auto split: if_splits)+
  then show "covered M (H - {x})" "covered M H" by (simp_all add: covered_def)
qed

definition dedup_ok :: "('c, 'i) prefetch_sys \<Rightarrow> bool" where
  "dedup_ok s \<longleftrightarrow> covered (job_keys s) (held s)"

lemma distinct_if_count: "(\<And>k. count (mset xs) k \<le> 1) \<Longrightarrow> distinct xs"
proof (induction xs)
  case (Cons x xs)
  have "count (mset xs) x = 0" using Cons.prems [of x] by simp
  moreover have "count (mset xs) k \<le> 1" for k
  proof -
    have "count (mset xs) k \<le> count (mset (x # xs)) k" by simp
    also have "\<dots> \<le> 1" by (rule Cons.prems)
    finally show ?thesis .
  qed
  ultimately show ?case using Cons.IH by (simp add: count_eq_zero_iff)
qed simp

lemma dedup_step:
  assumes "prefetch_step env {} s t" and ok: "dedup_ok s"
  shows "dedup_ok t"
  using assms(1)
proof cases
  case (ps_frame req pos)
  then show ?thesis
    using enqueue_frame_effect [where s = s and req = req and pos = pos] ok covered_insert [of "job_keys s" "held s"]
    unfolding dedup_ok_def Let_def by auto
next
  case (ps_range req pos)
  then show ?thesis by simp
next
  case (ps_take i j q)
  then show ?thesis using take_effect [OF ps_take(2-4,1)] ok by (simp add: dedup_ok_def)
next
  case (ps_run i j u)
  then show ?thesis using run_effect [OF ps_run(2-4,1)] covered_remove(1) ok by (auto simp: dedup_ok_def)
next
  case (ps_panic i j u)
  then show ?thesis using panic_effect [OF ps_panic(2-4,1)] covered_remove(2) ok by (auto simp: dedup_ok_def)
qed

lemma dedup_steps:
  assumes "prefetch_steps env {} s t" and "dedup_ok s"
  shows "dedup_ok t"
  using assms by (induction rule: prefetch_steps.induct) (auto intro: dedup_step)

text \<open>
  C18: No frame is queued twice. As long as only single-frame prefetches arrive, in every reachable state at most
  one job of each item, position and width is queued or being worked on, and its key is marked as in progress.
\<close>

theorem prefetch_unique:
  assumes "prefetch_steps env {} s t" and "all_jobs s = []"
  shows "distinct (map job_key (all_jobs t)) \<and> job_key ` set (all_jobs t) \<subseteq> fg_in_progress (ps_state t)"
proof -
  have "dedup_ok s" using assms(2) by (simp add: dedup_ok_def covered_def job_keys_def)
  with assms(1) have ok: "dedup_ok t" by (rule dedup_steps)
  have c: "count (job_keys t) k \<le> (if k \<in> held t then 1 else 0)" for k
    using ok by (simp add: dedup_ok_def covered_def)
  have le: "count (job_keys t) k \<le> 1" for k using c [of k] by (auto split: if_splits)
  have pos: "k \<in> held t" if "k \<in># job_keys t" for k
    using c [of k] that by (cases "k \<in> held t") (simp_all add: count_eq_zero_iff)
  have "distinct (map job_key (all_jobs t))"
    using le by (intro distinct_if_count) (simp add: job_keys_def)
  moreover have "job_key ` set (all_jobs t) \<subseteq> held t"
    using pos by (auto simp: job_keys_def)
  ultimately show ?thesis by (simp add: held_def)
qed

section \<open>A key that is never released\<close>

text \<open>A key in progress without a job: no worker will release it.\<close>

definition stuck :: "progress_key \<Rightarrow> ('c, 'i) prefetch_sys \<Rightarrow> bool" where
  "stuck k s \<longleftrightarrow> k \<in> held s \<and> k \<notin># job_keys s"

lemma stuck_step:
  assumes "prefetch_step env K s t" and "k \<notin> K" and st: "stuck k s"
  shows "stuck k t"
  using assms(1)
proof cases
  case (ps_frame req pos)
  then show ?thesis using enqueue_frame_effect [where s = s and req = req and pos = pos] st by (auto simp: stuck_def Let_def)
next
  case (ps_range req pos)
  have ne: "job_key (range_job req pos) \<noteq> k" using ps_range(2) assms(2) by (auto simp: job_key_def range_job_def)
  have h: "held t - {job_key (range_job req pos)} = held s - {job_key (range_job req pos)}"
    and m: "job_keys t = job_keys s \<or> job_keys t = add_mset (job_key (range_job req pos)) (job_keys s)"
    using enqueue_job_effect [where s = s and j = "range_job req pos"] unfolding Let_def ps_range(1) by blast+
  have "k \<in> held t" using h ne st unfolding stuck_def by blast
  moreover have "k \<notin># job_keys t" using m ne st unfolding stuck_def by auto
  ultimately show ?thesis by (simp add: stuck_def)
next
  case (ps_take i j q)
  then show ?thesis using take_effect [OF ps_take(2-4,1)] st by (simp add: stuck_def)
next
  case (ps_run i j u)
  then show ?thesis using run_effect [OF ps_run(2-4,1)] st by (auto simp: stuck_def)
next
  case (ps_panic i j u)
  then show ?thesis using panic_effect [OF ps_panic(2-4,1)] st by (auto simp: stuck_def)
qed

lemma stuck_steps:
  assumes "prefetch_steps env K s t" and "k \<notin> K" and "stuck k s"
  shows "stuck k t"
  using assms by (induction rule: prefetch_steps.induct) (auto intro: stuck_step)

lemma stuck_enqueue: "stuck (sf_item_id req, pos, sf_width req) s \<Longrightarrow> enqueue_frame req pos (ps_state s) = ps_state s"
  by (simp add: stuck_def held_def enqueue_frame_def Let_def)

text \<open>
  A full queue loses a frame for good. When the queue is full, a prefetch of a frame that is neither cached nor
  in progress marks it as in progress and queues nothing. Whatever happens afterwards (other prefetches, range requests
  for other frames, workers), the mark stays, no job for the frame is ever queued, and every later prefetch of it is
  a no-op.
\<close>

theorem full_queue_loses_frame:
  assumes "length (fg_queue (ps_state s)) = prefetch_queue_cap"
    and "\<not> dc_exists (sf_item_id req) (sf_path req) pos (sf_width req) (fg_disk (ps_state s))"
    and "(sf_item_id req, pos, sf_width req) \<notin> fg_in_progress (ps_state s)"
    and "(sf_item_id req, pos, sf_width req) \<notin> job_key ` set (all_jobs s)"
    and "(sf_item_id req, pos, sf_width req) \<notin> K"
    and "prefetch_steps env K (s\<lparr>ps_state := enqueue_frame req pos (ps_state s)\<rparr>) t"
  shows "(sf_item_id req, pos, sf_width req) \<in> fg_in_progress (ps_state t) \<and>
    (sf_item_id req, pos, sf_width req) \<notin> job_key ` set (all_jobs t) \<and>
    enqueue_frame req pos (ps_state t) = ps_state t"
proof -
  let ?k = "(sf_item_id req, pos, sf_width req)"
  have "stuck ?k (s\<lparr>ps_state := enqueue_frame req pos (ps_state s)\<rparr>)"
    using assms(1-4) by (auto simp: stuck_def held_def job_keys_def all_jobs_def enqueue_frame_def try_send_def Let_def)
  from stuck_steps [OF assms(6,5) this] have "stuck ?k t" .
  then show ?thesis using stuck_enqueue by (auto simp: stuck_def held_def job_keys_def)
qed

section \<open>Examples\<close>

text \<open>One second as the bits of an \<^verbatim>\<open>f64\<close>.\<close>

lemma one_second: "seconds_ms 0x3FF0000000000000 = 1000"
proof -
  have "f64_of_bits 0x3FF0000000000000 = Fin 1"
    by (simp add: f64_of_bits_def Let_def power_int_def power_one_over)
  moreover have "f_mul (Fin 1) (Fin 1000) = Fin 1000"
    using rv_int [of 1000] by (simp add: round64_def round_fl_def Let_def)
  moreover have "\<lfloor>(1000 :: rat) + 1 / 2\<rfloor> = 1000" by (simp add: floor_unique)
  ultimately show ?thesis by (simp add: seconds_ms_def trunc_def clamp_i64_id i64_bounds)
qed

definition demo_range :: prefetch_range_req where
  "demo_range = \<lparr>pr_item_id = ''movie'', pr_path = ''m.mkv'', pr_start_idx = 2, pr_before_seconds = 0x3FF0000000000000,
     pr_after_seconds = 0x3FF0000000000000, pr_include_start = True, pr_width = 320,
     pr_hw = \<lparr>hw_decode_enabled = False, device_strategy = Performance\<rparr>\<rparr>"

theorem prefetch_range_window_witness:
  "range_positions demo_range [0, 500, 1000, 1500, 2000, 2500] 2 = [1000, 500, 0, 1000, 1500, 2000]"
proof -
  let ?ts = "[0, 500, 1000, 1500, 2000, 2500] :: int list"
  have u: "[0..<3] = [0, 1, 2 :: nat]" "[2..<length ?ts] = [2, 3, 4, 5]" by (simp_all add: upt_conv_Cons)
  show ?thesis
    using prefetch_range_window [of ?ts 2 demo_range] one_second
    by (simp add: demo_range_def in_i64_def i64_min_def i64_max_def u)
qed

definition demo_job :: prefetch_job where
  "demo_job = \<lparr>pj_item_id = ''other'', pj_path = ''o.mkv'', pj_pos_ms = 0, pj_width = 320,
     pj_hw = \<lparr>hw_decode_enabled = False, device_strategy = Performance\<rparr>\<rparr>"

definition demo_sys :: "prefetch_job list \<Rightarrow> ((ram_key \<times> byte list) list, (string \<times> index_data) list) prefetch_sys" where
  "demo_sys q = \<lparr>ps_state = demo_forge\<lparr>fg_queue := q\<rparr>, ps_workers = [None]\<rparr>"

lemma demo_not_cached: "\<not> dc_exists (sf_item_id demo_single) p 40 w (fg_disk demo_forge)"
  by (simp add: dc_exists_def demo_forge_def demo_single_def demo_def demo_key_def)

theorem prefetch_unique_witness:
  "\<exists>t. prefetch_steps demo_env {} (demo_sys []) t \<and> all_jobs t = [single_job demo_single 40] \<and>
     distinct (map job_key (all_jobs t))"
proof -
  let ?t = "(demo_sys [])\<lparr>ps_state := enqueue_frame demo_single 40 (ps_state (demo_sys []))\<rparr>"
  have st: "prefetch_steps demo_env {} (demo_sys []) ?t"
    by (rule pss_step [OF pss_refl ps_frame])
  have "all_jobs ?t = [single_job demo_single 40]"
    using demo_not_cached
    by (simp add: all_jobs_def demo_sys_def enqueue_frame_def try_send_def prefetch_queue_cap_def Let_def) (simp add: demo_forge_def)
  moreover have "all_jobs (demo_sys []) = []" by (simp add: all_jobs_def demo_sys_def)
  ultimately show ?thesis using prefetch_unique [OF st] st by blast
qed

theorem full_queue_loses_frame_witness:
  "let t = (demo_sys (replicate prefetch_queue_cap demo_job))\<lparr>ps_state :=
       enqueue_frame demo_single 40 (ps_state (demo_sys (replicate prefetch_queue_cap demo_job)))\<rparr>
   in job_key (single_job demo_single 40) \<in> fg_in_progress (ps_state t) \<and>
      job_key (single_job demo_single 40) \<notin> job_key ` set (all_jobs t)"
proof -
  let ?s = "demo_sys (replicate prefetch_queue_cap demo_job)"
  have k: "(sf_item_id demo_single, 40, sf_width demo_single) \<notin> job_key ` set (all_jobs ?s)"
    by (auto simp: all_jobs_def demo_sys_def job_key_def demo_job_def demo_single_def)
  show ?thesis
    using full_queue_loses_frame [of ?s demo_single 40 "{}" demo_env, OF _ _ _ k _ pss_refl] demo_not_cached
    by (simp add: demo_sys_def Let_def job_key_def single_job_def) (simp add: demo_forge_def)
qed

end
