(* ===== verification/Range_Stream.thy ===== *)
theory Range_Stream
  imports Forge_Prefetch "HOL-Library.Multiset"
begin

text \<open>
  \<^verbatim>\<open>handle_prefetch_range_stream\<close> of \<^verbatim>\<open>crates/frame-forge/src/server.rs\<close>: the window of a request, the frames
  that are cached already, the frame nearest to the anchor, then the others in batches that are decoded
  concurrently and reported in order, each with one event; at the end the totals and a terminator.
  A concurrent decode is described by what it sees of the cancel flag and by what its channel accepts (\<open>timing\<close>);
  the flag as polled after the reported frames is a sequence of Booleans.
\<close>

section \<open>The window\<close>

text \<open>The index as found by the first lookup and by up to thirty later ones, 50 ms apart.\<close>

definition awaited :: "index_data option list \<Rightarrow> index_data option" where
  "awaited lookups = (case List.find (\<lambda>x. x \<noteq> None) (take 31 lookups) of Some x \<Rightarrow> x | None \<Rightarrow> None)"

definition stream_window ::
  "'d ffmpeg \<Rightarrow> index_data option list \<Rightarrow> range_stream_req \<Rightarrow> ((int \<times> int) list \<times> int \<times> int) option" where
  "stream_window ff lookups req =
     (case awaited lookups of
        Some idx \<Rightarrow>
          Some (build_prefetch_window_from_cache idx (rs_current_frame_idx req) (rs_current_time_ms req)
                  (rs_before_ms req) (rs_after_ms req) (rs_include_current req))
      | None \<Rightarrow>
          if \<not> ff_opens ff then None
          else (case ff_video ff of
                  None \<Rightarrow> None
                | Some v \<Rightarrow> quick_demux v (ff_packets ff) (rs_current_frame_idx req) (rs_current_time_ms req)
                              (rs_before_ms req) (rs_after_ms req) (rs_include_current req)))"

section \<open>Events\<close>

text \<open>\<^verbatim>\<open>make_path(..).to_string_lossy()\<close> below the cache directory \<open>cdir\<close>; nothing is escaped.\<close>

definition path_text :: "string \<Rightarrow> string \<Rightarrow> int \<Rightarrow> int \<Rightarrow> nat \<Rightarrow> string" where
  "path_text cdir item fi pos width = cdir @ ''/'' @ item @ ''/'' @ frame_name fi pos width"

definition ready_event :: "string \<Rightarrow> string \<Rightarrow> nat \<Rightarrow> int \<Rightarrow> int \<Rightarrow> byte list" where
  "ready_event cdir item width fi pos =
     sse (''{\"frameReady\":'' @ show_int fi @ '',\"thumbPath\":\"'' @ path_text cdir item fi pos width
            @ ''\",\"origPath\":\"'' @ path_text cdir item fi pos 0 @ ''\"}'')"

definition failed_event :: "int \<Rightarrow> byte list" where
  "failed_event fi = sse (''{\"frameFailed\":'' @ show_int fi @ ''}'')"

record stream_counts =
  sc_hits :: nat
  sc_decoded :: nat
  sc_failed :: nat

definition totals_event :: "stream_counts \<Rightarrow> byte list" where
  "totals_event n =
     sse (''{\"done\":true,\"cacheHits\":'' @ show_nat (sc_hits n) @ '',\"decoded\":'' @ show_nat (sc_decoded n)
            @ '',\"failed\":'' @ show_nat (sc_failed n) @ ''}'')"

section \<open>Cached frames\<close>

record ('d, 'c, 'i) range_job_env =
  rj_env :: "('d, 'c, 'i) forge_env"
  rj_root :: string
  rj_item :: string
  rj_path :: string
  rj_width :: nat
  rj_hw :: "hw_request option"
  rj_concurrency :: nat

definition already_cached :: "('d, 'c, 'i) range_job_env \<Rightarrow> int \<Rightarrow> ('c, 'i) forge \<Rightarrow> bool" where
  "already_cached j pos s \<longleftrightarrow>
     lru_peek (fe_ram (rj_env j)) (rj_path j, pos, rj_width j) (fg_ram s) \<noteq> None \<or>
     dc_exists (rj_item j) (rj_path j) pos (rj_width j) (fg_disk s)"

definition send_ready :: "('d, 'c, 'i) range_job_env \<Rightarrow> int \<Rightarrow> int \<Rightarrow> ('c, 'i, unit) forge_io" where
  "send_ready j fi pos = write_chunk (ready_event (rj_root j) (rj_item j) (rj_width j) fi pos)"

definition send_failed :: "int \<Rightarrow> ('c, 'i, unit) forge_io" where
  "send_failed fi = write_chunk (failed_event fi)"

fun emit_hits ::
  "('d, 'c, 'i) range_job_env \<Rightarrow> (int \<times> int) list \<Rightarrow> nat \<Rightarrow> (int \<times> int) list \<Rightarrow> ('c, 'i, nat \<times> (int \<times> int) list) forge_io" where
  "emit_hits j [] hits misses = io_ret (hits, misses)"
| "emit_hits j ((fi, pos) # ps) hits misses =
     (\<lambda>s. if already_cached j pos s
          then io_then (send_ready j fi pos) (emit_hits j ps (Suc hits) misses) s
          else emit_hits j ps hits (misses @ [(fi, pos)]) s)"

section \<open>The anchor\<close>

definition abs_i64 :: "int \<Rightarrow> int" where
  "abs_i64 i = wrap_i64 \<bar>i\<bar>"

definition anchor_pos :: "int \<Rightarrow> (int \<times> int) list \<Rightarrow> nat option" where
  "anchor_pos anchor misses =
     map_option fst (min_by_key (\<lambda>(_, _, ms). abs_i64 (wrap_i64 (ms - anchor))) (enumerate 0 misses))"

definition remove_at :: "nat \<Rightarrow> 'a list \<Rightarrow> 'a list" where
  "remove_at i xs = take i xs @ drop (Suc i) xs"

definition anchor_frame ::
  "('d, 'c, 'i) range_job_env \<Rightarrow> int \<Rightarrow> int \<Rightarrow> stream_counts \<Rightarrow> ('c, 'i, stream_counts) forge_io" where
  "anchor_frame j fi pos n s =
     (case decode_frame (rj_env j) (rj_path j) pos (rj_width j) (rj_hw j) of
        None \<Rightarrow> io_then (send_failed fi) (io_ret (n\<lparr>sc_failed := Suc (sc_failed n)\<rparr>)) s
      | Some r \<Rightarrow>
          (let (wrote, d) = dc_write (rj_item j) (rj_path j) fi pos (rj_width j) (dr_webp r) (fg_disk s);
               d = (if dr_webp_orig r \<noteq> [] then snd (dc_write (rj_item j) (rj_path j) fi pos 0 (dr_webp_orig r) d) else d);
               s = s\<lparr>fg_disk := d\<rparr>
           in if wrote
              then io_then (send_ready j fi pos) (io_ret (n\<lparr>sc_decoded := Suc (sc_decoded n)\<rparr>))
                     (s\<lparr>fg_ram := store_ram (fe_ram (rj_env j)) (rj_path j) pos (rj_width j) r (fg_ram s)\<rparr>)
              else io_then (send_failed fi) (io_ret (n\<lparr>sc_failed := Suc (sc_failed n)\<rparr>)) s))"

section \<open>Batches\<close>

text \<open>What a decode task sees of the cancel flag (producer, consumer) and what its channel accepts.\<close>

type_synonym timing = "(nat \<Rightarrow> bool) \<times> (nat \<Rightarrow> bool) \<times> (nat \<Rightarrow> bool)"

text \<open>One decode task: a range decode of the single target, which keeps the last frame delivered.\<close>

definition fetch_frame ::
  "('d, 'c, 'i) range_job_env \<Rightarrow> timing \<Rightarrow> int \<Rightarrow> int \<Rightarrow> (byte list \<times> byte list) option" where
  "fetch_frame j tm fi pos =
     (case tm of (cancel_p, cancel_c, accepts) \<Rightarrow>
        (case decode_range_hw (fe_ff (rj_env j) (rj_path j)) [(fi, pos)] (rj_width j) cancel_p cancel_c accepts
                (rj_hw j) (\<lambda>_ found. found) (\<lambda>_ _ thumb orig _. (True, Some (thumb, orig))) None of
           (Range_Ok, found) \<Rightarrow> found
         | _ \<Rightarrow> None))"

definition report_frame ::
  "('d, 'c, 'i) range_job_env \<Rightarrow> int \<times> int \<Rightarrow> (byte list \<times> byte list) option \<Rightarrow> stream_counts \<Rightarrow> ('c, 'i, stream_counts) forge_io" where
  "report_frame j target found n s =
     (case target of (fi, pos) \<Rightarrow>
        (case found of
           None \<Rightarrow> io_then (send_failed fi) (io_ret (n\<lparr>sc_failed := Suc (sc_failed n)\<rparr>)) s
         | Some (thumb, orig) \<Rightarrow>
             (let d = (if orig \<noteq> [] then snd (dc_write (rj_item j) (rj_path j) fi pos 0 orig (fg_disk s)) else fg_disk s);
                  (wrote, d) = dc_write (rj_item j) (rj_path j) fi pos (rj_width j) thumb d;
                  s = s\<lparr>fg_disk := d\<rparr>
              in if wrote
                 then io_then (send_ready j fi pos) (io_ret (n\<lparr>sc_decoded := Suc (sc_decoded n)\<rparr>))
                        (s\<lparr>fg_ram := lru_put (fe_ram (rj_env j)) (rj_path j, pos, rj_width j) thumb
                             (lru_put (fe_ram (rj_env j)) (rj_path j, pos, 0) orig (fg_ram s))\<rparr>)
                 else io_then (send_failed fi) (io_ret (n\<lparr>sc_failed := Suc (sc_failed n)\<rparr>)) s)))"

text \<open>
  One batch: the decodes ran concurrently, their results are taken in order. \<open>k\<close> counts the reads of the cancel
  flag; the flag in the result says whether the session was cancelled.
\<close>

fun report_batch ::
  "('d, 'c, 'i) range_job_env \<Rightarrow> (nat \<Rightarrow> bool) \<Rightarrow> ((int \<times> int) \<times> (byte list \<times> byte list) option) list \<Rightarrow> nat \<Rightarrow>
     stream_counts \<Rightarrow> ('c, 'i, bool \<times> nat \<times> stream_counts) forge_io" where
  "report_batch j cancel [] k n = io_ret (False, k, n)"
| "report_batch j cancel ((target, found) # rs) k n =
     io_bind (report_frame j target found n) (\<lambda>n.
       if cancel k then io_ret (True, Suc k, n) else report_batch j cancel rs (Suc k) n)"

fun run_batches ::
  "('d, 'c, 'i) range_job_env \<Rightarrow> (int \<times> int \<Rightarrow> timing) \<Rightarrow> (nat \<Rightarrow> bool) \<Rightarrow> (int \<times> int) list list \<Rightarrow> nat \<Rightarrow>
     stream_counts \<Rightarrow> ('c, 'i, bool \<times> nat \<times> stream_counts) forge_io" where
  "run_batches j tm cancel [] k n = io_ret (False, k, n)"
| "run_batches j tm cancel (b # bs) k n =
     io_bind (report_batch j cancel (map (\<lambda>(fi, pos). ((fi, pos), fetch_frame j (tm (fi, pos)) fi pos)) b) k n)
       (\<lambda>(stopped, k, n).
          if stopped then io_ret (True, k, n) else run_batches j tm cancel bs k n)"

section \<open>The handler\<close>

text \<open>After the permit is held; the result says whether the stream was cancelled.\<close>

definition stream_frames ::
  "('d, 'c, 'i) range_job_env \<Rightarrow> (int \<times> int \<Rightarrow> timing) \<Rightarrow> (nat \<Rightarrow> bool) \<Rightarrow> (int \<times> int) list \<Rightarrow> int \<Rightarrow> ('c, 'i, bool) forge_io" where
  "stream_frames j tm cancel window anchor =
     io_bind (emit_hits j window 0 []) (\<lambda>(hits, misses).
       (let n = \<lparr>sc_hits = hits, sc_decoded = 0, sc_failed = 0\<rparr>
        in io_bind
             (case anchor_pos anchor misses of
                None \<Rightarrow> io_ret (misses, n)
              | Some i \<Rightarrow>
                  (case misses ! i of (fi, pos) \<Rightarrow>
                     io_bind (anchor_frame j fi pos n) (\<lambda>n. io_ret (remove_at i misses, n))))
             (\<lambda>(misses, n).
                io_bind (run_batches j tm cancel (chunks (max (rj_concurrency j) 1) misses) 0 n) (\<lambda>(stopped, _, n).
                  if stopped then io_ret True
                  else io_then (write_chunk (totals_event n)) (io_then (write_all (le_bytes 4 0)) (io_ret False))))))"

definition range_job_of :: "('d, 'c, 'i) forge_env \<Rightarrow> string \<Rightarrow> nat \<Rightarrow> range_stream_req \<Rightarrow> ('d, 'c, 'i) range_job_env" where
  "range_job_of env cdir concurrency req =
     \<lparr>rj_env = env, rj_root = cdir, rj_item = rs_item_id req, rj_path = rs_path req, rj_width = rs_width req,
      rj_hw = hw_for env (rs_hw req), rj_concurrency = concurrency\<rparr>"

definition handle_prefetch_range_stream ::
  "('d, 'c, 'i) forge_env \<Rightarrow> string \<Rightarrow> nat \<Rightarrow> index_data option list \<Rightarrow> (int \<times> int \<Rightarrow> timing) \<Rightarrow> (nat \<Rightarrow> bool) \<Rightarrow>
     ('c, 'i, bool) forge_io" where
  "handle_prefetch_range_stream env cdir concurrency lookups tm cancel =
     io_bind read_prefetch_range_stream_req (\<lambda>req.
       case stream_window (fe_ff env (rs_path req)) lookups req of
         None \<Rightarrow> io_fail (Failed ''window'')
       | Some (window, _, anchor) \<Rightarrow> stream_frames (range_job_of env cdir concurrency req) tm cancel window anchor)"

section \<open>One event per frame\<close>

type_synonym report = "(int \<times> int) \<times> bool"

definition chunk :: "byte list \<Rightarrow> byte list" where
  "chunk b = le_bytes 4 (length b) @ b"

definition report_bytes :: "('d, 'c, 'i) range_job_env \<Rightarrow> report \<Rightarrow> byte list" where
  "report_bytes j r =
     chunk (case r of ((fi, pos), ok) \<Rightarrow>
              if ok then ready_event (rj_root j) (rj_item j) (rj_width j) fi pos else failed_event fi)"

definition sent_reports :: "('d, 'c, 'i) range_job_env \<Rightarrow> report list \<Rightarrow> byte list" where
  "sent_reports j rs = concat (map (report_bytes j) rs)"

definition counted :: "report list \<Rightarrow> stream_counts \<Rightarrow> stream_counts" where
  "counted rs n =
     n\<lparr>sc_decoded := sc_decoded n + length (filter snd rs), sc_failed := sc_failed n + length (filter (\<lambda>r. \<not> snd r) rs)\<rparr>"

lemma sent_reports_simps [simp]:
  "sent_reports j [] = []" "sent_reports j (r # rs) = report_bytes j r @ sent_reports j rs"
  "sent_reports j (rs @ rs') = sent_reports j rs @ sent_reports j rs'"
  by (simp_all add: sent_reports_def)

lemma counted_simps [simp]:
  "counted [] n = n" "counted rs' (counted rs n) = counted (rs @ rs') n"
  by (simp_all add: counted_def)

lemma write_chunk_Inr:
  "write_chunk b s = (Inr x, t) \<Longrightarrow>
     c_out t = c_out s @ chunk b \<and> fg_ram t = fg_ram s \<and> fg_disk t = fg_disk s \<and> fg_index t = fg_index s"
  by (auto simp: write_chunk_def io_then_def io_bind_def write_all_def chunk_def split: if_splits)

lemma already_cached_cong: "fg_ram t = fg_ram s \<Longrightarrow> fg_disk t = fg_disk s \<Longrightarrow> already_cached j pos t = already_cached j pos s"
  by (simp add: already_cached_def)

lemma emit_hits_spec:
  "emit_hits j ps h ms s = (Inr (h', ms'), t) \<Longrightarrow>
     c_out t = c_out s @ sent_reports j (map (\<lambda>p. (p, True)) (filter (\<lambda>(fi, pos). already_cached j pos s) ps)) \<and>
     h' = h + length (filter (\<lambda>(fi, pos). already_cached j pos s) ps) \<and>
     ms' = ms @ filter (\<lambda>(fi, pos). \<not> already_cached j pos s) ps"
proof (induction j ps h ms arbitrary: s rule: emit_hits.induct)
  case (1 j hits misses)
  then show ?case by (simp add: io_run)
next
  case (2 j fi pos ps hits misses)
  show ?case
  proof (cases "already_cached j pos s")
    case True
    with "2.prems" obtain u where u: "write_chunk (ready_event (rj_root j) (rj_item j) (rj_width j) fi pos) s = (Inr (), u)"
      and rest: "emit_hits j ps (Suc hits) misses u = (Inr (h', ms'), t)"
      by (auto simp: io_then_Inr send_ready_def)
    have cong: "already_cached j p u = already_cached j p s" for p
      using write_chunk_Inr [OF u] by (intro already_cached_cong) simp_all
    show ?thesis using "2.IH"(1) [OF True rest] write_chunk_Inr [OF u] True
      by (simp add: cong report_bytes_def)
  next
    case False
    with "2.prems" "2.IH"(2) [of s] show ?thesis by simp
  qed
qed

lemmas write_chunk_out = write_chunk_Inr [THEN conjunct1]

text \<open>The two ways a decoded frame is reported.\<close>

definition reported :: "('d, 'c, 'i) range_job_env \<Rightarrow> int \<Rightarrow> int \<Rightarrow> stream_counts \<Rightarrow> ('c, 'i) forge \<Rightarrow> stream_counts \<Rightarrow> ('c, 'i) forge \<Rightarrow> bool" where
  "reported j fi pos n s n' t \<longleftrightarrow>
     (\<exists>u. c_out u = c_out s \<and>
        (send_ready j fi pos u = (Inr (), t) \<and> n' = n\<lparr>sc_decoded := Suc (sc_decoded n)\<rparr> \<or>
         send_failed fi u = (Inr (), t) \<and> n' = n\<lparr>sc_failed := Suc (sc_failed n)\<rparr>))"

lemma reported_one:
  assumes "reported j fi pos n s n' t"
  shows "\<exists>ok. c_out t = c_out s @ report_bytes j ((fi, pos), ok) \<and> n' = counted [((fi, pos), ok)] n"
proof -
  from assms obtain u where u: "c_out u = c_out s"
    and or: "send_ready j fi pos u = (Inr (), t) \<and> n' = n\<lparr>sc_decoded := Suc (sc_decoded n)\<rparr> \<or>
      send_failed fi u = (Inr (), t) \<and> n' = n\<lparr>sc_failed := Suc (sc_failed n)\<rparr>"
    unfolding reported_def by blast
  from or show ?thesis
  proof
    assume "send_ready j fi pos u = (Inr (), t) \<and> n' = n\<lparr>sc_decoded := Suc (sc_decoded n)\<rparr>"
    with u show ?thesis
      by (intro exI [of _ True]) (auto simp: report_bytes_def counted_def send_ready_def dest: write_chunk_out)
  next
    assume "send_failed fi u = (Inr (), t) \<and> n' = n\<lparr>sc_failed := Suc (sc_failed n)\<rparr>"
    with u show ?thesis
      by (intro exI [of _ False]) (auto simp: report_bytes_def counted_def send_failed_def dest: write_chunk_out)
  qed
qed

lemma reportedI:
  "io_then (send_ready j fi pos) (io_ret (n\<lparr>sc_decoded := Suc (sc_decoded n)\<rparr>)) u = (Inr n', t) \<Longrightarrow> c_out u = c_out s \<Longrightarrow>
     reported j fi pos n s n' t"
  "io_then (send_failed fi) (io_ret (n\<lparr>sc_failed := Suc (sc_failed n)\<rparr>)) u = (Inr n', t) \<Longrightarrow> c_out u = c_out s \<Longrightarrow>
     reported j fi pos n s n' t"
  unfolding reported_def by (auto simp: io_then_Inr io_run)

lemma anchor_frame_reported: "anchor_frame j fi pos n s = (Inr n', t) \<Longrightarrow> reported j fi pos n s n' t"
  by (auto simp: anchor_frame_def Let_def intro: reportedI split: option.splits prod.splits if_splits)

lemma report_frame_reported: "report_frame j (fi, pos) found n s = (Inr n', t) \<Longrightarrow> reported j fi pos n s n' t"
  by (auto simp: report_frame_def Let_def intro: reportedI split: option.splits prod.splits if_splits)

text \<open>What a run over some targets reported: all of them, or a first part when it was stopped.\<close>

definition run_ok ::
  "('d, 'c, 'i) range_job_env \<Rightarrow> (nat \<Rightarrow> bool) \<Rightarrow> (int \<times> int) list \<Rightarrow> nat \<Rightarrow> stream_counts \<Rightarrow> ('c, 'i) forge \<Rightarrow>
     bool \<Rightarrow> nat \<Rightarrow> stream_counts \<Rightarrow> ('c, 'i) forge \<Rightarrow> bool" where
  "run_ok j cancel targets k n s stopped k' n' t \<longleftrightarrow>
     (\<exists>rs. c_out t = c_out s @ sent_reports j rs \<and> n' = counted rs n \<and> k' = k + length rs \<and>
        (\<exists>left. targets = map fst rs @ left \<and> (\<not> stopped \<longrightarrow> left = [])) \<and>
        (\<forall>i. k \<le> i \<and> i < k' \<longrightarrow> cancel i \<longrightarrow> stopped \<and> Suc i = k') \<and> (stopped \<longrightarrow> k < k' \<and> cancel (k' - 1)))"

lemma run_ok_Nil: "run_ok j cancel [] k n s False k n s"
  unfolding run_ok_def by (rule exI [of _ "[]"]) auto

lemma run_ok_reports:
  assumes "run_ok j cancel targets k n s stopped k' n' t"
  obtains rs left where "c_out t = c_out s @ sent_reports j rs" and "n' = counted rs n" and "targets = map fst rs @ left"
    and "\<not> stopped \<longrightarrow> left = []" and "stopped \<longrightarrow> cancel (k' - 1)"
  using assms unfolding run_ok_def
  by (elim exE conjE) (rule that, assumption+, simp)

lemma run_ok_append:
  assumes "run_ok j cancel a k n s False k1 n1 u" and "run_ok j cancel b k1 n1 u stopped k2 n2 t"
  shows "run_ok j cancel (a @ b) k n s stopped k2 n2 t"
proof -
  obtain rs where 1: "c_out u = c_out s @ sent_reports j rs" "n1 = counted rs n" "k1 = k + length rs" "a = map fst rs"
    "\<forall>i. k \<le> i \<and> i < k1 \<longrightarrow> \<not> cancel i"
    using assms(1) unfolding run_ok_def by auto
  obtain rs' left where 2: "c_out t = c_out u @ sent_reports j rs'" "n2 = counted rs' n1" "k2 = k1 + length rs'"
    "b = map fst rs' @ left" "\<not> stopped \<longrightarrow> left = []"
    "\<forall>i. k1 \<le> i \<and> i < k2 \<longrightarrow> cancel i \<longrightarrow> stopped \<and> Suc i = k2" "stopped \<longrightarrow> k1 < k2 \<and> cancel (k2 - 1)"
    using assms(2) unfolding run_ok_def by blast
  have "\<forall>i. k \<le> i \<and> i < k2 \<longrightarrow> cancel i \<longrightarrow> stopped \<and> Suc i = k2"
    using 1(5) 2(6) by (meson not_le_imp_less)
  with 1 2 show ?thesis
    unfolding run_ok_def by (intro exI [of _ "rs @ rs'"]) auto
qed

lemma run_ok_stopped:
  assumes "run_ok j cancel a k n s True k1 n1 u"
  shows "run_ok j cancel (a @ b) k n s True k1 n1 u"
  using assms unfolding run_ok_def by (metis append.assoc)

lemma run_ok_one:
  assumes "report_frame j (fi, pos) found n s = (Inr n', t)"
  shows "run_ok j cancel [(fi, pos)] k n s (cancel k) (Suc k) n' t"
proof -
  obtain ok where "c_out t = c_out s @ report_bytes j ((fi, pos), ok)" "n' = counted [((fi, pos), ok)] n"
    using reported_one [OF report_frame_reported [OF assms]] by blast
  then show ?thesis
    unfolding run_ok_def by (intro exI [of _ "[((fi, pos), ok)]"]) (auto simp: less_Suc_eq)
qed

lemma report_batch_spec:
  "report_batch j cancel rs k n s = (Inr (stopped, k', n'), t) \<Longrightarrow>
     run_ok j cancel (map fst rs) k n s stopped k' n' t"
proof (induction j cancel rs k n arbitrary: s rule: report_batch.induct)
  case (1 j cancel k n)
  then show ?case by (simp add: io_run run_ok_Nil)
next
  case (2 j cancel target found rs k n)
  obtain fi pos where target: "target = (fi, pos)" by (cases target)
  from "2.prems" obtain n1 u where r: "report_frame j (fi, pos) found n s = (Inr n1, u)"
    and rest: "(if cancel k then io_ret (True, Suc k, n1) else report_batch j cancel rs (Suc k) n1) u = (Inr (stopped, k', n'), t)"
    by (auto simp: io_bind_Inr target)
  note one = run_ok_one [OF r, of cancel k]
  show ?case
  proof (cases "cancel k")
    case True
    with rest have "stopped" "k' = Suc k" "n' = n1" "t = u" by (auto simp: io_run)
    with one True run_ok_stopped [of j cancel "[(fi, pos)]" k n s "Suc k" n1 u "map fst rs"] show ?thesis by (simp add: target)
  next
    case False
    with rest "2.IH" have "run_ok j cancel (map fst rs) (Suc k) n1 u stopped k' n' t" by simp
    with one False run_ok_append [of j cancel "[(fi, pos)]" k n s "Suc k" n1 u] show ?thesis by (simp add: target)
  qed
qed

lemma run_batches_spec:
  "run_batches j tm cancel bs k n s = (Inr (stopped, k', n'), t) \<Longrightarrow>
     run_ok j cancel (concat bs) k n s stopped k' n' t"
proof (induction j tm cancel bs k n arbitrary: s rule: run_batches.induct)
  case (1 j tm cancel k n)
  then show ?case by (simp add: io_run run_ok_Nil)
next
  case (2 j tm cancel b bs k n)
  let ?rs = "map (\<lambda>(fi, pos). ((fi, pos), fetch_frame j (tm (fi, pos)) fi pos)) b"
  have fst: "map fst ?rs = b" by (simp add: case_prod_beta comp_def)
  from "2.prems" obtain st k1 n1 u where r: "report_batch j cancel ?rs k n s = (Inr (st, k1, n1), u)"
    and rest: "(if st then io_ret (True, k1, n1) else run_batches j tm cancel bs k1 n1) u = (Inr (stopped, k', n'), t)"
    by (auto simp: io_bind_Inr)
  from report_batch_spec [OF r] have one: "run_ok j cancel b k n s st k1 n1 u" unfolding fst .
  show ?case
  proof (cases st)
    case True
    with rest have "stopped" "k' = k1" "n' = n1" "t = u" by (auto simp: io_run)
    with one True run_ok_stopped [of j cancel b k n s k1 n1 u "concat bs"] show ?thesis by simp
  next
    case False
    with rest have "run_batches j tm cancel bs k1 n1 u = (Inr (stopped, k', n'), t)" by simp
    then have "run_ok j cancel (concat bs) k1 n1 u stopped k' n' t" by (rule "2.IH" [OF False])
    with one False run_ok_append [of j cancel b k n s k1 n1 u] show ?thesis by simp
  qed
qed

text \<open>The order in which missing frames are reported: the one nearest to the anchor, then the others.\<close>

definition anchor_first :: "int \<Rightarrow> (int \<times> int) list \<Rightarrow> (int \<times> int) list" where
  "anchor_first anchor misses =
     (case anchor_pos anchor misses of None \<Rightarrow> misses | Some i \<Rightarrow> misses ! i # remove_at i misses)"

lemma anchor_pos_less: "anchor_pos anchor misses = Some i \<Longrightarrow> i < length misses"
  unfolding anchor_pos_def by (auto dest!: min_by_key_mem simp: in_set_enumerate_eq)

lemma remove_at_mset: "i < length xs \<Longrightarrow> mset (xs ! i # remove_at i xs) = mset xs"
  using id_take_nth_drop [of i xs] unfolding remove_at_def
  by (metis mset.simps(2) mset_append union_mset_add_mset_right)

lemma anchor_first_mset: "mset (anchor_first anchor misses) = mset misses"
proof (cases "anchor_pos anchor misses")
  case None
  then show ?thesis by (simp add: anchor_first_def)
next
  case (Some i)
  then show ?thesis using remove_at_mset [OF anchor_pos_less [OF Some]] by (simp add: anchor_first_def)
qed

lemma anchor_first_nearest:
  assumes "(fi, pos) \<in> set misses"
  shows "\<exists>a rest. anchor_first anchor misses = a # rest \<and>
    abs_i64 (wrap_i64 (snd a - anchor)) \<le> abs_i64 (wrap_i64 (pos - anchor))"
proof -
  let ?f = "\<lambda>(_ :: nat, _ :: int, ms). abs_i64 (wrap_i64 (ms - anchor))"
  obtain k where k: "k < length misses" "misses ! k = (fi, pos)" using assms by (auto simp: in_set_conv_nth)
  then have mem: "(k, fi, pos) \<in> set (enumerate 0 misses)" by (simp add: in_set_enumerate_eq)
  then have "enumerate 0 misses \<noteq> []" by (metis empty_iff list.set(1))
  then obtain e where e: "min_by_key ?f (enumerate 0 misses) = Some e" by (metis min_by_key_None option.exhaust)
  obtain i a where i: "e = (i, a)" by (cases e)
  have "misses ! i = a" using min_by_key_mem [OF e] by (auto simp: i in_set_enumerate_eq)
  moreover have "?f e \<le> ?f (k, fi, pos)" using min_by_key_least [OF e mem] .
  ultimately show ?thesis using e by (cases a) (simp add: anchor_first_def anchor_pos_def i)
qed

text \<open>The part of the handler after the anchor.\<close>

definition stream_tail ::
  "('d, 'c, 'i) range_job_env \<Rightarrow> (int \<times> int \<Rightarrow> timing) \<Rightarrow> (nat \<Rightarrow> bool) \<Rightarrow> (int \<times> int) list \<Rightarrow> stream_counts \<Rightarrow> ('c, 'i, bool) forge_io" where
  "stream_tail j tm cancel misses n =
     io_bind (run_batches j tm cancel (chunks (max (rj_concurrency j) 1) misses) 0 n) (\<lambda>(stopped, _, n).
       if stopped then io_ret True
       else io_then (write_chunk (totals_event n)) (io_then (write_all (le_bytes 4 0)) (io_ret False)))"

lemma stream_tail_spec:
  assumes "stream_tail j tm cancel misses n s = (Inr stopped, t)"
  shows "\<exists>rs left. misses = map fst rs @ left \<and> (\<not> stopped \<longrightarrow> left = []) \<and> (stopped \<longrightarrow> (\<exists>i. cancel i)) \<and>
    c_out t = c_out s @ sent_reports j rs @ (if stopped then [] else chunk (totals_event (counted rs n)) @ le_bytes 4 0)"
proof -
  obtain p u where p: "run_batches j tm cancel (chunks (max (rj_concurrency j) 1) misses) 0 n s = (Inr p, u)"
    and q: "(case p of (stopped, _, n) \<Rightarrow> if stopped then io_ret True
       else io_then (write_chunk (totals_event n)) (io_then (write_all (le_bytes 4 0)) (io_ret False))) u = (Inr stopped, t)"
    using assms [unfolded stream_tail_def io_bind_Inr] by blast
  obtain st k n' where "p = (st, k, n')" by (cases p)
  with p q have r: "run_batches j tm cancel (chunks (max (rj_concurrency j) 1) misses) 0 n s = (Inr (st, k, n'), u)"
    and rest: "(if st then io_ret True
       else io_then (write_chunk (totals_event n')) (io_then (write_all (le_bytes 4 0)) (io_ret False))) u = (Inr stopped, t)"
    by simp_all
  have "concat (chunks (max (rj_concurrency j) 1) misses) = misses" by (rule concat_chunks) simp
  then have ok: "run_ok j cancel misses 0 n s st k n' u" using run_batches_spec [OF r] by simp
  obtain rs left where rs: "c_out u = c_out s @ sent_reports j rs" "n' = counted rs n" "misses = map fst rs @ left"
    "\<not> st \<longrightarrow> left = []" "st \<longrightarrow> cancel (k - 1)"
    by (rule run_ok_reports [OF ok])
  show ?thesis
  proof (cases st)
    case True
    with rest rs show ?thesis by (intro exI [of _ rs] exI [of _ left]) (auto simp: io_run)
  next
    case False
    then obtain v w where v: "write_chunk (totals_event n') u = (Inr (), v)" "write_all (le_bytes 4 0) v = (Inr (), w)"
      and e: "stopped = False" "t = w"
      using rest by (auto simp: io_then_Inr io_run)
    have "c_out w = c_out v @ le_bytes 4 0" using v(2) by (auto simp: write_all_def split: if_splits)
    then show ?thesis using write_chunk_out [OF v(1)] rs e False
      by (intro exI [of _ rs] exI [of _ left]) simp
  qed
qed

lemma stream_frames_spec:
  assumes "stream_frames j tm cancel window anchor s = (Inr stopped, t)"
  defines "hit \<equiv> filter (\<lambda>(fi, pos). already_cached j pos s) window"
    and "misses \<equiv> filter (\<lambda>(fi, pos). \<not> already_cached j pos s) window"
  shows "\<exists>rs left. anchor_first anchor misses = map fst rs @ left \<and> (\<not> stopped \<longrightarrow> left = []) \<and>
    (stopped \<longrightarrow> (\<exists>i. cancel i)) \<and>
    c_out t = c_out s @ sent_reports j (map (\<lambda>p. (p, True)) hit @ rs) @
      (if stopped then []
       else chunk (totals_event (counted rs \<lparr>sc_hits = length hit, sc_decoded = 0, sc_failed = 0\<rparr>)) @ le_bytes 4 0)"
proof -
  obtain p u where "emit_hits j window 0 [] s = (Inr p, u)"
    using assms(1) [unfolded stream_frames_def io_bind_Inr] by blast
  then obtain h ms where e: "emit_hits j window 0 [] s = (Inr (h, ms), u)" by (cases p) simp
  from emit_hits_spec [OF e] have u: "c_out u = c_out s @ sent_reports j (map (\<lambda>p. (p, True)) hit)"
    and h: "h = length hit" "ms = misses"
    by (simp_all add: hit_def misses_def)
  let ?n = "\<lparr>sc_hits = length hit, sc_decoded = 0, sc_failed = 0\<rparr>"
  show ?thesis
  proof (cases "anchor_pos anchor misses")
    case None
    have "stream_tail j tm cancel misses ?n u = (Inr stopped, t)"
      using assms(1) e None by (simp add: stream_frames_def stream_tail_def io_bind_run io_bind_ret h Let_def)
    from stream_tail_spec [OF this] u None show ?thesis by (auto simp: anchor_first_def)
  next
    case (Some i)
    obtain fi pos where fp: "misses ! i = (fi, pos)" by (cases "misses ! i")
    have "io_bind (io_bind (anchor_frame j fi pos ?n) (\<lambda>n. io_ret (remove_at i misses, n)))
        (\<lambda>(misses, n). stream_tail j tm cancel misses n) u = (Inr stopped, t)"
      using assms(1) e Some fp by (simp add: stream_frames_def stream_tail_def io_bind_run h Let_def)
    then obtain n v where a: "anchor_frame j fi pos ?n u = (Inr n, v)"
      and tail: "stream_tail j tm cancel (remove_at i misses) n v = (Inr stopped, t)"
      by (auto simp: io_bind_Inr io_run)
    from reported_one [OF anchor_frame_reported [OF a]] obtain ok
      where v: "c_out v = c_out u @ report_bytes j ((fi, pos), ok)" "n = counted [((fi, pos), ok)] ?n" by blast
    from stream_tail_spec [OF tail] obtain rs left where rs: "remove_at i misses = map fst rs @ left"
      "\<not> stopped \<longrightarrow> left = []" "stopped \<longrightarrow> (\<exists>i. cancel i)"
      "c_out t = c_out v @ sent_reports j rs @ (if stopped then [] else chunk (totals_event (counted rs n)) @ le_bytes 4 0)"
      by blast
    show ?thesis
      using rs v u Some fp by (intro exI [of _ "((fi, pos), ok) # rs"] exI [of _ left]) (simp add: anchor_first_def)
  qed
qed


section \<open>An example\<close>

text \<open>One frame in the window, already in memory.\<close>

definition demo_stream_conn :: "((ram_key \<times> byte list) list, (string \<times> index_data) list) forge" where
  "demo_stream_conn =
     demo_forge\<lparr>fg_ram := [((''/v.mkv'', 5, 320), [1])],
       c_room := length (chunk (ready_event ''/c'' demo_item 320 1 5)) +
         length (chunk (totals_event \<lparr>sc_hits = 1, sc_decoded = 0, sc_failed = 0\<rparr>)) + 4\<rparr>"

lemma demo_stream_window:
  "\<exists>fps. stream_window demo_ff [None, Some ([(0, True), (5, False)], 25, 1)] demo_rs = Some ([(1, 5)], fps, 5)"
proof -
  have srt: "sorted (map fst [(0 :: int, True), (5, False)])" by simp
  have es: "index_entries [(0 :: int, True), (5, False)] = [(0, 0, True), (1, 5, False)]" by (simp add: index_entries_def)
  have span: "sat_sub_i64 5 1 = 4" "sat_add_i64 5 2 = 7"
    by (simp_all add: sat_sub_i64_def sat_add_i64_def clamp_i64_def i64_min_def i64_max_def)
  obtain a fps where "build_prefetch_window_from_cache ([(0, True), (5, False)], 25, 1) (- 1) 5 1 2 True =
      (map (\<lambda>e. (int (fst e), fst (snd e))) (filter (in_span (sat_sub_i64 a 1) (sat_add_i64 a 2)) [(0, 0, True), (1, 5, False)]), fps, a)"
    and "a = 5"
    using windows_exact [OF srt, of 25 1 0 0 "- 1" 5 1 2 True] unfolding es by auto
  then show ?thesis by (simp add: stream_window_def awaited_def demo_rs_def span in_span_def)
qed

lemma write_chunk_run:
  "length (chunk b) \<le> c_room s \<Longrightarrow>
     write_chunk b s = (Inr (), s\<lparr>c_out := c_out s @ chunk b, c_room := c_room s - length (chunk b)\<rparr>)"
  by (simp add: write_chunk_def io_then_def io_bind_def write_all_def chunk_def)


end
