(* ===== verification/Prefetch_Sessions.thy ===== *)
theory Prefetch_Sessions
  imports Rust_Prelude
begin

text \<open>
  How concurrent range streams take turns: the permit \<^verbatim>\<open>decode_sem\<close>, the flag \<^verbatim>\<open>cancel_flag\<close> and
  \<^verbatim>\<open>current_session_id\<close> of the frame-forge daemon, as \<^verbatim>\<open>handle_prefetch_range_stream\<close> uses them
  (\<^verbatim>\<open>crates/frame-forge/src/server.rs\<close>). Each access to a shared field is a step of its own; what the stream
  decodes does not matter here.
\<close>

section \<open>Steps\<close>

text \<open>
  A stream has compared its session with the current one (\<open>Checked\<close>), has raised the flag if they differ
  (\<open>Queued\<close>), holds the permit (\<open>Granted\<close>), has made its session the current one (\<open>Adopted\<close>), has
  lowered the flag and decodes (\<open>Decoding\<close>), or is gone and has returned the permit (\<open>Gone\<close>).
\<close>

datatype stream_pc = Checked | Queued | Granted | Adopted | Decoding | Gone

record stream_task =
  tk_session :: string
  tk_changed :: bool
  tk_pc :: stream_pc

record session_sys =
  sy_current :: "string option"
  sy_cancel :: bool
  sy_permit :: bool
  sy_tasks :: "stream_task list"

definition sessions_init :: session_sys where
  "sessions_init = \<lparr>sy_current = None, sy_cancel = False, sy_permit = True, sy_tasks = []\<rparr>"

definition set_pc :: "nat \<Rightarrow> stream_pc \<Rightarrow> session_sys \<Rightarrow> session_sys" where
  "set_pc i pc s = s\<lparr>sy_tasks := (sy_tasks s)[i := (sy_tasks s ! i)\<lparr>tk_pc := pc\<rparr>]\<rparr>"

definition at_pc :: "nat \<Rightarrow> stream_pc \<Rightarrow> session_sys \<Rightarrow> bool" where
  "at_pc i pc s \<longleftrightarrow> i < length (sy_tasks s) \<and> tk_pc (sy_tasks s ! i) = pc"

definition arrive :: "string \<Rightarrow> session_sys \<Rightarrow> session_sys" where
  "arrive sid s =
     s\<lparr>sy_tasks := sy_tasks s @ [\<lparr>tk_session = sid, tk_changed = (sy_current s \<noteq> Some sid), tk_pc = Checked\<rparr>]\<rparr>"

definition raise_flag :: "nat \<Rightarrow> session_sys \<Rightarrow> session_sys" where
  "raise_flag i s = set_pc i Queued (if tk_changed (sy_tasks s ! i) then s\<lparr>sy_cancel := True\<rparr> else s)"

definition adopt :: "nat \<Rightarrow> session_sys \<Rightarrow> session_sys" where
  "adopt i s =
     set_pc i Adopted
       (if tk_changed (sy_tasks s ! i) then s\<lparr>sy_current := Some (tk_session (sy_tasks s ! i))\<rparr> else s)"

text \<open>
  \<open>arrivals\<close> tells whether new requests may arrive. A poll of the flag that finds it raised ends the stream, any other
  leaves it as it is; a stream may also end by itself.
\<close>

inductive session_step :: "bool \<Rightarrow> session_sys \<Rightarrow> session_sys \<Rightarrow> bool" for arrivals where
  se_arrive: "arrivals \<Longrightarrow> session_step arrivals s (arrive sid s)"
| se_raise: "at_pc i Checked s \<Longrightarrow> session_step arrivals s (raise_flag i s)"
| se_grant: "at_pc i Queued s \<Longrightarrow> sy_permit s \<Longrightarrow> session_step arrivals s (set_pc i Granted (s\<lparr>sy_permit := False\<rparr>))"
| se_adopt: "at_pc i Granted s \<Longrightarrow> session_step arrivals s (adopt i s)"
| se_lower: "at_pc i Adopted s \<Longrightarrow> session_step arrivals s (set_pc i Decoding (s\<lparr>sy_cancel := False\<rparr>))"
| se_stop: "at_pc i Decoding s \<Longrightarrow> sy_cancel s \<Longrightarrow> session_step arrivals s (set_pc i Gone (s\<lparr>sy_permit := True\<rparr>))"
| se_finish: "at_pc i Decoding s \<Longrightarrow> session_step arrivals s (set_pc i Gone (s\<lparr>sy_permit := True\<rparr>))"

inductive session_steps :: "bool \<Rightarrow> session_sys \<Rightarrow> session_sys \<Rightarrow> bool" for arrivals where
  ses_refl: "session_steps arrivals s s"
| ses_step: "session_steps arrivals s t \<Longrightarrow> session_step arrivals t u \<Longrightarrow> session_steps arrivals s u"

section \<open>One stream at a time\<close>

definition holds_permit :: "stream_pc \<Rightarrow> bool" where
  "holds_permit pc \<longleftrightarrow> pc = Granted \<or> pc = Adopted \<or> pc = Decoding"

definition holder :: "nat \<Rightarrow> session_sys \<Rightarrow> bool" where
  "holder i s \<longleftrightarrow> i < length (sy_tasks s) \<and> holds_permit (tk_pc (sy_tasks s ! i))"

definition sessions_ok :: "session_sys \<Rightarrow> bool" where
  "sessions_ok s \<longleftrightarrow> (\<forall>i k. holder i s \<longrightarrow> holder k s \<longrightarrow> i = k) \<and> (sy_permit s \<longleftrightarrow> (\<forall>i. \<not> holder i s))"

lemma set_pc_sel [simp]:
  "sy_current (set_pc i pc s) = sy_current s" "sy_cancel (set_pc i pc s) = sy_cancel s"
  "sy_permit (set_pc i pc s) = sy_permit s" "length (sy_tasks (set_pc i pc s)) = length (sy_tasks s)"
  by (simp_all add: set_pc_def)

lemma at_set_pc: "at_pc k p (set_pc i pc s) \<longleftrightarrow> (if k = i then i < length (sy_tasks s) \<and> p = pc else at_pc k p s)"
  by (auto simp: at_pc_def set_pc_def nth_list_update)

lemma holder_set_pc: "holder k (set_pc i pc s) \<longleftrightarrow> (if k = i then i < length (sy_tasks s) \<and> holds_permit pc else holder k s)"
  by (auto simp: holder_def set_pc_def nth_list_update)

lemma holder_upd [simp]:
  "holder k (s\<lparr>sy_cancel := b\<rparr>) = holder k s" "holder k (s\<lparr>sy_permit := b\<rparr>) = holder k s"
  "holder k (s\<lparr>sy_current := c\<rparr>) = holder k s"
  by (simp_all add: holder_def)

lemma holder_arrive: "holder k (arrive sid s) = holder k s"
  by (auto simp: holder_def arrive_def nth_append holds_permit_def)

lemma at_pc_holder: "at_pc i pc s \<Longrightarrow> i < length (sy_tasks s) \<and> (holder i s \<longleftrightarrow> holds_permit pc)"
  by (auto simp: at_pc_def holder_def)

lemma session_step_ok:
  assumes "session_step arrivals s t" and ok: "sessions_ok s"
  shows "sessions_ok t"
  using assms(1)
proof cases
  case (se_arrive sid)
  then show ?thesis using ok by (simp add: sessions_ok_def holder_arrive) (simp add: arrive_def)
next
  case (se_raise i)
  then show ?thesis using ok at_pc_holder [OF se_raise(2)]
    by (auto simp: sessions_ok_def raise_flag_def holder_set_pc holds_permit_def split: if_splits)
next
  case (se_grant i)
  then show ?thesis using ok at_pc_holder [OF se_grant(2)]
    by (auto simp: sessions_ok_def holder_set_pc holds_permit_def split: if_splits)
next
  case (se_adopt i)
  then show ?thesis using ok at_pc_holder [OF se_adopt(2)]
    by (auto simp: sessions_ok_def adopt_def holder_set_pc holds_permit_def split: if_splits)
next
  case (se_lower i)
  then show ?thesis using ok at_pc_holder [OF se_lower(2)]
    by (auto simp: sessions_ok_def holder_set_pc holds_permit_def split: if_splits)
next
  case (se_stop i)
  then show ?thesis using ok at_pc_holder [OF se_stop(2)]
    by (auto simp: sessions_ok_def holder_set_pc holds_permit_def split: if_splits)
next
  case (se_finish i)
  then show ?thesis using ok at_pc_holder [OF se_finish(2)]
    by (auto simp: sessions_ok_def holder_set_pc holds_permit_def split: if_splits)
qed

lemma session_steps_ok: "session_steps arrivals s t \<Longrightarrow> sessions_ok s \<Longrightarrow> sessions_ok t"
  by (induction rule: session_steps.induct) (auto intro: session_step_ok)

lemma sessions_init_ok: "sessions_ok sessions_init"
  by (simp add: sessions_ok_def sessions_init_def holder_def)

section \<open>The flag\<close>

lemma raised_step:
  assumes "session_step arrivals s t" and "sessions_ok s" and "at_pc i Decoding s" and "sy_cancel s" and "at_pc i Decoding t"
  shows "sy_cancel t"
  using assms(1)
proof cases
  case (se_lower k)
  have "holder i s" "holder k s"
    using at_pc_holder [OF assms(3)] at_pc_holder [OF se_lower(2)] by (auto simp: holds_permit_def)
  then have "i = k" using assms(2) by (auto simp: sessions_ok_def)
  with se_lower(2) assms(3) show ?thesis by (simp add: at_pc_def)
qed (use assms(4) in \<open>auto simp: arrive_def raise_flag_def adopt_def\<close>)

lemma at_pc_upd [simp]:
  "at_pc k p (s\<lparr>sy_cancel := b\<rparr>) = at_pc k p s" "at_pc k p (s\<lparr>sy_permit := b\<rparr>) = at_pc k p s"
  "at_pc k p (s\<lparr>sy_current := c\<rparr>) = at_pc k p s"
  by (simp_all add: at_pc_def)

lemma at_step:
  "at_pc k p (raise_flag i s) \<longleftrightarrow> (if k = i then i < length (sy_tasks s) \<and> p = Queued else at_pc k p s)"
  "at_pc k p (adopt i s) \<longleftrightarrow> (if k = i then i < length (sy_tasks s) \<and> p = Adopted else at_pc k p s)"
  "at_pc k p (arrive sid s) \<longleftrightarrow> (if k = length (sy_tasks s) then p = Checked else at_pc k p s)"
  by (auto simp: raise_flag_def adopt_def at_set_pc) (auto simp: at_pc_def arrive_def nth_append split: if_splits)

lemma at_pc_unique: "at_pc k p s \<Longrightarrow> at_pc k q s \<Longrightarrow> p = q"
  by (simp add: at_pc_def)

lemma at_pc_less: "at_pc k p s \<Longrightarrow> k < length (sy_tasks s)"
  by (simp add: at_pc_def)

lemma gone_step: "session_step arrivals s t \<Longrightarrow> at_pc i Gone s \<Longrightarrow> at_pc i Gone t"
  by (cases rule: session_step.cases, assumption) (auto simp: at_set_pc at_step dest: at_pc_unique at_pc_less)

text \<open>A stream that decodes either goes on decoding or is gone for good.\<close>

lemma decoding_step:
  assumes "session_step arrivals s t" and "at_pc i Decoding s \<or> at_pc i Gone s"
  shows "at_pc i Decoding t \<or> at_pc i Gone t"
  using assms by cases (auto simp: at_set_pc at_step dest: at_pc_unique at_pc_less)

text \<open>
  C17: Streams take turns and can be superseded. In every reachable state at most one range stream holds the permit.
  When a stream of another session raises the flag while one decodes, the flag stays raised until that one is gone:
  from then on its next poll ends it.
\<close>

theorem superseded_stream_ends:
  assumes "session_steps True sessions_init s" and "at_pc i Decoding s" and "at_pc k Checked s" and "tk_changed (sy_tasks s ! k)"
    and "session_steps True (raise_flag k s) t"
  shows "(\<forall>a b. holder a t \<longrightarrow> holder b t \<longrightarrow> a = b) \<and> (at_pc i Gone t \<or> at_pc i Decoding t \<and> sy_cancel t)"
proof -
  have ok: "sessions_ok s" using session_steps_ok [OF assms(1) sessions_init_ok] .
  have 0: "sessions_ok (raise_flag k s)" using session_step_ok [OF se_raise [OF assms(3)] ok] .
  have "k \<noteq> i" using assms(2,3) by (auto dest: at_pc_unique)
  then have 1: "at_pc i Decoding (raise_flag k s)" "sy_cancel (raise_flag k s)"
    using assms(2,4) by (auto simp: at_step) (simp add: raise_flag_def)
  from assms(5) 0 1 have "sessions_ok t \<and> (at_pc i Gone t \<or> at_pc i Decoding t \<and> sy_cancel t)"
  proof (induction rule: session_steps.induct)
    case (ses_step s t u)
    then have t: "sessions_ok t" "at_pc i Gone t \<or> at_pc i Decoding t \<and> sy_cancel t" by auto
    have "at_pc i Decoding u \<or> at_pc i Gone u" using decoding_step [OF ses_step.hyps(2)] t(2) by blast
    moreover have "sy_cancel u" if "at_pc i Decoding u"
    proof -
      have "at_pc i Decoding t \<and> sy_cancel t"
        using t(2) that gone_step [OF ses_step.hyps(2)] by (auto dest: at_pc_unique)
      then show ?thesis using raised_step [OF ses_step.hyps(2) t(1) _ _ that] by blast
    qed
    ultimately show ?case using session_step_ok [OF ses_step.hyps(2) t(1)] by blast
  qed simp
  then show ?thesis by (simp add: sessions_ok_def)
qed

text \<open>No stream is about to raise the flag.\<close>

definition no_signal :: "session_sys \<Rightarrow> bool" where
  "no_signal s \<longleftrightarrow> (\<forall>k. at_pc k Checked s \<longrightarrow> \<not> tk_changed (sy_tasks s ! k))"

lemma changed_set_pc: "tk_changed (sy_tasks (set_pc i p s) ! k) = tk_changed (sy_tasks s ! k)"
  by (cases "i < length (sy_tasks s)") (auto simp: set_pc_def nth_list_update list_update_beyond)

lemma no_signal_step:
  assumes "session_step False s t" and "no_signal s"
  shows "no_signal t \<and> (sy_cancel t \<longrightarrow> sy_cancel s)"
  using assms
  by cases (auto simp: no_signal_def at_set_pc at_step changed_set_pc raise_flag_def adopt_def split: if_splits)

text \<open>
  A cancellation can be lost. A stream that lowers the flag forgets every signal given before, also those of
  sessions that are still waiting behind it: as long as no further request arrives, it decodes all of its window
  although a newer session is waiting for its permit.
\<close>

theorem lowering_forgets_waiting:
  assumes "session_steps True sessions_init s" and "at_pc i Adopted s" and "no_signal s"
    and "session_steps False (set_pc i Decoding (s\<lparr>sy_cancel := False\<rparr>)) t"
  shows "at_pc i Decoding t \<and> \<not> sy_cancel t \<or> at_pc i Gone t"
proof -
  let ?u = "set_pc i Decoding (s\<lparr>sy_cancel := False\<rparr>)"
  have i: "i < length (sy_tasks s)" using assms(2) by (rule at_pc_less)
  have "no_signal ?u" "at_pc i Decoding ?u" "\<not> sy_cancel ?u"
    using assms(3) i by (auto simp: no_signal_def at_set_pc changed_set_pc split: if_splits)
  with assms(4) have "no_signal t \<and> (at_pc i Decoding t \<and> \<not> sy_cancel t \<or> at_pc i Gone t)"
  proof (induction rule: session_steps.induct)
    case (ses_step s t u)
    then have t: "no_signal t" "at_pc i Decoding t \<and> \<not> sy_cancel t \<or> at_pc i Gone t" by auto
    then show ?case
      using no_signal_step [OF ses_step.hyps(2) t(1)] decoding_step [OF ses_step.hyps(2)] gone_step [OF ses_step.hyps(2)]
      by blast
  qed simp
  then show ?thesis by simp
qed

section \<open>Examples\<close>

lemma step_sel [simp]:
  "length (sy_tasks (raise_flag i s)) = length (sy_tasks s)" "length (sy_tasks (adopt i s)) = length (sy_tasks s)"
  "length (sy_tasks (arrive sid s)) = Suc (length (sy_tasks s))" "sy_tasks sessions_init = []" "sy_permit sessions_init"
  "sy_permit (raise_flag i s) = sy_permit s" "sy_permit (adopt i s) = sy_permit s" "sy_permit (arrive sid s) = sy_permit s"
  "\<not> at_pc k p sessions_init"
  by (simp_all add: raise_flag_def adopt_def arrive_def sessions_init_def at_pc_def)

text \<open>Two sessions wait, the first has just been adopted.\<close>

definition two_waiting :: session_sys where
  "two_waiting = adopt 0 (set_pc 0 Granted ((raise_flag 1 (raise_flag 0 (arrive ''c'' (arrive ''b'' sessions_init))))\<lparr>sy_permit := False\<rparr>))"

lemma two_waiting_reachable: "session_steps True sessions_init two_waiting"
  unfolding two_waiting_def
  by (rule ses_step [OF ses_step [OF ses_step [OF ses_step [OF ses_step [OF ses_step [OF ses_refl se_arrive] se_arrive] se_raise] se_raise] se_grant] se_adopt])
    (simp_all add: at_set_pc at_step)

theorem lowering_forgets_waiting_witness:
  "\<exists>t. session_steps True sessions_init t \<and> at_pc 0 Decoding t \<and> \<not> sy_cancel t \<and> at_pc 1 Queued t \<and>
     tk_changed (sy_tasks t ! 1)"
proof -
  let ?t = "set_pc 0 Decoding (two_waiting\<lparr>sy_cancel := False\<rparr>)"
  have a: "at_pc 0 Adopted two_waiting" "at_pc 1 Queued two_waiting" "tk_changed (sy_tasks two_waiting ! 1)"
    by (simp_all add: two_waiting_def at_pc_def adopt_def set_pc_def raise_flag_def arrive_def sessions_init_def)
  have "no_signal two_waiting"
    by (auto simp: no_signal_def two_waiting_def at_pc_def adopt_def set_pc_def raise_flag_def arrive_def sessions_init_def
        less_Suc_eq)
  from lowering_forgets_waiting [OF two_waiting_reachable a(1) this ses_refl]
  have "\<not> sy_cancel ?t \<or> at_pc 0 Gone ?t" by blast
  moreover have "at_pc 0 Decoding ?t" using at_pc_less [OF a(1)] by (simp add: at_set_pc)
  moreover have "session_steps True sessions_init ?t" by (rule ses_step [OF two_waiting_reachable se_lower [OF a(1)]])
  ultimately show ?thesis using a(2,3) by (auto simp: at_set_pc changed_set_pc intro!: exI [of _ ?t])
qed

text \<open>One session decodes when another arrives.\<close>

definition one_decoding :: session_sys where
  "one_decoding = arrive ''c'' (set_pc 0 Decoding ((adopt 0 (set_pc 0 Granted
     ((raise_flag 0 (arrive ''b'' sessions_init))\<lparr>sy_permit := False\<rparr>)))\<lparr>sy_cancel := False\<rparr>))"

lemma one_decoding_reachable: "session_steps True sessions_init one_decoding"
  unfolding one_decoding_def
  by (rule ses_step [OF ses_step [OF ses_step [OF ses_step [OF ses_step [OF ses_step [OF ses_refl se_arrive] se_raise] se_grant] se_adopt] se_lower] se_arrive])
    (simp_all add: at_set_pc at_step)

theorem superseded_stream_ends_witness:
  "at_pc 0 Decoding (raise_flag 1 one_decoding) \<and> sy_cancel (raise_flag 1 one_decoding)"
proof -
  have a: "at_pc 0 Decoding one_decoding" "at_pc 1 Checked one_decoding" "tk_changed (sy_tasks one_decoding ! 1)"
    by (simp_all add: one_decoding_def at_pc_def adopt_def set_pc_def raise_flag_def arrive_def sessions_init_def)
  from superseded_stream_ends [OF one_decoding_reachable a ses_refl] a(1) show ?thesis
    by (auto simp: at_step dest: at_pc_unique)
qed

end
