(* ===== verification/Float_Ops.thy ===== *)
theory Float_Ops
  imports Float_Model Rust_Text
begin

text \<open>
  More of \<^verbatim>\<open>f64\<close> and \<^verbatim>\<open>f32\<close>: addition, comparisons, \<^verbatim>\<open>min\<close>, \<^verbatim>\<open>max\<close>, \<^verbatim>\<open>clamp\<close>, the single-precision
  operations, \<^verbatim>\<open>from_str\<close> and the decimal text that \<^verbatim>\<open>Display\<close> prints (the shortest one that reads back).
\<close>

section \<open>Arithmetic\<close>

fun fl_neg :: "fl \<Rightarrow> fl" where
  "fl_neg (Fin a) = Fin (- a)"
| "fl_neg PInf = NInf"
| "fl_neg NInf = PInf"
| "fl_neg NaN = NaN"

fun fl_add :: "(rat \<Rightarrow> fl) \<Rightarrow> fl \<Rightarrow> fl \<Rightarrow> fl" where
  "fl_add r (Fin a) (Fin b) = r (a + b)"
| "fl_add r NaN _ = NaN"
| "fl_add r _ NaN = NaN"
| "fl_add r PInf NInf = NaN"
| "fl_add r NInf PInf = NaN"
| "fl_add r PInf _ = PInf"
| "fl_add r _ PInf = PInf"
| "fl_add r NInf _ = NInf"
| "fl_add r _ NInf = NInf"

definition f_add :: "fl \<Rightarrow> fl \<Rightarrow> fl" where "f_add = fl_add round64"
definition f_sub :: "fl \<Rightarrow> fl \<Rightarrow> fl" where "f_sub a b = f_add a (fl_neg b)"

text \<open>Single precision: infinities and NaN as in \<open>f_mul\<close> and \<open>f_div\<close>, finite results rounded to \<^verbatim>\<open>f32\<close>.\<close>

definition g_add :: "fl \<Rightarrow> fl \<Rightarrow> fl" where "g_add = fl_add round32"

definition g_mul :: "fl \<Rightarrow> fl \<Rightarrow> fl" where
  "g_mul a b = (case (a, b) of (Fin x, Fin y) \<Rightarrow> round32 (x * y) | _ \<Rightarrow> f_mul a b)"

definition g_div :: "fl \<Rightarrow> fl \<Rightarrow> fl" where
  "g_div a b = (case (a, b) of (Fin x, Fin y) \<Rightarrow> if y = 0 then fl_sign x else round32 (x / y) | _ \<Rightarrow> f_div a b)"

definition g_of_nat :: "nat \<Rightarrow> fl" where "g_of_nat n = round32 (of_nat n)"

text \<open>\<^verbatim>\<open>f32::from_bits\<close>; \<^verbatim>\<open>as f64\<close> of an \<^verbatim>\<open>f32\<close> is exact.\<close>

definition f32_of_bits :: "nat \<Rightarrow> fl" where
  "f32_of_bits b =
     (let neg = (b div 2 ^ 31) mod 2 = 1; e = (b div 2 ^ 23) mod 2 ^ 8; m = b mod 2 ^ 23;
          v = (if e = 0 then of_nat m * 2 powi (- 149) else of_nat (2 ^ 23 + m) * 2 powi (int e - 150))
      in if e = 255 then (if m \<noteq> 0 then NaN else if neg then NInf else PInf)
         else Fin (if neg then - v else v))"

section \<open>Exact results\<close>

lemma expo_scale: "x \<noteq> 0 \<Longrightarrow> expo (x * 2 powi k) = expo x + k"
proof (rule expo_unique)
  assume "x \<noteq> 0"
  then have b: "2 powi expo x \<le> \<bar>x\<bar>" "\<bar>x\<bar> < 2 powi (expo x + 1)" using expo_bounds by auto
  have a: "\<bar>x * 2 powi k\<bar> = \<bar>x\<bar> * 2 powi k" by (simp add: abs_mult)
  show "2 powi (expo x + k) \<le> \<bar>x * 2 powi k\<bar>"
    unfolding a using b(1) by (simp add: power_int_add)
  have "\<bar>x\<bar> * 2 powi k < 2 powi (expo x + 1) * 2 powi k" using b(2) by (simp add: mult_strict_right_mono)
  also have "\<dots> = 2 powi (expo x + k + 1)" by (simp add: power_int_add)
  finally show "\<bar>x * 2 powi k\<bar> < 2 powi (expo x + k + 1)" unfolding a .
qed

text \<open>An integer of at most \<open>prec\<close> bits times a power of two is represented exactly.\<close>

lemma round_val_dyadic:
  assumes "0 < prec" and "emin \<le> k" and "\<bar>n\<bar> < 2 ^ prec"
  shows "round_val prec emin (of_int n * 2 powi k) = of_int n * 2 powi k"
proof (cases "n = 0")
  case True
  then show ?thesis by simp
next
  case False
  let ?x = "of_int n :: rat"
  have x: "?x \<noteq> 0" using False by simp
  have r: "round_val prec (min emin 0) ?x = ?x" by (rule round_val_int) (use assms in auto)
  have "1 \<le> \<bar>?x\<bar>" using False by (metis of_int_1 of_int_abs of_int_le_iff zero_less_abs_iff zless_imp_add1_zle add_0)
  then have "(2 :: rat) powi 0 < 2 powi (expo ?x + 1)" using expo_bounds [OF x] by simp
  then have e: "0 \<le> expo ?x" using powi_mono [of "expo ?x + 1" 0] by (cases "0 \<le> expo ?x") auto
  have g: "grid prec emin (?x * 2 powi k) = grid prec (min emin 0) ?x * 2 powi k"
    using e assms(2) by (simp add: grid_def expo_scale [OF x] power_int_add flip: power_int_add) (simp add: max_def add.commute add_diff_eq)
  have "?x * 2 powi k / grid prec emin (?x * 2 powi k) = ?x / grid prec (min emin 0) ?x"
    unfolding g by simp
  then have "round_val prec emin (?x * 2 powi k) = of_int (rne (?x / grid prec (min emin 0) ?x)) * grid prec (min emin 0) ?x * 2 powi k"
    using x by (simp add: round_val_def g)
  with r x show ?thesis by (simp add: round_val_def)
qed

lemma round64_dyadic:
  assumes "\<bar>n\<bar> < 2 ^ 53" and "- 1022 \<le> k" and "k \<le> 900"
  shows "round64 (of_int n * 2 powi k) = Fin (of_int n * 2 powi k)"
proof -
  have r: "round_val 53 (- 1022) (of_int n * 2 powi k) = of_int n * 2 powi k"
    by (rule round_val_dyadic) (use assms in simp_all)
  have "\<bar>of_int n * 2 powi k :: rat\<bar> = \<bar>of_int n\<bar> * 2 powi k" by (simp add: abs_mult)
  also have "\<dots> < 2 ^ 53 * 2 powi k"
  proof (rule mult_strict_right_mono)
    show "\<bar>of_int n :: rat\<bar> < 2 ^ 53" using assms(1) by (metis of_int_abs of_int_less_iff of_int_numeral of_int_power)
  qed simp
  also have "\<dots> \<le> 2 ^ 53 * 2 powi 900" using powi_mono [OF assms(3)] by (intro mult_left_mono) simp_all
  also have "2 ^ 53 * 2 powi 900 = (2 :: rat) ^ (53 + 900)"
    unfolding power_add by (simp only: power_int_numeral)
  also have "(2 :: rat) ^ (53 + 900) \<le> 2 ^ 1024"
    by (rule power_increasing) simp_all
  finally show ?thesis using r by (simp add: round64_def round_fl_def Let_def abs_less_iff not_le)
qed

lemma round64_int: "\<bar>n\<bar> < 2 ^ 53 \<Longrightarrow> round64 (of_int n) = Fin (of_int n)"
  using round64_dyadic [of n 0] by simp

lemma f_of_int_exact: "\<bar>n\<bar> < 2 ^ 53 \<Longrightarrow> f_of_int n = Fin (of_int n)"
  by (simp add: f_of_int_def round64_int)

lemma f_add_int: "\<bar>a + b\<bar> < 2 ^ 53 \<Longrightarrow> f_add (Fin (of_int a)) (Fin (of_int b)) = Fin (of_int (a + b))"
  using round64_int [of "a + b"] by (simp add: f_add_def)

fun fl_abs :: "fl \<Rightarrow> fl" where
  "fl_abs (Fin x) = Fin \<bar>x\<bar>"
| "fl_abs NInf = PInf"
| "fl_abs y = y"

fun f_to_i32 :: "fl \<Rightarrow> int" where
  "f_to_i32 (Fin x) = max (- (2 ^ 31)) (min (2 ^ 31 - 1) (trunc x))"
| "f_to_i32 PInf = 2 ^ 31 - 1"
| "f_to_i32 NInf = - (2 ^ 31)"
| "f_to_i32 NaN = 0"

fun f_floor :: "fl \<Rightarrow> fl" where
  "f_floor (Fin x) = Fin (of_int \<lfloor>x\<rfloor>)"
| "f_floor y = y"

fun f_ceil :: "fl \<Rightarrow> fl" where
  "f_ceil (Fin x) = Fin (of_int \<lceil>x\<rceil>)"
| "f_ceil y = y"

section \<open>Comparisons\<close>

fun fl_less :: "fl \<Rightarrow> fl \<Rightarrow> bool" where
  "fl_less (Fin a) (Fin b) \<longleftrightarrow> a < b"
| "fl_less NInf (Fin _) \<longleftrightarrow> True"
| "fl_less NInf PInf \<longleftrightarrow> True"
| "fl_less (Fin _) PInf \<longleftrightarrow> True"
| "fl_less _ _ \<longleftrightarrow> False"

definition fl_le :: "fl \<Rightarrow> fl \<Rightarrow> bool" where
  "fl_le a b \<longleftrightarrow> fl_less a b \<or> a = b \<and> a \<noteq> NaN"

text \<open>\<^verbatim>\<open>max\<close> and \<^verbatim>\<open>min\<close> give the other operand when one is a NaN.\<close>

definition fl_max :: "fl \<Rightarrow> fl \<Rightarrow> fl" where
  "fl_max a b = (if a = NaN then b else if b = NaN then a else if fl_less a b then b else a)"

definition fl_min :: "fl \<Rightarrow> fl \<Rightarrow> fl" where
  "fl_min a b = (if a = NaN then b else if b = NaN then a else if fl_less b a then b else a)"

text \<open>\<^verbatim>\<open>clamp\<close> panics unless the bounds are in order; a NaN stays one.\<close>

definition fl_bound :: "fl \<Rightarrow> fl \<Rightarrow> fl \<Rightarrow> fl" where
  "fl_bound lo hi x = (if fl_less x lo then lo else if fl_less hi x then hi else x)"

definition fl_clamp :: "fl \<Rightarrow> fl \<Rightarrow> fl \<Rightarrow> fl option" where
  "fl_clamp lo hi x = (if \<not> fl_le lo hi then None else Some (fl_bound lo hi x))"

lemma fl_le_fin [simp]: "fl_le (Fin a) (Fin b) \<longleftrightarrow> a \<le> b"
  by (auto simp: fl_le_def)

lemma fl_le_trans: "fl_le a b \<Longrightarrow> fl_le b c \<Longrightarrow> fl_le a c"
  by (cases a; cases b; cases c) (auto simp: fl_le_def)

lemma fl_max_fin [simp]: "fl_max (Fin a) (Fin b) = Fin (max a b)"
  by (simp add: fl_max_def)

lemma fl_min_fin [simp]: "fl_min (Fin a) (Fin b) = Fin (min a b)"
  by (simp add: fl_min_def)

text \<open>A value that has been bounded below and above is a number between the bounds.\<close>

lemma fl_max_lower: "fl_less (fl_max x (Fin a)) (Fin a) = False" "fl_max x (Fin a) \<noteq> NaN" "fl_max x (Fin a) \<noteq> NInf"
  by (cases x; simp add: fl_max_def)+

lemma max_min_bounds:
  "a \<le> b \<Longrightarrow> \<exists>v. fl_min (fl_max x (Fin a)) (Fin b) = Fin v \<and> a \<le> v \<and> v \<le> b"
  by (cases x) (auto simp: fl_max_def fl_min_def)

lemma bound_bounds:
  "a \<le> b \<Longrightarrow> x \<noteq> NaN \<Longrightarrow> \<exists>v. fl_bound (Fin a) (Fin b) x = Fin v \<and> a \<le> v \<and> v \<le> b"
  by (cases x) (auto simp: fl_bound_def)

section \<open>Rounding errors\<close>

lemma round64_near:
  assumes "\<bar>x\<bar> < 2 powi k" and "- 1000 \<le> k" and "k \<le> 1000"
  obtains y where "round64 x = Fin y" and "\<bar>y - x\<bar> \<le> 2 powi (k - 54)"
proof -
  let ?y = "round_val 53 (- 1022) x"
  have near: "\<bar>?y - x\<bar> \<le> 2 powi (k - 54)"
  proof (cases "x = 0")
    case False
    let ?g = "grid 53 (- 1022) x"
    have "(2 :: rat) powi expo x < 2 powi k" using expo_bounds [OF False] assms(1) by linarith
    then have e: "expo x \<le> k - 1" using powi_mono [of k "expo x"] by (cases "k \<le> expo x") auto
    have "max (expo x) (- 1022) - 52 \<le> k - 53" using e assms(2) by simp
    then have g: "?g \<le> 2 powi (k - 53)" unfolding grid_def by (intro powi_mono) simp
    have "?y - x = (of_int (rne (x / ?g)) - x / ?g) * ?g"
      using False grid_pos [of 53 "- 1022" x] by (simp add: round_val_def left_diff_distrib)
    then have "\<bar>?y - x\<bar> = \<bar>of_int (rne (x / ?g)) - x / ?g\<bar> * ?g"
      using grid_pos [of 53 "- 1022" x] by (simp add: abs_mult)
    also have "\<dots> \<le> 1 / 2 * 2 powi (k - 53)"
      by (rule mult_mono) (use rne_bounds g grid_pos [of 53 "- 1022" x] in \<open>simp_all add: less_imp_le\<close>)
    also have "\<dots> = 2 powi (k - 54)" using powi_step [of "k - 54"] by simp
    finally show ?thesis .
  qed simp
  have "\<bar>?y\<bar> < 2 powi k + 2 powi k"
    using near assms(1) powi_mono [of "k - 54" k] by linarith
  also have "\<dots> = 2 powi (k + 1)" by (simp add: powi_step)
  also have "\<dots> \<le> 2 powi 1024" using assms(3) by (intro powi_mono) simp
  also have "(2 :: rat) powi 1024 = 2 ^ 1024" by (rule power_int_numeral)
  finally have "round64 x = Fin ?y" by (simp add: round64_def round_fl_def Let_def abs_less_iff not_le)
  with near that show thesis by blast
qed

lemma round64_within:
  assumes "of_int a \<le> x" and "x \<le> of_int b" and "\<bar>a\<bar> < 2 ^ 53" and "\<bar>b\<bar> < 2 ^ 53"
  obtains y where "round64 x = Fin y" and "of_int a \<le> y" and "y \<le> of_int b"
proof -
  let ?y = "round_val 53 (- 1022) x"
  have "round_val 53 (- 1022) (of_int a) \<le> ?y" "?y \<le> round_val 53 (- 1022) (of_int b)"
    using assms(1,2) by (auto intro!: round_val_mono)
  then have b: "of_int a \<le> ?y" "?y \<le> of_int b" using assms(3,4) by (simp_all add: round_val_int)
  have "(of_int b :: rat) < 2 ^ 53" "- (2 ^ 53) < (of_int a :: rat)"
    using assms(3,4) by (metis abs_less_iff of_int_less_iff of_int_minus of_int_numeral of_int_power minus_less_iff)+
  with b have "\<bar>?y\<bar> < 2 ^ 53" by linarith
  also have "(2 :: rat) ^ 53 \<le> 2 ^ 1024" by (rule power_increasing) simp_all
  finally have "round64 x = Fin ?y" by (simp add: round64_def round_fl_def Let_def abs_less_iff not_le)
  with b that show thesis by blast
qed

section \<open>Decimal text\<close>

text \<open>\<open>10 ^ dec_exp y \<le> y < 10 ^ (dec_exp y + 1)\<close>, for the positive values of \<^verbatim>\<open>f64\<close>.\<close>

definition dec_exp :: "rat \<Rightarrow> int" where
  "dec_exp y =
     (if 1 \<le> y then int (length (show_nat (nat \<lfloor>y\<rfloor>))) - 1
      else (case List.find (\<lambda>k. 1 \<le> y * 10 ^ k) [1..<325] of Some k \<Rightarrow> - int k | None \<Rightarrow> - 325))"

text \<open>The numeral with \<open>p\<close> digits that reads back as \<open>y\<close> and is nearest to it, when there is one.\<close>

definition dec_candidate :: "rat \<Rightarrow> nat \<Rightarrow> (nat \<times> int) option" where
  "dec_candidate y p =
     (let e = dec_exp y - int p + 1; q = nat \<lfloor>y / 10 powi e\<rfloor>;
          ok = (\<lambda>c. round64 (of_nat c * 10 powi e) = Fin y);
          dist = (\<lambda>c. \<bar>of_nat c * 10 powi e - y\<bar>)
      in if ok q \<and> (\<not> ok (q + 1) \<or> dist q \<le> dist (q + 1)) then Some (q, e)
         else if ok (q + 1) then Some (q + 1, e) else None)"

fun first_some :: "('a \<Rightarrow> 'b option) \<Rightarrow> 'a list \<Rightarrow> 'b option" where
  "first_some f [] = None"
| "first_some f (x # xs) = (case f x of Some y \<Rightarrow> Some y | None \<Rightarrow> first_some f xs)"

definition shortest :: "rat \<Rightarrow> nat \<times> int" where
  "shortest y = (case first_some (dec_candidate y) [1..<18] of Some r \<Rightarrow> r | None \<Rightarrow> (0, 0))"

definition plain_decimal :: "nat \<times> int \<Rightarrow> string" where
  "plain_decimal r =
     (case r of (c, e) \<Rightarrow>
        let s = show_nat c; d = nat (- e)
        in if 0 \<le> e then s @ replicate (nat e) (CHR ''0'')
           else if d < length s then take (length s - d) s @ ''.'' @ drop (length s - d) s
           else ''0.'' @ replicate (d - length s) (CHR ''0'') @ s)"

fun show_f64 :: "fl \<Rightarrow> string" where
  "show_f64 (Fin x) =
     (if x = 0 then ''0'' else (if x < 0 then ''-'' else '''') @ plain_decimal (shortest \<bar>x\<bar>))"
| "show_f64 PInf = ''inf''"
| "show_f64 NInf = ''-inf''"
| "show_f64 NaN = ''NaN''"

text \<open>\<^verbatim>\<open>f64::from_str\<close>.\<close>

definition lower_char :: "char \<Rightarrow> char" where
  "lower_char c = (if of_char c \<in> {65..90 :: nat} then char_of (of_char c + 32 :: nat) else c)"

definition split_sign :: "string \<Rightarrow> bool \<times> string" where
  "split_sign s =
     (case s of c # r \<Rightarrow> if c = CHR ''-'' then (True, r) else if c = CHR ''+'' then (False, r) else (False, s)
      | [] \<Rightarrow> (False, s))"

definition parse_exp :: "string \<Rightarrow> int option" where
  "parse_exp s =
     (if s = [] then Some 0
      else if hd s = CHR ''e'' \<or> hd s = CHR ''E'' then
        (case split_sign (tl s) of (neg, r) \<Rightarrow>
           map_option (\<lambda>n. if neg then - int n else int n) (parse_digits r))
      else None)"

definition parse_number :: "string \<Rightarrow> rat option" where
  "parse_number s =
     (let ip = takeWhile is_digit s; r = dropWhile is_digit s;
          (fp, r) = (case r of c # r' \<Rightarrow> if c = CHR ''.'' then (takeWhile is_digit r', dropWhile is_digit r') else ([], r)
                     | [] \<Rightarrow> ([], r))
      in if ip @ fp = [] then None
         else map_option (\<lambda>e. of_nat (digits_val 0 (ip @ fp)) * 10 powi (e - int (length fp))) (parse_exp r))"

definition parse_f64 :: "string \<Rightarrow> fl option" where
  "parse_f64 s =
     (case split_sign s of (neg, r) \<Rightarrow>
        let l = map lower_char r
        in if l = ''inf'' \<or> l = ''infinity'' then Some (if neg then NInf else PInf)
           else if l = ''nan'' then Some NaN
           else map_option (\<lambda>x. round64 (if neg then - x else x)) (parse_number r))"

end
