(* ===== verification/Gray_Image.thy ===== *)
theory Gray_Image
  imports Float_Ops
begin

text \<open>
  Gray pictures (\<^verbatim>\<open>image::GrayImage\<close>, what \<^verbatim>\<open>to_luma8\<close> returns): width, height and the pixels row by row.
\<close>

record gray =
  gr_width :: nat
  gr_height :: nat
  gr_pixels :: "byte list"

definition gray_ok :: "gray \<Rightarrow> bool" where
  "gray_ok g \<longleftrightarrow> length (gr_pixels g) = gr_width g * gr_height g"

definition get_pixel :: "gray \<Rightarrow> nat \<Rightarrow> nat \<Rightarrow> int" where
  "get_pixel g x y = uint (gr_pixels g ! (y * gr_width g + x))"

definition wrap_i16 :: "int \<Rightarrow> int" where
  "wrap_i16 x = (x + 2 ^ 15) mod 2 ^ 16 - 2 ^ 15"

definition wrap_i32 :: "int \<Rightarrow> int" where
  "wrap_i32 x = (x + 2 ^ 31) mod 2 ^ 32 - 2 ^ 31"

text \<open>The offsets of a three by three neighbourhood, row by row, and its sum under a kernel.\<close>

definition offsets :: "(nat \<times> nat) list" where
  "offsets = [(ky, kx). ky \<leftarrow> [0, 1, 2], kx \<leftarrow> [0, 1, 2]]"

definition neighbour :: "gray \<Rightarrow> nat \<Rightarrow> nat \<Rightarrow> nat \<times> nat \<Rightarrow> int" where
  "neighbour g x y k = (case k of (ky, kx) \<Rightarrow> get_pixel g (x + kx - 1) (y + ky - 1))"

text \<open>A pixel of a neighbourhood is a pixel of the picture.\<close>

lemma neighbour_in_range:
  "gray_ok g \<Longrightarrow> 1 \<le> x \<Longrightarrow> x + 1 < gr_width g \<Longrightarrow> 1 \<le> y \<Longrightarrow> y + 1 < gr_height g \<Longrightarrow> (ky, kx) \<in> set offsets \<Longrightarrow>
   (y + ky - 1) * gr_width g + (x + kx - 1) < length (gr_pixels g)"
proof -
  assume g: "gray_ok g" and b: "1 \<le> x" "x + 1 < gr_width g" "1 \<le> y" "y + 1 < gr_height g" and k: "(ky, kx) \<in> set offsets"
  from k have "ky \<le> 2" "kx \<le> 2" by (auto simp: offsets_def)
  with b have "y + ky - 1 + 1 \<le> gr_height g" "x + kx - 1 < gr_width g" by auto
  then have "(y + ky - 1 + 1) * gr_width g \<le> gr_height g * gr_width g" by (intro mult_right_mono) simp_all
  with \<open>x + kx - 1 < gr_width g\<close> g show ?thesis by (simp add: gray_ok_def mult.commute add_mult_distrib2)
qed

lemma get_pixel_range: "0 \<le> get_pixel g x y \<and> get_pixel g x y \<le> 255"
  using uint_lt2p [of "gr_pixels g ! (y * gr_width g + x)"] by (simp add: get_pixel_def)

text \<open>A picture whose rows are all alike.\<close>

definition rows_of :: "nat \<Rightarrow> byte list \<Rightarrow> gray" where
  "rows_of h row = \<lparr>gr_width = length row, gr_height = h, gr_pixels = concat (replicate h row)\<rparr>"

lemma nth_concat_replicate: "y < h \<Longrightarrow> x < length row \<Longrightarrow> concat (replicate h row) ! (y * length row + x) = row ! x"
proof (induction h arbitrary: y)
  case (Suc h)
  then show ?case by (cases y) (simp_all add: nth_append add.assoc)
qed simp

lemma get_pixel_rows: "y < h \<Longrightarrow> x < length row \<Longrightarrow> get_pixel (rows_of h row) x y = uint (row ! x)"
  by (simp add: get_pixel_def rows_of_def nth_concat_replicate)

lemma rows_of_ok: "gray_ok (rows_of h row)"
  by (simp add: gray_ok_def rows_of_def length_concat sum_list_replicate)

end
