(* ===== verification/Phase_Correlation.thy ===== *)
theory Phase_Correlation
  imports Gray_Image
begin

text \<open>
  \<^verbatim>\<open>phase_correlate\<close> of \<^verbatim>\<open>crates/frame-forge/src/stitch_anime.rs\<close>: the displacement between two pictures, as the
  position of the largest value of their normalised cross-power spectrum. The one-dimensional transforms
  (\<^verbatim>\<open>rustfft\<close>), the product with a conjugate and the norm of complex numbers (\<^verbatim>\<open>num_complex\<close>) and the cosine of the
  standard library, whose precision is not specified, are the environment \<open>fourier\<close>. Pictures have at least one pixel.
\<close>

type_synonym cplx = "fl \<times> fl"

record fourier =
  fo_forward :: "cplx list \<Rightarrow> cplx list"
  fo_inverse :: "cplx list \<Rightarrow> cplx list"
  fo_cross :: "cplx \<Rightarrow> cplx \<Rightarrow> cplx"
  fo_norm :: "cplx \<Rightarrow> fl"
  fo_cos :: "fl \<Rightarrow> fl"

text \<open>\<^verbatim>\<open>std::f64::consts::PI\<close>\<close>

definition pi_f64 :: fl where
  "pi_f64 = Fin (884279719003555 / 281474976710656)"

section \<open>The spectrum\<close>

definition hamming :: "fourier \<Rightarrow> nat \<Rightarrow> nat \<Rightarrow> fl" where
  "hamming F n i =
     f_sub (round64 (53836 / 100000))
       (f_mul (round64 (46164 / 100000))
         (fo_cos F (f_div (f_mul (f_mul (Fin 2) pi_f64) (f_of_int (int i))) (f_sub (f_of_int (int n)) (Fin 1)))))"

definition apply_hamming_region :: "fourier \<Rightarrow> gray \<Rightarrow> nat \<Rightarrow> nat \<Rightarrow> fl list" where
  "apply_hamming_region F g w h =
     [f_mul (f_mul (f_div (f_of_int (get_pixel g x y)) (Fin 255)) (hamming F w x)) (hamming F h y). y \<leftarrow> [0..<h], x \<leftarrow> [0..<w]]"

text \<open>A transform of every row, of every column.\<close>

definition on_rows :: "(cplx list \<Rightarrow> cplx list) \<Rightarrow> nat \<Rightarrow> nat \<Rightarrow> cplx list \<Rightarrow> cplx list" where
  "on_rows f w h data = (let rows = map (\<lambda>y. f (take w (drop (y * w) data))) [0..<h] in [rows ! y ! x. y \<leftarrow> [0..<h], x \<leftarrow> [0..<w]])"

definition on_columns :: "(cplx list \<Rightarrow> cplx list) \<Rightarrow> nat \<Rightarrow> nat \<Rightarrow> cplx list \<Rightarrow> cplx list" where
  "on_columns f w h data =
     (let cols = map (\<lambda>x. f (map (\<lambda>y. data ! (y * w + x)) [0..<h])) [0..<w] in [cols ! x ! y. y \<leftarrow> [0..<h], x \<leftarrow> [0..<w]])"

definition fft2d :: "fourier \<Rightarrow> nat \<Rightarrow> nat \<Rightarrow> cplx list \<Rightarrow> cplx list" where
  "fft2d F w h data = on_columns (fo_forward F) w h (on_rows (fo_forward F) w h data)"

definition ifft2d :: "fourier \<Rightarrow> nat \<Rightarrow> nat \<Rightarrow> cplx list \<Rightarrow> cplx list" where
  "ifft2d F w h data =
     (let scale = f_div (Fin 1) (f_of_int (int (w * h)))
      in map (\<lambda>(re, im). (f_mul re scale, f_mul im scale))
           (on_rows (fo_inverse F) w h (on_columns (fo_inverse F) w h data)))"

definition cross_power :: "fourier \<Rightarrow> cplx \<Rightarrow> cplx \<Rightarrow> cplx" where
  "cross_power F a b =
     (let num = fo_cross F a b; mag = fo_norm F num
      in if fl_less (round64 (1 / 10 ^ 10)) mag then (f_div (fst num) mag, f_div (snd num) mag) else (Fin 0, Fin 0))"

text \<open>The real parts of the correlation surface, row by row.\<close>

definition surface :: "fourier \<Rightarrow> nat \<Rightarrow> nat \<Rightarrow> gray \<Rightarrow> gray \<Rightarrow> fl list" where
  "surface F w h ga gb =
     (let spectrum = (\<lambda>g. fft2d F w h (map (\<lambda>v. (v, Fin 0)) (apply_hamming_region F g w h)))
      in map fst (ifft2d F w h (map2 (cross_power F) (spectrum ga) (spectrum gb))))"

section \<open>The peak\<close>

fun peak :: "fl \<Rightarrow> nat \<Rightarrow> nat \<Rightarrow> fl list \<Rightarrow> fl \<times> nat" where
  "peak max_val pos i [] = (max_val, pos)"
| "peak max_val pos i (v # vs) = (if fl_less max_val v then peak v i (i + 1) vs else peak max_val pos (i + 1) vs)"

definition parabola_refine :: "fl \<Rightarrow> fl \<Rightarrow> fl \<Rightarrow> fl" where
  "parabola_refine left center right =
     (let denom = f_mul (Fin 2) (f_sub (f_sub (f_mul (Fin 2) center) left) right)
      in if fl_less (fl_abs denom) (round64 (1 / 10 ^ 10)) then Fin 0 else f_div (f_sub right left) denom)"

text \<open>Positions beyond the middle are negative displacements.\<close>

definition unwrap :: "nat \<Rightarrow> nat \<Rightarrow> fl \<Rightarrow> fl" where
  "unwrap n pos sub =
     (let d = f_add (f_of_int (int pos)) sub
      in if fl_less (f_div (f_of_int (int n)) (Fin 2)) d then f_sub d (f_of_int (int n)) else d)"

definition locate :: "nat \<Rightarrow> nat \<Rightarrow> fl list \<Rightarrow> int \<times> int \<times> fl" where
  "locate w h r =
     (let (max_val, pos) = peak (Fin 0) 0 0 r; px = pos mod w; py = pos div w;
          sub_x = parabola_refine (r ! (py * w + (px + w - 1) mod w)) max_val (r ! (py * w + (px + 1) mod w));
          sub_y = parabola_refine (r ! (((py + h - 1) mod h) * w + px)) max_val (r ! (((py + 1) mod h) * w + px))
      in (f_to_i32 (f_round (unwrap w px sub_x)), f_to_i32 (f_round (unwrap h py sub_y)), max_val))"

definition phase_correlate :: "fourier \<Rightarrow> gray \<Rightarrow> gray \<Rightarrow> int \<times> int \<times> fl" where
  "phase_correlate F ga gb =
     (let w = min (gr_width ga) (gr_width gb); h = min (gr_height ga) (gr_height gb)
      in locate w h (surface F w h ga gb))"

section \<open>Displacements are within the picture\<close>

definition bounded_by_two :: "fl \<Rightarrow> bool" where
  "bounded_by_two v \<longleftrightarrow> (case v of Fin q \<Rightarrow> \<bar>q\<bar> \<le> 2 | _ \<Rightarrow> False)"

lemma bounded_by_two_cases: "bounded_by_two v \<Longrightarrow> (\<And>q. v = Fin q \<Longrightarrow> \<bar>q\<bar> \<le> 2 \<Longrightarrow> P) \<Longrightarrow> P"
  by (cases v) (auto simp: bounded_by_two_def)

text \<open>The threshold of the refinement is far above the rounding errors of values between -2 and 2.\<close>

lemma tiny: obtains t where "round64 (1 / 10 ^ 10) = Fin t" and "1 / 10 ^ 11 < t"
proof -
  have "\<bar>1 / 10 ^ 10 :: rat\<bar> < 2 powi (- 30)" by (simp add: power_int_minus field_simps)
  then obtain t where "round64 (1 / 10 ^ 10) = Fin t" "\<bar>t - 1 / 10 ^ 10\<bar> \<le> 2 powi (- 30 - 54)"
    by (rule round64_near) simp_all
  moreover have "(2 :: rat) powi (- 30 - 54) < 1 / 10 ^ 10 - 1 / 10 ^ 11" by (simp add: power_int_minus field_simps)
  ultimately have "1 / 10 ^ 11 < t" by linarith
  with \<open>round64 (1 / 10 ^ 10) = Fin t\<close> that show thesis by blast
qed

lemma parabola_refine_small:
  assumes "\<bar>c\<bar> \<le> 2" and "\<bar>l\<bar> \<le> 2" and "\<bar>r\<bar> \<le> 2" and "l \<le> c" and "r \<le> c"
  obtains v where "parabola_refine (Fin l) (Fin c) (Fin r) = Fin v" and "- 1 \<le> v" and "v \<le> 1"
proof -
  define e :: rat where "e = 2 powi (- 49)"
  have e: "0 < e" "9 * e < 1 / 10 ^ 11" by (simp_all add: e_def power_int_minus field_simps)
  have near: "\<exists>y. round64 x = Fin y \<and> \<bar>y - x\<bar> \<le> e" if "\<bar>x\<bar> < 32" for x
  proof -
    from that have "\<bar>x\<bar> < 2 powi 5" by simp
    then obtain y where "round64 x = Fin y" "\<bar>y - x\<bar> \<le> 2 powi (5 - 54)" by (rule round64_near) simp_all
    then show ?thesis by (auto simp: e_def)
  qed
  have e1: "e < 1" using e by simp
  have "\<bar>2 * c\<bar> < 32" using assms(1) by linarith
  from near [OF this] obtain a where a: "round64 (2 * c) = Fin a" "\<bar>a - 2 * c\<bar> \<le> e" by blast
  have "\<bar>a + - l\<bar> < 32" using a(2) assms(1,2) e1 by linarith
  from near [OF this] obtain b where b: "round64 (a + - l) = Fin b" "\<bar>b - (a + - l)\<bar> \<le> e" by blast
  have "\<bar>b + - r\<bar> < 32" using a(2) b(2) assms(1,2,3) e1 by linarith
  from near [OF this] obtain d where d: "round64 (b + - r) = Fin d" "\<bar>d - (b + - r)\<bar> \<le> e" by blast
  have "\<bar>2 * d\<bar> < 32" using a(2) b(2) d(2) assms(1,2,3) e1 by linarith
  from near [OF this] obtain D where D: "round64 (2 * d) = Fin D" "\<bar>D - 2 * d\<bar> \<le> e" by blast
  have "\<bar>r + - l\<bar> < 32" using assms(2,3) by linarith
  from near [OF this] obtain m where m: "round64 (r + - l) = Fin m" "\<bar>m - (r + - l)\<bar> \<le> e" by blast
  obtain t where t: "round64 (1 / 10 ^ 10) = Fin t" "1 / 10 ^ 11 < t" by (rule tiny)
  have eq: "parabola_refine (Fin l) (Fin c) (Fin r) = (if \<bar>D\<bar> < t then Fin 0 else f_div (Fin m) (Fin D))"
    using a b d D m t by (simp add: parabola_refine_def f_sub_def f_add_def)
  show thesis
  proof (cases "\<bar>D\<bar> < t")
    case True
    with eq that show thesis by simp
  next
    case False
    define \<delta> where "\<delta> = \<bar>r - l\<bar>"
    then have \<delta>: "0 \<le> \<delta>" "\<delta> \<le> 2 * c - l - r" "\<bar>m\<bar> \<le> \<delta> + e" using assms(4,5) m(2) by linarith+
    have "2 * c - e \<le> a" "a - l - e \<le> b" "b - r - e \<le> d" "2 * d - e \<le> D"
      using a(2) b(2) d(2) D(2) by (simp_all add: abs_le_iff)
    with \<delta>(2) have low: "2 * \<delta> - 7 * e \<le> D" by linarith
    with False t(2) e \<delta>(1) have pos: "0 < D" by linarith
    from \<delta>(1,3) low False pos t(2) e have "\<bar>m\<bar> \<le> D" by linarith
    with pos have q: "of_int (- 1) \<le> m / D" "m / D \<le> of_int 1" by (simp_all add: field_simps abs_le_iff)
    obtain y where "round64 (m / D) = Fin y" "of_int (- 1) \<le> y" "y \<le> of_int 1" by (rule round64_within [OF q]) simp_all
    with eq False pos that show thesis by simp
  qed
qed

lemma peak_greatest:
  assumes "peak m p i vs = (m', p')" and "0 \<le> c" and "m = Fin c" and "\<forall>v \<in> set vs. bounded_by_two v" and "c \<le> 2"
  shows "(\<exists>c'. m' = Fin c' \<and> c \<le> c' \<and> c' \<le> 2 \<and> (\<forall>v \<in> set vs. \<forall>q. v = Fin q \<longrightarrow> q \<le> c')) \<and>
    (p' = p \<or> i \<le> p' \<and> p' < i + length vs)"
  using assms
proof (induction vs arbitrary: m p i c)
  case Nil
  then show ?case by auto
next
  case (Cons v vs)
  from Cons.prems(4) obtain q where v: "v = Fin q" "\<bar>q\<bar> \<le> 2" by (auto elim: bounded_by_two_cases)
  show ?case
  proof (cases "c < q")
    case True
    with Cons.prems v Cons.IH [of v i "i + 1" q] show ?thesis by (fastforce simp: v)
  next
    case False
    with Cons.prems v Cons.IH [of m p "i + 1" c] show ?thesis by (fastforce simp: v)
  qed
qed

lemma unwrap_small:
  assumes "pos < n" and "n < 2 ^ 30" and "- 1 \<le> s" and "s \<le> 1"
  shows "\<bar>f_to_i32 (f_round (unwrap n pos (Fin s)))\<bar> \<le> int n"
proof -
  have n: "f_of_int (int n) = Fin (of_nat n)" "f_of_int (int pos) = Fin (of_nat pos)"
    using f_of_int_exact [of "int n"] f_of_int_exact [of "int pos"] assms(1,2) by simp_all
  have pos: "(of_nat pos :: rat) + 1 \<le> of_nat n" using assms(1) by (metis Suc_leI of_nat_Suc of_nat_le_iff add.commute)
  have "of_int (- 1) \<le> of_nat pos + s" "of_nat pos + s \<le> of_int (int n)" using assms(3,4) pos by simp_all
  then obtain d where d: "round64 (of_nat pos + s) = Fin d" "of_int (- 1) \<le> d" "d \<le> of_int (int n)"
    by (rule round64_within) (use assms(2) in simp_all)
  have "of_int 0 \<le> (of_nat n :: rat) / 2" "(of_nat n :: rat) / 2 \<le> of_int (int n)" by simp_all
  then obtain h where h: "round64 (of_nat n / 2) = Fin h" "of_int 0 \<le> h" "h \<le> of_int (int n)"
    by (rule round64_within) (use assms(2) in simp_all)
  obtain z where z: "unwrap n pos (Fin s) = Fin z" "\<bar>z\<bar> \<le> of_nat n"
  proof (cases "h < d")
    case True
    have "of_int (- int n) \<le> d - of_nat n" "d - of_nat n \<le> of_int 0" using True h(2) d(3) by simp_all
    then obtain z where "round64 (d - of_nat n) = Fin z" "of_int (- int n) \<le> z" "z \<le> of_int 0"
      by (rule round64_within) (use assms(2) in simp_all)
    with True d h that [of z] show thesis by (simp add: unwrap_def n f_add_def f_sub_def abs_le_iff)
  next
    case False
    have "1 \<le> (of_nat n :: rat)" using pos by simp
    with False d h that [of d] show thesis by (simp add: unwrap_def n f_add_def abs_le_iff)
  qed
  have "\<bar>z\<bar> \<le> of_int (int n)" using z(2) by simp
  then have "\<bar>if 0 \<le> z then \<lfloor>z + 1 / 2\<rfloor> else - \<lfloor>- z + 1 / 2\<rfloor>\<bar> \<le> int n"
  proof -
    have "\<bar>\<lfloor>u + 1 / 2\<rfloor>\<bar> \<le> int n" if "0 \<le> u" "u \<le> of_int (int n)" for u :: rat
    proof -
      have "0 \<le> \<lfloor>u + 1 / 2\<rfloor>" "\<lfloor>u + 1 / 2\<rfloor> \<le> int n" using that by (simp_all add: floor_le_iff le_floor_iff)
      then show ?thesis by simp
    qed
    note half = this
    have zn: "z \<le> of_int (int n)" "- z \<le> of_int (int n)" using z(2) by (simp_all add: abs_le_iff)
    show ?thesis
    proof (cases "0 \<le> z")
      case True
      with half [OF True zn(1)] show ?thesis by simp
    next
      case False
      then have "0 \<le> - z" by simp
      from half [OF this zn(2)] False show ?thesis by (simp only: if_False abs_minus)
    qed
  qed
  moreover define k where "k = (if 0 \<le> z then \<lfloor>z + 1 / 2\<rfloor> else - \<lfloor>- z + 1 / 2\<rfloor>)"
  ultimately have k: "\<bar>k\<bar> \<le> int n" by simp
  have "f_round (Fin z) = Fin (of_int k)" by (simp add: k_def)
  moreover have "f_to_i32 (Fin (of_int k)) = k" using k assms(2) by (simp add: trunc_def)
  ultimately show ?thesis using k by (simp add: z)
qed

text \<open>No displacement exceeds the picture, whatever the surface, as long as its values are between -2 and 2.\<close>

lemma locate_small:
  assumes "locate w h r = (dx, dy, q)" and "length r = w * h" and "0 < w" and "0 < h" and "w < 2 ^ 30" and "h < 2 ^ 30"
    and "\<forall>v \<in> set r. bounded_by_two v"
  shows "\<bar>dx\<bar> \<le> int w \<and> \<bar>dy\<bar> \<le> int h"
proof -
  obtain m p where pk: "peak (Fin 0) 0 0 r = (m, p)" by force
  from peak_greatest [OF this _ refl assms(7)] obtain c where m: "m = Fin c" "0 \<le> c" "c \<le> 2"
    and le: "\<forall>v \<in> set r. \<forall>q. v = Fin q \<longrightarrow> q \<le> c" and p: "p < w * h" using assms(2-4) by fastforce
  have px: "p mod w < w" "p div w < h" using assms(3) p by (simp_all add: less_mult_imp_div_less mult.commute)
  have val: "\<exists>v. r ! k = Fin v \<and> \<bar>v\<bar> \<le> 2 \<and> v \<le> c" if "k < w * h" for k
    using that assms(2,7) le by (metis bounded_by_two_cases nth_mem)
  have idx: "y * w + x < w * h" if "x < w" "y < h" for x y
  proof -
    have "y * w + x < Suc y * w" using that by simp
    also have "\<dots> \<le> h * w" using that by (intro mult_right_mono) simp_all
    finally show ?thesis by (simp add: mult.commute)
  qed
  have refine: "\<exists>s. parabola_refine (r ! a) m (r ! b) = Fin s \<and> - 1 \<le> s \<and> s \<le> 1" if "a < w * h" "b < w * h" for a b
  proof -
    from val [OF that(1)] obtain l where l: "r ! a = Fin l" "\<bar>l\<bar> \<le> 2" "l \<le> c" by blast
    from val [OF that(2)] obtain u where u: "r ! b = Fin u" "\<bar>u\<bar> \<le> 2" "u \<le> c" by blast
    have "\<bar>c\<bar> \<le> 2" using m by simp
    from parabola_refine_small [OF this l(2) u(2) l(3) u(3)] show ?thesis unfolding l(1) u(1) m(1) by blast
  qed
  obtain sx where sx: "parabola_refine (r ! (p div w * w + (p mod w + w - 1) mod w)) m (r ! (p div w * w + (p mod w + 1) mod w)) = Fin sx"
    "- 1 \<le> sx" "sx \<le> 1"
    using refine [OF idx idx, of "(p mod w + w - 1) mod w" "p div w" "(p mod w + 1) mod w" "p div w"] px assms(3) by auto
  obtain sy where sy: "parabola_refine (r ! (((p div w + h - 1) mod h) * w + p mod w)) m (r ! (((p div w + 1) mod h) * w + p mod w)) = Fin sy"
    "- 1 \<le> sy" "sy \<le> 1"
    using refine [OF idx idx, of "p mod w" "(p div w + h - 1) mod h" "p mod w" "(p div w + 1) mod h"] px assms(4) by auto
  from assms(1) have "dx = f_to_i32 (f_round (unwrap w (p mod w) (Fin sx)))" "dy = f_to_i32 (f_round (unwrap h (p div w) (Fin sy)))"
    unfolding locate_def pk Let_def prod.case sx(1) sy(1) by simp_all
  with unwrap_small [OF px(1) assms(5) sx(2,3)] unwrap_small [OF px(2) assms(6) sy(2,3)] show ?thesis by simp
qed

lemma grid_length: "length (concat (map (\<lambda>y. map (f y) [0..<w]) [0..<h])) = w * h"
  by (simp add: length_concat o_def sum_list_triv)

lemma spectrum_length [simp]:
  "length (on_rows f w h data) = w * h" "length (on_columns f w h data) = w * h"
  by (simp_all only: on_rows_def on_columns_def Let_def grid_length)

lemma surface_length [simp]: "length (surface F w h ga gb) = w * h"
  by (simp add: surface_def Let_def ifft2d_def fft2d_def)

end
