(* ===== verification/Seam.thy ===== *)
theory Seam
  imports Phase_Correlation
begin

text \<open>
  Seams between overlapping pictures: \<^verbatim>\<open>find_horizontal_seam\<close> and \<^verbatim>\<open>find_vertical_seam\<close> of
  \<^verbatim>\<open>crates/frame-forge/src/stitch_anime.rs\<close>. A dynamic program over \<^verbatim>\<open>f32\<close> sums; the two functions are the same
  program with the axes exchanged.
\<close>

section \<open>Pictures\<close>

text \<open>\<^verbatim>\<open>image::RgbImage\<close>. Reading outside panics, so every reader tests the position first.\<close>

type_synonym pixel = "byte \<times> byte \<times> byte"

record picture =
  pic_w :: nat
  pic_h :: nat
  pic_at :: "nat \<times> nat \<Rightarrow> pixel"

text \<open>
  The distance of two colours. The differences and the sum of their squares are integers below \<open>2 ^ 18\<close>, which \<^verbatim>\<open>f32\<close>
  represents exactly; \<^verbatim>\<open>sqrt\<close> rounds to nearest, and the root of an integer is never half way between two \<^verbatim>\<open>f32\<close>.
\<close>

definition square_diff :: "byte \<Rightarrow> byte \<Rightarrow> nat" where
  "square_diff a b = nat ((uint a - uint b) * (uint a - uint b))"

fun isqrt :: "nat \<Rightarrow> nat" where
  "isqrt n = (if n = 0 then 0 else let r = 2 * isqrt (n div 4) in if (r + 1) * (r + 1) \<le> n then r + 1 else r)"

declare isqrt.simps [simp del]

definition g_sqrt :: "nat \<Rightarrow> fl" where
  "g_sqrt n =
     (if n = 0 then Fin 0
      else (let s = 24 - bitlen (isqrt n); k = n * 4 ^ s; m = isqrt k
            in Fin (of_nat (if m * m + m < k then m + 1 else m) / 2 ^ s)))"

definition colour_dist :: "pixel \<Rightarrow> pixel \<Rightarrow> fl" where
  "colour_dist a b =
     (case (a, b) of ((r, g, b), (r', g', b')) \<Rightarrow> g_sqrt (square_diff r r' + square_diff g g' + square_diff b b'))"

definition inside :: "picture \<Rightarrow> int \<Rightarrow> int \<Rightarrow> bool" where
  "inside p x y \<longleftrightarrow> 0 \<le> x \<and> 0 \<le> y \<and> x < int (pic_w p) \<and> y < int (pic_h p)"

text \<open>The cost of cutting at a position of the overlap, given where the overlap starts in both pictures.\<close>

definition overlap_cost :: "picture \<Rightarrow> int \<Rightarrow> int \<Rightarrow> picture \<Rightarrow> int \<Rightarrow> int \<Rightarrow> nat \<Rightarrow> nat \<Rightarrow> fl" where
  "overlap_cost canvas cx0 cy0 frame fx0 fy0 x y =
     (let cx = cx0 + int x; cy = cy0 + int y; fx = fx0 + int x; fy = fy0 + int y
      in if \<not> inside canvas cx cy \<or> \<not> inside frame fx fy then Fin 0
         else colour_dist (pic_at canvas (nat cx, nat cy)) (pic_at frame (nat fx, nat fy)))"

section \<open>The dynamic program\<close>

text \<open>The least of the values before a position and on either side of it.\<close>

definition best_before :: "fl list \<Rightarrow> nat \<Rightarrow> fl" where
  "best_before prev j =
     (let b = prev ! j; b = (if 0 < j then fl_min b (prev ! (j - 1)) else b)
      in if j + 1 < length prev then fl_min b (prev ! (j + 1)) else b)"

fun seam_dp :: "(nat \<Rightarrow> nat \<Rightarrow> fl) \<Rightarrow> nat \<Rightarrow> nat \<Rightarrow> fl list" where
  "seam_dp cost n 0 = map (cost 0) [0..<n]"
| "seam_dp cost n (Suc k) =
     (let prev = seam_dp cost n k in map (\<lambda>j. g_add (cost (Suc k) j) (best_before prev j)) [0..<n])"

text \<open>\<^verbatim>\<open>min_by\<close>: the first least position.\<close>

definition least_at :: "fl list \<Rightarrow> nat list \<Rightarrow> nat" where
  "least_at col js = foldl (\<lambda>a b. if fl_less (col ! b) (col ! a) then b else a) (hd js) (tl js)"

fun seam_back :: "(nat \<Rightarrow> nat \<Rightarrow> fl) \<Rightarrow> nat \<Rightarrow> nat \<Rightarrow> nat \<Rightarrow> nat list" where
  "seam_back cost n 0 j = [j]"
| "seam_back cost n (Suc k) j =
     seam_back cost n k (least_at (seam_dp cost n k) [j - 1..<Suc (min (j + 1) (n - 1))]) @ [j]"

definition find_seam :: "(nat \<Rightarrow> nat \<Rightarrow> fl) \<Rightarrow> nat \<Rightarrow> nat \<Rightarrow> nat list" where
  "find_seam cost len n = seam_back cost n (len - 1) (least_at (seam_dp cost n (len - 1)) [0..<n])"

definition find_horizontal_seam :: "picture \<Rightarrow> int \<Rightarrow> int \<Rightarrow> picture \<Rightarrow> int \<Rightarrow> int \<Rightarrow> nat \<Rightarrow> nat \<Rightarrow> nat list" where
  "find_horizontal_seam canvas cx0 cy0 frame fx0 fy0 ow oh =
     find_seam (\<lambda>x y. overlap_cost canvas cx0 cy0 frame fx0 fy0 x y) ow oh"

definition find_vertical_seam :: "picture \<Rightarrow> int \<Rightarrow> int \<Rightarrow> picture \<Rightarrow> int \<Rightarrow> int \<Rightarrow> nat \<Rightarrow> nat \<Rightarrow> nat list" where
  "find_vertical_seam canvas cx0 cy0 frame fx0 fy0 ow oh =
     find_seam (\<lambda>y x. overlap_cost canvas cx0 cy0 frame fx0 fy0 x y) oh ow"

section \<open>What a seam is\<close>

text \<open>A path across the overlap moves by at most one position per step; its cost is summed in the order of the program.\<close>

definition seam_path :: "nat \<Rightarrow> nat \<Rightarrow> nat list \<Rightarrow> bool" where
  "seam_path len n p \<longleftrightarrow>
     length p = len \<and> (\<forall>j \<in> set p. j < n) \<and> (\<forall>k. Suc k < len \<longrightarrow> p ! k \<le> p ! Suc k + 1 \<and> p ! Suc k \<le> p ! k + 1)"

fun path_cost :: "(nat \<Rightarrow> nat \<Rightarrow> fl) \<Rightarrow> nat list \<Rightarrow> nat \<Rightarrow> fl" where
  "path_cost cost p 0 = cost 0 (p ! 0)"
| "path_cost cost p (Suc k) = g_add (cost (Suc k) (p ! Suc k)) (path_cost cost p k)"

section \<open>Sums of costs\<close>

definition nonneg :: "fl \<Rightarrow> bool" where
  "nonneg v \<longleftrightarrow> (case v of Fin q \<Rightarrow> 0 \<le> q | PInf \<Rightarrow> True | _ \<Rightarrow> False)"

lemma nonneg_simps [simp]: "nonneg (Fin q) \<longleftrightarrow> 0 \<le> q" "nonneg PInf" "\<not> nonneg NInf" "\<not> nonneg NaN"
  by (simp_all add: nonneg_def)

lemma nonneg_cases: "nonneg v \<Longrightarrow> (\<And>q. v = Fin q \<Longrightarrow> 0 \<le> q \<Longrightarrow> P) \<Longrightarrow> (v = PInf \<Longrightarrow> P) \<Longrightarrow> P"
  by (cases v) (auto simp: nonneg_def)

lemma fl_le_nonneg:
  assumes "nonneg a" and "nonneg b"
  shows "fl_le a a" and "fl_le a b \<or> fl_le b a" and "fl_le a b \<Longrightarrow> fl_le b a \<Longrightarrow> a = b"
    and "fl_less a b \<longleftrightarrow> \<not> fl_le b a"
  using assms by (auto elim!: nonneg_cases simp: fl_le_def)

lemma fl_le_refl: "nonneg a \<Longrightarrow> fl_le a a"
  by (rule fl_le_nonneg(1))

lemma fl_min_nonneg:
  assumes "nonneg a" and "nonneg b"
  shows "nonneg (fl_min a b)" and "fl_le (fl_min a b) a" and "fl_le (fl_min a b) b" and "fl_min a b = a \<or> fl_min a b = b"
  using assms by (auto elim!: nonneg_cases simp: fl_min_def fl_le_def)

lemma round32_nonneg: "0 \<le> x \<Longrightarrow> nonneg (round32 x)"
proof -
  assume "0 \<le> x"
  then have "0 \<le> round_val 24 (- 126) x" by (rule round_val_nonneg)
  then have "\<not> round_val 24 (- 126) x \<le> - (2 ^ 128)" by (simp add: not_le)
  with \<open>0 \<le> round_val 24 (- 126) x\<close> show ?thesis by (simp add: round32_def round_fl_def Let_def)
qed

lemma round32_mono:
  assumes "0 \<le> x" and "x \<le> y"
  shows "fl_le (round32 x) (round32 y)"
proof -
  have "0 \<le> round_val 24 (- 126) x" using assms(1) by (rule round_val_nonneg)
  moreover have "round_val 24 (- 126) x \<le> round_val 24 (- 126) y" using assms(2) by (intro round_val_mono) simp_all
  ultimately show ?thesis
    by (auto simp: round32_def round_fl_def Let_def fl_le_def)
qed

lemma g_add_nonneg: "nonneg a \<Longrightarrow> nonneg b \<Longrightarrow> nonneg (g_add a b)"
  by (elim nonneg_cases) (auto simp: g_add_def intro: round32_nonneg)

lemma g_add_mono:
  assumes "nonneg c" and "nonneg a" and "nonneg b" and "fl_le a b"
  shows "fl_le (g_add c a) (g_add c b)"
proof (cases "g_add c b = PInf")
  case True
  have "nonneg (g_add c a)" by (rule g_add_nonneg [OF assms(1,2)])
  with True show ?thesis by (auto elim!: nonneg_cases simp: fl_le_def)
next
  case False
  then obtain x y z where "c = Fin x" "a = Fin y" "b = Fin z" "0 \<le> x" "0 \<le> y" "0 \<le> z"
    using assms by (auto elim!: nonneg_cases simp: g_add_def fl_le_def)
  with assms(4) show ?thesis by (auto simp: g_add_def intro: round32_mono)
qed

text \<open>The first least position is one of the positions and its value is least.\<close>

lemma least_at_fold:
  assumes "nonneg (col ! a)" and "\<forall>j \<in> set js. nonneg (col ! j)"
  shows "foldl (\<lambda>a b. if fl_less (col ! b) (col ! a) then b else a) a js \<in> set (a # js) \<and>
    (\<forall>j \<in> set (a # js). fl_le (col ! (foldl (\<lambda>a b. if fl_less (col ! b) (col ! a) then b else a) a js)) (col ! j))"
  using assms
proof (induction js arbitrary: a)
  case Nil
  then show ?case by (simp add: fl_le_nonneg)
next
  case (Cons b js)
  let ?c = "if fl_less (col ! b) (col ! a) then b else a"
  have n: "nonneg (col ! a)" "nonneg (col ! b)" "nonneg (col ! ?c)" using Cons.prems by auto
  have le: "fl_le (col ! ?c) (col ! a)" "fl_le (col ! ?c) (col ! b)"
    using fl_le_nonneg [OF n(1,2)] fl_le_nonneg [OF n(2,1)] by auto
  from Cons.IH [of ?c] n(3) Cons.prems(2) le show ?case by (auto intro: fl_le_trans)
qed

lemma least_at:
  assumes "js \<noteq> []" and "\<forall>j \<in> set js. nonneg (col ! j)"
  shows "least_at col js \<in> set js" and "j \<in> set js \<Longrightarrow> fl_le (col ! least_at col js) (col ! j)"
  using assms least_at_fold [of col "hd js" "tl js"] by (cases js; force simp: least_at_def)+

text \<open>The value before a position is the least of its neighbours.\<close>

definition neighbours :: "nat \<Rightarrow> nat \<Rightarrow> nat list" where
  "neighbours n j = [j - 1..<Suc (min (j + 1) (n - 1))]"

lemma neighbours:
  assumes "j < n"
  shows "i \<in> set (neighbours n j) \<longleftrightarrow> i < n \<and> i \<le> j + 1 \<and> j \<le> i + 1" and "neighbours n j \<noteq> []"
  using assms by (auto simp: neighbours_def)

lemma best_before:
  assumes "length col = n" and "j < n" and "\<forall>i < n. nonneg (col ! i)"
  shows "nonneg (best_before col j)" and "i \<in> set (neighbours n j) \<Longrightarrow> fl_le (best_before col j) (col ! i)"
    and "\<exists>i \<in> set (neighbours n j). best_before col j = col ! i"
proof -
  let ?b = "if 0 < j then fl_min (col ! j) (col ! (j - 1)) else col ! j"
  have b: "nonneg ?b" "fl_le ?b (col ! j)" "0 < j \<Longrightarrow> fl_le ?b (col ! (j - 1))"
    "?b = col ! j \<or> 0 < j \<and> ?b = col ! (j - 1)"
    using assms(2,3) fl_min_nonneg [of "col ! j" "col ! (j - 1)"] fl_le_nonneg(1) [of "col ! j"] by auto
  have eq: "best_before col j = (if j + 1 < n then fl_min ?b (col ! (j + 1)) else ?b)"
    by (simp add: best_before_def assms(1))
  have c: "nonneg (best_before col j)" "fl_le (best_before col j) ?b" "j + 1 < n \<Longrightarrow> fl_le (best_before col j) (col ! (j + 1))"
    "best_before col j = ?b \<or> j + 1 < n \<and> best_before col j = col ! (j + 1)"
    using b(1) assms(3) fl_min_nonneg [of ?b "col ! (j + 1)"] fl_le_nonneg(1) [OF b(1)] unfolding eq by auto
  show "nonneg (best_before col j)" by (rule c(1))
  show "fl_le (best_before col j) (col ! i)" if "i \<in> set (neighbours n j)"
  proof -
    from that assms(2) have "i = j \<or> i = j - 1 \<and> 0 < j \<or> i = j + 1 \<and> j + 1 < n" by (auto simp: neighbours)
    with b c fl_le_trans show ?thesis by metis
  qed
  show "\<exists>i \<in> set (neighbours n j). best_before col j = col ! i"
  proof -
    from b(4) c(4) consider "best_before col j = col ! j" | "0 < j" "best_before col j = col ! (j - 1)"
      | "j + 1 < n" "best_before col j = col ! (j + 1)" by metis
    then show ?thesis
    proof cases
      case 1
      with assms(2) show ?thesis by (intro bexI [of _ j]) (simp_all add: neighbours)
    next
      case 2
      with assms(2) show ?thesis by (intro bexI [of _ "j - 1"]) (auto simp: neighbours)
    next
      case 3
      with assms(2) show ?thesis by (intro bexI [of _ "j + 1"]) (simp_all add: neighbours)
    qed
  qed
qed

lemma seam_dp_nonneg:
  assumes "\<forall>k j. nonneg (cost k j)"
  shows "length (seam_dp cost n k) = n \<and> (\<forall>j < n. nonneg (seam_dp cost n k ! j))"
proof (induction k)
  case 0
  then show ?case using assms by simp
next
  case (Suc k)
  then show ?case using assms best_before(1) [of "seam_dp cost n k" n] by (simp add: Let_def g_add_nonneg)
qed

lemma seam_back_step: "seam_back cost n (Suc k) j = seam_back cost n k (least_at (seam_dp cost n k) (neighbours n j)) @ [j]"
  by (simp add: neighbours_def)

declare seam_back.simps(2) [simp del]

lemma seam_back_length [simp]: "length (seam_back cost n k j) = Suc k"
  by (induction k arbitrary: j) (simp_all add: seam_back_step)

lemma seam_back_last [simp]: "seam_back cost n k j ! k = j"
  using seam_back_length [of cost n "k - 1"] by (cases k) (simp_all add: seam_back_step nth_append)

text \<open>The value of the program at a position bounds every path that ends there from below.\<close>

lemma seam_dp_lower:
  assumes "\<forall>k j. nonneg (cost k j)" and "seam_path len n p" and "k < len"
  shows "nonneg (path_cost cost p k) \<and> fl_le (seam_dp cost n k ! (p ! k)) (path_cost cost p k)"
  using assms(3)
proof (induction k)
  case 0
  have "p ! 0 < n" using assms(2) 0 by (auto simp: seam_path_def)
  with assms(1) show ?case by (simp add: fl_le_refl)
next
  case (Suc k)
  note d = seam_dp_nonneg [OF assms(1), of n k]
  have p: "p ! Suc k < n" "p ! k < n" "p ! k \<in> set (neighbours n (p ! Suc k))"
    using assms(2) Suc.prems by (auto simp: seam_path_def neighbours)
  have "fl_le (best_before (seam_dp cost n k) (p ! Suc k)) (path_cost cost p k)"
    using best_before(2) [of "seam_dp cost n k" n "p ! Suc k" "p ! k"] d p Suc fl_le_trans by auto
  with assms(1) Suc p d show ?case
    using best_before(1) [of "seam_dp cost n k" n "p ! Suc k"] by (simp add: Let_def g_add_nonneg g_add_mono)
qed

text \<open>Going back from a position gives a path that attains the value.\<close>

lemma seam_back_path:
  assumes "\<forall>k j. nonneg (cost k j)" and "j < n"
  shows "seam_path (Suc k) n (seam_back cost n k j)"
    and "path_cost cost (seam_back cost n k j) k = seam_dp cost n k ! j"
proof -
  have cong: "path_cost cost (q @ [x]) k = path_cost cost q k" if "k < length q" for q x k
    using that by (induction k) (simp_all add: nth_append)
  have "seam_path (Suc k) n (seam_back cost n k j) \<and> path_cost cost (seam_back cost n k j) k = seam_dp cost n k ! j"
    using assms(2)
  proof (induction k arbitrary: j)
    case 0
    then show ?case by (simp add: seam_path_def)
  next
    case (Suc k)
    let ?col = "seam_dp cost n k"
    let ?i = "least_at ?col (neighbours n j)"
    note d = seam_dp_nonneg [OF assms(1), of n k]
    have nn: "\<forall>i \<in> set (neighbours n j). nonneg (?col ! i)" using d Suc.prems by (simp add: neighbours)
    note i = least_at [OF neighbours(2) [OF Suc.prems] nn]
    have i': "?i < n" "?i \<le> j + 1" "j \<le> ?i + 1" using i(1) Suc.prems by (simp_all add: neighbours)
    have IH: "seam_path (Suc k) n (seam_back cost n k ?i)" "path_cost cost (seam_back cost n k ?i) k = ?col ! ?i"
      using Suc.IH [OF i'(1)] by auto
    obtain b where b: "b \<in> set (neighbours n j)" "best_before ?col j = ?col ! b"
      using best_before(3) [of ?col n j] d Suc.prems by auto
    have "best_before ?col j = ?col ! ?i"
    proof (rule fl_le_nonneg(3))
      show "nonneg (best_before ?col j)" using best_before(1) [of ?col n j] d Suc.prems by simp
      show "nonneg (?col ! ?i)" using d i'(1) by simp
      show "fl_le (best_before ?col j) (?col ! ?i)" using best_before(2) [of ?col n j] d Suc.prems i(1) by simp
      show "fl_le (?col ! ?i) (best_before ?col j)" unfolding b(2) by (rule i(2) [OF b(1)])
    qed
    moreover have "seam_path (Suc (Suc k)) n (seam_back cost n k ?i @ [j])"
      using IH(1) i' Suc.prems by (auto simp: seam_path_def nth_append less_Suc_eq)
    ultimately show ?case
      using Suc.prems IH(2) by (simp add: seam_back_step cong Let_def nth_append)
  qed
  then show "seam_path (Suc k) n (seam_back cost n k j)"
    and "path_cost cost (seam_back cost n k j) k = seam_dp cost n k ! j" by auto
qed

lemma find_seam_least:
  assumes "\<forall>k j. nonneg (cost k j)" and "0 < len" and "0 < n"
  shows "seam_path len n (find_seam cost len n)"
    and "seam_path len n p \<Longrightarrow> fl_le (path_cost cost (find_seam cost len n) (len - 1)) (path_cost cost p (len - 1))"
proof -
  let ?col = "seam_dp cost n (len - 1)"
  note d = seam_dp_nonneg [OF assms(1), of n "len - 1"]
  have js: "[0..<n] \<noteq> []" "\<forall>j \<in> set [0..<n]. nonneg (?col ! j)" using assms(3) d by simp_all
  note l = least_at [OF js]
  have j: "least_at ?col [0..<n] < n" using l(1) by simp
  note b = seam_back_path [OF assms(1) j, of "len - 1"]
  show "seam_path len n (find_seam cost len n)" using b(1) assms(2) by (simp add: find_seam_def)
  assume p: "seam_path len n p"
  then have "p ! (len - 1) < n" using assms(2) by (auto simp: seam_path_def)
  with l(2) seam_dp_lower [OF assms(1) p, of "len - 1"] assms(2) fl_le_trans
  show "fl_le (path_cost cost (find_seam cost len n) (len - 1)) (path_cost cost p (len - 1))"
    unfolding find_seam_def b(2) by auto
qed

lemma overlap_cost_nonneg: "nonneg (overlap_cost canvas cx0 cy0 frame fx0 fy0 x y)"
  by (simp add: overlap_cost_def Let_def colour_dist_def g_sqrt_def split: prod.split)

text \<open>
  C24: The seam through an overlap, horizontal or vertical, for any two pictures and any overlap (also one that reaches
  outside them): a connected path across the whole overlap that stays inside it, and no connected path has a smaller cost,
  costs being the rounded single-precision sums that the program forms.
\<close>

theorem seam_optimal:
  assumes "0 < ow" and "0 < oh"
  shows "let c = overlap_cost canvas cx0 cy0 frame fx0 fy0;
             s = find_horizontal_seam canvas cx0 cy0 frame fx0 fy0 ow oh;
             t = find_vertical_seam canvas cx0 cy0 frame fx0 fy0 ow oh
         in seam_path ow oh s \<and> (\<forall>p. seam_path ow oh p \<longrightarrow> fl_le (path_cost c s (ow - 1)) (path_cost c p (ow - 1))) \<and>
            seam_path oh ow t \<and>
            (\<forall>p. seam_path oh ow p \<longrightarrow>
               fl_le (path_cost (\<lambda>y x. c x y) t (oh - 1)) (path_cost (\<lambda>y x. c x y) p (oh - 1)))"
proof -
  let ?c = "overlap_cost canvas cx0 cy0 frame fx0 fy0"
  have c: "\<forall>x y. nonneg (?c x y)" "\<forall>y x. nonneg (?c x y)" by (simp_all add: overlap_cost_nonneg)
  show ?thesis
    using find_seam_least [OF c(1) assms] find_seam_least [of "\<lambda>y x. ?c x y" oh ow, OF c(2) assms(2,1)]
    by (simp add: Let_def find_horizontal_seam_def find_vertical_seam_def)
qed

text \<open>Two rows: the first differs in its left half, the second in its right half. The seam changes the row in the middle.\<close>

definition demo_left :: picture where
  "demo_left = \<lparr>pic_w = 4, pic_h = 2, pic_at = (\<lambda>_. (0, 0, 0))\<rparr>"

definition demo_right :: picture where
  "demo_right = \<lparr>pic_w = 4, pic_h = 2, pic_at = (\<lambda>(x, y). if x < 2 \<longleftrightarrow> y = 0 then (9, 0, 0) else (0, 0, 0))\<rparr>"

lemma demo_sqrt: "g_sqrt 81 = Fin 9"
  by (simp add: g_sqrt_def isqrt.simps bitlen.simps)

lemma demo_cost:
  "overlap_cost demo_left 0 0 demo_right 0 0 = (\<lambda>x y. if x < 4 \<and> y < 2 \<and> (x < 2 \<longleftrightarrow> y = 0) then Fin 9 else Fin 0)"
proof (intro ext)
  fix x y
  have "square_diff 0 9 = 81" "square_diff 0 0 = 0" by (simp_all add: square_diff_def)
  then show "overlap_cost demo_left 0 0 demo_right 0 0 x y = (if x < 4 \<and> y < 2 \<and> (x < 2 \<longleftrightarrow> y = 0) then Fin 9 else Fin 0)"
    by (cases "y = 0") (auto simp: overlap_cost_def inside_def colour_dist_def demo_left_def demo_right_def demo_sqrt g_sqrt_def [of 0] Let_def)
qed

lemma round32_int: "\<bar>n\<bar> < 2 ^ 24 \<Longrightarrow> round32 (of_int n) = Fin (of_int n)"
proof -
  assume n: "\<bar>n\<bar> < 2 ^ 24"
  then have "(of_int n :: rat) < 2 ^ 24" "- (2 ^ 24) < (of_int n :: rat)"
    by (metis abs_less_iff of_int_less_iff of_int_minus of_int_numeral of_int_power minus_less_iff)+
  with n show ?thesis by (simp add: round32_def round_fl_def Let_def round_val_int not_le)
qed

lemma demo_sums: "round32 0 = Fin 0" "round32 9 = Fin 9" "round32 18 = Fin 18" "round32 27 = Fin 27"
  using round32_int [of 0] round32_int [of 9] round32_int [of 18] round32_int [of 27] by simp_all

theorem seam_optimal_witness:
  "let s = find_horizontal_seam demo_left 0 0 demo_right 0 0 4 2
   in s = [1, 1, 0, 0] \<and> seam_path 4 2 s \<and>
      fl_le (path_cost (overlap_cost demo_left 0 0 demo_right 0 0) s 3)
        (path_cost (overlap_cost demo_left 0 0 demo_right 0 0) [0, 0, 0, 0] 3)"
proof -
  have "find_horizontal_seam demo_left 0 0 demo_right 0 0 4 2 = [1, 1, 0, 0]"
    by (simp add: find_horizontal_seam_def demo_cost find_seam_def seam_back.simps seam_dp.simps
        best_before_def least_at_def g_add_def demo_sums upt_rec numeral_eq_Suc Let_def)
  moreover have "seam_path 4 2 [0, 0, 0, 0]" by (auto simp: seam_path_def nth_Cons')
  ultimately show ?thesis
    using seam_optimal [of 4 2 demo_left 0 0 demo_right 0 0] by (simp add: Let_def)
qed

end
