(* ===== verification/Scene_Dedup.thy ===== *)
theory Scene_Dedup
  imports Seam "HOL-Library.Sublist"
begin

unbundle bit_operations_syntax

text \<open>
  Near-duplicate removal before stitching: \<^verbatim>\<open>phash\<close> (\<^verbatim>\<open>crates/frame-forge/src/scene_classifier.rs\<close>),
  \<^verbatim>\<open>downscale_for_ranking\<close>, \<^verbatim>\<open>best_bridge_frame\<close> and the loop of \<^verbatim>\<open>handle_stitch\<close>
  (\<^verbatim>\<open>crates/frame-forge/src/server.rs\<close>). The \<^verbatim>\<open>image\<close> crate's conversions and resampling are the
  environment \<open>vision\<close>.
\<close>

section \<open>The perceptual hash\<close>

text \<open>
  \<open>vi_thumb\<close> is \<^verbatim>\<open>resize_exact(8, 8, Lanczos3).to_luma8()\<close>, \<open>vi_resize\<close> is \<^verbatim>\<open>resize(w, h, Triangle)\<close>,
  \<open>vi_luma\<close> is \<^verbatim>\<open>to_luma8\<close>, \<open>vi_rgb\<close> is \<^verbatim>\<open>to_rgb8\<close> and \<open>vi_of_rgb\<close> is \<^verbatim>\<open>ImageRgb8\<close>.
\<close>

record 'img vision =
  vi_luma :: "'img \<Rightarrow> gray"
  vi_thumb :: "'img \<Rightarrow> byte list"
  vi_width :: "'img \<Rightarrow> nat"
  vi_height :: "'img \<Rightarrow> nat"
  vi_resize :: "nat \<Rightarrow> nat \<Rightarrow> 'img \<Rightarrow> 'img"
  vi_rgb :: "'img \<Rightarrow> picture"
  vi_of_rgb :: "picture \<Rightarrow> 'img"
  vi_fourier :: fourier

definition vi_correlate :: "'img vision \<Rightarrow> 'img \<Rightarrow> 'img \<Rightarrow> int \<times> int \<times> fl" where
  "vi_correlate v a b = phase_correlate (vi_fourier v) (vi_luma v a) (vi_luma v b)"

text \<open>The quality of the match.\<close>

definition vi_match :: "'img vision \<Rightarrow> 'img \<Rightarrow> 'img \<Rightarrow> fl" where
  "vi_match v a b = snd (snd (vi_correlate v a b))"

definition hash_bits :: "byte list \<Rightarrow> 64 word" where
  "hash_bits thumb =
     (let pixels = map (\<lambda>p. f_of_int (uint p)) thumb;
          avg = f_div (foldl f_add (Fin 0) pixels) (Fin 64)
      in foldl (\<lambda>hash (i, p). if fl_less avg p then hash OR push_bit i 1 else hash) 0 (enumerate 0 pixels))"

definition phash :: "'img vision \<Rightarrow> 'img \<Rightarrow> 64 word" where
  "phash v img = hash_bits (vi_thumb v img)"

definition count_ones :: "64 word \<Rightarrow> nat" where
  "count_ones w = length (filter (bit w) [0..<64])"

section \<open>The bridge frame of a run\<close>

definition downscale_for_ranking :: "'img vision \<Rightarrow> 'img \<Rightarrow> 'img" where
  "downscale_for_ranking v img =
     (let longest = max (vi_width v img) (vi_height v img)
      in if longest \<le> 480 then img
         else (let scale = f_div (Fin 480) (f_of_int (int longest));
                   nw = max 1 (f_to_u32 (f_round (f_mul (f_of_int (int (vi_width v img))) scale)));
                   nh = max 1 (f_to_u32 (f_round (f_mul (f_of_int (int (vi_height v img))) scale)))
               in vi_resize v nw nh img))"

definition bridge_quality :: "'img vision \<Rightarrow> 'img \<Rightarrow> 'img \<Rightarrow> fl" where
  "bridge_quality v anchor_small img = vi_match v (downscale_for_ranking v img) anchor_small"

fun best_index :: "('a \<Rightarrow> fl) \<Rightarrow> nat \<Rightarrow> nat \<Rightarrow> fl \<Rightarrow> 'a list \<Rightarrow> nat" where
  "best_index q i best best_q [] = best"
| "best_index q i best best_q (x # xs) =
     (if fl_less best_q (q x) then best_index q (i + 1) i (q x) xs else best_index q (i + 1) best best_q xs)"

definition best_bridge_frame :: "'img vision \<Rightarrow> ('img \<times> int) list \<Rightarrow> 'img \<Rightarrow> ('img \<times> int) option" where
  "best_bridge_frame v run next_anchor =
     (if run = [] then None
      else let small = downscale_for_ranking v next_anchor
           in Some (run ! best_index (\<lambda>(img, _). bridge_quality v small img) 0 0 (Fin (- 1)) run))"

section \<open>The loop\<close>

definition is_dup :: "64 word option \<Rightarrow> 64 word \<Rightarrow> bool" where
  "is_dup anchor h = (case anchor of None \<Rightarrow> False | Some a \<Rightarrow> count_ones (a XOR h) \<le> 6)"

fun dedup_loop ::
  "'img vision \<Rightarrow> 64 word option \<Rightarrow> ('img \<times> int) list \<Rightarrow> ('img \<times> int) list \<Rightarrow> ('img \<times> int) list" where
  "dedup_loop v anchor pending [] = (if pending = [] then [] else [last pending])"
| "dedup_loop v anchor pending ((img, fidx) # rest) =
     (let h = phash v img
      in if is_dup anchor h then dedup_loop v anchor (pending @ [(img, fidx)]) rest
         else (case best_bridge_frame v pending img of Some b \<Rightarrow> [b] | None \<Rightarrow> [])
                @ (img, fidx) # dedup_loop v (Some h) [] rest)"

definition dedup_frames :: "'img vision \<Rightarrow> ('img \<times> int) list \<Rightarrow> ('img \<times> int) list" where
  "dedup_frames v = dedup_loop v None []"

section \<open>Which bits the hash has\<close>

lemma sum_exact:
  "0 \<le> a \<Longrightarrow> (\<forall>x \<in> set xs. 0 \<le> x) \<Longrightarrow> a + sum_list xs < 2 ^ 53 \<Longrightarrow>
   foldl f_add (Fin (of_int a)) (map (\<lambda>x. Fin (of_int x)) xs) = Fin (of_int (a + sum_list xs))"
proof (induction xs arbitrary: a)
  case Nil
  then show ?case by simp
next
  case (Cons x xs)
  have "0 \<le> sum_list xs" using Cons.prems(2) by (intro sum_list_nonneg) simp
  then have "f_add (Fin (of_int a)) (Fin (of_int x)) = Fin (of_int (a + x))"
    using Cons.prems by (intro f_add_int) auto
  with Cons.IH [of "a + x"] Cons.prems show ?case by (simp add: add.assoc)
qed

lemma bit_set_foldl:
  "bit (foldl (\<lambda>hash (i, p). if P p then hash OR push_bit i 1 else hash) (h :: 64 word) (enumerate k ps)) n \<longleftrightarrow>
   n < 64 \<and> (bit h n \<or> (k \<le> n \<and> n < k + length ps \<and> P (ps ! (n - k))))"
proof (induction ps arbitrary: h k)
  case Nil
  then show ?case by (auto dest: bit_imp_le_length)
next
  case (Cons p ps)
  let ?h = "if P p then h OR push_bit k 1 else h"
  have "bit (foldl (\<lambda>hash (i, p). if P p then hash OR push_bit i 1 else hash) h (enumerate k (p # ps))) n \<longleftrightarrow>
      n < 64 \<and> (bit ?h n \<or> (Suc k \<le> n \<and> n < Suc k + length ps \<and> P (ps ! (n - Suc k))))"
    by (simp only: enumerate_simps foldl.simps prod.case Cons.IH)
  also have "n < 64 \<and> bit ?h n \<longleftrightarrow> n < 64 \<and> (bit h n \<or> (n = k \<and> P p))"
    by (auto simp: bit_simps bit_1_iff)
  then have "n < 64 \<and> (bit ?h n \<or> (Suc k \<le> n \<and> n < Suc k + length ps \<and> P (ps ! (n - Suc k)))) \<longleftrightarrow>
      n < 64 \<and> (bit h n \<or> (k \<le> n \<and> n < k + length (p # ps) \<and> P ((p # ps) ! (n - k))))"
    by (cases "n = k") (auto simp: nth_Cons' Suc_diff_le)
  finally show ?case .
qed

text \<open>Division of an integer below \<open>2 ^ 53\<close> by 64 is exact.\<close>

lemma round64_div64: "0 \<le> n \<Longrightarrow> n < 2 ^ 40 \<Longrightarrow> round64 (of_int n / 64) = Fin (of_int n / 64)"
proof -
  assume "0 \<le> n" "n < 2 ^ 40"
  then have "\<bar>n\<bar> < 2 ^ 53" by simp
  from round64_dyadic [OF this, of "- 6"] have "round64 (of_int n * 2 powi - 6) = Fin (of_int n * 2 powi - 6)" by simp
  moreover have "(2 :: rat) powi - 6 = 1 / 64" by (simp add: power_int_minus)
  ultimately show ?thesis by simp
qed

lemma hash_exact:
  assumes "length thumb = 64"
  shows "bit (hash_bits thumb) i \<longleftrightarrow> i < 64 \<and> sum_list (map uint thumb) < 64 * uint (thumb ! i)"
proof -
  let ?s = "sum_list (map uint thumb)"
  have byte: "0 \<le> uint p" "uint p < 256" for p :: byte using uint_lt2p [of p] by simp_all
  have pix: "map (\<lambda>p. f_of_int (uint p)) thumb = map (\<lambda>x. Fin (of_int x)) (map uint thumb)"
  proof -
    have "f_of_int (uint p) = Fin (of_int (uint p))" for p :: byte
      by (rule f_of_int_exact) (use byte [of p] in simp)
    then show ?thesis by simp
  qed
  have "sum_list (map uint xs) \<le> 256 * int (length xs)" for xs :: "byte list"
  proof (induction xs)
    case (Cons p xs)
    then show ?case using byte [of p] by simp
  qed simp
  from this [of thumb] assms have up: "?s \<le> 16384" by simp
  have low: "0 \<le> ?s" by (rule sum_list_nonneg) (auto simp: byte)
  have "foldl f_add (Fin 0) (map (\<lambda>x. Fin (of_int x)) (map uint thumb)) = Fin (of_int ?s)"
    using sum_exact [of 0 "map uint thumb"] up byte by simp
  moreover have "f_div (Fin (of_int ?s)) (Fin 64) = Fin (of_int ?s / 64)"
    using round64_div64 [of ?s] low up by simp
  ultimately have "hash_bits thumb = foldl (\<lambda>hash (i, p). if fl_less (Fin (of_int ?s / 64)) p then hash OR push_bit i 1 else hash) 0
      (enumerate 0 (map (\<lambda>x. Fin (of_int x)) (map uint thumb)))"
    unfolding hash_bits_def Let_def pix by simp
  then have "bit (hash_bits thumb) i \<longleftrightarrow> i < 64 \<and> fl_less (Fin (of_int ?s / 64)) (map (\<lambda>x. Fin (of_int x)) (map uint thumb) ! i)"
    using bit_set_foldl [of "fl_less (Fin (of_int ?s / 64))" 0 0 "map (\<lambda>x. Fin (of_int x)) (map uint thumb)" i] assms by auto
  also have "\<dots> \<longleftrightarrow> i < 64 \<and> (of_int ?s :: rat) < of_int (64 * uint (thumb ! i))"
    using assms by (auto simp: divide_less_eq mult.commute)
  finally show ?thesis by (simp only: of_int_less_iff)
qed

section \<open>Which frames are kept\<close>

text \<open>The frames that open a run: the first one, then each that differs from the one before in more than six bits.\<close>

fun anchors :: "'img vision \<Rightarrow> 64 word option \<Rightarrow> ('img \<times> int) list \<Rightarrow> ('img \<times> int) list" where
  "anchors v a [] = []"
| "anchors v a (x # xs) =
     (if is_dup a (phash v (fst x)) then anchors v a xs else x # anchors v (Some (phash v (fst x))) xs)"

lemma best_index_less:
  "best_index q i best best_q xs = best \<or> (i \<le> best_index q i best best_q xs \<and> best_index q i best best_q xs < i + length xs)"
  by (induction xs arbitrary: i best best_q) (auto, (metis Suc_leD add_Suc_right le_refl less_add_Suc1 add_Suc)+)

lemma bridge_mem: "best_bridge_frame v run img = Some b \<Longrightarrow> b \<in> set run"
  using best_index_less [of "\<lambda>(i, _). bridge_quality v (downscale_for_ranking v img) i" 0 0 "Fin (- 1)" run]
  by (auto simp: best_bridge_frame_def Let_def split: if_splits)

lemma bridge_none: "best_bridge_frame v run img = None \<longleftrightarrow> run = []"
  by (simp add: best_bridge_frame_def Let_def)

lemma dedup_subseq: "subseq (dedup_loop v a p xs) (p @ xs)"
proof (induction v a p xs rule: dedup_loop.induct)
  case (1 v a p)
  then show ?case by (simp add: subseq_singleton_left)
next
  case (2 v a p img f rest)
  show ?case
  proof (cases "is_dup a (phash v img)")
    case True
    with 2(1) [OF refl] show ?thesis by simp
  next
    case False
    have "subseq (case best_bridge_frame v p img of Some b \<Rightarrow> [b] | None \<Rightarrow> []) p"
      by (auto simp: subseq_singleton_left dest: bridge_mem split: option.split)
    moreover have "subseq ((img, f) # dedup_loop v (Some (phash v img)) [] rest) ((img, f) # rest)"
      using 2(2) [OF refl False] by simp
    ultimately show ?thesis using False by (simp add: Let_def list_emb_append_mono)
  qed
qed

lemma dedup_last: "p @ xs \<noteq> [] \<Longrightarrow> dedup_loop v a p xs \<noteq> [] \<and> last (dedup_loop v a p xs) = last (p @ xs)"
proof (induction v a p xs rule: dedup_loop.induct)
  case (1 v a p)
  then show ?case by simp
next
  case (2 v a p img f rest)
  show ?case
  proof (cases "is_dup a (phash v img)")
    case True
    with 2(1) [OF refl] show ?thesis by simp
  next
    case False
    with 2(2) [OF refl False] show ?thesis by (cases "rest = []") (simp_all add: Let_def)
  qed
qed

lemma dedup_anchors: "subseq (anchors v a xs) (dedup_loop v a p xs)"
proof (induction v a p xs rule: dedup_loop.induct)
  case (1 v a p)
  then show ?case by simp
next
  case (2 v a p img f rest)
  show ?case
  proof (cases "is_dup a (phash v img)")
    case True
    with 2(1) [OF refl] show ?thesis by simp
  next
    case False
    with 2(2) [OF refl False] show ?thesis by (simp add: Let_def list_emb_append2 subseq_drop_many)
  qed
qed

lemma dedup_length: "length (dedup_loop v a p xs) \<le> 2 * length (anchors v a xs) + 1"
proof (induction v a p xs rule: dedup_loop.induct)
  case (1 v a p)
  then show ?case by simp
next
  case (2 v a p img f rest)
  show ?case
  proof (cases "is_dup a (phash v img)")
    case True
    with 2(1) [OF refl] show ?thesis by simp
  next
    case False
    with 2(2) [OF refl False] show ?thesis by (simp add: Let_def split: option.split)
  qed
qed

lemma anchors_near:
  "x \<in> set xs \<Longrightarrow> is_dup a (phash v (fst x)) \<or> (\<exists>y \<in> set (anchors v a xs). count_ones (phash v (fst y) XOR phash v (fst x)) \<le> 6)"
proof (induction xs arbitrary: a)
  case (Cons z xs)
  have self: "count_ones (phash v (fst z) XOR phash v (fst z)) \<le> 6" by (simp add: count_ones_def)
  show ?case
  proof (cases "x = z")
    case True
    with self show ?thesis by auto
  next
    case False
    with Cons.prems have "x \<in> set xs" by simp
    then show ?thesis
      using Cons.IH [of a] Cons.IH [of "Some (phash v (fst z))"] by (auto simp: is_dup_def)
  qed
qed simp

lemma dedup_two: "2 \<le> length xs \<Longrightarrow> 2 \<le> length (dedup_frames v xs)"
proof -
  assume "2 \<le> length xs"
  then obtain img f rest where xs: "xs = (img, f) # rest" "rest \<noteq> []" by (cases xs) (auto simp: Suc_le_eq)
  then have "dedup_loop v (Some (phash v img)) [] rest \<noteq> []" using dedup_last [of "[]" rest] by simp
  then show ?thesis
    by (cases "dedup_loop v (Some (phash v img)) [] rest")
      (simp_all add: dedup_frames_def xs is_dup_def bridge_none Let_def best_bridge_frame_def)
qed

text \<open>
  C19: Near-duplicate removal, for any pictures. The kept frames are input frames in their order, with the first and
  the last input frame among them; every input frame is within Hamming distance 6 of a kept one that opens a run, and
  there are at most two kept frames per run. From two or more selected frames at least two survive, so the error
  \<^verbatim>\<open>selected frames are too similar\<close> is never sent for them, even when all pictures are the same.
\<close>

theorem dedup_selects:
  assumes "2 \<le> length xs"
  shows "let ys = dedup_frames v xs; as = anchors v None xs
         in subseq as ys \<and> subseq ys xs \<and> hd ys = hd xs \<and> last ys = last xs \<and> 2 \<le> length ys \<and> length ys \<le> 2 * length as \<and>
            (\<forall>x \<in> set xs. \<exists>y \<in> set as. count_ones (phash v (fst y) XOR phash v (fst x)) \<le> 6)"
proof -
  obtain img f rest where xs: "xs = (img, f) # rest" and rest: "rest \<noteq> []"
    using assms by (cases xs) (auto simp: Suc_le_eq)
  let ?ds = "dedup_loop v (Some (phash v img)) [] rest"
  have ys: "dedup_frames v xs = (img, f) # ?ds"
    by (simp add: dedup_frames_def xs is_dup_def bridge_none Let_def best_bridge_frame_def)
  have l: "?ds \<noteq> []" "last ?ds = last rest" using dedup_last [of "[]" rest] rest by simp_all
  have "length ?ds \<le> 2 * length (anchors v (Some (phash v img)) rest) + 1" by (rule dedup_length)
  then have len: "length (dedup_frames v xs) \<le> 2 * length (anchors v None xs)"
    by (simp add: ys) (simp add: xs is_dup_def)
  have near: "\<forall>x \<in> set xs. \<exists>y \<in> set (anchors v None xs). count_ones (phash v (fst y) XOR phash v (fst x)) \<le> 6"
    using anchors_near [of _ xs None v] by (auto simp: is_dup_def)
  have sub: "subseq (anchors v None xs) (dedup_frames v xs)" "subseq (dedup_frames v xs) xs"
    using dedup_anchors [of v None xs "[]"] dedup_subseq [of v None "[]" xs] by (simp_all add: dedup_frames_def)
  have two: "2 \<le> length (dedup_frames v xs)" by (rule dedup_two [OF assms])
  show ?thesis
    unfolding Let_def
    by (intro conjI sub len near two) (use l rest in \<open>simp_all add: ys [unfolded xs] xs\<close>)
qed

text \<open>Three times the same picture: first and last are kept.\<close>

definition demo_fourier :: fourier where
  "demo_fourier = \<lparr>fo_forward = id, fo_inverse = id, fo_cross = (\<lambda>a b. a), fo_norm = fst, fo_cos = (\<lambda>_. Fin 0)\<rparr>"

definition demo_vision :: "byte vision" where
  "demo_vision = \<lparr>vi_luma = (\<lambda>b. rows_of 8 (replicate 8 b)), vi_thumb = (\<lambda>b. replicate 63 0 @ [b]), vi_width = (\<lambda>_. 8), vi_height = (\<lambda>_. 8),
     vi_resize = (\<lambda>_ _ b. b), vi_rgb = (\<lambda>b. \<lparr>pic_w = 8, pic_h = 8, pic_at = (\<lambda>_. (b, b, b))\<rparr>), vi_of_rgb = (\<lambda>_. 0),
     vi_fourier = demo_fourier\<rparr>"

theorem dedup_selects_witness:
  "let ys = dedup_frames demo_vision [(9, 0), (9, 1), (9, 2)]
   in subseq ys [(9, 0), (9, 1), (9, 2)] \<and> hd ys = (9, 0) \<and> last ys = (9, 2) \<and> 2 \<le> length ys"
  using dedup_selects [of "[(9, 0), (9, 1), (9, 2)]" demo_vision] by (simp add: Let_def)

end
