(* ===== verification/Frame_Quality.thy ===== *)
theory Frame_Quality
  imports Scene_Dedup
begin

text \<open>
  Frame quality (\<^verbatim>\<open>crates/frame-forge/src/quality.rs\<close>): the brightness and Laplacian variances of a gray picture,
  the flags that every frame reply carries, and the border crop.
\<close>

section \<open>Variances\<close>

record quality_flags =
  qf_brightness_var :: fl
  qf_laplacian_var :: fl

definition to_bitmask :: "quality_flags \<Rightarrow> nat" where
  "to_bitmask q =
     (if fl_less (qf_brightness_var q) (Fin 5) then 1 else 0)
       + (if fl_less (Fin 250) (qf_brightness_var q) then 2 else 0)
       + (if fl_less (qf_laplacian_var q) (Fin 10) then 4 else 0)"

text \<open>Mean and variance of a sequence of gray levels, summed in order.\<close>

definition fl_mean :: "int list \<Rightarrow> fl \<Rightarrow> fl" where
  "fl_mean ps n = f_div (foldl (\<lambda>acc p. f_add acc (f_of_int p)) (Fin 0) ps) n"

definition fl_variance :: "int list \<Rightarrow> fl \<Rightarrow> fl" where
  "fl_variance ps n =
     (let mean = fl_mean ps n
      in f_div (foldl (\<lambda>acc p. let diff = f_sub (f_of_int p) mean in f_add acc (f_mul diff diff)) (Fin 0) ps) n)"

definition laplace_kernel :: "int list" where "laplace_kernel = [0, 1, 0, 1, -4, 1, 0, 1, 0]"

definition laplace_at :: "gray \<Rightarrow> nat \<Rightarrow> nat \<Rightarrow> int" where
  "laplace_at g x y = foldl (\<lambda>acc (k, off). acc + neighbour g x y off * k) 0 (zip laplace_kernel offsets)"

text \<open>For a picture with at least one row and one column (\<^verbatim>\<open>h - 1\<close> underflows on an empty one).\<close>

definition compute_laplacian_variance :: "gray \<Rightarrow> fl" where
  "compute_laplacian_variance g =
     (let vals = [laplace_at g x y. y \<leftarrow> [1..<gr_height g - 1], x \<leftarrow> [1..<gr_width g - 1]];
          s = foldl (\<lambda>acc v. f_add acc (f_mul (f_of_int v) (f_of_int v))) (Fin 0) vals
      in if vals = [] then Fin 0 else f_div s (f_of_int (int (length vals))))"

definition detect_quality :: "gray \<Rightarrow> quality_flags" where
  "detect_quality g =
     (let n = f_of_int (int (gr_width g * gr_height g mod 2 ^ 32))
      in \<lparr>qf_brightness_var = fl_variance (map uint (gr_pixels g)) n, qf_laplacian_var = compute_laplacian_variance g\<rparr>)"

section \<open>Border crop\<close>

definition column_variance :: "gray \<Rightarrow> nat \<Rightarrow> fl" where
  "column_variance g x =
     fl_variance (map (\<lambda>y. get_pixel g x y) [0..<gr_height g]) (f_of_int (int (gr_height g)))"

definition row_variance :: "gray \<Rightarrow> nat \<Rightarrow> fl" where
  "row_variance g y =
     fl_variance (map (\<lambda>x. get_pixel g x y) [0..<gr_width g]) (f_of_int (int (gr_width g)))"

text \<open>The first position of a scan whose variance is above the threshold.\<close>

definition scan :: "(nat \<Rightarrow> fl) \<Rightarrow> fl \<Rightarrow> nat list \<Rightarrow> nat \<Rightarrow> nat" where
  "scan var threshold positions start =
     (case List.find (\<lambda>x. fl_less threshold (var x)) positions of Some x \<Rightarrow> x | None \<Rightarrow> start)"

text \<open>For a non-empty picture of fewer than \<open>2 ^ 29\<close> pixels a side.\<close>

definition detect_border_crop :: "gray \<Rightarrow> fl \<Rightarrow> nat \<times> nat \<times> nat \<times> nat" where
  "detect_border_crop g threshold =
     (let w = gr_width g; h = gr_height g;
          l = scan (column_variance g) threshold [0..<w div 4] 0;
          r = scan (column_variance g) threshold (map (\<lambda>x. w - 1 - x) (rev [0..<w div 4])) (w - 1);
          t = scan (row_variance g) threshold [0..<h div 4] 0;
          b = scan (row_variance g) threshold (map (\<lambda>y. h - 1 - y) (rev [0..<h div 4])) (h - 1);
          crop_w = max (r - l) (w * 8 div 10);
          crop_h = max (b - t) (h * 8 div 10)
      in (l, t, min (l + crop_w) (w - 1), min (t + crop_h) (h - 1)))"

definition crop_image :: "nat \<times> nat \<times> nat \<times> nat \<Rightarrow> nat \<times> nat \<times> nat \<times> nat" where
  "crop_image rect = (case rect of (l, t, r, b) \<Rightarrow> (l, t, max (r - l) 1, max (b - t) 1))"

section \<open>Frames of one gray level\<close>

lemma foldl_zero: "(\<And>p. p \<in> set ps \<Longrightarrow> f (Fin 0) p = Fin 0) \<Longrightarrow> foldl f (Fin 0) ps = Fin 0"
  by (induction ps) simp_all

lemma round64_zero [simp]: "round64 0 = Fin 0"
  using round64_int [of 0] by simp

lemma mean_const:
  assumes "0 \<le> v" and "v < 256" and "0 < n" and "n < 2 ^ 32"
  shows "fl_mean (replicate n v) (f_of_int (int n)) = Fin (of_int v)"
proof -
  have v: "f_of_int v = Fin (of_int v)" by (rule f_of_int_exact) (use assms in simp)
  have n: "f_of_int (int n) = Fin (of_int (int n))" by (rule f_of_int_exact) (use assms in simp)
  have "v * int n \<le> 256 * 2 ^ 32" using assms by (intro mult_mono) simp_all
  then have "foldl f_add (Fin (of_int 0)) (map (\<lambda>x. Fin (of_int x)) (replicate n v)) = Fin (of_int (0 + sum_list (replicate n v)))"
    by (intro sum_exact) (use assms in \<open>simp_all add: sum_list_replicate mult.commute\<close>)
  then have s: "foldl (\<lambda>acc p. f_add acc (f_of_int p)) (Fin 0) (replicate n v) = Fin (of_int (int n * v))"
    by (simp add: foldl_map v sum_list_replicate foldl_conv_foldr)
  have "(of_int (int n * v) :: rat) / of_int (int n) = of_int v" using assms(3) by simp
  then show ?thesis unfolding fl_mean_def s n using assms(3) v by (simp add: f_of_int_def)
qed

lemma variance_const:
  assumes "0 \<le> v" and "v < 256" and "0 < n" and "n < 2 ^ 32"
  shows "fl_variance (replicate n v) (f_of_int (int n)) = Fin 0"
proof -
  have v: "f_of_int v = Fin (of_int v)" by (rule f_of_int_exact) (use assms in simp)
  have n: "f_of_int (int n) = Fin (of_int (int n))" by (rule f_of_int_exact) (use assms in simp)
  have "foldl (\<lambda>acc p. let diff = f_sub (f_of_int p) (Fin (of_int v)) in f_add acc (f_mul diff diff)) (Fin 0) (replicate n v) = Fin 0"
    by (rule foldl_zero) (simp add: v f_sub_def f_add_def)
  then show ?thesis using assms(3) unfolding fl_variance_def mean_const [OF assms] by (simp add: n)
qed

lemma laplacian_const: "compute_laplacian_variance (rows_of h (replicate w b)) = Fin 0"
proof -
  let ?g = "rows_of h (replicate w b)"
  have dim: "gr_width ?g = w" "gr_height ?g = h" by (simp_all add: rows_of_def)
  have px: "get_pixel ?g x y = uint b" if "x < w" "y < h" for x y
    using get_pixel_rows [of y h x "replicate w b"] that by simp
  have "laplace_at ?g x y = 0" if "1 \<le> x" "x < w - 1" "1 \<le> y" "y < h - 1" for x y
    using that by (simp add: laplace_at_def laplace_kernel_def offsets_def neighbour_def px)
  then have z: "v = 0" if "v \<in> set [laplace_at ?g x y. y \<leftarrow> [1..<gr_height ?g - 1], x \<leftarrow> [1..<gr_width ?g - 1]]" for v
    using that by (auto simp: dim split: if_splits)
  have "foldl (\<lambda>acc v. f_add acc (f_mul (f_of_int v) (f_of_int v))) (Fin 0)
      [laplace_at ?g x y. y \<leftarrow> [1..<gr_height ?g - 1], x \<leftarrow> [1..<gr_width ?g - 1]] = Fin 0"
  proof (rule foldl_zero)
    fix v assume "v \<in> set [laplace_at ?g x y. y \<leftarrow> [1..<gr_height ?g - 1], x \<leftarrow> [1..<gr_width ?g - 1]]"
    from z [OF this] show "f_add (Fin 0) (f_mul (f_of_int v) (f_of_int v)) = Fin 0" by (simp add: f_of_int_def f_add_def)
  qed
  moreover have "f_div (Fin 0) (f_of_int (int n)) = Fin 0" if "0 < n" for n
  proof -
    have "(1 :: rat) \<le> round_val 53 (- 1022) (of_int (int n))"
      using round_val_mono [of 53 1 "of_int (int n)" "- 1022"] round_val_int [of 53 "- 1022" 1] that by simp
    then have "f_of_int (int n) = PInf \<or> (\<exists>y. f_of_int (int n) = Fin y \<and> y \<noteq> 0)"
      by (auto simp: f_of_int_def round64_def round_fl_def Let_def)
    then show ?thesis by auto
  qed
  ultimately show ?thesis by (simp add: compute_laplacian_variance_def Let_def del: upt_Suc)
qed

section \<open>Frames of black and white\<close>

lemma halves_sum:
  "(\<forall>p \<in> set ps. p = 0 \<or> p = 255) \<Longrightarrow> \<bar>k\<bar> + int (length ps) < 2 ^ 36 \<Longrightarrow>
   foldl (\<lambda>acc p. let diff = f_sub (f_of_int p) (Fin (255 / 2)) in f_add acc (f_mul diff diff)) (Fin (of_int (65025 * k) / 4)) ps =
     Fin (of_int (65025 * (k + int (length ps))) / 4)"
proof (induction ps arbitrary: k)
  case (Cons p ps)
  have half: "round64 (of_int i / 2) = Fin (of_int i / 2)" if "\<bar>i\<bar> < 2 ^ 53" for i
    using round64_dyadic [OF that, of "- 1"] by (simp add: power_int_minus)
  have quarter: "round64 (of_int i / 4) = Fin (of_int i / 4)" if "\<bar>i\<bar> < 2 ^ 53" for i
    using round64_dyadic [OF that, of "- 2"] by (simp add: power_int_minus)
  have "f_of_int 0 = Fin 0" "f_of_int 255 = Fin 255" using f_of_int_exact [of 0] f_of_int_exact [of 255] by simp_all
  then have "f_sub (f_of_int p) (Fin (255 / 2)) = Fin (255 / 2) \<or> f_sub (f_of_int p) (Fin (255 / 2)) = Fin (- 255 / 2)"
    using Cons.prems(1) half [of 255] half [of "- 255"] by (auto simp: f_sub_def f_add_def)
  then have "(let diff = f_sub (f_of_int p) (Fin (255 / 2)) in f_mul diff diff) = Fin (65025 / 4)"
    using quarter [of 65025] by auto
  moreover have "f_add (Fin (of_int (65025 * k) / 4)) (Fin (65025 / 4)) = Fin (of_int (65025 * (k + 1)) / 4)"
  proof -
    have "\<bar>65025 * (k + 1)\<bar> < 2 ^ 53" using Cons.prems(2) by simp
    from quarter [OF this] show ?thesis by (simp add: f_add_def add_divide_distrib distrib_left)
  qed
  ultimately show ?case using Cons.IH [of "k + 1"] Cons.prems by (simp add: Let_def)
qed simp

lemma halves_mean:
  assumes "(\<Sum>p \<leftarrow> ps. p) * 2 = 255 * int n" and "\<forall>p \<in> set ps. p = 0 \<or> p = 255" and "0 < n" and "n < 2 ^ 32"
  shows "fl_mean ps (f_of_int (int n)) = Fin (255 / 2)"
proof -
  have n: "f_of_int (int n) = Fin (of_int (int n))" by (rule f_of_int_exact) (use assms in simp)
  have v: "f_of_int p = Fin (of_int p)" if "p \<in> set ps" for p
    using f_of_int_exact [of p] assms(2) that by auto
  have "foldl (\<lambda>acc p. f_add acc (f_of_int p)) (Fin 0) ps = foldl f_add (Fin (of_int 0)) (map (\<lambda>x. Fin (of_int x)) ps)"
    unfolding foldl_map by (rule foldl_cong) (simp_all add: v)
  also have "\<dots> = Fin (of_int (0 + sum_list ps))"
    by (rule sum_exact) (use assms in auto)
  also have "(of_int (0 + sum_list ps) :: rat) = of_int (int n) * (255 / 2)"
  proof -
    have "(of_int (sum_list ps * 2) :: rat) = of_int (255 * int n)" using assms(1) by simp
    then show ?thesis by simp
  qed
  finally have s: "foldl (\<lambda>acc p. f_add acc (f_of_int p)) (Fin 0) ps = Fin (of_int (int n) * (255 / 2))" .
  have "round64 (255 / 2) = Fin (255 / 2)" using round64_dyadic [of 255 "- 1"] by (simp add: power_int_minus)
  then show ?thesis unfolding fl_mean_def s n using assms(3) by simp
qed

lemma halves_variance:
  assumes "(\<Sum>p \<leftarrow> ps. p) * 2 = 255 * int (length ps)" and "\<forall>p \<in> set ps. p = 0 \<or> p = 255"
    and "ps \<noteq> []" and "length ps < 2 ^ 32"
  shows "fl_variance ps (f_of_int (int (length ps))) = Fin (65025 / 4)"
proof -
  let ?n = "length ps"
  have n: "f_of_int (int ?n) = Fin (of_int (int ?n))" by (rule f_of_int_exact) (use assms in simp)
  have "foldl (\<lambda>acc p. let diff = f_sub (f_of_int p) (Fin (255 / 2)) in f_add acc (f_mul diff diff)) (Fin 0) ps =
      Fin (of_int (65025 * int ?n) / 4)"
    using halves_sum [of ps 0] assms by simp
  moreover have "(of_int (65025 * int ?n) / 4 :: rat) / of_int (int ?n) = 65025 / 4" using assms(3) by simp
  moreover have "round64 (65025 / 4) = Fin (65025 / 4)" using round64_dyadic [of 65025 "- 2"] by (simp add: power_int_minus)
  ultimately show ?thesis
    using assms unfolding fl_variance_def halves_mean [OF assms(1,2) _ assms(4), simplified, OF assms(3)] by (simp add: n)
qed

lemma gray_pixels_rows: "map uint (gr_pixels (rows_of h row)) = concat (replicate h (map uint row))"
  by (simp add: rows_of_def map_concat)

lemma concat_replicate_const: "concat (replicate h (replicate w v)) = replicate (h * w) v"
  by (induction h) (simp_all add: replicate_add)

text \<open>
  What the quality flags of a frame mean. They test the variance of the gray levels, not the brightness: every
  frame of one single gray level, white ones too, is flagged black (and blurred) and never white, and a frame of equally
  many black and white pixels is flagged white.
\<close>

theorem quality_flags_misread:
  assumes "0 < w" and "0 < h" and "2 * w * h < 2 ^ 32"
  shows "to_bitmask (detect_quality (rows_of h (replicate w b))) = 5 \<and>
    to_bitmask (detect_quality (rows_of h (replicate w 0 @ replicate w 255))) div 2 mod 2 = 1"
proof
  have wh: "0 < h * w" "h * w < 2 ^ 32" using assms by (simp_all add: mult.commute)
  have "fl_variance (replicate (h * w) (uint b)) (f_of_int (int (h * w))) = Fin 0"
    by (rule variance_const) (use wh uint_lt2p [of b] in simp_all)
  then have "qf_brightness_var (detect_quality (rows_of h (replicate w b))) = Fin 0"
    using wh by (simp add: detect_quality_def gray_pixels_rows concat_replicate_const rows_of_def mult.commute)
  then show "to_bitmask (detect_quality (rows_of h (replicate w b))) = 5"
    by (simp add: to_bitmask_def) (simp add: detect_quality_def laplacian_const)
next
  let ?ps = "concat (replicate h (replicate w 0 @ replicate w (255 :: int)))"
  have len: "length ?ps = 2 * w * h" by (simp add: length_concat sum_list_replicate)
  have "sum_list ?ps = int h * (int w * 255)" by (induction h) (simp_all add: sum_list_replicate algebra_simps)
  then have "sum_list ?ps * 2 = 255 * int (length ?ps)" unfolding len by simp
  moreover have "\<forall>p \<in> set ?ps. p = 0 \<or> p = 255" using assms by (auto split: if_splits)
  moreover have "?ps \<noteq> []" using len assms by auto
  ultimately have "fl_variance ?ps (f_of_int (int (length ?ps))) = Fin (65025 / 4)"
    using halves_variance [of ?ps] len assms(3) by simp
  moreover have "gr_width (rows_of h (replicate w 0 @ replicate w 255)) * gr_height (rows_of h (replicate w 0 @ replicate w 255)) =
      length ?ps" by (simp only: len) (simp add: rows_of_def)
  moreover have "map uint (gr_pixels (rows_of h (replicate w 0 @ replicate w 255))) = ?ps"
    by (simp add: gray_pixels_rows)
  ultimately have "qf_brightness_var (detect_quality (rows_of h (replicate w 0 @ replicate w 255))) = Fin (65025 / 4)"
    using len assms(3) by (simp add: detect_quality_def)
  then show "to_bitmask (detect_quality (rows_of h (replicate w 0 @ replicate w 255))) div 2 mod 2 = 1"
    by (simp add: to_bitmask_def)
qed

text \<open>A white frame is reported black; a test pattern is reported white.\<close>

theorem quality_flags_misread_witness:
  "to_bitmask (detect_quality (rows_of 2 (replicate 3 255))) = 5 \<and>
   to_bitmask (detect_quality (rows_of 2 (replicate 3 0 @ replicate 3 255))) div 2 mod 2 = 1"
  using quality_flags_misread [of 3 2 255] by simp

section \<open>The crop of a textured frame\<close>

text \<open>
  The scans from the right and from the bottom start at their innermost position, so a frame without any border loses
  a fifth of its width and of its height.
\<close>

lemma textured_frame_cropped:
  assumes "40 \<le> gr_width g" and "40 \<le> gr_height g"
    and "\<And>x. x < gr_width g \<Longrightarrow> fl_less threshold (column_variance g x)"
    and "\<And>y. y < gr_height g \<Longrightarrow> fl_less threshold (row_variance g y)"
  shows "detect_border_crop g threshold = (0, 0, gr_width g * 8 div 10, gr_height g * 8 div 10)"
proof -
  have fwd: "scan var threshold [0..<n div 4] 0 = 0" if "40 \<le> n" "\<And>x. x < n \<Longrightarrow> fl_less threshold (var x)" for var n
  proof -
    have "[0..<n div 4] = 0 # [1..<n div 4]" using that(1) by (simp add: upt_conv_Cons)
    then show ?thesis using that by (simp add: scan_def)
  qed
  have bwd: "scan var threshold (map (\<lambda>x. n - 1 - x) (rev [0..<n div 4])) (n - 1) = n - n div 4"
    if "40 \<le> n" "\<And>x. x < n \<Longrightarrow> fl_less threshold (var x)" for var n
  proof -
    have "0 < n div 4" using that(1) by simp
    then obtain m where m: "n div 4 = Suc m" using gr0_conv_Suc by blast
    have "n - Suc m = n - 1 - m" by simp
    with that show ?thesis by (simp add: scan_def m)
  qed
  have "n - n div 4 \<le> n * 8 div 10 \<and> n * 8 div 10 \<le> n - 1" if "40 \<le> n" for n :: nat
    using that by linarith
  with fwd bwd show ?thesis using assms by (simp add: detect_border_crop_def Let_def)
qed

end
