(* ===== verification/Animation.thy ===== *)
theory Animation
  imports Scene_Dedup Frame_Protocol
begin

text \<open>
  Animated pictures (\<^verbatim>\<open>crates/frame-forge/src/animate.rs\<close> and the sizing, timing and encoding steps of
  \<^verbatim>\<open>handle_animate\<close> in \<^verbatim>\<open>server.rs\<close>). The WebP and GIF encoders and the \<^verbatim>\<open>ffmpeg\<close> process are parameters,
  one operation per call of the source; a call may fail.
\<close>

section \<open>Codecs\<close>

record 'w webp_encoder =
  we_new :: "nat \<Rightarrow> nat \<Rightarrow> 'w option"
  we_lossless :: "'w \<Rightarrow> 'w"
  we_lossy :: "fl \<Rightarrow> 'w \<Rightarrow> 'w"
  we_add :: "byte list \<Rightarrow> int \<Rightarrow> 'w \<Rightarrow> 'w option"
  we_finish :: "int \<Rightarrow> 'w \<Rightarrow> byte list option"

record 'g gif_encoder =
  ge_new :: "nat \<Rightarrow> nat \<Rightarrow> 'g option"
  ge_repeat :: "nat option \<Rightarrow> 'g \<Rightarrow> 'g option"
  ge_frame :: "byte list \<Rightarrow> int \<Rightarrow> nat \<Rightarrow> 'g \<Rightarrow> 'g option"
  ge_bytes :: "'g \<Rightarrow> byte list"

text \<open>
  \<open>ed_raw\<close> is \<^verbatim>\<open>to_rgba8().into_raw()\<close>, \<open>ed_pad\<close> an overlay on a blank canvas, \<open>ed_ffmpeg\<close> a run of the
  process (width, height, frame rate, \<^verbatim>\<open>crf\<close>, frames): how many frames it took, and the file it wrote.
\<close>

record ('img, 'w, 'g) editor =
  ed_vision :: "'img vision"
  ed_crop :: "nat \<Rightarrow> nat \<Rightarrow> nat \<Rightarrow> nat \<Rightarrow> 'img \<Rightarrow> 'img"
  ed_resize_exact :: "nat \<Rightarrow> nat \<Rightarrow> 'img \<Rightarrow> 'img"
  ed_raw :: "'img \<Rightarrow> byte list"
  ed_pad :: "nat \<Rightarrow> nat \<Rightarrow> 'img \<Rightarrow> byte list"
  ed_webp :: "'w webp_encoder"
  ed_gif :: "'g gif_encoder"
  ed_ffmpeg :: "nat \<Rightarrow> nat \<Rightarrow> fl \<Rightarrow> nat \<Rightarrow> byte list list \<Rightarrow> nat \<times> byte list option"

definition ed_width :: "('img, 'w, 'g) editor \<Rightarrow> 'img \<Rightarrow> nat" where "ed_width e = vi_width (ed_vision e)"
definition ed_height :: "('img, 'w, 'g) editor \<Rightarrow> 'img \<Rightarrow> nat" where "ed_height e = vi_height (ed_vision e)"

section \<open>Sizes\<close>

definition crop_side :: "fl \<Rightarrow> nat \<Rightarrow> nat" where
  "crop_side c len = f_to_u32 (f_round (g_mul c (g_of_nat len)))"

definition crop_rect :: "nat \<times> nat \<times> nat \<times> nat \<Rightarrow> nat \<Rightarrow> nat \<Rightarrow> nat \<times> nat \<times> nat \<times> nat" where
  "crop_rect c iw ih =
     (case c of (cx, cy, cw, ch) \<Rightarrow>
        let x = crop_side (f32_of_bits cx) iw; y = crop_side (f32_of_bits cy) ih
        in (x, y, max 1 (min (crop_side (f32_of_bits cw) iw) (iw - x)), max 1 (min (crop_side (f32_of_bits ch) ih) (ih - y))))"

definition crop_frame :: "('img, 'w, 'g) editor \<Rightarrow> (nat \<times> nat \<times> nat \<times> nat) option \<Rightarrow> 'img \<Rightarrow> 'img" where
  "crop_frame e crop img =
     (case crop of None \<Rightarrow> img
      | Some c \<Rightarrow> (case crop_rect c (ed_width e img) (ed_height e img) of (x, y, w, h) \<Rightarrow> ed_crop e x y w h img))"

definition effective_px :: "animate_req \<Rightarrow> nat" where
  "effective_px req = (if 0 < an_target_px req then an_target_px req else preset_px (an_preset req))"

definition scaled :: "nat \<Rightarrow> nat \<Rightarrow> nat \<Rightarrow> nat" where
  "scaled px along across = f_to_u32 (f_mul (f_of_int (int across)) (f_div (f_of_int (int px)) (f_of_int (int along))))"

definition target_size :: "animate_req \<Rightarrow> nat \<Rightarrow> nat \<Rightarrow> nat \<times> nat" where
  "target_size req fw fh =
     (let px = effective_px req
      in if px = 0 then (fw, fh)
         else if an_resize req = By_Height then (scaled px fh fw, px) else (px, scaled px fw fh))"

definition scale_frame :: "('img, 'w, 'g) editor \<Rightarrow> 'img \<Rightarrow> nat \<Rightarrow> nat \<Rightarrow> 'img" where
  "scale_frame e img tw th = (if tw = 0 \<or> th = 0 then img else ed_resize_exact e tw th img)"

definition pad_to_canvas :: "('img, 'w, 'g) editor \<Rightarrow> 'img \<Rightarrow> nat \<Rightarrow> nat \<Rightarrow> byte list" where
  "pad_to_canvas e img w h = (if ed_width e img = w \<and> ed_height e img = h then ed_raw e img else ed_pad e w h img)"

section \<open>Timing\<close>

definition default_interval :: "int list \<Rightarrow> fl" where
  "default_interval pts =
     (if 2 \<le> length pts
      then (let total_ms = max (wrap_i64 (last pts - hd pts)) 1
            in fl_max (f_div (f_of_int total_ms) (f_of_int (int (length pts - 1)))) (Fin 10))
      else Fin 42)"

definition frame_delay :: "nat \<Rightarrow> int list \<Rightarrow> nat" where
  "frame_delay speed pts =
     (let s = fl_max (f32_of_bits speed) (round32 (1 / 100))
      in f_to_u32 (fl_min (fl_max (f_div (default_interval pts) s) (Fin 10)) (Fin 2000)))"

definition fps_of_delay :: "nat \<Rightarrow> fl" where
  "fps_of_delay d = fl_bound (Fin 1) (Fin 60) (f_div (Fin 1000) (f_of_int (int (max d 1))))"

text \<open>\<^verbatim>\<open>(ms / 10).max(2) as u16\<close>, \<^verbatim>\<open>unwrap_or(20)\<close>.\<close>

definition gif_delay :: "nat list \<Rightarrow> nat \<Rightarrow> nat" where
  "gif_delay delays i = (case slice_get delays i of Some ms \<Rightarrow> max (ms div 10) 2 mod 2 ^ 16 | None \<Rightarrow> 20)"

section \<open>Encoding\<close>

text \<open>Progress reports: the percentage after each frame.\<close>

definition encode_percent :: "nat \<Rightarrow> nat \<Rightarrow> fl" where
  "encode_percent i n = f_add (Fin 50) (f_mul (f_div (f_of_int (int (i + 1))) (f_of_int (int n))) (Fin 49))"

fun flip_last :: "byte list \<Rightarrow> byte list" where
  "flip_last [] = []"
| "flip_last [b] = [xor b 1]"
| "flip_last (b # c # bs) = b # flip_last (c # bs)"

definition webp_raw :: "('img, 'w, 'g) editor \<Rightarrow> nat \<Rightarrow> nat \<Rightarrow> 'img \<Rightarrow> byte list" where
  "webp_raw e tw th img = flip_last (pad_to_canvas e (scale_frame e img tw th) tw th)"

text \<open>The frames from number \<open>i\<close> on; the result is the encoder and the last time, or the failed call.\<close>

fun webp_loop ::
  "'w webp_encoder \<Rightarrow> nat list \<Rightarrow> nat \<Rightarrow> nat \<Rightarrow> int \<Rightarrow> byte list list \<Rightarrow> 'w \<Rightarrow> fl list \<times> (string + 'w \<times> int)" where
  "webp_loop enc delays n i cursor [] w = ([], Inr (w, cursor))"
| "webp_loop enc delays n i cursor (rgba # rest) w =
     (case we_add enc rgba cursor w of
        None \<Rightarrow> ([], Inl ''add_frame'')
      | Some w \<Rightarrow>
          (case webp_loop enc delays n (i + 1)
                  (wrap_i32 (cursor + (case slice_get delays i of Some ms \<Rightarrow> int ms | None \<Rightarrow> 200))) rest w of
             (ps, r) \<Rightarrow> (encode_percent i n # ps, r)))"

definition encode_webp ::
  "('img, 'w, 'g) editor \<Rightarrow> nat \<Rightarrow> nat \<Rightarrow> fl \<Rightarrow> nat list \<Rightarrow> 'img list \<Rightarrow> fl list \<times> (string + byte list)" where
  "encode_webp e tw th quality delays images =
     (let enc = ed_webp e
      in case we_new enc tw th of
           None \<Rightarrow> ([], Inl ''webp encoder'')
         | Some w \<Rightarrow>
             (let w = (if fl_le quality (Fin 0) then we_lossless enc w
                       else we_lossy enc (g_mul (fl_bound (round32 (1 / 100)) (Fin 1) quality) (Fin 100)) w)
              in case webp_loop enc delays (length images) 0 0 (map (webp_raw e tw th) images) w of
                   (ps, Inl err) \<Rightarrow> (ps, Inl err)
                 | (ps, Inr (w, cursor)) \<Rightarrow>
                     (ps, case we_finish enc cursor w of None \<Rightarrow> Inl ''finish'' | Some out \<Rightarrow> Inr out)))"

definition gif_speed :: "fl \<Rightarrow> int" where
  "gif_speed quality =
     (if fl_le quality (Fin 0) then 1
      else f_to_i64 (f_round (g_add (Fin 1)
        (g_mul (g_add (Fin 1) (fl_neg (fl_bound (Fin 0) (Fin 1) quality))) (Fin 29)))))"

fun gif_loop ::
  "'g gif_encoder \<Rightarrow> int \<Rightarrow> nat list \<Rightarrow> nat \<Rightarrow> nat \<Rightarrow> byte list list \<Rightarrow> 'g \<Rightarrow> fl list \<times> (string + 'g)" where
  "gif_loop enc speed delays n i [] g = ([], Inr g)"
| "gif_loop enc speed delays n i (rgba # rest) g =
     (case ge_frame enc rgba speed (gif_delay delays i) g of
        None \<Rightarrow> ([], Inl ''gif frame'')
      | Some g \<Rightarrow> (case gif_loop enc speed delays n (i + 1) rest g of (ps, r) \<Rightarrow> (encode_percent i n # ps, r)))"

definition gif_run ::
  "'g gif_encoder \<Rightarrow> nat \<Rightarrow> nat \<Rightarrow> nat \<Rightarrow> int \<Rightarrow> nat list \<Rightarrow> byte list list \<Rightarrow> fl list \<times> (string + byte list)" where
  "gif_run enc tw th loop_count speed delays raws =
     (case Option.bind (ge_new enc (tw mod 2 ^ 16) (th mod 2 ^ 16)) (ge_repeat enc (if loop_count = 0 then None else Some loop_count)) of
        None \<Rightarrow> ([], Inl ''gif encoder'')
      | Some g \<Rightarrow>
          (case gif_loop enc speed delays (length raws) 0 raws g of
             (ps, Inl err) \<Rightarrow> (ps, Inl err)
           | (ps, Inr g) \<Rightarrow> (ps, Inr (ge_bytes enc g))))"

definition encode_gif_scaled ::
  "('img, 'w, 'g) editor \<Rightarrow> nat \<Rightarrow> nat \<Rightarrow> nat \<Rightarrow> fl \<Rightarrow> nat list \<Rightarrow> 'img list \<Rightarrow> fl list \<times> (string + byte list)" where
  "encode_gif_scaled e tw th loop_count quality delays images =
     gif_run (ed_gif e) tw th loop_count (gif_speed quality) delays (map (\<lambda>img. ed_raw e (scale_frame e img tw th)) images)"

definition crf_of :: "fl \<Rightarrow> nat" where
  "crf_of quality =
     (if fl_le quality (Fin 0) then 18
      else f_to_u32 (fl_bound (Fin 16) (Fin 26)
        (f_round (f_sub (Fin 26) (f_mul (fl_bound (round32 (1 / 100)) (Fin 1) quality) (Fin 10))))))"

text \<open>How many frames \<^verbatim>\<open>ffmpeg\<close> took, and the file or the error.\<close>

definition encode_mp4 :: "('img, 'w, 'g) editor \<Rightarrow> 'img list \<Rightarrow> fl \<Rightarrow> fl \<Rightarrow> nat \<times> (string + byte list)" where
  "encode_mp4 e frames fps quality =
     (case frames of
        [] \<Rightarrow> (0, Inl ''encode_mp4: no frames'')
      | first # _ \<Rightarrow>
          (let w = ed_width e first; h = ed_height e first;
               (taken, r) = ed_ffmpeg e w h fps (crf_of quality) (map (\<lambda>img. pad_to_canvas e img w h) frames)
           in (min taken (length frames), case r of None \<Rightarrow> Inl ''encode_mp4'' | Some out \<Rightarrow> Inr out)))"

definition encode_frames ::
  "('img, 'w, 'g) editor \<Rightarrow> animate_req \<Rightarrow> nat \<times> nat \<Rightarrow> nat \<Rightarrow> 'img list \<Rightarrow> fl list \<times> (string + byte list)" where
  "encode_frames e req dims delay images =
     (case dims of (tw, th) \<Rightarrow>
        let n = length images; delays = replicate n delay; quality = f32_of_bits (an_quality req)
        in case an_format req of
             Mp4 \<Rightarrow>
               (case encode_mp4 e (map (\<lambda>img. scale_frame e img tw th) images) (fps_of_delay delay) quality of
                  (taken, r) \<Rightarrow> (map (\<lambda>i. encode_percent i n) [0..<taken], r))
           | WebP \<Rightarrow> encode_webp e tw th quality delays images
           | Gif \<Rightarrow> encode_gif_scaled e tw th (an_loop_count req) quality delays images)"

text \<open>The encoders that an upscaled animation is written with.\<close>

definition encode_gif :: "('img, 'w, 'g) editor \<Rightarrow> 'img list \<Rightarrow> nat list \<Rightarrow> nat \<Rightarrow> string + byte list" where
  "encode_gif e frames delays loop_count =
     (case frames of
        [] \<Rightarrow> Inl ''no frames to encode''
      | first # _ \<Rightarrow>
          snd (gif_run (ed_gif e) (ed_width e first) (ed_height e first) loop_count 10 delays (map (ed_raw e) frames)))"

definition encode_webp_anim :: "('img, 'w, 'g) editor \<Rightarrow> 'img list \<Rightarrow> nat list \<Rightarrow> string + byte list" where
  "encode_webp_anim e frames delays =
     (if frames = [] then Inl ''no frames to encode''
      else (let enc = ed_webp e; w = Max (set (map (ed_width e) frames)); h = Max (set (map (ed_height e) frames))
            in case we_new enc w h of
                 None \<Rightarrow> Inl ''webp encoder''
               | Some z \<Rightarrow>
                   (case snd (webp_loop enc (map (\<lambda>ms. max ms 10) delays) (length frames) 0 0
                          (map (\<lambda>img. pad_to_canvas e img w h) frames) z) of
                      Inl err \<Rightarrow> Inl err
                    | Inr (z, cursor) \<Rightarrow> (case we_finish enc cursor z of None \<Rightarrow> Inl ''finish'' | Some out \<Rightarrow> Inr out))))"

section \<open>Timing of an export\<close>

lemma frame_delay_bounds: "10 \<le> frame_delay speed pts \<and> frame_delay speed pts \<le> 2000"
proof -
  let ?x = "f_div (default_interval pts) (fl_max (f32_of_bits speed) (round32 (1 / 100)))"
  obtain v where v: "fl_min (fl_max ?x (Fin 10)) (Fin 2000) = Fin v" "10 \<le> v" "v \<le> 2000"
    using max_min_bounds [of 10 2000 ?x] by auto
  have "10 \<le> trunc v" "trunc v \<le> 2000" using v by (simp_all add: trunc_def le_floor_iff floor_le_iff)
  then show ?thesis by (simp add: frame_delay_def v(1) u32_max_def) linarith
qed

lemma fps_bounds: "\<exists>v. fps_of_delay d = Fin v \<and> 1 \<le> v \<and> v \<le> 60"
proof -
  have "f_div (Fin 1000) x \<noteq> NaN" if "x \<noteq> NaN" for x
    using that by (cases x) (auto simp: fl_sign_def round64_def round_fl_def Let_def)
  moreover have "f_of_int i \<noteq> NaN" for i by (simp add: f_of_int_def round64_def round_fl_def Let_def)
  ultimately show ?thesis unfolding fps_of_delay_def by (intro bound_bounds) simp_all
qed

text \<open>An encoder that records what it is given.\<close>

definition recorder :: "(byte list \<times> int) list webp_encoder" where
  "recorder = \<lparr>we_new = (\<lambda>_ _. Some []), we_lossless = id, we_lossy = (\<lambda>_. id),
     we_add = (\<lambda>b t w. Some (w @ [(b, t)])), we_finish = (\<lambda>_ _. Some [])\<rparr>"

lemma webp_loop_times:
  "d \<le> 2000 \<Longrightarrow> i + length raws = n \<Longrightarrow> n \<le> 4096 \<Longrightarrow>
   snd (webp_loop recorder (replicate n d) n i (int i * int d) raws w) =
     Inr (w @ zip raws (map (\<lambda>k. int k * int d) [i..<n]), int n * int d)"
proof (induction raws arbitrary: i w)
  case Nil
  then show ?case by simp
next
  case (Cons r raws)
  have i: "i < n" using Cons.prems by simp
  have "(i + 1) * d \<le> 4096 * 2000" using Cons.prems by (intro mult_mono) simp_all
  then have "int ((i + 1) * d) \<le> int (4096 * 2000)" by (simp only: zle_int)
  then have c: "wrap_i32 (int i * int d + int d) = int (i + 1) * int d"
    by (simp add: wrap_i32_def algebra_simps)
  from i have "[i..<n] = i # [Suc i..<n]" by (simp add: upt_conv_Cons)
  moreover have "we_add recorder r c w = Some (w @ [(r, c)])" for c by (simp add: recorder_def)
  moreover define u where "u = w @ [(r, int i * int d)]"
  moreover obtain ps where "webp_loop recorder (replicate n d) n (i + 1) (int (i + 1) * int d) raws u =
      (ps, Inr (u @ zip raws (map (\<lambda>k. int k * int d) [i + 1..<n]), int n * int d))"
  proof -
    have "snd (webp_loop recorder (replicate n d) n (i + 1) (int (i + 1) * int d) raws u) =
        Inr (u @ zip raws (map (\<lambda>k. int k * int d) [i + 1..<n]), int n * int d)"
      by (rule Cons.IH) (use Cons.prems in simp_all)
    then show ?thesis by (intro that) (simp add: prod_eq_iff)
  qed
  ultimately show ?case using i c by (simp add: slice_get_def)
qed

text \<open>
  The timing of an exported animation, whatever the speed field holds (infinities and NaN included) and whatever the
  time stamps of the frames: every frame lasts 10 to 2000 ms, the frame rate of an MP4 is between 1 and 60, and for a request
  within the frame cap the WebP encoder gets the frames in order at the exact multiples of the delay, ending at the full
  duration, without overflow of the 32-bit clock.
\<close>

theorem animation_timing:
  assumes "length raws \<le> max_frame_count"
  shows "let d = frame_delay speed pts
         in 10 \<le> d \<and> d \<le> 2000 \<and> (\<exists>v. fps_of_delay d = Fin v \<and> 1 \<le> v \<and> v \<le> 60) \<and>
            snd (webp_loop recorder (replicate (length raws) d) (length raws) 0 0 raws []) =
              Inr (zip raws (map (\<lambda>k. int k * int d) [0..<length raws]), int (length raws) * int d)"
  using frame_delay_bounds [of speed pts] fps_bounds [of "frame_delay speed pts"]
    webp_loop_times [of "frame_delay speed pts" 0 raws "length raws" "[]"] assms
  by (simp add: Let_def max_frame_count_def)

text \<open>Three frames, one second apart, at a speed that is not a number.\<close>

theorem animation_timing_witness:
  "let d = frame_delay 0x7FC00000 [0, 1000, 2000]
   in d \<le> 2000 \<and> snd (webp_loop recorder (replicate 3 d) 3 0 0 [[1], [2], [3]] []) =
        Inr ([([1], 0), ([2], int d), ([3], 2 * int d)], 3 * int d)"
  using animation_timing [of "[[1], [2], [3]]" "0x7FC00000" "[0, 1000, 2000]"]
  by (simp add: Let_def max_frame_count_def numeral_3_eq_3 numeral_2_eq_2)

end
