(* ===== verification/Scene_Classifier.thy ===== *)
theory Scene_Classifier
  imports Scene_Dedup
begin

text \<open>
  The scene classifier (\<^verbatim>\<open>crates/frame-forge/src/scene_classifier.rs\<close>): the share of flat pixels, the share of
  edge pixels with its 16-bit arithmetic, the gray-level entropy (\<^verbatim>\<open>log2\<close> of the platform is a parameter), the
  motion score, and the choice of the category, which selects the stitching algorithm.
\<close>

section \<open>Measures\<close>

datatype scene_category = Anime | Landscape | LiveAction
datatype motion_type = Pan | Zoom | Rotation | Static

record scene_class =
  sc_category :: scene_category
  sc_motion :: motion_type
  sc_edge_density :: fl
  sc_color_entropy :: fl
  sc_flat_region_ratio :: fl

definition inner :: "gray \<Rightarrow> (nat \<times> nat) list" where
  "inner g = [(x, y). y \<leftarrow> [1..<gr_height g - 1], x \<leftarrow> [1..<gr_width g - 1]]"

text \<open>\<^verbatim>\<open>if v < min_v\<close>, \<^verbatim>\<open>if v > max_v\<close>, from 255 and 0.\<close>

definition is_flat :: "gray \<Rightarrow> nat \<times> nat \<Rightarrow> bool" where
  "is_flat g xy =
     (case xy of (x, y) \<Rightarrow>
        let vs = map (neighbour g x y) offsets
        in foldl max 0 vs - foldl min 255 vs \<le> 6)"

definition compute_flat_region_ratio :: "gray \<Rightarrow> fl" where
  "compute_flat_region_ratio g =
     (if gr_width g < 3 \<or> gr_height g < 3 then Fin 0
      else f_div (f_of_int (int (length (filter (is_flat g) (inner g)))))
                 (f_of_int (int ((gr_width g - 2) * (gr_height g - 2)))))"

definition sobel_x :: "int list" where "sobel_x = [-1, 0, 1, -2, 0, 2, -1, 0, 1]"
definition sobel_y :: "int list" where "sobel_y = [-1, -2, -1, 0, 0, 0, 1, 2, 1]"

text \<open>Sums and products of \<^verbatim>\<open>i16\<close>.\<close>

definition convolve :: "int list \<Rightarrow> gray \<Rightarrow> nat \<Rightarrow> nat \<Rightarrow> int" where
  "convolve ker g x y =
     foldl (\<lambda>acc (k, off). wrap_i16 (acc + wrap_i16 (neighbour g x y off * k))) 0 (zip ker offsets)"

text \<open>
  \<^verbatim>\<open>((gx * gx + gy * gy) as f64).sqrt() > 30.0\<close>: the sum is an \<^verbatim>\<open>i16\<close> before the cast. The root of a negative
  number is NaN; rounding is monotone and \<open>sqrt 901\<close> is not near 30, so on integers the test is \<open>900 < v\<close>.
\<close>

definition gradient :: "gray \<Rightarrow> nat \<times> nat \<Rightarrow> int" where
  "gradient g xy =
     (case xy of (x, y) \<Rightarrow>
        let gx = convolve sobel_x g x y; gy = convolve sobel_y g x y
        in wrap_i16 (wrap_i16 (gx * gx) + wrap_i16 (gy * gy)))"

definition is_edge :: "gray \<Rightarrow> nat \<times> nat \<Rightarrow> bool" where
  "is_edge g xy \<longleftrightarrow> 900 < gradient g xy"

definition edge_count :: "gray \<Rightarrow> nat" where
  "edge_count g = length (filter (is_edge g) (inner g))"

definition compute_edge_density :: "gray \<Rightarrow> fl" where
  "compute_edge_density g =
     f_div (f_of_int (int (edge_count g))) (f_of_int (int (gr_width g * gr_height g)))"

definition compute_color_entropy :: "(fl \<Rightarrow> fl) \<Rightarrow> gray \<Rightarrow> fl" where
  "compute_color_entropy log2 g =
     (let total = f_of_int (int (gr_width g * gr_height g mod 2 ^ 32));
          hist = map (\<lambda>v. length (filter (\<lambda>p. p = v) (gr_pixels g))) (map word_of_nat [0..<256])
      in foldl (\<lambda>entropy count.
           if 0 < count then (let p = f_div (f_of_int (int count)) total in f_sub entropy (f_mul p (log2 p))) else entropy)
         (Fin 0) hist)"

definition compute_motion_score :: "gray \<Rightarrow> gray \<Rightarrow> fl" where
  "compute_motion_score a b =
     (let w = min (gr_width a) (gr_width b); h = min (gr_height a) (gr_height b);
          diff_sum = sum_list [\<bar>get_pixel a x y - get_pixel b x y\<bar>. y \<leftarrow> [0..<h], x \<leftarrow> [0..<w]]
      in f_div (f_of_int diff_sum) (f_mul (f_of_int (int (w * h mod 2 ^ 32))) (Fin 255)))"

section \<open>The category\<close>

definition lit :: "rat \<Rightarrow> fl" where "lit x = round64 x"

definition classify_motion :: "fl \<Rightarrow> motion_type" where
  "classify_motion score =
     (if fl_less score (lit (2 / 100)) then Static else if fl_less score (lit (10 / 100)) then Pan
      else if fl_less score (lit (25 / 100)) then Rotation else Zoom)"

definition classify :: "(fl \<Rightarrow> fl) \<Rightarrow> 'img vision \<Rightarrow> 'img list \<Rightarrow> scene_class" where
  "classify log2 v frames =
     (case frames of
        [] \<Rightarrow> \<lparr>sc_category = Landscape, sc_motion = Static, sc_edge_density = Fin 0, sc_color_entropy = Fin 0,
               sc_flat_region_ratio = Fin 0\<rparr>
      | first # rest \<Rightarrow>
          (let edge = compute_edge_density (vi_luma v first);
               entropy = compute_color_entropy log2 (vi_luma v first);
               flat = compute_flat_region_ratio (vi_luma v first);
               score = (case rest of second # _ \<Rightarrow> compute_motion_score (vi_luma v first) (vi_luma v second) | [] \<Rightarrow> Fin 0);
               category =
                 (if fl_less (lit (35 / 100)) flat then Anime
                  else if fl_less edge (lit (8 / 100)) then Landscape
                  else (case rest of
                          second # _ \<Rightarrow>
                            (if fl_less (lit (4 / 100)) (vi_match v (vi_resize v 128 128 first) (vi_resize v 128 128 second))
                             then Landscape else LiveAction)
                        | [] \<Rightarrow> LiveAction))
           in \<lparr>sc_category = category, sc_motion = classify_motion score, sc_edge_density = edge,
               sc_color_entropy = entropy, sc_flat_region_ratio = flat\<rparr>))"

section \<open>Edges across a step\<close>

text \<open>A vertical edge: \<open>c\<close> columns of one gray value, then columns that are \<open>d\<close> brighter.\<close>

definition step_row :: "nat \<Rightarrow> nat \<Rightarrow> nat \<Rightarrow> nat \<Rightarrow> byte list" where
  "step_row w c a d = replicate c (word_of_nat a) @ replicate (w - c) (word_of_nat (a + d))"

lemma uint_of_nat_byte: "n < 256 \<Longrightarrow> uint (word_of_nat n :: byte) = int n"
  by (simp add: unsigned_of_nat take_bit_eq_mod)

lemma step_length: "c \<le> w \<Longrightarrow> length (step_row w c a d) = w"
  by (simp add: step_row_def)

lemma step_pixel:
  assumes "c \<le> w" and "a + d < 256" and "x < w" and "y < h"
  shows "get_pixel (rows_of h (step_row w c a d)) x y = (if x < c then int a else int (a + d))"
proof -
  have "get_pixel (rows_of h (step_row w c a d)) x y = uint (step_row w c a d ! x)"
    by (rule get_pixel_rows) (use assms in \<open>simp_all add: step_length\<close>)
  then show ?thesis using assms by (simp add: step_row_def nth_append uint_of_nat_byte del: of_nat_add)
qed

lemma wrap_i16_small: "-32768 \<le> x \<Longrightarrow> x < 32768 \<Longrightarrow> wrap_i16 x = x"
  by (simp add: wrap_i16_def)

lemma convolve_small:
  assumes "length ker = 9" and "\<forall>k \<in> set ker. \<bar>k\<bar> \<le> 2"
  shows "convolve ker g x y = (\<Sum>(k, off) \<leftarrow> zip ker offsets. neighbour g x y off * k)"
proof -
  have n: "0 \<le> neighbour g x y off" "neighbour g x y off \<le> 255" for off
    using get_pixel_range by (simp_all add: neighbour_def split: prod.split)
  have p: "\<bar>neighbour g x y off * k\<bar> \<le> 510" if "k \<in> set ker" for off k
  proof -
    have "\<bar>neighbour g x y off\<bar> * \<bar>k\<bar> \<le> 255 * 2" using n [of off] that assms(2) by (intro mult_mono) auto
    then show ?thesis by (simp add: abs_mult)
  qed
  have "foldl (\<lambda>acc (k, off). wrap_i16 (acc + wrap_i16 (neighbour g x y off * k))) a zs =
      a + (\<Sum>(k, off) \<leftarrow> zs. neighbour g x y off * k)"
    if "set zs \<subseteq> set ker \<times> UNIV" and "\<bar>a\<bar> + 510 * int (length zs) \<le> 32000" for a zs
    using that
  proof (induction zs arbitrary: a)
    case (Cons z zs)
    obtain k off where z: "z = (k, off)" by (cases z)
    with Cons.prems have k: "k \<in> set ker" by simp
    have "wrap_i16 (neighbour g x y off * k) = neighbour g x y off * k"
      using p [OF k, of off] by (intro wrap_i16_small) auto
    moreover have "wrap_i16 (a + neighbour g x y off * k) = a + neighbour g x y off * k"
      using p [OF k, of off] Cons.prems(2) by (intro wrap_i16_small) auto
    ultimately show ?case
      using Cons.IH [of "a + neighbour g x y off * k"] Cons.prems p [OF k, of off] by (simp add: z)
  qed simp
  moreover have "set (zip ker offsets) \<subseteq> set ker \<times> UNIV" by (auto dest: set_zip_leftD)
  moreover have "length (zip ker offsets) = 9" using assms(1) by (simp add: offsets_def)
  ultimately show ?thesis by (simp add: convolve_def)
qed

lemma step_convolve:
  assumes "c \<le> w" and "a + d < 256" and "1 \<le> x" and "x + 1 < w" and "1 \<le> y" and "y + 1 < h"
  shows "convolve sobel_x (rows_of h (step_row w c a d)) x y = (if x = c \<or> x + 1 = c then 4 * int d else 0)"
    and "convolve sobel_y (rows_of h (step_row w c a d)) x y = 0"
proof -
  let ?g = "rows_of h (step_row w c a d)"
  have px: "get_pixel ?g i j = (if i < c then int a else int (a + d))" if "i < w" "j < h" for i j
    by (rule step_pixel [OF assms(1,2) that])
  have nb: "neighbour ?g x y (ky, kx) = (if x + kx - 1 < c then int a else int (a + d))" if "ky \<le> 2" "kx \<le> 2" for ky kx
    using px [of "x + kx - 1" "y + ky - 1"] that assms by (simp add: neighbour_def)
  have "convolve sobel_x ?g x y = (\<Sum>(k, off) \<leftarrow> zip sobel_x offsets. neighbour ?g x y off * k)"
    by (rule convolve_small) (simp_all add: sobel_x_def)
  also have "\<dots> = (if x = c \<or> x + 1 = c then 4 * int d else 0)"
    using assms(3) by (simp add: sobel_x_def offsets_def nb) auto
  finally show "convolve sobel_x ?g x y = (if x = c \<or> x + 1 = c then 4 * int d else 0)" .
  have "convolve sobel_y ?g x y = (\<Sum>(k, off) \<leftarrow> zip sobel_y offsets. neighbour ?g x y off * k)"
    by (rule convolve_small) (simp_all add: sobel_y_def)
  also have "\<dots> = 0" by (simp add: sobel_y_def offsets_def nb)
  finally show "convolve sobel_y ?g x y = 0" .
qed

lemma count_grid: "length (filter (\<lambda>(x, y). P x) [(x, y). y \<leftarrow> ys, x \<leftarrow> xs]) = length ys * length (filter P xs)"
proof (induction ys)
  case (Cons y ys)
  have "length (filter (\<lambda>(x, y). P x) (map (\<lambda>x. (x, y)) xs)) = length (filter P xs)" for y
    by (induction xs) simp_all
  with Cons show ?case by simp
qed simp

lemma count_step:
  assumes "2 \<le> c" and "c + 2 \<le> w"
  shows "length (filter (\<lambda>x. x = c \<or> x + 1 = c) [1..<w - 1]) = 2"
proof -
  have "length (filter (\<lambda>x. x = c \<or> x + 1 = c) [1..<w - 1]) = card (set (filter (\<lambda>x. x = c \<or> x + 1 = c) [1..<w - 1]))"
    by (rule distinct_card [symmetric]) simp
  also have "set (filter (\<lambda>x. x = c \<or> x + 1 = c) [1..<w - 1]) = {c - 1, c}" using assms by auto
  finally show ?thesis using assms by simp
qed

text \<open>
  Edges across a vertical step of the gray level, for any size of picture and place of the step. The squares are
  added in 16 bits, so a step is counted along its whole length when it is moderate (8 to 45 gray levels) but not at
  all when it is sharp enough for the sum to wrap below the threshold: a full black and white edge adds nothing to the
  edge density.
\<close>

theorem sharp_edges_missed:
  assumes "2 \<le> c" and "c + 2 \<le> w" and "a + d < 256"
  shows "edge_count (rows_of h (step_row w c a d)) = (if 900 < wrap_i16 (16 * int d * int d) then 2 * (h - 2) else 0) \<and>
    (8 \<le> d \<and> d \<le> 45 \<longrightarrow> edge_count (rows_of h (step_row w c a d)) = 2 * (h - 2)) \<and>
    (d = 255 \<longrightarrow> compute_edge_density (rows_of h (step_row w c a d)) = f_div (Fin 0) (f_of_int (int (w * h))))"
proof (intro conjI impI)
  let ?g = "rows_of h (step_row w c a d)"
  let ?s = "wrap_i16 (16 * int d * int d)"
  have dim: "gr_width ?g = w" "gr_height ?g = h" using assms by (simp_all add: rows_of_def step_length)
  have w16: "wrap_i16 (wrap_i16 v) = wrap_i16 v" "wrap_i16 (wrap_i16 v + wrap_i16 0) = wrap_i16 v" for v
    by (simp_all add: wrap_i16_def)
  have edge: "is_edge ?g (x, y) \<longleftrightarrow> (x = c \<or> x + 1 = c) \<and> 900 < ?s"
    if "Suc 0 \<le> x" "x < w - Suc 0" "Suc 0 \<le> y" "y < h - Suc 0" for x y
    using step_convolve [OF _ assms(3), of c w x y h] that assms(2) w16(2) [of "16 * int d * int d"] w16(2) [of 0]
    by (simp add: is_edge_def gradient_def mult.assoc mult.left_commute) (simp add: wrap_i16_def)
  have "filter (is_edge ?g) (inner ?g) = filter (\<lambda>(x, y). (x = c \<or> x + 1 = c) \<and> 900 < ?s) (inner ?g)"
  proof (rule filter_cong [OF refl])
    fix xy assume xy: "xy \<in> set (inner ?g)"
    obtain x y where p: "xy = (x, y)" by (cases xy)
    from xy have "Suc 0 \<le> x" "x < w - Suc 0" "Suc 0 \<le> y" "y < h - Suc 0" unfolding p inner_def dim by auto
    from edge [OF this] show "is_edge ?g xy = (case xy of (x, y) \<Rightarrow> (x = c \<or> x + 1 = c) \<and> 900 < ?s)" by (simp add: p)
  qed
  then have "edge_count ?g = (h - 1 - 1) * length (filter (\<lambda>x. (x = c \<or> x + 1 = c) \<and> 900 < ?s) [1..<w - 1])"
    using count_grid [of "\<lambda>x. (x = c \<or> x + 1 = c) \<and> 900 < ?s" "[1..<w - 1]" "[1..<h - 1]"]
    by (simp add: edge_count_def inner_def dim)
  then show count: "edge_count ?g = (if 900 < ?s then 2 * (h - 2) else 0)"
    using count_step [OF assms(1,2)] by (cases "900 < ?s") (simp_all add: numeral_2_eq_2)
  show "edge_count ?g = 2 * (h - 2)" if "8 \<le> d \<and> d \<le> 45"
  proof -
    have "8 * 8 \<le> d * d" "d * d \<le> 45 * 45" using that mult_mono [of 8 d 8 d] mult_mono [of d 45 d 45] by simp_all
    then have "int 64 \<le> int (d * d)" "int (d * d) \<le> int 2025" by (simp_all only: zle_int)
    then have "?s = 16 * int d * int d" by (intro wrap_i16_small) auto
    with \<open>int 64 \<le> int (d * d)\<close> show ?thesis by (simp add: count)
  qed
  show "compute_edge_density ?g = f_div (Fin 0) (f_of_int (int (w * h)))" if "d = 255"
  proof -
    have "edge_count ?g = 0" unfolding count using that by (simp add: wrap_i16_def)
    then show ?thesis using f_of_int_exact [of 0] by (simp add: compute_edge_density_def dim)
  qed
qed

theorem sharp_edges_missed_witness:
  "edge_count (rows_of 5 (step_row 6 3 0 255)) = 0 \<and> edge_count (rows_of 5 (step_row 6 3 100 45)) = 6"
  using sharp_edges_missed [of 3 6 0 255 5] sharp_edges_missed [of 3 6 100 45 5] by (simp add: wrap_i16_def)

end
