(* ===== verification/Panorama.thy ===== *)
theory Panorama
  imports Scene_Dedup
begin

text \<open>
  The panorama of \<^verbatim>\<open>stitch_anime\<close> (\<^verbatim>\<open>crates/frame-forge/src/stitch_anime.rs\<close>): the frames are placed by phase
  correlation, each against the nearest earlier frame that matches, and painted one after the other with a seam where two
  neighbours overlap. A panic (a frame smaller than the first) is an error here, as it is to the caller, who runs the
  algorithm in a task of its own. Widths and heights are below \<open>2 ^ 31\<close>.
\<close>

section \<open>Placing the frames\<close>

definition quality_threshold :: fl where "quality_threshold = round64 (15 / 100)"
definition max_backtrack :: nat where "max_backtrack = 40"

text \<open>The first earlier frame that matches well enough, and the best quality seen.\<close>

fun back_off :: "(nat \<Rightarrow> int \<times> int \<times> fl) \<Rightarrow> nat list \<Rightarrow> fl \<Rightarrow> (nat \<times> int \<times> int) option \<times> fl" where
  "back_off corr [] best = (None, best)"
| "back_off corr (ref # refs) best =
     (case corr ref of (dx, dy, q) \<Rightarrow>
        if fl_le quality_threshold q then (Some (ref, dx, dy), fl_max best q) else back_off corr refs (fl_max best q))"

definition place_frame ::
  "'img vision \<Rightarrow> 'img list \<Rightarrow> nat \<Rightarrow> (int \<times> int) list \<times> fl list \<Rightarrow> (int \<times> int) list \<times> fl list" where
  "place_frame v frames i s =
     (case s of (origins, quality) \<Rightarrow>
        (case back_off (\<lambda>ref. vi_correlate v (frames ! ref) (frames ! i))
                (map (\<lambda>k. i - k) [1..<Suc (min i max_backtrack)]) (Fin 0) of
           (Some (ref, dx, dy), best) \<Rightarrow>
             (origins @ [(wrap_i32 (fst (origins ! ref) + dx), wrap_i32 (snd (origins ! ref) + dy))], quality @ [best])
         | (None, best) \<Rightarrow> (origins @ [origins ! (i - 1)], quality @ [best])))"

definition place_frames :: "'img vision \<Rightarrow> 'img list \<Rightarrow> (int \<times> int) list \<times> fl list" where
  "place_frames v frames = fold (place_frame v frames) [1..<length frames] ([(0, 0)], [])"

section \<open>Painting\<close>

fun try_fold :: "('a \<Rightarrow> 's \<Rightarrow> 's option) \<Rightarrow> 'a list \<Rightarrow> 's \<Rightarrow> 's option" where
  "try_fold f [] s = Some s"
| "try_fold f (x # xs) s = (case f x s of None \<Rightarrow> None | Some t \<Rightarrow> try_fold f xs t)"

definition put_pixel :: "nat \<Rightarrow> nat \<Rightarrow> pixel \<Rightarrow> picture \<Rightarrow> picture" where
  "put_pixel x y p c = c\<lparr>pic_at := (pic_at c)((x, y) := p)\<rparr>"

definition paint_frame ::
  "picture \<Rightarrow> nat \<Rightarrow> nat \<Rightarrow> int \<Rightarrow> int \<Rightarrow> (int \<Rightarrow> int \<Rightarrow> bool) \<Rightarrow> picture \<Rightarrow> picture option" where
  "paint_frame rgb fw fh x0 y0 paint canvas =
     try_fold
       (\<lambda>(fy, fx) c.
          let cx = x0 + int fx; cy = y0 + int fy
          in if \<not> inside c cx cy then Some c
             else if paint cx cy then
               (if fx < pic_w rgb \<and> fy < pic_h rgb then Some (put_pixel (nat cx) (nat cy) (pic_at rgb (fx, fy)) c) else None)
             else Some c)
       [(fy, fx). fy \<leftarrow> [0..<fh], fx \<leftarrow> [0..<fw]] canvas"

text \<open>
  Whether the new frame is painted at a position of the canvas: everywhere outside the overlap with the frame before it,
  in the overlap on its own side of the seam.
\<close>

definition incoming ::
  "nat list option \<Rightarrow> bool \<Rightarrow> int \<Rightarrow> int \<Rightarrow> int \<Rightarrow> int \<Rightarrow> int \<Rightarrow> int \<Rightarrow> int \<Rightarrow> int \<Rightarrow> bool" where
  "incoming seam vertical pan_dx pan_dy ov_l ov_r ov_t ov_b cx cy =
     (if ov_l \<le> cx \<and> cx < ov_r \<and> ov_t \<le> cy \<and> cy < ov_b then
        (case seam of
           None \<Rightarrow> True
         | Some s \<Rightarrow>
             if vertical then
               (let cut = int (s ! nat (cx - ov_l)) in if 0 \<le> pan_dy then cut \<le> cy - ov_t else cy - ov_t < cut)
             else
               (let cut = int (s ! nat (cy - ov_t)) in if 0 \<le> pan_dx then cut \<le> cx - ov_l else cx - ov_l < cut))
      else True)"

text \<open>
  Coordinates and their sums are \<^verbatim>\<open>i32\<close> in the source and unbounded here. The canvas is checked against the sanity cap
  before anything is painted; for up to 1000 frames with sides below 2^14 its sides are below 2^25, and no sum leaves \<^verbatim>\<open>i32\<close>.
\<close>

definition paint_next ::
  "'img vision \<Rightarrow> 'img list \<Rightarrow> nat \<Rightarrow> nat \<Rightarrow> int \<Rightarrow> int \<Rightarrow> (int \<times> int) list \<Rightarrow> fl list \<Rightarrow> nat \<Rightarrow> picture \<Rightarrow> picture option" where
  "paint_next v frames fw fh min_x min_y origins quality i canvas =
     (let (ox, oy) = origins ! i; (px, py) = origins ! (i - 1);
          cxs = ox - min_x; cys = oy - min_y; cxp = px - min_x; cyp = py - min_y;
          rgb = vi_rgb v (frames ! i);
          ov_l = max cxs cxp; ov_r = min (cxs + int fw) (cxp + int fw);
          ov_t = max cys cyp; ov_b = min (cys + int fh) (cyp + int fh);
          ov_w = nat (ov_r - ov_l); ov_h = nat (ov_b - ov_t);
          pan_dx = ox - px; pan_dy = oy - py; vertical = \<bar>pan_dx\<bar> \<le> \<bar>pan_dy\<bar>;
          seam =
            (if 4 < ov_w \<and> 4 < ov_h \<and> fl_le quality_threshold (quality ! (i - 1))
             then Some (if vertical then find_horizontal_seam canvas ov_l ov_t rgb (ov_l - cxs) (ov_t - cys) ov_w ov_h
                        else find_vertical_seam canvas ov_l ov_t rgb (ov_l - cxs) (ov_t - cys) ov_w ov_h)
             else None)
      in paint_frame rgb fw fh cxs cys (incoming seam vertical pan_dx pan_dy ov_l ov_r ov_t ov_b) canvas)"

definition paint_frames ::
  "'img vision \<Rightarrow> 'img list \<Rightarrow> nat \<Rightarrow> nat \<Rightarrow> int \<Rightarrow> int \<Rightarrow> (int \<times> int) list \<Rightarrow> fl list \<Rightarrow> picture \<Rightarrow> picture option" where
  "paint_frames v frames fw fh min_x min_y origins quality canvas =
     (case paint_frame (vi_rgb v (frames ! 0)) fw fh (fst (origins ! 0) - min_x) (snd (origins ! 0) - min_y) (\<lambda>_ _. True) canvas of
        None \<Rightarrow> None
      | Some c \<Rightarrow> try_fold (paint_next v frames fw fh min_x min_y origins quality) [1..<length frames] c)"

section \<open>The algorithm\<close>

text \<open>The progress reports and the picture.\<close>

definition stitch_anime :: "'img vision \<Rightarrow> 'img list \<Rightarrow> (nat \<times> nat) list \<times> (string + picture)" where
  "stitch_anime v frames =
     (if length frames < 2 then ([], Inl ''need at least 2 frames'')
      else
        (let fw = vi_width v (frames ! 0); fh = vi_height v (frames ! 0);
             (origins, quality) = place_frames v frames;
             min_x = Min (fst ` set origins); max_x = Max ((\<lambda>p. wrap_i32 (fst p + int fw)) ` set origins);
             min_y = Min (snd ` set origins); max_y = Max ((\<lambda>p. wrap_i32 (snd p + int fh)) ` set origins);
             cw = nat ((max_x - min_x) mod 2 ^ 32); ch = nat ((max_y - min_y) mod 2 ^ 32);
             cap = (length frames + 1) * max (max fw fh) 1 * 2;
             blank = \<lparr>pic_w = cw, pic_h = ch, pic_at = (\<lambda>_. (0, 0, 0))\<rparr>
         in (map (\<lambda>i. (i, length frames - 1)) [1..<length frames],
             if cap < cw \<or> cap < ch then Inl ''computed canvas exceeds sanity cap''
             else (case paint_frames v frames fw fh min_x min_y origins quality blank of
                     None \<Rightarrow> Inl ''panic''
                   | Some canvas \<Rightarrow> Inr canvas))))"

section \<open>What painting shows\<close>

declare split_paired_All [simp del] split_paired_Ex [simp del]

text \<open>A position lies under a frame placed at an origin relative to the canvas, and shows this pixel of it.\<close>

definition under :: "nat \<Rightarrow> nat \<Rightarrow> int \<times> int \<Rightarrow> nat \<times> nat \<Rightarrow> bool" where
  "under fw fh ori p \<longleftrightarrow>
     fst ori \<le> int (fst p) \<and> int (fst p) < fst ori + int fw \<and> snd ori \<le> int (snd p) \<and> int (snd p) < snd ori + int fh"

definition frame_pixel :: "picture \<Rightarrow> int \<times> int \<Rightarrow> nat \<times> nat \<Rightarrow> pixel" where
  "frame_pixel rgb ori p = pic_at rgb (nat (int (fst p) - fst ori), nat (int (snd p) - snd ori))"

definition on_canvas :: "picture \<Rightarrow> nat \<times> nat \<Rightarrow> bool" where
  "on_canvas c p \<longleftrightarrow> fst p < pic_w c \<and> snd p < pic_h c"

lemma try_fold_append: "try_fold f (xs @ ys) s = (case try_fold f xs s of None \<Rightarrow> None | Some t \<Rightarrow> try_fold f ys t)"
  by (induction xs arbitrary: s) (auto split: option.split)

lemma put_pixel_size [simp]: "pic_w (put_pixel x y p c) = pic_w c" "pic_h (put_pixel x y p c) = pic_h c"
  by (simp_all add: put_pixel_def)

text \<open>A frame paints exactly its part of the canvas, where it is told to.\<close>

lemma paint_frame:
  assumes "paint_frame rgb fw fh x0 y0 paint canvas = Some c"
  shows "pic_w c = pic_w canvas \<and> pic_h c = pic_h canvas \<and>
    (\<forall>p. pic_at c p =
       (if on_canvas canvas p \<and> under fw fh (x0, y0) p \<and> paint (int (fst p)) (int (snd p)) then frame_pixel rgb (x0, y0) p
        else pic_at canvas p))"
proof -
  let ?step = "\<lambda>(fy, fx) c.
          let cx = x0 + int fx; cy = y0 + int fy
          in if \<not> inside c cx cy then Some c
             else if paint cx cy then
               (if fx < pic_w rgb \<and> fy < pic_h rgb then Some (put_pixel (nat cx) (nat cy) (pic_at rgb (fx, fy)) c) else None)
             else Some c"
  define loc :: "nat \<times> nat \<Rightarrow> int \<times> int" where "loc = (\<lambda>(fy, fx). (x0 + int fx, y0 + int fy))"
  have run: "pic_w t = pic_w s \<and> pic_h t = pic_h s \<and>
      (\<forall>p. pic_at t p =
         (if on_canvas s p \<and> (int (fst p), int (snd p)) \<in> loc ` set ps \<and> paint (int (fst p)) (int (snd p))
          then frame_pixel rgb (x0, y0) p else pic_at s p))"
    if "try_fold ?step ps s = Some t" for ps s t
    using that
  proof (induction ps arbitrary: s)
    case (Cons q ps)
    obtain fy fx where q: "q = (fy, fx)" by (cases q)
    let ?x = "x0 + int fx" and ?y = "y0 + int fy"
    from Cons.prems obtain u where u: "?step q s = Some u" and rest: "try_fold ?step ps u = Some t"
      by (auto split: option.splits)
    have same: "pic_w u = pic_w s" "pic_h u = pic_h s"
      using u by (auto simp: q Let_def split: if_splits)
    have val: "pic_at u p =
        (if on_canvas s p \<and> (int (fst p), int (snd p)) = (?x, ?y) \<and> paint ?x ?y then frame_pixel rgb (x0, y0) p else pic_at s p)" for p
      using u by (cases p) (auto simp: q Let_def put_pixel_def on_canvas_def inside_def frame_pixel_def split: if_splits)
    have "loc q = (?x, ?y)" by (simp add: loc_def q)
    then show ?case
      using Cons.IH [OF rest] unfolding val by (auto simp: same on_canvas_def)
  qed simp
  have set: "set [(fy, fx). fy \<leftarrow> [0..<fh], fx \<leftarrow> [0..<fw]] = {0..<fh} \<times> {0..<fw}" by auto
  have "(int (fst p), int (snd p)) \<in> loc ` set [(fy, fx). fy \<leftarrow> [0..<fh], fx \<leftarrow> [0..<fw]] \<longleftrightarrow> under fw fh (x0, y0) p" for p
    unfolding set
  proof
    assume "under fw fh (x0, y0) p"
    then show "(int (fst p), int (snd p)) \<in> loc ` ({0..<fh} \<times> {0..<fw})"
      by (intro image_eqI [of _ _ "(nat (int (snd p) - y0), nat (int (fst p) - x0))"]) (auto simp: loc_def under_def)
  qed (auto simp: loc_def under_def)
  note at = this
  show ?thesis by (rule run [OF assms [unfolded paint_frame_def], unfolded at])
qed

text \<open>After \<open>k\<close> frames: a position under some frame shows a frame that lies there, the others are black.\<close>

definition mosaic :: "nat \<Rightarrow> nat \<Rightarrow> (nat \<Rightarrow> picture) \<Rightarrow> (nat \<Rightarrow> int \<times> int) \<Rightarrow> nat \<Rightarrow> picture \<Rightarrow> bool" where
  "mosaic fw fh rgb loc k c \<longleftrightarrow>
     (\<forall>p. on_canvas c p \<longrightarrow>
        (if \<exists>j \<le> k. under fw fh (loc j) p then \<exists>j \<le> k. under fw fh (loc j) p \<and> pic_at c p = frame_pixel (rgb j) (loc j) p
         else pic_at c p = (0, 0, 0)))"

lemma mosaic_step:
  assumes "mosaic fw fh rgb loc k c"
    and "paint_frame (rgb (Suc k)) fw fh (fst (loc (Suc k))) (snd (loc (Suc k))) paint c = Some d"
    and "\<And>p. \<not> paint (int (fst p)) (int (snd p)) \<Longrightarrow> under fw fh (loc (Suc k)) p \<Longrightarrow> under fw fh (loc k) p"
  shows "mosaic fw fh rgb loc (Suc k) d"
  unfolding mosaic_def
proof (intro allI impI)
  fix p
  assume "on_canvas d p"
  from paint_frame [OF assms(2)] have size: "on_canvas d p = on_canvas c p"
    and at: "pic_at d p = (if on_canvas c p \<and> under fw fh (loc (Suc k)) p \<and> paint (int (fst p)) (int (snd p))
        then frame_pixel (rgb (Suc k)) (loc (Suc k)) p else pic_at c p)" by (simp_all add: on_canvas_def)
  with \<open>on_canvas d p\<close> have p: "on_canvas c p" by simp
  note old = assms(1) [unfolded mosaic_def, rule_format, OF p]
  show "if \<exists>j \<le> Suc k. under fw fh (loc j) p
        then \<exists>j \<le> Suc k. under fw fh (loc j) p \<and> pic_at d p = frame_pixel (rgb j) (loc j) p else pic_at d p = (0, 0, 0)"
  proof (cases "under fw fh (loc (Suc k)) p \<and> paint (int (fst p)) (int (snd p))")
    case True
    with at p show ?thesis by auto
  next
    case False
    then have same: "pic_at d p = pic_at c p" using at by auto
    have "(\<exists>j \<le> Suc k. under fw fh (loc j) p) \<longleftrightarrow> (\<exists>j \<le> k. under fw fh (loc j) p)"
      using False assms(3) [of p] by (auto simp: le_Suc_eq)
    with old show ?thesis unfolding same by (auto split: if_splits intro: le_SucI)
  qed
qed

lemma incoming_or_overlap:
  "\<not> incoming seam vertical dx dy l r t b cx cy \<Longrightarrow> l \<le> cx \<and> cx < r \<and> t \<le> cy \<and> cy < b"
  by (auto simp: incoming_def split: if_splits)

lemma paint_next_mosaic:
  assumes "paint_next v frames fw fh min_x min_y origins quality (Suc k) c = Some d"
    and "mosaic fw fh (\<lambda>j. vi_rgb v (frames ! j)) (\<lambda>j. (fst (origins ! j) - min_x, snd (origins ! j) - min_y)) k c"
  shows "mosaic fw fh (\<lambda>j. vi_rgb v (frames ! j)) (\<lambda>j. (fst (origins ! j) - min_x, snd (origins ! j) - min_y)) (Suc k) d \<and>
    pic_w d = pic_w c \<and> pic_h d = pic_h c"
proof -
  obtain seam vertical dx dy where
    pf: "paint_frame (vi_rgb v (frames ! Suc k)) fw fh (fst (origins ! Suc k) - min_x) (snd (origins ! Suc k) - min_y)
      (incoming seam vertical dx dy
        (max (fst (origins ! Suc k) - min_x) (fst (origins ! k) - min_x))
        (min (fst (origins ! Suc k) - min_x + int fw) (fst (origins ! k) - min_x + int fw))
        (max (snd (origins ! Suc k) - min_y) (snd (origins ! k) - min_y))
        (min (snd (origins ! Suc k) - min_y + int fh) (snd (origins ! k) - min_y + int fh))) c = Some d"
    using assms(1) by (simp add: paint_next_def Let_def split_def)
  have "mosaic fw fh (\<lambda>j. vi_rgb v (frames ! j)) (\<lambda>j. (fst (origins ! j) - min_x, snd (origins ! j) - min_y)) (Suc k) d"
    by (rule mosaic_step [OF assms(2), unfolded fst_conv snd_conv, OF pf])
      (drule incoming_or_overlap, simp add: under_def)
  with paint_frame [OF pf] show ?thesis by simp
qed

lemma paint_frames_mosaic:
  assumes "paint_frames v frames fw fh min_x min_y origins quality c = Some d" and "pic_at c = (\<lambda>_. (0, 0, 0))" and "frames \<noteq> []"
  shows "mosaic fw fh (\<lambda>j. vi_rgb v (frames ! j)) (\<lambda>j. (fst (origins ! j) - min_x, snd (origins ! j) - min_y)) (length frames - 1) d \<and>
    pic_w d = pic_w c \<and> pic_h d = pic_h c"
proof -
  let ?rgb = "\<lambda>j. vi_rgb v (frames ! j)" and ?loc = "\<lambda>j. (fst (origins ! j) - min_x, snd (origins ! j) - min_y)"
  from assms(1) obtain e where first: "paint_frame (?rgb 0) fw fh (fst (origins ! 0) - min_x) (snd (origins ! 0) - min_y) (\<lambda>_ _. True) c = Some e"
    and rest: "try_fold (paint_next v frames fw fh min_x min_y origins quality) [1..<length frames] e = Some d"
    by (auto simp: paint_frames_def split: option.splits)
  from paint_frame [OF first] assms(2) have e: "mosaic fw fh ?rgb ?loc 0 e" "pic_w e = pic_w c" "pic_h e = pic_h c"
    by (simp_all add: mosaic_def on_canvas_def)
  have "mosaic fw fh ?rgb ?loc k d \<and> pic_w d = pic_w e \<and> pic_h d = pic_h e"
    if "try_fold (paint_next v frames fw fh min_x min_y origins quality) [1..<Suc k] e = Some d" for k d
    using that
  proof (induction k arbitrary: d)
    case 0
    then show ?case using e by simp
  next
    case (Suc k)
    from Suc.prems obtain u where "try_fold (paint_next v frames fw fh min_x min_y origins quality) [1..<Suc k] e = Some u"
      and "paint_next v frames fw fh min_x min_y origins quality (Suc k) u = Some d"
      by (auto simp: try_fold_append split: option.splits)
    moreover from Suc.IH [OF this(1)] have "mosaic fw fh ?rgb ?loc k u" "pic_w u = pic_w e" "pic_h u = pic_h e" by auto
    ultimately show ?case using paint_next_mosaic [of v frames fw fh min_x min_y origins quality k u d] by simp
  qed
  from this [of "length frames - 1" d] rest assms(3) e show ?thesis by simp
qed

section \<open>Where the frames are\<close>

lemma back_off_ref: "back_off corr refs best = (Some (ref, dx, dy), q) \<Longrightarrow> ref \<in> set refs \<and> (\<exists>q'. corr ref = (dx, dy, q'))"
  by (induction refs arbitrary: best) (auto split: prod.splits if_splits)

text \<open>A frame is placed relative to an earlier one.\<close>

lemma place_frame_cases:
  assumes "place_frame v frames i (origins, quality) = (origins', quality')" and "0 < i" and "length origins = i" and "length quality = i - 1"
  obtains ori q where "origins' = origins @ [ori]" and "quality' = quality @ [q]"
    and "ori = origins ! (i - 1) \<or>
      (\<exists>ref dx dy q'. ref < i \<and> vi_correlate v (frames ! ref) (frames ! i) = (dx, dy, q') \<and>
         ori = (wrap_i32 (fst (origins ! ref) + dx), wrap_i32 (snd (origins ! ref) + dy)))"
proof -
  let ?refs = "map (\<lambda>k. i - k) [1..<Suc (min i max_backtrack)]"
  let ?corr = "\<lambda>ref. vi_correlate v (frames ! ref) (frames ! i)"
  have refs: "ref < i" if "ref \<in> set ?refs" for ref using that assms(2) by auto
  show thesis
  proof (cases "back_off ?corr ?refs (Fin 0)")
    case (Pair acc best)
    show thesis
    proof (cases acc)
      case None
      with assms(1) Pair that [of "origins ! (i - 1)" best] show thesis by (simp add: place_frame_def)
    next
      case (Some a)
      obtain ref dx dy where a: "a = (ref, dx, dy)" by (cases a)
      from back_off_ref [OF Pair [unfolded Some a]] obtain q' where "ref < i" "?corr ref = (dx, dy, q')" using refs by blast
      with assms(1) Pair Some a that [of "(wrap_i32 (fst (origins ! ref) + dx), wrap_i32 (snd (origins ! ref) + dy))" best]
      show thesis by (simp add: place_frame_def) blast
    qed
  qed
qed

text \<open>With displacements of at most \<open>D\<close> per step, the frame with number \<open>i\<close> is within \<open>i * D\<close> of the first.\<close>

lemma wrap_i32_small: "\<bar>x\<bar> < 2 ^ 31 \<Longrightarrow> wrap_i32 x = x"
  by (simp add: wrap_i32_def)

lemma place_frames_bound:
  assumes "place_frames v frames = (origins, quality)" and "frames \<noteq> []"
    and "\<And>a b dx dy q. a \<in> set frames \<Longrightarrow> b \<in> set frames \<Longrightarrow> vi_correlate v a b = (dx, dy, q) \<Longrightarrow> \<bar>dx\<bar> \<le> int DX \<and> \<bar>dy\<bar> \<le> int DY"
    and "length frames * DX < 2 ^ 31" and "length frames * DY < 2 ^ 31"
  shows "length origins = length frames \<and> length quality = length frames - 1 \<and>
    (\<forall>i < length frames. \<bar>fst (origins ! i)\<bar> \<le> int (i * DX) \<and> \<bar>snd (origins ! i)\<bar> \<le> int (i * DY))"
proof -
  have "length os = Suc k \<and> length qs = k \<and> (\<forall>i < Suc k. \<bar>fst (os ! i)\<bar> \<le> int (i * DX) \<and> \<bar>snd (os ! i)\<bar> \<le> int (i * DY))"
    if "fold (place_frame v frames) [1..<Suc k] ([(0, 0)], []) = (os, qs)" "Suc k \<le> length frames" for k os qs
    using that
  proof (induction k arbitrary: os qs)
    case 0
    then show ?case by auto
  next
    case (Suc k)
    obtain os' qs' where before: "fold (place_frame v frames) [1..<Suc k] ([(0, 0)], []) = (os', qs')" by force
    with Suc.IH Suc.prems(2) have IH: "length os' = Suc k" "length qs' = k"
      and le: "\<And>i. i < Suc k \<Longrightarrow> \<bar>fst (os' ! i)\<bar> \<le> int (i * DX) \<and> \<bar>snd (os' ! i)\<bar> \<le> int (i * DY)" by auto
    from Suc.prems(1) before have "place_frame v frames (Suc k) (os', qs') = (os, qs)" by simp
    then obtain ori q where o: "os = os' @ [ori]" "qs = qs' @ [q]" and ori: "ori = os' ! (Suc k - 1) \<or>
        (\<exists>ref dx dy q'. ref < Suc k \<and> vi_correlate v (frames ! ref) (frames ! Suc k) = (dx, dy, q') \<and>
           ori = (wrap_i32 (fst (os' ! ref) + dx), wrap_i32 (snd (os' ! ref) + dy)))"
      by (rule place_frame_cases) (simp_all add: IH)
    have new: "\<bar>fst ori\<bar> \<le> int (Suc k * DX) \<and> \<bar>snd ori\<bar> \<le> int (Suc k * DY)"
      using ori
    proof (elim disjE exE conjE)
      assume "ori = os' ! (Suc k - 1)"
      with le [of k] show ?thesis by simp
    next
      fix ref dx dy q'
      assume r: "ref < Suc k" and c: "vi_correlate v (frames ! ref) (frames ! Suc k) = (dx, dy, q')"
        and e: "ori = (wrap_i32 (fst (os' ! ref) + dx), wrap_i32 (snd (os' ! ref) + dy))"
      have d: "\<bar>dx\<bar> \<le> int DX" "\<bar>dy\<bar> \<le> int DY" using assms(3) [OF _ _ c] r Suc.prems(2) by simp_all
      have "ref * DX \<le> k * DX" "ref * DY \<le> k * DY" using r by simp_all
      with le [OF r] d have s: "\<bar>fst (os' ! ref) + dx\<bar> \<le> int (k * DX + DX)" "\<bar>snd (os' ! ref) + dy\<bar> \<le> int (k * DY + DY)"
        by linarith+
      have "Suc k * DX \<le> length frames * DX" "Suc k * DY \<le> length frames * DY"
        using Suc.prems(2) by (intro mult_right_mono; simp)+
      then have "k * DX + DX < 2 ^ 31" "k * DY + DY < 2 ^ 31" using assms(4,5) by simp_all
      then have "int (k * DX + DX) < 2 ^ 31" "int (k * DY + DY) < 2 ^ 31" by (simp_all flip: of_nat_add of_nat_mult)
      with s have "\<bar>fst (os' ! ref) + dx\<bar> < 2 ^ 31" "\<bar>snd (os' ! ref) + dy\<bar> < 2 ^ 31" by linarith+
      then have "wrap_i32 (fst (os' ! ref) + dx) = fst (os' ! ref) + dx" "wrap_i32 (snd (os' ! ref) + dy) = snd (os' ! ref) + dy"
        by (simp_all add: wrap_i32_small)
      with e s show ?thesis by (simp add: add.commute)
    qed
    have "\<bar>fst ((os' @ [ori]) ! i)\<bar> \<le> int (i * DX) \<and> \<bar>snd ((os' @ [ori]) ! i)\<bar> \<le> int (i * DY)" if "i < Suc (Suc k)" for i
    proof (cases "i < Suc k")
      case True
      with le [OF True] IH show ?thesis by (simp add: nth_append)
    next
      case False
      with that have "i = Suc k" by simp
      with new IH show ?thesis by (simp add: nth_append)
    qed
    with IH show ?case unfolding o by simp
  qed
  from this [of "length frames - 1" origins quality] assms(1,2) show ?thesis by (simp add: place_frames_def)
qed

text \<open>The canvas is the box of the frames.\<close>

lemma box:
  assumes "xs \<noteq> []" and "\<forall>x \<in> set xs. \<bar>f x\<bar> < 2 ^ 29" and "len < 2 ^ 29"
  shows "x \<in> set xs \<Longrightarrow>
      0 \<le> f x - Min (f ` set xs) \<and>
      f x - Min (f ` set xs) + int len \<le> int (nat ((Max ((\<lambda>p. wrap_i32 (f p + int len)) ` set xs) - Min (f ` set xs)) mod 2 ^ 32))"
    and "\<lbrakk>\<forall>x \<in> set xs. \<bar>f x\<bar> \<le> b\<rbrakk> \<Longrightarrow>
      int (nat ((Max ((\<lambda>p. wrap_i32 (f p + int len)) ` set xs) - Min (f ` set xs)) mod 2 ^ 32)) \<le> 2 * b + int len"
proof -
  let ?lo = "Min (f ` set xs)" and ?hi = "Max ((\<lambda>p. f p + int len) ` set xs)"
  have w: "(\<lambda>p. wrap_i32 (f p + int len)) ` set xs = (\<lambda>p. f p + int len) ` set xs"
    using assms(2,3) by (intro image_cong) (auto simp: wrap_i32_small)
  have lo: "?lo \<in> f ` set xs" and hi: "?hi \<in> (\<lambda>p. f p + int len) ` set xs" using assms(1) by (simp_all add: Min_in Max_in)
  have range: "?lo \<le> f x" "f x + int len \<le> ?hi" if "x \<in> set xs" for x using that by (simp_all add: Max_ge)
  from lo range have le: "?lo + int len \<le> ?hi" by auto
  have "?hi - ?lo < 2 ^ 31"
  proof -
    from lo obtain p where p: "?lo = f p" "p \<in> set xs" by blast
    from hi obtain q where q: "?hi = f q + int len" "q \<in> set xs" by blast
    have "f q < 2 ^ 29" "- (2 ^ 29) < f p" "int len < 2 ^ 29" using assms(2,3) p(2) q(2) by (auto simp: abs_less_iff)
    then show ?thesis unfolding p(1) q(1) by simp
  qed
  with le have m: "int (nat ((?hi - ?lo) mod 2 ^ 32)) = ?hi - ?lo" by simp
  show "0 \<le> f x - ?lo \<and> f x - ?lo + int len \<le> int (nat ((Max ((\<lambda>p. wrap_i32 (f p + int len)) ` set xs) - ?lo) mod 2 ^ 32))"
    if "x \<in> set xs" unfolding w m using range [OF that] by simp
  show "int (nat ((Max ((\<lambda>p. wrap_i32 (f p + int len)) ` set xs) - ?lo) mod 2 ^ 32)) \<le> 2 * b + int len"
    if b: "\<forall>x \<in> set xs. \<bar>f x\<bar> \<le> b" unfolding w m
  proof -
    from lo obtain p where p: "?lo = f p" "p \<in> set xs" by blast
    from hi obtain q where q: "?hi = f q + int len" "q \<in> set xs" by blast
    have "f q \<le> b" "- b \<le> f p" using b p(2) q(2) by (auto simp: abs_le_iff)
    then show "?hi - ?lo \<le> 2 * b + int len" unfolding p(1) q(1) by simp
  qed
qed

section \<open>Properties\<close>

text \<open>No painting panics when every frame is as large as the first.\<close>

lemma try_fold_total: "(\<And>x t. x \<in> set xs \<Longrightarrow> f x t \<noteq> None) \<Longrightarrow> try_fold f xs s \<noteq> None"
proof (induction xs arbitrary: s)
  case (Cons x xs)
  obtain t where t: "f x s = Some t" using Cons.prems [of x s] by auto
  have "try_fold f xs t \<noteq> None" by (rule Cons.IH) (use Cons.prems in simp)
  with t show ?case by simp
qed simp

lemma paint_frame_total: "fw \<le> pic_w rgb \<Longrightarrow> fh \<le> pic_h rgb \<Longrightarrow> paint_frame rgb fw fh x0 y0 paint c \<noteq> None"
  unfolding paint_frame_def by (rule try_fold_total) (auto simp: Let_def)

lemma paint_frames_total:
  assumes "\<forall>f \<in> set frames. fw \<le> pic_w (vi_rgb v f) \<and> fh \<le> pic_h (vi_rgb v f)" and "frames \<noteq> []"
  shows "\<exists>d. paint_frames v frames fw fh min_x min_y origins quality c = Some d"
proof -
  have size: "fw \<le> pic_w (vi_rgb v (frames ! i))" "fh \<le> pic_h (vi_rgb v (frames ! i))" if "i < length frames" for i
    using assms(1) that by auto
  have "try_fold (paint_next v frames fw fh min_x min_y origins quality) [1..<length frames] t \<noteq> None" for t
    by (rule try_fold_total) (simp add: paint_next_def Let_def split_def paint_frame_total size)
  moreover have "paint_frame (vi_rgb v (frames ! 0)) fw fh (fst (origins ! 0) - min_x) (snd (origins ! 0) - min_y) (\<lambda>_ _. True) c \<noteq> None"
    using assms(2) by (intro paint_frame_total size) simp_all
  ultimately show ?thesis by (auto simp: paint_frames_def split: option.split)
qed

text \<open>What a successful run has computed.\<close>

lemma stitch_anime_result:
  assumes "stitch_anime v frames = (reports, Inr canvas)" and "place_frames v frames = (origins, quality)"
    and "vi_width v (frames ! 0) = fw" and "vi_height v (frames ! 0) = fh"
  obtains blank where
    "paint_frames v frames fw fh (Min (fst ` set origins)) (Min (snd ` set origins)) origins quality blank = Some canvas"
    and "pic_at blank = (\<lambda>_. (0, 0, 0))" and "2 \<le> length frames"
    and "pic_w blank = nat ((Max ((\<lambda>p. wrap_i32 (fst p + int fw)) ` set origins) - Min (fst ` set origins)) mod 2 ^ 32)"
    and "pic_h blank = nat ((Max ((\<lambda>p. wrap_i32 (snd p + int fh)) ` set origins) - Min (snd ` set origins)) mod 2 ^ 32)"
  using assms by (auto simp: stitch_anime_def Let_def split: if_splits option.splits)

lemma place_frames_length:
  assumes "place_frames v frames = (origins, quality)" and "frames \<noteq> []"
  shows "length origins = length frames"
proof -
  have "length (fst (fold (place_frame v frames) is s)) = length (fst s) + length is" for "is" s
    by (induction "is" arbitrary: s) (auto simp: place_frame_def split: prod.split option.split)
  from this [of "[1..<length frames]" "([(0, 0)], [])"] assms show ?thesis by (simp add: place_frames_def)
qed

text \<open>
  C23: What a panorama is, independently of where the seams run. When the frames are parts of one scene, each taken where
  the algorithm places it, the result is exactly the part of the scene that the frames cover, black elsewhere: no row is
  lost or doubled at a seam or an edge, and every frame lies inside the canvas.
\<close>

theorem panorama_reconstructs:
  assumes "stitch_anime v frames = (reports, Inr canvas)" and "place_frames v frames = (origins, quality)"
    and "vi_width v (frames ! 0) = fw" and "vi_height v (frames ! 0) = fh" and "fw < 2 ^ 29" and "fh < 2 ^ 29"
    and "\<forall>p \<in> set origins. \<bar>fst p\<bar> < 2 ^ 29 \<and> \<bar>snd p\<bar> < 2 ^ 29"
    and "\<forall>i < length frames. \<forall>x < fw. \<forall>y < fh.
      pic_at (vi_rgb v (frames ! i)) (x, y) = scene (fst (origins ! i) + int x, snd (origins ! i) + int y)"
  shows "let x0 = Min (fst ` set origins); y0 = Min (snd ` set origins);
             loc = (\<lambda>i. (fst (origins ! i) - x0, snd (origins ! i) - y0))
         in (\<forall>i < length frames. 0 \<le> fst (loc i) \<and> fst (loc i) + int fw \<le> int (pic_w canvas) \<and>
               0 \<le> snd (loc i) \<and> snd (loc i) + int fh \<le> int (pic_h canvas)) \<and>
            (\<forall>p. on_canvas canvas p \<longrightarrow>
               pic_at canvas p =
                 (if \<exists>i < length frames. under fw fh (loc i) p then scene (x0 + int (fst p), y0 + int (snd p)) else (0, 0, 0)))"
proof -
  let ?x0 = "Min (fst ` set origins)" and ?y0 = "Min (snd ` set origins)"
  let ?loc = "\<lambda>i. (fst (origins ! i) - ?x0, snd (origins ! i) - ?y0)"
  from stitch_anime_result [OF assms(1-4)] obtain blank where
    paint: "paint_frames v frames fw fh ?x0 ?y0 origins quality blank = Some canvas"
    and blank: "pic_at blank = (\<lambda>_. (0, 0, 0))" and n: "2 \<le> length frames"
    and w: "pic_w blank = nat ((Max ((\<lambda>p. wrap_i32 (fst p + int fw)) ` set origins) - ?x0) mod 2 ^ 32)"
    and h: "pic_h blank = nat ((Max ((\<lambda>p. wrap_i32 (snd p + int fh)) ` set origins) - ?y0) mod 2 ^ 32)" .
  have ne: "frames \<noteq> []" using n by auto
  from paint_frames_mosaic [OF paint blank ne]
  have mos: "mosaic fw fh (\<lambda>j. vi_rgb v (frames ! j)) ?loc (length frames - 1) canvas"
    and size: "pic_w canvas = pic_w blank" "pic_h canvas = pic_h blank" by auto
  have len: "length origins = length frames" by (rule place_frames_length [OF assms(2) ne])
  have fits: "0 \<le> fst (?loc i) \<and> fst (?loc i) + int fw \<le> int (pic_w canvas) \<and>
      0 \<le> snd (?loc i) \<and> snd (?loc i) + int fh \<le> int (pic_h canvas)" if "i < length frames" for i
  proof -
    have o: "origins \<noteq> []" "origins ! i \<in> set origins" using len ne that by auto
    have bx: "\<forall>x \<in> set origins. \<bar>fst x\<bar> < 2 ^ 29" and bys: "\<forall>x \<in> set origins. \<bar>snd x\<bar> < 2 ^ 29" using assms(7) by auto
    from box(1) [of origins fst fw "origins ! i", OF o(1) bx assms(5) o(2)] box(1) [of origins snd fh "origins ! i", OF o(1) bys assms(6) o(2)]
    show ?thesis unfolding size w h by simp
  qed
  have val: "pic_at canvas p =
      (if \<exists>i < length frames. under fw fh (?loc i) p then scene (?x0 + int (fst p), ?y0 + int (snd p)) else (0, 0, 0))"
    if p: "on_canvas canvas p" for p
  proof -
    have le: "i \<le> length frames - 1 \<longleftrightarrow> i < length frames" for i using n by auto
    note m = mos [unfolded mosaic_def le, rule_format, OF p]
    show ?thesis
    proof (cases "\<exists>i < length frames. under fw fh (?loc i) p")
      case True
      with m obtain i where i: "i < length frames" "under fw fh (?loc i) p"
        and at: "pic_at canvas p = frame_pixel (vi_rgb v (frames ! i)) (?loc i) p" by auto
      have "nat (int (fst p) - fst (?loc i)) < fw" "nat (int (snd p) - snd (?loc i)) < fh"
        using i(2) by (auto simp: under_def nat_less_iff)
      with assms(8) i at True show ?thesis by (simp add: frame_pixel_def under_def add.commute)
    next
      case False
      with m show ?thesis by (simp only: if_False)
    qed
  qed
  show ?thesis unfolding Let_def by (intro conjI allI impI fits val)
qed

lemma stitch_succeeds:
  assumes "2 \<le> length frames" and "length frames \<le> 1000" and "0 < fw" and "fw < 2 ^ 14" and "0 < fh" and "fh < 2 ^ 14"
    and "\<forall>f \<in> set frames. vi_width v f = fw \<and> vi_height v f = fh \<and> gr_width (vi_luma v f) = fw \<and> gr_height (vi_luma v f) = fh \<and>
      pic_w (vi_rgb v f) = fw \<and> pic_h (vi_rgb v f) = fh"
    and "\<forall>a \<in> set frames. \<forall>b \<in> set frames. \<forall>x \<in> set (surface (vi_fourier v) fw fh (vi_luma v a) (vi_luma v b)). bounded_by_two x"
  obtains canvas origins quality blank where "place_frames v frames = (origins, quality)"
    and "paint_frames v frames fw fh (Min (fst ` set origins)) (Min (snd ` set origins)) origins quality blank = Some canvas"
    and "pic_at blank = (\<lambda>_. (0, 0, 0))" and "snd (stitch_anime v frames) = Inr canvas"
    and "pic_w canvas \<le> (2 * length frames - 1) * fw" and "pic_h canvas \<le> (2 * length frames - 1) * fh"
proof -
  obtain origins quality where pl: "place_frames v frames = (origins, quality)" by force
  let ?n = "length frames" and ?x0 = "Min (fst ` set origins)" and ?y0 = "Min (snd ` set origins)"
  let ?loc = "\<lambda>i. (fst (origins ! i) - ?x0, snd (origins ! i) - ?y0)"
  have ne: "frames \<noteq> []" using assms(1) by auto
  have corr: "\<bar>dx\<bar> \<le> int fw \<and> \<bar>dy\<bar> \<le> int fh"
    if "a \<in> set frames" "b \<in> set frames" "vi_correlate v a b = (dx, dy, q)" for a b dx dy q
  proof -
    have "locate fw fh (surface (vi_fourier v) fw fh (vi_luma v a) (vi_luma v b)) = (dx, dy, q)"
      using that assms(7) by (simp add: vi_correlate_def phase_correlate_def)
    then show ?thesis by (rule locate_small) (use that assms in auto)
  qed
  have prod: "?n * fw < 2 ^ 29" "?n * fh < 2 ^ 29"
  proof -
    have "?n * fw \<le> 1000 * 2 ^ 14" "?n * fh \<le> 1000 * 2 ^ 14" using assms(2,4,6) by (intro mult_mono; simp)+
    then show "?n * fw < 2 ^ 29" "?n * fh < 2 ^ 29" by simp_all
  qed
  have "length origins = ?n \<and> length quality = ?n - 1 \<and>
      (\<forall>i < ?n. \<bar>fst (origins ! i)\<bar> \<le> int (i * fw) \<and> \<bar>snd (origins ! i)\<bar> \<le> int (i * fh))"
    by (rule place_frames_bound [OF pl ne corr]) (use prod in simp_all)
  then have len: "length origins = ?n" and near: "\<And>i. i < ?n \<Longrightarrow> \<bar>fst (origins ! i)\<bar> \<le> int (i * fw) \<and> \<bar>snd (origins ! i)\<bar> \<le> int (i * fh)"
    by auto
  have far: "\<bar>fst p\<bar> \<le> int ((?n - 1) * fw) \<and> \<bar>snd p\<bar> \<le> int ((?n - 1) * fh)" if "p \<in> set origins" for p
  proof -
    from that obtain i where i: "i < ?n" "p = origins ! i" using len by (metis in_set_conv_nth)
    have "i * fw \<le> (?n - 1) * fw" "i * fh \<le> (?n - 1) * fh" using i(1) by (intro mult_right_mono; simp)+
    then have "int (i * fw) \<le> int ((?n - 1) * fw)" "int (i * fh) \<le> int ((?n - 1) * fh)" by (simp_all only: of_nat_le_iff)
    with near [OF i(1)] i(2) show ?thesis by auto
  qed
  have "(?n - 1) * fw \<le> ?n * fw" "(?n - 1) * fh \<le> ?n * fh" by (intro mult_right_mono; simp)+
  with prod have "(?n - 1) * fw < 2 ^ 29" "(?n - 1) * fh < 2 ^ 29" by (blast intro: le_less_trans)+
  then have "int ((?n - 1) * fw) < 2 ^ 29" "int ((?n - 1) * fh) < 2 ^ 29" by (simp_all only: of_nat_less_numeral_power_cancel_iff)
  with far have small: "\<forall>p \<in> set origins. \<bar>fst p\<bar> < 2 ^ 29" "\<forall>p \<in> set origins. \<bar>snd p\<bar> < 2 ^ 29" by fastforce+
  have o: "origins \<noteq> []" using len ne by auto
  define cw where "cw = nat ((Max ((\<lambda>p. wrap_i32 (fst p + int fw)) ` set origins) - ?x0) mod 2 ^ 32)"
  define ch where "ch = nat ((Max ((\<lambda>p. wrap_i32 (snd p + int fh)) ` set origins) - ?y0) mod 2 ^ 32)"
  define blank where "blank = \<lparr>pic_w = cw, pic_h = ch, pic_at = (\<lambda>_. (0, 0, 0))\<rparr>"
  have bound: "c \<le> (2 * ?n - 1) * len" if "int c \<le> 2 * int ((?n - 1) * len) + int len" for c len
  proof -
    obtain k where k: "?n = Suc k" using assms(1) by (cases ?n) auto
    from that have "c \<le> 2 * (k * len) + len" unfolding k diff_Suc_1 by linarith
    then show ?thesis unfolding k by (simp add: algebra_simps)
  qed
  have "int cw \<le> 2 * int ((?n - 1) * fw) + int fw" unfolding cw_def by (rule box(2) [OF o small(1)]) (use far assms(4) in auto)
  then have cw: "cw \<le> (2 * ?n - 1) * fw" by (rule bound)
  have "int ch \<le> 2 * int ((?n - 1) * fh) + int fh" unfolding ch_def by (rule box(2) [OF o small(2)]) (use far assms(6) in auto)
  then have ch: "ch \<le> (2 * ?n - 1) * fh" by (rule bound)
  have "(2 * ?n - 1) * fw \<le> ((?n + 1) * 2) * max (max fw fh) 1" "(2 * ?n - 1) * fh \<le> ((?n + 1) * 2) * max (max fw fh) 1"
    by (intro mult_mono; simp)+
  with cw ch have cap: "cw \<le> (?n + 1) * max (max fw fh) 1 * 2" "ch \<le> (?n + 1) * max (max fw fh) 1 * 2" by (simp_all add: algebra_simps)
  obtain canvas where paint: "paint_frames v frames fw fh ?x0 ?y0 origins quality blank = Some canvas"
    using paint_frames_total [of frames fw v fh] assms(7) ne by fastforce
  have f0: "vi_width v (frames ! 0) = fw" "vi_height v (frames ! 0) = fh" using assms(7) ne by auto
  have run: "snd (stitch_anime v frames) = Inr canvas"
    using assms(1) cap paint unfolding stitch_anime_def Let_def pl prod.case f0 cw_def [symmetric] ch_def [symmetric] blank_def [symmetric]
    by simp
  from paint_frames_mosaic [OF paint _ ne] have size: "pic_w canvas = cw" "pic_h canvas = ch" by (auto simp: blank_def)
  show thesis
    by (rule that [OF pl paint _ run]) (use cw ch in \<open>simp_all add: blank_def size\<close>)
qed

text \<open>
  C25: The panorama never fails for want of room. For 2 to 1000 frames of one size, whatever the transforms do as long as the
  correlation surface has values between -2 and 2 (an inverse transform of numbers of modulus at most one, divided by
  their number), the displacements stay so small that the canvas is within the sanity cap: the algorithm returns a picture
  of at most \<open>2 n - 1\<close> frames in each direction, made of pixels of the frames and of black.
\<close>

theorem panorama_total:
  assumes "2 \<le> length frames" and "length frames \<le> 1000" and "0 < fw" and "fw < 2 ^ 14" and "0 < fh" and "fh < 2 ^ 14"
    and "\<forall>f \<in> set frames. vi_width v f = fw \<and> vi_height v f = fh \<and> gr_width (vi_luma v f) = fw \<and> gr_height (vi_luma v f) = fh \<and>
      pic_w (vi_rgb v f) = fw \<and> pic_h (vi_rgb v f) = fh"
    and "\<forall>a \<in> set frames. \<forall>b \<in> set frames. \<forall>x \<in> set (surface (vi_fourier v) fw fh (vi_luma v a) (vi_luma v b)). bounded_by_two x"
  shows "\<exists>canvas. snd (stitch_anime v frames) = Inr canvas \<and>
    pic_w canvas \<le> (2 * length frames - 1) * fw \<and> pic_h canvas \<le> (2 * length frames - 1) * fh \<and>
    (\<forall>p. on_canvas canvas p \<longrightarrow>
       pic_at canvas p = (0, 0, 0) \<or> (\<exists>f \<in> set frames. \<exists>x < fw. \<exists>y < fh. pic_at canvas p = pic_at (vi_rgb v f) (x, y)))"
proof -
  from stitch_succeeds [OF assms] obtain canvas origins quality blank where pl: "place_frames v frames = (origins, quality)"
    and paint: "paint_frames v frames fw fh (Min (fst ` set origins)) (Min (snd ` set origins)) origins quality blank = Some canvas"
    and blank: "pic_at blank = (\<lambda>_. (0, 0, 0))" and run: "snd (stitch_anime v frames) = Inr canvas"
    and size: "pic_w canvas \<le> (2 * length frames - 1) * fw" "pic_h canvas \<le> (2 * length frames - 1) * fh" .
  let ?n = "length frames" and ?loc = "\<lambda>i. (fst (origins ! i) - Min (fst ` set origins), snd (origins ! i) - Min (snd ` set origins))"
  have ne: "frames \<noteq> []" using assms(1) by auto
  from paint_frames_mosaic [OF paint blank ne] have mos: "mosaic fw fh (\<lambda>j. vi_rgb v (frames ! j)) ?loc (?n - 1) canvas" by simp
  have val: "pic_at canvas p = (0, 0, 0) \<or> (\<exists>f \<in> set frames. \<exists>x < fw. \<exists>y < fh. pic_at canvas p = pic_at (vi_rgb v f) (x, y))"
    if p: "on_canvas canvas p" for p
  proof (cases "\<exists>i \<le> ?n - 1. under fw fh (?loc i) p")
    case True
    with mos [unfolded mosaic_def, rule_format, OF p] obtain i where i: "i \<le> ?n - 1" "under fw fh (?loc i) p"
      and at: "pic_at canvas p = frame_pixel (vi_rgb v (frames ! i)) (?loc i) p" by auto
    have "nat (int (fst p) - fst (?loc i)) < fw" "nat (int (snd p) - snd (?loc i)) < fh" "frames ! i \<in> set frames"
      using i assms(1) by (auto simp: under_def nat_less_iff)
    with at show ?thesis unfolding frame_pixel_def by blast
  next
    case False
    with mos [unfolded mosaic_def, rule_format, OF p] show ?thesis by auto
  qed
  from run size val show ?thesis by blast
qed

section \<open>An example\<close>

text \<open>Two views of a scene, the second two rows below the first, and transforms whose peak is at this displacement.\<close>

definition demo_scene :: "int \<times> int \<Rightarrow> pixel" where
  "demo_scene p = (word_of_int (fst p), word_of_int (snd p), 7)"

definition demo_transforms :: fourier where
  "demo_transforms = \<lparr>fo_forward = id,
     fo_inverse = (\<lambda>xs. if length xs = 8 then (replicate 8 (Fin 0, Fin 0))[2 := (Fin 128, Fin 0)] else xs),
     fo_cross = (\<lambda>a b. a), fo_norm = fst, fo_cos = (\<lambda>_. Fin 0)\<rparr>"

definition demo_views :: "int vision" where
  "demo_views = \<lparr>vi_luma = (\<lambda>_. rows_of 8 (replicate 16 0)), vi_thumb = (\<lambda>_. []), vi_width = (\<lambda>_. 16), vi_height = (\<lambda>_. 8),
     vi_resize = (\<lambda>_ _ k. k), vi_rgb = (\<lambda>k. \<lparr>pic_w = 16, pic_h = 8, pic_at = (\<lambda>(x, y). demo_scene (int x, k + int y))\<rparr>),
     vi_of_rgb = (\<lambda>_. 0), vi_fourier = demo_transforms\<rparr>"

lemma demo_surface:
  "surface demo_transforms 16 8 ga gb = replicate 32 (Fin 0) @ replicate 16 (Fin 1) @ replicate 80 (Fin 0)"
proof -
  let ?f = "fo_inverse demo_transforms"
  let ?row = "\<lambda>y. if y = (2 :: nat) then (Fin 128, Fin 0) else (Fin 0, Fin 0)"
  have cols: "on_columns ?f 16 8 data = [?row y. y \<leftarrow> [0..<8], x \<leftarrow> [0..<16]]" for data
    by (simp add: on_columns_def demo_transforms_def Let_def upt_rec numeral_eq_Suc)
  have rows: "on_rows ?f 16 8 [?row y. y \<leftarrow> [0..<8], x \<leftarrow> [0..<16]] = [?row y. y \<leftarrow> [0..<8], x \<leftarrow> [0..<16]]"
    by (simp add: on_rows_def demo_transforms_def Let_def upt_rec numeral_eq_Suc)
  have r: "round64 0 = Fin 0" "round64 1 = Fin 1" "round64 128 = Fin 128" "round64 (1 / 128) = Fin (1 / 128)"
    using round64_int [of 0] round64_int [of 1] round64_int [of 128] round64_dyadic [of 1 "- 7"] by (simp_all add: power_int_minus)
  show ?thesis
    by (simp add: surface_def ifft2d_def cols rows f_of_int_def r) (simp add: upt_rec numeral_eq_Suc r)
qed

lemma demo_peak: "peak (Fin 0) 0 0 (replicate 32 (Fin 0) @ replicate 16 (Fin 1) @ replicate 80 (Fin 0)) = (Fin 1, 32)"
proof -
  have skip: "peak m p i (replicate n x @ ys) = peak m p (i + n) ys" if "\<not> fl_less m x" for m p i n x ys
    using that by (induction n arbitrary: i) simp_all
  have one: "replicate 16 (Fin 1) @ replicate 80 (Fin 0) = Fin 1 # replicate 15 (Fin 1) @ replicate 80 (Fin 0) @ []"
    by (simp add: numeral_eq_Suc)
  have rest: "peak m p i (replicate n x) = (m, p)" if "\<not> fl_less m x" for m p i n x
    using skip [OF that, of p i n "[]"] by simp
  show ?thesis by (simp add: skip rest one)
qed

lemma demo_refine: "parabola_refine (Fin 1) (Fin 1) (Fin 1) = Fin 0" "parabola_refine (Fin 0) (Fin 1) (Fin 0) = Fin 0"
proof -
  obtain t where "round64 (1 / 10 ^ 10) = Fin t" "1 / 10 ^ 11 < t" by (rule tiny)
  moreover have "round64 0 = Fin 0" "round64 1 = Fin 1" "round64 2 = Fin 2" "round64 4 = Fin 4"
    using round64_int [of 0] round64_int [of 1] round64_int [of 2] round64_int [of 4] by simp_all
  ultimately show "parabola_refine (Fin 1) (Fin 1) (Fin 1) = Fin 0" "parabola_refine (Fin 0) (Fin 1) (Fin 0) = Fin 0"
    by (simp_all add: parabola_refine_def f_sub_def f_add_def)
qed

lemma demo_correlate: "vi_correlate demo_views a b = (0, 2, Fin 1)"
proof -
  let ?r = "replicate 32 (Fin 0) @ replicate 16 (Fin 1) @ replicate 80 (Fin 0)"
  have r: "?r ! 47 = Fin 1" "?r ! 33 = Fin 1" "?r ! 16 = Fin 0" "?r ! 48 = Fin 0" by (simp_all add: nth_append)
  have i: "f_of_int 0 = Fin 0" "f_of_int 2 = Fin 2" "f_of_int 8 = Fin 8" "f_of_int 16 = Fin 16"
    using f_of_int_exact [of 0] f_of_int_exact [of 2] f_of_int_exact [of 8] f_of_int_exact [of 16] by simp_all
  have f: "round64 0 = Fin 0" "round64 2 = Fin 2" "round64 4 = Fin 4" "round64 8 = Fin 8"
    using round64_int [of 0] round64_int [of 2] round64_int [of 4] round64_int [of 8] by simp_all
  have "locate 16 8 ?r = (0, 2, Fin 1)"
    unfolding locate_def demo_peak Let_def prod.case
    by (simp add: r demo_refine unwrap_def i f f_add_def trunc_def floor_eq_iff)
  then show ?thesis
    by (simp add: vi_correlate_def phase_correlate_def demo_views_def rows_of_def demo_surface)
qed

lemma demo_places: "place_frames demo_views [0, 2] = ([(0, 0), (0, 2)], [Fin 1])"
proof -
  obtain t where "round64 (15 / 100) = Fin t" "of_int 0 \<le> t" "t \<le> of_int 1"
    by (rule round64_within [of 0 "15 / 100" 1]) simp_all
  then have "fl_le quality_threshold (Fin 1)" by (simp add: quality_threshold_def)
  then show ?thesis
    by (simp add: place_frames_def place_frame_def demo_correlate max_backtrack_def wrap_i32_small)
qed

lemma demo_bounded:
  "\<forall>a \<in> set [0, 2]. \<forall>b \<in> set [0, 2]. \<forall>x \<in> set (surface (vi_fourier demo_views) 16 8 (vi_luma demo_views a) (vi_luma demo_views b)). bounded_by_two x"
proof -
  have "vi_fourier demo_views = demo_transforms" by (simp add: demo_views_def)
  then show ?thesis by (simp only: demo_surface) (auto simp: bounded_by_two_def)
qed

lemma demo_pan: obtains canvas where "snd (stitch_anime demo_views [0, 2]) = Inr canvas"
  by (rule stitch_succeeds [of "[0, 2]" 16 8 demo_views, OF _ _ _ _ _ _ _ demo_bounded])
    (use that in \<open>simp_all add: demo_views_def rows_of_def\<close>)

theorem panorama_reconstructs_witness:
  "\<exists>canvas. snd (stitch_anime demo_views [0, 2]) = Inr canvas \<and> 10 \<le> pic_h canvas \<and>
     (\<forall>y < 10. \<forall>x < 16. pic_at canvas (x, y) = demo_scene (int x, int y))"
proof -
  let ?o = "[(0, 0), (0, 2)] :: (int \<times> int) list"
  obtain canvas where run: "snd (stitch_anime demo_views [0, 2]) = Inr canvas" by (rule demo_pan)
  then have "stitch_anime demo_views [0, 2] = (fst (stitch_anime demo_views [0, 2]), Inr canvas)" by (metis prod.collapse)
  note run' = this
  have w: "vi_width demo_views ([0, 2] ! 0) = 16" "vi_height demo_views ([0, 2] ! 0) = 8" by (simp_all add: demo_views_def)
  have small: "\<forall>p \<in> set ?o. \<bar>fst p\<bar> < (2 :: int) ^ 29 \<and> \<bar>snd p\<bar> < (2 :: int) ^ 29" by simp
  have views: "\<forall>i < length [0, 2 :: int]. \<forall>x < 16. \<forall>y < 8. pic_at (vi_rgb demo_views ([0, 2] ! i)) (x, y) =
      demo_scene (fst (?o ! i) + int x, snd (?o ! i) + int y)"
    by (auto simp: demo_views_def less_Suc_eq)
  have m: "Min (fst ` set ?o) = 0" "Min (snd ` set ?o) = 0" by simp_all
  have n: "(16 :: nat) < 2 ^ 29" "(8 :: nat) < 2 ^ 29" by simp_all
  note pr = panorama_reconstructs [OF run' demo_places w n small views, unfolded Let_def m diff_0_right prod.collapse]
  from pr have fits: "\<forall>i < length [0, 2 :: int]. 0 \<le> fst (?o ! i) \<and> fst (?o ! i) + int 16 \<le> int (pic_w canvas) \<and>
      0 \<le> snd (?o ! i) \<and> snd (?o ! i) + int 8 \<le> int (pic_h canvas)" by blast
  from pr have at: "\<forall>p. on_canvas canvas p \<longrightarrow> pic_at canvas p =
      (if \<exists>i < length [0, 2 :: int]. under 16 8 (?o ! i) p then demo_scene (0 + int (fst p), 0 + int (snd p)) else (0, 0, 0))"
    by blast
  from fits [rule_format, of 1] have size: "10 \<le> pic_h canvas" "16 \<le> pic_w canvas" by simp_all
  have "pic_at canvas (x, y) = demo_scene (int x, int y)" if "y < 10" "x < 16" for x y
  proof -
    have "\<exists>i < length [0, 2 :: int]. under 16 8 (?o ! i) (x, y)"
    proof (cases "y < 8")
      case True
      with that show ?thesis by (intro exI [of _ 0]) (simp add: under_def)
    next
      case False
      with that show ?thesis by (intro exI [of _ 1]) (simp add: under_def)
    qed
    with at that size show ?thesis by (simp add: on_canvas_def)
  qed
  with run size show ?thesis by blast
qed

theorem panorama_total_witness:
  "\<exists>canvas. snd (stitch_anime demo_views [0, 2]) = Inr canvas \<and> pic_w canvas \<le> 48 \<and> pic_h canvas \<le> 24"
proof -
  have "\<exists>canvas. snd (stitch_anime demo_views [0, 2]) = Inr canvas \<and> pic_w canvas \<le> (2 * length [0, 2 :: int] - 1) * 16 \<and>
      pic_h canvas \<le> (2 * length [0, 2 :: int] - 1) * 8"
    using panorama_total [of "[0, 2]" 16 8 demo_views, OF _ _ _ _ _ _ _ demo_bounded]
    by (simp add: demo_views_def rows_of_def) blast
  then show ?thesis by simp
qed

end
