(* ===== verification/Resources.thy ===== *)
theory Resources
  imports Float_Ops
begin

text \<open>
  The load check before an export (\<^verbatim>\<open>crates/frame-forge/src/resources.rs\<close>, on Linux): the one-minute load per
  processor and the share of memory in use, read from the text of files under \<^verbatim>\<open>/proc\<close>. The files are a
  parameter: the text of a path, or nothing when it cannot be read.
\<close>

type_synonym proc_files = "string \<Rightarrow> string option"

definition starts_with :: "string \<Rightarrow> string \<Rightarrow> bool" where
  "starts_with p s \<longleftrightarrow> strip_prefix p s \<noteq> None"

definition nth_word :: "nat \<Rightarrow> string \<Rightarrow> string option" where
  "nth_word n s = slice_get (split_whitespace s) n"

definition parse_kb :: "string \<Rightarrow> nat" where
  "parse_kb s = (case nth_word 0 s of None \<Rightarrow> 0 | Some v \<Rightarrow> (case parse_unsigned 64 v of None \<Rightarrow> 0 | Some n \<Rightarrow> n))"

definition cpu_count :: "proc_files \<Rightarrow> nat" where
  "cpu_count rd =
     max 1 (length (filter (starts_with ''processor'')
       (str_lines (case rd ''/proc/cpuinfo'' of None \<Rightarrow> [] | Some t \<Rightarrow> t))))"

definition cpu_load :: "proc_files \<Rightarrow> fl" where
  "cpu_load rd =
     (case rd ''/proc/loadavg'' of
        None \<Rightarrow> Fin 0
      | Some raw \<Rightarrow>
          (case Option.bind (nth_word 0 raw) parse_f64 of
             None \<Rightarrow> Fin 0
           | Some load1 \<Rightarrow> fl_min (f_div load1 (f_of_int (int (max (cpu_count rd) 1)))) (Fin 1)))"

definition zfs_arc_reclaimable_kb :: "proc_files \<Rightarrow> nat" where
  "zfs_arc_reclaimable_kb rd =
     (case rd ''/proc/spl/kstat/zfs/arcstats'' of
        None \<Rightarrow> 0
      | Some raw \<Rightarrow>
          (case first_some (strip_prefix ''size '') (str_lines raw) of
             None \<Rightarrow> 0
           | Some rest \<Rightarrow>
               (case Option.bind (nth_word 1 rest) (parse_unsigned 64) of None \<Rightarrow> 0 | Some bytes \<Rightarrow> bytes div 1024)))"

fun meminfo_loop :: "nat \<times> nat \<Rightarrow> string list \<Rightarrow> nat \<times> nat" where
  "meminfo_loop (total_kb, avail_kb) [] = (total_kb, avail_kb)"
| "meminfo_loop (total_kb, avail_kb) (line # rest) =
     (case strip_prefix ''MemTotal:'' line of
        Some t \<Rightarrow> meminfo_loop (parse_kb t, avail_kb) rest
      | None \<Rightarrow>
          (case strip_prefix ''MemAvailable:'' line of
             Some t \<Rightarrow> meminfo_loop (total_kb, parse_kb t) rest
           | None \<Rightarrow> meminfo_loop (total_kb, avail_kb) rest))"

definition memory_pressure :: "proc_files \<Rightarrow> fl" where
  "memory_pressure rd =
     (case rd ''/proc/meminfo'' of
        None \<Rightarrow> Fin 0
      | Some raw \<Rightarrow>
          (case meminfo_loop (0, 0) (str_lines raw) of (total_kb, avail_kb) \<Rightarrow>
             if total_kb = 0 then Fin 0
             else (let avail_kb = add_u64 avail_kb (zfs_arc_reclaimable_kb rd)
                   in if avail_kb < 512 * 1024 then Fin 1
                      else f_sub (Fin 1) (f_div (f_of_int (int avail_kb)) (f_of_int (int total_kb))))))"

definition resource_pressure :: "proc_files \<Rightarrow> fl" where
  "resource_pressure rd = fl_max (cpu_load rd) (memory_pressure rd)"

text \<open>The check of the export handlers: \<^verbatim>\<open>pressure > 0.8\<close>.\<close>

definition too_busy :: "proc_files \<Rightarrow> bool" where
  "too_busy rd \<longleftrightarrow> fl_less (round64 (8 / 10)) (resource_pressure rd)"

section \<open>Range\<close>

lemma parse_kb_less: "parse_kb s < 2 ^ 64"
  by (auto simp: parse_kb_def parse_unsigned_def split: option.splits if_splits)

lemma meminfo_less: "t < 2 ^ 64 \<Longrightarrow> a < 2 ^ 64 \<Longrightarrow> meminfo_loop (t, a) ls = (t', a') \<Longrightarrow> t' < 2 ^ 64 \<and> a' < 2 ^ 64"
proof (induction ls arbitrary: t a)
  case (Cons l ls)
  then show ?case using parse_kb_less by (auto split: option.splits)
qed simp

text \<open>A \<^verbatim>\<open>u64\<close> as \<^verbatim>\<open>f64\<close> is finite, and a non-zero one is at least 1.\<close>

lemma f_of_u64: "n < 2 ^ 64 \<Longrightarrow> \<exists>v. f_of_int (int n) = Fin v \<and> 0 \<le> v \<and> v \<le> 2 ^ 64 \<and> (0 < n \<longrightarrow> 1 \<le> v)"
proof -
  assume n: "n < 2 ^ 64"
  let ?v = "round_val 53 (- 1022) (of_int (int n))"
  have up: "?v \<le> 2 ^ 64"
  proof (cases "n = 0")
    case False
    have "(of_int (int n) :: rat) \<le> of_int (2 ^ 64)" using n by (subst of_int_le_iff) simp
    then have "(of_int (int n) :: rat) \<le> 2 powi 64" by simp
    with False show ?thesis using round_val_power_le [of 53 "- 1022" 64 "of_int (int n)"] by simp
  qed simp
  have low: "0 \<le> ?v" by (rule round_val_nonneg) simp
  have one: "1 \<le> ?v" if "0 < n"
    using round_val_mono [of 53 1 "of_int (int n)" "- 1022"] round_val_int [of 53 "- 1022" 1] that by simp
  have "?v < 2 ^ 1024"
  proof -
    have "(2 :: rat) ^ 64 < 2 ^ 1024" by (rule power_strict_increasing) simp_all
    with up show ?thesis by simp
  qed
  moreover have "\<not> ?v \<le> - (2 ^ 1024)"
  proof -
    have "- (2 ^ 1024) < (0 :: rat)" by simp
    with low show ?thesis by linarith
  qed
  ultimately have "f_of_int (int n) = Fin ?v" by (simp add: f_of_int_def round64_def round_fl_def Let_def)
  with up low one show ?thesis by blast
qed

lemma cpu_load_range: "cpu_load rd = NInf \<or> (\<exists>v. cpu_load rd = Fin v \<and> v \<le> 1)"
proof -
  have "fl_min x (Fin 1) = NInf \<or> (\<exists>v. fl_min x (Fin 1) = Fin v \<and> v \<le> 1)" for x
    by (cases x) (auto simp: fl_min_def)
  then show ?thesis by (auto simp: cpu_load_def split: option.split)
qed

lemma round64_range:
  assumes "- (2 ^ 70) \<le> x" and "x \<le> 1"
  shows "\<exists>v. round64 x = Fin v \<and> v \<le> 1"
proof -
  let ?v = "round_val 53 (- 1022) x"
  have "?v \<le> round_val 53 (- 1022) 1" by (rule round_val_mono) (use assms in simp_all)
  moreover have "round_val 53 (- 1022) (1 :: rat) = 1" using round_val_int [of 53 "- 1022" 1] by simp
  ultimately have up: "?v \<le> 1" by simp
  have "round_val 53 (- 1022) (- (2 ^ 70)) = - (2 ^ 70 :: rat)"
    using round_val_dyadic [of 53 "- 1022" 70 "- 1"] by simp
  moreover have "round_val 53 (- 1022) (- (2 ^ 70)) \<le> ?v" by (rule round_val_mono) (use assms in simp_all)
  moreover have "(2 :: rat) ^ 70 < 2 ^ 1024" by (rule power_strict_increasing) simp_all
  ultimately have "- (2 ^ 1024) < ?v" by linarith
  moreover have "\<not> 2 ^ 1024 \<le> ?v" using up power_increasing [of 1 1024 "2 :: rat"] by (simp del: power_increasing_iff)
  ultimately show ?thesis using up by (simp add: round64_def round_fl_def Let_def not_le)
qed

lemma memory_pressure_range: "\<exists>v. memory_pressure rd = Fin v \<and> v \<le> 1"
proof (cases "rd ''/proc/meminfo''")
  case None
  then show ?thesis by (simp add: memory_pressure_def)
next
  case (Some raw)
  obtain t a where m: "meminfo_loop (0, 0) (str_lines raw) = (t, a)" by force
  have tl: "t < 2 ^ 64" using meminfo_less [OF _ _ m] by simp
  define b where "b = add_u64 a (zfs_arc_reclaimable_kb rd)"
  have bl: "b < 2 ^ 64" by (simp add: b_def add_u64_def)
  show ?thesis
  proof (cases "t = 0 \<or> b < 512 * 1024")
    case True
    then show ?thesis using Some m by (auto simp: memory_pressure_def Let_def b_def)
  next
    case False
    obtain p where p: "f_of_int (int t) = Fin p" "1 \<le> p" using f_of_u64 [OF tl] False by auto
    obtain q where q: "f_of_int (int b) = Fin q" "0 \<le> q" "q \<le> 2 ^ 64" using f_of_u64 [OF bl] by auto
    have r: "0 \<le> q / p" "q / p \<le> 2 ^ 64"
    proof -
      show "0 \<le> q / p" using p q by simp
      have "q / p \<le> q" using p q by (simp add: divide_le_eq mult_le_cancel_left1)
      with q show "q / p \<le> 2 ^ 64" by simp
    qed
    let ?d = "round_val 53 (- 1022) (q / p)"
    have d0: "0 \<le> ?d" by (rule round_val_nonneg [OF r(1)])
    have "?d \<le> round_val 53 (- 1022) (2 ^ 64)" by (rule round_val_mono) (use r in simp_all)
    also have "round_val 53 (- 1022) (2 ^ 64 :: rat) = 2 ^ 64" using round_val_dyadic [of 53 "- 1022" 64 1] by simp
    finally have d1: "?d \<le> 2 ^ 64" .
    have big: "(2 :: rat) ^ 64 < 2 ^ 1024" by (rule power_strict_increasing) simp_all
    have "\<not> ?d \<le> - (2 ^ 1024)"
    proof -
      have "- (2 ^ 1024) < (0 :: rat)" by simp
      with d0 show ?thesis by linarith
    qed
    then have "f_div (Fin q) (Fin p) = Fin ?d"
      using p(2) d1 big by (simp add: round64_def round_fl_def Let_def)
    moreover have "\<exists>v. round64 (1 - ?d) = Fin v \<and> v \<le> 1"
    proof (rule round64_range)
      show "- (2 ^ 70) \<le> 1 - ?d" using d1 by simp
      show "1 - ?d \<le> 1" using d0 by simp
    qed
    ultimately show ?thesis
      using False Some m p q by (simp add: memory_pressure_def Let_def b_def [symmetric] f_sub_def f_add_def)
  qed
qed

text \<open>The pressure is always a number, at most 1, whatever the files hold; it is 1 when less than 512 MB are available.\<close>

lemma pressure_range: "\<exists>v. resource_pressure rd = Fin v \<and> v \<le> 1"
  using cpu_load_range [of rd] memory_pressure_range [of rd]
  by (auto simp: resource_pressure_def fl_max_def)

end
