(* ===== verification/Forge_Exports.thy ===== *)
theory Forge_Exports
  imports Forge_Frames Animation Scene_Classifier Panorama Resources
begin

text \<open>
  The exports of the frame-forge daemon: \<^verbatim>\<open>send_progress\<close>, \<^verbatim>\<open>handle_animate\<close> and \<^verbatim>\<open>handle_stitch\<close>
  (\<^verbatim>\<open>crates/frame-forge/src/server.rs\<close>), with the progress messages and the final message as they go over the
  wire. The stitching algorithms, the still-picture encoders and the loading of an encoded picture are parameters.
  The dump of the kept frames to a debug directory and the generation log are left out: neither is read back.
\<close>

section \<open>Messages\<close>

definition message :: "nat \<Rightarrow> byte list \<Rightarrow> byte list" where
  "message code payload = le_bytes 4 code @ le_bytes 4 (length payload) @ payload"

definition progress_json :: "string \<Rightarrow> string \<Rightarrow> nat \<Rightarrow> nat \<Rightarrow> fl \<Rightarrow> string" where
  "progress_json status phase current tot percent =
     ''{\"taskId\":\"\",\"status\":\"'' @ status @ ''\",\"phase\":\"'' @ phase @ ''\",\"current\":'' @ show_nat current
       @ '',\"total\":'' @ show_nat tot @ '',\"percent\":'' @ show_f64 percent
       @ (if status = ''error'' then '',\"error\":\"'' @ phase @ ''\"}'' else ''}'')"

definition progress_bytes :: "string \<Rightarrow> string \<Rightarrow> nat \<Rightarrow> nat \<Rightarrow> fl \<Rightarrow> byte list" where
  "progress_bytes status phase current tot percent =
     message (if status = ''error'' then 1 else 0) (bytes_of (progress_json status phase current tot percent))"

definition send_progress :: "string \<Rightarrow> string \<Rightarrow> nat \<Rightarrow> nat \<Rightarrow> fl \<Rightarrow> ('z, unit) wire" where
  "send_progress status phase current tot percent = write_all (progress_bytes status phase current tot percent)"

section \<open>Environment\<close>

text \<open>
  \<open>ex_stitch\<close> are the algorithms of the OpenCV build for landscapes and live action, absent in a build without it; they
  give the progress reports (pairs finished and all) and the picture. \<open>ex_relayed\<close> is how many of the
  reports the handler received before it received the result, after which it reads no more of them.
\<close>

record ('d, 'c, 'i, 'img, 'w, 'g) export_env =
  ex_forge :: "('d, 'c, 'i) forge_env"
  ex_proc :: proc_files
  ex_edit :: "('img, 'w, 'g) editor"
  ex_load :: "byte list \<Rightarrow> 'img option"
  ex_log2 :: "fl \<Rightarrow> fl"
  ex_stitch :: "(stitch_req \<Rightarrow> scene_category \<Rightarrow> 'img list \<Rightarrow> (nat \<times> nat) list \<times> (string + 'img)) option"
  ex_relayed :: nat
  ex_still :: "bool \<Rightarrow> fl \<Rightarrow> 'img \<Rightarrow> byte list option"

section \<open>The selected frames\<close>

definition frame_pos :: "(int \<times> bool) list \<Rightarrow> int \<Rightarrow> int" where
  "frame_pos frames idx = (if 0 \<le> idx \<and> nat idx < length frames then fst (frames ! nat idx) else 0)"

definition export_frame ::
  "('d, 'c, 'i, 'img, 'w, 'g) export_env \<Rightarrow> string \<Rightarrow> hw_flags \<Rightarrow> (int \<times> bool) list \<Rightarrow> string \<times> int \<Rightarrow>
   ('c, 'i, 'img \<times> int) forge_io" where
  "export_frame ex item hw frames sel s =
     (case sel of (path, idx) \<Rightarrow>
        let pos = frame_pos frames idx
        in case dc_read item path pos 0 (fg_disk s) of
             (Some cached, d) \<Rightarrow>
               ((case ex_load ex cached of None \<Rightarrow> Inl (Failed ''image'') | Some img \<Rightarrow> Inr (img, pos)), s\<lparr>fg_disk := d\<rparr>)
           | (None, d) \<Rightarrow>
               ((case decode_frame (ex_forge ex) path pos 0 (hw_for (ex_forge ex) hw) of
                   None \<Rightarrow> Inl (Failed ''decode'')
                 | Some r \<Rightarrow>
                     (case ex_load ex (dr_webp r) of None \<Rightarrow> Inl (Failed ''image'') | Some img \<Rightarrow> Inr (img, dr_pts_ms r))),
                s\<lparr>fg_disk := d\<rparr>))"

definition load_percent :: "fl \<Rightarrow> nat \<Rightarrow> nat \<Rightarrow> fl" where
  "load_percent share n i = f_mul (f_div (f_of_int (int (i + 1))) (f_of_int (int n))) share"

fun load_frames ::
  "('d, 'c, 'i, 'img, 'w, 'g) export_env \<Rightarrow> string \<Rightarrow> hw_flags \<Rightarrow> (int \<times> bool) list \<Rightarrow> fl \<Rightarrow> nat \<Rightarrow> nat \<Rightarrow>
   (string \<times> int) list \<Rightarrow> ('c, 'i, ('img \<times> int) list) forge_io" where
  "load_frames ex item hw frames share n i [] = io_ret []"
| "load_frames ex item hw frames share n i (sel # sels) =
     io_bind (export_frame ex item hw frames sel) (\<lambda>x.
     io_then (send_progress ''running'' ''decoding'' (i + 1) n (load_percent share n i))
    (io_bind (load_frames ex item hw frames share n (i + 1) sels) (\<lambda>xs. io_ret (x # xs))))"

definition first_path :: "(string \<times> int) list \<Rightarrow> string" where
  "first_path sels = (case sels of [] \<Rightarrow> [] | (p, _) # _ \<Rightarrow> p)"

section \<open>Animations\<close>

definition encode_and_send ::
  "('d, 'c, 'i, 'img, 'w, 'g) export_env \<Rightarrow> animate_req \<Rightarrow> ('img \<times> int) list \<Rightarrow> ('c, 'i, unit) forge_io" where
  "encode_and_send ex req loaded =
     (let e = ex_edit ex;
          images = map (crop_frame e (an_crop req) \<circ> fst) loaded;
          dims = target_size req (ed_width e (hd images)) (ed_height e (hd images));
          delay = frame_delay (an_speed req) (map snd loaded);
          (percents, r) = encode_frames e req dims delay images
      in io_then (io_for percents (send_progress ''running'' ''encoding'' 0 1))
           (case r of Inl err \<Rightarrow> io_fail (Failed err) | Inr bs \<Rightarrow> write_all (message 2 bs)))"

definition animate :: "('d, 'c, 'i, 'img, 'w, 'g) export_env \<Rightarrow> animate_req \<Rightarrow> ('c, 'i, unit) forge_io" where
  "animate ex req =
     (let n = length (an_paths req)
      in if too_busy (ex_proc ex) then send_progress ''error'' ''overloaded'' 0 1 (Fin 0)
         else io_then (send_progress ''running'' ''decoding'' 0 n (Fin 0))
             (io_bind (get_or_build_io (ex_forge ex) (first_path (an_paths req))) (\<lambda>(frames, _, _).
              io_bind (load_frames ex (an_item_id req) (an_hw req) frames (Fin 50) n 0 (an_paths req)) (\<lambda>loaded.
                if loaded = []
                then io_then (send_progress ''error'' ''no frames left after deduplication'' 0 1 (Fin 50))
                       (io_fail (Failed ''no unique frames after deduplication''))
                else encode_and_send ex req loaded))))"

definition handle_animate :: "('d, 'c, 'i, 'img, 'w, 'g) export_env \<Rightarrow> ('c, 'i, unit) forge_io" where
  "handle_animate ex = io_bind read_animate_req (animate ex)"

section \<open>Stitching\<close>

fun category_text :: "scene_category \<Rightarrow> string" where
  "category_text Anime = ''anime''"
| "category_text Landscape = ''landscape''"
| "category_text LiveAction = ''liveaction''"

definition match_percent :: "nat \<times> nat \<Rightarrow> fl" where
  "match_percent r =
     (case r of (finished, all) \<Rightarrow>
        f_add (Fin 40) (f_mul (if 0 < all then f_div (f_of_int (int finished)) (f_of_int (int all)) else Fin 1) (Fin 45)))"

definition send_match :: "nat \<times> nat \<Rightarrow> ('z, unit) wire" where
  "send_match r = send_progress ''running'' ''matching'' (fst r mod 2 ^ 32) (snd r mod 2 ^ 32) (match_percent r)"

definition run_stitch ::
  "('d, 'c, 'i, 'img, 'w, 'g) export_env \<Rightarrow> stitch_req \<Rightarrow> scene_category \<Rightarrow> 'img list \<Rightarrow> (nat \<times> nat) list \<times> (string + 'img)" where
  "run_stitch ex req category images =
     (let v = ed_vision (ex_edit ex);
          anime = (case stitch_anime v images of (reports, r) \<Rightarrow> (reports, map_sum id (vi_of_rgb v) r))
      in case ex_stitch ex of
           None \<Rightarrow> anime
         | Some alg \<Rightarrow> if category = Anime then anime else alg req category images)"

definition stitch_and_send ::
  "('d, 'c, 'i, 'img, 'w, 'g) export_env \<Rightarrow> stitch_req \<Rightarrow> ('img \<times> int) list \<Rightarrow> ('c, 'i, unit) forge_io" where
  "stitch_and_send ex req kept =
     (let images = map fst kept;
          category = sc_category (classify (ex_log2 ex) (ed_vision (ex_edit ex)) images);
          (reports, r) = run_stitch ex req category images
      in io_then (send_progress ''running'' (category_text category) 0 1 (Fin 35))
        (io_then (send_progress ''running'' ''matching'' 0 1 (Fin 40))
        (io_then (io_for (take (ex_relayed ex) reports) send_match)
           (case r of
              Inl err \<Rightarrow> io_fail (Failed err)
            | Inr img \<Rightarrow>
                io_then (send_progress ''running'' ''encoding'' 0 1 (Fin 85))
                  (case ex_still ex (is_webp (st_format req)) (f32_of_bits (st_quality req)) img of
                     None \<Rightarrow> io_fail (Failed ''encode'')
                   | Some bs \<Rightarrow> write_all (message 2 bs))))))"

definition stitch :: "('d, 'c, 'i, 'img, 'w, 'g) export_env \<Rightarrow> stitch_req \<Rightarrow> ('c, 'i, unit) forge_io" where
  "stitch ex req =
     (let n = length (st_paths req)
      in if too_busy (ex_proc ex) then send_progress ''error'' ''overloaded'' 0 1 (Fin 0)
         else io_bind (get_or_build_io (ex_forge ex) (first_path (st_paths req))) (\<lambda>(frames, _, _).
              io_then (send_progress ''running'' ''decoding'' 0 n (Fin 0))
             (io_bind (load_frames ex (st_item_id req) (st_hw req) frames (Fin 30) n 0 (st_paths req)) (\<lambda>loaded.
              io_then (send_progress ''running'' ''classifying'' 0 1 (Fin 30))
               (let kept = dedup_frames (ed_vision (ex_edit ex)) (zip (map fst loaded) (map snd (st_paths req)))
                in if length kept < 2
                   then io_then (send_progress ''error''
                            ''selected frames are too similar to stitch (need at least 2 visually distinct frames)'' 0 1 (Fin 30))
                          (io_fail (Failed ''pHash dedup left < 2 unique frames; cannot stitch''))
                   else stitch_and_send ex req kept)))))"

definition handle_stitch :: "('d, 'c, 'i, 'img, 'w, 'g) export_env \<Rightarrow> ('c, 'i, unit) forge_io" where
  "handle_stitch ex = io_bind read_stitch_req (stitch ex)"

section \<open>What an export sends\<close>

definition running_message :: "byte list \<Rightarrow> bool" where
  "running_message m \<longleftrightarrow> (\<exists>phase current tot percent. m = progress_bytes ''running'' phase current tot percent)"

text \<open>
  A computation that sends nothing but running messages, whole ones, unless the connection refuses a write; and one
  that ends its messages with a final one exactly when it succeeds. \<open>sent\<close> reads the bytes sent so far off a state.
\<close>

definition sends_running :: "('s \<Rightarrow> byte list) \<Rightarrow> ('s, wire_error, 'a) io \<Rightarrow> bool" where
  "sends_running sent m \<longleftrightarrow>
     (\<forall>s res t. m s = (res, t) \<longrightarrow> res = Inl Refused \<or>
        (\<exists>ms. list_all running_message ms \<and> sent t = sent s @ concat ms))"

definition ends_within :: "bool \<Rightarrow> ('s \<Rightarrow> byte list) \<Rightarrow> ('s, wire_error, unit) io \<Rightarrow> bool" where
  "ends_within few sent m \<longleftrightarrow>
     (\<forall>s res t. m s = (res, t) \<longrightarrow> res = Inl Refused \<or>
        (\<exists>ms final. list_all running_message ms \<and> sent t = sent s @ concat ms @ final \<and>
           (if isl res then final = [] \<or> few \<and> (\<exists>bs. final = message 1 bs) else \<exists>bs. final = message 2 bs)))"

text \<open>With too few frames (\<open>few\<close>) a failure may end in an error message; otherwise it ends in none.\<close>

abbreviation ends_with_reply :: "('s \<Rightarrow> byte list) \<Rightarrow> ('s, wire_error, unit) io \<Rightarrow> bool" where
  "ends_with_reply \<equiv> ends_within False"

lemma ends_with_replyD:
  "ends_with_reply sent m \<Longrightarrow> m s = (res, t) \<Longrightarrow> res = Inl Refused \<or>
     (\<exists>ms final. list_all running_message ms \<and> sent t = sent s @ concat ms @ final \<and>
        (if isl res then final = [] else \<exists>bs. final = message 2 bs))"
  unfolding ends_within_def by (simp cong: if_cong)

lemma sends_running_pure: "(\<And>s. sent (snd (m s)) = sent s) \<Longrightarrow> sends_running sent m"
  unfolding sends_running_def
proof (intro allI impI disjI2)
  fix s res t
  assume "\<And>s. sent (snd (m s)) = sent s" and m: "m s = (res, t)"
  from this(1) [of s] m show "\<exists>ms. list_all running_message ms \<and> sent t = sent s @ concat ms"
    by (intro exI [of _ "[]"]) simp
qed

lemma sends_running_ret [intro]: "sends_running sent (io_ret a)"
  by (rule sends_running_pure) (simp add: io_run)

lemma sends_running_progress [intro]: "sends_running c_out (send_progress ''running'' phase current tot percent)"
  unfolding sends_running_def
proof (intro allI impI)
  fix s res t
  assume m: "send_progress ''running'' phase current tot percent s = (res, t)"
  show "res = Inl Refused \<or> (\<exists>ms. list_all running_message ms \<and> c_out t = c_out s @ concat ms)"
  proof (cases "res = Inl Refused")
    case False
    with m have "c_out t = c_out s @ progress_bytes ''running'' phase current tot percent"
      by (auto simp: send_progress_def write_all_def split: if_splits)
    then show ?thesis
      by (intro disjI2 exI [of _ "[progress_bytes ''running'' phase current tot percent]"]) (auto simp: running_message_def)
  qed simp
qed

lemma sends_running_bind [intro]:
  assumes "sends_running sent m" and "\<And>a. sends_running sent (f a)"
  shows "sends_running sent (io_bind m f)"
  unfolding sends_running_def
proof (intro allI impI)
  fix s res t
  assume b: "io_bind m f s = (res, t)"
  obtain x u where m: "m s = (x, u)" by (cases "m s")
  from assms(1) m have first: "x = Inl Refused \<or> (\<exists>ms. list_all running_message ms \<and> sent u = sent s @ concat ms)"
    unfolding sends_running_def by blast
  show "res = Inl Refused \<or> (\<exists>ms. list_all running_message ms \<and> sent t = sent s @ concat ms)"
  proof (cases x)
    case (Inl e)
    with b m have "res = Inl e" "t = u" by (simp_all add: io_bind_def)
    with Inl first show ?thesis by simp
  next
    case (Inr a)
    with first obtain ms where ms: "list_all running_message ms" "sent u = sent s @ concat ms" by auto
    from b m Inr have "f a u = (res, t)" by (simp add: io_bind_def)
    with assms(2) [of a] consider "res = Inl Refused" | ns where "list_all running_message ns" "sent t = sent u @ concat ns"
      unfolding sends_running_def by blast
    then show ?thesis
    proof cases
      case 2
      with ms show ?thesis by (intro disjI2 exI [of _ "ms @ ns"]) simp
    qed simp
  qed
qed

lemma sends_running_then [intro]: "sends_running sent m \<Longrightarrow> sends_running sent n \<Longrightarrow> sends_running sent (io_then m n)"
  unfolding io_then_def by blast

lemma sends_running_for [intro]: "(\<And>x. sends_running sent (f x)) \<Longrightarrow> sends_running sent (io_for xs f)"
  by (induction xs) auto

lemma ends_with_bind:
  assumes "sends_running sent m" and "\<And>a s u. m s = (Inr a, u) \<Longrightarrow> ends_within few sent (f a)"
  shows "ends_within few sent (io_bind m f)"
  unfolding ends_within_def
proof (intro allI impI)
  fix s res t
  assume b: "io_bind m f s = (res, t)"
  obtain x u where m: "m s = (x, u)" by (cases "m s")
  from assms(1) m have first: "x = Inl Refused \<or> (\<exists>ms. list_all running_message ms \<and> sent u = sent s @ concat ms)"
    unfolding sends_running_def by blast
  let ?goal = "res = Inl Refused \<or> (\<exists>ms final. list_all running_message ms \<and> sent t = sent s @ concat ms @ final \<and>
      (if isl res then final = [] \<or> few \<and> (\<exists>bs. final = message 1 bs) else \<exists>bs. final = message 2 bs))"
  show ?goal
  proof (cases x)
    case (Inl e)
    with b m first show ?thesis by (auto simp: io_bind_def)
  next
    case (Inr a)
    with first obtain ms where ms: "list_all running_message ms" "sent u = sent s @ concat ms" by auto
    from b m Inr have f: "f a u = (res, t)" by (simp add: io_bind_def)
    from assms(2) m Inr have "ends_within few sent (f a)" by blast
    with f consider "res = Inl Refused"
      | ns final where "list_all running_message ns" "sent t = sent u @ concat ns @ final"
          "if isl res then final = [] \<or> few \<and> (\<exists>bs. final = message 1 bs) else \<exists>bs. final = message 2 bs"
      unfolding ends_within_def by blast
    then show ?thesis
    proof cases
      case 2
      with ms show ?thesis by (intro disjI2 exI [of _ "ms @ ns"] exI [of _ final]) simp
    qed simp
  qed
qed

lemma ends_with_then: "sends_running sent m \<Longrightarrow> ends_within few sent n \<Longrightarrow> ends_within few sent (io_then m n)"
  unfolding io_then_def by (rule ends_with_bind)

lemma ends_with_fail [intro]: "ends_within few sent (io_fail e)"
  unfolding ends_within_def by (auto simp: io_run intro!: exI [of _ "[]"])

lemma ends_with_final [intro]: "ends_within few c_out (write_all (message 2 bs))"
  unfolding ends_within_def
proof (intro allI impI)
  fix s :: "'a conn_scheme" and res t
  assume w: "write_all (message 2 bs) s = (res, t)"
  show "res = Inl Refused \<or> (\<exists>ms final. list_all running_message ms \<and> c_out t = c_out s @ concat ms @ final \<and>
      (if isl res then final = [] \<or> few \<and> (\<exists>bs. final = message 1 bs) else \<exists>bs. final = message 2 bs))"
  proof (cases "res = Inl Refused")
    case False
    with w have "c_out t = c_out s @ concat [] @ message 2 bs" "\<not> isl res" by (auto simp: write_all_def split: if_splits)
    then show ?thesis by (intro disjI2 exI [of _ "[]"] exI [of _ "message 2 bs"]) auto
  qed simp
qed

lemma send_error_sent:
  "send_progress ''error'' phase current tot percent s = (x, u) \<Longrightarrow>
     x = Inl Refused \<or> x = Inr () \<and> (\<exists>bs. c_out u = c_out s @ message 1 bs)"
  by (auto simp: send_progress_def write_all_def progress_bytes_def split: if_splits)

lemma ends_with_error [intro]:
  "ends_within True c_out (io_then (send_progress ''error'' phase current tot percent) (io_fail e))"
  unfolding ends_within_def
proof (intro allI impI)
  fix s :: "'a conn_scheme" and res t
  assume r: "io_then (send_progress ''error'' phase current tot percent) (io_fail e) s = (res, t)"
  obtain x u where x: "send_progress ''error'' phase current tot percent s = (x, u)"
    by (cases "send_progress ''error'' phase current tot percent s")
  from send_error_sent [OF x]
  show "res = Inl Refused \<or> (\<exists>ms final. list_all running_message ms \<and> c_out t = c_out s @ concat ms @ final \<and>
      (if isl res then final = [] \<or> True \<and> (\<exists>bs. final = message 1 bs) else \<exists>bs. final = message 2 bs))"
  proof
    assume "x = Inl Refused"
    with r x show ?thesis by (simp add: io_then_def io_bind_def)
  next
    assume "x = Inr () \<and> (\<exists>bs. c_out u = c_out s @ message 1 bs)"
    then obtain bs where "x = Inr ()" "c_out u = c_out s @ message 1 bs" by blast
    moreover from this(1) r x have "res = Inl e" "t = u" by (simp_all add: io_then_def io_bind_def io_run)
    ultimately show ?thesis
      by (intro disjI2 exI [of _ "[]"] exI [of _ "message 1 bs"]) auto
  qed
qed

lemma sends_running_index [intro]: "sends_running c_out (get_or_build_io env path)"
  by (rule sends_running_pure) (simp add: get_or_build_io_def split: prod.split option.split)

lemma sends_running_frame [intro]: "sends_running c_out (export_frame ex item hw frames sel)"
  by (rule sends_running_pure) (simp add: export_frame_def Let_def split: prod.split option.split)

lemma sends_running_load [intro]: "sends_running c_out (load_frames ex item hw frames share n i sels)"
  by (induction sels arbitrary: i) auto

lemma load_frames_length: "load_frames ex item hw frames share n i sels s = (Inr xs, t) \<Longrightarrow> length xs = length sels"
proof (induction sels arbitrary: i s t xs)
  case (Cons sel sels)
  then show ?case by (auto simp: io_bind_Inr io_then_def io_run)
qed (simp add: io_run)

lemma sends_running_match [intro]: "sends_running c_out (send_match r)"
  unfolding send_match_def by (rule sends_running_progress)

lemma encode_ends: "ends_within few c_out (encode_and_send ex req loaded)"
  unfolding encode_and_send_def Let_def
  by (auto split: prod.split sum.split intro!: ends_with_then)

lemma stitch_ends: "ends_within few c_out (stitch_and_send ex req kept)"
  unfolding stitch_and_send_def Let_def
  by (auto split: prod.split sum.split option.split intro!: ends_with_then)

lemma animate_ends:
  assumes "\<not> too_busy (ex_proc ex)"
  shows "ends_within (an_paths req = []) c_out (animate ex req)"
proof -
  have "ends_within (an_paths req = []) c_out
      (if loaded = [] then io_then (send_progress ''error'' ''no frames left after deduplication'' 0 1 (Fin 50))
        (io_fail (Failed ''no unique frames after deduplication'')) else encode_and_send ex req loaded)"
    if "load_frames ex (an_item_id req) (an_hw req) frames (Fin 50) (length (an_paths req)) 0 (an_paths req) s = (Inr loaded, u)"
    for frames loaded s u
    using load_frames_length [OF that] by (cases "an_paths req") (auto simp: encode_ends)
  then show ?thesis
    using assms by (auto simp: animate_def Let_def intro!: ends_with_then ends_with_bind)
qed

lemma stitch_run_ends:
  assumes "\<not> too_busy (ex_proc ex)"
  shows "ends_within (length (st_paths req) < 2) c_out (stitch ex req)"
proof -
  let ?kept = "\<lambda>loaded. dedup_frames (ed_vision (ex_edit ex)) (zip (map fst loaded) (map snd (st_paths req)))"
  have "ends_within (length (st_paths req) < 2) c_out (let kept = ?kept loaded in if length kept < 2
        then io_then (send_progress ''error'' ''selected frames are too similar to stitch (need at least 2 visually distinct frames)''
            0 1 (Fin 30)) (io_fail (Failed ''pHash dedup left < 2 unique frames; cannot stitch''))
        else stitch_and_send ex req kept)"
    if "load_frames ex (st_item_id req) (st_hw req) frames (Fin 30) (length (st_paths req)) 0 (st_paths req) s = (Inr loaded, u)"
    for frames loaded s u
  proof (cases "length (st_paths req) < 2")
    case True
    then show ?thesis by (auto simp: stitch_ends Let_def)
  next
    case False
    then have "2 \<le> length (?kept loaded)" using load_frames_length [OF that] by (intro dedup_two) simp
    then show ?thesis by (simp add: stitch_ends Let_def)
  qed
  then show ?thesis
    using assms by (auto simp: stitch_def Let_def [of "length (st_paths req)"] intro!: ends_with_then ends_with_bind)
qed

lemma busy_reply:
  assumes "too_busy (ex_proc ex)"
  shows "animate ex req = send_progress ''error'' ''overloaded'' 0 1 (Fin 0)"
    and "stitch ex req' = send_progress ''error'' ''overloaded'' 0 1 (Fin 0)"
  using assms by (simp_all add: animate_def stitch_def Let_def)

text \<open>
  C20: The messages of an export. Whatever a well-formed animation or stitch request meets, unless the
  connection refuses a write: under load it is sent exactly one error message and nothing else. Otherwise it
  is sent running messages and then, when it succeeds, exactly one final message with the picture. When it
  fails at any point after parsing (no index, a frame that cannot be decoded, the algorithm, the encoder) it
  is sent no final message at all, so the client is left waiting; an error message can follow only when the
  request named too few frames: none for an animation, fewer than two for a stitch.
\<close>

theorem export_messages:
  assumes "animate_ok an"
    and "m = handle_animate ex \<and> enc = enc_animate an \<and> few = (an_paths an = []) \<or>
         m = handle_stitch ex \<and> stitch_tail_ok st \<and> enc = enc_animate an @ enc_stitch_tail st \<and>
           few = (length (an_paths an) < 2)"
    and "m (s\<lparr>c_in := enc @ rest\<rparr>) = (res, t)"
  shows "res = Inl Refused \<or>
    (\<exists>ms final. list_all running_message ms \<and> c_out t = c_out s @ concat ms @ final \<and>
       (if too_busy (ex_proc ex) then ms = [] \<and> res = Inr () \<and> (\<exists>bs. final = message 1 bs)
        else if isl res then final = [] \<or> few \<and> (\<exists>bs. final = message 1 bs)
        else \<exists>bs. final = message 2 bs))"
proof -
  have "animate ex an (s\<lparr>c_in := rest\<rparr>) = (res, t) \<and> few = (an_paths an = []) \<or>
      stitch ex (stitch_of an st) (s\<lparr>c_in := rest\<rparr>) = (res, t) \<and> few = (length (st_paths (stitch_of an st)) < 2)"
    using assms(2,3) read_animate_run [OF assms(1), where s = s and r = rest]
      read_stitch_run [OF assms(1), where q = st and s = s and r = rest]
    by (auto simp: handle_animate_def handle_stitch_def io_bind_run stitch_of_def)
  then have "too_busy (ex_proc ex) \<and> send_progress ''error'' ''overloaded'' 0 1 (Fin 0) (s\<lparr>c_in := rest\<rparr>) = (res, t) \<or>
      \<not> too_busy (ex_proc ex) \<and> (\<exists>n. ends_within few c_out n \<and> n (s\<lparr>c_in := rest\<rparr>) = (res, t))"
  proof (cases "too_busy (ex_proc ex)")
    case True
    with \<open>animate ex an _ = _ \<and> _ \<or> _\<close> show ?thesis by (auto simp: busy_reply)
  next
    case False
    with \<open>animate ex an _ = _ \<and> _ \<or> _\<close> animate_ends [OF False, of an] stitch_run_ends [OF False, of "stitch_of an st"]
    show ?thesis by blast
  qed
  then show ?thesis
  proof
    assume "too_busy (ex_proc ex) \<and> send_progress ''error'' ''overloaded'' 0 1 (Fin 0) (s\<lparr>c_in := rest\<rparr>) = (res, t)"
    then show ?thesis using send_error_sent [of _ _ _ _ "s\<lparr>c_in := rest\<rparr>" res t] by fastforce
  next
    assume "\<not> too_busy (ex_proc ex) \<and> (\<exists>n. ends_within few c_out n \<and> n (s\<lparr>c_in := rest\<rparr>) = (res, t))"
    then show ?thesis unfolding ends_within_def by fastforce
  qed
qed

section \<open>An example\<close>

definition demo_editor :: "(byte, (byte list \<times> int) list, unit) editor" where
  "demo_editor = \<lparr>ed_vision = demo_vision, ed_crop = (\<lambda>_ _ _ _ b. b), ed_resize_exact = (\<lambda>_ _ b. b), ed_raw = (\<lambda>b. [b]),
     ed_pad = (\<lambda>_ _ b. [b]), ed_webp = recorder,
     ed_gif = \<lparr>ge_new = (\<lambda>_ _. None), ge_repeat = (\<lambda>_. Some), ge_frame = (\<lambda>_ _ _. Some), ge_bytes = (\<lambda>_. [])\<rparr>,
     ed_ffmpeg = (\<lambda>_ _ _ _ _. (0, None))\<rparr>"

text \<open>No stored or decoded frame can be read as a picture.\<close>

definition demo_export ::
  "(video_frame list, (ram_key \<times> byte list) list, (string \<times> index_data) list, byte, (byte list \<times> int) list, unit) export_env" where
  "demo_export = \<lparr>ex_forge = demo_env, ex_proc = (\<lambda>_. None), ex_edit = demo_editor, ex_load = (\<lambda>_. None), ex_log2 = id,
     ex_stitch = None, ex_relayed = 0, ex_still = (\<lambda>_ _ _. None)\<rparr>"

lemma demo_export_idle: "\<not> too_busy (ex_proc demo_export)"
proof -
  have "\<not> fl_less (round64 (8 / 10)) (Fin 0)"
    using round_val_nonneg [of "8 / 10" 53 "- 1022"] by (simp add: round64_def round_fl_def Let_def not_less)
  then show ?thesis
    by (simp add: too_busy_def resource_pressure_def cpu_load_def memory_pressure_def demo_export_def)
qed

lemma demo_export_fails:
  "\<exists>e t. load_frames demo_export item hw frames share n i (sel # sels) u = (Inl (Failed e), t) \<and> c_out t = c_out u"
  by (auto simp: io_bind_def export_frame_def demo_export_def Let_def split: prod.split option.split)

lemma animate_fails:
  assumes "\<not> too_busy (ex_proc ex)" and "n = length (an_paths req)"
    and "send_progress ''running'' ''decoding'' 0 n (Fin 0) s = (Inr (), u)"
    and "get_or_build_io (ex_forge ex) (first_path (an_paths req)) u = (Inr (fs, num, den), v)"
    and "load_frames ex (an_item_id req) (an_hw req) fs (Fin 50) n 0 (an_paths req) v = (Inl e, w)"
  shows "animate ex req s = (Inl e, w)"
  using assms by (simp add: animate_def Let_def io_then_def io_bind_def)

text \<open>An animation of two frames that cannot be read: one running message, an error, no final message.\<close>

theorem export_messages_witness:
  "let (res, t) = handle_animate demo_export (demo_forge\<lparr>c_in := enc_animate demo_an @ []\<rparr>)
   in res \<noteq> Inl Refused \<and> isl res \<and> (\<exists>ms. list_all running_message ms \<and> c_out t = concat ms)"
proof -
  let ?s = "demo_forge\<lparr>c_in := enc_animate demo_an @ []\<rparr>"
  obtain res t where h: "handle_animate demo_export ?s = (res, t)" by force
  have "animate demo_export demo_an (demo_forge\<lparr>c_in := []\<rparr>) = (res, t)"
    using h read_animate_run [OF demo_reqs_ok(2), where s = demo_forge and r = "[]"]
    by (simp add: handle_animate_def io_bind_run)
  moreover obtain u where u: "send_progress ''running'' ''decoding'' 0 2 (Fin 0) (demo_forge\<lparr>c_in := []\<rparr>) = (Inr (), u)"
    and ui: "fg_index u = demo_mgr"
  proof -
    have "length (progress_bytes ''running'' ''decoding'' 0 2 (Fin 0)) \<le> 1000"
      by (simp add: progress_bytes_def message_def progress_json_def show_nat.simps)
    then show ?thesis by (intro that) (auto simp: send_progress_def write_all_def demo_forge_def)
  qed
  moreover obtain fs num den v where "get_or_build_io demo_env ''/v.mkv'' u = (Inr (fs, num, den), v)"
    by (simp add: get_or_build_io_def ui get_or_build_def fi_get_def demo_env_def demo_mgr_def list_lru_def
        put_if_absent_def frame_index_cap_def Let_def)
  moreover from demo_export_fails [of "an_item_id demo_an" "an_hw demo_an" fs "Fin 50" 2 0 "(''/v.mkv'', 24)" "[(''/v.mkv'', 48)]" v]
  obtain e w where "load_frames demo_export (an_item_id demo_an) (an_hw demo_an) fs (Fin 50) 2 0 (an_paths demo_an) v = (Inl (Failed e), w)"
    unfolding demo_an_def by auto
  ultimately have "res = Inl (Failed e)"
    using animate_fails [OF demo_export_idle, of 2 demo_an "demo_forge\<lparr>c_in := []\<rparr>" u fs num den v "Failed e" w]
    by (simp add: first_path_def demo_an_def) (simp add: demo_export_def)
  moreover have "an_paths demo_an \<noteq> []" "c_out demo_forge = []" by (simp_all add: demo_an_def demo_forge_def)
  ultimately have "\<exists>ms. list_all running_message ms \<and> c_out t = concat ms"
    using export_messages [where ex = demo_export and an = demo_an and st = demo_st and m = "handle_animate demo_export" and enc = "enc_animate demo_an"
        and rest = "[]" and few = False, OF demo_reqs_ok(2) _ h] demo_export_idle by auto
  with \<open>res = Inl (Failed e)\<close> show ?thesis unfolding Let_def h prod.case by simp
qed

end
