(* ===== verification/Forge_Upscale.thy ===== *)
theory Forge_Upscale
  imports Forge_Exports "HOL-Library.AList"
begin

text \<open>
  Upscaling in the frame-forge daemon: \<^verbatim>\<open>handle_upscale\<close> of \<^verbatim>\<open>crates/frame-forge/src/server.rs\<close> in both builds
  and the decoders of \<^verbatim>\<open>animate.rs\<close>. The daemon is the state of the other handlers, the cancel flags of the
  running jobs and the files the job reads and writes. The models, their sessions and the picture codecs are
  parameters; so are the moments at which the job looks at its cancel flag, at which progress is relayed and at which the
  watchdog strikes (\<open>Aborted\<close>: the process is gone). The job's log is left out.
\<close>

section \<open>The daemon\<close>

record ('c, 'i) daemon =
  dm_forge :: "('c, 'i) forge"
  dm_flags :: "(string \<times> bool) list"
  dm_files :: "string \<Rightarrow> byte list option"
  dm_deny :: "string \<Rightarrow> bool"

type_synonym ('c, 'i, 'a) daemon_io = "(('c, 'i) daemon, wire_error, 'a) io"

definition on_forge :: "('c, 'i, 'a) forge_io \<Rightarrow> ('c, 'i, 'a) daemon_io" where
  "on_forge m s = (case m (dm_forge s) of (r, f) \<Rightarrow> (r, s\<lparr>dm_forge := f\<rparr>))"

text \<open>
  \<open>up_gif_in\<close>: width, height, buffer and delay of each frame, and the repeat count. \<open>up_session\<close> loads a model on a
  device, \<open>up_run\<close> upscales one picture with it and \<open>up_restore\<close> restores its faces.
\<close>

record ('d, 'c, 'i, 'img, 'w, 'g) upscale_env =
  up_exports :: "('d, 'c, 'i, 'img, 'w, 'g) export_env"
  up_opencv :: bool
  up_from_raw :: "nat \<Rightarrow> nat \<Rightarrow> byte list \<Rightarrow> 'img option"
  up_gif_in :: "byte list \<Rightarrow> ((nat \<times> nat \<times> byte list \<times> nat) list \<times> nat option) option"
  up_webp_in :: "byte list \<Rightarrow> (nat \<times> nat \<times> byte list \<times> nat) list option"
  up_mp4_in :: "string \<Rightarrow> ((byte list \<times> nat \<times> nat) list \<times> fl) option"
  up_session :: "string \<Rightarrow> string \<Rightarrow> bool"
  up_run :: "string \<Rightarrow> 'img \<Rightarrow> string + 'img"
  up_restore :: "string \<Rightarrow> 'img \<Rightarrow> string + 'img \<times> nat"
  up_png :: "'img \<Rightarrow> byte list option"
  up_err_text :: "wire_error \<Rightarrow> string"

text \<open>
  What happens during one turn of a connection, outside its own control. \<open>tn_live\<close> are the messages
  an index stream receives from its queues, and \<open>tn_endless\<close> says that no end follows them: the progress
  belongs to a demux that has failed, or its last notification was missed (theory \<open>Index_Stream\<close>).
\<close>

record turn =
  tn_lookups :: "index_data option list"
  tn_timing :: "int \<times> int \<Rightarrow> (nat \<Rightarrow> bool) \<times> (nat \<Rightarrow> bool) \<times> (nat \<Rightarrow> bool)"
  tn_cancel :: "nat \<Rightarrow> bool"
  tn_live :: "byte list list"
  tn_endless :: bool
  tn_relayed :: nat
  tn_stalled :: bool

section \<open>The input\<close>

fun sequence :: "'a option list \<Rightarrow> 'a list option" where
  "sequence [] = Some []"
| "sequence (x # xs) = (case x of None \<Rightarrow> None | Some y \<Rightarrow> map_option ((#) y) (sequence xs))"

definition decode_gif ::
  "('d, 'c, 'i, 'img, 'w, 'g) upscale_env \<Rightarrow> byte list \<Rightarrow> ('img list \<times> nat list \<times> nat) option" where
  "decode_gif up raw =
     (case up_gif_in up raw of
        None \<Rightarrow> None
      | Some (fs, repeat) \<Rightarrow>
          (case sequence (map (\<lambda>(w, h, buf, _). up_from_raw up w h buf) fs) of
             None \<Rightarrow> None
           | Some imgs \<Rightarrow>
               Some (imgs, map (\<lambda>(_, _, _, d). d * 10) fs, case repeat of None \<Rightarrow> 0 | Some n \<Rightarrow> n)))"

definition decode_webp_anim ::
  "('d, 'c, 'i, 'img, 'w, 'g) upscale_env \<Rightarrow> byte list \<Rightarrow> ('img list \<times> nat list \<times> nat) option" where
  "decode_webp_anim up raw =
     (case up_webp_in up raw of
        None \<Rightarrow> None
      | Some fs \<Rightarrow>
          (case sequence (map (\<lambda>(w, h, buf, _). up_from_raw up w h buf) fs) of
             None \<Rightarrow> None
           | Some imgs \<Rightarrow> Some (imgs, map (\<lambda>(_, _, _, d). d) fs, 0)))"

definition decode_mp4 :: "('d, 'c, 'i, 'img, 'w, 'g) upscale_env \<Rightarrow> string \<Rightarrow> ('img list \<times> fl) option" where
  "decode_mp4 up path =
     (case up_mp4_in up path of
        None \<Rightarrow> None
      | Some (fs, fps) \<Rightarrow>
          (case sequence (map (\<lambda>(rgba, w, h). up_from_raw up w h rgba) fs) of
             None \<Rightarrow> None
           | Some imgs \<Rightarrow> Some (imgs, fps)))"

definition is_gif :: "byte list \<Rightarrow> bool" where
  "is_gif raw \<longleftrightarrow> take 4 raw = bytes_of ''GIF8''"

definition is_mp4 :: "byte list \<Rightarrow> bool" where
  "is_mp4 raw \<longleftrightarrow> 8 \<le> length raw \<and> take 4 (drop 4 raw) = bytes_of ''ftyp''"

text \<open>Frames, delays, loop count and frame rate.\<close>

definition decode_input ::
  "('d, 'c, 'i, 'img, 'w, 'g) upscale_env \<Rightarrow> upscale_req \<Rightarrow> byte list \<Rightarrow> ('img list \<times> nat list \<times> nat \<times> fl) option" where
  "decode_input up req raw =
     (if \<not> up_is_animation req then map_option (\<lambda>img. ([img], [], 0, Fin 0)) (ex_load (up_exports up) raw)
      else if is_gif raw then map_option (\<lambda>(imgs, ds, n). (imgs, ds, n, Fin 0)) (decode_gif up raw)
      else if is_mp4 raw then map_option (\<lambda>(imgs, fps). (imgs, [], 0, fps)) (decode_mp4 up (up_input_path req))
      else map_option (\<lambda>(imgs, ds, n). (imgs, ds, n, Fin 0)) (decode_webp_anim up raw))"

section \<open>Inference\<close>

definition downscaled :: "('d, 'c, 'i, 'img, 'w, 'g) upscale_env \<Rightarrow> fl \<Rightarrow> 'img \<Rightarrow> 'img" where
  "downscaled up factor img =
     (let e = ex_edit (up_exports up);
          side = (\<lambda>n. f_to_u32 (fl_max (f_round (g_mul (g_of_nat n) factor)) (Fin 1)))
      in if fl_less factor (Fin 1)
         then ed_resize_exact e (side (ed_width e img)) (side (ed_height e img)) img else img)"

definition upscale_frame :: "('d, 'c, 'i, 'img, 'w, 'g) upscale_env \<Rightarrow> upscale_req \<Rightarrow> 'img \<Rightarrow> string + 'img \<times> nat" where
  "upscale_frame up req img =
     (case up_run up (up_model_path req) img of
        Inl err \<Rightarrow> Inl err
      | Inr big \<Rightarrow>
          (case (if up_face_model_path req \<noteq> [] then up_restore up (up_face_model_path req) big else Inr (big, 0)) of
             Inl err \<Rightarrow> Inl err
           | Inr (big, faces) \<Rightarrow> Inr (downscaled up (f32_of_bits (up_downscale req)) big, faces)))"

text \<open>The counts sent after each frame, and the frames or the error.\<close>

fun infer ::
  "('d, 'c, 'i, 'img, 'w, 'g) upscale_env \<Rightarrow> upscale_req \<Rightarrow> (nat \<Rightarrow> bool) \<Rightarrow> nat \<Rightarrow> 'img list \<Rightarrow>
     nat list \<times> (string + 'img list)" where
  "infer up req cancel i [] = ([], Inr [])"
| "infer up req cancel i (img # imgs) =
     (if cancel i then ([], Inl ''upscale cancelled'')
      else
        (case upscale_frame up req img of
           Inl err \<Rightarrow> ([], Inl err)
         | Inr (big, _) \<Rightarrow>
             (case infer up req cancel (i + 1) imgs of
                (ps, Inl err) \<Rightarrow> (Suc i # ps, Inl err)
              | (ps, Inr bigs) \<Rightarrow> (Suc i # ps, Inr (big # bigs)))))"

definition encode_output ::
  "('d, 'c, 'i, 'img, 'w, 'g) upscale_env \<Rightarrow> upscale_req \<Rightarrow> byte list \<Rightarrow> nat list \<Rightarrow> nat \<Rightarrow> fl \<Rightarrow> 'img list \<Rightarrow> string + byte list" where
  "encode_output up req raw delays loop_count fps imgs =
     (let e = ex_edit (up_exports up)
      in if \<not> up_is_animation req then (case up_png up (hd imgs) of None \<Rightarrow> Inl ''png'' | Some bs \<Rightarrow> Inr bs)
         else if is_gif raw then encode_gif e imgs delays loop_count
         else if is_mp4 raw then snd (encode_mp4 e imgs fps (round32 (85 / 100)))
         else encode_webp_anim e imgs delays)"

section \<open>The handler\<close>

definition upscale_percent :: "nat \<Rightarrow> nat \<Rightarrow> fl" where
  "upscale_percent finished all =
     f_add (Fin 20) (f_mul (f_div (f_of_int (int finished)) (f_of_int (int (max all 1)))) (Fin 65))"

definition read_file :: "string \<Rightarrow> ('c, 'i, byte list) daemon_io" where
  "read_file path s = (case dm_files s path of None \<Rightarrow> (Inl (Failed ''read''), s) | Some raw \<Rightarrow> (Inr raw, s))"

definition write_file :: "string \<Rightarrow> byte list \<Rightarrow> ('c, 'i, unit) daemon_io" where
  "write_file path bs s =
     (if dm_deny s path then (Inl (Failed ''write''), s) else (Inr (), s\<lparr>dm_files := (dm_files s)(path := Some bs)\<rparr>))"

definition progress_io :: "string \<Rightarrow> string \<Rightarrow> nat \<Rightarrow> nat \<Rightarrow> fl \<Rightarrow> ('c, 'i, unit) daemon_io" where
  "progress_io status phase current tot percent = on_forge (send_progress status phase current tot percent)"

definition lift_option :: "string \<Rightarrow> 'a option \<Rightarrow> ('s, wire_error, 'a) io" where
  "lift_option err x = (case x of None \<Rightarrow> io_fail (Failed err) | Some a \<Rightarrow> io_ret a)"

definition lift_sum :: "string + 'a \<Rightarrow> ('s, wire_error, 'a) io" where
  "lift_sum x = (case x of Inl err \<Rightarrow> io_fail (Failed err) | Inr a \<Rightarrow> io_ret a)"

definition finish_upscale ::
  "('d, 'c, 'i, 'img, 'w, 'g) upscale_env \<Rightarrow> upscale_req \<Rightarrow> byte list \<Rightarrow> nat list \<Rightarrow> nat \<Rightarrow> fl \<Rightarrow> 'img list \<Rightarrow> ('c, 'i, unit) daemon_io" where
  "finish_upscale up req raw delays loop_count fps imgs =
     io_then (progress_io ''running'' ''encoding'' (length imgs) (length imgs) (Fin 85))
    (io_bind (lift_sum (encode_output up req raw delays loop_count fps imgs)) (\<lambda>bs.
     io_then (write_file (up_output_path req) bs) (on_forge (write_all (message 2 bs)))))"

definition upscale_job ::
  "('d, 'c, 'i, 'img, 'w, 'g) upscale_env \<Rightarrow> turn \<Rightarrow> upscale_req \<Rightarrow> ('c, 'i, unit) daemon_io" where
  "upscale_job up tn req =
     (if too_busy (ex_proc (up_exports up)) then progress_io ''error'' ''overloaded'' 0 1 (Fin 0)
      else
        io_then (progress_io ''running'' ''decoding'' 0 1 (Fin 0))
       (io_bind (read_file (up_input_path req)) (\<lambda>raw.
        io_bind (lift_option ''decode'' (decode_input up req raw)) (\<lambda>(imgs, delays, loop_count, fps).
        io_then (progress_io ''running'' ''loading_model'' 0 1 (Fin 10))
       (io_then (io_ensure (up_session up (up_model_path req) (up_device_id req)) (Failed ''model''))
       (io_then (io_ensure (up_face_model_path req = [] \<or> up_session up (up_face_model_path req) (up_device_id req)) (Failed ''model''))
       (io_then (progress_io ''running'' ''upscaling'' 0 (length imgs) (Fin 20))
          (case infer up req (tn_cancel tn) 0 imgs of
             (sent, r) \<Rightarrow>
               io_then (io_for (take (tn_relayed tn) sent)
                         (\<lambda>k. progress_io ''running'' ''upscaling'' k (length imgs) (upscale_percent k (length imgs))))
              (io_then (io_ensure (\<not> tn_stalled tn) Aborted)
              (io_bind (lift_sum r) (finish_upscale up req raw delays loop_count fps)))))))))))"

text \<open>The flag of the job is removed however the job ends, unless the process is gone.\<close>

definition with_flag :: "string \<Rightarrow> ('c, 'i, unit) daemon_io \<Rightarrow> ('c, 'i, unit) daemon_io" where
  "with_flag job m s =
     (case m (s\<lparr>dm_flags := AList.update job False (dm_flags s)\<rparr>) of
        (r, t) \<Rightarrow> (r, if r = Inl Aborted then t else t\<lparr>dm_flags := AList.delete job (dm_flags t)\<rparr>))"

definition handle_upscale ::
  "('d, 'c, 'i, 'img, 'w, 'g) upscale_env \<Rightarrow> turn \<Rightarrow> ('c, 'i, unit) daemon_io" where
  "handle_upscale up tn =
     io_bind (on_forge read_upscale_req) (\<lambda>req.
       if up_opencv up then with_flag (up_job_id req) (upscale_job up tn req)
       else io_then (progress_io ''error'' ''opencv feature not enabled in this build'' 0 1 (Fin 0))
              (io_fail (Failed ''upscale requires the opencv feature'')))"

end
