(* ===== verification/Forge_Conn.thy ===== *)
theory Forge_Conn
  imports Forge_Upscale Range_Stream
begin

text \<open>
  The connection loop of the frame-forge daemon: \<^verbatim>\<open>handle_conn\<close> and \<^verbatim>\<open>handle_index_frames_stream\<close> of
  \<^verbatim>\<open>crates/frame-forge/src/server.rs\<close>. One turn reads a message type and runs its handler; the handlers that only log their
  error go on reading from wherever they stopped, the others end the connection. A panic ends the task of the connection.
\<close>

section \<open>Message types\<close>

datatype msg =
    Msg_Single_Frame
  | Msg_Animate
  | Msg_Stitch
  | Msg_Prefetch_Frame
  | Msg_List_Cached
  | Msg_Index_Frames
  | Msg_Prefetch_Range
  | Msg_Index_Frames_Stream
  | Msg_Prefetch_Stream
  | Msg_Prefetch_Range_Stream
  | Msg_Debug_Dump
  | Msg_Upscale
  | Msg_Cancel_Upscale
  | Msg_Hw_Decode_Caps

text \<open>The request types in the order of their codes, from \<^verbatim>\<open>0x10\<close> on.\<close>

definition msg_types :: "msg list" where
  "msg_types =
     [Msg_Single_Frame,
      Msg_Animate,
      Msg_Stitch,
      Msg_Prefetch_Frame,
      Msg_List_Cached,
      Msg_Index_Frames,
      Msg_Prefetch_Range,
      Msg_Index_Frames_Stream,
      Msg_Prefetch_Stream,
      Msg_Prefetch_Range_Stream,
      Msg_Debug_Dump,
      Msg_Upscale,
      Msg_Cancel_Upscale,
      Msg_Hw_Decode_Caps]"

definition msg_of :: "nat \<Rightarrow> msg option" where
  "msg_of ty = (if 0x10 \<le> ty then slice_get msg_types (ty - 0x10) else None)"

section \<open>The index stream\<close>

text \<open>
  For a file that is not indexed yet, \<open>live\<close> are the messages in the order in which the loop receives them from the two
  queues (theory \<open>Index_Stream\<close> has the tasks that send them). The demux of a file sends finitely many, but the end need not
  follow: when the stream is \<open>endless\<close> the loop waits in \<^verbatim>\<open>select!\<close> for ever, without reading from the peer. The result
  says whether the handler came to its end.
\<close>

definition subscribe_io :: "('d, 'c, 'i) forge_env \<Rightarrow> string \<Rightarrow> ('c, 'i, subscription) forge_io" where
  "subscribe_io env path s =
     (case get_or_subscribe (fe_idx env) path (fg_index s) of (x, m) \<Rightarrow> (Inr x, s\<lparr>fg_index := m\<rparr>))"

definition handle_index_frames_stream ::
  "('d, 'c, 'i) forge_env \<Rightarrow> byte list list \<Rightarrow> bool \<Rightarrow> ('c, 'i, bool) forge_io" where
  "handle_index_frames_stream env live endless =
     io_bind read_index_frames_stream_req (\<lambda>req.
     io_then (write_all (le_bytes 4 (is_request_id req)))
    (io_bind (subscribe_io env (is_path req)) (\<lambda>x.
       case x of
         Cached idx \<Rightarrow> io_then (send_cached idx) (io_ret True)
       | _ \<Rightarrow>
           io_then (io_for live write_chunk)
             (if endless then io_ret False else io_then (write_all (le_bytes 4 0)) (io_ret True)))))"

section \<open>One turn\<close>

text \<open>A turn after which the loop goes on, one after which the connection is over, and one that never returns.\<close>

datatype conn_fate = Going | Over | Waiting

definition fate :: "bool \<Rightarrow> conn_fate" where
  "fate go_on = (if go_on then Going else Over)"

text \<open>The handler's error is logged and the loop goes on, or it ends the loop.\<close>

definition tolerant :: "('c, 'i, 'a) daemon_io \<Rightarrow> ('c, 'i) daemon \<Rightarrow> conn_fate \<times> ('c, 'i) daemon" where
  "tolerant m s = (case m s of (r, t) \<Rightarrow> (fate (r \<noteq> Inl Panicked \<and> r \<noteq> Inl Aborted), t))"

definition strict :: "('c, 'i, 'a) daemon_io \<Rightarrow> ('c, 'i) daemon \<Rightarrow> conn_fate \<times> ('c, 'i) daemon" where
  "strict m s = (case m s of (r, t) \<Rightarrow> (fate (\<not> isl r), t))"

definition streaming :: "('c, 'i, bool) daemon_io \<Rightarrow> ('c, 'i) daemon \<Rightarrow> conn_fate \<times> ('c, 'i) daemon" where
  "streaming m s =
     (case m s of (Inl _, t) \<Rightarrow> (Over, t) | (Inr finished, t) \<Rightarrow> (if finished then Going else Waiting, t))"

text \<open>A failed upscale gets one more error message, whose own failure is ignored.\<close>

definition upscale_turn ::
  "('d, 'c, 'i, 'img, 'w, 'g) upscale_env \<Rightarrow> turn \<Rightarrow> ('c, 'i) daemon \<Rightarrow> bool \<times> ('c, 'i) daemon" where
  "upscale_turn up tn s =
     (case handle_upscale up tn s of
        (Inr _, t) \<Rightarrow> (True, t)
      | (Inl e, t) \<Rightarrow>
          if e = Panicked \<or> e = Aborted then (False, t)
          else (True, snd (progress_io ''error'' (up_err_text up e) 0 1 (Fin 0) t)))"

definition cancel_turn :: "('c, 'i) daemon \<Rightarrow> bool \<times> ('c, 'i) daemon" where
  "cancel_turn s =
     (case on_forge read_cancel_upscale_req s of
        (Inl _, t) \<Rightarrow> (False, t)
      | (Inr job, t) \<Rightarrow>
          (False, if map_of (dm_flags t) job = None then t else t\<lparr>dm_flags := AList.update job True (dm_flags t)\<rparr>))"

definition conn_turn ::
  "('d, 'c, 'i, 'img, 'w, 'g) upscale_env \<Rightarrow> string \<Rightarrow> nat \<Rightarrow> turn \<Rightarrow> ('c, 'i) daemon \<Rightarrow> conn_fate \<times> ('c, 'i) daemon" where
  "conn_turn up cdir concurrency tn s =
     (let ex = up_exports up; env = ex_forge ex
      in case on_forge read_msg_type s of
           (Inl _, t) \<Rightarrow> (Over, t)
         | (Inr ty, t) \<Rightarrow>
             (case msg_of ty of
                Some Msg_Single_Frame \<Rightarrow> tolerant (on_forge (handle_single_frame env)) t
              | Some Msg_Prefetch_Frame \<Rightarrow> tolerant (on_forge (handle_prefetch_frame env)) t
              | Some Msg_Animate \<Rightarrow> tolerant (on_forge (handle_animate ex)) t
              | Some Msg_Stitch \<Rightarrow> tolerant (on_forge (handle_stitch ex)) t
              | Some Msg_List_Cached \<Rightarrow> strict (on_forge ff_list_cached) t
              | Some Msg_Index_Frames \<Rightarrow> strict (on_forge (handle_index_frames env)) t
              | Some Msg_Prefetch_Range \<Rightarrow> strict (on_forge (handle_prefetch_range env)) t
              | Some Msg_Index_Frames_Stream \<Rightarrow> 
                 streaming (on_forge (handle_index_frames_stream env (tn_live tn) (tn_endless tn))) t
              | Some Msg_Prefetch_Stream \<Rightarrow> strict (on_forge (handle_prefetch_stream env)) t
              | Some Msg_Prefetch_Range_Stream \<Rightarrow> 
                 strict (on_forge (handle_prefetch_range_stream env cdir concurrency (tn_lookups tn) (tn_timing tn) (tn_cancel tn))) t
              | Some Msg_Debug_Dump \<Rightarrow> strict (on_forge (handle_debug_dump env)) t
              | Some Msg_Upscale \<Rightarrow> apfst fate (upscale_turn up tn t)
              | Some Msg_Hw_Decode_Caps \<Rightarrow> strict (on_forge (write_hw_decode_caps (fe_caps env))) t
              | Some Msg_Cancel_Upscale \<Rightarrow> apfst fate (cancel_turn t)
              | None \<Rightarrow> (Over, t)))"

section \<open>The loop\<close>

text \<open>Every turn that goes on has consumed input, so the loop ends whatever the peer sends.\<close>

lemma consumes_proj:
  assumes "\<And>s. length (c_in (snd (m s))) \<le> length (c_in s)"
  shows "consumes m"
  using assms by (simp add: consumes_def)

lemma consumes_ensure [intro, simp]: "consumes (io_ensure b e)"
  by (simp add: io_ensure_def)

lemma consumes_mod: "(\<And>s. c_in (f s) = c_in s) \<Longrightarrow> consumes (io_mod f)"
  by (simp add: consumes_def io_run)

lemma consumes_for [intro]: "(\<And>x. consumes (f x)) \<Longrightarrow> consumes (io_for xs f)"
  by (induction xs) auto

lemma consumes_apply: "(\<And>s. consumes (m s)) \<Longrightarrow> consumes (\<lambda>s. m s s)"
  by (simp add: consumes_def)

lemma reads_only_requests [intro, simp]:
  "reads_only read_item_id" "reads_only read_sized_text" "reads_only read_len_prefixed_string" "reads_only read_flag"
  "reads_only read_u16_le" "reads_only read_hw_decode_flags" "reads_only read_msg_type" "reads_only read_frame_path"
  "reads_only read_preset" "reads_only read_single_frame_req" "reads_only read_animate_req" "reads_only read_stitch_req"
  "reads_only read_prefetch_range_req" "reads_only read_prefetch_range_stream_req" "reads_only read_index_frames_stream_req"
  "reads_only read_upscale_req" "reads_only read_cancel_upscale_req" "reads_only read_session_id"
  unfolding read_session_id_def read_item_id_def read_sized_text_def read_len_prefixed_string_def read_flag_def read_u16_le_def
    read_hw_decode_flags_def read_msg_type_def read_frame_path_def read_preset_def read_single_frame_req_def
    read_animate_req_def read_stitch_req_def read_prefetch_range_req_def read_prefetch_range_stream_req_def
    read_index_frames_stream_req_def read_upscale_req_def read_cancel_upscale_req_def io_then_def
  by (auto intro!: reads_only_bind)

lemma consumes_reads [intro, simp]:
  "consumes read_u32_le" "consumes (read_text n)" "consumes read_item_id" "consumes read_hw_decode_flags"
  "consumes (read_list n read_i64_le)" "consumes read_single_frame_req" "consumes read_animate_req" "consumes read_stitch_req"
  "consumes read_prefetch_range_req" "consumes read_prefetch_range_stream_req" "consumes read_index_frames_stream_req"
  "consumes read_upscale_req" "consumes read_cancel_upscale_req" "consumes read_msg_type"
  by (auto intro!: consumes_reads_only)

lemma write_all_in [simp]: "c_in (snd (write_all bs s)) = c_in s"
  by (simp add: write_all_def)

lemma consumes_steps [intro, simp]:
  "consumes (resolve_io env path fi)" "consumes (get_or_build_io env path)" "consumes (subscribe_io env path)"
  by (rule consumes_proj, simp add: resolve_io_def get_or_build_io_def subscribe_io_def split: prod.split option.split)+

lemma consumes_messages [intro, simp]: "consumes (ff_write_ack n)" "consumes (write_chunk bs)" "consumes (send_progress a b c d e)"
  unfolding ff_write_ack_def write_chunk_def send_progress_def by auto

lemma consumes_serve [intro]: "consumes (serve_frame env req pos)"
proof (rule consumes_proj)
  fix s
  have a: "c_in (snd (decode_and_answer env req pos u)) = c_in u" for u
    by (simp add: decode_and_answer_def write_jpeg_response_def ff_write_ack_def Let_def split: option.split)
  have b: "c_in (snd (send_cached_frame env rid bs u)) = c_in u" for rid bs u
    by (simp add: send_cached_frame_def write_jpeg_response_def io_run split: option.split)
  show "length (c_in (snd (serve_frame env req pos s))) \<le> length (c_in s)"
    by (simp add: serve_frame_def Let_def a b split: prod.split option.split)
qed

lemma enqueue_in [simp]: "c_in (enqueue_frame req pos s) = c_in s" "c_in (enqueue_job j s) = c_in s"
  by (simp_all add: enqueue_frame_def enqueue_job_def try_send_def release_def Let_def)

lemma enqueue_all_in [simp]: "c_in (fold (\<lambda>pos. enqueue_job (range_job req pos)) ps s) = c_in s"
  by (induction ps arbitrary: s) simp_all

lemma consumes_handlers [intro]:
  "consumes (handle_single_frame env)" "consumes (handle_prefetch_frame env)" "consumes ff_list_cached"
  "consumes (handle_index_frames env)" "consumes (handle_prefetch_range env)"
  "consumes (handle_index_frames_stream env live endless)" "consumes (handle_debug_dump env)"
  "consumes (write_hw_decode_caps caps)"
  unfolding handle_single_frame_def handle_prefetch_frame_def ff_list_cached_def handle_index_frames_def
    write_frame_index_def handle_prefetch_range_def handle_index_frames_stream_def send_cached_def handle_debug_dump_def
    write_hw_decode_caps_def Let_def
  by (auto intro!: consumes_bind consumes_then consumes_for consumes_mod split: prod.split subscription.split)

lemma consumes_resolve_then:
  "(\<And>r s. c_in (snd (f r s)) = c_in s) \<Longrightarrow> consumes (io_bind (resolve_io env path fi) f)"
  by (rule consumes_bind [OF consumes_steps(1)], rule consumes_proj) simp

lemma consumes_stream_frame [intro]: "consumes (stream_frame env path item width hw fi)"
  unfolding stream_frame_def by (auto intro!: consumes_resolve_then simp: Let_def split: option.split)

lemma io_then_in: "consumes m \<Longrightarrow> consumes n \<Longrightarrow> length (c_in (snd (io_then m n s))) \<le> length (c_in s)"
  using consumes_then [of m n] by (simp add: consumes_def)

lemma consumes_prefetch_stream [intro]: "consumes (handle_prefetch_stream env)"
  unfolding handle_prefetch_stream_def by (auto intro!: consumes_bind consumes_for)

lemma consumes_exports [intro]: "consumes (handle_animate ex)" "consumes (handle_stitch ex)"
proof -
  have frame: "consumes (export_frame ex item hw frames sel)" for item hw frames sel
    by (rule consumes_proj) (simp add: export_frame_def Let_def split: prod.split option.split)
  have load: "consumes (load_frames ex item hw frames share n i sels)" for item hw frames share n i sels
    by (induction sels arbitrary: i) (auto intro!: consumes_bind consumes_then simp: frame)
  have send: "consumes (send_match r)" for r unfolding send_match_def by auto
  show "consumes (handle_animate ex)"
    unfolding handle_animate_def animate_def encode_and_send_def Let_def
    by (auto intro!: consumes_bind consumes_then consumes_for consumes_messages load split: prod.split sum.split)
  show "consumes (handle_stitch ex)"
    unfolding handle_stitch_def stitch_def stitch_and_send_def Let_def
    by (auto intro!: consumes_bind consumes_then consumes_for consumes_messages load send split: prod.split sum.split option.split)
qed

lemma consumes_range_stream [intro]: "consumes (handle_prefetch_range_stream env cdir concurrency lookups tm cancel)"
proof -
  have events: "consumes (send_ready j fi pos)" "consumes (send_failed fi)" for j fi pos
    unfolding send_ready_def send_failed_def by auto
  have hits: "consumes (emit_hits j ps hits misses)" for j ps hits misses
  proof (induction ps arbitrary: hits misses)
    case (Cons p ps)
    obtain fi pos where p: "p = (fi, pos)" by (cases p)
    show ?case
    proof (rule consumes_proj)
      fix s
      show "length (c_in (snd (emit_hits j (p # ps) hits misses s))) \<le> length (c_in s)"
        using io_then_in [OF events(1) Cons.IH, of j fi pos "Suc hits" misses s] Cons.IH [of hits "misses @ [(fi, pos)]"]
        by (simp add: p consumes_def)
    qed
  qed simp
  have anchor: "consumes (anchor_frame j fi pos n)" for j fi pos n
    by (rule consumes_proj) (auto simp: anchor_frame_def Let_def intro!: order_trans [OF io_then_in] events split: option.split prod.split)
  have report: "consumes (report_frame j target found n)" for j target found n
    by (rule consumes_proj) (auto simp: report_frame_def Let_def intro!: order_trans [OF io_then_in] events split: option.split prod.split)
  have batch: "consumes (report_batch j cancel rs k n)" for j cancel rs k n
    by (induction j cancel rs k n rule: report_batch.induct) (auto intro!: consumes_bind report)
  have batches: "consumes (run_batches j tm cancel bs k n)" for j tm cancel bs k n
    by (induction j tm cancel bs k n rule: run_batches.induct) (auto intro!: consumes_bind batch split: prod.split)
  show ?thesis
    unfolding handle_prefetch_range_stream_def stream_frames_def Let_def
    by (auto intro!: consumes_bind consumes_then hits anchor batches split: option.split prod.split)
qed

text \<open>The same for the daemon.\<close>

definition d_consumes :: "('c, 'i, 'a) daemon_io \<Rightarrow> bool" where
  "d_consumes m \<longleftrightarrow> (\<forall>s. length (c_in (dm_forge (snd (m s)))) \<le> length (c_in (dm_forge s)))"

lemma d_consumes_forge [intro]:
  assumes "consumes m"
  shows "d_consumes (on_forge m)"
  unfolding d_consumes_def
proof
  fix s :: "(_, _) daemon"
  obtain r f where m: "m (dm_forge s) = (r, f)" by (cases "m (dm_forge s)")
  from consumesD [OF assms m] show "length (c_in (dm_forge (snd (on_forge m s)))) \<le> length (c_in (dm_forge s))"
    by (simp add: on_forge_def m)
qed

lemma d_consumesD: "d_consumes m \<Longrightarrow> m s = (x, t) \<Longrightarrow> length (c_in (dm_forge t)) \<le> length (c_in (dm_forge s))"
  unfolding d_consumes_def by (metis snd_conv)

lemma d_consumes_bind:
  assumes "d_consumes m" and "\<And>a. d_consumes (f a)"
  shows "d_consumes (io_bind m f)"
  unfolding d_consumes_def
proof
  fix s
  obtain x t where m: "m s = (x, t)" by (cases "m s")
  have le: "length (c_in (dm_forge t)) \<le> length (c_in (dm_forge s))" by (rule d_consumesD [OF assms(1) m])
  show "length (c_in (dm_forge (snd (io_bind m f s)))) \<le> length (c_in (dm_forge s))"
  proof (cases x)
    case (Inr a)
    have "length (c_in (dm_forge (snd (f a t)))) \<le> length (c_in (dm_forge t))"
      using assms(2) [of a] by (simp add: d_consumes_def)
    with le show ?thesis by (simp add: io_bind_def m Inr)
  qed (simp add: io_bind_def m le)
qed

lemma d_consumes_then: "d_consumes m \<Longrightarrow> d_consumes n \<Longrightarrow> d_consumes (io_then m n)"
  unfolding io_then_def by (rule d_consumes_bind)

lemma d_consumes_pure: "(\<And>s. dm_forge (snd (m s)) = dm_forge s) \<Longrightarrow> d_consumes m"
  by (simp add: d_consumes_def)

lemma d_consumes_basic [intro, simp]:
  "d_consumes (io_fail e)" "d_consumes (io_ret a)" "d_consumes (io_ensure b e)" "d_consumes (read_file p)"
  "d_consumes (write_file p bs)" "d_consumes (lift_option x y)" "d_consumes (lift_sum z)"
  by (auto intro!: d_consumes_pure simp: io_run io_ensure_def read_file_def write_file_def lift_option_def lift_sum_def
      split: option.split sum.split)

lemma d_consumes_send [intro, simp]: "d_consumes (progress_io a b c d e)" "d_consumes (on_forge (write_all bs))"
  unfolding progress_io_def by auto

lemma d_consumes_for: "(\<And>x. d_consumes (f x)) \<Longrightarrow> d_consumes (io_for xs f)"
  by (induction xs) (auto intro: d_consumes_then)

lemma d_consumes_flag: "d_consumes m \<Longrightarrow> d_consumes (with_flag job m)"
  unfolding d_consumes_def with_flag_def
proof
  fix s
  assume m: "\<forall>s. length (c_in (dm_forge (snd (m s)))) \<le> length (c_in (dm_forge s))"
  show "length (c_in (dm_forge (snd (case m (s\<lparr>dm_flags := AList.update job False (dm_flags s)\<rparr>) of
      (r, t) \<Rightarrow> (r, if r = Inl Aborted then t else t\<lparr>dm_flags := AList.delete job (dm_flags t)\<rparr>))))) \<le> length (c_in (dm_forge s))"
    using m [rule_format, of "s\<lparr>dm_flags := AList.update job False (dm_flags s)\<rparr>"] by (auto split: prod.split)
qed

lemma d_consumes_upscale: "d_consumes (handle_upscale up tn)"
  unfolding handle_upscale_def upscale_job_def finish_upscale_def
  by (auto intro!: d_consumes_bind d_consumes_then d_consumes_for d_consumes_flag split: prod.split)

lemma turn_consumes:
  "tolerant m s = (b, t) \<Longrightarrow> d_consumes m \<Longrightarrow> length (c_in (dm_forge t)) \<le> length (c_in (dm_forge s))"
  "strict m s = (b, t) \<Longrightarrow> d_consumes m \<Longrightarrow> length (c_in (dm_forge t)) \<le> length (c_in (dm_forge s))"
  "streaming m' s = (b, t) \<Longrightarrow> d_consumes m' \<Longrightarrow> length (c_in (dm_forge t)) \<le> length (c_in (dm_forge s))"
  by (auto simp: tolerant_def strict_def streaming_def split: prod.splits sum.splits dest: d_consumesD)

lemma fate_simps [simp]: "fate b = Going \<longleftrightarrow> b" "fate b = Over \<longleftrightarrow> \<not> b" "fate b \<noteq> Waiting"
  by (simp_all add: fate_def)

text \<open>Only an index stream waits for ever, and only an endless one.\<close>

lemma stream_finished:
  assumes "handle_index_frames_stream env live endless s = (Inr False, t)"
  shows endless
proof -
  obtain x u where "(case x of Cached idx \<Rightarrow> io_then (send_cached idx) (io_ret True)
      | _ \<Rightarrow> io_then (io_for live write_chunk)
          (if endless then io_ret False else io_then (write_all (le_bytes 4 0)) (io_ret True))) u = (Inr False, t)"
    using assms unfolding handle_index_frames_stream_def by (auto simp: io_bind_Inr io_then_Inr)
  then show ?thesis
    by (cases x) (auto simp: io_then_Inr io_run split: if_splits)
qed

lemma streaming_waiting:
  "fst (streaming (on_forge (handle_index_frames_stream env live endless)) s) = Waiting \<Longrightarrow> endless"
  by (auto simp: streaming_def on_forge_def dest: stream_finished split: prod.splits sum.splits if_splits)

lemma others_return:
  "tolerant m s \<noteq> (Waiting, t)" "strict m s \<noteq> (Waiting, t)" "apfst fate x \<noteq> (Waiting, t)"
  by (cases x; simp add: tolerant_def strict_def split: prod.split)+

lemma conn_turn_waiting: "conn_turn up cdir concurrency tn s = (Waiting, t) \<Longrightarrow> tn_endless tn"
proof -
  assume w: "conn_turn up cdir concurrency tn s = (Waiting, t)"
  obtain r u where r: "on_forge read_msg_type s = (r, u)" by force
  from w r obtain ty where ty: "r = Inr ty" by (cases r) (auto simp: conn_turn_def Let_def)
  from w r ty obtain x where x: "msg_of ty = Some x" by (cases "msg_of ty") (auto simp: conn_turn_def Let_def)
  note step = w [unfolded conn_turn_def Let_def r ty prod.case sum.case x option.case]
  show "tn_endless tn"
  proof (cases x)
    case Msg_Index_Frames_Stream
    with step streaming_waiting [of "ex_forge (up_exports up)" "tn_live tn" "tn_endless tn" u] show ?thesis by simp
  qed (use step in \<open>simp_all add: others_return\<close>)
qed

lemma upscale_turn_consumes: "upscale_turn up tn s = (b, t) \<Longrightarrow> length (c_in (dm_forge t)) \<le> length (c_in (dm_forge s))"
proof -
  assume u: "upscale_turn up tn s = (b, t)"
  obtain r v where h: "handle_upscale up tn s = (r, v)" by (cases "handle_upscale up tn s")
  have "length (c_in (dm_forge v)) \<le> length (c_in (dm_forge s))" by (rule d_consumesD [OF d_consumes_upscale h])
  moreover have p: "length (c_in (dm_forge (snd (progress_io a1 a2 a3 a4 a5 v)))) \<le> length (c_in (dm_forge v))" for a1 a2 a3 a4 a5
    using d_consumes_send(1) unfolding d_consumes_def by blast
  have "length (c_in (dm_forge t)) \<le> length (c_in (dm_forge v))"
    using u h by (auto simp: upscale_turn_def p split: sum.splits if_splits)
  ultimately show ?thesis by simp
qed

lemma cancel_turn_stops: "fst (cancel_turn s) = False"
  by (simp add: cancel_turn_def split: prod.split sum.split)

lemma conn_turn_consumes:
  assumes "conn_turn up cdir concurrency tn s = (Going, t)"
  shows "length (c_in (dm_forge t)) < length (c_in (dm_forge s))"
proof -
  obtain r u where r: "on_forge read_msg_type s = (r, u)" by force
  from assms r obtain ty where ty: "r = Inr ty" by (cases r) (auto simp: conn_turn_def Let_def)
  have u: "length (c_in (dm_forge u)) < length (c_in (dm_forge s))"
    using r ty by (auto simp: on_forge_def read_msg_type_def read_exact_def io_bind_def io_run split: prod.splits if_splits)
  from assms r ty obtain x where x: "msg_of ty = Some x" by (cases "msg_of ty") (auto simp: conn_turn_def Let_def)
  note step = assms [unfolded conn_turn_def Let_def r ty prod.case sum.case x option.case]
  have "length (c_in (dm_forge t)) \<le> length (c_in (dm_forge u))"
  proof (cases x)
    case Msg_Upscale
    with step upscale_turn_consumes [of up tn u _ t] show ?thesis by (cases "upscale_turn up tn u") simp
  next
    case Msg_Cancel_Upscale
    with step cancel_turn_stops [of u] show ?thesis by (cases "cancel_turn u") simp
  qed (use step in \<open>auto dest!: turn_consumes\<close>)
  with u show ?thesis by simp
qed

text \<open>\<open>turns k\<close> is what happens around turn number \<open>k\<close>.\<close>

function ff_handle_conn ::
  "('d, 'c, 'i, 'img, 'w, 'g) upscale_env \<Rightarrow> string \<Rightarrow> nat \<Rightarrow> (nat \<Rightarrow> turn) \<Rightarrow> nat \<Rightarrow> ('c, 'i) daemon \<Rightarrow>
     conn_fate \<times> ('c, 'i) daemon" where
  "ff_handle_conn up cdir concurrency turns k s =
     (let (how, t) = conn_turn up cdir concurrency (turns k) s
      in if how = Going then ff_handle_conn up cdir concurrency turns (Suc k) t else (how, t))"
  by pat_completeness auto
termination
  by (relation "measure (\<lambda>(_, _, _, _, _, s). length (c_in (dm_forge s)))") (auto dest!: conn_turn_consumes [OF sym])

declare ff_handle_conn.simps [simp del]

text \<open>The state after at most \<open>n\<close> turns, and how the connection stands then.\<close>

fun conn_run ::
  "('d, 'c, 'i, 'img, 'w, 'g) upscale_env \<Rightarrow> string \<Rightarrow> nat \<Rightarrow> (nat \<Rightarrow> turn) \<Rightarrow> nat \<Rightarrow> nat \<Rightarrow> ('c, 'i) daemon \<Rightarrow>
     conn_fate \<times> ('c, 'i) daemon" where
  "conn_run up cdir concurrency turns k 0 s = (Going, s)"
| "conn_run up cdir concurrency turns k (Suc n) s =
     (case conn_turn up cdir concurrency (turns k) s of
        (how, t) \<Rightarrow> if how = Going then conn_run up cdir concurrency turns (Suc k) n t else (how, t))"

lemma conn_run_mono:
  "conn_run up cdir concurrency turns k n s = (how, t) \<Longrightarrow> how \<noteq> Going \<Longrightarrow> n \<le> m \<Longrightarrow>
     conn_run up cdir concurrency turns k m s = (how, t)"
proof (induction n arbitrary: k m s)
  case (Suc n)
  then obtain m' where "m = Suc m'" "n \<le> m'" by (cases m) auto
  with Suc show ?case by (auto split: prod.splits if_splits)
qed simp

lemma conn_run_enough:
  "conn_run up cdir concurrency turns k (Suc (length (c_in (dm_forge s)))) s = ff_handle_conn up cdir concurrency turns k s \<and>
   (let how = fst (ff_handle_conn up cdir concurrency turns k s)
    in how = Over \<or> how = Waiting \<and> (\<exists>j. tn_endless (turns j)))"
proof (induction up cdir concurrency turns k s rule: ff_handle_conn.induct)
  case (1 up cdir concurrency turns k s)
  let ?rest = "\<lambda>t. ff_handle_conn up cdir concurrency turns (Suc k) t"
  obtain how t where c: "conn_turn up cdir concurrency (turns k) s = (how, t)" by force
  note unfold = ff_handle_conn.simps [of up cdir concurrency turns k s]
  show ?case
  proof (cases "how = Going")
    case False
    moreover have "how = Over \<or> how = Waiting \<and> (\<exists>j. tn_endless (turns j))"
      using False c conn_turn_waiting by (cases how) blast+
    ultimately show ?thesis using c by (simp add: unfold)
  next
    case True
    have lt: "length (c_in (dm_forge t)) < length (c_in (dm_forge s))"
      using conn_turn_consumes [of up cdir concurrency "turns k" s t] c True by simp
    have ih: "conn_run up cdir concurrency turns (Suc k) (Suc (length (c_in (dm_forge t)))) t = ?rest t"
      "fst (?rest t) = Over \<or> fst (?rest t) = Waiting \<and> (\<exists>j. tn_endless (turns j))"
      using 1 [OF c [symmetric] refl True] by (simp_all add: Let_def)
    obtain how' v where v: "?rest t = (how', v)" by (cases "?rest t")
    with ih(2) have "how' \<noteq> Going" by auto
    from conn_run_mono [OF ih(1) [unfolded v] this, of "length (c_in (dm_forge s))"] lt
    have "conn_run up cdir concurrency turns (Suc k) (length (c_in (dm_forge s))) t = ?rest t"
      by (simp add: v)
    with ih(2) c True show ?thesis by (simp add: unfold Let_def)
  qed
qed


section \<open>What an upscale request is answered\<close>

definition d_out :: "('c, 'i) daemon \<Rightarrow> byte list" where "d_out s = c_out (dm_forge s)"

lemma d_out_sel [simp]: "d_out (s\<lparr>dm_flags := x\<rparr>) = d_out s" "d_out (s\<lparr>dm_files := y\<rparr>) = d_out s"
  by (simp_all add: d_out_def)

lemma sends_running_on_forge: "sends_running c_out m \<Longrightarrow> sends_running d_out (on_forge m)"
  unfolding sends_running_def on_forge_def d_out_def by (auto split: prod.splits)

lemma ends_with_on_forge:
  assumes "ends_within few c_out m"
  shows "ends_within few d_out (on_forge m)"
proof -
  have "on_forge m s = (r, t) \<Longrightarrow> \<exists>f. m (dm_forge s) = (r, f) \<and> d_out t = c_out f" for s r t
    by (auto simp: on_forge_def d_out_def split: prod.splits)
  then show ?thesis
    using assms unfolding ends_within_def d_out_def by metis
qed

lemma sends_running_progress_io [intro, simp]: "sends_running d_out (progress_io ''running'' phase current tot percent)"
  unfolding progress_io_def by (rule sends_running_on_forge, rule sends_running_progress)

lemma sends_running_daemon [intro, simp]:
  "sends_running d_out (read_file p)" "sends_running d_out (write_file p bs)" "sends_running d_out (io_ensure b e)"
  "sends_running d_out (lift_option err x)" "sends_running d_out (lift_sum z)"
  by (auto intro!: sends_running_pure
      simp: read_file_def write_file_def io_ensure_def lift_option_def lift_sum_def io_run split: option.split sum.split)

lemma finish_ends: "ends_with_reply d_out (finish_upscale up req raw delays loop_count fps imgs)"
  unfolding finish_upscale_def by (auto intro!: ends_with_then ends_with_bind ends_with_on_forge)

lemma upscale_job_ends: "\<not> too_busy (ex_proc (up_exports up)) \<Longrightarrow> ends_with_reply d_out (upscale_job up tn req)"
  unfolding upscale_job_def
  by (auto intro!: ends_with_then ends_with_bind finish_ends sends_running_for split: prod.split)

text \<open>Errors are a refused write, after which the connection takes nothing more, or have a text.\<close>

definition plain_errors :: "('c, 'i, 'a) daemon_io \<Rightarrow> bool" where
  "plain_errors m \<longleftrightarrow>
     (\<forall>s e t. m s = (Inl e, t) \<longrightarrow> (e = Refused \<and> c_room (dm_forge t) = 0) \<or> (\<exists>x. e = Failed x))"

lemma plain_bind: "plain_errors m \<Longrightarrow> (\<And>a. plain_errors (f a)) \<Longrightarrow> plain_errors (io_bind m f)"
  unfolding plain_errors_def io_bind_Inl by blast

lemma plain_then: "plain_errors m \<Longrightarrow> plain_errors n \<Longrightarrow> plain_errors (io_then m n)"
  unfolding io_then_def by (rule plain_bind)

lemma plain_basic [simp]:
  "plain_errors (io_ret a)" "plain_errors (io_fail (Failed x))" "plain_errors (io_ensure b (Failed x))"
  "plain_errors (io_ensure True e)" "plain_errors (read_file p)" "plain_errors (write_file p bs)"
  "plain_errors (lift_option x y)" "plain_errors (lift_sum z)"
  by (auto simp: plain_errors_def io_run io_ensure_def read_file_def write_file_def lift_option_def lift_sum_def
      split: option.splits sum.splits if_splits)

lemma plain_write [simp]: "plain_errors (on_forge (write_all bs))" "plain_errors (progress_io a b c d e)"
  by (auto simp: plain_errors_def progress_io_def send_progress_def on_forge_def write_all_def split: if_splits)

lemma plain_for: "(\<And>x. plain_errors (f x)) \<Longrightarrow> plain_errors (io_for xs f)"
  by (induction xs) (auto intro: plain_then)

lemma upscale_job_plain: "\<not> tn_stalled tn \<Longrightarrow> plain_errors (upscale_job up tn req)"
  unfolding upscale_job_def finish_upscale_def
  by (auto intro!: plain_bind plain_then plain_for split: prod.split)

lemma with_flag_run:
  assumes "with_flag job m s = (r, t)"
  obtains v where "m (s\<lparr>dm_flags := AList.update job False (dm_flags s)\<rparr>) = (r, v)" and "dm_forge t = dm_forge v"
    and "r \<noteq> Inl Aborted \<Longrightarrow> map_of (dm_flags t) job = None"
proof (cases "m (s\<lparr>dm_flags := AList.update job False (dm_flags s)\<rparr>)")
  case (Pair x v)
  with assms show ?thesis by (intro that [of v]) (auto simp: with_flag_def delete_conv split: if_splits)
qed

lemma error_sent:
  assumes "0 < c_room (dm_forge (snd (progress_io ''error'' tx 0 1 p u)))"
  shows "0 < c_room (dm_forge u) \<and> dm_flags (snd (progress_io ''error'' tx 0 1 p u)) = dm_flags u \<and>
    (\<exists>bs. c_out (dm_forge (snd (progress_io ''error'' tx 0 1 p u))) = c_out (dm_forge u) @ message 1 bs)"
  using assms
  by (auto simp: progress_io_def on_forge_def send_progress_def write_all_def progress_bytes_def split: if_splits)

lemma read_upscale_forge:
  "upscale_ok req \<Longrightarrow> c_in (dm_forge s) = enc_upscale req @ rest \<Longrightarrow>
   on_forge read_upscale_req s = (Inr req, s\<lparr>dm_forge := (dm_forge s)\<lparr>c_in := rest\<rparr>\<rparr>)"
proof -
  assume r: "upscale_ok req" and c: "c_in (dm_forge s) = enc_upscale req @ rest"
  have "dm_forge s = (dm_forge s)\<lparr>c_in := enc_upscale req @ rest\<rparr>" by (simp flip: c)
  then have "read_upscale_req (dm_forge s) = (Inr req, (dm_forge s)\<lparr>c_in := rest\<rparr>)"
    using read_upscale_run [OF r, where s = "dm_forge s" and r = rest] by simp
  then show ?thesis by (simp add: on_forge_def)
qed


definition demo_up ::
  "(video_frame list, (ram_key \<times> byte list) list, (string \<times> index_data) list, byte, (byte list \<times> int) list, unit) upscale_env" where
  "demo_up = \<lparr>up_exports = demo_export, up_opencv = True, up_from_raw = (\<lambda>_ _ _. None), up_gif_in = (\<lambda>_. None),
     up_webp_in = (\<lambda>_. None), up_mp4_in = (\<lambda>_. None), up_session = (\<lambda>_ _. False), up_run = (\<lambda>_ _. Inl []),
     up_restore = (\<lambda>_ _. Inl []), up_png = (\<lambda>_. None),
     up_err_text = (\<lambda>e. case e of Failed x \<Rightarrow> x | _ \<Rightarrow> [])\<rparr>"

definition demo_turn :: turn where
  "demo_turn = \<lparr>tn_lookups = [], tn_timing = (\<lambda>_. (\<lambda>_. False, \<lambda>_. False, \<lambda>_. False)), tn_cancel = (\<lambda>_. False), tn_live = [],
     tn_endless = False, tn_relayed = 0, tn_stalled = False\<rparr>"

definition demo_up_req :: upscale_req where
  "demo_up_req = \<lparr>up_item_id = demo_item, up_input_path = ''/i.png'', up_output_path = ''/o.png'', up_model_path = ''/m'',
     up_device_id = ''cpu'', up_is_animation = False, up_face_model_path = [], up_log_path = [], up_downscale = 0,
     up_job_id = ''j''\<rparr>"

lemma demo_up_req_ok: "upscale_ok demo_up_req"
  by (auto simp: upscale_ok_def demo_up_req_def demo_item_ok intro!: ascii_text_ok)

definition demo_daemon :: "((ram_key \<times> byte list) list, (string \<times> index_data) list) daemon" where
  "demo_daemon = \<lparr>dm_forge = demo_forge\<lparr>c_in := enc_upscale demo_up_req @ []\<rparr>, dm_flags = [], dm_files = (\<lambda>_. None),
     dm_deny = (\<lambda>_. False)\<rparr>"


end
