(* ===== verification/Upscale_Tiles.thy ===== *)
theory Upscale_Tiles
  imports Seam
begin

text \<open>
  Tiled super resolution, \<^verbatim>\<open>crates/frame-forge/src/upscale.rs\<close>: a picture is cut into overlapping tiles, each is
  enlarged by a model, and the enlarged tiles are blended. The inner loops visit every pixel of a tile once, so adding a
  tile is one pointwise update of the sums. The session is a function from tiles to a shape with its data; a panic is
  \<open>None\<close>, an error an \<open>Inl\<close>. Sizes stay below \<open>2 ^ 32\<close> (the sums alone would not fit into memory otherwise).
\<close>

section \<open>Tiles\<close>

text \<open>The loop of \<^verbatim>\<open>tile_origins\<close>; it would not end for a step of zero.\<close>

partial_function (option) origins_from :: "nat \<Rightarrow> nat \<Rightarrow> nat \<Rightarrow> nat \<Rightarrow> nat list option" where
  [code]: "origins_from len tile step x =
     (if len \<le> x + tile then Some [x]
      else Option.bind (origins_from len tile step (min (x + step) (len - tile))) (\<lambda>r. Some (x # r)))"

definition tile_origins :: "nat \<Rightarrow> nat \<Rightarrow> nat \<Rightarrow> nat list option" where
  "tile_origins len tile step = (if len \<le> tile then Some [0] else origins_from len tile step 0)"

definition extract_tile :: "picture \<Rightarrow> nat \<Rightarrow> nat \<Rightarrow> nat \<Rightarrow> picture" where
  "extract_tile rgb x0 y0 tile =
     \<lparr>pic_w = tile, pic_h = tile,
      pic_at = \<lambda>(dx, dy). pic_at rgb (min (x0 + dx) (pic_w rgb - 1), min (y0 + dy) (pic_h rgb - 1))\<rparr>"

definition edge_ramp :: "nat \<Rightarrow> nat \<Rightarrow> nat \<Rightarrow> bool \<Rightarrow> bool \<Rightarrow> fl" where
  "edge_ramp pos len overlap touches_start touches_end =
     (let up = (\<lambda>n. g_div (g_add (g_of_nat n) (Fin 1)) (g_add (g_of_nat overlap) (Fin 1)));
          w = Fin 1;
          w = (if \<not> touches_start \<and> pos < overlap then g_mul w (up pos) else w);
          w = (if \<not> touches_end \<and> len \<le> pos + overlap then g_mul w (up (len - 1 - pos)) else w)
      in if overlap = 0 then Fin 1 else fl_max w (round32 (1 / 1000)))"

definition channel :: "nat \<Rightarrow> pixel \<Rightarrow> byte" where
  "channel c p = (case p of (r, g, b) \<Rightarrow> if c = 0 then r else if c = 1 then g else b)"

definition tile_to_array :: "picture \<Rightarrow> nat \<Rightarrow> nat \<Rightarrow> nat \<Rightarrow> fl" where
  "tile_to_array p c y x = g_div (g_of_nat (unat (channel c (pic_at p (x, y))))) (Fin 255)"

section \<open>Blending\<close>

type_synonym session = "nat \<Rightarrow> (nat \<Rightarrow> nat \<Rightarrow> nat \<Rightarrow> fl) \<Rightarrow> string + nat list \<times> fl list"

record blend =
  su_scale :: nat
  su_w :: nat
  su_h :: nat
  su_acc :: "nat \<Rightarrow> nat \<times> nat \<Rightarrow> fl"
  su_wsum :: "nat \<times> nat \<Rightarrow> fl"

definition no_blend :: blend where
  "no_blend = \<lparr>su_scale = 0, su_w = 0, su_h = 0, su_acc = \<lambda>_ _. Fin 0, su_wsum = \<lambda>_. Fin 0\<rparr>"

text \<open>The first output fixes the scale.\<close>

definition set_scale :: "picture \<Rightarrow> nat \<Rightarrow> nat \<Rightarrow> nat \<Rightarrow> blend \<Rightarrow> string + blend" where
  "set_scale rgb tile tile_out_w tile_out_h u =
     (if su_scale u \<noteq> 0 then Inr u
      else if tile_out_w mod tile \<noteq> 0 \<or> tile_out_h \<noteq> tile_out_w then Inl ''not a square multiple of the tile size''
      else (let s = tile_out_w div tile
            in Inr \<lparr>su_scale = s, su_w = pic_w rgb * s, su_h = pic_h rgb * s, su_acc = \<lambda>_ _. Fin 0, su_wsum = \<lambda>_. Fin 0\<rparr>))"

definition add_tile :: "picture \<Rightarrow> nat \<Rightarrow> nat \<Rightarrow> nat \<Rightarrow> nat \<Rightarrow> nat \<Rightarrow> nat \<Rightarrow> fl list \<Rightarrow> blend \<Rightarrow> blend" where
  "add_tile rgb tile overlap x0 y0 tile_out_w tile_out_h data u =
     (let s = su_scale u; ov_out = overlap * s; plane = tile_out_w * tile_out_h;
          touched = (\<lambda>(ox, oy). x0 * s \<le> ox \<and> ox < x0 * s + tile_out_w \<and> ox < su_w u
                       \<and> y0 * s \<le> oy \<and> oy < y0 * s + tile_out_h \<and> oy < su_h u);
          w = (\<lambda>(ox, oy). g_mul (edge_ramp (ox - x0 * s) tile_out_w ov_out (x0 = 0) (pic_w rgb \<le> x0 + tile))
                 (edge_ramp (oy - y0 * s) tile_out_h ov_out (y0 = 0) (pic_h rgb \<le> y0 + tile)));
          v = (\<lambda>c (ox, oy). data ! (plane * c + ((oy - y0 * s) * tile_out_w + (ox - x0 * s))))
      in u\<lparr>su_acc := \<lambda>c p. if touched p then g_add (su_acc u c p) (g_mul (v c p) (w p)) else su_acc u c p,
           su_wsum := \<lambda>p. if touched p then g_add (su_wsum u p) (w p) else su_wsum u p\<rparr>)"

definition do_tile :: "session \<Rightarrow> picture \<Rightarrow> nat \<Rightarrow> nat \<Rightarrow> nat \<times> nat \<Rightarrow> blend \<Rightarrow> (string + blend) option" where
  "do_tile run rgb tile overlap origin u =
     (case origin of (x0, y0) \<Rightarrow>
        (case run tile (tile_to_array (extract_tile rgb x0 y0 tile)) of
           Inl e \<Rightarrow> Some (Inl (''upscale session.run failed: '' @ e))
         | Inr (shape, data) \<Rightarrow>
             if length shape \<noteq> 4 \<or> shape ! 1 \<noteq> 3 then Some (Inl ''unexpected upscale output shape'')
             else
               (let tile_out_h = shape ! 2; tile_out_w = shape ! 3
                in case set_scale rgb tile tile_out_w tile_out_h u of
                     Inl e \<Rightarrow> Some (Inl e)
                   | Inr u \<Rightarrow>
                       if length data < 3 * (tile_out_w * tile_out_h) then None
                       else Some (Inr (add_tile rgb tile overlap x0 y0 tile_out_w tile_out_h data u)))))"

text \<open>\<open>cancel i\<close> is the cancel flag as read before the \<open>i\<close>-th tile.\<close>

fun do_tiles ::
  "session \<Rightarrow> picture \<Rightarrow> nat \<Rightarrow> nat \<Rightarrow> (nat \<Rightarrow> bool) \<Rightarrow> nat \<Rightarrow> (nat \<times> nat) list \<Rightarrow> blend \<Rightarrow> (string + blend) option" where
  "do_tiles run rgb tile overlap cancel i [] u = Some (Inr u)"
| "do_tiles run rgb tile overlap cancel i (origin # rest) u =
     (if cancel i then Some (Inl ''upscale cancelled'')
      else
        (case do_tile run rgb tile overlap origin u of
           Some (Inr u) \<Rightarrow> do_tiles run rgb tile overlap cancel (i + 1) rest u
         | r \<Rightarrow> r))"

definition to_byte :: "fl \<Rightarrow> byte" where
  "to_byte x = of_nat (min 255 (f_to_u32 (g_mul (fl_bound (Fin 0) (Fin 1) x) (Fin 255))))"

definition blended :: "blend \<Rightarrow> nat \<times> nat \<Rightarrow> pixel" where
  "blended u p =
     (let w = fl_max (su_wsum u p) (round32 (1 / 1000000)); v = (\<lambda>c. to_byte (g_div (su_acc u c p) w))
      in (v 0, v 1, v 2))"

definition upscale_image :: "session \<Rightarrow> nat \<Rightarrow> nat \<Rightarrow> (nat \<Rightarrow> bool) \<Rightarrow> picture \<Rightarrow> (string + picture) option" where
  "upscale_image run tile overlap cancel rgb =
     (if tile \<le> overlap * 2 then Some (Inl ''tile must exceed 2x overlap'')
      else if pic_w rgb = 0 \<or> pic_h rgb = 0 then Some (Inl ''empty input image'')
      else
        (case (tile_origins (pic_w rgb) tile (tile - overlap), tile_origins (pic_h rgb) tile (tile - overlap)) of
           (Some xs, Some ys) \<Rightarrow>
             (case do_tiles run rgb tile overlap cancel 0 (concat (map (\<lambda>y0. map (\<lambda>x0. (x0, y0)) xs) ys)) no_blend of
                None \<Rightarrow> None
              | Some (Inl e) \<Rightarrow> Some (Inl e)
              | Some (Inr u) \<Rightarrow>
                  if su_scale u = 0 then Some (Inl ''upscale produced no tiles'')
                  else Some (Inr \<lparr>pic_w = su_w u, pic_h = su_h u, pic_at = blended u\<rparr>))
         | _ \<Rightarrow> None))"

section \<open>The origins\<close>

text \<open>Every loop with a positive step ends: the distance to the last origin shrinks.\<close>

lemma origins_regular:
  assumes "0 < step" and "x \<le> len - tile" and "tile \<le> len"
  obtains n where "origins_from len tile step x = Some (map (\<lambda>i. x + i * step) [0..<n] @ [len - tile])"
    and "\<And>i. i < n \<Longrightarrow> x + i * step < len - tile" and "len - tile \<le> x + n * step"
proof -
  have "\<exists>n. origins_from len tile step x = Some (map (\<lambda>i. x + i * step) [0..<n] @ [len - tile])
     \<and> (\<forall>i < n. x + i * step < len - tile) \<and> len - tile \<le> x + n * step"
    using assms(2)
  proof (induction "len - tile - x" arbitrary: x rule: less_induct)
    case less
    show ?case
    proof (cases "x = len - tile")
      case True
      with assms(3) show ?thesis by (intro exI [of _ 0]) (simp add: origins_from.simps)
    next
      case False
      with less.prems have lt: "x < len - tile" by simp
      let ?x = "min (x + step) (len - tile)"
      have u: "origins_from len tile step x = Option.bind (origins_from len tile step ?x) (\<lambda>r. Some (x # r))"
      proof -
        have "\<not> len \<le> x + tile" using lt by linarith
        then show ?thesis by (subst origins_from.simps) simp
      qed
      show ?thesis
      proof (cases "x + step \<le> len - tile")
        case True
        have "len - tile - (x + step) < len - tile - x" using lt assms(1) by linarith
        from less.hyps [OF this True] obtain n where n:
          "origins_from len tile step (x + step) = Some (map (\<lambda>i. x + step + i * step) [0..<n] @ [len - tile])"
          "\<forall>i < n. x + step + i * step < len - tile" "len - tile \<le> x + step + n * step" by blast
        have "x # map (\<lambda>i. x + step + i * step) [0..<n] = map (\<lambda>i. x + i * step) [0..<Suc n]"
          by (simp add: upt_conv_Cons map_Suc_upt [symmetric] o_def add.assoc del: upt_Suc map_Suc_upt)
        moreover have "x + i * step < len - tile" if "i < Suc n" for i
          using that n(2) lt by (cases i) auto
        ultimately show ?thesis using u n True by (intro exI [of _ "Suc n"]) (simp add: add.assoc)
      next
        case False
        then have "origins_from len tile step ?x = Some [len - tile]" using assms(3) by (subst origins_from.simps) simp
        with u False lt show ?thesis by (intro exI [of _ 1]) simp
      qed
    qed
  qed
  with that show thesis by blast
qed

text \<open>How many tiles a position lies in, along one axis.\<close>

definition over :: "nat \<Rightarrow> nat \<Rightarrow> nat \<Rightarrow> bool" where
  "over tile p x \<longleftrightarrow> x \<le> p \<and> p < x + tile"

lemma few_regular:
  assumes "0 < step" and "tile \<le> 2 * step"
  shows "length (filter (over tile p) (map (\<lambda>i. i * step) [0..<n])) \<le> 2"
proof -
  let ?q = "p div step"
  have "{i. i < n \<and> over tile p (i * step)} \<subseteq> {?q - 1, ?q}"
  proof
    fix i assume "i \<in> {i. i < n \<and> over tile p (i * step)}"
    then have i: "i * step \<le> p" "p < i * step + tile" by (simp_all add: over_def)
    have "i \<le> ?q" using i(1) assms(1) by (simp add: less_eq_div_iff_mult_less_eq)
    moreover have "p < (i + 2) * step" using i(2) assms(2) by simp
    then have "?q < i + 2" using assms(1) by (simp add: less_mult_imp_div_less)
    ultimately show "i \<in> {?q - 1, ?q}" by auto
  qed
  then have "card {i. i < n \<and> over tile p (i * step)} \<le> card {?q - 1, ?q}" by (intro card_mono) simp_all
  also have "\<dots> \<le> 2" by (simp add: card_insert_if)
  finally show ?thesis
    by (simp add: filter_map length_filter_conv_card o_def cong: conj_cong)
qed

lemma tile_origins_ok:
  assumes "0 < step" and "step \<le> tile"
  obtains xs where "tile_origins len tile step = Some xs" and "\<And>x. x \<in> set xs \<Longrightarrow> x + tile \<le> max len tile"
    and "\<And>p. p < len \<Longrightarrow> 1 \<le> length (filter (over tile p) xs)"
    and "\<And>p. tile \<le> 2 * step \<Longrightarrow> length (filter (over tile p) xs) \<le> 3"
    and "sorted_wrt (<) xs" and "hd xs = 0" and "tile \<le> len \<Longrightarrow> last xs + tile = len"
    and "\<And>i. Suc i < length xs \<Longrightarrow> xs ! Suc i \<le> xs ! i + step"
proof (cases "len \<le> tile")
  case True
  then show thesis by (intro that [of "[0]"]) (auto simp: tile_origins_def over_def)
next
  case False
  obtain n where n: "origins_from len tile step 0 = Some (map (\<lambda>i. 0 + i * step) [0..<n] @ [len - tile])"
    "\<And>i. i < n \<Longrightarrow> 0 + i * step < len - tile" "len - tile \<le> 0 + n * step"
    by (rule origins_regular [OF assms(1), of 0 len tile]) (use False in auto)
  define xs where "xs = map (\<lambda>i. i * step) [0..<n] @ [len - tile]"
  have "n \<noteq> 0" using n(3) False by (cases n) auto
  show thesis
  proof (rule that [of xs])
    show "tile_origins len tile step = Some xs" using n(1) False by (simp add: tile_origins_def xs_def)
    show "x + tile \<le> max len tile" if "x \<in> set xs" for x using that n(2) False by (fastforce simp: xs_def)
    show "1 \<le> length (filter (over tile p) xs)" if "p < len" for p
    proof -
      have "\<exists>x \<in> set xs. over tile p x"
      proof (cases "len - tile \<le> p")
        case True
        with that False show ?thesis by (auto simp: xs_def over_def)
      next
        case False
        then have "p div step < n" using n(3) assms(1) by (simp add: less_mult_imp_div_less)
        moreover have "over tile p (p div step * step)"
          using assms div_mult_mod_eq [of p step] mod_less_divisor [OF assms(1), of p] unfolding over_def by linarith
        ultimately show ?thesis by (auto simp: xs_def)
      qed
      then have "filter (over tile p) xs \<noteq> []" by (auto simp: filter_empty_conv)
      then show ?thesis by (cases "filter (over tile p) xs") auto
    qed
    show "length (filter (over tile p) xs) \<le> 3" if "tile \<le> 2 * step" for p
      using few_regular [OF assms(1) that, of p n] by (simp add: xs_def)
    show "sorted_wrt (<) xs"
    proof -
      have "sorted_wrt (<) (map (\<lambda>i. i * step) [0..<n])" using assms(1) by (simp add: sorted_wrt_iff_nth_less)
      with n(2) show ?thesis by (auto simp: xs_def sorted_wrt_append)
    qed
    show "hd xs = 0" using \<open>n \<noteq> 0\<close> by (simp add: xs_def hd_map hd_append upt_conv_Cons)
    show "last xs + tile = len" using False by (simp add: xs_def)
    show "xs ! Suc i \<le> xs ! i + step" if "Suc i < length xs" for i
    proof (cases "Suc i < n")
      case True
      then show ?thesis by (simp add: xs_def nth_append)
    next
      case False
      with that have "n = Suc i" by (simp add: xs_def)
      with n(3) show ?thesis by (simp add: xs_def nth_append)
    qed
  qed
qed

section \<open>Errors of single precision\<close>

lemma round32_near:
  assumes "\<bar>x\<bar> \<le> 1000000"
  obtains y where "round32 x = Fin y" and "\<bar>y - x\<bar> \<le> \<bar>x\<bar> / 16777216 + 1 / 10000000000000000000000000000000000000000"
proof -
  let ?y = "round_val 24 (- 126) x"
  have near: "\<bar>?y - x\<bar> \<le> \<bar>x\<bar> / 16777216 + 1 / 10000000000000000000000000000000000000000"
  proof (cases "x = 0")
    case False
    let ?g = "grid 24 (- 126) x"
    have "?y - x = (of_int (rne (x / ?g)) - x / ?g) * ?g"
      using False grid_pos [of 24 "- 126" x] by (simp add: round_val_def left_diff_distrib)
    then have "\<bar>?y - x\<bar> = \<bar>of_int (rne (x / ?g)) - x / ?g\<bar> * ?g" using grid_pos [of 24 "- 126" x] by (simp add: abs_mult)
    also have "\<dots> \<le> 1 / 2 * ?g" by (rule mult_right_mono) (use rne_bounds grid_pos [of 24 "- 126" x] in \<open>simp_all add: less_imp_le\<close>)
    also have "\<dots> \<le> \<bar>x\<bar> / 16777216 + 1 / 10000000000000000000000000000000000000000"
    proof (cases "- 126 \<le> expo x")
      case True
      then have "?g = 2 powi (expo x + (- 23))" by (simp add: grid_def)
      also have "\<dots> = 2 powi expo x * 2 powi (- 23)" by (metis power_int_add zero_neq_numeral)
      also have "\<dots> \<le> \<bar>x\<bar> * 2 powi (- 23)" using expo_bounds [OF False] by (intro mult_right_mono) simp_all
      also have "(2 :: rat) powi (- 23) = 1 / 8388608" by (simp add: power_int_minus field_simps)
      finally show ?thesis by simp
    next
      case False
      then have "?g = 2 powi (- 149)" by (simp add: grid_def)
      also have "(2 :: rat) powi (- 149) \<le> 1 / 10000000000000000000000000000000000000000" by (simp add: power_int_minus field_simps)
      finally show ?thesis by simp
    qed
    finally show ?thesis .
  qed simp
  have "\<bar>?y\<bar> < 2000001" using near assms by linarith
  also have "(2000001 :: rat) \<le> 2 ^ 128" by simp
  finally have "round32 x = Fin ?y" by (simp add: round32_def round_fl_def Let_def abs_less_iff not_le)
  with near that show thesis by blast
qed

lemma g_of_nat_exact: "n < 16777216 \<Longrightarrow> g_of_nat n = Fin (of_nat n)"
proof -
  assume "n < 16777216"
  then have "round_val 24 (- 126) (of_int (int n)) = of_int (int n)" by (intro round_val_int) simp_all
  then have r: "round_val 24 (- 126) (of_nat n) = of_nat n" by simp
  have "(of_nat n :: rat) < of_nat 16777216" using \<open>n < 16777216\<close> by (simp only: of_nat_less_iff)
  then have "(of_nat n :: rat) < 2 ^ 128" "- (2 ^ 128) < (of_nat n :: rat)" by simp_all
  with r show ?thesis by (simp add: g_of_nat_def round32_def round_fl_def Let_def not_le)
qed

text \<open>One step of a weighted sum.\<close>

lemma acc_add:
  assumes "0 \<le> F" "F \<le> 1" and "0 \<le> S" "S \<le> 100" and "1 / 20000 \<le> w" "w \<le> 2" and "0 \<le> e" "e \<le> 1 / 2"
    and "\<bar>A - F * S\<bar> \<le> e * S" and p: "\<bar>p - F * w\<bar> \<le> w / 16777216 + 1 / 10000000000000000000000000000000000000000"
  obtains q where "round32 (A + p) = Fin q" and "\<bar>q - F * (S + w)\<bar> \<le> (e + 3 / 16777216) * (S + w)"
proof -
  have f: "0 \<le> F * w" "F * w \<le> w" "0 \<le> F * S" "F * S \<le> S" using assms by (auto intro: mult_left_le_one_le)
  define h where "h = e * S"
  have h: "0 \<le> h" "h \<le> S / 2" using assms mult_right_mono [of e "1 / 2" S] by (simp_all add: h_def)
  have A: "\<bar>A - F * S\<bar> \<le> h" using assms(9) by (simp add: h_def)
  obtain q where q: "round32 (A + p) = Fin q" "\<bar>q - (A + p)\<bar> \<le> \<bar>A + p\<bar> / 16777216 + 1 / 10000000000000000000000000000000000000000"
    by (rule round32_near [of "A + p"]) (use p f h A assms in linarith)
  have "\<bar>A + p\<bar> \<le> 3 / 2 * S + 3 / 2 * w" using p f h A assms by linarith
  then have ap: "\<bar>A + p\<bar> \<le> 3 / 2 * (S + w)" by (simp add: distrib_left)
  then have q': "\<bar>q - (A + p)\<bar> \<le> 3 / 2 * (S + w) / 16777216 + 1 / 10000000000000000000000000000000000000000"
    using q(2) by (meson add_right_mono divide_right_mono order.trans zero_le_numeral)
  have "\<bar>q - (F * S + F * w)\<bar> \<le> h + 3 / 16777216 * S + 3 / 16777216 * w"
    using q' p A assms(3,5) by (simp add: distrib_left add_divide_distrib)
  moreover have "0 \<le> e * w" using assms by simp
  ultimately have "\<bar>q - F * (S + w)\<bar> \<le> (e + 3 / 16777216) * (S + w)"
    by (simp add: h_def distrib_left distrib_right)
  with q(1) that show thesis by blast
qed

lemma acc_step:
  assumes "0 \<le> F" "F \<le> 1" and "0 \<le> S" "S \<le> 100" and "1 / 20000 \<le> w" "w \<le> 2" and "0 \<le> e" "e \<le> 1 / 2"
    and "\<bar>A - F * S\<bar> \<le> e * S"
  obtains A' where "g_add (Fin A) (g_mul (Fin F) (Fin w)) = Fin A'" and "\<bar>A' - F * (S + w)\<bar> \<le> (e + 3 / 16777216) * (S + w)"
proof -
  have f: "0 \<le> F * w" "F * w \<le> w" using assms by (auto intro: mult_left_le_one_le)
  obtain p where p: "round32 (F * w) = Fin p" "\<bar>p - F * w\<bar> \<le> \<bar>F * w\<bar> / 16777216 + 1 / 10000000000000000000000000000000000000000"
    by (rule round32_near [of "F * w"]) (use f assms in linarith)
  have "\<bar>p - F * w\<bar> \<le> w / 16777216 + 1 / 10000000000000000000000000000000000000000" using p(2) f by linarith
  from acc_add [OF assms this] obtain q where "round32 (A + p) = Fin q" "\<bar>q - F * (S + w)\<bar> \<le> (e + 3 / 16777216) * (S + w)" .
  moreover from this(1) p(1) have "g_add (Fin A) (g_mul (Fin F) (Fin w)) = Fin q" by (simp add: g_add_def g_mul_def)
  ultimately show thesis using that by blast
qed

text \<open>The weight of a tile at a position.\<close>

lemma ramp_up:
  assumes "n < ov" and "ov \<le> 128"
  obtains r where "g_div (g_add (g_of_nat n) (Fin 1)) (g_add (g_of_nat ov) (Fin 1)) = Fin r" and "1 / 129 - 1 / 10000000 \<le> r" and "r \<le> 1 + 1 / 10000000"
proof -
  have g: "g_add (g_of_nat k) (Fin 1) = Fin (of_nat (k + 1))" if "k \<le> 128" for k
    using that g_of_nat_exact [of k] g_of_nat_exact [of "k + 1"] by (simp add: g_add_def g_of_nat_def add.commute)
  define x where "x = (of_nat (n + 1) / of_nat (ov + 1) :: rat)"
  have "(of_nat (n + 1) :: rat) \<le> of_nat (ov + 1)" "(of_nat (ov + 1) :: rat) \<le> of_nat 129" "(of_nat 1 :: rat) \<le> of_nat (n + 1)"
    using assms by (simp_all only: of_nat_le_iff)
  then have "x \<le> 1" "1 / 129 \<le> x" unfolding x_def by (simp_all add: field_simps)
  then obtain r where "round32 x = Fin r" "\<bar>r - x\<bar> \<le> x / 16777216 + 1 / 10000000000000000000000000000000000000000"
    using round32_near [of x] by auto
  moreover from this(2) \<open>x \<le> 1\<close> \<open>1 / 129 \<le> x\<close> have "1 / 129 - 1 / 10000000 \<le> r" "r \<le> 1 + 1 / 10000000" by linarith+
  moreover have "g_div (g_add (g_of_nat n) (Fin 1)) (g_add (g_of_nat ov) (Fin 1)) = round32 x"
    using g [of n] g [of ov] assms by (simp add: g_div_def x_def del: of_nat_Suc of_nat_add)
  ultimately show thesis using that by simp
qed

lemma edge_ramp_bounds:
  assumes "0 < ov" and "ov \<le> 128" and "2 * ov < len" and "pos < len"
  obtains r where "edge_ramp pos len ov a b = Fin r" and "1 / 130 \<le> r" and "r \<le> 5 / 4"
proof -
  obtain m where m: "round32 (1 / 1000) = Fin m" "\<bar>m - 1 / 1000\<bar> \<le> 1 / 1000"
  proof (rule round32_near [of "1 / 1000"])
    fix y
    assume y: "round32 (1 / 1000) = Fin y" "\<bar>y - 1 / 1000\<bar> \<le> \<bar>1 / 1000\<bar> / 16777216 + 1 / 10000000000000000000000000000000000000000"
    have "\<bar>y - 1 / 1000\<bar> \<le> 1 / 1000" by (rule order.trans [OF y(2)]) simp
    with y(1) that show thesis by blast
  qed simp
  have up: "\<exists>r. edge_ramp pos len ov a b = Fin r \<and> 1 / 130 \<le> r \<and> r \<le> 5 / 4" if v: "v < ov" and e: "edge_ramp pos len ov a b = fl_max (g_mul (Fin 1) (g_div (g_add (g_of_nat v) (Fin 1)) (g_add (g_of_nat ov) (Fin 1)))) (Fin m)" for v
  proof -
    obtain r where r: "g_div (g_add (g_of_nat v) (Fin 1)) (g_add (g_of_nat ov) (Fin 1)) = Fin r" "1 / 129 - 1 / 10000000 \<le> r" "r \<le> 1 + 1 / 10000000"
      by (rule ramp_up [OF v assms(2)])
    obtain y where y: "round32 r = Fin y" "\<bar>y - r\<bar> \<le> \<bar>r\<bar> / 16777216 + 1 / 10000000000000000000000000000000000000000"
      by (rule round32_near [of r]) (use r in linarith)
    have "1 / 130 \<le> y" "y \<le> 5 / 4" using y(2) r(2,3) by linarith+
    moreover have "m \<le> y" using m(2) calculation(1) by linarith
    ultimately show ?thesis using e y(1) r(1) by (simp add: g_mul_def)
  qed
  consider "\<not> a" "pos < ov" | "\<not> (\<not> a \<and> pos < ov)" "\<not> b" "len \<le> pos + ov" | "\<not> (\<not> a \<and> pos < ov)" "\<not> (\<not> b \<and> len \<le> pos + ov)" by blast
  then have "\<exists>r. edge_ramp pos len ov a b = Fin r \<and> 1 / 130 \<le> r \<and> r \<le> 5 / 4"
  proof cases
    case 1
    with assms m(1) show ?thesis by (intro up [of pos]) (simp_all add: edge_ramp_def)
  next
    case 2
    with assms m(1) show ?thesis by (intro up [of "len - 1 - pos"]) (auto simp: edge_ramp_def Let_def)
  next
    case 3
    then have "edge_ramp pos len ov a b = fl_max (Fin 1) (Fin m)" using assms m(1) by (auto simp: edge_ramp_def Let_def)
    moreover have "m \<le> 1" using m(2) by linarith
    ultimately show ?thesis by (simp add: max_def)
  qed
  with that show thesis by blast
qed

lemma weight_bounds:
  assumes "1 / 130 \<le> a" "a \<le> 5 / 4" and "1 / 130 \<le> b" "b \<le> 5 / (4 :: rat)"
  obtains w where "g_mul (Fin a) (Fin b) = Fin w" and "1 / 20000 \<le> w" and "w \<le> 2"
proof -
  have p: "1 / 16900 \<le> a * b" "a * b \<le> 25 / 16"
    using mult_mono [of "1 / 130" a "1 / 130" b] mult_mono [of a "5 / 4" b "5 / 4"] assms by simp_all
  obtain w where w: "round32 (a * b) = Fin w" "\<bar>w - a * b\<bar> \<le> \<bar>a * b\<bar> / 16777216 + 1 / 10000000000000000000000000000000000000000"
    by (rule round32_near [of "a * b"]) (use p in linarith)
  with p that [of w] show thesis by (simp add: g_mul_def)
qed

section \<open>Blending a model whose tiles agree\<close>

text \<open>
  \<open>F c x y\<close> is the enlarged picture the tiles agree on: the model answers every tile with the part of \<open>F\<close> that lies over
  it, in the documented shape. Nothing is said of what lies outside the picture.
\<close>

definition model_answers :: "session \<Rightarrow> picture \<Rightarrow> nat \<Rightarrow> nat \<Rightarrow> (nat \<Rightarrow> nat \<Rightarrow> nat \<Rightarrow> rat) \<Rightarrow> nat \<Rightarrow> nat \<Rightarrow> bool" where
  "model_answers run rgb tile s F x0 y0 \<longleftrightarrow>
     (let n = s * tile
      in case run tile (tile_to_array (extract_tile rgb x0 y0 tile)) of
           Inl _ \<Rightarrow> False
         | Inr (shape, data) \<Rightarrow>
             shape = [1, 3, n, n] \<and> length data = 3 * (n * n) \<and>
             (\<forall>c < 3. \<forall>dy < n. \<forall>dx < n. x0 * s + dx < pic_w rgb * s \<longrightarrow> y0 * s + dy < pic_h rgb * s \<longrightarrow>
                data ! (n * n * c + (dy * n + dx)) = Fin (F c (x0 * s + dx) (y0 * s + dy))))"

definition covers_pixel :: "nat \<Rightarrow> nat \<Rightarrow> nat \<times> nat \<Rightarrow> nat \<times> nat \<Rightarrow> bool" where
  "covers_pixel tile s p o' \<longleftrightarrow> over tile (fst p div s) (fst o') \<and> over tile (snd p div s) (snd o')"

text \<open>After \<open>k\<close> contributions the two sums at a pixel are within \<open>k\<close> rounding units of each other.\<close>

definition near :: "(nat \<Rightarrow> nat \<Rightarrow> nat \<Rightarrow> rat) \<Rightarrow> blend \<Rightarrow> nat \<times> nat \<Rightarrow> nat \<Rightarrow> bool" where
  "near F u p k \<longleftrightarrow>
     (\<exists>S. of_nat k / 20000 \<le> S \<and> S \<le> 2 * of_nat k
        \<and> (\<exists>W. su_wsum u p = Fin W \<and> \<bar>W - S\<bar> \<le> of_nat k * (3 / 16777216) * S)
        \<and> (\<forall>c < 3. \<exists>A. su_acc u c p = Fin A \<and> \<bar>A - F c (fst p) (snd p) * S\<bar> \<le> of_nat k * (3 / 16777216) * S))"

lemma over_scaled: "0 < s \<Longrightarrow> over tile (p div s) x \<longleftrightarrow> x * s \<le> p \<and> p < x * s + s * tile"
proof -
  assume "0 < s"
  then have "x \<le> p div s \<longleftrightarrow> x * s \<le> p" "p div s < x + tile \<longleftrightarrow> p < (x + tile) * s"
    by (simp_all add: less_eq_div_iff_mult_less_eq div_less_iff_less_mult)
  then show ?thesis by (simp add: over_def distrib_left mult.commute)
qed

lemma near_step:
  assumes n: "near F u p k" and k: "k \<le> 9" and F: "\<And>c. 0 \<le> F c (fst p) (snd p) \<and> F c (fst p) (snd p) \<le> 1"
    and w: "1 / 20000 \<le> w" "w \<le> 2"
    and acc: "\<And>c. c < 3 \<Longrightarrow> su_acc v c p = g_add (su_acc u c p) (g_mul (Fin (F c (fst p) (snd p))) (Fin w))"
    and ws: "su_wsum v p = g_add (su_wsum u p) (Fin w)"
  shows "near F v p (Suc k)"
proof -
  define e where "e = (of_nat k * (3 / 16777216) :: rat)"
  have kr: "(of_nat k :: rat) \<le> of_nat 9" using k by (simp only: of_nat_le_iff)
  then have e: "0 \<le> e" "e \<le> 1 / 2" by (simp_all add: e_def)
  obtain S where S: "of_nat k / 20000 \<le> S" "S \<le> 2 * of_nat k"
    and W: "\<exists>W. su_wsum u p = Fin W \<and> \<bar>W - S\<bar> \<le> e * S"
    and A: "\<And>c. c < 3 \<Longrightarrow> \<exists>A. su_acc u c p = Fin A \<and> \<bar>A - F c (fst p) (snd p) * S\<bar> \<le> e * S"
    using n by (auto simp: near_def e_def)
  have "(0 :: rat) \<le> of_nat k" by simp
  then have S': "0 \<le> S" "S \<le> 100" using S kr by linarith+
  have e': "of_nat (Suc k) * (3 / 16777216) = e + (3 / 16777216 :: rat)" by (simp add: e_def algebra_simps)
  show ?thesis
    unfolding near_def e'
  proof (rule exI [of _ "S + w"], intro conjI allI impI)
    show "of_nat (Suc k) / 20000 \<le> S + w" "S + w \<le> 2 * of_nat (Suc k)" using S w by (simp_all add: field_simps)
    obtain W0 where W0: "su_wsum u p = Fin W0" "\<bar>W0 - 1 * S\<bar> \<le> e * S" using W by auto
    obtain W' where "round32 (W0 + w) = Fin W'" "\<bar>W' - 1 * (S + w)\<bar> \<le> (e + 3 / 16777216) * (S + w)"
      by (rule acc_add [OF _ _ S' w e W0(2), of w]) (use w in simp_all)
    then show "\<exists>W. su_wsum v p = Fin W \<and> \<bar>W - (S + w)\<bar> \<le> (e + 3 / 16777216) * (S + w)"
      using ws W0(1) by (simp add: g_add_def)
    fix c :: nat
    assume c: "c < 3"
    obtain A0 where A0: "su_acc u c p = Fin A0" "\<bar>A0 - F c (fst p) (snd p) * S\<bar> \<le> e * S" using A [OF c] by auto
    obtain A' where "g_add (Fin A0) (g_mul (Fin (F c (fst p) (snd p))) (Fin w)) = Fin A'"
      "\<bar>A' - F c (fst p) (snd p) * (S + w)\<bar> \<le> (e + 3 / 16777216) * (S + w)"
      by (rule acc_step [OF _ _ S' w e A0(2)]) (use F [of c] in auto)
    then show "\<exists>A. su_acc v c p = Fin A \<and> \<bar>A - F c (fst p) (snd p) * (S + w)\<bar> \<le> (e + 3 / 16777216) * (S + w)"
      using acc [OF c] A0(1) by auto
  qed
qed

text \<open>The constants of the daemon: tiles of 256 with an overlap of 32, and models that enlarge up to four times.\<close>

definition fits :: "picture \<Rightarrow> nat \<Rightarrow> blend \<Rightarrow> bool" where
  "fits rgb s u \<longleftrightarrow> su_scale u = s \<and> su_w u = pic_w rgb * s \<and> su_h u = pic_h rgb * s"

lemma add_tile_outside:
  assumes "fits rgb s u" and "0 < s" and "\<not> covers_pixel tile s p (x0, y0)"
  shows "su_acc (add_tile rgb tile ov x0 y0 (s * tile) (s * tile) data u) c p = su_acc u c p"
    and "su_wsum (add_tile rgb tile ov x0 y0 (s * tile) (s * tile) data u) p = su_wsum u p"
  using assms by (cases p; auto simp: add_tile_def fits_def covers_pixel_def over_scaled Let_def)+

lemma add_tile_near:
  assumes u: "fits rgb s u" and s: "1 \<le> s" "s \<le> 4" and p: "X < pic_w rgb * s" "Y < pic_h rgb * s"
    and cov: "covers_pixel 256 s (X, Y) (x0, y0)"
    and data: "\<And>c dx dy. c < 3 \<Longrightarrow> dy < s * 256 \<Longrightarrow> dx < s * 256 \<Longrightarrow> x0 * s + dx < pic_w rgb * s \<Longrightarrow> y0 * s + dy < pic_h rgb * s \<Longrightarrow>
       data ! (s * 256 * (s * 256) * c + (dy * (s * 256) + dx)) = Fin (F c (x0 * s + dx) (y0 * s + dy))"
    and n: "near F u (X, Y) k" and k: "k \<le> 9" and F: "\<And>c. 0 \<le> F c X Y \<and> F c X Y \<le> 1"
  shows "near F (add_tile rgb 256 32 x0 y0 (s * 256) (s * 256) data u) (X, Y) (Suc k)"
proof -
  have xy: "x0 * s \<le> X" "X < x0 * s + s * 256" "y0 * s \<le> Y" "Y < y0 * s + s * 256"
    using cov s(1) by (auto simp: covers_pixel_def over_scaled)
  obtain a where a: "edge_ramp (X - x0 * s) (s * 256) (32 * s) (x0 = 0) (pic_w rgb \<le> x0 + 256) = Fin a" "1 / 130 \<le> a" "a \<le> 5 / 4"
    by (rule edge_ramp_bounds [of "32 * s" "s * 256" "X - x0 * s"]) (use s xy in auto)
  obtain b where b: "edge_ramp (Y - y0 * s) (s * 256) (32 * s) (y0 = 0) (pic_h rgb \<le> y0 + 256) = Fin b" "1 / 130 \<le> b" "b \<le> 5 / 4"
    by (rule edge_ramp_bounds [of "32 * s" "s * 256" "Y - y0 * s"]) (use s xy in auto)
  obtain w where w: "g_mul (Fin a) (Fin b) = Fin w" "1 / 20000 \<le> w" "w \<le> 2"
    by (rule weight_bounds [OF a(2,3) b(2,3)])
  have d: "data ! (s * 256 * (s * 256) * c + ((Y - y0 * s) * (s * 256) + (X - x0 * s))) = Fin (F c X Y)" if "c < 3" for c
    using data [OF that, of "Y - y0 * s" "X - x0 * s"] xy p by simp
  show ?thesis
  proof (rule near_step [OF n k _ w(2,3)])
    fix c :: nat
    assume "c < 3"
    with u xy p a(1) b(1) w(1) d [of c]
    show "su_acc (add_tile rgb 256 32 x0 y0 (s * 256) (s * 256) data u) c (X, Y)
        = g_add (su_acc u c (X, Y)) (g_mul (Fin (F c (fst (X, Y)) (snd (X, Y)))) (Fin w))"
      by (simp add: add_tile_def fits_def Let_def)
  next
    show "su_wsum (add_tile rgb 256 32 x0 y0 (s * 256) (s * 256) data u) (X, Y) = g_add (su_wsum u (X, Y)) (Fin w)"
      using u xy p a(1) b(1) w(1) by (simp add: add_tile_def fits_def Let_def)
  qed (use F in simp)
qed

lemma do_tile_answers:
  assumes "model_answers run rgb 256 s F x0 y0" and "1 \<le> s" and "fits rgb s u"
  obtains data where "do_tile run rgb 256 32 (x0, y0) u = Some (Inr (add_tile rgb 256 32 x0 y0 (s * 256) (s * 256) data u))"
    and "\<And>c dx dy. c < 3 \<Longrightarrow> dy < s * 256 \<Longrightarrow> dx < s * 256 \<Longrightarrow> x0 * s + dx < pic_w rgb * s \<Longrightarrow> y0 * s + dy < pic_h rgb * s \<Longrightarrow>
       data ! (s * 256 * (s * 256) * c + (dy * (s * 256) + dx)) = Fin (F c (x0 * s + dx) (y0 * s + dy))"
proof -
  from assms(1) obtain data where r: "run 256 (tile_to_array (extract_tile rgb x0 y0 256)) = Inr ([1, 3, s * 256, s * 256], data)"
    "length data = 3 * (s * 256 * (s * 256))"
    and d: "\<And>c dx dy. c < 3 \<Longrightarrow> dy < s * 256 \<Longrightarrow> dx < s * 256 \<Longrightarrow> x0 * s + dx < pic_w rgb * s \<Longrightarrow> y0 * s + dy < pic_h rgb * s \<Longrightarrow>
       data ! (s * 256 * (s * 256) * c + (dy * (s * 256) + dx)) = Fin (F c (x0 * s + dx) (y0 * s + dy))"
    by (auto simp: model_answers_def Let_def split: sum.splits)
  have "set_scale rgb 256 (s * 256) (s * 256) u = Inr u" using assms(2,3) by (simp add: set_scale_def fits_def)
  with r have "do_tile run rgb 256 32 (x0, y0) u = Some (Inr (add_tile rgb 256 32 x0 y0 (s * 256) (s * 256) data u))"
    by (simp add: do_tile_def Let_def)
  with d that show thesis by blast
qed

definition start_blend :: "picture \<Rightarrow> nat \<Rightarrow> blend" where
  "start_blend rgb s = no_blend\<lparr>su_scale := s, su_w := pic_w rgb * s, su_h := pic_h rgb * s\<rparr>"

lemma first_tile:
  assumes "model_answers run rgb 256 s F x0 y0" and "1 \<le> s"
  shows "do_tile run rgb 256 32 (x0, y0) no_blend = do_tile run rgb 256 32 (x0, y0) (start_blend rgb s)"
proof -
  from assms(1) obtain data where "run 256 (tile_to_array (extract_tile rgb x0 y0 256)) = Inr ([1, 3, s * 256, s * 256], data)"
    by (auto simp: model_answers_def Let_def split: sum.splits)
  moreover have "set_scale rgb 256 (s * 256) (s * 256) no_blend = set_scale rgb 256 (s * 256) (s * 256) (start_blend rgb s)"
    using assms(2) by (simp add: set_scale_def no_blend_def start_blend_def Let_def)
  ultimately show ?thesis by (simp add: do_tile_def Let_def)
qed

lemma start_ok: "fits rgb s (start_blend rgb s)" "near F (start_blend rgb s) p 0"
  by (simp_all add: fits_def start_blend_def near_def no_blend_def)

lemma do_tiles_near:
  assumes "1 \<le> s" "s \<le> 4" and "\<And>i. \<not> cancel i" and "\<And>c x y. 0 \<le> F c x y \<and> F c x y \<le> 1"
    and "\<forall>(x0, y0) \<in> set ts. model_answers run rgb 256 s F x0 y0" and "fits rgb s u"
    and "\<And>X Y. X < pic_w rgb * s \<Longrightarrow> Y < pic_h rgb * s \<Longrightarrow> near F u (X, Y) (k (X, Y))"
    and "\<And>X Y. X < pic_w rgb * s \<Longrightarrow> Y < pic_h rgb * s \<Longrightarrow> k (X, Y) + length (filter (covers_pixel 256 s (X, Y)) ts) \<le> 9"
  shows "\<exists>v. do_tiles run rgb 256 32 cancel i ts u = Some (Inr v) \<and> fits rgb s v
     \<and> (\<forall>X Y. X < pic_w rgb * s \<longrightarrow> Y < pic_h rgb * s \<longrightarrow> near F v (X, Y) (k (X, Y) + length (filter (covers_pixel 256 s (X, Y)) ts)))"
  using assms(5-8)
proof (induction ts arbitrary: i u k)
  case Nil
  then show ?case by simp
next
  case (Cons t ts)
  obtain x0 y0 where t: "t = (x0, y0)" by (cases t)
  from Cons.prems(1) have ans: "model_answers run rgb 256 s F x0 y0" by (simp add: t)
  obtain data where d: "do_tile run rgb 256 32 (x0, y0) u = Some (Inr (add_tile rgb 256 32 x0 y0 (s * 256) (s * 256) data u))"
    and e: "\<And>c dx dy. c < 3 \<Longrightarrow> dy < s * 256 \<Longrightarrow> dx < s * 256 \<Longrightarrow> x0 * s + dx < pic_w rgb * s \<Longrightarrow> y0 * s + dy < pic_h rgb * s \<Longrightarrow>
       data ! (s * 256 * (s * 256) * c + (dy * (s * 256) + dx)) = Fin (F c (x0 * s + dx) (y0 * s + dy))"
    by (rule do_tile_answers [OF ans assms(1) Cons.prems(2)]) (erule that, simp)
  define v where "v = add_tile rgb 256 32 x0 y0 (s * 256) (s * 256) data u"
  define k' where "k' p = k p + (if covers_pixel 256 s p t then 1 else 0)" for p
  have fv: "fits rgb s v" using Cons.prems(2) by (simp add: v_def fits_def add_tile_def Let_def)
  have nv: "near F v (X, Y) (k' (X, Y))" if p: "X < pic_w rgb * s" "Y < pic_h rgb * s" for X Y
  proof (cases "covers_pixel 256 s (X, Y) t")
    case True
    then have "k (X, Y) \<le> 9" using Cons.prems(4) [OF p] by simp
    with add_tile_near [OF Cons.prems(2) assms(1,2) p True [unfolded t] e Cons.prems(3) [OF p]] assms(4) True show ?thesis
      by (simp add: v_def k'_def)
  next
    case False
    then have "su_acc v c (X, Y) = su_acc u c (X, Y)" "su_wsum v (X, Y) = su_wsum u (X, Y)" for c
      using add_tile_outside [OF Cons.prems(2), where p = "(X, Y)" and tile = 256 and ov = 32 and data = data] assms(1) by (simp_all add: v_def t)
    with Cons.prems(3) [OF p] False show ?thesis by (simp add: near_def k'_def)
  qed
  have sum: "k' p + length (filter (covers_pixel 256 s p) ts) = k p + length (filter (covers_pixel 256 s p) (t # ts))" for p
    by (simp add: k'_def)
  have rest: "\<forall>(x0, y0) \<in> set ts. model_answers run rgb 256 s F x0 y0" using Cons.prems(1) by simp
  have "k' (X, Y) + length (filter (covers_pixel 256 s (X, Y)) ts) \<le> 9" if "X < pic_w rgb * s" "Y < pic_h rgb * s" for X Y
    using Cons.prems(4) [OF that] sum by simp
  from Cons.IH [OF rest fv nv this, of "i + 1"] show ?case using d assms(3) by (simp add: t v_def sum del: filter.simps)
qed

text \<open>What a pixel becomes, from sums that are near each other.\<close>

lemma to_byte_near:
  assumes "0 \<le> F" "F \<le> 1" and "\<bar>q - F\<bar> \<le> 1 / 290000"
  shows "of_nat (unat (to_byte (Fin q))) \<le> 255 * F + 1 / (1000 :: rat)" and "255 * F < of_nat (unat (to_byte (Fin q))) + 1 + 1 / (1000 :: rat)"
proof -
  define b where "b = max 0 (min 1 q)"
  have "\<bar>b - F\<bar> \<le> \<bar>q - F\<bar>" using assms(1,2) by (auto simp: b_def max_def min_def abs_if)
  then have b: "\<bar>b - F\<bar> \<le> 1 / 290000" "0 \<le> b" "b \<le> 1" using assms(3) by (auto simp: b_def)
  have fb: "fl_bound (Fin 0) (Fin 1) (Fin q) = Fin b" by (auto simp: fl_bound_def b_def)
  obtain z where z: "round32 (b * 255) = Fin z" "\<bar>z - b * 255\<bar> \<le> \<bar>b * 255\<bar> / 16777216 + 1 / 10000000000000000000000000000000000000000"
    by (rule round32_near [of "b * 255"]) (use b in linarith)
  have z0: "0 \<le> z"
  proof -
    have "0 \<le> round_val 24 (- 126) (b * 255)" using b(2) by (intro round_val_nonneg) simp
    with z(1) show ?thesis by (simp add: round32_def round_fl_def Let_def split: if_splits)
  qed
  have zz: "\<bar>z - 255 * F\<bar> \<le> 9 / 10000" "z < 256" using z(2) b assms by linarith+
  define n where "n = nat \<lfloor>z\<rfloor>"
  have n: "of_nat n \<le> z" "z < of_nat n + 1" using z0 by (simp_all add: n_def) linarith+
  have "(of_nat n :: rat) < of_nat 256" using n(1) zz(2) by simp
  then have n255: "n \<le> 255" by (simp only: of_nat_less_iff)
  have "f_to_u32 (Fin z) = n"
  proof -
    have "trunc z = int n" using z0 by (simp add: trunc_def n_def)
    with n255 show ?thesis by (simp add: u32_max_def)
  qed
  then have "to_byte (Fin q) = of_nat n" using fb z(1) n255 by (simp add: to_byte_def g_mul_def)
  moreover have "unat (of_nat n :: byte) = n" using n255 by (simp add: unat_of_nat)
  ultimately have px: "unat (to_byte (Fin q)) = n" by simp
  show "of_nat (unat (to_byte (Fin q))) \<le> 255 * F + 1 / (1000 :: rat)" "255 * F < of_nat (unat (to_byte (Fin q))) + 1 + 1 / (1000 :: rat)"
    unfolding px using n zz by linarith+
qed

lemma quotient_near:
  assumes "0 \<le> F" "F \<le> (1 :: rat)" and "1 / 20000 \<le> S" and "0 \<le> e" "e \<le> 1 / 600000"
    and "\<bar>A - F * S\<bar> \<le> e * S" and "\<bar>W - S\<bar> \<le> e * S"
  shows "1 / 40000 \<le> W" and "\<bar>A / W - F\<bar> \<le> 1 / 299000"
proof -
  define h where "h = e * S"
  have h: "0 \<le> h" "h \<le> S / 600000" using assms mult_right_mono [of e "1 / 600000" S] by (simp_all add: h_def)
  have A: "\<bar>A - F * S\<bar> \<le> h" and W: "\<bar>W - S\<bar> \<le> h" using assms by (simp_all add: h_def)
  show w: "1 / 40000 \<le> W" using W h assms(3) by linarith
  have "\<bar>F * W - F * S\<bar> \<le> h"
  proof -
    have "\<bar>F * W - F * S\<bar> = F * \<bar>W - S\<bar>" using assms(1) by (simp add: abs_mult right_diff_distrib [symmetric])
    also have "\<dots> \<le> 1 * \<bar>W - S\<bar>" using assms(2) by (intro mult_right_mono) simp_all
    also have "\<dots> \<le> h" using W by simp
    finally show ?thesis .
  qed
  with A have "\<bar>A - F * W\<bar> \<le> 2 * h" by linarith
  moreover have "2 * h \<le> W / 299000" using h W assms(3) by linarith
  ultimately have "\<bar>A - F * W\<bar> \<le> W / 299000" by linarith
  moreover have "A / W - F = (A - F * W) / W" using w by (simp add: diff_divide_distrib)
  ultimately show "\<bar>A / W - F\<bar> \<le> 1 / 299000" using w by (simp add: abs_divide divide_le_eq)
qed

lemma length_cover:
  "length (filter (covers_pixel tile s p) (concat (map (\<lambda>y0. map (\<lambda>x0. (x0, y0)) xs) ys)))
     = length (filter (over tile (fst p div s)) xs) * length (filter (over tile (snd p div s)) ys)"
proof (induction ys)
  case (Cons y ys)
  have "filter (covers_pixel tile s p) (map (\<lambda>x0. (x0, y)) xs)
      = (if over tile (snd p div s) y then map (\<lambda>x0. (x0, y)) (filter (over tile (fst p div s)) xs) else [])"
    by (simp add: filter_map o_def covers_pixel_def)
  with Cons show ?case by simp
qed simp

lemma near_pixel:
  assumes "near F u (X, Y) k" and "1 \<le> k" "k \<le> 9" and F: "\<And>c. 0 \<le> F c X Y \<and> F c X Y \<le> 1" and "c < 3"
  shows "of_nat (unat (channel c (blended u (X, Y)))) \<le> 255 * F c X Y + 1 / 1000"
    and "255 * F c X Y < of_nat (unat (channel c (blended u (X, Y)))) + 1 + 1 / 1000"
proof -
  define e where "e = (of_nat k * (3 / 16777216) :: rat)"
  have kr: "(of_nat 1 :: rat) \<le> of_nat k" "(of_nat k :: rat) \<le> of_nat 9" using assms(2,3) by (simp_all only: of_nat_le_iff)
  then have e: "0 \<le> e" "e \<le> 1 / 600000" by (simp_all add: e_def)
  obtain S W A where S: "of_nat k / 20000 \<le> S" "S \<le> 2 * of_nat k" and W: "su_wsum u (X, Y) = Fin W" "\<bar>W - S\<bar> \<le> e * S"
    and A: "su_acc u c (X, Y) = Fin A" "\<bar>A - F c X Y * S\<bar> \<le> e * S"
    using assms(1,5) by (auto simp: near_def e_def)
  have S1: "1 / 20000 \<le> S" using S(1) kr by simp
  note q = quotient_near [OF _ _ S1 e A(2) W(2)]
  have w: "1 / 40000 \<le> W" and aw: "\<bar>A / W - F c X Y\<bar> \<le> 1 / 299000" using q F [of c] by simp_all
  obtain m where m: "round32 (1 / 1000000) = Fin m" "m \<le> 1 / 40000"
  proof (rule round32_near [of "1 / 1000000"])
    fix y
    assume y: "round32 (1 / 1000000) = Fin y" "\<bar>y - 1 / 1000000\<bar> \<le> \<bar>1 / 1000000\<bar> / 16777216 + 1 / 10000000000000000000000000000000000000000"
    have "\<bar>y - 1 / 1000000\<bar> \<le> 1 / 1000000" by (rule order.trans [OF y(2)]) simp
    then have "y \<le> 1 / 40000" by linarith
    with y(1) that show thesis by blast
  qed simp
  obtain r where r: "round32 (A / W) = Fin r" "\<bar>r - A / W\<bar> \<le> \<bar>A / W\<bar> / 16777216 + 1 / 10000000000000000000000000000000000000000"
    by (rule round32_near [of "A / W"]) (use aw F [of c] in linarith)
  define v where "v = A / W"
  have "\<bar>r - F c X Y\<bar> \<le> 1 / 290000" using r(2) [folded v_def] aw [folded v_def] F [of c] by linarith
  moreover have "max W m = W" using m(2) w by simp
  then have "channel c (blended u (X, Y)) = to_byte (Fin r)"
    using W(1) A(1) m(1) r(1) w assms(5) by (auto simp: blended_def channel_def Let_def g_div_def less_Suc_eq numeral_3_eq_3 numeral_2_eq_2)
  ultimately show "of_nat (unat (channel c (blended u (X, Y)))) \<le> 255 * F c X Y + 1 / 1000"
    "255 * F c X Y < of_nat (unat (channel c (blended u (X, Y)))) + 1 + 1 / 1000"
    using to_byte_near [of "F c X Y" r] F [of c] by simp_all
qed

text \<open>
  C28: When the enlarged tiles of a model agree where they overlap (they are parts of one enlarged picture \<open>F\<close>), tiling
  and blending lose nothing: for a picture of any size, and any scale up to four, the run ends with a picture of the
  scaled size in which every channel of every pixel is \<open>255 * F\<close> truncated, up to a thousandth of a level. There are no
  seams, no uncovered pixel and no darkening at the borders, although up to nine tiles meet in a pixel and every sum,
  product and quotient is rounded.
\<close>

theorem upscale_blends_cleanly:
  assumes "0 < pic_w rgb" "0 < pic_h rgb" and s: "1 \<le> s" "s \<le> 4" and c: "\<And>i. \<not> cancel i"
    and F: "\<And>c x y. 0 \<le> F c x y \<and> F c x y \<le> 1"
    and model: "\<And>x0 y0. x0 + 256 \<le> max (pic_w rgb) 256 \<Longrightarrow> y0 + 256 \<le> max (pic_h rgb) 256 \<Longrightarrow> model_answers run rgb 256 s F x0 y0"
  shows "\<exists>big. upscale_image run 256 32 cancel rgb = Some (Inr big) \<and> pic_w big = pic_w rgb * s \<and> pic_h big = pic_h rgb * s
     \<and> (\<forall>c x y. c < 3 \<longrightarrow> x < pic_w big \<longrightarrow> y < pic_h big \<longrightarrow>
          of_nat (unat (channel c (pic_at big (x, y)))) \<le> 255 * F c x y + 1 / 1000
          \<and> 255 * F c x y < of_nat (unat (channel c (pic_at big (x, y)))) + 1 + 1 / 1000)"
proof -
  obtain xs where xs: "tile_origins (pic_w rgb) 256 224 = Some xs" "\<And>x. x \<in> set xs \<Longrightarrow> x + 256 \<le> max (pic_w rgb) 256"
    "\<And>p. p < pic_w rgb \<Longrightarrow> 1 \<le> length (filter (over 256 p) xs)" "\<And>p. length (filter (over 256 p) xs) \<le> 3"
    by (rule tile_origins_ok [of 224 256 "pic_w rgb"]) simp_all
  obtain ys where ys: "tile_origins (pic_h rgb) 256 224 = Some ys" "\<And>x. x \<in> set ys \<Longrightarrow> x + 256 \<le> max (pic_h rgb) 256"
    "\<And>p. p < pic_h rgb \<Longrightarrow> 1 \<le> length (filter (over 256 p) ys)" "\<And>p. length (filter (over 256 p) ys) \<le> 3"
    by (rule tile_origins_ok [of 224 256 "pic_h rgb"]) simp_all
  define ts where "ts = concat (map (\<lambda>y0. map (\<lambda>x0. (x0, y0)) xs) ys)"
  have all: "\<forall>(x0, y0) \<in> set ts. model_answers run rgb 256 s F x0 y0" using xs(2) ys(2) model by (auto simp: ts_def)
  have count: "1 \<le> length (filter (covers_pixel 256 s (X, Y)) ts) \<and> length (filter (covers_pixel 256 s (X, Y)) ts) \<le> 9"
    if "X < pic_w rgb * s" "Y < pic_h rgb * s" for X Y
  proof -
    have "X div s < pic_w rgb" "Y div s < pic_h rgb" using that s by (simp_all add: div_less_iff_less_mult)
    with xs(3,4) [of "X div s"] ys(3,4) [of "Y div s"] mult_le_mono [of _ 3 _ 3] mult_le_mono [of 1 _ 1] show ?thesis
      by (fastforce simp: ts_def length_cover)
  qed
  have "\<exists>v. do_tiles run rgb 256 32 cancel 0 ts (start_blend rgb s) = Some (Inr v) \<and> fits rgb s v
     \<and> (\<forall>X Y. X < pic_w rgb * s \<longrightarrow> Y < pic_h rgb * s \<longrightarrow> near F v (X, Y) (0 + length (filter (covers_pixel 256 s (X, Y)) ts)))"
    by (rule do_tiles_near [OF s c F all start_ok(1) start_ok(2)]) (use count in simp_all)
  then obtain v where v: "do_tiles run rgb 256 32 cancel 0 ts (start_blend rgb s) = Some (Inr v)" "fits rgb s v"
    "\<And>X Y. X < pic_w rgb * s \<Longrightarrow> Y < pic_h rgb * s \<Longrightarrow> near F v (X, Y) (length (filter (covers_pixel 256 s (X, Y)) ts))" by auto
  have "ts \<noteq> []" using count [of 0 0] assms(1,2) s by auto
  then obtain x0 y0 rest where ts: "ts = (x0, y0) # rest" by (cases ts) auto
  have "do_tiles run rgb 256 32 cancel 0 ts no_blend = Some (Inr v)"
    using v(1) first_tile [of run rgb s F x0 y0] all s c by (simp add: ts)
  then have "upscale_image run 256 32 cancel rgb = Some (Inr \<lparr>pic_w = pic_w rgb * s, pic_h = pic_h rgb * s, pic_at = blended v\<rparr>)"
    using xs(1) ys(1) v(2) assms(1,2) s by (simp add: upscale_image_def ts_def fits_def)
  moreover have "of_nat (unat (channel c (blended v (x, y)))) \<le> 255 * F c x y + 1 / 1000
      \<and> 255 * F c x y < of_nat (unat (channel c (blended v (x, y)))) + 1 + 1 / 1000"
    if "c < 3" "x < pic_w rgb * s" "y < pic_h rgb * s" for c x y
    using near_pixel [OF v(3) [OF that(2,3)] _ _ _ that(1)] count [OF that(2,3)] F by blast
  ultimately show ?thesis by simp
qed

text \<open>The model that enlarges by one, on a picture of stripes that needs two tiles.\<close>

definition identity_model :: session where
  "identity_model tile t =
     Inr ([1, 3, tile, tile],
          map (\<lambda>i. t (i div (tile * tile)) (i mod (tile * tile) div tile) (i mod tile)) [0..<3 * (tile * tile)])"

definition stripes :: picture where
  "stripes = \<lparr>pic_w = 300, pic_h = 2, pic_at = \<lambda>(x, y). (if even x then 255 else 0, 0, 255)\<rparr>"

definition stripes_value :: "nat \<Rightarrow> nat \<Rightarrow> nat \<Rightarrow> rat" where
  "stripes_value c x y = (if c = 0 then (if even x then 1 else 0) else if c = 1 then 0 else 1)"

lemma identity_answers: "model_answers identity_model stripes 256 1 stripes_value x0 y0"
proof -
  have d: "(65536 * c + (dy * 256 + dx)) div 65536 = c" "(65536 * c + (dy * 256 + dx)) mod 65536 = dy * 256 + dx"
    "(dy * 256 + dx) div 256 = dy" "(65536 * c + (dy * 256 + dx)) mod 256 = dx" "65536 * c + (dy * 256 + dx) < 196608"
    if "c < 3" "dy < 256" "dx < 256" for c dy dx :: nat
  proof -
    have r: "dy * 256 + dx < 65536" using that by linarith
    then show "(65536 * c + (dy * 256 + dx)) div 65536 = c" "(65536 * c + (dy * 256 + dx)) mod 65536 = dy * 256 + dx" by simp_all
    show "(dy * 256 + dx) div 256 = dy" using that by simp
    have "65536 * c + (dy * 256 + dx) = 256 * (256 * c + dy) + dx" by simp
    also have "\<dots> mod 256 = dx" using that by (simp only: mod_mult_self4) simp
    finally show "(65536 * c + (dy * 256 + dx)) mod 256 = dx" .
    show "65536 * c + (dy * 256 + dx) < 196608" using r that by linarith
  qed
  have v: "g_div (g_of_nat 255) (Fin 255) = Fin 1" "g_div (g_of_nat 0) (Fin 255) = Fin 0"
    using g_of_nat_exact [of 255] g_of_nat_exact [of 0] g_of_nat_exact [of 1] by (simp_all add: g_div_def g_of_nat_def)
  show ?thesis
    by (auto simp: model_answers_def identity_model_def d tile_to_array_def extract_tile_def stripes_def stripes_value_def
        channel_def v min_def)
qed

theorem upscale_blends_cleanly_witness:
  "\<exists>big. upscale_image identity_model 256 32 (\<lambda>_. False) stripes = Some (Inr big) \<and> pic_w big = pic_w stripes * 1 \<and> pic_h big = pic_h stripes * 1
     \<and> (\<forall>c x y. c < 3 \<longrightarrow> x < pic_w big \<longrightarrow> y < pic_h big \<longrightarrow>
          of_nat (unat (channel c (pic_at big (x, y)))) \<le> 255 * stripes_value c x y + 1 / 1000
          \<and> 255 * stripes_value c x y < of_nat (unat (channel c (pic_at big (x, y)))) + 1 + 1 / 1000)"
proof (rule upscale_blends_cleanly)
  show "0 < pic_w stripes" "0 < pic_h stripes" by (simp_all add: stripes_def)
  show "0 \<le> stripes_value c x y \<and> stripes_value c x y \<le> 1" for c x y by (simp add: stripes_value_def)
  show "model_answers identity_model stripes 256 1 stripes_value x0 y0" for x0 y0 by (rule identity_answers)
qed simp_all

end
