(* ===== verification/Ep_Session.thy ===== *)
theory Ep_Session
  imports Float_Ops
begin

text \<open>
  Inference sessions and the devices they run on: \<^verbatim>\<open>crates/frame-forge/src/gpu_compat.rs\<close>, the session part of
  \<^verbatim>\<open>dl_match.rs\<close> and the events and time stamps of \<^verbatim>\<open>generation_log.rs\<close>. What the daemon asks of its surroundings
  (environment variables, \<^verbatim>\<open>nvidia-smi\<close>, files, the providers of the ONNX runtime, the clock) is the environment
  \<open>ort_env\<close>. A provider either returns after some seconds or never; \<open>None\<close> is the abort of the process.
\<close>

section \<open>The clock\<close>

definition is_leap :: "nat \<Rightarrow> bool" where
  "is_leap y \<longleftrightarrow> y mod 4 = 0 \<and> y mod 100 \<noteq> 0 \<or> y mod 400 = 0"

definition year_days :: "nat \<Rightarrow> nat" where
  "year_days y = (if is_leap y then 366 else 365)"

lemma year_days_pos [simp]: "0 < year_days y"
  by (simp add: year_days_def)

text \<open>The loop of \<^verbatim>\<open>days_to_year\<close>; it ends because every year has days.\<close>

function days_to_year :: "nat \<Rightarrow> nat \<Rightarrow> nat \<times> nat" where
  "days_to_year y days = (if days < year_days y then (y, days) else days_to_year (y + 1) (days - year_days y))"
  by pat_completeness auto
termination
  by (relation "measure snd") (auto simp: not_less intro!: diff_less elim: less_le_trans [OF year_days_pos])

declare days_to_year.simps [simp del]

definition months :: "bool \<Rightarrow> nat list" where
  "months leap = [31, if leap then 29 else 28, 31, 30, 31, 30, 31, 31, 30, 31, 30, 31]"

fun month_loop :: "nat \<Rightarrow> nat \<Rightarrow> nat list \<Rightarrow> nat \<times> nat" where
  "month_loop mo days [] = (mo, days + 1)"
| "month_loop mo days (dm # rest) = (if days < dm then (mo, days + 1) else month_loop (mo + 1) (days - dm) rest)"

definition days_to_month :: "nat \<Rightarrow> bool \<Rightarrow> nat \<times> nat" where
  "days_to_month days leap = month_loop 1 days (months leap)"

definition epoch_to_parts :: "nat \<Rightarrow> nat \<times> nat \<times> nat \<times> nat \<times> nat \<times> nat" where
  "epoch_to_parts secs =
     (let s = secs mod 60; secs = secs div 60; mi = secs mod 60; secs = secs div 60; h = secs mod 24; secs = secs div 24;
          (y, remaining) = days_to_year 1970 secs; (mo, d) = days_to_month remaining (is_leap y)
      in (y, mo, d, h, mi, s))"

text \<open>\<^verbatim>\<open>now_timestamp\<close>, given the seconds since the epoch (zero for a clock before it).\<close>

definition timestamp_text :: "nat \<Rightarrow> string" where
  "timestamp_text secs =
     (case epoch_to_parts secs of (y, mo, d, h, mi, s) \<Rightarrow>
        show_pad 4 (int y) @ ''-'' @ show_pad 2 (int mo) @ ''-'' @ show_pad 2 (int d) @ ''T''
          @ show_pad 2 (int h) @ '':'' @ show_pad 2 (int mi) @ '':'' @ show_pad 2 (int s) @ ''Z'')"

section \<open>Surroundings\<close>

datatype 'a timed = After nat 'a | Never

record 's ort_env =
  oe_var :: "string \<Rightarrow> string option"
  oe_smi :: "string \<Rightarrow> nat \<Rightarrow> string option"
  oe_exists :: "string \<Rightarrow> bool"
  oe_exe_dir :: "string option"
  oe_cpu :: "string \<Rightarrow> (string + 's) timed"
  oe_cuda :: "string \<Rightarrow> nat \<Rightarrow> 's option timed"
  oe_directml :: "string \<Rightarrow> 's option timed"
  oe_default :: "string \<Rightarrow> string + 's"
  oe_secs :: nat

record fallback_event =
  fe_type :: string
  fe_reason :: string
  fe_timestamp :: string

definition trim :: "string \<Rightarrow> string" where
  "trim s = rev (dropWhile is_ws (rev (dropWhile is_ws s)))"

section \<open>Known bad devices\<close>

record denylist_entry =
  dn_vendor :: string
  dn_compute_capability :: string
  dn_ort_asset_key :: string
  dn_reason :: string

text \<open>\<^verbatim>\<open>gpu-compat.json\<close>, included when the daemon is built.\<close>

definition denylist :: "denylist_entry list" where
  "denylist =
     [\<lparr>dn_vendor = ''NVIDIA'', dn_compute_capability = ''12.0'', dn_ort_asset_key = ''linux-x64-gpu'',
       dn_reason = ''Blackwell (sm_120, compute capability 12.0) has no CUDA12 SASS/PTX kernels in ORT's standard `gpu` (CUDA12) asset ''
         @ map char_of [0xE2, 0x80, 0x94 :: nat] @ '' hangs or silently falls back to CPU. Requires the `gpu_cuda13` asset instead. See research.md ''
         @ map char_of [0xC2, 0xA7 :: nat] @ ''7a.''\<rparr>]"

definition check :: "string \<Rightarrow> string \<Rightarrow> string \<Rightarrow> string option" where
  "check vendor compute_capability ort_asset_key =
     (if ort_asset_key = [] then None
      else map_option dn_reason
        (List.find (\<lambda>e. map lower_char (dn_vendor e) = map lower_char vendor \<and> dn_compute_capability e = compute_capability
             \<and> dn_ort_asset_key e = ort_asset_key) denylist))"

definition detect_compute_capability :: "'s ort_env \<Rightarrow> nat \<Rightarrow> string option" where
  "detect_compute_capability env gpu_index =
     (case oe_smi env ''compute_cap'' gpu_index of
        None \<Rightarrow> None
      | Some raw \<Rightarrow> if trim raw = [] then None else Some (trim raw))"

definition detect_total_memory_mb :: "'s ort_env \<Rightarrow> nat \<Rightarrow> nat option" where
  "detect_total_memory_mb env gpu_index = Option.bind (oe_smi env ''memory.total'' gpu_index) (\<lambda>raw. parse_unsigned 64 (trim raw))"

definition detect_free_memory_mb :: "'s ort_env \<Rightarrow> nat \<Rightarrow> nat option" where
  "detect_free_memory_mb env gpu_index = Option.bind (oe_smi env ''memory.free'' gpu_index) (\<lambda>raw. parse_unsigned 64 (trim raw))"

definition active_ort_asset_key :: "'s ort_env \<Rightarrow> string" where
  "active_ort_asset_key env =
     (case oe_var env ''FRAME_FORGE_ORT_ASSET_KEY'' of
        None \<Rightarrow> ''linux-x64-gpu''
      | Some v \<Rightarrow> if v = [] then ''linux-x64-gpu'' else v)"

section \<open>Memory limits\<close>

definition parse_device_id :: "string \<Rightarrow> string \<times> nat" where
  "parse_device_id device_id =
     (case split_once (CHR '':'') device_id of
        Some (platform, idx) \<Rightarrow> (platform, case parse_unsigned 32 idx of Some n \<Rightarrow> n | None \<Rightarrow> 0)
      | None \<Rightarrow> if device_id = [] then (''cpu'', 0) else (device_id, 0))"

definition default_limit :: nat where "default_limit = 2 ^ 30"
definition least_limit :: nat where "least_limit = 256 * 1024 * 1024"

definition f_to_usize :: "fl \<Rightarrow> nat" where
  "f_to_usize x = (case x of Fin a \<Rightarrow> nat (max 0 (min (2 ^ 64 - 1) (trunc a))) | PInf \<Rightarrow> 2 ^ 64 - 1 | _ \<Rightarrow> 0)"

definition share_of :: "nat \<Rightarrow> fl \<Rightarrow> nat" where
  "share_of mb percent = max least_limit (f_to_usize (f_mul (f_mul (f_mul (f_of_int (int mb)) (Fin 1024)) (Fin 1024)) percent))"

definition cuda_memory_limit_bytes :: "'s ort_env \<Rightarrow> string \<Rightarrow> nat \<Rightarrow> fl \<Rightarrow> nat" where
  "cuda_memory_limit_bytes env device_id frame_count resolution_mp =
     (case detect_total_memory_mb env (snd (parse_device_id device_id)) of
        None \<Rightarrow> default_limit
      | Some total_mb \<Rightarrow>
          share_of total_mb
            (fl_min (f_add (f_add (round64 (1 / 10)) (f_mul (round64 (1 / 50)) (f_of_int (int frame_count))))
                       (f_mul (round64 (1 / 100)) resolution_mp))
               (round64 (2 / 5))))"

definition cuda_memory_limit_bytes_upscale :: "'s ort_env \<Rightarrow> string \<Rightarrow> nat" where
  "cuda_memory_limit_bytes_upscale env device_id =
     (case detect_free_memory_mb env (snd (parse_device_id device_id)) of
        None \<Rightarrow> default_limit
      | Some free_mb \<Rightarrow> share_of free_mb (round64 (4 / 5)))"

section \<open>Building a session\<close>

definition ep_init_timeout_secs :: "'s ort_env \<Rightarrow> nat" where
  "ep_init_timeout_secs env =
     (case Option.bind (oe_var env ''FRAME_FORGE_EP_INIT_TIMEOUT_SECS'') (parse_unsigned 64) of Some n \<Rightarrow> n | None \<Rightarrow> 15)"

definition run_with_ep_timeout :: "nat \<Rightarrow> 'a timed \<Rightarrow> 'a option" where
  "run_with_ep_timeout timeout_secs r = (case r of After t x \<Rightarrow> if t < timeout_secs then Some x else None | Never \<Rightarrow> None)"

definition gpu_to_cpu :: "'s ort_env \<Rightarrow> string \<Rightarrow> fallback_event" where
  "gpu_to_cpu env reason =
     \<lparr>fe_type = ''GPU'' @ map char_of [0xE2, 0x86, 0x92 :: nat] @ ''CPU'', fe_reason = reason, fe_timestamp = timestamp_text (oe_secs env)\<rparr>"

type_synonym 's built = "(string + 's \<times> fallback_event list) option"

definition on_cpu :: "'s ort_env \<Rightarrow> string \<Rightarrow> fallback_event list \<Rightarrow> 's built" where
  "on_cpu env path events =
     (case run_with_ep_timeout (ep_init_timeout_secs env) (oe_cpu env path) of
        None \<Rightarrow> None
      | Some (Inl e) \<Rightarrow> Some (Inl e)
      | Some (Inr s) \<Rightarrow> Some (Inr (s, events)))"

definition gpu_or_cpu :: "'s ort_env \<Rightarrow> string \<Rightarrow> 's option timed \<Rightarrow> string \<Rightarrow> 's built" where
  "gpu_or_cpu env path attempt reason =
     (case run_with_ep_timeout (ep_init_timeout_secs env) attempt of
        None \<Rightarrow> None
      | Some (Some s) \<Rightarrow> Some (Inr (s, []))
      | Some None \<Rightarrow> on_cpu env path [gpu_to_cpu env reason])"

definition denied :: "'s ort_env \<Rightarrow> nat \<Rightarrow> string option" where
  "denied env dev_idx =
     (case detect_compute_capability env dev_idx of
        None \<Rightarrow> None
      | Some cc \<Rightarrow> check ''NVIDIA'' cc (active_ort_asset_key env))"

definition build_ep_session :: "'s ort_env \<Rightarrow> string \<Rightarrow> string \<Rightarrow> nat \<Rightarrow> 's built" where
  "build_ep_session env path device_id memory_limit_bytes =
     (case parse_device_id device_id of (platform, dev_idx) \<Rightarrow>
        if platform = ''cuda'' then
          (case denied env dev_idx of
             Some reason \<Rightarrow> on_cpu env path [gpu_to_cpu env (''denylisted: '' @ reason)]
           | None \<Rightarrow> gpu_or_cpu env path (oe_cuda env path memory_limit_bytes) ''CUDA EP init failed'')
        else if platform = ''directml'' then
          gpu_or_cpu env path (oe_directml env path) ''DirectML EP init failed''
        else if platform = ''openvino'' then
          on_cpu env path [gpu_to_cpu env ''OpenVINO GPU EP confirmed to hang during inference on real hardware'']
        else on_cpu env path [])"

definition starts_with :: "string \<Rightarrow> string \<Rightarrow> bool" where
  "starts_with p s \<longleftrightarrow> take (length p) s = p"

definition infer_device_label :: "string \<Rightarrow> bool \<Rightarrow> string \<times> string" where
  "infer_device_label device_id ep_fallbacks_empty =
     (let kind = (if starts_with ''cuda'' device_id then Some ''CUDA''
                  else if starts_with ''directml'' device_id then Some ''DirectML''
                  else if starts_with ''openvino'' device_id then Some ''OpenVINO'' else None)
      in case kind of
           Some kind \<Rightarrow> if ep_fallbacks_empty then (''GPU'', kind @ '' device ('' @ device_id @ '')'') else (''CPU'', ''CPU'')
         | None \<Rightarrow> (''CPU'', ''CPU''))"

section \<open>The calendar\<close>

text \<open>Days before a year, and before a month of a year.\<close>

fun days_before :: "nat \<Rightarrow> nat \<Rightarrow> nat" where
  "days_before y0 0 = 0"
| "days_before y0 (Suc n) = days_before y0 n + year_days (y0 + n)"

lemma days_before_shift: "days_before y0 (Suc n) = year_days y0 + days_before (y0 + 1) n"
  by (induction n) auto

lemma days_to_year_inverse:
  "days_to_year y0 days = (y, r) \<Longrightarrow> y0 \<le> y \<and> r < year_days y \<and> days_before y0 (y - y0) + r = days"
proof (induction y0 days rule: days_to_year.induct)
  case (1 y0 days)
  show ?case
  proof (cases "days < year_days y0")
    case True
    with "1.prems" show ?thesis by (subst (asm) days_to_year.simps) auto
  next
    case False
    with "1.prems" have "days_to_year (y0 + 1) (days - year_days y0) = (y, r)" by (subst (asm) days_to_year.simps) simp
    with "1.IH" [OF False] have i: "y0 + 1 \<le> y" "r < year_days y" "days_before (y0 + 1) (y - (y0 + 1)) + r = days - year_days y0"
      by auto
    then obtain n where "y = y0 + Suc n" by (metis add_Suc_right add_Suc le_Suc_ex Suc_eq_plus1)
    with i False show ?thesis using days_before_shift [of y0 n] by simp
  qed
qed

lemma month_loop_inverse:
  "days < sum_list ms \<Longrightarrow> month_loop mo days ms = (m, d) \<Longrightarrow>
     mo \<le> m \<and> m < mo + length ms \<and> 1 \<le> d \<and> d \<le> ms ! (m - mo) \<and> sum_list (take (m - mo) ms) + (d - 1) = days"
proof (induction mo days ms rule: month_loop.induct)
  case (2 mo days dm rest)
  show ?case
  proof (cases "days < dm")
    case True
    with 2 show ?thesis by auto
  next
    case False
    have "days - dm < sum_list rest" using "2.prems"(1) False by simp
    with 2 False have i: "mo + 1 \<le> m \<and> m < mo + 1 + length rest \<and> 1 \<le> d \<and> d \<le> rest ! (m - (mo + 1))
        \<and> sum_list (take (m - (mo + 1)) rest) + (d - 1) = days - dm" by auto
    then obtain k where "m = mo + Suc k" by (metis add_Suc_right add_Suc le_Suc_ex Suc_eq_plus1)
    with i have k: "k < length rest" "1 \<le> d" "d \<le> rest ! k" "sum_list (take k rest) + (d - 1) = days - dm" by simp_all
    with False \<open>m = mo + Suc k\<close> have "dm + sum_list (take k rest) + (d - 1) = days" by linarith
    with k \<open>m = mo + Suc k\<close> show ?thesis by simp
  qed
qed simp

lemma months_sum: "sum_list (months (is_leap y)) = year_days y"
  by (simp add: months_def year_days_def)

lemma months_length: "length (months leap) = 12"
  by (simp add: months_def)

text \<open>
  The hand-written calendar is exact for every second from the epoch on: the fields are in the ranges of the Gregorian
  calendar (the day within its month, with the leap years of the centuries), and counting the days of the years and months
  before them gives back the second.
\<close>

theorem timestamp_exact:
  "case epoch_to_parts secs of (y, mo, d, h, mi, s) \<Rightarrow>
     1970 \<le> y \<and> 1 \<le> mo \<and> mo \<le> 12 \<and> 1 \<le> d \<and> d \<le> months (is_leap y) ! (mo - 1) \<and> h < 24 \<and> mi < 60 \<and> s < 60
     \<and> (days_before 1970 (y - 1970) + sum_list (take (mo - 1) (months (is_leap y))) + (d - 1)) * 86400
         + h * 3600 + mi * 60 + s = secs"
proof -
  define days where "days = secs div 60 div 60 div 24"
  obtain y r where y: "days_to_year 1970 days = (y, r)" by fastforce
  obtain mo d where m: "days_to_month r (is_leap y) = (mo, d)" by fastforce
  note i = days_to_year_inverse [OF y]
  have j: "1 \<le> mo \<and> mo < 13 \<and> 1 \<le> d \<and> d \<le> months (is_leap y) ! (mo - 1) \<and> sum_list (take (mo - 1) (months (is_leap y))) + (d - 1) = r"
    using month_loop_inverse [of r "months (is_leap y)" 1 mo d] m i by (simp add: days_to_month_def months_sum months_length)
  have total: "days * 86400 + secs div 60 div 60 mod 24 * 3600 + secs div 60 mod 60 * 60 + secs mod 60 = secs"
    using div_mult_mod_eq [of secs 60] div_mult_mod_eq [of "secs div 60" 60] div_mult_mod_eq [of "secs div 60 div 60" 24]
    unfolding days_def by linarith
  have "days_before 1970 (y - 1970) + sum_list (take (mo - 1) (months (is_leap y))) + (d - 1) = days" using i j by linarith
  with total have count: "(days_before 1970 (y - 1970) + sum_list (take (mo - 1) (months (is_leap y))) + (d - 1)) * 86400
      + secs div 60 div 60 mod 24 * 3600 + secs div 60 mod 60 * 60 + secs mod 60 = secs" by (simp only:)
  have parts: "epoch_to_parts secs = (y, mo, d, secs div 60 div 60 mod 24, secs div 60 mod 60, secs mod 60)"
    unfolding epoch_to_parts_def Let_def days_def [symmetric] y m prod.case ..
  have "1970 \<le> y" "1 \<le> mo" "mo \<le> 12" "1 \<le> d" "d \<le> months (is_leap y) ! (mo - 1)" using i j by linarith+
  moreover have "secs div 60 div 60 mod 24 < 24" "secs div 60 mod 60 < 60" "secs mod 60 < 60" by (rule mod_less_divisor; simp)+
  ultimately show ?thesis unfolding parts prod.case using count by (intro conjI)
qed

section \<open>Where a session runs\<close>

lemma on_cpu_built:
  "on_cpu env path events = Some (Inr (s, fb)) \<Longrightarrow> fb = events \<and> (\<exists>t. oe_cpu env path = After t (Inr s))"
  by (auto simp: on_cpu_def run_with_ep_timeout_def split: option.splits sum.splits timed.splits if_splits)

lemma gpu_or_cpu_built:
  "gpu_or_cpu env path attempt reason = Some (Inr (s, fb)) \<Longrightarrow>
     (fb = [] \<and> (\<exists>t. attempt = After t (Some s))) \<or> (fb = [gpu_to_cpu env reason] \<and> (\<exists>t. oe_cpu env path = After t (Inr s)))"
  by (auto simp: gpu_or_cpu_def run_with_ep_timeout_def dest: on_cpu_built split: option.splits timed.splits if_splits)

lemma platform_prefix: "parse_device_id dev = (p, i) \<Longrightarrow> dev \<noteq> [] \<Longrightarrow> starts_with p dev"
proof -
  have "take (length (takeWhile P xs)) xs = takeWhile P xs" for P and xs :: string
    by (metis append_eq_conv_conj takeWhile_dropWhile_id)
  then show "parse_device_id dev = (p, i) \<Longrightarrow> dev \<noteq> [] \<Longrightarrow> starts_with p dev"
    by (auto simp: parse_device_id_def split_once_def starts_with_def split: if_splits)
qed

text \<open>The platforms the daemon knows by name; any other name means the processor.\<close>

definition known_platform :: "string \<Rightarrow> bool" where
  "known_platform p \<longleftrightarrow> p \<in> {''cuda'', ''directml'', ''openvino'', ''cpu''}"

text \<open>
  For a device of a known platform, the device type written to the logs is where the session really runs: \<open>GPU\<close>
  exactly when the session was built by that device's provider (CUDA or DirectML), \<open>CPU\<close> exactly when it was built by the
  CPU provider, and an event records every request for a graphics device that ended on the processor. A CUDA device on
  the deny list is never touched.
\<close>

theorem device_label_truthful:
  assumes "build_ep_session env path dev limit = Some (Inr (s, fb))" and "parse_device_id dev = (p, i)" and "known_platform p"
  shows "(fst (infer_device_label dev (fb = [])) = ''GPU'' \<and> fb = []
            \<and> ((p = ''cuda'' \<and> denied env i = None \<and> (\<exists>t. oe_cuda env path limit = After t (Some s)))
               \<or> (p = ''directml'' \<and> (\<exists>t. oe_directml env path = After t (Some s)))))
       \<or> (infer_device_label dev (fb = []) = (''CPU'', ''CPU'') \<and> (\<exists>t. oe_cpu env path = After t (Inr s))
            \<and> (p \<noteq> ''cpu'' \<longrightarrow> (\<exists>reason. fb = [gpu_to_cpu env reason])))"
proof -
  consider "p = ''cuda''" | "p = ''directml''" | "p = ''openvino''" | "p = ''cpu''" using assms(3) by (auto simp: known_platform_def)
  then show ?thesis
  proof cases
    case 1
    then have "dev \<noteq> []" using assms(2) by (auto simp: parse_device_id_def split_once_def)
    then have l: "starts_with ''cuda'' dev" using platform_prefix [OF assms(2)] 1 by simp
    show ?thesis
    proof (cases "denied env i")
      case None
      with 1 assms(1,2) have "gpu_or_cpu env path (oe_cuda env path limit) ''CUDA EP init failed'' = Some (Inr (s, fb))"
        by (simp add: build_ep_session_def)
      from gpu_or_cpu_built [OF this] 1 l None show ?thesis by (auto simp: infer_device_label_def)
    next
      case (Some reason)
      with 1 assms(1,2) have "on_cpu env path [gpu_to_cpu env (''denylisted: '' @ reason)] = Some (Inr (s, fb))"
        by (simp add: build_ep_session_def)
      from on_cpu_built [OF this] 1 l show ?thesis by (auto simp: infer_device_label_def)
    qed
  next
    case 2
    then have "dev \<noteq> []" using assms(2) by (auto simp: parse_device_id_def split_once_def)
    then have l: "starts_with ''directml'' dev" using platform_prefix [OF assms(2)] 2 by simp
    from 2 assms(1,2) have "gpu_or_cpu env path (oe_directml env path) ''DirectML EP init failed'' = Some (Inr (s, fb))"
      by (simp add: build_ep_session_def)
    from gpu_or_cpu_built [OF this] 2 l show ?thesis by (auto simp: infer_device_label_def starts_with_def)
  next
    case 3
    with assms(1,2) have "on_cpu env path [gpu_to_cpu env ''OpenVINO GPU EP confirmed to hang during inference on real hardware'']
        = Some (Inr (s, fb))" by (simp add: build_ep_session_def)
    from on_cpu_built [OF this] 3 show ?thesis by (auto simp: infer_device_label_def)
  next
    case 4
    then have b: "on_cpu env path [] = Some (Inr (s, fb))" using assms(1,2) by (simp add: build_ep_session_def)
    have "dev = [] \<or> (\<exists>r. dev = ''cpu'' @ r)"
      using platform_prefix [OF assms(2)] 4 by (metis starts_with_def append_take_drop_id)
    then have "infer_device_label dev (fb = []) = (''CPU'', ''CPU'')"
      by (auto simp: infer_device_label_def starts_with_def Let_def)
    with on_cpu_built [OF b] 4 show ?thesis by auto
  qed
qed

text \<open>A host with a CUDA device whose provider works, but without \<^verbatim>\<open>nvidia-smi\<close>, and with a broken DirectML.\<close>

definition demo_ort :: "nat ort_env" where
  "demo_ort =
     \<lparr>oe_var = \<lambda>_. None, oe_smi = \<lambda>_ _. None, oe_exists = \<lambda>_. True, oe_exe_dir = None, oe_cpu = \<lambda>_. After 1 (Inr 1),
      oe_cuda = \<lambda>_ _. After 2 (Some 2), oe_directml = \<lambda>_. After 0 None, oe_default = \<lambda>_. Inr 3, oe_secs = 951782400\<rparr>"

theorem device_label_truthful_witness:
  "build_ep_session demo_ort ''m.onnx'' ''cuda'' 0 = Some (Inr (2, []))
   \<and> ((fst (infer_device_label ''cuda'' True) = ''GPU'' \<and> (\<exists>t. oe_cuda demo_ort ''m.onnx'' 0 = After t (Some 2)))
      \<or> infer_device_label ''cuda'' True = (''CPU'', ''CPU''))"
proof -
  have p: "parse_device_id ''cuda'' = (''cuda'', 0)" by (simp add: parse_device_id_def split_once_def)
  have b: "build_ep_session demo_ort ''m.onnx'' ''cuda'' 0 = Some (Inr (2, []))"
    by (simp add: build_ep_session_def p denied_def detect_compute_capability_def demo_ort_def gpu_or_cpu_def
        run_with_ep_timeout_def ep_init_timeout_secs_def)
  from device_label_truthful [OF b p] b show ?thesis by (auto simp: known_platform_def)
qed

end
