(* ===== verification/Feature_Match.thy ===== *)
theory Feature_Match
  imports Ep_Session
begin

text \<open>
  Feature matching and homographies: \<^verbatim>\<open>crates/frame-forge/src/dl_match.rs\<close> and the estimation part of
  \<^verbatim>\<open>stitch_landscape.rs\<close>. OpenCV and the runs of the models are the environment \<open>cv_env\<close>; how their outputs are read,
  which matcher is loaded, and what is done when one fails is the code's. An error is an \<open>Inl\<close>, a panic (an index outside
  an output) is \<open>None\<close>. The matcher that all requests share and the statistics of a thread are the state \<open>mstate\<close>.
\<close>

section \<open>Outcomes\<close>

type_synonym 'a outcome = "(string + 'a) option"

definition fails :: "string \<Rightarrow> 'a outcome" where "fails e = Some (Inl e)"
definition yields :: "'a \<Rightarrow> 'a outcome" where "yields x = Some (Inr x)"

definition and_then :: "'a outcome \<Rightarrow> ('a \<Rightarrow> 'b outcome) \<Rightarrow> 'b outcome" where
  "and_then r f = (case r of None \<Rightarrow> None | Some (Inl e) \<Rightarrow> Some (Inl e) | Some (Inr x) \<Rightarrow> f x)"

lemma and_then_simps [simp]: "and_then None f = None" "and_then (Some (Inl e)) f = Some (Inl e)" "and_then (Some (Inr x)) f = f x"
  by (simp_all add: and_then_def)

lemma and_then_eq_yields: "and_then r f = Some (Inr y) \<longleftrightarrow> (\<exists>x. r = Some (Inr x) \<and> f x = Some (Inr y))"
  by (simp add: and_then_def split: option.split sum.split)

definition check_that :: "bool \<Rightarrow> string \<Rightarrow> 'a outcome \<Rightarrow> 'a outcome" where
  "check_that b e r = (if b then r else fails e)"

lemma check_that_eq_yields [simp]: "check_that b e r = Some (Inr y) \<longleftrightarrow> b \<and> r = Some (Inr y)"
  by (simp add: check_that_def fails_def)

section \<open>Surroundings\<close>

text \<open>
  A match is a pair of positions, \<^verbatim>\<open>[x0, y0, x1, y1]\<close>. \<open>ho_at\<close> is \<^verbatim>\<open>at_2d::<f64>\<close>, none outside the matrix. \<open>cv_homography\<close>
  is \<^verbatim>\<open>find_homography\<close> with USAC-MAGSAC, with its marks of inliers; \<open>cv_knn\<close> gives for every descriptor its nearest
  matches as query index, train index and distance.
\<close>

type_synonym point_match = "fl \<times> fl \<times> fl \<times> fl"
type_synonym tensor = "nat list \<times> fl list"

record homography =
  ho_rows :: nat
  ho_empty :: bool
  ho_at :: "nat \<Rightarrow> nat \<Rightarrow> fl option"

record ('s, 'm) cv_env =
  cv_ort :: "'s ort_env"
  cv_cols :: "'m \<Rightarrow> nat"
  cv_rows :: "'m \<Rightarrow> nat"
  cv_channels :: "'m \<Rightarrow> nat"
  cv_bytes :: "'m \<Rightarrow> string + byte list"
  cv_cvt_color :: "nat \<Rightarrow> 'm \<Rightarrow> string + 'm"
  cv_resize :: "nat \<Rightarrow> nat \<Rightarrow> 'm \<Rightarrow> string + 'm"
  cv_empty :: "'m \<Rightarrow> bool"
  cv_run_loftr :: "'s \<Rightarrow> tensor \<Rightarrow> tensor \<Rightarrow> string + fl list \<times> fl list \<times> fl list"
  cv_run_lightglue :: "'s \<Rightarrow> tensor \<Rightarrow> tensor \<Rightarrow> string + fl list \<times> fl list \<times> int list \<times> fl list"
  cv_run_pipeline :: "'s \<Rightarrow> tensor \<Rightarrow> string + nat list \<times> int list \<times> int list \<times> fl list"
  cv_millis :: nat
  cv_homography :: "point_match list \<Rightarrow> string + homography \<times> (nat \<Rightarrow> byte option)"
  cv_akaze :: "'m \<Rightarrow> string + (fl \<times> fl) list \<times> 'm"
  cv_knn :: "'m \<Rightarrow> 'm \<Rightarrow> string + (int \<times> int \<times> fl) list list"
  cv_sqrt :: "fl \<Rightarrow> fl"
  cv_angle :: "fl \<Rightarrow> fl \<Rightarrow> fl"

section \<open>Input tensors\<close>

definition to_gray :: "('s, 'm) cv_env \<Rightarrow> 'm \<Rightarrow> 'm outcome" where
  "to_gray env img =
     (if cv_channels env img = 4 \<or> cv_channels env img = 3 then Some (cv_cvt_color env (cv_channels env img) img)
      else if cv_channels env img = 1 then yields img else fails ''unsupported channels'')"

definition gray_tensor :: "('s, 'm) cv_env \<Rightarrow> nat \<Rightarrow> nat \<Rightarrow> 'm \<Rightarrow> tensor outcome" where
  "gray_tensor env h w gray =
     and_then (Some (cv_bytes env gray)) (\<lambda>raw.
       if length raw < h * w then None
       else yields ([1, 1, h, w], map (\<lambda>b. g_div (g_of_nat (unat b)) (Fin 255)) (take (h * w) raw)))"

definition loftr_h :: nat where "loftr_h = 480"
definition loftr_w :: nat where "loftr_w = 640"

definition mat_to_loftr_array :: "('s, 'm) cv_env \<Rightarrow> 'm \<Rightarrow> tensor outcome" where
  "mat_to_loftr_array env img =
     and_then (to_gray env img) (\<lambda>gray. and_then (Some (cv_resize env loftr_w loftr_h gray)) (gray_tensor env loftr_h loftr_w))"

definition mat_to_gray_array :: "('s, 'm) cv_env \<Rightarrow> 'm \<Rightarrow> tensor outcome" where
  "mat_to_gray_array env img = and_then (to_gray env img) (\<lambda>gray. gray_tensor env (cv_rows env gray) (cv_cols env gray) gray)"

definition mat_to_gray_array_resized :: "('s, 'm) cv_env \<Rightarrow> 'm \<Rightarrow> nat \<Rightarrow> nat \<Rightarrow> tensor outcome" where
  "mat_to_gray_array_resized env img rows cols =
     and_then (to_gray env img) (\<lambda>gray. and_then (Some (cv_resize env cols rows gray)) (\<lambda>r.
       gray_tensor env (cv_rows env r) (cv_cols env r) r))"

section \<open>Reading the outputs of the models\<close>

text \<open>A loop that pushes or continues, and may panic.\<close>

fun collect :: "('a \<Rightarrow> 'b option option) \<Rightarrow> 'a list \<Rightarrow> 'b list option" where
  "collect f [] = Some []"
| "collect f (x # xs) =
     (case f x of
        None \<Rightarrow> None
      | Some r \<Rightarrow> map_option (\<lambda>ys. (case r of None \<Rightarrow> ys | Some y \<Rightarrow> y # ys)) (collect f xs))"

definition loftr_threshold :: fl where "loftr_threshold = round32 (1 / 5)"
definition lightglue_threshold :: fl where "lightglue_threshold = Fin (1 / 2)"

definition scale_of :: "nat \<Rightarrow> nat \<Rightarrow> fl" where
  "scale_of side fixed = g_div (g_of_nat side) (g_of_nat fixed)"

definition read_loftr :: "fl \<Rightarrow> fl \<Rightarrow> fl \<Rightarrow> fl \<Rightarrow> fl list \<times> fl list \<times> fl list \<Rightarrow> point_match list outcome" where
  "read_loftr sx0 sy0 sx1 sy1 out =
     (case out of (kp0, kp1, conf) \<Rightarrow>
        let n = length conf
        in check_that (\<not> (length kp0 < n * 2 \<or> length kp1 < n * 2)) ''ELoFTR keypoint tensor size mismatch''
             (yields (map (\<lambda>i. (g_mul (kp0 ! (i * 2)) sx0, g_mul (kp0 ! (i * 2 + 1)) sy0,
                                g_mul (kp1 ! (i * 2)) sx1, g_mul (kp1 ! (i * 2 + 1)) sy1))
                (filter (\<lambda>i. \<not> fl_less (conf ! i) loftr_threshold) [0..<n]))))"

definition loftr_match_images :: "('s, 'm) cv_env \<Rightarrow> 's \<Rightarrow> 'm \<Rightarrow> 'm \<Rightarrow> point_match list outcome" where
  "loftr_match_images env session img0 img1 =
     and_then (mat_to_loftr_array env img0) (\<lambda>arr0. and_then (mat_to_loftr_array env img1) (\<lambda>arr1.
       and_then (Some (cv_run_loftr env session arr0 arr1))
         (read_loftr (scale_of (cv_cols env img0) loftr_w) (scale_of (cv_rows env img0) loftr_h)
            (scale_of (cv_cols env img1) loftr_w) (scale_of (cv_rows env img1) loftr_h))))"

definition read_lightglue_one :: "fl list \<Rightarrow> fl list \<Rightarrow> int list \<Rightarrow> fl list \<Rightarrow> nat \<Rightarrow> point_match option" where
  "read_lightglue_one kp0 kp1 m0 sc i =
     (let j = m0 ! i; conf = (if i < length sc then sc ! i else Fin 0)
      in if j < 0 \<or> fl_less conf lightglue_threshold \<or> length kp0 \<le> i * 2 + 1 \<or> length kp1 \<le> nat j * 2 + 1 then None
         else Some (kp0 ! (i * 2), kp0 ! (i * 2 + 1), kp1 ! (nat j * 2), kp1 ! (nat j * 2 + 1)))"

definition lightglue_match_images :: "('s, 'm) cv_env \<Rightarrow> 's \<Rightarrow> 'm \<Rightarrow> 'm \<Rightarrow> point_match list outcome" where
  "lightglue_match_images env session img0 img1 =
     and_then (mat_to_gray_array env img0) (\<lambda>arr0. and_then (mat_to_gray_array env img1) (\<lambda>arr1.
       and_then (Some (cv_run_lightglue env session arr0 arr1)) (\<lambda>(kp0, kp1, m0, sc).
         yields (List.map_filter (read_lightglue_one kp0 kp1 m0 sc) [0..<length m0]))))"

definition as_usize :: "int \<Rightarrow> nat" where
  "as_usize i = nat (i mod 2 ^ 64)"

definition g_of_int :: "int \<Rightarrow> fl" where
  "g_of_int i = round32 (of_int i)"

definition read_pipeline_one :: "nat \<Rightarrow> int list \<Rightarrow> int list \<Rightarrow> fl list \<Rightarrow> nat \<Rightarrow> point_match option option" where
  "read_pipeline_one n_kp kp m sc i =
     (if fl_less (sc ! i) lightglue_threshold then Some None
      else if length m \<le> i * 3 + 2 then None
      else (let batch = m ! (i * 3); j0 = as_usize (m ! (i * 3 + 1)); j1 = as_usize (m ! (i * 3 + 2))
            in if batch \<noteq> 0 \<or> n_kp \<le> j0 \<or> n_kp \<le> j1 then Some None
               else if length kp \<le> j0 * 2 + 1 \<or> length kp \<le> n_kp * 2 + j1 * 2 + 1 then None
               else Some (Some (g_of_int (kp ! (j0 * 2)), g_of_int (kp ! (j0 * 2 + 1)),
                                g_of_int (kp ! (n_kp * 2 + j1 * 2)), g_of_int (kp ! (n_kp * 2 + j1 * 2 + 1))))))"

definition concat_images :: "tensor \<Rightarrow> tensor \<Rightarrow> tensor outcome" where
  "concat_images a b =
     check_that (tl (fst a) = tl (fst b)) ''concatenate images for LightGlue v2'' (yields (2 # tl (fst a), snd a @ snd b))"

definition pipeline_match_images :: "('s, 'm) cv_env \<Rightarrow> 's \<Rightarrow> 'm \<Rightarrow> 'm \<Rightarrow> point_match list outcome" where
  "pipeline_match_images env session img0 img1 =
     and_then (mat_to_gray_array env img0) (\<lambda>arr0.
     and_then (if cv_rows env img1 = cv_rows env img0 \<and> cv_cols env img1 = cv_cols env img0 then mat_to_gray_array env img1
               else mat_to_gray_array_resized env img1 (cv_rows env img0) (cv_cols env img0)) (\<lambda>arr1.
     and_then (concat_images arr0 arr1) (\<lambda>combined.
     and_then (Some (cv_run_pipeline env session combined)) (\<lambda>(kp_shape, kp, m, sc).
       if length kp_shape \<le> 1 then None
       else map_option Inr (collect (read_pipeline_one (kp_shape ! 1) kp m sc) [0..<length sc])))))"

section \<open>Matchers\<close>

datatype model_choice = Auto | Choose_LightGlue | Choose_EfficientLoFTR | Disabled

text \<open>\<^verbatim>\<open>trim().to_ascii_lowercase()\<close>.\<close>

definition from_str :: "string \<Rightarrow> model_choice" where
  "from_str s =
     (let t = map lower_char (trim s)
      in if t \<in> {''lightglue'', ''lg''} then Choose_LightGlue
         else if t \<in> {''efficient-loftr'', ''loftr'', ''eloftr''} then Choose_EfficientLoFTR
         else if t \<in> {''none'', ''disabled'', ''off'', ''akaze''} then Disabled else Auto)"

fun as_env_str :: "model_choice \<Rightarrow> string option" where
  "as_env_str Auto = None"
| "as_env_str Choose_LightGlue = Some ''lightglue''"
| "as_env_str Choose_EfficientLoFTR = Some ''efficient-loftr''"
| "as_env_str Disabled = Some ''disabled''"

datatype 's any_matcher = EfficientLoFTR 's string | LightGlue 's string | LightGlueV2 's string

fun model_file_name :: "'s any_matcher \<Rightarrow> string" where
  "model_file_name (EfficientLoFTR _ n) = n"
| "model_file_name (LightGlue _ n) = n"
| "model_file_name (LightGlueV2 _ n) = n"

definition usac_suffix :: string where
  "usac_suffix = '' '' @ map char_of [0xE2, 0x86, 0x92 :: nat] @ '' USAC-MAGSAC''"

fun algorithm_name :: "'s any_matcher \<Rightarrow> string" where
  "algorithm_name (EfficientLoFTR _ _) = ''EfficientLoFTR'' @ usac_suffix"
| "algorithm_name (LightGlue _ _) = ''LightGlue v1'' @ usac_suffix"
| "algorithm_name (LightGlueV2 _ _) = ''LightGlue v2'' @ usac_suffix"

fun run_matcher :: "('s, 'm) cv_env \<Rightarrow> 's any_matcher \<Rightarrow> 'm \<Rightarrow> 'm \<Rightarrow> point_match list outcome" where
  "run_matcher env (EfficientLoFTR s _) a b = loftr_match_images env s a b"
| "run_matcher env (LightGlue s _) a b = lightglue_match_images env s a b"
| "run_matcher env (LightGlueV2 s _) a b = pipeline_match_images env s a b"

text \<open>The state: the statistics of the thread and the matcher all requests share, once it is loaded.\<close>

record 's mstate =
  ms_stats :: "nat \<times> nat"
  ms_global :: "'s any_matcher option option"

definition record_match_stats :: "nat \<Rightarrow> nat \<Rightarrow> 's mstate \<Rightarrow> 's mstate" where
  "record_match_stats count millis st =
     (case ms_stats st of (c, ms) \<Rightarrow> st\<lparr>ms_stats := ((c + count) mod 2 ^ 32, (ms + millis) mod 2 ^ 64)\<rparr>)"

definition reset_match_stats :: "'s mstate \<Rightarrow> 's mstate" where
  "reset_match_stats st = st\<lparr>ms_stats := (0, 0)\<rparr>"

definition take_match_stats :: "'s mstate \<Rightarrow> (nat \<times> nat) \<times> 's mstate" where
  "take_match_stats st = (ms_stats st, reset_match_stats st)"

definition match_images :: "('s, 'm) cv_env \<Rightarrow> 's any_matcher \<Rightarrow> 'm \<Rightarrow> 'm \<Rightarrow> 's mstate \<Rightarrow> point_match list outcome \<times> 's mstate" where
  "match_images env m a b st =
     (let r = run_matcher env m a b
      in (r, case r of Some (Inr pts) \<Rightarrow> record_match_stats (length pts) (cv_millis env) st | _ \<Rightarrow> st))"

section \<open>Loading a matcher\<close>

text \<open>\<^verbatim>\<open>Path::join\<close> for a relative name, and \<^verbatim>\<open>Path::file_name\<close>.\<close>

definition join_path :: "string \<Rightarrow> string \<Rightarrow> string" where
  "join_path dir name = (if dir = [] \<or> last dir = CHR ''/'' then dir @ name else dir @ ''/'' @ name)"

definition file_name :: "string \<Rightarrow> string" where
  "file_name path =
     (let t = rev (dropWhile (\<lambda>c. c = CHR ''/'') (rev path)); n = rev (takeWhile (\<lambda>c. c \<noteq> CHR ''/'') (rev t))
      in if n = ''..'' then [] else n)"

definition candidates :: "'s ort_env \<Rightarrow> string \<Rightarrow> string list" where
  "candidates env name =
     (case oe_var env ''FRAME_FORGE_DL_MODELS'' of Some dir \<Rightarrow> [join_path dir name] | None \<Rightarrow> [])
     @ (case oe_exe_dir env of Some dir \<Rightarrow> [join_path (join_path dir ''models'') name] | None \<Rightarrow> [])
     @ [join_path ''/config/plugins/JellyfinSuite/models'' name, join_path ''/workspace/models'' name]"

definition find_model :: "'s ort_env \<Rightarrow> string \<Rightarrow> string option" where
  "find_model env name = List.find (oe_exists env) (candidates env name)"

definition v2_file :: string where "v2_file = ''superpoint_lightglue_pipeline.onnx''"
definition v1_file :: string where "v1_file = ''superpoint_lightglue.onnx''"

definition find_loftr :: "'s ort_env \<Rightarrow> string option" where
  "find_loftr env =
     (case find_model env ''eloftr_640x480.onnx'' of Some p \<Rightarrow> Some p | None \<Rightarrow> find_model env ''efficient_loftr.onnx'')"

definition load_plain :: "'s ort_env \<Rightarrow> ('s \<Rightarrow> string \<Rightarrow> 's any_matcher) \<Rightarrow> string option \<Rightarrow> 's any_matcher option" where
  "load_plain env wrap path =
     (case path of
        None \<Rightarrow> None
      | Some p \<Rightarrow> (case oe_default env p of Inl _ \<Rightarrow> None | Inr s \<Rightarrow> Some (wrap s (file_name p))))"

definition load_lightglue :: "'s ort_env \<Rightarrow> 's any_matcher option" where
  "load_lightglue env =
     (case load_plain env LightGlueV2 (find_model env v2_file) of
        Some m \<Rightarrow> Some m
      | None \<Rightarrow> load_plain env LightGlue (find_model env v1_file))"

definition load_loftr :: "'s ort_env \<Rightarrow> 's any_matcher option" where
  "load_loftr env = load_plain env EfficientLoFTR (find_loftr env)"

definition load_matcher :: "'s ort_env \<Rightarrow> 's any_matcher option" where
  "load_matcher env =
     (let pref = trim (case oe_var env ''FRAME_FORGE_MATCHER'' of Some v \<Rightarrow> v | None \<Rightarrow> [])
      in if pref \<in> {''none'', ''disabled'', ''akaze''} then None
         else if pref = ''lightglue'' then load_lightglue env
         else if pref \<in> {''efficient-loftr'', ''loftr''} then load_loftr env
         else (case load_lightglue env of Some m \<Rightarrow> Some m | None \<Rightarrow> load_loftr env))"

definition matcher_guard :: "'s ort_env \<Rightarrow> 's mstate \<Rightarrow> 's any_matcher option \<times> 's mstate" where
  "matcher_guard env st =
     (case ms_global st of
        Some m \<Rightarrow> (m, st)
      | None \<Rightarrow> (load_matcher env, st\<lparr>ms_global := Some (load_matcher env)\<rparr>))"

text \<open>Loading for one request; the outer \<open>None\<close> is the abort of \<^verbatim>\<open>run_with_ep_timeout\<close>.\<close>

type_synonym 's loaded = "('s any_matcher \<times> fallback_event list) option option"

definition load_with_ep ::
  "'s ort_env \<Rightarrow> ('s \<Rightarrow> string \<Rightarrow> 's any_matcher) \<Rightarrow> string option \<Rightarrow> string \<Rightarrow> nat \<Rightarrow> 's loaded" where
  "load_with_ep env wrap path device_id limit =
     (case path of
        None \<Rightarrow> Some None
      | Some p \<Rightarrow>
          (case build_ep_session env p device_id limit of
             None \<Rightarrow> None
           | Some (Inl _) \<Rightarrow> Some None
           | Some (Inr (s, fb)) \<Rightarrow> Some (Some (wrap s (file_name p), fb))))"

definition or_load :: "'s loaded \<Rightarrow> 's loaded \<Rightarrow> 's loaded" where
  "or_load a b = (case a of Some None \<Rightarrow> b | _ \<Rightarrow> a)"

definition load_lightglue_with_ep :: "'s ort_env \<Rightarrow> string \<Rightarrow> nat \<Rightarrow> 's loaded" where
  "load_lightglue_with_ep env device_id limit =
     or_load (load_with_ep env LightGlueV2 (find_model env v2_file) device_id limit)
       (load_with_ep env LightGlue (find_model env v1_file) device_id limit)"

definition load_loftr_with_ep :: "'s ort_env \<Rightarrow> string \<Rightarrow> nat \<Rightarrow> 's loaded" where
  "load_loftr_with_ep env device_id limit = load_with_ep env EfficientLoFTR (find_loftr env) device_id limit"

definition split_loaded :: "'s loaded \<Rightarrow> ('s any_matcher option \<times> fallback_event list) option" where
  "split_loaded r = map_option (\<lambda>r. case r of Some (m, fb) \<Rightarrow> (Some m, fb) | None \<Rightarrow> (None, [])) r"

definition load_matcher_for_request ::
  "'s ort_env \<Rightarrow> string \<Rightarrow> model_choice \<Rightarrow> nat \<Rightarrow> fl \<Rightarrow> ('s any_matcher option \<times> fallback_event list) option" where
  "load_matcher_for_request env device_id choice frame_count resolution_mp =
     (let limit = cuda_memory_limit_bytes env device_id frame_count resolution_mp
      in case choice of
           Disabled \<Rightarrow> Some (None, [])
         | Choose_LightGlue \<Rightarrow> split_loaded (load_lightglue_with_ep env device_id limit)
         | Choose_EfficientLoFTR \<Rightarrow> split_loaded (load_loftr_with_ep env device_id limit)
         | Auto \<Rightarrow> split_loaded (or_load (load_lightglue_with_ep env device_id limit) (load_loftr_with_ep env device_id limit)))"

definition load_matcher_with_selection ::
  "'s ort_env \<Rightarrow> string \<Rightarrow> bool \<Rightarrow> string \<Rightarrow> string option \<Rightarrow> nat \<Rightarrow> fl \<Rightarrow>
     ('s any_matcher option \<times> fallback_event list) option" where
  "load_matcher_with_selection env device_id disabled family explicit_path frame_count resolution_mp =
     (let limit = cuda_memory_limit_bytes env device_id frame_count resolution_mp
      in if disabled then Some (None, [])
         else if explicit_path \<noteq> None then
           split_loaded
             (if family = ''efficient-loftr'' then load_with_ep env EfficientLoFTR explicit_path device_id limit
              else or_load (load_with_ep env LightGlueV2 explicit_path device_id limit)
                     (load_with_ep env LightGlue explicit_path device_id limit))
         else load_matcher_for_request env device_id
                (if family = ''lightglue'' then Choose_LightGlue
                 else if family = ''efficient-loftr'' then Choose_EfficientLoFTR else Auto)
                frame_count resolution_mp)"

section \<open>Homographies\<close>

definition min_inliers :: nat where "min_inliers = 8"

definition inlier_count :: "nat \<Rightarrow> (nat \<Rightarrow> byte option) \<Rightarrow> nat" where
  "inlier_count n marks = length (filter (\<lambda>i. case marks i of Some b \<Rightarrow> 0 < b | None \<Rightarrow> False) [0..<n])"

definition homography_usac :: "('s, 'm) cv_env \<Rightarrow> point_match list \<Rightarrow> homography outcome" where
  "homography_usac env pts =
     and_then (Some (cv_homography env pts)) (\<lambda>(h, marks).
       check_that (\<not> (ho_empty h \<or> ho_rows h \<noteq> 3)) ''USAC-MAGSAC produced empty homography''
         (check_that (\<not> inlier_count (length pts) marks < min_inliers) ''too few USAC inliers'' (yields h)))"

definition ratio_match :: "(fl \<times> fl) list \<Rightarrow> (fl \<times> fl) list \<Rightarrow> (int \<times> int \<times> fl) list \<Rightarrow> point_match option" where
  "ratio_match kp0 kp1 m =
     (case m of
        (q, t, da) # (_, _, db) # _ \<Rightarrow>
          if fl_le (g_mul (round32 (4 / 5)) db) da then None
          else (case (slice_get kp0 (as_usize q), slice_get kp1 (as_usize t)) of
                  (Some (x0, y0), Some (x1, y1)) \<Rightarrow> Some (x0, y0, x1, y1)
                | _ \<Rightarrow> None)
      | _ \<Rightarrow> None)"

definition estimate_homography_akaze :: "('s, 'm) cv_env \<Rightarrow> 'm \<Rightarrow> 'm \<Rightarrow> homography outcome" where
  "estimate_homography_akaze env img0 img1 =
     (let code = (\<lambda>img. if cv_channels env img = 4 then 4 else 3)
      in and_then (Some (cv_cvt_color env (code img0) img0)) (\<lambda>g0.
         and_then (Some (cv_cvt_color env (code img1) img1)) (\<lambda>g1.
         and_then (Some (cv_akaze env g0)) (\<lambda>(kp0, d0).
         and_then (Some (cv_akaze env g1)) (\<lambda>(kp1, d1).
           check_that (\<not> (length kp0 < min_inliers \<or> length kp1 < min_inliers)) ''AKAZE: too few keypoints''
           (check_that (\<not> (cv_empty env d0 \<or> cv_empty env d1)) ''AKAZE: empty descriptors''
             (and_then (Some (cv_knn env d0 d1)) (\<lambda>knn.
                let good = List.map_filter (ratio_match kp0 kp1) knn
                in check_that (\<not> length good < min_inliers) ''AKAZE: too few good matches'' (homography_usac env good)))))))))"

text \<open>The attempt with a model, shared by the two estimates: enough matches and then enough inliers.\<close>

definition model_homography :: "('s, 'm) cv_env \<Rightarrow> 's any_matcher \<Rightarrow> 'm \<Rightarrow> 'm \<Rightarrow> 's mstate \<Rightarrow> homography outcome \<times> 's mstate" where
  "model_homography env m img0 img1 st =
     (case match_images env m img0 img1 st of (r, st) \<Rightarrow>
        (and_then r (\<lambda>pts. check_that (min_inliers \<le> length pts) ''too few DL matches'' (homography_usac env pts)), st))"

definition estimate_homography :: "('s, 'm) cv_env \<Rightarrow> 'm \<Rightarrow> 'm \<Rightarrow> 's any_matcher option \<Rightarrow> 's mstate \<Rightarrow> homography outcome \<times> 's mstate" where
  "estimate_homography env img0 img1 matcher st =
     (case matcher of
        None \<Rightarrow> (estimate_homography_akaze env img0 img1, st)
      | Some m \<Rightarrow>
          (case model_homography env m img0 img1 st of
             (Some (Inl _), st) \<Rightarrow> (estimate_homography_akaze env img0 img1, st)
           | r \<Rightarrow> r))"

section \<open>The estimate of the landscape stitcher\<close>

definition h_at :: "homography \<Rightarrow> nat \<Rightarrow> nat \<Rightarrow> fl" where
  "h_at h r c = (case ho_at h r c of Some v \<Rightarrow> v | None \<Rightarrow> if r = c then Fin 1 else Fin 0)"

text \<open>\<open>cv_angle\<close> is \<^verbatim>\<open>atan2\<close> in degrees.\<close>

definition homography_is_sane :: "('s, 'm) cv_env \<Rightarrow> homography \<Rightarrow> nat \<Rightarrow> nat \<Rightarrow> bool" where
  "homography_is_sane env h img_w img_h \<longleftrightarrow>
     (let sq = (\<lambda>a b. cv_sqrt env (f_add (f_mul a a) (f_mul b b)));
          scale_x = sq (h_at h 0 0) (h_at h 1 0); scale_y = sq (h_at h 0 1) (h_at h 1 1);
          angle = fl_abs (cv_angle env (h_at h 1 0) (h_at h 0 0)); persp = sq (h_at h 2 0) (h_at h 2 1)
      in fl_less (round64 (82 / 100)) scale_x \<and> fl_less scale_x (round64 (122 / 100))
         \<and> fl_less (round64 (82 / 100)) scale_y \<and> fl_less scale_y (round64 (122 / 100))
         \<and> fl_less angle (Fin 10)
         \<and> fl_less (fl_abs (h_at h 0 2)) (f_mul (f_of_int (int img_w)) (Fin 2))
         \<and> fl_less (fl_abs (h_at h 1 2)) (f_mul (f_of_int (int img_h)) (Fin 2))
         \<and> fl_less persp (round64 (5 / 10000)))"

definition sane_for :: "('s, 'm) cv_env \<Rightarrow> 'm \<Rightarrow> homography \<Rightarrow> bool" where
  "sane_for env img h \<longleftrightarrow> homography_is_sane env h (cv_cols env img) (cv_rows env img)"

definition estimate_homography_inner ::
  "('s, 'm) cv_env \<Rightarrow> 'm \<Rightarrow> 'm \<Rightarrow> 's any_matcher option \<Rightarrow> 's mstate \<Rightarrow> homography outcome \<times> 's mstate" where
  "estimate_homography_inner env img1 img2 matcher st =
     (let akaze = and_then (estimate_homography_akaze env img1 img2) (\<lambda>h.
            check_that (sane_for env img1 h) ''homography failed geometric sanity check (repetitive texture)'' (yields h))
      in case matcher of
           None \<Rightarrow> (akaze, st)
         | Some m \<Rightarrow>
             (case model_homography env m img1 img2 st of
                (None, st) \<Rightarrow> (None, st)
              | (Some (Inl _), st) \<Rightarrow> (akaze, st)
              | (Some (Inr h), st) \<Rightarrow> if sane_for env img1 h then (yields h, st) else (akaze, st)))"

text \<open>The estimate the stitchers call; without a matcher of the request it takes the shared one.\<close>

definition estimate_pair ::
  "('s, 'm) cv_env \<Rightarrow> 'm \<Rightarrow> 'm \<Rightarrow> 's any_matcher option \<Rightarrow> 's mstate \<Rightarrow> homography outcome \<times> 's mstate" where
  "estimate_pair env img1 img2 per_req st =
     (case per_req of
        Some m \<Rightarrow> estimate_homography_inner env img1 img2 (Some m) st
      | None \<Rightarrow> (case matcher_guard (cv_ort env) st of (g, st) \<Rightarrow> estimate_homography_inner env img1 img2 g st))"

section \<open>What an estimate vouches for\<close>

text \<open>A homography with enough matches behind it, and enough of them inliers.\<close>

definition supported :: "('s, 'm) cv_env \<Rightarrow> homography \<Rightarrow> bool" where
  "supported env h \<longleftrightarrow>
     (\<exists>pts marks. cv_homography env pts = Inr (h, marks) \<and> 8 \<le> length pts \<and> 8 \<le> inlier_count (length pts) marks
        \<and> ho_rows h = 3 \<and> \<not> ho_empty h)"

lemma usac_supported: "homography_usac env pts = Some (Inr h) \<Longrightarrow> 8 \<le> length pts \<Longrightarrow> supported env h"
  by (auto simp: homography_usac_def and_then_eq_yields supported_def yields_def min_inliers_def not_less)

lemma akaze_supported: "estimate_homography_akaze env a b = Some (Inr h) \<Longrightarrow> supported env h"
  by (auto simp: estimate_homography_akaze_def and_then_eq_yields Let_def min_inliers_def not_less split: prod.splits
      intro: usac_supported)

lemma model_supported: "model_homography env m a b st = (Some (Inr h), st') \<Longrightarrow> supported env h"
  by (auto simp: model_homography_def and_then_eq_yields min_inliers_def split: prod.splits intro: usac_supported)

lemma checked_akaze:
  "and_then (estimate_homography_akaze env a b) (\<lambda>h. check_that (sane_for env a h) e (yields h)) = Some (Inr h) \<Longrightarrow>
     supported env h \<and> sane_for env a h"
  by (auto simp: and_then_eq_yields yields_def intro: akaze_supported)

lemma inner_supported:
  "estimate_homography_inner env a b m st = (Some (Inr h), st') \<Longrightarrow> supported env h \<and> sane_for env a h"
  by (auto simp: estimate_homography_inner_def Let_def split: option.splits prod.splits sum.splits if_splits
      dest: checked_akaze checked_akaze [unfolded yields_def] model_supported simp: yields_def [of h for h])

text \<open>
  C29: Whatever the models and OpenCV return, a homography that \<^verbatim>\<open>estimate_pair\<close> returns is always one that USAC computed from
  at least eight matches, with at least eight inliers among them, three rows, and a geometry that passes the sanity check for
  the picture on the left; failing outputs, short tensors and rejected homographies only ever lead to the next method or
  to an error. The stitchers also warp by a matrix of their own when \<^verbatim>\<open>estimate_pair\<close> fails, the pure translation of the
  phase correlation; nothing is said of that one here.
\<close>

theorem homography_trusted:
  assumes "estimate_pair env a b per_req st = (Some (Inr h), st')"
  shows "supported env h \<and> sane_for env a h"
  using assms by (auto simp: estimate_pair_def split: option.splits prod.splits dest: inner_supported)

text \<open>
  A request that disables the models still uses one. No matcher is loaded for it and none is named in its log, but
  without a matcher of its own the estimate takes the shared one, which loads the installed model: when the model's
  homography is good, it is the result, and the matches are counted.
\<close>

theorem disabled_model_still_used:
  assumes "oe_var (cv_ort env) ''FRAME_FORGE_MATCHER'' = None" and "find_model (cv_ort env) v2_file = Some p"
    and "oe_default (cv_ort env) p = Inr session" and "ms_global st = None"
    and "run_matcher env (LightGlueV2 session (file_name p)) a b = Some (Inr pts)" and "8 \<le> length pts"
    and "homography_usac env pts = Some (Inr h)" and "sane_for env a h"
  shows "load_matcher_with_selection (cv_ort env) dev True family path n mp = Some (None, [])
     \<and> (\<exists>st'. estimate_pair env a b None st = (Some (Inr h), st')
         \<and> ms_stats st' = ((fst (ms_stats st) + length pts) mod 2 ^ 32, (snd (ms_stats st) + cv_millis env) mod 2 ^ 64))"
proof
  show "load_matcher_with_selection (cv_ort env) dev True family path n mp = Some (None, [])"
    by (simp add: load_matcher_with_selection_def)
  have "load_matcher (cv_ort env) = Some (LightGlueV2 session (file_name p))"
    using assms(1-3) by (simp add: load_matcher_def trim_def load_lightglue_def load_plain_def)
  then have "matcher_guard (cv_ort env) st
      = (Some (LightGlueV2 session (file_name p)), st\<lparr>ms_global := Some (Some (LightGlueV2 session (file_name p)))\<rparr>)"
    using assms(4) by (simp add: matcher_guard_def)
  then show "\<exists>st'. estimate_pair env a b None st = (Some (Inr h), st')
       \<and> ms_stats st' = ((fst (ms_stats st) + length pts) mod 2 ^ 32, (snd (ms_stats st) + cv_millis env) mod 2 ^ 64)"
    using assms(5-8)
    by (simp add: estimate_pair_def estimate_homography_inner_def Let_def model_homography_def match_images_def check_that_def
        min_inliers_def yields_def record_match_stats_def split: prod.split)
qed

text \<open>Pictures of one pixel, a model that finds eight matches, and the identity as their homography.\<close>

definition identity_homography :: homography where
  "identity_homography = \<lparr>ho_rows = 3, ho_empty = False, ho_at = \<lambda>r c. Some (if r = c then Fin 1 else Fin 0)\<rparr>"

definition demo_cv :: "(nat, nat) cv_env" where
  "demo_cv =
     \<lparr>cv_ort = demo_ort, cv_cols = \<lambda>_. 1, cv_rows = \<lambda>_. 1, cv_channels = \<lambda>_. 1, cv_bytes = \<lambda>_. Inr [0],
      cv_cvt_color = \<lambda>_ m. Inr m, cv_resize = \<lambda>_ _ m. Inr m, cv_empty = \<lambda>_. False,
      cv_run_loftr = \<lambda>_ _ _. Inl [], cv_run_lightglue = \<lambda>_ _ _. Inl [],
      cv_run_pipeline = \<lambda>_ _. Inr ([2, 1, 2], [0, 0, 0, 0], replicate 24 0, replicate 8 (Fin 1)), cv_millis = 5,
      cv_homography = \<lambda>_. Inr (identity_homography, \<lambda>_. Some 1), cv_akaze = \<lambda>_. Inl [], cv_knn = \<lambda>_ _. Inl [],
      cv_sqrt = \<lambda>x. x, cv_angle = \<lambda>_ _. Fin 0\<rparr>"

definition demo_st :: "nat mstate" where
  "demo_st = \<lparr>ms_stats = (0, 0), ms_global = None\<rparr>"

lemma round64_close:
  assumes "\<bar>x\<bar> < 2"
  obtains y where "round64 x = Fin y" and "\<bar>y - x\<bar> \<le> 1 / 10000000000"
proof -
  have p: "(2 :: rat) powi (1 - 54) \<le> 1 / 10000000000" by (simp add: power_int_minus field_simps)
  from round64_near [of x 1] assms obtain y where "round64 x = Fin y" "\<bar>y - x\<bar> \<le> 2 powi (1 - 54)" by auto
  with p that show thesis by (meson order.trans)
qed

lemma identity_sane: "sane_for demo_cv a identity_homography"
proof -
  obtain l where l: "round64 (82 / 100) = Fin l" "\<bar>l - 82 / 100\<bar> \<le> 1 / 10000000000" by (rule round64_close [of "82 / 100"]) simp_all
  obtain u where u: "round64 (122 / 100) = Fin u" "\<bar>u - 122 / 100\<bar> \<le> 1 / 10000000000" by (rule round64_close [of "122 / 100"]) simp_all
  obtain e where e: "round64 (5 / 10000) = Fin e" "\<bar>e - 5 / 10000\<bar> \<le> 1 / 10000000000" by (rule round64_close [of "5 / 10000"]) simp_all
  have "l < 1" "1 < u" "0 < e" using l(2) u(2) e(2) by linarith+
  moreover have "round64 0 = Fin 0" "round64 1 = Fin 1" "round64 2 = Fin 2" "f_of_int 1 = Fin 1"
    using round64_int [of 0] round64_int [of 1] round64_int [of 2] f_of_int_exact [of 1] by simp_all
  ultimately show ?thesis
    using l(1) u(1) e(1) by (simp add: sane_for_def homography_is_sane_def h_at_def identity_homography_def demo_cv_def f_add_def Let_def)
qed

lemma demo_matches: "run_matcher demo_cv (LightGlueV2 s n) a b = Some (Inr (replicate 8 (Fin 0, Fin 0, Fin 0, Fin 0)))"
proof -
  have z: "g_of_int 0 = Fin 0" "g_of_nat 0 = Fin 0" "g_div (Fin 0) (Fin 255) = Fin 0"
    by (simp_all add: g_of_int_def g_of_nat_def g_div_def round32_def round_fl_def Let_def)
  have l: "[0..<8] = [0, 1, 2, 3, 4, 5, 6, 7 :: nat]" by (simp add: upt_rec)
  have "read_pipeline_one 1 [0, 0, 0, 0] (replicate 24 0) (replicate 8 (Fin 1)) i = Some (Some (Fin 0, Fin 0, Fin 0, Fin 0))" if "i < 8" for i
    using that by (simp add: read_pipeline_one_def lightglue_threshold_def as_usize_def z)
  then show ?thesis
    by (simp add: pipeline_match_images_def mat_to_gray_array_def to_gray_def gray_tensor_def concat_images_def check_that_def
        yields_def demo_cv_def z l numeral_eq_Suc)
qed

theorem disabled_model_still_used_witness:
  "load_matcher_with_selection demo_ort ''cpu'' True [] None 2 (Fin 1) = Some (None, [])
   \<and> (\<exists>st'. estimate_pair demo_cv 0 1 None demo_st = (Some (Inr identity_homography), st')
       \<and> ms_stats st' = ((fst (ms_stats demo_st) + length (replicate 8 (Fin 0, Fin 0, Fin 0, Fin 0))) mod 2 ^ 32,
                          (snd (ms_stats demo_st) + cv_millis demo_cv) mod 2 ^ 64))"
proof -
  have c: "cv_ort demo_cv = demo_ort" by (simp add: demo_cv_def)
  have "find_model demo_ort v2_file = Some (join_path ''/config/plugins/JellyfinSuite/models'' v2_file)"
    by (simp add: find_model_def candidates_def demo_ort_def)
  moreover have "homography_usac demo_cv (replicate 8 (Fin 0, Fin 0, Fin 0, Fin 0)) = Some (Inr identity_homography)"
    by (simp add: homography_usac_def demo_cv_def identity_homography_def check_that_def inlier_count_def min_inliers_def yields_def)
  ultimately show ?thesis
    using disabled_model_still_used [of demo_cv, unfolded c, OF _ _ _ _ demo_matches _ _ identity_sane, where st = demo_st]
    by (auto simp: demo_ort_def demo_st_def)
qed

theorem homography_trusted_witness:
  "\<exists>h st'. estimate_pair demo_cv 0 1 (Some (LightGlueV2 7 [])) demo_st = (Some (Inr h), st') \<and> supported demo_cv h \<and> sane_for demo_cv 0 h"
proof -
  have "homography_usac demo_cv (replicate 8 (Fin 0, Fin 0, Fin 0, Fin 0)) = Some (Inr identity_homography)"
    by (simp add: homography_usac_def demo_cv_def identity_homography_def check_that_def inlier_count_def min_inliers_def yields_def)
  then obtain st' where e: "estimate_pair demo_cv 0 1 (Some (LightGlueV2 7 [])) demo_st = (Some (Inr identity_homography), st')"
    using identity_sane demo_matches
    by (simp add: estimate_pair_def estimate_homography_inner_def model_homography_def match_images_def check_that_def min_inliers_def
        yields_def Let_def)
  from homography_trusted [OF e] e show ?thesis by blast
qed

end
