(* ===== verification/Pyramid_Blend.thy ===== *)
theory Pyramid_Blend
  imports Upscale_Tiles Feature_Match
begin

text \<open>
  Blending of two overlapping pictures: the second half of \<^verbatim>\<open>crates/frame-forge/src/stitch_landscape.rs\<close> (exposure
  compensation, the seam by dynamic programming, the gradient mask, the Laplacian pyramid). Buffers are functions of the
  position; reading outside gives zero and writing outside nothing, as in \<^verbatim>\<open>FImg\<close> and \<^verbatim>\<open>FMsk\<close>. Pictures have at least
  one pixel.
\<close>

section \<open>Pictures and planes\<close>

text \<open>\<^verbatim>\<open>RgbaImage\<close>: \<open>rg_at img x y c\<close> is channel \<open>c\<close> (red, green, blue, alpha) of a pixel.\<close>

record rgba =
  rg_w :: nat
  rg_h :: nat
  rg_at :: "nat \<Rightarrow> nat \<Rightarrow> nat \<Rightarrow> byte"

record fimg =
  fi_w :: nat
  fi_h :: nat
  fi_at :: "nat \<Rightarrow> nat \<Rightarrow> nat \<Rightarrow> fl"

record fmsk =
  fm_w :: nat
  fm_h :: nat
  fm_at :: "nat \<Rightarrow> nat \<Rightarrow> fl"

definition in_rgba :: "rgba \<Rightarrow> nat \<Rightarrow> nat \<Rightarrow> bool" where
  "in_rgba img x y \<longleftrightarrow> x < rg_w img \<and> y < rg_h img"

definition px :: "fimg \<Rightarrow> nat \<Rightarrow> nat \<Rightarrow> nat \<Rightarrow> fl" where
  "px img x y c = (if fi_w img \<le> x \<or> fi_h img \<le> y then Fin 0 else fi_at img x y c)"

definition msk_val :: "fmsk \<Rightarrow> nat \<Rightarrow> nat \<Rightarrow> fl" where
  "msk_val m x y = (if fm_w m \<le> x \<or> fm_h m \<le> y then Fin 0 else fm_at m x y)"

definition unit_of :: "byte \<Rightarrow> fl" where
  "unit_of b = g_div (g_of_nat (unat b)) (Fin 255)"

definition from_rgba :: "rgba \<Rightarrow> nat \<Rightarrow> nat \<Rightarrow> fimg" where
  "from_rgba img cw ch =
     \<lparr>fi_w = cw, fi_h = ch, fi_at = \<lambda>x y c. if in_rgba img x y then unit_of (rg_at img x y c) else Fin 0\<rparr>"

definition to_rgba :: "fimg \<Rightarrow> rgba" where
  "to_rgba img = \<lparr>rg_w = fi_w img, rg_h = fi_h img, rg_at = \<lambda>x y c. to_byte (fi_at img x y c)\<rparr>"

section \<open>The pyramid\<close>

definition k5 :: "fl list" where
  "k5 = [Fin (1 / 16), Fin (1 / 4), Fin (3 / 8), Fin (1 / 4), Fin (1 / 16)]"

text \<open>A tap of the kernel, at a position kept inside the side.\<close>

definition tap :: "nat \<Rightarrow> nat \<Rightarrow> nat \<Rightarrow> nat" where
  "tap len x k = nat (max 0 (min (int len - 1) (int x + int k - 2)))"

definition smooth :: "(nat \<Rightarrow> fl) \<Rightarrow> nat \<Rightarrow> nat \<Rightarrow> fl" where
  "smooth f len x = foldl (\<lambda>acc (k, kv). g_add acc (g_mul kv (f (tap len x k)))) (Fin 0) (enumerate 0 k5)"

definition gauss_img :: "fimg \<Rightarrow> fimg" where
  "gauss_img img =
     (let tmp = img\<lparr>fi_at := \<lambda>x y c. smooth (\<lambda>sx. px img sx y c) (fi_w img) x\<rparr>
      in img\<lparr>fi_at := \<lambda>x y c. smooth (\<lambda>sy. px tmp x sy c) (fi_h img) y\<rparr>)"

definition gauss_msk :: "fmsk \<Rightarrow> fmsk" where
  "gauss_msk m =
     (let tmp = m\<lparr>fm_at := \<lambda>x y. smooth (\<lambda>sx. msk_val m sx y) (fm_w m) x\<rparr>
      in m\<lparr>fm_at := \<lambda>x y. smooth (\<lambda>sy. msk_val tmp x sy) (fm_h m) y\<rparr>)"

definition down_img :: "fimg \<Rightarrow> fimg" where
  "down_img img = \<lparr>fi_w = (fi_w img + 1) div 2, fi_h = (fi_h img + 1) div 2, fi_at = \<lambda>x y c. px img (x * 2) (y * 2) c\<rparr>"

definition down_msk :: "fmsk \<Rightarrow> fmsk" where
  "down_msk m = \<lparr>fm_w = (fm_w m + 1) div 2, fm_h = (fm_h m + 1) div 2, fm_at = \<lambda>x y. msk_val m (x * 2) (y * 2)\<rparr>"

definition g_sub :: "fl \<Rightarrow> fl \<Rightarrow> fl" where
  "g_sub a b = g_add a (fl_neg b)"

text \<open>Where a position falls in the smaller side: the two neighbours and the weight of the second.\<close>

definition between :: "nat \<Rightarrow> nat \<Rightarrow> nat \<Rightarrow> nat \<times> nat \<times> fl" where
  "between small big x =
     (let d = g_of_nat (max (big - 1) 1); s = g_of_nat (max (small - 1) 1);
          fx = g_div (g_mul (g_of_nat x) s) d; x0 = f_to_u32 (f_floor fx)
      in (x0, min (x0 + 1) (small - 1), g_sub fx (g_of_nat x0)))"

definition bilinear :: "(nat \<Rightarrow> nat \<Rightarrow> fl) \<Rightarrow> nat \<times> nat \<times> fl \<Rightarrow> nat \<times> nat \<times> fl \<Rightarrow> fl" where
  "bilinear f bx by' =
     (case (bx, by') of ((x0, x1, tx), (y0, y1, ty)) \<Rightarrow>
        let mix = (\<lambda>y. g_add (g_mul (f x0 y) (g_sub (Fin 1) tx)) (g_mul (f x1 y) tx))
        in g_add (g_mul (mix y0) (g_sub (Fin 1) ty)) (g_mul (mix y1) ty))"

definition up_img :: "fimg \<Rightarrow> nat \<Rightarrow> nat \<Rightarrow> fimg" where
  "up_img img tw th =
     \<lparr>fi_w = tw, fi_h = th,
      fi_at = \<lambda>x y c. bilinear (\<lambda>u v. px img u v c) (between (fi_w img) tw x) (between (fi_h img) th y)\<rparr>"

definition pyr_levels :: nat where "pyr_levels = 4"

fun gauss_pyr :: "('a \<Rightarrow> 'a) \<Rightarrow> nat \<Rightarrow> 'a \<Rightarrow> 'a list" where
  "gauss_pyr step 0 img = [img]"
| "gauss_pyr step (Suc n) img = img # gauss_pyr step n (step img)"

definition gauss_pyr_img :: "fimg \<Rightarrow> fimg list" where
  "gauss_pyr_img = gauss_pyr (\<lambda>p. down_img (gauss_img p)) (pyr_levels - 1)"

definition gauss_pyr_msk :: "fmsk \<Rightarrow> fmsk list" where
  "gauss_pyr_msk = gauss_pyr (\<lambda>p. down_msk (gauss_msk p)) (pyr_levels - 1)"

definition lap_level :: "fimg \<Rightarrow> fimg \<Rightarrow> fimg" where
  "lap_level g next =
     (let u = up_img next (fi_w g) (fi_h g) in g\<lparr>fi_at := \<lambda>x y c. g_sub (px g x y c) (px u x y c)\<rparr>)"

fun lap_pyr :: "fimg list \<Rightarrow> fimg list" where
  "lap_pyr (g # g' # rest) = lap_level g g' # lap_pyr (g' # rest)"
| "lap_pyr gs = gs"

definition collapse_level :: "fimg \<Rightarrow> fimg \<Rightarrow> fimg" where
  "collapse_level l res =
     (let u = up_img res (fi_w l) (fi_h l) in l\<lparr>fi_at := \<lambda>x y c. g_add (px l x y c) (px u x y c)\<rparr>)"

fun collapse_lap :: "fimg list \<Rightarrow> fimg" where
  "collapse_lap [l] = l"
| "collapse_lap (l # ls) = collapse_level l (collapse_lap ls)"
| "collapse_lap [] = \<lparr>fi_w = 0, fi_h = 0, fi_at = \<lambda>_ _ _. Fin 0\<rparr>"

definition blend_level :: "fimg \<Rightarrow> fimg \<Rightarrow> fmsk \<Rightarrow> fimg" where
  "blend_level a b m =
     \<lparr>fi_w = max (fi_w a) (fi_w b), fi_h = max (fi_h a) (fi_h b),
      fi_at = \<lambda>x y c. g_add (g_mul (px a x y c) (msk_val m x y)) (g_mul (px b x y c) (g_sub (Fin 1) (msk_val m x y)))\<rparr>"

section \<open>Masks\<close>

record gray_mask =
  gm_w :: nat
  gm_h :: nat
  gm_at :: "nat \<Rightarrow> nat \<Rightarrow> byte"

definition alpha_mask :: "rgba \<Rightarrow> nat \<Rightarrow> nat \<Rightarrow> gray_mask" where
  "alpha_mask img cw ch = \<lparr>gm_w = cw, gm_h = ch, gm_at = \<lambda>x y. if in_rgba img x y then rg_at img x y 3 else 0\<rparr>"

definition above :: "byte \<Rightarrow> gray_mask \<Rightarrow> nat \<Rightarrow> nat \<Rightarrow> bool" where
  "above k m x y \<longleftrightarrow> x < gm_w m \<and> y < gm_h m \<and> k < gm_at m x y"

text \<open>The first and last column a mask covers, \<open>w\<close> and \<open>-1\<close> when there is none.\<close>

definition columns :: "gray_mask \<Rightarrow> nat \<Rightarrow> nat \<Rightarrow> nat list" where
  "columns m w h = filter (\<lambda>x. \<exists>y \<in> set [0..<h]. above 128 m x y) [0..<w]"

definition seam_mask :: "gray_mask \<Rightarrow> gray_mask \<Rightarrow> nat \<Rightarrow> nat \<Rightarrow> fmsk" where
  "seam_mask ma mb w h =
     (let left = (\<lambda>m. case columns m w h of [] \<Rightarrow> int w | x # _ \<Rightarrow> int x);
          right = (\<lambda>m. if columns m w h = [] then - 1 else int (last (columns m w h)));
          ov_left = max (left ma) (left mb); ov_right = min (right ma) (right mb);
          ow = g_of_nat (nat (max 0 (ov_right - ov_left + 1)))
      in \<lparr>fm_w = w, fm_h = h,
          fm_at = \<lambda>x y.
            if above 128 ma x y \<and> above 128 mb x y \<and> fl_less (Fin 0) ow then
              g_sub (Fin 1) (fl_bound (Fin 0) (Fin 1) (g_div (g_sub (g_of_nat x) (round32 (of_int ov_left))) ow))
            else if above 128 ma x y then Fin 1 else Fin 0\<rparr>)"

section \<open>The seam\<close>

definition covered :: "rgba \<Rightarrow> nat \<Rightarrow> nat \<Rightarrow> bool" where
  "covered img x y \<longleftrightarrow> 0 < rg_at img x y 3"

definition seam_energy :: "rgba \<Rightarrow> rgba \<Rightarrow> nat \<Rightarrow> nat \<Rightarrow> nat \<Rightarrow> fl" where
  "seam_energy a b x_min cx y =
     (let x = x_min + cx; d = (\<lambda>c. g_sub (g_of_nat (unat (rg_at a x y c))) (g_of_nat (unat (rg_at b x y c))))
      in if \<not> covered a x y \<or> \<not> covered b x y then Fin 1000000000
         else g_add (g_add (g_mul (d 0) (d 0)) (g_mul (d 1) (d 1))) (g_mul (d 2) (d 2)))"

definition neighbours :: "nat \<Rightarrow> nat \<Rightarrow> nat list" where
  "neighbours cols cx = [cx - 1..<min (cx + 1) (cols - 1) + 1]"

definition f32_max :: fl where "f32_max = Fin ((2 ^ 24 - 1) * 2 ^ 104)"

text \<open>Row \<open>y\<close> of the table.\<close>

fun seam_table :: "(nat \<Rightarrow> nat \<Rightarrow> fl) \<Rightarrow> nat \<Rightarrow> nat \<Rightarrow> fl list" where
  "seam_table e cols 0 = map (\<lambda>cx. e cx 0) [0..<cols]"
| "seam_table e cols (Suc y) =
     (let prev = seam_table e cols y
      in map (\<lambda>cx. let ev = e cx (Suc y); p = foldl fl_min f32_max (map (\<lambda>k. prev ! k) (neighbours cols cx))
                   in if fl_less ev (Fin 100000000) \<and> fl_less p (Fin 100000000) then g_add ev p else Fin 1000000000) [0..<cols])"

text \<open>\<^verbatim>\<open>min_by\<close> with ties to the right when the second picture lies to the right, else to the left.\<close>

definition better :: "bool \<Rightarrow> fl list \<Rightarrow> nat \<Rightarrow> nat \<Rightarrow> bool" where
  "better b_right row i j \<longleftrightarrow> fl_less (row ! i) (row ! j) \<or> \<not> fl_less (row ! j) (row ! i) \<and> (if b_right then j < i else i < j)"

definition best_column :: "bool \<Rightarrow> fl list \<Rightarrow> nat list \<Rightarrow> nat" where
  "best_column b_right row js = foldl (\<lambda>a b. if better b_right row b a then b else a) (hd js) (tl js)"

text \<open>The way back from row \<open>y\<close>: the columns of the rows below it, starting at row \<open>0\<close>.\<close>

fun trace_seam :: "(nat \<Rightarrow> fl list) \<Rightarrow> bool \<Rightarrow> nat \<Rightarrow> nat \<Rightarrow> nat \<Rightarrow> nat list" where
  "trace_seam dp b_right cols 0 cx = [cx]"
| "trace_seam dp b_right cols (Suc y) cx =
     trace_seam dp b_right cols y (best_column b_right (dp y) (neighbours cols cx)) @ [cx]"

definition overlap_columns :: "rgba \<Rightarrow> rgba \<Rightarrow> nat list" where
  "overlap_columns a b = filter (\<lambda>x. \<exists>y \<in> set [0..<rg_h a]. covered a x y \<and> covered b x y) [0..<rg_w a]"

definition covered_xs :: "rgba \<Rightarrow> nat list" where
  "covered_xs a = concat (map (\<lambda>x. map (\<lambda>_. x) (filter (covered a x) [0..<rg_h a])) [0..<rg_w a])"

definition lies_right :: "rgba \<Rightarrow> rgba \<Rightarrow> bool" where
  "lies_right a b \<longleftrightarrow>
     (let as' = covered_xs a; bs = covered_xs b
      in 0 < length as' \<and> 0 < length bs \<and> sum_list as' * length bs < sum_list bs * length as')"

definition try_graphcut_seam :: "rgba \<Rightarrow> rgba \<Rightarrow> fmsk option" where
  "try_graphcut_seam a b =
     (let xs = overlap_columns a b; x_min = hd xs; x_max = last xs; cols = x_max - x_min + 1; hi = rg_h a
      in if (rg_w a, rg_h a) \<noteq> (rg_w b, rg_h b) \<or> xs = [] \<or> x_max < x_min + 2 \<or> rg_w a < cols * 2 then None
         else
           (let r = lies_right a b; dp = seam_table (seam_energy a b x_min) cols;
                seam = map (\<lambda>cx. x_min + cx) (trace_seam dp r cols (hi - 1) (best_column r (dp (hi - 1)) [0..<cols]))
            in Some \<lparr>fm_w = rg_w a, fm_h = rg_h a,
                     fm_at = \<lambda>x y. if (if r then x \<le> seam ! y else seam ! y \<le> x) then Fin 1 else Fin 0\<rparr>))"

section \<open>Exposure\<close>

text \<open>The gain of a channel, from the sums over the positions both pictures cover.\<close>

definition both_covered :: "gray_mask \<Rightarrow> gray_mask \<Rightarrow> nat \<Rightarrow> nat \<Rightarrow> (nat \<times> nat) list" where
  "both_covered ma mb ow oh =
     filter (\<lambda>(x, y). 128 < gm_at ma x y \<and> 128 < gm_at mb x y) (concat (map (\<lambda>y. map (\<lambda>x. (x, y)) [0..<ow]) [0..<oh]))"

definition gain :: "rgba \<Rightarrow> rgba \<Rightarrow> (nat \<times> nat) list \<Rightarrow> nat \<Rightarrow> fl" where
  "gain a b ps c =
     (let total = (\<lambda>img. sum_list (map (\<lambda>(x, y). unat (rg_at img x y c)) ps))
      in if total b = 0 then fl_bound (round32 (3 / 5)) (round32 (8 / 5)) (Fin 1)
         else fl_bound (round32 (3 / 5)) (round32 (8 / 5))
                (case f_div (f_of_int (int (total a))) (f_of_int (int (total b))) of Fin q \<Rightarrow> round32 q | q \<Rightarrow> q))"

definition gained :: "fl \<Rightarrow> byte \<Rightarrow> byte" where
  "gained k v = of_nat (min 255 (f_to_u32 (fl_bound (Fin 0) (Fin 255) (g_mul (g_of_nat (unat v)) k))))"

definition exposure_compensate :: "rgba \<Rightarrow> rgba \<Rightarrow> gray_mask \<Rightarrow> gray_mask \<Rightarrow> rgba" where
  "exposure_compensate a b ma mb =
     (let ow = min (min (min (rg_w a) (gm_w ma)) (rg_w b)) (gm_w mb); oh = min (min (min (rg_h a) (gm_h ma)) (rg_h b)) (gm_h mb);
          ps = both_covered ma mb ow oh
      in if length ps < 100 then b
         else b\<lparr>rg_at := \<lambda>x y c. if c = 3 then rg_at b x y c else gained (gain a b ps c) (rg_at b x y c)\<rparr>)"

section \<open>Blending\<close>

definition blend_mask :: "rgba \<Rightarrow> rgba \<Rightarrow> gray_mask \<Rightarrow> gray_mask \<Rightarrow> fmsk" where
  "blend_mask a b_ec ma mb =
     (case try_graphcut_seam a b_ec of
        Some m \<Rightarrow> m
      | None \<Rightarrow> seam_mask ma mb (max (rg_w a) (rg_w b_ec)) (max (rg_h a) (rg_h b_ec)))"

definition blend_pyramids :: "rgba \<Rightarrow> rgba \<Rightarrow> fmsk \<Rightarrow> nat \<Rightarrow> nat \<Rightarrow> rgba" where
  "blend_pyramids a b_ec m w h =
     (let lpa = lap_pyr (gauss_pyr_img (from_rgba a w h)); lpb = lap_pyr (gauss_pyr_img (from_rgba b_ec w h))
      in to_rgba (collapse_lap (map (\<lambda>((la, lb), m). blend_level la lb m) (zip (zip lpa lpb) (gauss_pyr_msk m)))))"

text \<open>The pass that puts back exact pixels, and the one that makes covered pixels opaque.\<close>

definition restore :: "rgba \<Rightarrow> rgba \<Rightarrow> gray_mask \<Rightarrow> gray_mask \<Rightarrow> fmsk \<Rightarrow> rgba \<Rightarrow> rgba" where
  "restore a b_ec ma mb m result =
     result\<lparr>rg_at := \<lambda>x y.
       if above 0 ma x y \<and> (\<not> above 0 mb x y \<or> fl_le (round32 (999 / 1000)) (msk_val m x y)) \<and> in_rgba a x y then rg_at a x y
       else if above 0 mb x y \<and> (\<not> above 0 ma x y \<or> fl_le (msk_val m x y) (round32 (1 / 1000))) \<and> in_rgba b_ec x y then rg_at b_ec x y
       else rg_at result x y\<rparr>"

definition fix_alpha :: "gray_mask \<Rightarrow> gray_mask \<Rightarrow> rgba \<Rightarrow> rgba" where
  "fix_alpha ma mb result =
     result\<lparr>rg_at := \<lambda>x y c. if c = 3 \<and> (above 0 ma x y \<or> above 0 mb x y) then 255 else rg_at result x y c\<rparr>"

definition blend_two :: "rgba \<Rightarrow> rgba \<Rightarrow> gray_mask \<Rightarrow> gray_mask \<Rightarrow> rgba" where
  "blend_two a b ma mb =
     (let w = max (rg_w a) (rg_w b); h = max (rg_h a) (rg_h b); b_ec = exposure_compensate a b ma mb; m = blend_mask a b_ec ma mb
      in fix_alpha ma mb (restore a b_ec ma mb m (blend_pyramids a b_ec m w h)))"

definition blend_pair :: "rgba \<Rightarrow> rgba \<Rightarrow> rgba" where
  "blend_pair base overlay =
     (let w = max (rg_w base) (rg_w overlay); h = max (rg_h base) (rg_h overlay)
      in blend_two base overlay (alpha_mask base w h) (alpha_mask overlay w h))"

section \<open>What blending keeps\<close>

lemma pyramid_size:
  "rg_w (blend_pyramids a b m w h) = w" "rg_h (blend_pyramids a b m w h) = h"
proof -
  have p: "pyr_levels - Suc 0 = Suc (Suc (Suc 0))" by (simp add: pyr_levels_def)
  have l: "\<exists>g2 g3 g4. gauss_pyr_img (from_rgba c w h) = [from_rgba c w h, g2, g3, g4]" for c
    by (simp add: gauss_pyr_img_def p)
  obtain a2 a3 a4 where a: "gauss_pyr_img (from_rgba a w h) = [from_rgba a w h, a2, a3, a4]" using l by blast
  obtain b2 b3 b4 where b: "gauss_pyr_img (from_rgba b w h) = [from_rgba b w h, b2, b3, b4]" using l by blast
  have m: "\<exists>m2 m3 m4. gauss_pyr_msk m = [m, m2, m3, m4]" by (simp add: gauss_pyr_msk_def p)
  then obtain m2 m3 m4 where m: "gauss_pyr_msk m = [m, m2, m3, m4]" by blast
  have f: "fi_w (from_rgba c w h) = w" "fi_h (from_rgba c w h) = h" for c by (simp_all add: from_rgba_def)
  show "rg_w (blend_pyramids a b m w h) = w" "rg_h (blend_pyramids a b m w h) = h"
    by (simp_all add: blend_pyramids_def a b m f to_rgba_def collapse_level_def blend_level_def lap_level_def Let_def)
qed

lemma bound_near:
  assumes "x \<noteq> NaN"
  obtains k where "fl_bound (round32 (3 / 5)) (round32 (8 / 5)) x = Fin k" and "3 / 5 - 1 / 1000000 \<le> k" and "k \<le> 8 / 5 + 1 / 1000000"
proof -
  obtain l where l: "round32 (3 / 5) = Fin l" "\<bar>l - 3 / 5\<bar> \<le> \<bar>3 / 5\<bar> / 16777216 + 1 / 10000000000000000000000000000000000000000"
    by (rule round32_near [of "3 / 5"]) simp_all
  obtain u where u: "round32 (8 / 5) = Fin u" "\<bar>u - 8 / 5\<bar> \<le> \<bar>8 / 5\<bar> / 16777216 + 1 / 10000000000000000000000000000000000000000"
    by (rule round32_near [of "8 / 5"]) simp_all
  have b: "3 / 5 - 1 / 1000000 \<le> l" "l \<le> u" "u \<le> 8 / 5 + 1 / 1000000" using l(2) u(2) by linarith+
  from bound_bounds [OF b(2) assms] obtain v where "fl_bound (Fin l) (Fin u) x = Fin v" "l \<le> v" "v \<le> u" by blast
  with b l(1) u(1) that [of v] show thesis by simp
qed

lemma level_less_256: "unat (v :: byte) < 256"
  using unsigned_less [where 'a = nat, of v] by simp

lemma total_small:
  assumes "ow < 2 ^ 20" and "oh < 2 ^ 20" and "ps = both_covered ma mb ow oh"
  shows "sum_list (map (\<lambda>(x, y). unat (rg_at img x y c)) ps) < 2 ^ 53"
proof -
  have "sum_list (map (\<lambda>(x, y). unat (rg_at img x y c)) qs) \<le> 255 * length qs" for qs
  proof (induction qs)
    case (Cons q qs)
    have "unat (rg_at img (fst q) (snd q) c) < 256" by (rule level_less_256)
    with Cons show ?case by (simp add: case_prod_beta)
  qed simp
  moreover have "length ps \<le> oh * ow"
  proof -
    have "length ps \<le> length (concat (map (\<lambda>y. map (\<lambda>x. (x, y)) [0..<ow]) [0..<oh]))"
      unfolding assms(3) both_covered_def by (rule length_filter_le)
    also have "\<dots> = oh * ow" by (simp add: length_concat o_def sum_list_triv)
    finally show ?thesis .
  qed
  moreover have "oh * ow \<le> 2 ^ 20 * 2 ^ 20" using assms(1,2) by (intro mult_le_mono) simp_all
  ultimately have "sum_list (map (\<lambda>(x, y). unat (rg_at img x y c)) ps) \<le> 255 * (2 ^ 20 * 2 ^ 20)"
    by (meson mult_le_mono2 order.trans)
  then show ?thesis by simp
qed

lemma gain_bounds:
  assumes "ow < 2 ^ 20" and "oh < 2 ^ 20" and "ps = both_covered ma mb ow oh"
  obtains k where "gain a b ps c = Fin k" and "3 / 5 - 1 / 1000000 \<le> k" and "k \<le> 8 / 5 + 1 / 1000000"
proof -
  define n where "n img = sum_list (map (\<lambda>(x, y). unat (rg_at img x y c)) ps)" for img :: rgba
  have r: "round32 q \<noteq> NaN" "round64 q \<noteq> NaN" for q by (simp_all add: round32_def round64_def round_fl_def Let_def)
  have e: "f_of_int (int (n img)) = Fin (of_nat (n img))" for img
    using f_of_int_exact [of "int (n img)"] total_small [OF assms, of img c] by (simp add: n_def)
  define q where "q = (case f_div (f_of_int (int (n a))) (f_of_int (int (n b))) of Fin q \<Rightarrow> round32 q | q \<Rightarrow> q)"
  have q: "q \<noteq> NaN" if "n b \<noteq> 0"
    using that r by (auto simp: q_def e split: fl.split)
  have g: "gain a b ps c = fl_bound (round32 (3 / 5)) (round32 (8 / 5)) (if n b = 0 then Fin 1 else q)"
    by (simp add: gain_def n_def [symmetric] q_def)
  show thesis
    by (rule bound_near [of "if n b = 0 then Fin 1 else q"]) (use q g that in \<open>auto split: if_splits\<close>)
qed

lemma gained_bounds:
  assumes "3 / 5 - 1 / 1000000 \<le> k" and "k \<le> 8 / 5 + 1 / (1000000 :: rat)"
  shows "3 / 5 * of_nat (unat v) - 1 - 1 / 1000 \<le> (of_nat (unat (gained (Fin k) v)) :: rat)"
    and "(of_nat (unat (gained (Fin k) v)) :: rat) \<le> 8 / 5 * of_nat (unat v) + 1 / 1000"
proof -
  define n where "n = (of_nat (unat v) :: rat)"
  have "unat v \<le> 255" using level_less_256 [of v] by simp
  then have "(of_nat (unat v) :: rat) \<le> of_nat 255" by (simp only: of_nat_le_iff)
  then have n: "0 \<le> n" "n \<le> 255" unfolding n_def by (simp_all only: of_nat_numeral of_nat_0_le_iff)
  have gn: "g_of_nat (unat v) = Fin n" using g_of_nat_exact [of "unat v"] \<open>unat v \<le> 255\<close> by (simp add: n_def)
  define w where "w = n * k"
  have w: "3 / 5 * n - 255 / 1000000 \<le> w" "w \<le> 8 / 5 * n + 255 / 1000000" "0 \<le> w"
    using mult_left_mono [OF assms(1) n(1)] mult_left_mono [OF assms(2) n(1)] n assms by (simp_all add: w_def algebra_simps)
  obtain z where z: "round32 w = Fin z" "\<bar>z - w\<bar> \<le> \<bar>w\<bar> / 16777216 + 1 / 10000000000000000000000000000000000000000"
    by (rule round32_near [of w]) (use w n in linarith)
  have z0: "0 \<le> z"
  proof -
    have "0 \<le> round_val 24 (- 126) w" using w(3) by (rule round_val_nonneg)
    with z(1) show ?thesis by (simp add: round32_def round_fl_def Let_def split: if_splits)
  qed
  define b where "b = min 255 z"
  have b: "0 \<le> b" "b \<le> 255" "b \<le> z" "min 255 z \<le> b" using z0 by (simp_all add: b_def)
  define m where "m = nat \<lfloor>b\<rfloor>"
  have m: "of_nat m \<le> b" "b < of_nat m + 1" using b(1) by (simp_all add: m_def) linarith+
  have "(of_nat m :: rat) \<le> of_nat 255" using m(1) b(2) by simp
  then have m255: "m \<le> 255" by (simp only: of_nat_le_iff)
  have "fl_bound (Fin 0) (Fin 255) (Fin z) = Fin b" using z0 by (auto simp: fl_bound_def b_def)
  moreover have "f_to_u32 (Fin b) = m"
  proof -
    have "trunc b = int m" using b(1) by (simp add: trunc_def m_def)
    with m255 show ?thesis by (simp add: u32_max_def)
  qed
  ultimately have "gained (Fin k) v = of_nat m" using gn z(1) m255 by (simp add: gained_def g_mul_def w_def mult.commute)
  then have u: "unat (gained (Fin k) v) = m" using m255 by (simp add: unat_of_nat)
  have "z \<le> 8 / 5 * n + 1 / 1000" "3 / 5 * n - 1 / 1000 \<le> z" using z(2) w n by linarith+
  then have "b \<le> 8 / 5 * n + 1 / 1000" "3 / 5 * n - 1 / 1000 \<le> b" using b n by (auto simp: b_def)
  then show "3 / 5 * of_nat (unat v) - 1 - 1 / 1000 \<le> (of_nat (unat (gained (Fin k) v)) :: rat)"
    "(of_nat (unat (gained (Fin k) v)) :: rat) \<le> 8 / 5 * of_nat (unat v) + 1 / 1000"
    unfolding u n_def [symmetric] using m by linarith+
qed

text \<open>A pixel that is not fully transparent.\<close>

definition shown :: "rgba \<Rightarrow> nat \<Rightarrow> nat \<Rightarrow> bool" where
  "shown img x y \<longleftrightarrow> in_rgba img x y \<and> 0 < rg_at img x y 3"

lemma shown_in: "shown img x y \<Longrightarrow> in_rgba img x y"
  by (simp add: shown_def)

lemma above_alpha:
  "x < w \<Longrightarrow> y < h \<Longrightarrow> above 0 (alpha_mask img w h) x y \<longleftrightarrow> shown img x y"
  by (auto simp: above_def alpha_mask_def shown_def)

lemma exposure_size:
  "rg_w (exposure_compensate a b ma mb) = rg_w b" "rg_h (exposure_compensate a b ma mb) = rg_h b"
  by (simp_all add: exposure_compensate_def Let_def)

definition within_exposure :: "byte \<Rightarrow> byte \<Rightarrow> bool" where
  "within_exposure v v' \<longleftrightarrow>
     3 / 5 * of_nat (unat v) - 1 - 1 / 1000 \<le> (of_nat (unat v') :: rat)
     \<and> (of_nat (unat v') :: rat) \<le> 8 / 5 * of_nat (unat v) + 1 / 1000"

lemma within_same: "within_exposure v v"
proof -
  define n where "n = (of_nat (unat v) :: rat)"
  have "0 \<le> n" unfolding n_def by (rule of_nat_0_le_iff)
  then show ?thesis unfolding within_exposure_def n_def [symmetric] by linarith
qed

lemma exposure_within:
  assumes "rg_w b < 2 ^ 20" and "rg_h b < 2 ^ 20" and "c < 3"
  shows "within_exposure (rg_at b x y c) (rg_at (exposure_compensate a b ma mb) x y c)"
proof -
  define ow where "ow = min (min (min (rg_w a) (gm_w ma)) (rg_w b)) (gm_w mb)"
  define oh where "oh = min (min (min (rg_h a) (gm_h ma)) (rg_h b)) (gm_h mb)"
  have s: "ow < 2 ^ 20" "oh < 2 ^ 20" using assms(1,2) by (simp_all add: ow_def oh_def)
  obtain k where k: "gain a b (both_covered ma mb ow oh) c = Fin k" "3 / 5 - 1 / 1000000 \<le> k" "k \<le> 8 / 5 + 1 / 1000000"
    by (rule gain_bounds [OF s refl])
  have "within_exposure (rg_at b x y c) (gained (Fin k) (rg_at b x y c))"
    unfolding within_exposure_def using gained_bounds [OF k(2,3)] by blast
  with k(1) within_same show ?thesis
    using assms(3) by (auto simp: exposure_compensate_def Let_def ow_def [symmetric] oh_def [symmetric])
qed

lemma blend_parts:
  fixes a b
  defines "w \<equiv> max (rg_w a) (rg_w b)" and "h \<equiv> max (rg_h a) (rg_h b)"
  obtains p m where "rg_w p = w" and "rg_h p = h"
    and "blend_pair a b = fix_alpha (alpha_mask a w h) (alpha_mask b w h)
           (restore a (exposure_compensate a b (alpha_mask a w h) (alpha_mask b w h)) (alpha_mask a w h) (alpha_mask b w h) m p)"
  by (rule that [OF pyramid_size]) (simp add: blend_pair_def blend_two_def Let_def w_def h_def)

lemma blend_size: "rg_w (blend_pair a b) = max (rg_w a) (rg_w b)" "rg_h (blend_pair a b) = max (rg_h a) (rg_h b)"
proof -
  obtain p m where "rg_w p = max (rg_w a) (rg_w b)" "rg_h p = max (rg_h a) (rg_h b)"
    and "blend_pair a b = fix_alpha (alpha_mask a (max (rg_w a) (rg_w b)) (max (rg_h a) (rg_h b)))
        (alpha_mask b (max (rg_w a) (rg_w b)) (max (rg_h a) (rg_h b)))
        (restore a (exposure_compensate a b (alpha_mask a (max (rg_w a) (rg_w b)) (max (rg_h a) (rg_h b)))
            (alpha_mask b (max (rg_w a) (rg_w b)) (max (rg_h a) (rg_h b))))
          (alpha_mask a (max (rg_w a) (rg_w b)) (max (rg_h a) (rg_h b))) (alpha_mask b (max (rg_w a) (rg_w b)) (max (rg_h a) (rg_h b))) m p)"
    by (rule blend_parts)
  then show "rg_w (blend_pair a b) = max (rg_w a) (rg_w b)" "rg_h (blend_pair a b) = max (rg_h a) (rg_h b)"
    by (simp_all add: fix_alpha_def restore_def)
qed

lemma blend_at:
  assumes "x < max (rg_w a) (rg_w b)" and "y < max (rg_h a) (rg_h b)"
  shows "shown a x y \<or> shown b x y \<Longrightarrow> rg_at (blend_pair a b) x y 3 = 255"
    and "shown a x y \<Longrightarrow> \<not> shown b x y \<Longrightarrow> c < 3 \<Longrightarrow> rg_at (blend_pair a b) x y c = rg_at a x y c"
    and "shown b x y \<Longrightarrow> \<not> shown a x y \<Longrightarrow> c < 3 \<Longrightarrow> rg_w b < 2 ^ 20 \<Longrightarrow> rg_h b < 2 ^ 20 \<Longrightarrow>
           within_exposure (rg_at b x y c) (rg_at (blend_pair a b) x y c)"
proof -
  define w where "w = max (rg_w a) (rg_w b)"
  define h where "h = max (rg_h a) (rg_h b)"
  define ma where "ma = alpha_mask a w h"
  define mb where "mb = alpha_mask b w h"
  define b' where "b' = exposure_compensate a b ma mb"
  obtain p m where r: "blend_pair a b = fix_alpha ma mb (restore a b' ma mb m p)"
    unfolding b'_def ma_def mb_def w_def h_def by (rule blend_parts)
  have vis: "above 0 ma x y \<longleftrightarrow> shown a x y" "above 0 mb x y \<longleftrightarrow> shown b x y"
    unfolding ma_def mb_def by (rule above_alpha; use assms in \<open>simp add: w_def h_def\<close>)+
  have in_b': "in_rgba b' x y \<longleftrightarrow> in_rgba b x y" by (simp add: in_rgba_def b'_def exposure_size)
  show "shown a x y \<or> shown b x y \<Longrightarrow> rg_at (blend_pair a b) x y 3 = 255" using vis by (simp add: r fix_alpha_def)
  show "shown a x y \<Longrightarrow> \<not> shown b x y \<Longrightarrow> c < 3 \<Longrightarrow> rg_at (blend_pair a b) x y c = rg_at a x y c"
    using vis shown_in [of a x y] by (simp add: r fix_alpha_def restore_def)
  assume s: "shown b x y" "\<not> shown a x y" "c < 3" and b: "rg_w b < 2 ^ 20" "rg_h b < 2 ^ 20"
  have "rg_at (blend_pair a b) x y c = rg_at b' x y c"
    using s vis in_b' shown_in [of b x y] by (simp add: r fix_alpha_def restore_def)
  moreover have "within_exposure (rg_at b x y c) (rg_at b' x y c)" unfolding b'_def by (rule exposure_within [OF b s(3)])
  ultimately show "within_exposure (rg_at b x y c) (rg_at (blend_pair a b) x y c)" by simp
qed

text \<open>
  C30: Blending never touches what only one picture shows. Where the first picture alone is visible the result has its exact
  colours; where the second alone is visible it has its colours with a gain between 0.6 and 1.6 (one level of truncation);
  every visible pixel becomes opaque; and the canvas is the smallest that holds both. So exposure, seams and the pyramid
  only ever change the overlap.
\<close>

theorem blend_keeps_sources:
  assumes "rg_w b < 2 ^ 20" and "rg_h b < 2 ^ 20"
  shows "rg_w (blend_pair a b) = max (rg_w a) (rg_w b) \<and> rg_h (blend_pair a b) = max (rg_h a) (rg_h b)
     \<and> (\<forall>x y. x < max (rg_w a) (rg_w b) \<longrightarrow> y < max (rg_h a) (rg_h b) \<longrightarrow>
          (shown a x y \<or> shown b x y \<longrightarrow> rg_at (blend_pair a b) x y 3 = 255)
          \<and> (shown a x y \<and> \<not> shown b x y \<longrightarrow> (\<forall>c < 3. rg_at (blend_pair a b) x y c = rg_at a x y c))
          \<and> (shown b x y \<and> \<not> shown a x y \<longrightarrow> (\<forall>c < 3. within_exposure (rg_at b x y c) (rg_at (blend_pair a b) x y c))))"
proof (intro conjI allI impI; (elim conjE)?)
  fix x y
  assume "x < max (rg_w a) (rg_w b)" and "y < max (rg_h a) (rg_h b)"
  note at = blend_at [OF this]
  show "rg_at (blend_pair a b) x y 3 = 255" if "shown a x y \<or> shown b x y" using that by (rule at(1))
  show "rg_at (blend_pair a b) x y c = rg_at a x y c" if "shown a x y" "\<not> shown b x y" "c < 3" for c using that by (rule at(2))
  show "within_exposure (rg_at b x y c) (rg_at (blend_pair a b) x y c)" if "shown b x y" "\<not> shown a x y" "c < 3" for c
    using that assms by (rule at(3))
qed (rule blend_size)+

text \<open>A red pixel, and a picture of two pixels of which only the second is visible.\<close>

definition red_dot :: rgba where
  "red_dot = \<lparr>rg_w = 1, rg_h = 1, rg_at = \<lambda>_ _ c. if c = 0 \<or> c = 3 then 255 else 0\<rparr>"

definition half_blue :: rgba where
  "half_blue = \<lparr>rg_w = 2, rg_h = 1, rg_at = \<lambda>x _ c. if x = 1 \<and> (c = 2 \<or> c = 3) then 255 else 0\<rparr>"

theorem blend_keeps_sources_witness:
  "rg_w (blend_pair red_dot half_blue) = 2 \<and> rg_at (blend_pair red_dot half_blue) 0 0 0 = 255
   \<and> rg_at (blend_pair red_dot half_blue) 0 0 3 = 255 \<and> within_exposure 255 (rg_at (blend_pair red_dot half_blue) 1 0 2)"
proof -
  have s: "shown red_dot 0 0" "\<not> shown half_blue 0 0" "shown half_blue 1 0" "\<not> shown red_dot 1 0"
    by (simp_all add: shown_def in_rgba_def red_dot_def half_blue_def)
  have d: "max (rg_w red_dot) (rg_w half_blue) = 2" "max (rg_h red_dot) (rg_h half_blue) = 1" by (simp_all add: red_dot_def half_blue_def)
  have v: "rg_at red_dot 0 0 0 = 255" "rg_at half_blue 1 0 2 = 255" by (simp_all add: red_dot_def half_blue_def)
  have "rg_w half_blue < 2 ^ 20" "rg_h half_blue < 2 ^ 20" by (simp_all add: half_blue_def)
  note t = blend_keeps_sources [OF this, of red_dot, unfolded d]
  have w: "rg_w (blend_pair red_dot half_blue) = 2" using t by blast
  have at: "(shown red_dot x 0 \<or> shown half_blue x 0 \<longrightarrow> rg_at (blend_pair red_dot half_blue) x 0 3 = 255)
      \<and> (shown red_dot x 0 \<and> \<not> shown half_blue x 0 \<longrightarrow> (\<forall>c < 3. rg_at (blend_pair red_dot half_blue) x 0 c = rg_at red_dot x 0 c))
      \<and> (shown half_blue x 0 \<and> \<not> shown red_dot x 0 \<longrightarrow>
           (\<forall>c < 3. within_exposure (rg_at half_blue x 0 c) (rg_at (blend_pair red_dot half_blue) x 0 c)))" if "x < 2" for x
    using t that by simp
  have "\<forall>c < 3. within_exposure (rg_at half_blue 1 0 c) (rg_at (blend_pair red_dot half_blue) 1 0 c)" using at [of 1] s by simp
  then have "within_exposure (rg_at half_blue 1 0 2) (rg_at (blend_pair red_dot half_blue) 1 0 2)" by (metis less_numeral_simps(3) numeral_3_eq_3 numeral_2_eq_2 lessI)
  moreover have "rg_at (blend_pair red_dot half_blue) 0 0 0 = 255" "rg_at (blend_pair red_dot half_blue) 0 0 3 = 255"
    using at [of 0] s v(1) by simp_all
  ultimately show ?thesis unfolding v(2) using w by blast
qed

end
