(* ===== verification/Pair_Stitch.thy ===== *)
theory Pair_Stitch
  imports Pyramid_Blend
begin

text \<open>
  Landscapes: warping a frame into the growing picture and the order of the methods, the first half of
  \<^verbatim>\<open>crates/frame-forge/src/stitch_landscape.rs\<close>. A frame is its RGBA picture. Sides are positive and below \<open>2 ^ 26\<close>, so that
  the products of \<^verbatim>\<open>i32\<close> and \<^verbatim>\<open>u32\<close> sides do not wrap.
\<close>

section \<open>Surroundings\<close>

text \<open>
  OpenCV, besides \<open>cv_env\<close>: \<open>se_mat\<close> is \<^verbatim>\<open>image_to_mat\<close>, which copies the bytes into a new matrix; \<open>se_warp img m w h\<close> is
  \<^verbatim>\<open>warp_perspective\<close>, \<open>se_invert\<close> the inverse by SVD; \<open>se_stitch\<close> is the panorama stitcher on two pictures, \<open>None\<close> for any
  status but OK; \<open>se_pixels\<close> gives columns, rows and bytes of a matrix; \<open>se_alloc\<close> tells whether a matrix of three rows can
  be allocated. \<open>se_sift\<close> gives points with their descriptors, \<open>se_match\<close> the cross-checked matches. Of the \<^verbatim>\<open>image\<close> crate:
  \<open>se_overlay canvas top x y\<close> and \<open>se_luma\<close>. \<open>se_cos\<close> and \<open>se_tan\<close> are the standard library's.
\<close>

record ('s, 'm) stitch_env =
  se_cv :: "('s, 'm) cv_env"
  se_mat :: "rgba \<Rightarrow> 'm"
  se_invert :: "homography \<Rightarrow> string + homography"
  se_warp :: "'m \<Rightarrow> homography \<Rightarrow> nat \<Rightarrow> nat \<Rightarrow> string + rgba"
  se_alloc :: bool
  se_overlay :: "rgba \<Rightarrow> rgba \<Rightarrow> int \<Rightarrow> int \<Rightarrow> rgba"
  se_luma :: "rgba \<Rightarrow> gray"
  se_to_bgr :: "'m \<Rightarrow> string + 'm"
  se_stitch :: "'m \<Rightarrow> 'm \<Rightarrow> string + 'm option"
  se_to_rgba :: "'m \<Rightarrow> string + 'm"
  se_pixels :: "'m \<Rightarrow> nat \<times> nat \<times> (string + byte list)"
  se_sift :: "'m \<Rightarrow> string + (fl \<times> fl) list \<times> 'm"
  se_match :: "'m \<Rightarrow> 'm \<Rightarrow> string + (int \<times> int) list"
  se_fourier :: fourier
  se_cos :: "fl \<Rightarrow> fl"
  se_tan :: "fl \<Rightarrow> fl"

definition blank :: "nat \<Rightarrow> nat \<Rightarrow> rgba" where
  "blank w h = \<lparr>rg_w = w, rg_h = h, rg_at = \<lambda>_ _ _. 0\<rparr>"

section \<open>Warping\<close>

definition warp_image :: "('s, 'm) stitch_env \<Rightarrow> 'm \<Rightarrow> homography \<Rightarrow> nat \<Rightarrow> nat \<Rightarrow> rgba" where
  "warp_image env img h width height =
     (case se_warp env img h width height of
        Inl _ \<Rightarrow> blank width height
      | Inr warped \<Rightarrow>
          \<lparr>rg_w = width, rg_h = height,
           rg_at = \<lambda>x y c. if x < min width (rg_w warped) \<and> y < min height (rg_h warped) then rg_at warped x y c else 0\<rparr>)"

definition project :: "homography \<Rightarrow> fl \<times> fl \<Rightarrow> fl \<times> fl" where
  "project m p =
     (case p of (vx, vy) \<Rightarrow>
        let row = (\<lambda>r. f_add (f_add (f_mul (h_at m r 0) vx) (f_mul (h_at m r 1) vy)) (h_at m r 2));
            d = fl_max (row 2) (round64 (1 / 100000000))
        in (f_div (row 0) d, f_div (row 1) d))"

text \<open>The corners of the new frame in the picture.\<close>

definition corners :: "homography \<Rightarrow> nat \<Rightarrow> nat \<Rightarrow> nat \<Rightarrow> (fl \<times> fl) list" where
  "corners h_inv bw cw ch =
     (let most = f_of_int (int (max bw cw) * 4); lim = (\<lambda>v. fl_bound (fl_neg most) most v);
          xs = f_sub (f_of_int (int cw)) (Fin 1); ys = f_sub (f_of_int (int ch)) (Fin 1)
      in map (\<lambda>p. case project h_inv p of (vx, vy) \<Rightarrow> (lim vx, lim vy)) [(Fin 0, Fin 0), (xs, Fin 0), (Fin 0, ys), (xs, ys)])"

definition too_far :: "(fl \<times> fl) list \<Rightarrow> nat \<Rightarrow> nat \<Rightarrow> bool" where
  "too_far pts bw cw \<longleftrightarrow>
     (let reject = f_of_int (int (max bw cw) * 2) in \<exists>(x, y) \<in> set pts. fl_less reject (fl_abs x) \<or> fl_less reject (fl_abs y))"

text \<open>The least and the greatest whole coordinate of a side, and the length a canvas gets.\<close>

definition least_coord :: "fl list \<Rightarrow> nat \<Rightarrow> int" where
  "least_coord vs side = f_to_i32 (f_floor (foldl fl_min PInf (vs @ [Fin 0, f_sub (f_of_int (int side)) (Fin 1)])))"

definition greatest_coord :: "fl list \<Rightarrow> nat \<Rightarrow> int" where
  "greatest_coord vs side = f_to_i32 (f_ceil (foldl fl_max NInf (vs @ [Fin 0, f_sub (f_of_int (int side)) (Fin 1)])))"

definition offset_of :: "fl list \<Rightarrow> nat \<Rightarrow> int" where
  "offset_of vs side = max 0 (- least_coord vs side)"

definition canvas_len :: "fl list \<Rightarrow> nat \<Rightarrow> nat \<Rightarrow> nat" where
  "canvas_len vs base_side curr_side =
     min (min (nat (max 1 (greatest_coord vs base_side - least_coord vs base_side + 1))) (base_side * 3)) (curr_side * 20)"

text \<open>The inverse homography, moved by the offset.\<close>

definition moved :: "homography \<Rightarrow> fl \<Rightarrow> fl \<Rightarrow> homography" where
  "moved h ox oy =
     \<lparr>ho_rows = 3, ho_empty = False,
      ho_at = \<lambda>r c. if r < 3 \<and> c < 3
        then Some (if r = 0 then f_add (h_at h 0 c) (f_mul ox (h_at h 2 c))
                   else if r = 1 then f_add (h_at h 1 c) (f_mul oy (h_at h 2 c)) else h_at h 2 c)
        else None\<rparr>"

definition warp_expand_blend ::
  "('s, 'm) stitch_env \<Rightarrow> rgba \<Rightarrow> 'm \<Rightarrow> homography \<Rightarrow> nat \<Rightarrow> nat \<Rightarrow> nat \<Rightarrow> nat \<Rightarrow> rgba" where
  "warp_expand_blend env base cur homo bw bh cw ch =
     (case se_invert env homo of
        Inl _ \<Rightarrow> blend_pair base (warp_image env cur homo bw bh)
      | Inr h_inv \<Rightarrow>
          (let pts = corners h_inv bw cw ch; xs = map fst pts; ys = map snd pts
           in if too_far pts bw cw then blend_pair base (warp_image env cur h_inv bw bh)
              else
                (let off_x = offset_of xs bw; off_y = offset_of ys bh;
                     canvas_w = canvas_len xs bw cw; canvas_h = canvas_len ys bh ch;
                     canvas_base = se_overlay env (blank canvas_w canvas_h) base off_x off_y
                 in if se_alloc env
                    then blend_pair canvas_base
                           (warp_image env cur (moved h_inv (f_of_int off_x) (f_of_int off_y)) canvas_w canvas_h)
                    else blend_pair base (warp_image env cur h_inv bw bh))))"

section \<open>Translations\<close>

text \<open>\<^verbatim>\<open>median_f32\<close>; sorting is stable and takes incomparable values for equal, so on numbers it is \<open>sort\<close>.\<close>

fun insert_f32 :: "fl \<Rightarrow> fl list \<Rightarrow> fl list" where
  "insert_f32 v [] = [v]"
| "insert_f32 v (w # ws) = (if fl_less w v then w # insert_f32 v ws else v # w # ws)"

definition sort_f32 :: "fl list \<Rightarrow> fl list" where
  "sort_f32 vs = foldr insert_f32 vs []"

definition median_f32 :: "fl list \<Rightarrow> fl" where
  "median_f32 vs =
     (let v = sort_f32 vs; n = length v
      in if n = 0 then Fin 0
         else if n mod 2 = 0 then g_div (g_add (v ! (n div 2 - 1)) (v ! (n div 2))) (Fin 2) else v ! (n div 2))"

text \<open>The displacement of a match, none when an index is negative or out of range.\<close>

definition displacement :: "(fl \<times> fl) list \<Rightarrow> (fl \<times> fl) list \<Rightarrow> int \<times> int \<Rightarrow> (fl \<times> fl) option" where
  "displacement kp1 kp2 m =
     (case m of (q, t) \<Rightarrow>
        if q < 0 \<or> t < 0 then None
        else (case (slice_get kp1 (as_usize q), slice_get kp2 (as_usize t)) of
                (Some (x1, y1), Some (x2, y2)) \<Rightarrow> Some (g_sub x1 x2, g_sub y1 y2)
              | _ \<Rightarrow> None))"

text \<open>\<^verbatim>\<open>displacement_filter\<close>, which nothing calls: matches near the median displacement, here from the first to the second.\<close>

definition forward_shift :: "(fl \<times> fl) list \<Rightarrow> (fl \<times> fl) list \<Rightarrow> int \<times> int \<Rightarrow> (fl \<times> fl) option" where
  "forward_shift kp1 kp2 m = (case m of (q, t) \<Rightarrow> displacement kp2 kp1 (t, q))"

definition displacement_filter ::
  "(int \<times> int) list \<Rightarrow> (fl \<times> fl) list \<Rightarrow> (fl \<times> fl) list \<Rightarrow> fl \<Rightarrow> (int \<times> int) list" where
  "displacement_filter mv kp1 kp2 tolerance =
     (let ds = List.map_filter (forward_shift kp1 kp2) mv
      in if length ds < 4 then mv
         else (let mdx = median_f32 (map fst ds); mdy = median_f32 (map snd ds)
               in filter (\<lambda>m. case forward_shift kp1 kp2 m of
                     None \<Rightarrow> False
                   | Some (dx, dy) \<Rightarrow> fl_less (fl_abs (g_sub dx mdx)) tolerance \<and> fl_less (fl_abs (g_sub dy mdy)) tolerance) mv))"

definition sift_translation_estimate :: "('s, 'm) stitch_env \<Rightarrow> 'm \<Rightarrow> 'm \<Rightarrow> (int \<times> int) option" where
  "sift_translation_estimate env img1 img2 =
     (case (cv_cvt_color (se_cv env) 4 img1, cv_cvt_color (se_cv env) 4 img2) of
        (Inr gray1, Inr gray2) \<Rightarrow>
          (case (se_sift env gray1, se_sift env gray2) of
             (Inr (kp1, desc1), Inr (kp2, desc2)) \<Rightarrow>
               if length kp1 < 4 \<or> length kp2 < 4 \<or> cv_empty (se_cv env) desc1 \<or> cv_empty (se_cv env) desc2 then None
               else
                 (case se_match env desc1 desc2 of
                    Inl _ \<Rightarrow> None
                  | Inr raw \<Rightarrow>
                      if length raw < 4 then None
                      else
                        (let ds = List.map_filter (displacement kp1 kp2) raw
                         in if length ds < 4 then None
                            else Some (f_to_i32 (median_f32 (map fst ds)), f_to_i32 (median_f32 (map snd ds)))))
           | _ \<Rightarrow> None)
      | _ \<Rightarrow> None)"

definition translation :: "int \<Rightarrow> int \<Rightarrow> homography" where
  "translation dx dy =
     \<lparr>ho_rows = 3, ho_empty = False,
      ho_at = \<lambda>r c. if r < 3 \<and> c < 3
        then Some (if r = c then Fin 1 else if r = 0 \<and> c = 2 then fl_neg (f_of_int dx)
                   else if r = 1 \<and> c = 2 then fl_neg (f_of_int dy) else Fin 0)
        else None\<rparr>"

definition side_by_side :: "('s, 'm) stitch_env \<Rightarrow> rgba \<Rightarrow> rgba \<Rightarrow> int \<Rightarrow> int \<Rightarrow> rgba" where
  "side_by_side env result img dx dy =
     (let base_ox = max 0 (- dx); base_oy = max 0 (- dy); curr_ox = max 0 dx; curr_oy = max 0 dy;
          canvas_w = nat (max (base_ox + int (rg_w result)) (curr_ox + int (rg_w img)));
          canvas_h = nat (max (base_oy + int (rg_h result)) (curr_oy + int (rg_h img)))
      in se_overlay env (se_overlay env (blank canvas_w canvas_h) result base_ox base_oy) img curr_ox curr_oy)"

text \<open>The blend at a translation, or the two pictures on one canvas when no matrix can be allocated.\<close>

definition blend_translated :: "('s, 'm) stitch_env \<Rightarrow> rgba \<Rightarrow> rgba \<Rightarrow> 'm \<Rightarrow> int \<Rightarrow> int \<Rightarrow> rgba" where
  "blend_translated env result img cur dx dy =
     (if se_alloc env then warp_expand_blend env result cur (translation dx dy) (rg_w result) (rg_h result) (rg_w img) (rg_h img)
      else side_by_side env result img dx dy)"

section \<open>The panorama stitcher of OpenCV\<close>

definition rgba_from_raw :: "nat \<Rightarrow> nat \<Rightarrow> byte list \<Rightarrow> rgba option" where
  "rgba_from_raw w h raw =
     (if length raw < w * h * 4 then None
      else Some \<lparr>rg_w = w, rg_h = h, rg_at = \<lambda>x y c. raw ! ((y * w + x) * 4 + c)\<rparr>)"

definition stitch_with_opencv_panorama :: "('s, 'm) stitch_env \<Rightarrow> 'm \<Rightarrow> 'm \<Rightarrow> string + rgba" where
  "stitch_with_opencv_panorama env mat_a mat_b =
     (case (se_to_bgr env mat_a, se_to_bgr env mat_b) of
        (Inr a, Inr b) \<Rightarrow>
          (case se_stitch env a b of
             Inr (Some result) \<Rightarrow>
               (case se_to_rgba env result of
                  Inr m \<Rightarrow>
                    (case se_pixels env m of
                       (cols, rows, Inr raw) \<Rightarrow>
                         (case rgba_from_raw cols rows raw of
                            Some img \<Rightarrow> Inr img | None \<Rightarrow> Inl ''failed to convert Stitcher Mat to RgbaImage'')
                     | (_, _, Inl e) \<Rightarrow> Inl e)
                | Inl e \<Rightarrow> Inl e)
           | Inr None \<Rightarrow> Inl ''Stitcher failed''
           | Inl e \<Rightarrow> Inl e)
      | (Inl e, _) \<Rightarrow> Inl e
      | (_, Inl e) \<Rightarrow> Inl e)"

section \<open>Cylinders\<close>

definition cylindrical_project :: "('s, 'm) stitch_env \<Rightarrow> rgba \<Rightarrow> fl \<Rightarrow> rgba" where
  "cylindrical_project env img f =
     (let w = f_of_int (int (rg_w img)); h = f_of_int (int (rg_h img)); cx = f_div w (Fin 2); cy = f_div h (Fin 2);
          theta = (\<lambda>x. f_div (f_sub (f_of_int (int x)) cx) f);
          hs = (\<lambda>x. fl_max (se_cos env (theta x)) (round64 (1 / 100)));
          sx = (\<lambda>x. f_to_u32 (fl_bound (Fin 0) (f_sub w (Fin 1)) (f_add cx (f_mul f (se_tan env (theta x))))));
          sy = (\<lambda>x y. f_to_u32 (fl_bound (Fin 0) (f_sub h (Fin 1)) (f_add cy (f_div (f_sub (f_of_int (int y)) cy) (hs x)))))
      in \<lparr>rg_w = rg_w img, rg_h = rg_h img, rg_at = \<lambda>x y. rg_at img (sx x) (sy x y)\<rparr>)"

section \<open>The landscape stitcher\<close>

definition grown :: "nat \<Rightarrow> nat" where
  "grown side = f_to_u32 (f_mul (f_of_int (int side)) (round64 (11 / 10)))"

text \<open>
  One frame: homography, then the panorama stitcher, then a translation. The outer \<open>None\<close> is a panic of a matcher; nothing
  else fails.
\<close>

definition landscape_step ::
  "('s, 'm) stitch_env \<Rightarrow> 's any_matcher option \<Rightarrow> rgba \<Rightarrow> rgba \<times> 's mstate \<Rightarrow> (rgba \<times> 's mstate) option" where
  "landscape_step env per_req img acc =
     (case acc of (result, st) \<Rightarrow>
        let prev = se_mat env result; cur = se_mat env img; pw = rg_w result; ph = rg_h result; cw = rg_w img; ch = rg_h img;
            others = (case stitch_with_opencv_panorama env prev cur of
                        Inr stitched \<Rightarrow> stitched
                      | Inl _ \<Rightarrow>
                          (case (case sift_translation_estimate env prev cur of
                                   Some d \<Rightarrow> d
                                 | None \<Rightarrow> (case phase_correlate (se_fourier env) (se_luma env result) (se_luma env img) of
                                              (pdx, pdy, _) \<Rightarrow> (pdx, pdy))) of
                             (dx, dy) \<Rightarrow> blend_translated env result img cur dx dy))
        in case estimate_pair (se_cv env) prev cur per_req st of
             (None, _) \<Rightarrow> None
           | (Some (Inl _), st) \<Rightarrow> Some (others, st)
           | (Some (Inr homo), st) \<Rightarrow>
               (let stitched = warp_expand_blend env result cur homo pw ph cw ch
                in Some (if grown (max pw cw) \<le> rg_w stitched then stitched else others, st)))"

text \<open>A fold whose steps may panic.\<close>

fun opt_fold :: "('a \<Rightarrow> 's \<Rightarrow> 's option) \<Rightarrow> 'a list \<Rightarrow> 's \<Rightarrow> 's option" where
  "opt_fold f [] s = Some s"
| "opt_fold f (x # xs) s = (case f x s of None \<Rightarrow> None | Some s \<Rightarrow> opt_fold f xs s)"

text \<open>The result with the reports of progress: pairs done, of how many.\<close>

definition stitch_landscape ::
  "('s, 'm) stitch_env \<Rightarrow> rgba list \<Rightarrow> 's any_matcher option \<Rightarrow> 's mstate \<Rightarrow>
     (string + rgba \<times> 's mstate \<times> (nat \<times> nat) list) option" where
  "stitch_landscape env frames per_req st =
     (if length frames < 2 then fails ''need at least 2 frames''
      else
        (let f = f_of_int (int (rg_w (frames ! 0)));
             images = map (\<lambda>img. if 5 < length frames then cylindrical_project env img f else img) frames
         in case opt_fold (landscape_step env per_req) (tl images) (hd images, st) of
              None \<Rightarrow> None
            | Some (result, st) \<Rightarrow> yields (result, st, map (\<lambda>i. (i, length images - 1)) [1..<length images])))"

section \<open>The canvas\<close>

text \<open>A coordinate that is no number is ignored by the folds; any other one that is not rejected is near.\<close>

definition near_or_nan :: "int \<Rightarrow> fl \<Rightarrow> bool" where
  "near_or_nan r v \<longleftrightarrow> v = NaN \<or> (\<exists>q. v = Fin q \<and> \<bar>q\<bar> \<le> of_int r)"

lemma near_coordinates:
  assumes "\<not> too_far pts bw cw" and "max bw cw < 2 ^ 26" and "p \<in> set pts"
  shows "near_or_nan (2 * int (max bw cw)) (fst p)" "near_or_nan (2 * int (max bw cw)) (snd p)"
proof -
  have r: "f_of_int (int (max bw cw) * 2) = Fin (of_int (2 * int (max bw cw)))"
    using f_of_int_exact [of "int (max bw cw) * 2"] assms(2) by (simp add: mult.commute)
  have "near_or_nan (2 * int (max bw cw)) v" if "\<not> fl_less (f_of_int (int (max bw cw) * 2)) (fl_abs v)" for v
    using that unfolding r near_or_nan_def by (cases v) (simp_all add: not_less)
  moreover from assms(1,3) have "\<not> fl_less (f_of_int (int (max bw cw) * 2)) (fl_abs (fst p))"
    and "\<not> fl_less (f_of_int (int (max bw cw) * 2)) (fl_abs (snd p))"
    by (cases p; auto simp: too_far_def Let_def)+
  ultimately show "near_or_nan (2 * int (max bw cw)) (fst p)" "near_or_nan (2 * int (max bw cw)) (snd p)" by blast+
qed

lemma side_end: "side < 2 ^ 26 \<Longrightarrow> f_sub (f_of_int (int side)) (Fin 1) = Fin (of_int (int side - 1))"
  using f_of_int_exact [of "int side"] f_add_int [of "int side" "- 1"] by (simp add: f_sub_def)

lemma to_i32_int: "\<bar>i\<bar> < 2 ^ 31 \<Longrightarrow> f_to_i32 (Fin (of_int i)) = i"
  by (simp add: trunc_def)

lemma fold_min_near:
  assumes "\<forall>v \<in> set vs. near_or_nan r v" and "acc = PInf \<or> (\<exists>q. acc = Fin q \<and> of_int (- r) \<le> q)" and "0 \<le> r" and "0 \<le> b"
  shows "\<exists>m. foldl fl_min acc (vs @ [Fin 0, Fin b]) = Fin m \<and> of_int (- r) \<le> m \<and> m \<le> 0"
  using assms(1,2)
proof (induction vs arbitrary: acc)
  case Nil
  with assms(3,4) show ?case by (auto simp: fl_min_def)
next
  case (Cons v vs)
  have "fl_min acc v = PInf \<or> (\<exists>q. fl_min acc v = Fin q \<and> of_int (- r) \<le> q)"
    using Cons.prems by (cases v) (auto simp: near_or_nan_def fl_min_def)
  with Cons show ?case by simp
qed

lemma fold_max_near:
  assumes "\<forall>v \<in> set vs. near_or_nan r v" and "acc = NInf \<or> (\<exists>q. acc = Fin q \<and> q \<le> of_int r)" and "0 \<le> r" and "0 \<le> b"
  shows "\<exists>m. foldl fl_max acc (vs @ [Fin 0, Fin b]) = Fin m \<and> b \<le> m \<and> m \<le> max (of_int r) b"
  using assms(1,2)
proof (induction vs arbitrary: acc)
  case Nil
  with assms(3,4) show ?case by (auto simp: fl_max_def)
next
  case (Cons v vs)
  have "fl_max acc v = NInf \<or> (\<exists>q. fl_max acc v = Fin q \<and> q \<le> of_int r)"
    using Cons.prems by (cases v) (auto simp: near_or_nan_def fl_max_def)
  with Cons show ?case by simp
qed

lemma canvas_bounds:
  assumes "\<forall>v \<in> set vs. near_or_nan r v" and "0 \<le> r" and "r < 2 ^ 30" and "0 < side" and "side < 2 ^ 26"
  shows "0 \<le> offset_of vs side" "offset_of vs side \<le> r"
    and "canvas_len vs side cur \<le> side * 3" "canvas_len vs side cur \<le> cur * 20"
    and "0 < cur \<Longrightarrow> 0 < canvas_len vs side cur"
    and "offset_of vs side + int side \<le> int (side * 3) \<Longrightarrow> offset_of vs side + int side \<le> int (cur * 20) \<Longrightarrow>
         offset_of vs side + int side \<le> int (canvas_len vs side cur)"
proof -
  have b: "0 \<le> (of_int (int side - 1) :: rat)" using assms(4) by simp
  obtain m where m: "foldl fl_min PInf (vs @ [Fin 0, Fin (of_int (int side - 1))]) = Fin m" "of_int (- r) \<le> m" "m \<le> 0"
    using fold_min_near [OF assms(1) _ assms(2) b, of PInf] by auto
  obtain k where k: "foldl fl_max NInf (vs @ [Fin 0, Fin (of_int (int side - 1))]) = Fin k" "of_int (int side - 1) \<le> k"
      "k \<le> max (of_int r) (of_int (int side - 1))"
    using fold_max_near [OF assms(1) _ assms(2) b, of NInf] by blast
  have fl: "- r \<le> \<lfloor>m\<rfloor>" "\<lfloor>m\<rfloor> \<le> 0" using m(2,3) by (simp_all add: le_floor_iff)
  moreover have r30: "r < 1073741824" using assms(3) by simp
  ultimately have "\<bar>\<lfloor>m\<rfloor>\<bar> < 2147483648" by linarith
  then have l: "least_coord vs side = \<lfloor>m\<rfloor>"
    using to_i32_int [of "\<lfloor>m\<rfloor>"] by (simp add: least_coord_def side_end [OF assms(5)] m(1) [simplified] del: f_to_i32.simps)
  have ce: "int side - 1 \<le> \<lceil>k\<rceil>" using k(2) by (metis ceiling_mono ceiling_of_int)
  have "\<lceil>k\<rceil> \<le> max r (int side - 1)" using k(3) by (auto simp: ceiling_le_iff max_def split: if_splits)
  moreover have "max r (int side - 1) < 1073741824" using assms(3,5) by simp
  ultimately have ce': "\<lceil>k\<rceil> < 1073741824" by (rule order.strict_trans1)
  have "\<bar>\<lceil>k\<rceil>\<bar> < 2147483648" using ce ce' assms(4) by linarith
  then have g: "greatest_coord vs side = \<lceil>k\<rceil>"
    using to_i32_int [of "\<lceil>k\<rceil>"] by (simp add: greatest_coord_def side_end [OF assms(5)] k(1) [simplified] del: f_to_i32.simps)
  have o: "offset_of vs side = - \<lfloor>m\<rfloor>" using fl by (simp add: offset_of_def l)
  show "0 \<le> offset_of vs side" "offset_of vs side \<le> r" using fl by (simp_all add: o)
  show "canvas_len vs side cur \<le> side * 3" "canvas_len vs side cur \<le> cur * 20" by (simp_all add: canvas_len_def)
  show "0 < cur \<Longrightarrow> 0 < canvas_len vs side cur" using assms(4) by (simp add: canvas_len_def)
  assume a: "offset_of vs side + int side \<le> int (side * 3)" "offset_of vs side + int side \<le> int (cur * 20)"
  have "offset_of vs side + int side \<le> int (nat (max 1 (greatest_coord vs side - least_coord vs side + 1)))"
  proof -
    have "int (nat (max 1 z)) = max 1 z" for z :: int by (simp add: max_def)
    moreover have "- \<lfloor>m\<rfloor> + int side \<le> \<lceil>k\<rceil> - \<lfloor>m\<rfloor> + 1" using ce by linarith
    ultimately show ?thesis unfolding o l g by (simp only: max.coboundedI2)
  qed
  with a show "offset_of vs side + int side \<le> int (canvas_len vs side cur)" unfolding canvas_len_def of_nat_min by (intro min.boundedI)
qed

lemma corner_lists:
  assumes "\<not> too_far (corners h_inv bw cw ch) bw cw" and "max bw cw < 2 ^ 26"
  shows "\<forall>v \<in> set (map fst (corners h_inv bw cw ch)). near_or_nan (2 * int (max bw cw)) v"
    and "\<forall>v \<in> set (map snd (corners h_inv bw cw ch)). near_or_nan (2 * int (max bw cw)) v"
  using near_coordinates [OF assms] by auto

text \<open>
  What the \<^verbatim>\<open>image\<close> crate documents of \<^verbatim>\<open>overlay\<close>: the canvas keeps its size; opaque pixels of the upper picture replace
  those below.
\<close>

definition overlays :: "(rgba \<Rightarrow> rgba \<Rightarrow> int \<Rightarrow> int \<Rightarrow> rgba) \<Rightarrow> bool" where
  "overlays f \<longleftrightarrow>
     (\<forall>c t ox oy. rg_w (f c t ox oy) = rg_w c \<and> rg_h (f c t ox oy) = rg_h c
        \<and> (\<forall>x y. x < rg_w t \<longrightarrow> y < rg_h t \<longrightarrow> rg_at t x y 3 = 255 \<longrightarrow>
             0 \<le> ox + int x \<longrightarrow> ox + int x < int (rg_w c) \<longrightarrow> 0 \<le> oy + int y \<longrightarrow> oy + int y < int (rg_h c) \<longrightarrow>
             (\<forall>k < 4. rg_at (f c t ox oy) (nat (ox + int x)) (nat (oy + int y)) k = rg_at t x y k)))"

lemma warp_image_size [simp]: "rg_w (warp_image env img h w ht) = w" "rg_h (warp_image env img h w ht) = ht"
  by (simp_all add: warp_image_def blank_def split: sum.split)

text \<open>The picture that is blended over the base on the canvas.\<close>

definition warped_frame :: "('s, 'm) stitch_env \<Rightarrow> 'm \<Rightarrow> homography \<Rightarrow> nat \<Rightarrow> nat \<Rightarrow> nat \<Rightarrow> nat \<Rightarrow> rgba" where
  "warped_frame env cur h_inv bw bh cw ch =
     (let pts = corners h_inv bw cw ch; xs = map fst pts; ys = map snd pts
      in warp_image env cur (moved h_inv (f_of_int (offset_of xs bw)) (f_of_int (offset_of ys bh)))
           (canvas_len xs bw cw) (canvas_len ys bh ch))"

lemma warp_expanded:
  assumes "se_invert env homo = Inr h_inv" and "\<not> too_far (corners h_inv bw cw ch) bw cw" and "se_alloc env"
  shows "warp_expand_blend env base cur homo bw bh cw ch =
     blend_pair
       (se_overlay env (blank (canvas_len (map fst (corners h_inv bw cw ch)) bw cw) (canvas_len (map snd (corners h_inv bw cw ch)) bh ch))
          base (offset_of (map fst (corners h_inv bw cw ch)) bw) (offset_of (map snd (corners h_inv bw cw ch)) bh))
       (warped_frame env cur h_inv bw bh cw ch)"
  using assms by (simp add: warp_expand_blend_def warped_frame_def Let_def)

text \<open>
  C31: Warping a frame into the picture keeps what is there, within limits. When the homography can be inverted and no corner is rejected,
  the picture is moved right and down by at most twice the longer width, onto a canvas of at most three times its own sides
  and twenty times those of the frame; no column is cut as long as the moved picture is within twenty frame widths, no row
  as long as it is also moved by no more than twice its height; and each opaque pixel that lands on the canvas keeps its
  exact colours wherever the new frame is not visible.
\<close>

theorem warp_keeps_base:
  assumes "overlays (se_overlay env)" and "se_alloc env" and "se_invert env homo = Inr h_inv"
    and "0 < cw" and "cw \<le> rg_w base" and "rg_w base < 2 ^ 26" and "0 < ch" and "0 < rg_h base" and "rg_h base < 2 ^ 26"
    and "pts = corners h_inv (rg_w base) cw ch" and "\<not> too_far pts (rg_w base) cw"
    and "off_x = offset_of (map fst pts) (rg_w base)" and "off_y = offset_of (map snd pts) (rg_h base)"
    and "r = warp_expand_blend env base cur homo (rg_w base) (rg_h base) cw ch"
  shows "0 \<le> off_x \<and> off_x \<le> 2 * int (rg_w base) \<and> 0 \<le> off_y \<and> off_y \<le> 2 * int (rg_w base)
     \<and> 0 < rg_w r \<and> rg_w r \<le> min (3 * rg_w base) (20 * cw) \<and> 0 < rg_h r \<and> rg_h r \<le> min (3 * rg_h base) (20 * ch)
     \<and> (off_x + int (rg_w base) \<le> 20 * int cw \<longrightarrow> off_x + int (rg_w base) \<le> int (rg_w r))
     \<and> (off_y + int (rg_h base) \<le> 20 * int ch \<longrightarrow> off_y \<le> 2 * int (rg_h base) \<longrightarrow> off_y + int (rg_h base) \<le> int (rg_h r))
     \<and> (\<forall>x < rg_w base. \<forall>y < rg_h base.
          rg_at base x y 3 = 255 \<longrightarrow> off_x + int x < int (rg_w r) \<longrightarrow> off_y + int y < int (rg_h r) \<longrightarrow>
          \<not> shown (warped_frame env cur h_inv (rg_w base) (rg_h base) cw ch) (nat (off_x + int x)) (nat (off_y + int y)) \<longrightarrow>
          (\<forall>k < 4. rg_at r (nat (off_x + int x)) (nat (off_y + int y)) k = rg_at base x y k))"
proof -
  let ?xs = "map fst pts" and ?ys = "map snd pts" and ?bw = "rg_w base" and ?bh = "rg_h base"
  have m: "max ?bw cw = ?bw" using assms(5) by simp
  have near: "\<forall>v \<in> set ?xs. near_or_nan (2 * int ?bw) v" "\<forall>v \<in> set ?ys. near_or_nan (2 * int ?bw) v"
    using corner_lists [OF assms(11) [unfolded assms(10)]] assms(6) unfolding assms(10) m by blast+
  have r: "0 \<le> 2 * int ?bw" "2 * int ?bw < 2 ^ 30" "0 < ?bw" using assms(4,5,6) by simp_all
  note bx = canvas_bounds(1,2) [OF near(1) r(1,2,3) assms(6), folded assms(12)]
    canvas_bounds(3-6) [OF near(1) r(1,2,3) assms(6), of cw, folded assms(12)]
  note cy = canvas_bounds(1,2) [OF near(2) r(1,2) assms(8,9), folded assms(13)]
    canvas_bounds(3-6) [OF near(2) r(1,2) assms(8,9), of ch, folded assms(13)]
  define w where "w = warped_frame env cur h_inv ?bw ?bh cw ch"
  define b where "b = se_overlay env (blank (canvas_len ?xs ?bw cw) (canvas_len ?ys ?bh ch)) base off_x off_y"
  have rb: "r = blend_pair b w"
    unfolding assms(12-14) b_def w_def using warp_expanded [OF assms(3) assms(11) [unfolded assms(10)] assms(2)] by (simp only: assms(10))
  have bs: "rg_w b = canvas_len ?xs ?bw cw" "rg_h b = canvas_len ?ys ?bh ch"
    using assms(1) by (simp_all add: b_def overlays_def blank_def)
  have ws: "rg_w w = canvas_len ?xs ?bw cw" "rg_h w = canvas_len ?ys ?bh ch"
    by (simp_all add: w_def warped_frame_def Let_def assms(10))
  have rs: "rg_w r = canvas_len ?xs ?bw cw" "rg_h r = canvas_len ?ys ?bh ch" by (simp_all add: rb blend_size bs ws)
  have kept: "\<forall>k < 4. rg_at r (nat (off_x + int x)) (nat (off_y + int y)) k = rg_at base x y k"
    if i: "x < ?bw" "y < ?bh" "rg_at base x y 3 = 255" "off_x + int x < int (rg_w r)" "off_y + int y < int (rg_h r)"
      and v: "\<not> shown w (nat (off_x + int x)) (nat (off_y + int y))" for x y
  proof -
    let ?x = "nat (off_x + int x)" and ?y = "nat (off_y + int y)"
    have pos: "0 \<le> off_x + int x" "0 \<le> off_y + int y" using bx(1) cy(1) by simp_all
    have at: "\<forall>k < 4. rg_at b ?x ?y k = rg_at base x y k"
      using assms(1) i pos unfolding overlays_def b_def rs by (simp add: blank_def)
    have lt: "?x < rg_w r" "?y < rg_h r" using i(4,5) pos by simp_all
    have s: "shown b ?x ?y" using at i(3) lt by (simp add: shown_def in_rgba_def bs rs)
    note blend = blend_at [of ?x b w ?y, folded rb]
    have "rg_at r ?x ?y k = rg_at base x y k" if "k < 3" for k
      using blend(2) [OF _ _ s v that] lt at that by (simp add: bs ws rs)
    moreover have "rg_at r ?x ?y 3 = rg_at base x y 3" using blend(1) s lt i(3) by (simp add: bs ws rs)
    ultimately show ?thesis by (metis less_Suc_eq numeral_3_eq_3 numeral_eq_Suc pred_numeral_simps(2) semiring_norm(26) semiring_norm(27) eval_nat_numeral(3))
  qed
  have cut: "off_x + int ?bw \<le> 20 * int cw \<Longrightarrow> off_x + int ?bw \<le> int (rg_w r)"
    "off_y + int ?bh \<le> 20 * int ch \<Longrightarrow> off_y \<le> 2 * int ?bh \<Longrightarrow> off_y + int ?bh \<le> int (rg_h r)"
    using bx(2,6) cy(6) by (simp_all add: rs)
  have "0 < rg_w r" "rg_w r \<le> min (3 * ?bw) (20 * cw)" "0 < rg_h r" "rg_h r \<le> min (3 * ?bh) (20 * ch)"
    using bx(3,4,5) cy(3,4,5) assms(4,7) by (simp_all add: rs)
  with bx(1,2) cy(1,2) cut kept show ?thesis unfolding w_def by blast
qed

text \<open>A red picture of two pixels, warped over by one of which only the second pixel is visible.\<close>

definition demo_se :: "(nat, nat) stitch_env" where
  "demo_se =
     \<lparr>se_cv = demo_cv, se_mat = rg_w, se_invert = \<lambda>_. Inr identity_homography, se_warp = \<lambda>_ _ _ _. Inr half_blue,
      se_alloc = True,
      se_overlay = \<lambda>c t ox oy. c\<lparr>rg_at := \<lambda>x y. if ox \<le> int x \<and> oy \<le> int y \<and> in_rgba t (nat (int x - ox)) (nat (int y - oy))
                                             then rg_at t (nat (int x - ox)) (nat (int y - oy)) else rg_at c x y\<rparr>,
      se_luma = \<lambda>_. \<lparr>gr_width = 1, gr_height = 1, gr_pixels = [0]\<rparr>, se_to_bgr = Inr, se_stitch = \<lambda>_ _. Inr (Some 0),
      se_to_rgba = Inr, se_pixels = \<lambda>_. (2, 1, Inr (replicate 8 255)), se_sift = \<lambda>_. Inl [], se_match = \<lambda>_ _. Inl [],
      se_fourier = \<lparr>fo_forward = id, fo_inverse = id, fo_cross = \<lambda>a _. a, fo_norm = \<lambda>_. Fin 1, fo_cos = \<lambda>_. Fin 0\<rparr>,
      se_cos = \<lambda>_. Fin 1, se_tan = \<lambda>_. Fin 0\<rparr>"

definition red_pair :: rgba where
  "red_pair = \<lparr>rg_w = 2, rg_h = 1, rg_at = \<lambda>_ _ c. if c = 0 \<or> c = 3 then 255 else 0\<rparr>"

lemma demo_overlays: "overlays (se_overlay demo_se)"
  by (auto simp: overlays_def demo_se_def in_rgba_def)

lemma demo_corners: "corners identity_homography 2 1 1 = replicate 4 (Fin 0, Fin 0)"
proof -
  obtain t where t: "round64 (1 / 100000000) = Fin t" "\<bar>t - 1 / 100000000\<bar> \<le> 1 / 10000000000" by (rule round64_close [of "1 / 100000000"]) simp_all
  have "t < 1" using t(2) by linarith
  moreover have "round64 0 = Fin 0" "round64 1 = Fin 1" "f_of_int 8 = Fin 8" "f_of_int 1 = Fin 1"
    using round64_int [of 0] round64_int [of 1] f_of_int_exact [of 1] f_of_int_exact [of 8] by simp_all
  ultimately show ?thesis
    using t(1) by (simp add: corners_def project_def h_at_def identity_homography_def Let_def f_add_def f_sub_def fl_bound_def
        numeral_eq_Suc fl_max_def del: fl_max_fin)
qed

theorem warp_keeps_base_witness:
  "rg_at (warp_expand_blend demo_se red_pair 0 identity_homography 2 1 1 1) 0 0 0 = 255
   \<and> rg_w (warp_expand_blend demo_se red_pair 0 identity_homography 2 1 1 1) = 2"
proof -
  let ?r = "warp_expand_blend demo_se red_pair 0 identity_homography 2 1 1 1"
  let ?v = "replicate 4 (Fin 0)"
  have c: "f_sub (f_of_int 2) (Fin 1) = Fin 1" "f_sub (f_of_int 1) (Fin 1) = Fin 0"
    using side_end [of 2] side_end [of 1] by simp_all
  have l: "replicate 4 (Fin 0) = [Fin 0, Fin 0, Fin 0, Fin 0]" by (simp add: numeral_eq_Suc)
  have g: "least_coord ?v 2 = 0" "greatest_coord ?v 2 = 1" "least_coord ?v 1 = 0" "greatest_coord ?v 1 = 0"
    unfolding l by (simp_all add: least_coord_def greatest_coord_def c fl_min_def fl_max_def trunc_def)
  have o: "offset_of ?v 2 = 0" "offset_of ?v 1 = 0" "canvas_len ?v 2 1 = 2" "canvas_len ?v 1 1 = 1"
    by (simp_all add: offset_of_def canvas_len_def g g [unfolded One_nat_def])
  note o = o o [unfolded One_nat_def]
  note dc = demo_corners demo_corners [unfolded One_nat_def]
  have far: "\<not> too_far (corners identity_homography (rg_w red_pair) 1 1) (rg_w red_pair) 1"
    using f_of_int_exact [of 4] by (simp add: red_pair_def demo_corners [unfolded One_nat_def] too_far_def Let_def)
  have d: "rg_w red_pair = 2" "rg_h red_pair = 1" by (simp_all add: red_pair_def)
  have "overlays (se_overlay demo_se)" "se_alloc demo_se" "se_invert demo_se identity_homography = Inr identity_homography"
    by (rule demo_overlays) (simp_all add: demo_se_def)
  from warp_keeps_base [OF this, of 1 red_pair 1, OF _ _ _ _ _ _ refl far refl refl refl, where cur = 0]
  have t: "rg_w ?r \<le> 2 * 20 \<and> (2 \<le> int (rg_w ?r)) \<and>
      (\<forall>x < 2. \<forall>y < 1. rg_at red_pair x y 3 = 255 \<longrightarrow> int x < int (rg_w ?r) \<longrightarrow> int y < int (rg_h ?r) \<longrightarrow>
          \<not> shown (warped_frame demo_se 0 identity_homography 2 1 1 1) x y \<longrightarrow> (\<forall>k < 4. rg_at ?r x y k = rg_at red_pair x y k))
      \<and> 0 < rg_h ?r"
    unfolding d demo_corners map_replicate by (simp add: o)
  have w: "\<not> shown (warped_frame demo_se 0 identity_homography 2 1 1 1) 0 0"
    by (simp add: warped_frame_def dc o Let_def warp_image_def demo_se_def half_blue_def shown_def)
  have "\<forall>k < 4. rg_at ?r 0 0 k = rg_at red_pair 0 0 k" using t w by (simp add: red_pair_def)
  then have "rg_at ?r 0 0 0 = 255" by (simp add: red_pair_def)
  moreover have "rg_w ?r = 2"
    using warp_expanded [of demo_se identity_homography identity_homography 2 1 1, where base = red_pair and cur = 0 and bh = 1] far demo_overlays
    by (simp add: d dc o demo_se_def blend_size warped_frame_def Let_def blank_def)
  ultimately show ?thesis by blast
qed

section \<open>The stitcher returns\<close>

text \<open>Only the run of a matcher can panic.\<close>

lemma and_then_panics: "and_then r f = None \<longleftrightarrow> r = None \<or> (\<exists>x. r = Some (Inr x) \<and> f x = None)"
  by (simp add: and_then_def split: option.split sum.split)

lemma check_that_panics [simp]: "check_that b e r = None \<longleftrightarrow> b \<and> r = None"
  by (simp add: check_that_def fails_def)

lemma usac_returns: "homography_usac env pts \<noteq> None"
  by (auto simp: homography_usac_def and_then_panics yields_def)

lemma akaze_returns: "estimate_homography_akaze env a b \<noteq> None"
  by (auto simp: estimate_homography_akaze_def and_then_panics Let_def usac_returns)

lemma estimate_panics:
  assumes "fst (estimate_pair env a b per_req st) = None"
  shows "\<exists>m. run_matcher env m a b = None"
proof -
  have akaze: "and_then (estimate_homography_akaze env a b) (\<lambda>h. check_that (P h) e (yields h)) \<noteq> None" for P e
    by (auto simp: and_then_panics akaze_returns yields_def)
  have model: "run_matcher env m a b = None" if "model_homography env m a b st = (None, st')" for m st st'
    using that by (auto simp: model_homography_def match_images_def Let_def and_then_panics usac_returns)
  have "\<exists>m. run_matcher env m a b = None" if "estimate_homography_inner env a b g st = (None, st')" for g st st'
    using that
    by (auto simp: estimate_homography_inner_def Let_def akaze akaze [unfolded yields_def] yields_def dest: model
        split: option.splits prod.splits sum.splits if_splits)
  with assms show ?thesis
    by (cases "estimate_pair env a b per_req st") (auto simp: estimate_pair_def split: option.splits prod.splits)
qed

lemma warp_size:
  fixes homo cur
  assumes "overlays (se_overlay env)" and "0 < bw" and "0 < bh" and "0 < cw" and "0 < ch" and "rg_w base = bw" and "rg_h base = bh"
  defines "r \<equiv> warp_expand_blend env base cur homo bw bh cw ch"
  shows "0 < rg_w r" "rg_w r \<le> max bw (20 * cw)" "0 < rg_h r" "rg_h r \<le> max bh (20 * ch)"
proof -
  have o: "rg_w (se_overlay env c t x y) = rg_w c" "rg_h (se_overlay env c t x y) = rg_h c" for c t x y
    using assms(1) by (simp_all add: overlays_def)
  have l: "0 < canvas_len vs side cur'" "canvas_len vs side cur' \<le> 20 * cur'" if "0 < side" "0 < cur'" for vs side cur'
    using that by (simp_all add: canvas_len_def)
  have c: "(rg_w r = bw \<and> rg_h r = bh) \<or> (\<exists>xs ys. rg_w r = canvas_len xs bw cw \<and> rg_h r = canvas_len ys bh ch)"
    using assms(6,7) by (auto simp: r_def warp_expand_blend_def Let_def blend_size blank_def o split: sum.split)
  then show "0 < rg_w r" "0 < rg_h r" using l assms(2-5) by auto
  from c show "rg_w r \<le> max bw (20 * cw)" using l(2) [OF assms(2,4)] by (auto simp: le_max_iff_disj)
  from c show "rg_h r \<le> max bh (20 * ch)" using l(2) [OF assms(3,5)] by (auto simp: le_max_iff_disj)
qed

text \<open>Pictures of at most \<open>w\<close> by \<open>h\<close> pixels, and at least one.\<close>

definition at_most :: "nat \<Rightarrow> nat \<Rightarrow> rgba \<Rightarrow> bool" where
  "at_most w h img \<longleftrightarrow> 0 < rg_w img \<and> rg_w img \<le> w \<and> 0 < rg_h img \<and> rg_h img \<le> h"

lemma landscape_step_size:
  assumes "overlays (se_overlay env)" and "se_alloc env"
    and "\<forall>a b img. stitch_with_opencv_panorama env a b = Inr img \<longrightarrow> at_most (20 * w) (20 * h) img"
    and "at_most w h img" and "at_most (20 * w) (20 * h) (fst acc)"
  shows "case landscape_step env per_req img acc of
      None \<Rightarrow> \<exists>m a b. run_matcher (se_cv env) m a b = None
    | Some (r, _) \<Rightarrow> at_most (20 * w) (20 * h) r"
proof -
  obtain result st where acc: "acc = (result, st)" by (cases acc)
  define warped where "warped homo = warp_expand_blend env result (se_mat env img) homo (rg_w result) (rg_h result) (rg_w img) (rg_h img)" for homo
  have W: "at_most (20 * w) (20 * h) (warped homo)" for homo
    using warp_size [OF assms(1), of "rg_w result" "rg_h result" "rg_w img" "rg_h img" result "se_mat env img" homo] assms(4,5)
    unfolding at_most_def warped_def [symmetric] acc by (auto simp: le_max_iff_disj intro: order.trans)
  have T: "at_most (20 * w) (20 * h) (blend_translated env result img (se_mat env img) dx dy)" for dx dy
    using assms(2) W by (simp add: blend_translated_def warped_def)
  define others where "others = (case stitch_with_opencv_panorama env (se_mat env result) (se_mat env img) of
      Inr stitched \<Rightarrow> stitched
    | Inl _ \<Rightarrow> (case (case sift_translation_estimate env (se_mat env result) (se_mat env img) of
                      Some d \<Rightarrow> d
                    | None \<Rightarrow> (case phase_correlate (se_fourier env) (se_luma env result) (se_luma env img) of (pdx, pdy, _) \<Rightarrow> (pdx, pdy))) of
                  (dx, dy) \<Rightarrow> blend_translated env result img (se_mat env img) dx dy))"
  have O: "at_most (20 * w) (20 * h) others"
    using assms(3) T by (auto simp: others_def split: sum.split option.split prod.split)
  obtain e st' where e: "estimate_pair (se_cv env) (se_mat env result) (se_mat env img) per_req st = (e, st')" by fastforce
  have "landscape_step env per_req img acc = (case e of
        None \<Rightarrow> None
      | Some (Inl _) \<Rightarrow> Some (others, st')
      | Some (Inr homo) \<Rightarrow> Some (if grown (max (rg_w result) (rg_w img)) \<le> rg_w (warped homo) then warped homo else others, st'))"
    unfolding landscape_step_def acc prod.case Let_def e others_def [symmetric] warped_def by (simp split: option.split sum.split)
  moreover have "\<exists>m a b. run_matcher (se_cv env) m a b = None" if "e = None" using e that estimate_panics by (metis fst_conv)
  ultimately show ?thesis using O W by (cases e) (auto split: sum.split)
qed

lemma cylindrical_size: "at_most w h (cylindrical_project env img f) \<longleftrightarrow> at_most w h img"
  by (simp add: at_most_def cylindrical_project_def Let_def)

text \<open>
  Stitching landscapes always gives a picture. Two frames or more are never answered by an error, whatever the matchers,
  OpenCV and the panorama stitcher do (only a panic of a matcher, on an output that is too short, is passed on); every pair
  is reported; and when the panorama stitcher stays within twenty frames of the largest size, so does the result, however
  many frames there are.
\<close>

theorem landscape_returns:
  assumes "2 \<le> length frames" and "\<forall>img \<in> set frames. at_most w h img" and "overlays (se_overlay env)" and "se_alloc env"
    and "\<forall>a b img. stitch_with_opencv_panorama env a b = Inr img \<longrightarrow> at_most (20 * w) (20 * h) img"
  shows "case stitch_landscape env frames per_req st of
      None \<Rightarrow> \<exists>m a b. run_matcher (se_cv env) m a b = None
    | Some (Inl _) \<Rightarrow> False
    | Some (Inr (r, _, reports)) \<Rightarrow>
        at_most (20 * w) (20 * h) r \<and> reports = map (\<lambda>i. (i, length frames - 1)) [1..<length frames]"
proof -
  define f where "f = f_of_int (int (rg_w (frames ! 0)))"
  define images where "images = map (\<lambda>img. if 5 < length frames then cylindrical_project env img f else img) frames"
  have i: "\<forall>img \<in> set images. at_most w h img" "length images = length frames"
    using assms(2) by (auto simp: images_def cylindrical_size)
  have fold: "case opt_fold (landscape_step env per_req) xs acc of
      None \<Rightarrow> \<exists>m a b. run_matcher (se_cv env) m a b = None
    | Some (r, _) \<Rightarrow> at_most (20 * w) (20 * h) r"
    if "\<forall>img \<in> set xs. at_most w h img" "at_most (20 * w) (20 * h) (fst acc)" for xs acc
    using that
  proof (induction xs arbitrary: acc)
    case (Cons x xs)
    note step = landscape_step_size [OF assms(3-5), of x acc per_req]
    show ?case
    proof (cases "landscape_step env per_req x acc")
      case (Some a)
      with step Cons.prems have "at_most (20 * w) (20 * h) (fst a)" by (simp add: case_prod_beta)
      with Cons.IH [of a] Cons.prems Some show ?thesis by simp
    qed (use step Cons.prems in simp)
  qed (auto split: prod.split)
  obtain img rest where c: "images = img # rest" using i(2) assms(1) by (cases images) auto
  have "at_most (20 * w) (20 * h) img" using i(1) c by (auto simp: at_most_def)
  with fold [of rest "(img, st)"] i(1) c
  have "case opt_fold (landscape_step env per_req) (tl images) (hd images, st) of
      None \<Rightarrow> \<exists>m a b. run_matcher (se_cv env) m a b = None
    | Some (r, _) \<Rightarrow> at_most (20 * w) (20 * h) r" by simp
  moreover have "stitch_landscape env frames per_req st =
      (case opt_fold (landscape_step env per_req) (tl images) (hd images, st) of
         None \<Rightarrow> None
       | Some (result, st) \<Rightarrow> yields (result, st, map (\<lambda>i. (i, length images - 1)) [1..<length images]))"
    using assms(1) unfolding stitch_landscape_def Let_def f_def [symmetric] images_def [symmetric] by simp
  ultimately show ?thesis by (auto simp: yields_def i(2) split: option.splits prod.splits)
qed

definition red_dots :: "rgba list" where "red_dots = [red_dot, red_dot, red_dot]"

theorem landscape_returns_witness:
  "\<exists>r st' reports. stitch_landscape demo_se red_dots None (demo_st\<lparr>ms_global := Some None\<rparr>) = Some (Inr (r, st', reports))
     \<and> at_most 20 20 r \<and> reports = [(1, 2), (2, 2)]"
proof -
  have e: "estimate_pair (se_cv demo_se) a b None st = (Some (Inl []), st)" if "ms_global st = Some None" for a b st
    using that by (simp add: demo_se_def estimate_pair_def matcher_guard_def estimate_homography_inner_def estimate_homography_akaze_def
        demo_cv_def Let_def)
  have p: "stitch_with_opencv_panorama demo_se a b = Inr img \<Longrightarrow> rg_w img = 2 \<and> rg_h img = 1" for a b img
    by (auto simp: stitch_with_opencv_panorama_def demo_se_def rgba_from_raw_def)
  have l: "landscape_step demo_se None img (r, st) = Some (the (rgba_from_raw 2 1 (replicate 8 255)), st)" if "ms_global st = Some None" for img r st
    using e [OF that] by (simp add: landscape_step_def Let_def stitch_with_opencv_panorama_def rgba_from_raw_def)
      (simp add: demo_se_def rgba_from_raw_def)
  have s: "\<exists>r st' reports. stitch_landscape demo_se red_dots None (demo_st\<lparr>ms_global := Some None\<rparr>) = Some (Inr (r, st', reports))"
    by (simp add: stitch_landscape_def red_dots_def l yields_def)
  have o: "at_most 1 1 img" if "img \<in> set red_dots" for img using that by (auto simp: red_dots_def red_dot_def at_most_def)
  have "at_most (20 * 1) (20 * 1) img" if "stitch_with_opencv_panorama demo_se a b = Inr img" for a b img
    using p [OF that] by (simp add: at_most_def)
  with landscape_returns [of red_dots 1 1 demo_se, where per_req = None and st = "demo_st\<lparr>ms_global := Some None\<rparr>", OF _ _ demo_overlays] o
  have "case stitch_landscape demo_se red_dots None (demo_st\<lparr>ms_global := Some None\<rparr>) of
      None \<Rightarrow> \<exists>m a b. run_matcher (se_cv demo_se) m a b = None
    | Some (Inl _) \<Rightarrow> False
    | Some (Inr (r, _, reports)) \<Rightarrow> at_most (20 * 1) (20 * 1) r \<and> reports = map (\<lambda>i. (i, length red_dots - 1)) [1..<length red_dots]"
    by (simp add: red_dots_def demo_se_def)
  with s show ?thesis by (auto simp: red_dots_def upt_rec)
qed

end
