(* ===== verification/Live_Stitch.thy ===== *)
theory Live_Stitch
  imports Pair_Stitch
begin

text \<open>
  Live action: masks of what moved, matches of the background only, the clusters of displacements, and the chain of
  methods, \<^verbatim>\<open>crates/frame-forge/src/stitch_liveaction.rs\<close>. As in \<open>Pair_Stitch\<close>, sides are positive and below \<open>2 ^ 26\<close>.
\<close>

section \<open>Motion masks\<close>

definition differs :: "gray \<Rightarrow> gray \<Rightarrow> nat \<Rightarrow> nat \<Rightarrow> bool" where
  "differs gp gc x y \<longleftrightarrow> 30 < \<bar>get_pixel gp x y - get_pixel gc x y\<bar>"

definition difference_mask :: "gray \<Rightarrow> gray \<Rightarrow> gray_mask" where
  "difference_mask gp gc =
     \<lparr>gm_w = gr_width gp, gm_h = gr_height gp,
      gm_at = \<lambda>x y. if x < min (gr_width gp) (gr_width gc) \<and> y < min (gr_height gp) (gr_height gc)
                     then (if differs gp gc x y then 255 else 0) else 0\<rparr>"

definition dilate :: "gray_mask \<Rightarrow> gray_mask" where
  "dilate img =
     \<lparr>gm_w = gm_w img, gm_h = gm_h img,
      gm_at = \<lambda>x y. if 1 \<le> x \<and> x + 1 < gm_w img \<and> 1 \<le> y \<and> y + 1 < gm_h img
                     then foldl (\<lambda>v (ky, kx). max v (gm_at img (x + kx - 1) (y + ky - 1))) 0 offsets else 0\<rparr>"

definition compute_motion_mask :: "gray \<Rightarrow> gray \<Rightarrow> gray_mask" where
  "compute_motion_mask gp gc = dilate (dilate (difference_mask gp gc))"

definition fill_foreground :: "rgba \<Rightarrow> gray_mask \<Rightarrow> rgba \<Rightarrow> rgba" where
  "fill_foreground result motion src =
     (let w = min (min (rg_w result) (gm_w motion)) (rg_w src); h = min (min (rg_h result) (gm_h motion)) (rg_h src)
      in result\<lparr>rg_at := \<lambda>x y. if x < w \<and> y < h \<and> 128 < gm_at motion x y then rg_at src x y else rg_at result x y\<rparr>)"

section \<open>Matches of the background\<close>

definition in_motion :: "gray_mask \<Rightarrow> fl \<Rightarrow> fl \<Rightarrow> bool" where
  "in_motion motion x y \<longleftrightarrow>
     (let x = f_to_u32 x; y = f_to_u32 y in x < gm_w motion \<and> y < gm_h motion \<and> 128 \<le> gm_at motion x y)"

definition background :: "gray_mask \<Rightarrow> point_match \<Rightarrow> bool" where
  "background motion m \<longleftrightarrow> (case m of (ax, ay, bx, b_y) \<Rightarrow> \<not> in_motion motion ax ay \<and> \<not> in_motion motion bx b_y)"

fun shift_x :: "point_match \<Rightarrow> fl" where "shift_x (ax, ay, bx, b_y) = g_sub bx ax"
fun shift_y :: "point_match \<Rightarrow> fl" where "shift_y (ax, ay, bx, b_y) = g_sub b_y ay"

definition consistent :: "fl \<Rightarrow> fl \<Rightarrow> fl \<Rightarrow> point_match \<Rightarrow> bool" where
  "consistent mdx mdy tolerance m \<longleftrightarrow>
     fl_less (fl_abs (g_sub (shift_x m) mdx)) tolerance \<and> fl_less (fl_abs (g_sub (shift_y m) mdy)) tolerance"

definition displacement_prefilter_raw :: "point_match list \<Rightarrow> fl \<Rightarrow> point_match list" where
  "displacement_prefilter_raw ms tolerance =
     (if length ms < 4 then ms
      else filter (consistent (median_f32 (map shift_x ms)) (median_f32 (map shift_y ms)) tolerance) ms)"

definition tolerance_of :: "nat \<Rightarrow> fl" where
  "tolerance_of w = g_mul (g_of_nat w) (round32 (15 / 100))"

definition stitch_pair_motion_filtered ::
  "('s, 'm) stitch_env \<Rightarrow> rgba \<Rightarrow> rgba \<Rightarrow> gray_mask \<Rightarrow> 's any_matcher option \<Rightarrow> 's mstate \<Rightarrow> rgba outcome \<times> 's mstate" where
  "stitch_pair_motion_filtered env a b motion per_req st =
     (let mat_a = se_mat env a; mat_b = se_mat env b; w = cv_cols (se_cv env) mat_a; h = cv_rows (se_cv env) mat_a;
          (model, st) = (case per_req of Some m \<Rightarrow> (Some m, st) | None \<Rightarrow> matcher_guard (cv_ort (se_cv env)) st);
          (matches, st) = (case model of
             None \<Rightarrow> (fails ''no DL model'', st) | Some m \<Rightarrow> match_images (se_cv env) m mat_a mat_b st)
      in (and_then matches (\<lambda>ms.
            check_that (\<not> length ms < min_inliers) ''too few DL matches''
              (let bg = filter (background motion) ms
               in check_that (\<not> length bg < min_inliers) ''too few background matches after motion-mask filter''
                    (let good = displacement_prefilter_raw bg (tolerance_of w)
                     in check_that (\<not> length good < min_inliers) ''too few displacement-filtered matches''
                          (and_then (homography_usac (se_cv env) good) (\<lambda>homo.
                             check_that (homography_is_sane (se_cv env) homo w h) ''homography failed sanity check''
                               (yields (warp_expand_blend env a mat_b homo w h (cv_cols (se_cv env) mat_b)
                                          (cv_rows (se_cv env) mat_b)))))))), st))"

section \<open>A dominant translation\<close>

text \<open>
  \<open>le_edges\<close> is the Laplacian with absolute values; \<open>le_best a (x, y, w, h) b\<close> is the greatest normalised correlation of that
  part of \<open>a\<close> in \<open>b\<close>, with its place, none when one of the three calls fails; \<open>le_knn\<close> gives the two nearest descriptors.
\<close>

record 'm live_env =
  le_edges :: "'m \<Rightarrow> string + 'm"
  le_best :: "'m \<Rightarrow> int \<times> int \<times> int \<times> int \<Rightarrow> 'm \<Rightarrow> (fl \<times> int \<times> int) option"
  le_knn :: "'m \<Rightarrow> 'm \<Rightarrow> string + (int \<times> int \<times> fl) list list"

definition strips :: "fl list" where
  "strips = map round32 [1 / 10, 15 / 100, 1 / 5, 1 / 4, 3 / 10]"

fun try_strips :: "(fl \<Rightarrow> (fl \<times> int \<times> int) option) \<Rightarrow> fl list \<Rightarrow> fl \<times> int \<times> int \<Rightarrow> (int \<times> int) option" where
  "try_strips f [] best =
     (case best of (ncc, dx, dy) \<Rightarrow> if fl_le (round64 (35 / 100)) ncc then Some (dx, dy) else None)"
| "try_strips f (part # rest) best =
     (case f part of
        None \<Rightarrow> try_strips f rest best
      | Some (v, dx, dy) \<Rightarrow>
          if fl_le (round64 (55 / 100)) v then Some (dx, dy)
          else try_strips f rest (if fl_less (fst best) v then (v, dx, dy) else best))"

definition ncc_template_match :: "('s, 'm) stitch_env \<Rightarrow> 'm live_env \<Rightarrow> 'm \<Rightarrow> 'm \<Rightarrow> (int \<times> int) option" where
  "ncc_template_match env le gray_a gray_b =
     (let a_w = cv_cols (se_cv env) gray_a; a_h = cv_rows (se_cv env) gray_a; v_margin = a_h div 6; tmpl_h = a_h - 2 * v_margin
      in if tmpl_h \<le> 32 then None
         else
           (case (le_edges le gray_a, le_edges le gray_b) of
              (Inr fa, Inr fb) \<Rightarrow>
                try_strips
                  (\<lambda>part.
                     let strip_w = f_to_i32 (fl_max (g_mul (g_of_nat a_w) part) (Fin 64)); strip_x = int a_w - strip_w
                     in if int (cv_cols (se_cv env) gray_b) \<le> strip_w \<or> cv_rows (se_cv env) gray_b \<le> tmpl_h then None
                        else map_option (\<lambda>(v, px, py). (v, strip_x - px, int v_margin - py))
                               (le_best le fa (strip_x, int v_margin, strip_w, int tmpl_h) fb))
                  strips (Fin 0, 0, 0)
            | _ \<Rightarrow> None))"

definition ratio_displacement :: "(fl \<times> fl) list \<Rightarrow> (fl \<times> fl) list \<Rightarrow> fl \<Rightarrow> (int \<times> int \<times> fl) list \<Rightarrow> (fl \<times> fl) option" where
  "ratio_displacement kp_a kp_b ratio pair =
     (case pair of
        (q, t, dm) # (_, _, dn) # _ \<Rightarrow>
          if fl_le (g_mul ratio dn) dm then None
          else (case (slice_get kp_a (as_usize q), slice_get kp_b (as_usize t)) of
                  (Some (x1, y1), Some (x2, y2)) \<Rightarrow> Some (g_sub x1 x2, g_sub y1 y2)
                | _ \<Rightarrow> None)
      | _ \<Rightarrow> None)"

definition sift_ratio_disps ::
  "('s, 'm) stitch_env \<Rightarrow> 'm live_env \<Rightarrow> 'm \<Rightarrow> 'm \<Rightarrow> (fl \<times> fl) list \<Rightarrow> (fl \<times> fl) list \<Rightarrow> fl \<Rightarrow> (fl \<times> fl) list option" where
  "sift_ratio_disps env le desc_a desc_b kp_a kp_b ratio =
     (if cv_empty (se_cv env) desc_a \<or> cv_empty (se_cv env) desc_b then None
      else (case le_knn le desc_a desc_b of
              Inl _ \<Rightarrow> None | Inr knn \<Rightarrow> Some (List.map_filter (ratio_displacement kp_a kp_b ratio) knn)))"

text \<open>How many displacements are within the threshold of one, and the first with the most.\<close>

definition near_count :: "fl \<Rightarrow> (fl \<times> fl) list \<Rightarrow> fl \<times> fl \<Rightarrow> nat" where
  "near_count px_threshold ds d =
     length (filter (\<lambda>e. fl_less (fl_abs (g_sub (fst e) (fst d))) px_threshold \<and> fl_less (fl_abs (g_sub (snd e) (snd d))) px_threshold) ds)"

fun most_near :: "((fl \<times> fl) \<Rightarrow> nat) \<Rightarrow> (fl \<times> fl) list \<Rightarrow> (fl \<times> fl) \<times> nat \<Rightarrow> (fl \<times> fl) \<times> nat" where
  "most_near count [] best = best"
| "most_near count (d # ds) best = most_near count ds (if snd best < count d then (d, count d) else best)"

definition best_displacement_cluster :: "(fl \<times> fl) list \<Rightarrow> fl \<Rightarrow> nat \<Rightarrow> (int \<times> int) option" where
  "best_displacement_cluster ds px_threshold least =
     (if length ds < least then None
      else
        (case most_near (near_count px_threshold ds) ds ((Fin 0, Fin 0), 0) of
           ((dx, dy), n) \<Rightarrow> if least \<le> n then Some (f_to_i32 (f_round dx), f_to_i32 (f_round dy)) else None))"

definition dominant_translation :: "('s, 'm) stitch_env \<Rightarrow> 'm live_env \<Rightarrow> 'm \<Rightarrow> 'm \<Rightarrow> fl \<Rightarrow> nat \<Rightarrow> (int \<times> int) option" where
  "dominant_translation env le mat_a mat_b px_threshold least =
     (case (cv_cvt_color (se_cv env) 4 mat_a, cv_cvt_color (se_cv env) 4 mat_b) of
        (Inr gray_a, Inr gray_b) \<Rightarrow>
          (case ncc_template_match env le gray_a gray_b of
             Some r \<Rightarrow> Some r
           | None \<Rightarrow>
               (case (se_sift env gray_a, se_sift env gray_b) of
                  (Inr (kp_a, desc_a), Inr (kp_b, desc_b)) \<Rightarrow>
                    if length kp_a < 4 \<or> length kp_b < 4 then None
                    else Option.bind (sift_ratio_disps env le desc_a desc_b kp_a kp_b (Fin (3 / 4)))
                           (\<lambda>ds. best_displacement_cluster ds px_threshold least)
                | _ \<Rightarrow> None))
      | _ \<Rightarrow> None)"

section \<open>The stitcher\<close>

definition f64_max :: fl where
  "f64_max = Fin ((2 ^ 53 - 1) * 2 ^ 971)"

text \<open>The overlap of a homography is between 8 and 95 percent in one direction.\<close>

definition overlap_share :: "homography \<Rightarrow> nat \<Rightarrow> nat \<Rightarrow> fl" where
  "overlap_share homo r side =
     fl_max (f_sub (Fin 1) (f_div (fl_abs (case ho_at homo r 2 of Some v \<Rightarrow> v | None \<Rightarrow> f64_max)) (f_of_int (int side)))) (Fin 0)"

definition plausible_overlap :: "homography \<Rightarrow> nat \<Rightarrow> nat \<Rightarrow> bool" where
  "plausible_overlap homo pw ph \<longleftrightarrow>
     (let good = (\<lambda>ov. fl_le (round64 (8 / 100)) ov \<and> fl_le ov (round64 (95 / 100)))
      in good (overlap_share homo 0 pw) \<or> good (overlap_share homo 1 ph))"

definition tallest :: "nat \<Rightarrow> nat" where
  "tallest side = f_to_u32 (f_mul (f_of_int (int side)) (round64 (105 / 100)))"

text \<open>The first fallback: a homography without the mask, if the canvas it gives is plausible.\<close>

definition unmasked_warp ::
  "('s, 'm) stitch_env \<Rightarrow> rgba \<Rightarrow> 'm \<Rightarrow> nat \<Rightarrow> nat \<Rightarrow> nat \<Rightarrow> nat \<Rightarrow> homography \<Rightarrow> rgba option" where
  "unmasked_warp env result mat_cur pw ph cw ch homo =
     (if \<not> plausible_overlap homo pw ph then None
      else (let stitched = warp_expand_blend env result mat_cur homo pw ph cw ch
            in if grown (max pw cw) \<le> rg_w stitched \<and> rg_h stitched \<le> tallest (max ph ch) then Some stitched else None))"

definition last_translation :: "('s, 'm) stitch_env \<Rightarrow> 'm live_env \<Rightarrow> rgba \<Rightarrow> rgba \<Rightarrow> int \<times> int" where
  "last_translation env le prev img =
     (let mat_prev = se_mat env prev; mat_cur = se_mat env img
      in case dominant_translation env le mat_prev mat_cur (Fin 5) 6 of
           Some d \<Rightarrow> d
         | None \<Rightarrow>
             (case phase_correlate (se_fourier env) (se_luma env prev) (se_luma env img) of
                (pdx, pdy, q) \<Rightarrow>
                  if fl_le (round64 (2 / 100)) q then (pdx, pdy)
                  else (case sift_translation_estimate env mat_prev mat_cur of Some d \<Rightarrow> d | None \<Rightarrow> (pdx, pdy))))"

definition without_mask ::
  "('s, 'm) stitch_env \<Rightarrow> 'm live_env \<Rightarrow> 's any_matcher option \<Rightarrow> rgba \<Rightarrow> rgba \<Rightarrow> 's mstate \<Rightarrow> (rgba \<times> 's mstate) option" where
  "without_mask env le per_req result img st =
     (let mat_prev = se_mat env result; mat_cur = se_mat env img;
          pw = cv_cols (se_cv env) mat_prev; ph = cv_rows (se_cv env) mat_prev;
          cw = cv_cols (se_cv env) mat_cur; ch = cv_rows (se_cv env) mat_cur;
          shared = (\<lambda>st. case estimate_pair (se_cv env) mat_prev mat_cur None st of
             (None, _) \<Rightarrow> None
           | (Some (Inr homo), st) \<Rightarrow> Some (warp_expand_blend env result mat_cur homo pw ph cw ch, st)
           | (Some (Inl _), st) \<Rightarrow>
               (case last_translation env le result img of
                  (dx, dy) \<Rightarrow> Some (if se_alloc env then warp_expand_blend env result mat_cur (translation dx dy) pw ph cw ch
                                   else side_by_side env result img dx dy, st)));
          others = (\<lambda>st. case stitch_with_opencv_panorama env mat_prev mat_cur of
             Inr stitched \<Rightarrow> Some (stitched, st) | Inl _ \<Rightarrow> shared st)
      in case estimate_pair (se_cv env) mat_prev mat_cur per_req st of
           (None, _) \<Rightarrow> None
         | (Some (Inl _), st) \<Rightarrow> others st
         | (Some (Inr homo), st) \<Rightarrow>
             (case unmasked_warp env result mat_cur pw ph cw ch homo of Some stitched \<Rightarrow> Some (stitched, st) | None \<Rightarrow> others st))"

text \<open>One frame with its mask.\<close>

definition motion_stitch ::
  "('s, 'm) stitch_env \<Rightarrow> 's any_matcher option \<Rightarrow> gray_mask \<Rightarrow> rgba \<Rightarrow> rgba \<Rightarrow> 's mstate \<Rightarrow> rgba outcome \<times> 's mstate" where
  "motion_stitch env per_req motion img result st =
     (case stitch_pair_motion_filtered env result img motion per_req st of
        (r, st) \<Rightarrow> (and_then r (\<lambda>out. check_that (grown (rg_w result) \<le> rg_w out) ''canvas too narrow'' (yields out)), st))"

definition liveaction_step ::
  "('s, 'm) stitch_env \<Rightarrow> 'm live_env \<Rightarrow> 's any_matcher option \<Rightarrow> gray_mask \<times> rgba \<Rightarrow> rgba \<times> 's mstate \<Rightarrow>
     (rgba \<times> 's mstate) option" where
  "liveaction_step env le per_req frame acc =
     (case (frame, acc) of ((motion, img), (result, st)) \<Rightarrow>
        (case motion_stitch env per_req motion img result st of
           (None, _) \<Rightarrow> None
         | (Some (Inr out), st) \<Rightarrow>
             Some (if rg_w out = rg_w result \<and> rg_h out = rg_h result then fill_foreground out motion img else out, st)
         | (Some (Inl _), st) \<Rightarrow> without_mask env le per_req result img st))"

definition masks_of :: "('s, 'm) stitch_env \<Rightarrow> rgba list \<Rightarrow> gray_mask list" where
  "masks_of env frames =
     map (\<lambda>i. compute_motion_mask (se_luma env (frames ! (i - 1))) (se_luma env (frames ! i))) [1..<length frames]"

definition stitch_liveaction ::
  "('s, 'm) stitch_env \<Rightarrow> 'm live_env \<Rightarrow> rgba list \<Rightarrow> 's any_matcher option \<Rightarrow> 's mstate \<Rightarrow>
     (string + rgba \<times> 's mstate \<times> (nat \<times> nat) list) option" where
  "stitch_liveaction env le frames per_req st =
     (if length frames < 2 then fails ''need at least 2 frames''
      else
        (case opt_fold (liveaction_step env le per_req) (zip (masks_of env frames) (tl frames)) (hd frames, st) of
           None \<Rightarrow> None
         | Some (result, st) \<Rightarrow> yields (result, st, map (\<lambda>i. (i, length frames - 1)) [1..<length frames])))"

section \<open>What a mask marks\<close>

definition touches :: "int \<Rightarrow> nat \<Rightarrow> nat \<Rightarrow> nat \<Rightarrow> nat \<Rightarrow> bool" where
  "touches d x y x' y' \<longleftrightarrow> \<bar>int x - int x'\<bar> \<le> d \<and> \<bar>int y - int y'\<bar> \<le> d"

definition off_border :: "nat \<Rightarrow> nat \<Rightarrow> nat \<Rightarrow> nat \<Rightarrow> bool" where
  "off_border w h x y \<longleftrightarrow> 1 \<le> x \<and> x + 1 < w \<and> 1 \<le> y \<and> y + 1 < h"

lemma set_offsets: "k \<in> set offsets \<longleftrightarrow> fst k \<le> 2 \<and> snd k \<le> 2"
proof -
  obtain a b where k: "k = (a, b)" by (cases k)
  have o: "offsets = [(0, 0), (0, 1), (0, 2), (1, 0), (1, 1), (1, 2), (2, 0), (2, 1), (2, 2)]" by code_simp
  have "a \<le> 2 \<longleftrightarrow> a = 0 \<or> a = 1 \<or> a = 2" "b \<le> 2 \<longleftrightarrow> b = 0 \<or> b = 1 \<or> b = 2" by linarith+
  then show ?thesis unfolding k o fst_conv snd_conv by (simp only: list.set insert_iff empty_iff prod.inject simp_thms) blast
qed

lemma neighbour_touches:
  assumes "1 \<le> x" and "1 \<le> y"
  shows "(\<exists>k \<in> set offsets. P (x + snd k - 1) (y + fst k - 1)) \<longleftrightarrow> (\<exists>x' y'. touches 1 x y x' y' \<and> P x' y')"
proof
  assume "\<exists>k \<in> set offsets. P (x + snd k - 1) (y + fst k - 1)"
  then obtain k where k: "fst k \<le> 2" "snd k \<le> 2" "P (x + snd k - 1) (y + fst k - 1)" by (auto simp: set_offsets)
  have "touches 1 x y (x + snd k - 1) (y + fst k - 1)" using assms k(1,2) by (auto simp: touches_def)
  with k(3) show "\<exists>x' y'. touches 1 x y x' y' \<and> P x' y'" by blast
next
  assume "\<exists>x' y'. touches 1 x y x' y' \<and> P x' y'"
  then obtain x' y' where t: "touches 1 x y x' y'" "P x' y'" by blast
  show "\<exists>k \<in> set offsets. P (x + snd k - 1) (y + fst k - 1)"
  proof
    show "(y' + 1 - y, x' + 1 - x) \<in> set offsets" using t(1) by (auto simp: set_offsets touches_def)
    have "x + (x' + 1 - x) - 1 = x'" "y + (y' + 1 - y) - 1 = y'" using t(1) assms by (auto simp: touches_def)
    with t(2) show "P (x + snd (y' + 1 - y, x' + 1 - x) - 1) (y + fst (y' + 1 - y, x' + 1 - x) - 1)" by simp
  qed
qed

lemma foldl_max_marks:
  assumes "\<And>k. g k = (if Q k then 255 else 0)"
  shows "foldl (\<lambda>v k. max v (g k)) (if b then 255 else 0 :: byte) ks = (if b \<or> (\<exists>k \<in> set ks. Q k) then 255 else 0)"
proof (induction ks arbitrary: b)
  case (Cons k ks)
  have "max (if b then 255 else 0) (g k) = (if b \<or> Q k then 255 else 0)" by (simp add: assms)
  with Cons [of "b \<or> Q k"] show ?case by simp
qed simp

lemma dilate_marks:
  assumes "\<And>x y. gm_at img x y = (if P x y then 255 else 0)"
  shows "gm_at (dilate img) x y =
     (if off_border (gm_w img) (gm_h img) x y \<and> (\<exists>x' y'. touches 1 x y x' y' \<and> P x' y') then 255 else 0)"
proof (cases "off_border (gm_w img) (gm_h img) x y")
  case True
  have "(\<lambda>v (ky, kx). max v (gm_at img (x + kx - 1) (y + ky - 1))) = (\<lambda>v k. max v (gm_at img (x + snd k - 1) (y + fst k - 1)))"
    by (simp add: fun_eq_iff case_prod_beta)
  moreover have "foldl (\<lambda>v k. max v (gm_at img (x + snd k - 1) (y + fst k - 1))) (if False then 255 else 0) offsets =
      (if False \<or> (\<exists>k \<in> set offsets. P (x + snd k - 1) (y + fst k - 1)) then 255 else 0)"
    by (rule foldl_max_marks) (rule assms)
  ultimately show ?thesis using True neighbour_touches [of x y P] by (simp add: dilate_def off_border_def)
qed (auto simp: dilate_def off_border_def)

lemma dilate_size [simp]: "gm_w (dilate img) = gm_w img" "gm_h (dilate img) = gm_h img"
  by (simp_all add: dilate_def)

text \<open>Between two points at distance two there is one that is next to both, and on the border only if both are outside.\<close>

lemma between_touching:
  assumes "off_border w h x y" and "touches 2 x y x' y'" and "x' < w" and "y' < h"
  obtains u v where "touches 1 x y u v" and "off_border w h u v" and "touches 1 u v x' y'"
proof
  let ?u = "if x' = x + 2 then x + 1 else if x = x' + 2 then x - 1 else x"
  let ?v = "if y' = y + 2 then y + 1 else if y = y' + 2 then y - 1 else y"
  show "touches 1 x y ?u ?v" by (auto simp: touches_def)
  show "off_border w h ?u ?v" using assms(1,3,4) by (auto simp: off_border_def)
  show "touches 1 ?u ?v x' y'" using assms(2) by (auto simp: touches_def)
qed

text \<open>
  A pixel that both pictures have and in which they differ by more than 30 levels. \<open>near_motion\<close> is what the mask marks:
  it leaves out the border rows and columns, as the dilation does.
\<close>

definition moved_pixel :: "gray \<Rightarrow> gray \<Rightarrow> nat \<Rightarrow> nat \<Rightarrow> bool" where
  "moved_pixel gp gc x y \<longleftrightarrow> x < min (gr_width gp) (gr_width gc) \<and> y < min (gr_height gp) (gr_height gc) \<and> differs gp gc x y"

definition near_motion :: "gray \<Rightarrow> gray \<Rightarrow> nat \<Rightarrow> nat \<Rightarrow> bool" where
  "near_motion gp gc x y \<longleftrightarrow>
     off_border (gr_width gp) (gr_height gp) x y \<and> (\<exists>x' y'. touches 2 x y x' y' \<and> moved_pixel gp gc x' y')"

lemma mask_marks:
  "gm_at (compute_motion_mask gp gc) x y = (if near_motion gp gc x y then 255 else 0)"
proof -
  let ?w = "gr_width gp" and ?h = "gr_height gp"
  have d: "gm_w (difference_mask gp gc) = ?w" "gm_h (difference_mask gp gc) = ?h" by (simp_all add: difference_mask_def)
  have "gm_at (difference_mask gp gc) x y = (if moved_pixel gp gc x y then 255 else 0)" for x y
    by (simp add: difference_mask_def moved_pixel_def)
  note one = dilate_marks [of "difference_mask gp gc", OF this, unfolded d]
  note two = dilate_marks [of "dilate (difference_mask gp gc)", OF one, unfolded dilate_size d]
  have "(\<exists>u v. touches 1 x y u v \<and> off_border ?w ?h u v \<and> (\<exists>x' y'. touches 1 u v x' y' \<and> moved_pixel gp gc x' y')) \<longleftrightarrow>
      (\<exists>x' y'. touches 2 x y x' y' \<and> moved_pixel gp gc x' y')" if "off_border ?w ?h x y"
  proof
    assume "\<exists>u v. touches 1 x y u v \<and> off_border ?w ?h u v \<and> (\<exists>x' y'. touches 1 u v x' y' \<and> moved_pixel gp gc x' y')"
    then obtain u v x' y' where "touches 1 x y u v" "touches 1 u v x' y'" "moved_pixel gp gc x' y'" by blast
    moreover from this(1,2) have "touches 2 x y x' y'" by (auto simp: touches_def)
    ultimately show "\<exists>x' y'. touches 2 x y x' y' \<and> moved_pixel gp gc x' y'" by blast
  next
    assume "\<exists>x' y'. touches 2 x y x' y' \<and> moved_pixel gp gc x' y'"
    then obtain x' y' where m: "touches 2 x y x' y'" "moved_pixel gp gc x' y'" by blast
    then have "x' < ?w" "y' < ?h" by (simp_all add: moved_pixel_def)
    with between_touching [OF that m(1)] m(2)
    show "\<exists>u v. touches 1 x y u v \<and> off_border ?w ?h u v \<and> (\<exists>x' y'. touches 1 u v x' y' \<and> moved_pixel gp gc x' y')" by metis
  qed
  then show ?thesis unfolding compute_motion_mask_def two near_motion_def by auto
qed

text \<open>
  The motion mask has the size of the earlier frame and marks, with 255, exactly the pixels off its border that are
  within two pixels, in both directions, of one in which the frames differ by more than 30 gray levels; all others are 0.
  So two rounds of dilation lose nothing inside, and whatever moves along the border itself is never marked there.
\<close>

theorem motion_mask_exact:
  "gm_w (compute_motion_mask gp gc) = gr_width gp \<and> gm_h (compute_motion_mask gp gc) = gr_height gp
   \<and> gm_at (compute_motion_mask gp gc) x y =
       (if off_border (gr_width gp) (gr_height gp) x y
           \<and> (\<exists>x' y'. touches 2 x y x' y' \<and> x' < min (gr_width gp) (gr_width gc) \<and> y' < min (gr_height gp) (gr_height gc)
                \<and> 30 < \<bar>get_pixel gp x' y' - get_pixel gc x' y'\<bar>)
        then 255 else 0)"
  by (simp add: mask_marks near_motion_def moved_pixel_def differs_def) (simp add: compute_motion_mask_def difference_mask_def)

section \<open>The homography of the background\<close>

lemma background_still:
  assumes "background (compute_motion_mask gp gc) (ax, ay, bx, b_y)"
  shows "\<not> near_motion gp gc (f_to_u32 ax) (f_to_u32 ay)" "\<not> near_motion gp gc (f_to_u32 bx) (f_to_u32 b_y)"
proof -
  have "in_motion (compute_motion_mask gp gc) u v" if "near_motion gp gc (f_to_u32 u) (f_to_u32 v)" for u v
    using that by (simp add: in_motion_def mask_marks) (simp add: compute_motion_mask_def difference_mask_def near_motion_def off_border_def)
  with assms show "\<not> near_motion gp gc (f_to_u32 ax) (f_to_u32 ay)" "\<not> near_motion gp gc (f_to_u32 bx) (f_to_u32 b_y)"
    by (auto simp: background_def)
qed

text \<open>
  C32: A picture stitched behind the motion mask rests on matches the mask leaves. Its homography was computed by USAC from
  at least eight matches with at least eight inliers and passed the sanity check; both ends of each of these matches have
  coordinates that the mask does not mark, that is, which lie on the border of the earlier frame or more than two pixels
  from every pixel in which the two single frames differ; and all of them are displaced, in both directions, by less than
  the tolerance (0.15 of the width) from the median displacement of all matches the mask leaves. The mask knows neither
  motion along the border nor the shift between the earlier frame and the picture accumulated so far, whose coordinates
  the matches carry from the third frame on.
\<close>

theorem background_only:
  assumes "stitch_pair_motion_filtered env a b (compute_motion_mask gp gc) per_req st = (Some (Inr out), st')"
    and "w = cv_cols (se_cv env) (se_mat env a)" and "h = cv_rows (se_cv env) (se_mat env a)"
  shows "\<exists>homo good bg.
      out = warp_expand_blend env a (se_mat env b) homo w h (cv_cols (se_cv env) (se_mat env b)) (cv_rows (se_cv env) (se_mat env b))
      \<and> supported (se_cv env) homo \<and> homography_is_sane (se_cv env) homo w h
      \<and> homography_usac (se_cv env) good = Some (Inr homo) \<and> 8 \<le> length good \<and> set good \<subseteq> set bg
      \<and> (\<forall>(ax, ay, bx, b_y) \<in> set bg.
           \<not> near_motion gp gc (f_to_u32 ax) (f_to_u32 ay) \<and> \<not> near_motion gp gc (f_to_u32 bx) (f_to_u32 b_y))
      \<and> (\<forall>m \<in> set good.
           fl_less (fl_abs (g_sub (shift_x m) (median_f32 (map shift_x bg)))) (tolerance_of w)
           \<and> fl_less (fl_abs (g_sub (shift_y m) (median_f32 (map shift_y bg)))) (tolerance_of w))"
proof -
  let ?m = "compute_motion_mask gp gc"
  obtain ms homo where ms: "\<not> length (filter (background ?m) ms) < min_inliers"
      "\<not> length (displacement_prefilter_raw (filter (background ?m) ms) (tolerance_of w)) < min_inliers"
      "homography_usac (se_cv env) (displacement_prefilter_raw (filter (background ?m) ms) (tolerance_of w)) = Some (Inr homo)"
      "homography_is_sane (se_cv env) homo w h"
      "out = warp_expand_blend env a (se_mat env b) homo w h (cv_cols (se_cv env) (se_mat env b)) (cv_rows (se_cv env) (se_mat env b))"
    using assms(1) unfolding stitch_pair_motion_filtered_def Let_def assms(2,3)
    by (auto simp: and_then_eq_yields yields_def split: prod.splits)
  define bg where "bg = filter (background ?m) ms"
  define good where "good = displacement_prefilter_raw bg (tolerance_of w)"
  have g: "good = filter (consistent (median_f32 (map shift_x bg)) (median_f32 (map shift_y bg)) (tolerance_of w)) bg"
    using ms(1) by (simp add: good_def bg_def displacement_prefilter_raw_def min_inliers_def)
  have "\<not> near_motion gp gc (f_to_u32 ax) (f_to_u32 ay) \<and> \<not> near_motion gp gc (f_to_u32 bx) (f_to_u32 b_y)"
    if "(ax, ay, bx, b_y) \<in> set bg" for ax ay bx b_y
    using background_still [of gp gc ax ay bx b_y] that by (simp add: bg_def)
  then have still: "\<forall>(ax, ay, bx, b_y) \<in> set bg.
      \<not> near_motion gp gc (f_to_u32 ax) (f_to_u32 ay) \<and> \<not> near_motion gp gc (f_to_u32 bx) (f_to_u32 b_y)" by auto
  have "8 \<le> length good" using ms(2) by (simp add: good_def bg_def min_inliers_def)
  moreover from usac_supported [OF _ this] ms(3) have "supported (se_cv env) homo" by (simp add: good_def bg_def)
  moreover have "set good \<subseteq> set bg" by (auto simp: g)
  moreover have "\<forall>m \<in> set good. fl_less (fl_abs (g_sub (shift_x m) (median_f32 (map shift_x bg)))) (tolerance_of w)
      \<and> fl_less (fl_abs (g_sub (shift_y m) (median_f32 (map shift_y bg)))) (tolerance_of w)"
    by (simp add: g consistent_def)
  ultimately show ?thesis
    using ms(3-5) still by (intro exI [of _ homo] exI [of _ good] exI [of _ bg]) (simp add: good_def bg_def)
qed

section \<open>Clusters of displacements\<close>

lemma most_near_best:
  "most_near count ds best = (d, n) \<Longrightarrow>
     n = max (snd best) (foldr (\<lambda>e. max (count e)) ds 0) \<and> (d, n) \<in> insert best ((\<lambda>e. (e, count e)) ` set ds)"
proof (induction ds arbitrary: best)
  case (Cons e ds)
  from Cons.IH [of "if snd best < count e then (e, count e) else best"] Cons.prems show ?case by (auto simp: max_def split: if_splits)
qed auto

lemma foldr_max_upper: "e \<in> set ds \<Longrightarrow> count e \<le> foldr (\<lambda>e. max (count e)) ds (0 :: nat)"
  by (induction ds) (auto simp: le_max_iff_disj)

text \<open>
  The cluster of displacements is a best one. When a translation is found it is one of the displacements, rounded, with
  at least the number of neighbours asked for, and no displacement has more; none is found exactly when every displacement
  has too few.
\<close>

theorem cluster_best:
  assumes "0 < least"
  shows "case best_displacement_cluster ds px_threshold least of
      None \<Rightarrow> \<forall>d \<in> set ds. near_count px_threshold ds d < least
    | Some (dx, dy) \<Rightarrow> \<exists>d \<in> set ds. dx = f_to_i32 (f_round (fst d)) \<and> dy = f_to_i32 (f_round (snd d))
        \<and> least \<le> near_count px_threshold ds d \<and> (\<forall>e \<in> set ds. near_count px_threshold ds e \<le> near_count px_threshold ds d)"
proof (cases "length ds < least")
  case True
  have "near_count px_threshold ds d < least" for d
    unfolding near_count_def by (rule order.strict_trans1 [OF length_filter_le True])
  with True show ?thesis by (simp add: best_displacement_cluster_def)
next
  case False
  let ?c = "near_count px_threshold ds"
  obtain d n where m: "most_near ?c ds ((Fin 0, Fin 0), 0) = (d, n)" by fastforce
  from most_near_best [OF m] have n: "n = foldr (\<lambda>e. max (?c e)) ds 0" "(d, n) = ((Fin 0, Fin 0), 0) \<or> d \<in> set ds \<and> n = ?c d" by auto
  have up: "\<forall>e \<in> set ds. ?c e \<le> n" unfolding n(1) by (auto intro: foldr_max_upper)
  show ?thesis
  proof (cases "least \<le> n")
    case True
    with n(2) assms have "d \<in> set ds" "n = ?c d" by auto
    with True up False m show ?thesis by (auto simp: best_displacement_cluster_def case_prod_beta intro!: bexI [of _ d])
  next
    case less: False
    with up False m show ?thesis by (fastforce simp: best_displacement_cluster_def case_prod_beta)
  qed
qed

section \<open>The stitcher returns\<close>

lemma grown_grows:
  assumes "11 \<le> n" and "n < 2 ^ 26"
  shows "n < grown n"
proof -
  define q where "q = (of_nat n :: rat)"
  have q: "11 \<le> q" "q < 67108864" using assms by (simp_all add: q_def of_nat_less_numeral_iff)
  obtain t where t: "round64 (11 / 10) = Fin t" "\<bar>t - 11 / 10\<bar> \<le> 1 / 10000000000" by (rule round64_close [of "11 / 10"]) simp_all
  have tb: "12 / 11 \<le> t" "t \<le> 2" using t(2) by linarith+
  have "12 / 11 * q \<le> q * t" using mult_left_mono [OF tb(1), of q] q(1) by (simp add: mult.commute)
  with q(1) have lo: "q + 1 \<le> q * t" by linarith
  have hi: "q * t \<le> 2 * q" using mult_left_mono [OF tb(2), of q] q(1) by (simp add: mult.commute)
  have b: "\<bar>int n + 1\<bar> < 2 ^ 53" "\<bar>2 * int n\<bar> < 2 ^ 53" using assms by simp_all
  obtain y where y: "round64 (q * t) = Fin y" "of_int (int n + 1) \<le> y" "y \<le> of_int (2 * int n)"
    by (rule round64_within [OF _ _ b, of "q * t"]) (use lo hi in \<open>simp_all add: q_def\<close>)
  have f: "f_of_int (int n) = Fin q" using f_of_int_exact [of "int n"] assms(2) by (simp add: q_def)
  have "0 \<le> y" using y(2) by (rule order.trans [rotated]) simp
  have fl: "int n + 1 \<le> \<lfloor>y\<rfloor>" using y(2) by (simp only: le_floor_iff)
  then have "int n + 1 \<le> min (int u32_max) (trunc y)" using \<open>0 \<le> y\<close> assms(2) by (simp add: trunc_def u32_max_def)
  then have "int n < max 0 (min (int u32_max) (trunc y))" by linarith
  then show ?thesis by (simp add: grown_def f t(1) y(1) zless_nat_eq_int_zless del: max_less_iff_conj min_less_iff_conj)
qed

text \<open>
  The filling of the foreground is dead code. On a picture of 11 columns or more, a pair that is stitched behind the mask
  is only accepted when the canvas is wider than the picture, and then the step that would copy the moving pixels of the
  new frame is skipped: every step gives exactly what it would give without that code.
\<close>

theorem foreground_never_filled:
  assumes "11 \<le> rg_w result" and "rg_w result < 2 ^ 26"
  shows "liveaction_step env le per_req (motion, img) (result, st) =
      (case motion_stitch env per_req motion img result st of
         (None, _) \<Rightarrow> None
       | (Some (Inr out), st) \<Rightarrow> Some (out, st)
       | (Some (Inl _), st) \<Rightarrow> without_mask env le per_req result img st)
     \<and> (\<forall>out st'. motion_stitch env per_req motion img result st = (Some (Inr out), st') \<longrightarrow> rg_w result < rg_w out)"
proof -
  have w: "rg_w result < rg_w out" if "motion_stitch env per_req motion img result st = (Some (Inr out), st')" for out st'
    using that grown_grows [OF assms] by (auto simp: motion_stitch_def and_then_eq_yields yields_def split: prod.splits)
  show ?thesis
  proof
    show "liveaction_step env le per_req (motion, img) (result, st) =
      (case motion_stitch env per_req motion img result st of
         (None, _) \<Rightarrow> None
       | (Some (Inr out), st) \<Rightarrow> Some (out, st)
       | (Some (Inl _), st) \<Rightarrow> without_mask env le per_req result img st)"
      using w by (auto simp: liveaction_step_def split: prod.split option.split sum.split)
  qed (use w in blast)
qed

text \<open>A matrix made of a picture has its size.\<close>

definition sized :: "('s, 'm) stitch_env \<Rightarrow> bool" where
  "sized env \<longleftrightarrow> (\<forall>img. cv_cols (se_cv env) (se_mat env img) = rg_w img \<and> cv_rows (se_cv env) (se_mat env img) = rg_h img)"

lemma step_warp_size:
  assumes "overlays (se_overlay env)" and "at_most w h img" and "at_most (20 * w) (20 * h) result"
  shows "at_most (20 * w) (20 * h) (warp_expand_blend env result cur homo (rg_w result) (rg_h result) (rg_w img) (rg_h img))"
  using warp_size [OF assms(1), of "rg_w result" "rg_h result" "rg_w img" "rg_h img" result cur homo] assms(2,3)
  unfolding at_most_def by (auto simp: le_max_iff_disj intro: order.trans)

lemma without_mask_size:
  assumes "overlays (se_overlay env)" and "se_alloc env" and "sized env"
    and "\<forall>a b img. stitch_with_opencv_panorama env a b = Inr img \<longrightarrow> at_most (20 * w) (20 * h) img"
    and "at_most w h img" and "at_most (20 * w) (20 * h) result"
  shows "case without_mask env le per_req result img st of
      None \<Rightarrow> \<exists>m a b. run_matcher (se_cv env) m a b = None
    | Some (r, _) \<Rightarrow> at_most (20 * w) (20 * h) r"
proof -
  let ?a = "se_mat env result" and ?b = "se_mat env img"
  have d: "cv_cols (se_cv env) (se_mat env i) = rg_w i" "cv_rows (se_cv env) (se_mat env i) = rg_h i" for i
    using assms(3) by (simp_all add: sized_def)
  note W = step_warp_size [OF assms(1,5,6)]
  define shared where "shared = (\<lambda>st. case estimate_pair (se_cv env) ?a ?b None st of
      (None, _) \<Rightarrow> None
    | (Some (Inr homo), st) \<Rightarrow> Some (warp_expand_blend env result ?b homo (rg_w result) (rg_h result) (rg_w img) (rg_h img), st)
    | (Some (Inl _), st) \<Rightarrow>
        (case last_translation env le result img of
           (dx, dy) \<Rightarrow> Some (if se_alloc env
                              then warp_expand_blend env result ?b (translation dx dy) (rg_w result) (rg_h result) (rg_w img) (rg_h img)
                              else side_by_side env result img dx dy, st)))"
  have S: "case shared st of None \<Rightarrow> \<exists>m a b. run_matcher (se_cv env) m a b = None | Some (r, _) \<Rightarrow> at_most (20 * w) (20 * h) r" for st
  proof -
    obtain e st' where e: "estimate_pair (se_cv env) ?a ?b None st = (e, st')" by fastforce
    then have "\<exists>m a b. run_matcher (se_cv env) m a b = None" if "e = None" using that estimate_panics by (metis fst_conv)
    with e W assms(2) show ?thesis by (cases e) (auto simp: shared_def split: sum.split prod.split)
  qed
  define others where "others = (\<lambda>st. case stitch_with_opencv_panorama env ?a ?b of Inr stitched \<Rightarrow> Some (stitched, st) | Inl _ \<Rightarrow> shared st)"
  have O: "case others st of None \<Rightarrow> \<exists>m a b. run_matcher (se_cv env) m a b = None | Some (r, _) \<Rightarrow> at_most (20 * w) (20 * h) r" for st
    using S [of st] assms(4) by (auto simp: others_def split: sum.split)
  have U: "at_most (20 * w) (20 * h) r"
    if "unmasked_warp env result ?b (rg_w result) (rg_h result) (rg_w img) (rg_h img) homo = Some r" for r homo
    using that W by (auto simp: unmasked_warp_def Let_def split: if_splits)
  obtain e st' where e: "estimate_pair (se_cv env) ?a ?b per_req st = (e, st')" by fastforce
  have "without_mask env le per_req result img st = (case e of
        None \<Rightarrow> None
      | Some (Inl _) \<Rightarrow> others st'
      | Some (Inr homo) \<Rightarrow>
          (case unmasked_warp env result ?b (rg_w result) (rg_h result) (rg_w img) (rg_h img) homo of
             Some stitched \<Rightarrow> Some (stitched, st') | None \<Rightarrow> others st'))"
  proof (cases e)
    case (Some r)
    then show ?thesis unfolding without_mask_def Let_def d others_def shared_def e by (cases r) simp_all
  qed (simp add: without_mask_def Let_def d e)
  moreover have "\<exists>m a b. run_matcher (se_cv env) m a b = None" if "e = None" using e that estimate_panics by (metis fst_conv)
  ultimately show ?thesis using O [of st'] U by (cases e) (auto split: sum.split option.split prod.split)
qed

lemma motion_stitch_result:
  assumes "overlays (se_overlay env)" and "sized env" and "at_most w h img" and "at_most (20 * w) (20 * h) result"
    and "motion_stitch env per_req motion img result st = (r, st')"
  shows "r = None \<Longrightarrow> \<exists>m a b. run_matcher (se_cv env) m a b = None" and "r = Some (Inr out) \<Longrightarrow> at_most (20 * w) (20 * h) out"
proof -
  have d: "cv_cols (se_cv env) (se_mat env i) = rg_w i" "cv_rows (se_cv env) (se_mat env i) = rg_h i" for i
    using assms(2) by (simp_all add: sized_def)
  show "\<exists>m a b. run_matcher (se_cv env) m a b = None" if "r = None"
    using assms(5) that
    by (auto simp: motion_stitch_def stitch_pair_motion_filtered_def match_images_def and_then_panics Let_def yields_def fails_def usac_returns
        split: prod.splits option.splits)
  show "at_most (20 * w) (20 * h) out" if "r = Some (Inr out)"
    using assms(5) that step_warp_size [OF assms(1,3,4)]
    by (auto simp: motion_stitch_def stitch_pair_motion_filtered_def and_then_eq_yields Let_def d yields_def split: prod.splits)
qed

text \<open>
  The chain of live action has no error of its own. Two frames or more are never answered by an error: whatever the mask,
  the matchers, OpenCV and the panorama stitcher do, some method of the chain gives a picture, unless a matcher panics, and
  every pair is reported. If the pictures of the panorama stitcher happen to stay within twenty frames, so does the result;
  nothing documented of OpenCV promises that. Pictures beyond 2^30 pixels, where a size in \<^verbatim>\<open>u32\<close> wraps, are left out.
\<close>

theorem liveaction_returns:
  assumes "2 \<le> length frames" and "\<forall>img \<in> set frames. at_most w h img" and "overlays (se_overlay env)" and "se_alloc env"
    and "sized env" and "\<forall>a b img. stitch_with_opencv_panorama env a b = Inr img \<longrightarrow> at_most (20 * w) (20 * h) img"
  shows "case stitch_liveaction env le frames per_req st of
      None \<Rightarrow> \<exists>m a b. run_matcher (se_cv env) m a b = None
    | Some (Inl _) \<Rightarrow> False
    | Some (Inr (r, _, reports)) \<Rightarrow>
        at_most (20 * w) (20 * h) r \<and> reports = map (\<lambda>i. (i, length frames - 1)) [1..<length frames]"
proof -
  let ?ok = "\<lambda>r. case r of None \<Rightarrow> \<exists>m a b. run_matcher (se_cv env) m a b = None | Some (r, _) \<Rightarrow> at_most (20 * w) (20 * h) r"
  have step: "?ok (liveaction_step env le per_req (motion, img) (result, st))"
    if "at_most w h img" "at_most (20 * w) (20 * h) result" for motion img result st
  proof -
    obtain r st' where m: "motion_stitch env per_req motion img result st = (r, st')" by fastforce
    note res = motion_stitch_result [OF assms(3,5) that m]
    have "at_most (20 * w) (20 * h) (fill_foreground out motion img)" if "at_most (20 * w) (20 * h) out" for out
      using that by (simp add: at_most_def fill_foreground_def Let_def)
    with res m without_mask_size [OF assms(3,4,5,6) that, of le per_req st'] show ?thesis
      by (cases r) (auto simp: liveaction_step_def split: sum.split)
  qed
  have fold: "?ok (opt_fold (liveaction_step env le per_req) xs acc)"
    if "\<forall>f \<in> set xs. at_most w h (snd f)" "at_most (20 * w) (20 * h) (fst acc)" for xs acc
    using that
  proof (induction xs arbitrary: acc)
    case (Cons x xs)
    have s: "?ok (liveaction_step env le per_req x acc)"
      using step [of "snd x" "fst acc" "fst x" "snd acc"] Cons.prems by simp
    show ?case
    proof (cases "liveaction_step env le per_req x acc")
      case (Some a)
      with s have "at_most (20 * w) (20 * h) (fst a)" by (simp add: case_prod_beta)
      with Cons.IH [of a] Cons.prems Some show ?thesis by simp
    qed (use s in simp)
  qed (auto split: prod.split)
  have "at_most w h (hd frames)" using assms(1,2) by (cases frames) auto
  then have hd: "at_most (20 * w) (20 * h) (hd frames)" by (simp add: at_most_def)
  have "\<forall>f \<in> set (zip (masks_of env frames) (tl frames)). at_most w h (snd f)"
    using assms(2) by (cases frames) (auto dest!: set_zip_rightD)
  from fold [OF this, of "(hd frames, st)"] hd
  have "?ok (opt_fold (liveaction_step env le per_req) (zip (masks_of env frames) (tl frames)) (hd frames, st))" by simp
  then show ?thesis using assms(1) by (auto simp: stitch_liveaction_def yields_def split: option.splits prod.splits)
qed

section \<open>A pan of two pixels\<close>

text \<open>
  Pictures of 11 by 1 pixels; the model finds eight matches, the homography moves by two pixels, and its inverse back. No
  key points are found, the panorama stitcher gives a picture of two pixels.
\<close>

definition strip :: rgba where
  "strip = \<lparr>rg_w = 11, rg_h = 1, rg_at = \<lambda>_ _ c. if c = 0 \<or> c = 3 then 255 else 0\<rparr>"

definition strip_cv :: "(nat, rgba) cv_env" where
  "strip_cv =
     \<lparr>cv_ort = demo_ort, cv_cols = rg_w, cv_rows = rg_h, cv_channels = \<lambda>_. 1, cv_bytes = \<lambda>m. Inr (replicate (rg_h m * rg_w m) 0),
      cv_cvt_color = \<lambda>_ m. Inr m, cv_resize = \<lambda>_ _ m. Inr m, cv_empty = \<lambda>_. False,
      cv_run_loftr = \<lambda>_ _ _. Inl [], cv_run_lightglue = \<lambda>_ _ _. Inl [],
      cv_run_pipeline = \<lambda>_ _. Inr ([2, 1, 2], [0, 0, 0, 0], replicate 24 0, replicate 8 (Fin 1)), cv_millis = 5,
      cv_homography = \<lambda>_. Inr (translation 2 0, \<lambda>_. Some 1), cv_akaze = \<lambda>_. Inl [], cv_knn = \<lambda>_ _. Inl [],
      cv_sqrt = \<lambda>x. x, cv_angle = \<lambda>_ _. Fin 0\<rparr>"

definition strip_se :: "(nat, rgba) stitch_env" where
  "strip_se =
     \<lparr>se_cv = strip_cv, se_mat = \<lambda>img. img, se_invert = \<lambda>_. Inr (translation (- 2) 0), se_warp = \<lambda>_ _ _ _. Inr half_blue,
      se_alloc = True, se_overlay = se_overlay demo_se, se_luma = \<lambda>_. \<lparr>gr_width = 11, gr_height = 1, gr_pixels = replicate 11 0\<rparr>,
      se_to_bgr = Inr, se_stitch = \<lambda>_ _. Inr (Some strip), se_to_rgba = Inr, se_pixels = \<lambda>_. (2, 1, Inr (replicate 8 255)),
      se_sift = \<lambda>_. Inl [], se_match = \<lambda>_ _. Inl [], se_fourier = se_fourier demo_se, se_cos = \<lambda>_. Fin 1, se_tan = \<lambda>_. Fin 0\<rparr>"

definition strip_le :: "rgba live_env" where
  "strip_le = \<lparr>le_edges = \<lambda>_. Inl [], le_best = \<lambda>_ _ _. None, le_knn = \<lambda>_ _. Inl []\<rparr>"

lemma strip_overlays: "overlays (se_overlay strip_se)" "se_alloc strip_se" "sized strip_se"
  using demo_overlays by (simp_all add: strip_se_def sized_def strip_cv_def)

theorem cluster_best_witness:
  "case best_displacement_cluster [(Fin 0, Fin 0)] (Fin 5) 1 of
      None \<Rightarrow> \<forall>d \<in> set [(Fin 0, Fin 0)]. near_count (Fin 5) [(Fin 0, Fin 0)] d < 1
    | Some (dx, dy) \<Rightarrow> \<exists>d \<in> set [(Fin 0, Fin 0)]. dx = f_to_i32 (f_round (fst d)) \<and> dy = f_to_i32 (f_round (snd d))
        \<and> 1 \<le> near_count (Fin 5) [(Fin 0, Fin 0)] d
        \<and> (\<forall>e \<in> set [(Fin 0, Fin 0)]. near_count (Fin 5) [(Fin 0, Fin 0)] e \<le> near_count (Fin 5) [(Fin 0, Fin 0)] d)"
  by (rule cluster_best) simp

theorem liveaction_returns_witness:
  "\<exists>r st' reports. stitch_liveaction strip_se strip_le [strip, strip, strip] None (demo_st\<lparr>ms_global := Some None\<rparr>) = Some (Inr (r, st', reports))
     \<and> at_most 220 20 r \<and> reports = [(1, 2), (2, 2)]"
proof -
  let ?st = "demo_st\<lparr>ms_global := Some None\<rparr>" and ?fs = "[strip, strip, strip]"
  have g: "matcher_guard (cv_ort (se_cv strip_se)) st = (None, st)" if "ms_global st = Some None" for st :: "nat mstate"
    using that by (simp add: matcher_guard_def)
  have e: "estimate_pair (se_cv strip_se) a b None st = (Some (Inl []), st)" if "ms_global st = Some None" for a b st
    using g [OF that] by (simp add: estimate_pair_def estimate_homography_inner_def estimate_homography_akaze_def strip_se_def strip_cv_def Let_def)
  have p: "stitch_with_opencv_panorama strip_se a b = Inr (the (rgba_from_raw 2 1 (replicate 8 255)))" for a b
    by (simp add: stitch_with_opencv_panorama_def strip_se_def rgba_from_raw_def)
  have l: "liveaction_step strip_se strip_le None f (r, st) = Some (the (rgba_from_raw 2 1 (replicate 8 255)), st)"
    if "ms_global st = Some None" for f r st
    using g [OF that] e [OF that] p
    by (cases f) (simp add: liveaction_step_def motion_stitch_def stitch_pair_motion_filtered_def fails_def without_mask_def Let_def)
  have s: "\<exists>r st' reports. stitch_liveaction strip_se strip_le ?fs None ?st = Some (Inr (r, st', reports))"
    by (simp add: stitch_liveaction_def masks_of_def upt_rec l yields_def)
  have b: "\<forall>a b img. stitch_with_opencv_panorama strip_se a b = Inr img \<longrightarrow> at_most (20 * 11) (20 * 1) img"
    by (simp add: p rgba_from_raw_def at_most_def)
  have "\<forall>img \<in> set ?fs. at_most 11 1 img" by (simp add: strip_def at_most_def)
  from liveaction_returns [OF _ this strip_overlays b, of strip_le None ?st] s show ?thesis by (auto simp: upt_rec)
qed

lemma small_ints:
  "round64 0 = Fin 0" "round64 1 = Fin 1" "round64 2 = Fin 2" "round64 10 = Fin 10" "round64 12 = Fin 12" "round64 22 = Fin 22"
  "f_of_int 0 = Fin 0" "f_of_int 1 = Fin 1" "f_of_int 2 = Fin 2" "f_of_int (- 2) = Fin (- 2)" "f_of_int 11 = Fin 11" "f_of_int 44 = Fin 44"
  "f_of_int 22 = Fin 22"
  using round64_int [of 0] round64_int [of 1] round64_int [of 2] round64_int [of 10] round64_int [of 12] round64_int [of 22]
    f_of_int_exact [of 0] f_of_int_exact [of 1] f_of_int_exact [of 2] f_of_int_exact [of "- 2"] f_of_int_exact [of 11] f_of_int_exact [of 44]
    f_of_int_exact [of 22]
  by simp_all

lemma strip_corners: "corners (translation (- 2) 0) 11 11 1 = [(Fin 2, Fin 0), (Fin 12, Fin 0), (Fin 2, Fin 0), (Fin 12, Fin 0)]"
proof -
  obtain t where t: "round64 (1 / 100000000) = Fin t" "\<bar>t - 1 / 100000000\<bar> \<le> 1 / 10000000000" by (rule round64_close [of "1 / 100000000"]) simp_all
  have "t < 1" using t(2) by linarith
  then show ?thesis
    using t(1) by (simp add: corners_def project_def h_at_def translation_def Let_def f_add_def f_sub_def fl_bound_def small_ints fl_max_def
        del: fl_max_fin)
qed

lemma strip_warp: "rg_w (warp_expand_blend strip_se strip strip (translation 2 0) 11 1 11 1) = 13"
proof -
  have c: "f_sub (f_of_int 11) (Fin 1) = Fin 10" by (simp add: f_sub_def f_add_def small_ints)
  have far: "\<not> too_far (corners (translation (- 2) 0) 11 11 1) 11 11"
    by (simp add: strip_corners [simplified] too_far_def Let_def small_ints)
  have v: "map fst (corners (translation (- 2) 0) 11 11 1) = [Fin 2, Fin 12, Fin 2, Fin 12]" by (simp add: strip_corners [simplified])
  have g: "least_coord [Fin 2, Fin 12, Fin 2, Fin 12] 11 = 0" "greatest_coord [Fin 2, Fin 12, Fin 2, Fin 12] 11 = 12"
    using c by (simp_all add: least_coord_def greatest_coord_def fl_min_def fl_max_def trunc_def)
  have "canvas_len [Fin 2, Fin 12, Fin 2, Fin 12] 11 11 = 13" by (simp add: canvas_len_def g)
  moreover have "se_invert strip_se (translation 2 0) = Inr (translation (- 2) 0)" by (simp add: strip_se_def)
  ultimately show ?thesis
    using warp_expanded [of strip_se "translation 2 0" "translation (- 2) 0" 11 11 1, where base = strip and cur = strip and bh = 1, OF _ far]
      strip_overlays(1,2) by (simp add: blend_size overlays_def blank_def warped_frame_def Let_def v [unfolded One_nat_def])
qed

definition still_mask :: gray_mask where
  "still_mask = compute_motion_mask (se_luma strip_se strip) (se_luma strip_se strip)"

lemma strip_matches: "run_matcher strip_cv (LightGlueV2 s n) strip strip = Some (Inr (replicate 8 (Fin 0, Fin 0, Fin 0, Fin 0)))"
proof -
  have z: "g_of_int 0 = Fin 0" by (simp add: g_of_int_def round32_def round_fl_def Let_def)
  have l: "[0..<8] = [0, 1, 2, 3, 4, 5, 6, 7 :: nat]" by (simp add: upt_rec)
  have "read_pipeline_one 1 [0, 0, 0, 0] (replicate 24 0) (replicate 8 (Fin 1)) i = Some (Some (Fin 0, Fin 0, Fin 0, Fin 0))" if "i < 8" for i
    using that by (simp add: read_pipeline_one_def lightglue_threshold_def as_usize_def z)
  then show ?thesis
    by (simp add: pipeline_match_images_def mat_to_gray_array_def to_gray_def gray_tensor_def concat_images_def check_that_def
        yields_def strip_cv_def strip_def l numeral_eq_Suc)
qed

lemma strip_stitched:
  "fst (stitch_pair_motion_filtered strip_se strip strip still_mask (Some (LightGlueV2 7 [])) demo_st) =
     Some (Inr (warp_expand_blend strip_se strip strip (translation 2 0) 11 1 11 1))"
proof -
  let ?z = "(Fin 0, Fin 0, Fin 0, Fin 0) :: point_match"
  have m: "background still_mask ?z"
    by (simp add: background_def in_motion_def still_mask_def mask_marks near_motion_def off_border_def strip_se_def Let_def)
  have r0: "round32 0 = Fin 0" using round32_int [of 0] by simp
  have sh: "g_sub (Fin 0) (Fin 0) = Fin 0" by (simp add: g_sub_def g_add_def r0)
  have rep: "replicate 8 x = [x, x, x, x, x, x, x, x]" for x :: 'a by (simp add: numeral_eq_Suc)
  have med: "median_f32 (replicate 8 (Fin 0)) = Fin 0"
    unfolding rep by (simp add: median_f32_def sort_f32_def g_div_def g_add_def r0)
  obtain t where t: "round32 (15 / 100) = Fin t" "\<bar>t - 15 / 100\<bar> \<le> \<bar>15 / 100\<bar> / 16777216 + 1 / 10000000000000000000000000000000000000000"
    by (rule round32_near [of "15 / 100"]) simp_all
  have t1: "1 / 10 \<le> t" "t \<le> 2 / 10" using t(2) by linarith+
  obtain q where q: "round32 (11 * t) = Fin q" "\<bar>q - 11 * t\<bar> \<le> \<bar>11 * t\<bar> / 16777216 + 1 / 10000000000000000000000000000000000000000"
    by (rule round32_near [of "11 * t"]) (use t1 in simp_all)
  have "0 < q" using q(2) t1 by linarith
  moreover have "g_of_nat 11 = Fin 11" using g_of_nat_exact [of 11] by simp
  ultimately have tol: "consistent (Fin 0) (Fin 0) (tolerance_of 11) ?z"
    using q(1) t(1) by (simp add: consistent_def sh g_sub_def g_add_def r0 tolerance_of_def g_mul_def)
  have good: "displacement_prefilter_raw (replicate 8 ?z) (tolerance_of 11) = replicate 8 ?z"
    using tol med by (simp add: displacement_prefilter_raw_def sh filter_replicate)
  obtain l where l: "round64 (82 / 100) = Fin l" "\<bar>l - 82 / 100\<bar> \<le> 1 / 10000000000" by (rule round64_close [of "82 / 100"]) simp_all
  obtain u where u: "round64 (122 / 100) = Fin u" "\<bar>u - 122 / 100\<bar> \<le> 1 / 10000000000" by (rule round64_close [of "122 / 100"]) simp_all
  obtain e where e: "round64 (5 / 10000) = Fin e" "\<bar>e - 5 / 10000\<bar> \<le> 1 / 10000000000" by (rule round64_close [of "5 / 10000"]) simp_all
  have "l < 1" "1 < u" "0 < e" using l(2) u(2) e(2) by linarith+
  then have sane: "homography_is_sane strip_cv (translation 2 0) 11 1"
    using l(1) u(1) e(1) by (simp add: homography_is_sane_def h_at_def translation_def strip_cv_def f_add_def Let_def small_ints)
  have us: "homography_usac strip_cv (replicate 8 ?z) = Some (Inr (translation 2 0))"
    by (simp add: homography_usac_def strip_cv_def translation_def check_that_def inlier_count_def min_inliers_def yields_def)
  have d: "cv_cols strip_cv = rg_w" "cv_rows strip_cv = rg_h" "rg_w strip = 11" "rg_h strip = 1" "se_cv strip_se = strip_cv"
    "se_mat strip_se = (\<lambda>img. img)"
    by (simp_all add: strip_cv_def strip_def strip_se_def)
  show ?thesis
    using m strip_matches [of 7 "[]"] good sane us
    by (simp add: stitch_pair_motion_filtered_def Let_def match_images_def d filter_replicate check_that_def min_inliers_def yields_def
        del: run_matcher.simps)
qed

theorem background_only_witness:
  "\<exists>homo good bg. supported strip_cv homo \<and> homography_usac strip_cv good = Some (Inr homo) \<and> 8 \<le> length good \<and> set good \<subseteq> set bg"
proof -
  let ?g = "se_luma strip_se strip"
  obtain st' where "stitch_pair_motion_filtered strip_se strip strip (compute_motion_mask ?g ?g) (Some (LightGlueV2 7 [])) demo_st
      = (Some (Inr (warp_expand_blend strip_se strip strip (translation 2 0) 11 1 11 1)), st')"
    using strip_stitched by (cases "stitch_pair_motion_filtered strip_se strip strip still_mask (Some (LightGlueV2 7 [])) demo_st")
      (auto simp: still_mask_def)
  from background_only [OF this refl refl] show ?thesis by (auto simp: strip_se_def)
qed

theorem foreground_never_filled_witness:
  "\<exists>out st'. liveaction_step strip_se strip_le (Some (LightGlueV2 7 [])) (still_mask, strip) (strip, demo_st) = Some (out, st')
     \<and> rg_w strip < rg_w out"
proof -
  let ?out = "warp_expand_blend strip_se strip strip (translation 2 0) 11 1 11 1"
  obtain t where t: "round64 (11 / 10) = Fin t" "\<bar>t - 11 / 10\<bar> \<le> 1 / 10000000000" by (rule round64_close [of "11 / 10"]) simp_all
  have "12 \<le> 11 * t" "11 * t \<le> 13" using t(2) by linarith+
  then obtain y where y: "round64 (11 * t) = Fin y" "of_int 12 \<le> y" "y \<le> of_int 13" by (rule_tac round64_within [of 12 "11 * t" 13]) simp_all
  have "\<lfloor>y\<rfloor> \<le> 13" using y(3) by linarith
  then have "grown 11 \<le> 13" using y(2) by (simp add: grown_def small_ints t(1) y(1) trunc_def nat_le_iff min_le_iff_disj)
  then have g: "grown (rg_w strip) \<le> rg_w ?out" unfolding strip_warp by (simp add: strip_def)
  obtain st' where "stitch_pair_motion_filtered strip_se strip strip still_mask (Some (LightGlueV2 7 [])) demo_st = (Some (Inr ?out), st')"
    using strip_stitched by (metis prod.collapse)
  then have m: "motion_stitch strip_se (Some (LightGlueV2 7 [])) still_mask strip strip demo_st = (Some (Inr ?out), st')"
    using g by (simp add: motion_stitch_def check_that_def yields_def)
  have w: "11 \<le> rg_w strip" "rg_w strip < 2 ^ 26" by (simp_all add: strip_def)
  show ?thesis using foreground_never_filled [OF w, of strip_se strip_le "Some (LightGlueV2 7 [])" still_mask strip demo_st] m by auto
qed

end
