(* ===== verification/Face_Restore.thy ===== *)
theory Face_Restore
  imports Pyramid_Blend
begin

text \<open>
  Restoring faces, \<^verbatim>\<open>crates/frame-forge/src/face_restore.rs\<close>: every detected face is cut out with some room around it,
  restored by a model, and blended back with soft edges. Sides are below \<open>2 ^ 24\<close>.
\<close>

section \<open>Surroundings\<close>

text \<open>
  \<open>fe_mat\<close> makes a matrix of three bytes per pixel, \<open>fe_detect\<close> runs the detector at a path on a picture of the given size,
  with one row per face; \<open>fe_input\<close> is the name of the model's first input and \<open>fe_run\<close> its run. Of the \<^verbatim>\<open>image\<close> crate:
  \<open>fe_crop img x y w h\<close> cuts a part out, without alpha; \<open>fe_resize w h\<close>.
\<close>

record ('s, 'm) face_env =
  fe_ort :: "'s ort_env"
  fe_mat :: "nat \<Rightarrow> nat \<Rightarrow> byte list \<Rightarrow> string + 'm"
  fe_detect :: "string \<Rightarrow> nat \<Rightarrow> nat \<Rightarrow> 'm \<Rightarrow> string + fl list list"
  fe_input :: "string option"
  fe_run :: "string \<Rightarrow> tensor \<Rightarrow> string + nat list \<times> fl list"
  fe_crop :: "rgba \<Rightarrow> nat \<Rightarrow> nat \<Rightarrow> nat \<Rightarrow> nat \<Rightarrow> picture"
  fe_resize :: "nat \<Rightarrow> nat \<Rightarrow> picture \<Rightarrow> picture"

record face_box =
  fb_x :: int
  fb_y :: int
  fb_w :: int
  fb_h :: int

definition rgba_to_bgr_mat :: "('s, 'm) face_env \<Rightarrow> rgba \<Rightarrow> string + 'm" where
  "rgba_to_bgr_mat env img =
     fe_mat env (rg_w img) (rg_h img) [rg_at img x y c. y \<leftarrow> [0..<rg_h img], x \<leftarrow> [0..<rg_w img], c \<leftarrow> [2, 1, 0]]"

section \<open>Boxes\<close>

definition crop_margin :: fl where "crop_margin = round32 (2 / 5)"

definition box_side :: "fl \<Rightarrow> fl \<Rightarrow> nat \<Rightarrow> int \<times> int" where
  "box_side x bw img_w =
     (let mx = g_mul bw crop_margin; x0 = fl_max (g_sub x mx) (Fin 0); x1 = fl_min (g_add (g_add x bw) mx) (g_of_nat img_w)
      in (f_to_i32 x0, f_to_i32 (fl_max (g_sub x1 x0) (Fin 1))))"

definition expand_box :: "fl \<Rightarrow> fl \<Rightarrow> fl \<Rightarrow> fl \<Rightarrow> nat \<Rightarrow> nat \<Rightarrow> face_box" where
  "expand_box x y bw bh img_w img_h =
     (case (box_side x bw img_w, box_side y bh img_h) of
        ((x, w), (y, h)) \<Rightarrow> \<lparr>fb_x = x, fb_y = y, fb_w = w, fb_h = h\<rparr>)"

definition box_of_row :: "rgba \<Rightarrow> fl list \<Rightarrow> string + face_box" where
  "box_of_row img row =
     (if length row < 4 then Inl ''no such element''
      else Inr (expand_box (row ! 0) (row ! 1) (row ! 2) (row ! 3) (rg_w img) (rg_h img)))"

fun boxes_of :: "rgba \<Rightarrow> fl list list \<Rightarrow> string + face_box list" where
  "boxes_of img [] = Inr []"
| "boxes_of img (row # rows) =
     (case box_of_row img row of
        Inl e \<Rightarrow> Inl e
      | Inr b \<Rightarrow> (case boxes_of img rows of Inl e \<Rightarrow> Inl e | Inr bs \<Rightarrow> Inr (b # bs)))"

section \<open>Tensors\<close>

definition face_to_array :: "picture \<Rightarrow> tensor" where
  "face_to_array img =
     ([1, 3, pic_h img, pic_w img],
      [g_div (g_sub (g_div (g_of_nat (unat (channel c (pic_at img (x, y))))) (Fin 255)) (Fin (1 / 2))) (Fin (1 / 2)).
         c \<leftarrow> [0, 1, 2], y \<leftarrow> [0..<pic_h img], x \<leftarrow> [0..<pic_w img]])"

definition array_to_image :: "fl list \<Rightarrow> nat \<Rightarrow> nat \<Rightarrow> picture option" where
  "array_to_image data w h =
     (let plane = w * h; v = (\<lambda>off i. to_byte (g_add (g_mul (data ! (off + i)) (Fin (1 / 2))) (Fin (1 / 2))))
      in if length data < 3 * plane then None
         else Some \<lparr>pic_w = w, pic_h = h,
                    pic_at = \<lambda>(x, y). (v 0 (y * w + x), v plane (y * w + x), v (plane * 2) (y * w + x))\<rparr>)"

section \<open>Soft edges\<close>

definition edge_feather :: "nat \<Rightarrow> nat \<Rightarrow> fl \<Rightarrow> fl" where
  "edge_feather pos len margin =
     (let from_start = g_div (g_of_nat pos) margin;
          from_end = g_div (g_sub (g_sub (g_of_nat len) (Fin 1)) (g_of_nat pos)) margin
      in fl_max (fl_min (fl_min from_start from_end) (Fin 1)) (Fin 0))"

definition feather_margin :: "nat \<Rightarrow> fl" where
  "feather_margin len = fl_max (g_mul (g_of_nat len) (round32 (15 / 100))) (Fin 1)"

definition feather_alpha :: "picture \<Rightarrow> int \<Rightarrow> int \<Rightarrow> fl" where
  "feather_alpha patch dx dy =
     (if 0 \<le> dx \<and> dx < int (pic_w patch) \<and> 0 \<le> dy \<and> dy < int (pic_h patch)
      then g_mul (edge_feather (nat dx) (pic_w patch) (feather_margin (pic_w patch)))
                 (edge_feather (nat dy) (pic_h patch) (feather_margin (pic_h patch)))
      else Fin 0)"

definition mixed :: "fl \<Rightarrow> byte \<Rightarrow> byte \<Rightarrow> byte" where
  "mixed alpha src dst =
     of_nat (min 255 (f_to_u32 (g_add (g_mul (g_of_nat (unat src)) alpha) (g_mul (g_of_nat (unat dst)) (g_sub (Fin 1) alpha)))))"

definition feather_blend :: "rgba \<Rightarrow> picture \<Rightarrow> int \<Rightarrow> int \<Rightarrow> rgba" where
  "feather_blend canvas patch ox oy =
     canvas\<lparr>rg_at := \<lambda>x y c.
       (let dx = int x - ox; dy = int y - oy; alpha = feather_alpha patch dx dy
        in if in_rgba canvas x y \<and> fl_less (Fin 0) alpha \<and> c < 3
           then mixed alpha (channel c (pic_at patch (nat dx, nat dy))) (rg_at canvas x y c)
           else rg_at canvas x y c)\<rparr>"

section \<open>Restoring\<close>

definition gfpgan_size :: nat where "gfpgan_size = 512"

definition as_u32 :: "int \<Rightarrow> nat" where "as_u32 i = nat (i mod 2 ^ 32)"

definition restore_face :: "('s, 'm) face_env \<Rightarrow> string \<Rightarrow> rgba \<Rightarrow> face_box \<Rightarrow> rgba outcome" where
  "restore_face env input canvas fb =
     (let crop = fe_crop env canvas (as_u32 (fb_x fb)) (as_u32 (fb_y fb)) (as_u32 (fb_w fb)) (as_u32 (fb_h fb));
          resized = fe_resize env gfpgan_size gfpgan_size crop
      in case fe_run env input (face_to_array resized) of
           Inl e \<Rightarrow> fails (''face restore session.run failed: '' @ e)
         | Inr (shape, data) \<Rightarrow>
             check_that (length shape = 4 \<and> shape ! 1 = 3) ''unexpected face-restore output shape''
               (case array_to_image data (shape ! 3) (shape ! 2) of
                  None \<Rightarrow> None
                | Some restored \<Rightarrow> yields (feather_blend canvas (fe_resize env (pic_w crop) (pic_h crop) restored) (fb_x fb) (fb_y fb))))"

text \<open>\<open>cancel i\<close> is the flag before the \<open>i\<close>-th face.\<close>

fun restore_boxes :: "('s, 'm) face_env \<Rightarrow> string \<Rightarrow> (nat \<Rightarrow> bool) \<Rightarrow> nat \<Rightarrow> face_box list \<Rightarrow> rgba \<Rightarrow> rgba outcome" where
  "restore_boxes env input cancel i [] canvas = yields canvas"
| "restore_boxes env input cancel i (fb # fbs) canvas =
     check_that (\<not> cancel i) ''upscale cancelled''
       (and_then (restore_face env input canvas fb) (restore_boxes env input cancel (i + 1) fbs))"

definition yunet_file :: string where "yunet_file = ''face_detection_yunet_2023mar.onnx''"

definition detect_faces :: "('s, 'm) face_env \<Rightarrow> string \<Rightarrow> rgba \<Rightarrow> string + fl list list" where
  "detect_faces env model_path img =
     (case rgba_to_bgr_mat env img of Inl e \<Rightarrow> Inl e | Inr m \<Rightarrow> fe_detect env model_path (rg_w img) (rg_h img) m)"

definition restore_faces :: "('s, 'm) face_env \<Rightarrow> rgba \<Rightarrow> (nat \<Rightarrow> bool) \<Rightarrow> (rgba \<times> nat) outcome" where
  "restore_faces env img cancel =
     (case find_model (fe_ort env) yunet_file of
        None \<Rightarrow> yields (img, 0)
      | Some model_path \<Rightarrow>
          and_then (Some (detect_faces env model_path img)) (\<lambda>rows.
            if rows = [] then yields (img, 0)
            else and_then (Some (boxes_of img rows)) (\<lambda>boxes.
              case fe_input env of
                None \<Rightarrow> fails ''face restore model has no inputs''
              | Some input \<Rightarrow> and_then (restore_boxes env input cancel 0 boxes img) (\<lambda>out. yields (out, length boxes)))))"

section \<open>Boxes lie in the picture\<close>

lemma round32_upper:
  assumes "x \<le> of_int k" and "\<bar>k\<bar> < 2 ^ 24"
  shows "round32 x = NInf \<or> (\<exists>v. round32 x = Fin v \<and> v \<le> of_int k)"
proof -
  have "round_val 24 (- 126) x \<le> round_val 24 (- 126) (of_int k)" using assms(1) by (intro round_val_mono) simp_all
  also have "\<dots> = of_int k" using assms(2) by (intro round_val_int) simp_all
  finally have le: "round_val 24 (- 126) x \<le> of_int k" .
  have "(of_int k :: rat) < 2 ^ 24" using assms(2) by (metis abs_less_iff of_int_less_iff of_int_numeral of_int_power)
  also have "(2 ^ 24 :: rat) < 2 ^ 128" by simp
  finally have "(of_int k :: rat) < 2 ^ 128" .
  with le have "\<not> 2 ^ 128 \<le> round_val 24 (- 126) x" by linarith
  with le show ?thesis by (simp add: round32_def round_fl_def Let_def)
qed

lemma box_start:
  assumes "0 < w" and "w < 2 ^ 24" and "a \<le> of_nat (w - 1)" and "nonneg m"
  obtains q where "fl_max (g_sub (Fin a) m) (Fin 0) = Fin q" and "0 \<le> q" and "q \<le> of_nat (w - 1)"
proof (cases "\<exists>b. m = Fin b")
  case True
  then obtain b where b: "m = Fin b" "0 \<le> b" using assms(4) by auto
  have "a - b \<le> of_int (int w - 1)" using assms(1,3) b(2) by (simp add: of_nat_diff)
  moreover have "\<bar>int w - 1\<bar> < 2 ^ 24" using assms(1,2) by simp
  ultimately have "round32 (a - b) = NInf \<or> (\<exists>v. round32 (a - b) = Fin v \<and> v \<le> of_int (int w - 1))" by (rule round32_upper)
  moreover have g: "g_sub (Fin a) m = round32 (a - b)" by (simp add: b(1) g_sub_def g_add_def)
  moreover have e: "(of_int (int w - 1) :: rat) = of_nat (w - 1)" using assms(1) by (simp add: of_nat_diff)
  ultimately consider "g_sub (Fin a) m = NInf" | v where "g_sub (Fin a) m = Fin v" "v \<le> of_nat (w - 1)" by metis
  then show ?thesis
  proof cases
    case 1
    with that [of 0] show ?thesis by (simp add: fl_max_def)
  next
    case (2 v)
    with that [of "max v 0"] show ?thesis by simp
  qed
next
  case False
  with assms(4) have "m = PInf" by (auto elim: nonneg_cases)
  then have "g_sub (Fin a) m = NInf" by (simp add: g_sub_def g_add_def)
  with that [of 0] show ?thesis by (simp add: fl_max_def)
qed

lemma box_side_inside:
  assumes "0 < w" and "w < 2 ^ 24" and "a \<le> of_nat (w - 1)" and "0 \<le> b" and "box_side (Fin a) (Fin b) w = (p, len)"
  shows "0 \<le> p" "1 \<le> len" "p + len \<le> int w"
proof -
  define m where "m = g_mul (Fin b) crop_margin"
  obtain c where c: "round32 (2 / 5) = Fin c" "\<bar>c - 2 / 5\<bar> \<le> \<bar>2 / 5\<bar> / 16777216 + 1 / 10000000000000000000000000000000000000000"
    by (rule round32_near [of "2 / 5"]) simp_all
  have "0 \<le> c" using c(2) by linarith
  then have m: "nonneg m" using assms(4) by (simp add: m_def g_mul_def crop_margin_def c(1) round32_nonneg)
  obtain q where q: "fl_max (g_sub (Fin a) m) (Fin 0) = Fin q" "0 \<le> q" "q \<le> of_nat (w - 1)" by (rule box_start [OF assms(1-3) m])
  define x1 where "x1 = fl_min (g_add (g_add (Fin a) (Fin b)) m) (g_of_nat w)"
  have gw: "g_of_nat w = Fin (of_nat w)" using g_of_nat_exact [of w] assms(2) by simp
  have x1: "x1 = NInf \<or> (\<exists>r. x1 = Fin r \<and> r \<le> of_nat w)"
    unfolding x1_def gw by (cases "g_add (g_add (Fin a) (Fin b)) m") (auto simp: fl_min_def)
  define k where "k = int w - \<lfloor>q\<rfloor>"
  have fq: "0 \<le> \<lfloor>q\<rfloor>" "\<lfloor>q\<rfloor> \<le> int w - 1"
    using q(2,3) assms(1) by (simp_all add: floor_le_iff of_nat_diff, linarith)
  have w24: "int w < 16777216" using assms(2) by simp
  then have "1 \<le> k" "k < 16777216" unfolding k_def using fq by linarith+
  note k24 = this
  then have k: "1 \<le> k" "\<bar>k\<bar> < 2 ^ 24" by simp_all
  have d: "g_sub x1 (Fin q) = NInf \<or> (\<exists>v. g_sub x1 (Fin q) = Fin v \<and> v \<le> of_int k)"
    using x1
  proof
    assume "\<exists>r. x1 = Fin r \<and> r \<le> of_nat w"
    then obtain r where r: "x1 = Fin r" "r \<le> of_nat w" by blast
    have "of_int \<lfloor>q\<rfloor> \<le> q" by simp
    moreover have "(of_int k :: rat) = of_nat w - of_int \<lfloor>q\<rfloor>" by (simp add: k_def)
    ultimately have "r - q \<le> of_int k" using r(2) by linarith
    from round32_upper [OF this k(2)] show ?thesis by (simp add: r(1) g_sub_def g_add_def)
  qed (simp add: g_sub_def g_add_def)
  have k1: "(1 :: rat) \<le> of_int k" using k(1) by simp
  have "\<exists>v. fl_max (g_sub x1 (Fin q)) (Fin 1) = Fin v \<and> 1 \<le> v \<and> v \<le> of_int k"
    using d
  proof
    assume "g_sub x1 (Fin q) = NInf"
    with k1 show ?thesis by (simp add: fl_max_def)
  next
    assume "\<exists>v. g_sub x1 (Fin q) = Fin v \<and> v \<le> of_int k"
    with k1 show ?thesis by auto
  qed
  then obtain v where v: "fl_max (g_sub x1 (Fin q)) (Fin 1) = Fin v" "1 \<le> v" "v \<le> of_int k" by blast
  have fv: "1 \<le> \<lfloor>v\<rfloor>" "\<lfloor>v\<rfloor> \<le> k" using v(2,3) by (simp_all add: le_floor_iff floor_le_iff)
  have i32: "f_to_i32 (Fin z) = \<lfloor>z\<rfloor>" if "0 \<le> z" "\<lfloor>z\<rfloor> < 16777216" for z
    using that by (simp add: trunc_def min_def)
  have "(p, len) = (f_to_i32 (Fin q), f_to_i32 (Fin v))"
    using assms(5) unfolding box_side_def Let_def m_def [symmetric] q(1) x1_def [symmetric] v(1) by simp
  moreover have "\<lfloor>q\<rfloor> < 16777216" "\<lfloor>v\<rfloor> < 16777216" using fq fv w24 k24 by linarith+
  ultimately have p: "p = \<lfloor>q\<rfloor>" and l: "len = \<lfloor>v\<rfloor>" using i32 q(2) v(2) by simp_all
  show "0 \<le> p" "1 \<le> len" "p + len \<le> int w" using fq fv by (simp_all add: p l k_def)
qed

text \<open>
  A face whose corner is inside the picture is cut out inside the picture. However the detector's numbers and the
  rounding of \<^verbatim>\<open>f32\<close> fall, the box with its margin has at least one pixel, starts at a position of the picture and ends
  within it; so the conversions to unsigned numbers lose nothing.
\<close>

theorem face_box_inside:
  assumes "0 < w" and "w < 2 ^ 24" and "0 < h" and "h < 2 ^ 24"
    and "a \<le> of_nat (w - 1)" and "b \<le> of_nat (h - 1)" and "0 \<le> c" and "0 \<le> d"
    and "fb = expand_box (Fin a) (Fin b) (Fin c) (Fin d) w h"
  shows "0 \<le> fb_x fb \<and> 0 \<le> fb_y fb \<and> 1 \<le> fb_w fb \<and> 1 \<le> fb_h fb \<and> fb_x fb + fb_w fb \<le> int w \<and> fb_y fb + fb_h fb \<le> int h
     \<and> int (as_u32 (fb_x fb)) = fb_x fb \<and> int (as_u32 (fb_y fb)) = fb_y fb
     \<and> int (as_u32 (fb_w fb)) = fb_w fb \<and> int (as_u32 (fb_h fb)) = fb_h fb"
proof -
  obtain p l where x: "box_side (Fin a) (Fin c) w = (p, l)" by fastforce
  obtain q k where y: "box_side (Fin b) (Fin d) h = (q, k)" by fastforce
  note bx = box_side_inside [OF assms(1,2,5,7) x] and b_y = box_side_inside [OF assms(3,4,6,8) y]
  have f: "fb = \<lparr>fb_x = p, fb_y = q, fb_w = l, fb_h = k\<rparr>" by (simp add: assms(9) expand_box_def x y)
  have u: "int (as_u32 i) = i" if "0 \<le> i" "i \<le> int n" "n < 2 ^ 24" for i n using that by (simp add: as_u32_def)
  have "p \<le> int w" "l \<le> int w" "q \<le> int h" "k \<le> int h" "0 \<le> l" "0 \<le> k" using bx b_y by linarith+
  with bx b_y have "int (as_u32 p) = p" "int (as_u32 q) = q" "int (as_u32 l) = l" "int (as_u32 k) = k"
    using u [of _ w, OF _ _ assms(2)] u [of _ h, OF _ _ assms(4)] by blast+
  with bx b_y show ?thesis by (simp add: f)
qed

section \<open>Restoring is local\<close>

lemma edge_feather_unit: "\<exists>v. edge_feather pos len margin = Fin v \<and> 0 \<le> v \<and> v \<le> 1"
proof -
  define z where "z = fl_min (g_div (g_of_nat pos) margin) (g_div (g_sub (g_sub (g_of_nat len) (Fin 1)) (g_of_nat pos)) margin)"
  have "\<exists>v. fl_max (fl_min z (Fin 1)) (Fin 0) = Fin v \<and> 0 \<le> v \<and> v \<le> 1"
    by (cases z) (auto simp: fl_max_def fl_min_def)
  then show ?thesis by (simp add: edge_feather_def z_def Let_def)
qed

text \<open>On the first and the last position the ramp is zero.\<close>

lemma margin_divides: "g_div (Fin 0) (feather_margin len) = Fin 0"
proof -
  define z where "z = g_mul (g_of_nat len) (round32 (15 / 100))"
  have r: "round32 0 = Fin 0" using round32_int [of 0] by simp
  have "fl_max z (Fin 1) \<noteq> Fin 0" "fl_max z (Fin 1) \<noteq> NaN" by (cases z; auto simp: fl_max_def)+
  then show ?thesis unfolding feather_margin_def z_def [symmetric] by (cases "fl_max z (Fin 1)") (auto simp: g_div_def r)
qed

lemma edge_feather_border:
  assumes "pos = 0 \<or> pos + 1 = len" and "len < 2 ^ 24"
  shows "edge_feather pos len (feather_margin len) = Fin 0"
proof -
  have r: "round32 0 = Fin 0" using round32_int [of 0] by simp
  have low: "fl_max (fl_min (fl_min a b) (Fin 1)) (Fin 0) = Fin 0" if "a = Fin 0 \<or> b = Fin 0" for a b
    using that by (cases a; cases b) (auto simp: fl_max_def fl_min_def)
  from assms(1) have "g_div (g_of_nat pos) (feather_margin len) = Fin 0
      \<or> g_div (g_sub (g_sub (g_of_nat len) (Fin 1)) (g_of_nat pos)) (feather_margin len) = Fin 0"
  proof
    assume "pos = 0"
    then have "g_of_nat pos = Fin 0" using g_of_nat_exact [of 0] by simp
    then show ?thesis by (simp add: margin_divides)
  next
    assume l: "pos + 1 = len"
    then have e: "g_of_nat len = Fin (of_nat len)" "g_of_nat pos = Fin (of_nat pos)"
      using g_of_nat_exact [of len] g_of_nat_exact [of pos] assms(2) by simp_all
    have "round32 (of_nat len - 1) = Fin (of_nat pos)"
      using e(2) l by (simp add: g_of_nat_def flip: l)
    then have "g_sub (g_sub (g_of_nat len) (Fin 1)) (g_of_nat pos) = Fin 0" by (simp add: e g_sub_def g_add_def r)
    then show ?thesis by (simp add: margin_divides)
  qed
  then show ?thesis unfolding edge_feather_def Let_def by (rule low)
qed

lemma feather_alpha_inside:
  assumes "fl_less (Fin 0) (feather_alpha patch dx dy)" and "pic_w patch < 2 ^ 24" and "pic_h patch < 2 ^ 24"
  shows "1 \<le> dx \<and> dx + 1 < int (pic_w patch) \<and> 1 \<le> dy \<and> dy + 1 < int (pic_h patch)"
proof (rule ccontr)
  assume n: "\<not> ?thesis"
  have r: "round32 0 = Fin 0" using round32_int [of 0] by simp
  have z: "g_mul (Fin 0) (edge_feather p l m) = Fin 0" "g_mul (edge_feather p l m) (Fin 0) = Fin 0" for p l m
    using edge_feather_unit [of p l m] by (auto simp: g_mul_def r)
  have "feather_alpha patch dx dy = Fin 0"
  proof (cases "0 \<le> dx \<and> dx < int (pic_w patch) \<and> 0 \<le> dy \<and> dy < int (pic_h patch)")
    case True
    with n consider "nat dx = 0 \<or> nat dx + 1 = pic_w patch" | "nat dy = 0 \<or> nat dy + 1 = pic_h patch" by linarith
    then show ?thesis
    proof cases
      case 1
      from edge_feather_border [OF this assms(2)] True show ?thesis by (simp add: feather_alpha_def z)
    next
      case 2
      from edge_feather_border [OF this assms(3)] True show ?thesis by (simp add: feather_alpha_def z)
    qed
  qed (simp only: feather_alpha_def if_False)
  with assms(1) show False by simp
qed

text \<open>The inside of a box: all of it but its outermost pixels.\<close>

definition inside_box :: "face_box \<Rightarrow> nat \<Rightarrow> nat \<Rightarrow> bool" where
  "inside_box fb x y \<longleftrightarrow>
     fb_x fb < int x \<and> int x + 1 < fb_x fb + fb_w fb \<and> fb_y fb < int y \<and> int y + 1 < fb_y fb + fb_h fb"

text \<open>What is documented of cutting and resizing.\<close>

definition crops :: "('s, 'm) face_env \<Rightarrow> bool" where
  "crops env \<longleftrightarrow>
     (\<forall>img x y w h. pic_w (fe_crop env img x y w h) \<le> w \<and> pic_h (fe_crop env img x y w h) \<le> h)
     \<and> (\<forall>w h p. pic_w (fe_resize env w h p) = w \<and> pic_h (fe_resize env w h p) = h)"

definition small_box :: "face_box \<Rightarrow> bool" where
  "small_box fb \<longleftrightarrow> 0 \<le> fb_w fb \<and> fb_w fb < 2 ^ 24 \<and> 0 \<le> fb_h fb \<and> fb_h fb < 2 ^ 24"

text \<open>Two pictures of one size with the same alpha, equal outside some boxes.\<close>

definition only_in :: "face_box list \<Rightarrow> rgba \<Rightarrow> rgba \<Rightarrow> bool" where
  "only_in fbs a b \<longleftrightarrow>
     rg_w b = rg_w a \<and> rg_h b = rg_h a
     \<and> (\<forall>x y c. 3 \<le> c \<or> (\<forall>fb \<in> set fbs. \<not> inside_box fb x y) \<longrightarrow> rg_at b x y c = rg_at a x y c)"

lemma restore_face_local:
  assumes "crops env" and "small_box fb" and "restore_face env input canvas fb = Some (Inr out)"
  shows "only_in [fb] canvas out"
proof -
  define crop where "crop = fe_crop env canvas (as_u32 (fb_x fb)) (as_u32 (fb_y fb)) (as_u32 (fb_w fb)) (as_u32 (fb_h fb))"
  from assms(3) obtain restored where out: "out = feather_blend canvas (fe_resize env (pic_w crop) (pic_h crop) restored) (fb_x fb) (fb_y fb)"
    by (auto simp: restore_face_def crop_def [symmetric] Let_def fails_def yields_def split: sum.splits option.splits)
  define patch where "patch = fe_resize env (pic_w crop) (pic_h crop) restored"
  have "int (as_u32 (fb_w fb)) = fb_w fb" "int (as_u32 (fb_h fb)) = fb_h fb" using assms(2) by (simp_all add: small_box_def as_u32_def)
  moreover have "pic_w crop \<le> as_u32 (fb_w fb)" "pic_h crop \<le> as_u32 (fb_h fb)" using assms(1) by (simp_all add: crops_def crop_def)
  moreover have "pic_w patch = pic_w crop" "pic_h patch = pic_h crop" using assms(1) by (simp_all add: crops_def patch_def)
  ultimately have s: "int (pic_w patch) \<le> fb_w fb" "int (pic_h patch) \<le> fb_h fb" by linarith+
  then have l: "pic_w patch < 2 ^ 24" "pic_h patch < 2 ^ 24" using assms(2) by (simp_all add: small_box_def)
  have "inside_box fb x y" if "fl_less (Fin 0) (feather_alpha patch (int x - fb_x fb) (int y - fb_y fb))" for x y
    using feather_alpha_inside [OF that l] s by (simp add: inside_box_def)
  then show ?thesis unfolding out patch_def [symmetric] by (auto simp: only_in_def feather_blend_def Let_def)
qed

lemma only_in_trans: "only_in [fb] a b \<Longrightarrow> only_in fbs b c \<Longrightarrow> only_in (fb # fbs) a c"
  by (simp add: only_in_def)

lemma restore_boxes_local:
  assumes "crops env" and "\<forall>fb \<in> set fbs. small_box fb" and "restore_boxes env input cancel i fbs canvas = Some (Inr out)"
  shows "only_in fbs canvas out"
  using assms(2,3)
proof (induction fbs arbitrary: i canvas)
  case Nil
  then show ?case by (simp add: yields_def only_in_def)
next
  case (Cons fb fbs)
  then obtain next_canvas where n: "restore_face env input canvas fb = Some (Inr next_canvas)"
      "restore_boxes env input cancel (i + 1) fbs next_canvas = Some (Inr out)"
    by (auto simp: and_then_eq_yields)
  from restore_face_local [OF assms(1) _ n(1)] Cons.prems(1) have "only_in [fb] canvas next_canvas" by simp
  moreover from Cons.IH [OF _ n(2)] Cons.prems(1) have "only_in fbs next_canvas out" by simp
  ultimately show ?case by (rule only_in_trans)
qed

lemma box_side_small:
  assumes "w < 2 ^ 24"
  shows "0 \<le> snd (box_side x bw w)" "snd (box_side x bw w) < 2 ^ 24"
proof -
  define x0 where "x0 = fl_max (g_sub x (g_mul bw crop_margin)) (Fin 0)"
  define x1 where "x1 = fl_min (g_add (g_add x bw) (g_mul bw crop_margin)) (g_of_nat w)"
  have gw: "g_of_nat w = Fin (of_nat w)" using g_of_nat_exact [of w] assms by simp
  have x0: "(\<exists>q. x0 = Fin q \<and> 0 \<le> q) \<or> x0 = PInf"
    unfolding x0_def by (cases "g_sub x (g_mul bw crop_margin)") (auto simp: fl_max_def)
  have x1: "x1 = NInf \<or> (\<exists>r. x1 = Fin r \<and> r \<le> of_nat w)"
    unfolding x1_def gw by (cases "g_add (g_add x bw) (g_mul bw crop_margin)") (auto simp: fl_min_def)
  have w: "\<bar>int w\<bar> < 2 ^ 24" using assms by simp
  have "g_sub x1 x0 = NInf \<or> (\<exists>v. g_sub x1 x0 = Fin v \<and> v \<le> of_int (int w))"
  proof (cases "\<exists>q r. x0 = Fin q \<and> x1 = Fin r")
    case True
    then obtain q r where q: "x0 = Fin q" "0 \<le> q" "x1 = Fin r" "r \<le> of_nat w" using x0 x1 by auto
    have "r - q \<le> of_int (int w)" using q(2,4) by simp
    from round32_upper [OF this w] show ?thesis by (simp add: q g_sub_def g_add_def)
  next
    case False
    with x0 x1 show ?thesis by (auto simp: g_sub_def g_add_def)
  qed
  then have "\<exists>v. fl_max (g_sub x1 x0) (Fin 1) = Fin v \<and> 1 \<le> v \<and> v \<le> max 1 (of_nat w)"
  proof
    assume "g_sub x1 x0 = NInf"
    then show ?thesis by (simp add: fl_max_def)
  next
    assume "\<exists>v. g_sub x1 x0 = Fin v \<and> v \<le> of_int (int w)"
    then show ?thesis by (auto simp: max_def)
  qed
  then obtain v where v: "fl_max (g_sub x1 x0) (Fin 1) = Fin v" "1 \<le> v" "v \<le> max 1 (of_nat w)" by blast
  have "max 1 (of_nat w :: rat) < 16777216" using assms by (simp add: of_nat_less_numeral_iff)
  with v(3) have "v < 16777216" by (rule order.strict_trans1)
  then have f: "1 \<le> \<lfloor>v\<rfloor>" "\<lfloor>v\<rfloor> < 16777216" using v(2) by (simp_all add: le_floor_iff floor_less_iff)
  have "snd (box_side x bw w) = f_to_i32 (Fin v)" unfolding v(1) [symmetric] x0_def x1_def box_side_def Let_def by simp
  also have "\<dots> = \<lfloor>v\<rfloor>" using f v(2) by (simp add: trunc_def min_def)
  finally show "0 \<le> snd (box_side x bw w)" "snd (box_side x bw w) < 2 ^ 24" using f by simp_all
qed

lemma boxes_small:
  assumes "rg_w img < 2 ^ 24" and "rg_h img < 2 ^ 24"
  shows "boxes_of img rows = Inr bs \<Longrightarrow> \<forall>fb \<in> set bs. small_box fb"
proof (induction rows arbitrary: bs)
  case (Cons row rows)
  have "small_box (expand_box a b c d (rg_w img) (rg_h img))" for a b c d
    using box_side_small [OF assms(1), of a c] box_side_small [OF assms(2), of b d]
    by (simp add: expand_box_def small_box_def case_prod_beta)
  with Cons show ?case by (auto simp: box_of_row_def split: sum.splits if_splits)
qed simp

lemma boxes_of_length: "boxes_of img rows = Inr bs \<Longrightarrow> length bs = length rows"
  by (induction rows arbitrary: bs) (auto split: sum.splits)

text \<open>
  C34: Restoring faces only ever touches faces. Whatever the detector and the model return, a successful run keeps the size
  and the alpha of the picture, changes colours only inside the boxes of the detected faces (their outermost pixels keep
  their colours, so there is no seam), and reports how many faces were detected; without the weights of the detector, or
  without faces, the picture is returned as it is and the count is zero.
\<close>

theorem faces_restored_locally:
  assumes "crops env" and "restore_faces env img cancel = Some (Inr (out, n))"
    and "rg_w img < 2 ^ 24" and "rg_h img < 2 ^ 24"
  shows "rg_w out = rg_w img \<and> rg_h out = rg_h img
     \<and> (case find_model (fe_ort env) yunet_file of
          None \<Rightarrow> n = 0 \<and> out = img
        | Some p \<Rightarrow>
            (case detect_faces env p img of
               Inl _ \<Rightarrow> False
             | Inr rows \<Rightarrow> n = length rows \<and> (rows = [] \<longrightarrow> out = img)
                 \<and> (rows \<noteq> [] \<longrightarrow> (case boxes_of img rows of
                      Inl _ \<Rightarrow> False
                    | Inr bs \<Rightarrow> \<forall>x y c. 3 \<le> c \<or> (\<forall>fb \<in> set bs. \<not> inside_box fb x y) \<longrightarrow> rg_at out x y c = rg_at img x y c))))"
proof (cases "find_model (fe_ort env) yunet_file")
  case None
  with assms(2) show ?thesis by (simp add: restore_faces_def yields_def)
next
  case (Some p)
  show ?thesis
  proof (cases "detect_faces env p img")
    case (Inl e)
    with assms(2) Some show ?thesis by (simp add: restore_faces_def)
  next
    case (Inr rows)
    show ?thesis
    proof (cases "rows = []")
      case True
      with assms(2) Some Inr show ?thesis by (simp add: restore_faces_def yields_def)
    next
      case False
      with assms(2) Some Inr obtain bs input where b: "boxes_of img rows = Inr bs"
          "restore_boxes env input cancel 0 bs img = Some (Inr out)" "n = length bs"
        by (auto simp: restore_faces_def and_then_eq_yields yields_def fails_def split: option.splits)
      have "\<forall>fb \<in> set bs. small_box fb" by (rule boxes_small [OF assms(3,4) b(1)])
      from restore_boxes_local [OF assms(1) this b(2)] have "only_in bs img out" .
      with Some Inr False b boxes_of_length [OF b(1)] show ?thesis by (auto simp: only_in_def)
    qed
  qed
qed

theorem face_box_inside_witness:
  "0 \<le> fb_x (expand_box (Fin 10) (Fin 60) (Fin 20) (Fin 30) 100 80)
   \<and> fb_y (expand_box (Fin 10) (Fin 60) (Fin 20) (Fin 30) 100 80) + fb_h (expand_box (Fin 10) (Fin 60) (Fin 20) (Fin 30) 100 80) \<le> 80"
  using face_box_inside [of 100 80 10 60 20 30 "expand_box (Fin 10) (Fin 60) (Fin 20) (Fin 30) 100 80"] by simp

text \<open>A detector that sees one face, and a model that answers with one gray pixel.\<close>

definition demo_faces :: "(nat, nat) face_env" where
  "demo_faces =
     \<lparr>fe_ort = demo_ort, fe_mat = \<lambda>_ _ _. Inr 0, fe_detect = \<lambda>_ _ _ _. Inr [[Fin 0, Fin 0, Fin 1, Fin 1]], fe_input = Some ''input'',
      fe_run = \<lambda>_ _. Inr ([1, 3, 1, 1], [Fin 0, Fin 0, Fin 0]),
      fe_crop = \<lambda>img x y w h. \<lparr>pic_w = w, pic_h = h, pic_at = \<lambda>_. (0, 0, 0)\<rparr>,
      fe_resize = \<lambda>w h p. p\<lparr>pic_w := w, pic_h := h\<rparr>\<rparr>"

theorem faces_restored_locally_witness:
  "\<exists>out. restore_faces demo_faces red_dot (\<lambda>_. False) = Some (Inr (out, 1)) \<and> rg_w out = 1
     \<and> (\<forall>x y. rg_at out x y 3 = rg_at red_dot x y 3)"
proof -
  have m: "find_model (fe_ort demo_faces) yunet_file = Some (join_path ''/config/plugins/JellyfinSuite/models'' yunet_file)"
    by (simp add: find_model_def candidates_def demo_faces_def demo_ort_def)
  have d: "detect_faces demo_faces p img = Inr [[Fin 0, Fin 0, Fin 1, Fin 1]]" for p img
    by (simp add: detect_faces_def rgba_to_bgr_mat_def demo_faces_def)
  have f: "\<exists>out. restore_face demo_faces ''input'' c b = Some (Inr out)" for c b
    by (simp add: restore_face_def demo_faces_def check_that_def yields_def array_to_image_def Let_def)
  then obtain out where "restore_face demo_faces ''input'' red_dot (expand_box (Fin 0) (Fin 0) (Fin 1) (Fin 1) (rg_w red_dot) (rg_h red_dot)) = Some (Inr out)"
    by blast
  moreover have "fe_input demo_faces = Some ''input''" by (simp add: demo_faces_def)
  ultimately have r: "restore_faces demo_faces red_dot (\<lambda>_. False) = Some (Inr (out, 1))"
    by (simp add: restore_faces_def m d box_of_row_def check_that_def yields_def)
  have c: "crops demo_faces" by (simp add: crops_def demo_faces_def)
  have s: "rg_w red_dot < 2 ^ 24" "rg_h red_dot < 2 ^ 24" "rg_w red_dot = 1" by (simp_all add: red_dot_def)
  from faces_restored_locally [OF c r s(1,2)] s(3) r show ?thesis
    by (auto simp: m d box_of_row_def)
qed

end
