(* ===== verification/Poster_Layout.thy ===== *)
theory Poster_Layout
  imports Pair_Stitch
begin

text \<open>
  Where everything lies on a poster: positions of time stamps, the grid and its canvas
  (\<^verbatim>\<open>crates/poster-gen/src/image_stitcher.rs\<close>), the place of a badge (\<^verbatim>\<open>text_renderer.rs\<close>) and the layout of the preview
  (\<^verbatim>\<open>preview.rs\<close>). Arithmetic of \<^verbatim>\<open>u32\<close> wraps, as in the release build.
\<close>

section \<open>Wrapping arithmetic\<close>

definition w32 :: "nat \<Rightarrow> nat" where "w32 n = n mod 2 ^ 32"

definition sub32 :: "nat \<Rightarrow> nat \<Rightarrow> nat" where "sub32 a b = (a + 2 ^ 32 - b) mod 2 ^ 32"

definition sat_add32 :: "nat \<Rightarrow> nat \<Rightarrow> nat" where "sat_add32 a b = min u32_max (a + b)"

lemma w32_id: "n < 2 ^ 32 \<Longrightarrow> w32 n = n"
  by (simp add: w32_def)

lemma sub32_id: "b \<le> a \<Longrightarrow> a < 2 ^ 32 \<Longrightarrow> sub32 a b = a - b"
proof -
  assume b: "b \<le> a" and a: "a < 2 ^ 32"
  have "(a - b + 2 ^ 32) mod 2 ^ 32 = (a - b) mod 2 ^ 32" by (rule mod_add_self2)
  also have "\<dots> = a - b" using a by (intro mod_less) linarith
  finally show ?thesis unfolding sub32_def by (simp only: add_diff_assoc2 [OF b])
qed

section \<open>Positions of time stamps\<close>

datatype timestamp_position =
    Inside_Top_Left | Inside_Top_Center | Inside_Top_Right
  | Inside_Bottom_Left | Inside_Bottom_Center | Inside_Bottom_Right
  | Outside_Bottom_Left | Outside_Bottom_Center | Outside_Bottom_Right

fun position_name :: "timestamp_position \<Rightarrow> string" where
  "position_name Inside_Top_Left = ''inside-top-left''"
| "position_name Inside_Top_Center = ''inside-top-center''"
| "position_name Inside_Top_Right = ''inside-top-right''"
| "position_name Inside_Bottom_Left = ''inside-bottom-left''"
| "position_name Inside_Bottom_Center = ''inside-bottom-center''"
| "position_name Inside_Bottom_Right = ''inside-bottom-right''"
| "position_name Outside_Bottom_Left = ''outside-bottom-left''"
| "position_name Outside_Bottom_Center = ''outside-bottom-center''"
| "position_name Outside_Bottom_Right = ''outside-bottom-right''"

fun is_outside :: "timestamp_position \<Rightarrow> bool" where
  "is_outside Outside_Bottom_Left = True"
| "is_outside Outside_Bottom_Center = True"
| "is_outside Outside_Bottom_Right = True"
| "is_outside _ = False"

section \<open>The grid\<close>

definition cell_gap :: nat where "cell_gap = 4"
definition grid_padding :: nat where "grid_padding = 8"
definition header_height :: nat where "header_height = 144"

record grid_layout =
  gl_header_h :: nat
  gl_row_gap :: nat
  gl_col_gap :: nat
  gl_pad :: nat
  gl_cell_w :: nat
  gl_cell_h :: nat
  gl_rows :: nat
  gl_cols :: nat
  gl_outside_ts :: bool
  gl_qr_strip_w :: nat
  gl_icon_area_w :: nat

definition compute_layout ::
  "nat \<Rightarrow> nat \<Rightarrow> nat \<Rightarrow> nat \<Rightarrow> nat \<Rightarrow> timestamp_position \<Rightarrow> nat \<Rightarrow> nat \<Rightarrow> grid_layout" where
  "compute_layout rows cols cell_w cell_h header_h pos qr_strip_w icon_area_w =
     \<lparr>gl_header_h = header_h, gl_row_gap = (if is_outside pos then 36 else cell_gap), gl_col_gap = cell_gap,
      gl_pad = grid_padding, gl_cell_w = cell_w, gl_cell_h = cell_h, gl_rows = rows, gl_cols = cols,
      gl_outside_ts = is_outside pos, gl_qr_strip_w = qr_strip_w, gl_icon_area_w = icon_area_w\<rparr>"

definition cell_origin :: "grid_layout \<Rightarrow> nat \<Rightarrow> nat \<Rightarrow> nat \<times> nat" where
  "cell_origin l col row =
     (w32 (gl_pad l + col * (gl_cell_w l + gl_col_gap l)),
      w32 (gl_header_h l + gl_pad l + row * (gl_cell_h l + gl_row_gap l)))"

definition canvas_w :: "grid_layout \<Rightarrow> nat" where
  "canvas_w l = w32 (gl_icon_area_w l + gl_qr_strip_w l)"

definition canvas_h :: "grid_layout \<Rightarrow> bool \<Rightarrow> nat" where
  "canvas_h l show_frame_timestamp =
     (let last_row_extra = (if gl_outside_ts l \<and> show_frame_timestamp then gl_row_gap l else 0)
      in w32 (gl_header_h l + gl_pad l * 2 + gl_rows l * gl_cell_h l + sub32 (gl_rows l) 1 * gl_row_gap l + last_row_extra))"

text \<open>The strip for the code at the right end of the header, \<^verbatim>\<open>qr.rs\<close>.\<close>

definition qr_margin :: nat where "qr_margin = 10"
definition bubble_pad :: nat where "bubble_pad = 12"
definition target_qr_px :: nat where "target_qr_px = 99"

definition qr_strip_width :: nat where
  "qr_strip_width = qr_margin + target_qr_px + bubble_pad * 2 + qr_margin"

text \<open>The width without the strip; cells are widened to fill the whole width.\<close>

definition icon_area :: "nat \<Rightarrow> nat \<Rightarrow> nat" where
  "icon_area cols cell_width = w32 (grid_padding * 2 + cols * cell_width + sub32 cols 1 * cell_gap)"

definition widened :: "nat \<Rightarrow> nat \<Rightarrow> nat \<Rightarrow> nat" where
  "widened cols cell_width strip =
     (if 0 < strip \<and> 0 < cols
      then sub32 (sub32 (w32 (icon_area cols cell_width + strip)) (grid_padding * 2)) (w32 (sub32 cols 1 * cell_gap)) div cols
      else cell_width)"

definition scaled_height :: "nat \<Rightarrow> nat \<Rightarrow> nat \<Rightarrow> nat" where
  "scaled_height w src_h src_w =
     f_to_u32 (f_round (f_div (f_mul (f_of_int (int w)) (f_of_int (int src_h))) (f_of_int (int src_w))))"

definition stitch_layout ::
  "nat \<Rightarrow> nat \<Rightarrow> nat \<Rightarrow> nat \<times> nat \<Rightarrow> bool \<Rightarrow> bool \<Rightarrow> timestamp_position \<Rightarrow> grid_layout" where
  "stitch_layout rows cols cell_width first has_header has_qr pos =
     (case first of (actual_w, actual_h) \<Rightarrow>
        let strip = (if has_qr then qr_strip_width else 0); w = widened cols cell_width strip;
            h = (if 0 < actual_w then scaled_height w actual_h actual_w else w32 (w * 9) div 16)
        in compute_layout rows cols w (max h 1) (if has_header then header_height else 0) pos strip (icon_area cols cell_width))"

definition preview_layout ::
  "nat \<Rightarrow> nat \<Rightarrow> nat \<Rightarrow> bool \<Rightarrow> bool \<Rightarrow> timestamp_position \<Rightarrow> grid_layout" where
  "preview_layout rows cols thumb_width has_header has_qr pos =
     (let cw = max 80 (min 800 thumb_width); ch = w32 (cw * 9) div 16;
          strip = (if has_qr then qr_strip_width else 0); w = widened cols cw strip;
          h = (if 0 < cw then scaled_height w ch cw else ch)
      in compute_layout rows cols w (max h 1) (if has_header then header_height else 0) pos strip (icon_area cols cw))"

section \<open>Badges\<close>

definition badge_pos ::
  "nat \<Rightarrow> nat \<Rightarrow> nat \<Rightarrow> nat \<Rightarrow> nat \<Rightarrow> nat \<Rightarrow> nat \<Rightarrow> timestamp_position \<Rightarrow> nat \<times> nat" where
  "badge_pos cell_x cell_y cell_w cell_h badge_w badge_h pad pos =
     (let left = w32 (cell_x + pad); center = w32 (cell_x + sub32 cell_w badge_w div 2);
          right = sub32 (sub32 (w32 (cell_x + cell_w)) badge_w) pad;
          above = w32 (cell_y + pad); low = sub32 (sub32 (w32 (cell_y + cell_h)) badge_h) pad; below = w32 (cell_y + cell_h + pad)
      in case pos of
           Inside_Top_Left \<Rightarrow> (left, above)
         | Inside_Top_Center \<Rightarrow> (center, above)
         | Inside_Top_Right \<Rightarrow> (right, above)
         | Inside_Bottom_Left \<Rightarrow> (left, low)
         | Inside_Bottom_Center \<Rightarrow> (center, low)
         | Inside_Bottom_Right \<Rightarrow> (right, low)
         | Outside_Bottom_Left \<Rightarrow> (left, below)
         | Outside_Bottom_Center \<Rightarrow> (center, below)
         | Outside_Bottom_Right \<Rightarrow> (right, below))"

section \<open>Cells\<close>

text \<open>The numbers of a poster are far from the bounds of \<^verbatim>\<open>u32\<close>.\<close>

definition plain_layout :: "grid_layout \<Rightarrow> bool" where
  "plain_layout l \<longleftrightarrow>
     0 < gl_rows l \<and> gl_rows l \<le> 20 \<and> 0 < gl_cols l \<and> gl_cols l \<le> 12 \<and> gl_cell_w l < 2 ^ 26 \<and> gl_cell_h l < 2 ^ 26
     \<and> 0 < gl_cell_w l \<and> 0 < gl_cell_h l \<and> gl_header_h l \<le> 144 \<and> gl_row_gap l \<in> {4, 36} \<and> gl_col_gap l = 4 \<and> gl_pad l = 8
     \<and> gl_icon_area_w l + gl_qr_strip_w l < 2 ^ 31
     \<and> 16 + gl_cols l * gl_cell_w l + (gl_cols l - 1) * 4 \<le> gl_icon_area_w l + gl_qr_strip_w l"

lemma product_bound: "i < n \<Longrightarrow> i * (w + g) + w \<le> n * w + (n - 1) * (g :: nat)"
proof -
  assume "i < n"
  then obtain k where n: "n = Suc (i + k)" using less_imp_Suc_add by blast
  show ?thesis unfolding n by (simp add: algebra_simps)
qed

lemma plain_height:
  assumes "plain_layout l"
  shows "canvas_h l ts = gl_header_h l + 16 + gl_rows l * gl_cell_h l + (gl_rows l - 1) * gl_row_gap l
      + (if gl_outside_ts l \<and> ts then gl_row_gap l else 0)"
    and "canvas_w l = gl_icon_area_w l + gl_qr_strip_w l"
proof -
  have "gl_rows l * gl_cell_h l \<le> 20 * 2 ^ 26" using assms by (intro mult_mono) (auto simp: plain_layout_def)
  moreover have "(gl_rows l - 1) * gl_row_gap l \<le> 20 * 36" using assms by (intro mult_mono) (auto simp: plain_layout_def)
  ultimately have "gl_header_h l + gl_pad l * 2 + gl_rows l * gl_cell_h l + (gl_rows l - 1) * gl_row_gap l
      + (if gl_outside_ts l \<and> ts then gl_row_gap l else 0) < 2 ^ 32"
    using assms by (auto simp: plain_layout_def)
  moreover have "sub32 (gl_rows l) 1 = gl_rows l - 1" using assms by (intro sub32_id) (auto simp: plain_layout_def)
  ultimately show "canvas_h l ts = gl_header_h l + 16 + gl_rows l * gl_cell_h l + (gl_rows l - 1) * gl_row_gap l
      + (if gl_outside_ts l \<and> ts then gl_row_gap l else 0)"
    using assms by (simp add: canvas_h_def Let_def w32_id plain_layout_def)
  show "canvas_w l = gl_icon_area_w l + gl_qr_strip_w l" using assms by (simp add: canvas_w_def w32_id plain_layout_def)
qed

lemma plain_small:
  assumes "plain_layout l"
  shows "canvas_w l < 2 ^ 31" "canvas_h l ts < 2 ^ 31"
proof -
  have "gl_rows l * gl_cell_h l \<le> 20 * 2 ^ 26" using assms by (intro mult_mono) (auto simp: plain_layout_def)
  moreover have "(gl_rows l - 1) * gl_row_gap l \<le> 20 * 36" using assms by (intro mult_mono) (auto simp: plain_layout_def)
  ultimately show "canvas_w l < 2 ^ 31" "canvas_h l ts < 2 ^ 31"
    using plain_height [OF assms] assms by (auto simp: plain_layout_def)
qed

lemma plain_origin:
  assumes "plain_layout l" and "col < gl_cols l" and "row < gl_rows l"
  shows "cell_origin l col row = (8 + col * (gl_cell_w l + 4), gl_header_h l + 8 + row * (gl_cell_h l + gl_row_gap l))"
proof -
  have c: "col * (gl_cell_w l + 4) \<le> 12 * (2 ^ 26 + 4)" using assms by (intro mult_mono) (auto simp: plain_layout_def)
  have r: "row * (gl_cell_h l + gl_row_gap l) \<le> 20 * (2 ^ 26 + 36)" using assms by (intro mult_mono) (auto simp: plain_layout_def)
  from c r assms(1) show ?thesis by (auto simp: cell_origin_def w32_id plain_layout_def)
qed

text \<open>Every cell lies below the header and within the canvas.\<close>

lemma cell_inside:
  assumes "plain_layout l" and "col < gl_cols l" and "row < gl_rows l" and "cell_origin l col row = (cx, cy)"
  shows "cx + gl_cell_w l + 8 \<le> canvas_w l" and "gl_header_h l + 8 \<le> cy" and "cy + gl_cell_h l + 8 \<le> canvas_h l ts" and "8 \<le> cx"
  using assms(1,4) product_bound [OF assms(2), of "gl_cell_w l" 4] product_bound [OF assms(3), of "gl_cell_h l" "gl_row_gap l"]
  unfolding plain_origin [OF assms(1-3)] plain_height [OF assms(1)]
  by (auto simp: plain_layout_def)

text \<open>Cells of different columns or rows are at least a gap apart.\<close>

lemma cells_apart:
  assumes "plain_layout l" and "i < j"
  shows "i * (gl_cell_w l + 4) + gl_cell_w l + 4 \<le> j * (gl_cell_w l + 4)"
    and "i * (gl_cell_h l + gl_row_gap l) + gl_cell_h l + gl_row_gap l \<le> j * (gl_cell_h l + gl_row_gap l)"
proof -
  have m: "Suc i * d \<le> j * d" for d :: nat using assms(2) by (intro mult_le_mono1) simp
  show "i * (gl_cell_w l + 4) + gl_cell_w l + 4 \<le> j * (gl_cell_w l + 4)"
    and "i * (gl_cell_h l + gl_row_gap l) + gl_cell_h l + gl_row_gap l \<le> j * (gl_cell_h l + gl_row_gap l)"
    using m [of "gl_cell_w l + 4"] m [of "gl_cell_h l + gl_row_gap l"] by simp_all
qed

definition in_cell :: "grid_layout \<Rightarrow> nat \<Rightarrow> nat \<Rightarrow> nat \<Rightarrow> nat \<Rightarrow> bool" where
  "in_cell l col row x y \<longleftrightarrow>
     (case cell_origin l col row of (cx, cy) \<Rightarrow> cx \<le> x \<and> x < cx + gl_cell_w l \<and> cy \<le> y \<and> y < cy + gl_cell_h l)"

lemma cells_disjoint:
  assumes "plain_layout l" and "col < gl_cols l" and "row < gl_rows l" and "col' < gl_cols l" and "row' < gl_rows l"
    and "in_cell l col row x y" and "in_cell l col' row' x y"
  shows "col = col' \<and> row = row'"
proof -
  note p = plain_origin [OF assms(1-3)] plain_origin [OF assms(1,4,5)]
  have "col = col'"
    using cells_apart(1) [OF assms(1), of col col'] cells_apart(1) [OF assms(1), of col' col] assms(6,7)
    by (cases col col' rule: linorder_cases) (auto simp: in_cell_def p)
  moreover have "row = row'"
    using cells_apart(2) [OF assms(1), of row row'] cells_apart(2) [OF assms(1), of row' row] assms(6,7)
    by (cases row row' rule: linorder_cases) (auto simp: in_cell_def p)
  ultimately show ?thesis ..
qed

end
