(* ===== verification/Poster_Draw.thy ===== *)
theory Poster_Draw
  imports Poster_Layout
begin

text \<open>
  Drawing on a poster: rectangles, the built-in bitmap font, glyphs of fonts and emoji, and how wide a text is
  (\<^verbatim>\<open>crates/poster-gen/src/text_renderer.rs\<close>). A text is the list of its code points.
\<close>

section \<open>Texts\<close>

type_synonym unitext = "nat list"

definition ascii :: "string \<Rightarrow> unitext" where "ascii s = map of_char s"

text \<open>\<^verbatim>\<open>str::len\<close>: bytes of UTF-8.\<close>

definition utf8_len :: "unitext \<Rightarrow> nat" where
  "utf8_len s = sum_list (map (\<lambda>c. if c < 128 then 1 else if c < 2048 then 2 else if c < 65536 then 3 else 4) s)"

definition is_cjk :: "nat \<Rightarrow> bool" where
  "is_cjk c \<longleftrightarrow>
     (\<exists>(a, b) \<in> set [(0x2E80, 0x2EFF), (0x2F00, 0x2FDF), (0x3000, 0x303F), (0x3040, 0x309F), (0x30A0, 0x30FF),
        (0x3100, 0x312F), (0x3190, 0x319F), (0x31C0, 0x31FF), (0x3200, 0x33FF), (0x3400, 0x4DBF), (0x4E00, 0x9FFF),
        (0xA000, 0xA48F), (0xAC00, 0xD7AF), (0xF900, 0xFAFF), (0xFE30, 0xFE4F), (0xFF00, 0xFFEF),
        (0x20000, 0x2A6DF), (0x2A700, 0x2CEAF), (0x2CEB0, 0x2EBEF), (0x30000, 0x3134F)]. a \<le> c \<and> c \<le> b)"

section \<open>Rectangles\<close>

definition u8_of :: "fl \<Rightarrow> byte" where
  "u8_of x = of_nat (min 255 (f_to_u32 x))"

definition blend :: "byte \<Rightarrow> fl \<Rightarrow> fl \<Rightarrow> byte" where
  "blend bg fg alpha =
     u8_of (fl_bound (Fin 0) (Fin 255) (f_round (g_add (g_mul (g_of_nat (unat bg)) (g_sub (Fin 1) alpha)) (g_mul fg alpha))))"

definition fill_rect_alpha :: "rgba \<Rightarrow> nat \<Rightarrow> nat \<Rightarrow> nat \<Rightarrow> nat \<Rightarrow> pixel \<times> byte \<Rightarrow> rgba" where
  "fill_rect_alpha img x y w h color =
     (let alpha = g_div (g_of_nat (unat (snd color))) (Fin 255);
          fg = (\<lambda>k. if k < 3 then g_of_nat (unat (channel k (fst color))) else Fin 255)
      in img\<lparr>rg_at := \<lambda>vx vy k.
           if x \<le> vx \<and> vx < min (sat_add32 x w) (rg_w img) \<and> y \<le> vy \<and> vy < min (sat_add32 y h) (rg_h img)
           then blend (rg_at img vx vy k) (fg k) alpha else rg_at img vx vy k\<rparr>)"

section \<open>The bitmap font\<close>

text \<open>Seven rows of five bits for the printable characters from the space on.\<close>

definition ascii_bitmaps :: "nat list list" where
  "ascii_bitmaps =
    [[0x00, 0x00, 0x00, 0x00, 0x00, 0x00, 0x00],
     [0x04, 0x04, 0x04, 0x04, 0x00, 0x04, 0x00],
     [0x0A, 0x0A, 0x00, 0x00, 0x00, 0x00, 0x00],
     [0x0A, 0x1F, 0x0A, 0x1F, 0x0A, 0x00, 0x00],
     [0x0E, 0x15, 0x0C, 0x06, 0x15, 0x0E, 0x00],
     [0x19, 0x1A, 0x02, 0x04, 0x0B, 0x13, 0x00],
     [0x0C, 0x12, 0x14, 0x08, 0x15, 0x12, 0x0D],
     [0x04, 0x04, 0x00, 0x00, 0x00, 0x00, 0x00],
     [0x02, 0x04, 0x08, 0x08, 0x08, 0x04, 0x02],
     [0x08, 0x04, 0x02, 0x02, 0x02, 0x04, 0x08],
     [0x00, 0x0A, 0x04, 0x1F, 0x04, 0x0A, 0x00],
     [0x00, 0x04, 0x04, 0x1F, 0x04, 0x04, 0x00],
     [0x00, 0x00, 0x00, 0x00, 0x04, 0x04, 0x08],
     [0x00, 0x00, 0x00, 0x1F, 0x00, 0x00, 0x00],
     [0x00, 0x00, 0x00, 0x00, 0x00, 0x04, 0x00],
     [0x01, 0x02, 0x02, 0x04, 0x08, 0x08, 0x10],
     [0x0E, 0x11, 0x13, 0x15, 0x19, 0x11, 0x0E],
     [0x04, 0x0C, 0x04, 0x04, 0x04, 0x04, 0x0E],
     [0x0E, 0x11, 0x01, 0x06, 0x08, 0x10, 0x1F],
     [0x1F, 0x02, 0x04, 0x02, 0x01, 0x11, 0x0E],
     [0x02, 0x06, 0x0A, 0x12, 0x1F, 0x02, 0x02],
     [0x1F, 0x10, 0x1E, 0x01, 0x01, 0x11, 0x0E],
     [0x06, 0x08, 0x10, 0x1E, 0x11, 0x11, 0x0E],
     [0x1F, 0x01, 0x02, 0x04, 0x08, 0x08, 0x08],
     [0x0E, 0x11, 0x11, 0x0E, 0x11, 0x11, 0x0E],
     [0x0E, 0x11, 0x11, 0x0F, 0x01, 0x02, 0x1C],
     [0x00, 0x04, 0x00, 0x00, 0x04, 0x00, 0x00],
     [0x00, 0x04, 0x00, 0x00, 0x04, 0x04, 0x08],
     [0x02, 0x04, 0x08, 0x10, 0x08, 0x04, 0x02],
     [0x00, 0x1F, 0x00, 0x00, 0x1F, 0x00, 0x00],
     [0x08, 0x04, 0x02, 0x01, 0x02, 0x04, 0x08],
     [0x0E, 0x11, 0x01, 0x06, 0x04, 0x00, 0x04],
     [0x0E, 0x11, 0x17, 0x15, 0x17, 0x10, 0x0E],
     [0x04, 0x0A, 0x11, 0x1F, 0x11, 0x11, 0x11],
     [0x1E, 0x11, 0x11, 0x1E, 0x11, 0x11, 0x1E],
     [0x0E, 0x11, 0x10, 0x10, 0x10, 0x11, 0x0E],
     [0x1E, 0x09, 0x11, 0x11, 0x11, 0x09, 0x1E],
     [0x1F, 0x10, 0x10, 0x1E, 0x10, 0x10, 0x1F],
     [0x1F, 0x10, 0x10, 0x1E, 0x10, 0x10, 0x10],
     [0x0E, 0x11, 0x10, 0x17, 0x11, 0x11, 0x0F],
     [0x11, 0x11, 0x11, 0x1F, 0x11, 0x11, 0x11],
     [0x0E, 0x04, 0x04, 0x04, 0x04, 0x04, 0x0E],
     [0x07, 0x02, 0x02, 0x02, 0x02, 0x12, 0x0C],
     [0x11, 0x12, 0x14, 0x18, 0x14, 0x12, 0x11],
     [0x10, 0x10, 0x10, 0x10, 0x10, 0x10, 0x1F],
     [0x11, 0x1B, 0x15, 0x11, 0x11, 0x11, 0x11],
     [0x11, 0x19, 0x15, 0x13, 0x11, 0x11, 0x11],
     [0x0E, 0x11, 0x11, 0x11, 0x11, 0x11, 0x0E],
     [0x1E, 0x11, 0x11, 0x1E, 0x10, 0x10, 0x10],
     [0x0E, 0x11, 0x11, 0x11, 0x15, 0x12, 0x0D],
     [0x1E, 0x11, 0x11, 0x1E, 0x14, 0x12, 0x11],
     [0x0E, 0x11, 0x10, 0x0E, 0x01, 0x11, 0x0E],
     [0x1F, 0x04, 0x04, 0x04, 0x04, 0x04, 0x04],
     [0x11, 0x11, 0x11, 0x11, 0x11, 0x11, 0x0E],
     [0x11, 0x11, 0x11, 0x11, 0x11, 0x0A, 0x04],
     [0x11, 0x11, 0x11, 0x15, 0x15, 0x1B, 0x11],
     [0x11, 0x11, 0x0A, 0x04, 0x0A, 0x11, 0x11],
     [0x11, 0x11, 0x0A, 0x04, 0x04, 0x04, 0x04],
     [0x1F, 0x01, 0x02, 0x04, 0x08, 0x10, 0x1F],
     [0x0E, 0x08, 0x08, 0x08, 0x08, 0x08, 0x0E],
     [0x10, 0x08, 0x08, 0x04, 0x02, 0x02, 0x01],
     [0x0E, 0x02, 0x02, 0x02, 0x02, 0x02, 0x0E],
     [0x04, 0x0A, 0x11, 0x00, 0x00, 0x00, 0x00],
     [0x00, 0x00, 0x00, 0x00, 0x00, 0x00, 0x1F],
     [0x08, 0x04, 0x00, 0x00, 0x00, 0x00, 0x00],
     [0x00, 0x00, 0x0E, 0x01, 0x0F, 0x11, 0x0F],
     [0x10, 0x10, 0x1E, 0x11, 0x11, 0x11, 0x1E],
     [0x00, 0x00, 0x0E, 0x10, 0x10, 0x11, 0x0E],
     [0x01, 0x01, 0x0F, 0x11, 0x11, 0x11, 0x0F],
     [0x00, 0x00, 0x0E, 0x11, 0x1F, 0x10, 0x0E],
     [0x06, 0x09, 0x08, 0x1C, 0x08, 0x08, 0x08],
     [0x00, 0x00, 0x0F, 0x11, 0x0F, 0x01, 0x0E],
     [0x10, 0x10, 0x1E, 0x11, 0x11, 0x11, 0x11],
     [0x04, 0x00, 0x0C, 0x04, 0x04, 0x04, 0x0E],
     [0x02, 0x00, 0x06, 0x02, 0x02, 0x12, 0x0C],
     [0x10, 0x10, 0x12, 0x14, 0x18, 0x14, 0x12],
     [0x0C, 0x04, 0x04, 0x04, 0x04, 0x04, 0x0E],
     [0x00, 0x00, 0x1A, 0x15, 0x15, 0x11, 0x11],
     [0x00, 0x00, 0x1E, 0x11, 0x11, 0x11, 0x11],
     [0x00, 0x00, 0x0E, 0x11, 0x11, 0x11, 0x0E],
     [0x00, 0x00, 0x1E, 0x11, 0x1E, 0x10, 0x10],
     [0x00, 0x00, 0x0F, 0x11, 0x0F, 0x01, 0x01],
     [0x00, 0x00, 0x16, 0x19, 0x10, 0x10, 0x10],
     [0x00, 0x00, 0x0E, 0x10, 0x0E, 0x01, 0x1E],
     [0x08, 0x08, 0x1C, 0x08, 0x08, 0x09, 0x06],
     [0x00, 0x00, 0x11, 0x11, 0x11, 0x13, 0x0D],
     [0x00, 0x00, 0x11, 0x11, 0x11, 0x0A, 0x04],
     [0x00, 0x00, 0x11, 0x11, 0x15, 0x15, 0x0A],
     [0x00, 0x00, 0x11, 0x0A, 0x04, 0x0A, 0x11],
     [0x00, 0x00, 0x11, 0x11, 0x0F, 0x01, 0x0E],
     [0x00, 0x00, 0x1F, 0x02, 0x04, 0x08, 0x1F],
     [0x03, 0x04, 0x04, 0x08, 0x04, 0x04, 0x03],
     [0x04, 0x04, 0x04, 0x04, 0x04, 0x04, 0x04],
     [0x18, 0x04, 0x04, 0x02, 0x04, 0x04, 0x18],
     [0x00, 0x08, 0x15, 0x02, 0x00, 0x00, 0x00]]"

definition char_bitmap :: "nat \<Rightarrow> nat list" where
  "char_bitmap c =
     (if 32 \<le> c \<and> c \<le> 126 then ascii_bitmaps ! (c - 32)
      else if c = 0xd7 then [0x00, 0x11, 0x0A, 0x04, 0x0A, 0x11, 0x00]
      else [0x1F, 0x1F, 0x1F, 0x1F, 0x1F, 0x1F, 0x1F])"

definition draw_bitmap :: "rgba \<Rightarrow> nat list \<Rightarrow> nat \<Rightarrow> nat \<Rightarrow> nat \<Rightarrow> pixel \<Rightarrow> rgba" where
  "draw_bitmap img bitmap cx y scale color =
     img\<lparr>rg_at := \<lambda>vx vy k.
       (let i = (vx - cx) div scale; row = (vy - y) div scale
        in if in_rgba img vx vy \<and> cx \<le> vx \<and> y \<le> vy \<and> 0 < scale \<and> i < 5 \<and> row < 7 \<and> odd (bitmap ! row div 2 ^ (4 - i))
           then (if k < 3 then channel k color else 255) else rg_at img vx vy k)\<rparr>"

fun draw_text_bitmap :: "rgba \<Rightarrow> unitext \<Rightarrow> nat \<Rightarrow> nat \<Rightarrow> nat \<Rightarrow> nat \<Rightarrow> pixel \<Rightarrow> rgba" where
  "draw_text_bitmap img [] i x y scale color = img"
| "draw_text_bitmap img (c # cs) i x y scale color =
     (let cx = sat_add32 x (w32 (i * (6 * scale)))
      in if rg_w img \<le> cx then img
         else draw_text_bitmap (draw_bitmap img (char_bitmap c) cx y scale color) cs (i + 1) x y scale color)"

section \<open>Fonts and emoji\<close>

text \<open>
  Of \<^verbatim>\<open>ab_glyph\<close>: the glyph of a character, zero when there is none; the outline of a glyph at a scale, with the least and
  the greatest corner of its bounds and the dots its \<^verbatim>\<open>draw\<close> reports (offset and coverage); advance and ascent. Of
  \<^verbatim>\<open>twemoji_assets\<close>, \<^verbatim>\<open>resvg\<close> and \<^verbatim>\<open>tiny_skia\<close>: which characters have a picture, and the picture in a square of some side,
  premultiplied, when it can be drawn.
\<close>

record outline =
  og_min_x :: fl
  og_min_y :: fl
  og_max_y :: fl
  og_dots :: "(nat \<times> nat \<times> fl) list"

record font =
  fo_id :: "nat \<Rightarrow> nat"
  fo_outline :: "fl \<Rightarrow> nat \<Rightarrow> outline option"
  fo_advance :: "fl \<Rightarrow> nat \<Rightarrow> fl"
  fo_ascent :: "fl \<Rightarrow> fl"

record emoji =
  em_known :: "nat \<Rightarrow> bool"
  em_picture :: "nat \<Rightarrow> nat \<Rightarrow> (nat \<Rightarrow> nat \<Rightarrow> pixel \<times> byte) option"

definition glyph :: "font \<Rightarrow> fl \<Rightarrow> nat \<Rightarrow> outline option" where
  "glyph f scale c = (if fo_id f c \<noteq> 0 then fo_outline f scale (fo_id f c) else None)"

definition advance :: "font \<Rightarrow> fl \<Rightarrow> nat \<Rightarrow> fl" where
  "advance f scale c = fo_advance f scale (fo_id f c)"

text \<open>One reported dot: coordinates that are negative become zero, as the conversion to \<^verbatim>\<open>u32\<close> saturates.\<close>

definition mix_dot :: "fl \<Rightarrow> fl \<Rightarrow> byte \<Rightarrow> byte" where
  "mix_dot a fg old = u8_of (g_add (g_mul (g_sub (Fin 1) a) (g_of_nat (unat old))) (g_mul a fg))"

definition put_dot :: "fl \<Rightarrow> fl \<Rightarrow> pixel \<Rightarrow> nat \<times> nat \<times> fl \<Rightarrow> rgba \<Rightarrow> rgba" where
  "put_dot offset_x offset_y color dot img =
     (case dot of (gx, gy, alpha) \<Rightarrow>
        let vx = f_to_u32 (g_add offset_x (g_of_nat gx)); vy = f_to_u32 (g_add offset_y (g_of_nat gy));
            a = fl_bound (Fin 0) (Fin 1) alpha
        in if in_rgba img vx vy \<and> fl_less (round32 (1 / 100)) alpha
           then img\<lparr>rg_at := \<lambda>x y k. if x = vx \<and> y = vy
                      then mix_dot a (if k < 3 then g_of_nat (unat (channel k color)) else Fin 255) (rg_at img x y k)
                      else rg_at img x y k\<rparr>
           else img)"

definition draw_outline :: "outline \<Rightarrow> fl \<Rightarrow> fl \<Rightarrow> pixel \<Rightarrow> rgba \<Rightarrow> rgba" where
  "draw_outline og cx baseline color img =
     fold (put_dot (g_add cx (og_min_x og)) (g_add baseline (og_min_y og)) color) (og_dots og) img"

definition emoji_over :: "pixel \<times> byte \<Rightarrow> nat \<Rightarrow> byte \<Rightarrow> byte" where
  "emoji_over src k old =
     (let a = g_div (g_of_nat (unat (snd src))) (Fin 255); d = g_of_nat (unat old)
      in u8_of (fl_min (if k < 3 then g_add (g_of_nat (unat (channel k (fst src)))) (g_mul d (g_sub (Fin 1) a))
                        else g_add d (g_mul (g_sub (Fin 255) d) a)) (Fin 255)))"

definition render_twemoji :: "emoji \<Rightarrow> rgba \<Rightarrow> nat \<Rightarrow> nat \<Rightarrow> nat \<Rightarrow> nat \<Rightarrow> rgba \<times> bool" where
  "render_twemoji em img c x y side =
     (if side = 0 \<or> \<not> em_known em c then (img, False)
      else case em_picture em c side of
             None \<Rightarrow> (img, False)
           | Some pic \<Rightarrow>
               (img\<lparr>rg_at := \<lambda>vx vy k.
                  (let src = pic (vx - x) (vy - y)
                   in if in_rgba img vx vy \<and> x \<le> vx \<and> vx < x + side \<and> y \<le> vy \<and> vy < y + side
                         \<and> fl_less (round32 (1 / 100)) (g_div (g_of_nat (unat (snd src))) (Fin 255))
                      then emoji_over src k (rg_at img vx vy k) else rg_at img vx vy k)\<rparr>, True))"

fun first_top :: "font \<Rightarrow> fl \<Rightarrow> nat list \<Rightarrow> fl option" where
  "first_top f scale [] = None"
| "first_top f scale (c # cs) =
     (case glyph f scale c of Some og \<Rightarrow> Some (og_min_y og) | None \<Rightarrow> first_top f scale cs)"

definition probe_glyph_top :: "font \<Rightarrow> fl \<Rightarrow> fl \<Rightarrow> fl \<Rightarrow> fl" where
  "probe_glyph_top f scale baseline ascent =
     (case first_top f scale [0x4e2d, 0x5b57, of_char CHR ''M'', of_char CHR ''A''] of
        Some t \<Rightarrow> g_add baseline t | None \<Rightarrow> g_sub baseline ascent)"

text \<open>An emoji in place of a glyph: its side and its upper edge.\<close>

definition emoji_place :: "font \<Rightarrow> fl \<Rightarrow> fl \<Rightarrow> nat \<times> nat" where
  "emoji_place f scale baseline =
     (let glyph_top = probe_glyph_top f scale baseline (fo_ascent f scale);
          side = f_to_u32 (f_round (g_sub baseline glyph_top));
          offset = f_to_u32 (f_round (g_mul (g_of_nat side) (round32 (8 / 100))))
      in (side, sat_add32 (f_to_u32 (fl_max glyph_top (Fin 0))) offset))"

definition draw_emoji :: "emoji \<Rightarrow> font \<Rightarrow> fl \<Rightarrow> fl \<Rightarrow> fl \<Rightarrow> nat \<Rightarrow> fl \<Rightarrow> rgba \<Rightarrow> rgba \<times> fl" where
  "draw_emoji em f scale baseline cx c otherwise img =
     (case emoji_place f scale baseline of (side, top_y) \<Rightarrow>
        case render_twemoji em img c (f_to_u32 cx) top_y side of
          (img, rendered) \<Rightarrow> (img, if rendered then g_of_nat side else otherwise))"

fun draw_text_ttf_from :: "emoji \<Rightarrow> font \<Rightarrow> unitext \<Rightarrow> fl \<Rightarrow> fl \<Rightarrow> fl \<Rightarrow> pixel \<Rightarrow> rgba \<Rightarrow> rgba" where
  "draw_text_ttf_from em f [] cx baseline scale color img = img"
| "draw_text_ttf_from em f (c # cs) cx baseline scale color img =
     (case (case glyph f scale c of
              Some og \<Rightarrow> (draw_outline og cx baseline color img, advance f scale c)
            | None \<Rightarrow> draw_emoji em f scale baseline cx c (advance f scale c) img) of
        (img, h) \<Rightarrow>
          (let cx = g_add cx h
           in if rg_w img < f_to_u32 cx then img else draw_text_ttf_from em f cs cx baseline scale color img))"

definition draw_text_ttf :: "emoji \<Rightarrow> font \<Rightarrow> rgba \<Rightarrow> unitext \<Rightarrow> nat \<Rightarrow> nat \<Rightarrow> nat \<Rightarrow> pixel \<Rightarrow> rgba" where
  "draw_text_ttf em f img s x y scale_px color =
     draw_text_ttf_from em f s (g_of_nat x) (g_add (g_of_nat y) (g_of_nat scale_px)) (g_of_nat scale_px) color img"

definition draw_text_scaled :: "emoji \<Rightarrow> font option \<Rightarrow> rgba \<Rightarrow> unitext \<Rightarrow> nat \<Rightarrow> nat \<Rightarrow> nat \<Rightarrow> pixel \<Rightarrow> rgba" where
  "draw_text_scaled em fo img s x y scale color =
     (case fo of Some f \<Rightarrow> draw_text_ttf em f img s x y (scale * 6) color
      | None \<Rightarrow> draw_text_bitmap img s 0 x y scale color)"

section \<open>How wide a text is\<close>

definition g_sum :: "fl list \<Rightarrow> fl" where "g_sum = foldl g_add (Fin 0)"

definition char_width :: "emoji \<Rightarrow> font \<Rightarrow> fl \<Rightarrow> fl \<Rightarrow> nat \<Rightarrow> fl" where
  "char_width em f scale emoji_advance c =
     (if glyph f scale c = None \<and> em_known em c then emoji_advance else advance f scale c)"

definition emoji_advance :: "font \<Rightarrow> fl \<Rightarrow> fl" where
  "emoji_advance f scale = fl_max (g_sub scale (probe_glyph_top f scale scale (fo_ascent f scale))) (Fin 1)"

definition measure_text_width_ttf :: "emoji \<Rightarrow> font \<Rightarrow> unitext \<Rightarrow> nat \<Rightarrow> nat" where
  "measure_text_width_ttf em f s scale_px =
     (let scale = g_of_nat scale_px in f_to_u32 (g_sum (map (char_width em f scale (emoji_advance f scale)) s)))"

definition measure_text_width :: "emoji \<Rightarrow> font option \<Rightarrow> unitext \<Rightarrow> nat \<Rightarrow> nat" where
  "measure_text_width em fo s scale =
     (case fo of Some f \<Rightarrow> measure_text_width_ttf em f s (scale * 6) | None \<Rightarrow> w32 (utf8_len s * 6 * scale))"

text \<open>The stem is cut until it fits with an ellipsis and the extension.\<close>

fun fitting :: "(nat \<Rightarrow> nat) \<Rightarrow> nat \<Rightarrow> nat \<Rightarrow> unitext \<Rightarrow> unitext" where
  "fitting width budget used [] = []"
| "fitting width budget used (c # cs) =
     (if budget < w32 (used + width c) then [] else c # fitting width budget (w32 (used + width c)) cs)"

definition split_extension :: "unitext \<Rightarrow> unitext \<times> unitext" where
  "split_extension s =
     (if 46 \<in> set s then (rev (tl (dropWhile (\<lambda>c. c \<noteq> 46) (rev s))), 46 # rev (takeWhile (\<lambda>c. c \<noteq> 46) (rev s))) else (s, []))"

definition ellipsis :: unitext where "ellipsis = [0x2026]"

definition truncate_filename_to_fit :: "emoji \<Rightarrow> font option \<Rightarrow> unitext \<Rightarrow> nat \<Rightarrow> nat \<Rightarrow> unitext" where
  "truncate_filename_to_fit em fo filename scale max_w =
     (let width = (\<lambda>s. measure_text_width em fo s scale)
      in if width filename \<le> max_w then filename
         else case split_extension filename of (stem, ext) \<Rightarrow>
           let budget = max_w - w32 (width ellipsis + width ext)
           in fitting (\<lambda>c. width [c]) budget 0 stem @ ellipsis @ ext)"

section \<open>What drawing changes\<close>

definition paints :: "(nat \<Rightarrow> nat \<Rightarrow> bool) \<Rightarrow> rgba \<Rightarrow> rgba \<Rightarrow> bool" where
  "paints R a b \<longleftrightarrow>
     rg_w b = rg_w a \<and> rg_h b = rg_h a \<and> (\<forall>x y k. \<not> R x y \<longrightarrow> rg_at b x y k = rg_at a x y k)"

lemma paints_refl [intro, simp]: "paints R a a"
  by (simp add: paints_def)

lemma paints_trans: "paints R a b \<Longrightarrow> paints R b c \<Longrightarrow> paints R a c"
  by (simp add: paints_def)

lemma paints_mono: "paints R a b \<Longrightarrow> (\<And>x y. R x y \<Longrightarrow> S x y) \<Longrightarrow> paints S a b"
  unfolding paints_def by blast

lemma paints_size: "paints R a b \<Longrightarrow> rg_w b = rg_w a \<and> rg_h b = rg_h a"
  by (simp add: paints_def)

lemma paints_fold: "(\<And>x a. x \<in> set xs \<Longrightarrow> paints R a (f x a)) \<Longrightarrow> paints R a (fold f xs a)"
  by (induction xs arbitrary: a) (auto intro: paints_trans)

definition in_rect :: "nat \<Rightarrow> nat \<Rightarrow> nat \<Rightarrow> nat \<Rightarrow> nat \<Rightarrow> nat \<Rightarrow> bool" where
  "in_rect x y w h vx vy \<longleftrightarrow> x \<le> vx \<and> vx < x + w \<and> y \<le> vy \<and> vy < y + h"

lemma paints_fill: "paints (in_rect x y w h) img (fill_rect_alpha img x y w h color)"
  by (auto simp: paints_def fill_rect_alpha_def in_rect_def sat_add32_def Let_def)

lemma below_scaled: "a \<le> v \<Longrightarrow> (v - a) div d < n \<Longrightarrow> 0 < d \<Longrightarrow> v < a + n * (d :: nat)"
  using div_less_iff_less_mult [of d "v - a" n] by linarith

lemma paints_bitmap: "paints (in_rect cx y (5 * scale) (7 * scale)) img (draw_bitmap img bitmap cx y scale color)"
  unfolding paints_def
proof (intro conjI allI impI)
  fix vx vy k
  assume "\<not> in_rect cx y (5 * scale) (7 * scale) vx vy"
  then show "rg_at (draw_bitmap img bitmap cx y scale color) vx vy k = rg_at img vx vy k"
    using below_scaled [of cx vx scale 5] below_scaled [of y vy scale 7]
    by (auto simp: draw_bitmap_def in_rect_def Let_def mult.commute)
qed (simp_all add: draw_bitmap_def)

lemma paints_text_bitmap:
  assumes "x + (i + length s) * (6 * scale) < 2 ^ 32"
  shows "paints (in_rect x y ((i + length s) * (6 * scale)) (7 * scale)) img (draw_text_bitmap img s i x y scale color)"
  using assms
proof (induction s arbitrary: img i)
  case (Cons c cs)
  define cx where "cx = x + i * (6 * scale)"
  have "i * (6 * scale) + 6 * scale \<le> (i + length (c # cs)) * (6 * scale)" by (simp add: algebra_simps)
  moreover from this Cons.prems have w: "w32 (i * (6 * scale)) = i * (6 * scale)" by (intro w32_id) linarith
  moreover have "sat_add32 x (i * (6 * scale)) = cx"
    using Cons.prems calculation(1) unfolding sat_add32_def cx_def u32_max_def by (intro min.absorb2) linarith
  ultimately have c: "sat_add32 x (w32 (i * (6 * scale))) = cx" and
      le: "cx + 6 * scale \<le> x + (i + length (c # cs)) * (6 * scale)" by (simp_all add: cx_def)
  have "paints (in_rect x y ((i + length (c # cs)) * (6 * scale)) (7 * scale)) img (draw_bitmap img (char_bitmap c) cx y scale color)"
    using paints_bitmap by (rule paints_mono) (use le in \<open>auto simp: in_rect_def cx_def algebra_simps\<close>)
  moreover have "paints (in_rect x y ((i + length (c # cs)) * (6 * scale)) (7 * scale))
      (draw_bitmap img (char_bitmap c) cx y scale color)
      (draw_text_bitmap (draw_bitmap img (char_bitmap c) cx y scale color) cs (i + 1) x y scale color)"
    using Cons.IH [of "i + 1"] Cons.prems by (simp add: algebra_simps)
  ultimately show ?case by (auto simp: c intro: paints_trans)
qed simp

text \<open>Dots, pictures and whole texts keep the size of the canvas, wherever a font places them.\<close>

definition sized :: "rgba \<Rightarrow> rgba \<Rightarrow> bool" where
  "sized a b \<longleftrightarrow> paints (\<lambda>_ _. True) a b"

lemma sized_iff: "sized a b \<longleftrightarrow> rg_w b = rg_w a \<and> rg_h b = rg_h a"
  by (auto simp: sized_def paints_def)

lemma paints_sized: "paints R a b \<Longrightarrow> sized a b"
  by (simp add: sized_iff paints_size)

lemma sized_dot: "sized img (put_dot ox oy color dot img)"
  by (cases dot) (simp add: put_dot_def sized_iff Let_def)

lemma sized_outline: "sized img (draw_outline og cx baseline color img)"
  unfolding draw_outline_def sized_def by (rule paints_fold) (use sized_dot in \<open>simp add: sized_def\<close>)

lemma sized_twemoji: "sized img (fst (render_twemoji em img c x y side))"
  by (auto simp: render_twemoji_def sized_iff split: option.splits)

lemma sized_emoji: "sized img (fst (draw_emoji em f scale baseline cx c other img))"
  using sized_twemoji by (simp add: draw_emoji_def case_prod_beta)

lemma sized_ttf_from: "sized img (draw_text_ttf_from em f s cx baseline scale color img)"
proof (induction s arbitrary: cx img)
  case (Cons c cs)
  define step where "step = (case glyph f scale c of
      Some og \<Rightarrow> (draw_outline og cx baseline color img, advance f scale c)
    | None \<Rightarrow> draw_emoji em f scale baseline cx c (advance f scale c) img)"
  have "sized img (fst step)" unfolding step_def using sized_outline sized_emoji by (auto split: option.split)
  then show ?case using Cons.IH [of "fst step" "g_add cx (snd step)"]
    unfolding draw_text_ttf_from.simps step_def [symmetric] by (simp add: case_prod_beta Let_def sized_iff)
qed (simp add: sized_iff)

lemma sized_text_bitmap: "sized img (draw_text_bitmap img s i x y scale color)"
proof (induction s arbitrary: img i)
  case (Cons c cs)
  have "sized img (draw_bitmap img (char_bitmap c) cx y scale color)" for cx by (rule paints_sized [OF paints_bitmap])
  with Cons.IH show ?case by (auto simp: sized_iff Let_def)
qed (simp add: sized_iff)

lemma sized_text: "sized img (draw_text_scaled em fo img s x y scale color)"
  using sized_text_bitmap sized_ttf_from by (simp add: draw_text_scaled_def draw_text_ttf_def split: option.split)

section \<open>Names that fit\<close>

lemma fitting_prefix: "\<exists>r. s = fitting width budget used s @ r"
  by (induction width budget used s rule: fitting.induct) auto

lemma fitting_width:
  assumes "budget < 2 ^ 32" and "used \<le> budget" and "used + sum_list (map width s) < 2 ^ 32"
  shows "used + sum_list (map width (fitting width budget used s)) \<le> budget"
  using assms
proof (induction width budget used s rule: fitting.induct)
  case (2 width budget used c cs)
  then have "w32 (used + width c) = used + width c" by (intro w32_id) simp
  with 2 show ?case by (auto simp: algebra_simps)
qed simp

lemma fitting_longest:
  assumes "used + sum_list (map width s) < 2 ^ 32" and "s = fitting width budget used s @ c # r"
  shows "budget < used + sum_list (map width (fitting width budget used s @ [c]))"
  using assms
proof (induction width budget used s rule: fitting.induct)
  case (2 width budget used c' cs)
  then have "w32 (used + width c') = used + width c'" by (intro w32_id) simp
  with 2 show ?case by (auto simp: algebra_simps split: if_splits)
qed simp

lemma split_extension_joins: "split_extension s = (stem, ext) \<Longrightarrow> s = stem @ ext"
proof (cases "46 \<in> set s")
  case True
  have "rev s = takeWhile (\<lambda>c. c \<noteq> 46) (rev s) @ dropWhile (\<lambda>c. c \<noteq> 46) (rev s)" by simp
  moreover obtain d where "dropWhile (\<lambda>c. c \<noteq> 46) (rev s) = 46 # d"
    using True by (cases "dropWhile (\<lambda>c. c \<noteq> 46) (rev s)") (auto simp: dropWhile_eq_Cons_conv)
  ultimately have "rev s = takeWhile (\<lambda>c. c \<noteq> 46) (rev s) @ 46 # d" and "tl (dropWhile (\<lambda>c. c \<noteq> 46) (rev s)) = d" by simp_all
  then have "s = rev d @ 46 # rev (takeWhile (\<lambda>c. c \<noteq> 46) (rev s))"
    by (metis append_assoc append_Cons append_Nil rev.simps(2) rev_append rev_rev_ident)
  moreover assume "split_extension s = (stem, ext)"
  ultimately show ?thesis using True \<open>tl _ = d\<close> by (simp add: split_extension_def)
qed (simp add: split_extension_def)

lemma utf8_len_append [simp]: "utf8_len (a @ b) = utf8_len a + utf8_len b"
  by (simp add: utf8_len_def)

text \<open>
  C37: With the built-in font a file name is shown as it is when it fits. Otherwise the longest beginning of its stem that
  leaves room is shown, followed by an ellipsis and the whole extension; this fits whenever the ellipsis and the extension
  alone do.
\<close>

theorem filename_fits:
  assumes "utf8_len filename * 6 * scale + 18 * scale < 2 ^ 32" and "max_w < 2 ^ 32"
    and "split_extension filename = (stem, ext)" and "out = truncate_filename_to_fit em None filename scale max_w"
  shows "(utf8_len filename * 6 * scale \<le> max_w \<longrightarrow> out = filename)
     \<and> (max_w < utf8_len filename * 6 * scale \<longrightarrow>
          (\<exists>kept lost. stem = kept @ lost \<and> out = kept @ ellipsis @ ext
             \<and> ((3 + utf8_len ext) * 6 * scale \<le> max_w \<longrightarrow> utf8_len out * 6 * scale \<le> max_w)
             \<and> (\<forall>c r. lost = c # r \<longrightarrow> max_w < utf8_len (kept @ [c] @ ellipsis @ ext) * 6 * scale)))"
proof -
  define width where "width = (\<lambda>s. measure_text_width em None s scale)"
  have fn: "filename = stem @ ext" by (rule split_extension_joins [OF assms(3)])
  have wd: "width s = utf8_len s * 6 * scale" if "utf8_len s \<le> utf8_len filename + 3" for s
  proof -
    have "utf8_len s * (6 * scale) \<le> (utf8_len filename + 3) * (6 * scale)" using that by (rule mult_le_mono1)
    also have "\<dots> < 2 ^ 32" using assms(1) by (simp add: algebra_simps)
    finally show ?thesis by (simp add: width_def measure_text_width_def w32_id mult.assoc)
  qed
  have el: "utf8_len ellipsis = 3" by (simp add: utf8_len_def ellipsis_def)
  have we: "width filename = utf8_len filename * 6 * scale" "width ellipsis = 18 * scale" "width ext = utf8_len ext * 6 * scale"
    using wd [of filename] wd [of ellipsis] wd [of ext] by (simp_all add: el fn)
  define one where "one = (\<lambda>c. width [c])"
  define budget where "budget = max_w - w32 (18 * scale + utf8_len ext * 6 * scale)"
  define kept where "kept = fitting one budget 0 stem"
  have ew: "w32 (18 * scale + utf8_len ext * 6 * scale) = 18 * scale + utf8_len ext * 6 * scale"
    using assms(1) by (intro w32_id) (simp add: fn algebra_simps)
  have sums: "sum_list (map one s) = utf8_len s * 6 * scale" if "set s \<subseteq> set stem" for s
    using that
  proof (induction s)
    case (Cons c cs)
    then obtain a b where "stem = a @ c # b" by (meson in_set_conv_decomp list.set_intros(1) subsetD)
    then have "utf8_len [c] \<le> utf8_len filename" by (simp add: fn utf8_len_def)
    then have "one c = utf8_len [c] * 6 * scale" using wd [of "[c]"] by (simp add: one_def)
    moreover have "utf8_len (c # cs) = utf8_len [c] + utf8_len cs" by (simp add: utf8_len_def)
    ultimately show ?case using Cons by (simp add: algebra_simps)
  qed (simp add: utf8_len_def)
  have total: "0 + sum_list (map one stem) < 2 ^ 32" using sums [of stem] assms(1) by (simp add: fn algebra_simps)
  obtain lost where lost: "stem = kept @ lost" using fitting_prefix [of stem one budget 0] unfolding kept_def by blast
  have out: "out = (if utf8_len filename * 6 * scale \<le> max_w then filename else kept @ ellipsis @ ext)"
  proof -
    have m: "measure_text_width em None s scale = width s" for s by (simp add: width_def)
    show ?thesis unfolding assms(4) truncate_filename_to_fit_def Let_def m assms(3) case_prod_conv we
      by (simp only: kept_def budget_def one_def ew)
  qed
  have kw: "utf8_len kept * 6 * scale \<le> budget"
  proof -
    have "0 + sum_list (map one kept) \<le> budget"
      unfolding kept_def by (rule fitting_width [OF _ _ total]) (use assms(2) in \<open>simp_all add: budget_def\<close>)
    moreover have "set kept \<subseteq> set stem" by (simp add: lost)
    ultimately show ?thesis using sums [of kept] by simp
  qed
  have fits: "utf8_len (kept @ ellipsis @ ext) * 6 * scale \<le> max_w" if "(3 + utf8_len ext) * 6 * scale \<le> max_w"
    using kw that unfolding budget_def ew by (simp add: el algebra_simps)
  have longest: "max_w < utf8_len (kept @ [c] @ ellipsis @ ext) * 6 * scale" if "lost = c # r" for c r
  proof -
    have "set (kept @ [c]) \<subseteq> set stem" by (auto simp: lost that)
    then have "sum_list (map one (kept @ [c])) = utf8_len (kept @ [c]) * 6 * scale" by (rule sums)
    moreover have "budget < 0 + sum_list (map one (kept @ [c]))"
      using fitting_longest [OF total, of budget c r] lost that unfolding kept_def [symmetric] by blast
    moreover have "utf8_len (kept @ [c] @ ellipsis @ ext) = utf8_len (kept @ [c]) + 3 + utf8_len ext"
      by (simp add: utf8_len_def ellipsis_def)
    ultimately show ?thesis unfolding budget_def ew by (simp add: algebra_simps)
  qed
  show ?thesis using out lost fits longest by auto
qed

definition no_emoji :: emoji where
  "no_emoji = \<lparr>em_known = \<lambda>_. False, em_picture = \<lambda>_ _. None\<rparr>"

definition long_name :: unitext where "long_name = ascii ''episode one.mkv''"

theorem filename_fits_witness:
  "\<exists>kept. truncate_filename_to_fit no_emoji None long_name 1 60 = kept @ ellipsis @ ascii ''.mkv''
     \<and> utf8_len (kept @ ellipsis @ ascii ''.mkv'') * 6 \<le> 60"
proof -
  have n: "utf8_len long_name * 6 * 1 + 18 * 1 < 2 ^ 32" "max_w < 2 ^ 32 \<longleftrightarrow> max_w < 4294967296" "(60 :: nat) < 2 ^ 32"
      "60 < utf8_len long_name * 6 * 1" "(3 + utf8_len (ascii ''.mkv'')) * 6 * 1 \<le> 60" for max_w :: nat
    by (simp_all add: long_name_def ascii_def utf8_len_def)
  have e: "split_extension long_name = (ascii ''episode one'', ascii ''.mkv'')"
    by (simp add: long_name_def ascii_def split_extension_def)
  from filename_fits [OF n(1,3) e refl, of no_emoji] n(4,5) show ?thesis by auto
qed

text \<open>
  With a font, the characters of the stem are measured one by one and every width is rounded down, so the shortened name
  may be wider than the room, and even wider than the name it shortens: a font with characters one and a half pixels wide.
\<close>

definition wide_font :: font where
  "wide_font = \<lparr>fo_id = \<lambda>_. 1, fo_outline = \<lambda>_ _. Some \<lparr>og_min_x = Fin 0, og_min_y = Fin 0, og_max_y = Fin 0, og_dots = []\<rparr>,
                fo_advance = \<lambda>_ _. Fin (3 / 2), fo_ascent = \<lambda>_. Fin 1\<rparr>"

lemma round32_halves: "n < 3000 \<Longrightarrow> round32 (of_nat n / 2) = Fin (of_nat n / 2)"
proof -
  assume n: "n < 3000"
  have "round_val 24 (- 126) (of_int (int n) * 2 powi - 1) = of_int (int n) * 2 powi - 1"
    by (rule round_val_dyadic) (use n in simp_all)
  then have r: "round_val 24 (- 126) (of_nat n / 2) = of_nat n / 2" by (simp add: power_int_minus field_simps)
  have "(of_nat n :: rat) < 3000" using n by (simp add: of_nat_less_numeral_iff)
  with r show ?thesis by (simp add: round32_def round_fl_def Let_def not_le)
qed

lemma wide_sum: "foldl g_add (Fin (of_nat (3 * k) / 2)) (replicate n (Fin (3 / 2))) = Fin (of_nat (3 * (k + n)) / 2)" if "k + n < 1000"
  using that
proof (induction n arbitrary: k)
  case (Suc n)
  have "(of_nat (3 * k) / 2 + 3 / 2 :: rat) = of_nat (3 * Suc k) / 2" by (simp add: add_divide_distrib)
  then have "g_add (Fin (of_nat (3 * k) / 2)) (Fin (3 / 2)) = Fin (of_nat (3 * Suc k) / 2)"
    using round32_halves [of "3 * Suc k"] Suc.prems by (simp only: g_add_def fl_add.simps)
  then show ?case using Suc.IH [of "Suc k"] Suc.prems by simp
qed simp

lemma wide_measure: "length s < 1000 \<Longrightarrow> measure_text_width_ttf no_emoji wide_font s vp = 3 * length s div 2"
proof -
  assume l: "length s < 1000"
  have "map (char_width no_emoji wide_font (g_of_nat vp) (emoji_advance wide_font (g_of_nat vp))) s = replicate (length s) (Fin (3 / 2))"
    by (auto intro!: replicate_eqI simp: char_width_def no_emoji_def wide_font_def advance_def glyph_def)
  with wide_sum [of 0 "length s"] l have "measure_text_width_ttf no_emoji wide_font s vp = f_to_u32 (Fin (of_nat (3 * length s) / 2))"
    by (simp add: measure_text_width_ttf_def g_sum_def)
  moreover have "\<lfloor>of_nat (3 * length s) / (2 :: rat)\<rfloor> = int (3 * length s div 2)"
    using floor_divide_of_nat_eq [of "3 * length s" 2, where 'a = rat] by simp
  moreover have "3 * length s div 2 < 4294967295" using l by simp
  ultimately show ?thesis by (simp add: trunc_def u32_max_def min_def del: of_nat_mult)
qed

theorem shortened_name_overflows:
  "measure_text_width no_emoji (Some wide_font) long_name 1 = 22"
  "measure_text_width no_emoji (Some wide_font) (truncate_filename_to_fit no_emoji (Some wide_font) long_name 1 20) 1 = 24"
proof -
  have e: "split_extension long_name = (ascii ''episode one'', ascii ''.mkv'')"
    by (simp add: long_name_def ascii_def split_extension_def)
  have l: "length long_name = 15" "length (ascii ''episode one'') = 11" "length (ascii ''.mkv'') = 4" "length ellipsis = 1"
    by (simp_all add: long_name_def ascii_def ellipsis_def)
  have w: "measure_text_width no_emoji (Some wide_font) s 1 = 3 * length s div 2" if "length s < 1000" for s
    using that by (simp add: measure_text_width_def wide_measure)
  show n: "measure_text_width no_emoji (Some wide_font) long_name 1 = 22" using w [of long_name] by (simp add: l)
  have p: "w32 k = k" if "k \<le> 11" for k using that by (simp add: w32_id)
  have f: "fitting (\<lambda>_. Suc 0) 13 k s = s" if "k + length s \<le> 11" for k s
    using that by (induction s arbitrary: k) (simp_all add: p)
  have "truncate_filename_to_fit no_emoji (Some wide_font) long_name 1 20 = ascii ''episode one'' @ ellipsis @ ascii ''.mkv''"
    unfolding truncate_filename_to_fit_def Let_def n e by (simp add: w l p f w [unfolded One_nat_def])
  then show "measure_text_width no_emoji (Some wide_font) (truncate_filename_to_fit no_emoji (Some wide_font) long_name 1 20) 1 = 24"
    by (simp add: l w [unfolded One_nat_def])
qed

end
