(* ===== verification/Media_Info.thy ===== *)
theory Media_Info
  imports Poster_Draw
begin

text \<open>
  What is shown about a video: the answer of \<^verbatim>\<open>ffprobe\<close> and how it is read, \<^verbatim>\<open>crates/poster-gen/src/media_info.rs\<close>.
  Parsing of JSON text is \<^verbatim>\<open>serde_json\<close>'s, a parameter; its values are below. Paths have no doubled or trailing
  slashes; names of codecs are ASCII.
\<close>

section \<open>Values\<close>

datatype json = JNull | JBool bool | JPos nat | JNeg int | JFloat fl | JStr string | JArr "json list" | JObj "(string \<times> json) list"

text \<open>\<^verbatim>\<open>value["key"]\<close> is null for a missing key or a value that is no object; of equal keys the last one counts.\<close>

fun field :: "json \<Rightarrow> string \<Rightarrow> json" where
  "field (JObj kvs) k = (case map_of (rev kvs) k of Some v \<Rightarrow> v | None \<Rightarrow> JNull)"
| "field _ k = JNull"

fun as_str :: "json \<Rightarrow> string option" where
  "as_str (JStr s) = Some s"
| "as_str _ = None"

fun as_u64 :: "json \<Rightarrow> nat option" where
  "as_u64 (JPos n) = Some n"
| "as_u64 _ = None"

fun as_i64 :: "json \<Rightarrow> int option" where
  "as_i64 (JPos n) = (if int n \<le> i64_max then Some (int n) else None)"
| "as_i64 (JNeg i) = Some i"
| "as_i64 _ = None"

fun as_array :: "json \<Rightarrow> json list option" where
  "as_array (JArr xs) = Some xs"
| "as_array _ = None"

definition str_or :: "string \<Rightarrow> json \<Rightarrow> string" where
  "str_or d v = (case as_str v of Some s \<Rightarrow> s | None \<Rightarrow> d)"

definition u64_or :: "nat \<Rightarrow> json \<Rightarrow> nat" where
  "u64_or d v = (case as_u64 v of Some n \<Rightarrow> n | None \<Rightarrow> d)"

definition parsed :: "(string \<Rightarrow> 'a option) \<Rightarrow> json \<Rightarrow> 'a option" where
  "parsed p v = Option.bind (as_str v) p"

definition kept :: "('a \<Rightarrow> bool) \<Rightarrow> 'a option \<Rightarrow> 'a option" where
  "kept P v = (case v of Some x \<Rightarrow> if P x then Some x else None | None \<Rightarrow> None)"

definition wrap_i32 :: "int \<Rightarrow> int" where
  "wrap_i32 i = (i + 2 ^ 31) mod 2 ^ 32 - 2 ^ 31"

definition parse_i32 :: "string \<Rightarrow> int option" where
  "parse_i32 s = kept (\<lambda>i. - (2 ^ 31) \<le> i \<and> i < 2 ^ 31) (parse_i64 s)"

definition or_else :: "'a option \<Rightarrow> 'a option \<Rightarrow> 'a option" where
  "or_else a b = (case a of Some x \<Rightarrow> Some x | None \<Rightarrow> b)"

text \<open>\<^verbatim>\<open>{:.p}\<close>: the exact value, rounded half to even.\<close>

fun show_fixed :: "nat \<Rightarrow> fl \<Rightarrow> string" where
  "show_fixed p (Fin x) =
     (let n = nat (rne (\<bar>x\<bar> * 10 ^ p))
      in (if x < 0 then ''-'' else []) @ show_nat (n div 10 ^ p)
         @ (if p = 0 then [] else ''.'' @ show_pad p (int (n mod 10 ^ p))))"
| "show_fixed p PInf = ''inf''"
| "show_fixed p NInf = ''-inf''"
| "show_fixed p NaN = ''NaN''"

definition upper_char :: "char \<Rightarrow> char" where
  "upper_char c = (if of_char c \<in> {97..122 :: nat} then char_of (of_char c - 32 :: nat) else c)"

section \<open>Names\<close>

definition looked_up :: "(string \<times> string) list \<Rightarrow> (string \<Rightarrow> string) \<Rightarrow> string \<Rightarrow> string" where
  "looked_up table otherwise name = (case map_of table name of Some s \<Rightarrow> s | None \<Rightarrow> otherwise name)"

definition friendly_video_codec :: "string \<Rightarrow> string" where
  "friendly_video_codec =
     looked_up
      [(''h264'', ''H.264''), (''libx264'', ''H.264''), (''hevc'', ''H.265''), (''libx265'', ''H.265''),
       (''av1'', ''AV1''), (''libaom-av1'', ''AV1''), (''libsvtav1'', ''AV1''), (''vp9'', ''VP9''), (''libvpx-vp9'', ''VP9''),
       (''vp8'', ''VP8''), (''libvpx'', ''VP8''), (''mpeg2video'', ''MPEG-2''), (''mpeg4'', ''MPEG-4''),
       (''wmv3'', ''WMV''), (''wmv2'', ''WMV''), (''wmv1'', ''WMV''), (''prores'', ''ProRes'')] (map upper_char)"

definition friendly_audio_codec :: "string \<Rightarrow> string" where
  "friendly_audio_codec =
     looked_up
      [(''aac'', ''AAC''), (''mp3'', ''MP3''), (''ac3'', ''AC3''), (''eac3'', ''E-AC3''), (''dts'', ''DTS''), (''flac'', ''FLAC''),
       (''opus'', ''Opus''), (''vorbis'', ''Vorbis''), (''pcm_s16le'', ''PCM''), (''pcm_s24le'', ''PCM''), (''pcm_s32le'', ''PCM''),
       (''truehd'', ''TrueHD'')] (map upper_char)"

definition channel_layout_name :: "string \<Rightarrow> nat \<Rightarrow> string" where
  "channel_layout_name layout channels =
     looked_up
      [(''mono'', ''1ch''), (''stereo'', ''2ch''), (''2.1'', ''2.1ch''), (''3.0'', ''3ch''), (''3.0(back)'', ''3ch''),
       (''4.0'', ''4ch''), (''quad'', ''4ch''), (''quad(side)'', ''4ch''), (''5.1'', ''5.1ch''), (''5.1(side)'', ''5.1ch''),
       (''7.1'', ''7.1ch''), (''7.1(wide)'', ''7.1ch'')]
      (\<lambda>_. if channels = 1 then ''1ch'' else if channels = 2 then ''2ch'' else if channels = 6 then ''5.1ch''
           else if channels = 8 then ''7.1ch'' else if 0 < channels then show_nat channels @ ''ch'' else []) layout"

definition normalize_colour_space :: "string \<Rightarrow> string" where
  "normalize_colour_space =
     looked_up
      [(''bt709'', ''BT.709''), (''bt2020nc'', ''BT.2020''), (''bt2020'', ''BT.2020''), (''bt2020c'', ''BT.2020''),
       (''bt470bg'', ''BT.601''), (''bt470m'', ''BT.601''), (''smpte170m'', ''SMPTE 170M''), (''smpte240m'', ''SMPTE 240M''),
       (''smpte432'', ''P3-D65''), (''iec61966_2_1'', ''sRGB''), (''iec61966-2-1'', ''sRGB'')] (\<lambda>s. s)"

definition starts_with :: "string \<Rightarrow> string \<Rightarrow> bool" where
  "starts_with p s \<longleftrightarrow> take (length p) s = p"

definition parse_bit_depth_from_pix_fmt :: "string \<Rightarrow> int option" where
  "parse_bit_depth_from_pix_fmt pix_fmt =
     (case rsplit_once (CHR ''p'') pix_fmt of
        None \<Rightarrow> None
      | Some (_, rest) \<Rightarrow>
          let digits = takeWhile is_digit rest
          in if digits \<noteq> [] then parse_i32 digits
             else if starts_with ''yuv'' pix_fmt \<or> starts_with ''rgb'' pix_fmt \<or> starts_with ''gbr'' pix_fmt then Some 8
             else None)"

definition detect_hdr :: "string \<Rightarrow> string \<Rightarrow> string option" where
  "detect_hdr color_transfer color_primaries =
     (if color_transfer = ''smpte2084'' then Some ''HDR10''
      else if color_transfer = ''arib-std-b67'' then Some ''HLG''
      else if color_primaries = ''bt2020'' then Some ''HDR'' else None)"

section \<open>Numbers\<close>

definition parse_fps :: "string \<Rightarrow> fl" where
  "parse_fps r_frame_rate =
     (let num = (\<lambda>d s. case parse_f64 s of Some v \<Rightarrow> v | None \<Rightarrow> d)
      in case split_once (CHR ''/'') r_frame_rate of
           Some (a, b) \<Rightarrow>
             (let n = num (Fin 0) a; d = num (Fin 1) b
              in if d \<noteq> Fin 0 then f_div (f_round (f_mul (f_div n d) (Fin 1000))) (Fin 1000) else Fin 0)
         | None \<Rightarrow> num (Fin 0) r_frame_rate)"

definition f_to_u64 :: "fl \<Rightarrow> nat" where
  "f_to_u64 v = (case v of Fin x \<Rightarrow> nat (max 0 (min (2 ^ 64 - 1) (trunc x))) | PInf \<Rightarrow> 2 ^ 64 - 1 | _ \<Rightarrow> 0)"

definition clock :: "nat \<Rightarrow> string" where
  "clock n =
     show_pad 2 (int (n div 3600)) @ '':'' @ show_pad 2 (int (n mod 3600 div 60)) @ '':'' @ show_pad 2 (int (n mod 60))"

definition secs_to_hhmmss :: "fl \<Rightarrow> string" where
  "secs_to_hhmmss secs = clock (f_to_u64 secs)"

definition format_file_size :: "nat \<Rightarrow> string" where
  "format_file_size bytes =
     (let of_unit = (\<lambda>u name. show_fixed 1 (f_div (f_of_int (int bytes)) (f_of_int (int u))) @ name)
      in if 2 ^ 30 \<le> bytes then of_unit (2 ^ 30) '' GB''
         else if 2 ^ 20 \<le> bytes then of_unit (2 ^ 20) '' MB''
         else if 2 ^ 10 \<le> bytes then of_unit (2 ^ 10) '' KB''
         else show_nat bytes @ '' B'')"

section \<open>Media information\<close>

record media_info =
  mi_filename :: string
  mi_file_size :: string
  mi_file_size_bytes :: nat
  mi_resolution :: string
  mi_source_width :: nat
  mi_source_height :: nat
  mi_fps :: fl
  mi_video_codec :: string
  mi_video_profile :: "string option"
  mi_video_bitrate :: "string option"
  mi_bit_depth :: "int option"
  mi_hdr_type :: "string option"
  mi_colour_space :: "string option"
  mi_audio_codec :: "string option"
  mi_audio_format :: "string option"
  mi_audio_bitrate :: "string option"
  mi_audio_sample_rate :: "nat option"
  mi_audio_tracks :: int
  mi_subtitle_count :: int
  mi_duration :: string
  mi_duration_secs :: fl

definition of_kind :: "string \<Rightarrow> json \<Rightarrow> bool" where
  "of_kind k s \<longleftrightarrow> as_str (field s ''codec_type'') = Some k"

definition kbps :: "nat \<Rightarrow> string" where
  "kbps b = show_nat (b div 1000) @ '' kbps''"

text \<open>The multiplication sign in UTF-8.\<close>

definition times_sign :: string where "times_sign = [CHR 0xC3, CHR 0x97]"

definition bit_depth_of :: "json \<Rightarrow> int option" where
  "bit_depth_of v =
     or_else (kept (\<lambda>d. 0 < d) (parsed parse_i32 (field v ''bits_per_raw_sample'')))
      (or_else (map_option wrap_i32 (kept (\<lambda>d. 0 < d) (as_i64 (field v ''bits_per_raw_sample''))))
        (parse_bit_depth_from_pix_fmt (str_or [] (field v ''pix_fmt''))))"

definition channels_of :: "json \<Rightarrow> nat" where
  "channels_of a = u64_or 0 (field a ''channels'')"

definition audio_of :: "json list \<Rightarrow> string option \<times> string option \<times> string option \<times> nat option" where
  "audio_of audio_streams =
     (case max_by_key channels_of audio_streams of
        None \<Rightarrow> (None, None, None, None)
      | Some a \<Rightarrow>
          (map_option friendly_audio_codec (as_str (field a ''codec_name'')),
           Some (channel_layout_name (str_or [] (field a ''channel_layout'')) (channels_of a)),
           map_option kbps (parsed (parse_unsigned 64) (field a ''bit_rate'')),
           parsed (parse_unsigned 32) (field a ''sample_rate'')))"

definition last_part :: "string \<Rightarrow> string" where
  "last_part p = (case rsplit_once (CHR ''/'') p of Some (_, f) \<Rightarrow> f | None \<Rightarrow> p)"

definition info_of :: "json \<Rightarrow> json list \<Rightarrow> json \<Rightarrow> string \<Rightarrow> media_info" where
  "info_of val streams v input =
     (let audio_streams = filter (of_kind ''audio'') streams; format = field val ''format'';
          width = u64_or 0 (field v ''width''); height = u64_or 0 (field v ''height'');
          duration_secs = (case parsed parse_f64 (field format ''duration'') of Some d \<Rightarrow> d | None \<Rightarrow> Fin 0);
          bytes = (case parsed (parse_unsigned 64) (field format ''size'') of Some n \<Rightarrow> n | None \<Rightarrow> 0)
      in case audio_of audio_streams of
           (audio_codec, audio_format, audio_bitrate, audio_sample_rate) \<Rightarrow>
             \<lparr>mi_filename = last_part input, mi_file_size = format_file_size bytes, mi_file_size_bytes = bytes,
              mi_resolution = show_nat width @ times_sign @ show_nat height,
              mi_source_width = w32 width, mi_source_height = w32 height,
              mi_fps = parse_fps (str_or ''0/1'' (field v ''r_frame_rate'')),
              mi_video_codec = friendly_video_codec (str_or ''unknown'' (field v ''codec_name'')),
              mi_video_profile = kept (\<lambda>s. s \<noteq> [] \<and> s \<noteq> ''unknown'' \<and> s \<noteq> ''Unknown'') (as_str (field v ''profile'')),
              mi_video_bitrate = map_option kbps (kept (\<lambda>b. 0 < b) (parsed (parse_unsigned 64) (field v ''bit_rate''))),
              mi_bit_depth = bit_depth_of v,
              mi_hdr_type = detect_hdr (str_or [] (field v ''color_transfer'')) (str_or [] (field v ''color_primaries'')),
              mi_colour_space = map_option normalize_colour_space (kept (\<lambda>s. s \<noteq> [] \<and> s \<noteq> ''unknown'') (as_str (field v ''color_space''))),
              mi_audio_codec = audio_codec, mi_audio_format = audio_format, mi_audio_bitrate = audio_bitrate,
              mi_audio_sample_rate = audio_sample_rate,
              mi_audio_tracks = wrap_i32 (int (length audio_streams)),
              mi_subtitle_count = wrap_i32 (int (length (filter (of_kind ''subtitle'') streams))),
              mi_duration = secs_to_hhmmss duration_secs, mi_duration_secs = duration_secs\<rparr>)"

definition parse_ffprobe_json :: "(string \<Rightarrow> string + json) \<Rightarrow> string \<Rightarrow> string \<Rightarrow> string + media_info" where
  "parse_ffprobe_json from_text text input =
     (case from_text text of
        Inl e \<Rightarrow> Inl (''Failed to parse ffprobe JSON: '' @ e)
      | Inr val \<Rightarrow>
          (case as_array (field val ''streams'') of
             None \<Rightarrow> Inl ''No streams in ffprobe output''
           | Some streams \<Rightarrow>
               (case List.find (of_kind ''video'') streams of
                  None \<Rightarrow> Inl ''No video stream found''
                | Some v \<Rightarrow> Inr (info_of val streams v input))))"

section \<open>Running the program\<close>

definition parent_dir :: "string \<Rightarrow> string" where
  "parent_dir p =
     (case rsplit_once (CHR ''/'') p of Some (d, _) \<Rightarrow> if d = [] then ''/'' else d | None \<Rightarrow> [])"

text \<open>\<^verbatim>\<open>Path::extension\<close>: what follows the last dot, unless that dot starts the name.\<close>

definition extension :: "string \<Rightarrow> string" where
  "extension p = (case rsplit_once (CHR ''.'') (last_part p) of Some (stem, e) \<Rightarrow> if stem = [] then [] else e | None \<Rightarrow> [])"

definition joined :: "string \<Rightarrow> string \<Rightarrow> string" where
  "joined d f = (if d = [] then f else if last d = CHR ''/'' then d @ f else d @ ''/'' @ f)"

definition derive_ffprobe_path :: "string \<Rightarrow> string" where
  "derive_ffprobe_path ffmpeg_path =
     (let ext = extension ffmpeg_path
      in joined (parent_dir ffmpeg_path) (if ext = [] then ''ffprobe'' else ''ffprobe.'' @ ext))"

text \<open>
  \<open>pr_spawn\<close> runs a program with arguments: its exit code (none after a signal) and its output. \<open>pr_utf8\<close> is
  \<^verbatim>\<open>str::from_utf8\<close>: the error, if the bytes are no text.
\<close>

record probe_env =
  pr_spawn :: "string \<Rightarrow> string list \<Rightarrow> string + int option \<times> string"
  pr_utf8 :: "string \<Rightarrow> string option"
  pr_json :: "string \<Rightarrow> string + json"

definition probe_args :: "string \<Rightarrow> string list" where
  "probe_args input = [''-v'', ''quiet'', ''-print_format'', ''json'', ''-show_streams'', ''-show_format'', input]"

definition show_code :: "int option \<Rightarrow> string" where
  "show_code c = (case c of None \<Rightarrow> ''None'' | Some i \<Rightarrow> ''Some('' @ show_int i @ '')'')"

definition extract_media_info :: "probe_env \<Rightarrow> string \<Rightarrow> string \<Rightarrow> string + media_info" where
  "extract_media_info env ffmpeg_path input =
     (let ffprobe_path = derive_ffprobe_path ffmpeg_path
      in case pr_spawn env ffprobe_path (probe_args input) of
           Inl e \<Rightarrow> Inl (''Failed to spawn ffprobe ('' @ ffprobe_path @ ''): '' @ e)
         | Inr (code, out) \<Rightarrow>
             if code \<noteq> Some 0 then Inl (''ffprobe failed (exit code: '' @ show_code code @ '')'')
             else (case pr_utf8 env out of
                     Some e \<Rightarrow> Inl (''ffprobe output not UTF-8: '' @ e)
                   | None \<Rightarrow> parse_ffprobe_json (pr_json env) out input))"

section \<open>Which streams are described\<close>

lemma find_splits: "List.find P xs = Some x \<Longrightarrow> \<exists>pre post. xs = pre @ x # post \<and> P x \<and> (\<forall>y \<in> set pre. \<not> P y)"
proof (induction xs)
  case (Cons y ys)
  show ?case
  proof (cases "P y")
    case True
    with Cons.prems show ?thesis by - (rule exI [of _ "[]"], rule exI [of _ ys], simp)
  next
    case False
    with Cons obtain pre post where "ys = pre @ x # post \<and> P x \<and> (\<forall>y \<in> set pre. \<not> P y)" by auto
    with False show ?thesis by - (rule exI [of _ "y # pre"], rule exI [of _ post], simp)
  qed
qed simp

text \<open>\<^verbatim>\<open>max_by_key\<close> gives the last of the greatest.\<close>

lemma max_by_key_last:
  "max_by_key f xs = Some x \<Longrightarrow> \<exists>pre post. xs = pre @ x # post \<and> (\<forall>y \<in> set pre. f y \<le> f x) \<and> (\<forall>y \<in> set post. f y < f x)"
proof (induction xs arbitrary: x)
  case (Cons y ys)
  show ?case
  proof (cases "max_by_key f ys")
    case None
    with Cons.prems show ?thesis by - (rule exI [of _ "[]"], rule exI [of _ ys], simp)
  next
    case (Some z)
    show ?thesis
    proof (cases "f y \<le> f z")
      case True
      from Cons.IH [OF Some] obtain pre post where
        "ys = pre @ z # post \<and> (\<forall>y \<in> set pre. f y \<le> f z) \<and> (\<forall>y \<in> set post. f y < f z)" by blast
      with True Some Cons.prems show ?thesis by - (rule exI [of _ "y # pre"], rule exI [of _ post], simp)
    next
      case False
      have "\<forall>w \<in> set ys. f w \<le> f z" using max_by_key_greatest [OF Some] by blast
      with False have "\<forall>w \<in> set ys. f w < f y" by force
      moreover from False Some Cons.prems have "x = y" by simp
      ultimately show ?thesis by - (rule exI [of _ "[]"], rule exI [of _ ys], simp)
    qed
  qed
qed simp

text \<open>
  C38: Which streams of a file are described. Reading succeeds only when there is a video stream; codec, bit depth and
  colours are those of the first one. The audio fields are those of one audio stream, the last of those with the most
  channels, and absent when there is none; the number of tracks counts all of them.
\<close>

theorem streams_described:
  assumes "parse_ffprobe_json from_text text input = Inr mi" and "from_text text = Inr val"
    and "as_array (field val ''streams'') = Some streams" and "length streams < 2 ^ 31"
  shows "(\<exists>pre v post. streams = pre @ v # post \<and> of_kind ''video'' v \<and> (\<forall>s \<in> set pre. \<not> of_kind ''video'' s)
        \<and> mi_video_codec mi = friendly_video_codec (str_or ''unknown'' (field v ''codec_name''))
        \<and> mi_bit_depth mi = bit_depth_of v
        \<and> mi_hdr_type mi = detect_hdr (str_or [] (field v ''color_transfer'')) (str_or [] (field v ''color_primaries'')))
     \<and> mi_audio_tracks mi = int (length (filter (of_kind ''audio'') streams))
     \<and> (if filter (of_kind ''audio'') streams = [] then mi_audio_codec mi = None \<and> mi_audio_format mi = None
         else \<exists>pre a post. filter (of_kind ''audio'') streams = pre @ a # post
                \<and> (\<forall>b \<in> set pre. channels_of b \<le> channels_of a) \<and> (\<forall>b \<in> set post. channels_of b < channels_of a)
                \<and> mi_audio_codec mi = map_option friendly_audio_codec (as_str (field a ''codec_name''))
                \<and> mi_audio_format mi = Some (channel_layout_name (str_or [] (field a ''channel_layout'')) (channels_of a)))"
proof -
  from assms(1-3) obtain v where v: "List.find (of_kind ''video'') streams = Some v" and mi: "mi = info_of val streams v input"
    by (auto simp: parse_ffprobe_json_def split: option.splits)
  define audio where "audio = filter (of_kind ''audio'') streams"
  have "length audio \<le> length streams" unfolding audio_def by (rule length_filter_le)
  with assms(4) have small: "int (length audio) < 2 ^ 31" by simp
  have tracks: "mi_audio_tracks mi = int (length audio)"
    using small by (simp add: mi info_of_def Let_def case_prod_beta wrap_i32_def flip: audio_def)
  have fields: "mi_audio_codec mi = fst (audio_of audio)" "mi_audio_format mi = fst (snd (audio_of audio))"
    by (simp_all add: mi info_of_def Let_def case_prod_beta audio_def)
  have video: "mi_video_codec mi = friendly_video_codec (str_or ''unknown'' (field v ''codec_name''))" "mi_bit_depth mi = bit_depth_of v"
      "mi_hdr_type mi = detect_hdr (str_or [] (field v ''color_transfer'')) (str_or [] (field v ''color_primaries''))"
    by (simp_all add: mi info_of_def Let_def case_prod_beta)
  have "if audio = [] then mi_audio_codec mi = None \<and> mi_audio_format mi = None
      else \<exists>pre a post. audio = pre @ a # post
             \<and> (\<forall>b \<in> set pre. channels_of b \<le> channels_of a) \<and> (\<forall>b \<in> set post. channels_of b < channels_of a)
             \<and> mi_audio_codec mi = map_option friendly_audio_codec (as_str (field a ''codec_name''))
             \<and> mi_audio_format mi = Some (channel_layout_name (str_or [] (field a ''channel_layout'')) (channels_of a))"
  proof (cases "max_by_key channels_of audio")
    case None
    then show ?thesis using fields by (simp add: audio_of_def)
  next
    case (Some a)
    then have "audio \<noteq> []" by auto
    moreover from max_by_key_last [OF Some] obtain pre post where
      "audio = pre @ a # post \<and> (\<forall>b \<in> set pre. channels_of b \<le> channels_of a) \<and> (\<forall>b \<in> set post. channels_of b < channels_of a)" by blast
    moreover have "mi_audio_codec mi = map_option friendly_audio_codec (as_str (field a ''codec_name''))"
      "mi_audio_format mi = Some (channel_layout_name (str_or [] (field a ''channel_layout'')) (channels_of a))"
      using fields Some by (simp_all add: audio_of_def)
    ultimately show ?thesis by (simp only: if_False) blast
  qed
  moreover from find_splits [OF v] video have "\<exists>pre v post. streams = pre @ v # post \<and> of_kind ''video'' v \<and> (\<forall>s \<in> set pre. \<not> of_kind ''video'' s)
        \<and> mi_video_codec mi = friendly_video_codec (str_or ''unknown'' (field v ''codec_name''))
        \<and> mi_bit_depth mi = bit_depth_of v
        \<and> mi_hdr_type mi = detect_hdr (str_or [] (field v ''color_transfer'')) (str_or [] (field v ''color_primaries''))" by blast
  ultimately show ?thesis using tracks unfolding audio_def by blast
qed

definition demo_audio :: "string \<Rightarrow> nat \<Rightarrow> json" where
  "demo_audio codec n = JObj [(''codec_type'', JStr ''audio''), (''codec_name'', JStr codec), (''channels'', JPos n)]"

definition demo_streams :: "json list" where
  "demo_streams = [demo_audio ''aac'' 6, JObj [(''codec_type'', JStr ''video''), (''codec_name'', JStr ''hevc'')], demo_audio ''dts'' 6,
                   demo_audio ''mp3'' 2]"

theorem streams_described_witness:
  "\<exists>mi. parse_ffprobe_json (\<lambda>_. Inr (JObj [(''streams'', JArr demo_streams)])) [] ''a.mkv'' = Inr mi
     \<and> mi_audio_tracks mi = 3 \<and> mi_audio_codec mi = Some ''DTS''"
proof -
  obtain mi where mi: "parse_ffprobe_json (\<lambda>_. Inr (JObj [(''streams'', JArr demo_streams)])) [] ''a.mkv'' = Inr mi"
    by (simp add: parse_ffprobe_json_def demo_streams_def demo_audio_def of_kind_def)
  have f: "filter (of_kind ''audio'') demo_streams = [demo_audio ''aac'' 6, demo_audio ''dts'' 6, demo_audio ''mp3'' 2]"
    by (simp add: demo_streams_def demo_audio_def of_kind_def)
  have l: "length demo_streams < 2 ^ 31" by (simp add: demo_streams_def)
  have s: "as_array (field (JObj [(''streams'', JArr demo_streams)]) ''streams'') = Some demo_streams" by simp
  from streams_described [OF mi refl s l] have "mi_audio_tracks mi = 3"
    and "\<exists>pre a post. [demo_audio ''aac'' 6, demo_audio ''dts'' 6, demo_audio ''mp3'' 2] = pre @ a # post
       \<and> (\<forall>b \<in> set pre. channels_of b \<le> channels_of a) \<and> (\<forall>b \<in> set post. channels_of b < channels_of a)
       \<and> mi_audio_codec mi = map_option friendly_audio_codec (as_str (field a ''codec_name''))" unfolding f by auto
  moreover have c: "channels_of (demo_audio x n) = n" for x n by (simp add: channels_of_def u64_or_def demo_audio_def)
  ultimately have "mi_audio_codec mi = map_option friendly_audio_codec (as_str (field (demo_audio ''dts'' 6) ''codec_name''))"
    by (auto simp: Cons_eq_append_conv)
  then have "mi_audio_codec mi = Some ''DTS''" by (simp add: demo_audio_def friendly_audio_codec_def looked_up_def)
  with mi \<open>mi_audio_tracks mi = 3\<close> show ?thesis by blast
qed

section \<open>File sizes\<close>

lemma unit_quotient: "b < 2 ^ 53 \<Longrightarrow> k \<le> 30 \<Longrightarrow> f_div (f_of_int (int b)) (f_of_int (int (2 ^ k))) = Fin (of_nat b / 2 ^ k)"
proof -
  assume b: "b < 2 ^ 53" and k: "k \<le> 30"
  have "(2 :: int) ^ k \<le> 2 ^ 30" using k by (rule power_increasing) simp
  then have e: "f_of_int (int b) = Fin (of_nat b)" "f_of_int (int (2 ^ k)) = Fin (2 ^ k)"
    using f_of_int_exact [of "int b"] f_of_int_exact [of "2 ^ k"] b by simp_all
  have "round64 (of_int (int b) * 2 powi - int k) = Fin (of_int (int b) * 2 powi - int k)"
    using b k by (intro round64_dyadic) simp_all
  then show ?thesis unfolding e by (simp add: power_int_minus power_int_of_nat field_simps)
qed

text \<open>
  The size shown is the size of the file. From one KiB on it is a number with one decimal and the largest unit that
  fits, never more than a twentieth of that unit away from the real size; smaller sizes are exact.
\<close>

theorem file_size_shown:
  assumes "bytes < 2 ^ 53"
  shows "if bytes < 1024 then format_file_size bytes = show_nat bytes @ '' B''
     else \<exists>k name n. (k, name) \<in> {(10, '' KB''), (20, '' MB''), (30, '' GB'')} \<and> 2 ^ k \<le> bytes \<and> (k < 30 \<longrightarrow> bytes < 2 ^ (k + 10))
            \<and> format_file_size bytes = show_nat (n div 10) @ ''.'' @ [digit_char (n mod 10)] @ name
            \<and> 2 * \<bar>int n * 2 ^ k - 10 * int bytes\<bar> \<le> 2 ^ k"
proof -
  define n where "n = (\<lambda>k. nat (rne (of_nat bytes / 2 ^ k * 10)))"
  have near: "2 * \<bar>int (n k) * 2 ^ k - 10 * int bytes\<bar> \<le> 2 ^ k" for k
  proof -
    have "0 \<le> rne (of_nat bytes / 2 ^ k * 10)" using rne_mono [of 0 "of_nat bytes / 2 ^ k * 10"] by simp
    then have "of_int (int (n k)) = (of_int (rne (of_nat bytes / 2 ^ k * 10)) :: rat)" by (simp add: n_def)
    with rne_bounds [of "of_nat bytes / 2 ^ k * 10"] have "\<bar>of_int (int (n k)) - of_nat bytes / 2 ^ k * 10\<bar> \<le> (1 / 2 :: rat)" by simp
    then have "\<bar>of_int (int (n k)) - of_nat bytes / 2 ^ k * 10\<bar> * 2 ^ k \<le> (1 / 2 :: rat) * 2 ^ k" by (intro mult_right_mono) simp_all
    moreover have e: "\<bar>of_int (int (n k)) - of_nat bytes / 2 ^ k * 10\<bar> * 2 ^ k = (\<bar>of_int (int (n k) * 2 ^ k - 10 * int bytes)\<bar> :: rat)"
    proof -
      have "\<bar>of_int (int (n k)) - of_nat bytes / 2 ^ k * 10\<bar> * 2 ^ k = \<bar>(of_int (int (n k)) - of_nat bytes / 2 ^ k * 10) * (2 ^ k :: rat)\<bar>"
        by (simp add: abs_mult)
      also have "(of_int (int (n k)) - of_nat bytes / 2 ^ k * 10) * (2 ^ k :: rat) = of_int (int (n k) * 2 ^ k - 10 * int bytes)"
        by (simp add: left_diff_distrib)
      finally show ?thesis by simp
    qed
    ultimately have "\<bar>of_int (int (n k) * 2 ^ k - 10 * int bytes)\<bar> \<le> (1 / 2 :: rat) * 2 ^ k" by (simp only: e)
    then have "(of_int (2 * \<bar>int (n k) * 2 ^ k - 10 * int bytes\<bar>) :: rat) \<le> of_int (2 ^ k)" by simp
    then show ?thesis by (simp only: of_int_le_iff)
  qed
  have shown: "show_fixed 1 (f_div (f_of_int (int bytes)) (f_of_int (int (2 ^ k)))) = show_nat (n k div 10) @ ''.'' @ [digit_char (n k mod 10)]"
    if "k \<le> 30" for k
    unfolding unit_quotient [OF assms that]
    by (simp add: n_def show_pad_def Let_def show_nat.simps not_less)
  show ?thesis
  proof (cases "bytes < 1024")
    case True
    then show ?thesis by (simp add: format_file_size_def)
  next
    case False
    define k :: nat where "k = (if 2 ^ 30 \<le> bytes then 30 else if 2 ^ 20 \<le> bytes then 20 else 10)"
    define name where "name = (if 2 ^ 30 \<le> bytes then '' GB'' else if 2 ^ 20 \<le> bytes then '' MB'' else '' KB'')"
    have "format_file_size bytes = show_fixed 1 (f_div (f_of_int (int bytes)) (f_of_int (int (2 ^ k)))) @ name"
      using False by (simp add: format_file_size_def k_def name_def)
    moreover have "k \<le> 30" "(k, name) \<in> {(10, '' KB''), (20, '' MB''), (30, '' GB'')}" "2 ^ k \<le> bytes"
        "k < 30 \<longrightarrow> bytes < 2 ^ (k + 10)"
      using False by (auto simp: k_def name_def)
    moreover note shown [OF \<open>k \<le> 30\<close>] near [of k]
    ultimately have "\<exists>k name n. (k, name) \<in> {(10, '' KB''), (20, '' MB''), (30, '' GB'')} \<and> 2 ^ k \<le> bytes \<and> (k < 30 \<longrightarrow> bytes < 2 ^ (k + 10))
        \<and> format_file_size bytes = show_nat (n div 10) @ ''.'' @ [digit_char (n mod 10)] @ name
        \<and> 2 * \<bar>int n * 2 ^ k - 10 * int bytes\<bar> \<le> 2 ^ k"
      by - (rule exI [of _ k], rule exI [of _ name], rule exI [of _ "n k"], simp)
    then show ?thesis by (simp only: False if_False)
  qed
qed

theorem file_size_shown_witness: "\<exists>n. format_file_size 1536000 = show_nat (n div 10) @ ''.'' @ [digit_char (n mod 10)] @ '' MB''"
  using file_size_shown [of 1536000] by auto

end
