(* ===== verification/Poster_Code.thy ===== *)
theory Poster_Code
  imports Media_Info
begin

text \<open>
  The logo and the code in the header of a poster: \<^verbatim>\<open>crates/poster-gen/src/logo.rs\<close> and \<^verbatim>\<open>qr.rs\<close>. The header is not
  higher than the picture, and sides are below \<open>2 ^ 22\<close>.
\<close>

section \<open>Themes\<close>

record theme_colors =
  tc_header_bg :: "pixel \<times> byte"
  tc_text_color :: pixel
  tc_accent_color :: pixel
  tc_badge_bg :: "pixel \<times> byte"
  tc_badge_text :: pixel
  tc_canvas_bg :: pixel
  tc_qr_bubble :: "pixel \<times> byte"
  tc_qr_module_a :: pixel
  tc_qr_module_b :: pixel
  tc_qr_finder_dark :: pixel
  tc_qr_finder_light :: pixel
  tc_ts_outline :: pixel
  tc_ts_shadow :: pixel

section \<open>Pictures made elsewhere\<close>

text \<open>
  \<open>ar_emoji\<close>: emoji. \<open>ar_logo\<close>: the size of the drawing of the logo, if it can be parsed, and \<open>ar_logo_at w h\<close> the logo
  drawn at a size, premultiplied (\<^verbatim>\<open>resvg\<close>). \<open>ar_code\<close>: modules per side of the code and which of them are dark
  (\<^verbatim>\<open>qrcode\<close>), \<open>ar_blur\<close>: \<^verbatim>\<open>imageops::blur\<close>, \<open>ar_overlay\<close>: \<^verbatim>\<open>imageops::overlay\<close>.
\<close>

record art =
  ar_emoji :: emoji
  ar_logo :: "(fl \<times> fl) option"
  ar_logo_at :: "nat \<Rightarrow> nat \<Rightarrow> nat \<Rightarrow> nat \<Rightarrow> pixel \<times> byte"
  ar_code :: "(nat \<times> (nat \<Rightarrow> bool)) option"
  ar_blur :: "rgba \<Rightarrow> fl \<Rightarrow> rgba"
  ar_overlay :: "rgba \<Rightarrow> rgba \<Rightarrow> int \<Rightarrow> int \<Rightarrow> rgba"

section \<open>The logo\<close>

definition alpha_of :: "pixel \<times> byte \<Rightarrow> fl" where
  "alpha_of src = g_div (g_of_nat (unat (snd src))) (Fin 255)"

definition lerped :: "byte \<Rightarrow> fl \<Rightarrow> fl \<Rightarrow> fl" where
  "lerped old new a = g_add (g_mul (g_of_nat (unat old)) (g_sub (Fin 1) a)) (g_mul new a)"

text \<open>A picture of some size over the canvas at a position; pixels that are nearly transparent are left alone.\<close>

definition over_logo :: "(nat \<Rightarrow> nat \<Rightarrow> pixel \<times> byte) \<Rightarrow> nat \<Rightarrow> nat \<Rightarrow> nat \<Rightarrow> nat \<Rightarrow> (pixel \<times> byte \<Rightarrow> nat \<Rightarrow> byte \<Rightarrow> byte) \<Rightarrow> rgba \<Rightarrow> rgba" where
  "over_logo pic x y w h f img =
     img\<lparr>rg_at := \<lambda>vx vy k.
       (let src = pic (vx - x) (vy - y)
        in if in_rgba img vx vy \<and> x \<le> vx \<and> vx < x + w \<and> y \<le> vy \<and> vy < y + h \<and> \<not> fl_le (alpha_of src) (round32 (1 / 100))
           then f src k (rg_at img vx vy k) else rg_at img vx vy k)\<rparr>"

definition logo_height :: "nat \<Rightarrow> fl \<times> fl \<Rightarrow> nat" where
  "logo_height logo_w s = f_to_u32 (f_div (f_mul (f_of_int (int logo_w)) (snd s)) (fst s))"

definition render_logo_at :: "art \<Rightarrow> rgba \<Rightarrow> nat \<Rightarrow> nat \<Rightarrow> nat \<Rightarrow> fl \<Rightarrow> rgba" where
  "render_logo_at ar img x y side opacity =
     (case ar_logo ar of
        None \<Rightarrow> img
      | Some s \<Rightarrow>
          if side = 0 then img
          else (let h = logo_height side s
                in over_logo (ar_logo_at ar (max side 1) (max h 1)) x y side h
                     (\<lambda>src k old. u8_of (lerped old (if k < 3 then g_of_nat (unat (channel k (fst src))) else Fin 255)
                                           (g_mul (alpha_of src) opacity))) img))"

definition render_logo_tinted :: "art \<Rightarrow> rgba \<Rightarrow> nat \<Rightarrow> nat \<Rightarrow> nat \<Rightarrow> pixel \<Rightarrow> rgba" where
  "render_logo_tinted ar img x y side color =
     (case ar_logo ar of
        None \<Rightarrow> img
      | Some s \<Rightarrow>
          if side = 0 then img
          else (let h = logo_height side s
                in over_logo (ar_logo_at ar (max side 1) (max h 1)) x y side h
                     (\<lambda>src k old. if k < 3 then u8_of (f_round (lerped old (g_of_nat (unat (channel k color))) (alpha_of src)))
                                  else 255) img))"

text \<open>The watermark behind the frames.\<close>

definition render_logo :: "art \<Rightarrow> rgba \<Rightarrow> nat \<Rightarrow> nat \<Rightarrow> rgba" where
  "render_logo ar img cw ch =
     (let logo_w = w32 (cw * 2) div 3
      in case ar_logo ar of
           None \<Rightarrow> img
         | Some s \<Rightarrow>
             if logo_w = 0 then img
             else (let logo_h = logo_height logo_w s
                   in over_logo (ar_logo_at ar logo_w (max logo_h 1)) (cw - logo_w) 0 (min logo_w cw) (min logo_h ch)
                        (\<lambda>src k old. if k < 3 then u8_of (lerped old (g_of_nat (unat (channel k (fst src))))
                                                           (g_mul (alpha_of src) (round32 (20 / 100)))) else old) img))"

section \<open>Rounded rectangles\<close>

text \<open>The square root of \<^verbatim>\<open>f32\<close>, correctly rounded: 128 binary places, and one more for an inexact root.\<close>

definition f32_sqrt :: "fl \<Rightarrow> fl" where
  "f32_sqrt v =
     (case v of
        Fin q \<Rightarrow> if q < 0 then NaN
                 else (let k = q * 4 ^ 128; m = isqrt (nat \<lfloor>k\<rfloor>)
                       in round32 ((2 * of_nat m + (if of_nat (m * m) = k then 0 else 1)) / 2 ^ 129))
      | PInf \<Rightarrow> PInf | NInf \<Rightarrow> NaN | NaN \<Rightarrow> NaN)"

definition middle :: "nat \<Rightarrow> fl" where "middle n = g_add (g_of_nat n) (Fin (1 / 2))"

definition off_side :: "nat \<Rightarrow> nat \<Rightarrow> nat \<Rightarrow> bool" where
  "off_side p x w \<longleftrightarrow> fl_less (middle p) (g_of_nat x) \<or> fl_less (g_add (g_of_nat x) (g_of_nat w)) (middle p)"

definition far_end :: "nat \<Rightarrow> nat \<Rightarrow> fl \<Rightarrow> fl" where
  "far_end x w r = g_sub (g_add (g_of_nat x) (g_of_nat w)) r"

definition near_end :: "nat \<Rightarrow> fl \<Rightarrow> fl" where
  "near_end x r = g_add (g_of_nat x) r"

definition corner_coverage :: "nat \<Rightarrow> nat \<Rightarrow> fl \<Rightarrow> fl \<Rightarrow> fl \<Rightarrow> fl" where
  "corner_coverage vx vy cx cy r =
     (let dx = g_sub (middle vx) cx; dy = g_sub (middle vy) cy
      in fl_bound (Fin 0) (Fin 1) (g_sub (g_add r (Fin (1 / 2))) (f32_sqrt (g_add (g_mul dx dx) (g_mul dy dy)))))"

definition radius_in :: "nat \<Rightarrow> nat \<Rightarrow> nat \<Rightarrow> fl" where
  "radius_in r w h = fl_min (fl_min (g_of_nat r) (g_div (g_of_nat w) (Fin 2))) (g_div (g_of_nat h) (Fin 2))"

definition rounded_rect_coverage :: "nat \<Rightarrow> nat \<Rightarrow> nat \<Rightarrow> nat \<Rightarrow> nat \<Rightarrow> nat \<Rightarrow> nat \<Rightarrow> fl" where
  "rounded_rect_coverage vx vy x y w h r =
     (let rf = radius_in r w h;
          at_start = (\<lambda>p a. fl_less (middle p) (near_end a rf)); at_end = (\<lambda>p a len. fl_less (far_end a len rf) (middle p))
      in if off_side vx x w \<or> off_side vy y h then Fin 0
         else if \<not> (at_start vx x \<or> at_end vx x w) \<or> \<not> (at_start vy y \<or> at_end vy y h) then Fin 1
         else corner_coverage vx vy (if at_start vx x then near_end x rf else far_end x w rf)
                (if at_start vy y then near_end y rf else far_end y h rf) rf)"

text \<open>One radius per corner: upper left, upper right, lower left, lower right.\<close>

definition cov_4r :: "nat \<Rightarrow> nat \<Rightarrow> nat \<Rightarrow> nat \<Rightarrow> nat \<Rightarrow> nat \<Rightarrow> nat \<times> nat \<times> nat \<times> nat \<Rightarrow> fl" where
  "cov_4r vx vy x y w h radii =
     (case radii of (tl_r, tr_r, bl_r, br_r) \<Rightarrow>
        let in_left = fl_less (middle vx) (g_add (g_of_nat x) (g_div (g_of_nat w) (Fin 2)));
            in_top = fl_less (middle vy) (g_add (g_of_nat y) (g_div (g_of_nat h) (Fin 2)));
            r = (if in_top then (if in_left then tl_r else tr_r) else (if in_left then bl_r else br_r));
            rf = radius_in r w h;
            cx = (if in_left then near_end x rf else far_end x w rf);
            cy = (if in_top then near_end y rf else far_end y h rf);
            in_corner = (if in_left then fl_less (middle vx) cx else fl_less cx (middle vx))
                      \<and> (if in_top then fl_less (middle vy) cy else fl_less cy (middle vy))
        in if off_side vx x w \<or> off_side vy y h then Fin 0
           else if r = 0 then Fin 1
           else if \<not> in_corner then Fin 1
           else corner_coverage vx vy cx cy rf)"

definition fill_covered :: "(nat \<Rightarrow> nat \<Rightarrow> fl) \<Rightarrow> fl option \<Rightarrow> nat \<Rightarrow> nat \<Rightarrow> nat \<Rightarrow> nat \<Rightarrow> pixel \<Rightarrow> nat \<Rightarrow> nat \<Rightarrow> rgba \<Rightarrow> rgba" where
  "fill_covered cov base_alpha x y w h color max_w max_h img =
     img\<lparr>rg_at := \<lambda>vx vy k.
       (let c = cov vx vy; a = (case base_alpha of Some b \<Rightarrow> g_mul b c | None \<Rightarrow> c)
        in if x - 1 \<le> vx \<and> vx < min (sat_add32 x (w + 1)) max_w \<and> y - 1 \<le> vy \<and> vy < min (sat_add32 y (h + 1)) max_h
              \<and> \<not> fl_le c (Fin 0)
           then (if k < 3 then u8_of (f_round (lerped (rg_at img vx vy k) (g_of_nat (unat (channel k color))) a)) else 255)
           else rg_at img vx vy k)\<rparr>"

definition fill_rounded_rect_blend :: "rgba \<Rightarrow> nat \<Rightarrow> nat \<Rightarrow> nat \<Rightarrow> nat \<Rightarrow> nat \<Rightarrow> pixel \<times> byte \<Rightarrow> nat \<Rightarrow> nat \<Rightarrow> rgba" where
  "fill_rounded_rect_blend img x y w h r color max_w max_h =
     fill_covered (\<lambda>vx vy. rounded_rect_coverage vx vy x y w h r) (Some (alpha_of color)) x y w h (fst color) max_w max_h img"

definition fill_rounded_rect_opaque :: "rgba \<Rightarrow> nat \<Rightarrow> nat \<Rightarrow> nat \<Rightarrow> nat \<Rightarrow> nat \<Rightarrow> pixel \<Rightarrow> nat \<Rightarrow> nat \<Rightarrow> rgba" where
  "fill_rounded_rect_opaque img x y w h r color max_w max_h =
     fill_covered (\<lambda>vx vy. rounded_rect_coverage vx vy x y w h r) None x y w h color max_w max_h img"

definition fill_4r :: "nat \<Rightarrow> nat \<Rightarrow> nat \<Rightarrow> nat \<Rightarrow> nat \<times> nat \<times> nat \<times> nat \<Rightarrow> pixel \<Rightarrow> nat \<Rightarrow> nat \<Rightarrow> rgba \<Rightarrow> rgba" where
  "fill_4r x y w h radii color max_w max_h img =
     fill_covered (\<lambda>vx vy. cov_4r vx vy x y w h radii) None x y w h color max_w max_h img"

section \<open>The code\<close>

definition lerp :: "byte \<Rightarrow> byte \<Rightarrow> fl \<Rightarrow> byte" where
  "lerp a b t =
     u8_of (f_round (g_add (g_of_nat (unat a)) (g_mul (g_sub (g_of_nat (unat b)) (g_of_nat (unat a))) t)))"

definition lerp_pixel :: "pixel \<Rightarrow> pixel \<Rightarrow> fl \<Rightarrow> pixel" where
  "lerp_pixel a b t = (lerp (channel 0 a) (channel 0 b) t, lerp (channel 1 a) (channel 1 b) t, lerp (channel 2 a) (channel 2 b) t)"

definition is_finder_area :: "nat \<Rightarrow> nat \<Rightarrow> nat \<Rightarrow> bool" where
  "is_finder_area mx my n \<longleftrightarrow> (mx < 8 \<and> my < 8) \<or> (n - 7 \<le> mx \<and> my < 8) \<or> (mx < 8 \<and> n - 7 \<le> my)"

text \<open>Where the \<open>m\<close>-th of \<open>n\<close> modules starts.\<close>

definition mpx :: "nat \<Rightarrow> nat \<Rightarrow> nat" where
  "mpx n m = f_to_u32 (f_round (g_mul (g_of_nat m) (g_div (g_of_nat target_qr_px) (g_of_nat n))))"

definition span :: "nat \<Rightarrow> nat \<Rightarrow> nat \<Rightarrow> nat" where
  "span n m k = sub32 (mpx n (m + k)) (mpx n m)"

definition bubble_size :: nat where "bubble_size = target_qr_px + bubble_pad * 2"
definition badge_size :: nat where "badge_size = 27 + 4 * 2"

definition badge_start :: "nat \<Rightarrow> nat" where
  "badge_start q0 = q0 + target_qr_px div 2 - badge_size div 2"

definition row_colour :: "theme_colors \<Rightarrow> nat \<Rightarrow> nat \<Rightarrow> pixel" where
  "row_colour th n my = lerp_pixel (tc_qr_module_a th) (tc_qr_module_b th) (g_div (g_of_nat my) (g_of_nat (max n 1)))"

definition draw_module :: "theme_colors \<Rightarrow> nat \<Rightarrow> nat \<Rightarrow> nat \<Rightarrow> nat \<Rightarrow> nat \<times> nat \<Rightarrow> rgba \<Rightarrow> rgba" where
  "draw_module th n qx qy header_h m img =
     (case m of (mx, my) \<Rightarrow>
        img\<lparr>rg_at := \<lambda>vx vy k.
          (let px0 = qx + mpx n mx; py0 = qy + mpx n my
           in if px0 \<le> vx \<and> vx < px0 + span n mx 1 \<and> py0 \<le> vy \<and> vy < py0 + span n my 1 \<and> vx < rg_w img \<and> vy < header_h
                 \<and> \<not> fl_less (Fin 0) (rounded_rect_coverage vx vy (badge_start qx) (badge_start qy) badge_size badge_size 8)
              then (if k < 3 then channel k (row_colour th n my) else 255) else rg_at img vx vy k)\<rparr>)"

definition dark_modules :: "nat \<Rightarrow> (nat \<Rightarrow> bool) \<Rightarrow> (nat \<times> nat) list" where
  "dark_modules n dark = [(mx, my). my \<leftarrow> [0..<n], mx \<leftarrow> [0..<n], \<not> is_finder_area mx my n, dark (my * n + mx)]"

definition ring_radius :: "nat \<Rightarrow> nat" where
  "ring_radius w = max (f_to_u32 (f_round (g_mul (g_of_nat w) (Fin (1 / 4))))) 1"

definition corner_radii :: "nat \<Rightarrow> bool \<Rightarrow> bool \<Rightarrow> nat \<times> nat \<times> nat \<times> nat" where
  "corner_radii r is_left is_top =
     (if is_left \<and> is_top then (r, r, r, 0) else if is_top then (r, r, 0, r) else if is_left then (r, 0, r, r) else (r, r, r, r))"

definition draw_finder :: "theme_colors \<Rightarrow> nat \<Rightarrow> nat \<Rightarrow> nat \<Rightarrow> nat \<Rightarrow> nat \<times> nat \<Rightarrow> rgba \<Rightarrow> rgba" where
  "draw_finder th n qx qy header_h m img =
     (case m of (fmx, fmy) \<Rightarrow>
        let fx = qx + mpx n fmx; fy = qy + mpx n fmy;
            ring = (\<lambda>o_x o_y w h color img. fill_4r (fx + o_x) (fy + o_y) w h (corner_radii (ring_radius w) (fmx = 0) (fmy = 0)) color (rg_w img) header_h img);
            w7 = span n fmx 7; h7 = span n fmy 7; x1 = span n fmx 1; y1 = span n fmy 1; x2 = span n fmx 2; y2 = span n fmy 2;
            img = ring 0 0 w7 h7 (tc_qr_finder_dark th) img;
            img = ring x1 y1 (w7 - x1 * 2) (h7 - y1 * 2) (tc_qr_finder_light th) img
        in ring x2 y2 (w7 - x2 * 2) (h7 - y2 * 2) (row_colour th n fmy) img)"

definition render_qr_in_strip :: "art \<Rightarrow> rgba \<Rightarrow> nat \<Rightarrow> nat \<Rightarrow> theme_colors \<Rightarrow> rgba" where
  "render_qr_in_strip ar img strip_x header_h th =
     (case ar_code ar of
        None \<Rightarrow> img
      | Some (n, dark) \<Rightarrow>
          let bubble_x = strip_x + qr_margin; bubble_y = (header_h - bubble_size) div 2;
              qx = bubble_x + bubble_pad; qy = bubble_y + bubble_pad;
              img = fill_rounded_rect_blend img bubble_x bubble_y bubble_size bubble_size 10 (tc_qr_bubble th) (rg_w img) header_h;
              img = fold (draw_module th n qx qy header_h) (dark_modules n dark) img;
              img = fold (draw_finder th n qx qy header_h) [(0, 0), (n - 7, 0), (0, n - 7)] img
          in render_logo_tinted ar img (badge_start qx + 4) (badge_start qy + 4 + 27 * 23 div 512) 27
               (lerp_pixel (tc_qr_module_a th) (tc_qr_module_b th) (Fin (1 / 2))))"

section \<open>Where things are drawn\<close>

lemma round32_half: "n < 2 ^ 23 \<Longrightarrow> round32 (of_nat n / 2) = Fin (of_nat n / 2)"
proof -
  assume n: "n < 2 ^ 23"
  have "round_val 24 (- 126) (of_int (int n) * 2 powi - 1) = of_int (int n) * 2 powi - 1"
    by (rule round_val_dyadic) (use n in simp_all)
  then have r: "round_val 24 (- 126) (of_nat n / 2) = of_nat n / 2" by (simp add: power_int_minus field_simps)
  have "(of_nat n :: rat) < of_nat 8388608" using n by (simp only: of_nat_less_iff) simp
  with r show ?thesis by (simp add: round32_def round_fl_def Let_def not_le)
qed

lemma middle_exact: "p < 2 ^ 22 \<Longrightarrow> middle p = Fin (of_nat p + 1 / 2)"
proof -
  assume p: "p < 2 ^ 22"
  then have "g_of_nat p = Fin (of_nat p)" using g_of_nat_exact [of p] by simp
  moreover have "round32 (of_nat p + 1 / 2) = Fin (of_nat p + 1 / 2)"
    using round32_half [of "2 * p + 1"] p by (simp add: add_divide_distrib add.commute)
  ultimately show ?thesis by (simp add: middle_def g_add_def)
qed

lemma off_side_iff:
  assumes "p < 2 ^ 22" and "x + w < 2 ^ 22"
  shows "off_side p x w \<longleftrightarrow> p < x \<or> x + w \<le> p"
proof -
  have e: "g_of_nat x = Fin (of_nat x)" "g_of_nat w = Fin (of_nat w)" "round32 (of_nat x + of_nat w) = Fin (of_nat x + of_nat w)"
    using g_of_nat_exact [of x] g_of_nat_exact [of w] g_of_nat_exact [of "x + w"] assms(2) by (simp_all add: g_of_nat_def)
  have "off_side p x w \<longleftrightarrow> (of_nat p + 1 / 2 :: rat) < of_nat x \<or> (of_nat (x + w) :: rat) < of_nat p + 1 / 2"
    by (simp add: off_side_def middle_exact [OF assms(1)] e g_add_def)
  also have "(of_nat p + 1 / 2 :: rat) < of_nat x \<longleftrightarrow> p < x"
  proof
    assume "p < x"
    then have "(of_nat (p + 1) :: rat) \<le> of_nat x" by (simp only: of_nat_le_iff)
    then show "(of_nat p + 1 / 2 :: rat) < of_nat x" by simp
  next
    assume "(of_nat p + 1 / 2 :: rat) < of_nat x"
    then have "(of_nat p :: rat) < of_nat x" by linarith
    then show "p < x" by simp
  qed
  also have "(of_nat (x + w) :: rat) < of_nat p + 1 / 2 \<longleftrightarrow> x + w \<le> p"
  proof
    assume "x + w \<le> p"
    then have "(of_nat (x + w) :: rat) \<le> of_nat p" by (simp only: of_nat_le_iff)
    then show "(of_nat (x + w) :: rat) < of_nat p + 1 / 2" by linarith
  next
    assume a: "(of_nat (x + w) :: rat) < of_nat p + 1 / 2"
    show "x + w \<le> p"
    proof (rule ccontr)
      assume "\<not> x + w \<le> p"
      then have "(of_nat (p + 1) :: rat) \<le> of_nat (x + w)" by (simp only: of_nat_le_iff)
      with a show False by simp
    qed
  qed
  finally show ?thesis .
qed

lemma paints_covered:
  assumes "\<And>vx vy. vx \<le> x + w \<Longrightarrow> vy \<le> y + h \<Longrightarrow> off_side vx x w \<or> off_side vy y h \<Longrightarrow> cov vx vy = Fin 0"
    and "x + w + 1 < 2 ^ 22" and "y + h + 1 < 2 ^ 22"
  shows "paints (in_rect x y w h) img (fill_covered cov a x y w h color max_w max_h img)"
  unfolding paints_def
proof (intro conjI allI impI)
  fix vx vy k
  assume n: "\<not> in_rect x y w h vx vy"
  have "fl_le (cov vx vy) (Fin 0)" if "vx < sat_add32 x (w + 1)" "vy < sat_add32 y (h + 1)"
  proof -
    have v: "vx \<le> x + w" "vy \<le> y + h" using that by (simp_all add: sat_add32_def)
    then have "off_side vx x w \<or> off_side vy y h"
      using n assms(2,3) off_side_iff [of vx x w] off_side_iff [of vy y h] by (auto simp: in_rect_def)
    with assms(1) v show ?thesis by simp
  qed
  then show "rg_at (fill_covered cov a x y w h color max_w max_h img) vx vy k = rg_at img vx vy k"
    by (auto simp: fill_covered_def Let_def)
qed (simp_all add: fill_covered_def)

lemma paints_rounded:
  assumes "x + w + 1 < 2 ^ 22" and "y + h + 1 < 2 ^ 22"
  shows "paints (in_rect x y w h) img (fill_rounded_rect_blend img x y w h r color max_w max_h)"
  unfolding fill_rounded_rect_blend_def by (rule paints_covered) (use assms in \<open>auto simp: rounded_rect_coverage_def\<close>)

lemma paints_4r:
  assumes "x + w + 1 < 2 ^ 22" and "y + h + 1 < 2 ^ 22"
  shows "paints (in_rect x y w h) img (fill_4r x y w h radii color max_w max_h img)"
  unfolding fill_4r_def by (rule paints_covered) (use assms in \<open>auto simp: cov_4r_def Let_def split: prod.split\<close>)

text \<open>Modules start in order, within the side of the code.\<close>

lemma f_to_u32_mono: "x \<le> y \<Longrightarrow> f_to_u32 (f_round (Fin x)) \<le> f_to_u32 (f_round (Fin y))" if "0 \<le> x"
proof -
  assume "x \<le> y"
  then have "\<lfloor>x + 1 / 2\<rfloor> \<le> \<lfloor>y + 1 / 2\<rfloor>" by (intro floor_mono) simp
  with that \<open>x \<le> y\<close> show ?thesis by (simp add: trunc_def nat_mono max_def min_def)
qed

lemma mpx_bounds:
  assumes "7 \<le> n" and "n \<le> 177"
  obtains e where "0 \<le> e" and "of_nat n * e \<le> 99 + 1 / 1000" and "\<And>m. m \<le> n \<Longrightarrow> mpx n m = f_to_u32 (f_round (round32 (of_nat m * e)))"
proof -
  have n: "0 < (of_nat n :: rat)" "(of_nat n :: rat) \<le> 177" "7 \<le> (of_nat n :: rat)" using assms by (simp_all add: of_nat_le_numeral_iff)
  have q: "99 / of_nat n \<le> (99 / 7 :: rat)" "0 \<le> 99 / (of_nat n :: rat)" using n by (simp_all add: divide_simps)
  obtain e where e: "round32 (99 / of_nat n) = Fin e" "\<bar>e - 99 / of_nat n\<bar> \<le> \<bar>99 / of_nat n\<bar> / 16777216 + 1 / 10000000000000000000000000000000000000000"
    by (rule round32_near [of "99 / of_nat n"]) (use q in simp_all)
  have "nonneg (Fin e)" using round32_nonneg [OF q(2)] e(1) by simp
  then have e0: "0 \<le> e" by simp
  define z where "z = 99 / (of_nat n :: rat)"
  have "z \<le> 99 / 7" "0 \<le> z" "\<bar>e - z\<bar> \<le> \<bar>z\<bar> / 16777216 + 1 / 10000000000000000000000000000000000000000"
    using q e(2) by (simp_all only: z_def)
  then have "e \<le> z + 1 / 1000000" by linarith
  then have "e \<le> 99 / of_nat n + 1 / 1000000" by (simp only: z_def)
  then have "of_nat n * e \<le> of_nat n * (99 / of_nat n + 1 / 1000000)" using n by (intro mult_left_mono) simp_all
  also have "\<dots> = 99 + of_nat n / 1000000" using n by (simp add: distrib_left)
  also have "\<dots> \<le> 99 + 1 / 1000" using n by simp
  finally have le: "of_nat n * e \<le> 99 + 1 / 1000" .
  have g: "g_of_nat m = Fin (of_nat m)" if "m \<le> 177" for m using g_of_nat_exact [of m] that by simp
  have "mpx n m = f_to_u32 (f_round (round32 (of_nat m * e)))" if "m \<le> n" for m
    using g [of m] g [of n] g [of 99] that assms e(1) n by (simp add: mpx_def target_qr_px_def g_div_def g_mul_def)
  with e0 le that show thesis by blast
qed

lemma mpx_order:
  assumes "7 \<le> n" and "n \<le> 177" and "k \<le> m" and "m \<le> n"
  shows "mpx n k \<le> mpx n m" and "mpx n m \<le> 99"
proof -
  obtain e where e: "0 \<le> e" "of_nat n * e \<le> 99 + 1 / 1000" "\<And>m. m \<le> n \<Longrightarrow> mpx n m = f_to_u32 (f_round (round32 (of_nat m * e)))"
    using mpx_bounds [OF assms(1,2)] by blast
  have le: "of_nat a * e \<le> of_nat b * e" if "a \<le> b" for a b using that e(1) by (intro mult_right_mono) simp_all
  have val: "\<exists>y. round32 (of_nat a * e) = Fin y \<and> 0 \<le> y \<and> y \<le> 99 + 1 / 10" if "a \<le> n" for a
  proof -
    have b: "of_nat a * e \<le> 99 + 1 / 1000" "0 \<le> of_nat a * e" using le [OF that] e(1,2) by simp_all
    obtain y where y: "round32 (of_nat a * e) = Fin y" "\<bar>y - of_nat a * e\<bar> \<le> \<bar>of_nat a * e\<bar> / 16777216 + 1 / 10000000000000000000000000000000000000000"
      by (rule round32_near [of "of_nat a * e"]) (use b in linarith)
    moreover have "0 \<le> y" using round32_nonneg [OF b(2)] y(1) by simp
    ultimately show ?thesis using b by (intro exI [of _ y]) linarith
  qed
  have "k \<le> n" using assms(3,4) by simp
  obtain a where a: "round32 (of_nat k * e) = Fin a" "0 \<le> a" using val [OF \<open>k \<le> n\<close>] by blast
  obtain b where b: "round32 (of_nat m * e) = Fin b" "0 \<le> b" "b \<le> 99 + 1 / 10" using val [OF assms(4)] by blast
  have ek: "mpx n k = f_to_u32 (f_round (Fin a))" and em: "mpx n m = f_to_u32 (f_round (Fin b))"
    using e(3) [OF \<open>k \<le> n\<close>] e(3) [OF assms(4)] by (simp_all only: a(1) b(1))
  have "a \<le> b" using round32_mono [OF _ le [OF assms(3)]] a b e(1) by simp
  with a(2) show "mpx n k \<le> mpx n m" unfolding ek em by (rule f_to_u32_mono)
  have f: "\<lfloor>b + 1 / 2\<rfloor> \<le> 99" using b(3) by (simp add: floor_le_iff)
  have "mpx n m = nat (min (int u32_max) \<lfloor>b + 1 / 2\<rfloor>)" using b(2) by (simp add: em trunc_def)
  also have "\<dots> \<le> nat 99" by (intro nat_mono min.coboundedI2 f)
  finally show "mpx n m \<le> 99" by simp
qed

lemma span_exact:
  assumes "7 \<le> n" and "n \<le> 177" and "m + k \<le> n"
  shows "mpx n m + span n m k = mpx n (m + k)"
  using mpx_order [OF assms(1,2), of m "m + k"] assms(3) by (simp add: span_def sub32_id)

lemma paints_module:
  assumes "7 \<le> n" and "n \<le> 177" and "fst m < n" and "snd m < n"
  shows "paints (in_rect qx qy 99 99) img (draw_module th n qx qy header_h m img)"
proof -
  have "mpx n i + span n i 1 \<le> 99" if "i < n" for i
    using span_exact [OF assms(1,2), of i 1] mpx_order(2) [OF assms(1,2), of "i + 1" "i + 1"] that by simp
  from this [OF assms(3)] this [OF assms(4)] show ?thesis
    by (cases m) (auto simp: paints_def draw_module_def in_rect_def Let_def)
qed

lemma paints_finder:
  assumes "7 \<le> n" and "n \<le> 177" and "fst m + 7 \<le> n" and "snd m + 7 \<le> n" and "qx < 2 ^ 21 + 100" and "qy < 2 ^ 21 + 100"
  shows "paints (in_rect qx qy 99 99) img (draw_finder th n qx qy header_h m img)"
proof -
  obtain a b where m: "m = (a, b)" by (cases m)
  have s: "mpx n i + span n i 7 \<le> 99" "span n i 1 \<le> 99" "span n i 2 \<le> 99" if "i + 7 \<le> n" for i
    using span_exact [OF assms(1,2), of i 7] mpx_order(2) [OF assms(1,2), of "i + 7" "i + 7"]
      span_exact [OF assms(1,2), of i 1] mpx_order(2) [OF assms(1,2), of "i + 1" "i + 1"]
      span_exact [OF assms(1,2), of i 2] mpx_order(2) [OF assms(1,2), of "i + 2" "i + 2"] that by simp_all
  have ring: "paints (in_rect qx qy 99 99) img (fill_4r (qx + mpx n a + o_x) (qy + mpx n b + o_y) (span n a 7 - o_x * 2) (span n b 7 - o_y * 2) radii color max_w max_h img)"
    if "o_x \<le> 99" "o_y \<le> 99" for o_x o_y radii color max_w max_h img
  proof (rule paints_mono [OF paints_4r])
    show "qx + mpx n a + o_x + (span n a 7 - o_x * 2) + 1 < 2 ^ 22" "qy + mpx n b + o_y + (span n b 7 - o_y * 2) + 1 < 2 ^ 22"
      using s(1) [of a] s(1) [of b] assms m that by simp_all
  qed (use s(1) [of a] s(1) [of b] assms m in \<open>auto simp: in_rect_def\<close>)
  have "span n a 1 \<le> 99" "span n b 1 \<le> 99" "span n a 2 \<le> 99" "span n b 2 \<le> 99" using s assms(3,4) m by simp_all
  note rings = ring [of 0 0, simplified] ring [OF this(1,2)] ring [OF this(3,4)]
  show ?thesis unfolding m draw_finder_def case_prod_conv Let_def add_0_right
    by (intro paints_trans [OF paints_trans [OF rings(1) rings(2)] rings(3)])
qed

lemma logo_square: "logo_height 27 (Fin 512, Fin 512) = 27"
proof -
  have "round64 13824 = Fin 13824" "round64 27 = Fin 27" "round64 (27 :: rat) = Fin 27"
    using round64_int [of 13824] round64_int [of 27] by simp_all
  then show ?thesis by (simp add: logo_height_def f_of_int_def trunc_def u32_max_def)
qed

lemma paints_over_logo: "paints (in_rect x y w h) img (over_logo pic x y w h f img)"
  by (auto simp: paints_def over_logo_def in_rect_def Let_def)

lemma paints_tinted:
  assumes "ar_logo ar = None \<or> ar_logo ar = Some (Fin 512, Fin 512)"
  shows "paints (in_rect x y 27 27) img (render_logo_tinted ar img x y 27 color)"
  using assms paints_over_logo [of x y 27 27 img]
  by (elim disjE) (simp_all add: render_logo_tinted_def logo_square Let_def)

text \<open>
  The code in the header stays in its bubble. For every version of a code, whatever it encodes and whatever the theme,
  all its parts (bubble, modules, finder patterns, logo) are drawn within the 123 pixels wide square that lies in the strip
  at the right of the header, ten pixels from either side of the strip; a header of the usual height holds it entirely.
\<close>

theorem code_stays_in_bubble:
  assumes "ar_code ar = Some (n, dark)" and "7 \<le> n" and "n \<le> 177" and "ar_logo ar = None \<or> ar_logo ar = Some (Fin 512, Fin 512)"
    and "strip_x < 2 ^ 21" and "header_h < 2 ^ 21"
  shows "paints (in_rect (strip_x + 10) ((header_h - 123) div 2) (qr_strip_width - 20) 123) img (render_qr_in_strip ar img strip_x header_h th)
     \<and> (header_height - 123) div 2 + 123 \<le> header_height"
proof -
  define bx where "bx = strip_x + 10"
  define b_y where "b_y = (header_h - 123) div 2"
  have b: "b_y < 2 ^ 21" "bx < 2 ^ 21 + 10" using assms(5,6) by (simp_all add: b_y_def bx_def)
  let ?R = "in_rect bx b_y 123 123"
  have q: "paints (in_rect (bx + 12) (b_y + 12) 99 99) a c \<Longrightarrow> paints ?R a c" for a c
    by (erule paints_mono) (auto simp: in_rect_def)
  have bubble: "paints ?R img (fill_rounded_rect_blend img bx b_y 123 123 10 color mw mh)" for color mw mh
    by (rule paints_rounded) (use b in simp_all)
  have modules: "paints ?R a (fold (draw_module th n (bx + 12) (b_y + 12) header_h) (dark_modules n dark) a)" for a
    by (rule paints_fold, rule q, rule paints_module [OF assms(2,3)]) (auto simp: dark_modules_def split: if_splits)
  have finders: "paints ?R a (fold (draw_finder th n (bx + 12) (b_y + 12) header_h) [(0, 0), (n - 7, 0), (0, n - 7)] a)" for a
    by (rule paints_fold, rule q, rule paints_finder [OF assms(2,3)]) (use assms(2) b in auto)
  have logo: "paints ?R a (render_logo_tinted ar a (badge_start (bx + 12) + 4) (badge_start (b_y + 12) + 4 + 27 * 23 div 512) 27 c)" for a c
    by (rule paints_mono [OF paints_tinted [OF assms(4)]]) (auto simp: in_rect_def badge_start_def badge_size_def target_qr_px_def)
  have "paints ?R img (render_qr_in_strip ar img strip_x header_h th)"
    unfolding render_qr_in_strip_def assms(1) option.case case_prod_conv Let_def
    using paints_trans [OF paints_trans [OF paints_trans [OF bubble modules] finders] logo]
    by (simp add: qr_margin_def bubble_pad_def bubble_size_def target_qr_px_def bx_def b_y_def)
  then show ?thesis
    by (simp add: bx_def b_y_def qr_strip_width_def qr_margin_def bubble_pad_def target_qr_px_def header_height_def)
qed

definition demo_art :: art where
  "demo_art = \<lparr>ar_emoji = no_emoji, ar_logo = None, ar_logo_at = \<lambda>_ _ _ _. ((0, 0, 0), 0), ar_code = Some (21, \<lambda>_. True),
               ar_blur = \<lambda>img _. img, ar_overlay = se_overlay demo_se\<rparr>"

theorem code_stays_in_bubble_witness:
  "\<forall>th img y k. rg_at (render_qr_in_strip demo_art img 50 144 th) 59 y k = rg_at img 59 y k"
proof (intro allI)
  fix th img y k
  have c: "ar_code demo_art = Some (21, \<lambda>_. True)" "ar_logo demo_art = None \<or> ar_logo demo_art = Some (Fin 512, Fin 512)"
    by (simp_all add: demo_art_def)
  have "paints (in_rect (50 + 10) ((144 - 123) div 2) (qr_strip_width - 20) 123) img (render_qr_in_strip demo_art img 50 144 th)"
    using code_stays_in_bubble [OF c(1) _ _ c(2), of 50 144 img th] by simp
  then show "rg_at (render_qr_in_strip demo_art img 50 144 th) 59 y k = rg_at img 59 y k" by (simp add: paints_def in_rect_def)
qed

end
