(* ===== verification/Poster_Text.thy ===== *)
theory Poster_Text
  imports Poster_Code
begin

text \<open>
  Themes, fonts, the header and the badges of a poster: \<^verbatim>\<open>Renderer\<close> of
  \<^verbatim>\<open>crates/poster-gen/src/text_renderer.rs\<close>. Labels are code points; what is known of the video is text in UTF-8.
\<close>

section \<open>Themes\<close>

definition theme_dark :: theme_colors where
  "theme_dark =
     \<lparr>tc_header_bg = ((10, 10, 12), 240), tc_text_color = (235, 235, 235), tc_accent_color = (80, 170, 255),
      tc_badge_bg = ((10, 10, 12), 200), tc_badge_text = (215, 215, 215), tc_canvas_bg = (0, 0, 0),
      tc_qr_bubble = ((248, 249, 252), 222), tc_qr_module_a = (80, 170, 255), tc_qr_module_b = (0, 120, 220),
      tc_qr_finder_dark = (80, 170, 255), tc_qr_finder_light = (248, 249, 252),
      tc_ts_outline = (55, 60, 78), tc_ts_shadow = (8, 8, 12)\<rparr>"

definition theme_light :: theme_colors where
  "theme_light =
     \<lparr>tc_header_bg = ((232, 233, 235), 220), tc_text_color = (25, 25, 30), tc_accent_color = (0, 90, 190),
      tc_badge_bg = ((225, 225, 228), 200), tc_badge_text = (25, 25, 30), tc_canvas_bg = (210, 212, 215),
      tc_qr_bubble = ((250, 250, 252), 230), tc_qr_module_a = (28, 28, 32), tc_qr_module_b = (28, 28, 32),
      tc_qr_finder_dark = (28, 28, 32), tc_qr_finder_light = (250, 250, 252),
      tc_ts_outline = (120, 120, 128), tc_ts_shadow = (175, 175, 182)\<rparr>"

definition theme_cinematic :: theme_colors where
  "theme_cinematic =
     \<lparr>tc_header_bg = ((10, 5, 0), 210), tc_text_color = (255, 230, 180), tc_accent_color = (200, 150, 50),
      tc_badge_bg = ((10, 5, 0), 190), tc_badge_text = (255, 230, 180), tc_canvas_bg = (0, 0, 0),
      tc_qr_bubble = ((248, 243, 228), 218), tc_qr_module_a = (200, 150, 50), tc_qr_module_b = (155, 100, 20),
      tc_qr_finder_dark = (200, 150, 50), tc_qr_finder_light = (248, 243, 228),
      tc_ts_outline = (65, 42, 8), tc_ts_shadow = (8, 4, 0)\<rparr>"

definition theme_minimal :: theme_colors where
  "theme_minimal =
     \<lparr>tc_header_bg = ((22, 22, 24), 90), tc_text_color = (255, 255, 255), tc_accent_color = (200, 200, 200),
      tc_badge_bg = ((0, 0, 0), 140), tc_badge_text = (210, 210, 210), tc_canvas_bg = (22, 22, 24),
      tc_qr_bubble = ((248, 248, 250), 218), tc_qr_module_a = (185, 185, 195), tc_qr_module_b = (140, 140, 152),
      tc_qr_finder_dark = (185, 185, 195), tc_qr_finder_light = (248, 248, 250),
      tc_ts_outline = (65, 65, 70), tc_ts_shadow = (0, 0, 0)\<rparr>"

definition theme_transparent :: theme_colors where
  "theme_transparent =
     \<lparr>tc_header_bg = ((0, 0, 0), 0), tc_text_color = (255, 255, 255), tc_accent_color = (0, 164, 220),
      tc_badge_bg = ((0, 0, 0), 160), tc_badge_text = (255, 255, 255), tc_canvas_bg = (0, 0, 0),
      tc_qr_bubble = ((248, 249, 252), 220), tc_qr_module_a = (170, 92, 195), tc_qr_module_b = (0, 164, 220),
      tc_qr_finder_dark = (0, 164, 220), tc_qr_finder_light = (246, 248, 252),
      tc_ts_outline = (65, 65, 78), tc_ts_shadow = (0, 0, 0)\<rparr>"

definition theme_classic :: theme_colors where
  "theme_classic =
     \<lparr>tc_header_bg = ((40, 42, 52), 210), tc_text_color = (255, 255, 255), tc_accent_color = (0, 164, 220),
      tc_badge_bg = ((28, 30, 38), 190), tc_badge_text = (255, 255, 255), tc_canvas_bg = (30, 32, 40),
      tc_qr_bubble = ((248, 249, 252), 218), tc_qr_module_a = (170, 92, 195), tc_qr_module_b = (0, 164, 220),
      tc_qr_finder_dark = (0, 164, 220), tc_qr_finder_light = (246, 248, 252),
      tc_ts_outline = (70, 74, 98), tc_ts_shadow = (12, 13, 18)\<rparr>"

definition get_theme :: "string \<Rightarrow> theme_colors" where
  "get_theme name =
     (if name = ''dark'' then theme_dark else if name = ''light'' then theme_light
      else if name = ''cinematic'' then theme_cinematic else if name = ''minimal'' then theme_minimal
      else if name = ''transparent'' then theme_transparent else theme_classic)"

section \<open>Fonts\<close>

text \<open>\<open>ff_read\<close> reads a file, \<open>ff_woff2\<close> converts WOFF2 (\<^verbatim>\<open>woff2-patched\<close>), \<open>ff_font\<close> parses a font (\<^verbatim>\<open>ab_glyph\<close>).\<close>

record font_files =
  ff_read :: "string \<Rightarrow> string option"
  ff_woff2 :: "string \<Rightarrow> string option"
  ff_font :: "string \<Rightarrow> font option"

definition decode_if_woff2 :: "font_files \<Rightarrow> string \<Rightarrow> string" where
  "decode_if_woff2 ff data =
     (if take 4 data = ''wOF2'' then (case ff_woff2 ff data of Some ttf \<Rightarrow> ttf | None \<Rightarrow> data) else data)"

definition load_font :: "font_files \<Rightarrow> string \<Rightarrow> font option" where
  "load_font ff path =
     (case ff_read ff path of None \<Rightarrow> None | Some data \<Rightarrow> ff_font ff (decode_if_woff2 ff data))"

text \<open>The first of some characters with a glyph above the baseline gives the height.\<close>

fun first_height :: "font \<Rightarrow> fl \<Rightarrow> nat list \<Rightarrow> fl option" where
  "first_height f scale [] = None"
| "first_height f scale (c # cs) =
     (case glyph f scale c of
        None \<Rightarrow> first_height f scale cs
      | Some og \<Rightarrow> if fl_less (Fin 0) (fl_neg (og_min_y og)) then Some (fl_neg (og_min_y og)) else first_height f scale cs)"

definition probe_cap_height :: "font \<Rightarrow> fl \<Rightarrow> fl" where
  "probe_cap_height f scale = (case first_height f scale (ascii ''HATM'') of Some h \<Rightarrow> h | None \<Rightarrow> fo_ascent f scale)"

definition probe_cjk_height :: "font \<Rightarrow> fl \<Rightarrow> fl" where
  "probe_cjk_height f scale =
     (case first_height f scale [0x5927, 0x4e2d, 0x5b57, 0x56fd] of Some h \<Rightarrow> h | None \<Rightarrow> probe_cap_height f scale)"

record renderer =
  re_font :: "font option"
  re_latin :: "font option"
  re_latin_scale :: fl
  re_cjk :: "font option"
  re_cjk_scale :: fl
  re_ts_font :: "font option"
  re_theme :: theme_colors

definition relative_scale :: "fl \<Rightarrow> (font \<Rightarrow> fl \<Rightarrow> fl) \<Rightarrow> font option \<Rightarrow> fl" where
  "relative_scale ref_cap probe fo =
     (case fo of
        None \<Rightarrow> Fin 1
      | Some f \<Rightarrow> let c = probe f (Fin 100) in if fl_less (Fin 0) c then g_div ref_cap c else Fin 1)"

definition renderer_new :: "font_files \<Rightarrow> string option \<Rightarrow> string option \<Rightarrow> string option \<Rightarrow> string option \<Rightarrow> string \<Rightarrow> renderer" where
  "renderer_new ff font_path latin_path cjk_path ts_path color_theme =
     (let load = (\<lambda>p. Option.bind p (load_font ff)); font = load font_path;
          latin = or_else (load latin_path) font; cjk = or_else (load cjk_path) font; ts = or_else (load ts_path) font;
          ref_cap = (case font of Some f \<Rightarrow> probe_cap_height f (Fin 100) | None \<Rightarrow> round32 (714 / 10))
      in \<lparr>re_font = font, re_latin = latin, re_latin_scale = relative_scale ref_cap probe_cap_height latin,
          re_cjk = cjk, re_cjk_scale = relative_scale ref_cap probe_cjk_height cjk, re_ts_font = ts,
          re_theme = get_theme color_theme\<rparr>)"

section \<open>The branding text\<close>

text \<open>A space, the same for drawing and measuring.\<close>

definition space_advance :: "renderer \<Rightarrow> nat \<Rightarrow> fl" where
  "space_advance re scale_px =
     (case or_else (re_latin re) (re_cjk re) of
        Some f \<Rightarrow>
          (let vp = fl_max (f_round (g_mul (g_of_nat scale_px) (re_latin_scale re))) (Fin 1)
           in fl_min (advance f vp 32) (g_mul vp (round32 (45 / 100))))
      | None \<Rightarrow> g_mul (g_of_nat scale_px) (Fin (1 / 4)))"

text \<open>The fonts for a character: the one of its script first, each with its size.\<close>

definition fonts_for :: "renderer \<Rightarrow> nat \<Rightarrow> nat \<Rightarrow> (font option \<times> fl) \<times> (font option \<times> fl)" where
  "fonts_for re scale_px c =
     (let sized = (\<lambda>fo k. (fo, g_of_nat (max (f_to_u32 (f_round (g_mul (g_of_nat scale_px) k))) 1)));
          latin = sized (re_latin re) (re_latin_scale re); cjk = sized (re_cjk re) (re_cjk_scale re)
      in if is_cjk c then (cjk, latin) else (latin, cjk))"

definition glyph_in :: "font option \<times> fl \<Rightarrow> nat \<Rightarrow> (font \<times> fl \<times> outline) option" where
  "glyph_in p c =
     (case fst p of
        None \<Rightarrow> None
      | Some f \<Rightarrow> map_option (\<lambda>og. (f, snd p, og)) (glyph f (snd p) c))"

fun draw_branding_from :: "emoji \<Rightarrow> renderer \<Rightarrow> unitext \<Rightarrow> fl \<Rightarrow> fl \<Rightarrow> nat \<Rightarrow> pixel \<Rightarrow> rgba \<Rightarrow> rgba" where
  "draw_branding_from em re [] cx baseline scale_px color img = img"
| "draw_branding_from em re (c # cs) cx baseline scale_px color img =
     (if c = 32 then draw_branding_from em re cs (g_add cx (space_advance re scale_px)) baseline scale_px color img
      else case fonts_for re scale_px c of (primary, cross) \<Rightarrow>
        (case or_else (fst primary) (fst cross) of
           None \<Rightarrow> draw_branding_from em re cs cx baseline scale_px color img
         | Some any_font \<Rightarrow>
             (case (case or_else (glyph_in primary c) (glyph_in cross c) of
                      Some (f, scale, og) \<Rightarrow> (draw_outline og cx baseline color img, advance f scale c)
                    | None \<Rightarrow> draw_emoji em any_font (g_of_nat scale_px) baseline cx c (advance any_font (snd primary) c) img) of
                (img, h) \<Rightarrow>
                  (let cx = g_add cx h
                   in if rg_w img < f_to_u32 cx then img
                      else draw_branding_from em re cs cx baseline scale_px color img))))"

definition draw_text_mixed_branding :: "emoji \<Rightarrow> renderer \<Rightarrow> rgba \<Rightarrow> unitext \<Rightarrow> nat \<Rightarrow> nat \<Rightarrow> nat \<Rightarrow> pixel \<Rightarrow> rgba" where
  "draw_text_mixed_branding em re img s x y scale_px color =
     draw_branding_from em re s (g_of_nat x) (g_add (g_of_nat y) (g_of_nat scale_px)) scale_px color img"

definition branding_char_width :: "emoji \<Rightarrow> renderer \<Rightarrow> nat \<Rightarrow> fl \<Rightarrow> nat \<Rightarrow> fl" where
  "branding_char_width em re scale_px emoji_w c =
     (if c = 32 then space_advance re scale_px
      else case fonts_for re scale_px c of (primary, cross) \<Rightarrow>
        (case or_else (glyph_in primary c) (glyph_in cross c) of
           Some (f, scale, _) \<Rightarrow> advance f scale c
         | None \<Rightarrow>
             if em_known em c then emoji_w
             else (case or_else (fst primary) (fst cross) of
                     Some f \<Rightarrow> advance f (snd primary) c
                   | None \<Rightarrow> g_div (g_of_nat scale_px) (Fin 6))))"

definition measure_text_mixed_branding :: "emoji \<Rightarrow> renderer \<Rightarrow> unitext \<Rightarrow> nat \<Rightarrow> nat" where
  "measure_text_mixed_branding em re s scale_px =
     (case or_else (re_latin re) (re_cjk re) of
        None \<Rightarrow> w32 (utf8_len s * scale_px) div 6
      | Some f \<Rightarrow> f_to_u32 (g_sum (map (branding_char_width em re scale_px (emoji_advance f (g_of_nat scale_px))) s)))"

section \<open>Numbers as text\<close>

fun fract_zero :: "fl \<Rightarrow> bool" where
  "fract_zero (Fin x) \<longleftrightarrow> x = of_int (trunc x)"
| "fract_zero _ \<longleftrightarrow> False"

definition format_fps :: "fl \<Rightarrow> string" where
  "format_fps fps =
     (if fract_zero fps then show_fixed 0 fps
      else rev (dropWhile (\<lambda>c. c = CHR ''0'') (rev (show_fixed 3 fps))))"

text \<open>The text of a badge, rounded to milliseconds.\<close>

definition badge_text :: "fl \<Rightarrow> string" where
  "badge_text secs =
     (let total_ms = f_to_u64 (f_round (f_mul secs (Fin 1000)))
      in clock (total_ms div 1000) @ ''.'' @ show_pad 3 (int (total_ms mod 1000)))"

section \<open>Badges\<close>

record render_options =
  op_branding_enabled :: bool
  op_branding_text :: string
  op_video_info_enabled :: bool
  op_show_file_size :: bool
  op_show_resolution_fps :: bool
  op_show_video_encoding :: bool
  op_show_audio_encoding :: bool
  op_show_duration :: bool
  op_show_subtitles :: bool
  op_show_frame_timestamp :: bool
  op_timestamp_bg :: bool
  op_timestamp_shadow :: bool
  op_timestamp_font_scale :: fl
  op_lang :: string
  op_timestamp_position :: timestamp_position

definition probe_step :: "font \<Rightarrow> fl \<Rightarrow> nat \<Rightarrow> fl \<times> fl \<Rightarrow> fl \<times> fl" where
  "probe_step f scale c ext =
     (case glyph f scale c of
        None \<Rightarrow> ext
      | Some og \<Rightarrow> (if fl_less (og_min_y og) (fst ext) then og_min_y og else fst ext,
                    if fl_less (snd ext) (og_max_y og) then og_max_y og else snd ext))"

definition probe_ts_digit_extent :: "font \<Rightarrow> nat \<Rightarrow> nat \<times> nat" where
  "probe_ts_digit_extent f scale_px =
     (case fold (probe_step f (g_of_nat scale_px)) (ascii ''0123456789:.'') (Fin 0, Fin 0) of
        (lo, hi) \<Rightarrow> (max (f_to_u32 (f_ceil (fl_neg lo))) 1, f_to_u32 (f_ceil hi)))"

text \<open>Scale of the built-in font, size of the other, and how far the digits reach above and below the baseline.\<close>

definition badge_scale :: "emoji \<Rightarrow> font option \<Rightarrow> fl \<Rightarrow> nat \<Rightarrow> nat \<times> nat" where
  "badge_scale em fo font_scale cell_w =
     (let target = max (cell_w div 4 - 8) 20
      in case fo of
           Some f \<Rightarrow>
             (let ref_w = max (measure_text_width_ttf em f (ascii ''00:00:00.000'') 18) 1;
                  size_px = f_to_u32 (f_round (g_mul (g_div (g_mul (Fin 18) (g_of_nat target)) (g_of_nat ref_w)) font_scale))
              in (3, max 8 (min 40 size_px)))
         | None \<Rightarrow> (let s = max 1 (min 6 (target div 72)) in (s, s * 6)))"

definition digit_extent :: "font option \<Rightarrow> nat \<times> nat \<Rightarrow> nat \<times> nat" where
  "digit_extent fo b = (case fo of Some f \<Rightarrow> probe_ts_digit_extent f (snd b) | None \<Rightarrow> (fst b * 7, 0))"

definition draw_badge_text :: "art \<Rightarrow> font option \<Rightarrow> nat \<times> nat \<Rightarrow> unitext \<Rightarrow> pixel \<Rightarrow> int \<Rightarrow> int \<Rightarrow> rgba \<Rightarrow> rgba" where
  "draw_badge_text ar fo b s color x y img =
     (case fo of
        Some f \<Rightarrow> draw_text_ttf (ar_emoji ar) f img s (nat x) (nat y) (snd b) color
      | None \<Rightarrow> draw_text_scaled (ar_emoji ar) None img s (nat x) (nat y) (fst b) color)"

definition badge_outline :: "art \<Rightarrow> font option \<Rightarrow> nat \<times> nat \<Rightarrow> unitext \<Rightarrow> pixel \<Rightarrow> int \<Rightarrow> int \<Rightarrow> rgba \<Rightarrow> rgba" where
  "badge_outline ar fo b s color x y buf =
     (let r = max 1 (min 2 (f_to_i32 (f_round (g_mul (g_of_nat (snd b)) (round32 (8 / 100))))));
          sigma = g_add (g_mul (if r = 1 then Fin 1 else Fin 2) (round32 (6 / 10))) (round32 (4 / 10));
          shadow = fold (\<lambda>(dx, dy). draw_badge_text ar fo b s color (max 0 (x + dx)) (max 0 (y + dy)))
                     [(dx, dy). dy \<leftarrow> [- r, 0, r], dx \<leftarrow> [- r, 0, r], \<not> (dx = 0 \<and> dy = 0)] (blank (rg_w buf) (rg_h buf))
      in ar_overlay ar buf (ar_blur ar shadow sigma) 0 0)"

definition stamp_timestamp_badge ::
  "art \<Rightarrow> renderer \<Rightarrow> render_options \<Rightarrow> unitext \<Rightarrow> nat \<Rightarrow> nat \<Rightarrow> nat \<Rightarrow> nat \<Rightarrow> nat \<times> nat \<Rightarrow> nat \<Rightarrow> rgba \<Rightarrow> rgba" where
  "stamp_timestamp_badge ar re opt s bx b_y badge_w badge_h b above_px img =
     (let th = re_theme re; fo = re_ts_font re; buf = blank (badge_w + 24) (badge_h + 24);
          x = 12 + 4; y = (if fo \<noteq> None then max 0 (12 + 4 + int above_px - int (snd b)) else 12 + 4);
          buf = (if op_timestamp_bg opt then fill_rect_alpha buf 12 12 badge_w badge_h (tc_badge_bg th) else buf);
          buf = (if op_timestamp_shadow opt
                 then badge_outline ar fo b s (if op_timestamp_bg opt then tc_ts_outline th else tc_ts_shadow th) x y buf else buf);
          buf = draw_badge_text ar fo b s (tc_badge_text th) x y buf
      in ar_overlay ar img buf (int bx - 12) (int b_y - 12))"

text \<open>The rectangle of a badge, and none when it does not fit on the canvas.\<close>

definition badge_rect ::
  "art \<Rightarrow> renderer \<Rightarrow> render_options \<Rightarrow> grid_layout \<Rightarrow> nat \<times> nat \<Rightarrow> unitext \<Rightarrow> nat \<Rightarrow> nat \<Rightarrow> (nat \<times> nat \<times> nat \<times> nat) option" where
  "badge_rect ar re opt l canvas s col row =
     (let b = badge_scale (ar_emoji ar) (re_ts_font re) (op_timestamp_font_scale opt) (gl_cell_w l);
          ext = digit_extent (re_ts_font re) b; badge_h = fst ext + snd ext + 4 * 2;
          text_w = (case re_ts_font re of Some f \<Rightarrow> measure_text_width_ttf (ar_emoji ar) f s (snd b)
                    | None \<Rightarrow> utf8_len s * 6 * fst b);
          badge_w = text_w + 4 * 2
      in case cell_origin l col row of (cell_x, cell_y) \<Rightarrow>
         (case badge_pos cell_x cell_y (gl_cell_w l) (gl_cell_h l) badge_w badge_h 4 (op_timestamp_position opt) of
            (bx, b_y) \<Rightarrow>
              if snd canvas < w32 (b_y + badge_h) \<or> fst canvas < w32 (bx + badge_w) then None
              else Some (bx, b_y, badge_w, badge_h)))"

definition draw_badge :: "art \<Rightarrow> renderer \<Rightarrow> render_options \<Rightarrow> grid_layout \<Rightarrow> fl \<Rightarrow> nat \<times> nat \<Rightarrow> rgba \<Rightarrow> rgba" where
  "draw_badge ar re opt l ts cell img =
     (let b = badge_scale (ar_emoji ar) (re_ts_font re) (op_timestamp_font_scale opt) (gl_cell_w l);
          s = ascii (badge_text ts)
      in case badge_rect ar re opt l (rg_w img, rg_h img) s (fst cell) (snd cell) of
           None \<Rightarrow> img
         | Some (bx, b_y, badge_w, badge_h) \<Rightarrow>
             stamp_timestamp_badge ar re opt s bx b_y badge_w badge_h b (fst (digit_extent (re_ts_font re) b)) img)"

text \<open>Row by row; a cell without a time stamp ends its row.\<close>

definition badge_cells :: "grid_layout \<Rightarrow> nat \<Rightarrow> (nat \<times> nat) list" where
  "badge_cells l n =
     concat (map (\<lambda>row. takeWhile (\<lambda>(col, row). row * gl_cols l + col < n) (map (\<lambda>col. (col, row)) [0..<gl_cols l])) [0..<gl_rows l])"

definition draw_badges :: "art \<Rightarrow> renderer \<Rightarrow> render_options \<Rightarrow> grid_layout \<Rightarrow> fl list \<Rightarrow> rgba \<Rightarrow> rgba" where
  "draw_badges ar re opt l timestamps img =
     (if op_show_frame_timestamp opt \<and> timestamps \<noteq> []
      then fold (\<lambda>(col, row). draw_badge ar re opt l (timestamps ! (row * gl_cols l + col)) (col, row))
             (badge_cells l (length timestamps)) img
      else img)"

end
