(* ===== verification/Poster_Header.thy ===== *)
theory Poster_Header
  imports Poster_Text
begin

text \<open>
  The header of a poster, and all that is drawn over the frames: \<^verbatim>\<open>Renderer::render\<close> of
  \<^verbatim>\<open>crates/poster-gen/src/text_renderer.rs\<close>.
\<close>

section \<open>Labels\<close>

text \<open>The code points of a text in UTF-8.\<close>

fun utf8_chars :: "nat list \<Rightarrow> unitext" where
  "utf8_chars [] = []"
| "utf8_chars [b] = [b]"
| "utf8_chars (b # c # r) =
     (if b < 128 then b # utf8_chars (c # r)
      else if b < 224 then (b mod 32 * 64 + c mod 64) # utf8_chars r
      else (case r of
              [] \<Rightarrow> []
            | d # r' \<Rightarrow>
                if b < 240 then (b mod 16 * 4096 + c mod 64 * 64 + d mod 64) # utf8_chars r'
                else (case r' of
                        [] \<Rightarrow> []
                      | e # r'' \<Rightarrow> (b mod 8 * 262144 + c mod 64 * 4096 + d mod 64 * 64 + e mod 64) # utf8_chars r'')))"

definition chars :: "string \<Rightarrow> unitext" where "chars s = utf8_chars (map of_char s)"

record labels =
  lb_file :: unitext
  lb_size :: unitext
  lb_dur :: unitext
  lb_cs :: unitext
  lb_video :: unitext
  lb_audio :: unitext
  lb_sr :: unitext
  lb_colon :: unitext

definition labels_of :: "string \<Rightarrow> labels" where
  "labels_of lang =
     (if lang = ''zh'' then
        \<lparr>lb_file = [0x6587, 0x4ef6, 0x540d], lb_size = [0x5927, 0x5c0f], lb_dur = [0x65f6, 0x957f],
         lb_cs = [0x8272, 0x5f69, 0x7a7a, 0x95f4], lb_video = [0x89c6, 0x9891], lb_audio = [0x97f3, 0x9891],
         lb_sr = [0x91c7, 0x6837, 0x7387], lb_colon = [0xff1a]\<rparr>
      else if lang = ''ja'' then
        \<lparr>lb_file = [0x30d5, 0x30a1, 0x30a4, 0x30eb, 0x540d], lb_size = [0x30b5, 0x30a4, 0x30ba],
         lb_dur = [0x518d, 0x751f, 0x6642, 0x9593], lb_cs = [0x8272, 0x7a7a, 0x9593], lb_video = [0x6620, 0x50cf],
         lb_audio = [0x97f3, 0x58f0], lb_sr = [0x30b5, 0x30f3, 0x30d7, 0x30eb, 0x30ec, 0x30fc, 0x30c8], lb_colon = [0xff1a]\<rparr>
      else
        \<lparr>lb_file = ascii ''File'', lb_size = ascii ''Size'', lb_dur = ascii ''Dur'', lb_cs = ascii ''CS'',
         lb_video = ascii ''Video'', lb_audio = ascii ''Audio'', lb_sr = ascii ''SR'', lb_colon = ascii '': ''\<rparr>)"

definition subtitle_label :: "string \<Rightarrow> unitext" where
  "subtitle_label lang = (if lang = ''zh'' \<or> lang = ''ja'' then [0x5b57, 0x5e55] else ascii ''Subs'')"

definition tracks_label :: "string \<Rightarrow> unitext" where
  "tracks_label lang =
     (if lang = ''zh'' then [0x97f3, 0x8f68] else if lang = ''ja'' then [0x30c8, 0x30e9, 0x30c3, 0x30af] else ascii ''tracks'')"

fun join :: "unitext \<Rightarrow> unitext list \<Rightarrow> unitext" where
  "join sep [] = []"
| "join sep [x] = x"
| "join sep (x # y # ys) = x @ sep @ join sep (y # ys)"

section \<open>Rows\<close>

definition size_row :: "render_options \<Rightarrow> media_info \<Rightarrow> unitext option \<times> unitext list" where
  "size_row opt info =
     (let lb = labels_of (op_lang opt);
          (label, parts) =
            (if op_show_file_size opt
             then (Some (lb_size lb), chars (mi_file_size info) #
                   (if op_show_duration opt then [lb_dur lb @ lb_colon lb @ chars (mi_duration info)] else []))
             else if op_show_duration opt then (Some (lb_dur lb), [chars (mi_duration info)])
             else (None, []))
      in (label, parts @ (if op_show_subtitles opt \<and> 0 < mi_subtitle_count info
                          then [subtitle_label (op_lang opt) @ lb_colon lb @ ascii (show_int (mi_subtitle_count info))] else [])))"

definition after :: "(string \<Rightarrow> unitext) \<Rightarrow> string option \<Rightarrow> unitext" where
  "after f v = (case v of Some s \<Rightarrow> f s | None \<Rightarrow> [])"

definition encoding_text :: "labels \<Rightarrow> media_info \<Rightarrow> unitext" where
  "encoding_text lb info =
     chars (mi_video_codec info)
     @ after (\<lambda>p. ascii '' ('' @ chars p @ ascii '')'') (mi_video_profile info)
     @ (case mi_bit_depth info of Some d \<Rightarrow> ascii (''  '' @ show_int d @ ''bit'') | None \<Rightarrow> [])
     @ after (\<lambda>h. ascii ''  '' @ chars h) (mi_hdr_type info)
     @ after (\<lambda>b. ascii ''  ['' @ chars b @ ascii '']'') (mi_video_bitrate info)
     @ after (\<lambda>cs. ascii ''  '' @ lb_cs lb @ lb_colon lb @ chars cs) (mi_colour_space info)"

definition video_row :: "render_options \<Rightarrow> media_info \<Rightarrow> unitext list" where
  "video_row opt info =
     (if op_show_resolution_fps opt
      then [chars (mi_resolution info) @ ascii ('' @ '' @ format_fps (mi_fps info) @ ''fps'')] else [])
     @ (if op_show_video_encoding opt then [encoding_text (labels_of (op_lang opt)) info] else [])"

definition audio_row :: "render_options \<Rightarrow> media_info \<Rightarrow> string \<Rightarrow> unitext" where
  "audio_row opt info codec =
     (let lb = labels_of (op_lang opt)
      in chars codec
         @ after (\<lambda>f. if f = [] then [] else ascii '' '' @ chars f) (mi_audio_format info)
         @ after (\<lambda>b. ascii '' @ '' @ chars b) (mi_audio_bitrate info)
         @ (case mi_audio_sample_rate info of
              None \<Rightarrow> []
            | Some sr \<Rightarrow>
                let v = f_div (f_of_int (int sr)) (Fin 1000)
                in ascii ''  '' @ lb_sr lb @ lb_colon lb @ ascii (show_fixed (if fract_zero v then 0 else 1) v @ ''kHz''))
         @ (if 0 < mi_audio_tracks info
            then ascii '' / '' @ [0xd7] @ ascii (show_int (mi_audio_tracks info)) @ tracks_label (op_lang opt) else []))"

section \<open>The header\<close>

definition margin :: nat where "margin = 10"

definition has_brand :: "render_options \<Rightarrow> bool" where
  "has_brand opt \<longleftrightarrow> op_branding_enabled opt \<and> op_branding_text opt \<noteq> []"

definition draw_brand :: "art \<Rightarrow> renderer \<Rightarrow> render_options \<Rightarrow> grid_layout \<Rightarrow> rgba \<Rightarrow> rgba" where
  "draw_brand ar re opt l img =
     (let s = chars (op_branding_text opt); icon_size = sub32 (gl_header_h l) (margin * 2);
          text_w = measure_text_mixed_branding (ar_emoji ar) re s (18 * 6);
          icon_x = gl_icon_area_w l - w32 (margin + icon_size); text_x = icon_x - w32 (margin + text_w);
          text_y = (if re_latin re \<noteq> None \<or> re_cjk re \<noteq> None then 0 else (gl_header_h l - 18 * 7) div 2)
      in render_logo_at ar (draw_text_mixed_branding (ar_emoji ar) re img s text_x text_y (18 * 6) (tc_accent_color (re_theme re)))
           icon_x margin icon_size (round32 (88 / 100)))"

text \<open>A label, a colon in a fixed column, and a value.\<close>

definition draw_row :: "art \<Rightarrow> renderer \<Rightarrow> nat \<Rightarrow> nat \<Rightarrow> pixel \<Rightarrow> unitext \<Rightarrow> unitext \<Rightarrow> unitext \<Rightarrow> nat \<Rightarrow> rgba \<Rightarrow> rgba" where
  "draw_row ar re colon_x value_x color label colon s y img =
     (let draw = (\<lambda>s x img. draw_text_scaled (ar_emoji ar) (re_font re) img s x y 4 color)
      in draw s value_x (draw colon colon_x (draw label margin img)))"

definition colon_column :: "art \<Rightarrow> renderer \<Rightarrow> render_options \<Rightarrow> nat" where
  "colon_column ar re opt =
     (let lb = labels_of (op_lang opt)
      in margin + (if op_video_info_enabled opt
                   then fold max (map (\<lambda>s. measure_text_width (ar_emoji ar) (re_font re) s 4) [lb_file lb, lb_size lb, lb_video lb, lb_audio lb]) 0
                   else 0))"

definition info_end :: "render_options \<Rightarrow> grid_layout \<Rightarrow> nat" where
  "info_end opt l =
     (if has_brand opt then gl_icon_area_w l - (margin + (gl_header_h l - margin * 2) + margin) else gl_icon_area_w l - margin)"

definition value_column :: "art \<Rightarrow> renderer \<Rightarrow> render_options \<Rightarrow> nat" where
  "value_column ar re opt =
     colon_column ar re opt + measure_text_width (ar_emoji ar) (re_font re) (lb_colon (labels_of (op_lang opt))) 4"

definition info_row :: "art \<Rightarrow> renderer \<Rightarrow> render_options \<Rightarrow> pixel \<Rightarrow> unitext \<Rightarrow> unitext \<Rightarrow> nat \<Rightarrow> rgba \<Rightarrow> rgba" where
  "info_row ar re opt color label =
     draw_row ar re (colon_column ar re opt) (value_column ar re opt) color label (lb_colon (labels_of (op_lang opt)))"

definition line_h :: nat where "line_h = 4 * 7"

text \<open>Each row is drawn at a height and gives the height of the next one.\<close>

definition draw_name_row :: "art \<Rightarrow> renderer \<Rightarrow> render_options \<Rightarrow> media_info \<Rightarrow> grid_layout \<Rightarrow> nat \<Rightarrow> rgba \<Rightarrow> rgba \<times> nat" where
  "draw_name_row ar re opt info l y img =
     (info_row ar re opt (tc_accent_color (re_theme re)) (lb_file (labels_of (op_lang opt)))
        (truncate_filename_to_fit (ar_emoji ar) (re_font re) (chars (mi_filename info)) 4 (info_end opt l - value_column ar re opt)) y img,
      y + line_h)"

definition draw_size_row :: "art \<Rightarrow> renderer \<Rightarrow> render_options \<Rightarrow> media_info \<Rightarrow> grid_layout \<Rightarrow> rgba \<times> nat \<Rightarrow> rgba \<times> nat" where
  "draw_size_row ar re opt info l st =
     (case st of (img, y) \<Rightarrow>
        if \<not> y + line_h \<le> gl_header_h l then (img, y)
        else (case size_row opt info of (label, parts) \<Rightarrow>
          (case label of
             Some s \<Rightarrow> (info_row ar re opt (tc_text_color (re_theme re)) s (join (ascii ''   '') parts) y img, y + line_h)
           | None \<Rightarrow>
               if parts = [] then (img, y)
               else (draw_text_scaled (ar_emoji ar) (re_font re) img (join (ascii ''   '') parts) margin y 4 (tc_text_color (re_theme re)),
                     y + line_h))))"

definition draw_video_row :: "art \<Rightarrow> renderer \<Rightarrow> render_options \<Rightarrow> media_info \<Rightarrow> grid_layout \<Rightarrow> rgba \<times> nat \<Rightarrow> rgba \<times> nat" where
  "draw_video_row ar re opt info l st =
     (case st of (img, y) \<Rightarrow>
        if y + line_h \<le> gl_header_h l \<and> video_row opt info \<noteq> []
        then (info_row ar re opt (tc_text_color (re_theme re)) (lb_video (labels_of (op_lang opt)))
                (join (ascii ''  |  '') (video_row opt info)) y img, y + line_h)
        else (img, y))"

definition draw_audio_row :: "art \<Rightarrow> renderer \<Rightarrow> render_options \<Rightarrow> media_info \<Rightarrow> grid_layout \<Rightarrow> rgba \<times> nat \<Rightarrow> rgba" where
  "draw_audio_row ar re opt info l st =
     (case st of (img, y) \<Rightarrow>
        (case (if op_show_audio_encoding opt then mi_audio_codec info else None) of
           None \<Rightarrow> img
         | Some codec \<Rightarrow>
             if y + line_h \<le> w32 (gl_header_h l + sub32 (rg_h img) (gl_header_h l))
             then info_row ar re opt (tc_text_color (re_theme re)) (lb_audio (labels_of (op_lang opt))) (audio_row opt info codec) y img
             else img))"

definition draw_info :: "art \<Rightarrow> renderer \<Rightarrow> render_options \<Rightarrow> media_info \<Rightarrow> grid_layout \<Rightarrow> rgba \<Rightarrow> rgba" where
  "draw_info ar re opt info l img =
     draw_audio_row ar re opt info l (draw_video_row ar re opt info l
       (draw_size_row ar re opt info l (draw_name_row ar re opt info l margin img)))"

definition render :: "art \<Rightarrow> renderer \<Rightarrow> render_options \<Rightarrow> media_info \<Rightarrow> grid_layout \<Rightarrow> fl list \<Rightarrow> rgba \<Rightarrow> rgba" where
  "render ar re opt info l timestamps img =
     (if \<not> op_video_info_enabled opt \<and> \<not> op_branding_enabled opt then draw_badges ar re opt l timestamps img
      else
        (let img = fill_rect_alpha img 0 0 (rg_w img) (gl_header_h l) (tc_header_bg (re_theme re));
             img = (if has_brand opt then draw_brand ar re opt l img else img);
             img = (if op_video_info_enabled opt then draw_info ar re opt info l img else img)
         in draw_badges ar re opt l timestamps img))"

section \<open>The header stays above the frames\<close>

definition rows_of :: "nat \<Rightarrow> nat \<Rightarrow> nat \<Rightarrow> nat \<Rightarrow> bool" where
  "rows_of a b x y \<longleftrightarrow> a \<le> y \<and> y < b"

lemma paints_text_rows: "paints (rows_of y (y + 7 * scale)) img (draw_text_bitmap img s i x y scale color)"
proof (induction s arbitrary: img i)
  case (Cons c cs)
  have "paints (rows_of y (y + 7 * scale)) img (draw_bitmap img (char_bitmap c) cx y scale color)" for cx
    by (rule paints_mono [OF paints_bitmap]) (simp add: in_rect_def rows_of_def)
  with Cons.IH show ?case by (auto simp: Let_def intro: paints_trans)
qed simp

text \<open>Without fonts, the branding text is not drawn, although it is measured and given a place.\<close>

lemma branding_needs_font:
  assumes "re_latin re = None" and "re_cjk re = None"
  shows "draw_text_mixed_branding em re img s x y scale_px color = img"
proof -
  have "draw_branding_from em re s cx baseline scale_px color img = img" for cx baseline
    using assms by (induction s arbitrary: cx) (simp_all add: fonts_for_def or_else_def Let_def split: prod.split)
  then show ?thesis by (simp add: draw_text_mixed_branding_def)
qed

lemma logo_124: "logo_height 124 (Fin 512, Fin 512) = 124"
proof -
  have "round64 63488 = Fin 63488" "round64 124 = Fin 124"
    using round64_int [of 63488] round64_int [of 124] by simp_all
  then show ?thesis by (simp add: logo_height_def f_of_int_def trunc_def u32_max_def)
qed

lemma paints_brand:
  assumes "re_latin re = None" and "re_cjk re = None" and "gl_header_h l = 144"
    and "ar_logo ar = None \<or> ar_logo ar = Some (Fin 512, Fin 512)"
  shows "paints (rows_of 0 144) img (draw_brand ar re opt l img)"
proof -
  have s: "sub32 144 20 = 124" by (simp add: sub32_def)
  have "paints (rows_of 0 144) img (over_logo pic x 10 124 124 f img)" for pic x f
    by (rule paints_mono [OF paints_over_logo]) (simp add: in_rect_def rows_of_def)
  with assms(4) show ?thesis
    by (elim disjE) (simp_all add: draw_brand_def branding_needs_font [OF assms(1,2)] assms(3) margin_def s render_logo_at_def logo_124 Let_def)
qed

lemma paints_single:
  assumes "re_font re = None" and "y + 28 \<le> 144"
  shows "paints (rows_of 0 144) img (draw_text_scaled em (re_font re) img s x y 4 color)"
  unfolding draw_text_scaled_def assms(1) option.case
  by (rule paints_mono [OF paints_text_rows]) (use assms(2) in \<open>simp add: rows_of_def\<close>)

lemma paints_row:
  assumes "re_font re = None" and "y + 28 \<le> 144"
  shows "paints (rows_of 0 144) img (info_row ar re opt color label s y img)"
  unfolding info_row_def draw_row_def Let_def using paints_single [OF assms] by (blast intro: paints_trans)

text \<open>A state of the rows: only the header is painted, and the next row starts no lower than at \<open>m\<close>.\<close>

definition rows_ok :: "rgba \<Rightarrow> nat \<Rightarrow> rgba \<times> nat \<Rightarrow> bool" where
  "rows_ok img m st \<longleftrightarrow> paints (rows_of 0 144) img (fst st) \<and> snd st \<le> m"

lemma rows_ok_step:
  "rows_ok img m st \<Longrightarrow> paints (rows_of 0 144) (fst st) img' \<Longrightarrow> y \<le> n \<Longrightarrow> rows_ok img n (img', y)"
  by (auto simp: rows_ok_def intro: paints_trans)

lemma rows_ok_later: "rows_ok img m (a, y) \<Longrightarrow> m \<le> n \<Longrightarrow> rows_ok img n (a, y)"
  by (simp add: rows_ok_def)

lemma name_row_ok:
  assumes "re_font re = None"
  shows "rows_ok img 38 (draw_name_row ar re opt info l margin img)"
  unfolding rows_ok_def draw_name_row_def fst_conv snd_conv
  by (intro conjI paints_row [OF assms]) (simp_all add: margin_def line_h_def)

lemma size_row_ok:
  assumes "re_font re = None" and "rows_ok img 38 st"
  shows "rows_ok img 66 (draw_size_row ar re opt info l st)"
proof -
  obtain a y where st: "st = (a, y)" by (cases st)
  have y: "y + 28 \<le> 144" "y + line_h \<le> 66" using assms(2) by (simp_all add: rows_ok_def st line_h_def)
  have step: "rows_ok img 66 (b, y + line_h)" if "paints (rows_of 0 144) a b" for b
    using rows_ok_step [OF assms(2)] that y(2) by (simp add: st)
  have stay: "rows_ok img 66 (a, y)" using rows_ok_later [OF assms(2) [unfolded st]] by simp
  show ?thesis unfolding st draw_size_row_def case_prod_conv
    using stay step [OF paints_row [OF assms(1) y(1)]] step [OF paints_single [OF assms(1) y(1)]]
    by (auto split: prod.split option.split)
qed

lemma video_row_ok:
  assumes "re_font re = None" and "rows_ok img 66 st"
  shows "rows_ok img 94 (draw_video_row ar re opt info l st)"
proof -
  obtain a y where st: "st = (a, y)" by (cases st)
  have y: "y + 28 \<le> 144" "y + line_h \<le> 94" using assms(2) by (simp_all add: rows_ok_def st line_h_def)
  have "rows_ok img 94 (info_row ar re opt color label s y a, y + line_h)" for color label s
    using rows_ok_step [OF assms(2), of _ "y + line_h" 94] paints_row [OF assms(1) y(1)] y(2) by (simp add: st)
  moreover have "rows_ok img 94 (a, y)" using rows_ok_later [OF assms(2) [unfolded st]] by simp
  ultimately show ?thesis by (simp add: st draw_video_row_def)
qed

lemma audio_row_ok:
  assumes "re_font re = None" and "rows_ok img 94 st"
  shows "paints (rows_of 0 144) img (draw_audio_row ar re opt info l st)"
proof -
  obtain a y where st: "st = (a, y)" by (cases st)
  have y: "y + 28 \<le> 144" and p: "paints (rows_of 0 144) img a" using assms(2) by (simp_all add: rows_ok_def st)
  have "paints (rows_of 0 144) img (info_row ar re opt color label s y a)" for color label s
    by (rule paints_trans [OF p paints_row [OF assms(1) y]])
  with p show ?thesis by (simp add: st draw_audio_row_def split: option.split)
qed

lemma paints_info:
  assumes "re_font re = None"
  shows "paints (rows_of 0 144) img (draw_info ar re opt info l img)"
  unfolding draw_info_def
  by (intro audio_row_ok [OF assms] video_row_ok [OF assms] size_row_ok [OF assms] name_row_ok [OF assms])

lemma header_rows:
  assumes "re_font re = None" and "re_latin re = None" and "re_cjk re = None" and "gl_header_h l = 144"
    and "ar_logo ar = None \<or> ar_logo ar = Some (Fin 512, Fin 512)"
  shows "paints (rows_of 0 144) img
     (let img = fill_rect_alpha img 0 0 (rg_w img) (gl_header_h l) (tc_header_bg (re_theme re));
          img = (if has_brand opt then draw_brand ar re opt l img else img)
      in if op_video_info_enabled opt then draw_info ar re opt info l img else img)"
proof -
  define a where "a = fill_rect_alpha img 0 0 (rg_w img) (gl_header_h l) (tc_header_bg (re_theme re))"
  define b where "b = (if has_brand opt then draw_brand ar re opt l a else a)"
  have "paints (rows_of 0 144) img a"
    unfolding a_def assms(4) by (rule paints_mono [OF paints_fill]) (simp add: in_rect_def rows_of_def)
  moreover have "paints (rows_of 0 144) a b" using paints_brand [OF assms(2-5)] by (simp add: b_def)
  moreover have "paints (rows_of 0 144) b (if op_video_info_enabled opt then draw_info ar re opt info l b else b)"
    using paints_info [OF assms(1)] by simp
  ultimately show ?thesis unfolding Let_def a_def [symmetric] b_def [symmetric] by (blast intro: paints_trans)
qed

text \<open>
  What is written about a video stays in the header. With the built-in font, whatever the texts, their length and the
  options, everything \<^verbatim>\<open>render\<close> draws but the badges lies in the 144 rows of the header, so no frame is written over, and
  the branding and the rows of information keep the size of the picture; then the badges are drawn.
\<close>

theorem header_above_frames:
  assumes "re_font re = None" and "re_latin re = None" and "re_cjk re = None" and "gl_header_h l = 144"
    and "ar_logo ar = None \<or> ar_logo ar = Some (Fin 512, Fin 512)"
  shows "\<exists>mid. render ar re opt info l timestamps img = draw_badges ar re opt l timestamps mid
     \<and> rg_w mid = rg_w img \<and> rg_h mid = rg_h img \<and> (\<forall>x y k. 144 \<le> y \<longrightarrow> rg_at mid x y k = rg_at img x y k)"
proof -
  define mid where "mid = (if \<not> op_video_info_enabled opt \<and> \<not> op_branding_enabled opt then img
     else (let img = fill_rect_alpha img 0 0 (rg_w img) (gl_header_h l) (tc_header_bg (re_theme re));
               img = (if has_brand opt then draw_brand ar re opt l img else img)
           in if op_video_info_enabled opt then draw_info ar re opt info l img else img))"
  have "paints (rows_of 0 144) img mid" using header_rows [OF assms] by (simp add: mid_def)
  moreover have "render ar re opt info l timestamps img = draw_badges ar re opt l timestamps mid"
    by (simp add: render_def mid_def Let_def)
  ultimately show ?thesis by (intro exI [of _ mid]) (auto simp: paints_def rows_of_def)
qed

definition no_files :: font_files where
  "no_files = \<lparr>ff_read = \<lambda>_. None, ff_woff2 = \<lambda>_. None, ff_font = \<lambda>_. None\<rparr>"

definition plain_renderer :: renderer where
  "plain_renderer = renderer_new no_files None None None None ''classic''"

definition all_options :: render_options where
  "all_options =
     \<lparr>op_branding_enabled = True, op_branding_text = ''Jellyfin Suite'', op_video_info_enabled = True, op_show_file_size = True,
      op_show_resolution_fps = True, op_show_video_encoding = True, op_show_audio_encoding = True, op_show_duration = True,
      op_show_subtitles = True, op_show_frame_timestamp = False, op_timestamp_bg = True, op_timestamp_shadow = False,
      op_timestamp_font_scale = Fin 1, op_lang = ''en'', op_timestamp_position = Inside_Bottom_Left\<rparr>"

theorem header_above_frames_witness:
  "\<forall>info img x k. rg_at (render demo_art plain_renderer all_options info (compute_layout 1 1 320 180 144 Inside_Bottom_Left 143 336) [Fin 1] img) x 200 k
     = rg_at img x 200 k"
proof (intro allI)
  fix info img x k
  have r: "re_font plain_renderer = None" "re_latin plain_renderer = None" "re_cjk plain_renderer = None"
    by (simp_all add: plain_renderer_def renderer_new_def or_else_def Let_def)
  have h: "gl_header_h (compute_layout 1 1 320 180 144 Inside_Bottom_Left 143 336) = 144"
    "ar_logo demo_art = None \<or> ar_logo demo_art = Some (Fin 512, Fin 512)" by (simp_all add: compute_layout_def demo_art_def)
  have b: "draw_badges demo_art plain_renderer all_options l ts mid = mid" for l ts mid
    by (simp add: draw_badges_def all_options_def)
  from header_above_frames [OF r h, of all_options info "[Fin 1]" img]
  show "rg_at (render demo_art plain_renderer all_options info (compute_layout 1 1 320 180 144 Inside_Bottom_Left 143 336) [Fin 1] img) x 200 k
      = rg_at img x 200 k" unfolding b by auto
qed

end
