(* ===== verification/Poster_Badges.thy ===== *)
theory Poster_Badges
  imports Poster_Header
begin

text \<open>
  Where the badges with the time stamps come to lie, for the built-in font: in their own cell, or lost below the last row.
\<close>

text \<open>Scale and sides of a badge for a time stamp of twelve characters.\<close>

definition plain_scale :: "nat \<Rightarrow> nat" where
  "plain_scale cell_w = max 1 (min 6 (max (cell_w div 4 - 8) 20 div 72))"

lemma badge_scale_plain: "badge_scale em None font_scale cell_w = (plain_scale cell_w, plain_scale cell_w * 6)"
  by (simp add: badge_scale_def plain_scale_def Let_def)

lemma plain_scale_bounds: "1 \<le> plain_scale w" "plain_scale w \<le> 6" "88 \<le> w \<Longrightarrow> 72 * plain_scale w + 16 \<le> w"
proof -
  show "1 \<le> plain_scale w" "plain_scale w \<le> 6" by (simp_all add: plain_scale_def)
  assume w: "88 \<le> w"
  show "72 * plain_scale w + 16 \<le> w"
  proof (cases "72 \<le> max (w div 4 - 8) 20")
    case True
    then have "72 \<le> w div 4 - 8" by simp
    have "plain_scale w \<le> max 1 ((w div 4 - 8) div 72)" using \<open>72 \<le> w div 4 - 8\<close> by (simp add: plain_scale_def)
    also have "\<dots> = (w div 4 - 8) div 72" using \<open>72 \<le> w div 4 - 8\<close> by (simp add: div_greater_zero_iff)
    finally have "72 * plain_scale w \<le> 72 * ((w div 4 - 8) div 72)" by simp
    also have "\<dots> \<le> w div 4 - 8" by (rule times_div_less_eq_dividend)
    finally show ?thesis using \<open>72 \<le> w div 4 - 8\<close> by linarith
  next
    case False
    then have "plain_scale w = 1" by (simp add: plain_scale_def)
    with w show ?thesis by simp
  qed
qed

lemma badge_rect_plain:
  assumes "re_ts_font re = None" and "utf8_len s = 12"
  shows "badge_rect ar re opt l canvas s col row =
    (let k = plain_scale (gl_cell_w l); bw = 72 * k + 8; bh = 7 * k + 8; c = cell_origin l col row;
         p = badge_pos (fst c) (snd c) (gl_cell_w l) (gl_cell_h l) bw bh 4 (op_timestamp_position opt)
     in if snd canvas < w32 (snd p + bh) \<or> fst canvas < w32 (fst p + bw) then None else Some (fst p, snd p, bw, bh))"
  by (simp add: badge_rect_def assms digit_extent_def badge_scale_plain Let_def case_prod_beta mult.commute)

text \<open>
  A badge never covers another frame. With the built-in font, cells at least 88 pixels wide and 58 high, and a time stamp
  of twelve characters, a badge that is placed inside its cell is drawn, and lies inside that cell, at the side and the edge
  the option names and four pixels from them.
\<close>

theorem badge_in_own_cell:
  assumes "plain_layout l" and "re_ts_font re = None" and "utf8_len s = 12" and "col < gl_cols l" and "row < gl_rows l"
    and "\<not> is_outside (op_timestamp_position opt)" and "88 \<le> gl_cell_w l" and "58 \<le> gl_cell_h l" and "cell_origin l col row = (cx, cy)"
  shows "\<exists>bx b_y bw bh. badge_rect ar re opt l (canvas_w l, canvas_h l ts) s col row = Some (bx, b_y, bw, bh)
     \<and> cx + 4 \<le> bx \<and> bx + bw + 4 \<le> cx + gl_cell_w l \<and> cy + 4 \<le> b_y \<and> b_y + bh + 4 \<le> cy + gl_cell_h l
     \<and> (op_timestamp_position opt \<in> {Inside_Top_Left, Inside_Bottom_Left} \<longrightarrow> bx = cx + 4)
     \<and> (op_timestamp_position opt \<in> {Inside_Top_Right, Inside_Bottom_Right} \<longrightarrow> bx + bw + 4 = cx + gl_cell_w l)
     \<and> (op_timestamp_position opt \<in> {Inside_Top_Left, Inside_Top_Center, Inside_Top_Right} \<longrightarrow> b_y = cy + 4)
     \<and> (op_timestamp_position opt \<in> {Inside_Bottom_Left, Inside_Bottom_Center, Inside_Bottom_Right} \<longrightarrow> b_y + bh + 4 = cy + gl_cell_h l)"
proof -
  define k where "k = plain_scale (gl_cell_w l)"
  define bw where "bw = 72 * k + 8"
  define bh where "bh = 7 * k + 8"
  define w where "w = gl_cell_w l"
  define h where "h = gl_cell_h l"
  have k: "1 \<le> k" "k \<le> 6" "bw + 8 \<le> w" "bh + 8 \<le> h"
    using plain_scale_bounds [of "gl_cell_w l"] assms(7,8) by (simp_all add: k_def bw_def bh_def w_def h_def)
  note cell = cell_inside [OF assms(1,4,5,9), folded w_def h_def]
  note small = plain_small [OF assms(1)]
  define p where "p = badge_pos cx cy w h bw bh 4 (op_timestamp_position opt)"
  have ids: "w32 (cx + 4) = cx + 4" "w32 (cx + w) = cx + w" "w32 (cy + 4) = cy + 4" "w32 (cy + h) = cy + h"
      "sub32 w bw = w - bw" "sub32 (cx + w) bw = cx + w - bw" "sub32 (cy + h) bh = cy + h - bh"
      "w32 (cx + (w - bw) div 2) = cx + (w - bw) div 2"
    using cell(1,4) cell(3) [of ts] small(1) small(2) [of ts] k by (auto intro!: w32_id sub32_id)
  have "4 \<le> cx + w - bw" "cx + w - bw < 2 ^ 32" "4 \<le> cy + h - bh" "cy + h - bh < 2 ^ 32"
    using cell(1,4) cell(3) [of ts] small(1) small(2) [of ts] k by simp_all
  then have "sub32 (cx + w - bw) 4 = cx + w - bw - 4" "sub32 (cy + h - bh) 4 = cy + h - bh - 4" by (simp_all only: sub32_id)
  note ids = ids this
  have half: "4 \<le> (w - bw) div 2" "(w - bw) div 2 + (bw + 4) \<le> w" using k(3) by presburger+
  have b: "cx + 4 \<le> fst p \<and> fst p + bw + 4 \<le> cx + w \<and> cy + 4 \<le> snd p \<and> snd p + bh + 4 \<le> cy + h"
    using k half by (cases "op_timestamp_position opt") (use assms(6) in \<open>auto simp: p_def badge_pos_def ids Let_def\<close>)
  have sides: "(op_timestamp_position opt \<in> {Inside_Top_Left, Inside_Bottom_Left} \<longrightarrow> fst p = cx + 4)
     \<and> (op_timestamp_position opt \<in> {Inside_Top_Right, Inside_Bottom_Right} \<longrightarrow> fst p + bw + 4 = cx + w)
     \<and> (op_timestamp_position opt \<in> {Inside_Top_Left, Inside_Top_Center, Inside_Top_Right} \<longrightarrow> snd p = cy + 4)
     \<and> (op_timestamp_position opt \<in> {Inside_Bottom_Left, Inside_Bottom_Center, Inside_Bottom_Right} \<longrightarrow> snd p + bh + 4 = cy + h)"
    using k half by (cases "op_timestamp_position opt") (auto simp: p_def badge_pos_def ids Let_def)
  have "w32 (snd p + bh) = snd p + bh" "w32 (fst p + bw) = fst p + bw"
    using b cell(1) cell(3) [of ts] small(1) small(2) [of ts] by (auto intro!: w32_id)
  moreover have "snd p + bh \<le> canvas_h l ts" "fst p + bw \<le> canvas_w l" using b cell(1) cell(3) [of ts] by linarith+
  ultimately have "badge_rect ar re opt l (canvas_w l, canvas_h l ts) s col row = Some (fst p, snd p, bw, bh)"
    unfolding badge_rect_plain [OF assms(2,3)] Let_def assms(9) fst_conv snd_conv
    by (simp add: p_def bw_def bh_def k_def w_def h_def)
  with b sides show ?thesis unfolding w_def h_def
    by - (rule exI [of _ "fst p"], rule exI [of _ "snd p"], rule exI [of _ bw], rule exI [of _ bh], simp)
qed

text \<open>
  C36: Badges below the cells get lost when there is no font for the time stamps. The gap between rows is 36 pixels whatever
  the size of a badge, and as much room is left under the last row; from 1472 pixels of cell width on, the badges of the
  built-in pixel font, for stamps of twelve bytes as \<^verbatim>\<open>HH:MM:SS.mmm\<close>, are higher, so none of those of the last row is
  drawn, and those of the other rows reach into the frames below. (A font file is scaled to 40 pixels at most, and its
  badges can fit.)
\<close>

theorem outside_badges_lost:
  assumes "plain_layout l" and "re_ts_font re = None" and "utf8_len s = 12" and "col < gl_cols l" and "row < gl_rows l"
    and "is_outside (op_timestamp_position opt)" and "gl_row_gap l = 36" and "gl_outside_ts l" and "1472 \<le> gl_cell_w l"
    and "cell_origin l col row = (cx, cy)"
  shows "(row + 1 = gl_rows l \<longrightarrow> badge_rect ar re opt l (canvas_w l, canvas_h l True) s col row = None)
     \<and> (row + 1 < gl_rows l \<longrightarrow>
          (\<exists>bx b_y bw bh. badge_rect ar re opt l (canvas_w l, canvas_h l True) s col row = Some (bx, b_y, bw, bh)
             \<and> snd (cell_origin l col (row + 1)) < b_y + bh))"
proof -
  define k where "k = plain_scale (gl_cell_w l)"
  define bw where "bw = 72 * k + 8"
  define bh where "bh = 7 * k + 8"
  define w where "w = gl_cell_w l"
  define h where "h = gl_cell_h l"
  have "360 \<le> gl_cell_w l div 4 - 8" using assms(9) by simp
  then have "5 \<le> (gl_cell_w l div 4 - 8) div 72" by (simp add: less_eq_div_iff_mult_less_eq)
  then have "5 \<le> k" by (simp add: k_def plain_scale_def)
  then have k: "5 \<le> k" "k \<le> 6" "bw + 8 \<le> w"
    using plain_scale_bounds [of "gl_cell_w l"] assms(9) by (simp_all add: k_def bw_def w_def)
  note cell = cell_inside [OF assms(1,4,5,10), folded w_def h_def]
  note small = plain_small(1) [OF assms(1)] plain_small(2) [OF assms(1), of True]
  define p where "p = badge_pos cx cy w h bw bh 4 (op_timestamp_position opt)"
  have ids: "w32 (cx + 4) = cx + 4" "w32 (cx + w) = cx + w" "w32 (cy + h + 4) = cy + h + 4"
      "sub32 w bw = w - bw" "sub32 (cx + w) bw = cx + w - bw" "w32 (cx + (w - bw) div 2) = cx + (w - bw) div 2"
    using cell(1,4) cell(3) [of True] small k by (auto intro!: w32_id sub32_id)
  have "4 \<le> cx + w - bw" "cx + w - bw < 2 ^ 32" using cell(1,4) small k by simp_all
  then have "sub32 (cx + w - bw) 4 = cx + w - bw - 4" by (simp only: sub32_id)
  note ids = ids this
  have half: "(w - bw) div 2 + (bw + 4) \<le> w" using k(3) by presburger
  have b: "fst p + bw + 4 \<le> cx + w \<and> snd p = cy + h + 4"
    using k half by (cases "op_timestamp_position opt") (use assms(6) in \<open>auto simp: p_def badge_pos_def ids Let_def\<close>)
  have "w32 (snd p + bh) = snd p + bh" "w32 (fst p + bw) = fst p + bw"
    using b k cell(1) cell(3) [of True] small by (auto intro!: w32_id simp: bh_def)
  moreover have "fst p + bw \<le> canvas_w l" using b cell(1) by linarith
  ultimately have r: "badge_rect ar re opt l (canvas_w l, canvas_h l True) s col row =
      (if canvas_h l True < snd p + bh then None else Some (fst p, snd p, bw, bh))"
    unfolding badge_rect_plain [OF assms(2,3)] Let_def assms(10) fst_conv snd_conv
    by (simp add: p_def bw_def bh_def k_def w_def h_def)
  have bh: "43 \<le> bh" "bh \<le> 50" using k by (simp_all add: bh_def)
  have cy: "cy = gl_header_h l + 8 + row * (h + 36)"
    using plain_origin [OF assms(1,4,5)] assms(7,10) by (simp add: h_def)
  have ch: "canvas_h l True = gl_header_h l + 16 + gl_rows l * h + (gl_rows l - 1) * 36 + 36"
    using plain_height(1) [OF assms(1), of True] assms(7,8) by (simp add: h_def)
  show ?thesis
  proof (intro conjI impI)
    assume last: "row + 1 = gl_rows l"
    have "canvas_h l True = cy + h + 44" unfolding cy ch last [symmetric] by (simp add: algebra_simps)
    with bh b show "badge_rect ar re opt l (canvas_w l, canvas_h l True) s col row = None" unfolding r by simp
  next
    assume n: "row + 1 < gl_rows l"
    have "cell_origin l col (row + 1) = (8 + col * (w + 4), cy + h + 36)"
      using plain_origin [OF assms(1,4) n] assms(7) by (simp add: cy w_def h_def algebra_simps)
    moreover have "cy + h + 36 + h + 44 \<le> canvas_h l True"
      using product_bound [OF n, of h 36] unfolding cy ch by (simp add: algebra_simps)
    ultimately show "\<exists>bx b_y bw bh. badge_rect ar re opt l (canvas_w l, canvas_h l True) s col row = Some (bx, b_y, bw, bh)
        \<and> snd (cell_origin l col (row + 1)) < b_y + bh" using r b bh by auto
  qed
qed

definition demo_stamp :: unitext where "demo_stamp = ascii ''00:01:02.345''"

lemma demo_stamp_len: "utf8_len demo_stamp = 12"
  by (simp add: demo_stamp_def utf8_len_def ascii_def)

lemma plain_renderer_stamps: "re_ts_font plain_renderer = None"
  by (simp add: plain_renderer_def renderer_new_def or_else_def Let_def)

theorem badge_in_own_cell_witness:
  "\<exists>b_y bw bh. badge_rect demo_art plain_renderer all_options (compute_layout 2 2 320 180 144 Inside_Bottom_Left 0 660) (660, 524) demo_stamp 0 0
      = Some (12, b_y, bw, bh) \<and> b_y + bh = 328"
proof -
  define l where "l = compute_layout 2 2 320 180 144 Inside_Bottom_Left 0 660"
  have l: "plain_layout l" "0 < gl_cols l" "0 < gl_rows l" "88 \<le> gl_cell_w l" "58 \<le> gl_cell_h l"
    by (simp_all add: l_def plain_layout_def compute_layout_def cell_gap_def grid_padding_def)
  have o: "cell_origin l 0 0 = (8, 152)" "canvas_w l = 660" "canvas_h l False = 524" "gl_cell_h l = 180"
    by (simp_all add: l_def cell_origin_def canvas_w_def canvas_h_def compute_layout_def cell_gap_def grid_padding_def w32_def sub32_def)
  have i: "\<not> is_outside (op_timestamp_position all_options)" "op_timestamp_position all_options = Inside_Bottom_Left"
    by (simp_all add: all_options_def)
  from badge_in_own_cell [OF l(1) plain_renderer_stamps demo_stamp_len l(2,3) i(1) l(4,5) o(1), of demo_art False]
  show ?thesis unfolding o(2-4) i(2) l_def [symmetric] by auto
qed

definition below_options :: render_options where
  "below_options = all_options\<lparr>op_timestamp_position := Outside_Bottom_Left\<rparr>"

theorem outside_badges_lost_witness:
  "badge_rect demo_art plain_renderer below_options (compute_layout 1 1 1480 800 0 Outside_Bottom_Left 0 1496) (1496, 852) demo_stamp 0 0 = None"
proof -
  define l where "l = compute_layout 1 1 1480 800 0 Outside_Bottom_Left 0 1496"
  have l: "plain_layout l" "0 < gl_cols l" "0 < gl_rows l" "gl_row_gap l = 36" "gl_outside_ts l" "1472 \<le> gl_cell_w l"
    by (simp_all add: l_def plain_layout_def compute_layout_def cell_gap_def grid_padding_def)
  have o: "cell_origin l 0 0 = (8, 8)" "canvas_w l = 1496" "canvas_h l True = 852" "gl_rows l = 1"
    by (simp_all add: l_def cell_origin_def canvas_w_def canvas_h_def compute_layout_def cell_gap_def grid_padding_def w32_def sub32_def)
  have i: "is_outside (op_timestamp_position below_options)" by (simp add: below_options_def)
  from outside_badges_lost [OF l(1) plain_renderer_stamps demo_stamp_len l(2,3) i l(4-6) o(1), of demo_art]
  show ?thesis unfolding o l_def [symmetric] by simp
qed

end
