(* ===== verification/Poster_Sampling.thy ===== *)
theory Poster_Sampling
  imports Float_Ops "HOL-Library.Word"
begin

unbundle bit_operations_syntax

text \<open>
  Where the poster generator takes its frames: \<^verbatim>\<open>crates/poster-gen/src/sampling.rs\<close>. A panic (a duration that is
  not a number, or a start that is none) is \<open>None\<close>.
\<close>

section \<open>Even and jittered time stamps\<close>

definition even_timestamps :: "fl \<Rightarrow> nat \<Rightarrow> fl list" where
  "even_timestamps duration count =
     (let spacing = f_div duration (f_of_int (int count))
      in map (\<lambda>i. f_add (f_div spacing (Fin 2)) (f_mul (f_of_int (int i)) spacing)) [0..<count])"

definition hex_val :: "char \<Rightarrow> nat option" where
  "hex_val c =
     (let k = of_char c :: nat
      in if 48 \<le> k \<and> k \<le> 57 then Some (k - 48)
         else if 97 \<le> k \<and> k \<le> 102 then Some (k - 87)
         else if 65 \<le> k \<and> k \<le> 70 then Some (k - 55) else None)"

definition parse_seed_u64 :: "string \<Rightarrow> 64 word" where
  "parse_seed_u64 s =
     (let hex = take 16 (List.map_filter hex_val s)
      in if hex = [] then 0xdeadbeefcafebabe else of_nat (foldl (\<lambda>v d. 16 * v + d) 0 hex))"

definition xorshift64_at :: "64 word \<Rightarrow> 64 word \<Rightarrow> 64 word" where
  "xorshift64_at seed idx =
     (let s = seed XOR (idx * 6364136223846793005 + 1442695040888963407);
          s = s XOR push_bit 13 s; s = s XOR drop_bit 7 s
      in s XOR push_bit 17 s)"

definition max_jitter :: "fl \<Rightarrow> fl" where
  "max_jitter spacing =
     fl_max (fl_min (f_div spacing (Fin 4)) (f_div (f_sub spacing (Fin 2)) (Fin 2))) (Fin 0)"

definition jitter :: "64 word \<Rightarrow> fl \<Rightarrow> nat \<Rightarrow> fl" where
  "jitter seed most i =
     (let r = xorshift64_at seed (of_nat i);
          normalized = f_div (f_of_int (uint (drop_bit 11 r))) (Fin (2 ^ 53))
      in f_mul (f_mul (f_sub normalized (Fin (1 / 2))) (Fin 2)) most)"

definition jittered_timestamps :: "fl \<Rightarrow> nat \<Rightarrow> string \<Rightarrow> fl list" where
  "jittered_timestamps duration count seed_hex =
     (let even = even_timestamps duration count;
          most = max_jitter (f_div duration (f_of_int (int count)));
          seed = parse_seed_u64 seed_hex
      in if most = Fin 0 then even else map (\<lambda>(i, t). f_add t (jitter seed most i)) (enumerate 0 even))"

section \<open>Skipped segments\<close>

definition parse_skip_segment :: "string \<Rightarrow> (fl \<times> fl) option" where
  "parse_skip_segment s =
     (case split_once (CHR '':'') s of
        None \<Rightarrow> None
      | Some (a, b) \<Rightarrow>
          (case (parse_f64 a, parse_f64 b) of
             (Some x, Some y) \<Rightarrow> if fl_less x y then Some (f_div x (Fin 1000), f_div y (Fin 1000)) else None
           | _ \<Rightarrow> None))"

definition parse_skip_segments :: "string list \<Rightarrow> (fl \<times> fl) list" where
  "parse_skip_segments = List.map_filter parse_skip_segment"

text \<open>\<^verbatim>\<open>sort_by\<close> on the starts, stable.\<close>

fun insert_start :: "fl \<times> fl \<Rightarrow> (fl \<times> fl) list \<Rightarrow> (fl \<times> fl) list" where
  "insert_start x [] = [x]"
| "insert_start x (y # ys) = (if fl_less (fst y) (fst x) then y # insert_start x ys else x # y # ys)"

definition sort_starts :: "(fl \<times> fl) list \<Rightarrow> (fl \<times> fl) list option" where
  "sort_starts skip =
     (if 2 \<le> length skip \<and> (\<exists>x \<in> set skip. fst x = NaN) then None else Some (foldr insert_start skip []))"

fun carve :: "fl \<Rightarrow> fl \<Rightarrow> (fl \<times> fl) list \<Rightarrow> (fl \<times> fl) list option" where
  "carve duration cursor [] = Some (if fl_less cursor duration then [(cursor, duration)] else [])"
| "carve duration cursor ((s, e) # rest) =
     (case (fl_clamp (Fin 0) duration s, fl_clamp (Fin 0) duration e) of
        (Some s, Some e) \<Rightarrow>
          map_option (\<lambda>r. (if fl_less cursor s then [(cursor, s)] else []) @ r)
            (carve duration (if fl_less cursor e then e else cursor) rest)
      | _ \<Rightarrow> None)"

definition available_intervals :: "fl \<Rightarrow> (fl \<times> fl) list \<Rightarrow> (fl \<times> fl) list option" where
  "available_intervals duration skip =
     (case sort_starts skip of None \<Rightarrow> None | Some xs \<Rightarrow> carve duration (Fin 0) xs)"

text \<open>A position in the concatenation of the intervals.\<close>

fun place_in :: "fl \<Rightarrow> fl \<Rightarrow> (fl \<times> fl) list \<Rightarrow> fl option" where
  "place_in compressed acc [] = None"
| "place_in compressed acc ((s, e) # rest) =
     (let len = f_sub e s
      in if fl_less compressed (f_add acc len) then Some (f_add s (f_sub compressed acc))
         else place_in compressed (f_add acc len) rest)"

definition map_timestamp :: "fl \<Rightarrow> fl \<Rightarrow> (fl \<times> fl) list \<Rightarrow> fl \<Rightarrow> fl" where
  "map_timestamp duration avail intervals t =
     (let compressed = fl_min (f_mul (f_div t duration) avail) (f_sub avail (Fin (1 / 2 ^ 52)))
      in case place_in compressed (Fin 0) intervals of
           Some r \<Rightarrow> r
         | None \<Rightarrow> if intervals = [] then t else snd (last intervals))"

definition apply_skip :: "fl list \<Rightarrow> fl \<Rightarrow> (fl \<times> fl) list \<Rightarrow> fl list option" where
  "apply_skip timestamps duration skip =
     (if skip = [] then Some timestamps
      else
        (case available_intervals duration skip of
           None \<Rightarrow> None
         | Some intervals \<Rightarrow>
             let avail = foldl f_add (Fin 0) (map (\<lambda>(s, e). f_sub e s) intervals)
             in Some (if fl_le avail (Fin 0) then timestamps else map (map_timestamp duration avail intervals) timestamps)))"

section \<open>The generator\<close>

text \<open>Two indexes of one seed never give the same number: every step is injective.\<close>

lemma xorshift_left_inj: "0 < k \<Longrightarrow> x XOR push_bit k x = y XOR push_bit k y \<Longrightarrow> x = (y :: 64 word)"
proof (rule bit_word_eqI)
  fix n
  assume k: "0 < k" and eq: "x XOR push_bit k x = y XOR push_bit k y" and "n < LENGTH(64)"
  have "n < 64 \<Longrightarrow> bit x n = bit y n" for n
  proof (induction n rule: less_induct)
    case (less n)
    from eq have "bit (x XOR push_bit k x) n = bit (y XOR push_bit k y) n" by simp
    with less k show ?case by (cases "k \<le> n") (auto simp: bit_simps)
  qed
  with \<open>n < LENGTH(64)\<close> show "bit x n = bit y n" by simp
qed

lemma xorshift_right_inj: "0 < k \<Longrightarrow> x XOR drop_bit k x = y XOR drop_bit k y \<Longrightarrow> x = (y :: 64 word)"
proof (rule bit_word_eqI)
  fix n
  assume k: "0 < k" and eq: "x XOR drop_bit k x = y XOR drop_bit k y" and "n < LENGTH(64)"
  have "bit x (64 - m) = bit y (64 - m)" if "m \<le> 64" for m
    using that
  proof (induction m rule: less_induct)
    case (less m)
    from eq have e: "bit (x XOR drop_bit k x) (64 - m) = bit (y XOR drop_bit k y) (64 - m)" by simp
    show ?case
    proof (cases "k + (64 - m) < 64")
      case True
      with k less.prems have "bit x (64 - (m - k)) = bit y (64 - (m - k))" by (intro less.IH) auto
      moreover have "64 - (m - k) = k + (64 - m)" using True less.prems by simp
      ultimately show ?thesis using e by (auto simp: bit_simps)
    next
      case False
      then have "\<not> bit x (k + (64 - m))" "\<not> bit y (k + (64 - m))" by (auto dest: bit_imp_le_length)
      with e show ?thesis by (simp add: bit_simps)
    qed
  qed
  from this [of "64 - n"] \<open>n < LENGTH(64)\<close> show "bit x n = bit y n" by simp
qed

lemma xorshift64_inj: "xorshift64_at seed i = xorshift64_at seed j \<Longrightarrow> i = j"
proof -
  let ?c = "6364136223846793005 :: 64 word"
  assume "xorshift64_at seed i = xorshift64_at seed j"
  moreover define a where "a = seed XOR (i * ?c + 1442695040888963407)"
  moreover define b where "b = seed XOR (j * ?c + 1442695040888963407)"
  moreover define f where "f = (\<lambda>x :: 64 word. x XOR push_bit 13 x)"
  moreover define g where "g = (\<lambda>x :: 64 word. x XOR drop_bit 7 x)"
  ultimately have "g (f a) XOR push_bit 17 (g (f a)) = g (f b) XOR push_bit 17 (g (f b))" by (simp add: xorshift64_at_def Let_def)
  then have "g (f a) = g (f b)" by (rule xorshift_left_inj [rotated]) simp
  then have "f a = f b" unfolding g_def by (rule xorshift_right_inj [rotated]) simp
  then have "a = b" unfolding f_def by (rule xorshift_left_inj [rotated]) simp
  then have "seed XOR a = seed XOR b" by simp
  then have "i * ?c = j * ?c" by (simp add: a_def b_def xor.assoc [symmetric])
  then have "i * ?c * 13877824140714322085 = j * ?c * 13877824140714322085" by simp
  moreover have "?c * 13877824140714322085 = 1" by (simp add: word_uint_eq_iff)
  ultimately show "i = j" by (simp only: mult.assoc mult_1_right)
qed

section \<open>Relative errors\<close>

text \<open>One rounding changes a value of ordinary size by at most \<open>2 powi - 53\<close> of it.\<close>

definition ordinary :: "rat \<Rightarrow> bool" where
  "ordinary x \<longleftrightarrow> 2 powi (- 900) \<le> \<bar>x\<bar> \<and> \<bar>x\<bar> \<le> 2 powi 900"

lemma round64_relative:
  assumes "ordinary x"
  obtains y where "round64 x = Fin y" and "\<bar>y - x\<bar> \<le> \<bar>x\<bar> * 2 powi (- 53)"
proof -
  have x: "x \<noteq> 0" using assms powi_pos [of "- 900"] by (auto simp: ordinary_def)
  note b = expo_bounds [OF x]
  have "(2 :: rat) powi expo x \<le> 2 powi 900" "(2 :: rat) powi (- 900) < 2 powi (expo x + 1)"
    using b assms by (auto simp: ordinary_def)
  note small = this
  have e: "expo x \<le> 900"
  proof (rule ccontr)
    assume "\<not> expo x \<le> 900"
    then have "(2 :: rat) powi 900 < 2 powi expo x" by (intro powi_mono_strict) linarith
    with small(1) show False by (rule leD [THEN notE])
  qed
  have "- 901 < expo x"
  proof (rule ccontr)
    assume "\<not> - 901 < expo x"
    then have "(2 :: rat) powi (expo x + 1) \<le> 2 powi (- 900)" by (intro powi_mono) linarith
    with small(2) show False by (rule leD [THEN notE, rotated])
  qed
  note e = e this
  obtain y where y: "round64 x = Fin y" "\<bar>y - x\<bar> \<le> 2 powi (expo x + 1 - 54)"
    by (rule round64_near [OF b [THEN conjunct2]]) (use e in simp_all)
  have "expo x + 1 - 54 = expo x + (- 53)" by simp
  then have "(2 :: rat) powi (expo x + 1 - 54) = 2 powi expo x * 2 powi (- 53)" by (metis power_int_add zero_neq_numeral)
  also have "\<dots> \<le> \<bar>x\<bar> * 2 powi (- 53)" using b by (intro mult_right_mono) simp_all
  finally show thesis using that y by force
qed

section \<open>Where the time stamps are\<close>

text \<open>The ideal position of frame \<open>i\<close> of \<open>n\<close> is the middle of its share of the duration.\<close>

definition ideal :: "rat \<Rightarrow> nat \<Rightarrow> nat \<Rightarrow> rat" where
  "ideal d n i = (of_nat i + 1 / 2) * (d / of_nat n)"

text \<open>Durations from a microsecond to some thousand years, at most a thousand frames.\<close>

definition poster_range :: "rat \<Rightarrow> nat \<Rightarrow> bool" where
  "poster_range d n \<longleftrightarrow> 1 / 1000000 \<le> d \<and> d \<le> 1000000000000 \<and> 0 < n \<and> n \<le> 1000"

lemma ordinary_scale: "1 / 100000000000000000000 \<le> \<bar>x\<bar> \<Longrightarrow> \<bar>x\<bar> \<le> 100000000000000000000 \<Longrightarrow> ordinary x"
proof -
  assume x: "1 / 100000000000000000000 \<le> \<bar>x\<bar>" "\<bar>x\<bar> \<le> 100000000000000000000"
  have "(2 :: rat) powi (- 900) \<le> 2 powi (- 70)" "(2 :: rat) powi 70 \<le> 2 powi 900" by (rule powi_mono; simp)+
  moreover have "(2 :: rat) powi (- 70) \<le> 1 / 100000000000000000000" "100000000000000000000 \<le> (2 :: rat) powi 70" by (simp_all add: power_int_minus field_simps)
  ultimately show ?thesis using x unfolding ordinary_def by (meson order.trans)
qed

lemma poster_share:
  assumes "poster_range d n"
  shows "1 / 1000000000 \<le> d / of_nat n" and "d / of_nat n \<le> 1000000000000"
proof -
  have "1 \<le> n" "n \<le> 1000" and d: "1 / 1000000 \<le> d" "d \<le> 1000000000000" using assms by (simp_all add: poster_range_def)
  then have "(of_nat 1 :: rat) \<le> of_nat n" "(of_nat n :: rat) \<le> of_nat 1000" by (simp_all only: of_nat_le_iff)
  then have n: "1 \<le> (of_nat n :: rat)" "(of_nat n :: rat) \<le> 1000" by simp_all
  have "1 / 1000000000 * of_nat n \<le> 1 / 1000000000 * (1000 :: rat)" using n by (intro mult_left_mono) simp_all
  also have "\<dots> \<le> d" using d by simp
  finally show "1 / 1000000000 \<le> d / of_nat n" using n by (simp add: le_divide_eq)
  have "d \<le> 1000000000000 * 1" using d by simp
  also have "\<dots> \<le> 1000000000000 * of_nat n" using n by (intro mult_left_mono) simp_all
  finally show "d / of_nat n \<le> 1000000000000" using n by (simp add: divide_le_eq)
qed

lemma ordinary_range: "1 / 1000000000000000 \<le> x \<Longrightarrow> x \<le> 1000000000000000000 \<Longrightarrow> ordinary x"
proof -
  assume x: "1 / 1000000000000000 \<le> x" "x \<le> 1000000000000000000"
  have "0 \<le> (1 / 1000000000000000 :: rat)" "1 / 100000000000000000000 \<le> (1 / 1000000000000000 :: rat)" "(1000000000000000000 :: rat) \<le> 100000000000000000000" by simp_all
  with x have "\<bar>x\<bar> = x" "1 / 100000000000000000000 \<le> x" "x \<le> 100000000000000000000" by linarith+
  then show ?thesis by (intro ordinary_scale) simp_all
qed

text \<open>One rounding of a positive value, in the form the sums below use.\<close>

lemma round64_pos:
  assumes "1 / 1000000000000000 \<le> x" and "x \<le> 1000000000000000000"
  obtains y where "round64 x = Fin y" and "x - x / 9007199254740992 \<le> y" and "y \<le> x + x / 9007199254740992"
proof -
  have "0 < x" using assms(1) by (rule less_le_trans [rotated]) simp
  have u: "(2 :: rat) powi (- 53) = 1 / 9007199254740992" by (simp add: power_int_minus field_simps)
  from round64_relative [OF ordinary_range [OF assms]] obtain y where "round64 x = Fin y" "\<bar>y - x\<bar> \<le> \<bar>x\<bar> * 2 powi (- 53)" by blast
  moreover from this(2) \<open>0 < x\<close> have "\<bar>y - x\<bar> \<le> x / 9007199254740992" unfolding u by simp
  ultimately show thesis using that [of y] by linarith
qed

lemma even_near:
  assumes "poster_range d n" and "i < n"
  obtains t where "even_timestamps (Fin d) n ! i = Fin t" and "\<bar>t - ideal d n i\<bar> \<le> d / of_nat n / 1099511627776"
proof -
  define q where "q = d / of_nat n"
  define k where "k = (of_nat i :: rat)"
  have q: "1 / 1000000000 \<le> q" "q \<le> 1000000000000" using poster_share [OF assms(1)] by (simp_all add: q_def)
  have n: "n \<le> 1000" "0 < n" using assms(1) by (simp_all add: poster_range_def)
  have k: "0 \<le> k" "k \<le> 999"
  proof -
    have "i \<le> 999" using assms(2) n by simp
    then have "(of_nat i :: rat) \<le> of_nat 999" by (simp only: of_nat_le_iff)
    then show "0 \<le> k" "k \<le> 999" by (simp_all add: k_def)
  qed
  have fn: "f_of_int (int n) = Fin (of_nat n)" "f_of_int (int i) = Fin k"
    using f_of_int_exact [of "int n"] f_of_int_exact [of "int i"] n assms(2) by (simp_all add: k_def)
  obtain s where s: "round64 q = Fin s" "q - q / 9007199254740992 \<le> s" "s \<le> q + q / 9007199254740992"
    by (rule round64_pos [of q]) (use q in simp_all)
  have s': "q / 2 \<le> s" "s \<le> 2 * q" using s q by simp_all
  obtain h where h: "round64 (s / 2) = Fin h" "s / 2 - s / 2 / 9007199254740992 \<le> h" "h \<le> s / 2 + s / 2 / 9007199254740992"
    by (rule round64_pos [of "s / 2"]) (use s' q in simp_all)
  have ks: "k * q - k * q / 9007199254740992 \<le> k * s" "k * s \<le> k * q + k * q / 9007199254740992"
    using mult_left_mono [OF s(2) k(1)] mult_left_mono [OF s(3) k(1)] by (simp_all add: algebra_simps)
  have kq: "0 \<le> k * q" "k * q \<le> 999 * q" using k q mult_right_mono [OF k(2), of q] by (simp_all add: order.trans [OF _ q(1)])
  obtain m where m: "f_mul (Fin k) (Fin s) = Fin m" "k * s - k * s / 9007199254740992 \<le> m" "m \<le> k * s + k * s / 9007199254740992"
  proof (cases "i = 0")
    case True
    with that [of 0] show thesis using round64_int [of 0] by (simp add: k_def)
  next
    case False
    then have "1 \<le> i" by simp
    then have "(of_nat 1 :: rat) \<le> of_nat i" by (simp only: of_nat_le_iff)
    then have "1 \<le> k" by (simp add: k_def)
    then have "s \<le> k * s" using mult_right_mono [of 1 k s] s' q by simp
    then have "1 / 1000000000000000 \<le> k * s" "k * s \<le> 1000000000000000000" using s'(1) q kq(2) ks(2) by linarith+
    then show thesis by (rule round64_pos) (use that in simp)
  qed
  define x where "x = h + m"
  have hm: "1 / 1000000000000000 \<le> x" "x \<le> 1000000000000000000" unfolding x_def using h(2,3) m(2,3) ks kq s' q by linarith+
  obtain t where t: "round64 x = Fin t" "x - x / 9007199254740992 \<le> t" "t \<le> x + x / 9007199254740992"
    by (rule round64_pos [OF hm])
  have "even_timestamps (Fin d) n ! i = Fin t"
    using assms(2) n s(1) h(1) m(1) t(1) by (simp add: even_timestamps_def fn q_def [symmetric] f_add_def x_def Let_def)
  moreover have "ideal d n i = k * q + q / 2" by (simp add: ideal_def k_def q_def algebra_simps)
  moreover have "\<bar>t - (k * q + q / 2)\<bar> \<le> q / 1099511627776"
    using t(2,3) h(2,3) m(2,3) ks kq s(2,3) q x_def by linarith
  ultimately show thesis using that by (simp add: q_def)
qed

text \<open>Rounding keeps a bound, up to one rounding of the bound.\<close>

lemma round64_between:
  assumes "- b \<le> x" and "x \<le> b" and "1 / 1000000000000000 \<le> b" and "b \<le> 1000000000000000000"
  obtains y where "round64 x = Fin y" and "- (b + b / 9007199254740992) \<le> y" and "y \<le> b + b / 9007199254740992"
proof -
  let ?r = "round_val 53 (- 1022)"
  have big: "(2 :: rat) powi 80 \<le> 2 ^ 1024"
  proof -
    have "(2 :: rat) powi 80 = 2 ^ 80" by (rule power_int_numeral)
    also have "(2 :: rat) ^ 80 \<le> 2 ^ 1024" by (rule power_increasing) simp_all
    finally show ?thesis .
  qed
  obtain c where c: "round64 b = Fin c" "c \<le> b + b / 9007199254740992" by (rule round64_pos [OF assms(3,4)])
  then have rb: "?r b = c" by (simp add: round64_def round_fl_def Let_def split: if_splits)
  have "?r x \<le> ?r b" "?r (- b) \<le> ?r x" using assms(1,2) by (auto intro!: round_val_mono)
  then have y: "- c \<le> ?r x" "?r x \<le> c" by (simp_all add: rb round_val_minus)
  have "c < 2 powi 80" using c(2) assms(4) by simp
  with y big have "?r x < 2 ^ 1024" "- (2 ^ 1024) < ?r x" by linarith+
  then have "round64 x = Fin (?r x)" by (simp add: round64_def round_fl_def Let_def not_le)
  with y c(2) that show thesis by fastforce
qed

lemma max_jitter_small:
  assumes "1 / 10000000000 \<le> s" and "s \<le> 10000000000000"
  obtains m where "max_jitter (Fin s) = Fin m" and "0 \<le> m" and "m \<le> s / 4 + s / 4 / 9007199254740992"
proof -
  obtain a where a: "round64 (s / 4) = Fin a" "s / 4 - s / 4 / 9007199254740992 \<le> a" "a \<le> s / 4 + s / 4 / 9007199254740992"
    by (rule round64_pos [of "s / 4"]) (use assms in simp_all)
  obtain b where b: "round64 (s - 2) = Fin b" "- (20000000000000 + 20000000000000 / 9007199254740992) \<le> b"
    "b \<le> 20000000000000 + 20000000000000 / 9007199254740992"
    by (rule round64_between [of 20000000000000 "s - 2"]) (use assms in simp_all)
  obtain c where c: "round64 (b / 2) = Fin c" by (rule round64_between [of 20000000000000 "b / 2"]) (use b in simp_all)
  have "0 \<le> a" using a(2) assms(1) by simp
  with a(1,3) b(1) c that [of "max (min a c) 0"] show thesis
    by (simp add: max_jitter_def f_sub_def f_add_def)
qed

lemma jitter_small:
  assumes "0 \<le> m" and "m \<le> b" and "1 / 1000000000000000 \<le> b" and "b \<le> 1000000000000000000"
  obtains j where "jitter seed (Fin m) i = Fin j" and "- (b + b / 9007199254740992) \<le> j" and "j \<le> b + b / 9007199254740992"
proof -
  define r where "r = uint (drop_bit 11 (xorshift64_at seed (of_nat i)))"
  define z where "z = (of_int (r - 2 ^ 52) :: rat) * 2 powi (- 52)"
  have r: "0 \<le> r" "r < 2 ^ 53"
  proof -
    have "r = uint (xorshift64_at seed (of_nat i)) div 2 ^ 11" 
      by (simp add: r_def drop_bit_eq_div uint_div)
    moreover have "uint (xorshift64_at seed (of_nat i)) < 2 ^ 64" using uint_lt2p [of "xorshift64_at seed (of_nat i)"] by simp
    ultimately show "0 \<le> r" "r < 2 ^ 53" by (simp_all add: pos_imp_zdiv_nonneg_iff)
  qed
  have p: "(2 :: rat) powi (- 53) = 1 / 2 ^ 53" "(2 :: rat) powi (- 52) = 1 / 2 ^ 52" by (simp_all add: power_int_minus field_simps)
  have "round64 (of_int r * 2 powi (- 53)) = Fin (of_int r * 2 powi (- 53))" by (rule round64_dyadic) (use r in simp_all)
  moreover have "round64 (of_int (r - 2 ^ 52) * 2 powi (- 53)) = Fin (of_int (r - 2 ^ 52) * 2 powi (- 53))"
    by (rule round64_dyadic) (use r in simp_all)
  moreover have "round64 (of_int (r - 2 ^ 52) * 2 powi (- 52)) = Fin (of_int (r - 2 ^ 52) * 2 powi (- 52))"
    by (rule round64_dyadic) (use r in simp_all)
  ultimately have e: "jitter seed (Fin m) i = f_mul (Fin z) (Fin m)"
    using r f_of_int_exact [of r]
    by (simp add: jitter_def r_def [symmetric] f_sub_def f_add_def z_def p Let_def diff_divide_distrib)
  have "\<bar>of_int (r - 2 ^ 52) :: rat\<bar> \<le> 2 ^ 52"
  proof -
    have "\<bar>r - 2 ^ 52\<bar> \<le> 2 ^ 52" using r by simp
    then show ?thesis by (metis of_int_abs of_int_le_iff of_int_numeral of_int_power)
  qed
  then have "- 1 \<le> z" "z \<le> 1" by (simp_all add: z_def p abs_le_iff field_simps)
  then have "- m \<le> z * m" "z * m \<le> m" using assms(1) mult_right_mono [of "- 1" z m] mult_right_mono [of z 1 m] by simp_all
  with assms(2) have "- b \<le> z * m" "z * m \<le> b" by linarith+
  then show thesis by (rule round64_between) (use assms e that in simp_all)
qed

lemma jittered_near:
  assumes "poster_range d n" and "i < n"
  obtains t where "jittered_timestamps (Fin d) n seed_hex ! i = Fin t" and "\<bar>t - ideal d n i\<bar> \<le> d / of_nat n * 26 / 100"
proof -
  define q where "q = d / of_nat n"
  have q: "1 / 1000000000 \<le> q" "q \<le> 1000000000000" using poster_share [OF assms(1)] by (simp_all add: q_def)
  have n: "n \<le> 1000" "0 < n" and d: "d \<le> 1000000000000" using assms(1) by (simp_all add: poster_range_def)
  obtain t where t: "even_timestamps (Fin d) n ! i = Fin t" "\<bar>t - ideal d n i\<bar> \<le> q / 1099511627776"
    using even_near [OF assms] by (auto simp: q_def)
  have len: "length (even_timestamps (Fin d) n) = n" by (simp add: even_timestamps_def Let_def)
  obtain s where s: "round64 q = Fin s" "q - q / 9007199254740992 \<le> s" "s \<le> q + q / 9007199254740992"
    by (rule round64_pos [of q]) (use q in simp_all)
  have fn: "f_div (Fin d) (f_of_int (int n)) = Fin s"
    using f_of_int_exact [of "int n"] n s(1) by (simp add: q_def)
  obtain m where m: "max_jitter (Fin s) = Fin m" "0 \<le> m" "m \<le> s / 4 + s / 4 / 9007199254740992"
    by (rule max_jitter_small [of s]) (use s q in simp_all)
  define b where "b = s / 4 + s / 4 / 9007199254740992"
  have b: "1 / 1000000000000000 \<le> b" "b \<le> 1000000000000000000" "b \<le> q * 255 / 1000" unfolding b_def using s q by linarith+
  obtain j where j: "jitter (parse_seed_u64 seed_hex) (Fin m) i = Fin j" "- (b + b / 9007199254740992) \<le> j" "j \<le> b + b / 9007199254740992"
    by (rule jitter_small [OF m(2) m(3) [folded b_def] b(1,2)])
  show thesis
  proof (cases "m = 0")
    case True
    with fn m(1) t(1) have "jittered_timestamps (Fin d) n seed_hex ! i = Fin t" by (simp add: jittered_timestamps_def)
    moreover have "\<bar>t - ideal d n i\<bar> \<le> q * 26 / 100" using t(2) q by linarith
    ultimately show thesis using that by (simp add: q_def)
  next
    case False
    have nth: "jittered_timestamps (Fin d) n seed_hex ! i = round64 (t + j)"
      using False fn m(1) t(1) j(1) assms(2) len by (simp add: jittered_timestamps_def nth_enumerate_eq f_add_def)
    have k: "q / 2 \<le> ideal d n i" "ideal d n i \<le> 1000 * q"
    proof -
      have "(of_nat i :: rat) \<le> of_nat 999" using assms(2) n by (intro of_nat_mono) simp
      then have "(of_nat i :: rat) * q \<le> 999 * q" using q by (intro mult_right_mono) simp_all
      moreover have "0 \<le> of_nat i * q" using q by simp
      moreover have "ideal d n i = of_nat i * q + q / 2" by (simp add: ideal_def q_def algebra_simps)
      ultimately show "q / 2 \<le> ideal d n i" "ideal d n i \<le> 1000 * q" using q by linarith+
    qed
    obtain r where r: "round64 (t + j) = Fin r" "(t + j) - (t + j) / 9007199254740992 \<le> r" "r \<le> (t + j) + (t + j) / 9007199254740992"
      by (rule round64_pos [of "t + j"]) (use t(2) j(2,3) b(3) k q in linarith)+
    have "\<bar>r - ideal d n i\<bar> \<le> q * 26 / 100"
    proof -
      define w where "w = t + j"
      have w: "\<bar>w - ideal d n i\<bar> \<le> q * 256 / 1000" unfolding w_def using t(2) j(2,3) b(3) q by linarith
      then have "w / 9007199254740992 \<le> q / 1000000" using k q by linarith
      then show ?thesis using w r(2,3) [folded w_def] q by linarith
    qed
    with nth r(1) that show thesis by (simp add: q_def)
  qed
qed

text \<open>
  C26: For any duration from a microsecond to a trillion seconds and up to a thousand frames, both modes give one finite
  time stamp per frame, each within 0.26 of a share of the middle of its share of the duration, so strictly inside the
  video and in ascending order, two neighbours at least 0.48 of a share apart: the rounding and the random jitter never
  swap, merge or push out a frame.
\<close>

theorem timestamps_spread:
  assumes "poster_range d n" and "ts = even_timestamps (Fin d) n \<or> ts = jittered_timestamps (Fin d) n seed_hex"
  shows "\<exists>xs. ts = map Fin xs \<and> length xs = n
     \<and> (\<forall>i < n. \<bar>xs ! i - ideal d n i\<bar> \<le> 26 / 100 * (d / of_nat n))
     \<and> (\<forall>x \<in> set xs. 0 < x \<and> x < d)
     \<and> (\<forall>i. i + 1 < n \<longrightarrow> 48 / 100 * (d / of_nat n) \<le> xs ! (i + 1) - xs ! i)"
proof -
  define q where "q = d / of_nat n"
  have n: "0 < n" using assms(1) by (simp add: poster_range_def)
  have q: "0 < q" "d = of_nat n * q" using poster_share [OF assms(1)] n by (auto simp: q_def less_le_trans [OF _ poster_share(1) [OF assms(1)]])
  have each: "\<exists>t. ts ! i = Fin t \<and> \<bar>t - ideal d n i\<bar> \<le> q * 26 / 100" if "i < n" for i
    using assms(2)
  proof
    assume "ts = even_timestamps (Fin d) n"
    with even_near [OF assms(1) that] obtain t where "ts ! i = Fin t" "\<bar>t - ideal d n i\<bar> \<le> q / 1099511627776" by (auto simp: q_def)
    moreover from this(2) q have "\<bar>t - ideal d n i\<bar> \<le> q * 26 / 100" by linarith
    ultimately show ?thesis by blast
  next
    assume "ts = jittered_timestamps (Fin d) n seed_hex"
    with jittered_near [OF assms(1) that, of seed_hex] show ?thesis by (auto simp: q_def)
  qed
  then obtain g where g: "\<And>i. i < n \<Longrightarrow> ts ! i = Fin (g i)" "\<And>i. i < n \<Longrightarrow> \<bar>g i - ideal d n i\<bar> \<le> q * 26 / 100" by metis
  have len: "length ts = n" using assms(2) by (auto simp: jittered_timestamps_def even_timestamps_def Let_def)
  have id: "ideal d n i = of_nat i * q + q / 2" for i by (simp add: ideal_def q_def algebra_simps)
  show ?thesis
  proof (intro exI [of _ "map g [0..<n]"] conjI)
    show "ts = map Fin (map g [0..<n])" using len g(1) by (intro nth_equalityI) simp_all
    show "\<forall>i < n. \<bar>map g [0..<n] ! i - ideal d n i\<bar> \<le> 26 / 100 * (d / of_nat n)" using g(2) by (simp add: q_def)
    show "\<forall>x \<in> set (map g [0..<n]). 0 < x \<and> x < d"
    proof
      fix x assume "x \<in> set (map g [0..<n])"
      then obtain i where i: "i < n" "x = g i" by auto
      have "(of_nat i :: rat) + 1 \<le> of_nat n" using i(1) by (metis of_nat_1 of_nat_add of_nat_le_iff Suc_leI Suc_eq_plus1)
      then have "(of_nat i + 1) * q \<le> of_nat n * q" using q(1) by (intro mult_right_mono) simp_all
      moreover have "(of_nat i + 1) * q = of_nat i * q + q" by (simp add: algebra_simps)
      moreover have "0 \<le> of_nat i * q" using q(1) by simp
      ultimately show "0 < x \<and> x < d" using g(2) [OF i(1)] q i(2) unfolding id by linarith
    qed
    show "\<forall>i. i + 1 < n \<longrightarrow> 48 / 100 * (d / of_nat n) \<le> map g [0..<n] ! (i + 1) - map g [0..<n] ! i"
    proof (intro allI impI)
      fix i assume i: "i + 1 < n"
      have "of_nat (i + 1) * q = of_nat i * q + q" by (simp add: algebra_simps)
      moreover have "\<bar>g i - (of_nat i * q + q / 2)\<bar> \<le> q * 26 / 100" "\<bar>g (i + 1) - (of_nat (i + 1) * q + q / 2)\<bar> \<le> q * 26 / 100"
        using g(2) [of i] g(2) [of "i + 1"] i unfolding id by simp_all
      ultimately have "48 / 100 * q \<le> g (i + 1) - g i" by linarith
      then show "48 / 100 * (d / of_nat n) \<le> map g [0..<n] ! (i + 1) - map g [0..<n] ! i" using i by (simp add: q_def)
    qed
  qed simp
qed

section \<open>What is left after skipping\<close>

text \<open>Ascending non-empty intervals from \<open>c\<close> up to \<open>d\<close>, none overlapping the next.\<close>

fun gaps :: "rat \<Rightarrow> rat \<Rightarrow> (rat \<times> rat) list \<Rightarrow> bool" where
  "gaps c d [] \<longleftrightarrow> True"
| "gaps c d ((a, b) # rest) \<longleftrightarrow> c \<le> a \<and> a < b \<and> b \<le> d \<and> gaps b d rest"

definition covers :: "(rat \<times> rat) list \<Rightarrow> rat \<Rightarrow> bool" where
  "covers ivs t \<longleftrightarrow> (\<exists>(a, b) \<in> set ivs. a \<le> t \<and> t < b)"

definition skipped :: "(fl \<times> fl) list \<Rightarrow> rat \<Rightarrow> bool" where
  "skipped skip t \<longleftrightarrow> (\<exists>(s, e) \<in> set skip. fl_le s (Fin t) \<and> fl_less (Fin t) e)"

definition fin_pairs :: "(rat \<times> rat) list \<Rightarrow> (fl \<times> fl) list" where
  "fin_pairs = map (\<lambda>(a, b). (Fin a, Fin b))"

lemma fin_pairs_simps [simp]: "fin_pairs [] = []" "fin_pairs ((a, b) # r) = (Fin a, Fin b) # fin_pairs r"
  by (simp_all add: fin_pairs_def)

lemma covers_simps [simp]: "covers [] t \<longleftrightarrow> False" "covers ((a, b) # r) t \<longleftrightarrow> a \<le> t \<and> t < b \<or> covers r t"
  by (auto simp: covers_def)

lemma skipped_simps [simp]:
  "skipped [] t \<longleftrightarrow> False"
  "skipped ((s, e) # r) t \<longleftrightarrow> fl_le s (Fin t) \<and> fl_less (Fin t) e \<or> skipped r t"
  by (auto simp: skipped_def)

lemma gaps_weaken: "gaps c d ivs \<Longrightarrow> c' \<le> c \<Longrightarrow> gaps c' d ivs"
  by (induction ivs arbitrary: c) auto

lemma covers_from: "gaps c d ivs \<Longrightarrow> covers ivs t \<Longrightarrow> c \<le> t \<and> t < d"
proof (induction ivs arbitrary: c)
  case (Cons x ivs)
  obtain a b where "x = (a, b)" by (cases x)
  with Cons.prems Cons.IH [of b] show ?case by fastforce
qed simp

lemma clamp_cut:
  assumes "x \<noteq> NaN" and "0 < d"
  obtains v where "fl_clamp (Fin 0) (Fin d) x = Some (Fin v)" and "0 \<le> v" and "v \<le> d"
    and "\<And>t. 0 \<le> t \<Longrightarrow> t < d \<Longrightarrow> fl_le x (Fin t) \<longleftrightarrow> v \<le> t"
    and "\<And>t. 0 \<le> t \<Longrightarrow> t < d \<Longrightarrow> fl_less (Fin t) x \<longleftrightarrow> t < v"
proof (cases x)
  case (Fin r)
  with assms(2) show thesis by (intro that [of "max 0 (min r d)"]) (auto simp: fl_clamp_def fl_bound_def)
next
  case PInf
  with assms(2) show thesis by (intro that [of d]) (auto simp: fl_clamp_def fl_bound_def fl_le_def)
next
  case NInf
  with assms(2) show thesis by (intro that [of 0]) (auto simp: fl_clamp_def fl_bound_def fl_le_def)
qed (use assms in simp)

lemma fl_less_iff_not_le: "a \<noteq> NaN \<Longrightarrow> b \<noteq> NaN \<Longrightarrow> fl_less a b \<longleftrightarrow> \<not> fl_le b a"
  by (cases a; cases b) (auto simp: fl_le_def)

definition seg_ok :: "fl \<times> fl \<Rightarrow> bool" where
  "seg_ok x \<longleftrightarrow> fst x \<noteq> NaN \<and> snd x \<noteq> NaN \<and> fl_le (fst x) (snd x)"

lemma carve_covers:
  assumes "sorted_wrt (\<lambda>x y. fl_le (fst x) (fst y)) xs" and "\<forall>x \<in> set xs. seg_ok x" and "0 \<le> c" and "c \<le> d" and "0 < d"
  shows "\<exists>ivs. carve (Fin d) (Fin c) xs = Some (fin_pairs ivs) \<and> gaps c d ivs
       \<and> (\<forall>t. c \<le> t \<longrightarrow> t < d \<longrightarrow> (covers ivs t \<longleftrightarrow> \<not> skipped xs t))"
  using assms(1-4)
proof (induction xs arbitrary: c)
  case Nil
  then show ?case
    by (cases "c < d") (auto intro: exI [of _ "[(c, d)]"] exI [of _ "[]"])
next
  case (Cons x xs)
  obtain s e where x: "x = (s, e)" by (cases x)
  have ok: "s \<noteq> NaN" "e \<noteq> NaN" "fl_le s e" using Cons.prems(2) by (auto simp: x seg_ok_def)
  obtain a where a: "fl_clamp (Fin 0) (Fin d) s = Some (Fin a)" "0 \<le> a" "a \<le> d"
    "\<And>t. 0 \<le> t \<Longrightarrow> t < d \<Longrightarrow> fl_le s (Fin t) \<longleftrightarrow> a \<le> t"
    by (rule clamp_cut [OF ok(1) assms(5)]) blast
  obtain b where b: "fl_clamp (Fin 0) (Fin d) e = Some (Fin b)" "0 \<le> b" "b \<le> d"
    "\<And>t. 0 \<le> t \<Longrightarrow> t < d \<Longrightarrow> fl_less (Fin t) e \<longleftrightarrow> t < b"
    by (rule clamp_cut [OF ok(2) assms(5)]) blast
  have ab: "a \<le> b" using ok(3) a(1) b(1) by (cases s; cases e) (auto simp: fl_clamp_def fl_bound_def fl_le_def split: if_splits)
  define c' where "c' = max c b"
  have c': "(if fl_less (Fin c) (Fin b) then Fin b else Fin c) = Fin c'" "0 \<le> c'" "c' \<le> d" "c \<le> c'" "b \<le> c'"
    using Cons.prems(3,4) b by (auto simp: c'_def)
  from Cons.IH [of c'] Cons.prems(1,2) c'(2,3) obtain ivs where i: "carve (Fin d) (Fin c') xs = Some (fin_pairs ivs)"
    "gaps c' d ivs" "\<And>t. c' \<le> t \<Longrightarrow> t < d \<Longrightarrow> (covers ivs t \<longleftrightarrow> \<not> skipped xs t)" by auto
  have later: "\<not> skipped xs t" if "0 \<le> t" "t < d" "t < a" for t
  proof
    assume "skipped xs t"
    then obtain s2 e2 where "(s2, e2) \<in> set xs" "fl_le s2 (Fin t)" by (auto simp: skipped_def)
    with Cons.prems(1) have "fl_le s (Fin t)" by (auto simp: x intro: fl_le_trans)
    with a(4) that show False by simp
  qed
  have early: "\<not> covers ivs t" if "t < c'" for t using covers_from [OF i(2)] that by (meson leD)
  show ?case
  proof (cases "c < a")
    case True
    have "c' = b" using True ab by (simp add: c'_def)
    have "gaps c d ((c, a) # ivs)" using True a(3) gaps_weaken [OF i(2)] ab c'(5) by simp
    moreover have "carve (Fin d) (Fin c) (x # xs) = Some (fin_pairs ((c, a) # ivs))" using True a(1) b(1) c'(1) i(1) by (simp add: x)
    moreover have "covers ((c, a) # ivs) t \<longleftrightarrow> \<not> skipped (x # xs) t" if t: "c \<le> t" "t < d" for t
    proof -
      have "0 \<le> t" using t(1) Cons.prems(3) by simp
      with a(4) b(4) t(2) have h: "skipped (x # xs) t \<longleftrightarrow> a \<le> t \<and> t < b \<or> skipped xs t" by (simp add: x)
      consider "t < a" | "a \<le> t" "t < b" | "b \<le> t" by linarith
      then show ?thesis
        using h later [OF \<open>0 \<le> t\<close> t(2)] early [of t] i(3) [of t] t ab \<open>c' = b\<close> by cases auto
    qed
    ultimately show ?thesis by blast
  next
    case False
    have "carve (Fin d) (Fin c) (x # xs) = Some (fin_pairs ivs)" using False a(1) b(1) c'(1) i(1) by (simp add: x option.map_ident)
    moreover have "gaps c d ivs" using gaps_weaken [OF i(2) c'(4)] .
    moreover have "covers ivs t \<longleftrightarrow> \<not> skipped (x # xs) t" if t: "c \<le> t" "t < d" for t
    proof -
      have "0 \<le> t" using t(1) Cons.prems(3) by simp
      with a(4) b(4) t(2) have h: "skipped (x # xs) t \<longleftrightarrow> a \<le> t \<and> t < b \<or> skipped xs t" by (simp add: x)
      show ?thesis
      proof (cases "t < c'")
        case True
        with h early [OF True] False t show ?thesis by (auto simp: c'_def split: if_splits)
      next
        case False
        with h i(3) [of t] t c'(5) show ?thesis by auto
      qed
    qed
    ultimately show ?thesis by blast
  qed
qed

lemma set_insert_start [simp]: "set (insert_start x xs) = insert x (set xs)"
  by (induction xs) auto

lemma set_sort [simp]: "set (foldr insert_start xs []) = set xs"
  by (induction xs) auto

lemma insert_start_sorted:
  assumes "sorted_wrt (\<lambda>x y. fl_le (fst x) (fst y)) xs" and "\<forall>y \<in> set (x # xs). fst y \<noteq> NaN"
  shows "sorted_wrt (\<lambda>x y. fl_le (fst x) (fst y)) (insert_start x xs)"
  using assms
proof (induction xs)
  case (Cons y ys)
  show ?case
  proof (cases "fl_less (fst y) (fst x)")
    case True
    then have "fl_le (fst y) (fst x)" by (simp add: fl_le_def)
    with True Cons show ?thesis by auto
  next
    case False
    with Cons.prems(2) have "fl_le (fst x) (fst y)" by (simp add: fl_less_iff_not_le)
    with False Cons.prems(1) show ?thesis by (auto intro: fl_le_trans)
  qed
qed simp

lemma sort_starts_ok:
  assumes "\<forall>x \<in> set skip. fst x \<noteq> NaN"
  shows "sort_starts skip = Some (foldr insert_start skip [])"
    and "sorted_wrt (\<lambda>x y. fl_le (fst x) (fst y)) (foldr insert_start skip [])"
proof -
  show "sort_starts skip = Some (foldr insert_start skip [])" using assms by (auto simp: sort_starts_def)
  show "sorted_wrt (\<lambda>x y. fl_le (fst x) (fst y)) (foldr insert_start skip [])"
    using assms by (induction skip) (auto intro!: insert_start_sorted)
qed

lemma skipped_set: "set xs = set ys \<Longrightarrow> skipped xs t = skipped ys t"
  by (simp add: skipped_def)

lemma round64_mono: "x \<le> y \<Longrightarrow> fl_le (round64 x) (round64 y)"
proof -
  assume "x \<le> y"
  then have "round_val 53 (- 1022) x \<le> round_val 53 (- 1022) y" by (intro round_val_mono) simp_all
  then show ?thesis by (auto simp: round64_def round_fl_def Let_def fl_le_def)
qed

lemma div_keeps_order: "fl_less x y \<Longrightarrow> seg_ok (f_div x (Fin 1000), f_div y (Fin 1000))"
proof -
  have r: "round64 z \<noteq> NaN" for z by (simp add: round64_def round_fl_def Let_def)
  have p: "fl_le NInf (round64 z)" "fl_le (round64 z) PInf" for z by (simp_all add: round64_def round_fl_def Let_def fl_le_def)
  show "fl_less x y \<Longrightarrow> seg_ok (f_div x (Fin 1000), f_div y (Fin 1000))"
    by (cases x; cases y) (auto simp: seg_ok_def r p fl_le_def [of NInf PInf] intro!: round64_mono divide_right_mono)
qed

lemma parsed_segment_ok: "parse_skip_segment s = Some x \<Longrightarrow> seg_ok x"
  by (auto simp: parse_skip_segment_def div_keeps_order split: option.splits if_splits)

lemma parsed_ok: "x \<in> set (parse_skip_segments segs) \<Longrightarrow> seg_ok x"
  by (auto simp: parse_skip_segments_def map_filter_def intro: parsed_segment_ok)

text \<open>
  C27: Whatever skip segments the caller sends (malformed, infinite, overlapping, unordered or outside the video), the
  intervals left are never a panic for a video of positive length: they are ascending, non-empty, disjoint, inside the
  video, and a moment of the video lies in one of them exactly when no accepted segment skips it.
\<close>

theorem intervals_are_the_rest:
  assumes "0 < d"
  shows "\<exists>ivs. available_intervals (Fin d) (parse_skip_segments segs) = Some (fin_pairs ivs) \<and> gaps 0 d ivs
     \<and> (\<forall>t. 0 \<le> t \<longrightarrow> t < d \<longrightarrow> (covers ivs t \<longleftrightarrow> \<not> skipped (parse_skip_segments segs) t))"
proof -
  define skip where "skip = parse_skip_segments segs"
  have ok: "\<forall>x \<in> set skip. seg_ok x" using parsed_ok by (auto simp: skip_def)
  then have nn: "\<forall>x \<in> set skip. fst x \<noteq> NaN" by (simp add: seg_ok_def)
  have "skipped (foldr insert_start skip []) t = skipped skip t" for t by (rule skipped_set) simp
  with carve_covers [OF sort_starts_ok(2) [OF nn] _ order.refl _ assms] ok assms
  show ?thesis by (simp add: available_intervals_def sort_starts_ok(1) [OF nn] skip_def [symmetric])
qed

lemma parse_5000: "parse_f64 ''5000'' = Some (Fin 5000)"
proof -
  have t: "is_digit (CHR ''5'')" "digits_val 0 ''5000'' = 5000" by code_simp+
  have n: "parse_number ''5000'' = Some 5000" by (simp add: parse_number_def parse_exp_def t)
  have c: "split_sign ''5000'' = (False, ''5000'')" "map lower_char ''5000'' = ''5000''" by code_simp+
  show ?thesis using round64_int [of 5000] by (simp add: parse_f64_def c n Let_def)
qed

lemma parse_5000_segment: "parse_skip_segment ''-inf:5000'' = Some (NInf, Fin 5)"
proof -
  have "parse_f64 ''-inf'' = Some NInf" by (simp add: parse_f64_def split_sign_def lower_char_def)
  moreover have "split_once (CHR '':'') ''-inf:5000'' = Some (''-inf'', ''5000'')" by code_simp
  ultimately show ?thesis using parse_5000 round64_int [of 5] by (simp add: parse_skip_segment_def)
qed

lemma parse_mixed: "parse_skip_segments [''-inf:5000'', ''x:y'', ''7''] = [(NInf, Fin 5)]"
proof -
  have "split_once (CHR '':'') ''x:y'' = Some (''x'', ''y'')" "split_once (CHR '':'') ''7'' = None" "\<not> is_digit (CHR ''x'')"
    by code_simp+
  moreover from this(3) have "parse_f64 ''x'' = None"
    by (simp add: parse_f64_def split_sign_def lower_char_def parse_number_def)
  ultimately have "parse_skip_segment ''x:y'' = None" "parse_skip_segment ''7'' = None" by (simp_all add: parse_skip_segment_def)
  with parse_5000_segment show ?thesis by (simp add: parse_skip_segments_def map_filter_def)
qed

theorem intervals_are_the_rest_witness:
  "available_intervals (Fin 100) [(NInf, Fin 5)] = Some (fin_pairs [(5, 100)])
   \<and> (\<exists>ivs. available_intervals (Fin 100) [(NInf, Fin 5)] = Some (fin_pairs ivs) \<and> gaps 0 100 ivs
       \<and> (\<forall>t. 0 \<le> t \<longrightarrow> t < 100 \<longrightarrow> (covers ivs t \<longleftrightarrow> \<not> skipped [(NInf, Fin 5)] t)))"
proof
  show "available_intervals (Fin 100) [(NInf, Fin 5)] = Some (fin_pairs [(5, 100)])"
    by (simp add: available_intervals_def sort_starts_def fl_clamp_def fl_bound_def fl_le_def)
qed (use intervals_are_the_rest [of 100 "[''-inf:5000'', ''x:y'', ''7'']"] in \<open>simp add: parse_mixed\<close>)

text \<open>One minute, four frames, the seed of an empty string.\<close>

theorem timestamps_spread_witness:
  "\<exists>xs. jittered_timestamps (Fin 60) 4 [] = map Fin xs \<and> length xs = 4
     \<and> (\<forall>i < 4. \<bar>xs ! i - ideal 60 4 i\<bar> \<le> 26 / 100 * (60 / of_nat 4))
     \<and> (\<forall>x \<in> set xs. 0 < x \<and> x < 60)
     \<and> (\<forall>i. i + 1 < 4 \<longrightarrow> 48 / 100 * (60 / of_nat 4) \<le> xs ! (i + 1) - xs ! i)"
  by (rule timestamps_spread [where seed_hex = "[]"]) (simp_all add: poster_range_def)

end
