(* ===== verification/Poster_Sheet.thy ===== *)
theory Poster_Sheet
  imports Poster_Badges Poster_Sampling
begin

text \<open>
  Putting a poster together: \<^verbatim>\<open>stitch_grid\<close> of \<^verbatim>\<open>crates/poster-gen/src/image_stitcher.rs\<close> and the preview of
  \<^verbatim>\<open>preview.rs\<close>. A picture is written by creating the file and encoding it; the result is the picture.
\<close>

section \<open>Stitching\<close>

text \<open>\<open>sh_resize img w h\<close> is \<^verbatim>\<open>resize_exact\<close>, \<open>sh_create\<close> and \<open>sh_encode\<close> give the error if there is one, \<open>sh_canon\<close> the
  absolute path.\<close>

record sheet_env =
  sh_art :: art
  sh_resize :: "rgba \<Rightarrow> nat \<Rightarrow> nat \<Rightarrow> rgba"
  sh_create :: "string \<Rightarrow> string option"
  sh_encode :: "rgba \<Rightarrow> string option"
  sh_canon :: "string \<Rightarrow> string option"

definition is_transparent :: "theme_colors \<Rightarrow> bool" where
  "is_transparent th \<longleftrightarrow> snd (tc_header_bg th) = 0"

definition canvas :: "art \<Rightarrow> theme_colors \<Rightarrow> grid_layout \<Rightarrow> bool \<Rightarrow> rgba" where
  "canvas ar th l show_ts =
     (let w = canvas_w l; h = canvas_h l show_ts
      in if is_transparent th then blank w h
         else render_logo ar \<lparr>rg_w = w, rg_h = h, rg_at = \<lambda>_ _ k. if k < 3 then channel k (tc_canvas_bg th) else 255\<rparr>
                (gl_icon_area_w l) h)"

definition place_frame :: "sheet_env \<Rightarrow> grid_layout \<Rightarrow> nat \<times> rgba \<Rightarrow> rgba \<Rightarrow> rgba" where
  "place_frame env l f sheet =
     (case f of (idx, frame) \<Rightarrow>
        case cell_origin l (idx mod gl_cols l) (idx div gl_cols l) of (cx, cy) \<Rightarrow>
          ar_overlay (sh_art env) sheet (sh_resize env frame (gl_cell_w l) (gl_cell_h l)) (int cx) (int cy))"

definition place_frames :: "sheet_env \<Rightarrow> grid_layout \<Rightarrow> rgba list \<Rightarrow> rgba \<Rightarrow> rgba" where
  "place_frames env l frames =
     fold (place_frame env l) (takeWhile (\<lambda>(idx, _). idx div gl_cols l < gl_rows l) (enumerate 0 frames))"

definition write_picture :: "sheet_env \<Rightarrow> string \<Rightarrow> rgba \<Rightarrow> string + rgba" where
  "write_picture env path img =
     (case sh_create env path of
        Some e \<Rightarrow> Inl (''Cannot create output file '' @ [CHR 0x27] @ path @ [CHR 0x27] @ '': '' @ e)
      | None \<Rightarrow> (case sh_encode env img of Some e \<Rightarrow> Inl (''WebP encoding failed: '' @ e) | None \<Rightarrow> Inr img))"

definition has_header :: "render_options \<Rightarrow> bool" where
  "has_header opt \<longleftrightarrow> op_video_info_enabled opt \<or> op_branding_enabled opt"

definition has_qr :: "render_options \<Rightarrow> bool" where
  "has_qr opt \<longleftrightarrow> has_header opt \<and> op_branding_enabled opt"

definition finish :: "sheet_env \<Rightarrow> renderer \<Rightarrow> render_options \<Rightarrow> media_info \<Rightarrow> grid_layout \<Rightarrow> fl list \<Rightarrow> rgba \<Rightarrow> rgba" where
  "finish env re opt info l timestamps sheet =
     (let sheet = render (sh_art env) re opt info l timestamps sheet
      in if has_qr opt then render_qr_in_strip (sh_art env) sheet (gl_icon_area_w l) (gl_header_h l) (re_theme re) else sheet)"

definition stitch_grid ::
  "sheet_env \<Rightarrow> renderer \<Rightarrow> render_options \<Rightarrow> media_info \<Rightarrow> rgba list \<Rightarrow> nat \<Rightarrow> nat \<Rightarrow> nat \<Rightarrow> string \<Rightarrow> fl list \<Rightarrow> string + rgba" where
  "stitch_grid env re opt info frames cell_width rows cols path timestamps =
     (case frames of
        [] \<Rightarrow> Inl ''No frames to stitch''
      | first # _ \<Rightarrow>
          let l = stitch_layout rows cols cell_width (rg_w first, rg_h first) (has_header opt) (has_qr opt) (op_timestamp_position opt);
              sheet = place_frames env l frames (canvas (sh_art env) (re_theme re) l (op_show_frame_timestamp opt))
          in write_picture env path (finish env re opt info l timestamps sheet))"

section \<open>The preview\<close>

definition sat8_sub :: "byte \<Rightarrow> nat \<Rightarrow> byte" where "sat8_sub b n = of_nat (unat b - n)"
definition sat8_add :: "byte \<Rightarrow> nat \<Rightarrow> byte" where "sat8_add b n = of_nat (min 255 (unat b + n))"

definition stripes :: "pixel \<Rightarrow> pixel \<times> pixel" where
  "stripes bg =
     (case bg of (r, g, b) \<Rightarrow>
        if 380 < unat r + unat g + unat b
        then ((sat8_sub r 30, sat8_sub g 28, sat8_sub b 25), (sat8_sub r 15, sat8_sub g 13, sat8_sub b 10))
        else ((sat8_add r 18, sat8_add g 18, sat8_add b 22), (sat8_add r 30, sat8_add g 30, sat8_add b 36)))"

definition placeholder :: "theme_colors \<Rightarrow> nat \<Rightarrow> nat \<Rightarrow> nat \<Rightarrow> nat \<Rightarrow> pixel" where
  "placeholder th w h dx dy =
     (if dx = 0 \<or> dx = w - 1 \<or> dy = 0 \<or> dy = h - 1
      then (case tc_accent_color th of (r, g, b) \<Rightarrow> (of_nat (unat r div 4), of_nat (unat g div 4), of_nat (unat b div 4)))
      else if (dx + dy) div 24 mod 2 = 0 then fst (stripes (tc_canvas_bg th)) else snd (stripes (tc_canvas_bg th)))"

text \<open>\<^verbatim>\<open>put_pixel\<close> panics outside the picture: \<open>None\<close>.\<close>

definition put_placeholder :: "theme_colors \<Rightarrow> grid_layout \<Rightarrow> nat \<times> nat \<Rightarrow> rgba \<Rightarrow> rgba option" where
  "put_placeholder th l cell img =
     (case cell_origin l (fst cell) (snd cell) of (cx, cy) \<Rightarrow>
        let w = gl_cell_w l; h = gl_cell_h l
        in if 0 < w \<and> 0 < h \<and> (rg_w img < cx + w \<or> rg_h img < cy + h) then None
           else Some (img\<lparr>rg_at := \<lambda>x y k.
             if cx \<le> x \<and> x < cx + w \<and> cy \<le> y \<and> y < cy + h
             then (if k < 3 then channel k (placeholder th w h (x - cx) (y - cy)) else 255) else rg_at img x y k\<rparr>))"

fun put_all :: "theme_colors \<Rightarrow> grid_layout \<Rightarrow> (nat \<times> nat) list \<Rightarrow> rgba \<Rightarrow> rgba option" where
  "put_all th l [] img = Some img"
| "put_all th l (c # cs) img = Option.bind (put_placeholder th l c img) (put_all th l cs)"

definition sample_media_info :: media_info where
  "sample_media_info =
     \<lparr>mi_filename = map char_of ([77, 121, 32, 65, 110, 105, 109, 101, 32, 240, 159, 142, 172, 32, 83, 48, 49, 69, 48, 49, 32, 227, 128, 144,
        229, 173, 151, 229, 185, 149, 228, 187, 152, 227, 129, 141, 227, 128, 145, 46, 109, 107, 118] :: nat list),
      mi_file_size = ''4.2 GB'', mi_file_size_bytes = 4509715660, mi_resolution = ''1920'' @ times_sign @ ''1080'',
      mi_source_width = 1920, mi_source_height = 1080, mi_fps = round64 (23976 / 1000), mi_video_codec = ''H.265'',
      mi_video_profile = Some ''Main 10'', mi_video_bitrate = Some ''8500 kbps'', mi_bit_depth = Some 10, mi_hdr_type = None,
      mi_colour_space = Some ''bt709'', mi_audio_codec = Some ''AAC'', mi_audio_format = Some ''stereo'',
      mi_audio_bitrate = Some ''192 kbps'', mi_audio_sample_rate = Some 48000, mi_audio_tracks = 1, mi_subtitle_count = 3,
      mi_duration = ''01:23:45'', mi_duration_secs = Fin 5025\<rparr>"

definition preview_picture :: "sheet_env \<Rightarrow> renderer \<Rightarrow> render_options \<Rightarrow> nat \<Rightarrow> nat \<Rightarrow> nat \<Rightarrow> rgba option" where
  "preview_picture env re opt thumb_width rows cols =
     (let l = preview_layout rows cols thumb_width (has_header opt) (has_qr opt) (op_timestamp_position opt);
          timestamps = even_timestamps (Fin 5025) (w32 (rows * cols))
      in map_option (finish env re opt sample_media_info l timestamps)
           (put_all (re_theme re) l [(col, row). row \<leftarrow> [0..<rows], col \<leftarrow> [0..<cols]]
             (canvas (sh_art env) (re_theme re) l (op_show_frame_timestamp opt))))"

definition run_preview ::
  "sheet_env \<Rightarrow> renderer \<Rightarrow> render_options \<Rightarrow> nat \<Rightarrow> nat \<Rightarrow> nat \<Rightarrow> string \<Rightarrow> (string + rgba \<times> string) option" where
  "run_preview env re opt thumb_width rows cols path =
     map_option (\<lambda>img. case write_picture env path img of
                        Inl e \<Rightarrow> Inl e
                      | Inr img \<Rightarrow> Inr (img, ''DONE '' @ (case sh_canon env path of Some p \<Rightarrow> p | None \<Rightarrow> path)))
       (preview_picture env re opt thumb_width rows cols)"

section \<open>Layouts are plain\<close>

lemma scaled_height_bound:
  assumes "w < 2 ^ 22" and "ah < 2 ^ 20" and "0 < aw" and "aw < 2 ^ 20" and "ah \<le> 16 * aw"
  shows "scaled_height w ah aw \<le> 16 * w"
proof -
  have e: "f_of_int (int w) = Fin (of_nat w)" "f_of_int (int ah) = Fin (of_nat ah)" "f_of_int (int aw) = Fin (of_nat aw)"
    using f_of_int_exact [of "int w"] f_of_int_exact [of "int ah"] f_of_int_exact [of "int aw"] assms by simp_all
  have "w * ah \<le> 2 ^ 22 * 2 ^ 20" using assms by (intro mult_mono) simp_all
  then have "int (w * ah) < 2 ^ 53" by (simp del: of_nat_mult)
  then have p: "round64 (of_nat w * of_nat ah) = Fin (of_nat w * of_nat ah)" using round64_int [of "int (w * ah)"] by simp
  define q where "q = (of_nat w * of_nat ah / of_nat aw :: rat)"
  have "(of_nat ah :: rat) \<le> of_nat (16 * aw)" using assms(5) by (simp only: of_nat_le_iff)
  then have "(of_nat ah :: rat) \<le> 16 * of_nat aw" by simp
  then have "of_nat w * of_nat ah \<le> of_nat w * (16 * of_nat aw :: rat)" by (intro mult_left_mono) simp_all
  then have q: "of_int 0 \<le> q" "q \<le> of_int (int (16 * w))" using assms(3) by (simp_all add: q_def divide_le_eq mult.assoc mult.left_commute)
  obtain y where y: "round64 q = Fin y" "of_int 0 \<le> y" "y \<le> of_int (int (16 * w))"
    by (rule round64_within [OF q]) (use assms(1) in simp_all)
  have "(of_nat aw :: rat) \<noteq> 0" using assms(3) by simp
  then have "scaled_height w ah aw = f_to_u32 (f_round (Fin y))"
    using y(1) by (simp add: scaled_height_def e p q_def)
  also have "\<dots> = nat (min (int u32_max) \<lfloor>y + 1 / 2\<rfloor>)" using y(2) by (simp add: trunc_def)
  also have "\<dots> \<le> nat (int (16 * w))"
  proof (intro nat_mono min.coboundedI2)
    have "y + 1 / 2 < of_int (int (16 * w) + 1)" using y(3) by simp
    then show "\<lfloor>y + 1 / 2\<rfloor> \<le> int (16 * w)" by (simp only: floor_less_iff zle_add1_eq_le [symmetric])
  qed
  finally show ?thesis by simp
qed

text \<open>The cells, widened or not, fill the width at most.\<close>

lemma widened_fits:
  assumes "0 < cols" and "cols \<le> 12" and "0 < cw" and "cw \<le> 2 ^ 20" and "strip = 0 \<or> strip = qr_strip_width"
  shows "cw \<le> widened cols cw strip" and "widened cols cw strip < 2 ^ 22" and "icon_area cols cw + strip < 2 ^ 31"
    and "16 + cols * widened cols cw strip + (cols - 1) * 4 \<le> icon_area cols cw + strip"
proof -
  have "cols * cw \<le> 12 * 2 ^ 20" using assms by (intro mult_mono) simp_all
  then have c: "cols * cw \<le> 12582912" by simp
  have s1: "sub32 cols 1 = cols - 1" using assms(1,2) by (intro sub32_id) simp_all
  have area: "icon_area cols cw = 16 + cols * cw + (cols - 1) * 4"
    using c assms(1,2) by (simp add: icon_area_def s1 [unfolded One_nat_def] grid_padding_def cell_gap_def w32_id)
  have st: "strip \<le> 143" using assms(5) by (auto simp: qr_strip_width_def qr_margin_def target_qr_px_def bubble_pad_def)
  show "icon_area cols cw + strip < 2 ^ 31" using c st assms(1,2) by (simp add: area)
  have wid: "widened cols cw strip = (cols * cw + strip) div cols"
  proof (cases "strip = 0")
    case True
    then show ?thesis using assms(1) by (simp add: widened_def)
  next
    case False
    have "w32 (icon_area cols cw + strip) = 16 + cols * cw + (cols - 1) * 4 + strip" using c st assms(1,2) by (simp add: area w32_id)
    moreover have "sub32 (16 + cols * cw + (cols - 1) * 4 + strip) 16 = cols * cw + (cols - 1) * 4 + strip"
      using c st assms(1,2) by (subst sub32_id) simp_all
    moreover have "w32 ((cols - 1) * 4) = (cols - 1) * 4" using assms(2) by (intro w32_id) simp
    moreover have "sub32 (cols * cw + (cols - 1) * 4 + strip) ((cols - 1) * 4) = cols * cw + strip"
      using c st assms(1,2) by (subst sub32_id) simp_all
    ultimately show ?thesis using False assms(1) by (simp add: widened_def s1 [unfolded One_nat_def] grid_padding_def cell_gap_def)
  qed
  have "cols * cw div cols \<le> widened cols cw strip" unfolding wid by (intro div_le_mono) simp
  then show "cw \<le> widened cols cw strip" using assms(1) by simp
  have "widened cols cw strip \<le> cw + 143 div 1"
  proof -
    have "(cols * cw + strip) div cols = cw + strip div cols" using assms(1) by simp
    also have "\<dots> \<le> cw + 143" using st by (meson add_left_mono div_le_dividend order.trans)
    finally show ?thesis unfolding wid by simp
  qed
  then show "widened cols cw strip < 2 ^ 22" using assms(4) by simp
  have "cols * widened cols cw strip \<le> cols * cw + strip" unfolding wid by (rule times_div_less_eq_dividend)
  then show "16 + cols * widened cols cw strip + (cols - 1) * 4 \<le> icon_area cols cw + strip" by (simp add: area)
qed

lemma computed_plain:
  assumes "0 < rows" and "rows \<le> 20" and "0 < cols" and "cols \<le> 12" and "0 < cw" and "cw \<le> 2 ^ 20"
    and "strip = 0 \<or> strip = qr_strip_width" and "0 < h" and "h < 2 ^ 26" and "hh \<in> {0, 144}"
  shows "plain_layout (compute_layout rows cols (widened cols cw strip) h hh pos strip (icon_area cols cw))"
  using assms widened_fits [OF assms(3-7)]
  by (auto simp: plain_layout_def compute_layout_def cell_gap_def grid_padding_def)

lemma stitch_plain:
  assumes "0 < rows" and "rows \<le> 20" and "0 < cols" and "cols \<le> 12" and "0 < cw" and "cw \<le> 2 ^ 20"
    and "0 < aw" and "aw < 2 ^ 20" and "ah < 2 ^ 20" and "ah \<le> 16 * aw"
  shows "plain_layout (stitch_layout rows cols cw (aw, ah) hdr code pos)"
proof -
  define strip where "strip = (if code then qr_strip_width else 0)"
  have st: "strip = 0 \<or> strip = qr_strip_width" by (simp add: strip_def)
  have w: "widened cols cw strip < 2 ^ 22" by (rule widened_fits [OF assms(3-6) st])
  have "scaled_height (widened cols cw strip) ah aw < 2 ^ 26"
    using scaled_height_bound [OF w assms(9,7,8,10)] w by simp
  then have "max (scaled_height (widened cols cw strip) ah aw) 1 < 2 ^ 26" by simp
  moreover have "stitch_layout rows cols cw (aw, ah) hdr code pos =
      compute_layout rows cols (widened cols cw strip) (max (scaled_height (widened cols cw strip) ah aw) 1) (if hdr then 144 else 0) pos strip (icon_area cols cw)"
    using assms(7) by (simp add: stitch_layout_def strip_def header_height_def Let_def)
  ultimately show ?thesis using computed_plain [OF assms(1-6) st] by simp
qed

section \<open>Every frame in its cell\<close>

text \<open>
  \<^verbatim>\<open>overlay\<close>, besides \<open>overlays\<close>, changes nothing outside the upper picture nor under its pixels of alpha 0.
\<close>

definition overlays_only :: "(rgba \<Rightarrow> rgba \<Rightarrow> int \<Rightarrow> int \<Rightarrow> rgba) \<Rightarrow> bool" where
  "overlays_only f \<longleftrightarrow> overlays f \<and>
     (\<forall>c t ox oy x y k. \<not> (ox \<le> int x \<and> int x < ox + int (rg_w t) \<and> oy \<le> int y \<and> int y < oy + int (rg_h t)) \<longrightarrow>
        rg_at (f c t ox oy) x y k = rg_at c x y k) \<and>
     (\<forall>c t cx cy x y k. x < rg_w t \<longrightarrow> y < rg_h t \<longrightarrow> rg_at t x y 3 = 0 \<longrightarrow>
        rg_at (f c t (int cx) (int cy)) (cx + x) (cy + y) k = rg_at c (cx + x) (cy + y) k)"

text \<open>A resized frame has the size asked for; nothing is said of its pixels.\<close>

definition resizes :: "(rgba \<Rightarrow> nat \<Rightarrow> nat \<Rightarrow> rgba) \<Rightarrow> bool" where
  "resizes f \<longleftrightarrow> (\<forall>img w h. rg_w (f img w h) = w \<and> rg_h (f img w h) = h)"

text \<open>
  The picture \<open>out\<close> shows \<open>t\<close> at a position: the exact pixels of \<open>t\<close> where it is opaque, those of the background
  where it is transparent, as a frame that could not be extracted is everywhere.
\<close>

definition shows_at :: "rgba \<Rightarrow> rgba \<Rightarrow> nat \<Rightarrow> nat \<Rightarrow> rgba \<Rightarrow> bool" where
  "shows_at t background cx cy out \<longleftrightarrow>
     (\<forall>x < rg_w t. \<forall>y < rg_h t. \<forall>k < 4.
        (rg_at t x y 3 = 255 \<longrightarrow> rg_at out (cx + x) (cy + y) k = rg_at t x y k) \<and>
        (rg_at t x y 3 = 0 \<longrightarrow> rg_at out (cx + x) (cy + y) k = rg_at background (cx + x) (cy + y) k))"

lemma shows_at_cong:
  assumes "\<And>x y k. x < rg_w t \<Longrightarrow> y < rg_h t \<Longrightarrow> rg_at out' (cx + x) (cy + y) k = rg_at out (cx + x) (cy + y) k"
    and "shows_at t background cx cy out"
  shows "shows_at t background cx cy out'"
  using assms by (simp add: shows_at_def)

lemma shows_at_background:
  assumes "\<And>x y k. x < rg_w t \<Longrightarrow> y < rg_h t \<Longrightarrow> rg_at background' (cx + x) (cy + y) k = rg_at background (cx + x) (cy + y) k"
    and "shows_at t background' cx cy out"
  shows "shows_at t background cx cy out"
  using assms by (simp add: shows_at_def)

lemma place_frame_local:
  assumes "overlays_only (ar_overlay (sh_art env))" and "resizes (sh_resize env)"
  shows "paints (in_cell l (i mod gl_cols l) (i div gl_cols l)) img (place_frame env l (i, frame) img)"
  using assms
  by (auto simp: paints_def place_frame_def in_cell_def overlays_only_def overlays_def resizes_def split: prod.split)

lemma place_frame_shows:
  assumes "overlays_only (ar_overlay (sh_art env))" and "resizes (sh_resize env)"
    and "cell_origin l (i mod gl_cols l) (i div gl_cols l) = (cx, cy)"
    and "cx + gl_cell_w l \<le> rg_w img" and "cy + gl_cell_h l \<le> rg_h img"
  shows "shows_at (sh_resize env frame (gl_cell_w l) (gl_cell_h l)) img cx cy (place_frame env l (i, frame) img)"
proof -
  let ?t = "sh_resize env frame (gl_cell_w l) (gl_cell_h l)" and ?f = "ar_overlay (sh_art env)"
  have t: "rg_w ?t = gl_cell_w l" "rg_h ?t = gl_cell_h l" using assms(2) by (simp_all add: resizes_def)
  have p: "place_frame env l (i, frame) img = ?f img ?t (int cx) (int cy)" by (simp add: place_frame_def assms(3))
  have "rg_at (?f img ?t (int cx) (int cy)) (cx + x) (cy + y) k = rg_at ?t x y k"
    if "x < rg_w ?t" "y < rg_h ?t" "rg_at ?t x y 3 = 255" "k < 4" for x y k
  proof -
    have "overlays ?f" using assms(1) by (simp add: overlays_only_def)
    then have "rg_at (?f img ?t (int cx) (int cy)) (nat (int cx + int x)) (nat (int cy + int y)) k = rg_at ?t x y k"
      unfolding overlays_def using t assms(4,5) that by simp
    then show ?thesis by (simp add: nat_add_distrib flip: of_nat_add)
  qed
  then show ?thesis using assms(1) by (simp add: shows_at_def p overlays_only_def)
qed

text \<open>Frames placed in distinct cells: each cell shows its frame, all other cells are as they were.\<close>

lemma frames_placed:
  assumes "overlays_only (ar_overlay (sh_art env))" and "resizes (sh_resize env)" and "plain_layout l"
    and "distinct (map fst fs)" and "\<forall>(i, f) \<in> set fs. i < gl_rows l * gl_cols l"
    and "rg_w img = canvas_w l" and "rg_h img = canvas_h l ts"
  shows "rg_w (fold (place_frame env l) fs img) = canvas_w l \<and> rg_h (fold (place_frame env l) fs img) = canvas_h l ts
     \<and> (\<forall>i frame cx cy. (i, frame) \<in> set fs \<longrightarrow> cell_origin l (i mod gl_cols l) (i div gl_cols l) = (cx, cy) \<longrightarrow>
           shows_at (sh_resize env frame (gl_cell_w l) (gl_cell_h l)) img cx cy (fold (place_frame env l) fs img))
     \<and> (\<forall>i x y k. i < gl_rows l * gl_cols l \<longrightarrow> i \<notin> fst ` set fs \<longrightarrow> in_cell l (i mod gl_cols l) (i div gl_cols l) x y \<longrightarrow>
           rg_at (fold (place_frame env l) fs img) x y k = rg_at img x y k)"
  using assms(4-7)
proof (induction fs arbitrary: img rule: rev_induct)
  case (snoc f fs)
  obtain j fr where f: "f = (j, fr)" by (cases f)
  define mid where "mid = fold (place_frame env l) fs img"
  let ?t = "\<lambda>frame. sh_resize env frame (gl_cell_w l) (gl_cell_h l)"
  have IH: "rg_w mid = canvas_w l" "rg_h mid = canvas_h l ts"
    "\<And>i frame cx cy. (i, frame) \<in> set fs \<Longrightarrow> cell_origin l (i mod gl_cols l) (i div gl_cols l) = (cx, cy) \<Longrightarrow>
        shows_at (?t frame) img cx cy mid"
    "\<And>i x y k. i < gl_rows l * gl_cols l \<Longrightarrow> i \<notin> fst ` set fs \<Longrightarrow> in_cell l (i mod gl_cols l) (i div gl_cols l) x y \<Longrightarrow>
        rg_at mid x y k = rg_at img x y k"
    using snoc.IH [of img] snoc.prems by (auto simp: mid_def)
  have cell: "i mod gl_cols l < gl_cols l" "i div gl_cols l < gl_rows l" if "i < gl_rows l * gl_cols l" for i
    using that assms(3) by (simp_all add: plain_layout_def div_less_iff_less_mult)
  have j: "j < gl_rows l * gl_cols l" "j \<notin> fst ` set fs" using snoc.prems(1,2) by (auto simp: f)
  have out: "fold (place_frame env l) (fs @ [f]) img = place_frame env l (j, fr) mid" by (simp add: mid_def f)
  have size: "rg_w (place_frame env l (j, fr) mid) = canvas_w l" "rg_h (place_frame env l (j, fr) mid) = canvas_h l ts"
    using paints_size [OF place_frame_local [OF assms(1,2), where l = l and i = j and img = mid and frame = fr]] IH by simp_all
  have ts: "rg_w (?t frame) = gl_cell_w l" "rg_h (?t frame) = gl_cell_h l" for frame using assms(2) by (simp_all add: resizes_def)
  have other: "rg_at (place_frame env l (j, fr) mid) x y k = rg_at mid x y k"
    if i: "i < gl_rows l * gl_cols l" "i \<noteq> j" "in_cell l (i mod gl_cols l) (i div gl_cols l) x y" for i x y k
  proof -
    have "\<not> (i mod gl_cols l = j mod gl_cols l \<and> i div gl_cols l = j div gl_cols l)"
      using i(2) by (metis div_mult_mod_eq)
    then have "\<not> in_cell l (j mod gl_cols l) (j div gl_cols l) x y"
      using cells_disjoint [OF assms(3) cell [OF i(1)] cell [OF j(1)] i(3)] by blast
    then show ?thesis
      using place_frame_local [OF assms(1,2), where l = l and i = j and img = mid and frame = fr] by (simp add: paints_def)
  qed
  have inside: "in_cell l (i mod gl_cols l) (i div gl_cols l) (cx + x) (cy + y)"
    if "cell_origin l (i mod gl_cols l) (i div gl_cols l) = (cx, cy)" "x < gl_cell_w l" "y < gl_cell_h l" for i cx cy x y
    using that by (simp add: in_cell_def)
  have "shows_at (?t frame) img cx cy (place_frame env l (j, fr) mid)"
    if i: "(i, frame) \<in> set (fs @ [f])" "cell_origin l (i mod gl_cols l) (i div gl_cols l) = (cx, cy)" for i frame cx cy
  proof (cases "i = j")
    case True
    with i(1) snoc.prems(1) have "frame = fr" by (force simp: f)
    note c = cell_inside [OF assms(3) cell [OF j(1)] i(2) [unfolded True]]
    have "shows_at (?t fr) mid cx cy (place_frame env l (j, fr) mid)"
      by (rule place_frame_shows [OF assms(1,2) i(2) [unfolded True]]) (use c(1) c(3) [of ts] IH in simp_all)
    then show ?thesis unfolding \<open>frame = fr\<close>
      by (rule shows_at_background [rotated]) (use IH(4) [OF j inside [OF i(2) [unfolded True]]] in \<open>simp add: ts\<close>)
  next
    case False
    with i(1) have mem: "(i, frame) \<in> set fs" by (auto simp: f)
    then have "i < gl_rows l * gl_cols l" using snoc.prems(2) by auto
    then show ?thesis
      by (intro shows_at_cong [OF _ IH(3) [OF mem i(2)]] other [OF _ False] inside [OF i(2)]) (simp_all add: ts)
  qed
  moreover have "rg_at (place_frame env l (j, fr) mid) x y k = rg_at img x y k"
    if "i < gl_rows l * gl_cols l" "i \<notin> fst ` set (fs @ [f])" "in_cell l (i mod gl_cols l) (i div gl_cols l) x y" for i x y k
    using that other [of i x y k] IH(4) [of i x y k] by (simp add: f)
  ultimately show ?case using size unfolding out by blast
qed simp

definition code_ok :: "art \<Rightarrow> bool" where
  "code_ok ar \<longleftrightarrow> (case ar_code ar of None \<Rightarrow> True | Some (n, _) \<Rightarrow> 7 \<le> n \<and> n \<le> 177)
     \<and> (ar_logo ar = None \<or> ar_logo ar = Some (Fin 512, Fin 512))"

definition without_fonts :: "renderer \<Rightarrow> bool" where
  "without_fonts re \<longleftrightarrow> re_font re = None \<and> re_latin re = None \<and> re_cjk re = None \<and> re_ts_font re = None"

lemma code_rows:
  assumes "code_ok ar" and "strip_x < 2 ^ 21"
  shows "paints (rows_of 0 144) img (render_qr_in_strip ar img strip_x 144 th)"
proof (cases "ar_code ar")
  case None
  then show ?thesis by (simp add: render_qr_in_strip_def)
next
  case (Some nd)
  obtain n dark where nd: "nd = (n, dark)" by (cases nd)
  have "paints (in_rect (strip_x + 10) ((144 - 123) div 2) (qr_strip_width - 20) 123) img (render_qr_in_strip ar img strip_x 144 th)"
    using code_stays_in_bubble [of ar n dark strip_x 144 img th] assms Some by (simp add: nd code_ok_def)
  then show ?thesis by (rule paints_mono) (auto simp: in_rect_def rows_of_def)
qed

lemma finish_rows:
  assumes "without_fonts re" and "code_ok (sh_art env)" and "\<not> op_show_frame_timestamp opt"
    and "gl_header_h l = (if has_header opt then 144 else 0)" and "gl_icon_area_w l < 2 ^ 21"
  shows "paints (rows_of 0 (gl_header_h l)) img (finish env re opt info l timestamps img)"
proof (cases "has_header opt")
  case False
  with assms(3) show ?thesis by (simp add: finish_def has_qr_def render_def has_header_def draw_badges_def)
next
  case True
  have re: "re_font re = None" "re_latin re = None" "re_cjk re = None" and lg: "ar_logo (sh_art env) = None \<or> ar_logo (sh_art env) = Some (Fin 512, Fin 512)"
    using assms(1,2) by (simp_all add: without_fonts_def code_ok_def)
  have h: "gl_header_h l = 144" using True assms(4) by simp
  define mid where "mid = render (sh_art env) re opt info l timestamps img"
  have "paints (rows_of 0 144) img mid"
    using header_rows [OF re h lg, where opt = opt and info = info and img = img] assms(3) by (simp add: mid_def render_def draw_badges_def Let_def)
  moreover have "paints (rows_of 0 144) mid (finish env re opt info l timestamps img)"
    using code_rows [OF assms(2,5)] by (simp add: finish_def mid_def h Let_def)
  ultimately show ?thesis unfolding h by (rule paints_trans)
qed


text \<open>An overlay that leaves the lower picture alone under transparent pixels and replaces it elsewhere.\<close>

definition demo_overlay :: "rgba \<Rightarrow> rgba \<Rightarrow> int \<Rightarrow> int \<Rightarrow> rgba" where
  "demo_overlay c t ox oy =
     c\<lparr>rg_at := \<lambda>x y. let u = nat (int x - ox); v = nat (int y - oy)
                 in if ox \<le> int x \<and> oy \<le> int y \<and> in_rgba t u v \<and> rg_at t u v 3 \<noteq> 0 then rg_at t u v else rg_at c x y\<rparr>"

definition demo_sheet :: sheet_env where
  "demo_sheet =
     \<lparr>sh_art = demo_art\<lparr>ar_overlay := demo_overlay\<rparr>,
      sh_resize = \<lambda>img w h. \<lparr>rg_w = w, rg_h = h, rg_at = \<lambda>x y k. rg_at img 0 0 k\<rparr>,
      sh_create = \<lambda>_. None, sh_encode = \<lambda>_. None, sh_canon = \<lambda>_. None\<rparr>"

lemma demo_overlays_only: "overlays_only demo_overlay"
  unfolding overlays_only_def overlays_def by (auto simp: demo_overlay_def in_rgba_def Let_def)


section \<open>Sizes\<close>

lemma sized_refl [simp]: "sized a a"
  by (simp add: sized_iff)

lemma sized_trans: "sized a b \<Longrightarrow> sized b c \<Longrightarrow> sized a c"
  by (simp add: sized_iff)

lemma sized_fold: "(\<And>x a. sized a (f x a)) \<Longrightarrow> sized a (fold f xs a)"
  unfolding sized_def by (rule paints_fold)

lemma sized_branding_from: "sized img (draw_branding_from em re s cx baseline scale_px color img)"
proof (induction s arbitrary: cx img)
  case (Cons c cs)
  have step: "sized img (fst (case or_else (glyph_in a c) (glyph_in b c) of
      Some (f, scale, og) \<Rightarrow> (draw_outline og cx baseline color img, advance f scale c)
    | None \<Rightarrow> draw_emoji em g (g_of_nat scale_px) baseline cx c h img))" for a b g h
    using sized_outline sized_emoji by (auto split: option.split prod.split)
  show ?case
    using Cons.IH sized_trans [OF step Cons.IH] step
    by (auto simp: Let_def case_prod_beta split: option.split)
qed simp

lemma sized_brand: "sized img (draw_brand ar re opt l img)"
proof -
  have "sized a (render_logo_at ar a x y side op)" for a x y side op
    using paints_sized [OF paints_over_logo] by (simp add: render_logo_at_def Let_def split: option.split)
  then show ?thesis unfolding draw_brand_def Let_def draw_text_mixed_branding_def by (rule sized_trans [OF sized_branding_from])
qed

lemma sized_row: "sized img (info_row ar re opt color label s y img)"
  unfolding info_row_def draw_row_def Let_def by (intro sized_trans [OF sized_trans [OF sized_text sized_text] sized_text])

lemma sized_name_row: "sized img (fst (draw_name_row ar re opt info l y img))"
  by (simp add: draw_name_row_def sized_row)

lemma sized_size_row: "sized (fst st) (fst (draw_size_row ar re opt info l st))"
  using sized_row sized_text by (auto simp: draw_size_row_def split: prod.split option.split)

lemma sized_video_row: "sized (fst st) (fst (draw_video_row ar re opt info l st))"
  using sized_row by (auto simp: draw_video_row_def split: prod.split)

lemma sized_audio_row: "sized (fst st) (draw_audio_row ar re opt info l st)"
  using sized_row by (auto simp: draw_audio_row_def split: prod.split option.split)

lemma sized_info: "sized img (draw_info ar re opt info l img)"
  unfolding draw_info_def
  by (rule sized_trans [OF sized_trans [OF sized_trans [OF sized_name_row sized_size_row] sized_video_row] sized_audio_row])

lemma sized_overlay: "overlays f \<Longrightarrow> sized c (f c t ox oy)"
  by (simp add: overlays_def sized_iff)

lemma sized_badges:
  assumes "overlays (ar_overlay ar)"
  shows "sized img (draw_badges ar re opt l timestamps img)"
proof -
  have "sized a (draw_badge ar re opt l ts cell a)" for a ts cell
    using sized_overlay [OF assms] by (simp add: draw_badge_def stamp_timestamp_badge_def Let_def split: option.split prod.split)
  then show ?thesis by (auto simp: draw_badges_def intro!: sized_fold split: prod.split)
qed

lemma sized_render:
  assumes "overlays (ar_overlay ar)"
  shows "sized img (render ar re opt info l timestamps img)"
proof -
  define a where "a = fill_rect_alpha img 0 0 (rg_w img) (gl_header_h l) (tc_header_bg (re_theme re))"
  define b where "b = (if has_brand opt then draw_brand ar re opt l a else a)"
  define c where "c = (if op_video_info_enabled opt then draw_info ar re opt info l b else b)"
  have "sized img a" unfolding a_def by (rule paints_sized [OF paints_fill])
  moreover have "sized a b" using sized_brand by (simp add: b_def)
  moreover have "sized b c" using sized_info by (simp add: c_def)
  ultimately have "sized img c" by (simp add: sized_iff)
  moreover have "render ar re opt info l timestamps img =
      draw_badges ar re opt l timestamps (if \<not> op_video_info_enabled opt \<and> \<not> op_branding_enabled opt then img else c)"
    by (simp add: render_def a_def b_def c_def Let_def)
  ultimately show ?thesis using sized_badges [OF assms, of _ re opt l timestamps] by (auto simp: sized_iff)
qed

lemma sized_code: "sized img (render_qr_in_strip ar img strip_x header_h th)"
proof -
  have fill: "sized a (fill_covered cov al x y w h color mw mh a)" for a cov al x y w h color mw mh
    by (simp add: sized_iff fill_covered_def)
  have module: "sized a (draw_module th n qx qy hh m a)" for a n qx qy hh m
    by (simp add: sized_iff draw_module_def split: prod.split)
  have finder: "sized a (draw_finder th n qx qy hh m a)" for a n qx qy hh m
    unfolding draw_finder_def fill_4r_def Let_def
    by (simp split: prod.split) (intro allI impI sized_trans [OF sized_trans [OF fill fill] fill])
  have logo: "sized a (render_logo_tinted ar a x y side color)" for a x y side color
    using paints_sized [OF paints_over_logo] by (simp add: render_logo_tinted_def Let_def split: option.split)
  show ?thesis
  proof (cases "ar_code ar")
    case None
    then show ?thesis by (simp add: render_qr_in_strip_def)
  next
    case (Some nd)
    obtain n dark where nd: "nd = (n, dark)" by (cases nd)
    show ?thesis unfolding render_qr_in_strip_def Let_def fill_rounded_rect_blend_def Some nd option.case case_prod_conv
      by (intro sized_trans [OF sized_trans [OF sized_trans [OF fill sized_fold [OF module]] sized_fold [OF finder]] logo])
  qed
qed

lemma sized_finish:
  assumes "overlays (ar_overlay (sh_art env))"
  shows "sized img (finish env re opt info l timestamps img)"
  using sized_trans [OF sized_render [OF assms] sized_code] sized_render [OF assms] by (simp add: finish_def Let_def)

section \<open>The preview is always drawn\<close>

lemma preview_plain:
  assumes "0 < rows" and "rows \<le> 20" and "0 < cols" and "cols \<le> 12"
  shows "plain_layout (preview_layout rows cols thumb_width hdr code pos)"
    and "gl_rows (preview_layout rows cols thumb_width hdr code pos) = rows"
    and "gl_cols (preview_layout rows cols thumb_width hdr code pos) = cols"
proof -
  define cw where "cw = max 80 (min 800 thumb_width)"
  define ch where "ch = w32 (cw * 9) div 16"
  define strip where "strip = (if code then qr_strip_width else 0)"
  have cw: "80 \<le> cw" "cw \<le> 800" by (simp_all add: cw_def)
  have st: "strip = 0 \<or> strip = qr_strip_width" by (simp add: strip_def)
  have ch: "ch \<le> 16 * cw" "ch < 2 ^ 20" using cw by (simp_all add: ch_def w32_id)
  have w: "widened cols cw strip < 2 ^ 22" by (rule widened_fits [OF assms(3,4) _ _ st]) (use cw in simp_all)
  have "scaled_height (widened cols cw strip) ch cw \<le> 16 * widened cols cw strip"
    by (rule scaled_height_bound [OF w ch(2) _ _ ch(1)]) (use cw in simp_all)
  with w have "scaled_height (widened cols cw strip) ch cw < 2 ^ 26" by simp
  then have "max (scaled_height (widened cols cw strip) ch cw) 1 < 2 ^ 26" by simp
  moreover have e: "preview_layout rows cols thumb_width hdr code pos =
      compute_layout rows cols (widened cols cw strip) (max (scaled_height (widened cols cw strip) ch cw) 1) (if hdr then 144 else 0) pos strip (icon_area cols cw)"
  proof -
    have "0 < cw" using cw by simp
    then show ?thesis unfolding preview_layout_def Let_def cw_def [symmetric] ch_def [symmetric] strip_def [symmetric] header_height_def
      by (simp only: if_True)
  qed
  moreover have "0 < cw" "cw \<le> 2 ^ 20" using cw by simp_all
  ultimately show "plain_layout (preview_layout rows cols thumb_width hdr code pos)"
    unfolding e by (intro computed_plain [OF assms _ _ st]) simp_all
  show "gl_rows (preview_layout rows cols thumb_width hdr code pos) = rows" "gl_cols (preview_layout rows cols thumb_width hdr code pos) = cols"
    unfolding e by (simp_all add: compute_layout_def)
qed

lemma put_all_total:
  assumes "plain_layout l" and "rg_w img = canvas_w l" and "rg_h img = canvas_h l ts"
    and "\<forall>(col, row) \<in> set cells. col < gl_cols l \<and> row < gl_rows l"
  shows "\<exists>out. put_all th l cells img = Some out \<and> sized img out"
  using assms(2-4)
proof (induction cells arbitrary: img)
  case (Cons c cells)
  obtain col row where c: "c = (col, row)" by (cases c)
  obtain cx cy where o: "cell_origin l col row = (cx, cy)" by (cases "cell_origin l col row")
  note i = cell_inside [OF assms(1) _ _ o]
  have "col < gl_cols l" "row < gl_rows l" using Cons.prems(3) by (simp_all add: c)
  with i(1) i(3) [of ts] Cons.prems(1,2) obtain next_img where n: "put_placeholder th l c img = Some next_img" "sized img next_img"
    by (simp add: put_placeholder_def c o Let_def sized_iff)
  have "rg_w next_img = canvas_w l" "rg_h next_img = canvas_h l ts" using n(2) Cons.prems(1,2) by (simp_all add: sized_iff)
  from Cons.IH [OF this] Cons.prems(3) obtain out where "put_all th l cells next_img = Some out" "sized next_img out" by auto
  with n show ?case by (auto intro: sized_trans)
qed simp

text \<open>
  C39: The preview can always be drawn. For every grid of up to twenty rows and twelve columns, every thumbnail width, theme,
  font and option, no pixel is put outside the picture (which would abort the program), and whatever the fonts draw, the
  picture that is written has the size of the canvas.
\<close>

theorem preview_drawn:
  assumes "0 < rows" and "rows \<le> 20" and "0 < cols" and "cols \<le> 12" and "overlays (ar_overlay (sh_art env))"
    and "l = preview_layout rows cols thumb_width (has_header opt) (has_qr opt) (op_timestamp_position opt)"
  shows "\<exists>img. preview_picture env re opt thumb_width rows cols = Some img
     \<and> rg_w img = canvas_w l \<and> rg_h img = canvas_h l (op_show_frame_timestamp opt)"
proof -
  have plain: "plain_layout l" and rc: "gl_rows l = rows" "gl_cols l = cols"
    unfolding assms(6) by (rule preview_plain [OF assms(1-4)])+
  define base where "base = canvas (sh_art env) (re_theme re) l (op_show_frame_timestamp opt)"
  have size: "rg_w base = canvas_w l" "rg_h base = canvas_h l (op_show_frame_timestamp opt)"
    by (auto simp: base_def canvas_def blank_def render_logo_def over_logo_def Let_def split: option.split)
  obtain out where out: "put_all (re_theme re) l [(col, row). row \<leftarrow> [0..<rows], col \<leftarrow> [0..<cols]] base = Some out" "sized base out"
    using put_all_total [OF plain size, of "[(col, row). row \<leftarrow> [0..<rows], col \<leftarrow> [0..<cols]]"] rc by fastforce
  have "preview_picture env re opt thumb_width rows cols =
      Some (finish env re opt sample_media_info l (even_timestamps (Fin 5025) (w32 (rows * cols))) out)"
    using out(1) by (simp add: preview_picture_def base_def assms(6) Let_def)
  moreover have "sized base (finish env re opt sample_media_info l ts out)" for ts
    by (rule sized_trans [OF out(2) sized_finish [OF assms(5)]])
  ultimately show ?thesis using size by (simp add: sized_iff)
qed

theorem preview_drawn_witness:
  "\<exists>img. preview_picture demo_sheet plain_renderer all_options 320 3 2 = Some img \<and> 0 < rg_w img"
proof -
  define l where "l = preview_layout 3 2 320 (has_header all_options) (has_qr all_options) (op_timestamp_position all_options)"
  have o: "overlays (ar_overlay (sh_art demo_sheet))"
    using demo_overlays_only by (simp add: demo_sheet_def demo_art_def overlays_only_def)
  have "plain_layout l" unfolding l_def by (rule preview_plain) simp_all
  then have "16 + gl_cols l * gl_cell_w l + (gl_cols l - 1) * 4 \<le> canvas_w l" using plain_height(2) [of l] by (simp add: plain_layout_def)
  then have "0 < canvas_w l" by linarith
  with preview_drawn [OF _ _ _ _ o l_def, of plain_renderer] show ?thesis by auto
qed

end
