(* ===== verification/Poster_Run.thy ===== *)
theory Poster_Run
  imports Poster_Sheet "HOL-Library.Multiset"
begin

text \<open>
  A whole run of the poster generator: extraction of frames by parallel workers (\<^verbatim>\<open>frame_extractor.rs\<close>), the lines on
  standard output (\<^verbatim>\<open>ipc.rs\<close>), \<^verbatim>\<open>run_generate\<close> and \<^verbatim>\<open>run_preview_cmd\<close> (\<^verbatim>\<open>run.rs\<close>), the command line as it
  is parsed (\<^verbatim>\<open>cli.rs\<close>) and the choice between the commands (\<^verbatim>\<open>main.rs\<close>), all in \<^verbatim>\<open>crates/poster-gen/src\<close>.
\<close>

section \<open>One frame\<close>

text \<open>\<open>fx_spawn\<close> runs \<^verbatim>\<open>ffmpeg\<close> with arguments: exit code and output; \<open>fx_decode\<close> is \<^verbatim>\<open>image::load_from_memory\<close>.\<close>

record extract_env =
  fx_spawn :: "string \<Rightarrow> string list \<Rightarrow> string + int option \<times> string"
  fx_decode :: "string \<Rightarrow> string + rgba"

definition format_timestamp :: "fl \<Rightarrow> string" where
  "format_timestamp secs =
     (let whole = f_to_u64 secs; ms = f_to_u64 (f_mul (f_sub secs (f_of_int (int whole))) (Fin 1000))
      in clock whole @ ''.'' @ show_pad 3 (int ms))"

definition extract_args :: "string \<Rightarrow> fl \<Rightarrow> nat \<Rightarrow> string list" where
  "extract_args input secs thumb_width =
     [''-ss'', format_timestamp secs, ''-i'', input, ''-frames:v'', ''1'', ''-vf'', ''scale='' @ show_nat thumb_width @ '':-1'',
      ''-f'', ''image2'', ''-vcodec'', ''png'', ''pipe:1'']"

definition extract_frame :: "extract_env \<Rightarrow> string \<Rightarrow> string \<Rightarrow> fl \<Rightarrow> nat \<Rightarrow> string + rgba" where
  "extract_frame fx ffmpeg_path input secs thumb_width =
     (case fx_spawn fx ffmpeg_path (extract_args input secs thumb_width) of
        Inl e \<Rightarrow> Inl (''Failed to spawn ffmpeg: '' @ e)
      | Inr (code, out) \<Rightarrow>
          if code \<noteq> Some 0 \<and> out = []
          then Inl (''ffmpeg failed for timestamp '' @ show_fixed 3 secs @ ''s (exit code: '' @ show_code code @ '')'')
          else (case fx_decode fx out of
                  Inl e \<Rightarrow> Inl (''Failed to decode frame at '' @ show_fixed 3 secs @ ''s: '' @ e)
                | Inr img \<Rightarrow> Inr img))"

section \<open>The workers\<close>

text \<open>
  The indexes still to be extracted, the shared counter, the workers that have counted their frame and not yet reported it
  (index and number), and the numbers reported so far. Counting holds the lock, reporting does not.
\<close>

record workers =
  wk_todo :: "nat list"
  wk_counter :: nat
  wk_counted :: "(nat \<times> nat) list"
  wk_reported :: "nat list"

definition workers_init :: "nat \<Rightarrow> workers" where
  "workers_init n = \<lparr>wk_todo = [0..<n], wk_counter = 0, wk_counted = [], wk_reported = []\<rparr>"

inductive worker_step :: "workers \<Rightarrow> workers \<Rightarrow> bool" where
  count: "i \<in> set (wk_todo s) \<Longrightarrow>
    worker_step s (s\<lparr>wk_todo := remove1 i (wk_todo s), wk_counter := wk_counter s + 1,
                     wk_counted := (i, wk_counter s + 1) # wk_counted s\<rparr>)"
| report: "(i, k) \<in> set (wk_counted s) \<Longrightarrow>
    worker_step s (s\<lparr>wk_counted := remove1 (i, k) (wk_counted s), wk_reported := wk_reported s @ [k]\<rparr>)"

inductive_cases worker_stepE: "worker_step s t"

abbreviation worker_steps :: "workers \<Rightarrow> workers \<Rightarrow> bool" where
  "worker_steps \<equiv> worker_step\<^sup>*\<^sup>*"

definition workers_done :: "workers \<Rightarrow> bool" where
  "workers_done s \<longleftrightarrow> wk_todo s = [] \<and> wk_counted s = []"

section \<open>A run\<close>

record generate_args =
  ga_ffmpeg_path :: string
  ga_input :: "string option"
  ga_output :: "string option"
  ga_rows :: nat
  ga_cols :: nat
  ga_seed :: "string option"
  ga_mode :: string
  ga_font_path :: "string option"
  ga_latin_path :: "string option"
  ga_cjk_path :: "string option"
  ga_ts_path :: "string option"
  ga_thumb_width :: nat
  ga_color_theme :: string
  ga_show_timestamp :: bool
  ga_branding_text :: string
  ga_no_branding :: bool
  ga_no_video_info :: bool
  ga_no_file_size :: bool
  ga_no_resolution_fps :: bool
  ga_no_video_encoding :: bool
  ga_no_audio_encoding :: bool
  ga_no_duration :: bool
  ga_no_subtitles :: bool
  ga_lang :: string
  ga_timestamp_position :: timestamp_position
  ga_no_timestamp_bg :: bool
  ga_timestamp_shadow :: bool
  ga_timestamp_font_scale :: fl
  ga_skip_segment :: "string list"

definition options_of :: "generate_args \<Rightarrow> render_options" where
  "options_of a =
     \<lparr>op_branding_enabled = \<not> ga_no_branding a, op_branding_text = ga_branding_text a, op_video_info_enabled = \<not> ga_no_video_info a,
      op_show_file_size = \<not> ga_no_file_size a, op_show_resolution_fps = \<not> ga_no_resolution_fps a,
      op_show_video_encoding = \<not> ga_no_video_encoding a, op_show_audio_encoding = \<not> ga_no_audio_encoding a,
      op_show_duration = \<not> ga_no_duration a, op_show_subtitles = \<not> ga_no_subtitles a,
      op_show_frame_timestamp = ga_show_timestamp a, op_timestamp_bg = \<not> ga_no_timestamp_bg a,
      op_timestamp_shadow = ga_timestamp_shadow a, op_timestamp_font_scale = ga_timestamp_font_scale a, op_lang = ga_lang a,
      op_timestamp_position = ga_timestamp_position a\<rparr>"

record generate_env =
  ge_probe :: probe_env
  ge_extract :: extract_env
  ge_fonts :: font_files
  ge_sheet :: sheet_env
  ge_info_json :: "media_info \<Rightarrow> string + string"

definition grid_rows :: "generate_args \<Rightarrow> nat" where
  "grid_rows a = max 1 (min 20 (ga_rows a))"

definition grid_cols :: "generate_args \<Rightarrow> media_info \<Rightarrow> nat" where
  "grid_cols a info =
     (let cols = max 1 (min 12 (ga_cols a)); has_header = \<not> ga_no_branding a \<or> \<not> ga_no_video_info a;
          is_portrait = mi_source_width info < mi_source_height info
      in if is_portrait \<and> has_header then max cols 3 else cols)"

definition thumb_width :: "generate_args \<Rightarrow> media_info \<Rightarrow> nat" where
  "thumb_width a info = (if 0 < mi_source_width info then min (ga_thumb_width a) (mi_source_width info) else ga_thumb_width a)"

definition timestamps_of :: "generate_args \<Rightarrow> media_info \<Rightarrow> fl list option" where
  "timestamps_of a info =
     (let d = mi_duration_secs info; n = grid_rows a * grid_cols a info;
          ts = (if ga_mode a = ''random'' then jittered_timestamps d n (case ga_seed a of Some s \<Rightarrow> s | None \<Rightarrow> [])
                else even_timestamps d n)
      in apply_skip ts d (parse_skip_segments (ga_skip_segment a)))"

text \<open>Results sorted by index; a blank picture for a frame that failed.\<close>

definition frame_or_blank :: "nat \<Rightarrow> string + rgba \<Rightarrow> rgba" where
  "frame_or_blank width r = (case r of Inr img \<Rightarrow> img | Inl _ \<Rightarrow> blank width (w32 (width * 9) div 16))"

definition frames_of :: "generate_env \<Rightarrow> generate_args \<Rightarrow> string \<Rightarrow> media_info \<Rightarrow> fl list \<Rightarrow> rgba list" where
  "frames_of env a input info ts =
     (let w = thumb_width a info
      in map (\<lambda>t. frame_or_blank w (extract_frame (ge_extract env) (ga_ffmpeg_path a) input t w)) ts)"

definition progress_line :: "nat \<Rightarrow> nat \<Rightarrow> string" where
  "progress_line n k = ''PROGRESS '' @ show_nat k @ ''/'' @ show_nat n"

definition media_info_line :: "string \<Rightarrow> string" where "media_info_line s = ''MEDIA_INFO '' @ s"

definition done_line :: "string \<Rightarrow> string" where "done_line p = ''DONE '' @ p"

text \<open>
  The lines written and the picture or the error. \<open>reported\<close> are the numbers the workers report, in their order; \<open>None\<close>
  is a panic.
\<close>

definition run_generate :: "generate_env \<Rightarrow> generate_args \<Rightarrow> nat list \<Rightarrow> (string list \<times> (string + rgba)) option" where
  "run_generate env a reported =
     (case (ga_input a, ga_output a) of
        (None, _) \<Rightarrow> Some ([], Inl ''--input is required for generate'')
      | (_, None) \<Rightarrow> Some ([], Inl ''--output is required for generate'')
      | (Some input, Some path) \<Rightarrow>
          (case extract_media_info (ge_probe env) (ga_ffmpeg_path a) input of
             Inl e \<Rightarrow> Some ([], Inl (''Media info extraction failed: '' @ e))
           | Inr info \<Rightarrow>
               if fl_le (mi_duration_secs info) (Fin 0) then Some ([], Inl ''Could not determine video duration'')
               else (case timestamps_of a info of
                  None \<Rightarrow> None
                | Some ts \<Rightarrow>
                    let rows = grid_rows a; cols = grid_cols a info; lines = map (progress_line (rows * cols)) reported;
                        frames = frames_of env a input info ts;
                        re = renderer_new (ge_fonts env) (ga_font_path a) (ga_latin_path a) (ga_cjk_path a) (ga_ts_path a) (ga_color_theme a)
                    in Some (case ge_info_json env info of
                         Inl e \<Rightarrow> (lines, Inl (''Failed to serialize media info: '' @ e))
                       | Inr json \<Rightarrow>
                           let lines = lines @ [media_info_line json]
                           in (case stitch_grid (ge_sheet env) re (options_of a) info frames (thumb_width a info) rows cols path ts of
                                 Inl e \<Rightarrow> (lines, Inl (''Stitching failed: '' @ e))
                               | Inr img \<Rightarrow>
                                   (lines @ [done_line (case sh_canon (ge_sheet env) path of Some p \<Rightarrow> p | None \<Rightarrow> path)], Inr img))))))"

section \<open>The command line\<close>

text \<open>What \<^verbatim>\<open>clap\<close> gives for a command line without options.\<close>

definition generate_defaults :: generate_args where
  "generate_defaults =
     \<lparr>ga_ffmpeg_path = ''ffmpeg'', ga_input = None, ga_output = None, ga_rows = 6, ga_cols = 8, ga_seed = None,
      ga_mode = ''deterministic'', ga_font_path = None, ga_latin_path = None, ga_cjk_path = None, ga_ts_path = None, ga_thumb_width = 320,
      ga_color_theme = ''classic'', ga_show_timestamp = False, ga_branding_text = ''Jellyfin Suite'', ga_no_branding = False,
      ga_no_video_info = False, ga_no_file_size = False, ga_no_resolution_fps = False, ga_no_video_encoding = False,
      ga_no_audio_encoding = False, ga_no_duration = False, ga_no_subtitles = False, ga_lang = ''en'',
      ga_timestamp_position = Inside_Bottom_Left, ga_no_timestamp_bg = False, ga_timestamp_shadow = False,
      ga_timestamp_font_scale = Fin 1, ga_skip_segment = []\<rparr>"

record preview_args =
  va_output :: string
  va_color_theme :: string
  va_font_path :: "string option"
  va_latin_path :: "string option"
  va_cjk_path :: "string option"
  va_ts_path :: "string option"
  va_branding_text :: string
  va_no_branding :: bool
  va_no_video_info :: bool
  va_no_file_size :: bool
  va_no_resolution_fps :: bool
  va_no_video_encoding :: bool
  va_no_audio_encoding :: bool
  va_no_duration :: bool
  va_no_subtitles :: bool
  va_show_timestamp :: bool
  va_no_timestamp_bg :: bool
  va_timestamp_shadow :: bool
  va_timestamp_font_scale :: fl
  va_thumb_width :: nat
  va_rows :: nat
  va_cols :: nat
  va_lang :: string
  va_timestamp_position :: timestamp_position

definition preview_defaults :: preview_args where
  "preview_defaults =
     \<lparr>va_output = ''preview.jpg'', va_color_theme = ''classic'', va_font_path = None, va_latin_path = None, va_cjk_path = None,
      va_ts_path = None, va_branding_text = ''Jellyfin Suite'', va_no_branding = False, va_no_video_info = False,
      va_no_file_size = False, va_no_resolution_fps = False, va_no_video_encoding = False, va_no_audio_encoding = False,
      va_no_duration = False, va_no_subtitles = False, va_show_timestamp = False, va_no_timestamp_bg = False,
      va_timestamp_shadow = False, va_timestamp_font_scale = Fin 1, va_thumb_width = 320, va_rows = 3, va_cols = 2,
      va_lang = ''en'', va_timestamp_position = Inside_Bottom_Left\<rparr>"

definition preview_options :: "preview_args \<Rightarrow> render_options" where
  "preview_options a =
     \<lparr>op_branding_enabled = \<not> va_no_branding a, op_branding_text = va_branding_text a, op_video_info_enabled = \<not> va_no_video_info a,
      op_show_file_size = \<not> va_no_file_size a, op_show_resolution_fps = \<not> va_no_resolution_fps a,
      op_show_video_encoding = \<not> va_no_video_encoding a, op_show_audio_encoding = \<not> va_no_audio_encoding a,
      op_show_duration = \<not> va_no_duration a, op_show_subtitles = \<not> va_no_subtitles a,
      op_show_frame_timestamp = va_show_timestamp a, op_timestamp_bg = \<not> va_no_timestamp_bg a,
      op_timestamp_shadow = va_timestamp_shadow a, op_timestamp_font_scale = va_timestamp_font_scale a, op_lang = va_lang a,
      op_timestamp_position = va_timestamp_position a\<rparr>"

definition run_preview_cmd :: "generate_env \<Rightarrow> preview_args \<Rightarrow> (string list \<times> (string + rgba)) option" where
  "run_preview_cmd env a =
     (let re = renderer_new (ge_fonts env) (va_font_path a) (va_latin_path a) (va_cjk_path a) (va_ts_path a) (va_color_theme a)
      in map_option (\<lambda>r. case r of Inl e \<Rightarrow> ([], Inl e) | Inr (img, line) \<Rightarrow> ([line], Inr img))
           (run_preview (ge_sheet env) re (preview_options a) (va_thumb_width a) (va_rows a) (va_cols a) (va_output a)))"

datatype commands = Generate generate_args | Preview preview_args

record cli =
  cl_command :: "commands option"
  cl_generate :: generate_args

text \<open>The lines printed and the exit code; a panic is exit code 101, its lines are not modelled.\<close>

definition poster_main :: "generate_env \<Rightarrow> cli \<Rightarrow> nat list \<Rightarrow> string list \<times> int" where
  "poster_main env c reported =
     (let result = (case cl_command c of
                      Some (Generate a) \<Rightarrow> run_generate env a reported
                    | Some (Preview a) \<Rightarrow> run_preview_cmd env a
                    | None \<Rightarrow> run_generate env (cl_generate c) reported)
      in case result of
           None \<Rightarrow> ([], 101)
         | Some (lines, Inl _) \<Rightarrow> (lines, 1)
         | Some (lines, Inr _) \<Rightarrow> (lines, 0))"

section \<open>What the workers report\<close>

definition workers_inv :: "nat \<Rightarrow> workers \<Rightarrow> bool" where
  "workers_inv n s \<longleftrightarrow>
     mset (wk_reported s) + image_mset snd (mset (wk_counted s)) = mset [1..<wk_counter s + 1]
     \<and> length (wk_todo s) + wk_counter s = n"

lemma workers_inv_init: "workers_inv n (workers_init n)"
  by (simp add: workers_inv_def workers_init_def)

lemma workers_inv_step:
  assumes "workers_inv n s" and "worker_step s t"
  shows "workers_inv n t"
  using assms(2)
proof (cases rule: worker_step.cases)
  case (count i)
  have "[1..<wk_counter s + 1 + 1] = [1..<wk_counter s + 1] @ [wk_counter s + 1]" by simp
  moreover have "Suc (length (remove1 i (wk_todo s))) = length (wk_todo s)"
    using length_pos_if_in_set [OF count(2)] count(2) by (simp add: length_remove1)
  ultimately show ?thesis using assms(1) count(1) by (simp add: workers_inv_def)
next
  case (report i k)
  have "image_mset snd (mset (wk_counted s)) = add_mset k (image_mset snd (mset (remove1 (i, k) (wk_counted s))))"
    using arg_cong [where f = "image_mset snd", OF insert_DiffM [of "(i, k)" "mset (wk_counted s)"]] report(2)
    by (simp only: set_mset_mset image_mset_add_mset snd_conv mset_remove1)
  then show ?thesis using assms(1) by (simp add: workers_inv_def report(1) del: upt_Suc mset_remove1)
qed

lemma workers_inv_steps: "worker_steps s t \<Longrightarrow> workers_inv n s \<Longrightarrow> workers_inv n t"
  by (induction rule: rtranclp_induct) (auto intro: workers_inv_step)

lemma reported_all:
  assumes "worker_steps (workers_init n) s" and "workers_done s"
  shows "mset (wk_reported s) = mset [1..<n + 1]"
  using workers_inv_steps [OF assms(1) workers_inv_init] assms(2) by (simp add: workers_inv_def workers_done_def)

text \<open>The numbers may come out of order: two workers count, the second reports first.\<close>

theorem progress_may_go_back: "\<exists>s. worker_steps (workers_init 2) s \<and> workers_done s \<and> wk_reported s = [2, 1]"
proof -
  define s1 where "s1 = \<lparr>wk_todo = [1], wk_counter = 1, wk_counted = [(0, 1)], wk_reported = []\<rparr>"
  define s2 where "s2 = \<lparr>wk_todo = [], wk_counter = 2, wk_counted = [(1, 2), (0, 1)], wk_reported = []\<rparr>"
  define s3 where "s3 = \<lparr>wk_todo = [], wk_counter = 2, wk_counted = [(0, 1)], wk_reported = [2]\<rparr>"
  define s4 where "s4 = \<lparr>wk_todo = [], wk_counter = 2, wk_counted = [], wk_reported = [2, 1]\<rparr>"
  have "worker_step (workers_init 2) s1" using count [of 0 "workers_init 2"] by (simp add: workers_init_def s1_def numeral_2_eq_2)
  moreover have "worker_step s1 s2" using count [of 1 s1] by (simp add: s1_def s2_def numeral_2_eq_2)
  moreover have "worker_step s2 s3" using report [of 1 2 s2] by (simp add: s2_def s3_def)
  moreover have "worker_step s3 s4" using report [of 0 1 s3] by (simp add: s3_def s4_def)
  ultimately have "worker_steps (workers_init 2) s4" by (meson converse_rtranclp_into_rtranclp rtranclp.rtrancl_refl)
  then show ?thesis by (intro exI [of _ s4]) (simp add: s4_def workers_done_def)
qed

lemma timestamps_length: "timestamps_of a info = Some ts \<Longrightarrow> length ts = grid_rows a * grid_cols a info"
proof -
  have "length (if r then jittered_timestamps d n seed else even_timestamps d n) = n" for r d n seed
    by (simp add: jittered_timestamps_def even_timestamps_def Let_def)
  moreover have "apply_skip xs d skip = Some ys \<Longrightarrow> length ys = length xs" for xs d skip ys
    by (auto simp: apply_skip_def Let_def split: if_splits option.splits)
  moreover assume "timestamps_of a info = Some ts"
  ultimately show ?thesis unfolding timestamps_of_def Let_def by metis
qed

text \<open>
  C40: The protocol of a run. However the parallel workers interleave, a run that writes the poster prints one progress line for
  every cell, each number from one to the total exactly once, then the media information, and the line that announces the
  picture last; a run that fails never announces one, and one that fails before the frames prints nothing. The picture
  has one frame for every cell, the one extracted at the time stamp of the cell or a blank one where extraction failed.
\<close>

theorem poster_protocol:
  assumes "ga_input a = Some input" and "ga_output a = Some path" and "extract_media_info (ge_probe env) (ga_ffmpeg_path a) input = Inr info"
    and "worker_steps (workers_init (grid_rows a * grid_cols a info)) s" and "workers_done s"
    and "run_generate env a (wk_reported s) = Some (lines, result)"
  shows "\<exists>progress rest. lines = progress @ rest
     \<and> (if fl_le (mi_duration_secs info) (Fin 0) then lines = []
        else mset progress = mset (map (progress_line (grid_rows a * grid_cols a info)) [1..<grid_rows a * grid_cols a info + 1])
             \<and> (\<exists>ts. timestamps_of a info = Some ts \<and> length ts = grid_rows a * grid_cols a info
                  \<and> length (frames_of env a input info ts) = grid_rows a * grid_cols a info
                  \<and> (\<forall>i < grid_rows a * grid_cols a info. frames_of env a input info ts ! i =
                       frame_or_blank (thumb_width a info) (extract_frame (ge_extract env) (ga_ffmpeg_path a) input (ts ! i) (thumb_width a info)))))
     \<and> (case result of
          Inr img \<Rightarrow> (\<exists>json p. ge_info_json env info = Inr json \<and> rest = [media_info_line json, done_line p]
                      \<and> sh_create (ge_sheet env) path = None \<and> sh_encode (ge_sheet env) img = None)
        | Inl e \<Rightarrow> rest = [] \<or> (\<exists>json. rest = [media_info_line json]))"
proof -
  define n where "n = grid_rows a * grid_cols a info"
  have rep: "mset (map (progress_line n) (wk_reported s)) = mset (map (progress_line n) [1..<n + 1])"
    using reported_all [OF assms(4,5)] by (simp only: n_def mset_map)
  show ?thesis
  proof (cases "fl_le (mi_duration_secs info) (Fin 0)")
    case True
    then have "lines = []" "\<exists>e. result = Inl e" using assms(1-3,6) by (auto simp: run_generate_def)
    with True show ?thesis by (intro exI [of _ "[]"]) auto
  next
    case False
    then obtain ts where ts: "timestamps_of a info = Some ts"
      using assms(1-3,6) by (auto simp: run_generate_def split: option.splits)
    have "length ts = n" using ts timestamps_length by (simp add: n_def)
    define progress where "progress = map (progress_line n) (wk_reported s)"
    define rest where "rest = drop (length progress) lines"
    have "lines = progress @ rest \<and> (case result of
          Inr img \<Rightarrow> (\<exists>json p. ge_info_json env info = Inr json \<and> rest = [media_info_line json, done_line p]
                      \<and> sh_create (ge_sheet env) path = None \<and> sh_encode (ge_sheet env) img = None)
        | Inl e \<Rightarrow> rest = [] \<or> (\<exists>json. rest = [media_info_line json]))"
      using assms(1-3,6) False ts
      by (auto simp: run_generate_def rest_def progress_def n_def Let_def stitch_grid_def write_picture_def
          split: sum.splits list.splits option.splits)
    with False ts \<open>length ts = n\<close> rep show ?thesis
      by (intro exI [of _ progress] exI [of _ rest]) (simp add: progress_def frames_of_def Let_def n_def)
  qed
qed

definition demo_info_json :: json where
  "demo_info_json = JObj [(''streams'', JArr [JObj [(''codec_type'', JStr ''video'')]]), (''format'', JObj [(''duration'', JStr ''5000'')])]"

definition demo_run :: generate_env where
  "demo_run =
     \<lparr>ge_probe = \<lparr>pr_spawn = \<lambda>_ _. Inr (Some 0, []), pr_utf8 = \<lambda>_. None, pr_json = \<lambda>_. Inr demo_info_json\<rparr>,
      ge_extract = \<lparr>fx_spawn = \<lambda>_ _. Inr (Some 1, []), fx_decode = \<lambda>_. Inl []\<rparr>,
      ge_fonts = \<lparr>ff_read = \<lambda>_. None, ff_woff2 = \<lambda>_. None, ff_font = \<lambda>_. None\<rparr>,
      ge_sheet = demo_sheet, ge_info_json = \<lambda>_. Inr ''{}''\<rparr>"

definition demo_args :: generate_args where
  "demo_args =
     \<lparr>ga_ffmpeg_path = ''ffmpeg'', ga_input = Some ''a.mkv'', ga_output = Some ''a.webp'', ga_rows = 1, ga_cols = 1, ga_seed = None,
      ga_mode = ''even'', ga_font_path = None, ga_latin_path = None, ga_cjk_path = None, ga_ts_path = None, ga_thumb_width = 320,
      ga_color_theme = ''dark'', ga_show_timestamp = False, ga_branding_text = [], ga_no_branding = True, ga_no_video_info = True,
      ga_no_file_size = False, ga_no_resolution_fps = False, ga_no_video_encoding = False, ga_no_audio_encoding = False,
      ga_no_duration = False, ga_no_subtitles = False, ga_lang = ''en'', ga_timestamp_position = Inside_Bottom_Right,
      ga_no_timestamp_bg = False, ga_timestamp_shadow = False, ga_timestamp_font_scale = Fin 1, ga_skip_segment = []\<rparr>"

theorem poster_protocol_witness:
  "\<exists>s lines img. worker_steps (workers_init 1) s \<and> workers_done s \<and> run_generate demo_run demo_args (wk_reported s) = Some (lines, Inr img)
     \<and> mset (butlast (butlast lines)) = {#''PROGRESS 1/1''#}"
proof -
  define s1 where "s1 = \<lparr>wk_todo = [], wk_counter = 1, wk_counted = [(0, 1)], wk_reported = []\<rparr>"
  define s2 where "s2 = \<lparr>wk_todo = [], wk_counter = 1, wk_counted = [], wk_reported = [1]\<rparr>"
  have "worker_step (workers_init 1) s1" using count [of 0 "workers_init 1"] by (simp add: workers_init_def s1_def)
  moreover have "worker_step s1 s2" using report [of 0 1 s1] by (simp add: s1_def s2_def)
  ultimately have steps: "worker_steps (workers_init 1) s2" by (meson converse_rtranclp_into_rtranclp rtranclp.rtrancl_refl)
  have s2: "workers_done s2" "wk_reported s2 = [1]" by (simp_all add: s2_def workers_done_def)
  have a: "ga_input demo_args = Some ''a.mkv''" "ga_output demo_args = Some ''a.webp''" "ga_ffmpeg_path demo_args = ''ffmpeg''"
    by (simp_all add: demo_args_def)
  define v where "v = JObj [(''codec_type'', JStr ''video'')]"
  define info where "info = info_of demo_info_json [v] v ''a.mkv''"
  have "as_array (field demo_info_json ''streams'') = Some [v]" by (simp add: demo_info_json_def v_def)
  moreover have "List.find (of_kind ''video'') [v] = Some v" by (simp add: v_def of_kind_def)
  ultimately have "parse_ffprobe_json (\<lambda>_. Inr demo_info_json) x ''a.mkv'' = Inr info" for x by (simp add: parse_ffprobe_json_def info_def)
  then have info: "extract_media_info (ge_probe demo_run) ''ffmpeg'' ''a.mkv'' = Inr info"
    by (simp add: demo_run_def extract_media_info_def Let_def)
  have "parsed parse_f64 (field (field demo_info_json ''format'') ''duration'') = parse_f64 ''5000''"
    by (simp add: demo_info_json_def parsed_def)
  then have d: "mi_duration_secs info = (case parse_f64 ''5000'' of Some d \<Rightarrow> d | None \<Rightarrow> Fin 0)"
    unfolding info_def info_of_def Let_def case_prod_beta by (simp only: media_info.simps)
  have pos: "\<not> fl_le (mi_duration_secs info) (Fin 0)" by (simp add: d parse_5000)
  have n: "grid_rows demo_args * grid_cols demo_args info = 1" by (simp add: grid_rows_def grid_cols_def demo_args_def Let_def)
  have m: "timestamps_of demo_args info = Some (even_timestamps (mi_duration_secs info) 1)"
    using n by (simp add: timestamps_of_def Let_def demo_args_def apply_skip_def parse_skip_segments_def List.map_filter_def)
  obtain f where f: "frames_of demo_run demo_args ''a.mkv'' info (even_timestamps (mi_duration_secs info) 1) = [f]"
    by (simp add: frames_of_def even_timestamps_def Let_def)
  obtain lines img where run: "run_generate demo_run demo_args (wk_reported s2) = Some (lines, Inr img)" "length lines = 3"
    using info pos m f
    by (auto simp: run_generate_def a s2 Let_def stitch_grid_def write_picture_def demo_run_def demo_sheet_def)
  have one: "show_nat (Suc 0) = ''1''" by code_simp
  from poster_protocol [OF a(1,2) _ _ s2(1) run(1)] info steps n pos obtain progress rest where p: "lines = progress @ rest"
      "mset progress = {#''PROGRESS 1/1''#}" "length rest = 2"
    by (auto simp: a progress_line_def one)
  then have "butlast (butlast lines) = progress" by (simp add: butlast_append butlast_conv_take)
  with p(2) steps s2(1) run(1) show ?thesis by (intro exI [of _ s2] exI [of _ lines] exI [of _ img]) simp
qed

section \<open>Exit codes\<close>

text \<open>The picture is announced exactly when the program ends with exit code 0.\<close>

lemma announced_iff_success:
  assumes "poster_main env c reported = (lines, code)"
  shows "code = 0 \<longleftrightarrow> (\<exists>p. lines \<noteq> [] \<and> last lines = done_line p)"
proof -
  have line: "progress_line n k \<noteq> done_line p" "media_info_line json \<noteq> done_line p" for n k p json
    by (simp_all add: progress_line_def done_line_def media_info_line_def)
  have run: "\<not> isl r \<longleftrightarrow> (\<exists>p. ls \<noteq> [] \<and> last ls = done_line p)"
    if "run_generate env a reported = Some (ls, r)" for a ls r
  proof (cases r)
    case (Inl e)
    have "ls = [] \<or> (\<exists>n. ls = map (progress_line n) reported) \<or> (\<exists>xs json. ls = xs @ [media_info_line json])"
      using that Inl by (auto simp: run_generate_def Let_def split: option.splits sum.splits if_splits)
    then show ?thesis using Inl line by (cases reported rule: rev_cases) auto
  next
    case (Inr img)
    have "\<exists>xs p. ls = xs @ [done_line p]"
      using that Inr by (auto simp: run_generate_def Let_def split: option.splits sum.splits if_splits)
    then show ?thesis using Inr by auto
  qed
  have preview: "\<not> isl r \<longleftrightarrow> (\<exists>p. ls \<noteq> [] \<and> last ls = done_line p)"
    if "run_preview_cmd env a = Some (ls, r)" for a ls r
    using that by (auto simp: run_preview_cmd_def run_preview_def Let_def done_line_def map_option_case split: option.splits sum.splits)
  show ?thesis
    using assms run preview
    by (fastforce simp: poster_main_def Let_def split: option.splits commands.splits prod.splits sum.splits)
qed

end
