(* ===== verification/Spec2Isabelle.thy ===== *)
theory Spec2Isabelle
  imports Disk_Tasks Seek_Tasks Range_Decode Index_Stream Prefetch_Queue Range_Stream Prefetch_Sessions
    Frame_Quality Forge_Conn Panorama Live_Stitch Face_Restore Poster_Run
begin

text \<open>
  The native programs of the Jellyfin suite (\<^verbatim>\<open>crates/\<close>), modelled in HOL.

  \<^bold>\<open>The program.\<close> The plugin talks to two daemons over Unix sockets. \<^verbatim>\<open>seek-preview\<close> answers requests for one
  frame at a time while the user scrubs, \<^verbatim>\<open>frame-forge\<close> lists the frames of a video, decodes and prefetches ranges of
  frames, and turns selected frames into animations, panoramas and upscaled pictures. Both keep decoded frames on disk
  and in memory, and both decode with FFmpeg; what they share is \<^verbatim>\<open>jfs-common\<close>. A connection is served by one task that
  reads a message type, runs the handler, and goes on or closes; tasks of several connections meet in the shared state
  (the caches, the index of frames, the prefetch queue, the permit for range decoding).

  \<^bold>\<open>Ground.\<close> \<open>Rust_Prelude\<close>: integers of the source at their width, fallible state-passing computations
  (\<open>io\<close>), hash maps. \<open>Rust_Text\<close>: formatting and parsing, JSON text. \<open>Wire\<close>: byte streams, with the two ways a
  connection fails (end of input, refused write). \<open>Float_Model\<close> and \<open>Float_Ops\<close>: \<^verbatim>\<open>f64\<close> and \<^verbatim>\<open>f32\<close> as
  rationals rounded to nearest, with infinities and NaN; their lemmas are monotony and exactness of rounding.
  \<open>Lru\<close>: what the code relies on of the \<^verbatim>\<open>lru\<close> crate. \<open>Gray_Image\<close>: gray pictures.

  \<^bold>\<open>jfs-common.\<close>
  \<^item> \<open>Frame_Times\<close>: frame numbers, file names of cached frames (\<^verbatim>\<open>fps_utils.rs\<close>, \<^verbatim>\<open>disk_cache.rs\<close>).
  \<^item> \<open>Frame_Store\<close>, \<open>Disk_Cache\<close>, \<open>Disk_Index\<close>: \<^verbatim>\<open>disk_cache.rs\<close>. The state is the file system with the
    index and its total; an operation is a call that no other task disturbs. Lemmas: writes stay within the cap, cleanup
    removes the oldest first, a read returns what was last written for the same video, the index
    survives a restart. The interface of the cache is the locale \<open>frame_store\<close> with its extension
    \<open>writable_frame_store\<close>, interpreted on the model of the cache.
  \<^item> \<open>Disk_Tasks\<close>: the same operations taken apart where they give back the lock, as steps of concurrent tasks, with
    lemmas that put them together again. Lemmas: the total covers the entries in every interleaving, it is exact while no
    key is written twice at once, and two such writes make it too large for good.
  \<^item> \<open>Decode_Time\<close>, \<open>Demux\<close>, \<open>Decoder\<close>, \<open>Range_Decode\<close>, \<open>Hw_Decode\<close>: \<^verbatim>\<open>decoder.rs\<close> and
    \<^verbatim>\<open>hwaccel.rs\<close>. Lemmas: conversion of time stamps, order of the index, what a range decode emits for which
    target, the fallback to software, counted device contexts.

  \<^bold>\<open>seek-preview.\<close> \<open>Seek_Preview\<close>: \<^verbatim>\<open>protocol.rs\<close> and \<^verbatim>\<open>server.rs\<close>: one turn of a connection, the memory
  cache of the active item, prefetch batches, the loop with its termination. \<open>Seek_Tasks\<close>: the accesses of concurrent
  connections to the shared memory cache, as steps in any order; whose frames it can hold.

  \<^bold>\<open>frame-forge.\<close>
  \<^item> \<open>Frame_Protocol\<close>: readers and writers of every request (\<^verbatim>\<open>protocol.rs\<close>), with round trips.
  \<^item> \<open>Frame_Index\<close>, \<open>Index_Stream\<close>, \<open>Frame_Windows\<close>: the index of a video, built once and streamed while it is built
    (\<^verbatim>\<open>server.rs\<close>). The demuxes and the relays run as step relations in any order.
  \<^item> \<open>Forge_Frames\<close>, \<open>Forge_Prefetch\<close>, \<open>Prefetch_Queue\<close>, \<open>Range_Stream\<close>, \<open>Prefetch_Sessions\<close>: single frames,
    ranges, the bounded queue and its workers, range streams and how they take turns.
  \<^item> \<open>Scene_Dedup\<close>, \<open>Scene_Classifier\<close>, \<open>Frame_Quality\<close>, \<open>Resources\<close>, \<open>Animation\<close>: what an export computes
    (\<^verbatim>\<open>scene_classifier.rs\<close>, \<^verbatim>\<open>quality.rs\<close>, \<^verbatim>\<open>resources.rs\<close>, \<^verbatim>\<open>animate.rs\<close>).
  \<^item> \<open>Phase_Correlation\<close>, \<open>Seam\<close>, \<open>Panorama\<close>: panoramas of animated scenes (\<^verbatim>\<open>stitch_anime.rs\<close>). Lemmas: displacements
    stay inside a frame, a seam is a cheapest connected path, frames that show parts of one scene are put together to
    that part of the scene.
  \<^item> \<open>Ep_Session\<close>, \<open>Feature_Match\<close>: inference sessions and their fallback to the CPU, the log's calendar
    (\<^verbatim>\<open>gpu_compat.rs\<close>, \<^verbatim>\<open>generation_log.rs\<close>, \<^verbatim>\<open>dl_match.rs\<close>), matchers, how their outputs are read, homographies and the
    checks on them.
  \<^item> \<open>Upscale_Tiles\<close>: tiled super resolution (\<^verbatim>\<open>upscale.rs\<close>), with the error of its blending.
  \<^item> \<open>Pyramid_Blend\<close>: the blending of two pictures (\<^verbatim>\<open>stitch_landscape.rs\<close>): exposure, seams, Laplacian pyramids.
  \<^item> \<open>Pair_Stitch\<close>, \<open>Live_Stitch\<close>: panoramas of landscapes and of live action (\<^verbatim>\<open>stitch_landscape.rs\<close>,
    \<^verbatim>\<open>stitch_liveaction.rs\<close>): warping into a growing canvas, translations, motion masks, and the order in which the methods
    are tried. Lemmas: what a warp keeps, what the mask excludes, that the chain of methods has no error of its own.
  \<^item> \<open>Face_Restore\<close>: faces, cut out, restored and blended back (\<^verbatim>\<open>face_restore.rs\<close>).
  \<^item> \<open>Forge_Exports\<close>, \<open>Forge_Upscale\<close>, \<open>Forge_Conn\<close>: the handlers of exports and upscaling, and the loop of a
    connection. Lemmas: which messages a request is answered with on which path, and that the loop stops unless it waits
    for ever on an index stream whose end was lost.

  \<^bold>\<open>poster-gen.\<close> A program of its own, started by the plugin for every poster; it reads a video and writes one picture.
  \<^item> \<open>Poster_Sampling\<close>: the time stamps a poster shows (\<^verbatim>\<open>sampling.rs\<close>): the intervals left by the segments to skip, even
    and jittered sampling.
  \<^item> \<open>Media_Info\<close>: what is read from the output of \<^verbatim>\<open>ffprobe\<close> (\<^verbatim>\<open>media_info.rs\<close>). Lemmas: which streams are described,
    how sizes are shown.
  \<^item> \<open>Poster_Layout\<close>: the geometry of the grid in 32 bits (\<^verbatim>\<open>image_stitcher.rs\<close>). Lemmas: cells lie in the picture, below
    the header, and do not meet.
  \<^item> \<open>Poster_Draw\<close>, \<open>Poster_Text\<close>, \<open>Poster_Header\<close>, \<open>Poster_Badges\<close>: text in the pixel font and with fonts, themes, the header,
    the badges with time stamps (\<^verbatim>\<open>text_renderer.rs\<close>). Lemmas: which rectangle every drawing step may change, how names are
    shortened, where badges land and which are lost.
  \<^item> \<open>Poster_Code\<close>: the code in its bubble and the logo (\<^verbatim>\<open>qr.rs\<close>, \<^verbatim>\<open>logo.rs\<close>); nothing is drawn outside the bubble.
  \<^item> \<open>Poster_Sheet\<close>: a poster put together (\<^verbatim>\<open>image_stitcher.rs\<close>) and the preview (\<^verbatim>\<open>preview.rs\<close>). Lemmas: every frame is in
    its cell at the end, every step keeps the size, the preview is always drawn. That no text reaches a cell is proved for
    posters without fonts: a font may draw anywhere.
  \<^item> \<open>Poster_Run\<close>: a whole run (\<^verbatim>\<open>run.rs\<close>, \<^verbatim>\<open>frame_extractor.rs\<close>, \<^verbatim>\<open>ipc.rs\<close>, \<^verbatim>\<open>cli.rs\<close>, \<^verbatim>\<open>main.rs\<close>): parallel workers as a step
    relation, the lines on standard output, the commands. Lemmas: the numbers the workers report, the protocol of a run,
    the exit codes.

  \<^bold>\<open>Bounds.\<close> All definitions of the program are total and none uses fuel: loops over input end because they consume it, the
  others by a measure on what is left; the tile loop of \<open>Upscale_Tiles\<close> is a partial function, which a lemma shows to
  end for the steps it is called with. A blocked wait is a parameter (the sequence of what is seen at each look, or that
  nothing will ever be seen) or a step of a relation. \<open>conn_run\<close> counts turns of a connection, and \<open>run_alone\<close>
  steps of one request, to state how many are enough.

  \<^bold>\<open>Concurrency.\<close> Handlers of one connection are functions of the state, as they see it when no other task changes it
  between two of their steps. Where tasks meet and the outcome depends on the order, the steps between two locks are a
  relation of their own: \<open>Disk_Tasks\<close>, \<open>Seek_Tasks\<close>, \<open>Index_Stream\<close>, \<open>Prefetch_Queue\<close>, \<open>Prefetch_Sessions\<close> and
  the workers of \<open>Poster_Run\<close>; \<open>queue_b_demux\<close> takes what the other tasks do between its locks as an argument.

  \<^bold>\<open>Parameters.\<close> FFmpeg (demuxer, decoder, devices), the image codecs and resizing, the \<^verbatim>\<open>lru\<close> crate, the encoders
  of \<^verbatim>\<open>gif\<close> and \<^verbatim>\<open>webpx\<close>, the \<^verbatim>\<open>ffmpeg\<close> binary, one-dimensional Fourier transforms and the cosine, the operations of
  OpenCV (colour conversion, features, nearest matches, homographies and their inverses, warping, template matching,
  its panorama stitcher, detection of faces), overlays, blurring and cutting of the \<^verbatim>\<open>image\<close> crate, the outlines of fonts
  (\<^verbatim>\<open>ab_glyph\<close>) and their decompression, pictures of emoji and of the logo, the modules of the code (\<^verbatim>\<open>qrcode\<close>), the parser of
  \<^verbatim>\<open>serde_json\<close>, runs of \<^verbatim>\<open>ffprobe\<close> and \<^verbatim>\<open>ffmpeg\<close>, ONNX providers and runs, \<^verbatim>\<open>nvidia-smi\<close>, environment
  variables, clocks, the files of \<^verbatim>\<open>/proc\<close> and \<^verbatim>\<open>log2\<close> are arguments of the definitions that use them.
  What is assumed of them is a named hypothesis of the theorem.

  \<^bold>\<open>Not modelled.\<close> Logging; start-up and process set-up of the daemons; the parsing of command lines (\<^verbatim>\<open>clap\<close>);
  \<^verbatim>\<open>webpx-patched\<close>, which is a
  vendored copy of a published crate; the C# plugin and the web front ends.
\<close>

end
